(* ===== verification/Prelude.thy ===== *)
theory Prelude
  imports Main "HOL-Library.Word"
begin

text \<open>
  Shared vocabulary of the development: the widths of the machine integers the Rust code
  uses, Rust's \<open>Result\<close> with its \<open>?\<close> operator, the big-endian byte order of the
  \<open>bytes\<close> crate's \<open>put_u16\<close>/\<open>put_u32\<close>/\<open>put_u64\<close> and of \<open>from_be_bytes\<close>, the checked
  and saturating integer operations of the standard library, and the generic lemmas on
  them. Three collections carry the component proofs: \<open>result_simps\<close> (successful and
  failing runs of a \<open>?\<close> chain), \<open>be_simps\<close> (byte-order round trips) and \<open>codec_simps\<close>
  (serialisers and deserialisers of the wire types).
\<close>

named_theorems result_simps
named_theorems be_simps
named_theorems codec_simps

type_synonym u8 = "8 word"
type_synonym u16 = "16 word"
type_synonym u32 = "32 word"
type_synonym u64 = "64 word"
type_synonym bytes = "u8 list"
type_synonym ('e, 'a) result = "'e + 'a"

subsection \<open>Rust's Result and the question-mark operator\<close>

fun and_then :: "('e, 'a) result \<Rightarrow> ('a \<Rightarrow> ('e, 'b) result) \<Rightarrow> ('e, 'b) result" where
  "and_then (Inl e) f = Inl e"
| "and_then (Inr x) f = f x"

definition ensure :: "bool \<Rightarrow> 'e \<Rightarrow> ('e, unit) result" where
  "ensure b e = (if b then Inr () else Inl e)"

definition ok_or :: "'a option \<Rightarrow> 'e \<Rightarrow> ('e, 'a) result" where
  "ok_or x e = (case x of None \<Rightarrow> Inl e | Some y \<Rightarrow> Inr y)"

definition is_ok :: "('e, 'a) result \<Rightarrow> bool" where
  "is_ok r \<longleftrightarrow> (case r of Inl _ \<Rightarrow> False | Inr _ \<Rightarrow> True)"

lemma is_ok_simps [simp]: "is_ok (Inr x)" "\<not> is_ok (Inl e)"
  by (simp_all add: is_ok_def)

lemma is_ok_iff: "is_ok r \<longleftrightarrow> (\<exists>x. r = Inr x)"
  by (cases r) auto

lemma and_then_Inr_iff [result_simps]:
  "and_then r f = Inr y \<longleftrightarrow> (\<exists>x. r = Inr x \<and> f x = Inr y)"
  by (cases r) auto

lemma and_then_Inl_iff [result_simps]:
  "and_then r f = Inl e \<longleftrightarrow> r = Inl e \<or> (\<exists>x. r = Inr x \<and> f x = Inl e)"
  by (cases r) auto

lemma ensure_Inr_iff [result_simps]: "ensure b e = Inr u \<longleftrightarrow> b"
  by (cases u) (simp add: ensure_def)

lemma ensure_Inl_iff [result_simps]: "ensure b e = Inl e' \<longleftrightarrow> \<not> b \<and> e' = e"
  by (auto simp: ensure_def)

lemma ensure_simps [simp]: "ensure True e = Inr ()" "ensure False e = Inl e"
  by (simp_all add: ensure_def)

lemma ok_or_Inr_iff [result_simps]: "ok_or x e = Inr y \<longleftrightarrow> x = Some y"
  by (cases x) (auto simp: ok_or_def)

lemma ok_or_Inl_iff [result_simps]: "ok_or x e = Inl e' \<longleftrightarrow> x = None \<and> e' = e"
  by (cases x) (auto simp: ok_or_def)

lemma ok_or_simps [simp]: "ok_or (Some x) e = Inr x" "ok_or None e = Inl e"
  by (simp_all add: ok_or_def)

subsection \<open>Checked, saturating and wrapping integer operations\<close>

definition checked_add :: "'w::len word \<Rightarrow> 'w word \<Rightarrow> 'w word option" where
  "checked_add a b = (if unat a + unat b < 2 ^ LENGTH('w) then Some (a + b) else None)"

lemma checked_add_one: "checked_add n 1 = (if n = - 1 then None else Some (n + 1)) \<and> (n \<noteq> - 1 \<longrightarrow> n + 1 \<noteq> 0)" for n :: "'a::len word"
proof -
  have "unat n + 1 < 2 ^ LENGTH('a) \<longleftrightarrow> n \<noteq> - 1"
  proof -
    have "unat n < 2 ^ LENGTH('a)" by (rule unsigned_less)
    moreover have "unat (- 1 :: 'a word) = 2 ^ LENGTH('a) - 1" by (simp add: unsigned_minus_1_eq_mask mask_eq_exp_minus_1)
    moreover have "n = - 1 \<longleftrightarrow> unat n = unat (- 1 :: 'a word)" by (simp add: word_unat_eq_iff)
    ultimately show ?thesis by linarith
  qed
  then show ?thesis by (auto simp: checked_add_def eq_neg_iff_add_eq_0)
qed

text \<open>Evaluation tests for overflow without the modulus.\<close>

lemma checked_add_code [code]: "checked_add a b = (if a \<le> a + b then Some (a + b) else None)" for a b :: "'w::len word"
proof -
  let ?m = "2 ^ LENGTH('w) :: nat"
  have a: "unat a < ?m" and b: "unat b < ?m" by (rule unsigned_less)+
  have "unat a + unat b < ?m \<longleftrightarrow> a \<le> a + b"
  proof (cases "unat a + unat b < ?m")
    case True
    then have "unat (a + b) = unat a + unat b" by (simp add: unat_word_ariths)
    with True show ?thesis by (simp add: word_le_nat_alt)
  next
    case False
    then have "unat (a + b) = (unat a + unat b - ?m) mod ?m" by (simp add: unat_word_ariths le_mod_geq)
    also have "\<dots> = unat a + unat b - ?m" using a b by (intro mod_less) linarith
    finally have "unat (a + b) < unat a" using False b by linarith
    with False show ?thesis by (simp add: word_le_nat_alt)
  qed
  then show ?thesis by (simp add: checked_add_def)
qed

lemma checked_add_Some: "checked_add a b = Some c \<Longrightarrow> unat c = unat a + unat b"
  by (auto simp: checked_add_def unat_word_ariths split: if_splits)

definition saturating_sub :: "nat \<Rightarrow> nat \<Rightarrow> nat" where
  "saturating_sub a b = (if b \<le> a then a - b else 0)"

lemma saturating_sub_eq [simp]: "saturating_sub a b = a - b"
  by (simp add: saturating_sub_def)

lemma unat_less_pow: "unat (w :: 'w::len word) < 2 ^ LENGTH('w)"
  by (rule unsigned_less)

subsection \<open>Big-endian integers\<close>

fun be_bytes :: "nat \<Rightarrow> nat \<Rightarrow> bytes" where
  "be_bytes 0 v = []"
| "be_bytes (Suc n) v = be_bytes n (v div 256) @ [word_of_nat (v mod 256)]"

definition of_be_bytes :: "bytes \<Rightarrow> nat" where
  "of_be_bytes bs = foldl (\<lambda>acc b. acc * 256 + unat b) 0 bs"

lemma length_be_bytes [simp]: "length (be_bytes n v) = n"
  by (induction n arbitrary: v) auto

text \<open>For evaluation on concrete widths.\<close>

lemma be_bytes_numeral:
  "be_bytes (numeral k) v = be_bytes (pred_numeral k) (v div 256) @ [word_of_nat (v mod 256)]"
  by (simp only: numeral_eq_Suc [of k] be_bytes.simps)

lemma of_be_bytes_snoc: "of_be_bytes (bs @ [b]) = of_be_bytes bs * 256 + unat b"
  by (simp add: of_be_bytes_def)

lemma of_be_bytes_Nil [simp]: "of_be_bytes [] = 0"
  by (simp add: of_be_bytes_def)

lemma unat_byte_of_nat: "v < 256 \<Longrightarrow> unat (word_of_nat v :: u8) = v"
  by (simp add: unat_of_nat)

lemma of_be_bytes_be_bytes [be_simps]: "of_be_bytes (be_bytes n v) = v mod 256 ^ n"
proof (induction n arbitrary: v)
  case 0
  show ?case by simp
next
  case (Suc n)
  have "of_be_bytes (be_bytes (Suc n) v) = (v div 256 mod 256 ^ n) * 256 + v mod 256"
    by (simp add: of_be_bytes_snoc Suc.IH unat_of_nat)
  also have "\<dots> = v mod (256 * 256 ^ n)"
    by (simp add: mod_mult2_eq)
  finally show ?case by simp
qed

lemma of_be_bytes_less: "of_be_bytes bs < 256 ^ length bs"
proof (induction bs rule: rev_induct)
  case Nil
  show ?case by simp
next
  case (snoc b bs)
  have "unat b < 256" using unat_less_pow [of b] by simp
  with snoc show ?case by (simp add: of_be_bytes_snoc)
qed

lemma be_bytes_of_be_bytes [be_simps]: "length bs = n \<Longrightarrow> be_bytes n (of_be_bytes bs) = bs"
proof (induction bs arbitrary: n rule: rev_induct)
  case Nil
  then show ?case by simp
next
  case (snoc b bs)
  have b: "unat b < 256" using unat_less_pow [of b] by simp
  from snoc.prems obtain m where m: "n = Suc m" "length bs = m" by simp
  have "(of_be_bytes bs * 256 + unat b) div 256 = of_be_bytes bs"
    and "(of_be_bytes bs * 256 + unat b) mod 256 = unat b"
    using b by simp_all
  with m snoc.IH [OF m(2)] show ?case
    by (simp add: of_be_bytes_snoc)
qed

definition put_u16 :: "u16 \<Rightarrow> bytes" where "put_u16 w = be_bytes 2 (unat w)"
definition put_u32 :: "u32 \<Rightarrow> bytes" where "put_u32 w = be_bytes 4 (unat w)"
definition put_u64 :: "u64 \<Rightarrow> bytes" where "put_u64 w = be_bytes 8 (unat w)"
definition u16_from_be :: "bytes \<Rightarrow> u16" where "u16_from_be bs = word_of_nat (of_be_bytes bs)"
definition u32_from_be :: "bytes \<Rightarrow> u32" where "u32_from_be bs = word_of_nat (of_be_bytes bs)"
definition u64_from_be :: "bytes \<Rightarrow> u64" where "u64_from_be bs = word_of_nat (of_be_bytes bs)"

lemma length_put [simp]:
  "length (put_u16 a) = 2" "length (put_u32 b) = 4" "length (put_u64 c) = 8"
  by (simp_all add: put_u16_def put_u32_def put_u64_def)

lemma unat_mod_256_2: "unat (w :: u16) mod 65536 = unat w"
  using unat_less_pow [of w] by simp

lemma unat_mod_256_4: "unat (w :: u32) mod 4294967296 = unat w"
  using unat_less_pow [of w] by simp

lemma unat_mod_256_8: "unat (w :: u64) mod 18446744073709551616 = unat w"
  using unat_less_pow [of w] by simp

lemma from_be_put [be_simps, simp]:
  "u16_from_be (put_u16 a) = a" "u32_from_be (put_u32 b) = b" "u64_from_be (put_u64 c) = c"
  by (simp_all add: u16_from_be_def put_u16_def u32_from_be_def put_u32_def
      u64_from_be_def put_u64_def of_be_bytes_be_bytes
      unat_mod_256_2 unat_mod_256_4 unat_mod_256_8)

lemma unat_of_be_bytes:
  assumes "256 ^ length bs \<le> (2::nat) ^ LENGTH('w::len)"
  shows "unat (word_of_nat (of_be_bytes bs) :: 'w word) = of_be_bytes bs"
proof -
  have "of_be_bytes bs < 2 ^ LENGTH('w)"
    using of_be_bytes_less [of bs] assms by linarith
  then show ?thesis by (simp add: unat_of_nat)
qed

lemma put_from_be [be_simps]:
  "length bs = 2 \<Longrightarrow> put_u16 (u16_from_be bs) = bs"
  "length bs = 4 \<Longrightarrow> put_u32 (u32_from_be bs) = bs"
  "length bs = 8 \<Longrightarrow> put_u64 (u64_from_be bs) = bs"
  by (simp_all add: put_u16_def u16_from_be_def put_u32_def u32_from_be_def
      put_u64_def u64_from_be_def unat_of_be_bytes be_bytes_of_be_bytes)

subsection \<open>Slices\<close>

text \<open>\<open>subslice a b xs\<close> is Rust's \<open>xs[a..b]\<close>; the callers below check the length first.\<close>

definition subslice :: "nat \<Rightarrow> nat \<Rightarrow> 'a list \<Rightarrow> 'a list" where
  "subslice a b xs = take (b - a) (drop a xs)"

lemma length_subslice [simp]: "a \<le> b \<Longrightarrow> b \<le> length xs \<Longrightarrow> length (subslice a b xs) = b - a"
  by (simp add: subslice_def)

lemma subslice_append_left: "b \<le> length xs \<Longrightarrow> subslice a b (xs @ ys) = subslice a b xs"
  by (simp add: subslice_def)

lemma take_subslice: "a \<le> b \<Longrightarrow> take a xs @ subslice a b xs = take b xs"
  by (metis le_add_diff_inverse subslice_def take_add)

lemma subslice_full: "subslice 0 (length xs) xs = xs"
  by (simp add: subslice_def)

subsection \<open>Strings as UTF-8 bytes\<close>

text \<open>
  A Rust string is its sequence of UTF-8 bytes, kept as a HOL string of the same length;
  \<open>as_bytes\<close> and \<open>string_of_bytes\<close> convert between the two views.
\<close>

definition byte_of_char :: "char \<Rightarrow> u8" where
  "byte_of_char c = word_of_nat (of_char c)"

definition char_of_byte :: "u8 \<Rightarrow> char" where
  "char_of_byte b = char_of (unat b)"

lemma char_of_byte_of_char [simp]: "char_of_byte (byte_of_char c) = c"
  by (simp add: char_of_byte_def byte_of_char_def unat_of_nat)

lemma byte_of_char_of_byte [simp]: "byte_of_char (char_of_byte b) = b"
proof -
  have "unat b < 256" using unat_less_pow [of b] by simp
  then show ?thesis by (simp add: char_of_byte_def byte_of_char_def of_char_of)
qed

lemma byte_of_char_eq_iff [simp]: "byte_of_char c = byte_of_char d \<longleftrightarrow> c = d"
  by (metis char_of_byte_of_char)

definition as_bytes :: "string \<Rightarrow> bytes" where
  "as_bytes s = map byte_of_char s"

definition string_of_bytes :: "bytes \<Rightarrow> string" where
  "string_of_bytes bs = map char_of_byte bs"

lemma length_as_bytes [simp]: "length (as_bytes s) = length s" "length (string_of_bytes bs) = length bs"
  by (simp_all add: as_bytes_def string_of_bytes_def)

lemma as_bytes_inverse [simp]: "string_of_bytes (as_bytes s) = s" "as_bytes (string_of_bytes bs) = bs"
  by (simp_all add: as_bytes_def string_of_bytes_def o_def)

lemma as_bytes_eq_iff [simp]: "as_bytes s = as_bytes t \<longleftrightarrow> s = t"
  by (metis as_bytes_inverse(1))

end
