(* ===== verification/Serde.thy ===== *)
theory Serde
  imports Prelude
begin

text \<open>
  The serialisation interface of the wire types. The structs of \<open>rustgo-protocol\<close> and
  \<open>rustgo-rendezvous\<close> are written in terms of serde's data model (\<open>serialize_bytes\<close>,
  \<open>serialize_str\<close>, \<open>serialize_u16\<close>, derived tuples, sequences, options and enum variants);
  the byte format itself is the third-party crate \<open>postcard\<close>. Here the data model is the
  datatype \<open>sval\<close>, the type a deserialiser asks for is a \<open>schema\<close>, and \<open>postcard\<close> is a
  parameter: a record of its entry points \<open>to_allocvec\<close>, \<open>take_from_bytes\<close> and \<open>from_bytes\<close>.
  What the program relies on is \<open>postcard_faithful\<close>: reading the bytes written for a value
  at its own type gives back the value and the unread rest, a successful read yields a
  value of the type asked for, and \<open>from_bytes\<close> is the same read without the unread rest. The locale \<open>wire_type\<close> is the contract that every struct's
  \<open>Serialize\<close>/\<open>Deserialize\<close> pair meets; its lemmas are what the frame codec and the
  rendezvous envelope use.
\<close>

subsection \<open>UTF-8, the invariant of Rust's String\<close>

definition utf8_cont :: "char \<Rightarrow> bool" where
  "utf8_cont c \<longleftrightarrow> 128 \<le> (of_char c :: nat) \<and> (of_char c :: nat) < 192"

definition utf8_second3 :: "nat \<Rightarrow> char \<Rightarrow> bool" where
  "utf8_second3 b c \<longleftrightarrow> utf8_cont c \<and> (b = 224 \<longrightarrow> 160 \<le> (of_char c :: nat)) \<and>
     (b = 237 \<longrightarrow> (of_char c :: nat) < 160)"

definition utf8_second4 :: "nat \<Rightarrow> char \<Rightarrow> bool" where
  "utf8_second4 b c \<longleftrightarrow> utf8_cont c \<and> (b = 240 \<longrightarrow> 144 \<le> (of_char c :: nat)) \<and>
     (b = 244 \<longrightarrow> (of_char c :: nat) < 144)"

fun utf8_valid :: "string \<Rightarrow> bool" where
  "utf8_valid [] = True"
| "utf8_valid (c # cs) =
     (let b = (of_char c :: nat) in
      if b < 128 then utf8_valid cs
      else if 194 \<le> b \<and> b < 224 then
        (case cs of c1 # r \<Rightarrow> utf8_cont c1 \<and> utf8_valid r | _ \<Rightarrow> False)
      else if 224 \<le> b \<and> b < 240 then
        (case cs of c1 # c2 # r \<Rightarrow> utf8_second3 b c1 \<and> utf8_cont c2 \<and> utf8_valid r | _ \<Rightarrow> False)
      else if 240 \<le> b \<and> b < 245 then
        (case cs of c1 # c2 # c3 # r \<Rightarrow>
           utf8_second4 b c1 \<and> utf8_cont c2 \<and> utf8_cont c3 \<and> utf8_valid r | _ \<Rightarrow> False)
      else False)"

lemma utf8_valid_ascii: "\<forall>c \<in> set cs. (of_char c :: nat) < 128 \<Longrightarrow> utf8_valid cs"
  by (induction cs rule: utf8_valid.induct) (auto simp: Let_def)

subsection \<open>The serde data model\<close>

datatype sval =
    SBool bool
  | SU8 u8
  | SU16 u16
  | SU32 u32
  | SU64 u64
  | SBytes bytes
  | SStr string
  | SOption "sval option"
  | SSeq "sval list"
  | STuple "sval list"
  | SVariant nat sval

datatype schema =
    TBool
  | TU8
  | TU16
  | TU32
  | TU64
  | TBytes
  | TStr
  | TOption schema
  | TSeq schema
  | TTuple "schema list"
  | TEnum "schema list"

primrec has_shape :: "schema \<Rightarrow> sval \<Rightarrow> bool" where
  "has_shape TBool = (\<lambda>v. case v of SBool _ \<Rightarrow> True | _ \<Rightarrow> False)"
| "has_shape TU8 = (\<lambda>v. case v of SU8 _ \<Rightarrow> True | _ \<Rightarrow> False)"
| "has_shape TU16 = (\<lambda>v. case v of SU16 _ \<Rightarrow> True | _ \<Rightarrow> False)"
| "has_shape TU32 = (\<lambda>v. case v of SU32 _ \<Rightarrow> True | _ \<Rightarrow> False)"
| "has_shape TU64 = (\<lambda>v. case v of SU64 _ \<Rightarrow> True | _ \<Rightarrow> False)"
| "has_shape TBytes = (\<lambda>v. case v of SBytes _ \<Rightarrow> True | _ \<Rightarrow> False)"
| "has_shape TStr = (\<lambda>v. case v of SStr s \<Rightarrow> utf8_valid s | _ \<Rightarrow> False)"
| "has_shape (TOption t) =
     (\<lambda>v. case v of SOption None \<Rightarrow> True | SOption (Some w) \<Rightarrow> has_shape t w | _ \<Rightarrow> False)"
| "has_shape (TSeq t) = (\<lambda>v. case v of SSeq vs \<Rightarrow> list_all (has_shape t) vs | _ \<Rightarrow> False)"
| "has_shape (TTuple ts) =
     (\<lambda>v. case v of STuple vs \<Rightarrow> list_all2 (\<lambda>p w. p w) (map has_shape ts) vs | _ \<Rightarrow> False)"
| "has_shape (TEnum ts) =
     (\<lambda>v. case v of SVariant i w \<Rightarrow> i < length ts \<and> (map has_shape ts ! i) w | _ \<Rightarrow> False)"

lemma has_shape_iffs [codec_simps]:
  "has_shape TBool v \<longleftrightarrow> (\<exists>b. v = SBool b)"
  "has_shape TU8 v \<longleftrightarrow> (\<exists>w. v = SU8 w)"
  "has_shape TU16 v \<longleftrightarrow> (\<exists>w. v = SU16 w)"
  "has_shape TU32 v \<longleftrightarrow> (\<exists>w. v = SU32 w)"
  "has_shape TU64 v \<longleftrightarrow> (\<exists>w. v = SU64 w)"
  "has_shape TBytes v \<longleftrightarrow> (\<exists>b. v = SBytes b)"
  "has_shape TStr v \<longleftrightarrow> (\<exists>s. v = SStr s \<and> utf8_valid s)"
  "has_shape (TTuple ts) v \<longleftrightarrow> (\<exists>vs. v = STuple vs \<and> list_all2 has_shape ts vs)"
  by (auto split: sval.splits option.splits simp: list_all2_map1)

lemma has_shape_composite:
  "has_shape (TOption t) v \<longleftrightarrow>
     v = SOption None \<or> (\<exists>w. v = SOption (Some w) \<and> has_shape t w)"
  "has_shape (TSeq t) v \<longleftrightarrow> (\<exists>vs. v = SSeq vs \<and> list_all (has_shape t) vs)"
  "has_shape (TEnum ts) v \<longleftrightarrow> (\<exists>i w. v = SVariant i w \<and> i < length ts \<and> has_shape (ts ! i) w)"
  by (auto split: sval.splits option.splits simp: list_all2_map1)

declare has_shape.simps [simp del]

lemma has_shape_TEnum2:
  "has_shape (TEnum [a, b]) v \<longleftrightarrow>
     (\<exists>w. v = SVariant 0 w \<and> has_shape a w \<or> v = SVariant 1 w \<and> has_shape b w)"
  unfolding has_shape_composite by (auto simp: less_Suc_eq)

lemmas tuple_simps [codec_simps] = list_all2_Cons1 list_all2_Nil bind_eq_Some_conv

subsection \<open>The postcard crate as a parameter\<close>

record postcard =
  pc_to_allocvec :: "sval \<Rightarrow> bytes option"
  pc_take_from_bytes :: "schema \<Rightarrow> bytes \<Rightarrow> (sval \<times> bytes) option"
  pc_from_bytes :: "schema \<Rightarrow> bytes \<Rightarrow> sval option"

definition postcard_faithful :: "postcard \<Rightarrow> bool" where
  "postcard_faithful pc \<longleftrightarrow>
     (\<forall>t v bs rest. has_shape t v \<longrightarrow> pc_to_allocvec pc v = Some bs \<longrightarrow>
        pc_take_from_bytes pc t (bs @ rest) = Some (v, rest)) \<and>
     (\<forall>t bs v rest. pc_take_from_bytes pc t bs = Some (v, rest) \<longrightarrow> has_shape t v) \<and>
     (\<forall>t bs. pc_from_bytes pc t bs = map_option fst (pc_take_from_bytes pc t bs))"

lemma postcard_faithful_take:
  "postcard_faithful pc \<Longrightarrow> has_shape t v \<Longrightarrow> pc_to_allocvec pc v = Some bs \<Longrightarrow>
     pc_take_from_bytes pc t (bs @ rest) = Some (v, rest)"
  by (simp add: postcard_faithful_def)

lemma postcard_faithful_shape:
  "postcard_faithful pc \<Longrightarrow> pc_take_from_bytes pc t bs = Some (v, rest) \<Longrightarrow> has_shape t v"
  unfolding postcard_faithful_def by blast

lemma postcard_faithful_from:
  "postcard_faithful pc \<Longrightarrow> pc_from_bytes pc t bs = map_option fst (pc_take_from_bytes pc t bs)"
  by (simp add: postcard_faithful_def)

text \<open>
  A typed read: postcard drives the type's \<open>Deserialize\<close> implementation, so the read fails
  where the bytes do not hold the shape or where the implementation refuses the value.
\<close>

definition take_value ::
  "postcard \<Rightarrow> schema \<Rightarrow> (sval \<Rightarrow> 'a option) \<Rightarrow> bytes \<Rightarrow> ('a \<times> bytes) option" where
  "take_value pc t de bs =
     (case pc_take_from_bytes pc t bs of
        None \<Rightarrow> None
      | Some (v, rest) \<Rightarrow> (case de v of None \<Rightarrow> None | Some x \<Rightarrow> Some (x, rest)))"

lemma take_value_Some_iff:
  "take_value pc t de bs = Some (x, rest) \<longleftrightarrow>
     (\<exists>v. pc_take_from_bytes pc t bs = Some (v, rest) \<and> de v = Some x)"
  by (auto simp: take_value_def split: option.splits prod.splits)

locale wire_type =
  fixes sch :: schema
    and ser :: "'a \<Rightarrow> sval"
    and de :: "sval \<Rightarrow> 'a option"
    and wf :: "'a \<Rightarrow> bool"
  assumes ser_shape: "wf x \<Longrightarrow> has_shape sch (ser x)"
    and de_ser: "wf x \<Longrightarrow> de (ser x) = Some x"
    and de_wf: "has_shape sch v \<Longrightarrow> de v = Some x \<Longrightarrow> wf x"
    and ser_de: "has_shape sch v \<Longrightarrow> de v = Some x \<Longrightarrow> ser x = v"
begin

lemma take_ser:
  assumes "postcard_faithful pc" and "wf x" and "pc_to_allocvec pc (ser x) = Some bs"
  shows "take_value pc sch de (bs @ rest) = Some (x, rest)"
  using assms by (simp add: take_value_def postcard_faithful_take [OF _ ser_shape] de_ser)

lemma take_ser_all:
  assumes "postcard_faithful pc" and "wf x" and "pc_to_allocvec pc (ser x) = Some bs"
  shows "take_value pc sch de bs = Some (x, [])"
  using take_ser [OF assms, of "[]"] by simp

lemma take_wf:
  assumes "postcard_faithful pc" and "take_value pc sch de bs = Some (x, rest)"
  shows "wf x"
  using assms by (auto simp: take_value_Some_iff intro: de_wf postcard_faithful_shape)

lemma de_iff: "has_shape sch v \<Longrightarrow> de v = Some x \<longleftrightarrow> wf x \<and> v = ser x"
  using de_ser de_wf ser_de by blast

lemma ser_inj: "wf x \<Longrightarrow> wf y \<Longrightarrow> ser x = ser y \<Longrightarrow> x = y"
  by (metis de_ser option.inject)

end

subsection \<open>Leaf types\<close>

definition de_bool :: "sval \<Rightarrow> bool option" where
  "de_bool v = (case v of SBool b \<Rightarrow> Some b | _ \<Rightarrow> None)"

definition de_u8 :: "sval \<Rightarrow> u8 option" where
  "de_u8 v = (case v of SU8 w \<Rightarrow> Some w | _ \<Rightarrow> None)"

definition de_u16 :: "sval \<Rightarrow> u16 option" where
  "de_u16 v = (case v of SU16 w \<Rightarrow> Some w | _ \<Rightarrow> None)"

definition de_u32 :: "sval \<Rightarrow> u32 option" where
  "de_u32 v = (case v of SU32 w \<Rightarrow> Some w | _ \<Rightarrow> None)"

definition de_u64 :: "sval \<Rightarrow> u64 option" where
  "de_u64 v = (case v of SU64 w \<Rightarrow> Some w | _ \<Rightarrow> None)"

definition ser_option :: "('a \<Rightarrow> sval) \<Rightarrow> 'a option \<Rightarrow> sval" where
  "ser_option ser x = SOption (map_option ser x)"

definition de_option :: "(sval \<Rightarrow> 'a option) \<Rightarrow> sval \<Rightarrow> 'a option option" where
  "de_option de v = (case v of
      SOption None \<Rightarrow> Some None
    | SOption (Some w) \<Rightarrow> (case de w of None \<Rightarrow> None | Some x \<Rightarrow> Some (Some x))
    | _ \<Rightarrow> None)"

text \<open>A fixed array \<open>[u8; N]\<close> is a tuple of \<open>N\<close> bytes in serde's data model.\<close>

definition sch_array :: "nat \<Rightarrow> schema" where
  "sch_array n = TTuple (replicate n TU8)"

definition ser_array :: "bytes \<Rightarrow> sval" where
  "ser_array bs = STuple (map SU8 bs)"

definition de_array :: "nat \<Rightarrow> sval \<Rightarrow> bytes option" where
  "de_array n v = (case v of
      STuple vs \<Rightarrow> if length vs = n then those (map de_u8 vs) else None
    | _ \<Rightarrow> None)"

definition wf_opt :: "('a \<Rightarrow> bool) \<Rightarrow> 'a option \<Rightarrow> bool" where
  "wf_opt P x = (case x of None \<Rightarrow> True | Some y \<Rightarrow> P y)"

lemma wf_opt_simps [simp]: "wf_opt P None" "wf_opt P (Some x) = P x"
  by (simp_all add: wf_opt_def)

lemma de_leaf_iffs [codec_simps]:
  "de_bool v = Some b \<longleftrightarrow> v = SBool b"
  "de_u8 v = Some w8 \<longleftrightarrow> v = SU8 w8"
  "de_u16 v = Some w16 \<longleftrightarrow> v = SU16 w16"
  "de_u32 v = Some w32 \<longleftrightarrow> v = SU32 w32"
  "de_u64 v = Some w64 \<longleftrightarrow> v = SU64 w64"
  by (auto simp: de_bool_def de_u8_def de_u16_def de_u32_def de_u64_def split: sval.splits)

lemma de_leaf_simps [simp]:
  "de_bool (SBool b) = Some b" "de_u8 (SU8 w8) = Some w8" "de_u16 (SU16 w16) = Some w16"
  "de_u32 (SU32 w32) = Some w32" "de_u64 (SU64 w64) = Some w64"
  by (simp_all add: codec_simps)

lemma those_Some_iff: "those xs = Some ys \<longleftrightarrow> xs = map Some ys"
  by (induction xs arbitrary: ys) (auto split: option.splits)

lemma those_map_Some_iff: "those (map f vs) = Some ys \<longleftrightarrow> map f vs = map Some ys"
  by (rule those_Some_iff)

lemma map_de_u8_iff: "map de_u8 vs = map Some bs \<longleftrightarrow> vs = map SU8 bs"
proof (induction vs arbitrary: bs)
  case Nil
  then show ?case by auto
next
  case (Cons v vs)
  then show ?case by (cases bs) (auto simp: de_leaf_iffs)
qed

lemma de_array_iff [codec_simps]: "de_array n v = Some bs \<longleftrightarrow> v = ser_array bs \<and> length bs = n"
  by (auto simp: de_array_def ser_array_def those_map_Some_iff map_de_u8_iff split: sval.splits)

lemma ser_array_shape [simp]: "has_shape (sch_array n) (ser_array bs) \<longleftrightarrow> length bs = n"
  by (auto simp: sch_array_def ser_array_def has_shape_iffs has_shape_composite list_all2_conv_all_nth)

lemma wire_type_array: "wire_type (sch_array n) ser_array (de_array n) (\<lambda>bs. length bs = n)"
  by unfold_locales (auto simp: de_array_iff)

lemma wire_type_u16: "wire_type TU16 SU16 de_u16 (\<lambda>_. True)"
  by unfold_locales (auto simp: codec_simps)

lemma wire_type_u64: "wire_type TU64 SU64 de_u64 (\<lambda>_. True)"
  by unfold_locales (auto simp: codec_simps)

lemma de_option_iff:
  "de_option de v = Some x \<longleftrightarrow>
     (v = SOption None \<and> x = None) \<or> (\<exists>u y. v = SOption (Some u) \<and> de u = Some y \<and> x = Some y)"
  by (auto simp: de_option_def split: sval.splits option.splits)

lemma wire_type_option:
  assumes "wire_type t ser de P"
  shows "wire_type (TOption t) (ser_option ser) (de_option de) (wf_opt P)"
proof -
  note w = assms [unfolded wire_type_def]
  show ?thesis
  proof (unfold_locales, goal_cases)
    case (1 x) then show ?case using w by (cases x) (auto simp: ser_option_def has_shape_iffs has_shape_composite)
  next
    case (2 x) then show ?case using w by (cases x) (auto simp: ser_option_def de_option_def)
  next
    case (3 v x) then show ?case
      using w by (auto simp: de_option_iff has_shape_iffs has_shape_composite)
  next
    case (4 v x) then show ?case
      using w by (auto simp: de_option_iff has_shape_iffs has_shape_composite ser_option_def)
  qed
qed

text \<open>
  A derived sequence: the elements in order. The bound of a \<open>BoundedVec\<close> is checked by its
  own deserialiser in the protocol theory.
\<close>

definition de_seq :: "(sval \<Rightarrow> 'a option) \<Rightarrow> sval \<Rightarrow> 'a list option" where
  "de_seq de v = (case v of SSeq vs \<Rightarrow> those (map de vs) | _ \<Rightarrow> None)"

definition ser_seq :: "('a \<Rightarrow> sval) \<Rightarrow> 'a list \<Rightarrow> sval" where
  "ser_seq ser xs = SSeq (map ser xs)"

lemma map_de_wire:
  assumes "wire_type t ser de P" and "list_all (has_shape t) vs" and "map de vs = map Some xs"
  shows "map ser xs = vs \<and> list_all P xs"
  using assms(2,3)
proof (induction vs arbitrary: xs)
  case Nil
  then show ?case by simp
next
  case (Cons v vs)
  then obtain y ys where "xs = y # ys" "de v = Some y" by (cases xs) auto
  with Cons show ?case
    using wire_type.de_wf [OF assms(1)] wire_type.ser_de [OF assms(1)] by auto
qed

lemma wire_type_seq:
  assumes "wire_type t ser de P"
  shows "wire_type (TSeq t) (ser_seq ser) (de_seq de) (list_all P)"
proof (unfold_locales, goal_cases)
  case (1 xs)
  then show ?case
    using wire_type.ser_shape [OF assms] by (auto simp: ser_seq_def has_shape_iffs has_shape_composite list_all_iff)
next
  case (2 xs)
  then show ?case
    using wire_type.de_ser [OF assms]
    by (auto simp: ser_seq_def de_seq_def those_Some_iff list_all_iff)
next
  case (3 v xs)
  then show ?case
    using map_de_wire [OF assms] by (auto simp: de_seq_def has_shape_iffs has_shape_composite those_Some_iff)
next
  case (4 v xs)
  then show ?case
    using map_de_wire [OF assms] by (auto simp: de_seq_def ser_seq_def has_shape_iffs has_shape_composite those_Some_iff)
qed

text \<open>An enum without payloads is the index of its variant.\<close>

definition sch_unit_enum :: "'a list \<Rightarrow> schema" where
  "sch_unit_enum xs = TEnum (replicate (length xs) (TTuple []))"

definition ser_unit_enum :: "('a \<Rightarrow> nat) \<Rightarrow> 'a \<Rightarrow> sval" where
  "ser_unit_enum index x = SVariant (index x) (STuple [])"

definition de_unit_enum :: "'a list \<Rightarrow> sval \<Rightarrow> 'a option" where
  "de_unit_enum xs v = (case v of
      SVariant i (STuple []) \<Rightarrow> if i < length xs then Some (xs ! i) else None
    | _ \<Rightarrow> None)"

lemma wire_type_unit_enum:
  assumes "\<And>x. index x < length xs \<and> xs ! index x = x" and "distinct xs"
  shows "wire_type (sch_unit_enum xs) (ser_unit_enum index) (de_unit_enum xs) (\<lambda>_. True)"
proof -
  have "i < length xs \<Longrightarrow> index (xs ! i) = i" for i
    using assms by (metis nth_eq_iff_index_eq)
  with assms(1) show ?thesis
    by unfold_locales
      (auto simp: sch_unit_enum_def ser_unit_enum_def de_unit_enum_def has_shape_composite
        codec_simps split: if_splits)
qed

end
