(* ===== verification/Protocol_Types.thy ===== *)
theory Protocol_Types
  imports Serde
begin

text \<open>
  The wire types of \<open>rustgo-protocol/src/message.rs\<close>: the bounded byte strings, strings and vectors
  with their length checks on construction and on deserialisation, the message identifiers and
  their payload limits, the closed newtypes, and every message body with its serde schema, its
  serialiser, its deserialiser (the hand-written guards included) and the invariant its Rust type
  carries. Each body interprets the locale \<open>wire_type\<close>, which is what the frame codec and the
  rendezvous envelope rest on.
\<close>

subsection \<open>Bounded values\<close>

record BoundExceeded =
  be_actual :: nat
  be_max :: nat

definition BoundedBytes_try_from :: "nat \<Rightarrow> bytes \<Rightarrow> (BoundExceeded, bytes) result" where
  "BoundedBytes_try_from bound value =
     (if length value > bound then Inl \<lparr>be_actual = length value, be_max = bound\<rparr> else Inr value)"

definition BoundedString_try_from :: "nat \<Rightarrow> string \<Rightarrow> (BoundExceeded, string) result" where
  "BoundedString_try_from bound value =
     (if length value > bound then Inl \<lparr>be_actual = length value, be_max = bound\<rparr> else Inr value)"

definition BoundedVec_try_from :: "nat \<Rightarrow> 'a list \<Rightarrow> (BoundExceeded, 'a list) result" where
  "BoundedVec_try_from bound value =
     (if length value > bound then Inl \<lparr>be_actual = length value, be_max = bound\<rparr> else Inr value)"

definition ser_BoundedBytes :: "bytes \<Rightarrow> sval" where
  "ser_BoundedBytes b = SBytes b"

definition de_BoundedBytes :: "nat \<Rightarrow> sval \<Rightarrow> bytes option" where
  "de_BoundedBytes bound v = (case v of
      SBytes b \<Rightarrow> (case BoundedBytes_try_from bound b of Inl _ \<Rightarrow> None | Inr x \<Rightarrow> Some x)
    | _ \<Rightarrow> None)"

definition ser_BoundedString :: "string \<Rightarrow> sval" where
  "ser_BoundedString s = SStr s"

definition de_BoundedString :: "nat \<Rightarrow> sval \<Rightarrow> string option" where
  "de_BoundedString bound v = (case v of
      SStr s \<Rightarrow> (case BoundedString_try_from bound s of Inl _ \<Rightarrow> None | Inr x \<Rightarrow> Some x)
    | _ \<Rightarrow> None)"

definition ser_BoundedVec :: "('a \<Rightarrow> sval) \<Rightarrow> 'a list \<Rightarrow> sval" where
  "ser_BoundedVec ser xs = ser_seq ser xs"

text \<open>
  \<open>visit_seq\<close> first refuses a size hint above the bound, then reads element by element and
  refuses the element that would exceed it.
\<close>

fun visit_elements :: "nat \<Rightarrow> (sval \<Rightarrow> 'a option) \<Rightarrow> 'a list \<Rightarrow> sval list \<Rightarrow> 'a list option" where
  "visit_elements bound de acc [] = Some acc"
| "visit_elements bound de acc (v # vs) =
     (case de v of
        None \<Rightarrow> None
      | Some x \<Rightarrow> if length acc = bound then None else visit_elements bound de (acc @ [x]) vs)"

definition visit_seq :: "nat \<Rightarrow> (sval \<Rightarrow> 'a option) \<Rightarrow> nat option \<Rightarrow> sval list \<Rightarrow> 'a list option" where
  "visit_seq bound de size_hint vs =
     (let hint = (case size_hint of None \<Rightarrow> 0 | Some n \<Rightarrow> n) in
      if hint > bound then None else visit_elements bound de [] vs)"

definition de_BoundedVec :: "nat \<Rightarrow> (sval \<Rightarrow> 'a option) \<Rightarrow> sval \<Rightarrow> 'a list option" where
  "de_BoundedVec bound de v = (case v of
      SSeq vs \<Rightarrow> visit_seq bound de (Some (length vs)) vs
    | _ \<Rightarrow> None)"

definition wf_BoundedBytes :: "nat \<Rightarrow> bytes \<Rightarrow> bool" where
  "wf_BoundedBytes bound b \<longleftrightarrow> length b \<le> bound"

definition wf_BoundedString :: "nat \<Rightarrow> string \<Rightarrow> bool" where
  "wf_BoundedString bound s \<longleftrightarrow> length s \<le> bound \<and> utf8_valid s"

definition wf_BoundedVec :: "nat \<Rightarrow> ('a \<Rightarrow> bool) \<Rightarrow> 'a list \<Rightarrow> bool" where
  "wf_BoundedVec bound P xs \<longleftrightarrow> length xs \<le> bound \<and> list_all P xs"

definition wf_array :: "nat \<Rightarrow> bytes \<Rightarrow> bool" where
  "wf_array n b \<longleftrightarrow> length b = n"

lemma visit_elements_Some_iff:
  "length acc \<le> bound \<Longrightarrow> visit_elements bound de acc vs = Some ys \<longleftrightarrow>
     (\<exists>xs. ys = acc @ xs \<and> map de vs = map Some xs \<and> length ys \<le> bound)"
proof (induction vs arbitrary: acc ys)
  case Nil
  then show ?case by auto
next
  case (Cons v vs)
  show ?case
  proof (cases "de v")
    case None
    then show ?thesis by (auto simp: Cons_eq_map_conv)
  next
    case (Some x)
    show ?thesis
    proof (cases "length acc = bound")
      case True
      then show ?thesis by (auto simp: Some Cons_eq_map_conv)
    next
      case False
      with Cons.prems have "length (acc @ [x]) \<le> bound" by simp
      from Cons.IH [OF this] show ?thesis
        using False by (auto simp: Some Cons_eq_map_conv)
    qed
  qed
qed

lemma de_BoundedVec_iff:
  "de_BoundedVec bound de v = Some xs \<longleftrightarrow> de_seq de v = Some xs \<and> length xs \<le> bound"
proof (cases v)
  case (SSeq vs)
  have "map de vs = map Some xs \<Longrightarrow> length vs = length xs" by (metis length_map)
  then show ?thesis
    by (auto simp: de_BoundedVec_def visit_seq_def de_seq_def those_Some_iff SSeq
        visit_elements_Some_iff)
qed (simp_all add: de_BoundedVec_def de_seq_def)

text \<open>The size hint is an optimisation: a deserialiser that gives none is refused as well.\<close>

lemma visit_seq_hint:
  "visit_seq bound de (Some (length vs)) vs = visit_seq bound de None vs"
proof (cases "length vs > bound")
  case True
  have "visit_elements bound de [] vs = None"
  proof (cases "visit_elements bound de [] vs")
    case (Some ys)
    then obtain xs where "map de vs = map Some xs" and "length xs \<le> bound"
      by (auto simp: visit_elements_Some_iff)
    then have "length vs \<le> bound" by (metis length_map)
    with True show ?thesis by simp
  qed simp
  with True show ?thesis by (simp add: visit_seq_def)
qed (simp add: visit_seq_def)

lemma wire_type_BoundedVec:
  assumes "wire_type t ser de P"
  shows "wire_type (TSeq t) (ser_BoundedVec ser) (de_BoundedVec bound de) (wf_BoundedVec bound P)"
proof -
  note w = wire_type_seq [OF assms]
  show ?thesis
    using wire_type.ser_shape [OF w] wire_type.de_ser [OF w] wire_type.de_wf [OF w]
      wire_type.ser_de [OF w]
    by unfold_locales (auto simp: de_BoundedVec_iff wf_BoundedVec_def ser_BoundedVec_def)
qed

lemma de_bounded_iffs [codec_simps]:
  "de_BoundedBytes bound v = Some b \<longleftrightarrow> v = SBytes b \<and> length b \<le> bound"
  "de_BoundedString bound v = Some s \<longleftrightarrow> v = SStr s \<and> length s \<le> bound"
  by (auto simp: de_BoundedBytes_def de_BoundedString_def BoundedBytes_try_from_def
      BoundedString_try_from_def split: sval.splits if_splits)

lemmas bounded_defs [codec_simps] =
  ser_BoundedBytes_def ser_BoundedString_def wf_BoundedBytes_def wf_BoundedString_def wf_array_def

lemma wire_type_BoundedBytes: "wire_type TBytes ser_BoundedBytes (de_BoundedBytes n) (wf_BoundedBytes n)"
  by unfold_locales (auto simp: codec_simps)

lemma wire_type_BoundedString: "wire_type TStr ser_BoundedString (de_BoundedString n) (wf_BoundedString n)"
  by unfold_locales (auto simp: codec_simps)

subsection \<open>Limits of the wire protocol\<close>

definition MAX_MANAGED_CONFIGURATION_BYTES :: nat where "MAX_MANAGED_CONFIGURATION_BYTES = 65536"
definition MAX_CLIENT_NAME_BYTES :: nat where "MAX_CLIENT_NAME_BYTES = 128"
definition MAX_FINGERPRINT_BYTES :: nat where "MAX_FINGERPRINT_BYTES = 64"
definition MAX_CHALLENGE_BYTES :: nat where "MAX_CHALLENGE_BYTES = 64"
definition MAX_SESSION_ID_BYTES :: nat where "MAX_SESSION_ID_BYTES = 32"
definition MAX_PUBLIC_KEY_BYTES :: nat where "MAX_PUBLIC_KEY_BYTES = 64"
definition MAX_SIGNATURE_BYTES :: nat where "MAX_SIGNATURE_BYTES = 128"
definition MAX_BINDING_TOKEN_BYTES :: nat where "MAX_BINDING_TOKEN_BYTES = 64"
definition MAX_TUNNELS :: nat where "MAX_TUNNELS = 64"
definition MAX_TUNNEL_NAME_BYTES :: nat where "MAX_TUNNEL_NAME_BYTES = 128"
definition MAX_UDP_PAYLOAD_BYTES :: nat where "MAX_UDP_PAYLOAD_BYTES = 65507"
definition MAX_UDP_SESSIONS_PER_TUNNEL :: u32 where "MAX_UDP_SESSIONS_PER_TUNNEL = 1000000"
definition MAX_UDP_QUEUE_CAPACITY :: u32 where "MAX_UDP_QUEUE_CAPACITY = 65536"
definition UDP_METADATA_LEN :: nat where "UDP_METADATA_LEN = 31"
definition MAX_ERROR_DETAIL_BYTES :: nat where "MAX_ERROR_DETAIL_BYTES = 512"
definition MAX_RENDEZVOUS_ENVELOPE_BYTES :: nat where "MAX_RENDEZVOUS_ENVELOPE_BYTES = 16 * 1024"
definition MAX_PEER_RELAY_FRAME_BYTES :: nat where "MAX_PEER_RELAY_FRAME_BYTES = 65600"
definition MAX_OBSERVATION_GRANT_BYTES :: nat where "MAX_OBSERVATION_GRANT_BYTES = 96"
definition MAX_SERVER_NOTICE_BYTES :: nat where "MAX_SERVER_NOTICE_BYTES = 1024"
definition MAX_ENROLLMENT_KEY_BYTES :: nat where "MAX_ENROLLMENT_KEY_BYTES = 512"
definition MAX_ENROLLMENT_REQUEST_ID_BYTES :: nat where "MAX_ENROLLMENT_REQUEST_ID_BYTES = 128"
definition MAX_TELEMETRY_REPORT_BYTES :: nat where "MAX_TELEMETRY_REPORT_BYTES = 83"

lemmas limit_defs =
  MAX_MANAGED_CONFIGURATION_BYTES_def MAX_CLIENT_NAME_BYTES_def MAX_FINGERPRINT_BYTES_def
  MAX_CHALLENGE_BYTES_def MAX_SESSION_ID_BYTES_def MAX_PUBLIC_KEY_BYTES_def
  MAX_SIGNATURE_BYTES_def MAX_BINDING_TOKEN_BYTES_def MAX_TUNNELS_def MAX_TUNNEL_NAME_BYTES_def
  MAX_UDP_PAYLOAD_BYTES_def MAX_UDP_SESSIONS_PER_TUNNEL_def MAX_UDP_QUEUE_CAPACITY_def
  UDP_METADATA_LEN_def MAX_ERROR_DETAIL_BYTES_def MAX_RENDEZVOUS_ENVELOPE_BYTES_def
  MAX_PEER_RELAY_FRAME_BYTES_def MAX_OBSERVATION_GRANT_BYTES_def MAX_SERVER_NOTICE_BYTES_def
  MAX_ENROLLMENT_KEY_BYTES_def MAX_ENROLLMENT_REQUEST_ID_BYTES_def MAX_TELEMETRY_REPORT_BYTES_def

subsection \<open>Message identifiers\<close>

datatype MessageId = MessageId (MessageId_as_u16: u16)

definition CLIENT_HELLO :: MessageId where "CLIENT_HELLO = MessageId 1"

definition SERVER_CHALLENGE :: MessageId where "SERVER_CHALLENGE = MessageId 2"

definition CLIENT_AUTHENTICATE :: MessageId where "CLIENT_AUTHENTICATE = MessageId 3"

definition AUTH_RESULT :: MessageId where "AUTH_RESULT = MessageId 4"

definition REGISTER_TUNNELS :: MessageId where "REGISTER_TUNNELS = MessageId 5"

definition TUNNEL_RESULTS :: MessageId where "TUNNEL_RESULTS = MessageId 6"

definition OPEN_TCP_STREAM :: MessageId where "OPEN_TCP_STREAM = MessageId 7"

definition TCP_STREAM_READY :: MessageId where "TCP_STREAM_READY = MessageId 8"

definition UDP_DATAGRAM :: MessageId where "UDP_DATAGRAM = MessageId 9"

definition HEARTBEAT :: MessageId where "HEARTBEAT = MessageId 10"

definition ERROR :: MessageId where "ERROR = MessageId 11"

definition OPEN_UDP_CHANNEL :: MessageId where "OPEN_UDP_CHANNEL = MessageId 12"

definition DATA_CHANNEL_BIND :: MessageId where "DATA_CHANNEL_BIND = MessageId 13"

definition UDP_SESSION_RETIRED :: MessageId where "UDP_SESSION_RETIRED = MessageId 14"

definition RENDEZVOUS_REQUEST :: MessageId where "RENDEZVOUS_REQUEST = MessageId 15"

definition RENDEZVOUS_PROVIDER_DECISION :: MessageId where "RENDEZVOUS_PROVIDER_DECISION = MessageId 16"

definition RENDEZVOUS_CANDIDATE_SET :: MessageId where "RENDEZVOUS_CANDIDATE_SET = MessageId 17"

definition RENDEZVOUS_CONNECTIVITY_RESULT :: MessageId where "RENDEZVOUS_CONNECTIVITY_RESULT = MessageId 18"

definition RENDEZVOUS_RELAY_REQUEST :: MessageId where "RENDEZVOUS_RELAY_REQUEST = MessageId 19"

definition RENDEZVOUS_CLOSE :: MessageId where "RENDEZVOUS_CLOSE = MessageId 20"

definition RENDEZVOUS_ERROR :: MessageId where "RENDEZVOUS_ERROR = MessageId 21"

definition PEER_RELAY_FRAME :: MessageId where "PEER_RELAY_FRAME = MessageId 22"

definition OBSERVATION_GRANT_REQUEST :: MessageId where "OBSERVATION_GRANT_REQUEST = MessageId 23"

definition OBSERVATION_GRANT :: MessageId where "OBSERVATION_GRANT = MessageId 24"

definition SERVER_NOTICE :: MessageId where "SERVER_NOTICE = MessageId 25"

definition PEER_IDENTITY_BINDING :: MessageId where "PEER_IDENTITY_BINDING = MessageId 26"

definition PEER_IDENTITY_LOOKUP :: MessageId where "PEER_IDENTITY_LOOKUP = MessageId 27"

definition RENDEZVOUS_CANDIDATE_SET_V2 :: MessageId where "RENDEZVOUS_CANDIDATE_SET_V2 = MessageId 28"

definition PUNCH_GRANT :: MessageId where "PUNCH_GRANT = MessageId 29"

definition TELEMETRY_REPORT :: MessageId where "TELEMETRY_REPORT = MessageId 30"

definition ENROLLMENT_REQUEST :: MessageId where "ENROLLMENT_REQUEST = MessageId 31"

definition ENROLLMENT_RESULT :: MessageId where "ENROLLMENT_RESULT = MessageId 32"

definition MANAGED_CONFIG_REQUEST :: MessageId where "MANAGED_CONFIG_REQUEST = MessageId 33"

definition MANAGED_CONFIG_SNAPSHOT :: MessageId where "MANAGED_CONFIG_SNAPSHOT = MessageId 34"

definition MANAGED_CONFIG_REPORT :: MessageId where "MANAGED_CONFIG_REPORT = MessageId 35"

definition MANAGED_CONFIG_UPDATE :: MessageId where "MANAGED_CONFIG_UPDATE = MessageId 36"

definition MANAGED_CONFIG_UPDATE_RESULT :: MessageId where "MANAGED_CONFIG_UPDATE_RESULT = MessageId 37"

lemmas message_id_defs =
  CLIENT_HELLO_def SERVER_CHALLENGE_def CLIENT_AUTHENTICATE_def AUTH_RESULT_def
  REGISTER_TUNNELS_def TUNNEL_RESULTS_def OPEN_TCP_STREAM_def TCP_STREAM_READY_def
  UDP_DATAGRAM_def HEARTBEAT_def ERROR_def OPEN_UDP_CHANNEL_def
  DATA_CHANNEL_BIND_def UDP_SESSION_RETIRED_def RENDEZVOUS_REQUEST_def RENDEZVOUS_PROVIDER_DECISION_def
  RENDEZVOUS_CANDIDATE_SET_def RENDEZVOUS_CONNECTIVITY_RESULT_def RENDEZVOUS_RELAY_REQUEST_def RENDEZVOUS_CLOSE_def
  RENDEZVOUS_ERROR_def PEER_RELAY_FRAME_def OBSERVATION_GRANT_REQUEST_def OBSERVATION_GRANT_def
  SERVER_NOTICE_def PEER_IDENTITY_BINDING_def PEER_IDENTITY_LOOKUP_def RENDEZVOUS_CANDIDATE_SET_V2_def
  PUNCH_GRANT_def TELEMETRY_REPORT_def ENROLLMENT_REQUEST_def ENROLLMENT_RESULT_def
  MANAGED_CONFIG_REQUEST_def MANAGED_CONFIG_SNAPSHOT_def MANAGED_CONFIG_REPORT_def MANAGED_CONFIG_UPDATE_def
  MANAGED_CONFIG_UPDATE_RESULT_def

definition MessageId_max_payload :: "MessageId \<Rightarrow> nat" where
  "MessageId_max_payload m =
     (let v = unat (MessageId_as_u16 m) in
      if v = 1 then 256
      else if v = 2 then 128
      else if v = 3 then 256
      else if v = 4 then 16
      else if v = 5 then 32 * 1024
      else if v = 6 then 8 * 1024
      else if v = 7 then 160
      else if v = 8 then 32
      else if v = 9 then UDP_METADATA_LEN + MAX_UDP_PAYLOAD_BYTES
      else if v = 10 then 16
      else if v = 11 then 1024
      else if v = 12 then 96
      else if v = 13 then 384
      else if v = 14 then 32
      else if 15 \<le> v \<and> v \<le> 21 then MAX_RENDEZVOUS_ENVELOPE_BYTES
      else if v = 22 then MAX_PEER_RELAY_FRAME_BYTES
      else if v = 23 then 0
      else if v = 24 then MAX_OBSERVATION_GRANT_BYTES
      else if v = 25 then MAX_SERVER_NOTICE_BYTES
      else if v = 26 then 512
      else if v = 27 then 256
      else if v = 28 then MAX_RENDEZVOUS_ENVELOPE_BYTES
      else if v = 29 then 160
      else if v = 30 then MAX_TELEMETRY_REPORT_BYTES
      else if v = 31 then 1024
      else if v = 32 then 256
      else if v = 33 then MAX_MANAGED_CONFIGURATION_BYTES + 3
      else if v = 34 then MAX_MANAGED_CONFIGURATION_BYTES + 14
      else if v = 35 then MAX_MANAGED_CONFIGURATION_BYTES + 13
      else if v = 36 then MAX_MANAGED_CONFIGURATION_BYTES + 13
      else if v = 37 then 1024 + 13
      else 0)"

definition MessageId_try_from :: "u16 \<Rightarrow> (u16, MessageId) result" where
  "MessageId_try_from value =
     (if 1 \<le> value \<and> value \<le> 37 then Inr (MessageId value) else Inl value)"

subsection \<open>Newtypes with a closed set of values\<close>

datatype ProtocolErrorCode = ProtocolErrorCode (ProtocolErrorCode_as_u16: u16)

definition UNSUPPORTED_VERSION :: ProtocolErrorCode where "UNSUPPORTED_VERSION = ProtocolErrorCode 1"
definition UNKNOWN_MESSAGE :: ProtocolErrorCode where "UNKNOWN_MESSAGE = ProtocolErrorCode 2"
definition INVALID_FRAME :: ProtocolErrorCode where "INVALID_FRAME = ProtocolErrorCode 3"
definition PAYLOAD_TOO_LARGE :: ProtocolErrorCode where "PAYLOAD_TOO_LARGE = ProtocolErrorCode 4"
definition INVALID_STATE :: ProtocolErrorCode where "INVALID_STATE = ProtocolErrorCode 5"
definition AUTHENTICATION_FAILED :: ProtocolErrorCode where "AUTHENTICATION_FAILED = ProtocolErrorCode 6"
definition UNKNOWN_SESSION :: ProtocolErrorCode where "UNKNOWN_SESSION = ProtocolErrorCode 7"
definition TUNNEL_REJECTED :: ProtocolErrorCode where "TUNNEL_REJECTED = ProtocolErrorCode 8"
definition INCOMPATIBLE_HEARTBEAT :: ProtocolErrorCode where "INCOMPATIBLE_HEARTBEAT = ProtocolErrorCode 9"
definition UDP_BIND_ADDRESS_REQUIRED :: ProtocolErrorCode where "UDP_BIND_ADDRESS_REQUIRED = ProtocolErrorCode 10"
definition TUNNEL_PORT_IN_USE :: ProtocolErrorCode where "TUNNEL_PORT_IN_USE = ProtocolErrorCode 11"
definition TUNNEL_PERMISSION_DENIED :: ProtocolErrorCode where "TUNNEL_PERMISSION_DENIED = ProtocolErrorCode 12"
definition INTERNAL_ERROR :: ProtocolErrorCode where "INTERNAL_ERROR = ProtocolErrorCode 255"

definition known_error_code :: "u16 \<Rightarrow> bool" where
  "known_error_code value \<longleftrightarrow> 1 \<le> value \<and> value \<le> 12 \<or> value = 255"

definition sch_ProtocolErrorCode :: schema where "sch_ProtocolErrorCode = TU16"

definition ser_ProtocolErrorCode :: "ProtocolErrorCode \<Rightarrow> sval" where
  "ser_ProtocolErrorCode c = SU16 (ProtocolErrorCode_as_u16 c)"

definition de_ProtocolErrorCode :: "sval \<Rightarrow> ProtocolErrorCode option" where
  "de_ProtocolErrorCode v = Option.bind (de_u16 v)
     (\<lambda>value. if known_error_code value then Some (ProtocolErrorCode value) else None)"

definition wf_ProtocolErrorCode :: "ProtocolErrorCode \<Rightarrow> bool" where
  "wf_ProtocolErrorCode c \<longleftrightarrow> known_error_code (ProtocolErrorCode_as_u16 c)"

interpretation ProtocolErrorCode_wire:
  wire_type sch_ProtocolErrorCode ser_ProtocolErrorCode de_ProtocolErrorCode wf_ProtocolErrorCode
  by unfold_locales
    (auto simp: sch_ProtocolErrorCode_def ser_ProtocolErrorCode_def de_ProtocolErrorCode_def
      wf_ProtocolErrorCode_def codec_simps split: if_splits)

datatype TunnelProtocol = TunnelProtocol (TunnelProtocol_as_u8: u8)

definition TunnelProtocol_TCP :: TunnelProtocol where "TunnelProtocol_TCP = TunnelProtocol 1"
definition TunnelProtocol_UDP :: TunnelProtocol where "TunnelProtocol_UDP = TunnelProtocol 2"

definition sch_TunnelProtocol :: schema where "sch_TunnelProtocol = TU8"

definition ser_TunnelProtocol :: "TunnelProtocol \<Rightarrow> sval" where
  "ser_TunnelProtocol p = SU8 (TunnelProtocol_as_u8 p)"

definition de_TunnelProtocol :: "sval \<Rightarrow> TunnelProtocol option" where
  "de_TunnelProtocol v = Option.bind (de_u8 v)
     (\<lambda>value. if value = 1 then Some TunnelProtocol_TCP
        else if value = 2 then Some TunnelProtocol_UDP else None)"

definition wf_TunnelProtocol :: "TunnelProtocol \<Rightarrow> bool" where
  "wf_TunnelProtocol p \<longleftrightarrow> p = TunnelProtocol_TCP \<or> p = TunnelProtocol_UDP"

interpretation TunnelProtocol_wire:
  wire_type sch_TunnelProtocol ser_TunnelProtocol de_TunnelProtocol wf_TunnelProtocol
  by unfold_locales
    (auto simp: sch_TunnelProtocol_def ser_TunnelProtocol_def de_TunnelProtocol_def
      wf_TunnelProtocol_def TunnelProtocol_TCP_def TunnelProtocol_UDP_def codec_simps
      split: if_splits)

datatype DataChannelKind = DataChannelKind (DataChannelKind_as_u8: u8)

definition DataChannelKind_TCP :: DataChannelKind where "DataChannelKind_TCP = DataChannelKind 1"
definition DataChannelKind_UDP :: DataChannelKind where "DataChannelKind_UDP = DataChannelKind 2"

definition sch_DataChannelKind :: schema where "sch_DataChannelKind = TU8"

definition ser_DataChannelKind :: "DataChannelKind \<Rightarrow> sval" where
  "ser_DataChannelKind k = SU8 (DataChannelKind_as_u8 k)"

definition de_DataChannelKind :: "sval \<Rightarrow> DataChannelKind option" where
  "de_DataChannelKind v = Option.bind (de_u8 v)
     (\<lambda>value. if value = 1 then Some DataChannelKind_TCP
        else if value = 2 then Some DataChannelKind_UDP else None)"

definition wf_DataChannelKind :: "DataChannelKind \<Rightarrow> bool" where
  "wf_DataChannelKind k \<longleftrightarrow> k = DataChannelKind_TCP \<or> k = DataChannelKind_UDP"

interpretation DataChannelKind_wire:
  wire_type sch_DataChannelKind ser_DataChannelKind de_DataChannelKind wf_DataChannelKind
  by unfold_locales
    (auto simp: sch_DataChannelKind_def ser_DataChannelKind_def de_DataChannelKind_def
      wf_DataChannelKind_def DataChannelKind_TCP_def DataChannelKind_UDP_def codec_simps
      split: if_splits)

subsection \<open>Socket addresses\<close>

datatype SocketAddress =
    V4 (octets: bytes) (port: u16)
  | V6 (octets: bytes) (port: u16)

definition sch_SocketAddress :: schema where
  "sch_SocketAddress = TEnum [TTuple [sch_array 4, TU16], TTuple [sch_array 16, TU16]]"

fun ser_SocketAddress :: "SocketAddress \<Rightarrow> sval" where
  "ser_SocketAddress (V4 os p) = SVariant 0 (STuple [ser_array os, SU16 p])"
| "ser_SocketAddress (V6 os p) = SVariant 1 (STuple [ser_array os, SU16 p])"

definition de_SocketAddress :: "sval \<Rightarrow> SocketAddress option" where
  "de_SocketAddress v = (case v of
      SVariant i (STuple [a, b]) \<Rightarrow>
        if i = 0 then Option.bind (de_array 4 a) (\<lambda>os. Option.bind (de_u16 b) (\<lambda>p. Some (V4 os p)))
        else if i = 1 then
          Option.bind (de_array 16 a) (\<lambda>os. Option.bind (de_u16 b) (\<lambda>p. Some (V6 os p)))
        else None
    | _ \<Rightarrow> None)"

fun wf_SocketAddress :: "SocketAddress \<Rightarrow> bool" where
  "wf_SocketAddress (V4 os p) \<longleftrightarrow> length os = 4"
| "wf_SocketAddress (V6 os p) \<longleftrightarrow> length os = 16"

lemma has_shape_SocketAddress:
  "has_shape sch_SocketAddress v \<longleftrightarrow>
     (\<exists>i a b. v = SVariant i (STuple [a, b]) \<and> has_shape TU16 b \<and>
        (i = 0 \<and> has_shape (sch_array 4) a \<or> i = 1 \<and> has_shape (sch_array 16) a))"
  unfolding sch_SocketAddress_def has_shape_TEnum2 by (auto simp: codec_simps)

interpretation SocketAddress_wire:
  wire_type sch_SocketAddress ser_SocketAddress de_SocketAddress wf_SocketAddress
proof (unfold_locales, goal_cases)
  case (1 x) then show ?case by (cases x) (auto simp: has_shape_SocketAddress codec_simps)
next
  case (2 x) then show ?case by (cases x) (auto simp: de_SocketAddress_def codec_simps)
next
  case (3 v x) then show ?case
    by (auto simp: has_shape_SocketAddress de_SocketAddress_def codec_simps)
next
  case (4 v x) then show ?case
    by (auto simp: has_shape_SocketAddress de_SocketAddress_def codec_simps)
qed

subsection \<open>Composite fields\<close>

interpretation opt_error_wire: wire_type "TOption sch_ProtocolErrorCode"
  "ser_option ser_ProtocolErrorCode" "de_option de_ProtocolErrorCode" "wf_opt wf_ProtocolErrorCode"
  by (rule wire_type_option [OF ProtocolErrorCode_wire.wire_type_axioms])

interpretation opt_protocol_wire: wire_type "TOption sch_TunnelProtocol"
  "ser_option ser_TunnelProtocol" "de_option de_TunnelProtocol" "wf_opt wf_TunnelProtocol"
  by (rule wire_type_option [OF TunnelProtocol_wire.wire_type_axioms])

interpretation opt_string_wire: wire_type "TOption TStr"
  "ser_option ser_BoundedString" "de_option (de_BoundedString n)" "wf_opt (wf_BoundedString n)" for n
  by (rule wire_type_option [OF wire_type_BoundedString])

interpretation opt_bytes_wire: wire_type "TOption TBytes"
  "ser_option ser_BoundedBytes" "de_option (de_BoundedBytes n)" "wf_opt (wf_BoundedBytes n)" for n
  by (rule wire_type_option [OF wire_type_BoundedBytes])

interpretation opt_u64_wire: wire_type "TOption TU64"
  "ser_option SU64" "de_option de_u64" "wf_opt (\<lambda>_. True)"
  by (rule wire_type_option [OF wire_type_u64])

interpretation array_wire: wire_type "sch_array n" ser_array "de_array n" "wf_array n" for n
  unfolding wf_array_def [abs_def] by (rule wire_type_array)

subsection \<open>Message bodies\<close>

record ClientHello =
  ch_client_name :: "string"
  ch_fingerprint :: "bytes"
  ch_heartbeat_interval_secs :: "u32"

definition sch_ClientHello :: schema where
  "sch_ClientHello = TTuple [TStr, TBytes, TU32]"

definition ser_ClientHello :: "ClientHello \<Rightarrow> sval" where
  "ser_ClientHello x = STuple [
     ser_BoundedString (ch_client_name x), ser_BoundedBytes (ch_fingerprint x),
     SU32 (ch_heartbeat_interval_secs x)]"

definition de_ClientHello :: "sval \<Rightarrow> ClientHello option" where
  "de_ClientHello v = (case v of
      STuple [v0, v1, v2] \<Rightarrow>
        Option.bind (de_BoundedString MAX_CLIENT_NAME_BYTES v0) (\<lambda>x0.
        Option.bind (de_BoundedBytes MAX_FINGERPRINT_BYTES v1) (\<lambda>x1.
        Option.bind (de_u32 v2) (\<lambda>x2.
        Some \<lparr>ch_client_name = x0, ch_fingerprint = x1, ch_heartbeat_interval_secs = x2\<rparr>)))
    | _ \<Rightarrow> None)"

definition wf_ClientHello :: "ClientHello \<Rightarrow> bool" where
  "wf_ClientHello x \<longleftrightarrow> wf_BoundedString MAX_CLIENT_NAME_BYTES (ch_client_name x) \<and>
     wf_BoundedBytes MAX_FINGERPRINT_BYTES (ch_fingerprint x)"

interpretation ClientHello_wire: wire_type sch_ClientHello ser_ClientHello de_ClientHello wf_ClientHello
  by unfold_locales
    (auto simp: sch_ClientHello_def ser_ClientHello_def de_ClientHello_def wf_ClientHello_def codec_simps
      split: if_splits)

record ServerChallenge =
  sc_challenge :: "bytes"
  sc_session_id :: "bytes"

definition sch_ServerChallenge :: schema where
  "sch_ServerChallenge = TTuple [TBytes, TBytes]"

definition ser_ServerChallenge :: "ServerChallenge \<Rightarrow> sval" where
  "ser_ServerChallenge x = STuple [
     ser_BoundedBytes (sc_challenge x), ser_BoundedBytes (sc_session_id x)]"

definition de_ServerChallenge :: "sval \<Rightarrow> ServerChallenge option" where
  "de_ServerChallenge v = (case v of
      STuple [v0, v1] \<Rightarrow>
        Option.bind (de_BoundedBytes MAX_CHALLENGE_BYTES v0) (\<lambda>x0.
        Option.bind (de_BoundedBytes MAX_SESSION_ID_BYTES v1) (\<lambda>x1.
        Some \<lparr>sc_challenge = x0, sc_session_id = x1\<rparr>))
    | _ \<Rightarrow> None)"

definition wf_ServerChallenge :: "ServerChallenge \<Rightarrow> bool" where
  "wf_ServerChallenge x \<longleftrightarrow> wf_BoundedBytes MAX_CHALLENGE_BYTES (sc_challenge x) \<and>
     wf_BoundedBytes MAX_SESSION_ID_BYTES (sc_session_id x)"

interpretation ServerChallenge_wire: wire_type sch_ServerChallenge ser_ServerChallenge de_ServerChallenge wf_ServerChallenge
  by unfold_locales
    (auto simp: sch_ServerChallenge_def ser_ServerChallenge_def de_ServerChallenge_def wf_ServerChallenge_def codec_simps
      split: if_splits)

record ClientAuthenticate =
  ca_public_key :: "bytes"
  ca_signature :: "bytes"

definition sch_ClientAuthenticate :: schema where
  "sch_ClientAuthenticate = TTuple [TBytes, TBytes]"

definition ser_ClientAuthenticate :: "ClientAuthenticate \<Rightarrow> sval" where
  "ser_ClientAuthenticate x = STuple [
     ser_BoundedBytes (ca_public_key x), ser_BoundedBytes (ca_signature x)]"

definition de_ClientAuthenticate :: "sval \<Rightarrow> ClientAuthenticate option" where
  "de_ClientAuthenticate v = (case v of
      STuple [v0, v1] \<Rightarrow>
        Option.bind (de_BoundedBytes MAX_PUBLIC_KEY_BYTES v0) (\<lambda>x0.
        Option.bind (de_BoundedBytes MAX_SIGNATURE_BYTES v1) (\<lambda>x1.
        Some \<lparr>ca_public_key = x0, ca_signature = x1\<rparr>))
    | _ \<Rightarrow> None)"

definition wf_ClientAuthenticate :: "ClientAuthenticate \<Rightarrow> bool" where
  "wf_ClientAuthenticate x \<longleftrightarrow> wf_BoundedBytes MAX_PUBLIC_KEY_BYTES (ca_public_key x) \<and>
     wf_BoundedBytes MAX_SIGNATURE_BYTES (ca_signature x)"

interpretation ClientAuthenticate_wire: wire_type sch_ClientAuthenticate ser_ClientAuthenticate de_ClientAuthenticate wf_ClientAuthenticate
  by unfold_locales
    (auto simp: sch_ClientAuthenticate_def ser_ClientAuthenticate_def de_ClientAuthenticate_def wf_ClientAuthenticate_def codec_simps
      split: if_splits)

record AuthResult =
  ar_accepted :: "bool"
  ar_error :: "ProtocolErrorCode option"

definition sch_AuthResult :: schema where
  "sch_AuthResult = TTuple [TBool, TOption sch_ProtocolErrorCode]"

definition ser_AuthResult :: "AuthResult \<Rightarrow> sval" where
  "ser_AuthResult x = STuple [
     SBool (ar_accepted x), ser_option ser_ProtocolErrorCode (ar_error x)]"

definition de_AuthResult :: "sval \<Rightarrow> AuthResult option" where
  "de_AuthResult v = (case v of
      STuple [v0, v1] \<Rightarrow>
        Option.bind (de_bool v0) (\<lambda>x0.
        Option.bind (de_option de_ProtocolErrorCode v1) (\<lambda>x1.
        Some \<lparr>ar_accepted = x0, ar_error = x1\<rparr>))
    | _ \<Rightarrow> None)"

definition wf_AuthResult :: "AuthResult \<Rightarrow> bool" where
  "wf_AuthResult x \<longleftrightarrow> wf_opt wf_ProtocolErrorCode (ar_error x)"

interpretation AuthResult_wire: wire_type sch_AuthResult ser_AuthResult de_AuthResult wf_AuthResult
  by unfold_locales
    (auto simp: sch_AuthResult_def ser_AuthResult_def de_AuthResult_def wf_AuthResult_def codec_simps
        opt_error_wire.ser_shape opt_error_wire.de_ser opt_error_wire.de_iff
      split: if_splits)

record TunnelRegistration =
  tr_tunnel_id :: "u32"
  tr_name :: "string"
  tr_protocol :: "TunnelProtocol"
  tr_remote_port :: "u16"

definition sch_TunnelRegistration :: schema where
  "sch_TunnelRegistration = TTuple [TU32, TStr, sch_TunnelProtocol, TU16]"

definition ser_TunnelRegistration :: "TunnelRegistration \<Rightarrow> sval" where
  "ser_TunnelRegistration x = STuple [
     SU32 (tr_tunnel_id x), ser_BoundedString (tr_name x),
     ser_TunnelProtocol (tr_protocol x), SU16 (tr_remote_port x)]"

definition de_TunnelRegistration :: "sval \<Rightarrow> TunnelRegistration option" where
  "de_TunnelRegistration v = (case v of
      STuple [v0, v1, v2, v3] \<Rightarrow>
        Option.bind (de_u32 v0) (\<lambda>x0.
        Option.bind (de_BoundedString MAX_TUNNEL_NAME_BYTES v1) (\<lambda>x1.
        Option.bind (de_TunnelProtocol v2) (\<lambda>x2.
        Option.bind (de_u16 v3) (\<lambda>x3.
        Some \<lparr>tr_tunnel_id = x0, tr_name = x1, tr_protocol = x2, tr_remote_port = x3\<rparr>))))
    | _ \<Rightarrow> None)"

definition wf_TunnelRegistration :: "TunnelRegistration \<Rightarrow> bool" where
  "wf_TunnelRegistration x \<longleftrightarrow> wf_BoundedString MAX_TUNNEL_NAME_BYTES (tr_name x) \<and>
     wf_TunnelProtocol (tr_protocol x)"

interpretation TunnelRegistration_wire: wire_type sch_TunnelRegistration ser_TunnelRegistration de_TunnelRegistration wf_TunnelRegistration
  by unfold_locales
    (auto simp: sch_TunnelRegistration_def ser_TunnelRegistration_def de_TunnelRegistration_def wf_TunnelRegistration_def codec_simps
        TunnelProtocol_wire.ser_shape TunnelProtocol_wire.de_ser TunnelProtocol_wire.de_iff
      split: if_splits)

interpretation TunnelRegistration_vec_wire: wire_type "TSeq sch_TunnelRegistration" "ser_BoundedVec ser_TunnelRegistration"
  "de_BoundedVec n de_TunnelRegistration" "wf_BoundedVec n wf_TunnelRegistration" for n
  by (rule wire_type_BoundedVec [OF TunnelRegistration_wire.wire_type_axioms])

record RegisterTunnels =
  rt_tunnels :: "TunnelRegistration list"

definition sch_RegisterTunnels :: schema where
  "sch_RegisterTunnels = TTuple [TSeq sch_TunnelRegistration]"

definition ser_RegisterTunnels :: "RegisterTunnels \<Rightarrow> sval" where
  "ser_RegisterTunnels x = STuple [
     ser_BoundedVec ser_TunnelRegistration (rt_tunnels x)]"

definition de_RegisterTunnels :: "sval \<Rightarrow> RegisterTunnels option" where
  "de_RegisterTunnels v = (case v of
      STuple [v0] \<Rightarrow>
        Option.bind (de_BoundedVec MAX_TUNNELS de_TunnelRegistration v0) (\<lambda>x0.
        Some \<lparr>rt_tunnels = x0\<rparr>)
    | _ \<Rightarrow> None)"

definition wf_RegisterTunnels :: "RegisterTunnels \<Rightarrow> bool" where
  "wf_RegisterTunnels x \<longleftrightarrow> wf_BoundedVec MAX_TUNNELS wf_TunnelRegistration (rt_tunnels x)"

interpretation RegisterTunnels_wire: wire_type sch_RegisterTunnels ser_RegisterTunnels de_RegisterTunnels wf_RegisterTunnels
  by unfold_locales
    (auto simp: sch_RegisterTunnels_def ser_RegisterTunnels_def de_RegisterTunnels_def wf_RegisterTunnels_def codec_simps
        TunnelRegistration_vec_wire.ser_shape TunnelRegistration_vec_wire.de_ser TunnelRegistration_vec_wire.de_iff
      split: if_splits)

record TunnelResult =
  tres_tunnel_id :: "u32"
  tres_accepted :: "bool"
  tres_error :: "ProtocolErrorCode option"

definition sch_TunnelResult :: schema where
  "sch_TunnelResult = TTuple [TU32, TBool, TOption sch_ProtocolErrorCode]"

definition ser_TunnelResult :: "TunnelResult \<Rightarrow> sval" where
  "ser_TunnelResult x = STuple [
     SU32 (tres_tunnel_id x), SBool (tres_accepted x),
     ser_option ser_ProtocolErrorCode (tres_error x)]"

definition de_TunnelResult :: "sval \<Rightarrow> TunnelResult option" where
  "de_TunnelResult v = (case v of
      STuple [v0, v1, v2] \<Rightarrow>
        Option.bind (de_u32 v0) (\<lambda>x0.
        Option.bind (de_bool v1) (\<lambda>x1.
        Option.bind (de_option de_ProtocolErrorCode v2) (\<lambda>x2.
        Some \<lparr>tres_tunnel_id = x0, tres_accepted = x1, tres_error = x2\<rparr>)))
    | _ \<Rightarrow> None)"

definition wf_TunnelResult :: "TunnelResult \<Rightarrow> bool" where
  "wf_TunnelResult x \<longleftrightarrow> wf_opt wf_ProtocolErrorCode (tres_error x)"

interpretation TunnelResult_wire: wire_type sch_TunnelResult ser_TunnelResult de_TunnelResult wf_TunnelResult
  by unfold_locales
    (auto simp: sch_TunnelResult_def ser_TunnelResult_def de_TunnelResult_def wf_TunnelResult_def codec_simps
        opt_error_wire.ser_shape opt_error_wire.de_ser opt_error_wire.de_iff
      split: if_splits)

interpretation TunnelResult_vec_wire: wire_type "TSeq sch_TunnelResult" "ser_BoundedVec ser_TunnelResult"
  "de_BoundedVec n de_TunnelResult" "wf_BoundedVec n wf_TunnelResult" for n
  by (rule wire_type_BoundedVec [OF TunnelResult_wire.wire_type_axioms])

record TunnelResults =
  trs_results :: "TunnelResult list"

definition sch_TunnelResults :: schema where
  "sch_TunnelResults = TTuple [TSeq sch_TunnelResult]"

definition ser_TunnelResults :: "TunnelResults \<Rightarrow> sval" where
  "ser_TunnelResults x = STuple [
     ser_BoundedVec ser_TunnelResult (trs_results x)]"

definition de_TunnelResults :: "sval \<Rightarrow> TunnelResults option" where
  "de_TunnelResults v = (case v of
      STuple [v0] \<Rightarrow>
        Option.bind (de_BoundedVec MAX_TUNNELS de_TunnelResult v0) (\<lambda>x0.
        Some \<lparr>trs_results = x0\<rparr>)
    | _ \<Rightarrow> None)"

definition wf_TunnelResults :: "TunnelResults \<Rightarrow> bool" where
  "wf_TunnelResults x \<longleftrightarrow> wf_BoundedVec MAX_TUNNELS wf_TunnelResult (trs_results x)"

interpretation TunnelResults_wire: wire_type sch_TunnelResults ser_TunnelResults de_TunnelResults wf_TunnelResults
  by unfold_locales
    (auto simp: sch_TunnelResults_def ser_TunnelResults_def de_TunnelResults_def wf_TunnelResults_def codec_simps
        TunnelResult_vec_wire.ser_shape TunnelResult_vec_wire.de_ser TunnelResult_vec_wire.de_iff
      split: if_splits)

record OpenTcpStream =
  ots_tunnel_id :: "u32"
  ots_connection_id :: "u64"
  ots_peer :: "SocketAddress"
  ots_binding_token :: "bytes"

definition sch_OpenTcpStream :: schema where
  "sch_OpenTcpStream = TTuple [TU32, TU64, sch_SocketAddress, TBytes]"

definition ser_OpenTcpStream :: "OpenTcpStream \<Rightarrow> sval" where
  "ser_OpenTcpStream x = STuple [
     SU32 (ots_tunnel_id x), SU64 (ots_connection_id x), ser_SocketAddress (ots_peer x),
     ser_BoundedBytes (ots_binding_token x)]"

definition de_OpenTcpStream :: "sval \<Rightarrow> OpenTcpStream option" where
  "de_OpenTcpStream v = (case v of
      STuple [v0, v1, v2, v3] \<Rightarrow>
        Option.bind (de_u32 v0) (\<lambda>x0.
        Option.bind (de_u64 v1) (\<lambda>x1.
        Option.bind (de_SocketAddress v2) (\<lambda>x2.
        Option.bind (de_BoundedBytes MAX_BINDING_TOKEN_BYTES v3) (\<lambda>x3.
        Some \<lparr>ots_tunnel_id = x0, ots_connection_id = x1, ots_peer = x2, ots_binding_token = x3\<rparr>))))
    | _ \<Rightarrow> None)"

definition wf_OpenTcpStream :: "OpenTcpStream \<Rightarrow> bool" where
  "wf_OpenTcpStream x \<longleftrightarrow> wf_SocketAddress (ots_peer x) \<and>
     wf_BoundedBytes MAX_BINDING_TOKEN_BYTES (ots_binding_token x)"

interpretation OpenTcpStream_wire: wire_type sch_OpenTcpStream ser_OpenTcpStream de_OpenTcpStream wf_OpenTcpStream
  by unfold_locales
    (auto simp: sch_OpenTcpStream_def ser_OpenTcpStream_def de_OpenTcpStream_def wf_OpenTcpStream_def codec_simps
        SocketAddress_wire.ser_shape SocketAddress_wire.de_ser SocketAddress_wire.de_iff
      split: if_splits)

record OpenUdpChannel =
  ouc_tunnel_id :: "u32"
  ouc_channel_id :: "u64"
  ouc_binding_token :: "bytes"
  ouc_max_sessions :: "u32"
  ouc_idle_timeout_millis :: "u32"
  ouc_max_payload_bytes :: "u32"
  ouc_queue_capacity :: "u32"

definition has_valid_limits :: "OpenUdpChannel \<Rightarrow> bool" where
  "has_valid_limits x \<longleftrightarrow> ouc_tunnel_id x > 0
     \<and> ouc_channel_id x > 0
     \<and> ouc_max_sessions x > 0
     \<and> ouc_max_sessions x \<le> MAX_UDP_SESSIONS_PER_TUNNEL
     \<and> ouc_idle_timeout_millis x > 0
     \<and> ouc_max_payload_bytes x > 0
     \<and> ouc_max_payload_bytes x \<le> word_of_nat MAX_UDP_PAYLOAD_BYTES
     \<and> ouc_queue_capacity x > 0
     \<and> ouc_queue_capacity x \<le> MAX_UDP_QUEUE_CAPACITY"

definition sch_OpenUdpChannel :: schema where
  "sch_OpenUdpChannel = TTuple [TU32, TU64, TBytes, TU32, TU32, TU32, TU32]"

definition ser_OpenUdpChannel :: "OpenUdpChannel \<Rightarrow> sval" where
  "ser_OpenUdpChannel x = STuple [
     SU32 (ouc_tunnel_id x), SU64 (ouc_channel_id x),
     ser_BoundedBytes (ouc_binding_token x), SU32 (ouc_max_sessions x),
     SU32 (ouc_idle_timeout_millis x), SU32 (ouc_max_payload_bytes x),
     SU32 (ouc_queue_capacity x)]"

definition de_OpenUdpChannel :: "sval \<Rightarrow> OpenUdpChannel option" where
  "de_OpenUdpChannel v = (case v of
      STuple [v0, v1, v2, v3, v4, v5, v6] \<Rightarrow>
        Option.bind (de_u32 v0) (\<lambda>x0.
        Option.bind (de_u64 v1) (\<lambda>x1.
        Option.bind (de_BoundedBytes MAX_BINDING_TOKEN_BYTES v2) (\<lambda>x2.
        Option.bind (de_u32 v3) (\<lambda>x3.
        Option.bind (de_u32 v4) (\<lambda>x4.
        Option.bind (de_u32 v5) (\<lambda>x5.
        Option.bind (de_u32 v6) (\<lambda>x6.
        let x = \<lparr>ouc_tunnel_id = x0, ouc_channel_id = x1, ouc_binding_token = x2,
          ouc_max_sessions = x3, ouc_idle_timeout_millis = x4, ouc_max_payload_bytes = x5,
          ouc_queue_capacity = x6\<rparr>
        in if has_valid_limits x then Some x else None)))))))
    | _ \<Rightarrow> None)"

definition wf_OpenUdpChannel :: "OpenUdpChannel \<Rightarrow> bool" where
  "wf_OpenUdpChannel x \<longleftrightarrow> wf_BoundedBytes MAX_BINDING_TOKEN_BYTES (ouc_binding_token x) \<and>
     has_valid_limits x"

interpretation OpenUdpChannel_wire: wire_type sch_OpenUdpChannel ser_OpenUdpChannel de_OpenUdpChannel wf_OpenUdpChannel
  by unfold_locales
    (auto simp: sch_OpenUdpChannel_def ser_OpenUdpChannel_def de_OpenUdpChannel_def wf_OpenUdpChannel_def codec_simps Let_def has_valid_limits_def
      split: if_splits)

record UdpSessionRetired =
  usr_tunnel_id :: "u32"
  usr_session_id :: "u64"

definition sch_UdpSessionRetired :: schema where
  "sch_UdpSessionRetired = TTuple [TU32, TU64]"

definition ser_UdpSessionRetired :: "UdpSessionRetired \<Rightarrow> sval" where
  "ser_UdpSessionRetired x = STuple [
     SU32 (usr_tunnel_id x), SU64 (usr_session_id x)]"

definition de_UdpSessionRetired :: "sval \<Rightarrow> UdpSessionRetired option" where
  "de_UdpSessionRetired v = (case v of
      STuple [v0, v1] \<Rightarrow>
        Option.bind (de_u32 v0) (\<lambda>x0.
        Option.bind (de_u64 v1) (\<lambda>x1.
        let x = \<lparr>usr_tunnel_id = x0, usr_session_id = x1\<rparr>
        in if \<not> (usr_tunnel_id x = 0 \<or> usr_session_id x = 0) then Some x else None))
    | _ \<Rightarrow> None)"

definition wf_UdpSessionRetired :: "UdpSessionRetired \<Rightarrow> bool" where
  "wf_UdpSessionRetired x \<longleftrightarrow> \<not> (usr_tunnel_id x = 0 \<or> usr_session_id x = 0)"

interpretation UdpSessionRetired_wire: wire_type sch_UdpSessionRetired ser_UdpSessionRetired de_UdpSessionRetired wf_UdpSessionRetired
  by unfold_locales
    (auto simp: sch_UdpSessionRetired_def ser_UdpSessionRetired_def de_UdpSessionRetired_def wf_UdpSessionRetired_def codec_simps Let_def
      split: if_splits)

record DataChannelBind =
  dcb_client_name :: "string"
  dcb_session_id :: "bytes"
  dcb_kind :: "DataChannelKind"
  dcb_tunnel_id :: "u32"
  dcb_target_id :: "u64"
  dcb_binding_token :: "bytes"

definition sch_DataChannelBind :: schema where
  "sch_DataChannelBind = TTuple [TStr, TBytes, sch_DataChannelKind, TU32, TU64, TBytes]"

definition ser_DataChannelBind :: "DataChannelBind \<Rightarrow> sval" where
  "ser_DataChannelBind x = STuple [
     ser_BoundedString (dcb_client_name x), ser_BoundedBytes (dcb_session_id x),
     ser_DataChannelKind (dcb_kind x), SU32 (dcb_tunnel_id x), SU64 (dcb_target_id x),
     ser_BoundedBytes (dcb_binding_token x)]"

definition de_DataChannelBind :: "sval \<Rightarrow> DataChannelBind option" where
  "de_DataChannelBind v = (case v of
      STuple [v0, v1, v2, v3, v4, v5] \<Rightarrow>
        Option.bind (de_BoundedString MAX_CLIENT_NAME_BYTES v0) (\<lambda>x0.
        Option.bind (de_BoundedBytes MAX_SESSION_ID_BYTES v1) (\<lambda>x1.
        Option.bind (de_DataChannelKind v2) (\<lambda>x2.
        Option.bind (de_u32 v3) (\<lambda>x3.
        Option.bind (de_u64 v4) (\<lambda>x4.
        Option.bind (de_BoundedBytes MAX_BINDING_TOKEN_BYTES v5) (\<lambda>x5.
        Some \<lparr>dcb_client_name = x0, dcb_session_id = x1, dcb_kind = x2, dcb_tunnel_id = x3,
          dcb_target_id = x4, dcb_binding_token = x5\<rparr>))))))
    | _ \<Rightarrow> None)"

definition wf_DataChannelBind :: "DataChannelBind \<Rightarrow> bool" where
  "wf_DataChannelBind x \<longleftrightarrow> wf_BoundedString MAX_CLIENT_NAME_BYTES (dcb_client_name x) \<and>
     wf_BoundedBytes MAX_SESSION_ID_BYTES (dcb_session_id x) \<and>
     wf_DataChannelKind (dcb_kind x) \<and>
     wf_BoundedBytes MAX_BINDING_TOKEN_BYTES (dcb_binding_token x)"

interpretation DataChannelBind_wire: wire_type sch_DataChannelBind ser_DataChannelBind de_DataChannelBind wf_DataChannelBind
  by unfold_locales
    (auto simp: sch_DataChannelBind_def ser_DataChannelBind_def de_DataChannelBind_def wf_DataChannelBind_def codec_simps
        DataChannelKind_wire.ser_shape DataChannelKind_wire.de_ser DataChannelKind_wire.de_iff
      split: if_splits)

record TcpStreamReady =
  tsr_connection_id :: "u64"
  tsr_accepted :: "bool"
  tsr_error :: "ProtocolErrorCode option"

definition sch_TcpStreamReady :: schema where
  "sch_TcpStreamReady = TTuple [TU64, TBool, TOption sch_ProtocolErrorCode]"

definition ser_TcpStreamReady :: "TcpStreamReady \<Rightarrow> sval" where
  "ser_TcpStreamReady x = STuple [
     SU64 (tsr_connection_id x), SBool (tsr_accepted x),
     ser_option ser_ProtocolErrorCode (tsr_error x)]"

definition de_TcpStreamReady :: "sval \<Rightarrow> TcpStreamReady option" where
  "de_TcpStreamReady v = (case v of
      STuple [v0, v1, v2] \<Rightarrow>
        Option.bind (de_u64 v0) (\<lambda>x0.
        Option.bind (de_bool v1) (\<lambda>x1.
        Option.bind (de_option de_ProtocolErrorCode v2) (\<lambda>x2.
        Some \<lparr>tsr_connection_id = x0, tsr_accepted = x1, tsr_error = x2\<rparr>)))
    | _ \<Rightarrow> None)"

definition wf_TcpStreamReady :: "TcpStreamReady \<Rightarrow> bool" where
  "wf_TcpStreamReady x \<longleftrightarrow> wf_opt wf_ProtocolErrorCode (tsr_error x)"

interpretation TcpStreamReady_wire: wire_type sch_TcpStreamReady ser_TcpStreamReady de_TcpStreamReady wf_TcpStreamReady
  by unfold_locales
    (auto simp: sch_TcpStreamReady_def ser_TcpStreamReady_def de_TcpStreamReady_def wf_TcpStreamReady_def codec_simps
        opt_error_wire.ser_shape opt_error_wire.de_ser opt_error_wire.de_iff
      split: if_splits)

text \<open>
  \<open>UdpDatagram\<close> derives serde's traits too, but the frame codec writes it in its own fixed
  layout, so only the data and its invariant are needed here.
\<close>

record UdpDatagram =
  ud_tunnel_id :: u32
  ud_session_id :: u64
  ud_source :: SocketAddress
  ud_payload :: bytes

definition wf_UdpDatagram :: "UdpDatagram \<Rightarrow> bool" where
  "wf_UdpDatagram x \<longleftrightarrow> wf_SocketAddress (ud_source x) \<and>
     wf_BoundedBytes MAX_UDP_PAYLOAD_BYTES (ud_payload x)"

record Heartbeat =
  hb_sequence :: "u64"

definition sch_Heartbeat :: schema where
  "sch_Heartbeat = TTuple [TU64]"

definition ser_Heartbeat :: "Heartbeat \<Rightarrow> sval" where
  "ser_Heartbeat x = STuple [
     SU64 (hb_sequence x)]"

definition de_Heartbeat :: "sval \<Rightarrow> Heartbeat option" where
  "de_Heartbeat v = (case v of
      STuple [v0] \<Rightarrow>
        Option.bind (de_u64 v0) (\<lambda>x0.
        Some \<lparr>hb_sequence = x0\<rparr>)
    | _ \<Rightarrow> None)"

definition wf_Heartbeat :: "Heartbeat \<Rightarrow> bool" where
  "wf_Heartbeat x \<longleftrightarrow> True"

interpretation Heartbeat_wire: wire_type sch_Heartbeat ser_Heartbeat de_Heartbeat wf_Heartbeat
  by unfold_locales
    (auto simp: sch_Heartbeat_def ser_Heartbeat_def de_Heartbeat_def wf_Heartbeat_def codec_simps
      split: if_splits)

record ErrorMessage =
  em_code :: "ProtocolErrorCode"
  em_detail :: "string"

definition sch_ErrorMessage :: schema where
  "sch_ErrorMessage = TTuple [sch_ProtocolErrorCode, TStr]"

definition ser_ErrorMessage :: "ErrorMessage \<Rightarrow> sval" where
  "ser_ErrorMessage x = STuple [
     ser_ProtocolErrorCode (em_code x), ser_BoundedString (em_detail x)]"

definition de_ErrorMessage :: "sval \<Rightarrow> ErrorMessage option" where
  "de_ErrorMessage v = (case v of
      STuple [v0, v1] \<Rightarrow>
        Option.bind (de_ProtocolErrorCode v0) (\<lambda>x0.
        Option.bind (de_BoundedString MAX_ERROR_DETAIL_BYTES v1) (\<lambda>x1.
        Some \<lparr>em_code = x0, em_detail = x1\<rparr>))
    | _ \<Rightarrow> None)"

definition wf_ErrorMessage :: "ErrorMessage \<Rightarrow> bool" where
  "wf_ErrorMessage x \<longleftrightarrow> wf_ProtocolErrorCode (em_code x) \<and>
     wf_BoundedString MAX_ERROR_DETAIL_BYTES (em_detail x)"

interpretation ErrorMessage_wire: wire_type sch_ErrorMessage ser_ErrorMessage de_ErrorMessage wf_ErrorMessage
  by unfold_locales
    (auto simp: sch_ErrorMessage_def ser_ErrorMessage_def de_ErrorMessage_def wf_ErrorMessage_def codec_simps
        ProtocolErrorCode_wire.ser_shape ProtocolErrorCode_wire.de_ser ProtocolErrorCode_wire.de_iff
      split: if_splits)

record ServerNotice =
  sn_session_id :: "bytes"
  sn_code :: "u16"
  sn_detail :: "string"
  sn_peer :: "string option"

definition sch_ServerNotice :: schema where
  "sch_ServerNotice = TTuple [sch_array 32, TU16, TStr, TOption TStr]"

definition ser_ServerNotice :: "ServerNotice \<Rightarrow> sval" where
  "ser_ServerNotice x = STuple [
     ser_array (sn_session_id x), SU16 (sn_code x), ser_BoundedString (sn_detail x),
     ser_option ser_BoundedString (sn_peer x)]"

definition de_ServerNotice :: "sval \<Rightarrow> ServerNotice option" where
  "de_ServerNotice v = (case v of
      STuple [v0, v1, v2, v3] \<Rightarrow>
        Option.bind (de_array 32 v0) (\<lambda>x0.
        Option.bind (de_u16 v1) (\<lambda>x1.
        Option.bind (de_BoundedString MAX_ERROR_DETAIL_BYTES v2) (\<lambda>x2.
        Option.bind (de_option (de_BoundedString MAX_CLIENT_NAME_BYTES) v3) (\<lambda>x3.
        Some \<lparr>sn_session_id = x0, sn_code = x1, sn_detail = x2, sn_peer = x3\<rparr>))))
    | _ \<Rightarrow> None)"

definition wf_ServerNotice :: "ServerNotice \<Rightarrow> bool" where
  "wf_ServerNotice x \<longleftrightarrow> wf_array 32 (sn_session_id x) \<and>
     wf_BoundedString MAX_ERROR_DETAIL_BYTES (sn_detail x) \<and>
     wf_opt (wf_BoundedString MAX_CLIENT_NAME_BYTES) (sn_peer x)"

interpretation ServerNotice_wire: wire_type sch_ServerNotice ser_ServerNotice de_ServerNotice wf_ServerNotice
  by unfold_locales
    (auto simp: sch_ServerNotice_def ser_ServerNotice_def de_ServerNotice_def wf_ServerNotice_def codec_simps
        opt_string_wire.ser_shape opt_string_wire.de_ser opt_string_wire.de_iff array_wire.ser_shape array_wire.de_ser array_wire.de_iff
      split: if_splits)

record PunchGrant =
  pg_session_id :: "bytes"
  pg_generation :: "u64"
  pg_start_unix_millis :: "u64"
  pg_window_millis :: "u16"
  pg_cadence_millis :: "u16"
  pg_initiator_candidates_sha256 :: "bytes"
  pg_responder_candidates_sha256 :: "bytes"
  pg_token :: "bytes"

definition sch_PunchGrant :: schema where
  "sch_PunchGrant = TTuple [sch_array 32, TU64, TU64, TU16, TU16, sch_array 32, sch_array 32, sch_array 32]"

definition ser_PunchGrant :: "PunchGrant \<Rightarrow> sval" where
  "ser_PunchGrant x = STuple [
     ser_array (pg_session_id x), SU64 (pg_generation x), SU64 (pg_start_unix_millis x),
     SU16 (pg_window_millis x), SU16 (pg_cadence_millis x),
     ser_array (pg_initiator_candidates_sha256 x),
     ser_array (pg_responder_candidates_sha256 x), ser_array (pg_token x)]"

definition de_PunchGrant :: "sval \<Rightarrow> PunchGrant option" where
  "de_PunchGrant v = (case v of
      STuple [v0, v1, v2, v3, v4, v5, v6, v7] \<Rightarrow>
        Option.bind (de_array 32 v0) (\<lambda>x0.
        Option.bind (de_u64 v1) (\<lambda>x1.
        Option.bind (de_u64 v2) (\<lambda>x2.
        Option.bind (de_u16 v3) (\<lambda>x3.
        Option.bind (de_u16 v4) (\<lambda>x4.
        Option.bind (de_array 32 v5) (\<lambda>x5.
        Option.bind (de_array 32 v6) (\<lambda>x6.
        Option.bind (de_array 32 v7) (\<lambda>x7.
        Some \<lparr>pg_session_id = x0, pg_generation = x1, pg_start_unix_millis = x2,
          pg_window_millis = x3, pg_cadence_millis = x4,
          pg_initiator_candidates_sha256 = x5, pg_responder_candidates_sha256 = x6,
          pg_token = x7\<rparr>))))))))
    | _ \<Rightarrow> None)"

definition wf_PunchGrant :: "PunchGrant \<Rightarrow> bool" where
  "wf_PunchGrant x \<longleftrightarrow> wf_array 32 (pg_session_id x) \<and>
     wf_array 32 (pg_initiator_candidates_sha256 x) \<and>
     wf_array 32 (pg_responder_candidates_sha256 x) \<and>
     wf_array 32 (pg_token x)"

interpretation PunchGrant_wire: wire_type sch_PunchGrant ser_PunchGrant de_PunchGrant wf_PunchGrant
  by unfold_locales
    (auto simp: sch_PunchGrant_def ser_PunchGrant_def de_PunchGrant_def wf_PunchGrant_def codec_simps
        array_wire.ser_shape array_wire.de_ser array_wire.de_iff
      split: if_splits)

record PeerIdentityBinding =
  pib_session_id :: "bytes"
  pib_peer :: "string"
  pib_public_key :: "string"
  pib_protocol :: "TunnelProtocol option"
  pib_peer_is_provider :: "bool"
  pib_expires_unix_secs :: "u64"

definition sch_PeerIdentityBinding :: schema where
  "sch_PeerIdentityBinding = TTuple [sch_array 32, TStr, TStr, TOption sch_TunnelProtocol, TBool, TU64]"

definition ser_PeerIdentityBinding :: "PeerIdentityBinding \<Rightarrow> sval" where
  "ser_PeerIdentityBinding x = STuple [
     ser_array (pib_session_id x), ser_BoundedString (pib_peer x),
     ser_BoundedString (pib_public_key x), ser_option ser_TunnelProtocol (pib_protocol x),
     SBool (pib_peer_is_provider x), SU64 (pib_expires_unix_secs x)]"

definition de_PeerIdentityBinding :: "sval \<Rightarrow> PeerIdentityBinding option" where
  "de_PeerIdentityBinding v = (case v of
      STuple [v0, v1, v2, v3, v4, v5] \<Rightarrow>
        Option.bind (de_array 32 v0) (\<lambda>x0.
        Option.bind (de_BoundedString MAX_CLIENT_NAME_BYTES v1) (\<lambda>x1.
        Option.bind (de_BoundedString MAX_PUBLIC_KEY_BYTES v2) (\<lambda>x2.
        Option.bind (de_option de_TunnelProtocol v3) (\<lambda>x3.
        Option.bind (de_bool v4) (\<lambda>x4.
        Option.bind (de_u64 v5) (\<lambda>x5.
        Some \<lparr>pib_session_id = x0, pib_peer = x1, pib_public_key = x2, pib_protocol = x3,
          pib_peer_is_provider = x4, pib_expires_unix_secs = x5\<rparr>))))))
    | _ \<Rightarrow> None)"

definition wf_PeerIdentityBinding :: "PeerIdentityBinding \<Rightarrow> bool" where
  "wf_PeerIdentityBinding x \<longleftrightarrow> wf_array 32 (pib_session_id x) \<and>
     wf_BoundedString MAX_CLIENT_NAME_BYTES (pib_peer x) \<and>
     wf_BoundedString MAX_PUBLIC_KEY_BYTES (pib_public_key x) \<and>
     wf_opt wf_TunnelProtocol (pib_protocol x)"

interpretation PeerIdentityBinding_wire: wire_type sch_PeerIdentityBinding ser_PeerIdentityBinding de_PeerIdentityBinding wf_PeerIdentityBinding
  by unfold_locales
    (auto simp: sch_PeerIdentityBinding_def ser_PeerIdentityBinding_def de_PeerIdentityBinding_def wf_PeerIdentityBinding_def codec_simps
        opt_protocol_wire.ser_shape opt_protocol_wire.de_ser opt_protocol_wire.de_iff array_wire.ser_shape array_wire.de_ser array_wire.de_iff
      split: if_splits)

record PeerIdentityLookup =
  pil_session_id :: "bytes"
  pil_peer :: "string"

definition sch_PeerIdentityLookup :: schema where
  "sch_PeerIdentityLookup = TTuple [sch_array 32, TStr]"

definition ser_PeerIdentityLookup :: "PeerIdentityLookup \<Rightarrow> sval" where
  "ser_PeerIdentityLookup x = STuple [
     ser_array (pil_session_id x), ser_BoundedString (pil_peer x)]"

definition de_PeerIdentityLookup :: "sval \<Rightarrow> PeerIdentityLookup option" where
  "de_PeerIdentityLookup v = (case v of
      STuple [v0, v1] \<Rightarrow>
        Option.bind (de_array 32 v0) (\<lambda>x0.
        Option.bind (de_BoundedString MAX_CLIENT_NAME_BYTES v1) (\<lambda>x1.
        Some \<lparr>pil_session_id = x0, pil_peer = x1\<rparr>))
    | _ \<Rightarrow> None)"

definition wf_PeerIdentityLookup :: "PeerIdentityLookup \<Rightarrow> bool" where
  "wf_PeerIdentityLookup x \<longleftrightarrow> wf_array 32 (pil_session_id x) \<and>
     wf_BoundedString MAX_CLIENT_NAME_BYTES (pil_peer x)"

interpretation PeerIdentityLookup_wire: wire_type sch_PeerIdentityLookup ser_PeerIdentityLookup de_PeerIdentityLookup wf_PeerIdentityLookup
  by unfold_locales
    (auto simp: sch_PeerIdentityLookup_def ser_PeerIdentityLookup_def de_PeerIdentityLookup_def wf_PeerIdentityLookup_def codec_simps
        array_wire.ser_shape array_wire.de_ser array_wire.de_iff
      split: if_splits)

record TelemetryReport =
  tel_sampled_unix_millis :: "u64"
  tel_sequence :: "u64"
  tel_cpu_basis_points :: "u16"
  tel_memory_used_bytes :: "u64"
  tel_memory_total_bytes :: "u64"
  tel_disk_used_bytes :: "u64"
  tel_disk_total_bytes :: "u64"
  tel_tx_bytes_per_sec :: "u64"
  tel_rx_bytes_per_sec :: "u64"

definition sch_TelemetryReport :: schema where
  "sch_TelemetryReport = TTuple [TU64, TU64, TU16, TU64, TU64, TU64, TU64, TU64, TU64]"

definition ser_TelemetryReport :: "TelemetryReport \<Rightarrow> sval" where
  "ser_TelemetryReport x = STuple [
     SU64 (tel_sampled_unix_millis x), SU64 (tel_sequence x),
     SU16 (tel_cpu_basis_points x), SU64 (tel_memory_used_bytes x),
     SU64 (tel_memory_total_bytes x), SU64 (tel_disk_used_bytes x),
     SU64 (tel_disk_total_bytes x), SU64 (tel_tx_bytes_per_sec x),
     SU64 (tel_rx_bytes_per_sec x)]"

definition de_TelemetryReport :: "sval \<Rightarrow> TelemetryReport option" where
  "de_TelemetryReport v = (case v of
      STuple [v0, v1, v2, v3, v4, v5, v6, v7, v8] \<Rightarrow>
        Option.bind (de_u64 v0) (\<lambda>x0.
        Option.bind (de_u64 v1) (\<lambda>x1.
        Option.bind (de_u16 v2) (\<lambda>x2.
        Option.bind (de_u64 v3) (\<lambda>x3.
        Option.bind (de_u64 v4) (\<lambda>x4.
        Option.bind (de_u64 v5) (\<lambda>x5.
        Option.bind (de_u64 v6) (\<lambda>x6.
        Option.bind (de_u64 v7) (\<lambda>x7.
        Option.bind (de_u64 v8) (\<lambda>x8.
        Some \<lparr>tel_sampled_unix_millis = x0, tel_sequence = x1, tel_cpu_basis_points = x2,
          tel_memory_used_bytes = x3, tel_memory_total_bytes = x4,
          tel_disk_used_bytes = x5, tel_disk_total_bytes = x6, tel_tx_bytes_per_sec = x7,
          tel_rx_bytes_per_sec = x8\<rparr>)))))))))
    | _ \<Rightarrow> None)"

definition wf_TelemetryReport :: "TelemetryReport \<Rightarrow> bool" where
  "wf_TelemetryReport x \<longleftrightarrow> True"

interpretation TelemetryReport_wire: wire_type sch_TelemetryReport ser_TelemetryReport de_TelemetryReport wf_TelemetryReport
  by unfold_locales
    (auto simp: sch_TelemetryReport_def ser_TelemetryReport_def de_TelemetryReport_def wf_TelemetryReport_def codec_simps
      split: if_splits)

record EnrollmentRequest =
  er_protocol_version :: "u16"
  er_enrollment_key :: "string"
  er_public_key :: "bytes"
  er_request_id :: "string"

definition sch_EnrollmentRequest :: schema where
  "sch_EnrollmentRequest = TTuple [TU16, TStr, TBytes, TStr]"

definition ser_EnrollmentRequest :: "EnrollmentRequest \<Rightarrow> sval" where
  "ser_EnrollmentRequest x = STuple [
     SU16 (er_protocol_version x), ser_BoundedString (er_enrollment_key x),
     ser_BoundedBytes (er_public_key x), ser_BoundedString (er_request_id x)]"

definition de_EnrollmentRequest :: "sval \<Rightarrow> EnrollmentRequest option" where
  "de_EnrollmentRequest v = (case v of
      STuple [v0, v1, v2, v3] \<Rightarrow>
        Option.bind (de_u16 v0) (\<lambda>x0.
        Option.bind (de_BoundedString MAX_ENROLLMENT_KEY_BYTES v1) (\<lambda>x1.
        Option.bind (de_BoundedBytes MAX_PUBLIC_KEY_BYTES v2) (\<lambda>x2.
        Option.bind (de_BoundedString MAX_ENROLLMENT_REQUEST_ID_BYTES v3) (\<lambda>x3.
        Some \<lparr>er_protocol_version = x0, er_enrollment_key = x1, er_public_key = x2,
          er_request_id = x3\<rparr>))))
    | _ \<Rightarrow> None)"

definition wf_EnrollmentRequest :: "EnrollmentRequest \<Rightarrow> bool" where
  "wf_EnrollmentRequest x \<longleftrightarrow> wf_BoundedString MAX_ENROLLMENT_KEY_BYTES (er_enrollment_key x) \<and>
     wf_BoundedBytes MAX_PUBLIC_KEY_BYTES (er_public_key x) \<and>
     wf_BoundedString MAX_ENROLLMENT_REQUEST_ID_BYTES (er_request_id x)"

interpretation EnrollmentRequest_wire: wire_type sch_EnrollmentRequest ser_EnrollmentRequest de_EnrollmentRequest wf_EnrollmentRequest
  by unfold_locales
    (auto simp: sch_EnrollmentRequest_def ser_EnrollmentRequest_def de_EnrollmentRequest_def wf_EnrollmentRequest_def codec_simps
      split: if_splits)

datatype EnrollmentErrorCode =
    EC_InvalidKey
  | EC_Expired
  | EC_AlreadyUsed
  | EC_PurposeMismatch
  | EC_AlreadyBound
  | EC_Disabled
  | EC_PublicKeyConflict
  | EC_CapacityReached
  | EC_Unavailable
  | EC_UnsupportedVersion
  | EC_PendingApproval
  | EC_ApprovalRejected
  | EC_ReplacementApprovalPending

definition enrollment_error_codes :: "EnrollmentErrorCode list" where
  "enrollment_error_codes =
     [EC_InvalidKey, EC_Expired, EC_AlreadyUsed, EC_PurposeMismatch,
      EC_AlreadyBound, EC_Disabled, EC_PublicKeyConflict, EC_CapacityReached,
      EC_Unavailable, EC_UnsupportedVersion, EC_PendingApproval, EC_ApprovalRejected,
      EC_ReplacementApprovalPending]"

fun EnrollmentErrorCode_index :: "EnrollmentErrorCode \<Rightarrow> nat" where
  "EnrollmentErrorCode_index EC_InvalidKey = 0"
| "EnrollmentErrorCode_index EC_Expired = 1"
| "EnrollmentErrorCode_index EC_AlreadyUsed = 2"
| "EnrollmentErrorCode_index EC_PurposeMismatch = 3"
| "EnrollmentErrorCode_index EC_AlreadyBound = 4"
| "EnrollmentErrorCode_index EC_Disabled = 5"
| "EnrollmentErrorCode_index EC_PublicKeyConflict = 6"
| "EnrollmentErrorCode_index EC_CapacityReached = 7"
| "EnrollmentErrorCode_index EC_Unavailable = 8"
| "EnrollmentErrorCode_index EC_UnsupportedVersion = 9"
| "EnrollmentErrorCode_index EC_PendingApproval = 10"
| "EnrollmentErrorCode_index EC_ApprovalRejected = 11"
| "EnrollmentErrorCode_index EC_ReplacementApprovalPending = 12"

definition sch_EnrollmentErrorCode :: schema where
  "sch_EnrollmentErrorCode = sch_unit_enum enrollment_error_codes"

definition ser_EnrollmentErrorCode :: "EnrollmentErrorCode \<Rightarrow> sval" where
  "ser_EnrollmentErrorCode c = ser_unit_enum EnrollmentErrorCode_index c"

definition de_EnrollmentErrorCode :: "sval \<Rightarrow> EnrollmentErrorCode option" where
  "de_EnrollmentErrorCode v = de_unit_enum enrollment_error_codes v"

lemma EnrollmentErrorCode_index_nth:
  "EnrollmentErrorCode_index c < length enrollment_error_codes \<and>
   enrollment_error_codes ! EnrollmentErrorCode_index c = c"
  by (cases c) (simp_all add: enrollment_error_codes_def)

interpretation EnrollmentErrorCode_wire:
  wire_type sch_EnrollmentErrorCode ser_EnrollmentErrorCode de_EnrollmentErrorCode "\<lambda>_. True"
  unfolding sch_EnrollmentErrorCode_def ser_EnrollmentErrorCode_def [abs_def]
    de_EnrollmentErrorCode_def [abs_def]
  by (rule wire_type_unit_enum [OF EnrollmentErrorCode_index_nth])
    (simp add: enrollment_error_codes_def)

interpretation opt_enrollment_error_wire: wire_type "TOption sch_EnrollmentErrorCode"
  "ser_option ser_EnrollmentErrorCode" "de_option de_EnrollmentErrorCode" "wf_opt (\<lambda>_. True)"
  by (rule wire_type_option [OF EnrollmentErrorCode_wire.wire_type_axioms])

record EnrollmentResultMessage =
  erm_protocol_version :: "u16"
  erm_accepted :: "bool"
  erm_client_id :: "string option"
  erm_revision :: "u64 option"
  erm_error :: "EnrollmentErrorCode option"

definition sch_EnrollmentResultMessage :: schema where
  "sch_EnrollmentResultMessage = TTuple [TU16, TBool, TOption TStr, TOption TU64, TOption sch_EnrollmentErrorCode]"

definition ser_EnrollmentResultMessage :: "EnrollmentResultMessage \<Rightarrow> sval" where
  "ser_EnrollmentResultMessage x = STuple [
     SU16 (erm_protocol_version x), SBool (erm_accepted x),
     ser_option ser_BoundedString (erm_client_id x), ser_option SU64 (erm_revision x),
     ser_option ser_EnrollmentErrorCode (erm_error x)]"

definition de_EnrollmentResultMessage :: "sval \<Rightarrow> EnrollmentResultMessage option" where
  "de_EnrollmentResultMessage v = (case v of
      STuple [v0, v1, v2, v3, v4] \<Rightarrow>
        Option.bind (de_u16 v0) (\<lambda>x0.
        Option.bind (de_bool v1) (\<lambda>x1.
        Option.bind (de_option (de_BoundedString MAX_CLIENT_NAME_BYTES) v2) (\<lambda>x2.
        Option.bind (de_option de_u64 v3) (\<lambda>x3.
        Option.bind (de_option de_EnrollmentErrorCode v4) (\<lambda>x4.
        Some \<lparr>erm_protocol_version = x0, erm_accepted = x1, erm_client_id = x2,
          erm_revision = x3, erm_error = x4\<rparr>)))))
    | _ \<Rightarrow> None)"

definition wf_EnrollmentResultMessage :: "EnrollmentResultMessage \<Rightarrow> bool" where
  "wf_EnrollmentResultMessage x \<longleftrightarrow> wf_opt (wf_BoundedString MAX_CLIENT_NAME_BYTES) (erm_client_id x) \<and>
     wf_opt (\<lambda>_. True) (erm_revision x) \<and>
     wf_opt (\<lambda>_. True) (erm_error x)"

interpretation EnrollmentResultMessage_wire: wire_type sch_EnrollmentResultMessage ser_EnrollmentResultMessage de_EnrollmentResultMessage wf_EnrollmentResultMessage
  by unfold_locales
    (auto simp: sch_EnrollmentResultMessage_def ser_EnrollmentResultMessage_def de_EnrollmentResultMessage_def wf_EnrollmentResultMessage_def codec_simps
        opt_string_wire.ser_shape opt_string_wire.de_ser opt_string_wire.de_iff opt_u64_wire.ser_shape opt_u64_wire.de_ser opt_u64_wire.de_iff opt_enrollment_error_wire.ser_shape opt_enrollment_error_wire.de_ser opt_enrollment_error_wire.de_iff
      split: if_splits)

record ManagedConfigRequest =
  mcq_configuration :: "bytes"

definition sch_ManagedConfigRequest :: schema where
  "sch_ManagedConfigRequest = TTuple [TBytes]"

definition ser_ManagedConfigRequest :: "ManagedConfigRequest \<Rightarrow> sval" where
  "ser_ManagedConfigRequest x = STuple [
     ser_BoundedBytes (mcq_configuration x)]"

definition de_ManagedConfigRequest :: "sval \<Rightarrow> ManagedConfigRequest option" where
  "de_ManagedConfigRequest v = (case v of
      STuple [v0] \<Rightarrow>
        Option.bind (de_BoundedBytes MAX_MANAGED_CONFIGURATION_BYTES v0) (\<lambda>x0.
        Some \<lparr>mcq_configuration = x0\<rparr>)
    | _ \<Rightarrow> None)"

definition wf_ManagedConfigRequest :: "ManagedConfigRequest \<Rightarrow> bool" where
  "wf_ManagedConfigRequest x \<longleftrightarrow> wf_BoundedBytes MAX_MANAGED_CONFIGURATION_BYTES (mcq_configuration x)"

interpretation ManagedConfigRequest_wire: wire_type sch_ManagedConfigRequest ser_ManagedConfigRequest de_ManagedConfigRequest wf_ManagedConfigRequest
  by unfold_locales
    (auto simp: sch_ManagedConfigRequest_def ser_ManagedConfigRequest_def de_ManagedConfigRequest_def wf_ManagedConfigRequest_def codec_simps
      split: if_splits)

record ManagedConfigSnapshot =
  mcs_revision :: "u64"
  mcs_configuration :: "bytes option"

definition sch_ManagedConfigSnapshot :: schema where
  "sch_ManagedConfigSnapshot = TTuple [TU64, TOption TBytes]"

definition ser_ManagedConfigSnapshot :: "ManagedConfigSnapshot \<Rightarrow> sval" where
  "ser_ManagedConfigSnapshot x = STuple [
     SU64 (mcs_revision x), ser_option ser_BoundedBytes (mcs_configuration x)]"

definition de_ManagedConfigSnapshot :: "sval \<Rightarrow> ManagedConfigSnapshot option" where
  "de_ManagedConfigSnapshot v = (case v of
      STuple [v0, v1] \<Rightarrow>
        Option.bind (de_u64 v0) (\<lambda>x0.
        Option.bind (de_option (de_BoundedBytes MAX_MANAGED_CONFIGURATION_BYTES) v1) (\<lambda>x1.
        Some \<lparr>mcs_revision = x0, mcs_configuration = x1\<rparr>))
    | _ \<Rightarrow> None)"

definition wf_ManagedConfigSnapshot :: "ManagedConfigSnapshot \<Rightarrow> bool" where
  "wf_ManagedConfigSnapshot x \<longleftrightarrow> wf_opt (wf_BoundedBytes MAX_MANAGED_CONFIGURATION_BYTES) (mcs_configuration x)"

interpretation ManagedConfigSnapshot_wire: wire_type sch_ManagedConfigSnapshot ser_ManagedConfigSnapshot de_ManagedConfigSnapshot wf_ManagedConfigSnapshot
  by unfold_locales
    (auto simp: sch_ManagedConfigSnapshot_def ser_ManagedConfigSnapshot_def de_ManagedConfigSnapshot_def wf_ManagedConfigSnapshot_def codec_simps
        opt_bytes_wire.ser_shape opt_bytes_wire.de_ser opt_bytes_wire.de_iff
      split: if_splits)

record ManagedConfigReport =
  mcr_revision :: "u64"
  mcr_results :: "bytes"

definition sch_ManagedConfigReport :: schema where
  "sch_ManagedConfigReport = TTuple [TU64, TBytes]"

definition ser_ManagedConfigReport :: "ManagedConfigReport \<Rightarrow> sval" where
  "ser_ManagedConfigReport x = STuple [
     SU64 (mcr_revision x), ser_BoundedBytes (mcr_results x)]"

definition de_ManagedConfigReport :: "sval \<Rightarrow> ManagedConfigReport option" where
  "de_ManagedConfigReport v = (case v of
      STuple [v0, v1] \<Rightarrow>
        Option.bind (de_u64 v0) (\<lambda>x0.
        Option.bind (de_BoundedBytes MAX_MANAGED_CONFIGURATION_BYTES v1) (\<lambda>x1.
        Some \<lparr>mcr_revision = x0, mcr_results = x1\<rparr>))
    | _ \<Rightarrow> None)"

definition wf_ManagedConfigReport :: "ManagedConfigReport \<Rightarrow> bool" where
  "wf_ManagedConfigReport x \<longleftrightarrow> wf_BoundedBytes MAX_MANAGED_CONFIGURATION_BYTES (mcr_results x)"

interpretation ManagedConfigReport_wire: wire_type sch_ManagedConfigReport ser_ManagedConfigReport de_ManagedConfigReport wf_ManagedConfigReport
  by unfold_locales
    (auto simp: sch_ManagedConfigReport_def ser_ManagedConfigReport_def de_ManagedConfigReport_def wf_ManagedConfigReport_def codec_simps
      split: if_splits)

record ManagedConfigUpdate =
  mcu_expected_revision :: "u64"
  mcu_configuration :: "bytes"

definition sch_ManagedConfigUpdate :: schema where
  "sch_ManagedConfigUpdate = TTuple [TU64, TBytes]"

definition ser_ManagedConfigUpdate :: "ManagedConfigUpdate \<Rightarrow> sval" where
  "ser_ManagedConfigUpdate x = STuple [
     SU64 (mcu_expected_revision x), ser_BoundedBytes (mcu_configuration x)]"

definition de_ManagedConfigUpdate :: "sval \<Rightarrow> ManagedConfigUpdate option" where
  "de_ManagedConfigUpdate v = (case v of
      STuple [v0, v1] \<Rightarrow>
        Option.bind (de_u64 v0) (\<lambda>x0.
        Option.bind (de_BoundedBytes MAX_MANAGED_CONFIGURATION_BYTES v1) (\<lambda>x1.
        Some \<lparr>mcu_expected_revision = x0, mcu_configuration = x1\<rparr>))
    | _ \<Rightarrow> None)"

definition wf_ManagedConfigUpdate :: "ManagedConfigUpdate \<Rightarrow> bool" where
  "wf_ManagedConfigUpdate x \<longleftrightarrow> wf_BoundedBytes MAX_MANAGED_CONFIGURATION_BYTES (mcu_configuration x)"

interpretation ManagedConfigUpdate_wire: wire_type sch_ManagedConfigUpdate ser_ManagedConfigUpdate de_ManagedConfigUpdate wf_ManagedConfigUpdate
  by unfold_locales
    (auto simp: sch_ManagedConfigUpdate_def ser_ManagedConfigUpdate_def de_ManagedConfigUpdate_def wf_ManagedConfigUpdate_def codec_simps
      split: if_splits)

record ManagedConfigUpdateResult =
  mur_revision :: "u64"
  mur_error :: "string option"

definition sch_ManagedConfigUpdateResult :: schema where
  "sch_ManagedConfigUpdateResult = TTuple [TU64, TOption TStr]"

definition ser_ManagedConfigUpdateResult :: "ManagedConfigUpdateResult \<Rightarrow> sval" where
  "ser_ManagedConfigUpdateResult x = STuple [
     SU64 (mur_revision x), ser_option ser_BoundedString (mur_error x)]"

definition de_ManagedConfigUpdateResult :: "sval \<Rightarrow> ManagedConfigUpdateResult option" where
  "de_ManagedConfigUpdateResult v = (case v of
      STuple [v0, v1] \<Rightarrow>
        Option.bind (de_u64 v0) (\<lambda>x0.
        Option.bind (de_option (de_BoundedString 1024) v1) (\<lambda>x1.
        Some \<lparr>mur_revision = x0, mur_error = x1\<rparr>))
    | _ \<Rightarrow> None)"

definition wf_ManagedConfigUpdateResult :: "ManagedConfigUpdateResult \<Rightarrow> bool" where
  "wf_ManagedConfigUpdateResult x \<longleftrightarrow> wf_opt (wf_BoundedString 1024) (mur_error x)"

interpretation ManagedConfigUpdateResult_wire: wire_type sch_ManagedConfigUpdateResult ser_ManagedConfigUpdateResult de_ManagedConfigUpdateResult wf_ManagedConfigUpdateResult
  by unfold_locales
    (auto simp: sch_ManagedConfigUpdateResult_def ser_ManagedConfigUpdateResult_def de_ManagedConfigUpdateResult_def wf_ManagedConfigUpdateResult_def codec_simps
        opt_string_wire.ser_shape opt_string_wire.de_ser opt_string_wire.de_iff
      split: if_splits)

text \<open>\<open>ObservationGrantRequest\<close> is the struct without fields.\<close>

datatype ObservationGrantRequest = ObservationGrantRequestBody

definition sch_ObservationGrantRequest :: schema where "sch_ObservationGrantRequest = TTuple []"

definition ser_ObservationGrantRequest :: "ObservationGrantRequest \<Rightarrow> sval" where
  "ser_ObservationGrantRequest x = STuple []"

definition de_ObservationGrantRequest :: "sval \<Rightarrow> ObservationGrantRequest option" where
  "de_ObservationGrantRequest v = (case v of STuple [] \<Rightarrow> Some ObservationGrantRequestBody | _ \<Rightarrow> None)"

lemma ObservationGrantRequest_unique: "ObservationGrantRequestBody = x"
  by (cases x) simp

interpretation ObservationGrantRequest_wire:
  wire_type sch_ObservationGrantRequest ser_ObservationGrantRequest de_ObservationGrantRequest "\<lambda>_. True"
  by unfold_locales
    (auto simp: sch_ObservationGrantRequest_def ser_ObservationGrantRequest_def
      de_ObservationGrantRequest_def codec_simps ObservationGrantRequest_unique)

subsection \<open>Messages\<close>

datatype Message =
    ClientHello ClientHello
  | ServerChallenge ServerChallenge
  | ClientAuthenticate ClientAuthenticate
  | AuthResult AuthResult
  | RegisterTunnels RegisterTunnels
  | TunnelResults TunnelResults
  | OpenTcpStream OpenTcpStream
  | TcpStreamReady TcpStreamReady
  | UdpDatagram UdpDatagram
  | Heartbeat Heartbeat
  | ErrorMsg ErrorMessage
  | OpenUdpChannel OpenUdpChannel
  | DataChannelBind DataChannelBind
  | UdpSessionRetired UdpSessionRetired
  | RendezvousRequest bytes
  | RendezvousProviderDecision bytes
  | RendezvousCandidateSet bytes
  | RendezvousCandidateSetV2 bytes
  | RendezvousConnectivityResult bytes
  | RendezvousRelayRequest bytes
  | RendezvousClose bytes
  | RendezvousError bytes
  | PeerRelayFrame bytes
  | ObservationGrantRequest ObservationGrantRequest
  | ObservationGrant bytes
  | ServerNotice ServerNotice
  | PeerIdentityBinding PeerIdentityBinding
  | PeerIdentityLookup PeerIdentityLookup
  | PunchGrant PunchGrant
  | TelemetryReport TelemetryReport
  | ManagedConfigRequest ManagedConfigRequest
  | ManagedConfigSnapshot ManagedConfigSnapshot
  | ManagedConfigReport ManagedConfigReport
  | ManagedConfigUpdate ManagedConfigUpdate
  | ManagedConfigUpdateResult ManagedConfigUpdateResult
  | EnrollmentRequest EnrollmentRequest
  | EnrollmentResult EnrollmentResultMessage

fun Message_id :: "Message \<Rightarrow> MessageId" where
  "Message_id (ClientHello _) = CLIENT_HELLO"
| "Message_id (ServerChallenge _) = SERVER_CHALLENGE"
| "Message_id (ClientAuthenticate _) = CLIENT_AUTHENTICATE"
| "Message_id (AuthResult _) = AUTH_RESULT"
| "Message_id (RegisterTunnels _) = REGISTER_TUNNELS"
| "Message_id (TunnelResults _) = TUNNEL_RESULTS"
| "Message_id (OpenTcpStream _) = OPEN_TCP_STREAM"
| "Message_id (TcpStreamReady _) = TCP_STREAM_READY"
| "Message_id (UdpDatagram _) = UDP_DATAGRAM"
| "Message_id (Heartbeat _) = HEARTBEAT"
| "Message_id (ErrorMsg _) = ERROR"
| "Message_id (OpenUdpChannel _) = OPEN_UDP_CHANNEL"
| "Message_id (DataChannelBind _) = DATA_CHANNEL_BIND"
| "Message_id (UdpSessionRetired _) = UDP_SESSION_RETIRED"
| "Message_id (RendezvousRequest _) = RENDEZVOUS_REQUEST"
| "Message_id (RendezvousProviderDecision _) = RENDEZVOUS_PROVIDER_DECISION"
| "Message_id (RendezvousCandidateSet _) = RENDEZVOUS_CANDIDATE_SET"
| "Message_id (RendezvousCandidateSetV2 _) = RENDEZVOUS_CANDIDATE_SET_V2"
| "Message_id (RendezvousConnectivityResult _) = RENDEZVOUS_CONNECTIVITY_RESULT"
| "Message_id (RendezvousRelayRequest _) = RENDEZVOUS_RELAY_REQUEST"
| "Message_id (RendezvousClose _) = RENDEZVOUS_CLOSE"
| "Message_id (RendezvousError _) = RENDEZVOUS_ERROR"
| "Message_id (PeerRelayFrame _) = PEER_RELAY_FRAME"
| "Message_id (ObservationGrantRequest _) = OBSERVATION_GRANT_REQUEST"
| "Message_id (ObservationGrant _) = OBSERVATION_GRANT"
| "Message_id (ServerNotice _) = SERVER_NOTICE"
| "Message_id (PeerIdentityBinding _) = PEER_IDENTITY_BINDING"
| "Message_id (PeerIdentityLookup _) = PEER_IDENTITY_LOOKUP"
| "Message_id (PunchGrant _) = PUNCH_GRANT"
| "Message_id (TelemetryReport _) = TELEMETRY_REPORT"
| "Message_id (ManagedConfigRequest _) = MANAGED_CONFIG_REQUEST"
| "Message_id (ManagedConfigSnapshot _) = MANAGED_CONFIG_SNAPSHOT"
| "Message_id (ManagedConfigReport _) = MANAGED_CONFIG_REPORT"
| "Message_id (ManagedConfigUpdate _) = MANAGED_CONFIG_UPDATE"
| "Message_id (ManagedConfigUpdateResult _) = MANAGED_CONFIG_UPDATE_RESULT"
| "Message_id (EnrollmentRequest _) = ENROLLMENT_REQUEST"
| "Message_id (EnrollmentResult _) = ENROLLMENT_RESULT"

text \<open>The invariant the Rust types of a message carry: every bounded field is in its bound.\<close>

fun wf_Message :: "Message \<Rightarrow> bool" where
  "wf_Message (ClientHello x) \<longleftrightarrow> wf_ClientHello x"
| "wf_Message (ServerChallenge x) \<longleftrightarrow> wf_ServerChallenge x"
| "wf_Message (ClientAuthenticate x) \<longleftrightarrow> wf_ClientAuthenticate x"
| "wf_Message (AuthResult x) \<longleftrightarrow> wf_AuthResult x"
| "wf_Message (RegisterTunnels x) \<longleftrightarrow> wf_RegisterTunnels x"
| "wf_Message (TunnelResults x) \<longleftrightarrow> wf_TunnelResults x"
| "wf_Message (OpenTcpStream x) \<longleftrightarrow> wf_OpenTcpStream x"
| "wf_Message (TcpStreamReady x) \<longleftrightarrow> wf_TcpStreamReady x"
| "wf_Message (UdpDatagram x) \<longleftrightarrow> wf_UdpDatagram x"
| "wf_Message (Heartbeat x) \<longleftrightarrow> wf_Heartbeat x"
| "wf_Message (ErrorMsg x) \<longleftrightarrow> wf_ErrorMessage x"
| "wf_Message (OpenUdpChannel x) \<longleftrightarrow> wf_OpenUdpChannel x"
| "wf_Message (DataChannelBind x) \<longleftrightarrow> wf_DataChannelBind x"
| "wf_Message (UdpSessionRetired x) \<longleftrightarrow> wf_UdpSessionRetired x"
| "wf_Message (RendezvousRequest x) \<longleftrightarrow> wf_BoundedBytes MAX_RENDEZVOUS_ENVELOPE_BYTES x"
| "wf_Message (RendezvousProviderDecision x) \<longleftrightarrow> wf_BoundedBytes MAX_RENDEZVOUS_ENVELOPE_BYTES x"
| "wf_Message (RendezvousCandidateSet x) \<longleftrightarrow> wf_BoundedBytes MAX_RENDEZVOUS_ENVELOPE_BYTES x"
| "wf_Message (RendezvousCandidateSetV2 x) \<longleftrightarrow> wf_BoundedBytes MAX_RENDEZVOUS_ENVELOPE_BYTES x"
| "wf_Message (RendezvousConnectivityResult x) \<longleftrightarrow> wf_BoundedBytes MAX_RENDEZVOUS_ENVELOPE_BYTES x"
| "wf_Message (RendezvousRelayRequest x) \<longleftrightarrow> wf_BoundedBytes MAX_RENDEZVOUS_ENVELOPE_BYTES x"
| "wf_Message (RendezvousClose x) \<longleftrightarrow> wf_BoundedBytes MAX_RENDEZVOUS_ENVELOPE_BYTES x"
| "wf_Message (RendezvousError x) \<longleftrightarrow> wf_BoundedBytes MAX_RENDEZVOUS_ENVELOPE_BYTES x"
| "wf_Message (PeerRelayFrame x) \<longleftrightarrow> wf_BoundedBytes MAX_PEER_RELAY_FRAME_BYTES x"
| "wf_Message (ObservationGrantRequest x) \<longleftrightarrow> True"
| "wf_Message (ObservationGrant x) \<longleftrightarrow> wf_BoundedBytes MAX_OBSERVATION_GRANT_BYTES x"
| "wf_Message (ServerNotice x) \<longleftrightarrow> wf_ServerNotice x"
| "wf_Message (PeerIdentityBinding x) \<longleftrightarrow> wf_PeerIdentityBinding x"
| "wf_Message (PeerIdentityLookup x) \<longleftrightarrow> wf_PeerIdentityLookup x"
| "wf_Message (PunchGrant x) \<longleftrightarrow> wf_PunchGrant x"
| "wf_Message (TelemetryReport x) \<longleftrightarrow> wf_TelemetryReport x"
| "wf_Message (ManagedConfigRequest x) \<longleftrightarrow> wf_ManagedConfigRequest x"
| "wf_Message (ManagedConfigSnapshot x) \<longleftrightarrow> wf_ManagedConfigSnapshot x"
| "wf_Message (ManagedConfigReport x) \<longleftrightarrow> wf_ManagedConfigReport x"
| "wf_Message (ManagedConfigUpdate x) \<longleftrightarrow> wf_ManagedConfigUpdate x"
| "wf_Message (ManagedConfigUpdateResult x) \<longleftrightarrow> wf_ManagedConfigUpdateResult x"
| "wf_Message (EnrollmentRequest x) \<longleftrightarrow> wf_EnrollmentRequest x"
| "wf_Message (EnrollmentResult x) \<longleftrightarrow> wf_EnrollmentResultMessage x"

end
