(* ===== verification/Serde_Instance.thy ===== *)
theory Serde_Instance
  imports Serde
begin

text \<open>
  A concrete, fixed-width serialisation of the serde data model. It is not postcard's format;
  it shows that the assumption \<open>postcard_faithful\<close> of the codec theorems can be met, and the
  witnesses of those theorems evaluate it.
\<close>

primrec fixed_enc :: "sval \<Rightarrow> bytes" where
  "fixed_enc (SBool b) = [if b then 1 else 0]"
| "fixed_enc (SU8 w) = [w]"
| "fixed_enc (SU16 w) = put_u16 w"
| "fixed_enc (SU32 w) = put_u32 w"
| "fixed_enc (SU64 w) = put_u64 w"
| "fixed_enc (SBytes b) = be_bytes 8 (length b) @ b"
| "fixed_enc (SStr s) = be_bytes 8 (length s) @ map byte_of_char s"
| "fixed_enc (SOption x) = (case map_option fixed_enc x of None \<Rightarrow> [0] | Some e \<Rightarrow> 1 # e)"
| "fixed_enc (SSeq vs) = be_bytes 8 (length vs) @ concat (map fixed_enc vs)"
| "fixed_enc (STuple vs) = concat (map fixed_enc vs)"
| "fixed_enc (SVariant i v) = be_bytes 2 i @ fixed_enc v"

primrec fixed_fits :: "sval \<Rightarrow> bool" where
  "fixed_fits (SBool b) = True"
| "fixed_fits (SU8 w) = True"
| "fixed_fits (SU16 w) = True"
| "fixed_fits (SU32 w) = True"
| "fixed_fits (SU64 w) = True"
| "fixed_fits (SBytes b) = (length b < 256 ^ 8)"
| "fixed_fits (SStr s) = (length s < 256 ^ 8)"
| "fixed_fits (SOption x) = (case map_option fixed_fits x of None \<Rightarrow> True | Some b \<Rightarrow> b)"
| "fixed_fits (SSeq vs) = (length vs < 256 ^ 8 \<and> list_all id (map fixed_fits vs))"
| "fixed_fits (STuple vs) = list_all id (map fixed_fits vs)"
| "fixed_fits (SVariant i v) = (i < 256 ^ 2 \<and> fixed_fits v)"

definition read_chunk :: "nat \<Rightarrow> bytes \<Rightarrow> (bytes \<times> bytes) option" where
  "read_chunk n bs = (if length bs < n then None else Some (take n bs, drop n bs))"

definition read_num :: "nat \<Rightarrow> bytes \<Rightarrow> (nat \<times> bytes) option" where
  "read_num w bs = map_option (\<lambda>(c, r). (of_be_bytes c, r)) (read_chunk w bs)"

fun read_all :: "(bytes \<Rightarrow> (sval \<times> bytes) option) list \<Rightarrow> bytes \<Rightarrow> (sval list \<times> bytes) option" where
  "read_all [] bs = Some ([], bs)"
| "read_all (d # ds) bs =
     (case d bs of None \<Rightarrow> None
      | Some (v, r) \<Rightarrow> map_option (\<lambda>(vs, r'). (v # vs, r')) (read_all ds r))"

definition read_many ::
  "nat \<Rightarrow> (bytes \<Rightarrow> (sval \<times> bytes) option) \<Rightarrow> bytes \<Rightarrow> (sval list \<times> bytes) option" where
  "read_many n d = read_all (replicate n d)"

primrec fixed_dec :: "schema \<Rightarrow> bytes \<Rightarrow> (sval \<times> bytes) option" where
  "fixed_dec TBool = (\<lambda>bs. case bs of [] \<Rightarrow> None
     | b # r \<Rightarrow> if b = 0 then Some (SBool False, r) else if b = 1 then Some (SBool True, r) else None)"
| "fixed_dec TU8 = (\<lambda>bs. case bs of [] \<Rightarrow> None | b # r \<Rightarrow> Some (SU8 b, r))"
| "fixed_dec TU16 = (\<lambda>bs. map_option (\<lambda>(c, r). (SU16 (u16_from_be c), r)) (read_chunk 2 bs))"
| "fixed_dec TU32 = (\<lambda>bs. map_option (\<lambda>(c, r). (SU32 (u32_from_be c), r)) (read_chunk 4 bs))"
| "fixed_dec TU64 = (\<lambda>bs. map_option (\<lambda>(c, r). (SU64 (u64_from_be c), r)) (read_chunk 8 bs))"
| "fixed_dec TBytes = (\<lambda>bs. case read_num 8 bs of None \<Rightarrow> None
     | Some (n, r) \<Rightarrow> map_option (\<lambda>(c, r'). (SBytes c, r')) (read_chunk n r))"
| "fixed_dec TStr = (\<lambda>bs. case read_num 8 bs of None \<Rightarrow> None
     | Some (n, r) \<Rightarrow> (case read_chunk n r of None \<Rightarrow> None
         | Some (c, r') \<Rightarrow>
             if utf8_valid (map char_of_byte c) then Some (SStr (map char_of_byte c), r') else None))"
| "fixed_dec (TOption t) = (\<lambda>bs. case bs of [] \<Rightarrow> None
     | b # r \<Rightarrow> if b = 0 then Some (SOption None, r)
         else if b = 1 then map_option (\<lambda>(v, r'). (SOption (Some v), r')) (fixed_dec t r) else None)"
| "fixed_dec (TSeq t) = (\<lambda>bs. case read_num 8 bs of None \<Rightarrow> None
     | Some (n, r) \<Rightarrow> map_option (\<lambda>(vs, r'). (SSeq vs, r')) (read_many n (fixed_dec t) r))"
| "fixed_dec (TTuple ts) = (\<lambda>bs.
     map_option (\<lambda>(vs, r). (STuple vs, r)) (read_all (map fixed_dec ts) bs))"
| "fixed_dec (TEnum ts) = (\<lambda>bs. case read_num 2 bs of None \<Rightarrow> None
     | Some (i, r) \<Rightarrow>
         if i < length ts then map_option (\<lambda>(v, r'). (SVariant i v, r')) ((map fixed_dec ts ! i) r)
         else None)"

definition fixed_postcard :: postcard where
  "fixed_postcard =
     \<lparr>pc_to_allocvec = (\<lambda>v. if fixed_fits v then Some (fixed_enc v) else None),
      pc_take_from_bytes = fixed_dec,
      pc_from_bytes = (\<lambda>t bs. map_option fst (fixed_dec t bs))\<rparr>"

lemma read_chunk_append [simp]: "length c = n \<Longrightarrow> read_chunk n (c @ r) = Some (c, r)"
  by (simp add: read_chunk_def)

lemma read_num_append [simp]: "n < 256 ^ w \<Longrightarrow> read_num w (be_bytes w n @ r) = Some (n, r)"
  by (simp add: read_num_def of_be_bytes_be_bytes)

definition dec_ok :: "schema \<Rightarrow> bool" where
  "dec_ok t \<longleftrightarrow>
     (\<forall>v rest. has_shape t v \<longrightarrow> fixed_fits v \<longrightarrow> fixed_dec t (fixed_enc v @ rest) = Some (v, rest)) \<and>
     (\<forall>bs v rest. fixed_dec t bs = Some (v, rest) \<longrightarrow> has_shape t v)"

lemma dec_ok_enc:
  "dec_ok t \<Longrightarrow> has_shape t v \<Longrightarrow> fixed_fits v \<Longrightarrow> fixed_dec t (fixed_enc v @ rest) = Some (v, rest)"
  by (simp add: dec_ok_def)

lemma dec_ok_shape: "dec_ok t \<Longrightarrow> fixed_dec t bs = Some (v, rest) \<Longrightarrow> has_shape t v"
  unfolding dec_ok_def by blast

lemma read_all_enc:
  "list_all dec_ok ts \<Longrightarrow> list_all2 has_shape ts vs \<Longrightarrow> list_all fixed_fits vs \<Longrightarrow>
     read_all (map fixed_dec ts) (concat (map fixed_enc vs) @ rest) = Some (vs, rest)"
proof (induction ts arbitrary: vs)
  case Nil
  then show ?case by simp
next
  case (Cons t ts)
  from Cons.prems(2) obtain w ws where vs: "vs = w # ws" "has_shape t w" "list_all2 has_shape ts ws"
    by (auto simp: list_all2_Cons1)
  with Cons.prems have "fixed_dec t (fixed_enc w @ (concat (map fixed_enc ws) @ rest)) =
      Some (w, concat (map fixed_enc ws) @ rest)"
    by (intro dec_ok_enc) auto
  with Cons vs show ?case by simp
qed

lemma read_all_shape:
  "list_all dec_ok ts \<Longrightarrow> read_all (map fixed_dec ts) bs = Some (vs, rest) \<Longrightarrow> list_all2 has_shape ts vs"
proof (induction ts arbitrary: vs bs)
  case Nil
  then show ?case by simp
next
  case (Cons t ts)
  from Cons.prems(2) obtain w r ws where "fixed_dec t bs = Some (w, r)" "vs = w # ws"
    "read_all (map fixed_dec ts) r = Some (ws, rest)"
    by (auto split: option.splits)
  with Cons show ?case by (auto dest: dec_ok_shape)
qed

lemma list_all_has_shape: "list_all (has_shape t) vs \<longleftrightarrow> list_all2 has_shape (replicate (length vs) t) vs"
  by (induction vs) auto

lemma read_many_eq: "read_many n (fixed_dec t) = read_all (map fixed_dec (replicate n t))"
  by (simp add: read_many_def)

lemma dec_ok_seq:
  assumes "dec_ok t" shows "dec_ok (TSeq t)"
proof -
  have r: "list_all dec_ok (replicate n t)" for n
    using assms by (simp add: list_all_iff)
  show ?thesis
    unfolding dec_ok_def
  proof (intro conjI allI impI)
    fix v rest
    assume "has_shape (TSeq t) v" and "fixed_fits v"
    then obtain vs where "v = SSeq vs" "list_all2 has_shape (replicate (length vs) t) vs"
      "list_all fixed_fits vs" "length vs < 256 ^ 8"
      by (auto simp: has_shape_composite list_all_has_shape list.pred_map)
    then show "fixed_dec (TSeq t) (fixed_enc v @ rest) = Some (v, rest)"
      using read_all_enc [OF r] by (simp add: read_many_eq del: map_replicate)
  next
    fix bs v rest
    assume "fixed_dec (TSeq t) bs = Some (v, rest)"
    then obtain n r vs where vs: "v = SSeq vs"
      "read_all (map fixed_dec (replicate n t)) r = Some (vs, rest)"
      by (auto simp: read_many_eq simp del: map_replicate split: option.splits)
    from read_all_shape [OF r vs(2)] have "list_all2 has_shape (replicate n t) vs" .
    moreover from this have "length vs = n" by (metis length_replicate list_all2_lengthD)
    ultimately show "has_shape (TSeq t) v"
      by (simp add: vs(1) has_shape_composite list_all_has_shape)
  qed
qed

lemma dec_ok_all: "dec_ok t"
proof (induction t)
  case (TOption t)
  note enc = dec_ok_enc [OF TOption.IH] and shape = dec_ok_shape [OF TOption.IH]
  show ?case
    unfolding dec_ok_def has_shape_composite
    by (auto simp: enc split: option.splits list.splits if_splits dest: shape)
next
  case (TSeq t)
  then show ?case by (rule dec_ok_seq)
next
  case (TTuple ts)
  then have "list_all dec_ok ts" by (simp add: list_all_iff)
  then show ?case
    by (auto simp: dec_ok_def has_shape_iffs list.pred_map read_all_enc dest: read_all_shape)
next
  case (TEnum ts)
  then have ok: "i < length ts \<Longrightarrow> dec_ok (ts ! i)" for i by simp
  show ?case
    unfolding dec_ok_def has_shape_composite
    by (auto simp: dec_ok_enc [OF ok] split: if_splits option.splits dest: dec_ok_shape [OF ok])
qed (auto simp: dec_ok_def has_shape_iffs o_def
      split: list.splits option.splits if_splits)

lemma fixed_postcard_faithful: "postcard_faithful fixed_postcard"
  using dec_ok_all by (auto simp: postcard_faithful_def fixed_postcard_def dec_ok_def split: if_splits)

end
