(* ===== verification/Frame_Codec.thy ===== *)
theory Frame_Codec
  imports Protocol_Version Serde_Instance
begin

text \<open>
  The frame codec of \<open>rustgo-protocol/src/frame.rs\<close>: a 16-byte header (magic, version, message
  id, flags, payload length) followed by the payload. \<open>decode\<close> works on an input buffer and is
  given here with the buffer as explicit state, \<open>decode_exact\<close> on one complete slice. The
  payloads are postcard values, opaque bytes, or the fixed layout of a UDP datagram. The two
  places where the Rust code would panic (\<open>unreachable!\<close> and \<open>expect\<close>) are the error value
  \<open>UnreachablePanic\<close>; the lemmas show it is never produced.
\<close>

definition MAGIC :: bytes where "MAGIC = [0x52, 0x53, 0x47, 0x4F]"
definition HEADER_LEN :: nat where "HEADER_LEN = 16"
definition SUPPORTED_FLAGS :: u16 where "SUPPORTED_FLAGS = 0"

record Frame =
  fr_version :: ProtocolVersion
  fr_flags :: u16
  fr_message :: Message

datatype FrameError =
    InvalidMagic
  | UnknownMessage u16
  | UnsupportedFlags u16
  | PayloadTooLarge nat nat
  | MessagePayloadTooLarge MessageId nat nat
  | Truncated nat nat
  | MalformedPayload MessageId
  | TrailingBytes nat
  | LengthOverflow
  | UnreachablePanic

record FrameCodec =
  max_payload :: nat

record Header =
  hd_version :: ProtocolVersion
  hd_message_id :: MessageId
  hd_flags :: u16
  hd_payload_len :: nat

unbundle bit_operations_syntax

definition validate_flags :: "u16 \<Rightarrow> (FrameError, unit) result" where
  "validate_flags flags =
     (let unsupported = flags AND NOT SUPPORTED_FLAGS in
      if unsupported \<noteq> 0 then Inl (UnsupportedFlags unsupported) else Inr ())"

definition validate_payload_length ::
  "FrameCodec \<Rightarrow> MessageId \<Rightarrow> nat \<Rightarrow> (FrameError, unit) result" where
  "validate_payload_length c message declared =
     (if declared > max_payload c then Inl (PayloadTooLarge declared (max_payload c))
      else let message_max = MessageId_max_payload message in
        if declared > message_max then Inl (MessagePayloadTooLarge message declared message_max)
        else Inr ())"

definition u32_try_from :: "nat \<Rightarrow> u32 option" where
  "u32_try_from n = (if n < 2 ^ 32 then Some (word_of_nat n) else None)"

text \<open>\<open>usize\<close> has 64 bits on the supported targets, so reading a \<open>u32\<close> into it cannot fail.\<close>

definition usize_try_from_u32 :: "u32 \<Rightarrow> nat option" where
  "usize_try_from_u32 w = (if unat w < 2 ^ 64 then Some (unat w) else None)"

subsection \<open>Payloads\<close>

definition map_ok :: "('a \<Rightarrow> 'b) \<Rightarrow> ('e, 'a) result \<Rightarrow> ('e, 'b) result" where
  "map_ok f r = and_then r (\<lambda>x. Inr (f x))"

lemma map_ok_iffs [result_simps]:
  "map_ok f r = Inr y \<longleftrightarrow> (\<exists>x. r = Inr x \<and> y = f x)"
  "map_ok f r = Inl e \<longleftrightarrow> r = Inl e"
  by (auto simp: map_ok_def result_simps)

lemma map_ok_simps [simp]: "map_ok f (Inr x) = Inr (f x)" "map_ok f (Inl e) = Inl e"
  by (simp_all add: map_ok_def)

definition serialize :: "postcard \<Rightarrow> sval \<Rightarrow> (FrameError, bytes) result" where
  "serialize pc v = ok_or (pc_to_allocvec pc v) LengthOverflow"

definition deserialize ::
  "postcard \<Rightarrow> schema \<Rightarrow> (sval \<Rightarrow> 'a option) \<Rightarrow> MessageId \<Rightarrow> bytes \<Rightarrow> (FrameError, 'a) result" where
  "deserialize pc t de message payload =
     (case take_value pc t de payload of
        None \<Rightarrow> Inl (MalformedPayload message)
      | Some (value, remainder) \<Rightarrow>
          if remainder \<noteq> [] then Inl (MalformedPayload message) else Inr value)"

definition decode_opaque :: "nat \<Rightarrow> bytes \<Rightarrow> (FrameError, bytes) result" where
  "decode_opaque bound payload =
     (case BoundedBytes_try_from bound payload of Inl _ \<Rightarrow> Inl LengthOverflow | Inr b \<Rightarrow> Inr b)"

fun encode_source :: "SocketAddress \<Rightarrow> bytes" where
  "encode_source (V4 os p) = [4] @ os @ replicate 12 0 @ put_u16 p"
| "encode_source (V6 os p) = [6] @ os @ put_u16 p"

definition encode_udp :: "UdpDatagram \<Rightarrow> (FrameError, bytes) result" where
  "encode_udp datagram =
     (if ud_tunnel_id datagram = 0 \<or> ud_session_id datagram = 0
      then Inl (MalformedPayload UDP_DATAGRAM)
      else Inr (put_u32 (ud_tunnel_id datagram) @ put_u64 (ud_session_id datagram) @
             encode_source (ud_source datagram) @ ud_payload datagram))"

definition decode_udp :: "MessageId \<Rightarrow> bytes \<Rightarrow> (FrameError, UdpDatagram) result" where
  "decode_udp message payload =
     (if length payload < UDP_METADATA_LEN then Inl (MalformedPayload message)
      else let raw = drop UDP_METADATA_LEN payload in
      if length raw > MAX_UDP_PAYLOAD_BYTES then
        Inl (MessagePayloadTooLarge message (length payload) (UDP_METADATA_LEN + MAX_UDP_PAYLOAD_BYTES))
      else let
        tunnel_id = u32_from_be (subslice 0 4 payload);
        session_id = u64_from_be (subslice 4 12 payload) in
      if tunnel_id = 0 \<or> session_id = 0 then Inl (MalformedPayload message)
      else let
        address = subslice 13 29 payload;
        p = u16_from_be (subslice 29 31 payload);
        family = payload ! 12 in
      and_then
        (if family = 4 \<and> drop 4 address = replicate 12 0 then Inr (V4 (subslice 0 4 address) p)
         else if family = 6 then Inr (V6 address p)
         else Inl (MalformedPayload message)) (\<lambda>source.
      and_then
        (case BoundedBytes_try_from MAX_UDP_PAYLOAD_BYTES raw of
           Inl _ \<Rightarrow> Inl (MessagePayloadTooLarge message (length payload)
                      (UDP_METADATA_LEN + MAX_UDP_PAYLOAD_BYTES))
         | Inr b \<Rightarrow> Inr b) (\<lambda>body.
      Inr \<lparr>ud_tunnel_id = tunnel_id, ud_session_id = session_id,
            ud_source = source, ud_payload = body\<rparr>)))"

fun encode_payload :: "postcard \<Rightarrow> Message \<Rightarrow> (FrameError, bytes) result" where
  "encode_payload pc (ClientHello value) = serialize pc (ser_ClientHello value)"
| "encode_payload pc (ServerChallenge value) = serialize pc (ser_ServerChallenge value)"
| "encode_payload pc (ClientAuthenticate value) = serialize pc (ser_ClientAuthenticate value)"
| "encode_payload pc (AuthResult value) = serialize pc (ser_AuthResult value)"
| "encode_payload pc (RegisterTunnels value) = serialize pc (ser_RegisterTunnels value)"
| "encode_payload pc (TunnelResults value) = serialize pc (ser_TunnelResults value)"
| "encode_payload pc (OpenTcpStream value) = serialize pc (ser_OpenTcpStream value)"
| "encode_payload pc (TcpStreamReady value) = serialize pc (ser_TcpStreamReady value)"
| "encode_payload pc (UdpDatagram value) = encode_udp value"
| "encode_payload pc (Heartbeat value) = serialize pc (ser_Heartbeat value)"
| "encode_payload pc (ErrorMsg value) = serialize pc (ser_ErrorMessage value)"
| "encode_payload pc (OpenUdpChannel value) = serialize pc (ser_OpenUdpChannel value)"
| "encode_payload pc (DataChannelBind value) = serialize pc (ser_DataChannelBind value)"
| "encode_payload pc (UdpSessionRetired value) = serialize pc (ser_UdpSessionRetired value)"
| "encode_payload pc (RendezvousRequest value) = Inr value"
| "encode_payload pc (RendezvousProviderDecision value) = Inr value"
| "encode_payload pc (RendezvousCandidateSet value) = Inr value"
| "encode_payload pc (RendezvousCandidateSetV2 value) = Inr value"
| "encode_payload pc (RendezvousConnectivityResult value) = Inr value"
| "encode_payload pc (RendezvousRelayRequest value) = Inr value"
| "encode_payload pc (RendezvousClose value) = Inr value"
| "encode_payload pc (RendezvousError value) = Inr value"
| "encode_payload pc (PeerRelayFrame value) = Inr value"
| "encode_payload pc (ObservationGrantRequest value) = serialize pc (ser_ObservationGrantRequest value)"
| "encode_payload pc (ObservationGrant value) = Inr value"
| "encode_payload pc (ServerNotice value) = serialize pc (ser_ServerNotice value)"
| "encode_payload pc (PeerIdentityBinding value) = serialize pc (ser_PeerIdentityBinding value)"
| "encode_payload pc (PeerIdentityLookup value) = serialize pc (ser_PeerIdentityLookup value)"
| "encode_payload pc (PunchGrant value) = serialize pc (ser_PunchGrant value)"
| "encode_payload pc (TelemetryReport value) = serialize pc (ser_TelemetryReport value)"
| "encode_payload pc (ManagedConfigRequest value) = serialize pc (ser_ManagedConfigRequest value)"
| "encode_payload pc (ManagedConfigSnapshot value) = serialize pc (ser_ManagedConfigSnapshot value)"
| "encode_payload pc (ManagedConfigReport value) = serialize pc (ser_ManagedConfigReport value)"
| "encode_payload pc (ManagedConfigUpdate value) = serialize pc (ser_ManagedConfigUpdate value)"
| "encode_payload pc (ManagedConfigUpdateResult value) = serialize pc (ser_ManagedConfigUpdateResult value)"
| "encode_payload pc (EnrollmentRequest value) = serialize pc (ser_EnrollmentRequest value)"
| "encode_payload pc (EnrollmentResult value) = serialize pc (ser_EnrollmentResultMessage value)"

definition decode_payload :: "postcard \<Rightarrow> MessageId \<Rightarrow> bytes \<Rightarrow> (FrameError, Message) result" where
  "decode_payload pc message payload =
     (if message = CLIENT_HELLO then
        map_ok ClientHello (deserialize pc sch_ClientHello de_ClientHello message payload)
      else if message = SERVER_CHALLENGE then
        map_ok ServerChallenge (deserialize pc sch_ServerChallenge de_ServerChallenge message payload)
      else if message = CLIENT_AUTHENTICATE then
        map_ok ClientAuthenticate (deserialize pc sch_ClientAuthenticate de_ClientAuthenticate message payload)
      else if message = AUTH_RESULT then
        map_ok AuthResult (deserialize pc sch_AuthResult de_AuthResult message payload)
      else if message = REGISTER_TUNNELS then
        map_ok RegisterTunnels (deserialize pc sch_RegisterTunnels de_RegisterTunnels message payload)
      else if message = TUNNEL_RESULTS then
        map_ok TunnelResults (deserialize pc sch_TunnelResults de_TunnelResults message payload)
      else if message = OPEN_TCP_STREAM then
        map_ok OpenTcpStream (deserialize pc sch_OpenTcpStream de_OpenTcpStream message payload)
      else if message = TCP_STREAM_READY then
        map_ok TcpStreamReady (deserialize pc sch_TcpStreamReady de_TcpStreamReady message payload)
      else if message = UDP_DATAGRAM then
        map_ok UdpDatagram (decode_udp message payload)
      else if message = HEARTBEAT then
        map_ok Heartbeat (deserialize pc sch_Heartbeat de_Heartbeat message payload)
      else if message = ERROR then
        map_ok ErrorMsg (deserialize pc sch_ErrorMessage de_ErrorMessage message payload)
      else if message = OPEN_UDP_CHANNEL then
        map_ok OpenUdpChannel (deserialize pc sch_OpenUdpChannel de_OpenUdpChannel message payload)
      else if message = DATA_CHANNEL_BIND then
        map_ok DataChannelBind (deserialize pc sch_DataChannelBind de_DataChannelBind message payload)
      else if message = UDP_SESSION_RETIRED then
        map_ok UdpSessionRetired (deserialize pc sch_UdpSessionRetired de_UdpSessionRetired message payload)
      else if message = RENDEZVOUS_REQUEST then
        map_ok RendezvousRequest (decode_opaque MAX_RENDEZVOUS_ENVELOPE_BYTES payload)
      else if message = RENDEZVOUS_PROVIDER_DECISION then
        map_ok RendezvousProviderDecision (decode_opaque MAX_RENDEZVOUS_ENVELOPE_BYTES payload)
      else if message = RENDEZVOUS_CANDIDATE_SET then
        map_ok RendezvousCandidateSet (decode_opaque MAX_RENDEZVOUS_ENVELOPE_BYTES payload)
      else if message = RENDEZVOUS_CANDIDATE_SET_V2 then
        map_ok RendezvousCandidateSetV2 (decode_opaque MAX_RENDEZVOUS_ENVELOPE_BYTES payload)
      else if message = RENDEZVOUS_CONNECTIVITY_RESULT then
        map_ok RendezvousConnectivityResult (decode_opaque MAX_RENDEZVOUS_ENVELOPE_BYTES payload)
      else if message = RENDEZVOUS_RELAY_REQUEST then
        map_ok RendezvousRelayRequest (decode_opaque MAX_RENDEZVOUS_ENVELOPE_BYTES payload)
      else if message = RENDEZVOUS_CLOSE then
        map_ok RendezvousClose (decode_opaque MAX_RENDEZVOUS_ENVELOPE_BYTES payload)
      else if message = RENDEZVOUS_ERROR then
        map_ok RendezvousError (decode_opaque MAX_RENDEZVOUS_ENVELOPE_BYTES payload)
      else if message = PEER_RELAY_FRAME then
        map_ok PeerRelayFrame (decode_opaque MAX_PEER_RELAY_FRAME_BYTES payload)
      else if message = OBSERVATION_GRANT_REQUEST then
        map_ok ObservationGrantRequest (deserialize pc sch_ObservationGrantRequest de_ObservationGrantRequest message payload)
      else if message = OBSERVATION_GRANT then
        map_ok ObservationGrant (decode_opaque MAX_OBSERVATION_GRANT_BYTES payload)
      else if message = SERVER_NOTICE then
        map_ok ServerNotice (deserialize pc sch_ServerNotice de_ServerNotice message payload)
      else if message = PEER_IDENTITY_BINDING then
        map_ok PeerIdentityBinding (deserialize pc sch_PeerIdentityBinding de_PeerIdentityBinding message payload)
      else if message = PEER_IDENTITY_LOOKUP then
        map_ok PeerIdentityLookup (deserialize pc sch_PeerIdentityLookup de_PeerIdentityLookup message payload)
      else if message = PUNCH_GRANT then
        map_ok PunchGrant (deserialize pc sch_PunchGrant de_PunchGrant message payload)
      else if message = TELEMETRY_REPORT then
        map_ok TelemetryReport (deserialize pc sch_TelemetryReport de_TelemetryReport message payload)
      else if message = MANAGED_CONFIG_REQUEST then
        map_ok ManagedConfigRequest (deserialize pc sch_ManagedConfigRequest de_ManagedConfigRequest message payload)
      else if message = MANAGED_CONFIG_SNAPSHOT then
        map_ok ManagedConfigSnapshot (deserialize pc sch_ManagedConfigSnapshot de_ManagedConfigSnapshot message payload)
      else if message = MANAGED_CONFIG_REPORT then
        map_ok ManagedConfigReport (deserialize pc sch_ManagedConfigReport de_ManagedConfigReport message payload)
      else if message = MANAGED_CONFIG_UPDATE then
        map_ok ManagedConfigUpdate (deserialize pc sch_ManagedConfigUpdate de_ManagedConfigUpdate message payload)
      else if message = MANAGED_CONFIG_UPDATE_RESULT then
        map_ok ManagedConfigUpdateResult (deserialize pc sch_ManagedConfigUpdateResult de_ManagedConfigUpdateResult message payload)
      else if message = ENROLLMENT_REQUEST then
        map_ok EnrollmentRequest (deserialize pc sch_EnrollmentRequest de_EnrollmentRequest message payload)
      else if message = ENROLLMENT_RESULT then
        map_ok EnrollmentResult (deserialize pc sch_EnrollmentResultMessage de_EnrollmentResultMessage message payload)
      else Inl UnreachablePanic)"

subsection \<open>Frames\<close>

definition encode ::
  "postcard \<Rightarrow> FrameCodec \<Rightarrow> ProtocolVersion \<Rightarrow> u16 \<Rightarrow> Message \<Rightarrow> (FrameError, bytes) result" where
  "encode pc c version flags message =
     and_then (validate_flags flags) (\<lambda>_.
     and_then (encode_payload pc message) (\<lambda>payload.
     and_then (validate_payload_length c (Message_id message) (length payload)) (\<lambda>_.
     and_then (ok_or (u32_try_from (length payload)) LengthOverflow) (\<lambda>payload_len.
       Inr (MAGIC @ put_u16 (pv_major version) @ put_u16 (pv_minor version) @
            put_u16 (MessageId_as_u16 (Message_id message)) @ put_u16 flags @
            put_u32 payload_len @ payload)))))"

definition inspect_header :: "FrameCodec \<Rightarrow> bytes \<Rightarrow> (FrameError, Header option) result" where
  "inspect_header c input =
     (if length input < HEADER_LEN then Inr None
      else if subslice 0 4 input \<noteq> MAGIC then Inl InvalidMagic
      else let
        major = u16_from_be (subslice 4 6 input);
        minor = u16_from_be (subslice 6 8 input);
        raw_message_id = u16_from_be (subslice 8 10 input) in
      and_then (case MessageId_try_from raw_message_id of
                  Inl v \<Rightarrow> Inl (UnknownMessage v) | Inr m \<Rightarrow> Inr m) (\<lambda>message_id.
      let flags = u16_from_be (subslice 10 12 input) in
      and_then (validate_flags flags) (\<lambda>_.
      let declared = u32_from_be (subslice 12 16 input) in
      and_then (ok_or (usize_try_from_u32 declared) LengthOverflow) (\<lambda>payload_len.
      and_then (validate_payload_length c message_id payload_len) (\<lambda>_.
        Inr (Some \<lparr>hd_version = ProtocolVersion_new major minor, hd_message_id = message_id,
                   hd_flags = flags, hd_payload_len = payload_len\<rparr>))))))"

text \<open>The result and the buffer afterwards.\<close>

definition decode ::
  "postcard \<Rightarrow> FrameCodec \<Rightarrow> bytes \<Rightarrow> (FrameError, Frame option) result \<times> bytes" where
  "decode pc c input =
     (case inspect_header c input of
        Inl e \<Rightarrow> (Inl e, input)
      | Inr None \<Rightarrow> (Inr None, input)
      | Inr (Some header) \<Rightarrow>
          let frame_len = HEADER_LEN + hd_payload_len header in
          if length input < frame_len then (Inr None, input)
          else (case decode_payload pc (hd_message_id header) (subslice HEADER_LEN frame_len input) of
                  Inl e \<Rightarrow> (Inl e, input)
                | Inr message \<Rightarrow>
                    (Inr (Some \<lparr>fr_version = hd_version header, fr_flags = hd_flags header,
                                fr_message = message\<rparr>), drop frame_len input)))"

definition decode_exact :: "postcard \<Rightarrow> FrameCodec \<Rightarrow> bytes \<Rightarrow> (FrameError, Frame) result" where
  "decode_exact pc c input =
     (if length input < HEADER_LEN then Inl (Truncated HEADER_LEN (length input))
      else and_then (inspect_header c input) (\<lambda>h.
        case h of
          None \<Rightarrow> Inl UnreachablePanic
        | Some header \<Rightarrow>
            let frame_len = HEADER_LEN + hd_payload_len header in
            if length input < frame_len then Inl (Truncated frame_len (length input))
            else if length input > frame_len then Inl (TrailingBytes (length input - frame_len))
            else and_then (decode_payload pc (hd_message_id header) (drop HEADER_LEN input))
              (\<lambda>message. Inr \<lparr>fr_version = hd_version header, fr_flags = hd_flags header,
                             fr_message = message\<rparr>)))"

subsection \<open>Payload round trips\<close>

lemma decode_payload_simps:
  "decode_payload pc CLIENT_HELLO payload = map_ok ClientHello (deserialize pc sch_ClientHello de_ClientHello CLIENT_HELLO payload)"
  "decode_payload pc SERVER_CHALLENGE payload = map_ok ServerChallenge (deserialize pc sch_ServerChallenge de_ServerChallenge SERVER_CHALLENGE payload)"
  "decode_payload pc CLIENT_AUTHENTICATE payload = map_ok ClientAuthenticate (deserialize pc sch_ClientAuthenticate de_ClientAuthenticate CLIENT_AUTHENTICATE payload)"
  "decode_payload pc AUTH_RESULT payload = map_ok AuthResult (deserialize pc sch_AuthResult de_AuthResult AUTH_RESULT payload)"
  "decode_payload pc REGISTER_TUNNELS payload = map_ok RegisterTunnels (deserialize pc sch_RegisterTunnels de_RegisterTunnels REGISTER_TUNNELS payload)"
  "decode_payload pc TUNNEL_RESULTS payload = map_ok TunnelResults (deserialize pc sch_TunnelResults de_TunnelResults TUNNEL_RESULTS payload)"
  "decode_payload pc OPEN_TCP_STREAM payload = map_ok OpenTcpStream (deserialize pc sch_OpenTcpStream de_OpenTcpStream OPEN_TCP_STREAM payload)"
  "decode_payload pc TCP_STREAM_READY payload = map_ok TcpStreamReady (deserialize pc sch_TcpStreamReady de_TcpStreamReady TCP_STREAM_READY payload)"
  "decode_payload pc UDP_DATAGRAM payload = map_ok UdpDatagram (decode_udp UDP_DATAGRAM payload)"
  "decode_payload pc HEARTBEAT payload = map_ok Heartbeat (deserialize pc sch_Heartbeat de_Heartbeat HEARTBEAT payload)"
  "decode_payload pc ERROR payload = map_ok ErrorMsg (deserialize pc sch_ErrorMessage de_ErrorMessage ERROR payload)"
  "decode_payload pc OPEN_UDP_CHANNEL payload = map_ok OpenUdpChannel (deserialize pc sch_OpenUdpChannel de_OpenUdpChannel OPEN_UDP_CHANNEL payload)"
  "decode_payload pc DATA_CHANNEL_BIND payload = map_ok DataChannelBind (deserialize pc sch_DataChannelBind de_DataChannelBind DATA_CHANNEL_BIND payload)"
  "decode_payload pc UDP_SESSION_RETIRED payload = map_ok UdpSessionRetired (deserialize pc sch_UdpSessionRetired de_UdpSessionRetired UDP_SESSION_RETIRED payload)"
  "decode_payload pc RENDEZVOUS_REQUEST payload = map_ok RendezvousRequest (decode_opaque MAX_RENDEZVOUS_ENVELOPE_BYTES payload)"
  "decode_payload pc RENDEZVOUS_PROVIDER_DECISION payload = map_ok RendezvousProviderDecision (decode_opaque MAX_RENDEZVOUS_ENVELOPE_BYTES payload)"
  "decode_payload pc RENDEZVOUS_CANDIDATE_SET payload = map_ok RendezvousCandidateSet (decode_opaque MAX_RENDEZVOUS_ENVELOPE_BYTES payload)"
  "decode_payload pc RENDEZVOUS_CANDIDATE_SET_V2 payload = map_ok RendezvousCandidateSetV2 (decode_opaque MAX_RENDEZVOUS_ENVELOPE_BYTES payload)"
  "decode_payload pc RENDEZVOUS_CONNECTIVITY_RESULT payload = map_ok RendezvousConnectivityResult (decode_opaque MAX_RENDEZVOUS_ENVELOPE_BYTES payload)"
  "decode_payload pc RENDEZVOUS_RELAY_REQUEST payload = map_ok RendezvousRelayRequest (decode_opaque MAX_RENDEZVOUS_ENVELOPE_BYTES payload)"
  "decode_payload pc RENDEZVOUS_CLOSE payload = map_ok RendezvousClose (decode_opaque MAX_RENDEZVOUS_ENVELOPE_BYTES payload)"
  "decode_payload pc RENDEZVOUS_ERROR payload = map_ok RendezvousError (decode_opaque MAX_RENDEZVOUS_ENVELOPE_BYTES payload)"
  "decode_payload pc PEER_RELAY_FRAME payload = map_ok PeerRelayFrame (decode_opaque MAX_PEER_RELAY_FRAME_BYTES payload)"
  "decode_payload pc OBSERVATION_GRANT_REQUEST payload = map_ok ObservationGrantRequest (deserialize pc sch_ObservationGrantRequest de_ObservationGrantRequest OBSERVATION_GRANT_REQUEST payload)"
  "decode_payload pc OBSERVATION_GRANT payload = map_ok ObservationGrant (decode_opaque MAX_OBSERVATION_GRANT_BYTES payload)"
  "decode_payload pc SERVER_NOTICE payload = map_ok ServerNotice (deserialize pc sch_ServerNotice de_ServerNotice SERVER_NOTICE payload)"
  "decode_payload pc PEER_IDENTITY_BINDING payload = map_ok PeerIdentityBinding (deserialize pc sch_PeerIdentityBinding de_PeerIdentityBinding PEER_IDENTITY_BINDING payload)"
  "decode_payload pc PEER_IDENTITY_LOOKUP payload = map_ok PeerIdentityLookup (deserialize pc sch_PeerIdentityLookup de_PeerIdentityLookup PEER_IDENTITY_LOOKUP payload)"
  "decode_payload pc PUNCH_GRANT payload = map_ok PunchGrant (deserialize pc sch_PunchGrant de_PunchGrant PUNCH_GRANT payload)"
  "decode_payload pc TELEMETRY_REPORT payload = map_ok TelemetryReport (deserialize pc sch_TelemetryReport de_TelemetryReport TELEMETRY_REPORT payload)"
  "decode_payload pc MANAGED_CONFIG_REQUEST payload = map_ok ManagedConfigRequest (deserialize pc sch_ManagedConfigRequest de_ManagedConfigRequest MANAGED_CONFIG_REQUEST payload)"
  "decode_payload pc MANAGED_CONFIG_SNAPSHOT payload = map_ok ManagedConfigSnapshot (deserialize pc sch_ManagedConfigSnapshot de_ManagedConfigSnapshot MANAGED_CONFIG_SNAPSHOT payload)"
  "decode_payload pc MANAGED_CONFIG_REPORT payload = map_ok ManagedConfigReport (deserialize pc sch_ManagedConfigReport de_ManagedConfigReport MANAGED_CONFIG_REPORT payload)"
  "decode_payload pc MANAGED_CONFIG_UPDATE payload = map_ok ManagedConfigUpdate (deserialize pc sch_ManagedConfigUpdate de_ManagedConfigUpdate MANAGED_CONFIG_UPDATE payload)"
  "decode_payload pc MANAGED_CONFIG_UPDATE_RESULT payload = map_ok ManagedConfigUpdateResult (deserialize pc sch_ManagedConfigUpdateResult de_ManagedConfigUpdateResult MANAGED_CONFIG_UPDATE_RESULT payload)"
  "decode_payload pc ENROLLMENT_REQUEST payload = map_ok EnrollmentRequest (deserialize pc sch_EnrollmentRequest de_EnrollmentRequest ENROLLMENT_REQUEST payload)"
  "decode_payload pc ENROLLMENT_RESULT payload = map_ok EnrollmentResult (deserialize pc sch_EnrollmentResultMessage de_EnrollmentResultMessage ENROLLMENT_RESULT payload)"
  unfolding decode_payload_def message_id_defs by simp_all

lemma deserialize_serialize:
  assumes "wire_type t ser de P" and "postcard_faithful pc" and "P x"
    and "serialize pc (ser x) = Inr bs"
  shows "deserialize pc t de m bs = Inr x"
  using assms wire_type.take_ser_all [OF assms(1-3)]
  by (auto simp: serialize_def deserialize_def result_simps)

lemma deserialize_Inr:
  assumes "wire_type t ser de P" and "postcard_faithful pc" and "deserialize pc t de m bs = Inr x"
  shows "P x"
  using assms wire_type.take_wf [OF assms(1,2)]
  by (auto simp: deserialize_def split: option.splits if_splits)

lemma decode_opaque_iff [result_simps]:
  "decode_opaque bound payload = Inr b \<longleftrightarrow> b = payload \<and> length payload \<le> bound"
  by (auto simp: decode_opaque_def BoundedBytes_try_from_def)

lemmas wire_types =
  ClientHello_wire.wire_type_axioms
  ServerChallenge_wire.wire_type_axioms
  ClientAuthenticate_wire.wire_type_axioms
  AuthResult_wire.wire_type_axioms
  RegisterTunnels_wire.wire_type_axioms
  TunnelResults_wire.wire_type_axioms
  OpenTcpStream_wire.wire_type_axioms
  TcpStreamReady_wire.wire_type_axioms
  Heartbeat_wire.wire_type_axioms
  ErrorMessage_wire.wire_type_axioms
  OpenUdpChannel_wire.wire_type_axioms
  DataChannelBind_wire.wire_type_axioms
  UdpSessionRetired_wire.wire_type_axioms
  ObservationGrantRequest_wire.wire_type_axioms
  ServerNotice_wire.wire_type_axioms
  PeerIdentityBinding_wire.wire_type_axioms
  PeerIdentityLookup_wire.wire_type_axioms
  PunchGrant_wire.wire_type_axioms
  TelemetryReport_wire.wire_type_axioms
  ManagedConfigRequest_wire.wire_type_axioms
  ManagedConfigSnapshot_wire.wire_type_axioms
  ManagedConfigReport_wire.wire_type_axioms
  ManagedConfigUpdate_wire.wire_type_axioms
  ManagedConfigUpdateResult_wire.wire_type_axioms
  EnrollmentRequest_wire.wire_type_axioms
  EnrollmentResultMessage_wire.wire_type_axioms

lemma length_encode_source: "wf_SocketAddress a \<Longrightarrow> length (encode_source a) = 19"
  by (cases a) simp_all

text \<open>The fixed fields of a UDP payload, read back one by one.\<close>

lemma decode_udp_encode_udp:
  assumes "wf_UdpDatagram d" and "encode_udp d = Inr bs"
  shows "decode_udp m bs = Inr d"
proof -
  let ?t = "put_u32 (ud_tunnel_id d)" and ?s = "put_u64 (ud_session_id d)"
    and ?a = "encode_source (ud_source d)" and ?p = "ud_payload d"
  from assms have nz: "ud_tunnel_id d \<noteq> 0" "ud_session_id d \<noteq> 0"
    and bs: "bs = ?t @ ?s @ ?a @ ?p"
    by (auto simp: encode_udp_def split: if_splits)
  from assms have wf: "wf_SocketAddress (ud_source d)" and len: "length ?p \<le> MAX_UDP_PAYLOAD_BYTES"
    by (auto simp: wf_UdpDatagram_def wf_BoundedBytes_def)
  note la = length_encode_source [OF wf]
  have fields: "subslice 0 4 bs = ?t" "subslice 4 12 bs = ?s" "drop UDP_METADATA_LEN bs = ?p"
    using la by (simp_all add: bs subslice_def UDP_METADATA_LEN_def)
  have addr: "bs ! 12 = ?a ! 0" "subslice 13 29 bs = subslice 1 17 ?a"
    "subslice 29 31 bs = subslice 17 19 ?a"
    using la by (simp_all add: bs subslice_def nth_append)
  have "length bs = UDP_METADATA_LEN + length ?p"
    using la by (simp add: bs UDP_METADATA_LEN_def)
  with nz len fields addr wf show ?thesis
    by (cases "ud_source d")
      (simp_all add: decode_udp_def Let_def BoundedBytes_try_from_def subslice_def)
qed

lemma decode_udp_wf: "decode_udp m bs = Inr d \<Longrightarrow> wf_UdpDatagram d"
  by (auto simp: decode_udp_def wf_UdpDatagram_def wf_BoundedBytes_def Let_def result_simps
      BoundedBytes_try_from_def UDP_METADATA_LEN_def split: if_splits)

text \<open>Every accepted UDP payload is the one the encoder writes: the layout is canonical.\<close>

lemma encode_source_read:
  assumes "length bs = 19"
    and "(if hd bs = 4 \<and> drop 4 (subslice 1 17 bs) = replicate 12 0
           then Inr (V4 (subslice 0 4 (subslice 1 17 bs)) (u16_from_be (subslice 17 19 bs)))
         else if hd bs = 6 then Inr (V6 (subslice 1 17 bs) (u16_from_be (subslice 17 19 bs)))
         else Inl e) = (Inr a :: (FrameError, SocketAddress) result)"
  shows "encode_source a = bs"
proof -
  let ?addr = "subslice 1 17 bs" and ?port = "subslice 17 19 bs"
  have split: "bs = [hd bs] @ ?addr @ ?port"
  proof -
    have "take 1 bs @ subslice 1 17 bs = take 17 bs" "take 17 bs @ subslice 17 19 bs = take 19 bs"
      by (rule take_subslice; simp)+
    with assms(1) have "take 1 bs @ ?addr @ ?port = bs" by (simp flip: append_assoc)
    moreover from assms(1) have "take 1 bs = [hd bs]" by (cases bs) auto
    ultimately show ?thesis by simp
  qed
  have p: "put_u16 (u16_from_be ?port) = ?port" using assms(1) by (simp add: put_from_be)
  have "subslice 0 4 xs @ drop 4 xs = xs" for xs :: bytes by (simp add: subslice_def)
  with assms(2) split p show ?thesis
    by (auto split: if_splits) (metis append_assoc)+
qed

lemma decode_udp_Inr:
  assumes "decode_udp m bs = Inr d"
  shows "31 \<le> length bs" "ud_tunnel_id d = u32_from_be (subslice 0 4 bs)"
    "ud_session_id d = u64_from_be (subslice 4 12 bs)" "ud_payload d = drop 31 bs"
    "ud_tunnel_id d \<noteq> 0" "ud_session_id d \<noteq> 0"
    "(if bs ! 12 = 4 \<and> drop 4 (subslice 13 29 bs) = replicate 12 0
        then Inr (V4 (subslice 0 4 (subslice 13 29 bs)) (u16_from_be (subslice 29 31 bs)))
      else if bs ! 12 = 6 then Inr (V6 (subslice 13 29 bs) (u16_from_be (subslice 29 31 bs)))
      else Inl (MalformedPayload m)) = Inr (ud_source d)"
  using assms
  by (auto simp: decode_udp_def Let_def UDP_METADATA_LEN_def BoundedBytes_try_from_def
      result_simps split: if_splits)

lemma encode_udp_decode_udp:
  assumes "decode_udp m bs = Inr d"
  shows "encode_udp d = Inr bs"
proof -
  let ?src = "subslice 12 31 bs"
  note fields = decode_udp_Inr [OF assms]
  note len = fields(1)
  have parts: "bs = subslice 0 4 bs @ subslice 4 12 bs @ ?src @ drop 31 bs"
  proof -
    have "take 0 bs @ subslice 0 4 bs = take 4 bs" "take 4 bs @ subslice 4 12 bs = take 12 bs"
      "take 12 bs @ ?src = take 31 bs"
      by (rule take_subslice; simp)+
    then have "subslice 0 4 bs @ subslice 4 12 bs @ ?src = take 31 bs" by (simp flip: append_assoc)
    then show ?thesis by (metis append.assoc append_take_drop_id)
  qed
  have sub: "subslice 13 29 bs = subslice 1 17 ?src" "subslice 29 31 bs = subslice 17 19 ?src"
    "bs ! 12 = hd ?src"
    using len by (simp_all add: subslice_def drop_take hd_drop_conv_nth)
  from len have "length ?src = 19" by simp
  note es = encode_source_read [OF this]
  from fields(7) have "encode_source (ud_source d) = ?src"
    unfolding sub by (rule es)
  with fields len have "encode_udp d = Inr (subslice 0 4 bs @ subslice 4 12 bs @ ?src @ drop 31 bs)"
    by (simp add: encode_udp_def put_from_be)
  then show ?thesis by (simp only: parts [symmetric])
qed

lemma payload_roundtrip:
  assumes "postcard_faithful pc" and "wf_Message m" and "encode_payload pc m = Inr bs"
  shows "decode_payload pc (Message_id m) bs = Inr m"
  using assms(2,3)
  by (cases m)
    (auto simp: decode_payload_simps deserialize_serialize [OF _ assms(1)] wire_types
      wf_BoundedBytes_def decode_udp_encode_udp result_simps
      intro!: deserialize_serialize [OF _ assms(1)] wire_types)

lemma decode_payload_Inr:
  assumes "decode_payload pc mid bs = Inr m"
  shows "Message_id m = mid"
  using assms unfolding decode_payload_def by (auto simp: result_simps split: if_splits)

lemma decode_payload_wf:
  assumes "postcard_faithful pc" and "decode_payload pc mid bs = Inr m"
  shows "wf_Message m"
  using assms(2) unfolding decode_payload_def
  by (auto simp: result_simps wf_BoundedBytes_def split: if_splits
      dest: decode_udp_wf wire_types [THEN deserialize_Inr, OF assms(1)])

subsection \<open>No panic\<close>

lemma message_id_cases:
  assumes "MessageId_try_from v = Inr mid"
  shows "\<exists>n \<in> set [1..<38]. mid = MessageId (word_of_nat n)"
proof (intro bexI)
  from assms show "mid = MessageId (word_of_nat (unat v))"
    by (auto simp: MessageId_try_from_def split: if_splits)
  from assms show "unat v \<in> set [1..<38]"
    by (auto simp: MessageId_try_from_def word_le_nat_alt split: if_splits)
qed

lemma payload_part_no_panic:
  "map_ok f (deserialize pc t de m payload) \<noteq> Inl UnreachablePanic"
  "map_ok g (decode_opaque bound payload) \<noteq> Inl UnreachablePanic"
  "map_ok h (decode_udp m payload) \<noteq> Inl UnreachablePanic"
  by (auto simp: result_simps deserialize_def decode_opaque_def decode_udp_def Let_def
      BoundedBytes_try_from_def split: option.splits prod.splits sum.splits if_splits)

lemma decode_payload_no_panic:
  assumes "MessageId_try_from v = Inr mid"
  shows "decode_payload pc mid payload \<noteq> Inl UnreachablePanic"
  using message_id_cases [OF assms]
  by (auto simp: upt_conv_Cons decode_payload_simps [unfolded message_id_defs]
      payload_part_no_panic)

subsection \<open>Headers\<close>

lemma length_MAGIC [simp]: "length MAGIC = 4"
  by (simp add: MAGIC_def)

lemma validate_flags_Inr [result_simps]: "validate_flags flags = Inr u \<longleftrightarrow> flags = 0"
  by (auto simp: validate_flags_def SUPPORTED_FLAGS_def Let_def)

lemma validate_flags_no_panic [simp]: "validate_flags flags \<noteq> Inl UnreachablePanic"
  by (simp add: validate_flags_def Let_def)

lemma validate_payload_length_Inr [result_simps]:
  "validate_payload_length c m n = Inr u \<longleftrightarrow> n \<le> max_payload c \<and> n \<le> MessageId_max_payload m"
  by (auto simp: validate_payload_length_def Let_def)

lemma validate_payload_length_no_panic [simp]:
  "validate_payload_length c m n \<noteq> Inl UnreachablePanic"
  by (simp add: validate_payload_length_def Let_def)

lemma usize_try_from_u32_eq [simp]: "usize_try_from_u32 w = Some (unat w)"
  using unat_less_pow [of w] by (simp add: usize_try_from_u32_def)

lemma Message_id_valid [simp]:
  "MessageId_try_from (MessageId_as_u16 (Message_id m)) = Inr (Message_id m)"
  by (cases m) (simp_all add: MessageId_try_from_def message_id_defs)

lemma inspect_header_Inr_Some:
  assumes "inspect_header c input = Inr (Some h)"
  shows "HEADER_LEN \<le> length input" "MessageId_try_from (u16_from_be (subslice 8 10 input)) = Inr (hd_message_id h)"
    "hd_flags h = 0" "hd_payload_len h \<le> max_payload c"
    "hd_payload_len h \<le> MessageId_max_payload (hd_message_id h)"
  using assms
  by (auto simp: inspect_header_def Let_def result_simps split: if_splits sum.splits)

lemma inspect_header_no_panic: "inspect_header c input \<noteq> Inl UnreachablePanic"
  by (auto simp: inspect_header_def Let_def result_simps split: if_splits sum.splits)

lemma inspect_header_None: "inspect_header c input = Inr None \<longleftrightarrow> length input < HEADER_LEN"
  by (auto simp: inspect_header_def Let_def result_simps split: if_splits sum.splits)

lemma inspect_header_append:
  "HEADER_LEN \<le> length input \<Longrightarrow> inspect_header c (input @ tail) = inspect_header c input"
  by (simp add: inspect_header_def HEADER_LEN_def subslice_append_left)

lemma encode_Inr:
  assumes "encode pc c version flags m = Inr bs"
  obtains payload where "flags = 0" "encode_payload pc m = Inr payload"
    "length payload \<le> max_payload c" "length payload \<le> MessageId_max_payload (Message_id m)"
    "length payload < 2 ^ 32"
    "bs = MAGIC @ put_u16 (pv_major version) @ put_u16 (pv_minor version) @
       put_u16 (MessageId_as_u16 (Message_id m)) @ put_u16 flags @
       put_u32 (word_of_nat (length payload)) @ payload"
  using assms that
  by (auto simp: encode_def result_simps u32_try_from_def split: if_splits)

lemma inspect_header_encode:
  assumes "encode pc c version flags m = Inr bs" and "encode_payload pc m = Inr payload"
  shows "inspect_header c (bs @ rest) =
     Inr (Some \<lparr>hd_version = version, hd_message_id = Message_id m, hd_flags = flags,
                hd_payload_len = length payload\<rparr>)"
    and "length bs = HEADER_LEN + length payload" and "drop HEADER_LEN bs = payload"
proof -
  from assms obtain "flags = 0" and b: "length payload \<le> max_payload c"
    "length payload \<le> MessageId_max_payload (Message_id m)" "length payload < 2 ^ 32"
    and bs: "bs = MAGIC @ put_u16 (pv_major version) @ put_u16 (pv_minor version) @
       put_u16 (MessageId_as_u16 (Message_id m)) @ put_u16 flags @
       put_u32 (word_of_nat (length payload)) @ payload"
    by (auto elim: encode_Inr)
  have n: "unat (word_of_nat (length payload) :: u32) = length payload"
    using b(3) by (simp add: unat_of_nat)
  have "validate_payload_length c (Message_id m) (length payload) = Inr ()"
    "validate_flags flags = Inr ()"
    using b \<open>flags = 0\<close> by (simp_all add: result_simps)
  then show "inspect_header c (bs @ rest) =
     Inr (Some \<lparr>hd_version = version, hd_message_id = Message_id m, hd_flags = flags,
                hd_payload_len = length payload\<rparr>)"
    by (simp add: inspect_header_def bs HEADER_LEN_def subslice_def ProtocolVersion_new_def n)
  show "length bs = HEADER_LEN + length payload" "drop HEADER_LEN bs = payload"
    by (simp_all add: bs HEADER_LEN_def)
qed

lemma decode_Some:
  assumes "decode pc c input = (Inr (Some f), buf)"
  obtains h where "inspect_header c input = Inr (Some h)"
    "HEADER_LEN + hd_payload_len h \<le> length input"
    "decode_payload pc (hd_message_id h)
       (subslice HEADER_LEN (HEADER_LEN + hd_payload_len h) input) = Inr (fr_message f)"
    "fr_version f = hd_version h" "fr_flags f = hd_flags h"
    "buf = drop (HEADER_LEN + hd_payload_len h) input"
  using assms that
  by (auto simp: decode_def Let_def split: sum.splits option.splits if_splits)

subsection \<open>The contract of the codec\<close>

text \<open>
  C1 (round trip): for every well-formed message, if \<open>encode\<close> succeeds then \<open>decode\<close> on the
  encoded bytes followed by any further input returns exactly the frame that was encoded and
  leaves exactly the further input in the buffer.
\<close>

theorem decode_encode:
  assumes "postcard_faithful pc" and "wf_Message m" and "encode pc c version flags m = Inr bs"
  shows "decode pc c (bs @ rest) =
     (Inr (Some \<lparr>fr_version = version, fr_flags = flags, fr_message = m\<rparr>), rest)"
proof -
  from assms(3) obtain payload where p: "encode_payload pc m = Inr payload"
    by (auto elim: encode_Inr)
  note h = inspect_header_encode [OF assms(3) p]
  have "subslice HEADER_LEN (HEADER_LEN + length payload) (bs @ rest) = payload"
    using h(2,3) by (simp add: subslice_def)
  with h payload_roundtrip [OF assms(1,2) p] show ?thesis
    by (simp add: decode_def)
qed

definition sample_heartbeat_frame :: bytes where
  "sample_heartbeat_frame =
     [0x52, 0x53, 0x47, 0x4F, 0, 1, 0, 5, 0, 10, 0, 0, 0, 0, 0, 8, 0, 0, 0, 0, 0, 0, 0, 7]"

lemma sample_heartbeat_encode:
  "encode fixed_postcard \<lparr>max_payload = 1024\<rparr> V0_6 0 (Heartbeat \<lparr>hb_sequence = 7\<rparr>) =
     Inr sample_heartbeat_frame"
  by (simp add: encode_def validate_flags_def SUPPORTED_FLAGS_def serialize_def
      fixed_postcard_def ser_Heartbeat_def validate_payload_length_def MessageId_max_payload_def
      message_id_defs u32_try_from_def MAGIC_def version_defs sample_heartbeat_frame_def
      put_u16_def put_u32_def put_u64_def be_bytes_numeral)

theorem decode_encode_witness:
  "decode fixed_postcard \<lparr>max_payload = 1024\<rparr> (sample_heartbeat_frame @ [255]) =
     (Inr (Some \<lparr>fr_version = V0_6, fr_flags = 0, fr_message = Heartbeat \<lparr>hb_sequence = 7\<rparr>\<rparr>), [255])"
  by (rule decode_encode [OF fixed_postcard_faithful _ sample_heartbeat_encode])
    (simp add: wf_Heartbeat_def)

text \<open>
  C16 (equivalence): the one-shot decoder accepts a slice exactly when the streaming decoder
  returns the same frame from it and consumes all of it.
\<close>

theorem decode_exact_iff_decode:
  "decode_exact pc c input = Inr f \<longleftrightarrow> decode pc c input = (Inr (Some f), [])"
proof (cases "inspect_header c input")
  case (Inl e)
  then show ?thesis by (simp add: decode_exact_def decode_def)
next
  case (Inr h)
  show ?thesis
  proof (cases h)
    case None
    with Inr have "length input < HEADER_LEN" by (simp add: inspect_header_None)
    then show ?thesis by (simp add: decode_exact_def decode_def Inr None)
  next
    case (Some header)
    let ?n = "HEADER_LEN + hd_payload_len header"
    have ge: "HEADER_LEN \<le> length input"
      using inspect_header_Inr_Some(1) [of c input header] Inr Some by simp
    have "length input = ?n \<Longrightarrow> subslice HEADER_LEN ?n input = drop HEADER_LEN input"
      by (simp add: subslice_def)
    with ge show ?thesis
      by (auto simp: decode_exact_def decode_def Let_def Inr Some result_simps
          split: sum.splits if_splits)
  qed
qed

text \<open>
  Incremental input: a result other than "need more input" does not depend on how the
  stream was cut. With more bytes behind it, the same input gives the same frame or the same
  error, and the further bytes stay in the buffer untouched.
\<close>

theorem decode_incremental:
  assumes "decode pc c input = (r, buf)" and "r \<noteq> Inr None"
  shows "decode pc c (input @ tail) = (r, buf @ tail)"
proof (cases "length input < HEADER_LEN")
  case True
  then have "inspect_header c input = Inr None" by (simp add: inspect_header_None)
  with assms show ?thesis by (simp add: decode_def)
next
  case False
  then have "inspect_header c (input @ tail) = inspect_header c input"
    by (simp add: inspect_header_append)
  with assms show ?thesis
    by (auto simp: decode_def Let_def subslice_append_left
        split: sum.splits option.splits if_splits)
qed

theorem decode_incremental_witness:
  "decode fixed_postcard \<lparr>max_payload = 8\<rparr> ([0, 1, 2, 3, 4, 5, 6, 7, 8, 9, 10, 11, 12, 13, 14, 15] @ [1, 2]) =
     (Inl InvalidMagic, [0, 1, 2, 3, 4, 5, 6, 7, 8, 9, 10, 11, 12, 13, 14, 15] @ [1, 2])"
  by (rule decode_incremental)
    (simp_all add: decode_def inspect_header_def HEADER_LEN_def MAGIC_def subslice_def)

text \<open>
  C17 (what a decoded frame is): a frame is taken off the front of the buffer, it carries no
  flags, its message satisfies every bound of its type, and its payload is within both the
  codec's limit and the limit of its message id. An error or a request for more input leaves
  the buffer as it was.
\<close>

theorem decode_result_sound:
  assumes "postcard_faithful pc" and "decode pc c input = (r, buf)"
  shows "(\<exists>f used. r = Inr (Some f) \<and> input = used @ buf \<and> fr_flags f = 0 \<and> wf_Message (fr_message f) \<and>
            HEADER_LEN \<le> length used \<and> length used \<le> HEADER_LEN + max_payload c \<and>
            length used \<le> HEADER_LEN + MessageId_max_payload (Message_id (fr_message f)))
         \<or> (\<forall>f. r \<noteq> Inr (Some f)) \<and> buf = input"
proof (cases "\<exists>f. r = Inr (Some f)")
  case True
  with assms(2) obtain f h where r: "r = Inr (Some f)"
    and h: "inspect_header c input = Inr (Some h)" "HEADER_LEN + hd_payload_len h \<le> length input"
      "decode_payload pc (hd_message_id h)
         (subslice HEADER_LEN (HEADER_LEN + hd_payload_len h) input) = Inr (fr_message f)"
      "fr_flags f = hd_flags h" "buf = drop (HEADER_LEN + hd_payload_len h) input"
    by (auto elim: decode_Some)
  let ?used = "take (HEADER_LEN + hd_payload_len h) input"
  have "input = ?used @ buf" "length ?used = HEADER_LEN + hd_payload_len h"
    using h(2,5) by simp_all
  with r h inspect_header_Inr_Some [OF h(1)] decode_payload_Inr [OF h(3)]
    decode_payload_wf [OF assms(1) h(3)]
  show ?thesis by (intro disjI1 exI [of _ f] exI [of _ ?used]) simp
next
  case False
  with assms(2) show ?thesis
    by (auto simp: decode_def Let_def split: sum.splits option.splits if_splits)
qed

theorem decode_result_sound_witness:
  "(\<exists>f used. Inr (Some \<lparr>fr_version = V0_6, fr_flags = 0, fr_message = Heartbeat \<lparr>hb_sequence = 7\<rparr>\<rparr>) =
          (Inr (Some f) :: (FrameError, Frame option) result) \<and>
        sample_heartbeat_frame @ [255] = used @ [255] \<and> fr_flags f = 0 \<and> wf_Message (fr_message f) \<and>
        HEADER_LEN \<le> length used \<and> length used \<le> HEADER_LEN + max_payload \<lparr>max_payload = 1024\<rparr> \<and>
        length used \<le> HEADER_LEN + MessageId_max_payload (Message_id (fr_message f)))"
proof -
  have "decode fixed_postcard \<lparr>max_payload = 1024\<rparr> (sample_heartbeat_frame @ [255]) =
     (Inr (Some \<lparr>fr_version = V0_6, fr_flags = 0, fr_message = Heartbeat \<lparr>hb_sequence = 7\<rparr>\<rparr>), [255])"
    by (simp add: decode_def inspect_header_def sample_heartbeat_frame_def HEADER_LEN_def MAGIC_def
        subslice_def u16_from_be_def u32_from_be_def of_be_bytes_def MessageId_try_from_def
        validate_flags_def SUPPORTED_FLAGS_def validate_payload_length_def MessageId_max_payload_def
        decode_payload_simps [unfolded message_id_defs] deserialize_def take_value_def
        fixed_postcard_def sch_Heartbeat_def read_chunk_def de_Heartbeat_def u64_from_be_def
        version_defs)
  from decode_result_sound [OF fixed_postcard_faithful this] show ?thesis by blast
qed

text \<open>
  No panic: on no input does either decoder take the
  \<open>unreachable!\<close> arm of the payload dispatch or fail the \<open>expect\<close> on the header.
\<close>

theorem decode_never_panics:
  "fst (decode pc c input) \<noteq> Inl UnreachablePanic \<and> decode_exact pc c input \<noteq> Inl UnreachablePanic"
proof
  show "fst (decode pc c input) \<noteq> Inl UnreachablePanic"
    using inspect_header_no_panic [of c input] decode_payload_no_panic inspect_header_Inr_Some(2)
    by (fastforce simp: decode_def Let_def split: sum.splits option.splits if_splits)
  show "decode_exact pc c input \<noteq> Inl UnreachablePanic"
    using inspect_header_no_panic [of c input] decode_payload_no_panic inspect_header_Inr_Some(2)
      inspect_header_None [of c input]
    by (fastforce simp: decode_exact_def Let_def result_simps split: option.splits if_splits)
qed

text \<open>
  UDP payload layout: the fixed 31-byte metadata layout is a bijection between well-formed
  datagrams with non-zero ids and accepted payloads: decoding inverts encoding, and re-encoding
  an accepted payload gives the same bytes, so no two payloads denote one datagram.
\<close>

theorem udp_payload_bijection:
  "(wf_UdpDatagram d \<longrightarrow> encode_udp d = Inr bs \<longrightarrow> decode_udp mid bs = Inr d) \<and>
   (decode_udp mid bs = Inr d \<longrightarrow> encode_udp d = Inr bs \<and> wf_UdpDatagram d)"
  using decode_udp_encode_udp encode_udp_decode_udp decode_udp_wf by blast

definition sample_udp_payload :: bytes where
  "sample_udp_payload =
     [0, 0, 0, 3, 0, 0, 0, 0, 0, 0, 0, 9, 4, 127, 0, 0, 1, 0, 0, 0, 0, 0, 0, 0, 0, 0, 0, 0, 0, 31, 144, 42]"

theorem udp_payload_bijection_witness:
  "decode_udp UDP_DATAGRAM sample_udp_payload =
     Inr \<lparr>ud_tunnel_id = 3, ud_session_id = 9, ud_source = V4 [127, 0, 0, 1] 8080, ud_payload = [42]\<rparr>"
proof -
  let ?d = "\<lparr>ud_tunnel_id = 3, ud_session_id = 9, ud_source = V4 [127, 0, 0, 1] 8080, ud_payload = [42]\<rparr>"
  have "wf_UdpDatagram ?d" by (simp add: wf_UdpDatagram_def wf_BoundedBytes_def limit_defs)
  moreover have "encode_udp ?d = Inr sample_udp_payload"
    by (simp add: encode_udp_def sample_udp_payload_def put_u32_def put_u64_def put_u16_def
        be_bytes_numeral) (simp add: numeral_eq_Suc)
  ultimately show ?thesis using udp_payload_bijection by blast
qed

end
