(* ===== verification/State_Machine.thy ===== *)
theory State_Machine
  imports Prelude
begin

text \<open>
  State machines whose step may be refused: \<open>run\<close> feeds a list of events to a step function
  and stops at the first refusal, as a caller does that closes the connection on an error.
  A machine may also skip what it refuses (\<open>accepts\<close>), as a receiver does that drops bad frames.
  Seven contracts are stated as locales and used by the handshake, the rendezvous session, the
  path state machine, the path manager and the relays: an invariant kept by every accepted step
  (\<open>guarded_machine\<close>), a state no step leaves (\<open>terminal_machine\<close>), a measure no step lowers
  (\<open>monotone_machine\<close>), a log that keeps the last entries only
  (\<open>bounded_log\<close>), a lockstep refinement of a simpler machine (\<open>lockstep\<close>), an
  invariant of a machine that takes every step (\<open>invariant_machine\<close>), and a refinement of a machine
  that answers every operation (\<open>answering_refinement\<close>).
\<close>

fun run :: "('s \<Rightarrow> 'e \<Rightarrow> ('err, 's) result) \<Rightarrow> 's \<Rightarrow> 'e list \<Rightarrow> ('err, 's) result" where
  "run step s [] = Inr s"
| "run step s (e # es) = and_then (step s e) (\<lambda>s'. run step s' es)"

lemma run_append: "run step s (xs @ ys) = and_then (run step s xs) (\<lambda>s'. run step s' ys)"
proof (induction xs arbitrary: s)
  case Nil
  show ?case by simp
next
  case (Cons x xs)
  then show ?case by (cases "step s x") simp_all
qed

lemma run_Cons_Inr:
  "run step s (e # es) = Inr t \<longleftrightarrow> (\<exists>s'. step s e = Inr s' \<and> run step s' es = Inr t)"
  by (simp add: result_simps)

locale guarded_machine =
  fixes step :: "'s \<Rightarrow> 'e \<Rightarrow> ('err, 's) result"
    and inv :: "'s \<Rightarrow> bool"
  assumes step_inv: "inv s \<Longrightarrow> step s e = Inr s' \<Longrightarrow> inv s'"
begin

lemma run_inv: "inv s \<Longrightarrow> run step s es = Inr s' \<Longrightarrow> inv s'"
  by (induction es arbitrary: s) (auto simp: result_simps dest: step_inv)

end

locale terminal_machine =
  fixes step :: "'s \<Rightarrow> 'e \<Rightarrow> ('err, 's) result"
    and terminal :: "'s \<Rightarrow> bool"
  assumes terminal_refuses: "terminal s \<Longrightarrow> \<exists>err. step s e = Inl err"
begin

lemma run_terminal:
  assumes "terminal s" and "run step s es = Inr s'"
  shows "es = [] \<and> s' = s"
proof (cases es)
  case Nil
  with assms(2) show ?thesis by simp
next
  case (Cons e r)
  from terminal_refuses [OF assms(1)] obtain err where "step s e = Inl err" by blast
  with assms(2) Cons show ?thesis by simp
qed

lemma terminal_only_at_end:
  "run step s es = Inr s' \<Longrightarrow> terminal t \<Longrightarrow> run step s (take n es) = Inr t \<Longrightarrow> n < length es \<Longrightarrow> False"
  using run_append [of step s "take n es" "drop n es"] run_terminal [of t "drop n es" s'] by simp

end

locale monotone_machine =
  fixes step :: "'s \<Rightarrow> 'e \<Rightarrow> ('err, 's) result"
    and rank :: "'s \<Rightarrow> nat"
  assumes step_rank: "step s e = Inr s' \<Longrightarrow> rank s \<le> rank s'"
begin

lemma run_rank: "run step s es = Inr s' \<Longrightarrow> rank s \<le> rank s'"
  by (induction es arbitrary: s) (fastforce simp: result_simps dest: step_rank)+

end

locale bounded_log =
  fixes push :: "'l \<Rightarrow> 'a \<Rightarrow> 'l"
    and entries :: "'l \<Rightarrow> 'a list"
    and cap :: nat
  assumes push_keeps: "length (entries l) < cap \<Longrightarrow> entries (push l x) = entries l @ [x]"
    and push_drops: "length (entries l) = cap \<Longrightarrow> entries (push l x) = tl (entries l) @ [x]"
    and cap_pos: "0 < cap"
begin

text \<open>After any sequence of pushes the log holds the last \<open>cap\<close> entries, in order.\<close>

lemma push_bound: "length (entries l) \<le> cap \<Longrightarrow> length (entries (push l x)) \<le> cap"
  using push_keeps [of l x] push_drops [of l x] cap_pos
  by (cases "length (entries l) = cap") auto

lemma push_last: "length (entries l) \<le> cap \<Longrightarrow> last (entries (push l x)) = x"
  using push_keeps [of l x] push_drops [of l x] by (cases "length (entries l) = cap") auto

lemma push_window:
  assumes "length (entries l) \<le> cap"
  shows "entries (push l x) =
    drop (length (entries l @ [x]) - cap) (entries l @ [x])"
proof (cases "length (entries l) = cap")
  case True
  then have "entries l \<noteq> []" using cap_pos by auto
  with True [symmetric] push_drops [OF True, of x] show ?thesis by (cases "entries l") simp_all
next
  case False
  with assms have "length (entries l) < cap" by simp
  then show ?thesis using push_keeps [of l x] by simp
qed

lemma foldl_push_window:
  assumes "length (entries l) \<le> cap"
  shows "entries (foldl push l xs) =
    drop (length (entries l @ xs) - cap) (entries l @ xs)"
  using assms
proof (induction xs arbitrary: l)
  case Nil
  then show ?case by simp
next
  case (Cons x xs)
  have b: "length (entries (push l x)) \<le> cap" using Cons.prems by (rule push_bound)
  from Cons.prems have "length (entries l) = cap \<or> length (entries l) < cap" by auto
  then show ?case
  proof
    assume full: "length (entries l) = cap"
    then have "entries l \<noteq> []" using cap_pos by auto
    with full [symmetric] Cons.IH [OF b] push_drops [OF full, of x] show ?thesis
      by (cases "entries l") simp_all
  next
    assume "length (entries l) < cap"
    with Cons.IH [OF b] push_keeps [of l x] show ?thesis by simp
  qed
qed

end

subsection \<open>Receivers that skip what they refuse, and refinement\<close>

fun accepts :: "('s \<Rightarrow> 'e \<Rightarrow> ('err, 's) result) \<Rightarrow> 's \<Rightarrow> 'e list \<Rightarrow> 'e list \<times> 's" where
  "accepts step s [] = ([], s)"
| "accepts step s (e # es) =
     (case step s e of
        Inl _ \<Rightarrow> accepts step s es
      | Inr s' \<Rightarrow> (let (as, t) = accepts step s' es in (e # as, t)))"

locale lockstep =
  fixes cstep :: "'c \<Rightarrow> 'e \<Rightarrow> ('err, 'c) result"
    and astep :: "'a \<Rightarrow> 'e \<Rightarrow> ('err, 'a) result"
    and rel :: "'c \<Rightarrow> 'a \<Rightarrow> bool"
  assumes refuse: "rel c a \<Longrightarrow> astep a e = Inl err \<Longrightarrow> cstep c e = Inl err"
    and progress: "rel c a \<Longrightarrow> astep a e = Inr a' \<Longrightarrow> \<exists>c'. cstep c e = Inr c' \<and> rel c' a'"
begin

lemma accepts_same:
  assumes "rel c a"
  shows "fst (accepts cstep c es) = fst (accepts astep a es) \<and>
    rel (snd (accepts cstep c es)) (snd (accepts astep a es))"
  using assms
proof (induction es arbitrary: c a)
  case Nil
  then show ?case by simp
next
  case (Cons e es)
  show ?case
  proof (cases "astep a e")
    case (Inl err)
    then show ?thesis using Cons.IH [OF Cons.prems] refuse [OF Cons.prems] by simp
  next
    case (Inr a')
    then obtain c' where "cstep c e = Inr c'" "rel c' a'" using progress [OF Cons.prems] by blast
    then show ?thesis using Cons.IH [of c' a'] Inr by (simp add: split_beta)
  qed
qed

lemma run_same:
  assumes "rel c a"
  shows "case run astep a es of Inl err \<Rightarrow> run cstep c es = Inl err
    | Inr a' \<Rightarrow> (\<exists>c'. run cstep c es = Inr c' \<and> rel c' a')"
  using assms
proof (induction es arbitrary: c a)
  case Nil
  then show ?case by simp
next
  case (Cons e es)
  show ?case
  proof (cases "astep a e")
    case (Inl err)
    then show ?thesis using refuse [OF Cons.prems] by simp
  next
    case (Inr a')
    then obtain c' where "cstep c e = Inr c'" "rel c' a'" using progress [OF Cons.prems] by blast
    then show ?thesis using Cons.IH [of c' a'] Inr by (auto split: sum.splits)
  qed
qed

end

subsection \<open>Machines that take every step\<close>

locale invariant_machine =
  fixes step :: "'s \<Rightarrow> 'op \<Rightarrow> 's"
    and ok :: "'op \<Rightarrow> bool"
    and inv :: "'s \<Rightarrow> bool"
  assumes keep: "inv s \<Longrightarrow> ok op \<Longrightarrow> inv (step s op)"
begin

lemma foldl_keep: "inv s \<Longrightarrow> list_all ok ops \<Longrightarrow> inv (foldl step s ops)"
  by (induction ops arbitrary: s) (simp_all add: keep)

text \<open>What no step from a good state undoes stays, whatever follows.\<close>

lemma foldl_stable:
  assumes "\<And>s op. inv s \<Longrightarrow> ok op \<Longrightarrow> P s \<Longrightarrow> P (step s op)" and "inv s" and "P s" and "list_all ok ops"
  shows "P (foldl step s ops)"
  using assms(2-4) by (induction ops arbitrary: s) (simp_all add: keep assms(1))

end

subsection \<open>Machines that answer every operation\<close>

fun answers :: "('s \<Rightarrow> 'op \<Rightarrow> 'r \<times> 's) \<Rightarrow> 's \<Rightarrow> 'op list \<Rightarrow> 'r list \<times> 's" where
  "answers step s [] = ([], s)"
| "answers step s (op # ops) =
     (let (r, s') = step s op; (rs, t) = answers step s' ops in (r # rs, t))"

lemma answers_append:
  "answers step s (xs @ ys) =
     (let (rs, s') = answers step s xs; (rs', t) = answers step s' ys in (rs @ rs', t))"
  by (induction xs arbitrary: s) (simp_all add: split_beta Let_def)

locale answering_refinement =
  fixes cstep :: "'c \<Rightarrow> 'op \<Rightarrow> 'r \<times> 'c"
    and astep :: "'a \<Rightarrow> 'op \<Rightarrow> 'r \<times> 'a"
    and rel :: "'c \<Rightarrow> 'a \<Rightarrow> bool"
  assumes simulate: "rel c a \<Longrightarrow>
    fst (cstep c op) = fst (astep a op) \<and> rel (snd (cstep c op)) (snd (astep a op))"
begin

lemma answers_same:
  "rel c a \<Longrightarrow> fst (answers cstep c ops) = fst (answers astep a ops) \<and>
     rel (snd (answers cstep c ops)) (snd (answers astep a ops))"
proof (induction ops arbitrary: c a)
  case (Cons op ops)
  then show ?case using simulate [OF Cons.prems, of op] by (simp add: split_beta Let_def)
qed simp

end

end
