(* ===== verification/Handshake.thy ===== *)
theory Handshake
  imports Protocol_Version State_Machine
begin

text \<open>
  The client handshake of \<open>rustgo-protocol/src/state.rs\<close>. \<open>transition\<close> is the version-blind
  machine, \<open>transition_control\<close> the one the control connections use, which also takes the
  negotiated version and the direction of the message. The lemmas describe the runs that reach
  the active state exactly, so that no message is served before the server's challenge was
  answered and the answer accepted.
\<close>

datatype ControlMessageDirection = ClientToServer | ServerToClient

datatype ClientHandshakeState =
    AwaitingHello
  | AwaitingChallenge
  | AwaitingAuthenticate bytes
  | AwaitingAuthResult bytes
  | AwaitingTunnelRegistration bytes
  | Active bytes
  | Rejected

record StateError =
  se_code :: ProtocolErrorCode

definition invalid_state :: StateError where "invalid_state = \<lparr>se_code = INVALID_STATE\<rparr>"
definition unknown_session :: StateError where "unknown_session = \<lparr>se_code = UNKNOWN_SESSION\<rparr>"

definition ClientHandshakeState_new :: ClientHandshakeState where
  "ClientHandshakeState_new = AwaitingHello"

fun served_when_active :: "Message \<Rightarrow> bool" where
  "served_when_active (Heartbeat _) = True"
| "served_when_active (OpenTcpStream _) = True"
| "served_when_active (OpenUdpChannel _) = True"
| "served_when_active (TcpStreamReady _) = True"
| "served_when_active (ErrorMsg _) = True"
| "served_when_active (ObservationGrantRequest _) = True"
| "served_when_active (ObservationGrant _) = True"
| "served_when_active (ServerNotice _) = True"
| "served_when_active (RendezvousRequest _) = True"
| "served_when_active (RendezvousProviderDecision _) = True"
| "served_when_active (RendezvousCandidateSet _) = True"
| "served_when_active (RendezvousCandidateSetV2 _) = True"
| "served_when_active (RendezvousConnectivityResult _) = True"
| "served_when_active (RendezvousRelayRequest _) = True"
| "served_when_active (RendezvousClose _) = True"
| "served_when_active (RendezvousError _) = True"
| "served_when_active (PeerRelayFrame _) = True"
| "served_when_active (PeerIdentityBinding _) = True"
| "served_when_active (PeerIdentityLookup _) = True"
| "served_when_active (PunchGrant _) = True"
| "served_when_active _ = False"

fun transition :: "ClientHandshakeState \<Rightarrow> Message \<Rightarrow> (StateError, ClientHandshakeState) result" where
  "transition AwaitingHello message =
     (case message of ClientHello _ \<Rightarrow> Inr AwaitingChallenge | _ \<Rightarrow> Inl invalid_state)"
| "transition AwaitingChallenge message =
     (case message of
        ServerChallenge challenge \<Rightarrow> Inr (AwaitingAuthenticate (sc_session_id challenge))
      | _ \<Rightarrow> Inl invalid_state)"
| "transition (AwaitingAuthenticate session_id) message =
     (case message of
        ClientAuthenticate _ \<Rightarrow> Inr (AwaitingAuthResult session_id)
      | _ \<Rightarrow> Inl invalid_state)"
| "transition (AwaitingAuthResult session_id) message =
     (case message of
        AuthResult result \<Rightarrow>
          if ar_accepted result then Inr (AwaitingTunnelRegistration session_id) else Inr Rejected
      | _ \<Rightarrow> Inl invalid_state)"
| "transition (AwaitingTunnelRegistration session_id) message =
     (case message of RegisterTunnels _ \<Rightarrow> Inr (Active session_id) | _ \<Rightarrow> Inl invalid_state)"
| "transition (Active session_id) message =
     (if served_when_active message then Inr (Active session_id) else Inl invalid_state)"
| "transition Rejected message = Inl invalid_state"

fun is_active :: "ClientHandshakeState \<Rightarrow> bool" where
  "is_active (Active _) = True"
| "is_active _ = False"

fun is_rejected :: "ClientHandshakeState \<Rightarrow> bool" where
  "is_rejected Rejected = True"
| "is_rejected _ = False"

fun is_awaiting_registration :: "ClientHandshakeState \<Rightarrow> bool" where
  "is_awaiting_registration (AwaitingTunnelRegistration _) = True"
| "is_awaiting_registration _ = False"

definition transition_control ::
  "ClientHandshakeState \<Rightarrow> ProtocolVersion \<Rightarrow> ControlMessageDirection \<Rightarrow> Message
     \<Rightarrow> (StateError, ClientHandshakeState) result" where
  "transition_control self negotiated_version direction message =
     (case message of
        ManagedConfigUpdate _ \<Rightarrow>
          if is_awaiting_registration self \<and> supports_managed_editing negotiated_version
             \<and> direction = ClientToServer
          then Inr self else Inl invalid_state
      | ManagedConfigUpdateResult _ \<Rightarrow>
          if is_awaiting_registration self \<and> supports_managed_editing negotiated_version
             \<and> direction = ServerToClient
          then Inr self else Inl invalid_state
      | ManagedConfigRequest _ \<Rightarrow>
          if supports_managed_configuration negotiated_version
             \<and> (is_awaiting_registration self \<and> direction = ClientToServer)
          then Inr self else Inl invalid_state
      | ManagedConfigSnapshot _ \<Rightarrow>
          if supports_managed_configuration negotiated_version
             \<and> (is_awaiting_registration self \<and> direction = ServerToClient)
          then Inr self else Inl invalid_state
      | ManagedConfigReport _ \<Rightarrow>
          if supports_managed_configuration negotiated_version
             \<and> ((is_active self \<or> is_awaiting_registration self) \<and> direction = ClientToServer)
          then Inr self else Inl invalid_state
      | TelemetryReport _ \<Rightarrow>
          if is_active self \<and> direction = ClientToServer \<and> supports_telemetry negotiated_version
          then Inr self else Inl invalid_state
      | _ \<Rightarrow> transition self message)"

definition validate_data_channel_session ::
  "ClientHandshakeState \<Rightarrow> bytes \<Rightarrow> (StateError, unit) result" where
  "validate_data_channel_session self candidate =
     (case self of
        Active session_id \<Rightarrow> if session_id = candidate then Inr () else Inl unknown_session
      | _ \<Rightarrow> Inl invalid_state)"

subsection \<open>Single steps\<close>

text \<open>The messages that only the versioned machine accepts, with their guards.\<close>

fun versioned :: "Message \<Rightarrow> bool" where
  "versioned (ManagedConfigUpdate _) = True"
| "versioned (ManagedConfigUpdateResult _) = True"
| "versioned (ManagedConfigRequest _) = True"
| "versioned (ManagedConfigSnapshot _) = True"
| "versioned (ManagedConfigReport _) = True"
| "versioned (TelemetryReport _) = True"
| "versioned _ = False"

fun message_sender :: "Message \<Rightarrow> ControlMessageDirection" where
  "message_sender (ManagedConfigUpdateResult _) = ServerToClient"
| "message_sender (ManagedConfigSnapshot _) = ServerToClient"
| "message_sender _ = ClientToServer"

fun feature_of :: "Message \<Rightarrow> ProtocolVersion \<Rightarrow> bool" where
  "feature_of (ManagedConfigUpdate _) = supports_managed_editing"
| "feature_of (ManagedConfigUpdateResult _) = supports_managed_editing"
| "feature_of (TelemetryReport _) = supports_telemetry"
| "feature_of _ = supports_managed_configuration"

fun state_admits :: "Message \<Rightarrow> ClientHandshakeState \<Rightarrow> bool" where
  "state_admits (TelemetryReport _) s = is_active s"
| "state_admits (ManagedConfigReport _) s = (is_active s \<or> is_awaiting_registration s)"
| "state_admits _ s = is_awaiting_registration s"

lemma transition_control_plain:
  "\<not> versioned m \<Longrightarrow> transition_control s v d m = transition s m"
  by (cases m) (simp_all add: transition_control_def)

lemma transition_control_versioned:
  "versioned m \<Longrightarrow> transition_control s v d m =
     (if state_admits m s \<and> d = message_sender m \<and> feature_of m v then Inr s else Inl invalid_state)"
  by (cases m) (auto simp: transition_control_def)

lemma transition_versioned: "versioned m \<Longrightarrow> transition s m = Inl invalid_state"
  by (cases m; cases s) simp_all

definition control_step ::
  "ClientHandshakeState \<Rightarrow> ProtocolVersion \<times> ControlMessageDirection \<times> Message
     \<Rightarrow> (StateError, ClientHandshakeState) result" where
  "control_step s e = (case e of (v, d, m) \<Rightarrow> transition_control s v d m)"

lemma transition_Inr_cases:
  assumes "transition s m = Inr t"
  shows "(s = AwaitingHello \<and> (\<exists>h. m = ClientHello h) \<and> t = AwaitingChallenge) \<or>
    (s = AwaitingChallenge \<and> (\<exists>c. m = ServerChallenge c \<and> t = AwaitingAuthenticate (sc_session_id c))) \<or>
    (\<exists>sid. s = AwaitingAuthenticate sid \<and> (\<exists>a. m = ClientAuthenticate a) \<and> t = AwaitingAuthResult sid) \<or>
    (\<exists>sid r. s = AwaitingAuthResult sid \<and> m = AuthResult r \<and>
        t = (if ar_accepted r then AwaitingTunnelRegistration sid else Rejected)) \<or>
    (\<exists>sid. s = AwaitingTunnelRegistration sid \<and> (\<exists>r. m = RegisterTunnels r) \<and> t = Active sid) \<or>
    (is_active s \<and> served_when_active m \<and> t = s)"
  using assms by (cases s) (auto split: Message.splits if_splits)

fun accepted_before_registration :: "ProtocolVersion \<times> ControlMessageDirection \<times> Message \<Rightarrow> bool" where
  "accepted_before_registration (v, d, m) \<longleftrightarrow>
     versioned m \<and> state_admits m (AwaitingTunnelRegistration []) \<and> d = message_sender m \<and> feature_of m v"

fun accepted_when_active :: "ProtocolVersion \<times> ControlMessageDirection \<times> Message \<Rightarrow> bool" where
  "accepted_when_active (v, d, m) \<longleftrightarrow>
     (if versioned m then state_admits m (Active []) \<and> d = message_sender m \<and> feature_of m v
      else served_when_active m)"

lemma state_admits_session:
  "state_admits m (Active sid) = state_admits m (Active [])"
  "state_admits m (AwaitingTunnelRegistration sid) = state_admits m (AwaitingTunnelRegistration [])"
  by (cases m; simp)+

lemma control_step_active:
  "control_step (Active sid) e = (if accepted_when_active e then Inr (Active sid) else Inl invalid_state)"
proof (cases e)
  case (fields v d m)
  then show ?thesis
    by (cases "versioned m")
      (simp_all add: control_step_def transition_control_plain transition_control_versioned
        state_admits_session(1) [of m sid])
qed

lemma control_step_registration:
  "control_step (AwaitingTunnelRegistration sid) (v, d, m) =
     (case m of RegisterTunnels _ \<Rightarrow> Inr (Active sid)
      | _ \<Rightarrow> if accepted_before_registration (v, d, m) then Inr (AwaitingTunnelRegistration sid)
            else Inl invalid_state)"
proof (cases "versioned m")
  case True
  then show ?thesis
    by (cases m) (simp_all add: control_step_def transition_control_versioned
        state_admits_session(2) [of m sid])
next
  case False
  then show ?thesis
    by (cases m) (simp_all add: control_step_def transition_control_plain)
qed

lemma control_step_early:
  "control_step AwaitingHello (v, d, m) = transition AwaitingHello m"
  "control_step AwaitingChallenge (v, d, m) = transition AwaitingChallenge m"
  "control_step (AwaitingAuthenticate sid) (v, d, m) = transition (AwaitingAuthenticate sid) m"
  "control_step (AwaitingAuthResult sid) (v, d, m) = transition (AwaitingAuthResult sid) m"
  "control_step Rejected (v, d, m) = Inl invalid_state"
  by (cases m; simp add: control_step_def transition_control_def)+

interpretation handshake_end: terminal_machine control_step is_rejected
proof
  fix s e assume "is_rejected s"
  then have "s = Rejected" by (cases s) auto
  then show "\<exists>err. control_step s e = Inl err"
    by (cases e) (simp add: control_step_early)
qed

text \<open>The phases in the order the handshake goes through them.\<close>

fun handshake_rank :: "ClientHandshakeState \<Rightarrow> nat" where
  "handshake_rank AwaitingHello = 0"
| "handshake_rank AwaitingChallenge = 1"
| "handshake_rank (AwaitingAuthenticate _) = 2"
| "handshake_rank (AwaitingAuthResult _) = 3"
| "handshake_rank (AwaitingTunnelRegistration _) = 4"
| "handshake_rank (Active _) = 5"
| "handshake_rank Rejected = 6"

lemma control_step_Inr:
  "control_step s (v, d, m) = Inr t \<Longrightarrow> t = s \<or> transition s m = Inr t"
  by (cases "versioned m")
    (auto simp: control_step_def transition_control_plain transition_control_versioned split: if_splits)

interpretation handshake_order: monotone_machine control_step handshake_rank
proof
  fix s e t assume "control_step s e = Inr t"
  then show "handshake_rank s \<le> handshake_rank t"
    by (cases e) (auto dest!: control_step_Inr transition_Inr_cases split: if_splits)
qed

subsection \<open>Runs\<close>

lemma run_from_rejected: "run control_step Rejected es = Inr t \<longleftrightarrow> es = [] \<and> t = Rejected"
  using handshake_end.run_terminal [of Rejected es t] by auto

lemma run_from_active:
  "run control_step (Active sid) es = Inr t \<longleftrightarrow> t = Active sid \<and> list_all accepted_when_active es"
  by (induction es) (auto simp: result_simps control_step_active)

lemma run_from_registration:
  "run control_step (AwaitingTunnelRegistration sid) es = Inr (Active sid') \<longleftrightarrow>
     sid' = sid \<and> (\<exists>pre v d g post. es = pre @ (v, d, RegisterTunnels g) # post \<and>
        list_all accepted_before_registration pre \<and> list_all accepted_when_active post)"
  (is "?L es \<longleftrightarrow> ?R es")
proof (induction es)
  case Nil
  show ?case by simp
next
  case (Cons e es)
  obtain v d m where e: "e = (v, d, m)" by (cases e)
  show ?case
  proof (cases "\<exists>g. m = RegisterTunnels g")
    case True
    then obtain g where m: "m = RegisterTunnels g" by blast
    have nb: "\<not> accepted_before_registration (v, d, m)" by (simp add: m)
    have "?R (e # es) \<longleftrightarrow> sid' = sid \<and> list_all accepted_when_active es"
      using nb by (auto simp: e m Cons_eq_append_conv intro: exI [of _ "[]"])
    then show ?thesis
      by (auto simp: e m run_Cons_Inr control_step_registration run_from_active)
  next
    case False
    then have s: "control_step (AwaitingTunnelRegistration sid) e =
        (if accepted_before_registration e then Inr (AwaitingTunnelRegistration sid) else Inl invalid_state)"
      by (auto simp: e control_step_registration split: Message.splits)
    have "?R (e # es) \<longleftrightarrow> accepted_before_registration e \<and> ?R es"
      using False by (fastforce simp: e Cons_eq_append_conv)
    with s Cons.IH show ?thesis by (simp add: result_simps)
  qed
qed

text \<open>
  C3 (authentication before service): the control machine is in the active state with session
  \<open>sid\<close> after exactly the runs that start with a hello, a challenge that names \<open>sid\<close>, the
  client's proof and an accepting result, then register the tunnels, with nothing in between
  but the managed-configuration messages of the right direction and version, and then carry
  only messages served in the active state.
\<close>

theorem active_runs:
  "run control_step ClientHandshakeState_new es = Inr (Active sid) \<longleftrightarrow>
     (\<exists>v1 d1 h v2 d2 c v3 d3 a v4 d4 r pre v5 d5 g post.
        es = (v1, d1, ClientHello h) # (v2, d2, ServerChallenge c) # (v3, d3, ClientAuthenticate a) #
             (v4, d4, AuthResult r) # pre @ (v5, d5, RegisterTunnels g) # post \<and>
        sc_session_id c = sid \<and> ar_accepted r \<and>
        list_all accepted_before_registration pre \<and> list_all accepted_when_active post)"
  (is "?L \<longleftrightarrow> ?R")
proof
  assume ?L
  then obtain h c a r v1 d1 v2 d2 v3 d3 v4 d4 es' where
    es: "es = (v1, d1, ClientHello h) # (v2, d2, ServerChallenge c) # (v3, d3, ClientAuthenticate a) #
      (v4, d4, AuthResult r) # es'" and r: "ar_accepted r"
    and rest: "run control_step (AwaitingTunnelRegistration (sc_session_id c)) es' = Inr (Active sid)"
    by (cases es; cases "tl es"; cases "tl (tl es)"; cases "tl (tl (tl es))")
      (auto simp: ClientHandshakeState_new_def result_simps control_step_early
        run_from_rejected split: Message.splits if_splits)
  from rest show ?R
    unfolding run_from_registration es using r by auto
next
  assume ?R
  then show ?L
    by (auto simp: ClientHandshakeState_new_def result_simps control_step_early run_from_registration)
      blast
qed

text \<open>The sessions named by the challenges of a run, and the session a state holds.\<close>

fun challenge_ids :: "(ProtocolVersion \<times> ControlMessageDirection \<times> Message) list \<Rightarrow> bytes list" where
  "challenge_ids [] = []"
| "challenge_ids ((v, d, m) # es) =
     (case m of ServerChallenge c \<Rightarrow> sc_session_id c # challenge_ids es | _ \<Rightarrow> challenge_ids es)"

lemma challenge_ids_append: "challenge_ids (xs @ ys) = challenge_ids xs @ challenge_ids ys"
  by (induction xs rule: challenge_ids.induct) (auto split: Message.splits)

fun holds_sessions :: "ClientHandshakeState \<Rightarrow> bytes list \<Rightarrow> bool" where
  "holds_sessions AwaitingHello ids \<longleftrightarrow> ids = []"
| "holds_sessions AwaitingChallenge ids \<longleftrightarrow> ids = []"
| "holds_sessions (AwaitingAuthenticate sid) ids \<longleftrightarrow> ids = [sid]"
| "holds_sessions (AwaitingAuthResult sid) ids \<longleftrightarrow> ids = [sid]"
| "holds_sessions (AwaitingTunnelRegistration sid) ids \<longleftrightarrow> ids = [sid]"
| "holds_sessions (Active sid) ids \<longleftrightarrow> ids = [sid]"
| "holds_sessions Rejected ids \<longleftrightarrow> length ids = 1"

lemma control_step_sessions:
  assumes "control_step s (v, d, m) = Inr t" and "holds_sessions s ids"
  shows "holds_sessions t (ids @ challenge_ids [(v, d, m)])"
proof (cases "versioned m")
  case True
  then have "challenge_ids [(v, d, m)] = []" by (cases m) simp_all
  with True assms show ?thesis
    by (auto simp: control_step_def transition_control_versioned split: if_splits)
next
  case False
  with assms(1) have "transition s m = Inr t" by (simp add: control_step_def transition_control_plain)
  then have "(\<exists>c. m = ServerChallenge c \<and> s = AwaitingChallenge \<and> t = AwaitingAuthenticate (sc_session_id c)) \<or>
      challenge_ids [(v, d, m)] = [] \<and> (\<forall>ids. holds_sessions s ids \<longrightarrow> holds_sessions t ids)"
    by (auto dest!: transition_Inr_cases split: Message.splits)
  with assms(2) show ?thesis by auto
qed

lemma run_sessions:
  assumes "run control_step s es = Inr t" and "holds_sessions s ids"
  shows "holds_sessions t (ids @ challenge_ids es)"
  using assms
proof (induction es arbitrary: s ids)
  case Nil
  then show ?case by simp
next
  case (Cons e es)
  obtain v d m where e: "e = (v, d, m)" by (cases e)
  from Cons.prems(1) obtain s' where s': "control_step s e = Inr s'" "run control_step s' es = Inr t"
    by (auto simp: result_simps)
  from Cons.IH [OF s'(2) control_step_sessions [OF s'(1) [unfolded e] Cons.prems(2)]]
  show ?case using challenge_ids_append [of "[e]" es] by (simp add: e)
qed

text \<open>
  Data channels belong to the challenged session: after any run of the control machine, a
  data channel is admitted exactly when the machine is active and the channel names the session
  of the one challenge the server sent on this connection.
\<close>

theorem data_channel_session:
  assumes "run control_step ClientHandshakeState_new es = Inr s"
  shows "validate_data_channel_session s candidate = Inr () \<longleftrightarrow> is_active s \<and> challenge_ids es = [candidate]"
proof -
  from assms run_sessions [of ClientHandshakeState_new es s "[]"]
  have "holds_sessions s (challenge_ids es)" by (simp add: ClientHandshakeState_new_def)
  then show ?thesis by (cases s) (auto simp: validate_data_channel_session_def)
qed

definition sample_handshake :: "(ProtocolVersion \<times> ControlMessageDirection \<times> Message) list" where
  "sample_handshake =
     [(V0_6, ClientToServer, ClientHello \<lparr>ch_client_name = ''edge'', ch_fingerprint = [1],
         ch_heartbeat_interval_secs = 15\<rparr>),
      (V0_6, ServerToClient, ServerChallenge \<lparr>sc_challenge = [9], sc_session_id = [7, 7]\<rparr>),
      (V0_6, ClientToServer, ClientAuthenticate \<lparr>ca_public_key = [2], ca_signature = [3]\<rparr>),
      (V0_6, ServerToClient, AuthResult \<lparr>ar_accepted = True, ar_error = None\<rparr>),
      (V0_6, ClientToServer, RegisterTunnels \<lparr>rt_tunnels = []\<rparr>),
      (V0_6, ClientToServer, Heartbeat \<lparr>hb_sequence = 1\<rparr>)]"

theorem data_channel_session_witness:
  "validate_data_channel_session (Active [7, 7]) [7, 7] = Inr () \<and>
   validate_data_channel_session (Active [7, 7]) [8] \<noteq> Inr ()"
proof -
  have r: "run control_step ClientHandshakeState_new sample_handshake = Inr (Active [7, 7])"
    by (simp add: ClientHandshakeState_new_def sample_handshake_def control_step_early
        control_step_registration control_step_active)
  have "challenge_ids sample_handshake = [[7, 7]]" by (simp add: sample_handshake_def)
  with data_channel_session [OF r] show ?thesis by simp
qed

text \<open>
  Negotiated features: a telemetry or managed-configuration message is accepted only if
  both ends of the negotiation have the feature, it travels in its own direction and the state
  admits it; and accepting it changes no state.
\<close>

theorem versioned_message_gate:
  assumes "versioned m" and "negotiate local peer = Inr v"
  shows "transition_control s v d m = Inr s' \<longleftrightarrow>
     s' = s \<and> state_admits m s \<and> d = message_sender m \<and> feature_of m local \<and> feature_of m peer"
proof -
  have "feature_of m v \<longleftrightarrow> feature_of m local \<and> feature_of m peer"
  proof -
    obtain j k where "\<And>u. feature_of m u \<longleftrightarrow> pv_major u = j \<and> pv_minor u \<ge> k"
      by (cases m) (auto simp: supports_defs)
    from feature_meet [OF assms(2) this] show ?thesis .
  qed
  with assms(1) show ?thesis by (auto simp: transition_control_versioned split: if_splits)
qed

theorem versioned_message_gate_witness:
  "transition_control (Active [1]) V0_3 ClientToServer (TelemetryReport
     \<lparr>tel_sampled_unix_millis = 1, tel_sequence = 1, tel_cpu_basis_points = 5, tel_memory_used_bytes = 1,
      tel_memory_total_bytes = 2, tel_disk_used_bytes = 1, tel_disk_total_bytes = 2,
      tel_tx_bytes_per_sec = 0, tel_rx_bytes_per_sec = 0\<rparr>) = Inr (Active [1])"
proof -
  have "negotiate V0_6 V0_3 = Inr V0_3" by (simp add: negotiate_Inr_iff version_defs)
  from versioned_message_gate [OF _ this] show ?thesis
    by (simp add: supports_defs version_defs)
qed

end
