(* ===== verification/Rendezvous_State.thy ===== *)
theory Rendezvous_State
  imports State_Machine
begin

text \<open>
  The per-session state of the rendezvous protocol (\<open>rustgo-rendezvous/src/state.rs\<close>): its
  phase, the last accepted step number and the candidate generation. Every operation is a
  function from the state to a new state or an error; an error leaves the state as it was, as
  the Rust methods return before they assign.
\<close>

datatype CandidateGeneration = CandidateGeneration (gen_get: u64)

definition CandidateGeneration_INITIAL :: CandidateGeneration where
  "CandidateGeneration_INITIAL = CandidateGeneration 1"

definition CandidateGeneration_new :: "u64 \<Rightarrow> CandidateGeneration option" where
  "CandidateGeneration_new value = (if value = 0 then None else Some (CandidateGeneration value))"

datatype SessionId = SessionId (sid_as_bytes: bytes)

datatype RendezvousPhase = PhaseNew | PhaseRequested | PhaseAccepted | PhaseClosed

record RendezvousState =
  rs_session_id :: SessionId
  rs_phase :: RendezvousPhase
  rs_last_step :: u64
  rs_generation :: CandidateGeneration

datatype RendezvousStateError =
    ReplayedStep
  | GenerationMismatch CandidateGeneration CandidateGeneration
  | SessionMismatch
  | MessageExpired
  | IllegalRendezvousTransition

definition RendezvousState_new :: "SessionId \<Rightarrow> RendezvousState" where
  "RendezvousState_new session_id =
     \<lparr>rs_session_id = session_id, rs_phase = PhaseNew, rs_last_step = 0,
      rs_generation = CandidateGeneration_INITIAL\<rparr>"

definition RendezvousState_requested :: "SessionId \<Rightarrow> u64 \<Rightarrow> RendezvousState" where
  "RendezvousState_requested session_id step =
     \<lparr>rs_session_id = session_id, rs_phase = PhaseRequested, rs_last_step = step,
      rs_generation = CandidateGeneration_INITIAL\<rparr>"

definition accept_step :: "RendezvousState \<Rightarrow> u64 \<Rightarrow> (RendezvousStateError, unit) result" where
  "accept_step self step = (if step \<le> rs_last_step self then Inl ReplayedStep else Inr ())"

definition accept_generation ::
  "RendezvousState \<Rightarrow> CandidateGeneration \<Rightarrow> (RendezvousStateError, unit) result" where
  "accept_generation self generation =
     (if gen_get generation \<noteq> gen_get (rs_generation self)
      then Inl (GenerationMismatch (rs_generation self) generation) else Inr ())"

definition request ::
  "RendezvousState \<Rightarrow> u64 \<Rightarrow> CandidateGeneration \<Rightarrow> (RendezvousStateError, RendezvousState) result" where
  "request self step generation =
     (if rs_phase self \<noteq> PhaseNew then Inl IllegalRendezvousTransition
      else and_then (accept_step self step) (\<lambda>_.
        Inr (self\<lparr>rs_phase := PhaseRequested, rs_last_step := step, rs_generation := generation\<rparr>)))"

definition provider_decision ::
  "RendezvousState \<Rightarrow> u64 \<Rightarrow> CandidateGeneration \<Rightarrow> bool
     \<Rightarrow> (RendezvousStateError, RendezvousState) result" where
  "provider_decision self step generation accepted =
     (if rs_phase self \<noteq> PhaseRequested then Inl IllegalRendezvousTransition
      else and_then (accept_step self step) (\<lambda>_.
        and_then (accept_generation self generation) (\<lambda>_.
          Inr (self\<lparr>rs_last_step := step,
                    rs_phase := (if accepted then PhaseAccepted else PhaseClosed)\<rparr>))))"

definition advance_step :: "RendezvousState \<Rightarrow> u64 \<Rightarrow> (RendezvousStateError, RendezvousState) result" where
  "advance_step self step =
     and_then (accept_step self step) (\<lambda>_. Inr (self\<lparr>rs_last_step := step\<rparr>))"

definition advance_generation ::
  "RendezvousState \<Rightarrow> CandidateGeneration \<Rightarrow> (RendezvousStateError, RendezvousState) result" where
  "advance_generation self generation =
     and_then (ok_or (checked_add (gen_get (rs_generation self)) 1) IllegalRendezvousTransition)
       (\<lambda>expected. if gen_get generation \<noteq> expected
          then Inl (GenerationMismatch (rs_generation self) generation)
          else Inr (self\<lparr>rs_generation := generation\<rparr>))"

definition accept_metadata ::
  "RendezvousState \<Rightarrow> SessionId \<Rightarrow> u64 \<Rightarrow> CandidateGeneration \<Rightarrow> u64 \<Rightarrow> u64
     \<Rightarrow> (RendezvousStateError, RendezvousState) result" where
  "accept_metadata self session_id step generation expires_unix_secs now_unix_secs =
     (if session_id \<noteq> rs_session_id self then Inl SessionMismatch
      else if expires_unix_secs \<le> now_unix_secs then Inl MessageExpired
      else and_then (accept_generation self generation) (\<lambda>_. advance_step self step))"

subsection \<open>Runs of a session\<close>

datatype RendezvousEvent =
    EvRequest u64 CandidateGeneration
  | EvDecision u64 CandidateGeneration bool
  | EvAdvanceStep u64
  | EvAdvanceGeneration CandidateGeneration
  | EvMetadata SessionId u64 CandidateGeneration u64 u64

fun rendezvous_step ::
  "RendezvousState \<Rightarrow> RendezvousEvent \<Rightarrow> (RendezvousStateError, RendezvousState) result" where
  "rendezvous_step s (EvRequest step gen) = request s step gen"
| "rendezvous_step s (EvDecision step gen accepted) = provider_decision s step gen accepted"
| "rendezvous_step s (EvAdvanceStep step) = advance_step s step"
| "rendezvous_step s (EvAdvanceGeneration gen) = advance_generation s gen"
| "rendezvous_step s (EvMetadata sid step gen expires now) = accept_metadata s sid step gen expires now"

fun event_step :: "RendezvousEvent \<Rightarrow> u64 option" where
  "event_step (EvRequest step _) = Some step"
| "event_step (EvDecision step _ _) = Some step"
| "event_step (EvAdvanceStep step) = Some step"
| "event_step (EvAdvanceGeneration _) = None"
| "event_step (EvMetadata _ step _ _ _) = Some step"

lemmas rendezvous_op_defs =
  accept_step_def accept_generation_def request_def provider_decision_def advance_step_def
  advance_generation_def accept_metadata_def

lemma rendezvous_step_last:
  assumes "rendezvous_step s e = Inr t"
  shows "rs_session_id t = rs_session_id s \<and>
    (case event_step e of None \<Rightarrow> rs_last_step t = rs_last_step s
     | Some n \<Rightarrow> rs_last_step s < n \<and> rs_last_step t = n)"
  using assms by (cases e) (auto simp: rendezvous_op_defs result_simps split: if_splits)

lemma rendezvous_step_phase:
  assumes "rendezvous_step s e = Inr t"
  shows "(rs_phase s = PhaseNew \<and> (\<exists>n g. e = EvRequest n g) \<and> rs_phase t = PhaseRequested) \<or>
    (rs_phase s = PhaseRequested \<and> (\<exists>n g a. e = EvDecision n g a \<and>
       rs_phase t = (if a then PhaseAccepted else PhaseClosed))) \<or>
    ((\<forall>n g. e \<noteq> EvRequest n g) \<and> (\<forall>n g a. e \<noteq> EvDecision n g a) \<and> rs_phase t = rs_phase s)"
  using assms by (cases e) (auto simp: rendezvous_op_defs result_simps split: if_splits)

fun phase_rank :: "RendezvousPhase \<Rightarrow> nat" where
  "phase_rank PhaseNew = 0"
| "phase_rank PhaseRequested = 1"
| "phase_rank PhaseAccepted = 2"
| "phase_rank PhaseClosed = 2"

interpretation rendezvous_phases: monotone_machine rendezvous_step "\<lambda>s. phase_rank (rs_phase s)"
  by unfold_locales (auto dest!: rendezvous_step_phase split: if_splits)

interpretation rendezvous_session: guarded_machine rendezvous_step "\<lambda>s. rs_session_id s = sid" for sid
  by unfold_locales (auto dest: rendezvous_step_last)

interpretation rendezvous_steps: monotone_machine rendezvous_step "\<lambda>s. unat (rs_last_step s)"
proof
  fix s e t assume "rendezvous_step s e = Inr t"
  from rendezvous_step_last [OF this] show "unat (rs_last_step s) \<le> unat (rs_last_step t)"
    by (auto simp: word_less_nat_alt split: option.splits)
qed

text \<open>
  C4 (replay protection): in every accepted run the step numbers presented are strictly
  increasing, starting above the last step of the initial state, and the state records the
  last of them; so no step number is ever accepted twice.
\<close>

theorem accepted_steps_increase:
  assumes "run rendezvous_step s es = Inr t"
  shows "sorted_wrt (<) (rs_last_step s # List.map_filter event_step es) \<and>
    rs_last_step t = last (rs_last_step s # List.map_filter event_step es) \<and>
    rs_session_id t = rs_session_id s"
  using assms
proof (induction es arbitrary: s)
  case Nil
  then show ?case by (simp add: map_filter_simps)
next
  case (Cons e es)
  from Cons.prems obtain u where u: "rendezvous_step s e = Inr u" "run rendezvous_step u es = Inr t"
    by (auto simp: result_simps)
  from Cons.IH [OF u(2)] rendezvous_step_last [OF u(1)] show ?case
    by (cases "event_step e") (auto simp: map_filter_simps intro: less_trans)
qed

definition sample_session :: "RendezvousEvent list" where
  "sample_session =
     [EvRequest 1 (CandidateGeneration 1), EvDecision 2 (CandidateGeneration 1) True,
      EvMetadata (SessionId [5]) 4 (CandidateGeneration 1) 100 50,
      EvAdvanceGeneration (CandidateGeneration 2), EvAdvanceStep 9]"

definition sample_session_end :: RendezvousState where
  "sample_session_end =
     \<lparr>rs_session_id = SessionId [5], rs_phase = PhaseAccepted, rs_last_step = 9,
      rs_generation = CandidateGeneration 2\<rparr>"

lemma sample_session_run:
  "run rendezvous_step (RendezvousState_new (SessionId [5])) sample_session = Inr sample_session_end"
  by (simp add: sample_session_def sample_session_end_def RendezvousState_new_def rendezvous_op_defs
      CandidateGeneration_INITIAL_def checked_add_def word_le_nat_alt)

theorem accepted_steps_increase_witness:
  "sorted_wrt (<) (rs_last_step (RendezvousState_new (SessionId [5])) # List.map_filter event_step sample_session) \<and>
   rs_last_step sample_session_end =
     last (rs_last_step (RendezvousState_new (SessionId [5])) # List.map_filter event_step sample_session) \<and>
   rs_session_id sample_session_end = rs_session_id (RendezvousState_new (SessionId [5]))"
  by (rule accepted_steps_increase [OF sample_session_run])

subsection \<open>Phases and generations\<close>

fun is_phase_event :: "RendezvousEvent \<Rightarrow> bool" where
  "is_phase_event (EvRequest _ _) = True"
| "is_phase_event (EvDecision _ _ _) = True"
| "is_phase_event _ = False"

fun phase_history :: "RendezvousPhase \<Rightarrow> u64 \<Rightarrow> RendezvousEvent list \<Rightarrow> bool" where
  "phase_history PhaseNew lst hist \<longleftrightarrow> hist = []"
| "phase_history PhaseRequested lst hist \<longleftrightarrow> (\<exists>n g. hist = [EvRequest n g] \<and> n \<le> lst)"
| "phase_history PhaseAccepted lst hist \<longleftrightarrow>
     (\<exists>n g m h. hist = [EvRequest n g, EvDecision m h True] \<and> n < m)"
| "phase_history PhaseClosed lst hist \<longleftrightarrow>
     (\<exists>n g m h. hist = [EvRequest n g, EvDecision m h False] \<and> n < m)"

lemma phase_history_step:
  assumes "rendezvous_step s e = Inr t" and "phase_history (rs_phase s) (rs_last_step s) hist"
  shows "phase_history (rs_phase t) (rs_last_step t) (hist @ filter is_phase_event [e])"
proof -
  note last = rendezvous_step_last [OF assms(1)]
  have mono: "rs_last_step s \<le> rs_last_step t"
    using last by (auto split: option.splits)
  from rendezvous_step_phase [OF assms(1)]
  consider (request) n g where "rs_phase s = PhaseNew" "e = EvRequest n g" "rs_phase t = PhaseRequested"
    | (decision) n g a where "rs_phase s = PhaseRequested" "e = EvDecision n g a"
        "rs_phase t = (if a then PhaseAccepted else PhaseClosed)"
    | (other) "\<not> is_phase_event e" "rs_phase t = rs_phase s"
    by (cases e) auto
  then show ?thesis
  proof cases
    case request
    with assms(2) last show ?thesis by auto
  next
    case decision
    with assms(2) last show ?thesis by (auto intro: le_less_trans)
  next
    case other
    with assms(2) mono show ?thesis by (cases "rs_phase s") (auto intro: order_trans)
  qed
qed

lemma phase_history_run:
  assumes "run rendezvous_step s es = Inr t" and "phase_history (rs_phase s) (rs_last_step s) hist"
  shows "phase_history (rs_phase t) (rs_last_step t) (hist @ filter is_phase_event es)"
  using assms
proof (induction es arbitrary: s hist)
  case Nil
  then show ?case by simp
next
  case (Cons e es)
  from Cons.prems(1) obtain u where u: "rendezvous_step s e = Inr u" "run rendezvous_step u es = Inr t"
    by (auto simp: result_simps)
  from Cons.IH [OF u(2) phase_history_step [OF u(1) Cons.prems(2)]] show ?case
    by (simp split: if_splits)
qed

text \<open>
  A session is accepted once: in a run from a fresh session, the phase tells the whole
  history of requests and decisions: a session is accepted or closed only by one request and
  one later decision of that outcome, and no second request or decision is ever taken.
\<close>

theorem session_phase_history:
  assumes "run rendezvous_step (RendezvousState_new sid) es = Inr t"
  shows "phase_history (rs_phase t) (rs_last_step t) (filter is_phase_event es)"
  using phase_history_run [OF assms, of "[]"] by (simp add: RendezvousState_new_def)

theorem session_phase_history_witness:
  "phase_history (rs_phase sample_session_end) (rs_last_step sample_session_end)
     (filter is_phase_event sample_session)"
  by (rule session_phase_history [OF sample_session_run])

fun is_generation_event :: "RendezvousEvent \<Rightarrow> bool" where
  "is_generation_event (EvAdvanceGeneration _) = True"
| "is_generation_event _ = False"

lemma generation_step:
  assumes "rendezvous_step s e = Inr t" and "rs_phase s \<noteq> PhaseNew"
  shows "unat (gen_get (rs_generation t)) =
    unat (gen_get (rs_generation s)) + length (filter is_generation_event [e]) \<and> rs_phase t \<noteq> PhaseNew"
  using assms
  by (cases e) (auto simp: rendezvous_op_defs result_simps dest: checked_add_Some split: if_splits)

text \<open>
  Generations advance one by one: once a session is requested, its candidate generation is
  the initial one plus the number of accepted advances, counted without wrap-around.
\<close>

theorem generation_counts_advances:
  assumes "run rendezvous_step s es = Inr t" and "rs_phase s \<noteq> PhaseNew"
  shows "unat (gen_get (rs_generation t)) =
    unat (gen_get (rs_generation s)) + length (filter is_generation_event es)"
  using assms
proof (induction es arbitrary: s)
  case Nil
  then show ?case by simp
next
  case (Cons e es)
  from Cons.prems(1) obtain u where u: "rendezvous_step s e = Inr u" "run rendezvous_step u es = Inr t"
    by (auto simp: result_simps)
  note g = generation_step [OF u(1) Cons.prems(2)]
  from Cons.IH [OF u(2)] g show ?case by (auto split: if_splits)
qed

theorem generation_counts_advances_witness:
  "unat (gen_get (CandidateGeneration 3)) =
     unat (gen_get CandidateGeneration_INITIAL) +
     length (filter is_generation_event
       [EvAdvanceGeneration (CandidateGeneration 2), EvAdvanceGeneration (CandidateGeneration 3)])"
proof -
  have "run rendezvous_step (RendezvousState_requested (SessionId [5]) 1)
      [EvAdvanceGeneration (CandidateGeneration 2), EvAdvanceGeneration (CandidateGeneration 3)] =
      Inr \<lparr>rs_session_id = SessionId [5], rs_phase = PhaseRequested, rs_last_step = 1,
           rs_generation = CandidateGeneration 3\<rparr>"
    by (simp add: RendezvousState_requested_def rendezvous_op_defs CandidateGeneration_INITIAL_def
        checked_add_def)
  from generation_counts_advances [OF this] show ?thesis
    by (simp add: RendezvousState_requested_def CandidateGeneration_INITIAL_def)
qed

end
