(* ===== verification/Rendezvous_Wire.thy ===== *)
theory Rendezvous_Wire
  imports Protocol_Version Rendezvous_State Serde_Instance
begin

text \<open>
  The rendezvous wire format (\<open>rustgo-rendezvous/src/message.rs\<close>): observation grants, probes
  and replies, the candidate and decision payloads, the signed envelope that carries them inside
  an opaque control message, and the peer relay frame. Every struct comes with its serde schema,
  its serialiser and deserialiser (with the hand-written \<open>Deserialize\<close> guards of the source) and
  an interpretation of the locale \<open>wire_type\<close>; the envelope and relay-frame theorems rest on it.
  \<open>postcard::from_bytes\<close> reads one value and ignores what follows it, unlike the frame codec.
\<close>

subsection \<open>Limits\<close>

definition MAX_CANDIDATES :: nat where "MAX_CANDIDATES = 32"
definition MAX_DEVICE_NAME_BYTES :: nat where "MAX_DEVICE_NAME_BYTES = 128"
definition MAX_EXPORT_NAME_BYTES :: nat where "MAX_EXPORT_NAME_BYTES = 128"
definition MAX_FOUNDATION_BYTES :: nat where "MAX_FOUNDATION_BYTES = 64"
definition MAX_OBSERVATION_SOURCE_BYTES :: nat where "MAX_OBSERVATION_SOURCE_BYTES = 128"
definition MAX_EPHEMERAL_PUBLIC_KEY_BYTES :: nat where "MAX_EPHEMERAL_PUBLIC_KEY_BYTES = 64"
definition MAX_TRANSPORT_KEY_BINDINGS :: nat where "MAX_TRANSPORT_KEY_BINDINGS = 3"
definition RENDEZVOUS_MAX_SIGNATURE_BYTES :: nat where "RENDEZVOUS_MAX_SIGNATURE_BYTES = 128"
definition RENDEZVOUS_MAX_ERROR_DETAIL_BYTES :: nat where "RENDEZVOUS_MAX_ERROR_DETAIL_BYTES = 512"
definition MAX_PEER_RELAY_CIPHERTEXT_BYTES :: nat where "MAX_PEER_RELAY_CIPHERTEXT_BYTES = 65536"
definition OBSERVATION_TOKEN_BYTES :: nat where "OBSERVATION_TOKEN_BYTES = 32"
definition OBSERVATION_NONCE_BYTES :: nat where "OBSERVATION_NONCE_BYTES = 16"
definition MAX_POSTCARD_U16_BYTES :: nat where "MAX_POSTCARD_U16_BYTES = 3"

lemmas rendezvous_limit_defs =
  MAX_CANDIDATES_def MAX_DEVICE_NAME_BYTES_def MAX_EXPORT_NAME_BYTES_def MAX_FOUNDATION_BYTES_def
  MAX_OBSERVATION_SOURCE_BYTES_def MAX_EPHEMERAL_PUBLIC_KEY_BYTES_def
  MAX_TRANSPORT_KEY_BINDINGS_def RENDEZVOUS_MAX_SIGNATURE_BYTES_def
  RENDEZVOUS_MAX_ERROR_DETAIL_BYTES_def MAX_PEER_RELAY_CIPHERTEXT_BYTES_def
  OBSERVATION_TOKEN_BYTES_def OBSERVATION_NONCE_BYTES_def MAX_POSTCARD_U16_BYTES_def

text \<open>A typed \<open>postcard::from_bytes\<close>: what postcard reads, as the type's \<open>Deserialize\<close> implementation accepts it.\<close>

definition from_bytes :: "postcard \<Rightarrow> schema \<Rightarrow> (sval \<Rightarrow> 'a option) \<Rightarrow> bytes \<Rightarrow> 'a option" where
  "from_bytes pc t de bs = (case pc_from_bytes pc t bs of None \<Rightarrow> None | Some v \<Rightarrow> de v)"

lemma from_bytes_take_value:
  "postcard_faithful pc \<Longrightarrow> from_bytes pc t de bs = map_option fst (take_value pc t de bs)"
  by (simp add: from_bytes_def take_value_def postcard_faithful_from split: option.split)

context wire_type
begin

lemma from_bytes_ser:
  assumes "postcard_faithful pc" and "wf x" and "pc_to_allocvec pc (ser x) = Some bs"
  shows "from_bytes pc sch de (bs @ rest) = Some x"
  using take_ser [OF assms, of rest] assms(1) by (simp add: from_bytes_take_value)

lemma from_bytes_ser_all:
  assumes "postcard_faithful pc" and "wf x" and "pc_to_allocvec pc (ser x) = Some bs"
  shows "from_bytes pc sch de bs = Some x"
  using from_bytes_ser [OF assms, of "[]"] by simp

lemma from_bytes_wf:
  assumes "postcard_faithful pc" and "from_bytes pc sch de bs = Some x"
  shows "wf x"
  using assms by (auto simp: from_bytes_take_value dest: take_wf)

end

subsection \<open>Observation grants, probes and replies\<close>

datatype ObservationEndpoint = EndpointPrimary | EndpointAlternate

fun ObservationEndpoint_index :: "ObservationEndpoint \<Rightarrow> nat" where
  "ObservationEndpoint_index EndpointPrimary = 0"
| "ObservationEndpoint_index EndpointAlternate = 1"

definition sch_ObservationEndpoint :: schema where
  "sch_ObservationEndpoint = sch_unit_enum [EndpointPrimary, EndpointAlternate]"

definition ser_ObservationEndpoint :: "ObservationEndpoint \<Rightarrow> sval" where
  "ser_ObservationEndpoint = ser_unit_enum ObservationEndpoint_index"

definition de_ObservationEndpoint :: "sval \<Rightarrow> ObservationEndpoint option" where
  "de_ObservationEndpoint = de_unit_enum [EndpointPrimary, EndpointAlternate]"

definition wf_ObservationEndpoint :: "ObservationEndpoint \<Rightarrow> bool" where
  "wf_ObservationEndpoint x \<longleftrightarrow> True"

lemma ObservationEndpoint_index_nth:
  "ObservationEndpoint_index x < length [EndpointPrimary, EndpointAlternate] \<and>
   [EndpointPrimary, EndpointAlternate] ! ObservationEndpoint_index x = x"
  by (cases x) simp_all

interpretation ObservationEndpoint_wire: wire_type sch_ObservationEndpoint ser_ObservationEndpoint
  de_ObservationEndpoint wf_ObservationEndpoint
  unfolding sch_ObservationEndpoint_def ser_ObservationEndpoint_def de_ObservationEndpoint_def
    wf_ObservationEndpoint_def [abs_def]
  by (rule wire_type_unit_enum [OF ObservationEndpoint_index_nth]) simp

record ObservationGrant =
  og_primary_token :: "bytes"
  og_alternate_token :: "bytes"
  og_expires_unix_secs :: "u64"

definition sch_ObservationGrant :: schema where
  "sch_ObservationGrant = TTuple [sch_array OBSERVATION_TOKEN_BYTES, sch_array OBSERVATION_TOKEN_BYTES, TU64]"

definition ser_ObservationGrant :: "ObservationGrant \<Rightarrow> sval" where
  "ser_ObservationGrant x = STuple [
     ser_array (og_primary_token x), ser_array (og_alternate_token x),
     SU64 (og_expires_unix_secs x)]"

definition de_ObservationGrant :: "sval \<Rightarrow> ObservationGrant option" where
  "de_ObservationGrant v = (case v of
      STuple [v0, v1, v2] \<Rightarrow>
        Option.bind (de_array OBSERVATION_TOKEN_BYTES v0) (\<lambda>x0.
        Option.bind (de_array OBSERVATION_TOKEN_BYTES v1) (\<lambda>x1.
        Option.bind (de_u64 v2) (\<lambda>x2.
        Some \<lparr>og_primary_token = x0, og_alternate_token = x1, og_expires_unix_secs = x2\<rparr>)))
    | _ \<Rightarrow> None)"

definition wf_ObservationGrant :: "ObservationGrant \<Rightarrow> bool" where
  "wf_ObservationGrant x \<longleftrightarrow> wf_array OBSERVATION_TOKEN_BYTES (og_primary_token x) \<and>
     wf_array OBSERVATION_TOKEN_BYTES (og_alternate_token x)"

interpretation ObservationGrant_wire: wire_type sch_ObservationGrant ser_ObservationGrant de_ObservationGrant wf_ObservationGrant
  by unfold_locales
    (auto simp: sch_ObservationGrant_def ser_ObservationGrant_def de_ObservationGrant_def
        wf_ObservationGrant_def codec_simps
        array_wire.ser_shape array_wire.de_ser array_wire.de_iff
      split: if_splits)

record ObservationProbe =
  op_token :: "bytes"
  op_nonce :: "bytes"

definition sch_ObservationProbe :: schema where
  "sch_ObservationProbe = TTuple [sch_array OBSERVATION_TOKEN_BYTES, sch_array OBSERVATION_NONCE_BYTES]"

definition ser_ObservationProbe :: "ObservationProbe \<Rightarrow> sval" where
  "ser_ObservationProbe x = STuple [
     ser_array (op_token x), ser_array (op_nonce x)]"

definition de_ObservationProbe :: "sval \<Rightarrow> ObservationProbe option" where
  "de_ObservationProbe v = (case v of
      STuple [v0, v1] \<Rightarrow>
        Option.bind (de_array OBSERVATION_TOKEN_BYTES v0) (\<lambda>x0.
        Option.bind (de_array OBSERVATION_NONCE_BYTES v1) (\<lambda>x1.
        Some \<lparr>op_token = x0, op_nonce = x1\<rparr>))
    | _ \<Rightarrow> None)"

definition wf_ObservationProbe :: "ObservationProbe \<Rightarrow> bool" where
  "wf_ObservationProbe x \<longleftrightarrow> wf_array OBSERVATION_TOKEN_BYTES (op_token x) \<and>
     wf_array OBSERVATION_NONCE_BYTES (op_nonce x)"

interpretation ObservationProbe_wire: wire_type sch_ObservationProbe ser_ObservationProbe de_ObservationProbe wf_ObservationProbe
  by unfold_locales
    (auto simp: sch_ObservationProbe_def ser_ObservationProbe_def de_ObservationProbe_def
        wf_ObservationProbe_def codec_simps
        array_wire.ser_shape array_wire.de_ser array_wire.de_iff
      split: if_splits)

record ObservationReply =
  orp_nonce :: "bytes"
  orp_observed_source :: "SocketAddress"
  orp_endpoint :: "ObservationEndpoint"

definition sch_ObservationReply :: schema where
  "sch_ObservationReply = TTuple [sch_array OBSERVATION_NONCE_BYTES, sch_SocketAddress, sch_ObservationEndpoint]"

definition ser_ObservationReply :: "ObservationReply \<Rightarrow> sval" where
  "ser_ObservationReply x = STuple [
     ser_array (orp_nonce x), ser_SocketAddress (orp_observed_source x),
     ser_ObservationEndpoint (orp_endpoint x)]"

definition de_ObservationReply :: "sval \<Rightarrow> ObservationReply option" where
  "de_ObservationReply v = (case v of
      STuple [v0, v1, v2] \<Rightarrow>
        Option.bind (de_array OBSERVATION_NONCE_BYTES v0) (\<lambda>x0.
        Option.bind (de_SocketAddress v1) (\<lambda>x1.
        Option.bind (de_ObservationEndpoint v2) (\<lambda>x2.
        Some \<lparr>orp_nonce = x0, orp_observed_source = x1, orp_endpoint = x2\<rparr>)))
    | _ \<Rightarrow> None)"

definition wf_ObservationReply :: "ObservationReply \<Rightarrow> bool" where
  "wf_ObservationReply x \<longleftrightarrow> wf_array OBSERVATION_NONCE_BYTES (orp_nonce x) \<and>
     wf_SocketAddress (orp_observed_source x) \<and>
     wf_ObservationEndpoint (orp_endpoint x)"

interpretation ObservationReply_wire: wire_type sch_ObservationReply ser_ObservationReply de_ObservationReply wf_ObservationReply
  by unfold_locales
    (auto simp: sch_ObservationReply_def ser_ObservationReply_def de_ObservationReply_def
        wf_ObservationReply_def codec_simps
        array_wire.ser_shape array_wire.de_ser array_wire.de_iff SocketAddress_wire.ser_shape SocketAddress_wire.de_ser SocketAddress_wire.de_iff ObservationEndpoint_wire.ser_shape ObservationEndpoint_wire.de_ser ObservationEndpoint_wire.de_iff
      split: if_splits)


datatype ObservationWireError = ObsTooLarge | ObsCodec | ObsWrongControlMessage

definition encode_bounded ::
  "postcard \<Rightarrow> ('a \<Rightarrow> sval) \<Rightarrow> 'a \<Rightarrow> nat \<Rightarrow> (ObservationWireError, bytes) result" where
  "encode_bounded pc ser value maximum =
     and_then (ok_or (pc_to_allocvec pc (ser value)) ObsCodec) (\<lambda>encoded.
       if length encoded > maximum then Inl ObsTooLarge else Inr encoded)"

definition decode_bounded ::
  "postcard \<Rightarrow> schema \<Rightarrow> (sval \<Rightarrow> 'a option) \<Rightarrow> bytes \<Rightarrow> nat \<Rightarrow> (ObservationWireError, 'a) result" where
  "decode_bounded pc t de bs maximum =
     (if length bs > maximum then Inl ObsTooLarge
      else ok_or (from_bytes pc t de bs) ObsCodec)"

definition ObservationProbe_MAX_WIRE_BYTES :: nat where
  "ObservationProbe_MAX_WIRE_BYTES = OBSERVATION_TOKEN_BYTES + OBSERVATION_NONCE_BYTES"

definition ObservationReply_MAX_WIRE_BYTES :: nat where
  "ObservationReply_MAX_WIRE_BYTES = OBSERVATION_NONCE_BYTES + 1 + 16 + MAX_POSTCARD_U16_BYTES + 1"

definition ObservationProbe_encode ::
  "postcard \<Rightarrow> ObservationProbe \<Rightarrow> (ObservationWireError, bytes) result" where
  "ObservationProbe_encode pc self =
     encode_bounded pc ser_ObservationProbe self ObservationProbe_MAX_WIRE_BYTES"

definition ObservationProbe_decode ::
  "postcard \<Rightarrow> bytes \<Rightarrow> (ObservationWireError, ObservationProbe) result" where
  "ObservationProbe_decode pc bs =
     decode_bounded pc sch_ObservationProbe de_ObservationProbe bs ObservationProbe_MAX_WIRE_BYTES"

definition ObservationReply_encode ::
  "postcard \<Rightarrow> ObservationReply \<Rightarrow> (ObservationWireError, bytes) result" where
  "ObservationReply_encode pc self =
     encode_bounded pc ser_ObservationReply self ObservationReply_MAX_WIRE_BYTES"

definition ObservationReply_decode ::
  "postcard \<Rightarrow> bytes \<Rightarrow> (ObservationWireError, ObservationReply) result" where
  "ObservationReply_decode pc bs =
     decode_bounded pc sch_ObservationReply de_ObservationReply bs ObservationReply_MAX_WIRE_BYTES"

definition ObservationGrant_to_protocol_message ::
  "postcard \<Rightarrow> ObservationGrant \<Rightarrow> (ObservationWireError, Message) result" where
  "ObservationGrant_to_protocol_message pc self =
     and_then (encode_bounded pc ser_ObservationGrant self MAX_OBSERVATION_GRANT_BYTES) (\<lambda>encoded.
       case BoundedBytes_try_from MAX_OBSERVATION_GRANT_BYTES encoded of
         Inl _ \<Rightarrow> Inl ObsTooLarge
       | Inr opaque \<Rightarrow> Inr (Message.ObservationGrant opaque))"

definition ObservationGrant_from_protocol_message ::
  "postcard \<Rightarrow> Message \<Rightarrow> (ObservationWireError, ObservationGrant) result" where
  "ObservationGrant_from_protocol_message pc message =
     (case message of
        Message.ObservationGrant opaque \<Rightarrow>
          decode_bounded pc sch_ObservationGrant de_ObservationGrant opaque MAX_OBSERVATION_GRANT_BYTES
      | _ \<Rightarrow> Inl ObsWrongControlMessage)"

subsection \<open>Session identifiers, generations, transports and candidates\<close>

definition sch_SessionId :: schema where "sch_SessionId = sch_array 32"

definition ser_SessionId :: "SessionId \<Rightarrow> sval" where
  "ser_SessionId x = ser_array (sid_as_bytes x)"

definition de_SessionId :: "sval \<Rightarrow> SessionId option" where
  "de_SessionId v = map_option SessionId (de_array 32 v)"

definition wf_SessionId :: "SessionId \<Rightarrow> bool" where
  "wf_SessionId x \<longleftrightarrow> length (sid_as_bytes x) = 32"

interpretation SessionId_wire: wire_type sch_SessionId ser_SessionId de_SessionId wf_SessionId
  by unfold_locales
    (auto simp: sch_SessionId_def ser_SessionId_def de_SessionId_def wf_SessionId_def codec_simps)

definition sch_CandidateGeneration :: schema where "sch_CandidateGeneration = TU64"

definition ser_CandidateGeneration :: "CandidateGeneration \<Rightarrow> sval" where
  "ser_CandidateGeneration x = SU64 (gen_get x)"

definition de_CandidateGeneration :: "sval \<Rightarrow> CandidateGeneration option" where
  "de_CandidateGeneration v = Option.bind (de_u64 v) CandidateGeneration_new"

definition wf_CandidateGeneration :: "CandidateGeneration \<Rightarrow> bool" where
  "wf_CandidateGeneration x \<longleftrightarrow> gen_get x \<noteq> 0"

interpretation CandidateGeneration_wire: wire_type sch_CandidateGeneration ser_CandidateGeneration
  de_CandidateGeneration wf_CandidateGeneration
  by unfold_locales
    (auto simp: sch_CandidateGeneration_def ser_CandidateGeneration_def de_CandidateGeneration_def
      wf_CandidateGeneration_def CandidateGeneration_new_def codec_simps split: if_splits)

datatype CandidateTransport = QuicUdp | NativeTcp | Relay

fun CandidateTransport_index :: "CandidateTransport \<Rightarrow> nat" where
  "CandidateTransport_index QuicUdp = 0"
| "CandidateTransport_index NativeTcp = 1"
| "CandidateTransport_index Relay = 2"

definition sch_CandidateTransport :: schema where
  "sch_CandidateTransport = sch_unit_enum [QuicUdp, NativeTcp, Relay]"

definition ser_CandidateTransport :: "CandidateTransport \<Rightarrow> sval" where
  "ser_CandidateTransport = ser_unit_enum CandidateTransport_index"

definition de_CandidateTransport :: "sval \<Rightarrow> CandidateTransport option" where
  "de_CandidateTransport = de_unit_enum [QuicUdp, NativeTcp, Relay]"

definition wf_CandidateTransport :: "CandidateTransport \<Rightarrow> bool" where
  "wf_CandidateTransport x \<longleftrightarrow> True"

lemma CandidateTransport_index_nth:
  "CandidateTransport_index x < length [QuicUdp, NativeTcp, Relay] \<and>
   [QuicUdp, NativeTcp, Relay] ! CandidateTransport_index x = x"
  by (cases x) simp_all

interpretation CandidateTransport_wire: wire_type sch_CandidateTransport ser_CandidateTransport
  de_CandidateTransport wf_CandidateTransport
  unfolding sch_CandidateTransport_def ser_CandidateTransport_def de_CandidateTransport_def
    wf_CandidateTransport_def [abs_def]
  by (rule wire_type_unit_enum [OF CandidateTransport_index_nth]) simp

interpretation opt_transport_wire: wire_type "TOption sch_CandidateTransport"
  "ser_option ser_CandidateTransport" "de_option de_CandidateTransport" "wf_opt wf_CandidateTransport"
  by (rule wire_type_option [OF CandidateTransport_wire.wire_type_axioms])


definition sch_ProtocolVersion :: schema where "sch_ProtocolVersion = TTuple [TU16, TU16]"

definition ser_ProtocolVersion :: "ProtocolVersion \<Rightarrow> sval" where
  "ser_ProtocolVersion x = STuple [SU16 (pv_major x), SU16 (pv_minor x)]"

definition de_ProtocolVersion :: "sval \<Rightarrow> ProtocolVersion option" where
  "de_ProtocolVersion v = (case v of
      STuple [v0, v1] \<Rightarrow>
        Option.bind (de_u16 v0) (\<lambda>x0.
        Option.bind (de_u16 v1) (\<lambda>x1.
        Some \<lparr>pv_major = x0, pv_minor = x1\<rparr>))
    | _ \<Rightarrow> None)"

definition wf_ProtocolVersion :: "ProtocolVersion \<Rightarrow> bool" where
  "wf_ProtocolVersion x \<longleftrightarrow> True"

interpretation ProtocolVersion_wire: wire_type sch_ProtocolVersion ser_ProtocolVersion
  de_ProtocolVersion wf_ProtocolVersion
  by unfold_locales
    (auto simp: sch_ProtocolVersion_def ser_ProtocolVersion_def de_ProtocolVersion_def
      wf_ProtocolVersion_def codec_simps)

record Candidate =
  cand_transport :: "CandidateTransport"
  cand_address :: "SocketAddress"
  cand_priority :: "u32"
  cand_foundation :: "string"
  cand_generation :: "CandidateGeneration"
  cand_expires_unix_secs :: "u64"
  cand_observation_source :: "string"

definition sch_Candidate :: schema where
  "sch_Candidate = TTuple [sch_CandidateTransport, sch_SocketAddress, TU32, TStr, sch_CandidateGeneration, TU64, TStr]"

definition ser_Candidate :: "Candidate \<Rightarrow> sval" where
  "ser_Candidate x = STuple [
     ser_CandidateTransport (cand_transport x), ser_SocketAddress (cand_address x),
     SU32 (cand_priority x), ser_BoundedString (cand_foundation x),
     ser_CandidateGeneration (cand_generation x), SU64 (cand_expires_unix_secs x),
     ser_BoundedString (cand_observation_source x)]"

definition de_Candidate :: "sval \<Rightarrow> Candidate option" where
  "de_Candidate v = (case v of
      STuple [v0, v1, v2, v3, v4, v5, v6] \<Rightarrow>
        Option.bind (de_CandidateTransport v0) (\<lambda>x0.
        Option.bind (de_SocketAddress v1) (\<lambda>x1.
        Option.bind (de_u32 v2) (\<lambda>x2.
        Option.bind (de_BoundedString MAX_FOUNDATION_BYTES v3) (\<lambda>x3.
        Option.bind (de_CandidateGeneration v4) (\<lambda>x4.
        Option.bind (de_u64 v5) (\<lambda>x5.
        Option.bind (de_BoundedString MAX_OBSERVATION_SOURCE_BYTES v6) (\<lambda>x6.
        Some \<lparr>cand_transport = x0, cand_address = x1, cand_priority = x2, cand_foundation = x3,
          cand_generation = x4, cand_expires_unix_secs = x5, cand_observation_source = x6\<rparr>)))))))
    | _ \<Rightarrow> None)"

definition wf_Candidate :: "Candidate \<Rightarrow> bool" where
  "wf_Candidate x \<longleftrightarrow> wf_CandidateTransport (cand_transport x) \<and>
     wf_SocketAddress (cand_address x) \<and>
     wf_BoundedString MAX_FOUNDATION_BYTES (cand_foundation x) \<and>
     wf_CandidateGeneration (cand_generation x) \<and>
     wf_BoundedString MAX_OBSERVATION_SOURCE_BYTES (cand_observation_source x)"

interpretation Candidate_wire: wire_type sch_Candidate ser_Candidate de_Candidate wf_Candidate
  by unfold_locales
    (auto simp: sch_Candidate_def ser_Candidate_def de_Candidate_def
        wf_Candidate_def codec_simps
        CandidateTransport_wire.ser_shape CandidateTransport_wire.de_ser CandidateTransport_wire.de_iff SocketAddress_wire.ser_shape SocketAddress_wire.de_ser SocketAddress_wire.de_iff CandidateGeneration_wire.ser_shape CandidateGeneration_wire.de_ser CandidateGeneration_wire.de_iff
      split: if_splits)

interpretation Candidate_vec_wire: wire_type "TSeq sch_Candidate" "ser_BoundedVec ser_Candidate"
  "de_BoundedVec n de_Candidate" "wf_BoundedVec n wf_Candidate" for n
  by (rule wire_type_BoundedVec [OF Candidate_wire.wire_type_axioms])

subsection \<open>Payloads\<close>

record RendezvousRequest =
  rr_export :: "string"

definition sch_RendezvousRequest :: schema where
  "sch_RendezvousRequest = TTuple [TStr]"

definition ser_RendezvousRequest :: "RendezvousRequest \<Rightarrow> sval" where
  "ser_RendezvousRequest x = STuple [
     ser_BoundedString (rr_export x)]"

definition de_RendezvousRequest :: "sval \<Rightarrow> RendezvousRequest option" where
  "de_RendezvousRequest v = (case v of
      STuple [v0] \<Rightarrow>
        Option.bind (de_BoundedString MAX_EXPORT_NAME_BYTES v0) (\<lambda>x0.
        Some \<lparr>rr_export = x0\<rparr>)
    | _ \<Rightarrow> None)"

definition wf_RendezvousRequest :: "RendezvousRequest \<Rightarrow> bool" where
  "wf_RendezvousRequest x \<longleftrightarrow> wf_BoundedString MAX_EXPORT_NAME_BYTES (rr_export x)"

interpretation RendezvousRequest_wire: wire_type sch_RendezvousRequest ser_RendezvousRequest de_RendezvousRequest wf_RendezvousRequest
  by unfold_locales
    (auto simp: sch_RendezvousRequest_def ser_RendezvousRequest_def de_RendezvousRequest_def
        wf_RendezvousRequest_def codec_simps
      split: if_splits)

text \<open>
  A decision is read through a plain struct and accepted only in two shapes: accepted with a
  protocol and no detail, rejected without a protocol.
\<close>

record ProviderDecision =
  pd_accepted :: "bool"
  pd_protocol :: "TunnelProtocol option"
  pd_detail :: "string option"

definition ProviderDecision_accepted :: "TunnelProtocol \<Rightarrow> ProviderDecision" where
  "ProviderDecision_accepted protocol =
     \<lparr>pd_accepted = True, pd_protocol = Some protocol, pd_detail = None\<rparr>"

definition ProviderDecision_rejected :: "string option \<Rightarrow> ProviderDecision" where
  "ProviderDecision_rejected detail = \<lparr>pd_accepted = False, pd_protocol = None, pd_detail = detail\<rparr>"

definition sch_ProviderDecision :: schema where
  "sch_ProviderDecision = TTuple [TBool, TOption sch_TunnelProtocol, TOption TStr]"

definition ser_ProviderDecision :: "ProviderDecision \<Rightarrow> sval" where
  "ser_ProviderDecision x = STuple [
     SBool (pd_accepted x), ser_option ser_TunnelProtocol (pd_protocol x),
     ser_option ser_BoundedString (pd_detail x)]"

fun decision_of_wire ::
  "bool \<Rightarrow> TunnelProtocol option \<Rightarrow> string option \<Rightarrow> ProviderDecision option" where
  "decision_of_wire True (Some protocol) None = Some (ProviderDecision_accepted protocol)"
| "decision_of_wire False None detail = Some (ProviderDecision_rejected detail)"
| "decision_of_wire _ _ _ = None"

lemma decision_of_wire_iff:
  "decision_of_wire a p d = Some x \<longleftrightarrow>
     a \<and> (\<exists>q. p = Some q \<and> d = None \<and> x = ProviderDecision_accepted q) \<or>
     \<not> a \<and> p = None \<and> x = ProviderDecision_rejected d"
  by (cases a; cases p; cases d) auto

definition de_ProviderDecision :: "sval \<Rightarrow> ProviderDecision option" where
  "de_ProviderDecision v = (case v of
      STuple [v0, v1, v2] \<Rightarrow>
        Option.bind (de_bool v0) (\<lambda>accepted.
        Option.bind (de_option de_TunnelProtocol v1) (\<lambda>protocol.
        Option.bind (de_option (de_BoundedString RENDEZVOUS_MAX_ERROR_DETAIL_BYTES) v2) (\<lambda>detail.
        decision_of_wire accepted protocol detail)))
    | _ \<Rightarrow> None)"

definition wf_ProviderDecision :: "ProviderDecision \<Rightarrow> bool" where
  "wf_ProviderDecision x \<longleftrightarrow>
     wf_opt wf_TunnelProtocol (pd_protocol x) \<and>
     wf_opt (wf_BoundedString RENDEZVOUS_MAX_ERROR_DETAIL_BYTES) (pd_detail x) \<and>
     (\<exists>p d. x = ProviderDecision_accepted p \<or> x = ProviderDecision_rejected d)"

interpretation ProviderDecision_wire: wire_type sch_ProviderDecision ser_ProviderDecision
  de_ProviderDecision wf_ProviderDecision
  by unfold_locales
    (auto simp: sch_ProviderDecision_def ser_ProviderDecision_def de_ProviderDecision_def
        wf_ProviderDecision_def codec_simps decision_of_wire_iff ProviderDecision_accepted_def ProviderDecision_rejected_def
        opt_protocol_wire.ser_shape opt_protocol_wire.de_ser opt_protocol_wire.de_iff
        opt_string_wire.ser_shape opt_string_wire.de_ser opt_string_wire.de_iff)

record CandidateSet =
  cs_ephemeral_public_key :: "bytes"
  cs_candidates :: "Candidate list"

definition sch_CandidateSet :: schema where
  "sch_CandidateSet = TTuple [TBytes, TSeq sch_Candidate]"

definition ser_CandidateSet :: "CandidateSet \<Rightarrow> sval" where
  "ser_CandidateSet x = STuple [
     ser_BoundedBytes (cs_ephemeral_public_key x),
     ser_BoundedVec ser_Candidate (cs_candidates x)]"

definition de_CandidateSet :: "sval \<Rightarrow> CandidateSet option" where
  "de_CandidateSet v = (case v of
      STuple [v0, v1] \<Rightarrow>
        Option.bind (de_BoundedBytes MAX_EPHEMERAL_PUBLIC_KEY_BYTES v0) (\<lambda>x0.
        Option.bind (de_BoundedVec MAX_CANDIDATES de_Candidate v1) (\<lambda>x1.
        Some \<lparr>cs_ephemeral_public_key = x0, cs_candidates = x1\<rparr>))
    | _ \<Rightarrow> None)"

definition wf_CandidateSet :: "CandidateSet \<Rightarrow> bool" where
  "wf_CandidateSet x \<longleftrightarrow> wf_BoundedBytes MAX_EPHEMERAL_PUBLIC_KEY_BYTES (cs_ephemeral_public_key x) \<and>
     wf_BoundedVec MAX_CANDIDATES wf_Candidate (cs_candidates x)"

interpretation CandidateSet_wire: wire_type sch_CandidateSet ser_CandidateSet de_CandidateSet wf_CandidateSet
  by unfold_locales
    (auto simp: sch_CandidateSet_def ser_CandidateSet_def de_CandidateSet_def
        wf_CandidateSet_def codec_simps
        Candidate_vec_wire.ser_shape Candidate_vec_wire.de_ser Candidate_vec_wire.de_iff
      split: if_splits)

record TransportKeyBinding =
  tkb_transport :: "CandidateTransport"
  tkb_ephemeral_public_key :: "bytes"

definition sch_TransportKeyBinding :: schema where
  "sch_TransportKeyBinding = TTuple [sch_CandidateTransport, TBytes]"

definition ser_TransportKeyBinding :: "TransportKeyBinding \<Rightarrow> sval" where
  "ser_TransportKeyBinding x = STuple [
     ser_CandidateTransport (tkb_transport x), ser_BoundedBytes (tkb_ephemeral_public_key x)]"

definition de_TransportKeyBinding :: "sval \<Rightarrow> TransportKeyBinding option" where
  "de_TransportKeyBinding v = (case v of
      STuple [v0, v1] \<Rightarrow>
        Option.bind (de_CandidateTransport v0) (\<lambda>x0.
        Option.bind (de_BoundedBytes MAX_EPHEMERAL_PUBLIC_KEY_BYTES v1) (\<lambda>x1.
        Some \<lparr>tkb_transport = x0, tkb_ephemeral_public_key = x1\<rparr>))
    | _ \<Rightarrow> None)"

definition wf_TransportKeyBinding :: "TransportKeyBinding \<Rightarrow> bool" where
  "wf_TransportKeyBinding x \<longleftrightarrow> wf_CandidateTransport (tkb_transport x) \<and>
     wf_BoundedBytes MAX_EPHEMERAL_PUBLIC_KEY_BYTES (tkb_ephemeral_public_key x)"

interpretation TransportKeyBinding_wire: wire_type sch_TransportKeyBinding ser_TransportKeyBinding de_TransportKeyBinding wf_TransportKeyBinding
  by unfold_locales
    (auto simp: sch_TransportKeyBinding_def ser_TransportKeyBinding_def de_TransportKeyBinding_def
        wf_TransportKeyBinding_def codec_simps
        CandidateTransport_wire.ser_shape CandidateTransport_wire.de_ser CandidateTransport_wire.de_iff
      split: if_splits)

interpretation TransportKeyBinding_vec_wire: wire_type "TSeq sch_TransportKeyBinding" "ser_BoundedVec ser_TransportKeyBinding"
  "de_BoundedVec n de_TransportKeyBinding" "wf_BoundedVec n wf_TransportKeyBinding" for n
  by (rule wire_type_BoundedVec [OF TransportKeyBinding_wire.wire_type_axioms])

record CandidateSetV2 =
  cs2_owner_is_initiator :: "bool"
  cs2_bindings :: "TransportKeyBinding list"
  cs2_candidates :: "Candidate list"

definition sch_CandidateSetV2 :: schema where
  "sch_CandidateSetV2 = TTuple [TBool, TSeq sch_TransportKeyBinding, TSeq sch_Candidate]"

definition ser_CandidateSetV2 :: "CandidateSetV2 \<Rightarrow> sval" where
  "ser_CandidateSetV2 x = STuple [
     SBool (cs2_owner_is_initiator x),
     ser_BoundedVec ser_TransportKeyBinding (cs2_bindings x),
     ser_BoundedVec ser_Candidate (cs2_candidates x)]"

definition de_CandidateSetV2 :: "sval \<Rightarrow> CandidateSetV2 option" where
  "de_CandidateSetV2 v = (case v of
      STuple [v0, v1, v2] \<Rightarrow>
        Option.bind (de_bool v0) (\<lambda>x0.
        Option.bind (de_BoundedVec MAX_TRANSPORT_KEY_BINDINGS de_TransportKeyBinding v1) (\<lambda>x1.
        Option.bind (de_BoundedVec MAX_CANDIDATES de_Candidate v2) (\<lambda>x2.
        Some \<lparr>cs2_owner_is_initiator = x0, cs2_bindings = x1, cs2_candidates = x2\<rparr>)))
    | _ \<Rightarrow> None)"

definition wf_CandidateSetV2 :: "CandidateSetV2 \<Rightarrow> bool" where
  "wf_CandidateSetV2 x \<longleftrightarrow> wf_BoundedVec MAX_TRANSPORT_KEY_BINDINGS wf_TransportKeyBinding (cs2_bindings x) \<and>
     wf_BoundedVec MAX_CANDIDATES wf_Candidate (cs2_candidates x)"

interpretation CandidateSetV2_wire: wire_type sch_CandidateSetV2 ser_CandidateSetV2 de_CandidateSetV2 wf_CandidateSetV2
  by unfold_locales
    (auto simp: sch_CandidateSetV2_def ser_CandidateSetV2_def de_CandidateSetV2_def
        wf_CandidateSetV2_def codec_simps
        TransportKeyBinding_vec_wire.ser_shape TransportKeyBinding_vec_wire.de_ser TransportKeyBinding_vec_wire.de_iff Candidate_vec_wire.ser_shape Candidate_vec_wire.de_ser Candidate_vec_wire.de_iff
      split: if_splits)

record ConnectivityResult =
  cr_connected :: "bool"
  cr_transport :: "CandidateTransport option"
  cr_detail :: "string option"

definition sch_ConnectivityResult :: schema where
  "sch_ConnectivityResult = TTuple [TBool, TOption sch_CandidateTransport, TOption TStr]"

definition ser_ConnectivityResult :: "ConnectivityResult \<Rightarrow> sval" where
  "ser_ConnectivityResult x = STuple [
     SBool (cr_connected x), ser_option ser_CandidateTransport (cr_transport x),
     ser_option ser_BoundedString (cr_detail x)]"

definition de_ConnectivityResult :: "sval \<Rightarrow> ConnectivityResult option" where
  "de_ConnectivityResult v = (case v of
      STuple [v0, v1, v2] \<Rightarrow>
        Option.bind (de_bool v0) (\<lambda>x0.
        Option.bind (de_option de_CandidateTransport v1) (\<lambda>x1.
        Option.bind (de_option (de_BoundedString RENDEZVOUS_MAX_ERROR_DETAIL_BYTES) v2) (\<lambda>x2.
        Some \<lparr>cr_connected = x0, cr_transport = x1, cr_detail = x2\<rparr>)))
    | _ \<Rightarrow> None)"

definition wf_ConnectivityResult :: "ConnectivityResult \<Rightarrow> bool" where
  "wf_ConnectivityResult x \<longleftrightarrow> wf_opt wf_CandidateTransport (cr_transport x) \<and>
     wf_opt (wf_BoundedString RENDEZVOUS_MAX_ERROR_DETAIL_BYTES) (cr_detail x)"

interpretation ConnectivityResult_wire: wire_type sch_ConnectivityResult ser_ConnectivityResult de_ConnectivityResult wf_ConnectivityResult
  by unfold_locales
    (auto simp: sch_ConnectivityResult_def ser_ConnectivityResult_def de_ConnectivityResult_def
        wf_ConnectivityResult_def codec_simps
        opt_transport_wire.ser_shape opt_transport_wire.de_ser opt_transport_wire.de_iff opt_string_wire.ser_shape opt_string_wire.de_ser opt_string_wire.de_iff
      split: if_splits)

record RelayRequest =
  rlr_datagram :: "bool"

definition sch_RelayRequest :: schema where
  "sch_RelayRequest = TTuple [TBool]"

definition ser_RelayRequest :: "RelayRequest \<Rightarrow> sval" where
  "ser_RelayRequest x = STuple [
     SBool (rlr_datagram x)]"

definition de_RelayRequest :: "sval \<Rightarrow> RelayRequest option" where
  "de_RelayRequest v = (case v of
      STuple [v0] \<Rightarrow>
        Option.bind (de_bool v0) (\<lambda>x0.
        Some \<lparr>rlr_datagram = x0\<rparr>)
    | _ \<Rightarrow> None)"

definition wf_RelayRequest :: "RelayRequest \<Rightarrow> bool" where
  "wf_RelayRequest x \<longleftrightarrow> True"

interpretation RelayRequest_wire: wire_type sch_RelayRequest ser_RelayRequest de_RelayRequest wf_RelayRequest
  by unfold_locales
    (auto simp: sch_RelayRequest_def ser_RelayRequest_def de_RelayRequest_def
        wf_RelayRequest_def codec_simps
      split: if_splits)

record RendezvousClose =
  rc_detail :: "string option"

definition sch_RendezvousClose :: schema where
  "sch_RendezvousClose = TTuple [TOption TStr]"

definition ser_RendezvousClose :: "RendezvousClose \<Rightarrow> sval" where
  "ser_RendezvousClose x = STuple [
     ser_option ser_BoundedString (rc_detail x)]"

definition de_RendezvousClose :: "sval \<Rightarrow> RendezvousClose option" where
  "de_RendezvousClose v = (case v of
      STuple [v0] \<Rightarrow>
        Option.bind (de_option (de_BoundedString RENDEZVOUS_MAX_ERROR_DETAIL_BYTES) v0) (\<lambda>x0.
        Some \<lparr>rc_detail = x0\<rparr>)
    | _ \<Rightarrow> None)"

definition wf_RendezvousClose :: "RendezvousClose \<Rightarrow> bool" where
  "wf_RendezvousClose x \<longleftrightarrow> wf_opt (wf_BoundedString RENDEZVOUS_MAX_ERROR_DETAIL_BYTES) (rc_detail x)"

interpretation RendezvousClose_wire: wire_type sch_RendezvousClose ser_RendezvousClose de_RendezvousClose wf_RendezvousClose
  by unfold_locales
    (auto simp: sch_RendezvousClose_def ser_RendezvousClose_def de_RendezvousClose_def
        wf_RendezvousClose_def codec_simps
        opt_string_wire.ser_shape opt_string_wire.de_ser opt_string_wire.de_iff
      split: if_splits)

record RendezvousError =
  re_code :: "u16"
  re_detail :: "string"

definition sch_RendezvousError :: schema where
  "sch_RendezvousError = TTuple [TU16, TStr]"

definition ser_RendezvousError :: "RendezvousError \<Rightarrow> sval" where
  "ser_RendezvousError x = STuple [
     SU16 (re_code x), ser_BoundedString (re_detail x)]"

definition de_RendezvousError :: "sval \<Rightarrow> RendezvousError option" where
  "de_RendezvousError v = (case v of
      STuple [v0, v1] \<Rightarrow>
        Option.bind (de_u16 v0) (\<lambda>x0.
        Option.bind (de_BoundedString RENDEZVOUS_MAX_ERROR_DETAIL_BYTES v1) (\<lambda>x1.
        Some \<lparr>re_code = x0, re_detail = x1\<rparr>))
    | _ \<Rightarrow> None)"

definition wf_RendezvousError :: "RendezvousError \<Rightarrow> bool" where
  "wf_RendezvousError x \<longleftrightarrow> wf_BoundedString RENDEZVOUS_MAX_ERROR_DETAIL_BYTES (re_detail x)"

interpretation RendezvousError_wire: wire_type sch_RendezvousError ser_RendezvousError de_RendezvousError wf_RendezvousError
  by unfold_locales
    (auto simp: sch_RendezvousError_def ser_RendezvousError_def de_RendezvousError_def
        wf_RendezvousError_def codec_simps
      split: if_splits)

datatype RendezvousPayload =
    PayloadRequest RendezvousRequest
  | PayloadProviderDecision ProviderDecision
  | PayloadCandidateSet CandidateSet
  | PayloadCandidateSetV2 CandidateSetV2
  | PayloadConnectivityResult ConnectivityResult
  | PayloadRelayRequest RelayRequest
  | PayloadClose RendezvousClose
  | PayloadError RendezvousError

fun RendezvousPayload_message_id :: "RendezvousPayload \<Rightarrow> MessageId" where
  "RendezvousPayload_message_id (PayloadRequest _) = RENDEZVOUS_REQUEST"
| "RendezvousPayload_message_id (PayloadProviderDecision _) = RENDEZVOUS_PROVIDER_DECISION"
| "RendezvousPayload_message_id (PayloadCandidateSet _) = RENDEZVOUS_CANDIDATE_SET"
| "RendezvousPayload_message_id (PayloadCandidateSetV2 _) = RENDEZVOUS_CANDIDATE_SET_V2"
| "RendezvousPayload_message_id (PayloadConnectivityResult _) = RENDEZVOUS_CONNECTIVITY_RESULT"
| "RendezvousPayload_message_id (PayloadRelayRequest _) = RENDEZVOUS_RELAY_REQUEST"
| "RendezvousPayload_message_id (PayloadClose _) = RENDEZVOUS_CLOSE"
| "RendezvousPayload_message_id (PayloadError _) = RENDEZVOUS_ERROR"

definition sch_RendezvousPayload :: schema where
  "sch_RendezvousPayload = TEnum [
     sch_RendezvousRequest,
     sch_ProviderDecision,
     sch_CandidateSet,
     sch_CandidateSetV2,
     sch_ConnectivityResult,
     sch_RelayRequest,
     sch_RendezvousClose,
     sch_RendezvousError]"

fun ser_RendezvousPayload :: "RendezvousPayload \<Rightarrow> sval" where
  "ser_RendezvousPayload (PayloadRequest x) = SVariant 0 (ser_RendezvousRequest x)"
| "ser_RendezvousPayload (PayloadProviderDecision x) = SVariant 1 (ser_ProviderDecision x)"
| "ser_RendezvousPayload (PayloadCandidateSet x) = SVariant 2 (ser_CandidateSet x)"
| "ser_RendezvousPayload (PayloadCandidateSetV2 x) = SVariant 3 (ser_CandidateSetV2 x)"
| "ser_RendezvousPayload (PayloadConnectivityResult x) = SVariant 4 (ser_ConnectivityResult x)"
| "ser_RendezvousPayload (PayloadRelayRequest x) = SVariant 5 (ser_RelayRequest x)"
| "ser_RendezvousPayload (PayloadClose x) = SVariant 6 (ser_RendezvousClose x)"
| "ser_RendezvousPayload (PayloadError x) = SVariant 7 (ser_RendezvousError x)"

definition de_RendezvousPayload :: "sval \<Rightarrow> RendezvousPayload option" where
  "de_RendezvousPayload v = (case v of
      SVariant i w \<Rightarrow>
        if i = 0 then map_option PayloadRequest (de_RendezvousRequest w)
        else if i = 1 then map_option PayloadProviderDecision (de_ProviderDecision w)
        else if i = 2 then map_option PayloadCandidateSet (de_CandidateSet w)
        else if i = 3 then map_option PayloadCandidateSetV2 (de_CandidateSetV2 w)
        else if i = 4 then map_option PayloadConnectivityResult (de_ConnectivityResult w)
        else if i = 5 then map_option PayloadRelayRequest (de_RelayRequest w)
        else if i = 6 then map_option PayloadClose (de_RendezvousClose w)
        else if i = 7 then map_option PayloadError (de_RendezvousError w)
        else None
    | _ \<Rightarrow> None)"

fun wf_RendezvousPayload :: "RendezvousPayload \<Rightarrow> bool" where
  "wf_RendezvousPayload (PayloadRequest x) \<longleftrightarrow> wf_RendezvousRequest x"
| "wf_RendezvousPayload (PayloadProviderDecision x) \<longleftrightarrow> wf_ProviderDecision x"
| "wf_RendezvousPayload (PayloadCandidateSet x) \<longleftrightarrow> wf_CandidateSet x"
| "wf_RendezvousPayload (PayloadCandidateSetV2 x) \<longleftrightarrow> wf_CandidateSetV2 x"
| "wf_RendezvousPayload (PayloadConnectivityResult x) \<longleftrightarrow> wf_ConnectivityResult x"
| "wf_RendezvousPayload (PayloadRelayRequest x) \<longleftrightarrow> wf_RelayRequest x"
| "wf_RendezvousPayload (PayloadClose x) \<longleftrightarrow> wf_RendezvousClose x"
| "wf_RendezvousPayload (PayloadError x) \<longleftrightarrow> wf_RendezvousError x"

lemmas payload_ser_shape =
  RendezvousRequest_wire.ser_shape
  ProviderDecision_wire.ser_shape
  CandidateSet_wire.ser_shape
  CandidateSetV2_wire.ser_shape
  ConnectivityResult_wire.ser_shape
  RelayRequest_wire.ser_shape
  RendezvousClose_wire.ser_shape
  RendezvousError_wire.ser_shape

lemmas payload_de_ser =
  RendezvousRequest_wire.de_ser
  ProviderDecision_wire.de_ser
  CandidateSet_wire.de_ser
  CandidateSetV2_wire.de_ser
  ConnectivityResult_wire.de_ser
  RelayRequest_wire.de_ser
  RendezvousClose_wire.de_ser
  RendezvousError_wire.de_ser

lemmas payload_de_iff =
  RendezvousRequest_wire.de_iff
  ProviderDecision_wire.de_iff
  CandidateSet_wire.de_iff
  CandidateSetV2_wire.de_iff
  ConnectivityResult_wire.de_iff
  RelayRequest_wire.de_iff
  RendezvousClose_wire.de_iff
  RendezvousError_wire.de_iff

lemma has_shape_RendezvousPayload:
  "has_shape sch_RendezvousPayload v \<longleftrightarrow> (\<exists>i w. v = SVariant i w \<and>
     (i = 0 \<and> has_shape sch_RendezvousRequest w \<or>
      i = 1 \<and> has_shape sch_ProviderDecision w \<or>
      i = 2 \<and> has_shape sch_CandidateSet w \<or>
      i = 3 \<and> has_shape sch_CandidateSetV2 w \<or>
      i = 4 \<and> has_shape sch_ConnectivityResult w \<or>
      i = 5 \<and> has_shape sch_RelayRequest w \<or>
      i = 6 \<and> has_shape sch_RendezvousClose w \<or>
      i = 7 \<and> has_shape sch_RendezvousError w))"
  unfolding sch_RendezvousPayload_def has_shape_composite
  by (simp add: less_Suc_eq conj_disj_distribR cong: conj_cong) (auto simp: nth_Cons')

interpretation RendezvousPayload_wire: wire_type sch_RendezvousPayload ser_RendezvousPayload
  de_RendezvousPayload wf_RendezvousPayload
proof (unfold_locales, goal_cases)
  case (1 x) then show ?case by (cases x) (simp_all add: has_shape_RendezvousPayload payload_ser_shape)
next
  case (2 x) then show ?case by (cases x) (simp_all add: de_RendezvousPayload_def payload_de_ser)
next
  case (3 v x) then show ?case
    by (auto simp: has_shape_RendezvousPayload de_RendezvousPayload_def payload_de_iff)
next
  case (4 v x) then show ?case
    by (auto simp: has_shape_RendezvousPayload de_RendezvousPayload_def payload_de_iff)
qed

subsection \<open>The envelope\<close>

record RendezvousEnvelope =
  env_version :: "ProtocolVersion"
  env_session_id :: "SessionId"
  env_sender :: "string"
  env_target :: "string"
  env_step :: "u64"
  env_generation :: "CandidateGeneration"
  env_expires_unix_secs :: "u64"
  env_payload :: "RendezvousPayload"
  env_signature :: "bytes"

definition sch_RendezvousEnvelope :: schema where
  "sch_RendezvousEnvelope = TTuple [sch_ProtocolVersion, sch_SessionId, TStr, TStr, TU64, sch_CandidateGeneration, TU64, sch_RendezvousPayload, TBytes]"

definition ser_RendezvousEnvelope :: "RendezvousEnvelope \<Rightarrow> sval" where
  "ser_RendezvousEnvelope x = STuple [
     ser_ProtocolVersion (env_version x), ser_SessionId (env_session_id x),
     ser_BoundedString (env_sender x), ser_BoundedString (env_target x), SU64 (env_step x),
     ser_CandidateGeneration (env_generation x), SU64 (env_expires_unix_secs x),
     ser_RendezvousPayload (env_payload x), ser_BoundedBytes (env_signature x)]"

definition de_RendezvousEnvelope :: "sval \<Rightarrow> RendezvousEnvelope option" where
  "de_RendezvousEnvelope v = (case v of
      STuple [v0, v1, v2, v3, v4, v5, v6, v7, v8] \<Rightarrow>
        Option.bind (de_ProtocolVersion v0) (\<lambda>x0.
        Option.bind (de_SessionId v1) (\<lambda>x1.
        Option.bind (de_BoundedString MAX_DEVICE_NAME_BYTES v2) (\<lambda>x2.
        Option.bind (de_BoundedString MAX_DEVICE_NAME_BYTES v3) (\<lambda>x3.
        Option.bind (de_u64 v4) (\<lambda>x4.
        Option.bind (de_CandidateGeneration v5) (\<lambda>x5.
        Option.bind (de_u64 v6) (\<lambda>x6.
        Option.bind (de_RendezvousPayload v7) (\<lambda>x7.
        Option.bind (de_BoundedBytes RENDEZVOUS_MAX_SIGNATURE_BYTES v8) (\<lambda>x8.
        Some \<lparr>env_version = x0, env_session_id = x1, env_sender = x2, env_target = x3,
          env_step = x4, env_generation = x5, env_expires_unix_secs = x6, env_payload = x7,
          env_signature = x8\<rparr>)))))))))
    | _ \<Rightarrow> None)"

definition wf_RendezvousEnvelope :: "RendezvousEnvelope \<Rightarrow> bool" where
  "wf_RendezvousEnvelope x \<longleftrightarrow> wf_ProtocolVersion (env_version x) \<and>
     wf_SessionId (env_session_id x) \<and>
     wf_BoundedString MAX_DEVICE_NAME_BYTES (env_sender x) \<and>
     wf_BoundedString MAX_DEVICE_NAME_BYTES (env_target x) \<and>
     wf_CandidateGeneration (env_generation x) \<and>
     wf_RendezvousPayload (env_payload x) \<and>
     wf_BoundedBytes RENDEZVOUS_MAX_SIGNATURE_BYTES (env_signature x)"

interpretation RendezvousEnvelope_wire: wire_type sch_RendezvousEnvelope ser_RendezvousEnvelope de_RendezvousEnvelope wf_RendezvousEnvelope
  by unfold_locales
    (auto simp: sch_RendezvousEnvelope_def ser_RendezvousEnvelope_def de_RendezvousEnvelope_def
        wf_RendezvousEnvelope_def codec_simps
        ProtocolVersion_wire.ser_shape ProtocolVersion_wire.de_ser ProtocolVersion_wire.de_iff SessionId_wire.ser_shape SessionId_wire.de_ser SessionId_wire.de_iff CandidateGeneration_wire.ser_shape CandidateGeneration_wire.de_ser CandidateGeneration_wire.de_iff RendezvousPayload_wire.ser_shape RendezvousPayload_wire.de_ser RendezvousPayload_wire.de_iff
      split: if_splits)

datatype WireError =
    WireEncode
  | WireDecode
  | EnvelopeTooLarge BoundExceeded
  | RelayFrameTooLarge BoundExceeded
  | CiphertextTooLarge
  | ZeroRelayChannel
  | UnsupportedRelayFlags u8
  | InvalidTransportBindings
  | MessageIdMismatch MessageId MessageId
  | NotRendezvousMessage MessageId
  | NotPeerRelayFrame MessageId
  | WireUnreachablePanic

text \<open>
  \<open>CandidateSetV2::validate\<close>: the loop over the bindings collects the transports seen and
  refuses a short key or a repeated transport; then every candidate must use a bound transport.
\<close>

fun collect_bindings ::
  "CandidateTransport list \<Rightarrow> TransportKeyBinding list \<Rightarrow> (WireError, CandidateTransport list) result" where
  "collect_bindings seen [] = Inr seen"
| "collect_bindings seen (binding # rest) =
     (if length (tkb_ephemeral_public_key binding) \<noteq> 32 \<or> List.member seen (tkb_transport binding)
      then Inl InvalidTransportBindings
      else collect_bindings (seen @ [tkb_transport binding]) rest)"

definition CandidateSetV2_validate :: "CandidateSetV2 \<Rightarrow> (WireError, unit) result" where
  "CandidateSetV2_validate self =
     and_then (collect_bindings [] (cs2_bindings self)) (\<lambda>seen.
       if seen = [] \<or>
          list_ex (\<lambda>c. gen_get (cand_generation c) = 0 \<or> \<not> List.member seen (cand_transport c))
            (cs2_candidates self)
       then Inl InvalidTransportBindings
       else Inr ())"

definition RendezvousEnvelope_message_id :: "RendezvousEnvelope \<Rightarrow> MessageId" where
  "RendezvousEnvelope_message_id self = RendezvousPayload_message_id (env_payload self)"

definition is_expired_at :: "RendezvousEnvelope \<Rightarrow> u64 \<Rightarrow> bool" where
  "is_expired_at self now_unix_secs \<longleftrightarrow> env_expires_unix_secs self \<le> now_unix_secs"

definition envelope_message :: "MessageId \<Rightarrow> bytes \<Rightarrow> (WireError, Message) result" where
  "envelope_message mid opaque =
     (if mid = RENDEZVOUS_REQUEST then Inr (Message.RendezvousRequest opaque)
      else if mid = RENDEZVOUS_PROVIDER_DECISION then Inr (Message.RendezvousProviderDecision opaque)
      else if mid = RENDEZVOUS_CANDIDATE_SET then Inr (Message.RendezvousCandidateSet opaque)
      else if mid = RENDEZVOUS_CANDIDATE_SET_V2 then Inr (Message.RendezvousCandidateSetV2 opaque)
      else if mid = RENDEZVOUS_CONNECTIVITY_RESULT
        then Inr (Message.RendezvousConnectivityResult opaque)
      else if mid = RENDEZVOUS_RELAY_REQUEST then Inr (Message.RendezvousRelayRequest opaque)
      else if mid = RENDEZVOUS_CLOSE then Inr (Message.RendezvousClose opaque)
      else if mid = RENDEZVOUS_ERROR then Inr (Message.RendezvousError opaque)
      else Inl WireUnreachablePanic)"

definition RendezvousEnvelope_to_protocol_message ::
  "postcard \<Rightarrow> RendezvousEnvelope \<Rightarrow> (WireError, Message) result" where
  "RendezvousEnvelope_to_protocol_message pc self =
     and_then (ok_or (pc_to_allocvec pc (ser_RendezvousEnvelope self)) WireEncode) (\<lambda>encoded.
       case BoundedBytes_try_from MAX_RENDEZVOUS_ENVELOPE_BYTES encoded of
         Inl e \<Rightarrow> Inl (EnvelopeTooLarge e)
       | Inr opaque \<Rightarrow> envelope_message (RendezvousEnvelope_message_id self) opaque)"

fun rendezvous_opaque :: "Message \<Rightarrow> bytes option" where
  "rendezvous_opaque (Message.RendezvousRequest v) = Some v"
| "rendezvous_opaque (Message.RendezvousProviderDecision v) = Some v"
| "rendezvous_opaque (Message.RendezvousCandidateSet v) = Some v"
| "rendezvous_opaque (Message.RendezvousCandidateSetV2 v) = Some v"
| "rendezvous_opaque (Message.RendezvousConnectivityResult v) = Some v"
| "rendezvous_opaque (Message.RendezvousRelayRequest v) = Some v"
| "rendezvous_opaque (Message.RendezvousClose v) = Some v"
| "rendezvous_opaque (Message.RendezvousError v) = Some v"
| "rendezvous_opaque _ = None"

definition check_envelope_candidates :: "RendezvousEnvelope \<Rightarrow> (WireError, unit) result" where
  "check_envelope_candidates envelope =
     (case env_payload envelope of
        PayloadCandidateSetV2 candidate_set \<Rightarrow>
          and_then (CandidateSetV2_validate candidate_set) (\<lambda>_.
            if list_ex (\<lambda>c. cand_generation c \<noteq> env_generation envelope \<or>
                 cand_expires_unix_secs c \<noteq> env_expires_unix_secs envelope)
                 (cs2_candidates candidate_set)
            then Inl InvalidTransportBindings else Inr ())
      | _ \<Rightarrow> Inr ())"

definition RendezvousEnvelope_from_protocol_message ::
  "postcard \<Rightarrow> Message \<Rightarrow> (WireError, RendezvousEnvelope) result" where
  "RendezvousEnvelope_from_protocol_message pc message =
     (let actual = Message_id message in
      and_then (ok_or (rendezvous_opaque message) (NotRendezvousMessage actual)) (\<lambda>opaque.
      and_then (ok_or (from_bytes pc sch_RendezvousEnvelope de_RendezvousEnvelope opaque) WireDecode)
        (\<lambda>envelope.
         let expected = RendezvousEnvelope_message_id envelope in
         if expected \<noteq> actual then Inl (MessageIdMismatch expected actual)
         else and_then (check_envelope_candidates envelope) (\<lambda>_. Inr envelope))))"

subsection \<open>Peer relay frames\<close>

unbundle bit_operations_syntax

datatype PeerRelayFlags = PeerRelayFlags (prf_bits: u8)

definition PeerRelayFlags_RELIABLE :: PeerRelayFlags where "PeerRelayFlags_RELIABLE = PeerRelayFlags 0x01"
definition PeerRelayFlags_DATAGRAM :: PeerRelayFlags where "PeerRelayFlags_DATAGRAM = PeerRelayFlags 0x02"
definition PeerRelayFlags_FIN :: PeerRelayFlags where "PeerRelayFlags_FIN = PeerRelayFlags 0x04"

definition PeerRelayFlags_SUPPORTED :: u8 where
  "PeerRelayFlags_SUPPORTED =
     prf_bits PeerRelayFlags_RELIABLE OR prf_bits PeerRelayFlags_DATAGRAM OR prf_bits PeerRelayFlags_FIN"

definition PeerRelayFlags_try_from :: "u8 \<Rightarrow> (WireError, PeerRelayFlags) result" where
  "PeerRelayFlags_try_from value =
     (if value AND NOT PeerRelayFlags_SUPPORTED = 0 then Inr (PeerRelayFlags value)
      else Inl (UnsupportedRelayFlags value))"

definition PeerRelayFlags_bitor :: "PeerRelayFlags \<Rightarrow> PeerRelayFlags \<Rightarrow> PeerRelayFlags" where
  "PeerRelayFlags_bitor self rhs = PeerRelayFlags (prf_bits self OR prf_bits rhs)"

definition sch_PeerRelayFlags :: schema where "sch_PeerRelayFlags = TU8"

definition ser_PeerRelayFlags :: "PeerRelayFlags \<Rightarrow> sval" where
  "ser_PeerRelayFlags x = SU8 (prf_bits x)"

definition de_PeerRelayFlags :: "sval \<Rightarrow> PeerRelayFlags option" where
  "de_PeerRelayFlags v = Option.bind (de_u8 v)
     (\<lambda>value. case PeerRelayFlags_try_from value of Inl _ \<Rightarrow> None | Inr x \<Rightarrow> Some x)"

definition wf_PeerRelayFlags :: "PeerRelayFlags \<Rightarrow> bool" where
  "wf_PeerRelayFlags x \<longleftrightarrow> prf_bits x AND NOT PeerRelayFlags_SUPPORTED = 0"

interpretation PeerRelayFlags_wire: wire_type sch_PeerRelayFlags ser_PeerRelayFlags de_PeerRelayFlags
  wf_PeerRelayFlags
  by unfold_locales
    (auto simp: sch_PeerRelayFlags_def ser_PeerRelayFlags_def de_PeerRelayFlags_def
      wf_PeerRelayFlags_def PeerRelayFlags_try_from_def codec_simps split: if_splits)

record PeerRelayFrame =
  prf_session_id :: SessionId
  prf_channel_id :: u64
  prf_sequence :: u64
  prf_flags :: PeerRelayFlags
  prf_ciphertext_len :: u32
  prf_ciphertext :: bytes

definition PeerRelayFrame_new ::
  "SessionId \<Rightarrow> u64 \<Rightarrow> u64 \<Rightarrow> PeerRelayFlags \<Rightarrow> bytes \<Rightarrow> (WireError, PeerRelayFrame) result" where
  "PeerRelayFrame_new session_id channel_id sequence flags ciphertext =
     (if channel_id = 0 then Inl ZeroRelayChannel
      else if length ciphertext \<ge> 2 ^ 32 then Inl CiphertextTooLarge
      else (let ciphertext_len = word_of_nat (length ciphertext) in
        case BoundedBytes_try_from MAX_PEER_RELAY_CIPHERTEXT_BYTES ciphertext of
          Inl _ \<Rightarrow> Inl CiphertextTooLarge
        | Inr bounded \<Rightarrow> Inr \<lparr>prf_session_id = session_id, prf_channel_id = channel_id,
            prf_sequence = sequence, prf_flags = flags, prf_ciphertext_len = ciphertext_len,
            prf_ciphertext = bounded\<rparr>))"

definition sch_PeerRelayFrame :: schema where
  "sch_PeerRelayFrame = TTuple [sch_SessionId, TU64, TU64, sch_PeerRelayFlags, TU32, TBytes]"

definition ser_PeerRelayFrame :: "PeerRelayFrame \<Rightarrow> sval" where
  "ser_PeerRelayFrame x = STuple [
     ser_SessionId (prf_session_id x), SU64 (prf_channel_id x), SU64 (prf_sequence x),
     ser_PeerRelayFlags (prf_flags x), SU32 (prf_ciphertext_len x),
     ser_BoundedBytes (prf_ciphertext x)]"

definition de_PeerRelayFrame :: "sval \<Rightarrow> PeerRelayFrame option" where
  "de_PeerRelayFrame v = (case v of
      STuple [v0, v1, v2, v3, v4, v5] \<Rightarrow>
        Option.bind (de_SessionId v0) (\<lambda>x0.
        Option.bind (de_u64 v1) (\<lambda>x1.
        Option.bind (de_u64 v2) (\<lambda>x2.
        Option.bind (de_PeerRelayFlags v3) (\<lambda>x3.
        Option.bind (de_u32 v4) (\<lambda>x4.
        Option.bind (de_BoundedBytes MAX_PEER_RELAY_CIPHERTEXT_BYTES v5) (\<lambda>x5.
        if x1 = 0 then None
        else if unat x4 \<noteq> length x5 then None
        else Some \<lparr>prf_session_id = x0, prf_channel_id = x1, prf_sequence = x2, prf_flags = x3,
          prf_ciphertext_len = x4, prf_ciphertext = x5\<rparr>))))))
    | _ \<Rightarrow> None)"

definition wf_PeerRelayFrame :: "PeerRelayFrame \<Rightarrow> bool" where
  "wf_PeerRelayFrame x \<longleftrightarrow> wf_SessionId (prf_session_id x) \<and> wf_PeerRelayFlags (prf_flags x) \<and>
     wf_BoundedBytes MAX_PEER_RELAY_CIPHERTEXT_BYTES (prf_ciphertext x) \<and>
     prf_channel_id x \<noteq> 0 \<and> unat (prf_ciphertext_len x) = length (prf_ciphertext x)"

interpretation PeerRelayFrame_wire: wire_type sch_PeerRelayFrame ser_PeerRelayFrame
  de_PeerRelayFrame wf_PeerRelayFrame
  by unfold_locales
    (auto simp: sch_PeerRelayFrame_def ser_PeerRelayFrame_def de_PeerRelayFrame_def
        wf_PeerRelayFrame_def codec_simps SessionId_wire.ser_shape SessionId_wire.de_ser
        SessionId_wire.de_iff PeerRelayFlags_wire.ser_shape PeerRelayFlags_wire.de_ser
        PeerRelayFlags_wire.de_iff split: if_splits)

definition PeerRelayFrame_to_protocol_message ::
  "postcard \<Rightarrow> PeerRelayFrame \<Rightarrow> (WireError, Message) result" where
  "PeerRelayFrame_to_protocol_message pc self =
     and_then (ok_or (pc_to_allocvec pc (ser_PeerRelayFrame self)) WireEncode) (\<lambda>encoded.
       case BoundedBytes_try_from MAX_PEER_RELAY_FRAME_BYTES encoded of
         Inl e \<Rightarrow> Inl (RelayFrameTooLarge e)
       | Inr opaque \<Rightarrow> Inr (Message.PeerRelayFrame opaque))"

definition PeerRelayFrame_from_protocol_message ::
  "postcard \<Rightarrow> Message \<Rightarrow> (WireError, PeerRelayFrame) result" where
  "PeerRelayFrame_from_protocol_message pc message =
     (let mid = Message_id message in
      case message of
        Message.PeerRelayFrame opaque \<Rightarrow>
          ok_or (from_bytes pc sch_PeerRelayFrame de_PeerRelayFrame opaque) WireDecode
      | _ \<Rightarrow> Inl (NotPeerRelayFrame mid))"

subsection \<open>Candidate sets\<close>

lemma collect_bindings_Inr_iff:
  "collect_bindings seen bs = Inr ts \<longleftrightarrow>
     ts = seen @ map tkb_transport bs \<and> (\<forall>b \<in> set bs. length (tkb_ephemeral_public_key b) = 32) \<and>
     distinct (map tkb_transport bs) \<and> set seen \<inter> set (map tkb_transport bs) = {}"
  by (induction bs arbitrary: seen) (auto simp: List.member_iff)

lemma CandidateSetV2_validate_Inl: "CandidateSetV2_validate s = Inl e \<Longrightarrow> e = InvalidTransportBindings"
proof -
  have "collect_bindings seen bs = Inl e \<Longrightarrow> e = InvalidTransportBindings" for seen bs
    by (induction bs arbitrary: seen) (auto split: if_splits)
  then show "CandidateSetV2_validate s = Inl e \<Longrightarrow> e = InvalidTransportBindings"
    by (auto simp: CandidateSetV2_validate_def result_simps split: if_splits)
qed

text \<open>
  Transport bindings: a version 2 candidate set is accepted exactly when it binds at least
  one transport, every bound key has 32 bytes, no transport is bound twice, and every candidate
  has a nonzero generation and uses a bound transport; otherwise the error is the binding error.
\<close>

theorem CandidateSetV2_validate_spec:
  "CandidateSetV2_validate s =
     (if cs2_bindings s \<noteq> [] \<and> distinct (map tkb_transport (cs2_bindings s)) \<and>
         list_all (\<lambda>b. length (tkb_ephemeral_public_key b) = 32) (cs2_bindings s) \<and>
         list_all (\<lambda>c. gen_get (cand_generation c) \<noteq> 0 \<and>
           cand_transport c \<in> tkb_transport ` set (cs2_bindings s)) (cs2_candidates s)
      then Inr () else Inl InvalidTransportBindings)"
proof (cases "CandidateSetV2_validate s")
  case (Inl e)
  then have "e = InvalidTransportBindings" by (rule CandidateSetV2_validate_Inl)
  moreover have "CandidateSetV2_validate s \<noteq> Inr ()" using Inl by simp
  ultimately show ?thesis
    using Inl
    by (auto simp: CandidateSetV2_validate_def result_simps collect_bindings_Inr_iff List.member_iff
        list_ex_iff list_all_iff split: if_splits)
next
  case (Inr u)
  then show ?thesis
    by (auto simp: CandidateSetV2_validate_def result_simps collect_bindings_Inr_iff List.member_iff
        list_ex_iff list_all_iff split: if_splits)
qed

subsection \<open>Envelopes\<close>

text \<open>What an accepted envelope with version 2 candidates must satisfy.\<close>

definition envelope_consistent :: "RendezvousEnvelope \<Rightarrow> bool" where
  "envelope_consistent e \<longleftrightarrow>
     (case env_payload e of
        PayloadCandidateSetV2 s \<Rightarrow>
          CandidateSetV2_validate s = Inr () \<and>
          list_all (\<lambda>c. cand_generation c = env_generation e \<and>
            cand_expires_unix_secs c = env_expires_unix_secs e) (cs2_candidates s)
      | _ \<Rightarrow> True)"

lemma check_envelope_candidates_Inr_iff: "check_envelope_candidates e = Inr u \<longleftrightarrow> envelope_consistent e"
  by (auto simp: check_envelope_candidates_def envelope_consistent_def result_simps list_ex_iff
      list_all_iff split: RendezvousPayload.splits)

lemma check_envelope_candidates_Inl:
  "check_envelope_candidates e = Inl err \<Longrightarrow> err = InvalidTransportBindings"
  by (auto simp: check_envelope_candidates_def result_simps dest: CandidateSetV2_validate_Inl
      split: RendezvousPayload.splits if_splits)

lemma envelope_message_id:
  "envelope_message (RendezvousPayload_message_id p) bs = Inr m \<Longrightarrow>
     Message_id m = RendezvousPayload_message_id p \<and> rendezvous_opaque m = Some bs"
  by (cases p) (auto simp: envelope_message_def message_id_defs)

lemma envelope_message_total: "\<exists>m. envelope_message (RendezvousPayload_message_id p) bs = Inr m"
  by (cases p) (auto simp: envelope_message_def message_id_defs)

lemma rendezvous_opaque_wf:
  "rendezvous_opaque m = Some bs \<Longrightarrow> wf_Message m \<longleftrightarrow> length bs \<le> MAX_RENDEZVOUS_ENVELOPE_BYTES"
  by (cases m) (auto simp: wf_BoundedBytes_def)

lemma envelope_to_protocol_message_InrD:
  assumes "RendezvousEnvelope_to_protocol_message pc e = Inr m"
  obtains bs where "pc_to_allocvec pc (ser_RendezvousEnvelope e) = Some bs"
    and "length bs \<le> MAX_RENDEZVOUS_ENVELOPE_BYTES" and "rendezvous_opaque m = Some bs"
    and "Message_id m = RendezvousEnvelope_message_id e"
  using assms
  by (auto simp: RendezvousEnvelope_to_protocol_message_def result_simps BoundedBytes_try_from_def
      RendezvousEnvelope_message_id_def dest: envelope_message_id split: if_splits)

lemma envelope_from_protocol_message_Inr_iff:
  "RendezvousEnvelope_from_protocol_message pc m = Inr e \<longleftrightarrow>
     (\<exists>bs. rendezvous_opaque m = Some bs \<and>
       from_bytes pc sch_RendezvousEnvelope de_RendezvousEnvelope bs = Some e) \<and>
     RendezvousEnvelope_message_id e = Message_id m \<and> envelope_consistent e"
  by (auto simp: RendezvousEnvelope_from_protocol_message_def Let_def result_simps
      check_envelope_candidates_Inr_iff)

text \<open>
  Envelope round trip: an envelope whose version 2 candidates are consistent with it, once
  packed into a control message, is read back unchanged; the message carries the identifier of
  the payload and respects its wire bound. Packing fails only when postcard fails or the bytes
  exceed the bound.
\<close>

theorem envelope_roundtrip:
  assumes "postcard_faithful pc" and "wf_RendezvousEnvelope e" and "envelope_consistent e"
    and "pc_to_allocvec pc (ser_RendezvousEnvelope e) = Some bs"
    and "length bs \<le> MAX_RENDEZVOUS_ENVELOPE_BYTES"
  shows "\<exists>m. RendezvousEnvelope_to_protocol_message pc e = Inr m \<and>
    RendezvousEnvelope_from_protocol_message pc m = Inr e \<and>
    Message_id m = RendezvousEnvelope_message_id e \<and> wf_Message m"
proof -
  obtain m where m: "envelope_message (RendezvousEnvelope_message_id e) bs = Inr m"
    unfolding RendezvousEnvelope_message_id_def using envelope_message_total by blast
  note mid = envelope_message_id [OF m [unfolded RendezvousEnvelope_message_id_def]]
  have "RendezvousEnvelope_to_protocol_message pc e = Inr m"
    using assms(4,5) m
    by (simp add: RendezvousEnvelope_to_protocol_message_def BoundedBytes_try_from_def)
  moreover have "from_bytes pc sch_RendezvousEnvelope de_RendezvousEnvelope bs = Some e"
    using assms by (intro RendezvousEnvelope_wire.from_bytes_ser_all)
  ultimately show ?thesis
    using mid assms(3,5) rendezvous_opaque_wf [of m bs]
    by (auto simp: envelope_from_protocol_message_Inr_iff RendezvousEnvelope_message_id_def)
qed

text \<open>
  The declarative reading of version 2 candidates: distinct transports bound to 32-byte keys,
  and candidates of bound transports that carry the given generation and expiry.
\<close>

definition bound_candidates :: "CandidateGeneration \<Rightarrow> u64 \<Rightarrow> CandidateSetV2 \<Rightarrow> bool" where
  "bound_candidates generation expires s \<longleftrightarrow>
     cs2_bindings s \<noteq> [] \<and> distinct (map tkb_transport (cs2_bindings s)) \<and>
     list_all (\<lambda>b. length (tkb_ephemeral_public_key b) = 32) (cs2_bindings s) \<and>
     list_all (\<lambda>c. cand_transport c \<in> tkb_transport ` set (cs2_bindings s) \<and>
       cand_generation c = generation \<and> cand_expires_unix_secs c = expires) (cs2_candidates s)"

lemma validated_bound_candidates:
  "CandidateSetV2_validate s = Inr () \<Longrightarrow>
   list_all (\<lambda>c. cand_generation c = g \<and> cand_expires_unix_secs c = x) (cs2_candidates s) \<Longrightarrow>
   bound_candidates g x s"
  by (auto simp: bound_candidates_def list_all_iff CandidateSetV2_validate_def result_simps
      collect_bindings_Inr_iff List.member_iff list_ex_iff split: if_splits)

lemma wf_ProviderDecision_accepted:
  "wf_ProviderDecision d \<Longrightarrow> pd_accepted d = (\<exists>p. pd_protocol d = Some p \<and> wf_TunnelProtocol p)"
  by (auto simp: wf_ProviderDecision_def ProviderDecision_accepted_def ProviderDecision_rejected_def)

text \<open>
  Accepted envelopes are sound: whatever control message an envelope was read from, its
  payload belongs to the message's identifier, all its fields are in their bounds, a provider
  decision names a protocol exactly when it accepts, and version 2 candidates are bound to
  distinct 32-byte transport keys and to the envelope's own generation and expiry.
\<close>

theorem envelope_accept_sound:
  assumes "postcard_faithful pc" and "RendezvousEnvelope_from_protocol_message pc m = Inr e"
  shows "Message_id m = RendezvousPayload_message_id (env_payload e) \<and>
    wf_RendezvousEnvelope e \<and> gen_get (env_generation e) \<noteq> 0 \<and>
    (case env_payload e of
       PayloadProviderDecision d \<Rightarrow>
         pd_accepted d = (\<exists>p. pd_protocol d = Some p \<and> wf_TunnelProtocol p)
     | PayloadCandidateSetV2 s \<Rightarrow> bound_candidates (env_generation e) (env_expires_unix_secs e) s
     | _ \<Rightarrow> True)"
proof -
  from assms(2) obtain bs where
    bs: "from_bytes pc sch_RendezvousEnvelope de_RendezvousEnvelope bs = Some e"
    and e: "RendezvousEnvelope_message_id e = Message_id m" "envelope_consistent e"
    by (auto simp: envelope_from_protocol_message_Inr_iff)
  have w: "wf_RendezvousEnvelope e"
    by (rule RendezvousEnvelope_wire.from_bytes_wf [OF assms(1) bs])
  then have g: "gen_get (env_generation e) \<noteq> 0" and p: "wf_RendezvousPayload (env_payload e)"
    by (simp_all add: wf_RendezvousEnvelope_def wf_CandidateGeneration_def)
  show ?thesis
    using e w g p
    by (auto simp: RendezvousEnvelope_message_id_def envelope_consistent_def
        wf_ProviderDecision_accepted validated_bound_candidates split: RendezvousPayload.splits)
qed

text \<open>
  C19 (trailing bytes are accepted): \<open>postcard::from_bytes\<close> leaves the rest of its input unread,
  so bytes appended to a valid envelope, up to the wire bound, do not change what it decodes to,
  although the frame codec refuses trailing bytes in every other message.
\<close>

theorem envelope_ignores_trailing_bytes:
  assumes "postcard_faithful pc" and "wf_RendezvousEnvelope e" and "envelope_consistent e"
    and "pc_to_allocvec pc (ser_RendezvousEnvelope e) = Some bs"
    and "length (bs @ junk) \<le> MAX_RENDEZVOUS_ENVELOPE_BYTES"
  shows "\<exists>m. wf_Message m \<and> rendezvous_opaque m = Some (bs @ junk) \<and>
    RendezvousEnvelope_from_protocol_message pc m = Inr e"
proof -
  obtain m where m: "envelope_message (RendezvousPayload_message_id (env_payload e)) (bs @ junk) = Inr m"
    using envelope_message_total by blast
  note mid = envelope_message_id [OF m]
  have "from_bytes pc sch_RendezvousEnvelope de_RendezvousEnvelope (bs @ junk) = Some e"
    using assms by (intro RendezvousEnvelope_wire.from_bytes_ser)
  then show ?thesis
    using mid assms(3,5) rendezvous_opaque_wf [of m "bs @ junk"]
    by (auto simp: envelope_from_protocol_message_Inr_iff RendezvousEnvelope_message_id_def)
qed

subsection \<open>A concrete envelope\<close>

definition sample_candidate :: Candidate where
  "sample_candidate = \<lparr>cand_transport = QuicUdp, cand_address = V4 [192, 0, 2, 7] 4433,
     cand_priority = 100, cand_foundation = ''host'', cand_generation = CandidateGeneration 2,
     cand_expires_unix_secs = 1000, cand_observation_source = ''local''\<rparr>"

definition sample_envelope :: RendezvousEnvelope where
  "sample_envelope = \<lparr>env_version = V0_6, env_session_id = SessionId (replicate 32 5),
     env_sender = ''a'', env_target = ''b'', env_step = 3, env_generation = CandidateGeneration 2,
     env_expires_unix_secs = 1000,
     env_payload = PayloadCandidateSetV2 \<lparr>cs2_owner_is_initiator = True,
       cs2_bindings = [\<lparr>tkb_transport = QuicUdp, tkb_ephemeral_public_key = replicate 32 9\<rparr>],
       cs2_candidates = [sample_candidate]\<rparr>,
     env_signature = [1, 2, 3]\<rparr>"

lemmas sample_wf_defs =
  sample_envelope_def sample_candidate_def wf_RendezvousEnvelope_def wf_SessionId_def
  wf_CandidateGeneration_def wf_CandidateSetV2_def wf_Candidate_def wf_TransportKeyBinding_def
  wf_BoundedString_def wf_BoundedBytes_def wf_BoundedVec_def wf_CandidateTransport_def
  wf_ProtocolVersion_def rendezvous_limit_defs

lemmas sample_ser_defs =
  sample_envelope_def sample_candidate_def ser_RendezvousEnvelope_def ser_SessionId_def
  ser_CandidateGeneration_def ser_CandidateSetV2_def ser_Candidate_def ser_TransportKeyBinding_def
  ser_BoundedString_def ser_BoundedBytes_def ser_BoundedVec_def ser_seq_def ser_array_def
  ser_CandidateTransport_def ser_unit_enum_def ser_ProtocolVersion_def

lemma sample_envelope_wf: "wf_RendezvousEnvelope sample_envelope"
  by (simp add: sample_wf_defs utf8_valid_ascii)

lemma sample_envelope_consistent: "envelope_consistent sample_envelope"
  by (simp add: envelope_consistent_def sample_envelope_def sample_candidate_def
      CandidateSetV2_validate_def List.member_iff)

lemma sample_envelope_fits: "fixed_fits (ser_RendezvousEnvelope sample_envelope)"
  by (simp add: sample_ser_defs list_all_iff)

lemma sample_envelope_bytes:
  "pc_to_allocvec fixed_postcard (ser_RendezvousEnvelope sample_envelope) =
     Some (fixed_enc (ser_RendezvousEnvelope sample_envelope))"
  using sample_envelope_fits by (simp add: fixed_postcard_def)

lemma sample_envelope_length: "length (fixed_enc (ser_RendezvousEnvelope sample_envelope)) < 1000"
  by (simp add: sample_ser_defs)

theorem envelope_roundtrip_witness:
  "\<exists>m. RendezvousEnvelope_to_protocol_message fixed_postcard sample_envelope = Inr m \<and>
    RendezvousEnvelope_from_protocol_message fixed_postcard m = Inr sample_envelope \<and>
    Message_id m = RendezvousEnvelope_message_id sample_envelope \<and> wf_Message m"
  using sample_envelope_length
  by (intro envelope_roundtrip [OF fixed_postcard_faithful sample_envelope_wf
        sample_envelope_consistent sample_envelope_bytes])
    (simp add: MAX_RENDEZVOUS_ENVELOPE_BYTES_def)

theorem envelope_ignores_trailing_bytes_witness:
  "\<exists>m. wf_Message m \<and>
    rendezvous_opaque m = Some (fixed_enc (ser_RendezvousEnvelope sample_envelope) @ [0xDE, 0xAD]) \<and>
    RendezvousEnvelope_from_protocol_message fixed_postcard m = Inr sample_envelope"
  using sample_envelope_length
  by (intro envelope_ignores_trailing_bytes [OF fixed_postcard_faithful sample_envelope_wf
        sample_envelope_consistent sample_envelope_bytes])
    (simp add: MAX_RENDEZVOUS_ENVELOPE_BYTES_def)

definition sample_envelope_message :: Message where
  "sample_envelope_message =
     Message.RendezvousCandidateSetV2 (fixed_enc (ser_RendezvousEnvelope sample_envelope))"

lemma sample_envelope_read:
  "RendezvousEnvelope_from_protocol_message fixed_postcard sample_envelope_message = Inr sample_envelope"
proof -
  have "from_bytes fixed_postcard sch_RendezvousEnvelope de_RendezvousEnvelope
      (fixed_enc (ser_RendezvousEnvelope sample_envelope)) = Some sample_envelope"
    by (rule RendezvousEnvelope_wire.from_bytes_ser_all [OF fixed_postcard_faithful
          sample_envelope_wf sample_envelope_bytes])
  moreover have "RendezvousEnvelope_message_id sample_envelope = Message_id sample_envelope_message"
    by (simp add: RendezvousEnvelope_message_id_def sample_envelope_def sample_envelope_message_def)
  ultimately show ?thesis
    by (simp add: envelope_from_protocol_message_Inr_iff sample_envelope_consistent
        sample_envelope_message_def)
qed

theorem envelope_accept_sound_witness:
  "Message_id sample_envelope_message = RENDEZVOUS_CANDIDATE_SET_V2 \<and>
   wf_RendezvousEnvelope sample_envelope \<and>
   bound_candidates (CandidateGeneration 2) 1000 \<lparr>cs2_owner_is_initiator = True,
     cs2_bindings = [\<lparr>tkb_transport = QuicUdp, tkb_ephemeral_public_key = replicate 32 9\<rparr>],
     cs2_candidates = [sample_candidate]\<rparr>"
  using envelope_accept_sound [OF fixed_postcard_faithful sample_envelope_read]
  by (simp add: sample_envelope_def)

subsection \<open>Relay frames\<close>

lemma SUPPORTED_bits: "PeerRelayFlags_SUPPORTED = 7"
  by (simp add: PeerRelayFlags_SUPPORTED_def PeerRelayFlags_RELIABLE_def PeerRelayFlags_DATAGRAM_def
      PeerRelayFlags_FIN_def)

lemma wf_PeerRelayFlags_bitor:
  "wf_PeerRelayFlags a \<Longrightarrow> wf_PeerRelayFlags b \<Longrightarrow> wf_PeerRelayFlags (PeerRelayFlags_bitor a b)"
  by (simp add: wf_PeerRelayFlags_def PeerRelayFlags_bitor_def bit.conj_disj_distrib2)

lemma PeerRelayFrame_new_Inr_iff:
  "PeerRelayFrame_new sid ch sq flags ct = Inr f \<longleftrightarrow>
     ch \<noteq> 0 \<and> length ct \<le> MAX_PEER_RELAY_CIPHERTEXT_BYTES \<and>
     f = \<lparr>prf_session_id = sid, prf_channel_id = ch, prf_sequence = sq, prf_flags = flags,
          prf_ciphertext_len = word_of_nat (length ct), prf_ciphertext = ct\<rparr>"
  by (auto simp: PeerRelayFrame_new_def BoundedBytes_try_from_def Let_def
      MAX_PEER_RELAY_CIPHERTEXT_BYTES_def)

lemma PeerRelayFrame_new_wf:
  assumes "PeerRelayFrame_new sid ch sq flags ct = Inr f"
    and "wf_SessionId sid" and "wf_PeerRelayFlags flags"
  shows "wf_PeerRelayFrame f"
  using assms
  by (auto simp: PeerRelayFrame_new_Inr_iff wf_PeerRelayFrame_def wf_BoundedBytes_def unat_of_nat
      MAX_PEER_RELAY_CIPHERTEXT_BYTES_def)

text \<open>
  Relay frames: \<open>PeerRelayFrame::new\<close> builds a frame from a nonzero channel, supported flags
  and a ciphertext within its bound; the frame, once packed, is
  read back unchanged, and its declared length is the length of the ciphertext. Packing fails only
  when postcard fails or the bytes exceed the wire bound.
\<close>

theorem relay_frame_roundtrip:
  assumes "postcard_faithful pc" and "wf_SessionId sid" and "wf_PeerRelayFlags flags"
    and "ch \<noteq> 0" and "length ct \<le> MAX_PEER_RELAY_CIPHERTEXT_BYTES"
  shows "\<exists>f. PeerRelayFrame_new sid ch sq flags ct = Inr f \<and> prf_ciphertext f = ct \<and>
    unat (prf_ciphertext_len f) = length ct \<and>
    (case PeerRelayFrame_to_protocol_message pc f of
       Inl err \<Rightarrow> pc_to_allocvec pc (ser_PeerRelayFrame f) = None \<and> err = WireEncode \<or>
         (\<exists>bs. pc_to_allocvec pc (ser_PeerRelayFrame f) = Some bs \<and>
           length bs > MAX_PEER_RELAY_FRAME_BYTES)
     | Inr m \<Rightarrow> wf_Message m \<and> PeerRelayFrame_from_protocol_message pc m = Inr f)"
proof -
  obtain f where f: "PeerRelayFrame_new sid ch sq flags ct = Inr f"
    using assms(4,5) by (simp add: PeerRelayFrame_new_Inr_iff)
  note wf = PeerRelayFrame_new_wf [OF f assms(2,3)]
  note read_back = PeerRelayFrame_wire.from_bytes_ser_all [OF assms(1) wf]
  show ?thesis
  proof (intro exI conjI)
    show "prf_ciphertext f = ct" and "unat (prf_ciphertext_len f) = length ct"
      using f wf by (auto simp: PeerRelayFrame_new_Inr_iff wf_PeerRelayFrame_def)
    show "case PeerRelayFrame_to_protocol_message pc f of
       Inl err \<Rightarrow> pc_to_allocvec pc (ser_PeerRelayFrame f) = None \<and> err = WireEncode \<or>
         (\<exists>bs. pc_to_allocvec pc (ser_PeerRelayFrame f) = Some bs \<and>
           length bs > MAX_PEER_RELAY_FRAME_BYTES)
     | Inr m \<Rightarrow> wf_Message m \<and> PeerRelayFrame_from_protocol_message pc m = Inr f"
      by (cases "pc_to_allocvec pc (ser_PeerRelayFrame f)")
        (auto simp: PeerRelayFrame_to_protocol_message_def BoundedBytes_try_from_def
          PeerRelayFrame_from_protocol_message_def wf_BoundedBytes_def read_back)
  qed (rule f)
qed

theorem relay_frame_roundtrip_witness:
  "\<exists>f. PeerRelayFrame_new (SessionId (replicate 32 5)) 9 1
        (PeerRelayFlags_bitor PeerRelayFlags_RELIABLE PeerRelayFlags_FIN) [7, 8, 9] = Inr f \<and>
    prf_ciphertext f = [7, 8, 9] \<and> unat (prf_ciphertext_len f) = 3"
  using relay_frame_roundtrip [OF fixed_postcard_faithful, of "SessionId (replicate 32 5)"
      "PeerRelayFlags_bitor PeerRelayFlags_RELIABLE PeerRelayFlags_FIN" 9 "[7, 8, 9]" 1]
  by (auto simp: wf_SessionId_def wf_PeerRelayFlags_def PeerRelayFlags_bitor_def SUPPORTED_bits
      PeerRelayFlags_RELIABLE_def PeerRelayFlags_FIN_def MAX_PEER_RELAY_CIPHERTEXT_BYTES_def)

text \<open>
  Accepted relay frames are sound: a relay frame read from any control message has a nonzero
  channel, only supported flags, a ciphertext within its bound and the declared length of it; a
  message of another kind is refused with its identifier.
\<close>

theorem relay_frame_accept_sound:
  assumes "postcard_faithful pc"
  shows "case PeerRelayFrame_from_protocol_message pc m of
      Inr f \<Rightarrow> Message_id m = PEER_RELAY_FRAME \<and> prf_channel_id f \<noteq> 0 \<and>
        length (sid_as_bytes (prf_session_id f)) = 32 \<and> prf_bits (prf_flags f) AND NOT 7 = 0 \<and>
        unat (prf_ciphertext_len f) = length (prf_ciphertext f) \<and>
        length (prf_ciphertext f) \<le> MAX_PEER_RELAY_CIPHERTEXT_BYTES
    | Inl err \<Rightarrow> err = (if Message_id m = PEER_RELAY_FRAME then WireDecode
        else NotPeerRelayFrame (Message_id m))"
proof (cases "\<exists>bs. m = Message.PeerRelayFrame bs")
  case True
  then obtain bs where m: "m = Message.PeerRelayFrame bs" by blast
  show ?thesis
  proof (cases "from_bytes pc sch_PeerRelayFrame de_PeerRelayFrame bs")
    case None
    then show ?thesis by (simp add: m PeerRelayFrame_from_protocol_message_def)
  next
    case (Some f)
    from PeerRelayFrame_wire.from_bytes_wf [OF assms Some] show ?thesis
      by (simp add: m PeerRelayFrame_from_protocol_message_def Some wf_PeerRelayFrame_def
          wf_SessionId_def wf_PeerRelayFlags_def wf_BoundedBytes_def SUPPORTED_bits)
  qed
next
  case False
  then show ?thesis
    by (cases m) (simp_all add: PeerRelayFrame_from_protocol_message_def message_id_defs)
qed

theorem relay_frame_accept_sound_witness:
  "PeerRelayFrame_from_protocol_message fixed_postcard (Message.PeerRelayFrame []) = Inl WireDecode"
  using relay_frame_accept_sound [OF fixed_postcard_faithful, of "Message.PeerRelayFrame []"]
  by (simp add: PeerRelayFrame_from_protocol_message_def from_bytes_def
      fixed_postcard_def sch_PeerRelayFrame_def sch_SessionId_def sch_array_def numeral_eq_Suc)

subsection \<open>Observation packets\<close>

context wire_type
begin

lemma decode_encode_bounded:
  assumes "postcard_faithful pc" and "wf x" and "encode_bounded pc ser x n = Inr bs"
  shows "decode_bounded pc sch de bs n = Inr x \<and> length bs \<le> n"
  using assms from_bytes_ser_all [OF assms(1,2)]
  by (auto simp: encode_bounded_def decode_bounded_def result_simps split: if_splits)

lemma decode_bounded_wf:
  assumes "postcard_faithful pc" and "decode_bounded pc sch de bs n = Inr x"
  shows "wf x \<and> length bs \<le> n"
  using assms by (auto simp: decode_bounded_def result_simps dest: from_bytes_wf split: if_splits)

end

text \<open>
  Observation packets: grants, probes and replies that fit their wire bound are read back
  unchanged from their encoding, a grant through its control message.
\<close>

theorem observation_roundtrip:
  assumes "postcard_faithful pc"
    and "wf_ObservationGrant g" and "ObservationGrant_to_protocol_message pc g = Inr m"
    and "wf_ObservationProbe p" and "ObservationProbe_encode pc p = Inr pb"
    and "wf_ObservationReply r" and "ObservationReply_encode pc r = Inr rb"
  shows "ObservationGrant_from_protocol_message pc m = Inr g \<and>
    ObservationProbe_decode pc pb = Inr p \<and> length pb \<le> 48 \<and>
    ObservationReply_decode pc rb = Inr r \<and> length rb \<le> 37"
proof -
  from assms(3) obtain bs where "encode_bounded pc ser_ObservationGrant g MAX_OBSERVATION_GRANT_BYTES = Inr bs"
    and "m = Message.ObservationGrant bs"
    by (auto simp: ObservationGrant_to_protocol_message_def result_simps BoundedBytes_try_from_def
        split: sum.splits if_splits)
  with ObservationGrant_wire.decode_encode_bounded [OF assms(1,2)]
  have "ObservationGrant_from_protocol_message pc m = Inr g"
    by (simp add: ObservationGrant_from_protocol_message_def)
  moreover note ObservationProbe_wire.decode_encode_bounded
    [OF assms(1,4) assms(5) [unfolded ObservationProbe_encode_def]]
  moreover note ObservationReply_wire.decode_encode_bounded
    [OF assms(1,6) assms(7) [unfolded ObservationReply_encode_def]]
  ultimately show ?thesis
    by (simp add: ObservationProbe_decode_def ObservationReply_decode_def
        ObservationProbe_MAX_WIRE_BYTES_def ObservationReply_MAX_WIRE_BYTES_def rendezvous_limit_defs)
qed

definition sample_grant :: ObservationGrant where
  "sample_grant = \<lparr>og_primary_token = replicate 32 1, og_alternate_token = replicate 32 2,
     og_expires_unix_secs = 77\<rparr>"

definition sample_probe :: ObservationProbe where
  "sample_probe = \<lparr>op_token = replicate 32 1, op_nonce = replicate 16 3\<rparr>"

definition sample_reply :: ObservationReply where
  "sample_reply = \<lparr>orp_nonce = replicate 16 3, orp_observed_source = V4 [192, 0, 2, 7] 4433,
     orp_endpoint = EndpointAlternate\<rparr>"

lemmas sample_observation_defs =
  sample_grant_def sample_probe_def sample_reply_def ser_ObservationGrant_def
  ser_ObservationProbe_def ser_ObservationReply_def ser_array_def ser_ObservationEndpoint_def
  ser_unit_enum_def encode_bounded_def fixed_postcard_def rendezvous_limit_defs

lemma sample_grant_sent:
  "ObservationGrant_to_protocol_message fixed_postcard sample_grant =
     Inr (Message.ObservationGrant (fixed_enc (ser_ObservationGrant sample_grant)))"
  by (simp add: ObservationGrant_to_protocol_message_def BoundedBytes_try_from_def
      MAX_OBSERVATION_GRANT_BYTES_def sample_observation_defs list_all_iff)

lemma sample_probe_sent:
  "ObservationProbe_encode fixed_postcard sample_probe = Inr (fixed_enc (ser_ObservationProbe sample_probe))"
  by (simp add: ObservationProbe_encode_def ObservationProbe_MAX_WIRE_BYTES_def
      sample_observation_defs list_all_iff)

lemma sample_reply_sent:
  "ObservationReply_encode fixed_postcard sample_reply = Inr (fixed_enc (ser_ObservationReply sample_reply))"
  by (simp add: ObservationReply_encode_def ObservationReply_MAX_WIRE_BYTES_def
      sample_observation_defs list_all_iff)

theorem observation_roundtrip_witness:
  "ObservationGrant_from_protocol_message fixed_postcard
     (Message.ObservationGrant (fixed_enc (ser_ObservationGrant sample_grant))) = Inr sample_grant \<and>
   ObservationProbe_decode fixed_postcard (fixed_enc (ser_ObservationProbe sample_probe)) = Inr sample_probe \<and>
   ObservationReply_decode fixed_postcard (fixed_enc (ser_ObservationReply sample_reply)) = Inr sample_reply"
proof -
  have "wf_ObservationGrant sample_grant" "wf_ObservationProbe sample_probe"
    "wf_ObservationReply sample_reply"
    by (simp_all add: wf_ObservationGrant_def wf_ObservationProbe_def wf_ObservationReply_def
        sample_grant_def sample_probe_def sample_reply_def wf_array_def wf_ObservationEndpoint_def
        rendezvous_limit_defs)
  from observation_roundtrip [OF fixed_postcard_faithful this(1) sample_grant_sent this(2)
      sample_probe_sent this(3) sample_reply_sent]
  show ?thesis by simp
qed

end
