(* ===== verification/Nat_Candidates.thy ===== *)
theory Nat_Candidates
  imports Rendezvous_Wire
begin

text \<open>
  The candidate gatherer of \<open>rustgo-nat/src/candidate.rs\<close>: address safety, binding ranges,
  priorities, ordering, deduplication and the wire bound. The address predicates are those of
  Rust's \<open>Ipv4Addr\<close> and \<open>Ipv6Addr\<close>. The theorem gives the output against the input: sound,
  ordered, without duplicates, and complete up to the bound.
\<close>

subsection \<open>Addresses\<close>

definition ipv4_is_unspecified :: "bytes \<Rightarrow> bool" where
  "ipv4_is_unspecified os \<longleftrightarrow> os = [0, 0, 0, 0]"

definition ipv4_is_multicast :: "bytes \<Rightarrow> bool" where
  "ipv4_is_multicast os \<longleftrightarrow> 224 \<le> os ! 0 \<and> os ! 0 \<le> 239"

definition ipv4_is_broadcast :: "bytes \<Rightarrow> bool" where
  "ipv4_is_broadcast os \<longleftrightarrow> os = [255, 255, 255, 255]"

definition ipv4_is_loopback :: "bytes \<Rightarrow> bool" where
  "ipv4_is_loopback os \<longleftrightarrow> os ! 0 = 127"

definition ipv4_is_link_local :: "bytes \<Rightarrow> bool" where
  "ipv4_is_link_local os \<longleftrightarrow> os ! 0 = 169 \<and> os ! 1 = 254"

definition ipv4_is_private :: "bytes \<Rightarrow> bool" where
  "ipv4_is_private os \<longleftrightarrow> os ! 0 = 10 \<or> (os ! 0 = 172 \<and> 16 \<le> os ! 1 \<and> os ! 1 \<le> 31) \<or>
     (os ! 0 = 192 \<and> os ! 1 = 168)"

definition ipv6_is_unspecified :: "bytes \<Rightarrow> bool" where
  "ipv6_is_unspecified os \<longleftrightarrow> os = replicate 16 0"

definition ipv6_is_multicast :: "bytes \<Rightarrow> bool" where
  "ipv6_is_multicast os \<longleftrightarrow> os ! 0 = 255"

definition ipv6_is_loopback :: "bytes \<Rightarrow> bool" where
  "ipv6_is_loopback os \<longleftrightarrow> os = replicate 15 0 @ [1]"

definition ipv6_is_unicast_link_local :: "bytes \<Rightarrow> bool" where
  "ipv6_is_unicast_link_local os \<longleftrightarrow> os ! 0 = 0xFE \<and> os ! 1 AND 0xC0 = 0x80"

fun address_port :: "SocketAddress \<Rightarrow> u16" where
  "address_port (V4 os p) = p"
| "address_port (V6 os p) = p"

fun is_usable_address :: "SocketAddress \<Rightarrow> bool" where
  "is_usable_address (V4 os p) \<longleftrightarrow> p \<noteq> 0 \<and> \<not> ipv4_is_unspecified os \<and> \<not> ipv4_is_multicast os \<and>
     \<not> ipv4_is_broadcast os \<and> \<not> ipv4_is_loopback os \<and> \<not> ipv4_is_link_local os"
| "is_usable_address (V6 os p) \<longleftrightarrow> p \<noteq> 0 \<and> \<not> ipv6_is_unspecified os \<and> \<not> ipv6_is_multicast os \<and>
     \<not> ipv6_is_loopback os \<and> \<not> ipv6_is_unicast_link_local os"

record PortRange =
  pr_start :: u16
  pr_end :: u16

definition range_contains :: "PortRange \<Rightarrow> u16 \<Rightarrow> bool" where
  "range_contains r p \<longleftrightarrow> pr_start r \<le> p \<and> p \<le> pr_end r"

subsection \<open>The candidate gatherer\<close>

definition IPV6_PRIORITY :: u32 where "IPV6_PRIORITY = 600"
definition LAN_PRIORITY :: u32 where "LAN_PRIORITY = 500"
definition OBSERVED_UDP_PRIORITY :: u32 where "OBSERVED_UDP_PRIORITY = 400"
definition PREDICTED_UDP_PRIORITY :: u32 where "PREDICTED_UDP_PRIORITY = 300"
definition NATIVE_TCP_PRIORITY :: u32 where "NATIVE_TCP_PRIORITY = 200"
definition RELAY_PRIORITY :: u32 where "RELAY_PRIORITY = 100"

datatype CandidateInput =
    InUsableIpv6 (input_address: SocketAddress)
  | InLan (input_address: SocketAddress)
  | InObservedUdp (input_address: SocketAddress)
  | InPredictedUdp (input_address: SocketAddress)
  | InNativeTcp (input_address: SocketAddress)
  | InRelay (input_address: SocketAddress)

fun input_metadata :: "CandidateInput \<Rightarrow> CandidateTransport \<times> u32 \<times> string \<times> string" where
  "input_metadata (InUsableIpv6 _) = (QuicUdp, IPV6_PRIORITY, ''ipv6'', ''local'')"
| "input_metadata (InLan _) = (QuicUdp, LAN_PRIORITY, ''lan'', ''local'')"
| "input_metadata (InObservedUdp _) =
     (QuicUdp, OBSERVED_UDP_PRIORITY, ''observed-udp'', ''server-observed'')"
| "input_metadata (InPredictedUdp _) =
     (QuicUdp, PREDICTED_UDP_PRIORITY, ''predicted-udp'', ''prediction'')"
| "input_metadata (InNativeTcp _) = (NativeTcp, NATIVE_TCP_PRIORITY, ''native-tcp'', ''local'')"
| "input_metadata (InRelay _) = (Relay, RELAY_PRIORITY, ''relay'', ''relay'')"

record CandidateGatherer =
  cg_generation :: CandidateGeneration
  cg_expires_unix_secs :: u64
  cg_udp_port_range :: PortRange
  cg_tcp_port_range :: PortRange

fun is_allowed_input :: "CandidateGatherer \<Rightarrow> CandidateInput \<Rightarrow> bool" where
  "is_allowed_input self (InUsableIpv6 address) =
     (case address of V6 _ p \<Rightarrow> range_contains (cg_udp_port_range self) p | V4 _ _ \<Rightarrow> False)"
| "is_allowed_input self (InLan (V4 os p)) =
     (ipv4_is_private os \<and> range_contains (cg_udp_port_range self) p)"
| "is_allowed_input self (InLan (V6 _ _)) = False"
| "is_allowed_input self (InNativeTcp address) =
     range_contains (cg_tcp_port_range self) (address_port address)"
| "is_allowed_input self (InObservedUdp _) = True"
| "is_allowed_input self (InPredictedUdp _) = True"
| "is_allowed_input self (InRelay _) = True"

definition to_candidate :: "CandidateGatherer \<Rightarrow> CandidateInput \<Rightarrow> Candidate option" where
  "to_candidate self input =
     (let address = input_address input in
      if \<not> is_usable_address address \<or> \<not> is_allowed_input self input then None
      else (case input_metadata input of (transport, priority, foundation, source) \<Rightarrow>
        (case (BoundedString_try_from MAX_FOUNDATION_BYTES foundation,
               BoundedString_try_from MAX_OBSERVATION_SOURCE_BYTES source) of
           (Inr f, Inr s) \<Rightarrow> Some \<lparr>cand_transport = transport, cand_address = address,
             cand_priority = priority, cand_foundation = f, cand_generation = cg_generation self,
             cand_expires_unix_secs = cg_expires_unix_secs self, cand_observation_source = s\<rparr>
         | _ \<Rightarrow> None)))"

text \<open>\<open>Vec::retain\<close> with the list of keys seen so far, which only grows on kept elements.\<close>

fun retain_unseen ::
  "(CandidateTransport \<times> SocketAddress) list \<Rightarrow> Candidate list \<Rightarrow> Candidate list" where
  "retain_unseen seen [] = []"
| "retain_unseen seen (c # cs) =
     (let duplicate = list_ex (\<lambda>(t, a). t = cand_transport c \<and> a = cand_address c) seen in
      if duplicate then retain_unseen seen cs
      else c # retain_unseen (seen @ [(cand_transport c, cand_address c)]) cs)"

text \<open>Rust's \<open>sort_by_key\<close> is stable; the key \<open>Reverse(priority)\<close> sorts downwards.\<close>

definition gather :: "CandidateGatherer \<Rightarrow> CandidateInput list \<Rightarrow> Candidate list" where
  "gather self inputs =
     (let candidates = List.map_filter (to_candidate self) inputs;
          sorted_candidates = sort_key (\<lambda>c. - uint (cand_priority c)) candidates
      in take MAX_CANDIDATES (retain_unseen [] sorted_candidates))"

definition cand_key :: "Candidate \<Rightarrow> CandidateTransport \<times> SocketAddress" where
  "cand_key c = (cand_transport c, cand_address c)"

definition priority_ge :: "Candidate \<Rightarrow> Candidate \<Rightarrow> bool" where
  "priority_ge c d \<longleftrightarrow> cand_priority d \<le> cand_priority c"

lemma retain_unseen_Cons:
  "retain_unseen seen (c # cs) =
     (if cand_key c \<in> set seen then retain_unseen seen cs
      else c # retain_unseen (seen @ [cand_key c]) cs)"
  by (auto simp: Let_def list_ex_iff cand_key_def)

declare retain_unseen.simps(2) [simp del]

lemma set_retain_unseen: "set (retain_unseen seen cs) \<subseteq> set cs"
  by (induction cs arbitrary: seen) (auto simp: retain_unseen_Cons)

lemma retain_unseen_keys:
  "distinct (map cand_key (retain_unseen seen cs)) \<and>
   cand_key ` set (retain_unseen seen cs) \<inter> set seen = {}"
proof (induction cs arbitrary: seen)
  case Nil
  show ?case by simp
next
  case (Cons c cs)
  show ?case
    using Cons.IH [of seen] Cons.IH [of "seen @ [cand_key c]"]
    by (auto simp: retain_unseen_Cons)
qed

lemma sorted_retain_unseen:
  "sorted_wrt P cs \<Longrightarrow> sorted_wrt P (retain_unseen seen cs)"
proof (induction cs arbitrary: seen)
  case Nil
  then show ?case by simp
next
  case (Cons c cs)
  then show ?case
    using set_retain_unseen [of "seen @ [cand_key c]" cs] by (auto simp: retain_unseen_Cons)
qed

text \<open>Of the candidates with one key, the one kept is the first.\<close>

lemma retain_unseen_first:
  assumes "sorted_wrt P cs" and "c \<in> set cs" and "cand_key c \<notin> set seen"
  shows "\<exists>d \<in> set (retain_unseen seen cs). cand_key d = cand_key c \<and> (d = c \<or> P d c)"
  using assms
proof (induction cs arbitrary: seen)
  case Nil
  then show ?case by simp
next
  case (Cons a cs)
  show ?case
  proof (cases "cand_key a = cand_key c")
    case True
    with Cons.prems show ?thesis by (auto simp: retain_unseen_Cons)
  next
    case False
    with Cons.prems have c: "c \<in> set cs" "sorted_wrt P cs" by auto
    show ?thesis
      using Cons.IH [OF c(2,1), of seen] Cons.IH [OF c(2,1), of "seen @ [cand_key a]"] Cons.prems False
      by (auto simp: retain_unseen_Cons)
  qed
qed

lemma sort_by_priority: "sorted_wrt priority_ge (sort_key (\<lambda>c. - uint (cand_priority c)) cs)"
  using sorted_sort_key [of "\<lambda>c. - uint (cand_priority c)" cs]
  by (auto simp: sorted_map priority_ge_def word_le_def elim: sorted_wrt_mono_rel [rotated])

lemma to_candidate_Some_iff:
  "to_candidate g i = Some c \<longleftrightarrow>
     is_usable_address (input_address i) \<and> is_allowed_input g i \<and>
     (case input_metadata i of (t, p, f, s) \<Rightarrow>
        c = \<lparr>cand_transport = t, cand_address = input_address i, cand_priority = p,
             cand_foundation = f, cand_generation = cg_generation g,
             cand_expires_unix_secs = cg_expires_unix_secs g, cand_observation_source = s\<rparr>)"
  by (cases i) (auto simp: to_candidate_def BoundedString_try_from_def rendezvous_limit_defs)

lemma set_filter_map: "set (List.map_filter f xs) = {y. \<exists>x \<in> set xs. f x = Some y}"
  by (induction xs) (auto simp: map_filter_simps split: option.splits)

definition gather_ranked :: "CandidateGatherer \<Rightarrow> CandidateInput list \<Rightarrow> Candidate list" where
  "gather_ranked g inputs =
     retain_unseen [] (sort_key (\<lambda>c. - uint (cand_priority c)) (List.map_filter (to_candidate g) inputs))"

lemma gather_eq: "gather g inputs = take MAX_CANDIDATES (gather_ranked g inputs)"
  by (simp add: gather_def gather_ranked_def Let_def)

lemma set_gather_ranked:
  "c \<in> set (gather_ranked g inputs) \<Longrightarrow> \<exists>i \<in> set inputs. to_candidate g i = Some c"
  using set_retain_unseen [of "[]" "sort_key (\<lambda>c. - uint (cand_priority c))
    (List.map_filter (to_candidate g) inputs)"]
  by (auto simp: gather_ranked_def set_filter_map)

lemma gather_ranked_covers:
  assumes "i \<in> set inputs" and "to_candidate g i = Some c"
  shows "\<exists>d \<in> set (gather_ranked g inputs). cand_key d = cand_key c \<and> priority_ge d c"
proof -
  from assms have "c \<in> set (sort_key (\<lambda>c. - uint (cand_priority c))
      (List.map_filter (to_candidate g) inputs))"
    by (force simp: set_filter_map)
  from retain_unseen_first [OF sort_by_priority this, of "[]"] show ?thesis
    by (auto simp: gather_ranked_def priority_ge_def)
qed

lemma sorted_gather_ranked: "sorted_wrt priority_ge (gather_ranked g inputs)"
  unfolding gather_ranked_def by (intro sorted_retain_unseen sort_by_priority)

lemma take_or_all_above:
  assumes "sorted_wrt P xs" and "d \<in> set xs" and "d \<notin> set (take n xs)"
  shows "length (take n xs) = n \<and> (\<forall>e \<in> set (take n xs). P e d)"
proof -
  from assms(2,3) have d: "d \<in> set (drop n xs)"
    by (metis UnE append_take_drop_id set_append)
  then have "n \<le> length xs" by (metis drop_all le_cases list.set(1) empty_iff)
  moreover have "sorted_wrt P (take n xs @ drop n xs)" using assms(1) by simp
  then have "\<forall>e \<in> set (take n xs). P e d" using d unfolding sorted_wrt_append by blast
  ultimately show ?thesis by simp
qed

text \<open>
  What a list of candidates owes to a possible candidate: one of the same transport and address
  that is at least as good, or a full list of candidates that are all at least as good.
\<close>

definition represented_in :: "Candidate list \<Rightarrow> Candidate \<Rightarrow> bool" where
  "represented_in cs c \<longleftrightarrow>
     (\<exists>d \<in> set cs. cand_key d = cand_key c \<and> priority_ge d c) \<or>
     length cs = MAX_CANDIDATES \<and> (\<forall>e \<in> set cs. priority_ge e c)"

lemma gather_represents:
  assumes "c \<in> set (List.map_filter (to_candidate g) inputs)"
  shows "represented_in (gather g inputs) c"
proof -
  from assms obtain d where
    d: "d \<in> set (gather_ranked g inputs)" "cand_key d = cand_key c" "priority_ge d c"
    unfolding set_filter_map by (blast dest: gather_ranked_covers)
  show ?thesis
  proof (cases "d \<in> set (gather g inputs)")
    case True
    with d show ?thesis by (auto simp: represented_in_def)
  next
    case False
    from take_or_all_above [OF sorted_gather_ranked d(1) False [unfolded gather_eq]] d(3) show ?thesis
      by (auto simp: represented_in_def gather_eq priority_ge_def intro: order_trans)
  qed
qed

text \<open>
  C14 (the gatherer): the gathered candidates are at most 32, in descending priority, no two for
  one transport and address; each comes from an input that is usable and allowed, stamped with
  the gatherer's generation and expiry; and every usable allowed input is represented by a
  candidate of its transport and address and at least its priority, unless the list is full of
  candidates that all have at least its priority.
\<close>

theorem gather_spec:
  "length (gather g inputs) \<le> MAX_CANDIDATES \<and>
   sorted_wrt priority_ge (gather g inputs) \<and>
   distinct (map cand_key (gather g inputs)) \<and>
   set (gather g inputs) \<subseteq> {c. \<exists>i \<in> set inputs. to_candidate g i = Some c \<and>
     is_usable_address (cand_address c) \<and> is_allowed_input g i \<and>
     cand_generation c = cg_generation g \<and> cand_expires_unix_secs c = cg_expires_unix_secs g} \<and>
   list_all (represented_in (gather g inputs)) (List.map_filter (to_candidate g) inputs)"
proof (intro conjI)
  show "length (gather g inputs) \<le> MAX_CANDIDATES" by (simp add: gather_eq)
  show "sorted_wrt priority_ge (gather g inputs)"
    using sorted_gather_ranked [of g inputs] by (simp add: gather_eq sorted_wrt_take)
  show "distinct (map cand_key (gather g inputs))"
    using retain_unseen_keys by (simp add: gather_eq gather_ranked_def take_map [symmetric])
  show "set (gather g inputs) \<subseteq> {c. \<exists>i \<in> set inputs. to_candidate g i = Some c \<and>
     is_usable_address (cand_address c) \<and> is_allowed_input g i \<and>
     cand_generation c = cg_generation g \<and> cand_expires_unix_secs c = cg_expires_unix_secs g}"
    using set_gather_ranked [of _ g inputs]
    by (fastforce simp: gather_eq to_candidate_Some_iff dest!: in_set_takeD)
  show "list_all (represented_in (gather g inputs)) (List.map_filter (to_candidate g) inputs)"
    by (simp add: list_all_iff gather_represents)
qed

end
