(* ===== verification/Nat_Mapping.thy ===== *)
theory Nat_Mapping
  imports Nat_Candidates
begin

text \<open>
  The analysis of server-observed NAT mappings (\<open>rustgo-nat/src/observation.rs\<close>), the port
  prediction built on it (\<open>predict.rs\<close>) and the attempt budget of native TCP punching
  (\<open>tcp_punch.rs\<close>, without its sockets). Rust's \<open>i16\<close> and \<open>i32\<close> values are integers with the
  range check of the conversion written out; the products in the prediction stay far inside
  \<open>i32\<close>. The theorems characterise the evidence the analysis returns, give the predicted ports in
  closed form, and bound the punching attempts.
\<close>

subsection \<open>Mapping analysis\<close>

record Observation =
  ob_destination :: SocketAddress
  ob_mapped_address :: SocketAddress

datatype MappingEvidence =
    Stable
  | DestinationPortDependent
  | Sequential int
  | Uncertain

fun same_host :: "SocketAddress \<Rightarrow> SocketAddress \<Rightarrow> bool" where
  "same_host (V4 left _) (V4 right _) = (left = right)"
| "same_host (V6 left _) (V6 right _) = (left = right)"
| "same_host _ _ = False"

fun windows2 :: "'a list \<Rightarrow> ('a \<times> 'a) list" where
  "windows2 (x # y # zs) = (x, y) # windows2 (y # zs)"
| "windows2 _ = []"

definition all_share_destination_host :: "Observation list \<Rightarrow> bool" where
  "all_share_destination_host obs \<longleftrightarrow>
     list_all (\<lambda>ob. same_host (ob_destination ob) (ob_destination (obs ! 0))) obs"

definition all_share_mapped_host :: "Observation list \<Rightarrow> bool" where
  "all_share_mapped_host obs \<longleftrightarrow>
     list_all (\<lambda>ob. same_host (ob_mapped_address ob) (ob_mapped_address (obs ! 0))) obs"

definition i16_try_from :: "int \<Rightarrow> int option" where
  "i16_try_from v = (if - 32768 \<le> v \<and> v \<le> 32767 then Some v else None)"

definition signed_port_delta :: "u16 \<Rightarrow> u16 \<Rightarrow> int option" where
  "signed_port_delta previous next_port = i16_try_from (uint next_port - uint previous)"

fun destination_port_loop ::
  "(u16 \<times> SocketAddress) list \<Rightarrow> Observation list \<Rightarrow> (u16 \<times> SocketAddress) list option" where
  "destination_port_loop mappings [] = Some mappings"
| "destination_port_loop mappings (ob # obs) =
     (let destination_port = address_port (ob_destination ob) in
      case List.find (\<lambda>(known_port, _). known_port = destination_port) mappings of
        Some (_, mapped_address) \<Rightarrow>
          if mapped_address \<noteq> ob_mapped_address ob then None
          else destination_port_loop mappings obs
      | None \<Rightarrow> destination_port_loop (mappings @ [(destination_port, ob_mapped_address ob)]) obs)"

definition destination_port_dependent :: "Observation list \<Rightarrow> bool" where
  "destination_port_dependent obs \<longleftrightarrow>
     (case destination_port_loop [] obs of
        None \<Rightarrow> False
      | Some mappings \<Rightarrow> length mappings \<ge> 2 \<and> list_ex (\<lambda>(a, b). snd a \<noteq> snd b) (windows2 mappings))"

definition sequential_delta :: "Observation list \<Rightarrow> int option" where
  "sequential_delta obs =
     (if length obs < 3 \<or> \<not> all_share_mapped_host obs then None
      else case signed_port_delta (address_port (ob_mapped_address (obs ! 0)))
                  (address_port (ob_mapped_address (obs ! 1))) of
        None \<Rightarrow> None
      | Some delta \<Rightarrow>
          if delta = 0 \<or>
             list_ex (\<lambda>(a, b). signed_port_delta (address_port (ob_mapped_address a))
               (address_port (ob_mapped_address b)) \<noteq> Some delta) (windows2 obs)
          then None else Some delta)"

definition analyze_mappings :: "Observation list \<Rightarrow> MappingEvidence" where
  "analyze_mappings obs =
     (if length obs < 2 \<or>
         list_ex (\<lambda>ob. \<not> is_usable_address (ob_destination ob) \<or>
           \<not> is_usable_address (ob_mapped_address ob)) obs \<or>
         \<not> all_share_destination_host obs \<or> \<not> all_share_mapped_host obs
      then Uncertain
      else if list_all (\<lambda>ob. ob_mapped_address ob = ob_mapped_address (obs ! 0)) obs then Stable
      else if destination_port_dependent obs then DestinationPortDependent
      else case sequential_delta obs of Some delta \<Rightarrow> Sequential delta | None \<Rightarrow> Uncertain)"

subsection \<open>Port prediction\<close>

definition MAX_PREDICTED_PORTS :: nat where "MAX_PREDICTED_PORTS = 16"

fun predict_loop :: "int \<Rightarrow> int \<Rightarrow> nat list \<Rightarrow> u16 list \<Rightarrow> u16 list" where
  "predict_loop last_port delta [] ports = ports"
| "predict_loop last_port delta (offset # offsets) ports =
     (let predicted = last_port + delta * int offset in
      if predicted < 0 \<or> predicted > 65535 then ports
      else let p = word_of_int predicted :: u16 in
        if p = 0 then ports
        else predict_loop last_port delta offsets (if List.member ports p then ports else ports @ [p]))"

definition predicted_ports :: "Observation list \<Rightarrow> nat \<Rightarrow> u16 list" where
  "predicted_ports obs requested_window =
     (case analyze_mappings obs of
        Sequential delta \<Rightarrow>
          (case obs of [] \<Rightarrow> []
           | _ # _ \<Rightarrow>
             predict_loop (uint (address_port (ob_mapped_address (last obs)))) delta
               [1 ..< Suc (min requested_window MAX_PREDICTED_PORTS)] [])
      | _ \<Rightarrow> [])"

subsection \<open>What the evidence means\<close>

lemma windows2_append1: "xs \<noteq> [] \<Longrightarrow> windows2 (xs @ [y]) = windows2 xs @ [(last xs, y)]"
  by (induction xs rule: windows2.induct) auto

lemma windows2_nth: "(\<forall>p \<in> set (windows2 xs). Q (fst p) (snd p)) \<longleftrightarrow>
  (\<forall>k. Suc k < length xs \<longrightarrow> Q (xs ! k) (xs ! Suc k))"
  by (induction xs rule: windows2.induct) (auto simp: less_Suc_eq_0_disj)

lemma arithmetic_progression:
  assumes "\<And>k. Suc k < n \<Longrightarrow> f (Suc k) = f k + (d :: int)" and "k < n"
  shows "f k = f 0 + d * int k"
  using assms(2)
proof (induction k)
  case (Suc k)
  then show ?case using assms(1) [of k] by (simp add: algebra_simps)
qed simp

definition mapped_port :: "Observation \<Rightarrow> int" where
  "mapped_port ob = uint (address_port (ob_mapped_address ob))"

definition port_progression :: "Observation list \<Rightarrow> int \<Rightarrow> bool" where
  "port_progression obs d \<longleftrightarrow> 3 \<le> length obs \<and> d \<noteq> 0 \<and> - 32768 \<le> d \<and> d \<le> 32767 \<and>
     list_all (\<lambda>k. mapped_port (obs ! k) = mapped_port (obs ! 0) + d * int k) [0 ..< length obs]"

lemma constant_steps:
  "(\<forall>p \<in> set (windows2 obs). mapped_port (snd p) = mapped_port (fst p) + d) \<longleftrightarrow>
   list_all (\<lambda>k. mapped_port (obs ! k) = mapped_port (obs ! 0) + d * int k) [0 ..< length obs]"
  (is "?W \<longleftrightarrow> ?P")
proof -
  have w: "?W \<longleftrightarrow> (\<forall>k. Suc k < length obs \<longrightarrow> mapped_port (obs ! Suc k) = mapped_port (obs ! k) + d)"
    using windows2_nth [of obs "\<lambda>a b. mapped_port b = mapped_port a + d"] by simp
  show ?thesis
  proof
    assume ?W
    then have "\<And>k. Suc k < length obs \<Longrightarrow> mapped_port (obs ! Suc k) = mapped_port (obs ! k) + d"
      using w by simp
    from arithmetic_progression [where f = "\<lambda>k. mapped_port (obs ! k)", OF this] show ?P
      by (simp add: list_all_iff)
  next
    assume ?P
    then have at: "k < length obs \<Longrightarrow> mapped_port (obs ! k) = mapped_port (obs ! 0) + d * int k" for k
      by (simp add: list_all_iff)
    have "Suc k < length obs \<Longrightarrow> mapped_port (obs ! Suc k) = mapped_port (obs ! k) + d" for k
      using at [of k] at [of "Suc k"] by (simp add: algebra_simps)
    then show ?W using w by simp
  qed
qed

lemma signed_port_delta_iff:
  "signed_port_delta (address_port (ob_mapped_address a)) (address_port (ob_mapped_address b)) = Some d \<longleftrightarrow>
     - 32768 \<le> d \<and> d \<le> 32767 \<and> mapped_port b = mapped_port a + d"
  by (auto simp: signed_port_delta_def i16_try_from_def mapped_port_def)

lemma sequential_delta_iff:
  assumes "all_share_mapped_host obs"
  shows "sequential_delta obs = Some d \<longleftrightarrow> port_progression obs d"
proof -
  have "sequential_delta obs = Some d \<longleftrightarrow> 3 \<le> length obs \<and> d \<noteq> 0 \<and>
      signed_port_delta (address_port (ob_mapped_address (obs ! 0)))
        (address_port (ob_mapped_address (obs ! 1))) = Some d \<and>
      (\<forall>p \<in> set (windows2 obs). signed_port_delta (address_port (ob_mapped_address (fst p)))
        (address_port (ob_mapped_address (snd p))) = Some d)"
    using assms
    by (cases "signed_port_delta (address_port (ob_mapped_address (obs ! 0)))
        (address_port (ob_mapped_address (obs ! 1)))")
      (simp_all add: sequential_delta_def list_ex_iff split_def not_less, blast)
  also have "\<dots> \<longleftrightarrow> port_progression obs d"
  proof (cases "3 \<le> length obs")
    case True
    then obtain x y zs where obs: "obs = x # y # zs"
      by (metis (no_types) One_nat_def Suc_le_length_iff numeral_3_eq_3)
    show ?thesis
      unfolding signed_port_delta_iff port_progression_def constant_steps [symmetric] using True
      by (auto simp: obs)
  qed (simp add: port_progression_def)
  finally show ?thesis .
qed

text \<open>The loop succeeds exactly when the mapped address is a function of the destination port.\<close>

definition ob_pair :: "Observation \<Rightarrow> u16 \<times> SocketAddress" where
  "ob_pair ob = (address_port (ob_destination ob), ob_mapped_address ob)"

definition port_functional :: "(u16 \<times> SocketAddress) set \<Rightarrow> bool" where
  "port_functional S \<longleftrightarrow> (\<forall>a \<in> S. \<forall>b \<in> S. fst a = fst b \<longrightarrow> a = b)"

lemma find_port_None:
  "List.find (\<lambda>(known_port, _). known_port = p) ms = None \<longleftrightarrow> p \<notin> fst ` set ms"
  by (force simp: find_None_iff)

lemma find_port_Some:
  "List.find (\<lambda>(known_port, _). known_port = p) ms = Some (q, a) \<Longrightarrow> q = p \<and> (p, a) \<in> set ms"
  by (auto simp: find_Some_iff) (metis nth_mem)

lemma destination_port_loop_set:
  "port_functional (set ms) \<Longrightarrow>
   (case destination_port_loop ms obs of
      None \<Rightarrow> \<not> port_functional (set ms \<union> ob_pair ` set obs)
    | Some ms' \<Rightarrow> set ms' = set ms \<union> ob_pair ` set obs \<and>
        port_functional (set ms \<union> ob_pair ` set obs))"
proof (induction obs arbitrary: ms)
  case Nil
  then show ?case by simp
next
  case (Cons ob obs)
  let ?p = "address_port (ob_destination ob)"
  show ?case
  proof (cases "List.find (\<lambda>(known_port, _). known_port = ?p) ms")
    case None
    then have "?p \<notin> fst ` set ms" by (simp add: find_port_None)
    with Cons.prems have "port_functional (set (ms @ [ob_pair ob]))"
      by (force simp: port_functional_def ob_pair_def)
    from Cons.IH [OF this] None show ?thesis
      by (simp add: ob_pair_def split: option.splits)
  next
    case (Some qa)
    obtain q a where qa: "qa = (q, a)" by (cases qa)
    with Some have known: "(?p, a) \<in> set ms" using find_port_Some [of ?p ms q a] by simp
    show ?thesis
    proof (cases "a = ob_mapped_address ob")
      case True
      with known have eq: "set ms \<union> ob_pair ` set (ob # obs) = set ms \<union> ob_pair ` set obs"
        by (auto simp: ob_pair_def)
      show ?thesis unfolding eq using Cons.IH [OF Cons.prems] True Some qa by simp
    next
      case False
      have "\<not> port_functional (set ms \<union> ob_pair ` set (ob # obs))"
      proof
        assume "port_functional (set ms \<union> ob_pair ` set (ob # obs))"
        moreover have "(?p, a) \<in> set ms \<union> ob_pair ` set (ob # obs)" using known by simp
        moreover have "ob_pair ob \<in> set ms \<union> ob_pair ` set (ob # obs)" by simp
        ultimately have "(?p, a) = ob_pair ob"
          unfolding port_functional_def by (metis fst_conv ob_pair_def)
        with False show "False" by (simp add: ob_pair_def)
      qed
      with Some qa False show ?thesis by simp
    qed
  qed
qed

lemma windows2_all_eq:
  "list_ex (\<lambda>(a, b). f a \<noteq> f b) (windows2 xs) \<longleftrightarrow> (\<exists>a \<in> set xs. \<exists>b \<in> set xs. f a \<noteq> f b)"
proof (induction xs rule: windows2.induct)
  case (1 x y zs)
  show ?case
  proof (cases "f x = f y")
    case True
    with 1 show ?thesis by auto
  qed auto
qed auto

text \<open>The set of mapped addresses seen, and whether the destination port determines them.\<close>

definition depends_on_port :: "Observation list \<Rightarrow> bool" where
  "depends_on_port obs \<longleftrightarrow> port_functional (ob_pair ` set obs)"

lemma destination_port_dependent_iff:
  "destination_port_dependent obs \<longleftrightarrow>
     depends_on_port obs \<and> (\<exists>a \<in> set obs. \<exists>b \<in> set obs. ob_mapped_address a \<noteq> ob_mapped_address b)"
proof -
  have "port_functional (set [])" by (simp add: port_functional_def)
  note loop = destination_port_loop_set [OF this, of obs]
  show ?thesis
  proof (cases "destination_port_loop [] obs")
    case None
    with loop show ?thesis by (simp add: destination_port_dependent_def depends_on_port_def)
  next
    case (Some ms)
    with loop have ms: "set ms = ob_pair ` set obs" "port_functional (ob_pair ` set obs)"
      by simp_all
    have two: "(\<exists>a \<in> set ms. \<exists>b \<in> set ms. snd a \<noteq> snd b) \<Longrightarrow> 2 \<le> length ms"
      by (cases ms; cases "tl ms") auto
    have "(\<exists>a \<in> set ms. \<exists>b \<in> set ms. snd a \<noteq> snd b) \<longleftrightarrow>
        (\<exists>a \<in> set obs. \<exists>b \<in> set obs. ob_mapped_address a \<noteq> ob_mapped_address b)"
      by (simp add: ms(1) ob_pair_def)
    moreover have "depends_on_port obs" using ms by (simp add: depends_on_port_def)
    ultimately show ?thesis
      using two Some by (auto simp: destination_port_dependent_def windows2_all_eq)
  qed
qed

definition comparable :: "Observation list \<Rightarrow> bool" where
  "comparable obs \<longleftrightarrow> 2 \<le> length obs \<and>
     list_all (\<lambda>ob. is_usable_address (ob_destination ob) \<and> is_usable_address (ob_mapped_address ob)) obs \<and>
     all_share_destination_host obs \<and> all_share_mapped_host obs"

definition one_mapping :: "Observation list \<Rightarrow> bool" where
  "one_mapping obs \<longleftrightarrow> list_all (\<lambda>ob. ob_mapped_address ob = ob_mapped_address (obs ! 0)) obs"

lemma analyze_mappings_cases:
  "analyze_mappings obs =
     (if \<not> comparable obs then Uncertain
      else if one_mapping obs then Stable
      else if destination_port_dependent obs then DestinationPortDependent
      else case sequential_delta obs of Some delta \<Rightarrow> Sequential delta | None \<Rightarrow> Uncertain)"
proof -
  have "(length obs < 2 \<or>
      list_ex (\<lambda>ob. \<not> is_usable_address (ob_destination ob) \<or> \<not> is_usable_address (ob_mapped_address ob)) obs \<or>
      \<not> all_share_destination_host obs \<or> \<not> all_share_mapped_host obs) \<longleftrightarrow> \<not> comparable obs"
    by (auto simp: comparable_def list_ex_iff list_all_iff)
  then show ?thesis unfolding analyze_mappings_def one_mapping_def by simp
qed

lemma destination_port_evidence:
  "\<not> one_mapping obs \<Longrightarrow> destination_port_dependent obs = depends_on_port obs"
proof -
  assume "\<not> one_mapping obs"
  then obtain ob where "ob \<in> set obs" "ob_mapped_address ob \<noteq> ob_mapped_address (obs ! 0)"
    by (auto simp: one_mapping_def list_all_iff)
  moreover from this have "obs ! 0 \<in> set obs" by (cases obs) auto
  ultimately show ?thesis by (auto simp: destination_port_dependent_iff)
qed

lemma sequential_evidence: "analyze_mappings obs = Sequential d \<Longrightarrow> port_progression obs d"
  by (auto simp: analyze_mappings_cases sequential_delta_iff comparable_def
      split: if_splits option.splits)

text \<open>
  Evidence: the verdict is exactly the following. Observations that are fewer than two, use an
  unusable address or mix hosts are uncertain. Otherwise the mapping is stable when all observations
  show one mapped address; it depends on the destination port when the mapped address is a function
  of the port; it is sequential with step \<open>d\<close> when neither holds and at least three mapped ports form
  an arithmetic progression with a nonzero step in the range of \<open>i16\<close>; else it is uncertain.
\<close>

theorem analyze_mappings_spec:
  "analyze_mappings obs = e \<longleftrightarrow>
     (if \<not> comparable obs then e = Uncertain
      else if one_mapping obs then e = Stable
      else if depends_on_port obs then e = DestinationPortDependent
      else case e of
          Sequential d \<Rightarrow> port_progression obs d
        | Uncertain \<Rightarrow> (\<nexists>d. port_progression obs d)
        | _ \<Rightarrow> False)"
proof (cases "comparable obs \<and> \<not> one_mapping obs \<and> \<not> depends_on_port obs")
  case True
  then have host: "all_share_mapped_host obs" by (simp add: comparable_def)
  from True have "analyze_mappings obs =
      (case sequential_delta obs of Some delta \<Rightarrow> Sequential delta | None \<Rightarrow> Uncertain)"
    by (simp add: analyze_mappings_cases destination_port_evidence)
  moreover have "sequential_delta obs = None \<longleftrightarrow> (\<nexists>d. port_progression obs d)"
    by (auto simp: sequential_delta_iff [OF host, symmetric])
  ultimately show ?thesis
    using True by (cases e) (auto simp: sequential_delta_iff [OF host, symmetric] split: option.splits)
next
  case False
  then show ?thesis by (auto simp: analyze_mappings_cases destination_port_evidence)
qed

subsection \<open>Predicted ports in closed form\<close>

definition valid_port :: "int \<Rightarrow> bool" where
  "valid_port p \<longleftrightarrow> 0 < p \<and> p \<le> 65535"

lemma uint_port: "0 \<le> p \<Longrightarrow> p \<le> 65535 \<Longrightarrow> uint (word_of_int p :: u16) = p"
  by (simp add: uint_word_of_int)

lemma predict_loop_closed:
  assumes "d \<noteq> 0" and "distinct offsets"
    and "\<forall>k \<in> set offsets. base + d * int k \<notin> uint ` set ports"
  shows "map uint (predict_loop base d offsets ports) =
    map uint ports @ takeWhile valid_port (map (\<lambda>k. base + d * int k) offsets)"
  using assms(2,3)
proof (induction offsets arbitrary: ports)
  case Nil
  then show ?case by simp
next
  case (Cons k ks)
  obtain p where p: "base + d * int k = p" by blast
  show ?case
  proof (cases "valid_port p")
    case False
    then have "p < 0 \<or> p > 65535 \<or> p = 0" by (auto simp: valid_port_def)
    then have "predict_loop base d (k # ks) ports = ports" by (elim disjE) (simp_all add: Let_def p)
    with False show ?thesis by (simp add: p)
  next
    case True
    then have u: "uint (word_of_int p :: u16) = p" by (intro uint_port) (simp_all add: valid_port_def)
    have nz: "(word_of_int p :: u16) \<noteq> 0"
    proof
      assume "(word_of_int p :: u16) = 0"
      then have "uint (word_of_int p :: u16) = 0" by (simp only: unsigned_0)
      with u True show False by (simp add: valid_port_def)
    qed
    have new: "(word_of_int p :: u16) \<notin> set ports"
      using Cons.prems(2) u p by force
    have "base + d * int j \<noteq> p" if "j \<in> set ks" for j
      using that Cons.prems(1) assms(1) p by auto
    then have "map uint (predict_loop base d ks (ports @ [word_of_int p])) =
        map uint (ports @ [word_of_int p]) @ takeWhile valid_port (map (\<lambda>k. base + d * int k) ks)"
      using Cons.prems u by (intro Cons.IH) auto
    moreover have "predict_loop base d (k # ks) ports = predict_loop base d ks (ports @ [word_of_int p])"
      using True nz new by (simp add: Let_def p valid_port_def List.member_iff)
    ultimately show ?thesis using True u by (simp add: p)
  qed
qed

text \<open>
  Prediction: on sequential evidence with step \<open>d\<close> the predicted ports are the next ports of
  the progression after the last observed one, \<open>last + d\<close>, \<open>last + 2d\<close> and so on, up to the
  requested window clamped to sixteen and cut at the first value that is not a port; on any other
  evidence there is no prediction. So no port is predicted twice, none is zero, and no value wraps.
\<close>

theorem predicted_ports_closed:
  "map uint (predicted_ports obs w) =
     (case analyze_mappings obs of
        Sequential d \<Rightarrow> takeWhile valid_port
          (map (\<lambda>k. mapped_port (last obs) + d * int k) [1 ..< Suc (min w 16)])
      | _ \<Rightarrow> []) \<and>
   length (predicted_ports obs w) \<le> 16"
proof (cases "analyze_mappings obs")
  case (Sequential d)
  from sequential_evidence [OF this] have "d \<noteq> 0" and "obs \<noteq> []"
    by (auto simp: port_progression_def)
  then obtain ob rest where obs: "obs = ob # rest" by (cases obs) auto
  have eq: "map uint (predicted_ports obs w) = takeWhile valid_port
      (map (\<lambda>k. mapped_port (last obs) + d * int k) [1 ..< Suc (min w 16)])"
    using Sequential predict_loop_closed [OF \<open>d \<noteq> 0\<close> distinct_upt,
        where base = "mapped_port (last obs)" and ports = "[]"]
    by (simp add: predicted_ports_def mapped_port_def MAX_PREDICTED_PORTS_def obs del: upt_Suc)
  have "length (predicted_ports obs w) = length (map uint (predicted_ports obs w))" by simp
  also have "\<dots> \<le> length (map (\<lambda>k. mapped_port (last obs) + d * int k) [1 ..< Suc (min w 16)])"
    unfolding eq by (rule length_takeWhile_le)
  finally show ?thesis using eq Sequential by (simp del: upt_Suc)
qed (simp_all add: predicted_ports_def)

subsection \<open>Native TCP punching: validation and the attempt budget\<close>

text \<open>\<open>std::net::SocketAddr\<close>: an IPv6 socket address also has a flow label and a scope.\<close>

datatype SocketAddr =
    SocketAddrV4 bytes u16
  | SocketAddrV6 bytes u16 u32 u32

fun is_ipv4 :: "SocketAddr \<Rightarrow> bool" where
  "is_ipv4 (SocketAddrV4 _ _) = True"
| "is_ipv4 (SocketAddrV6 _ _ _ _) = False"

definition MAX_TCP_PUNCH_CANDIDATES :: nat where "MAX_TCP_PUNCH_CANDIDATES = 8"

datatype TcpPunchMode = PunchUnion | ListenerOnly | OutboundOnly

datatype TcpPunchError =
    InvalidCandidates
  | TooManyCandidates
  | PunchCancelled
  | PunchDeadline
  | ConnectFailed
  | BindFailed

definition validate_candidates :: "SocketAddr \<Rightarrow> SocketAddr list \<Rightarrow> (TcpPunchError, unit) result" where
  "validate_candidates local candidates =
     (if candidates = [] then Inl InvalidCandidates
      else if length candidates > MAX_TCP_PUNCH_CANDIDATES then Inl TooManyCandidates
      else if list_ex (\<lambda>remote. is_ipv4 remote \<noteq> is_ipv4 local) candidates then Inl InvalidCandidates
      else Inr ())"

definition reserve_attempt :: "nat \<Rightarrow> (unit, nat) result" where
  "reserve_attempt value = (if value < MAX_TCP_PUNCH_CANDIDATES then Inr (value + 1) else Inl ())"

fun outbound_limit :: "TcpPunchMode \<Rightarrow> nat" where
  "outbound_limit PunchUnion = 7"
| "outbound_limit ListenerOnly = 0"
| "outbound_limit OutboundOnly = 8"

text \<open>
  The owner task of \<open>candidates_with_mode\<close>: the listener task accepts connections and the outbound
  loop spawns connection attempts; both draw on the shared counter. Its steps interleave freely.
  \<open>tp_listening\<close> and \<open>tp_outbound\<close> say what is still to be done; a stream received from the
  listener and an outbound attempt spawned are recorded in order. Send failures and cancellation
  only stop a task and are the steps \<open>StopListening\<close> and \<open>StopOutbound\<close>.
\<close>

record PunchState =
  tp_total :: nat
  tp_listening :: bool
  tp_outbound :: "SocketAddr list"
  tp_accepted :: "SocketAddr list"
  tp_spawned :: "SocketAddr list"

definition punch_start :: "TcpPunchMode \<Rightarrow> SocketAddr list \<Rightarrow> PunchState" where
  "punch_start mode candidates =
     \<lparr>tp_total = 0, tp_listening = (mode \<noteq> OutboundOnly),
      tp_outbound = take (outbound_limit mode) candidates, tp_accepted = [], tp_spawned = []\<rparr>"

definition accept_remote :: "SocketAddr list \<Rightarrow> PunchState \<Rightarrow> SocketAddr \<Rightarrow> PunchState" where
  "accept_remote candidates s remote =
     (if \<not> List.member candidates remote then s
      else case reserve_attempt (tp_total s) of
        Inl _ \<Rightarrow> s\<lparr>tp_listening := False\<rparr>
      | Inr reserved \<Rightarrow> s\<lparr>tp_total := reserved, tp_accepted := tp_accepted s @ [remote]\<rparr>)"

definition spawn_outbound :: "PunchState \<Rightarrow> PunchState" where
  "spawn_outbound s =
     (case tp_outbound s of
        [] \<Rightarrow> s
      | remote # rest \<Rightarrow>
          (case reserve_attempt (tp_total s) of
             Inl _ \<Rightarrow> s\<lparr>tp_outbound := []\<rparr>
           | Inr reserved \<Rightarrow> s\<lparr>tp_total := reserved, tp_outbound := rest,
               tp_spawned := tp_spawned s @ [remote]\<rparr>))"

inductive punch_step :: "SocketAddr list \<Rightarrow> PunchState \<Rightarrow> PunchState \<Rightarrow> bool"
  for candidates :: "SocketAddr list" where
  Accept: "tp_listening s \<Longrightarrow> punch_step candidates s (accept_remote candidates s remote)"
| Outbound: "tp_outbound s \<noteq> [] \<Longrightarrow> punch_step candidates s (spawn_outbound s)"
| StopListening: "punch_step candidates s (s\<lparr>tp_listening := False\<rparr>)"
| StopOutbound: "punch_step candidates s (s\<lparr>tp_outbound := []\<rparr>)"

inductive punch_reachable :: "TcpPunchMode \<Rightarrow> SocketAddr list \<Rightarrow> PunchState \<Rightarrow> bool"
  for mode :: TcpPunchMode and candidates :: "SocketAddr list" where
  Start: "punch_reachable mode candidates (punch_start mode candidates)"
| Step: "punch_reachable mode candidates s \<Longrightarrow> punch_step candidates s t \<Longrightarrow>
    punch_reachable mode candidates t"

definition punch_inv :: "TcpPunchMode \<Rightarrow> SocketAddr list \<Rightarrow> PunchState \<Rightarrow> bool" where
  "punch_inv mode candidates s \<longleftrightarrow>
     tp_total s = length (tp_accepted s) + length (tp_spawned s) \<and>
     tp_total s \<le> MAX_TCP_PUNCH_CANDIDATES \<and>
     set (tp_accepted s) \<subseteq> set candidates \<and>
     (\<exists>rest. tp_spawned s @ tp_outbound s @ rest = take (outbound_limit mode) candidates) \<and>
     (mode = OutboundOnly \<longrightarrow> \<not> tp_listening s \<and> tp_accepted s = [])"

lemma punch_inv_start: "punch_inv mode candidates (punch_start mode candidates)"
  by (simp add: punch_inv_def punch_start_def)

lemma punch_inv_accept:
  "punch_inv mode candidates s \<Longrightarrow> tp_listening s \<Longrightarrow> punch_inv mode candidates (accept_remote candidates s r)"
  by (auto simp: punch_inv_def accept_remote_def reserve_attempt_def List.member_iff)

lemma punch_inv_outbound:
  "punch_inv mode candidates s \<Longrightarrow> punch_inv mode candidates (spawn_outbound s)"
  by (auto simp: punch_inv_def spawn_outbound_def reserve_attempt_def split: list.splits)

lemma punch_inv_step:
  assumes "punch_step candidates s t" and "punch_inv mode candidates s"
  shows "punch_inv mode candidates t"
  using assms
proof cases
  case (Accept remote)
  then show ?thesis using assms(2) by (simp add: punch_inv_accept)
next
  case Outbound
  then show ?thesis using assms(2) by (simp add: punch_inv_outbound)
qed (use assms(2) in \<open>auto simp: punch_inv_def\<close>)

lemma punch_inv_reachable: "punch_reachable mode candidates s \<Longrightarrow> punch_inv mode candidates s"
  by (induction rule: punch_reachable.induct) (auto intro: punch_inv_start punch_inv_step)

text \<open>
  Punching budget: however the listener and the outbound loop interleave, at most eight
  connections are accepted or attempted, every accepted one is from a listed candidate, the
  attempts are a prefix of the candidates cut at the mode's limit, and in union mode the listener
  keeps a slot: while it has accepted nothing, a connection from a listed candidate is taken.
\<close>

theorem punch_budget:
  assumes "punch_reachable mode candidates s"
  shows "length (tp_accepted s) + length (tp_spawned s) \<le> MAX_TCP_PUNCH_CANDIDATES \<and>
    set (tp_accepted s) \<subseteq> set candidates \<and>
    (\<exists>rest. tp_spawned s @ rest = take (outbound_limit mode) candidates) \<and>
    (mode = PunchUnion \<and> tp_accepted s = [] \<and> remote \<in> set candidates \<longrightarrow>
       tp_accepted (accept_remote candidates s remote) = [remote])"
proof -
  note inv = punch_inv_reachable [OF assms]
  then obtain rest where rest: "tp_spawned s @ tp_outbound s @ rest = take (outbound_limit mode) candidates"
    by (auto simp: punch_inv_def)
  then have "length (tp_spawned s) \<le> outbound_limit mode"
    by (metis length_append length_take le_add1 le_trans min.cobounded2)
  then have "tp_accepted (accept_remote candidates s remote) = [remote]"
    if "mode = PunchUnion" "tp_accepted s = []" "remote \<in> set candidates"
    using that inv
    by (simp add: accept_remote_def reserve_attempt_def punch_inv_def List.member_iff
        MAX_TCP_PUNCH_CANDIDATES_def)
  with inv rest show ?thesis by (auto simp: punch_inv_def)
qed

theorem punch_budget_witness:
  "tp_accepted (accept_remote [SocketAddrV4 [192, 0, 2, 7] 9000]
      (spawn_outbound (punch_start PunchUnion [SocketAddrV4 [192, 0, 2, 7] 9000]))
      (SocketAddrV4 [192, 0, 2, 7] 9000)) = [SocketAddrV4 [192, 0, 2, 7] 9000]"
proof -
  let ?c = "[SocketAddrV4 [192, 0, 2, 7] 9000]"
  have "punch_reachable PunchUnion ?c (spawn_outbound (punch_start PunchUnion ?c))"
    by (rule punch_reachable.Step [OF punch_reachable.Start punch_step.Outbound])
      (simp add: punch_start_def)
  from punch_budget [OF this, of "SocketAddrV4 [192, 0, 2, 7] 9000"] show ?thesis
    by (simp add: spawn_outbound_def punch_start_def reserve_attempt_def
        MAX_TCP_PUNCH_CANDIDATES_def)
qed

end
