(* ===== verification/Path_Manager.thy ===== *)
theory Path_Manager
  imports State_Machine
begin

text \<open>
  Authenticated peer path selection (\<open>rustgo-path/src/state.rs\<close>, \<open>lib.rs\<close>, \<open>health.rs\<close>). The
  manager's record is guarded by one mutex; every critical section of the source is one function
  here, and the asynchronous code is any sequence of them (\<open>path_op\<close>), so the invariants hold for
  every interleaving. Cancellation tokens are numbers, with the set of cancelled ones kept in the
  state; a path's opaque handle is identified with its token. \<open>connect_with_recheck\<close> and
  \<open>report_failed_with_recheck\<close> are also given as whole handlers, with the outcome of the race as
  a parameter.
\<close>

subsection \<open>States and events\<close>

datatype PathState = Discovering | Checking | Direct | RelayState | Rechecking | Closed

datatype PathKind = QuicV6 | QuicV4 | NativeTcpPath | RelayPath

definition is_direct :: "PathKind \<Rightarrow> bool" where
  "is_direct kind \<longleftrightarrow> kind \<noteq> RelayPath"

datatype PathEvent =
    StateChanged PathState PathState
  | AttemptStarted PathKind
  | AttemptFailedEvent PathKind
  | Selected PathKind
  | RelayFallback
  | RecheckStarted
  | RecheckScheduled
  | Promoted PathKind
  | ClosedEvent

datatype PathError =
    IllegalTransition PathState PathState
  | InvalidConfiguration
  | AttemptFailed PathKind
  | AttemptTimedOut PathKind
  | AttemptTaskFailed
  | NoViablePath
  | Cancelled

fun legal_transition :: "PathState \<Rightarrow> PathState \<Rightarrow> bool" where
  "legal_transition Discovering next = (next = Checking \<or> next = Closed)"
| "legal_transition Checking next = (next = Direct \<or> next = RelayState \<or> next = Closed)"
| "legal_transition Direct next = (next = Rechecking \<or> next = Closed)"
| "legal_transition RelayState next = (next = Rechecking \<or> next = Closed)"
| "legal_transition Rechecking next = (next = Direct \<or> next = RelayState \<or> next = Closed)"
| "legal_transition Closed next = False"

definition PathStateMachine_transition :: "PathState \<Rightarrow> PathState \<Rightarrow> (PathError, PathState) result" where
  "PathStateMachine_transition current next =
     (if \<not> legal_transition current next then Inl (IllegalTransition current next) else Inr next)"

interpretation path_machine: terminal_machine PathStateMachine_transition "\<lambda>s. s = Closed"
  by unfold_locales (simp add: PathStateMachine_transition_def)

subsection \<open>Timing configuration\<close>

text \<open>Durations are nanoseconds.\<close>

record PathManagerConfig =
  pc_direct_timeout :: nat
  pc_relay_grace :: nat
  pc_attempt_timeout :: nat
  pc_recheck_interval :: nat

definition PathManagerConfig_new :: "nat \<Rightarrow> nat \<Rightarrow> nat \<Rightarrow> nat \<Rightarrow> (PathError, PathManagerConfig) result" where
  "PathManagerConfig_new direct_timeout relay_grace attempt_timeout recheck_interval =
     (if direct_timeout = 0 \<or> relay_grace = 0 \<or> relay_grace \<ge> direct_timeout \<or>
         attempt_timeout = 0 \<or> recheck_interval = 0
      then Inl InvalidConfiguration
      else Inr \<lparr>pc_direct_timeout = direct_timeout, pc_relay_grace = relay_grace,
        pc_attempt_timeout = attempt_timeout, pc_recheck_interval = recheck_interval\<rparr>)"

subsection \<open>The manager's record\<close>

definition MAX_RECORDED_EVENTS :: nat where "MAX_RECORDED_EVENTS = 256"

record OwnedSelected =
  os_kind :: PathKind
  os_token :: nat

record OwnedRecheck =
  or_id :: u64
  or_token :: nat

record ManagerRecord =
  mr_state :: PathState
  mr_selected :: "OwnedSelected option"
  mr_recheck :: "OwnedRecheck option"
  mr_next_recheck_id :: u64
  mr_active_operations :: nat
  mr_events :: "PathEvent list"

record ManagerInner =
  mi_record :: ManagerRecord
  mi_lifetime_cancelled :: bool
  mi_cancelled :: "nat list"

definition PathManager_new :: ManagerInner where
  "PathManager_new =
     \<lparr>mi_record = \<lparr>mr_state = Discovering, mr_selected = None, mr_recheck = None,
        mr_next_recheck_id = 1, mr_active_operations = 0, mr_events = []\<rparr>,
      mi_lifetime_cancelled = False, mi_cancelled = []\<rparr>"

definition push_event :: "ManagerRecord \<Rightarrow> PathEvent \<Rightarrow> ManagerRecord" where
  "push_event self event =
     (let kept = (if length (mr_events self) = MAX_RECORDED_EVENTS then tl (mr_events self)
                  else mr_events self)
      in self\<lparr>mr_events := kept @ [event]\<rparr>)"

definition record_transition :: "ManagerRecord \<Rightarrow> PathState \<Rightarrow> (PathError, ManagerRecord) result" where
  "record_transition self next =
     (let before = mr_state self in
      and_then (PathStateMachine_transition (mr_state self) next) (\<lambda>now.
        Inr (push_event (self\<lparr>mr_state := now\<rparr>) (StateChanged before next))))"

definition cancel_tokens :: "nat list \<Rightarrow> ManagerInner \<Rightarrow> ManagerInner" where
  "cancel_tokens ts inner = inner\<lparr>mi_cancelled := ts @ mi_cancelled inner\<rparr>"

definition owned_tokens :: "ManagerRecord \<Rightarrow> nat list" where
  "owned_tokens record =
     (case mr_selected record of None \<Rightarrow> [] | Some s \<Rightarrow> [os_token s]) @
     (case mr_recheck record of None \<Rightarrow> [] | Some r \<Rightarrow> [or_token r])"

definition record_event :: "ManagerInner \<Rightarrow> PathEvent \<Rightarrow> ManagerInner" where
  "record_event inner event =
     (if mr_state (mi_record inner) \<noteq> Closed
      then inner\<lparr>mi_record := push_event (mi_record inner) event\<rparr> else inner)"

definition begin_operation :: "ManagerInner \<Rightarrow> PathState \<Rightarrow> (PathError, ManagerInner) result" where
  "begin_operation inner next =
     and_then (record_transition (mi_record inner) next) (\<lambda>record.
       Inr (inner\<lparr>mi_record := record\<lparr>mr_active_operations := mr_active_operations record + 1\<rparr>\<rparr>))"

text \<open>
  \<open>begin_failure\<close> takes the selected path and the background recheck out of the record and cancels
  both; the caller then shuts them down, which cancels the same tokens again.
\<close>

definition begin_failure :: "ManagerInner \<Rightarrow> (PathError, ManagerInner) result" where
  "begin_failure inner =
     and_then (record_transition (mi_record inner) Rechecking) (\<lambda>record.
       Inr (cancel_tokens (owned_tokens record)
         (inner\<lparr>mi_record := record\<lparr>mr_active_operations := mr_active_operations record + 1,
            mr_selected := None, mr_recheck := None\<rparr>\<rparr>)))"

definition close_atomic :: "ManagerInner \<Rightarrow> (PathError, ManagerInner) result" where
  "close_atomic inner =
     and_then
       (if mr_state (mi_record inner) \<noteq> Closed
        then and_then (record_transition (mi_record inner) Closed) (\<lambda>record.
          Inr (push_event record ClosedEvent))
        else Inr (mi_record inner))
       (\<lambda>record. Inr (cancel_tokens (owned_tokens record)
          (inner\<lparr>mi_record := record\<lparr>mr_selected := None, mr_recheck := None\<rparr>\<rparr>)))"

text \<open>
  \<open>close\<close>: the atomic part, then the lifetime token, which is the parent of every other token.
  The wait for running operations that follows changes nothing.
\<close>

definition close_manager :: "ManagerInner \<Rightarrow> (PathError, ManagerInner) result" where
  "close_manager inner =
     and_then (close_atomic inner) (\<lambda>inner'. Inr (inner'\<lparr>mi_lifetime_cancelled := True\<rparr>))"

definition begin_background_recheck :: "ManagerInner \<Rightarrow> u64 \<Rightarrow> bool \<times> ManagerInner" where
  "begin_background_recheck inner rid =
     (let record = mi_record inner in
      if map_option or_id (mr_recheck record) \<noteq> Some rid \<or> mr_state record \<noteq> RelayState
      then (False, inner)
      else case record_transition record Rechecking of
        Inl _ \<Rightarrow> (False, inner)
      | Inr record' \<Rightarrow> (True, inner\<lparr>mi_record := push_event record' RecheckStarted\<rparr>))"

definition finish_failed_recheck :: "ManagerInner \<Rightarrow> u64 \<Rightarrow> bool \<times> ManagerInner" where
  "finish_failed_recheck inner rid =
     (let record = mi_record inner in
      if map_option or_id (mr_recheck record) \<noteq> Some rid \<or> mr_state record \<noteq> Rechecking
      then (False, inner)
      else case record_transition record RelayState of
        Inl _ \<Rightarrow> (False, inner)
      | Inr record' \<Rightarrow> (True, inner\<lparr>mi_record := push_event record' RecheckScheduled\<rparr>))"

definition release_operation :: "ManagerInner \<Rightarrow> ManagerInner" where
  "release_operation inner =
     (let record = mi_record inner in
      inner\<lparr>mi_record := record\<lparr>mr_active_operations := saturating_sub (mr_active_operations record) 1\<rparr>\<rparr>)"

definition finish_operation :: "ManagerInner \<Rightarrow> PathState \<Rightarrow> bool \<times> ManagerInner" where
  "finish_operation inner expected =
     (mr_state (mi_record inner) = expected, release_operation inner)"

definition state_of_kind :: "PathKind \<Rightarrow> PathState" where
  "state_of_kind kind = (if is_direct kind then Direct else RelayState)"

text \<open>
  \<open>install_winner\<close>: a winner that cannot be installed is shut down; a displaced path is shut down
  after the new one is in place.
\<close>

definition install_winner ::
  "ManagerInner \<Rightarrow> PathState \<Rightarrow> u64 option \<Rightarrow> OwnedSelected \<Rightarrow> bool
     \<Rightarrow> (PathError, PathKind) result \<times> ManagerInner" where
  "install_winner inner expected recheck_id winner caller_cancelled =
     (if caller_cancelled \<or> mi_lifetime_cancelled inner
      then (Inl Cancelled, cancel_tokens [os_token winner] inner)
      else
        let record = mi_record inner;
            next = state_of_kind (os_kind winner);
            id_matches = (case recheck_id of None \<Rightarrow> True
              | Some rid \<Rightarrow> map_option or_id (mr_recheck record) = Some rid);
            refused = (Inl (if mr_state record = Closed then Cancelled
                else IllegalTransition (mr_state record) next),
              cancel_tokens [os_token winner] inner)
        in if mr_state record \<noteq> expected \<or> \<not> id_matches then refused
           else case record_transition record next of
             Inl _ \<Rightarrow> refused
           | Inr record' \<Rightarrow>
               let displaced = (case mr_selected record' of None \<Rightarrow> [] | Some d \<Rightarrow> [os_token d]);
                   selected = push_event (record'\<lparr>mr_selected := Some winner\<rparr>) (Selected (os_kind winner));
                   logged = (if next = RelayState then push_event selected RelayFallback
                     else if recheck_id \<noteq> None then push_event selected (Promoted (os_kind winner))
                     else selected)
               in (Inr (os_kind winner), cancel_tokens displaced (inner\<lparr>mi_record := logged\<rparr>)))"

text \<open>
  One pass of \<open>start_recheck\<close>: it is repeated only after a finished recheck was taken out. Whether
  the old task has finished and the token of a new one are given by the runtime.
\<close>

definition start_recheck_pass :: "ManagerInner \<Rightarrow> bool \<Rightarrow> nat \<Rightarrow> bool \<times> ManagerInner" where
  "start_recheck_pass inner finished token =
     (let record = mi_record inner in
      if mr_state record \<noteq> RelayState then (False, inner)
      else case mr_recheck record of
        Some recheck \<Rightarrow>
          if \<not> finished then (False, inner)
          else (True, cancel_tokens [or_token recheck] (inner\<lparr>mi_record := record\<lparr>mr_recheck := None\<rparr>\<rparr>))
      | None \<Rightarrow>
          let rid = mr_next_recheck_id record in
          (False, inner\<lparr>mi_record := record\<lparr>mr_next_recheck_id := max (rid + 1) 1,
             mr_recheck := Some \<lparr>or_id = rid, or_token = token\<rparr>\<rparr>\<rparr>))"

definition start_recheck :: "ManagerInner \<Rightarrow> bool \<Rightarrow> nat \<Rightarrow> ManagerInner" where
  "start_recheck inner finished token =
     (case start_recheck_pass inner finished token of
        (True, inner') \<Rightarrow> snd (start_recheck_pass inner' finished token)
      | (False, inner') \<Rightarrow> inner')"

text \<open>
  One iteration of \<open>recheck_loop\<close> after its sleep: the fresh attempts come from the factory, the
  winner from the race. The flag says whether the loop goes on.
\<close>

definition direct_attempts :: "PathKind list \<Rightarrow> PathKind list" where
  "direct_attempts attempts = filter is_direct attempts"

definition ReuseAttemptFactory_create :: "PathKind list \<Rightarrow> bool \<Rightarrow> (PathError, PathKind list) result" where
  "ReuseAttemptFactory_create attempts cancelled = (if cancelled then Inl Cancelled else Inr attempts)"

definition recheck_iteration ::
  "ManagerInner \<Rightarrow> u64 \<Rightarrow> (PathError, PathKind list) result \<Rightarrow> (PathError, OwnedSelected) result \<Rightarrow> bool
     \<Rightarrow> bool \<times> ManagerInner" where
  "recheck_iteration inner rid attempts winner caller_cancelled =
     (case begin_background_recheck inner rid of
        (False, inner') \<Rightarrow> (False, inner')
      | (True, inner') \<Rightarrow>
          (case attempts of
             Inl error \<Rightarrow>
               if error = Cancelled then (False, inner') else finish_failed_recheck inner' rid
           | Inr fresh \<Rightarrow>
               if fresh = [] then (False, inner')
               else (case winner of
                  Inr w \<Rightarrow> (False, snd (install_winner inner' Rechecking (Some rid) w caller_cancelled))
                | Inl error \<Rightarrow>
                    if error = Cancelled then (False, inner') else finish_failed_recheck inner' rid)))"

definition drop_manager :: "ManagerInner \<Rightarrow> ManagerInner" where
  "drop_manager inner =
     (let record = mi_record inner;
          closed = (if mr_state record \<noteq> Closed
            then push_event (case record_transition record Closed of Inl _ \<Rightarrow> record | Inr r \<Rightarrow> r) ClosedEvent
            else record)
      in cancel_tokens (owned_tokens closed)
           (inner\<lparr>mi_lifetime_cancelled := True,
                  mi_record := closed\<lparr>mr_selected := None, mr_recheck := None\<rparr>\<rparr>))"

subsection \<open>Whole handlers\<close>

definition fail_operation :: "ManagerInner \<Rightarrow> PathError \<Rightarrow> (PathError, PathKind) result \<times> ManagerInner" where
  "fail_operation inner error =
     (case close_manager (release_operation inner) of
        Inl e \<Rightarrow> (Inl e, release_operation inner)
      | Inr inner' \<Rightarrow> (Inl error, inner'))"

definition complete_operation ::
  "ManagerInner \<Rightarrow> PathState \<Rightarrow> (PathError, OwnedSelected) result \<Rightarrow> bool \<Rightarrow> bool \<Rightarrow> nat
     \<Rightarrow> (PathError, PathKind) result \<times> ManagerInner" where
  "complete_operation inner expected race_result has_factory caller_cancelled token =
     (case race_result of
        Inl error \<Rightarrow> fail_operation inner error
      | Inr winner \<Rightarrow>
          (case install_winner inner expected None winner caller_cancelled of
             (Inl error, inner') \<Rightarrow> fail_operation inner' error
           | (Inr kind, inner') \<Rightarrow>
               let inner'' = (if kind = RelayPath \<and> has_factory
                     then start_recheck inner' False token else inner')
               in (case finish_operation inner'' (state_of_kind kind) of
                     (True, done_inner) \<Rightarrow> (Inr kind, done_inner)
                   | (False, done_inner) \<Rightarrow> (Inl Cancelled, done_inner))))"

definition connect_with_recheck ::
  "ManagerInner \<Rightarrow> (PathError, OwnedSelected) result \<Rightarrow> bool \<Rightarrow> bool \<Rightarrow> nat
     \<Rightarrow> (PathError, PathKind) result \<times> ManagerInner" where
  "connect_with_recheck inner race_result has_factory caller_cancelled token =
     (case begin_operation inner Checking of
        Inl error \<Rightarrow> (Inl error, inner)
      | Inr started \<Rightarrow> complete_operation started Checking race_result has_factory caller_cancelled token)"

definition report_failed_with_recheck ::
  "ManagerInner \<Rightarrow> (PathError, OwnedSelected) result \<Rightarrow> bool \<Rightarrow> bool \<Rightarrow> nat
     \<Rightarrow> (PathError, PathKind) result \<times> ManagerInner" where
  "report_failed_with_recheck inner race_result has_factory caller_cancelled token =
     (case begin_failure inner of
        Inl error \<Rightarrow> (Inl error, inner)
      | Inr started \<Rightarrow> complete_operation started Rechecking race_result has_factory caller_cancelled token)"

subsection \<open>Interleavings of the critical sections\<close>

datatype path_op =
    OpBegin
  | OpBeginFailure
  | OpClose
  | OpBackgroundRecheck u64
  | OpFinishFailedRecheck u64
  | OpInstall PathState "u64 option" OwnedSelected bool
  | OpFinish PathState
  | OpReleaseGuard
  | OpStartRecheck bool nat
  | OpAttemptStarted PathKind
  | OpAttemptFailed PathKind
  | OpDropManager

definition keep_on_error :: "ManagerInner \<Rightarrow> (PathError, ManagerInner) result \<Rightarrow> ManagerInner" where
  "keep_on_error inner r = (case r of Inl _ \<Rightarrow> inner | Inr inner' \<Rightarrow> inner')"

fun apply_op :: "ManagerInner \<Rightarrow> path_op \<Rightarrow> ManagerInner" where
  "apply_op m OpBegin = keep_on_error m (begin_operation m Checking)"
| "apply_op m OpBeginFailure = keep_on_error m (begin_failure m)"
| "apply_op m OpClose = keep_on_error m (close_manager m)"
| "apply_op m (OpBackgroundRecheck rid) = snd (begin_background_recheck m rid)"
| "apply_op m (OpFinishFailedRecheck rid) = snd (finish_failed_recheck m rid)"
| "apply_op m (OpInstall expected rid winner c) = snd (install_winner m expected rid winner c)"
| "apply_op m (OpFinish expected) = snd (finish_operation m expected)"
| "apply_op m OpReleaseGuard = release_operation m"
| "apply_op m (OpStartRecheck finished token) = snd (start_recheck_pass m finished token)"
| "apply_op m (OpAttemptStarted kind) = record_event m (AttemptStarted kind)"
| "apply_op m (OpAttemptFailed kind) = record_event m (AttemptFailedEvent kind)"
| "apply_op m OpDropManager = drop_manager m"

definition path_step :: "ManagerInner \<Rightarrow> path_op \<Rightarrow> (PathError, ManagerInner) result" where
  "path_step m op = Inr (apply_op m op)"

subsection \<open>The event log\<close>

lemma push_event_fields [simp]:
  "mr_state (push_event r e) = mr_state r" "mr_selected (push_event r e) = mr_selected r"
  "mr_recheck (push_event r e) = mr_recheck r"
  "mr_next_recheck_id (push_event r e) = mr_next_recheck_id r"
  "mr_active_operations (push_event r e) = mr_active_operations r"
  by (simp_all add: push_event_def Let_def)

interpretation event_log: bounded_log push_event mr_events MAX_RECORDED_EVENTS
  by unfold_locales (simp_all add: push_event_def MAX_RECORDED_EVENTS_def)

lemma record_transition_Inr_iff:
  "record_transition r n = Inr r' \<longleftrightarrow> legal_transition (mr_state r) n \<and>
     r' = push_event (r\<lparr>mr_state := n\<rparr>) (StateChanged (mr_state r) n)"
  by (auto simp: record_transition_def PathStateMachine_transition_def Let_def)

lemma record_transition_Inl_iff:
  "record_transition r n = Inl e \<longleftrightarrow>
     \<not> legal_transition (mr_state r) n \<and> e = IllegalTransition (mr_state r) n"
  by (auto simp: record_transition_def PathStateMachine_transition_def Let_def)

fun state_change :: "PathEvent \<Rightarrow> (PathState \<times> PathState) option" where
  "state_change (StateChanged a b) = Some (a, b)"
| "state_change _ = None"

definition state_changes :: "PathEvent list \<Rightarrow> (PathState \<times> PathState) list" where
  "state_changes es = List.map_filter state_change es"

text \<open>
  The retained state changes are legal, each starts where the one before it ended, and the last
  one ends in the current state.
\<close>

definition log_consistent :: "PathEvent list \<Rightarrow> PathState \<Rightarrow> bool" where
  "log_consistent es st \<longleftrightarrow>
     list_all (\<lambda>(a, b). legal_transition a b) (state_changes es) \<and>
     successively (\<lambda>p q. snd p = fst q) (state_changes es) \<and>
     (state_changes es \<noteq> [] \<longrightarrow> snd (last (state_changes es)) = st)"

definition log_inv :: "ManagerRecord \<Rightarrow> bool" where
  "log_inv r \<longleftrightarrow> length (mr_events r) \<le> MAX_RECORDED_EVENTS \<and> log_consistent (mr_events r) (mr_state r)"

lemma log_inv_update [simp]:
  "log_inv (r\<lparr>mr_selected := a\<rparr>) = log_inv r" "log_inv (r\<lparr>mr_recheck := b\<rparr>) = log_inv r"
  "log_inv (r\<lparr>mr_next_recheck_id := c\<rparr>) = log_inv r"
  "log_inv (r\<lparr>mr_active_operations := d\<rparr>) = log_inv r"
  by (simp_all add: log_inv_def)

lemma state_changes_simps [simp]:
  "state_changes [] = []"
  "state_changes (e # es) = (case state_change e of None \<Rightarrow> [] | Some c \<Rightarrow> [c]) @ state_changes es"
  "state_changes (es @ fs) = state_changes es @ state_changes fs"
  by (simp_all add: state_changes_def map_filter_def split: option.splits)

lemma log_consistent_tl: "log_consistent es st \<Longrightarrow> log_consistent (tl es) st"
  by (cases es)
    (auto simp: log_consistent_def successively_Cons split: option.splits if_splits)

lemma log_consistent_snoc_other:
  "state_change e = None \<Longrightarrow> log_consistent es st \<Longrightarrow> log_consistent (es @ [e]) st"
  by (simp add: log_consistent_def)

lemma log_consistent_snoc_change:
  "legal_transition st n \<Longrightarrow> log_consistent es st \<Longrightarrow> log_consistent (es @ [StateChanged st n]) n"
  by (auto simp: log_consistent_def successively_append_iff)

lemma push_event_events:
  "mr_events (push_event r e) =
     (if length (mr_events r) = MAX_RECORDED_EVENTS then tl (mr_events r) else mr_events r) @ [e]"
  by (simp add: push_event_def Let_def)

lemma log_inv_push: "state_change e = None \<Longrightarrow> log_inv r \<Longrightarrow> log_inv (push_event r e)"
  using event_log.push_bound [of r e]
  by (auto simp: log_inv_def push_event_events intro: log_consistent_snoc_other log_consistent_tl
      simp del: state_changes_simps)

lemma log_inv_transition: "log_inv r \<Longrightarrow> record_transition r n = Inr r' \<Longrightarrow> log_inv r'"
  using event_log.push_bound [of "r\<lparr>mr_state := n\<rparr>" "StateChanged (mr_state r) n"]
  by (auto simp: log_inv_def push_event_events record_transition_Inr_iff
      intro: log_consistent_snoc_change log_consistent_tl)

subsection \<open>Invariant of the manager\<close>

fun slots_ok :: "PathState \<Rightarrow> OwnedSelected option \<Rightarrow> OwnedRecheck option \<Rightarrow> bool" where
  "slots_ok Discovering sel rec \<longleftrightarrow> sel = None \<and> rec = None"
| "slots_ok Checking sel rec \<longleftrightarrow> sel = None \<and> rec = None"
| "slots_ok Direct sel rec \<longleftrightarrow> (\<exists>s. sel = Some s \<and> is_direct (os_kind s))"
| "slots_ok RelayState sel rec \<longleftrightarrow> (\<exists>s. sel = Some s \<and> os_kind s = RelayPath)"
| "slots_ok Rechecking sel rec \<longleftrightarrow>
     (if rec = None then sel = None else \<exists>s. sel = Some s \<and> os_kind s = RelayPath)"
| "slots_ok Closed sel rec \<longleftrightarrow> sel = None \<and> rec = None"

definition manager_inv :: "ManagerInner \<Rightarrow> bool" where
  "manager_inv m \<longleftrightarrow>
     (let r = mi_record m in
      log_inv r \<and> slots_ok (mr_state r) (mr_selected r) (mr_recheck r) \<and> mr_next_recheck_id r \<noteq> 0)"

lemma cancel_tokens_fields [simp]:
  "mi_record (cancel_tokens ts m) = mi_record m"
  "mi_lifetime_cancelled (cancel_tokens ts m) = mi_lifetime_cancelled m"
  "mi_cancelled (cancel_tokens ts m) = ts @ mi_cancelled m"
  by (simp_all add: cancel_tokens_def)

lemma log_inv_transition':
  "log_inv r \<Longrightarrow> mr_state r = st \<Longrightarrow> legal_transition st n \<Longrightarrow>
   log_inv (push_event (r\<lparr>mr_state := n\<rparr>) (StateChanged st n))"
  by (rule log_inv_transition) (auto simp: record_transition_Inr_iff)

lemma record_transition_eq:
  "record_transition r n =
     (if legal_transition (mr_state r) n
      then Inr (push_event (r\<lparr>mr_state := n\<rparr>) (StateChanged (mr_state r) n))
      else Inl (IllegalTransition (mr_state r) n))"
  by (simp add: record_transition_Inr_iff record_transition_Inl_iff)

lemmas inv_simps = manager_inv_def Let_def result_simps record_transition_eq
  log_inv_push log_inv_transition'

lemma inv_begin: "manager_inv m \<Longrightarrow> begin_operation m Checking = Inr m' \<Longrightarrow> manager_inv m'"
  by (cases "mr_state (mi_record m)") (auto simp: begin_operation_def inv_simps split: if_splits)

lemma inv_begin_failure: "manager_inv m \<Longrightarrow> begin_failure m = Inr m' \<Longrightarrow> manager_inv m'"
  by (auto simp: begin_failure_def inv_simps split: if_splits)

lemma inv_close: "manager_inv m \<Longrightarrow> close_manager m = Inr m' \<Longrightarrow> manager_inv m'"
  by (auto simp: close_manager_def close_atomic_def inv_simps split: if_splits)

lemma inv_background: "manager_inv m \<Longrightarrow> manager_inv (snd (begin_background_recheck m rid))"
  by (auto simp: begin_background_recheck_def inv_simps)

lemma inv_finish_failed: "manager_inv m \<Longrightarrow> manager_inv (snd (finish_failed_recheck m rid))"
  by (auto simp: finish_failed_recheck_def inv_simps split: if_splits)

lemma inv_release: "manager_inv m \<Longrightarrow> manager_inv (release_operation m)"
  by (simp add: release_operation_def inv_simps)

lemma inv_start_recheck: "manager_inv m \<Longrightarrow> manager_inv (snd (start_recheck_pass m f t))"
  by (auto simp: start_recheck_pass_def inv_simps max_def split: option.splits)

lemma inv_record_event:
  "manager_inv m \<Longrightarrow> state_change e = None \<Longrightarrow> manager_inv (record_event m e)"
  by (auto simp: record_event_def inv_simps)

lemma inv_drop: "manager_inv m \<Longrightarrow> manager_inv (drop_manager m)"
  by (cases "mr_state (mi_record m)")
    (auto simp: drop_manager_def inv_simps)

lemma state_of_kind_simps [simp]:
  "state_of_kind k = RelayState \<longleftrightarrow> k = RelayPath" "state_of_kind RelayPath = RelayState"
  "state_of_kind k \<noteq> Closed" "state_of_kind k \<noteq> Rechecking" "state_of_kind k \<noteq> Checking"
  by (auto simp: state_of_kind_def is_direct_def)

lemma slots_install: "slots_ok (state_of_kind (os_kind w)) (Some w) rec"
  by (simp add: state_of_kind_def is_direct_def)

lemma inv_install: "manager_inv m \<Longrightarrow> manager_inv (snd (install_winner m expected rid w c))"
  by (auto simp: install_winner_def inv_simps slots_install)

lemma inv_apply_op: "manager_inv m \<Longrightarrow> manager_inv (apply_op m op)"
  by (cases op)
    (auto simp: keep_on_error_def finish_operation_def inv_background inv_finish_failed inv_install
      inv_release inv_start_recheck inv_record_event inv_drop
      intro: inv_begin inv_begin_failure inv_close split: sum.splits)

interpretation path_manager: guarded_machine path_step manager_inv
  by unfold_locales (auto simp: path_step_def inv_apply_op)

lemma run_path_step: "run path_step m ops = Inr (foldl apply_op m ops)"
  by (induction ops arbitrary: m) (simp_all add: path_step_def)

lemma inv_new: "manager_inv PathManager_new"
  by (simp add: manager_inv_def PathManager_new_def log_inv_def log_consistent_def MAX_RECORDED_EVENTS_def)

text \<open>
  C2 (path manager invariant): after any sequence of critical sections, in whatever order the
  tasks run them, a direct path is selected exactly in state \<open>Direct\<close>, a relay path in \<open>Relay\<close> and
  during a background recheck, and none in the other states; a closed manager owns nothing; the
  event log keeps at most 256 entries and its state changes form a legal chain that ends in the
  current state.
\<close>

theorem path_manager_invariant:
  "let r = mi_record (foldl apply_op PathManager_new ops) in
     slots_ok (mr_state r) (mr_selected r) (mr_recheck r) \<and>
     length (mr_events r) \<le> 256 \<and> log_consistent (mr_events r) (mr_state r) \<and>
     mr_next_recheck_id r \<noteq> 0"
  using path_manager.run_inv [OF inv_new run_path_step, of ops]
  by (simp add: manager_inv_def Let_def log_inv_def MAX_RECORDED_EVENTS_def)

subsection \<open>Closing\<close>

definition closed_with :: "PathEvent list \<Rightarrow> ManagerInner \<Rightarrow> bool" where
  "closed_with es m \<longleftrightarrow> mr_state (mi_record m) = Closed \<and> mr_events (mi_record m) = es"

lemma closed_apply_op: "closed_with es m \<Longrightarrow> closed_with es (apply_op m op)"
  by (cases op)
    (auto simp: closed_with_def keep_on_error_def begin_operation_def begin_failure_def
      close_manager_def close_atomic_def begin_background_recheck_def finish_failed_recheck_def
      install_winner_def finish_operation_def release_operation_def start_recheck_pass_def
      record_event_def drop_manager_def record_transition_eq Let_def)

interpretation path_closed: guarded_machine path_step "closed_with es" for es
  by unfold_locales (auto simp: path_step_def closed_apply_op)

text \<open>
  Closing is final: once the manager is closed, no operation of any task reopens it or adds
  to its log.
\<close>

theorem path_manager_closed_final:
  assumes "mr_state (mi_record m) = Closed"
  shows "mr_state (mi_record (foldl apply_op m ops)) = Closed \<and>
    mr_events (mi_record (foldl apply_op m ops)) = mr_events (mi_record m)"
  using path_closed.run_inv [OF _ run_path_step, of "mr_events (mi_record m)" m ops] assms
  by (simp add: closed_with_def)

theorem path_manager_closed_final_witness:
  "mr_state (mi_record (foldl apply_op (apply_op PathManager_new OpClose)
     [OpBegin, OpInstall Checking None \<lparr>os_kind = QuicV4, os_token = 1\<rparr> False])) = Closed"
  using path_manager_closed_final [of "apply_op PathManager_new OpClose"
      "[OpBegin, OpInstall Checking None \<lparr>os_kind = QuicV4, os_token = 1\<rparr> False]"]
  by (simp add: keep_on_error_def close_manager_def close_atomic_def record_transition_eq
      PathManager_new_def push_event_def)

subsection \<open>Cancellation of paths that lost their place\<close>

definition token_cancelled :: "ManagerInner \<Rightarrow> nat \<Rightarrow> bool" where
  "token_cancelled m t \<longleftrightarrow> mi_lifetime_cancelled m \<or> t \<in> set (mi_cancelled m)"

definition kept_or_cancelled :: "OwnedSelected \<Rightarrow> ManagerInner \<Rightarrow> bool" where
  "kept_or_cancelled s m \<longleftrightarrow> mr_selected (mi_record m) = Some s \<or> token_cancelled m (os_token s)"

lemmas path_op_defs =
  keep_on_error_def begin_operation_def begin_failure_def close_manager_def close_atomic_def
  begin_background_recheck_def finish_failed_recheck_def install_winner_def finish_operation_def
  release_operation_def start_recheck_pass_def record_event_def drop_manager_def
  record_transition_eq owned_tokens_def Let_def

lemma kept_apply_op: "kept_or_cancelled s m \<Longrightarrow> kept_or_cancelled s (apply_op m op)"
  by (cases op)
    (auto simp: kept_or_cancelled_def token_cancelled_def path_op_defs split: option.splits)

interpretation path_ownership: guarded_machine path_step "kept_or_cancelled s" for s
  by unfold_locales (auto simp: path_step_def kept_apply_op)

text \<open>
  No path leaks: a path that was selected is, after any further operations, still the
  selected one or has its cancellation token cancelled.
\<close>

theorem displaced_paths_cancelled:
  assumes "mr_selected (mi_record m) = Some s"
  shows "mr_selected (mi_record (foldl apply_op m ops)) = Some s \<or>
    token_cancelled (foldl apply_op m ops) (os_token s)"
  using path_ownership.run_inv [OF _ run_path_step, of s m ops] assms
  by (simp add: kept_or_cancelled_def)

definition sample_relay_manager :: ManagerInner where
  "sample_relay_manager =
     snd (connect_with_recheck PathManager_new (Inr \<lparr>os_kind = RelayPath, os_token = 7\<rparr>) True False 8)"

lemma sample_relay_manager_eq:
  "sample_relay_manager =
     \<lparr>mi_record = \<lparr>mr_state = RelayState, mr_selected = Some \<lparr>os_kind = RelayPath, os_token = 7\<rparr>,
        mr_recheck = Some \<lparr>or_id = 1, or_token = 8\<rparr>, mr_next_recheck_id = 2,
        mr_active_operations = 0,
        mr_events = [StateChanged Discovering Checking, StateChanged Checking RelayState,
          Selected RelayPath, RelayFallback]\<rparr>,
      mi_lifetime_cancelled = False, mi_cancelled = []\<rparr>"
  by (simp add: sample_relay_manager_def connect_with_recheck_def complete_operation_def
      start_recheck_def path_op_defs PathManager_new_def push_event_def MAX_RECORDED_EVENTS_def
      cancel_tokens_def max_def word_le_nat_alt)

theorem displaced_paths_cancelled_witness:
  "mr_selected (mi_record (foldl apply_op sample_relay_manager [OpBeginFailure])) \<noteq>
     Some \<lparr>os_kind = RelayPath, os_token = 7\<rparr> \<and>
   token_cancelled (foldl apply_op sample_relay_manager [OpBeginFailure]) 7"
  using displaced_paths_cancelled [of sample_relay_manager "\<lparr>os_kind = RelayPath, os_token = 7\<rparr>"
      "[OpBeginFailure]"]
  by (auto simp: sample_relay_manager_eq keep_on_error_def begin_failure_def record_transition_eq)

text \<open>
  Installing a winner: a winner is installed exactly when neither the caller nor the manager
  was cancelled, the manager is still in the expected state, the recheck that found it still owns
  its slot, and the state machine allows the step; then it is the selected path and the path it
  displaced is cancelled. Otherwise the winner itself is cancelled and the record is unchanged.
\<close>

theorem install_winner_outcome:
  "case install_winner m expected rid w caller_cancelled of
     (Inr kind, m') \<Rightarrow>
       kind = os_kind w \<and> \<not> caller_cancelled \<and> \<not> mi_lifetime_cancelled m \<and>
       mr_state (mi_record m) = expected \<and> legal_transition expected (state_of_kind kind) \<and>
       rid \<in> {None, map_option or_id (mr_recheck (mi_record m))} \<and>
       mr_selected (mi_record m') = Some w \<and> mr_state (mi_record m') = state_of_kind kind \<and>
       set_option (map_option os_token (mr_selected (mi_record m))) \<subseteq> set (mi_cancelled m')
   | (Inl err, m') \<Rightarrow>
       mi_record m' = mi_record m \<and> token_cancelled m' (os_token w) \<and>
       (err = Cancelled \<or> err = IllegalTransition (mr_state (mi_record m)) (state_of_kind (os_kind w)))"
  by (auto simp: install_winner_def Let_def record_transition_eq token_cancelled_def
      split: option.splits)

subsection \<open>The handlers\<close>

lemma release_fields [simp]:
  "mi_lifetime_cancelled (release_operation m) = mi_lifetime_cancelled m"
  "mr_state (mi_record (release_operation m)) = mr_state (mi_record m)"
  "mr_selected (mi_record (release_operation m)) = mr_selected (mi_record m)"
  "mr_recheck (mi_record (release_operation m)) = mr_recheck (mi_record m)"
  "mr_active_operations (mi_record (release_operation m)) = mr_active_operations (mi_record m) - 1"
  by (simp_all add: release_operation_def Let_def)

lemma fail_operation_result:
  assumes "legal_transition (mr_state (mi_record m)) Closed \<or> mr_state (mi_record m) = Closed"
  shows "fst (fail_operation m e) = Inl e"
    and "mr_state (mi_record (snd (fail_operation m e))) = Closed"
    and "mr_selected (mi_record (snd (fail_operation m e))) = None"
    and "mi_lifetime_cancelled (snd (fail_operation m e))"
    and "mr_active_operations (mi_record (snd (fail_operation m e))) =
      mr_active_operations (mi_record m) - 1"
  using assms
  by (auto simp: fail_operation_def close_manager_def close_atomic_def record_transition_eq)

text \<open>What a handler owes once its operation is started.\<close>

definition operation_outcome ::
  "ManagerInner \<Rightarrow> (PathError, OwnedSelected) result \<Rightarrow> bool \<Rightarrow> bool
     \<Rightarrow> (PathError, PathKind) result \<Rightarrow> ManagerInner \<Rightarrow> bool" where
  "operation_outcome m race_result has_factory cancelled res m' \<longleftrightarrow>
     (case race_result of
        Inr w \<Rightarrow>
          if cancelled \<or> mi_lifetime_cancelled m
          then res = Inl Cancelled \<and> mr_state (mi_record m') = Closed \<and>
            mr_selected (mi_record m') = None \<and> mi_lifetime_cancelled m'
          else res = Inr (os_kind w) \<and> mr_selected (mi_record m') = Some w \<and>
            mr_state (mi_record m') = state_of_kind (os_kind w) \<and>
            (mr_recheck (mi_record m') \<noteq> None) = (os_kind w = RelayPath \<and> has_factory)
      | Inl e \<Rightarrow> res = Inl e \<and> mr_state (mi_record m') = Closed \<and>
          mr_selected (mi_record m') = None \<and> mi_lifetime_cancelled m')"

lemma complete_operation_outcome:
  assumes st: "mr_state (mi_record m) = expected" "expected \<in> {Checking, Rechecking}"
    and rec: "mr_recheck (mi_record m) = None"
  shows "operation_outcome m race_result has_factory cancelled
      (fst (complete_operation m expected race_result has_factory cancelled token))
      (snd (complete_operation m expected race_result has_factory cancelled token)) \<and>
    mr_active_operations (mi_record (snd (complete_operation m expected race_result has_factory
      cancelled token))) = mr_active_operations (mi_record m) - 1"
proof -
  have closes: "legal_transition (mr_state (mi_record m)) Closed"
    and legal: "legal_transition expected (state_of_kind k)" for k
    using st by (auto simp: state_of_kind_def)
  show ?thesis
  proof (cases race_result)
    case (Inl e)
    then show ?thesis
      using fail_operation_result [of m e] closes
      by (simp add: complete_operation_def operation_outcome_def)
  next
    case (Inr w)
    show ?thesis
    proof (cases "cancelled \<or> mi_lifetime_cancelled m")
      case True
      then show ?thesis
        using fail_operation_result [of "cancel_tokens [os_token w] m" Cancelled] closes Inr
        by (auto simp: complete_operation_def operation_outcome_def install_winner_def)
    next
      case False
      with Inr st(1) rec legal [of "os_kind w"] show ?thesis
        by (cases "os_kind w")
          (auto simp: complete_operation_def operation_outcome_def install_winner_def Let_def
            record_transition_eq finish_operation_def start_recheck_def start_recheck_pass_def
            state_of_kind_def is_direct_def)
    qed
  qed
qed

text \<open>
  Connecting: from a fresh manager, if the race yields an authenticated path and nothing was
  cancelled, \<open>connect\<close> returns that path, selects it, and owns a background recheck exactly for a
  relay path with a factory; if the race fails or the caller cancelled, it returns the error and
  leaves the manager closed with its lifetime cancelled. In every case the operation it counted is
  released. On a manager that has left its initial state, \<open>connect\<close> is refused and changes nothing.
\<close>

theorem connect_outcome:
  assumes "manager_inv m"
  shows "let (res, m') = connect_with_recheck m race_result has_factory cancelled token in
    if mr_state (mi_record m) = Discovering
    then operation_outcome m race_result has_factory cancelled res m' \<and>
      mr_active_operations (mi_record m') = mr_active_operations (mi_record m)
    else res = Inl (IllegalTransition (mr_state (mi_record m)) Checking) \<and> m' = m"
proof (cases "mr_state (mi_record m) = Discovering")
  case False
  then have "\<not> legal_transition (mr_state (mi_record m)) Checking"
    by (cases "mr_state (mi_record m)") auto
  with False show ?thesis
    by (simp add: connect_with_recheck_def begin_operation_def record_transition_eq)
next
  case True
  then have rec: "mr_recheck (mi_record m) = None"
    using assms by (simp add: manager_inv_def Let_def)
  obtain s where s: "begin_operation m Checking = Inr s"
    using True by (simp add: begin_operation_def record_transition_eq)
  then have "mr_state (mi_record s) = Checking" "mr_recheck (mi_record s) = None"
    "mi_lifetime_cancelled s = mi_lifetime_cancelled m"
    "mr_active_operations (mi_record s) = mr_active_operations (mi_record m) + 1"
    using True rec by (auto simp: begin_operation_def record_transition_eq)
  with complete_operation_outcome [of s Checking race_result has_factory cancelled token] True s
  show ?thesis
    by (auto simp: connect_with_recheck_def operation_outcome_def split: prod.splits sum.splits)
qed

theorem connect_outcome_witness:
  "operation_outcome PathManager_new (Inr \<lparr>os_kind = RelayPath, os_token = 7\<rparr>) True False
     (fst (connect_with_recheck PathManager_new (Inr \<lparr>os_kind = RelayPath, os_token = 7\<rparr>) True False 8))
     sample_relay_manager"
  using connect_outcome [OF inv_new, of "Inr \<lparr>os_kind = RelayPath, os_token = 7\<rparr>" True False 8]
  by (simp add: sample_relay_manager_def case_prod_beta PathManager_new_def)

text \<open>
  Reporting a failure: with a direct or relay path selected, a failure report ends, as
  \<open>connect\<close> does, with the new winner selected or with the manager closed, and releases the
  operation it counted. In any other state, a background recheck in progress included, the report
  is refused and changes nothing.
\<close>

theorem report_failed_outcome:
  assumes "manager_inv m"
  shows "let (res, m') = report_failed_with_recheck m race_result has_factory cancelled token in
    if mr_state (mi_record m) \<in> {Direct, RelayState}
    then operation_outcome m race_result has_factory cancelled res m' \<and>
      mr_active_operations (mi_record m') = mr_active_operations (mi_record m)
    else res = Inl (IllegalTransition (mr_state (mi_record m)) Rechecking) \<and> m' = m"
proof (cases "mr_state (mi_record m) \<in> {Direct, RelayState}")
  case False
  then have "\<not> legal_transition (mr_state (mi_record m)) Rechecking"
    by (cases "mr_state (mi_record m)") auto
  with False show ?thesis
    by (simp add: report_failed_with_recheck_def begin_failure_def record_transition_eq)
next
  case True
  then have legal: "legal_transition (mr_state (mi_record m)) Rechecking" by auto
  then obtain s where s: "begin_failure m = Inr s"
    by (simp add: begin_failure_def record_transition_eq)
  then have "mr_state (mi_record s) = Rechecking" "mr_recheck (mi_record s) = None"
    "mi_lifetime_cancelled s = mi_lifetime_cancelled m"
    "mr_active_operations (mi_record s) = mr_active_operations (mi_record m) + 1"
    using legal by (auto simp: begin_failure_def record_transition_eq)
  with complete_operation_outcome [of s Rechecking race_result has_factory cancelled token] True s
  show ?thesis
    by (auto simp: report_failed_with_recheck_def operation_outcome_def split: prod.splits sum.splits)
qed

lemma sample_relay_manager_inv: "manager_inv sample_relay_manager"
  by (simp add: manager_inv_def sample_relay_manager_eq log_inv_def log_consistent_def
      MAX_RECORDED_EVENTS_def)

theorem report_failed_outcome_witness:
  "fst (report_failed_with_recheck sample_relay_manager (Inr \<lparr>os_kind = QuicV4, os_token = 9\<rparr>) True False 10)
     = Inr QuicV4"
  using report_failed_outcome [OF sample_relay_manager_inv, of "Inr \<lparr>os_kind = QuicV4, os_token = 9\<rparr>" True False 10]
  by (simp add: case_prod_beta operation_outcome_def sample_relay_manager_eq)

text \<open>
  C18 (a recheck without attempts wedges the manager): when the recheck factory returns no attempt,
  as the reusing factory does for a manager that was given relay attempts only, the recheck loop
  ends without returning to state \<open>Relay\<close>. From then on a failure report is refused and no new
  recheck is started; only closing leaves this state.
\<close>

theorem empty_recheck_wedges:
  assumes "manager_inv m" and "mr_state (mi_record m) = RelayState"
    and "map_option or_id (mr_recheck (mi_record m)) = Some rid"
    and "direct_attempts attempts = []"
  shows "let (continues, m') = recheck_iteration m rid
        (ReuseAttemptFactory_create (direct_attempts attempts) False) winner cancelled in
    \<not> continues \<and> mr_state (mi_record m') = Rechecking \<and>
    report_failed_with_recheck m' race_result has_factory cancelled' token =
      (Inl (IllegalTransition Rechecking Rechecking), m') \<and>
    start_recheck m' finished token = m'"
proof -
  from assms(2,3) obtain m' where
    m': "begin_background_recheck m rid = (True, m')" "mr_state (mi_record m') = Rechecking"
    by (auto simp: begin_background_recheck_def record_transition_eq Let_def)
  have "begin_failure m' = Inl (IllegalTransition Rechecking Rechecking)"
    using m'(2) by (simp add: begin_failure_def record_transition_eq)
  with m' assms(4) show ?thesis
    by (simp add: recheck_iteration_def ReuseAttemptFactory_create_def report_failed_with_recheck_def
        start_recheck_def start_recheck_pass_def)
qed

theorem empty_recheck_wedges_witness:
  "let (continues, m') = recheck_iteration sample_relay_manager 1
        (ReuseAttemptFactory_create (direct_attempts [RelayPath]) False) (Inl NoViablePath) False in
    \<not> continues \<and> mr_state (mi_record m') = Rechecking \<and>
    report_failed_with_recheck m' (Inr \<lparr>os_kind = RelayPath, os_token = 11\<rparr>) True False 12 =
      (Inl (IllegalTransition Rechecking Rechecking), m') \<and>
    start_recheck m' True 12 = m'"
proof -
  have "mr_state (mi_record sample_relay_manager) = RelayState"
    and "map_option or_id (mr_recheck (mi_record sample_relay_manager)) = Some 1"
    and "direct_attempts [RelayPath] = []"
    by (simp_all add: sample_relay_manager_eq direct_attempts_def is_direct_def)
  then show ?thesis by (rule empty_recheck_wedges [OF sample_relay_manager_inv])
qed

end
