(* ===== verification/Path_Race.thy ===== *)
theory Path_Race
  imports Path_Manager "HOL-Library.Multiset"
begin

text \<open>
  The race of path attempts (\<open>rustgo-path/src/race.rs\<close>): direct attempts start at once in the order
  QUIC over IPv6, QUIC over IPv4, native TCP; relay attempts start after the grace period, or at
  once when there is no direct attempt. One iteration of the loop is \<open>race_pass\<close> (the relay start
  and the exhaustion test) followed by one event of the \<open>select!\<close>. An attempt is its kind; its
  identifier stands for its task and its cancellation token. The clock and the outcomes of the
  tasks are inputs, so the theorems hold for every schedule. The arm for an empty set of tasks has no event: the
  \<open>select!\<close> takes \<open>join_next_with_id\<close> only while the set is not empty, and then it yields a task.
\<close>

fun group_index :: "PathKind \<Rightarrow> nat" where
  "group_index QuicV6 = 0"
| "group_index QuicV4 = 1"
| "group_index NativeTcpPath = 2"
| "group_index RelayPath = 3"

definition attempt_group :: "PathKind list \<Rightarrow> nat \<Rightarrow> PathKind list" where
  "attempt_group attempts i = filter (\<lambda>k. group_index k = i) attempts"

record RunningAttempt =
  ra_id :: nat
  ra_kind :: PathKind

record RaceState =
  rc_running :: "RunningAttempt list"
  rc_next_id :: nat
  rc_direct_active :: nat
  rc_relay_active :: nat
  rc_relay_started :: bool
  rc_relay_group :: "PathKind list"
  rc_relay_start :: nat
  rc_events :: "PathEvent list"
  rc_cancelled :: "nat list"

fun spawn_group :: "PathKind list \<Rightarrow> RaceState \<Rightarrow> RaceState" where
  "spawn_group [] s = s"
| "spawn_group (kind # grp) s =
     spawn_group grp
       (s\<lparr>rc_running := rc_running s @ [\<lparr>ra_id = rc_next_id s, ra_kind = kind\<rparr>],
          rc_next_id := rc_next_id s + 1,
          rc_events := rc_events s @ [AttemptStarted kind]\<rparr>)"

definition spawn_direct :: "PathKind list \<Rightarrow> RaceState \<Rightarrow> RaceState" where
  "spawn_direct grp s =
     spawn_group grp (s\<lparr>rc_direct_active := rc_direct_active s + length grp\<rparr>)"

definition race_start :: "PathKind list \<Rightarrow> nat \<Rightarrow> nat \<Rightarrow> RaceState" where
  "race_start attempts now relay_grace =
     (let direct_groups = filter (\<lambda>g. g \<noteq> []) (map (attempt_group attempts) [0, 1, 2]);
          has_direct = list_ex (\<lambda>g. g \<noteq> []) (map (attempt_group attempts) [0, 1, 2])
      in fold spawn_direct direct_groups
           \<lparr>rc_running = [], rc_next_id = 0, rc_direct_active = 0, rc_relay_active = 0,
            rc_relay_started = False, rc_relay_group = attempt_group attempts 3,
            rc_relay_start = (if has_direct then now + relay_grace else now),
            rc_events = [], rc_cancelled = []\<rparr>)"

definition decrement_active :: "PathKind \<Rightarrow> RaceState \<Rightarrow> RaceState" where
  "decrement_active kind s =
     (if kind = RelayPath then s\<lparr>rc_relay_active := saturating_sub (rc_relay_active s) 1\<rparr>
      else s\<lparr>rc_direct_active := saturating_sub (rc_direct_active s) 1\<rparr>)"

definition race_cleanup :: "RaceState \<Rightarrow> RaceState" where
  "race_cleanup s = s\<lparr>rc_cancelled := rc_cancelled s @ map ra_id (rc_running s)\<rparr>"

definition swap_remove :: "'a list \<Rightarrow> nat \<Rightarrow> 'a list" where
  "swap_remove xs i = (if i = length xs - 1 then butlast xs else (butlast xs)[i := last xs])"

fun position_of :: "nat \<Rightarrow> RunningAttempt list \<Rightarrow> nat option" where
  "position_of i [] = None"
| "position_of i (a # as) = (if ra_id a = i then Some 0 else map_option Suc (position_of i as))"

datatype race_event =
    RaceCancelled
  | RelayTimer
  | TaskDone nat "(PathError, PathKind) result"
  | TaskPanicked nat

datatype race_outcome =
    RaceContinue RaceState
  | RaceWon nat PathKind RaceState
  | RaceLost PathError RaceState

definition race_pass :: "nat \<Rightarrow> RaceState \<Rightarrow> race_outcome" where
  "race_pass now s =
     (let s1 = (if \<not> rc_relay_started s \<and> now \<ge> rc_relay_start s
           then spawn_group (rc_relay_group s)
             (s\<lparr>rc_relay_started := True, rc_relay_active := length (rc_relay_group s)\<rparr>)
           else s)
      in if rc_direct_active s1 = 0 \<and> rc_relay_started s1 \<and> rc_relay_active s1 = 0
         then RaceLost NoViablePath (race_cleanup s1)
         else RaceContinue s1)"

definition attempt_failed :: "RunningAttempt \<Rightarrow> RaceState \<Rightarrow> RaceState" where
  "attempt_failed a s = s\<lparr>rc_cancelled := rc_cancelled s @ [ra_id a],
     rc_events := rc_events s @ [AttemptFailedEvent (ra_kind a)]\<rparr>"

fun race_select :: "RaceState \<Rightarrow> race_event \<Rightarrow> race_outcome" where
  "race_select s RaceCancelled = RaceLost Cancelled (race_cleanup s)"
| "race_select s RelayTimer = RaceContinue s"
| "race_select s (TaskDone i res) =
     (case position_of i (rc_running s) of
        None \<Rightarrow> RaceContinue s
      | Some p \<Rightarrow>
          let completed = rc_running s ! p; kind = ra_kind completed;
              s1 = decrement_active kind (s\<lparr>rc_running := swap_remove (rc_running s) p\<rparr>)
          in (case res of
                Inr path_kind \<Rightarrow>
                  if path_kind = kind then RaceWon (ra_id completed) path_kind (race_cleanup s1)
                  else RaceContinue (attempt_failed completed s1)
              | Inl _ \<Rightarrow> RaceContinue (attempt_failed completed s1)))"
| "race_select s (TaskPanicked i) =
     (case position_of i (rc_running s) of
        None \<Rightarrow> RaceContinue s
      | Some p \<Rightarrow>
          let failed = rc_running s ! p;
              s1 = decrement_active (ra_kind failed) (s\<lparr>rc_running := swap_remove (rc_running s) p\<rparr>)
          in RaceContinue (attempt_failed failed s1))"

fun race_loop :: "RaceState \<Rightarrow> (nat \<times> race_event) list \<Rightarrow> race_outcome" where
  "race_loop s [] = RaceContinue s"
| "race_loop s ((now, ev) # rest) =
     (case race_pass now s of
        RaceContinue s1 \<Rightarrow>
          (case race_select s1 ev of RaceContinue s2 \<Rightarrow> race_loop s2 rest | out \<Rightarrow> out)
      | out \<Rightarrow> out)"

definition race_attempts :: "PathKind list \<Rightarrow> nat \<Rightarrow> nat \<Rightarrow> (nat \<times> race_event) list \<Rightarrow> race_outcome" where
  "race_attempts attempts now relay_grace schedule = race_loop (race_start attempts now relay_grace) schedule"

subsection \<open>Bookkeeping invariant\<close>

definition kinds_running :: "RaceState \<Rightarrow> PathKind list" where
  "kinds_running s = map ra_kind (rc_running s)"

fun failed_event :: "PathEvent \<Rightarrow> bool" where
  "failed_event (AttemptFailedEvent _) = True"
| "failed_event _ = False"

text \<open>Every started attempt is running or cancelled, and not both.\<close>

definition ids_inv :: "RaceState \<Rightarrow> bool" where
  "ids_inv s \<longleftrightarrow>
     distinct (map ra_id (rc_running s)) \<and>
     set (map ra_id (rc_running s)) \<union> set (rc_cancelled s) = {..<rc_next_id s} \<and>
     set (map ra_id (rc_running s)) \<inter> set (rc_cancelled s) = {}"

text \<open>The counters are exact, and every started attempt is running or was reported as failed.\<close>

definition active_inv :: "RaceState \<Rightarrow> bool" where
  "active_inv s \<longleftrightarrow>
     rc_direct_active s = length (filter is_direct (kinds_running s)) \<and>
     rc_relay_active s = length (filter (\<lambda>k. k = RelayPath) (kinds_running s)) \<and>
     length (filter failed_event (rc_events s)) + length (rc_running s) = rc_next_id s"

definition phase_inv :: "PathKind list \<Rightarrow> RaceState \<Rightarrow> bool" where
  "phase_inv attempts s \<longleftrightarrow>
     set (kinds_running s) \<subseteq> set attempts \<and> rc_relay_group s = attempt_group attempts 3 \<and>
     (if rc_relay_started s then rc_next_id s = length attempts
      else rc_next_id s = length (filter is_direct attempts) \<and> RelayPath \<notin> set (kinds_running s))"

text \<open>The attempts in the order in which they are started: an attempt's identifier is its place there.\<close>

definition start_order :: "PathKind list \<Rightarrow> PathKind list" where
  "start_order attempts = concat (map (attempt_group attempts) [0, 1, 2]) @ attempt_group attempts 3"

definition kinds_inv :: "PathKind list \<Rightarrow> RaceState \<Rightarrow> bool" where
  "kinds_inv attempts s \<longleftrightarrow> (\<forall>a \<in> set (rc_running s). ra_kind a = start_order attempts ! ra_id a)"

definition race_inv :: "PathKind list \<Rightarrow> RaceState \<Rightarrow> bool" where
  "race_inv attempts s \<longleftrightarrow> ids_inv s \<and> active_inv s \<and> phase_inv attempts s \<and> kinds_inv attempts s"

fun new_attempts :: "nat \<Rightarrow> PathKind list \<Rightarrow> RunningAttempt list" where
  "new_attempts n [] = []"
| "new_attempts n (k # ks) = \<lparr>ra_id = n, ra_kind = k\<rparr> # new_attempts (Suc n) ks"

lemma new_attempts_simps [simp]:
  "map ra_kind (new_attempts n ks) = ks" "length (new_attempts n ks) = length ks"
  "map ra_id (new_attempts n ks) = [n ..< n + length ks]"
  by (induction ks arbitrary: n) (simp_all add: upt_conv_Cons del: upt_Suc)

lemma new_attempts_nth: "a \<in> set (new_attempts n ks) \<Longrightarrow> \<exists>j < length ks. ra_id a = n + j \<and> ra_kind a = ks ! j"
proof (induction ks arbitrary: n)
  case (Cons k ks)
  show ?case
  proof (cases "a = \<lparr>ra_id = n, ra_kind = k\<rparr>")
    case False
    with Cons.prems Cons.IH [of "Suc n"] obtain j where "j < length ks" "ra_id a = Suc n + j" "ra_kind a = ks ! j" by auto
    then show ?thesis by (intro exI [of _ "Suc j"]) simp
  qed (intro exI [of _ 0], simp)
qed simp

lemma spawn_group_eq:
  "spawn_group g s = s\<lparr>rc_running := rc_running s @ new_attempts (rc_next_id s) g,
     rc_next_id := rc_next_id s + length g, rc_events := rc_events s @ map AttemptStarted g\<rparr>"
  by (induction g arbitrary: s) simp_all

lemma direct_groups: "concat (map (attempt_group attempts) [0, 1, 2]) =
    filter (\<lambda>k. k = QuicV6) attempts @ filter (\<lambda>k. k = QuicV4) attempts @
    filter (\<lambda>k. k = NativeTcpPath) attempts"
proof -
  have "group_index k = 0 \<longleftrightarrow> k = QuicV6" "group_index k = 1 \<longleftrightarrow> k = QuicV4"
    "group_index k = 2 \<longleftrightarrow> k = NativeTcpPath" for k by (cases k; simp)+
  then show ?thesis by (simp add: attempt_group_def)
qed

lemma relay_group: "attempt_group attempts 3 = filter (\<lambda>k. k = RelayPath) attempts"
proof -
  have "group_index k = 3 \<longleftrightarrow> k = RelayPath" for k by (cases k) simp_all
  then show ?thesis by (simp add: attempt_group_def)
qed

lemma length_direct_groups:
  "length (concat (map (attempt_group attempts) [0, 1, 2])) = length (filter is_direct attempts)"
  unfolding direct_groups
proof (induction attempts)
  case (Cons a as)
  then show ?case by (cases a) (auto simp: is_direct_def)
qed simp

lemma length_direct_relay:
  "length (filter is_direct attempts) + length (filter (\<lambda>k. k = RelayPath) attempts) = length attempts"
  using sum_length_filter_compl [of is_direct attempts] by (simp add: is_direct_def)

lemma direct_groups_direct: "set (concat (map (attempt_group attempts) [0, 1, 2])) \<subseteq> {k. is_direct k}"
  unfolding direct_groups by (auto simp: is_direct_def)

lemma fold_spawn_direct:
  "fold spawn_direct gs s =
     spawn_group (concat gs) (s\<lparr>rc_direct_active := rc_direct_active s + length (concat gs)\<rparr>)"
proof (induction gs arbitrary: s)
  case Nil
  then show ?case by simp
next
  case (Cons g gs)
  have "new_attempts n (xs @ ys) = new_attempts n xs @ new_attempts (n + length xs) ys" for n xs ys
    by (induction xs arbitrary: n) simp_all
  moreover have "fold spawn_direct (g # gs) s = fold spawn_direct gs (spawn_direct g s)" by simp
  ultimately show ?case
    by (simp only: Cons.IH) (simp add: spawn_direct_def [of g s] spawn_group_eq add.assoc)
qed

lemma concat_filter_nonempty: "concat (filter (\<lambda>g. g \<noteq> []) gs) = concat gs"
  by (induction gs) auto

lemma ids_inv_spawn: "ids_inv s \<Longrightarrow> ids_inv (spawn_group g s)"
proof -
  assume inv: "ids_inv s"
  let ?n = "rc_next_id s" and ?k = "length g"
  have r: "map ra_id (rc_running (spawn_group g s)) = map ra_id (rc_running s) @ [?n ..< ?n + ?k]"
    by (simp add: spawn_group_eq)
  have u: "{..<?n} \<union> {?n ..< ?n + ?k} = {..<?n + ?k}" by auto
  have less: "set (map ra_id (rc_running s)) \<subseteq> {..<?n}" "set (rc_cancelled s) \<subseteq> {..<?n}"
    using inv unfolding ids_inv_def by blast+
  have "set (map ra_id (rc_running s)) \<union> {?n ..< ?n + ?k} \<union> set (rc_cancelled s) = {..<?n + ?k}"
    using inv u unfolding ids_inv_def by blast
  moreover have "set (map ra_id (rc_running s)) \<inter> {?n ..< ?n + ?k} = {}"
    and "{?n ..< ?n + ?k} \<inter> set (rc_cancelled s) = {}"
    using less by fastforce+
  ultimately show "ids_inv (spawn_group g s)"
    using inv unfolding ids_inv_def r
    by (simp add: spawn_group_eq Int_Un_distrib2 del: set_map)
qed

lemma ids_inv_cong [simp]:
  "ids_inv (s\<lparr>rc_relay_started := a, rc_relay_active := b\<rparr>) = ids_inv s"
  "ids_inv (s\<lparr>rc_direct_active := c\<rparr>) = ids_inv s"
  by (simp_all add: ids_inv_def)

lemma kinds_inv_spawn:
  assumes "kinds_inv attempts s" and "\<And>j. j < length g \<Longrightarrow> start_order attempts ! (rc_next_id s + j) = g ! j"
  shows "kinds_inv attempts (spawn_group g s)"
proof -
  have "ra_kind a = start_order attempts ! ra_id a" if "a \<in> set (new_attempts (rc_next_id s) g)" for a
    using new_attempts_nth [OF that] assms(2) by auto
  with assms(1) show ?thesis by (auto simp: kinds_inv_def spawn_group_eq)
qed

lemma race_inv_start: "race_inv attempts (race_start attempts now grace)"
proof -
  define d where "d = concat (map (attempt_group attempts) [0, 1, 2])"
  have d: "filter is_direct d = d" "filter (\<lambda>k. k = RelayPath) d = []" "RelayPath \<notin> set d"
    "length d = length (filter is_direct attempts)"
    using direct_groups_direct [of attempts, folded d_def] length_direct_groups [of attempts, folded d_def]
    by (auto simp: is_direct_def filter_empty_conv intro!: filter_True)
  have sub: "set d \<subseteq> set attempts" by (auto simp: d_def attempt_group_def)
  have "start_order attempts ! j = d ! j" if "j < length d" for j
    using that by (simp only: start_order_def d_def [symmetric] nth_append if_True)
  then have kinds: "\<forall>a \<in> set (new_attempts 0 d). ra_kind a = start_order attempts ! ra_id a"
    using new_attempts_nth [of _ 0 d] by fastforce
  show ?thesis
    unfolding race_inv_def race_start_def Let_def fold_spawn_direct concat_filter_nonempty
      d_def [symmetric]
  proof (intro conjI ids_inv_spawn)
    show "active_inv (spawn_group d (\<lparr>rc_running = [], rc_next_id = 0, rc_direct_active = 0,
        rc_relay_active = 0, rc_relay_started = False, rc_relay_group = attempt_group attempts 3,
        rc_relay_start = (if list_ex (\<lambda>g. g \<noteq> []) (map (attempt_group attempts) [0, 1, 2])
          then now + grace else now), rc_events = [], rc_cancelled = []\<rparr>
        \<lparr>rc_direct_active := rc_direct_active \<lparr>rc_running = [], rc_next_id = 0, rc_direct_active = 0,
        rc_relay_active = 0, rc_relay_started = False, rc_relay_group = attempt_group attempts 3,
        rc_relay_start = (if list_ex (\<lambda>g. g \<noteq> []) (map (attempt_group attempts) [0, 1, 2])
          then now + grace else now), rc_events = [], rc_cancelled = []\<rparr> + length d\<rparr>))"
      using d by (simp add: active_inv_def kinds_running_def spawn_group_eq comp_def)
  qed (use d sub kinds in \<open>simp_all add: ids_inv_def phase_inv_def kinds_inv_def kinds_running_def spawn_group_eq\<close>)
qed

lemma race_inv_relay:
  assumes "race_inv attempts s" and "\<not> rc_relay_started s"
  shows "race_inv attempts (spawn_group (rc_relay_group s)
    (s\<lparr>rc_relay_started := True, rc_relay_active := length (rc_relay_group s)\<rparr>))"
proof -
  let ?g = "rc_relay_group s"
  let ?t = "spawn_group ?g (s\<lparr>rc_relay_started := True, rc_relay_active := length ?g\<rparr>)"
  have inv: "ids_inv s" "active_inv s" "phase_inv attempts s" "kinds_inv attempts s" using assms(1) by (simp_all add: race_inv_def)
  have g: "?g = filter (\<lambda>k. k = RelayPath) attempts"
    using inv(3) relay_group by (simp add: phase_inv_def)
  then have fg: "filter is_direct ?g = []" "filter (\<lambda>k. k = RelayPath) ?g = ?g" "set ?g \<subseteq> set attempts"
    by (auto simp: filter_empty_conv is_direct_def)
  have none: "filter (\<lambda>k. k = RelayPath) (kinds_running s) = []"
    using inv(3) assms(2) by (auto simp: filter_empty_conv phase_inv_def)
  have len: "rc_next_id s + length ?g = length attempts"
    using inv(3) assms(2) g length_direct_relay [of attempts] by (simp add: phase_inv_def)
  have kr: "kinds_running ?t = kinds_running s @ ?g" by (simp add: kinds_running_def spawn_group_eq)
  have "active_inv ?t"
    using inv(2) none fg(1,2) unfolding active_inv_def kr by (simp add: spawn_group_eq comp_def)
  moreover have "phase_inv attempts ?t"
    using inv(3) fg(3) len unfolding phase_inv_def kr by (simp add: spawn_group_eq)
  moreover have "kinds_inv attempts ?t"
  proof (rule kinds_inv_spawn)
    fix j
    have "rc_next_id s = length (concat (map (attempt_group attempts) [0, 1, 2]))" "?g = attempt_group attempts 3"
      using inv(3) assms(2) unfolding length_direct_groups by (simp_all add: phase_inv_def)
    then have "start_order attempts ! (rc_next_id s + j) = ?g ! j" by (simp only: start_order_def nth_append_length_plus)
    then show "start_order attempts ! (rc_next_id (s\<lparr>rc_relay_started := True, rc_relay_active := length ?g\<rparr>) + j) = ?g ! j"
      by simp
  qed (use inv(4) in \<open>simp add: kinds_inv_def\<close>)
  ultimately show ?thesis using inv(1) by (simp add: race_inv_def ids_inv_spawn)
qed

lemma race_inv_cleanup_cancelled:
  "race_inv attempts s \<Longrightarrow> set (rc_cancelled (race_cleanup s)) = {..<rc_next_id s}"
  by (auto simp: race_inv_def ids_inv_def race_cleanup_def)

lemma race_cleanup_next_id [simp]: "rc_next_id (race_cleanup s) = rc_next_id s"
  by (simp add: race_cleanup_def)

lemma position_of_Some:
  "position_of i as = Some p \<Longrightarrow> p < length as \<and> ra_id (as ! p) = i"
  by (induction as arbitrary: p) (auto split: if_splits)

lemma mset_swap_remove:
  assumes "p < length xs"
  shows "add_mset (xs ! p) (mset (swap_remove xs p)) = mset xs"
proof -
  have ne: "xs \<noteq> []" using assms by auto
  have "mset (butlast xs @ [last xs]) = mset xs" by (simp only: append_butlast_last_id [OF ne])
  then have whole: "add_mset (last xs) (mset (butlast xs)) = mset xs" by simp
  show ?thesis
  proof (cases "p = length xs - 1")
    case True
    then show ?thesis using whole ne by (simp add: swap_remove_def last_conv_nth)
  next
    case False
    with assms have "p < length (butlast xs)" by simp
    then have "mset ((butlast xs)[p := last xs]) = add_mset (last xs) (mset (butlast xs) - {#xs ! p#})"
      and "xs ! p \<in># mset (butlast xs)"
      by (auto simp: mset_update nth_butlast in_set_conv_nth)
    with False whole show ?thesis
      by (simp add: swap_remove_def add_mset_commute [of "xs ! p"])
  qed
qed

lemma swap_remove_maps:
  assumes "p < length xs"
  shows "mset (map f (swap_remove xs p)) = mset (map f xs) - {#f (xs ! p)#}"
    and "f (xs ! p) \<in># mset (map f xs)"
proof -
  have "mset (map f xs) = add_mset (f (xs ! p)) (mset (map f (swap_remove xs p)))"
    using arg_cong [OF mset_swap_remove [OF assms], of "image_mset f"] by simp
  then show "mset (map f (swap_remove xs p)) = mset (map f xs) - {#f (xs ! p)#}"
    and "f (xs ! p) \<in># mset (map f xs)" by simp_all
qed

lemma swap_remove_filter:
  assumes "p < length xs"
  shows "length (filter P (map f xs)) =
    (if P (f (xs ! p)) then 1 else 0) + length (filter P (map f (swap_remove xs p)))"
proof -
  have len: "length (filter P ys) = size (filter_mset P (mset ys))" for ys
    by (metis mset_filter size_mset)
  have "mset (map f xs) = add_mset (f (xs ! p)) (mset (map f (swap_remove xs p)))"
    using swap_remove_maps [OF assms, of f] by simp
  then show ?thesis unfolding len by simp
qed

lemma swap_remove_ids:
  assumes "p < length xs" and "distinct (map f xs)"
  shows "distinct (map f (swap_remove xs p)) \<and>
    set (map f (swap_remove xs p)) = set (map f xs) - {f (xs ! p)} \<and>
    length xs = Suc (length (swap_remove xs p))"
proof -
  have m: "mset (map f xs) = mset (f (xs ! p) # map f (swap_remove xs p))"
    using swap_remove_maps [OF assms(1), of f] by simp
  then have d: "distinct (f (xs ! p) # map f (swap_remove xs p))"
    using assms(2) by (metis mset_eq_imp_distinct_iff)
  have "set (map f xs) = set (f (xs ! p) # map f (swap_remove xs p))"
    using m by (rule mset_eq_setD)
  moreover have "length (map f xs) = length (f (xs ! p) # map f (swap_remove xs p))"
    using m by (rule mset_eq_length)
  ultimately show ?thesis using d by auto
qed

definition remove_attempt :: "nat \<Rightarrow> RaceState \<Rightarrow> RaceState" where
  "remove_attempt p s =
     decrement_active (ra_kind (rc_running s ! p)) (s\<lparr>rc_running := swap_remove (rc_running s) p\<rparr>)"

lemma remove_attempt_fields [simp]:
  "rc_running (remove_attempt p s) = swap_remove (rc_running s) p"
  "rc_next_id (remove_attempt p s) = rc_next_id s" "rc_cancelled (remove_attempt p s) = rc_cancelled s"
  "rc_events (remove_attempt p s) = rc_events s" "rc_relay_group (remove_attempt p s) = rc_relay_group s"
  "rc_relay_started (remove_attempt p s) = rc_relay_started s"
  "rc_relay_start (remove_attempt p s) = rc_relay_start s"
  by (simp_all add: remove_attempt_def decrement_active_def)

lemma ids_inv_failed:
  assumes "ids_inv s" and p: "p < length (rc_running s)"
  shows "ids_inv (attempt_failed (rc_running s ! p) (remove_attempt p s))"
proof -
  let ?i = "ra_id (rc_running s ! p)"
  have d: "distinct (map ra_id (rc_running s))" using assms(1) by (simp add: ids_inv_def)
  note r = swap_remove_ids [OF p d]
  have "?i \<in> set (map ra_id (rc_running s))" using p by simp
  with r assms(1) show ?thesis
    unfolding ids_inv_def attempt_failed_def by (auto simp del: set_map)
qed

lemma active_inv_failed:
  assumes "active_inv s" and p: "p < length (rc_running s)"
  shows "active_inv (attempt_failed (rc_running s ! p) (remove_attempt p s))"
proof -
  let ?r = "swap_remove (rc_running s) p" and ?k = "ra_kind (rc_running s ! p)"
  have size: "length (rc_running s) = Suc (length ?r)"
    using mset_swap_remove [OF p] by (metis size_add_mset size_mset)
  have "rc_direct_active (remove_attempt p s) = length (filter is_direct (map ra_kind ?r))"
    using assms(1) swap_remove_filter [OF p, of is_direct ra_kind]
    by (auto simp: active_inv_def kinds_running_def remove_attempt_def decrement_active_def is_direct_def
        split: if_splits)
  moreover have "rc_relay_active (remove_attempt p s) = length (filter (\<lambda>k. k = RelayPath) (map ra_kind ?r))"
    using assms(1) swap_remove_filter [OF p, of "\<lambda>k. k = RelayPath" ra_kind]
    by (auto simp: active_inv_def kinds_running_def remove_attempt_def decrement_active_def split: if_splits)
  ultimately show ?thesis
    using assms(1) size by (simp add: active_inv_def kinds_running_def attempt_failed_def)
qed

lemma phase_inv_failed:
  assumes "phase_inv attempts s" and p: "p < length (rc_running s)"
  shows "phase_inv attempts (attempt_failed (rc_running s ! p) (remove_attempt p s))"
proof -
  have "set (map ra_kind (swap_remove (rc_running s) p)) \<subseteq> set (map ra_kind (rc_running s))"
    using swap_remove_maps(1) [OF p, of ra_kind] by (metis diff_subset_eq_self set_mset_mono set_mset_mset)
  with assms(1) show ?thesis
    by (auto simp: phase_inv_def attempt_failed_def kinds_running_def split: if_splits)
qed

lemma kinds_inv_failed:
  assumes "kinds_inv attempts s" and p: "p < length (rc_running s)"
  shows "kinds_inv attempts (attempt_failed (rc_running s ! p) (remove_attempt p s))"
proof -
  have "set (swap_remove (rc_running s) p) \<subseteq> set (rc_running s)"
    using mset_swap_remove [OF p] by (metis mset_subset_eq_add_right set_mset_mono set_mset_mset add_mset_add_single union_commute)
  with assms(1) show ?thesis by (auto simp: kinds_inv_def attempt_failed_def)
qed

lemma race_inv_failed:
  "race_inv attempts s \<Longrightarrow> p < length (rc_running s) \<Longrightarrow>
   race_inv attempts (attempt_failed (rc_running s ! p) (remove_attempt p s))"
  by (simp add: race_inv_def ids_inv_failed active_inv_failed phase_inv_failed kinds_inv_failed)

lemma race_inv_pass:
  assumes "race_inv attempts s" and "race_pass now s = RaceContinue s'"
  shows "race_inv attempts s'"
  using assms race_inv_relay [OF assms(1)] by (auto simp: race_pass_def Let_def split: if_splits)

lemma race_select_done:
  "race_select s (TaskDone i res) =
     (case position_of i (rc_running s) of
        None \<Rightarrow> RaceContinue s
      | Some p \<Rightarrow>
          if res = Inr (ra_kind (rc_running s ! p))
          then RaceWon (ra_id (rc_running s ! p)) (ra_kind (rc_running s ! p)) (race_cleanup (remove_attempt p s))
          else RaceContinue (attempt_failed (rc_running s ! p) (remove_attempt p s)))"
  by (auto simp: Let_def remove_attempt_def split: option.splits sum.splits)

lemma race_select_panicked:
  "race_select s (TaskPanicked i) =
     (case position_of i (rc_running s) of
        None \<Rightarrow> RaceContinue s
      | Some p \<Rightarrow> RaceContinue (attempt_failed (rc_running s ! p) (remove_attempt p s)))"
  by (auto simp: Let_def remove_attempt_def split: option.splits)

declare race_select.simps(3,4) [simp del]

lemma race_inv_select:
  assumes "race_inv attempts s" and "race_select s ev = RaceContinue s'"
  shows "race_inv attempts s'"
  using assms
  by (cases ev)
    (auto simp: race_select_done race_select_panicked race_inv_failed dest!: position_of_Some
      split: option.splits if_splits)

text \<open>What each outcome of the race guarantees.\<close>

definition race_sound :: "PathKind list \<Rightarrow> race_outcome \<Rightarrow> bool" where
  "race_sound attempts out \<longleftrightarrow>
     (case out of
        RaceContinue s \<Rightarrow> race_inv attempts s
      | RaceWon i kind s \<Rightarrow>
          i < rc_next_id s \<and> i < length attempts \<and> kind = start_order attempts ! i \<and> kind \<in> set attempts \<and>
          set (rc_cancelled s) = {..<rc_next_id s} - {i}
      | RaceLost err s \<Rightarrow>
          set (rc_cancelled s) = {..<rc_next_id s} \<and>
          (err = Cancelled \<or>
           err = NoViablePath \<and> rc_next_id s = length attempts \<and>
             length (filter failed_event (rc_events s)) = length attempts))"

lemma race_pass_lost:
  assumes "race_inv attempts s" and "race_pass now s = RaceLost err s'"
  shows "race_sound attempts (RaceLost err s')"
proof -
  from assms obtain s1 where s1: "race_inv attempts s1" "rc_direct_active s1 = 0"
    "rc_relay_started s1" "rc_relay_active s1 = 0" "s' = race_cleanup s1" "err = NoViablePath"
    using race_inv_relay [OF assms(1)] by (auto simp: race_pass_def Let_def split: if_splits)
  then have act: "filter is_direct (kinds_running s1) = []"
    "filter (\<lambda>k. k = RelayPath) (kinds_running s1) = []"
    by (simp_all add: race_inv_def active_inv_def)
  have "kinds_running s1 = []"
  proof (rule ccontr)
    assume "kinds_running s1 \<noteq> []"
    then have "hd (kinds_running s1) \<in> set (kinds_running s1)" by simp
    then show "False" using act by (auto simp: filter_empty_conv is_direct_def)
  qed
  then have "rc_running s1 = []" by (simp add: kinds_running_def)
  with s1 show ?thesis
    by (auto simp: race_sound_def race_inv_def ids_inv_def active_inv_def phase_inv_def race_cleanup_def)
qed

lemma race_select_sound:
  assumes "race_inv attempts s"
  shows "race_sound attempts (race_select s ev)"
proof (cases "race_select s ev")
  case (RaceContinue s')
  with race_inv_select [OF assms RaceContinue] show ?thesis by (simp add: race_sound_def)
next
  case (RaceLost err s')
  then have "ev = RaceCancelled"
    by (cases ev) (auto simp: race_select_done race_select_panicked split: option.splits if_splits)
  with RaceLost have "s' = race_cleanup s" "err = Cancelled" by simp_all
  then show ?thesis
    unfolding RaceLost by (simp add: race_sound_def race_inv_cleanup_cancelled [OF assms])
next
  case (RaceWon i kind s')
  then obtain p where p: "p < length (rc_running s)" "i = ra_id (rc_running s ! p)"
    "kind = ra_kind (rc_running s ! p)" "s' = race_cleanup (remove_attempt p s)"
    by (cases ev)
      (auto simp: race_select_done race_select_panicked dest!: position_of_Some split: option.splits if_splits)
  have a: "ids_inv s" "phase_inv attempts s" "kinds_inv attempts s" using assms by (simp_all add: race_inv_def)
  have "distinct (map ra_id (rc_running s))" using a(1) by (simp add: ids_inv_def)
  then have ids: "set (map ra_id (swap_remove (rc_running s) p)) = set (map ra_id (rc_running s)) - {i}"
    using swap_remove_ids [OF p(1), of ra_id] p(2) by blast
  have i: "i \<in> set (map ra_id (rc_running s))" and k: "kind \<in> set attempts"
    using p a(2) by (auto simp: phase_inv_def kinds_running_def)
  have "set (rc_cancelled s') = {..<rc_next_id s} - {i}" "i < rc_next_id s"
    using a(1) ids i unfolding p(4) ids_inv_def race_cleanup_def by (auto simp del: set_map)
  moreover have "rc_next_id s \<le> length attempts"
    using a(2) length_direct_relay [of attempts] by (auto simp: phase_inv_def split: if_splits)
  moreover have "kind = start_order attempts ! i" using a(3) p(1-3) by (simp add: kinds_inv_def)
  ultimately show ?thesis using k p(4) RaceWon by (simp add: race_sound_def race_cleanup_def)
qed

lemma race_loop_sound: "race_inv attempts s \<Longrightarrow> race_sound attempts (race_loop s schedule)"
proof (induction s schedule rule: race_loop.induct)
  case (1 s)
  then show ?case by (simp add: race_sound_def)
next
  case (2 s now ev rest)
  show ?case
  proof (cases "race_pass now s")
    case (RaceContinue s1)
    note inv1 = race_inv_pass [OF 2(2) RaceContinue]
    show ?thesis
    proof (cases "race_select s1 ev")
      case c: (RaceContinue s2)
      from 2(1) [OF RaceContinue c race_inv_select [OF inv1 c]] show ?thesis
        by (simp add: RaceContinue c)
    qed (use race_select_sound [OF inv1, of ev] RaceContinue in \<open>simp_all\<close>)
  next
    case (RaceLost err s1)
    with race_pass_lost [OF 2(2) RaceLost] show ?thesis by simp
  next
    case (RaceWon i k s1)
    then show ?thesis by (simp add: race_pass_def Let_def split: if_splits)
  qed
qed

lemma race_won_reported: "race_loop s schedule = RaceWon i kind s' \<Longrightarrow> \<exists>t. (t, TaskDone i (Inr kind)) \<in> set schedule"
proof (induction s schedule rule: race_loop.induct)
  case (2 s now ev rest)
  obtain s1 where s1: "race_pass now s = RaceContinue s1"
    using 2(2) by (cases "race_pass now s") (auto simp: race_pass_def Let_def split: if_splits)
  show ?case
  proof (cases "race_select s1 ev")
    case (RaceWon j k s2)
    then have "ev = TaskDone i (Inr kind)"
      using 2(2) s1 by (cases ev) (auto simp: race_select_done race_select_panicked dest!: position_of_Some split: option.splits if_splits)
    then show ?thesis by auto
  qed (use 2 s1 in auto)
qed simp

text \<open>
  C15 (the race): on every schedule, a win is by one of the given attempts, whose task reported a path of just the
  kind this attempt was started with, and every other attempt ever started is cancelled; a loss leaves every started attempt
  cancelled, and the verdict that no path is viable is given only after every attempt, the relay
  ones included, was started and failed; while the race goes on, its counters are exactly the
  numbers of running direct and relay attempts.
\<close>

theorem race_outcome_sound:
  "race_sound attempts (race_attempts attempts now grace schedule) \<and>
   (case race_attempts attempts now grace schedule of
      RaceWon i kind _ \<Rightarrow> \<exists>t. (t, TaskDone i (Inr kind)) \<in> set schedule
    | _ \<Rightarrow> True)"
proof -
  have "race_sound attempts (race_attempts attempts now grace schedule)"
    unfolding race_attempts_def by (rule race_loop_sound [OF race_inv_start])
  then show ?thesis
    using race_won_reported [of "race_start attempts now grace" schedule]
    by (auto simp: race_attempts_def split: race_outcome.split)
qed

subsection \<open>The relay grace period\<close>

fun outcome_state :: "race_outcome \<Rightarrow> RaceState" where
  "outcome_state (RaceContinue s) = s"
| "outcome_state (RaceWon _ _ s) = s"
| "outcome_state (RaceLost _ s) = s"

definition relay_waiting :: "RaceState \<Rightarrow> bool" where
  "relay_waiting s \<longleftrightarrow> \<not> rc_relay_started s \<and> AttemptStarted RelayPath \<notin> set (rc_events s)"

lemma relay_waiting_pass:
  "relay_waiting s \<Longrightarrow> now < rc_relay_start s \<Longrightarrow> race_pass now s = RaceContinue s"
  by (simp add: race_pass_def relay_waiting_def)

lemma relay_waiting_select:
  "relay_waiting s \<Longrightarrow> relay_waiting (outcome_state (race_select s ev)) \<and>
     rc_relay_start (outcome_state (race_select s ev)) = rc_relay_start s"
  by (cases ev)
    (auto simp: race_select_done race_select_panicked relay_waiting_def race_cleanup_def attempt_failed_def
      split: option.splits)

lemma relay_waiting_loop:
  assumes "relay_waiting s" and "\<forall>(now, ev) \<in> set schedule. now < rc_relay_start s"
  shows "relay_waiting (outcome_state (race_loop s schedule))"
  using assms
proof (induction schedule arbitrary: s)
  case Nil
  then show ?case by simp
next
  case (Cons step rest)
  obtain now ev where step: "step = (now, ev)" by (cases step)
  note pass = relay_waiting_pass [OF Cons.prems(1), of now]
  note sel = relay_waiting_select [OF Cons.prems(1), of ev]
  show ?case
    using Cons.prems Cons.IH pass sel by (cases "race_select s ev") (auto simp: step)
qed

lemma race_start_events:
  "rc_events (race_start attempts now grace) = map AttemptStarted
     (filter (\<lambda>k. k = QuicV6) attempts @ filter (\<lambda>k. k = QuicV4) attempts @
      filter (\<lambda>k. k = NativeTcpPath) attempts)"
  unfolding race_start_def Let_def fold_spawn_direct concat_filter_nonempty direct_groups
  by (simp add: spawn_group_eq)

lemma race_start_relay:
  "\<not> rc_relay_started (race_start attempts now grace)"
  "rc_relay_start (race_start attempts now grace) =
     (if list_ex is_direct attempts then now + grace else now)"
proof -
  have "list_ex (\<lambda>g. g \<noteq> []) (map (attempt_group attempts) [0, 1, 2]) \<longleftrightarrow>
      concat (map (attempt_group attempts) [0, 1, 2]) \<noteq> []" by auto
  also have "\<dots> \<longleftrightarrow> list_ex is_direct attempts"
    using length_direct_groups [of attempts] by (metis filter_empty_conv length_0_conv list_ex_iff)
  finally show "rc_relay_start (race_start attempts now grace) =
     (if list_ex is_direct attempts then now + grace else now)"
    and "\<not> rc_relay_started (race_start attempts now grace)"
    unfolding race_start_def Let_def fold_spawn_direct concat_filter_nonempty
    by (simp_all add: spawn_group_eq)
qed

text \<open>
  Direct paths first: the race starts every direct attempt at once, QUIC over IPv6 before QUIC
  over IPv4 before native TCP, each kind in the given order; as long as the clock has not reached
  the end of the grace period and there is a direct attempt, no relay attempt is started on any
  schedule; and the first iteration at or after the relay start time starts them.
\<close>

theorem relay_grace_respected:
  assumes "list_ex is_direct attempts"
    and "\<forall>(t, ev) \<in> set schedule. t < now + grace"
    and "t' \<ge> now + grace"
  shows "rc_events (race_start attempts now grace) = map AttemptStarted
     (filter (\<lambda>k. k = QuicV6) attempts @ filter (\<lambda>k. k = QuicV4) attempts @
      filter (\<lambda>k. k = NativeTcpPath) attempts) \<and>
    AttemptStarted RelayPath \<notin> set (rc_events (outcome_state (race_attempts attempts now grace schedule))) \<and>
    rc_relay_started (outcome_state (race_pass t' (race_start attempts now grace)))"
proof (intro conjI)
  let ?s = "race_start attempts now grace"
  have w: "relay_waiting ?s"
    using race_start_relay(1) by (auto simp: relay_waiting_def race_start_events)
  show "AttemptStarted RelayPath \<notin> set (rc_events (outcome_state (race_attempts attempts now grace schedule)))"
    using relay_waiting_loop [OF w, of schedule] assms(1,2) race_start_relay(2) [of attempts now grace]
    by (simp add: race_attempts_def relay_waiting_def)
  show "rc_relay_started (outcome_state (race_pass t' ?s))"
    using assms(1,3) race_start_relay [of attempts now grace]
    by (simp add: race_pass_def Let_def race_cleanup_def spawn_group_eq)
qed (rule race_start_events)

theorem relay_grace_respected_witness:
  "AttemptStarted RelayPath \<notin> set (rc_events (outcome_state
     (race_attempts [RelayPath, NativeTcpPath, QuicV6] 100 50 [(120, TaskDone 0 (Inl (AttemptFailed QuicV6)))])))"
  using relay_grace_respected [of "[RelayPath, NativeTcpPath, QuicV6]"
      "[(120, TaskDone 0 (Inl (AttemptFailed QuicV6)))]" 100 50 150]
  by (simp add: is_direct_def)

end
