(* ===== verification/Single_Use.thy ===== *)
theory Single_Use
  imports Prelude
begin

text \<open>
  The contract of a store of one-time tokens: an operation may mint tokens or spend one; only a
  live token is spent, spending ends its life, and a token becomes live only by being minted. The
  consequence, proved once here, is that a token is never spent more often than it was minted.
\<close>

locale single_use =
  fixes step :: "'s \<Rightarrow> 'op \<Rightarrow> 's"
    and minted :: "'s \<Rightarrow> 'op \<Rightarrow> 'tok set"
    and spent :: "'s \<Rightarrow> 'op \<Rightarrow> 'tok option"
    and live :: "'s \<Rightarrow> 'tok \<Rightarrow> bool"
    and inv :: "'s \<Rightarrow> bool"
  assumes step_inv: "inv s \<Longrightarrow> inv (step s op)"
    and spent_live: "inv s \<Longrightarrow> spent s op = Some t \<Longrightarrow> live s t"
    and spent_dead: "inv s \<Longrightarrow> spent s op = Some t \<Longrightarrow> \<not> live (step s op) t"
    and live_origin: "inv s \<Longrightarrow> live (step s op) t \<Longrightarrow> live s t \<or> t \<in> minted s op"
begin

fun times_minted :: "'s \<Rightarrow> 'op list \<Rightarrow> 'tok \<Rightarrow> nat" where
  "times_minted s [] t = 0"
| "times_minted s (op # ops) t =
     (if t \<in> minted s op then 1 else 0) + times_minted (step s op) ops t"

fun times_spent :: "'s \<Rightarrow> 'op list \<Rightarrow> 'tok \<Rightarrow> nat" where
  "times_spent s [] t = 0"
| "times_spent s (op # ops) t =
     (if spent s op = Some t then 1 else 0) + times_spent (step s op) ops t"

lemma foldl_inv: "inv s \<Longrightarrow> inv (foldl step s ops)"
  by (induction ops arbitrary: s) (simp_all add: step_inv)

lemma spent_bounded:
  "inv s \<Longrightarrow> times_spent s ops t + (if live (foldl step s ops) t then 1 else 0) \<le>
     times_minted s ops t + (if live s t then 1 else 0)"
proof (induction ops arbitrary: s)
  case Nil
  then show ?case by simp
next
  case (Cons op ops)
  from Cons.IH [OF step_inv [OF Cons.prems], of op]
    spent_live [OF Cons.prems, of op t] spent_dead [OF Cons.prems, of op t]
    live_origin [OF Cons.prems, of op t]
  show ?case by (auto split: if_splits)
qed

lemma spent_at_most_minted:
  assumes "inv s" and "\<not> live s t"
  shows "times_spent s ops t \<le> times_minted s ops t"
  using spent_bounded [OF assms(1), of ops t] assms(2) by (simp split: if_splits)

end

end
