(* ===== verification/Channel_Binding.thy ===== *)
theory Channel_Binding
  imports Protocol_Types Single_Use
begin

text \<open>
  One-time binding tokens for data channels (\<open>rustgo-transport/src/tls.rs\<close>, \<open>ChannelBindingStore\<close>).
  The hash map is an association list with distinct keys. The clock and the operating system's
  random generator are inputs: an instant in nanoseconds with the largest instant the platform can
  represent, and for each of the sixteen tries of \<open>issue\<close> the bytes drawn or a failure. The
  theorems: a token is redeemed at most as often as it was issued, whatever else happens; a
  redemption succeeds exactly for the owner's identity, session and channel before the expiry;
  and the store never exceeds its capacity.
\<close>

definition BINDING_TOKEN_BYTES :: nat where "BINDING_TOKEN_BYTES = 32"
definition MAX_TOKEN_GENERATION_ATTEMPTS :: nat where "MAX_TOKEN_GENERATION_ATTEMPTS = 16"

datatype ChannelKind =
    ChannelTcp u32 u64
  | ChannelUdp u32 u64

record ChannelBinding =
  cb_client_id :: string
  cb_session_id :: bytes
  cb_channel_kind :: ChannelKind

record PendingBinding =
  pb_channel_kind :: ChannelKind
  pb_expires_at :: nat

record ChannelBindingStore =
  cbs_client_id :: string
  cbs_session_id :: bytes
  cbs_capacity :: nat
  cbs_time_to_live :: nat
  cbs_pending :: "(bytes \<times> PendingBinding) list"

datatype BindingError = InvalidBindingConfiguration | CapacityReached | EntropyUnavailable | BindingRejected

definition instant_checked_add :: "nat \<Rightarrow> nat \<Rightarrow> nat \<Rightarrow> nat option" where
  "instant_checked_add latest now d = (if now + d \<le> latest then Some (now + d) else None)"

definition ChannelBindingStore_new ::
  "nat \<Rightarrow> nat \<Rightarrow> string \<Rightarrow> bytes \<Rightarrow> nat \<Rightarrow> nat \<Rightarrow> (BindingError, ChannelBindingStore) result" where
  "ChannelBindingStore_new latest now client_id session_id capacity time_to_live =
     (if client_id = [] \<or> length client_id > MAX_CLIENT_NAME_BYTES \<or> session_id = [] \<or>
         length session_id > MAX_SESSION_ID_BYTES \<or> capacity = 0 \<or> time_to_live = 0 \<or>
         instant_checked_add latest now time_to_live = None
      then Inl InvalidBindingConfiguration
      else Inr \<lparr>cbs_client_id = client_id, cbs_session_id = session_id, cbs_capacity = capacity,
        cbs_time_to_live = time_to_live, cbs_pending = []\<rparr>)"

fun issue_loop ::
  "nat \<Rightarrow> bytes option list \<Rightarrow> PendingBinding \<Rightarrow> ChannelBindingStore
     \<Rightarrow> (BindingError, bytes) result \<times> ChannelBindingStore" where
  "issue_loop 0 draws entry self = (Inl EntropyUnavailable, self)"
| "issue_loop (Suc n) [] entry self = (Inl EntropyUnavailable, self)"
| "issue_loop (Suc n) (None # draws) entry self = (Inl EntropyUnavailable, self)"
| "issue_loop (Suc n) (Some token # draws) entry self =
     (if map_of (cbs_pending self) token = None
      then (case BoundedBytes_try_from MAX_BINDING_TOKEN_BYTES token of
              Inl _ \<Rightarrow> Inl InvalidBindingConfiguration
            | Inr bounded \<Rightarrow> Inr bounded,
            self\<lparr>cbs_pending := cbs_pending self @ [(token, entry)]\<rparr>)
      else issue_loop n draws entry self)"

definition issue ::
  "nat \<Rightarrow> nat \<Rightarrow> bytes option list \<Rightarrow> ChannelBindingStore \<Rightarrow> ChannelKind
     \<Rightarrow> (BindingError, bytes) result \<times> ChannelBindingStore" where
  "issue latest now draws self channel_kind =
     (let self1 = self\<lparr>cbs_pending := filter (\<lambda>(_, b). pb_expires_at b > now) (cbs_pending self)\<rparr> in
      if length (cbs_pending self1) \<ge> cbs_capacity self1 then (Inl CapacityReached, self1)
      else case instant_checked_add latest now (cbs_time_to_live self1) of
        None \<Rightarrow> (Inl InvalidBindingConfiguration, self1)
      | Some expires_at \<Rightarrow>
          issue_loop MAX_TOKEN_GENERATION_ATTEMPTS draws
            \<lparr>pb_channel_kind = channel_kind, pb_expires_at = expires_at\<rparr> self1)"

definition recognizes :: "ChannelBindingStore \<Rightarrow> bytes \<Rightarrow> bool" where
  "recognizes self token \<longleftrightarrow>
     length token = BINDING_TOKEN_BYTES \<and> map_of (cbs_pending self) token \<noteq> None"

definition remove_pending :: "bytes \<Rightarrow> ChannelBindingStore \<Rightarrow> ChannelBindingStore" where
  "remove_pending token self =
     self\<lparr>cbs_pending := filter (\<lambda>(t, _). t \<noteq> token) (cbs_pending self)\<rparr>"

definition revoke :: "ChannelBindingStore \<Rightarrow> ChannelKind \<Rightarrow> bytes \<Rightarrow> bool \<times> ChannelBindingStore" where
  "revoke self channel_kind token =
     (if length token \<noteq> BINDING_TOKEN_BYTES then (False, self)
      else case map_of (cbs_pending self) token of
        Some entry \<Rightarrow>
          if pb_channel_kind entry = channel_kind then (True, remove_pending token self) else (False, self)
      | None \<Rightarrow> (False, self))"

definition redeem ::
  "nat \<Rightarrow> ChannelBindingStore \<Rightarrow> string \<Rightarrow> bytes \<Rightarrow> ChannelKind \<Rightarrow> bytes
     \<Rightarrow> (BindingError, ChannelBinding) result \<times> ChannelBindingStore" where
  "redeem now self client_id session_id channel_kind token =
     (if length token \<noteq> BINDING_TOKEN_BYTES then (Inl BindingRejected, self)
      else case map_of (cbs_pending self) token of
        None \<Rightarrow> (Inl BindingRejected, self)
      | Some pending \<Rightarrow>
          let self1 = remove_pending token self in
          if pb_expires_at pending \<le> now \<or> client_id \<noteq> cbs_client_id self \<or>
             session_id \<noteq> cbs_session_id self \<or> channel_kind \<noteq> pb_channel_kind pending
          then (Inl BindingRejected, self1)
          else (Inr \<lparr>cb_client_id = cbs_client_id self, cb_session_id = cbs_session_id self,
                  cb_channel_kind = channel_kind\<rparr>, self1))"

subsection \<open>Invariant\<close>

definition store_inv :: "ChannelBindingStore \<Rightarrow> bool" where
  "store_inv s \<longleftrightarrow> distinct (map fst (cbs_pending s)) \<and> length (cbs_pending s) \<le> cbs_capacity s"

lemma map_of_filter_key:
  "map_of (filter (\<lambda>(t, _). t \<noteq> token) xs) t' = (if t' = token then None else map_of xs t')"
  by (induction xs) auto

lemma map_of_filter_value:
  "distinct (map fst xs) \<Longrightarrow> map_of (filter (\<lambda>(_, v). P v) xs) t =
     (case map_of xs t of None \<Rightarrow> None | Some v \<Rightarrow> if P v then Some v else None)"
proof (induction xs)
  case (Cons x xs)
  then show ?case by (cases x) (auto simp: map_of_eq_None_iff split: option.splits)
qed simp

lemma distinct_map_filter_fst: "distinct (map fst xs) \<Longrightarrow> distinct (map fst (filter P xs))"
  by (induction xs) auto

lemma issue_loop_result:
  assumes "issue_loop n draws entry s = (res, s')"
  shows "s' = s \<and> (\<exists>e. res = Inl e) \<or>
    (\<exists>token. Some token \<in> set draws \<and> map_of (cbs_pending s) token = None \<and>
       s' = s\<lparr>cbs_pending := cbs_pending s @ [(token, entry)]\<rparr> \<and>
       (if length token \<le> MAX_BINDING_TOKEN_BYTES then res = Inr token
        else res = Inl InvalidBindingConfiguration))"
  using assms
proof (induction n draws entry s rule: issue_loop.induct)
  case (4 n token draws entry s)
  show ?case
  proof (cases "map_of (cbs_pending s) token")
    case None
    with 4(2) have s': "s' = s\<lparr>cbs_pending := cbs_pending s @ [(token, entry)]\<rparr>"
      "if length token \<le> MAX_BINDING_TOKEN_BYTES then res = Inr token
       else res = Inl InvalidBindingConfiguration"
      by (auto simp: BoundedBytes_try_from_def split: if_splits)
    show ?thesis
      by (rule disjI2, rule exI [of _ token]) (use None s' in simp)
  next
    case (Some e)
    with 4(2) have "issue_loop n draws entry s = (res, s')" by simp
    moreover have "map_of (cbs_pending s) token \<noteq> None" using Some by simp
    ultimately show ?thesis using 4(1) unfolding list.set by blast
  qed
qed auto

definition retain_unexpired :: "nat \<Rightarrow> ChannelBindingStore \<Rightarrow> ChannelBindingStore" where
  "retain_unexpired now s = s\<lparr>cbs_pending := filter (\<lambda>(_, b). pb_expires_at b > now) (cbs_pending s)\<rparr>"

text \<open>
  The outcomes of \<open>issue\<close>: an error that only drops expired entries, or one fresh entry. The
  random generator fills a 32-byte buffer; the last case, a longer token, does not arise there.
\<close>

definition issued_store :: "nat \<Rightarrow> ChannelBindingStore \<Rightarrow> ChannelKind \<Rightarrow> bytes \<Rightarrow> ChannelBindingStore" where
  "issued_store now s kind token =
     (let r = retain_unexpired now s in
      r\<lparr>cbs_pending := cbs_pending r @
        [(token, \<lparr>pb_channel_kind = kind, pb_expires_at = now + cbs_time_to_live s\<rparr>)]\<rparr>)"

lemma issue_result:
  assumes "issue latest now draws s kind = (res, s')"
  shows "s' = retain_unexpired now s \<and> (\<exists>e. res = Inl e) \<or>
    (\<exists>token. Some token \<in> set draws \<and>
       map_of (cbs_pending (retain_unexpired now s)) token = None \<and>
       length (cbs_pending (retain_unexpired now s)) < cbs_capacity s \<and>
       s' = issued_store now s kind token \<and>
       (if length token \<le> MAX_BINDING_TOKEN_BYTES then res = Inr token
        else res = Inl InvalidBindingConfiguration))"
proof -
  let ?r = "retain_unexpired now s"
  have cap: "cbs_capacity ?r = cbs_capacity s" "cbs_time_to_live ?r = cbs_time_to_live s"
    by (simp_all add: retain_unexpired_def)
  from assms(1) have "(\<exists>e. res = Inl e) \<and> s' = ?r \<or>
      length (cbs_pending ?r) < cbs_capacity s \<and>
      issue_loop MAX_TOKEN_GENERATION_ATTEMPTS draws
        \<lparr>pb_channel_kind = kind, pb_expires_at = now + cbs_time_to_live s\<rparr> ?r = (res, s')"
    unfolding issue_def Let_def retain_unexpired_def [symmetric] cap
    by (auto simp: instant_checked_add_def split: if_splits)
  then show ?thesis
    using issue_loop_result [of _ draws _ ?r res s'] unfolding issued_store_def Let_def by blast
qed

subsection \<open>Sequences of operations\<close>

datatype binding_op =
    IssueOp nat nat "bytes option list" ChannelKind
  | RevokeOp ChannelKind bytes
  | RedeemOp nat string bytes ChannelKind bytes

fun binding_step :: "ChannelBindingStore \<Rightarrow> binding_op \<Rightarrow> ChannelBindingStore" where
  "binding_step s (IssueOp latest now draws kind) = snd (issue latest now draws s kind)"
| "binding_step s (RevokeOp kind token) = snd (revoke s kind token)"
| "binding_step s (RedeemOp now client session kind token) = snd (redeem now s client session kind token)"

fun issued_token :: "ChannelBindingStore \<Rightarrow> binding_op \<Rightarrow> bytes option" where
  "issued_token s (IssueOp latest now draws kind) =
     (case fst (issue latest now draws s kind) of Inr token \<Rightarrow> Some token | Inl _ \<Rightarrow> None)"
| "issued_token s _ = None"

fun redeemed_token :: "ChannelBindingStore \<Rightarrow> binding_op \<Rightarrow> bytes option" where
  "redeemed_token s (RedeemOp now client session kind token) =
     (case fst (redeem now s client session kind token) of Inr _ \<Rightarrow> Some token | Inl _ \<Rightarrow> None)"
| "redeemed_token s _ = None"

lemma recognizes_remove: "recognizes (remove_pending token s) t \<longleftrightarrow> recognizes s t \<and> t \<noteq> token"
  by (auto simp: recognizes_def remove_pending_def map_of_filter_key)

lemma inv_remove_pending: "store_inv s \<Longrightarrow> store_inv (remove_pending token s)"
  by (auto simp: store_inv_def remove_pending_def distinct_map_filter_fst intro: le_trans [OF length_filter_le])

lemma inv_retain: "store_inv s \<Longrightarrow> store_inv (retain_unexpired now s)"
  by (auto simp: store_inv_def retain_unexpired_def distinct_map_filter_fst intro: le_trans [OF length_filter_le])

lemma recognizes_retain: "store_inv s \<Longrightarrow> recognizes (retain_unexpired now s) t \<Longrightarrow> recognizes s t"
  by (auto simp: recognizes_def retain_unexpired_def store_inv_def map_of_filter_value
      split: option.splits if_splits)

lemma recognizes_issued:
  "recognizes (issued_store now s kind token) t \<longleftrightarrow>
     recognizes (retain_unexpired now s) t \<or> t = token \<and> length t = BINDING_TOKEN_BYTES"
  by (auto simp: recognizes_def issued_store_def Let_def map_of_eq_None_iff)

lemma inv_issued:
  assumes "store_inv s" and "map_of (cbs_pending (retain_unexpired now s)) token = None"
    and "length (cbs_pending (retain_unexpired now s)) < cbs_capacity s"
  shows "store_inv (issued_store now s kind token)"
  using assms inv_retain [OF assms(1), of now]
  by (auto simp: store_inv_def issued_store_def Let_def map_of_eq_None_iff retain_unexpired_def)

lemma revoke_store: "snd (revoke s kind token) = s \<or> snd (revoke s kind token) = remove_pending token s"
  by (auto simp: revoke_def split: option.splits)

lemma redeem_store:
  "snd (redeem now s c se kind token) = s \<and> \<not> recognizes s token \<or>
   snd (redeem now s c se kind token) = remove_pending token s"
  by (auto simp: redeem_def recognizes_def Let_def split: option.splits)

lemma redeem_Inr_iff:
  "fst (redeem now s c se kind token) = Inr b \<longleftrightarrow>
     length token = BINDING_TOKEN_BYTES \<and>
     (\<exists>p. map_of (cbs_pending s) token = Some p \<and> now < pb_expires_at p \<and> pb_channel_kind p = kind) \<and>
     c = cbs_client_id s \<and> se = cbs_session_id s \<and>
     b = \<lparr>cb_client_id = c, cb_session_id = se, cb_channel_kind = kind\<rparr>"
  by (auto simp: redeem_def Let_def split: option.splits)

interpretation binding_tokens: single_use binding_step "\<lambda>s op. set_option (issued_token s op)" redeemed_token recognizes store_inv
proof
  fix s op t
  assume inv: "store_inv s"
  show "store_inv (binding_step s op)"
  proof (cases op)
    case (IssueOp latest now draws kind)
    obtain res s' where "issue latest now draws s kind = (res, s')" by fastforce
    from issue_result [OF this] this inv show ?thesis
      by (auto simp: IssueOp inv_retain inv_issued)
  next
    case (RevokeOp kind token)
    with inv revoke_store [of s kind token] show ?thesis by (auto simp: inv_remove_pending)
  next
    case (RedeemOp now c se kind token)
    with inv redeem_store [of now s c se kind token] show ?thesis by (auto simp: inv_remove_pending)
  qed
  show "redeemed_token s op = Some t \<Longrightarrow> recognizes s t"
    by (cases op) (auto simp: redeem_Inr_iff recognizes_def split: sum.splits)
  show "redeemed_token s op = Some t \<Longrightarrow> \<not> recognizes (binding_step s op) t"
  proof (cases op)
    case (RedeemOp now c se kind token)
    assume "redeemed_token s op = Some t"
    with RedeemOp have "t = token" by (auto split: sum.splits)
    with RedeemOp redeem_store [of now s c se kind token] show ?thesis by (auto simp: recognizes_remove)
  qed simp_all
  show "recognizes (binding_step s op) t \<Longrightarrow> recognizes s t \<or> t \<in> set_option (issued_token s op)"
  proof (cases op)
    case (IssueOp latest now draws kind)
    assume live: "recognizes (binding_step s op) t"
    obtain res s' where r: "issue latest now draws s kind = (res, s')" by fastforce
    from issue_result [OF r] live show ?thesis
      by (auto simp: IssueOp r recognizes_issued BINDING_TOKEN_BYTES_def MAX_BINDING_TOKEN_BYTES_def
          dest: recognizes_retain [OF inv])
  next
    case (RevokeOp kind token)
    assume "recognizes (binding_step s op) t"
    with RevokeOp revoke_store [of s kind token] show ?thesis by (auto simp: recognizes_remove)
  next
    case (RedeemOp now c se kind token)
    assume "recognizes (binding_step s op) t"
    with RedeemOp redeem_store [of now s c se kind token] show ?thesis by (auto simp: recognizes_remove)
  qed
qed

lemma store_inv_new: "ChannelBindingStore_new latest now c se cap ttl = Inr s \<Longrightarrow>
    store_inv s \<and> \<not> recognizes s t \<and> cbs_capacity s = cap"
  by (auto simp: ChannelBindingStore_new_def store_inv_def recognizes_def split: if_splits)

lemma binding_step_identity:
  "cbs_capacity (binding_step s op) = cbs_capacity s \<and> cbs_client_id (binding_step s op) = cbs_client_id s \<and>
   cbs_session_id (binding_step s op) = cbs_session_id s"
proof (cases op)
  case (IssueOp latest now draws kind)
  obtain res s' where r: "issue latest now draws s kind = (res, s')" by fastforce
  from issue_result [OF r] show ?thesis
    by (auto simp: IssueOp r retain_unexpired_def issued_store_def Let_def)
next
  case (RevokeOp kind token)
  with revoke_store [of s kind token] show ?thesis by (auto simp: remove_pending_def)
next
  case (RedeemOp now c se kind token)
  with redeem_store [of now s c se kind token] show ?thesis by (auto simp: remove_pending_def)
qed

lemma binding_fold_identity:
  "cbs_capacity (foldl binding_step s ops) = cbs_capacity s"
  by (induction ops arbitrary: s) (simp_all add: binding_step_identity)

text \<open>
  C5 (one-time tokens): in every sequence of issuing, revoking and redeeming on a new store, a
  token is redeemed at most as often as it was issued, so a token that the generator yields once is
  accepted once; and the number of pending tokens never exceeds the capacity.
\<close>

theorem binding_tokens_single_use:
  assumes "ChannelBindingStore_new latest now client session capacity ttl = Inr s"
  shows "binding_tokens.times_spent s ops token \<le> binding_tokens.times_minted s ops token \<and>
    length (cbs_pending (foldl binding_step s ops)) \<le> capacity"
proof -
  from store_inv_new [OF assms, of token] have s: "store_inv s" "\<not> recognizes s token" "cbs_capacity s = capacity"
    by blast+
  from binding_tokens.foldl_inv [OF s(1), of ops] have "store_inv (foldl binding_step s ops)" .
  with s binding_tokens.spent_at_most_minted [OF s(1,2), of ops] show ?thesis
    by (simp add: store_inv_def binding_fold_identity)
qed

definition sample_store :: ChannelBindingStore where
  "sample_store = \<lparr>cbs_client_id = ''dev'', cbs_session_id = [1, 2], cbs_capacity = 4,
     cbs_time_to_live = 30, cbs_pending = []\<rparr>"

lemma sample_store_new: "ChannelBindingStore_new 1000000 10 ''dev'' [1, 2] 4 30 = Inr sample_store"
  by (simp add: ChannelBindingStore_new_def sample_store_def instant_checked_add_def
      MAX_CLIENT_NAME_BYTES_def MAX_SESSION_ID_BYTES_def)

theorem binding_tokens_single_use_witness:
  "binding_tokens.times_spent sample_store
     [IssueOp 1000000 10 [Some (replicate 32 7)] (ChannelTcp 1 2),
      RedeemOp 12 ''dev'' [1, 2] (ChannelTcp 1 2) (replicate 32 7),
      RedeemOp 13 ''dev'' [1, 2] (ChannelTcp 1 2) (replicate 32 7)] (replicate 32 7) \<le>
   binding_tokens.times_minted sample_store
     [IssueOp 1000000 10 [Some (replicate 32 7)] (ChannelTcp 1 2),
      RedeemOp 12 ''dev'' [1, 2] (ChannelTcp 1 2) (replicate 32 7),
      RedeemOp 13 ''dev'' [1, 2] (ChannelTcp 1 2) (replicate 32 7)] (replicate 32 7)"
  using binding_tokens_single_use [OF sample_store_new] by blast

text \<open>
  Redemption: a presented token is accepted exactly when it is pending and unexpired and the
  client, the session and the channel are those it was issued for; the binding returned carries
  that identity; and whether accepted or rejected, a known token is unknown afterwards, while every
  other token stays as it was.
\<close>

theorem redeem_spec:
  "(case fst (redeem now s client session kind token) of
      Inr binding \<Rightarrow> binding = \<lparr>cb_client_id = client, cb_session_id = session, cb_channel_kind = kind\<rparr>
    | Inl err \<Rightarrow> err = BindingRejected) \<and>
   is_ok (fst (redeem now s client session kind token)) =
     (length token = 32 \<and> client = cbs_client_id s \<and> session = cbs_session_id s \<and>
      (\<exists>p. map_of (cbs_pending s) token = Some p \<and> now < pb_expires_at p \<and> pb_channel_kind p = kind)) \<and>
   recognizes (snd (redeem now s client session kind token)) t = (recognizes s t \<and> t \<noteq> token)"
proof (intro conjI)
  show "case fst (redeem now s client session kind token) of
      Inr binding \<Rightarrow> binding = \<lparr>cb_client_id = client, cb_session_id = session, cb_channel_kind = kind\<rparr>
    | Inl err \<Rightarrow> err = BindingRejected"
    by (auto simp: redeem_def Let_def split: option.splits)
  show "is_ok (fst (redeem now s client session kind token)) =
     (length token = 32 \<and> client = cbs_client_id s \<and> session = cbs_session_id s \<and>
      (\<exists>p. map_of (cbs_pending s) token = Some p \<and> now < pb_expires_at p \<and> pb_channel_kind p = kind))"
    by (auto simp: is_ok_iff redeem_Inr_iff BINDING_TOKEN_BYTES_def)
  show "recognizes (snd (redeem now s client session kind token)) t = (recognizes s t \<and> t \<noteq> token)"
    using redeem_store [of now s client session kind token] by (auto simp: recognizes_remove)
qed

text \<open>
  Issuing: a token that \<open>issue\<close> returns was not pending before among the unexpired ones, is
  pending afterwards with the requested channel and an expiry one time-to-live ahead, and every
  unexpired token keeps its entry; an error leaves exactly the unexpired entries.
\<close>

theorem issue_spec:
  assumes "store_inv s" and "list_all (\<lambda>d. case d of None \<Rightarrow> True | Some t \<Rightarrow> length t = 32) draws"
  shows "case issue latest now draws s kind of
      (Inr token, s') \<Rightarrow>
        map_of (cbs_pending s') token =
          Some \<lparr>pb_channel_kind = kind, pb_expires_at = now + cbs_time_to_live s\<rparr> \<and>
        (case map_of (cbs_pending s) token of None \<Rightarrow> True | Some p \<Rightarrow> pb_expires_at p \<le> now) \<and>
        length token = 32 \<and>
        list_all (\<lambda>(t, p). pb_expires_at p \<le> now \<or> map_of (cbs_pending s') t = Some p) (cbs_pending s)
    | (Inl err, s') \<Rightarrow> s' = retain_unexpired now s"
proof -
  obtain res s' where r: "issue latest now draws s kind = (res, s')" by fastforce
  have dist: "distinct (map fst (cbs_pending s))" using assms(1) by (simp add: store_inv_def)
  note ret = map_of_filter_value [OF dist, of "\<lambda>b. pb_expires_at b > now", folded retain_unexpired_def]
  have draw: "Some t \<in> set draws \<Longrightarrow> length t = 32" for t
    using assms(2) by (force simp: list_all_iff)
  show ?thesis
  proof (cases res)
    case (Inl e)
    with issue_result [OF r] draw show ?thesis
      by (auto simp: r MAX_BINDING_TOKEN_BYTES_def split: if_splits)
  next
    case (Inr token)
    with issue_result [OF r] have t: "Some token \<in> set draws"
      "map_of (cbs_pending (retain_unexpired now s)) token = None" "s' = issued_store now s kind token"
      by (auto split: if_splits)
    have fresh: "case map_of (cbs_pending s) token of None \<Rightarrow> True | Some p \<Rightarrow> pb_expires_at p \<le> now"
      using t(2) ret [of token] by (auto simp: retain_unexpired_def split: option.splits if_splits)
    have kept: "pb_expires_at p \<le> now \<or> map_of (cbs_pending s') t = Some p" if "(t, p) \<in> set (cbs_pending s)" for t p
    proof (cases "pb_expires_at p \<le> now")
      case False
      have "map_of (cbs_pending s) t = Some p" using that dist by simp
      with False ret [of t] have "map_of (cbs_pending (retain_unexpired now s)) t = Some p"
        by (simp add: retain_unexpired_def)
      then show ?thesis by (simp add: t(3) issued_store_def Let_def map_add_Some_iff map_of_append)
    qed simp
    show ?thesis
      using t(2,3) fresh kept draw [OF t(1)]
      by (auto simp: r Inr issued_store_def Let_def list_all_iff map_of_append map_add_def)
  qed
qed

theorem issue_spec_witness:
  "map_of (cbs_pending (snd (issue 1000000 10 [None, Some (replicate 32 7)] sample_store (ChannelUdp 1 2)))) (replicate 32 7) = None \<and>
   map_of (cbs_pending (snd (issue 1000000 10 [Some (replicate 32 7)] sample_store (ChannelUdp 1 2)))) (replicate 32 7) =
     Some \<lparr>pb_channel_kind = ChannelUdp 1 2, pb_expires_at = 40\<rparr>"
proof -
  have inv: "store_inv sample_store" by (simp add: store_inv_def sample_store_def)
  note a = issue_spec [OF inv, where draws = "[None, Some (replicate 32 7)]" and latest = 1000000
      and now = 10 and kind = "ChannelUdp 1 2"]
  note b = issue_spec [OF inv, where draws = "[Some (replicate 32 7)]" and latest = 1000000
      and now = 10 and kind = "ChannelUdp 1 2"]
  obtain n where attempts: "MAX_TOKEN_GENERATION_ATTEMPTS = Suc n"
    by (rule that [of 15]) (simp add: MAX_TOKEN_GENERATION_ATTEMPTS_def)
  have run: "issue 1000000 10 [None, Some (replicate 32 7)] sample_store (ChannelUdp 1 2) =
      (Inl EntropyUnavailable, sample_store)"
    "issue 1000000 10 [Some (replicate 32 7)] sample_store (ChannelUdp 1 2) =
      (Inr (replicate 32 7), issued_store 10 sample_store (ChannelUdp 1 2) (replicate 32 7))"
    by (simp_all add: issue_def sample_store_def instant_checked_add_def attempts
        BoundedBytes_try_from_def MAX_BINDING_TOKEN_BYTES_def issued_store_def retain_unexpired_def)
  from a b show ?thesis
    unfolding run by (simp add: sample_store_def retain_unexpired_def)
qed

end
