(* ===== verification/Backoff.thy ===== *)
theory Backoff
  imports State_Machine
begin

text \<open>
  The reconnection backoff of \<open>rustgo-transport/src/backoff.rs\<close>. A \<open>Duration\<close> is its number of
  nanoseconds, at most \<open>DURATION_MAX\<close> (Rust's \<open>Duration::MAX\<close>), with the saturating operations
  written out. The clock and the jitter source are inputs of the operations; the jitter source may
  return any number, as the code clamps it. The theorems bound every delay, give the exponential
  schedule in closed form and say exactly when it is reset.
\<close>

definition NANOS_PER_SEC :: nat where "NANOS_PER_SEC = 1000000000"
definition DURATION_MAX :: nat where "DURATION_MAX = 2 ^ 64 * NANOS_PER_SEC - 1"

definition duration_saturating_add :: "nat \<Rightarrow> nat \<Rightarrow> nat" where
  "duration_saturating_add a b = min (a + b) DURATION_MAX"

definition duration_saturating_mul :: "nat \<Rightarrow> nat \<Rightarrow> nat" where
  "duration_saturating_mul a k = min (a * k) DURATION_MAX"

record BackoffConfig =
  bc_initial_delay :: nat
  bc_maximum_delay :: nat
  bc_jitter :: nat
  bc_stable_connection_reset_after :: nat

record Backoff =
  bo_config :: BackoffConfig
  bo_next_exponential_delay :: nat
  bo_connected_since :: "nat option"
  bo_completed_connection_was_stable :: bool

datatype BackoffError = InvalidBackoffConfiguration

definition with_sources :: "BackoffConfig \<Rightarrow> (BackoffError, Backoff) result" where
  "with_sources config =
     (if bc_initial_delay config = 0 \<or> bc_initial_delay config > bc_maximum_delay config \<or>
         bc_stable_connection_reset_after config = 0
      then Inl InvalidBackoffConfiguration
      else Inr \<lparr>bo_config = config, bo_next_exponential_delay = bc_initial_delay config,
        bo_connected_since = None, bo_completed_connection_was_stable = False\<rparr>)"

definition mark_connected :: "nat \<Rightarrow> Backoff \<Rightarrow> Backoff" where
  "mark_connected now self =
     self\<lparr>bo_connected_since := Some now, bo_completed_connection_was_stable := False\<rparr>"

definition mark_disconnected :: "nat \<Rightarrow> Backoff \<Rightarrow> Backoff" where
  "mark_disconnected now self =
     (case bo_connected_since self of
        None \<Rightarrow> self
      | Some since \<Rightarrow> self\<lparr>bo_connected_since := None,
          bo_completed_connection_was_stable :=
            (saturating_sub now since \<ge> bc_stable_connection_reset_after (bo_config self))\<rparr>)"

definition reset_attempts :: "Backoff \<Rightarrow> Backoff" where
  "reset_attempts self =
     self\<lparr>bo_next_exponential_delay := bc_initial_delay (bo_config self),
          bo_connected_since := None, bo_completed_connection_was_stable := False\<rparr>"

text \<open>The seconds are cast to 64 bits, which truncates; the nanoseconds are below \<open>10^9\<close>.\<close>

definition duration_from_nanos :: "nat \<Rightarrow> nat" where
  "duration_from_nanos nanoseconds =
     (nanoseconds div NANOS_PER_SEC) mod 2 ^ 64 * NANOS_PER_SEC + nanoseconds mod NANOS_PER_SEC"

text \<open>The first part of \<open>next_delay\<close>: forget the connection and reset if it was stable.\<close>

definition settle_attempts :: "nat \<Rightarrow> Backoff \<Rightarrow> Backoff" where
  "settle_attempts now self =
     (let active_connection_was_stable = (case bo_connected_since self of
            None \<Rightarrow> False
          | Some since \<Rightarrow> saturating_sub now since \<ge> bc_stable_connection_reset_after (bo_config self));
          completed_connection_was_stable = bo_completed_connection_was_stable self;
          self1 = self\<lparr>bo_connected_since := None, bo_completed_connection_was_stable := False\<rparr>
      in if active_connection_was_stable \<or> completed_connection_was_stable
         then reset_attempts self1 else self1)"

definition next_delay :: "nat \<Rightarrow> (nat \<Rightarrow> nat) \<Rightarrow> Backoff \<Rightarrow> nat \<times> Backoff" where
  "next_delay now sample self =
     (let self2 = settle_attempts now self; config = bo_config self2;
          exponential = bo_next_exponential_delay self2;
          self3 = self2\<lparr>bo_next_exponential_delay :=
            min (duration_saturating_mul exponential 2) (bc_maximum_delay config)\<rparr>;
          lower = saturating_sub exponential (bc_jitter config);
          upper = min (duration_saturating_add exponential (bc_jitter config)) (bc_maximum_delay config);
          span = saturating_sub upper lower;
          offset = min (sample span) span
      in (duration_saturating_add lower (duration_from_nanos offset), self3))"

subsection \<open>Well-formed configurations and the invariant\<close>

definition wf_config :: "BackoffConfig \<Rightarrow> bool" where
  "wf_config c \<longleftrightarrow> bc_initial_delay c \<le> DURATION_MAX \<and> bc_maximum_delay c \<le> DURATION_MAX \<and>
     bc_jitter c \<le> DURATION_MAX \<and> bc_stable_connection_reset_after c \<le> DURATION_MAX"

definition backoff_inv :: "BackoffConfig \<Rightarrow> Backoff \<Rightarrow> bool" where
  "backoff_inv c b \<longleftrightarrow> bo_config b = c \<and> 0 < bc_initial_delay c \<and>
     bc_initial_delay c \<le> bo_next_exponential_delay b \<and> bo_next_exponential_delay b \<le> bc_maximum_delay c"

definition was_stable :: "nat \<Rightarrow> Backoff \<Rightarrow> bool" where
  "was_stable now b \<longleftrightarrow> bo_completed_connection_was_stable b \<or>
     (case bo_connected_since b of None \<Rightarrow> False
      | Some since \<Rightarrow> bc_stable_connection_reset_after (bo_config b) \<le> now - since)"

definition current_exponential :: "nat \<Rightarrow> Backoff \<Rightarrow> nat" where
  "current_exponential now b =
     (if was_stable now b then bc_initial_delay (bo_config b) else bo_next_exponential_delay b)"

lemma duration_from_nanos_id: "n \<le> DURATION_MAX \<Longrightarrow> duration_from_nanos n = n"
proof -
  assume "n \<le> DURATION_MAX"
  then have "n div NANOS_PER_SEC < 2 ^ 64"
    by (simp add: DURATION_MAX_def NANOS_PER_SEC_def div_less_iff_less_mult)
  then have "duration_from_nanos n = n div NANOS_PER_SEC * NANOS_PER_SEC + n mod NANOS_PER_SEC"
    by (simp add: duration_from_nanos_def)
  then show ?thesis by simp
qed

definition delay_lower :: "BackoffConfig \<Rightarrow> nat \<Rightarrow> nat" where
  "delay_lower c e = e - bc_jitter c"

definition delay_upper :: "BackoffConfig \<Rightarrow> nat \<Rightarrow> nat" where
  "delay_upper c e = min (e + bc_jitter c) (bc_maximum_delay c)"

definition after_delay :: "nat \<Rightarrow> Backoff \<Rightarrow> Backoff" where
  "after_delay now b = b\<lparr>bo_connected_since := None, bo_completed_connection_was_stable := False,
     bo_next_exponential_delay := min (2 * current_exponential now b) (bc_maximum_delay (bo_config b))\<rparr>"

lemma saturated_min: "m \<le> DURATION_MAX \<Longrightarrow> min (min a DURATION_MAX) m = min a m"
  by simp

lemma next_delay_eq:
  assumes "wf_config c" and "backoff_inv c b"
  shows "next_delay now sample b =
    (let e = current_exponential now b; span = delay_upper c e - delay_lower c e
     in (delay_lower c e + min (sample span) span, after_delay now b))"
proof -
  have c: "bo_config b = c" "bc_maximum_delay c \<le> DURATION_MAX"
    using assms by (simp_all add: backoff_inv_def wf_config_def)
  define e where "e = current_exponential now b"
  define span where "span = delay_upper c e - delay_lower c e"
  have "e \<le> bc_maximum_delay c"
    using assms(2) by (auto simp: backoff_inv_def current_exponential_def e_def)
  then have "delay_lower c e + min x span \<le> DURATION_MAX" "min x span \<le> DURATION_MAX" for x
    using c(2) by (auto simp: span_def delay_lower_def delay_upper_def)
  then have delay: "duration_saturating_add (delay_lower c e) (duration_from_nanos (min x span)) =
      delay_lower c e + min x span" for x
    by (simp add: duration_from_nanos_id duration_saturating_add_def)
  have settled: "settle_attempts now b =
      b\<lparr>bo_connected_since := None, bo_completed_connection_was_stable := False,
        bo_next_exponential_delay := e\<rparr>"
    by (cases "bo_connected_since b")
      (simp_all add: settle_attempts_def e_def current_exponential_def was_stable_def reset_attempts_def)
  have upper: "min (duration_saturating_add e (bc_jitter c)) (bc_maximum_delay c) = delay_upper c e"
    and dbl: "min (duration_saturating_mul e 2) (bc_maximum_delay c) = min (2 * e) (bc_maximum_delay c)"
    using c(2)
    by (simp_all add: duration_saturating_add_def duration_saturating_mul_def delay_upper_def
        saturated_min mult.commute)
  have raw: "next_delay now sample b =
     (duration_saturating_add (delay_lower c e) (duration_from_nanos (min (sample span) span)), after_delay now b)"
    by (simp add: next_delay_def settled c(1) upper dbl Let_def delay_lower_def span_def after_delay_def
        e_def [symmetric])
  show ?thesis unfolding raw delay Let_def by (simp add: e_def [symmetric] span_def)
qed

subsection \<open>Sequences of operations\<close>

datatype backoff_op =
    OpConnected nat
  | OpDisconnected nat
  | OpDelay nat "nat \<Rightarrow> nat"

fun backoff_step :: "Backoff \<Rightarrow> backoff_op \<Rightarrow> (BackoffError, Backoff) result" where
  "backoff_step b (OpConnected now) = Inr (mark_connected now b)"
| "backoff_step b (OpDisconnected now) = Inr (mark_disconnected now b)"
| "backoff_step b (OpDelay now sample) = Inr (snd (next_delay now sample b))"

fun delays :: "Backoff \<Rightarrow> backoff_op list \<Rightarrow> nat list" where
  "delays b [] = []"
| "delays b (OpConnected now # ops) = delays (mark_connected now b) ops"
| "delays b (OpDisconnected now # ops) = delays (mark_disconnected now b) ops"
| "delays b (OpDelay now sample # ops) =
     fst (next_delay now sample b) # delays (snd (next_delay now sample b)) ops"

lemma inv_after_delay: "backoff_inv c b \<Longrightarrow> backoff_inv c (after_delay now b)"
  by (auto simp: backoff_inv_def after_delay_def current_exponential_def)

lemma inv_marks:
  "backoff_inv c b \<Longrightarrow> backoff_inv c (mark_connected now b)"
  "backoff_inv c b \<Longrightarrow> backoff_inv c (mark_disconnected now b)"
  by (simp_all add: backoff_inv_def mark_connected_def mark_disconnected_def split: option.splits)

lemma inv_with_sources: "with_sources c = Inr b \<Longrightarrow> backoff_inv c b"
  by (auto simp: with_sources_def backoff_inv_def split: if_splits)

lemma inv_backoff_step: "wf_config c \<Longrightarrow> backoff_inv c b \<Longrightarrow> backoff_step b op = Inr b' \<Longrightarrow> backoff_inv c b'"
  by (cases op) (auto simp: inv_marks next_delay_eq Let_def inv_after_delay)

lemma delay_in_band:
  assumes "wf_config c" and "backoff_inv c b"
  shows "bc_initial_delay c - bc_jitter c \<le> fst (next_delay now sample b) \<and>
    fst (next_delay now sample b) \<le> bc_maximum_delay c"
proof -
  define e where "e = current_exponential now b"
  define u where "u = delay_upper c e - delay_lower c e"
  have e: "bc_initial_delay c \<le> e" "e \<le> bc_maximum_delay c"
    using assms(2) by (auto simp: e_def current_exponential_def backoff_inv_def)
  have d: "fst (next_delay now sample b) = delay_lower c e + min (sample u) u"
    by (simp add: next_delay_eq [OF assms] Let_def e_def u_def)
  have "delay_lower c e \<le> delay_upper c e" "delay_upper c e \<le> bc_maximum_delay c"
    "bc_initial_delay c - bc_jitter c \<le> delay_lower c e"
    using e by (auto simp: delay_lower_def delay_upper_def)
  moreover have "min (sample u) u \<le> u" by simp
  ultimately show ?thesis unfolding d u_def by linarith
qed

lemma delays_in_band:
  assumes "wf_config c" and "backoff_inv c b"
  shows "list_all (\<lambda>d. bc_initial_delay c - bc_jitter c \<le> d \<and> d \<le> bc_maximum_delay c) (delays b ops)"
  using assms(2)
proof (induction ops arbitrary: b)
  case Nil
  then show ?case by simp
next
  case (Cons op ops)
  note inv = inv_backoff_step [OF assms(1) Cons.prems, of op]
  show ?case
    using Cons.IH inv delay_in_band [OF assms(1) Cons.prems] by (cases op) simp_all
qed

text \<open>
  Delays are bounded: whatever the jitter source returns and however connections come and go,
  every delay lies between the initial delay less the jitter and the maximum delay.
\<close>

theorem backoff_delays_bounded:
  assumes "wf_config c" and "with_sources c = Inr b"
  shows "list_all (\<lambda>d. bc_initial_delay c - bc_jitter c \<le> d \<and> d \<le> bc_maximum_delay c) (delays b ops)"
  using delays_in_band [OF assms(1) inv_with_sources [OF assms(2)]] .

definition sample_config :: BackoffConfig where
  "sample_config = \<lparr>bc_initial_delay = 1000, bc_maximum_delay = 60000, bc_jitter = 200,
     bc_stable_connection_reset_after = 30000\<rparr>"

definition sample_backoff :: Backoff where
  "sample_backoff = \<lparr>bo_config = sample_config, bo_next_exponential_delay = 1000,
     bo_connected_since = None, bo_completed_connection_was_stable = False\<rparr>"

lemma sample_config_wf: "wf_config sample_config"
  by (simp add: wf_config_def sample_config_def DURATION_MAX_def NANOS_PER_SEC_def)

lemma sample_backoff_new: "with_sources sample_config = Inr sample_backoff"
  by (simp add: with_sources_def sample_config_def sample_backoff_def)

theorem backoff_delays_bounded_witness:
  "list_all (\<lambda>d. 800 \<le> d \<and> d \<le> 60000)
     (delays sample_backoff [OpDelay 5 (\<lambda>span. 10 ^ 30), OpConnected 6, OpDelay 7 (\<lambda>span. 0)])"
  using backoff_delays_bounded [OF sample_config_wf sample_backoff_new,
      of "[OpDelay 5 (\<lambda>span. 10 ^ 30), OpConnected 6, OpDelay 7 (\<lambda>span. 0)]"]
  by (simp add: sample_config_def)

lemma delay_near_exponential:
  assumes "wf_config c" and "backoff_inv c b"
  shows "let e = current_exponential now b; d = fst (next_delay now sample b)
    in e - bc_jitter c \<le> d \<and> d \<le> min (e + bc_jitter c) (bc_maximum_delay c)"
proof -
  define e where "e = current_exponential now b"
  have "e \<le> bc_maximum_delay c"
    using assms(2) by (auto simp: backoff_inv_def current_exponential_def e_def)
  then have "delay_lower c e \<le> delay_upper c e" unfolding delay_lower_def delay_upper_def by linarith
  moreover have "fst (next_delay now sample b) =
      delay_lower c e + min (sample (delay_upper c e - delay_lower c e)) (delay_upper c e - delay_lower c e)"
    by (simp add: next_delay_eq [OF assms] Let_def e_def)
  ultimately have "delay_lower c e \<le> fst (next_delay now sample b)"
    "fst (next_delay now sample b) \<le> delay_upper c e"
    by linarith+
  then show ?thesis unfolding Let_def e_def [symmetric] delay_lower_def delay_upper_def ..
qed

lemma capped_doubling: "min (min (x * 2) m * 2 ^ k) m = min (x * 2 ^ Suc k) (m :: nat)"
proof (cases "x * 2 \<le> m")
  case True
  then show ?thesis by (simp add: mult.assoc)
next
  case False
  have "1 \<le> (2::nat) ^ k" by simp
  then have "m \<le> m * 2 ^ k" "x * 2 \<le> x * 2 * 2 ^ k" by (metis mult.right_neutral mult_le_mono2)+
  moreover have "x * 2 * 2 ^ k = x * 2 ^ Suc k" by simp
  ultimately have "m \<le> x * 2 ^ Suc k" "min (x * 2) m = m" using False by linarith+
  with \<open>m \<le> m * 2 ^ k\<close> show ?thesis by (simp del: power_Suc)
qed

definition idle :: "Backoff \<Rightarrow> bool" where
  "idle b \<longleftrightarrow> bo_connected_since b = None \<and> \<not> bo_completed_connection_was_stable b"

lemma idle_unstable: "idle b \<Longrightarrow> \<not> was_stable now b"
  by (simp add: idle_def was_stable_def)

definition delay_calls :: "Backoff \<Rightarrow> (nat \<times> (nat \<Rightarrow> nat)) list \<Rightarrow> Backoff" where
  "delay_calls b calls = foldl (\<lambda>b (now, sample). snd (next_delay now sample b)) b calls"

lemma delay_calls_state:
  assumes "wf_config c" and "backoff_inv c b" and "idle b"
  shows "backoff_inv c (delay_calls b calls) \<and> idle (delay_calls b calls) \<and>
    bo_next_exponential_delay (delay_calls b calls) =
      min (bo_next_exponential_delay b * 2 ^ length calls) (bc_maximum_delay c)"
  using assms(2,3)
proof (induction calls arbitrary: b)
  case Nil
  then show ?case by (simp add: delay_calls_def backoff_inv_def min_absorb1)
next
  case (Cons call calls)
  obtain now sample where call: "call = (now, sample)" by (cases call)
  let ?b = "after_delay now b"
  have nb: "snd (next_delay now sample b) = ?b"
    by (simp add: next_delay_eq [OF assms(1) Cons.prems(1)] Let_def)
  have step: "delay_calls b (call # calls) = delay_calls ?b calls"
    by (simp add: delay_calls_def call nb)
  have next_exp: "bo_next_exponential_delay ?b = min (bo_next_exponential_delay b * 2) (bc_maximum_delay c)"
    using Cons.prems(1) idle_unstable [OF Cons.prems(2)]
    by (simp add: after_delay_def current_exponential_def backoff_inv_def mult.commute)
  have "idle ?b" by (simp add: after_delay_def idle_def)
  from Cons.IH [OF inv_after_delay [OF Cons.prems(1)] this] show ?case
    unfolding step next_exp capped_doubling by simp
qed

text \<open>
  Exponential schedule: after \<open>k\<close> delays with no connection in between, the next delay is
  drawn around the initial delay times \<open>2^k\<close>, capped at the maximum: it differs from that
  value by at most the configured jitter.
\<close>

theorem backoff_exponential_schedule:
  assumes "wf_config c" and "with_sources c = Inr b"
  shows "let e = min (bc_initial_delay c * 2 ^ length calls) (bc_maximum_delay c);
             d = fst (next_delay now sample (delay_calls b calls))
    in e - bc_jitter c \<le> d \<and> d \<le> e + bc_jitter c"
proof -
  have b: "idle b" "bo_next_exponential_delay b = bc_initial_delay c"
    using assms(2) by (auto simp: with_sources_def idle_def split: if_splits)
  note k = delay_calls_state [OF assms(1) inv_with_sources [OF assms(2)] b(1), of calls]
  have "current_exponential now (delay_calls b calls) =
      min (bc_initial_delay c * 2 ^ length calls) (bc_maximum_delay c)"
    using k b(2) idle_unstable [of "delay_calls b calls" now] by (simp add: current_exponential_def)
  with delay_near_exponential [OF assms(1), of "delay_calls b calls" now sample] k show ?thesis
    by (simp add: Let_def)
qed

theorem backoff_exponential_schedule_witness:
  "let d = fst (next_delay 9 (\<lambda>_. 7) (delay_calls sample_backoff [(1, \<lambda>_. 0), (2, \<lambda>_. 0), (3, \<lambda>_. 0)]))
   in 8000 - 200 \<le> d \<and> d \<le> 8000 + 200"
  using backoff_exponential_schedule [OF sample_config_wf sample_backoff_new,
      where now = 9 and sample = "\<lambda>_. 7" and calls = "[(1, \<lambda>_. 0), (2, \<lambda>_. 0), (3, \<lambda>_. 0)]"]
  by (simp add: sample_config_def Let_def)

lemma inv_connection:
  "backoff_inv c b \<Longrightarrow> backoff_inv c (mark_disconnected t1 (mark_connected t0 b))"
  by (simp add: backoff_inv_def mark_connected_def mark_disconnected_def)

lemma exponential_after_connection:
  "current_exponential t2 (mark_disconnected t1 (mark_connected t0 b)) =
     (if bc_stable_connection_reset_after (bo_config b) \<le> t1 - t0
      then bc_initial_delay (bo_config b) else bo_next_exponential_delay b)"
  by (simp add: current_exponential_def was_stable_def mark_disconnected_def mark_connected_def)

text \<open>
  Only stable connections reset: after \<open>k\<close> delays, a connection that started at \<open>t0\<close> and lost
  its control channel at \<open>t1\<close>, the next delay is drawn around the initial value when the connection
  lasted for the configured time and around the value the schedule had reached when it did not,
  however long the draining until the delay at \<open>t2\<close> took.
\<close>

theorem backoff_reset_rule:
  assumes "wf_config c" and "with_sources c = Inr b"
  shows "let e = (if bc_stable_connection_reset_after c \<le> t1 - t0 then bc_initial_delay c
               else min (bc_initial_delay c * 2 ^ length calls) (bc_maximum_delay c));
             d = fst (next_delay t2 sample (mark_disconnected t1 (mark_connected t0 (delay_calls b calls))))
    in e - bc_jitter c \<le> d \<and> d \<le> e + bc_jitter c"
proof -
  have b: "idle b" "bo_next_exponential_delay b = bc_initial_delay c"
    using assms(2) by (auto simp: with_sources_def idle_def split: if_splits)
  note k = delay_calls_state [OF assms(1) inv_with_sources [OF assms(2)] b(1), of calls]
  then have inv: "backoff_inv c (delay_calls b calls)" by simp
  then have cfg: "bo_config (delay_calls b calls) = c" by (simp add: backoff_inv_def)
  define b' where "b' = mark_disconnected t1 (mark_connected t0 (delay_calls b calls))"
  have "current_exponential t2 b' =
      (if bc_stable_connection_reset_after c \<le> t1 - t0 then bc_initial_delay c
       else min (bc_initial_delay c * 2 ^ length calls) (bc_maximum_delay c))"
    using k b(2) cfg by (simp add: b'_def exponential_after_connection)
  moreover have "backoff_inv c b'" unfolding b'_def by (rule inv_connection [OF inv])
  note delay_near_exponential [OF assms(1) this, of t2 sample]
  ultimately show ?thesis unfolding b'_def [symmetric] Let_def by simp
qed

theorem backoff_reset_rule_witness:
  "let d = fst (next_delay 99 (\<lambda>_. 7)
       (mark_disconnected 40009 (mark_connected 9 (delay_calls sample_backoff [(1, \<lambda>_. 0), (2, \<lambda>_. 0)]))))
   in 800 \<le> d \<and> d \<le> 1200"
  using backoff_reset_rule [OF sample_config_wf sample_backoff_new, where calls = "[(1, \<lambda>_. 0), (2, \<lambda>_. 0)]"
      and ?t0.0 = 9 and ?t1.0 = 40009 and ?t2.0 = 99 and sample = "\<lambda>_. 7"]
  by (simp add: sample_config_def Let_def)

end
