(* ===== verification/Hash_Map.thy ===== *)
theory Hash_Map
  imports Prelude "HOL-Library.AList" "HOL-Library.Multiset"
begin

text \<open>
  The standard collections the server code keeps its state in. A \<open>HashMap\<close> is an association list
  with distinct keys: \<open>map_of\<close> looks up, \<open>hm_insert\<close> and \<open>hm_remove\<close> change one key, \<open>length\<close> counts
  the entries and \<open>hm_total\<close> adds up a weight of the values. A \<open>BTreeSet\<close> is a sorted list without
  repetitions. The lemmas say how one key's contribution moves in and out of a total, which is what
  the proofs about counters need.
\<close>

subsection \<open>Hash maps\<close>

type_synonym ('k, 'v) hashmap = "('k \<times> 'v) list"

definition hm_insert :: "'k \<Rightarrow> 'v \<Rightarrow> ('k, 'v) hashmap \<Rightarrow> ('k, 'v) hashmap" where
  "hm_insert k v m = AList.update k v m"

definition hm_remove :: "'k \<Rightarrow> ('k, 'v) hashmap \<Rightarrow> ('k, 'v) hashmap" where
  "hm_remove k m = filter (\<lambda>(k', _). k' \<noteq> k) m"

definition hm_ok :: "('k, 'v) hashmap \<Rightarrow> bool" where
  "hm_ok m \<longleftrightarrow> distinct (map fst m)"

definition hm_total :: "('v \<Rightarrow> nat) \<Rightarrow> ('k, 'v) hashmap \<Rightarrow> nat" where
  "hm_total f m = sum_list (map (\<lambda>(_, v). f v) m)"

definition hm_get_or :: "'v \<Rightarrow> ('k, 'v) hashmap \<Rightarrow> 'k \<Rightarrow> 'v" where
  "hm_get_or d m k = (case map_of m k of None \<Rightarrow> d | Some v \<Rightarrow> v)"

definition hm_modify :: "'k \<Rightarrow> ('v \<Rightarrow> 'v) \<Rightarrow> ('k, 'v) hashmap \<Rightarrow> ('k, 'v) hashmap" where
  "hm_modify k f m = (case map_of m k of None \<Rightarrow> m | Some v \<Rightarrow> hm_insert k (f v) m)"

lemma hm_ok_Nil [simp]: "hm_ok []"
  by (simp add: hm_ok_def)

lemma hm_total_Nil [simp]: "hm_total f [] = 0"
  by (simp add: hm_total_def)

lemma hm_total_Cons [simp]: "hm_total f ((k, v) # m) = f v + hm_total f m"
  by (simp add: hm_total_def)

lemma map_of_hm_insert [simp]: "map_of (hm_insert k v m) = (map_of m)(k \<mapsto> v)"
  by (simp add: hm_insert_def update_conv')

lemma map_of_hm_remove [simp]: "map_of (hm_remove k m) = (map_of m)(k := None)"
  by (induction m) (auto simp: hm_remove_def fun_eq_iff)

lemma hm_ok_insert [simp]: "hm_ok m \<Longrightarrow> hm_ok (hm_insert k v m)"
  by (simp add: hm_ok_def hm_insert_def distinct_update)

lemma hm_ok_remove [simp]: "hm_ok m \<Longrightarrow> hm_ok (hm_remove k m)"
  by (induction m) (auto simp: hm_ok_def hm_remove_def)

lemma set_hm_remove: "set (hm_remove k m) = {p \<in> set m. fst p \<noteq> k}"
  by (auto simp: hm_remove_def)

lemma hm_remove_absent: "map_of m k = None \<Longrightarrow> hm_remove k m = m"
  by (induction m) (auto simp: hm_remove_def)

lemma hm_insert_absent: "map_of m k = None \<Longrightarrow> hm_insert k v m = m @ [(k, v)]"
  by (induction m) (auto simp: hm_insert_def split: if_splits)

lemma hm_remove_idem [simp]: "hm_remove k (hm_remove k m) = hm_remove k m"
  by (simp add: hm_remove_def)

lemma set_hm_insert_absent: "map_of m k = None \<Longrightarrow> set (hm_insert k v m) = insert (k, v) (set m)"
  by (simp add: hm_insert_absent)

lemma hm_total_insert_absent: "map_of m k = None \<Longrightarrow> hm_total f (hm_insert k v m) = hm_total f m + f v"
  by (simp add: hm_insert_absent hm_total_def)

lemma length_insert_absent: "map_of m k = None \<Longrightarrow> length (hm_insert k v m) = Suc (length m)"
  by (simp add: hm_insert_absent)

lemma hm_ok_in_set: "hm_ok m \<Longrightarrow> (k, v) \<in> set m \<longleftrightarrow> map_of m k = Some v"
  by (auto simp: hm_ok_def map_of_eq_Some_iff)

lemma hm_remove_split:
  assumes "hm_ok m" and "map_of m k = Some v"
  shows "hm_total f m = f v + hm_total f (hm_remove k m) \<and> length m = Suc (length (hm_remove k m))"
  using assms
proof (induction m)
  case (Cons p m)
  obtain k' v' where p: "p = (k', v')" by (cases p)
  show ?case
  proof (cases "k' = k")
    case True
    with Cons.prems p have "map_of m k = None" by (auto simp: hm_ok_def map_of_eq_None_iff)
    then have "hm_remove k (p # m) = m"
      using True p hm_remove_absent [of m k] by (simp add: hm_remove_def)
    with True Cons.prems p show ?thesis by simp
  next
    case False
    with Cons p show ?thesis by (simp add: hm_ok_def hm_remove_def)
  qed
qed simp

lemma hm_total_remove:
  "hm_ok m \<Longrightarrow> map_of m k = Some v \<Longrightarrow> hm_total f m = f v + hm_total f (hm_remove k m)"
  by (simp add: hm_remove_split)

lemma length_hm_remove: "hm_ok m \<Longrightarrow> map_of m k = Some v \<Longrightarrow> length m = Suc (length (hm_remove k m))"
  by (simp add: hm_remove_split)

lemma length_hm_remove_le: "length (hm_remove k m) \<le> length m"
  by (simp add: hm_remove_def)

lemma hm_total_update:
  assumes "hm_ok m"
  shows "hm_total f (hm_insert k v m) + (case map_of m k of None \<Rightarrow> 0 | Some u \<Rightarrow> f u) = hm_total f m + f v"
  using assms
proof (induction m)
  case (Cons p m)
  obtain k' v' where p: "p = (k', v')" by (cases p)
  show ?case
  proof (cases "k' = k")
    case False
    with Cons p show ?thesis by (simp add: hm_ok_def hm_insert_def split: option.splits)
  qed (simp add: p hm_insert_def)
qed (simp add: hm_insert_def)

lemma hm_total_mono: "hm_ok m \<Longrightarrow> map_of m k = Some v \<Longrightarrow> f v \<le> hm_total f m"
  by (simp add: hm_total_remove)

lemma length_hm_insert: "length (hm_insert k v m) = (if map_of m k = None then Suc (length m) else length m)"
  by (induction m) (auto simp: hm_insert_def split: if_splits)

lemma map_of_hm_modify [simp]: "map_of (hm_modify k f m) = (map_of m)(k := map_option f (map_of m k))"
  by (auto simp: hm_modify_def fun_eq_iff split: option.split)

lemma hm_ok_modify [simp]: "hm_ok m \<Longrightarrow> hm_ok (hm_modify k f m)"
  by (simp add: hm_modify_def split: option.split)

lemma length_hm_modify [simp]: "length (hm_modify k f m) = length m"
  by (simp add: hm_modify_def length_hm_insert split: option.split)

lemma mset_insert_present:
  assumes "hm_ok m" and "map_of m k = Some v"
  shows "mset (hm_insert k v' m) = add_mset (k, v') (mset (hm_remove k m)) \<and> mset m = add_mset (k, v) (mset (hm_remove k m))"
  using assms
proof (induction m)
  case (Cons p m)
  obtain k1 v1 where p: "p = (k1, v1)" by (cases p)
  show ?case
  proof (cases "k1 = k")
    case True
    then have "map_of m k = None" using Cons.prems(1) p by (auto simp: hm_ok_def map_of_eq_None_iff)
    then have "hm_remove k m = m" by (rule hm_remove_absent)
    then show ?thesis using True Cons.prems p by (auto simp: hm_insert_def hm_remove_def)
  next
    case False
    then show ?thesis using Cons p by (auto simp: hm_insert_def hm_remove_def hm_ok_def)
  qed
qed simp

subsection \<open>Ordered sets\<close>

definition bts_insert :: "'a::linorder \<Rightarrow> 'a list \<Rightarrow> 'a list" where
  "bts_insert x xs = (if List.member xs x then xs else insort x xs)"

definition bts_remove :: "'a \<Rightarrow> 'a list \<Rightarrow> 'a list" where
  "bts_remove x xs = filter (\<lambda>y. y \<noteq> x) xs"

definition bts_ok :: "'a::linorder list \<Rightarrow> bool" where
  "bts_ok xs \<longleftrightarrow> sorted xs \<and> distinct xs"

lemma set_bts_insert [simp]: "set (bts_insert x xs) = insert x (set xs)"
  by (auto simp: bts_insert_def List.member_iff set_insort_key)

lemma set_bts_remove [simp]: "set (bts_remove x xs) = set xs - {x}"
  by (auto simp: bts_remove_def)

lemma bts_ok_Nil [simp]: "bts_ok []"
  by (simp add: bts_ok_def)

lemma bts_ok_insert [simp]: "bts_ok xs \<Longrightarrow> bts_ok (bts_insert x xs)"
  by (auto simp: bts_ok_def bts_insert_def List.member_iff sorted_insort distinct_insort)

lemma bts_ok_remove [simp]: "bts_ok xs \<Longrightarrow> bts_ok (bts_remove x xs)"
  by (auto simp: bts_ok_def bts_remove_def sorted_wrt_filter)

lemma bts_pop_first:
  "bts_ok (x # xs) \<Longrightarrow> bts_ok xs \<and> set xs = set (x # xs) - {x} \<and> (\<forall>y \<in> set xs. x \<le> y)"
  by (auto simp: bts_ok_def)

end
