(* ===== verification/Auth_Limiter.thy ===== *)
theory Auth_Limiter
  imports Hash_Map "HOL-Library.Product_Lexorder" "HOL-Library.List_Lexorder"
begin

unbundle bit_operations_syntax

text \<open>
  The admission limits of the server's control port (\<open>rustgos/src/auth.rs\<close>): the number of TLS
  handshakes in flight per peer, and the limiter of failed authentications, which keeps a history of
  recent failures per peer, a count of attempts in progress, two ordered indexes of idle histories
  from which it evicts when memory is short, an overflow count for attempts that cannot be tracked,
  and a sharded budget of attempts per window. Clocks are arguments; \<open>usize\<close> is \<open>nat\<close>, so a
  subtraction below zero, which would panic or wrap, is ruled out by the exactness of the counters
  in the invariant. The theorems: every counter is exact and every bound holds after any sequence
  of operations, and a peer with too many recent failures stays locked out until one expires,
  whatever the other peers do.
\<close>

subsection \<open>Peers\<close>

datatype IpAddr = IpV4 bytes | IpV6 bytes

datatype PeerBucket = BucketV4 bytes | V6Prefix64 bytes

text \<open>The derived order compares the variant first, then the bytes.\<close>

fun bucket_key :: "PeerBucket \<Rightarrow> nat \<times> bytes" where
  "bucket_key (BucketV4 bs) = (0, bs)"
| "bucket_key (V6Prefix64 bs) = (1, bs)"

lemma bucket_key_inj: "bucket_key a = bucket_key b \<Longrightarrow> a = b"
  by (cases a; cases b) auto

instantiation PeerBucket :: linorder
begin

definition less_eq_PeerBucket :: "PeerBucket \<Rightarrow> PeerBucket \<Rightarrow> bool" where
  "less_eq_PeerBucket a b \<longleftrightarrow> bucket_key a \<le> bucket_key b"

definition less_PeerBucket :: "PeerBucket \<Rightarrow> PeerBucket \<Rightarrow> bool" where
  "less_PeerBucket a b \<longleftrightarrow> bucket_key a < bucket_key b"

instance
  by standard (auto simp: less_eq_PeerBucket_def less_PeerBucket_def intro: bucket_key_inj)

end

definition to_ipv4_mapped :: "bytes \<Rightarrow> bytes option" where
  "to_ipv4_mapped os =
     (if take 12 os = replicate 10 0 @ [0xFF, 0xFF] then Some (drop 12 os) else None)"

fun PeerBucket_from :: "IpAddr \<Rightarrow> PeerBucket" where
  "PeerBucket_from (IpV4 os) = BucketV4 os"
| "PeerBucket_from (IpV6 os) =
     (case to_ipv4_mapped os of Some mapped \<Rightarrow> BucketV4 mapped | None \<Rightarrow> V6Prefix64 (take 8 os))"

definition AUTH_ATTEMPT_SHARDS_PER_FAMILY :: nat where "AUTH_ATTEMPT_SHARDS_PER_FAMILY = 8"
definition AUTH_ATTEMPT_SHARDS :: nat where "AUTH_ATTEMPT_SHARDS = AUTH_ATTEMPT_SHARDS_PER_FAMILY * 2"

definition fnv_hash :: "bytes \<Rightarrow> u64" where
  "fnv_hash bs = fold (\<lambda>b h. (h XOR ucast b) * 0x00000100000001b3) bs 0xcbf29ce484222325"

fun attempt_shard :: "PeerBucket \<Rightarrow> nat" where
  "attempt_shard (BucketV4 bs) = 0 + unat (fnv_hash bs mod of_nat AUTH_ATTEMPT_SHARDS_PER_FAMILY)"
| "attempt_shard (V6Prefix64 bs) =
     AUTH_ATTEMPT_SHARDS_PER_FAMILY + unat (fnv_hash bs mod of_nat AUTH_ATTEMPT_SHARDS_PER_FAMILY)"

subsection \<open>TLS handshakes in flight\<close>

record TlsHandshakeLimiter =
  tl_state :: "(PeerBucket, nat) hashmap"
  tl_max_in_flight_per_peer :: nat

definition TlsHandshakeLimiter_new :: "nat \<Rightarrow> TlsHandshakeLimiter" where
  "TlsHandshakeLimiter_new m = \<lparr>tl_state = [], tl_max_in_flight_per_peer = m\<rparr>"

definition try_acquire :: "IpAddr \<Rightarrow> TlsHandshakeLimiter \<Rightarrow> PeerBucket option \<times> TlsHandshakeLimiter" where
  "try_acquire addr self =
     (let peer = PeerBucket_from addr;
          in_flight = hm_get_or 0 (tl_state self) peer;
          state = hm_insert peer in_flight (tl_state self)
      in if in_flight \<ge> tl_max_in_flight_per_peer self then (None, self\<lparr>tl_state := state\<rparr>)
         else (Some peer, self\<lparr>tl_state := hm_insert peer (in_flight + 1) state\<rparr>))"

definition drop_permit :: "PeerBucket \<Rightarrow> TlsHandshakeLimiter \<Rightarrow> TlsHandshakeLimiter" where
  "drop_permit peer self =
     (case map_of (tl_state self) peer of
        None \<Rightarrow> self
      | Some in_flight \<Rightarrow>
          if in_flight - 1 = 0 then self\<lparr>tl_state := hm_remove peer (tl_state self)\<rparr>
          else self\<lparr>tl_state := hm_insert peer (in_flight - 1) (tl_state self)\<rparr>)"

subsection \<open>Failed authentications\<close>

record PeerAttempts =
  pa_failures :: "nat list"
  pa_pending :: nat

record AttemptBudgetShard =
  ab_window_started :: "nat option"
  ab_used :: nat
  ab_capacity :: nat

record FailedAuthState =
  fa_buckets :: "(PeerBucket, PeerAttempts) hashmap"
  fa_evictable :: "(nat \<times> PeerBucket) list"
  fa_protected :: "(nat \<times> PeerBucket) list"
  fa_budget :: "AttemptBudgetShard list"
  fa_overflow :: "(PeerBucket, nat) hashmap"
  fa_total_failures :: nat
  fa_total_pending :: nat
  fa_total_overflow :: nat

record FailedAuthLimiter =
  fl_max_attempts :: nat
  fl_window :: nat
  fl_max_tracked_peers :: nat
  fl_max_attempt_records :: nat

record AuthAttemptReservation =
  ar_peer :: PeerBucket
  ar_tracked :: bool
  ar_resolved :: bool

datatype ReservationOutcome = Succeeded | Failed | Neutral

definition FailedAuthState_new :: "nat \<Rightarrow> FailedAuthState" where
  "FailedAuthState_new max_attempts_per_window =
     (let base_capacity = max_attempts_per_window div AUTH_ATTEMPT_SHARDS;
          extra_capacity = max_attempts_per_window mod AUTH_ATTEMPT_SHARDS
      in \<lparr>fa_buckets = [], fa_evictable = [], fa_protected = [],
          fa_budget = map (\<lambda>shard. \<lparr>ab_window_started = None, ab_used = 0,
            ab_capacity = base_capacity + (if shard < extra_capacity then 1 else 0)\<rparr>)
            [0 ..< AUTH_ATTEMPT_SHARDS],
          fa_overflow = [], fa_total_failures = 0, fa_total_pending = 0, fa_total_overflow = 0\<rparr>)"

definition consume_attempt_budget ::
  "PeerBucket \<Rightarrow> nat \<Rightarrow> nat \<Rightarrow> FailedAuthState \<Rightarrow> bool \<times> FailedAuthState" where
  "consume_attempt_budget peer now window self =
     (let i = attempt_shard peer; shard = fa_budget self ! i;
          shard1 = (if (case ab_window_started shard of None \<Rightarrow> True | Some started \<Rightarrow> now - started \<ge> window)
            then shard\<lparr>ab_window_started := Some now, ab_used := 0\<rparr> else shard)
      in if ab_used shard1 \<ge> ab_capacity shard1
         then (False, self\<lparr>fa_budget := (fa_budget self)[i := shard1]\<rparr>)
         else (True, self\<lparr>fa_budget := (fa_budget self)[i := shard1\<lparr>ab_used := ab_used shard1 + 1\<rparr>]\<rparr>))"

definition refund_attempt_budget :: "PeerBucket \<Rightarrow> FailedAuthState \<Rightarrow> FailedAuthState" where
  "refund_attempt_budget peer self =
     (let i = attempt_shard peer; shard = fa_budget self ! i
      in self\<lparr>fa_budget := (fa_budget self)[i := shard\<lparr>ab_used := saturating_sub (ab_used shard) 1\<rparr>]\<rparr>)"

definition try_reserve_overflow :: "PeerBucket \<Rightarrow> nat \<Rightarrow> FailedAuthState \<Rightarrow> bool \<times> FailedAuthState" where
  "try_reserve_overflow peer peer_headroom self =
     (let pending = hm_get_or 0 (fa_overflow self) peer;
          overflow = hm_insert peer pending (fa_overflow self)
      in if pending \<ge> peer_headroom then (False, self\<lparr>fa_overflow := overflow\<rparr>)
         else (True, self\<lparr>fa_overflow := hm_insert peer (pending + 1) overflow,
                          fa_total_overflow := fa_total_overflow self + 1\<rparr>))"

definition overflow_pending_for :: "FailedAuthState \<Rightarrow> PeerBucket \<Rightarrow> nat" where
  "overflow_pending_for self peer = hm_get_or 0 (fa_overflow self) peer"

definition release_overflow :: "PeerBucket \<Rightarrow> FailedAuthState \<Rightarrow> bool \<times> FailedAuthState" where
  "release_overflow peer self =
     (case map_of (fa_overflow self) peer of
        None \<Rightarrow> (False, self)
      | Some pending \<Rightarrow>
          if pending = 0 then (False, self)
          else (True, self\<lparr>fa_total_overflow := fa_total_overflow self - 1,
            fa_overflow := (if pending - 1 = 0 then hm_remove peer (fa_overflow self)
              else hm_insert peer (pending - 1) (fa_overflow self))\<rparr>))"

text \<open>\<open>failures.back()\<close> with the removal of its key from both indexes.\<close>

definition unindex :: "PeerBucket \<Rightarrow> PeerAttempts \<Rightarrow> FailedAuthState \<Rightarrow> FailedAuthState" where
  "unindex peer bucket self =
     (if pa_pending bucket = 0 \<and> pa_failures bucket \<noteq> []
      then let key = (last (pa_failures bucket), peer)
           in self\<lparr>fa_evictable := bts_remove key (fa_evictable self),
                   fa_protected := bts_remove key (fa_protected self)\<rparr>
      else self)"

definition clear_peer_failures :: "PeerBucket \<Rightarrow> FailedAuthState \<Rightarrow> FailedAuthState" where
  "clear_peer_failures peer self =
     (case map_of (fa_buckets self) peer of
        None \<Rightarrow> self
      | Some bucket \<Rightarrow>
          let self1 = self\<lparr>fa_buckets := hm_remove peer (fa_buckets self)\<rparr>;
              self2 = unindex peer bucket self1;
              self3 = self2\<lparr>fa_total_failures := fa_total_failures self2 - length (pa_failures bucket)\<rparr>
          in if pa_pending bucket \<noteq> 0
             then self3\<lparr>fa_buckets := hm_insert peer (bucket\<lparr>pa_failures := []\<rparr>) (fa_buckets self3)\<rparr>
             else self3)"

definition insert_bucket :: "PeerBucket \<Rightarrow> PeerAttempts \<Rightarrow> nat \<Rightarrow> FailedAuthState \<Rightarrow> FailedAuthState" where
  "insert_bucket peer bucket max_attempts self =
     (if pa_pending bucket = 0 \<and> pa_failures bucket = [] then self
      else
        let key = (last (pa_failures bucket), peer);
            self1 = (if pa_pending bucket = 0 \<and> pa_failures bucket \<noteq> []
              then if length (pa_failures bucket) \<ge> max_attempts
                then self\<lparr>fa_protected := bts_insert key (fa_protected self)\<rparr>
                else self\<lparr>fa_evictable := bts_insert key (fa_evictable self)\<rparr>
              else self)
        in self1\<lparr>fa_buckets := hm_insert peer bucket (fa_buckets self1)\<rparr>)"

definition evict_one_low_value_idle :: "FailedAuthState \<Rightarrow> bool \<times> FailedAuthState" where
  "evict_one_low_value_idle self =
     (case fa_evictable self of
        [] \<Rightarrow> (False, self)
      | (t, peer) # rest \<Rightarrow>
          let self1 = self\<lparr>fa_evictable := rest\<rparr>
          in (case map_of (fa_buckets self1) peer of
                None \<Rightarrow> (False, self1)
              | Some bucket \<Rightarrow>
                  (True, self1\<lparr>fa_buckets := hm_remove peer (fa_buckets self1),
                     fa_total_failures := fa_total_failures self1 - length (pa_failures bucket)\<rparr>)))"

definition reclaim_one_expired_protected :: "nat \<Rightarrow> nat \<Rightarrow> FailedAuthState \<Rightarrow> bool \<times> FailedAuthState" where
  "reclaim_one_expired_protected now window self =
     (case fa_protected self of
        [] \<Rightarrow> (False, self)
      | (last_failure, peer) # rest \<Rightarrow>
          if now - last_failure < window then (False, self)
          else
            let self1 = self\<lparr>fa_protected := rest\<rparr>
            in (case map_of (fa_buckets self1) peer of
                  None \<Rightarrow> (False, self1)
                | Some bucket \<Rightarrow>
                    (True, self1\<lparr>fa_buckets := hm_remove peer (fa_buckets self1),
                       fa_total_failures := fa_total_failures self1 - length (pa_failures bucket)\<rparr>)))"

definition trim_expired :: "nat list \<Rightarrow> nat \<Rightarrow> nat \<Rightarrow> nat \<times> nat list" where
  "trim_expired attempts now window =
     (let kept = dropWhile (\<lambda>attempt. now - attempt \<ge> window) attempts
      in (length attempts - length kept, kept))"

text \<open>
  The body of the \<open>while\<close> loop of \<open>reserve\<close> either frees memory and goes round again, or settles the
  reservation: \<open>Inl\<close> the result of the early return, \<open>Inr\<close> the state after the loop.
\<close>

definition reserve_pressure :: "FailedAuthLimiter \<Rightarrow> bool \<Rightarrow> FailedAuthState \<Rightarrow> bool" where
  "reserve_pressure l is_new_peer s \<longleftrightarrow>
     is_new_peer \<and> length (fa_buckets s) \<ge> fl_max_tracked_peers l \<or>
     fa_total_failures s + fa_total_pending s \<ge> fl_max_attempt_records l"

definition reinsert :: "FailedAuthLimiter \<Rightarrow> PeerBucket \<Rightarrow> PeerAttempts option \<Rightarrow> FailedAuthState \<Rightarrow> FailedAuthState" where
  "reinsert l peer bucket s =
     (case bucket of None \<Rightarrow> s | Some b \<Rightarrow> insert_bucket peer b (fl_max_attempts l) s)"

definition reserve_overflow ::
  "FailedAuthLimiter \<Rightarrow> PeerBucket \<Rightarrow> PeerAttempts option \<Rightarrow> nat \<Rightarrow> FailedAuthState
     \<Rightarrow> AuthAttemptReservation option \<times> FailedAuthState" where
  "reserve_overflow l peer bucket tracked_peer_records s =
     (let overflow_headroom = fl_max_attempts l - tracked_peer_records;
          refused = (\<lambda>s'. (None, refund_attempt_budget peer (reinsert l peer bucket s')))
      in if fa_total_failures s = 0 \<or>
            fa_total_pending s + fa_total_overflow s \<ge> fl_max_attempt_records l
         then refused s
         else case try_reserve_overflow peer overflow_headroom s of
           (False, s') \<Rightarrow> refused s'
         | (True, s') \<Rightarrow>
             (Some \<lparr>ar_peer = peer, ar_tracked = False, ar_resolved = False\<rparr>, reinsert l peer bucket s'))"

function reserve_loop ::
  "FailedAuthLimiter \<Rightarrow> PeerBucket \<Rightarrow> PeerAttempts option \<Rightarrow> nat \<Rightarrow> nat \<Rightarrow> FailedAuthState
     \<Rightarrow> (AuthAttemptReservation option \<times> FailedAuthState) + FailedAuthState" where
  "reserve_loop l peer bucket records now s =
     (if \<not> reserve_pressure l (bucket = None) s then Inr s
      else case evict_one_low_value_idle s of
        (True, s1) \<Rightarrow> reserve_loop l peer bucket records now s1
      | (False, s1) \<Rightarrow>
          (case reclaim_one_expired_protected now (fl_window l) s1 of
             (True, s2) \<Rightarrow> reserve_loop l peer bucket records now s2
           | (False, s2) \<Rightarrow> Inl (reserve_overflow l peer bucket records s2)))"
  by auto

definition index_size :: "FailedAuthState \<Rightarrow> nat" where
  "index_size s = length (fa_evictable s) + length (fa_protected s)"

lemma evict_index_size:
  "evict_one_low_value_idle s = (True, s') \<Longrightarrow> index_size s' < index_size s"
  "evict_one_low_value_idle s = (False, s') \<Longrightarrow> index_size s' \<le> index_size s"
  by (auto simp: evict_one_low_value_idle_def index_size_def Let_def split: list.splits option.splits)

lemma reclaim_index_size:
  "reclaim_one_expired_protected now w s = (True, s') \<Longrightarrow> index_size s' < index_size s"
  by (auto simp: reclaim_one_expired_protected_def index_size_def Let_def
      split: list.splits option.splits if_splits)

termination reserve_loop
  by (relation "measure (\<lambda>(_, _, _, _, _, s). index_size s)")
    (auto dest: evict_index_size(1) [OF sym]
      less_le_trans [OF reclaim_index_size [OF sym] evict_index_size(2) [OF sym]])

text \<open>The peer's history is taken out of the map and trimmed.\<close>

definition open_bucket ::
  "FailedAuthLimiter \<Rightarrow> nat \<Rightarrow> PeerBucket \<Rightarrow> FailedAuthState \<Rightarrow> PeerAttempts option \<times> FailedAuthState" where
  "open_bucket l now peer self =
     (let s0 = self\<lparr>fa_buckets := hm_remove peer (fa_buckets self)\<rparr>
      in case map_of (fa_buckets self) peer of
           None \<Rightarrow> (None, s0)
         | Some existing \<Rightarrow>
             let s1 = unindex peer existing s0;
                 (removed, kept) = trim_expired (pa_failures existing) now (fl_window l)
             in (Some (existing\<lparr>pa_failures := kept\<rparr>),
                 s1\<lparr>fa_total_failures := fa_total_failures s1 - removed\<rparr>))"

definition reserve ::
  "FailedAuthLimiter \<Rightarrow> nat \<Rightarrow> IpAddr \<Rightarrow> FailedAuthState \<Rightarrow> AuthAttemptReservation option \<times> FailedAuthState" where
  "reserve l now addr self =
     (let peer = PeerBucket_from addr;
          (bucket, s1) = open_bucket l now peer self;
          tracked_peer_records = (case bucket of None \<Rightarrow> 0
            | Some existing \<Rightarrow> length (pa_failures existing) + pa_pending existing)
      in if tracked_peer_records + overflow_pending_for s1 peer \<ge> fl_max_attempts l
         then (None, reinsert l peer bucket s1)
         else if fa_total_pending s1 + fa_total_overflow s1 \<ge> fl_max_attempt_records l
         then (None, reinsert l peer bucket s1)
         else case consume_attempt_budget peer now (fl_window l) s1 of
           (False, s2) \<Rightarrow> (None, reinsert l peer bucket s2)
         | (True, s2) \<Rightarrow>
             (case reserve_loop l peer bucket tracked_peer_records now s2 of
                Inl settled \<Rightarrow> settled
              | Inr s3 \<Rightarrow>
                  let b = (case bucket of None \<Rightarrow> \<lparr>pa_failures = [], pa_pending = 0\<rparr> | Some b \<Rightarrow> b);
                      b1 = b\<lparr>pa_pending := pa_pending b + 1\<rparr>
                  in (Some \<lparr>ar_peer = peer, ar_tracked = True, ar_resolved = False\<rparr>,
                      s3\<lparr>fa_total_pending := fa_total_pending s3 + 1,
                         fa_buckets := hm_insert peer b1 (fa_buckets s3)\<rparr>)))"

definition resolve_overflow :: "PeerBucket \<Rightarrow> ReservationOutcome \<Rightarrow> FailedAuthState \<Rightarrow> FailedAuthState" where
  "resolve_overflow peer outcome self =
     (let (released, s) = release_overflow peer self
      in if released \<and> outcome = Succeeded then clear_peer_failures peer s else s)"

definition settle_bucket ::
  "ReservationOutcome \<Rightarrow> nat \<Rightarrow> PeerAttempts \<Rightarrow> nat \<Rightarrow> PeerAttempts \<times> nat" where
  "settle_bucket outcome now bucket records =
     (case outcome of
        Succeeded \<Rightarrow> (bucket\<lparr>pa_failures := []\<rparr>, records - length (pa_failures bucket))
      | Failed \<Rightarrow> (bucket\<lparr>pa_failures := pa_failures bucket @ [now]\<rparr>, records + 1)
      | Neutral \<Rightarrow> (bucket, records))"

definition resolve ::
  "FailedAuthLimiter \<Rightarrow> nat \<Rightarrow> nat \<Rightarrow> PeerBucket \<Rightarrow> bool \<Rightarrow> ReservationOutcome \<Rightarrow> FailedAuthState \<Rightarrow> FailedAuthState" where
  "resolve l now now' peer tracked outcome self =
     (if \<not> tracked then resolve_overflow peer outcome self
      else case map_of (fa_buckets self) peer of
        None \<Rightarrow> self
      | Some bucket \<Rightarrow>
          let s0 = self\<lparr>fa_buckets := hm_remove peer (fa_buckets self)\<rparr>
          in if pa_pending bucket = 0 then insert_bucket peer bucket (fl_max_attempts l) s0
             else
               let s1 = s0\<lparr>fa_total_pending := fa_total_pending s0 - 1\<rparr>;
                   (removed, kept) = trim_expired (pa_failures bucket) now (fl_window l);
                   b1 = bucket\<lparr>pa_pending := pa_pending bucket - 1, pa_failures := kept\<rparr>;
                   (b2, records) = settle_bucket outcome now' b1 (fa_total_failures s1 - removed);
                   s2 = s1\<lparr>fa_total_failures := records\<rparr>
               in if pa_pending b2 \<noteq> 0 \<or> pa_failures b2 \<noteq> []
                  then insert_bucket peer b2 (fl_max_attempts l) s2 else s2)"


text \<open>
  \<open>succeed\<close>, \<open>fail\<close> and dropping the reservation all go through \<open>finish\<close>, which resolves it once.
\<close>

definition finish ::
  "FailedAuthLimiter \<Rightarrow> nat \<Rightarrow> nat \<Rightarrow> ReservationOutcome \<Rightarrow> AuthAttemptReservation \<Rightarrow> FailedAuthState
     \<Rightarrow> AuthAttemptReservation \<times> FailedAuthState" where
  "finish l now now' outcome self s =
     (if \<not> ar_resolved self
      then (self\<lparr>ar_resolved := True\<rparr>, resolve l now now' (ar_peer self) (ar_tracked self) outcome s)
      else (self, s))"

subsection \<open>Invariants\<close>

definition bucket_failures :: "PeerAttempts \<Rightarrow> nat" where
  "bucket_failures b = length (pa_failures b)"

definition idle_keys :: "(PeerAttempts \<Rightarrow> bool) \<Rightarrow> (PeerBucket, PeerAttempts) hashmap \<Rightarrow> (nat \<times> PeerBucket) set" where
  "idle_keys P m =
     {(last (pa_failures b), p) | p b. map_of m p = Some b \<and> pa_pending b = 0 \<and> P b}"

text \<open>The two indexes list exactly the idle histories, split at the threshold.\<close>

definition index_inv :: "nat \<Rightarrow> FailedAuthState \<Rightarrow> bool" where
  "index_inv m s \<longleftrightarrow> hm_ok (fa_buckets s) \<and> bts_ok (fa_evictable s) \<and> bts_ok (fa_protected s) \<and>
     set (fa_evictable s) = idle_keys (\<lambda>b. bucket_failures b < m) (fa_buckets s) \<and>
     set (fa_protected s) = idle_keys (\<lambda>b. m \<le> bucket_failures b) (fa_buckets s) \<and>
     (\<forall>p b. map_of (fa_buckets s) p = Some b \<longrightarrow> pa_pending b \<noteq> 0 \<or> pa_failures b \<noteq> [])"

text \<open>The counters are exact, up to the contribution of a bucket that was taken out of the map.\<close>

definition accounts :: "nat \<Rightarrow> nat \<Rightarrow> FailedAuthState \<Rightarrow> bool" where
  "accounts df dp s \<longleftrightarrow>
     fa_total_failures s = hm_total bucket_failures (fa_buckets s) + df \<and>
     fa_total_pending s = hm_total pa_pending (fa_buckets s) + dp"

definition overflow_inv :: "FailedAuthState \<Rightarrow> bool" where
  "overflow_inv s \<longleftrightarrow> hm_ok (fa_overflow s) \<and> fa_total_overflow s = hm_total (\<lambda>n. n) (fa_overflow s)"

definition budget_inv :: "FailedAuthState \<Rightarrow> bool" where
  "budget_inv s \<longleftrightarrow> length (fa_budget s) = AUTH_ATTEMPT_SHARDS \<and>
     list_all (\<lambda>sh. ab_used sh \<le> ab_capacity sh) (fa_budget s)"

definition same_but_buckets :: "FailedAuthState \<Rightarrow> FailedAuthState \<Rightarrow> bool" where
  "same_but_buckets s s' \<longleftrightarrow> fa_budget s' = fa_budget s \<and> fa_overflow s' = fa_overflow s \<and>
     fa_total_overflow s' = fa_total_overflow s"

lemma mem_idle_keys:
  "k \<in> idle_keys P m \<longleftrightarrow>
     (\<exists>b. map_of m (snd k) = Some b \<and> pa_pending b = 0 \<and> P b \<and> fst k = last (pa_failures b))"
  by (cases k) (auto simp: idle_keys_def)

lemma idle_keys_remove:
  assumes "map_of m p = Some b"
  shows "idle_keys P (hm_remove p m) =
    (if pa_pending b = 0 then idle_keys P m - {(last (pa_failures b), p)} else idle_keys P m)"
proof (rule set_eqI)
  fix k
  show "k \<in> idle_keys P (hm_remove p m) \<longleftrightarrow> k \<in>
    (if pa_pending b = 0 then idle_keys P m - {(last (pa_failures b), p)} else idle_keys P m)"
    using assms by (cases "snd k = p") (auto simp: mem_idle_keys prod_eq_iff)
qed

lemma idle_keys_insert:
  assumes "map_of m p = None"
  shows "idle_keys P (hm_insert p b m) =
    (if pa_pending b = 0 \<and> P b then insert (last (pa_failures b), p) (idle_keys P m) else idle_keys P m)"
proof (rule set_eqI)
  fix k
  show "k \<in> idle_keys P (hm_insert p b m) \<longleftrightarrow> k \<in>
    (if pa_pending b = 0 \<and> P b then insert (last (pa_failures b), p) (idle_keys P m) else idle_keys P m)"
    using assms by (cases "snd k = p") (auto simp: mem_idle_keys prod_eq_iff)
qed

lemma detach_bucket:
  assumes "index_inv m s" and "accounts 0 0 s" and "map_of (fa_buckets s) p = Some b"
  defines "s' \<equiv> unindex p b (s\<lparr>fa_buckets := hm_remove p (fa_buckets s)\<rparr>)"
  shows "index_inv m s'" and "accounts (bucket_failures b) (pa_pending b) s'"
    and "fa_buckets s' = hm_remove p (fa_buckets s)" and "same_but_buckets s s'"
    and "fa_total_pending s' = fa_total_pending s" and "fa_total_failures s' = fa_total_failures s"
proof -
  have ok: "hm_ok (fa_buckets s)" and ne: "pa_pending b \<noteq> 0 \<or> pa_failures b \<noteq> []"
    using assms by (auto simp: index_inv_def)
  show buckets: "fa_buckets s' = hm_remove p (fa_buckets s)" and "same_but_buckets s s'"
    and "fa_total_pending s' = fa_total_pending s" and "fa_total_failures s' = fa_total_failures s"
    by (auto simp: s'_def unindex_def same_but_buckets_def Let_def)
  show "accounts (bucket_failures b) (pa_pending b) s'"
    using assms(2) hm_total_remove [OF ok assms(3), of bucket_failures]
      hm_total_remove [OF ok assms(3), of pa_pending]
    by (simp add: accounts_def buckets s'_def unindex_def Let_def)
  have "pa_pending b = 0 \<Longrightarrow> pa_failures b \<noteq> []" using ne by simp
  then have "set (fa_evictable s') = idle_keys (\<lambda>b. bucket_failures b < m) (fa_buckets s')"
    "set (fa_protected s') = idle_keys (\<lambda>b. m \<le> bucket_failures b) (fa_buckets s')"
    using assms(1) unfolding buckets idle_keys_remove [OF assms(3)] by (auto simp: index_inv_def s'_def unindex_def Let_def)
  moreover have "bts_ok (fa_evictable s')" "bts_ok (fa_protected s')"
    using assms(1) by (auto simp: index_inv_def s'_def unindex_def Let_def)
  ultimately show "index_inv m s'"
    using assms(1) ok by (auto simp: index_inv_def buckets split: if_splits)
qed

lemma attach_bucket:
  assumes "index_inv m s" and "accounts (bucket_failures b) (pa_pending b) s"
    and "map_of (fa_buckets s) p = None"
  defines "s' \<equiv> insert_bucket p b m s"
  shows "index_inv m s'" and "accounts 0 0 s'"
    and "fa_buckets s' = (if pa_pending b = 0 \<and> pa_failures b = [] then fa_buckets s
          else hm_insert p b (fa_buckets s))"
    and "same_but_buckets s s'"
    and "fa_total_pending s' = fa_total_pending s" and "fa_total_failures s' = fa_total_failures s"
proof -
  show buckets: "fa_buckets s' = (if pa_pending b = 0 \<and> pa_failures b = [] then fa_buckets s
      else hm_insert p b (fa_buckets s))"
    and "same_but_buckets s s'"
    and "fa_total_pending s' = fa_total_pending s" and "fa_total_failures s' = fa_total_failures s"
    by (auto simp: s'_def insert_bucket_def same_but_buckets_def Let_def)
  show "accounts 0 0 s'"
    using assms(2) hm_total_insert_absent [OF assms(3), of bucket_failures b]
      hm_total_insert_absent [OF assms(3), of pa_pending b]
    by (auto simp: accounts_def buckets s'_def insert_bucket_def Let_def bucket_failures_def)
  show "index_inv m s'"
  proof (cases "pa_pending b = 0 \<and> pa_failures b = []")
    case True
    then show ?thesis using assms(1) by (simp add: s'_def insert_bucket_def)
  next
    case False
    have "set (fa_evictable s') = idle_keys (\<lambda>b. bucket_failures b < m) (fa_buckets s')"
      "set (fa_protected s') = idle_keys (\<lambda>b. m \<le> bucket_failures b) (fa_buckets s')"
      using False assms(1) unfolding buckets
      by (auto simp: idle_keys_insert [OF assms(3)] index_inv_def s'_def insert_bucket_def Let_def
          bucket_failures_def)
    moreover have "bts_ok (fa_evictable s')" "bts_ok (fa_protected s')"
      using assms(1) by (auto simp: index_inv_def s'_def insert_bucket_def Let_def)
    ultimately show ?thesis
      using assms(1) False by (auto simp: index_inv_def buckets split: if_splits)
  qed
qed

subsection \<open>Eviction\<close>

text \<open>
  What freeing memory may do: some idle histories below the threshold, or with their last failure
  expired, disappear; nothing else changes.
\<close>

definition evicts :: "FailedAuthLimiter \<Rightarrow> nat \<Rightarrow> FailedAuthState \<Rightarrow> FailedAuthState \<Rightarrow> bool" where
  "evicts l now s s' \<longleftrightarrow> same_but_buckets s s' \<and> fa_total_pending s' = fa_total_pending s \<and>
     fa_total_failures s' \<le> fa_total_failures s \<and> length (fa_buckets s') \<le> length (fa_buckets s) \<and>
     (\<forall>q. map_of (fa_buckets s') q = map_of (fa_buckets s) q \<or>
        map_of (fa_buckets s') q = None \<and>
        (\<exists>b. map_of (fa_buckets s) q = Some b \<and> pa_pending b = 0 \<and>
          (bucket_failures b < fl_max_attempts l \<or> fl_window l \<le> now - last (pa_failures b))))"

lemma evicts_refl: "evicts l now s s"
  by (simp add: evicts_def same_but_buckets_def)

lemma evicts_trans:
  assumes "evicts l now s1 s2" and "evicts l now s2 s3"
  shows "evicts l now s1 s3"
proof -
  have "map_of (fa_buckets s3) q = map_of (fa_buckets s1) q \<or>
        map_of (fa_buckets s3) q = None \<and>
        (\<exists>b. map_of (fa_buckets s1) q = Some b \<and> pa_pending b = 0 \<and>
          (bucket_failures b < fl_max_attempts l \<or> fl_window l \<le> now - last (pa_failures b)))" for q
    using assms unfolding evicts_def by metis
  then show ?thesis using assms by (auto simp: evicts_def same_but_buckets_def)
qed

lemma evicts_absent: "evicts l now s s' \<Longrightarrow> map_of (fa_buckets s) q = None \<Longrightarrow> map_of (fa_buckets s') q = None"
  unfolding evicts_def by metis

text \<open>Removing an idle history together with its index entry.\<close>

lemma drop_idle:
  assumes "index_inv m s" and "accounts df dp s" and "map_of (fa_buckets s) q = Some b"
    and "pa_pending b = 0" and "fa_buckets s' = hm_remove q (fa_buckets s)"
    and "bts_ok (fa_evictable s')" and "bts_ok (fa_protected s')"
    and "set (fa_evictable s') = set (fa_evictable s) - {(last (pa_failures b), q)}"
    and "set (fa_protected s') = set (fa_protected s) - {(last (pa_failures b), q)}"
    and "fa_total_failures s' = fa_total_failures s - bucket_failures b"
    and "fa_total_pending s' = fa_total_pending s"
  shows "index_inv m s' \<and> accounts df dp s'"
proof -
  have ok: "hm_ok (fa_buckets s)" using assms(1) by (simp add: index_inv_def)
  have "accounts df dp s'"
    using assms(2,4,5,10,11) hm_total_remove [OF ok assms(3), of bucket_failures]
      hm_total_remove [OF ok assms(3), of pa_pending]
    by (simp add: accounts_def)
  moreover have "index_inv m s'"
    using assms(1,4-9) ok unfolding index_inv_def assms(5) idle_keys_remove [OF assms(3)]
    by (auto split: if_splits)
  ultimately show ?thesis by simp
qed

lemma evict_one_result:
  assumes "index_inv (fl_max_attempts l) s" and "accounts df dp s"
    and "evict_one_low_value_idle s = (freed, s')"
  shows "index_inv (fl_max_attempts l) s' \<and> accounts df dp s' \<and> evicts l now s s' \<and> (\<not> freed \<longrightarrow> s' = s)"
proof (cases "fa_evictable s")
  case Nil
  then show ?thesis using assms evicts_refl by (simp add: evict_one_low_value_idle_def)
next
  case (Cons k rest)
  obtain t q where k: "k = (t, q)" by (cases k)
  let ?m = "fl_max_attempts l"
  have "k \<in> idle_keys (\<lambda>b. bucket_failures b < ?m) (fa_buckets s)"
    using Cons assms(1) by (auto simp: index_inv_def)
  then obtain b where b: "map_of (fa_buckets s) q = Some b" "pa_pending b = 0" "bucket_failures b < ?m"
    "t = last (pa_failures b)"
    by (auto simp: mem_idle_keys k)
  have "(t, q) \<notin> set (fa_protected s)"
    using assms(1) b by (auto simp: index_inv_def mem_idle_keys)
  then have prot: "set (fa_protected s) - {(t, q)} = set (fa_protected s)" by simp
  have ev: "bts_ok (k # rest)" and oth: "bts_ok (fa_protected s)"
    using assms(1) Cons by (simp_all add: index_inv_def)
  from assms(3) Cons b(1) have s': "freed"
    "s' = s\<lparr>fa_evictable := rest, fa_buckets := hm_remove q (fa_buckets s),
           fa_total_failures := fa_total_failures s - bucket_failures b\<rparr>"
    by (auto simp: evict_one_low_value_idle_def k Let_def bucket_failures_def)
  have "index_inv ?m s' \<and> accounts df dp s'"
    using bts_pop_first [OF ev] oth prot
    by (intro drop_idle [OF assms(1,2) b(1,2)]) (auto simp: s' Cons k b(4))
  moreover have "evicts l now s s'"
    using b by (simp add: evicts_def s' same_but_buckets_def length_hm_remove_le)
  ultimately show ?thesis using s' by simp
qed

lemma reclaim_one_result:
  assumes "index_inv (fl_max_attempts l) s" and "accounts df dp s"
    and "reclaim_one_expired_protected now (fl_window l) s = (freed, s')"
  shows "index_inv (fl_max_attempts l) s' \<and> accounts df dp s' \<and> evicts l now s s' \<and> (\<not> freed \<longrightarrow> s' = s)"
proof (cases "fa_protected s")
  case Nil
  then show ?thesis using assms evicts_refl by (simp add: reclaim_one_expired_protected_def)
next
  case (Cons k rest)
  obtain t q where k: "k = (t, q)" by (cases k)
  let ?m = "fl_max_attempts l"
  have "k \<in> idle_keys (\<lambda>b. ?m \<le> bucket_failures b) (fa_buckets s)"
    using Cons assms(1) by (auto simp: index_inv_def)
  then obtain b where b: "map_of (fa_buckets s) q = Some b" "pa_pending b = 0" "?m \<le> bucket_failures b"
    "t = last (pa_failures b)"
    by (auto simp: mem_idle_keys k)
  have "(t, q) \<notin> set (fa_evictable s)"
    using assms(1) b by (auto simp: index_inv_def mem_idle_keys)
  then have evic: "set (fa_evictable s) - {(t, q)} = set (fa_evictable s)" by simp
  have pr: "bts_ok (k # rest)" and oth: "bts_ok (fa_evictable s)"
    using assms(1) Cons by (simp_all add: index_inv_def)
  show ?thesis
  proof (cases "now - t < fl_window l")
    case True
    with assms(3) Cons k show ?thesis using assms evicts_refl
      by (simp add: reclaim_one_expired_protected_def)
  next
    case False
    with assms(3) Cons b(1) have s': "freed"
      "s' = s\<lparr>fa_protected := rest, fa_buckets := hm_remove q (fa_buckets s),
             fa_total_failures := fa_total_failures s - bucket_failures b\<rparr>"
      by (auto simp: reclaim_one_expired_protected_def k Let_def bucket_failures_def)
    have "index_inv ?m s' \<and> accounts df dp s'"
      using bts_pop_first [OF pr] oth evic
      by (intro drop_idle [OF assms(1,2) b(1,2)]) (auto simp: s' Cons k b(4))
    moreover have "evicts l now s s'"
      using b False by (simp add: evicts_def s' same_but_buckets_def length_hm_remove_le)
    ultimately show ?thesis using s' by simp
  qed
qed

lemma reserve_loop_result:
  assumes "index_inv (fl_max_attempts l) s" and "accounts df dp s"
  shows "\<exists>s'. index_inv (fl_max_attempts l) s' \<and> accounts df dp s' \<and> evicts l now s s' \<and>
    (reserve_loop l peer bucket records now s = Inr s' \<and> \<not> reserve_pressure l (bucket = None) s' \<or>
     reserve_loop l peer bucket records now s = Inl (reserve_overflow l peer bucket records s'))"
  using assms
proof (induction l peer bucket records now s rule: reserve_loop.induct)
  case (1 l peer bucket records now s)
  show ?case
  proof (cases "reserve_pressure l (bucket = None) s")
    case False
    then show ?thesis using "1.prems" evicts_refl by (subst reserve_loop.simps) auto
  next
    case True
    obtain freed s1 where ev: "evict_one_low_value_idle s = (freed, s1)" by force
    note e1 = evict_one_result [OF "1.prems" ev, where now = now]
    show ?thesis
    proof (cases freed)
      case True
      with ev have ev': "evict_one_low_value_idle s = (True, s1)" by simp
      have step: "reserve_loop l peer bucket records now s = reserve_loop l peer bucket records now s1"
        by (subst reserve_loop.simps) (simp add: ev' \<open>reserve_pressure l (bucket = None) s\<close>)
      show ?thesis
        using "1.IH"(1) [OF _ ev' [symmetric]] \<open>reserve_pressure l (bucket = None) s\<close> e1
        unfolding step by (meson evicts_trans)
    next
      case False
      obtain freed2 s2 where rc: "reclaim_one_expired_protected now (fl_window l) s1 = (freed2, s2)" by force
      from e1 have "index_inv (fl_max_attempts l) s1" "accounts df dp s1" by simp_all
      note e2 = reclaim_one_result [OF this rc]
      show ?thesis
      proof (cases freed2)
        case True
        have step: "reserve_loop l peer bucket records now s = reserve_loop l peer bucket records now s2"
          by (subst reserve_loop.simps) (simp add: ev rc True False \<open>reserve_pressure l (bucket = None) s\<close>)
        show ?thesis
          using "1.IH"(2) [OF _ ev [symmetric] _ rc [symmetric]] \<open>reserve_pressure l (bucket = None) s\<close> e1 e2
            True False
          unfolding step by (meson evicts_trans)
      next
        case freed2: False
        have "reserve_loop l peer bucket records now s = Inl (reserve_overflow l peer bucket records s2)"
          by (subst reserve_loop.simps) (simp add: ev rc freed2 False \<open>reserve_pressure l (bucket = None) s\<close>)
        then show ?thesis using e1 e2 evicts_trans by blast
      qed
    qed
  qed
qed

subsection \<open>The invariant with one history held out\<close>

fun fails :: "PeerAttempts option \<Rightarrow> nat" where
  "fails None = 0"
| "fails (Some b) = bucket_failures b"

fun pend :: "PeerAttempts option \<Rightarrow> nat" where
  "pend None = 0"
| "pend (Some b) = pa_pending b"

definition bucket_of :: "FailedAuthState \<Rightarrow> PeerBucket \<Rightarrow> PeerAttempts option" where
  "bucket_of s p = map_of (fa_buckets s) p"

definition held_out :: "FailedAuthLimiter \<Rightarrow> PeerBucket \<Rightarrow> PeerAttempts option \<Rightarrow> FailedAuthState \<Rightarrow> bool" where
  "held_out l p bo s \<longleftrightarrow> bucket_of s p = None \<and>
     index_inv (fl_max_attempts l) s \<and> accounts (fails bo) (pend bo) s \<and> overflow_inv s \<and> budget_inv s"

definition peer_limits :: "FailedAuthLimiter \<Rightarrow> PeerBucket \<Rightarrow> PeerAttempts option \<Rightarrow> FailedAuthState \<Rightarrow> bool" where
  "peer_limits l p bo s \<longleftrightarrow>
     fails bo + pend bo + overflow_pending_for s p \<le> fl_max_attempts l \<and>
     (\<forall>q. q \<noteq> p \<longrightarrow>
        fails (bucket_of s q) + pend (bucket_of s q) + overflow_pending_for s q \<le> fl_max_attempts l)"

definition global_limits :: "FailedAuthLimiter \<Rightarrow> PeerAttempts option \<Rightarrow> FailedAuthState \<Rightarrow> bool" where
  "global_limits l bo s \<longleftrightarrow>
     length (fa_buckets s) + (if bo = None then 0 else 1) \<le> fl_max_tracked_peers l \<and>
     fa_total_failures s + fa_total_pending s \<le> fl_max_attempt_records l \<and>
     fa_total_pending s + fa_total_overflow s \<le> fl_max_attempt_records l"

definition limiter_ok :: "FailedAuthLimiter \<Rightarrow> FailedAuthState \<Rightarrow> bool" where
  "limiter_ok l s \<longleftrightarrow> index_inv (fl_max_attempts l) s \<and> accounts 0 0 s \<and> overflow_inv s \<and> budget_inv s \<and>
     (\<forall>q. fails (bucket_of s q) + pend (bucket_of s q) + overflow_pending_for s q \<le> fl_max_attempts l) \<and>
     global_limits l None s"

lemmas limiter_defs = held_out_def peer_limits_def global_limits_def limiter_ok_def

lemma same_but_buckets_overflow:
  "same_but_buckets s s' \<Longrightarrow> overflow_pending_for s' = overflow_pending_for s \<and>
     (overflow_inv s' \<longleftrightarrow> overflow_inv s) \<and> (budget_inv s' \<longleftrightarrow> budget_inv s) \<and>
     fa_total_overflow s' = fa_total_overflow s"
  by (auto simp: same_but_buckets_def overflow_pending_for_def overflow_inv_def budget_inv_def fun_eq_iff)

lemma open_bucket_held:
  assumes "limiter_ok l s" and "open_bucket l now p s = (bo, s1)"
  shows "held_out l p bo s1" and "peer_limits l p bo s1" and "global_limits l bo s1"
    and "pend bo = pend (bucket_of s p)" and "overflow_pending_for s1 = overflow_pending_for s"
    and "q \<noteq> p \<Longrightarrow> bucket_of s1 q = bucket_of s q"
    and "bo = map_option (\<lambda>b. b\<lparr>pa_failures := snd (trim_expired (pa_failures b) now (fl_window l))\<rparr>) (bucket_of s p)"
proof -
  show bo: "bo = map_option (\<lambda>b. b\<lparr>pa_failures := snd (trim_expired (pa_failures b) now (fl_window l))\<rparr>)
      (bucket_of s p)"
    using assms(2) by (auto simp: open_bucket_def bucket_of_def Let_def split_def split: option.splits)
  then show "pend bo = pend (bucket_of s p)" by (cases "bucket_of s p") auto
  have "held_out l p bo s1 \<and> peer_limits l p bo s1 \<and> global_limits l bo s1 \<and>
      overflow_pending_for s1 = overflow_pending_for s \<and>
      fa_buckets s1 = hm_remove p (fa_buckets s)"
  proof (cases "bucket_of s p")
    case None
    then have absent: "hm_remove p (fa_buckets s) = fa_buckets s"
      by (simp add: bucket_of_def hm_remove_absent)
    with None assms(2) have "s1 = s" "bo = None"
      by (auto simp: open_bucket_def bucket_of_def Let_def)
    with assms(1) None absent show ?thesis
      by (auto simp: limiter_defs) (metis fails.simps(1) pend.simps(1) add_0)
  next
    case (Some b)
    then have b: "map_of (fa_buckets s) p = Some b" by (simp add: bucket_of_def)
    define u where "u = unindex p b (s\<lparr>fa_buckets := hm_remove p (fa_buckets s)\<rparr>)"
    define kept where "kept = snd (trim_expired (pa_failures b) now (fl_window l))"
    have kept: "length kept \<le> bucket_failures b"
      "fst (trim_expired (pa_failures b) now (fl_window l)) = bucket_failures b - length kept"
      by (simp_all add: kept_def trim_expired_def Let_def bucket_failures_def length_dropWhile_le)
    have lim: "index_inv (fl_max_attempts l) s" "accounts 0 0 s" using assms(1) by (simp_all add: limiter_ok_def)
    note d = detach_bucket [OF lim b, folded u_def]
    from assms(2) b have s1: "s1 = u\<lparr>fa_total_failures := fa_total_failures u - (bucket_failures b - length kept)\<rparr>"
      by (auto simp: open_bucket_def Let_def split_def u_def kept(2))
    have buckets: "fa_buckets s1 = hm_remove p (fa_buckets s)" by (simp add: s1 d)
    have f: "fails bo = length kept" "pend bo = pa_pending b" "bo \<noteq> None"
      using bo Some by (auto simp: kept_def bucket_failures_def)
    have held: "held_out l p bo s1"
      using d(1,2) assms(1) same_but_buckets_overflow [OF d(4)] kept(1)
      by (auto simp: held_out_def bucket_of_def buckets index_inv_def accounts_def s1 f d(3)
          overflow_inv_def budget_inv_def limiter_ok_def)
    have ovf: "overflow_pending_for s1 = overflow_pending_for s"
      using same_but_buckets_overflow [OF d(4)] by (simp add: s1 overflow_pending_for_def fun_eq_iff)
    have "bucket_failures b + pa_pending b + overflow_pending_for s p \<le> fl_max_attempts l"
      using assms(1) Some by (auto simp: limiter_ok_def dest!: spec [of _ p])
    then have peer: "peer_limits l p bo s1"
      using assms(1) kept(1) by (auto simp: peer_limits_def ovf f limiter_ok_def bucket_of_def buckets)
    have "length (fa_buckets s) = Suc (length (fa_buckets s1))"
      using length_hm_remove [OF _ b] lim(1) by (simp add: buckets index_inv_def)
    then have "global_limits l bo s1"
      using assms(1) d(5,6) f(3) same_but_buckets_overflow [OF d(4)]
      by (auto simp: limiter_ok_def global_limits_def s1)
    with held peer ovf buckets show ?thesis by simp
  qed
  then show "held_out l p bo s1" "peer_limits l p bo s1" "global_limits l bo s1"
    "overflow_pending_for s1 = overflow_pending_for s" "q \<noteq> p \<Longrightarrow> bucket_of s1 q = bucket_of s q"
    by (simp_all add: bucket_of_def)
qed

lemma reinsert_held:
  assumes "held_out l p bo s" and "peer_limits l p bo s" and "global_limits l bo s"
  defines "s' \<equiv> reinsert l p bo s"
  shows "limiter_ok l s'"
    and "bucket_of s' p = (if fails bo + pend bo = 0 then None else bo)"
    and "q \<noteq> p \<Longrightarrow> bucket_of s' q = bucket_of s q"
    and "overflow_pending_for s' = overflow_pending_for s"
proof -
  have "limiter_ok l s' \<and> bucket_of s' p = (if fails bo + pend bo = 0 then None else bo) \<and>
      (\<forall>q. q \<noteq> p \<longrightarrow> bucket_of s' q = bucket_of s q) \<and> overflow_pending_for s' = overflow_pending_for s"
  proof (cases bo)
    case None
    then have "s' = s" by (simp add: s'_def reinsert_def)
    with assms None show ?thesis
      by (auto simp: limiter_defs) (metis fails.simps(1) pend.simps(1) add_0)
  next
    case (Some b)
    have absent: "map_of (fa_buckets s) p = None" using assms(1) by (simp add: held_out_def bucket_of_def)
    have lim: "index_inv (fl_max_attempts l) s" "accounts (bucket_failures b) (pa_pending b) s"
      using assms(1) Some by (simp_all add: held_out_def)
    note d = attach_bucket [OF lim absent]
    have s': "s' = insert_bucket p b (fl_max_attempts l) s" by (simp add: s'_def reinsert_def Some)
    note d' = d [folded s']
    note o = same_but_buckets_overflow [OF d'(4)]
    have at: "bucket_of s' q = (if q = p then if fails bo + pend bo = 0 then None else bo else bucket_of s q)" for q
      using absent by (auto simp: bucket_of_def d'(3) Some bucket_failures_def)
    have "length (fa_buckets s') \<le> Suc (length (fa_buckets s))"
      using absent by (simp add: d'(3) length_insert_absent)
    then have "global_limits l None s'"
      using assms(3) d'(5,6) o Some by (simp add: global_limits_def)
    moreover have "fails (bucket_of s' q) + pend (bucket_of s' q) + overflow_pending_for s' q \<le> fl_max_attempts l" for q
      using assms(2) o by (cases "q = p") (auto simp: at peer_limits_def)
    ultimately have "limiter_ok l s'"
      using d'(1,2) o assms(1) by (simp add: limiter_ok_def held_out_def)
    with at o show ?thesis by simp
  qed
  then show "limiter_ok l s'" "bucket_of s' p = (if fails bo + pend bo = 0 then None else bo)"
    "q \<noteq> p \<Longrightarrow> bucket_of s' q = bucket_of s q" "overflow_pending_for s' = overflow_pending_for s"
    by auto
qed

lemma evicts_held:
  assumes "held_out l p bo s" and "peer_limits l p bo s" and "global_limits l bo s"
    and "evicts l now s s'" and "index_inv (fl_max_attempts l) s'" and "accounts (fails bo) (pend bo) s'"
  shows "held_out l p bo s' \<and> peer_limits l p bo s' \<and> global_limits l bo s' \<and>
    overflow_pending_for s' = overflow_pending_for s \<and> (\<forall>q. pend (bucket_of s' q) = pend (bucket_of s q))"
proof -
  have same: "same_but_buckets s s'" using assms(4) by (simp add: evicts_def)
  note o = same_but_buckets_overflow [OF same]
  have at: "bucket_of s' q = bucket_of s q \<or>
      bucket_of s' q = None \<and> pend (bucket_of s q) = 0" for q
    using assms(4) unfolding evicts_def bucket_of_def by (metis pend.simps(2))
  then have le: "fails (bucket_of s' q) + pend (bucket_of s' q) \<le> fails (bucket_of s q) + pend (bucket_of s q)" for q
    by (metis fails.simps(1) pend.simps(1) add_0 zero_le order_refl)
  have "peer_limits l p bo s'"
    using assms(2) o le unfolding peer_limits_def by (metis add_le_mono1 le_trans)
  moreover have "held_out l p bo s'"
    using assms(1,5,6) o at [of p] by (auto simp: held_out_def)
  moreover have "global_limits l bo s'"
    using assms(3,4) o unfolding global_limits_def evicts_def
    by (metis (no_types, lifting) add_le_mono1 le_trans)
  moreover have "pend (bucket_of s' q) = pend (bucket_of s q)" for q
    using at [of q] by auto
  ultimately show ?thesis using o by simp
qed

text \<open>The budget does not touch the histories.\<close>

definition only_budget :: "FailedAuthState \<Rightarrow> FailedAuthState \<Rightarrow> bool" where
  "only_budget s s' \<longleftrightarrow> (\<exists>bs. s' = s\<lparr>fa_budget := bs\<rparr>) \<and> (budget_inv s \<longrightarrow> budget_inv s')"

lemma only_budget_views:
  assumes "only_budget s s'"
  shows "bucket_of s' = bucket_of s" and "overflow_pending_for s' = overflow_pending_for s"
    and "held_out l p bo s \<Longrightarrow> held_out l p bo s'" and "peer_limits l p bo s' = peer_limits l p bo s"
    and "global_limits l bo s' = global_limits l bo s" and "limiter_ok l s \<Longrightarrow> limiter_ok l s'"
    and "fa_total_pending s' = fa_total_pending s" and "fa_total_overflow s' = fa_total_overflow s"
proof -
  obtain bs where s': "s' = s\<lparr>fa_budget := bs\<rparr>" and b: "budget_inv s \<Longrightarrow> budget_inv s'"
    using assms by (auto simp: only_budget_def)
  have views: "bucket_of s' = bucket_of s" "overflow_pending_for s' = overflow_pending_for s"
    "index_inv m s' = index_inv m s" "accounts df dp s' = accounts df dp s"
    "overflow_inv s' = overflow_inv s" "global_limits l bo s' = global_limits l bo s" for m df dp bo
    by (simp_all add: s' bucket_of_def overflow_pending_for_def index_inv_def accounts_def
        overflow_inv_def global_limits_def fun_eq_iff)
  show "bucket_of s' = bucket_of s" "overflow_pending_for s' = overflow_pending_for s"
    "held_out l p bo s \<Longrightarrow> held_out l p bo s'" "peer_limits l p bo s' = peer_limits l p bo s"
    "global_limits l bo s' = global_limits l bo s" "limiter_ok l s \<Longrightarrow> limiter_ok l s'"
    using b by (simp_all add: views held_out_def peer_limits_def limiter_ok_def)
  show "fa_total_pending s' = fa_total_pending s" "fa_total_overflow s' = fa_total_overflow s"
    by (simp_all add: s')
qed

lemma attempt_shard_less: "attempt_shard p < AUTH_ATTEMPT_SHARDS"
proof -
  have "unat (h mod of_nat AUTH_ATTEMPT_SHARDS_PER_FAMILY) < AUTH_ATTEMPT_SHARDS_PER_FAMILY" for h :: u64
    using mod_less_divisor [of 8 "unat h"] by (simp add: AUTH_ATTEMPT_SHARDS_PER_FAMILY_def unat_mod)
  from this [of "fnv_hash (case p of BucketV4 bs \<Rightarrow> bs | V6Prefix64 bs \<Rightarrow> bs)"] show ?thesis
    by (cases p) (simp_all add: AUTH_ATTEMPT_SHARDS_def)
qed

lemma budget_update:
  assumes "budget_inv s" and "ab_used sh \<le> ab_capacity sh"
  shows "budget_inv (s\<lparr>fa_budget := (fa_budget s)[i := sh]\<rparr>)"
proof -
  have "set ((fa_budget s)[i := sh]) \<subseteq> insert sh (set (fa_budget s))" by (rule set_update_subset_insert)
  then show ?thesis using assms by (auto simp: budget_inv_def list_all_iff)
qed

lemma shard_within:
  "budget_inv s \<Longrightarrow> ab_used (fa_budget s ! attempt_shard p) \<le> ab_capacity (fa_budget s ! attempt_shard p)"
  using attempt_shard_less [of p] by (auto simp: budget_inv_def list_all_iff)

lemma consume_only_budget:
  assumes "consume_attempt_budget p now w s = (ok, s')"
  shows "only_budget s s'"
proof -
  obtain sh where s': "s' = s\<lparr>fa_budget := (fa_budget s)[attempt_shard p := sh]\<rparr>"
    and "budget_inv s \<Longrightarrow> ab_used sh \<le> ab_capacity sh"
    using assms shard_within [of s p]
    by (auto simp: consume_attempt_budget_def Let_def simp del: list_update_id
        split: if_splits option.splits)
  then show ?thesis using budget_update by (auto simp: only_budget_def)
qed

lemma refund_only_budget: "only_budget s (refund_attempt_budget p s)"
proof -
  have "budget_inv s \<Longrightarrow> budget_inv (refund_attempt_budget p s)"
    using shard_within [of s p] unfolding refund_attempt_budget_def Let_def
    by (intro budget_update) (auto intro: le_trans [OF diff_le_self])
  then show ?thesis by (auto simp: only_budget_def refund_attempt_budget_def Let_def)
qed

lemma hm_get_or_insert: "hm_get_or d (hm_insert k v m) q = (if q = k then v else hm_get_or d m q)"
  by (simp add: hm_get_or_def)

lemma try_reserve_overflow_held:
  assumes "held_out l p bo s" and "peer_limits l p bo s" and "global_limits l bo s"
    and room: "fails bo + pend bo + overflow_pending_for s p < fl_max_attempts l"
    and free: "fa_total_pending s + fa_total_overflow s < fl_max_attempt_records l"
  shows "\<exists>s'. try_reserve_overflow p (fl_max_attempts l - (fails bo + pend bo)) s = (True, s') \<and>
    held_out l p bo s' \<and> peer_limits l p bo s' \<and> global_limits l bo s' \<and> bucket_of s' = bucket_of s \<and>
    overflow_pending_for s' = (overflow_pending_for s)(p := overflow_pending_for s p + 1)"
proof -
  let ?n = "overflow_pending_for s p"
  let ?o = "hm_insert p (?n + 1) (hm_insert p ?n (fa_overflow s))"
  let ?s' = "s\<lparr>fa_overflow := ?o, fa_total_overflow := fa_total_overflow s + 1\<rparr>"
  have ok: "hm_ok (fa_overflow s)" using assms(1) by (simp add: held_out_def overflow_inv_def)
  have step: "try_reserve_overflow p (fl_max_attempts l - (fails bo + pend bo)) s = (True, ?s')"
    using room by (simp add: try_reserve_overflow_def overflow_pending_for_def Let_def)
  have "hm_total (\<lambda>n. n) (hm_insert p ?n (fa_overflow s)) = hm_total (\<lambda>n. n) (fa_overflow s)"
    using hm_total_update [OF ok, of "\<lambda>n. n" p ?n]
    by (simp add: overflow_pending_for_def hm_get_or_def split: option.splits)
  then have "hm_total (\<lambda>n. n) ?o = hm_total (\<lambda>n. n) (fa_overflow s) + 1"
    using hm_total_update [OF hm_ok_insert [OF ok], of "\<lambda>n. n" p "?n + 1" p ?n] by simp
  then have "overflow_inv ?s'" using assms(1) ok by (simp add: held_out_def overflow_inv_def)
  then have "held_out l p bo ?s'"
    using assms(1) by (simp add: held_out_def bucket_of_def index_inv_def accounts_def budget_inv_def)
  moreover have ov: "overflow_pending_for ?s' = (overflow_pending_for s)(p := ?n + 1)"
    by (simp add: overflow_pending_for_def hm_get_or_insert fun_eq_iff)
  moreover have "bucket_of ?s' = bucket_of s" by (simp add: bucket_of_def fun_eq_iff)
  moreover from this have "peer_limits l p bo ?s'"
    using assms(2) room unfolding peer_limits_def ov by simp
  moreover have "global_limits l bo ?s'" using assms(3) free by (simp add: global_limits_def)
  ultimately show ?thesis using step by blast
qed

lemma admit_held:
  assumes "held_out l p bo s" and "peer_limits l p bo s" and "global_limits l bo s"
    and room: "fails bo + pend bo + overflow_pending_for s p < fl_max_attempts l"
    and free: "fa_total_pending s + fa_total_overflow s < fl_max_attempt_records l"
    and "\<not> reserve_pressure l (bo = None) s"
  defines "b \<equiv> (case bo of None \<Rightarrow> \<lparr>pa_failures = [], pa_pending = 0\<rparr> | Some b \<Rightarrow> b)"
  defines "s' \<equiv> s\<lparr>fa_total_pending := fa_total_pending s + 1,
      fa_buckets := hm_insert p (b\<lparr>pa_pending := pa_pending b + 1\<rparr>) (fa_buckets s)\<rparr>"
  shows "limiter_ok l s'" and "bucket_of s' = (bucket_of s)(p \<mapsto> b\<lparr>pa_pending := pa_pending b + 1\<rparr>)"
    and "overflow_pending_for s' = overflow_pending_for s"
proof -
  let ?b = "b\<lparr>pa_pending := pa_pending b + 1\<rparr>"
  let ?r = "s\<lparr>fa_total_pending := fa_total_pending s + 1\<rparr>"
  have f: "bucket_failures ?b = fails bo" "pa_pending ?b = pend bo + 1"
    by (cases bo; simp add: b_def bucket_failures_def)+
  have absent: "map_of (fa_buckets s) p = None" using assms(1) by (simp add: held_out_def bucket_of_def)
  have s': "s' = reinsert l p (Some ?b) ?r"
    by (simp add: s'_def reinsert_def insert_bucket_def Let_def)
  have held: "held_out l p (Some ?b) ?r"
    using assms(1) f
    by (simp add: held_out_def bucket_of_def index_inv_def accounts_def overflow_inv_def budget_inv_def)
  have peer: "peer_limits l p (Some ?b) ?r"
    using assms(2) room f by (simp add: peer_limits_def bucket_of_def overflow_pending_for_def)
  have "global_limits l (Some ?b) ?r"
    using assms(3,6) free by (auto simp: global_limits_def reserve_pressure_def split: if_splits)
  note r = reinsert_held [OF held peer this, folded s']
  show "limiter_ok l s'" by (rule r(1))
  show "bucket_of s' = (bucket_of s)(p \<mapsto> ?b)" by (simp add: s'_def bucket_of_def fun_eq_iff)
  show "overflow_pending_for s' = overflow_pending_for s"
    by (simp add: s'_def overflow_pending_for_def fun_eq_iff)
qed

subsection \<open>What one operation does\<close>

definition locked :: "FailedAuthLimiter \<Rightarrow> nat \<Rightarrow> PeerAttempts \<Rightarrow> bool" where
  "locked l now b \<longleftrightarrow> fl_max_attempts l \<le> bucket_failures b \<and> pa_pending b = 0 \<and>
     pa_failures b \<noteq> [] \<and> list_all (\<lambda>f. now - f < fl_window l) (pa_failures b)"

definition reserve_effect ::
  "PeerBucket \<Rightarrow> AuthAttemptReservation option \<Rightarrow> FailedAuthState \<Rightarrow> FailedAuthState \<Rightarrow> bool" where
  "reserve_effect p res s s' \<longleftrightarrow>
     (case res of
        None \<Rightarrow> (\<forall>q. pend (bucket_of s' q) = pend (bucket_of s q)) \<and>
          overflow_pending_for s' = overflow_pending_for s
      | Some r \<Rightarrow> ar_peer r = p \<and> \<not> ar_resolved r \<and>
          (if ar_tracked r
           then (\<forall>q. pend (bucket_of s' q) = pend (bucket_of s q) + (if q = p then 1 else 0)) \<and>
             overflow_pending_for s' = overflow_pending_for s
           else (\<forall>q. pend (bucket_of s' q) = pend (bucket_of s q)) \<and>
             overflow_pending_for s' = (overflow_pending_for s)(p := overflow_pending_for s p + 1)))"

definition keeps_locked :: "FailedAuthLimiter \<Rightarrow> nat \<Rightarrow> PeerBucket \<Rightarrow> FailedAuthState \<Rightarrow> FailedAuthState \<Rightarrow> bool" where
  "keeps_locked l now p s s' \<longleftrightarrow>
     (\<forall>q b. q \<noteq> p \<longrightarrow> bucket_of s q = Some b \<longrightarrow> locked l now b \<longrightarrow> bucket_of s' q = Some b)"

lemma evicts_keeps_locked:
  assumes "evicts l now s s'" and "bucket_of s q = Some b" and "locked l now b"
  shows "bucket_of s' q = Some b"
proof -
  have "now - last (pa_failures b) < fl_window l"
    using assms(3) by (auto simp: locked_def list_all_iff)
  with assms show ?thesis
    by (auto simp: evicts_def bucket_of_def locked_def dest!: spec [of _ q])
qed

lemma reinsert_pend:
  assumes "held_out l p bo s" and "peer_limits l p bo s" and "global_limits l bo s"
  shows "pend (bucket_of (reinsert l p bo s) q) = (if q = p then pend bo else pend (bucket_of s q))"
  using reinsert_held(2,3) [OF assms] by (cases "q = p") auto

lemma reserve_result:
  assumes ok: "limiter_ok l s" and run: "reserve l now addr s = (res, s')"
  defines "p \<equiv> PeerBucket_from addr"
  shows "limiter_ok l s' \<and> reserve_effect p res s s' \<and> keeps_locked l now p s s'"
proof -
  obtain bo s1 where ob: "open_bucket l now p s = (bo, s1)" by force
  note h = open_bucket_held [OF ok ob]
  let ?rec = "fails bo + pend bo"
  have rec: "(case bo of None \<Rightarrow> 0 | Some e \<Rightarrow> length (pa_failures e) + pa_pending e) = ?rec"
    by (cases bo) (simp_all add: bucket_failures_def)
  have putback: "limiter_ok l (reinsert l p bo t) \<and> reserve_effect p None s (reinsert l p bo t) \<and>
      keeps_locked l now p s (reinsert l p bo t)"
    if "held_out l p bo t" "peer_limits l p bo t" "global_limits l bo t"
      "overflow_pending_for t = overflow_pending_for s" "\<And>q. q \<noteq> p \<Longrightarrow> pend (bucket_of t q) = pend (bucket_of s q)"
      "keeps_locked l now p s t" for t
    using reinsert_held [OF that(1-3)] reinsert_pend [OF that(1-3)] that(4-6) h(4)
    by (simp add: reserve_effect_def keeps_locked_def)
  have same1: "pend (bucket_of s1 q) = pend (bucket_of s q)" if "q \<noteq> p" for q
    using h(6) [OF that] by simp
  have keep1: "keeps_locked l now p s s1" by (simp add: keeps_locked_def h(6))
  show ?thesis
  proof (cases "fl_max_attempts l \<le> ?rec + overflow_pending_for s1 p \<or>
      fl_max_attempt_records l \<le> fa_total_pending s1 + fa_total_overflow s1")
    case True
    then have "(res, s') = (None, reinsert l p bo s1)"
      using run by (auto simp: reserve_def p_def [symmetric] ob rec Let_def split: if_splits)
    then show ?thesis using putback [OF h(1-3) h(5) same1 keep1] by simp
  next
    case False
    obtain granted s2 where cb: "consume_attempt_budget p now (fl_window l) s1 = (granted, s2)" by force
    note b = only_budget_views [OF consume_only_budget [OF cb]]
    have h2: "held_out l p bo s2" "peer_limits l p bo s2" "global_limits l bo s2"
      using b h by simp_all
    have o2: "overflow_pending_for s2 = overflow_pending_for s" using b h(5) by simp
    have keep2: "keeps_locked l now p s s2" using keep1 by (simp add: keeps_locked_def b)
    show ?thesis
    proof (cases granted)
      case refused: False
      then have "(res, s') = (None, reinsert l p bo s2)"
        using run False by (auto simp: reserve_def p_def [symmetric] ob rec cb Let_def)
      then show ?thesis using putback [OF h2 o2 _ keep2] same1 b by simp
    next
      case True
      obtain s3 where l3: "index_inv (fl_max_attempts l) s3" "accounts (fails bo) (pend bo) s3" "evicts l now s2 s3"
        and loop: "reserve_loop l p bo ?rec now s2 = Inr s3 \<and> \<not> reserve_pressure l (bo = None) s3 \<or>
          reserve_loop l p bo ?rec now s2 = Inl (reserve_overflow l p bo ?rec s3)"
        using reserve_loop_result [where peer = p and bucket = bo and records = ?rec and now = now] h2(1)
        by (metis held_out_def)
      from evicts_held [OF h2 l3(3,1,2)] have h3: "held_out l p bo s3" "peer_limits l p bo s3" "global_limits l bo s3"
        and o3: "overflow_pending_for s3 = overflow_pending_for s2"
        and p3: "\<And>q. pend (bucket_of s3 q) = pend (bucket_of s2 q)" by auto
      have keep3: "keeps_locked l now p s s3"
        using keep2 evicts_keeps_locked [OF l3(3)] by (simp add: keeps_locked_def)
      have same3: "pend (bucket_of s3 q) = pend (bucket_of s q)" if "q \<noteq> p" for q
        using same1 [OF that] b p3 by simp
      have tot: "fa_total_pending s3 = fa_total_pending s1" "fa_total_overflow s3 = fa_total_overflow s1"
        using l3(3) b same_but_buckets_overflow by (auto simp: evicts_def)
      have room: "?rec + overflow_pending_for s3 p < fl_max_attempts l"
        and free: "fa_total_pending s3 + fa_total_overflow s3 < fl_max_attempt_records l"
        using False o2 o3 h(5) tot by auto
      from loop show ?thesis
      proof
        assume lp: "reserve_loop l p bo ?rec now s2 = Inr s3 \<and> \<not> reserve_pressure l (bo = None) s3"
        note a = admit_held [OF h3 room free conjunct2 [OF lp]]
        have "res = Some \<lparr>ar_peer = p, ar_tracked = True, ar_resolved = False\<rparr>"
          and s': "s' = s3\<lparr>fa_total_pending := fa_total_pending s3 + 1, fa_buckets := hm_insert p
             ((case bo of None \<Rightarrow> \<lparr>pa_failures = [], pa_pending = 0\<rparr> | Some b \<Rightarrow> b)
               \<lparr>pa_pending := pa_pending (case bo of None \<Rightarrow> \<lparr>pa_failures = [], pa_pending = 0\<rparr> | Some b \<Rightarrow> b) + 1\<rparr>)
             (fa_buckets s3)\<rparr>"
          using run False True lp by (auto simp: reserve_def p_def [symmetric] ob rec cb Let_def)
        moreover have "pend (bucket_of s' q) = pend (bucket_of s q) + (if q = p then 1 else 0)" for q
          using same3 h(4) a(2) by (cases bo) (auto simp: s')
        moreover have "keeps_locked l now p s s'"
          using keep3 a(2) by (simp add: keeps_locked_def s')
        ultimately show ?thesis
          using a(1,3) o2 o3 by (simp add: reserve_effect_def)
      next
        assume lp: "reserve_loop l p bo ?rec now s2 = Inl (reserve_overflow l p bo ?rec s3)"
        then have out: "(res, s') = reserve_overflow l p bo ?rec s3"
          using run False True by (auto simp: reserve_def p_def [symmetric] ob rec cb Let_def)
        show ?thesis
        proof (cases "fa_total_failures s3 = 0")
          case True
          then have "(res, s') = (None, refund_attempt_budget p (reinsert l p bo s3))"
            using out by (simp add: reserve_overflow_def)
          moreover note putback [OF h3 _ same3 keep3] o2 o3 only_budget_views [OF refund_only_budget]
          ultimately show ?thesis by (simp add: reserve_effect_def keeps_locked_def)
        next
          case False
          obtain s4 where s4: "try_reserve_overflow p (fl_max_attempts l - ?rec) s3 = (True, s4)"
            "held_out l p bo s4" "peer_limits l p bo s4" "global_limits l bo s4" "bucket_of s4 = bucket_of s3"
            "overflow_pending_for s4 = (overflow_pending_for s3)(p := overflow_pending_for s3 p + 1)"
            using try_reserve_overflow_held [OF h3 room free] by blast
          have "(res, s') = (Some \<lparr>ar_peer = p, ar_tracked = False, ar_resolved = False\<rparr>, reinsert l p bo s4)"
            using out False free s4(1) by (simp add: reserve_overflow_def Let_def)
          moreover have "keeps_locked l now p s (reinsert l p bo s4)"
            using keep3 reinsert_held(3) [OF s4(2-4)] s4(5) by (simp add: keeps_locked_def)
          ultimately show ?thesis
            using reinsert_held(1,4) [OF s4(2-4)] reinsert_pend [OF s4(2-4)] s4(5,6) same3 h(4) o2 o3
            by (simp add: reserve_effect_def)
        qed
      qed
    qed
  qed
qed

lemma reserve_locked:
  assumes ok: "limiter_ok l s" and "bucket_of s (PeerBucket_from addr) = Some b" and "locked l now b"
    and run: "reserve l now addr s = (res, s')"
  shows "res = None \<and> bucket_of s' (PeerBucket_from addr) = Some b"
proof -
  let ?p = "PeerBucket_from addr"
  obtain bo s1 where ob: "open_bucket l now ?p s = (bo, s1)" by force
  note h = open_bucket_held [OF ok ob]
  have "dropWhile (\<lambda>f. fl_window l \<le> now - f) (pa_failures b) = pa_failures b"
    using assms(3) by (cases "pa_failures b") (auto simp: locked_def)
  then have bo: "bo = Some b" using h(7) assms(2) by (simp add: trim_expired_def Let_def)
  then have "fl_max_attempts l \<le> length (pa_failures b) + pa_pending b + overflow_pending_for s1 ?p"
    using assms(3) by (simp add: locked_def bucket_failures_def)
  then have "(res, s') = (None, reinsert l ?p bo s1)"
    using run by (simp add: reserve_def ob bo Let_def)
  then show ?thesis
    using reinsert_held(2) [OF h(1-3)] bo assms(3) by (auto simp: locked_def bucket_failures_def)
qed

lemma detach_held:
  assumes "limiter_ok l s" and "bucket_of s p = Some b"
  defines "s' \<equiv> unindex p b (s\<lparr>fa_buckets := hm_remove p (fa_buckets s)\<rparr>)"
  shows "held_out l p (Some b) s'" and "peer_limits l p (Some b) s'" and "global_limits l (Some b) s'"
    and "overflow_pending_for s' = overflow_pending_for s" and "q \<noteq> p \<Longrightarrow> bucket_of s' q = bucket_of s q"
proof -
  have lim: "index_inv (fl_max_attempts l) s" "accounts 0 0 s" "map_of (fa_buckets s) p = Some b"
    using assms by (simp_all add: limiter_ok_def bucket_of_def)
  note d = detach_bucket [OF lim, folded s'_def]
  note o = same_but_buckets_overflow [OF d(4)]
  have at: "bucket_of s' q = (if q = p then None else bucket_of s q)" for q
    by (simp add: bucket_of_def d(3))
  show "held_out l p (Some b) s'"
    using d(1,2) o assms(1) by (simp add: held_out_def at limiter_ok_def)
  show "peer_limits l p (Some b) s'"
    using assms(1,2) o by (auto simp: peer_limits_def limiter_ok_def at dest: spec [of _ p])
  have "length (fa_buckets s) = Suc (length (fa_buckets s'))"
    using length_hm_remove [OF _ lim(3)] lim(1) by (simp add: d(3) index_inv_def)
  then show "global_limits l (Some b) s'"
    using assms(1) d(5,6) o by (simp add: global_limits_def limiter_ok_def)
  show "overflow_pending_for s' = overflow_pending_for s" using o by simp
  show "q \<noteq> p \<Longrightarrow> bucket_of s' q = bucket_of s q" by (simp add: at)
qed

text \<open>Exchanging the history that is held out for one with no more records.\<close>

lemma exchange_held:
  assumes "held_out l p (Some b) s" and "peer_limits l p (Some b) s" and "global_limits l (Some b) s"
    and "bucket_failures b2 + pa_pending b2 \<le> bucket_failures b + pa_pending b"
    and "pa_pending b2 \<le> pa_pending b"
  defines "s' \<equiv> s\<lparr>fa_total_pending := fa_total_pending s + pa_pending b2 - pa_pending b,
      fa_total_failures := fa_total_failures s + bucket_failures b2 - bucket_failures b\<rparr>"
  shows "held_out l p (Some b2) s'" and "peer_limits l p (Some b2) s'" and "global_limits l (Some b2) s'"
    and "bucket_of s' = bucket_of s" and "overflow_pending_for s' = overflow_pending_for s"
proof -
  have acc: "fa_total_failures s = hm_total bucket_failures (fa_buckets s) + bucket_failures b"
    "fa_total_pending s = hm_total pa_pending (fa_buckets s) + pa_pending b"
    using assms(1) by (simp_all add: held_out_def accounts_def)
  show "bucket_of s' = bucket_of s" and ov: "overflow_pending_for s' = overflow_pending_for s"
    by (simp_all add: s'_def bucket_of_def overflow_pending_for_def fun_eq_iff)
  then show "peer_limits l p (Some b2) s'" using assms(2,4) by (simp add: peer_limits_def)
  show "held_out l p (Some b2) s'"
    using assms(1) acc
    by (simp add: held_out_def s'_def bucket_of_def index_inv_def accounts_def overflow_inv_def budget_inv_def)
  show "global_limits l (Some b2) s'"
    using assms(3-5) acc by (simp add: global_limits_def s'_def)
qed

lemma settle_tracked:
  assumes "limiter_ok l s" and "bucket_of s p = Some b" and "pa_pending b \<noteq> 0"
  shows "\<exists>b2. resolve l now now' p True outcome s = reinsert l p (Some b2)
      (s\<lparr>fa_buckets := hm_remove p (fa_buckets s),
         fa_total_pending := fa_total_pending s + pa_pending b2 - pa_pending b,
         fa_total_failures := fa_total_failures s + bucket_failures b2 - bucket_failures b\<rparr>) \<and>
    pa_pending b2 = pa_pending b - 1 \<and>
    bucket_failures b2 + pa_pending b2 \<le> bucket_failures b + pa_pending b"
proof -
  define kept where "kept = dropWhile (\<lambda>f. fl_window l \<le> now - f) (pa_failures b)"
  have len: "length kept \<le> bucket_failures b" by (simp add: kept_def bucket_failures_def length_dropWhile_le)
  define fs where "fs = (case outcome of Succeeded \<Rightarrow> [] | Failed \<Rightarrow> kept @ [now'] | Neutral \<Rightarrow> kept)"
  define b2 where "b2 = b\<lparr>pa_pending := pa_pending b - 1, pa_failures := fs\<rparr>"
  have enough: "bucket_failures b \<le> fa_total_failures s" "pa_pending b \<le> fa_total_pending s"
    using assms(1,2) hm_total_mono [of "fa_buckets s" p b]
    by (auto simp: limiter_ok_def accounts_def index_inv_def bucket_of_def)
  have lb: "length (pa_failures b) = bucket_failures b" by (simp add: bucket_failures_def)
  have trim: "trim_expired (pa_failures b) now (fl_window l) = (bucket_failures b - length kept, kept)"
    by (simp add: trim_expired_def kept_def bucket_failures_def Let_def)
  have set: "settle_bucket outcome now' (b\<lparr>pa_pending := pa_pending b - 1, pa_failures := kept\<rparr>)
      (fa_total_failures s - (bucket_failures b - length kept)) =
      (b2, fa_total_failures s + bucket_failures b2 - bucket_failures b)"
    using len enough(1)
    by (cases outcome) (simp_all add: settle_bucket_def b2_def fs_def bucket_failures_def [of "_\<lparr>pa_failures := _\<rparr>"])
  have empty: "insert_bucket p b2 m t = t" if "\<not> (pa_pending b2 \<noteq> 0 \<or> pa_failures b2 \<noteq> [])" for m t
    using that by (simp add: insert_bucket_def)
  have "resolve l now now' p True outcome s = reinsert l p (Some b2)
      (s\<lparr>fa_buckets := hm_remove p (fa_buckets s), fa_total_pending := fa_total_pending s - 1,
         fa_total_failures := fa_total_failures s + bucket_failures b2 - bucket_failures b\<rparr>)"
    using assms(2,3) empty
    by (simp add: resolve_def bucket_of_def Let_def trim set [unfolded One_nat_def] reinsert_def)
  moreover have "fa_total_pending s - 1 = fa_total_pending s + pa_pending b2 - pa_pending b"
    using assms(3) enough(2) by (simp add: b2_def)
  moreover have "bucket_failures b2 + pa_pending b2 \<le> bucket_failures b + pa_pending b"
    using len assms(3) by (cases outcome) (simp_all add: b2_def fs_def bucket_failures_def)
  ultimately show ?thesis by (intro exI [of _ b2]) (simp add: b2_def)
qed

lemma resolve_tracked:
  assumes ok: "limiter_ok l s" and "0 < pend (bucket_of s p)"
    and s'_def: "s' = resolve l now now' p True outcome s"
  shows "limiter_ok l s'" and "pend (bucket_of s' q) = pend (bucket_of s q) - (if q = p then 1 else 0)"
    and "overflow_pending_for s' = overflow_pending_for s" and "q \<noteq> p \<Longrightarrow> bucket_of s' q = bucket_of s q"
proof -
  obtain b where b: "bucket_of s p = Some b" "pa_pending b \<noteq> 0"
    using assms(2) by (cases "bucket_of s p") auto
  have un: "unindex p b (s\<lparr>fa_buckets := hm_remove p (fa_buckets s)\<rparr>) = s\<lparr>fa_buckets := hm_remove p (fa_buckets s)\<rparr>"
    using b(2) by (simp add: unindex_def)
  note d = detach_held [OF ok b(1), unfolded un]
  obtain b2 where b2: "s' = reinsert l p (Some b2)
      (s\<lparr>fa_buckets := hm_remove p (fa_buckets s),
         fa_total_pending := fa_total_pending s + pa_pending b2 - pa_pending b,
         fa_total_failures := fa_total_failures s + bucket_failures b2 - bucket_failures b\<rparr>)"
    "pa_pending b2 = pa_pending b - 1"
    "bucket_failures b2 + pa_pending b2 \<le> bucket_failures b + pa_pending b"
    using settle_tracked [OF ok b] unfolding s'_def by blast
  have "pa_pending b2 \<le> pa_pending b" using b2(2) by simp
  note x = exchange_held [OF d(1-3) b2(3) this]
  define t where "t = s\<lparr>fa_buckets := hm_remove p (fa_buckets s),
         fa_total_pending := fa_total_pending s + pa_pending b2 - pa_pending b,
         fa_total_failures := fa_total_failures s + bucket_failures b2 - bucket_failures b\<rparr>"
  have t: "held_out l p (Some b2) t" "peer_limits l p (Some b2) t" "global_limits l (Some b2) t"
    "bucket_of t = bucket_of (s\<lparr>fa_buckets := hm_remove p (fa_buckets s)\<rparr>)"
    "overflow_pending_for t = overflow_pending_for s"
    using x d(4) by (simp_all add: t_def)
  note r = reinsert_held [OF t(1-3)] and rp = reinsert_pend [OF t(1-3)]
  show "limiter_ok l s'" using r(1) by (simp add: b2(1) t_def)
  show "pend (bucket_of s' q) = pend (bucket_of s q) - (if q = p then 1 else 0)"
    using rp [of q] b b2(2) t(4) d(5) [of q] by (simp add: b2(1) t_def)
  show "overflow_pending_for s' = overflow_pending_for s" using r(4) t(5) by (simp add: b2(1) t_def)
  show "q \<noteq> p \<Longrightarrow> bucket_of s' q = bucket_of s q"
    using r(3) [of q] t(4) d(5) [of q] by (simp add: b2(1) t_def)
qed

lemma clear_peer_failures_ok:
  assumes "limiter_ok l s"
  shows "limiter_ok l (clear_peer_failures p s)"
    and "pend (bucket_of (clear_peer_failures p s) q) = pend (bucket_of s q)"
    and "overflow_pending_for (clear_peer_failures p s) = overflow_pending_for s"
    and "q \<noteq> p \<Longrightarrow> bucket_of (clear_peer_failures p s) q = bucket_of s q"
proof -
  let ?s' = "clear_peer_failures p s"
  have "limiter_ok l ?s' \<and> (\<forall>q. pend (bucket_of ?s' q) = pend (bucket_of s q)) \<and>
      overflow_pending_for ?s' = overflow_pending_for s \<and> (\<forall>q. q \<noteq> p \<longrightarrow> bucket_of ?s' q = bucket_of s q)"
  proof (cases "bucket_of s p")
    case None
    then have "?s' = s" by (simp add: clear_peer_failures_def bucket_of_def)
    with assms show ?thesis by simp
  next
    case (Some b)
    define u where "u = unindex p b (s\<lparr>fa_buckets := hm_remove p (fa_buckets s)\<rparr>)"
    note d = detach_held [OF assms Some, folded u_def]
    let ?b = "b\<lparr>pa_failures := []\<rparr>"
    let ?t = "u\<lparr>fa_total_pending := fa_total_pending u + pa_pending ?b - pa_pending b,
      fa_total_failures := fa_total_failures u + bucket_failures ?b - bucket_failures b\<rparr>"
    have le: "bucket_failures ?b + pa_pending ?b \<le> bucket_failures b + pa_pending b" "pa_pending ?b \<le> pa_pending b"
      by (simp_all add: bucket_failures_def)
    note x = exchange_held [OF d(1-3) le]
    note r = reinsert_held [OF x(1-3)] and rp = reinsert_pend [OF x(1-3)]
    have "?s' = reinsert l p (Some ?b) ?t"
      using Some by (simp add: clear_peer_failures_def bucket_of_def Let_def u_def [symmetric]
          reinsert_def insert_bucket_def bucket_failures_def)
    then show ?thesis using r rp x(4,5) d(4,5) Some by simp
  qed
  then show "limiter_ok l ?s'" "pend (bucket_of ?s' q) = pend (bucket_of s q)"
    "overflow_pending_for ?s' = overflow_pending_for s" "q \<noteq> p \<Longrightarrow> bucket_of ?s' q = bucket_of s q"
    by auto
qed

lemma release_overflow_ok:
  assumes "limiter_ok l s" and "0 < overflow_pending_for s p"
  shows "\<exists>s'. release_overflow p s = (True, s') \<and> limiter_ok l s' \<and> bucket_of s' = bucket_of s \<and>
    overflow_pending_for s' = (overflow_pending_for s)(p := overflow_pending_for s p - 1)"
proof -
  let ?n = "overflow_pending_for s p"
  have some: "map_of (fa_overflow s) p = Some ?n"
    using assms(2) by (auto simp: overflow_pending_for_def hm_get_or_def split: option.splits)
  let ?o = "if ?n - 1 = 0 then hm_remove p (fa_overflow s) else hm_insert p (?n - 1) (fa_overflow s)"
  let ?s' = "s\<lparr>fa_total_overflow := fa_total_overflow s - 1, fa_overflow := ?o\<rparr>"
  have ok: "hm_ok (fa_overflow s)" "fa_total_overflow s = hm_total (\<lambda>n. n) (fa_overflow s)"
    using assms(1) by (simp_all add: limiter_ok_def overflow_inv_def)
  have "hm_total (\<lambda>n. n) ?o = fa_total_overflow s - 1"
  proof (cases "?n = 1")
    case True
    then show ?thesis using hm_total_remove [OF ok(1) some, of "\<lambda>n. n"] ok(2) by simp
  next
    case False
    then have "hm_total (\<lambda>n. n) (hm_insert p (?n - 1) (fa_overflow s)) + ?n = hm_total (\<lambda>n. n) (fa_overflow s) + (?n - 1)"
      using hm_total_update [OF ok(1), of "\<lambda>n. n" p "?n - 1"] some by simp
    moreover have "?n - 1 \<noteq> 0" using False assms(2) by simp
    ultimately show ?thesis using ok(2) assms(2) by (simp only: if_False)
  qed
  then have inv: "overflow_inv ?s'" using ok by (simp add: overflow_inv_def)
  have ov: "overflow_pending_for ?s' = (overflow_pending_for s)(p := ?n - 1)"
    by (auto simp: overflow_pending_for_def hm_get_or_def fun_eq_iff)
  have views: "bucket_of ?s' = bucket_of s" by (simp add: bucket_of_def fun_eq_iff)
  have "fails (bucket_of s q) + pend (bucket_of s q) + overflow_pending_for s q \<le> fl_max_attempts l" for q
    using assms(1) by (simp add: limiter_ok_def)
  then have "fails (bucket_of s q) + pend (bucket_of s q) + ((overflow_pending_for s)(p := ?n - 1)) q
      \<le> fl_max_attempts l" for q
    by (metis fun_upd_apply diff_le_self add_le_cancel_left le_trans)
  then have "limiter_ok l ?s'"
    using assms(1) inv unfolding limiter_ok_def views ov
    by (auto simp: index_inv_def accounts_def budget_inv_def global_limits_def)
  moreover have "release_overflow p s = (True, ?s')"
    using some assms(2) by (simp add: release_overflow_def)
  ultimately show ?thesis using ov views by blast
qed

lemma resolve_untracked:
  assumes ok: "limiter_ok l s" and "0 < overflow_pending_for s p"
    and s'_def: "s' = resolve l now now' p False outcome s"
  shows "limiter_ok l s'" and "pend (bucket_of s' q) = pend (bucket_of s q)"
    and "overflow_pending_for s' = (overflow_pending_for s)(p := overflow_pending_for s p - 1)"
    and "q \<noteq> p \<Longrightarrow> bucket_of s' q = bucket_of s q"
proof -
  obtain t where t: "release_overflow p s = (True, t)" "limiter_ok l t" "bucket_of t = bucket_of s"
    "overflow_pending_for t = (overflow_pending_for s)(p := overflow_pending_for s p - 1)"
    using release_overflow_ok [OF ok assms(2)] by blast
  have "s' = (if outcome = Succeeded then clear_peer_failures p t else t)"
    by (simp add: s'_def resolve_def resolve_overflow_def t(1))
  with t clear_peer_failures_ok [OF t(2), where p = p] show "limiter_ok l s'" "pend (bucket_of s' q) = pend (bucket_of s q)"
    "overflow_pending_for s' = (overflow_pending_for s)(p := overflow_pending_for s p - 1)"
    "q \<noteq> p \<Longrightarrow> bucket_of s' q = bucket_of s q"
    by simp_all
qed

subsection \<open>Sequences of attempts\<close>

datatype limiter_op =
    ReserveOp nat IpAddr
  | FinishOp nat nat nat ReservationOutcome

fun limiter_step ::
  "FailedAuthLimiter \<Rightarrow> FailedAuthState \<times> AuthAttemptReservation list \<Rightarrow> limiter_op
     \<Rightarrow> FailedAuthState \<times> AuthAttemptReservation list" where
  "limiter_step l (s, rs) (ReserveOp now addr) =
     (case reserve l now addr s of (None, s') \<Rightarrow> (s', rs) | (Some r, s') \<Rightarrow> (s', rs @ [r]))"
| "limiter_step l (s, rs) (FinishOp now now' i outcome) =
     (if i < length rs
      then let (r, s') = finish l now now' outcome (rs ! i) s in (s', rs[i := r])
      else (s, rs))"

definition in_flight :: "AuthAttemptReservation list \<Rightarrow> PeerBucket \<Rightarrow> bool \<Rightarrow> nat" where
  "in_flight rs p t = length (filter (\<lambda>r. ar_peer r = p \<and> ar_tracked r = t \<and> \<not> ar_resolved r) rs)"

definition limiter_inv :: "FailedAuthLimiter \<Rightarrow> FailedAuthState \<times> AuthAttemptReservation list \<Rightarrow> bool" where
  "limiter_inv l = (\<lambda>(s, rs). limiter_ok l s \<and>
     (\<forall>p. pend (bucket_of s p) = in_flight rs p True) \<and>
     (\<forall>p. overflow_pending_for s p = in_flight rs p False))"

lemma in_flight_append:
  "in_flight (rs @ [r]) p t =
     in_flight rs p t + (if ar_peer r = p \<and> ar_tracked r = t \<and> \<not> ar_resolved r then 1 else 0)"
  by (simp add: in_flight_def)

lemma in_flight_resolve:
  assumes "i < length rs" and "\<not> ar_resolved (rs ! i)"
  shows "in_flight rs p t = in_flight (rs[i := (rs ! i)\<lparr>ar_resolved := True\<rparr>]) p t +
    (if ar_peer (rs ! i) = p \<and> ar_tracked (rs ! i) = t then 1 else 0)"
proof -
  have rs: "rs = take i rs @ rs ! i # drop (Suc i) rs" using assms(1) by (rule id_take_nth_drop)
  show ?thesis
    using assms unfolding in_flight_def upd_conv_take_nth_drop [OF assms(1)]
    by (subst rs) simp
qed

lemma limiter_inv_reserve:
  assumes "limiter_inv l (s, rs)"
  shows "limiter_inv l (limiter_step l (s, rs) (ReserveOp now addr))"
proof -
  obtain res s' where r: "reserve l now addr s = (res, s')" by force
  have "limiter_ok l s" using assms by (simp add: limiter_inv_def)
  note e = reserve_result [OF this r]
  show ?thesis
  proof (cases res)
    case None
    then show ?thesis using assms e r by (simp add: limiter_inv_def reserve_effect_def)
  next
    case (Some a)
    then show ?thesis
      using assms e r by (auto simp: limiter_inv_def reserve_effect_def in_flight_append split: if_splits)
  qed
qed

lemma limiter_inv_finish:
  assumes "limiter_inv l (s, rs)"
  shows "limiter_inv l (limiter_step l (s, rs) (FinishOp now now' i outcome))"
proof (cases "i < length rs \<and> \<not> ar_resolved (rs ! i)")
  case False
  then show ?thesis using assms by (auto simp: finish_def)
next
  case True
  let ?r = "rs ! i" and ?p = "ar_peer (rs ! i)"
  note fl = in_flight_resolve [OF conjunct1 [OF True] conjunct2 [OF True]]
  have ok: "limiter_ok l s" and p: "\<And>p. pend (bucket_of s p) = in_flight rs p True"
    and o: "\<And>p. overflow_pending_for s p = in_flight rs p False"
    using assms by (simp_all add: limiter_inv_def)
  have step: "limiter_step l (s, rs) (FinishOp now now' i outcome) =
      (resolve l now now' ?p (ar_tracked ?r) outcome s, rs[i := ?r\<lparr>ar_resolved := True\<rparr>])"
    using True by (simp add: finish_def)
  show ?thesis
  proof (cases "ar_tracked ?r")
    case tr: True
    have "0 < pend (bucket_of s ?p)" using p [of ?p] fl [of ?p True] tr by simp
    note e = resolve_tracked [OF ok this refl]
    show ?thesis unfolding step using e tr p o fl by (auto simp: limiter_inv_def)
  next
    case tr: False
    have "0 < overflow_pending_for s ?p" using o [of ?p] fl [of ?p False] tr by simp
    note e = resolve_untracked [OF ok this refl]
    show ?thesis unfolding step using e tr p o fl by (auto simp: limiter_inv_def)
  qed
qed

lemma limiter_inv_run: "limiter_inv l st \<Longrightarrow> limiter_inv l (foldl (limiter_step l) st ops)"
proof (induction ops arbitrary: st)
  case (Cons op ops)
  obtain s rs where "st = (s, rs)" by (cases st)
  with Cons show ?case
    using limiter_inv_reserve limiter_inv_finish by (cases op) auto
qed simp

lemma limiter_inv_new: "limiter_inv l (FailedAuthState_new n, [])"
  by (auto simp: limiter_inv_def limiter_ok_def FailedAuthState_new_def Let_def index_inv_def accounts_def
      overflow_inv_def budget_inv_def global_limits_def bucket_of_def overflow_pending_for_def
      hm_get_or_def in_flight_def idle_keys_def list_all_iff)

text \<open>
  C8 (authentication attempts are bounded): after any sequence of reservations and outcomes, dropped
  and repeated ones included, the attempts of a peer that are in flight and its recorded failures
  together never exceed the limit; the histories and records never exceed their capacities; the
  counters are exactly the sizes they stand for; and no shard has spent more than its budget.
\<close>

theorem auth_attempts_bounded:
  "let (s, rs) = foldl (limiter_step l) (FailedAuthState_new budget, []) ops in
     (\<forall>p. length (pa_failures (case map_of (fa_buckets s) p of None \<Rightarrow> \<lparr>pa_failures = [], pa_pending = 0\<rparr> | Some b \<Rightarrow> b)) +
        length (filter (\<lambda>r. ar_peer r = p \<and> \<not> ar_resolved r) rs) \<le> fl_max_attempts l) \<and>
     length (fa_buckets s) \<le> fl_max_tracked_peers l \<and>
     fa_total_failures s + fa_total_pending s \<le> fl_max_attempt_records l \<and>
     fa_total_pending s + fa_total_overflow s \<le> fl_max_attempt_records l \<and>
     fa_total_failures s = hm_total (\<lambda>b. length (pa_failures b)) (fa_buckets s) \<and>
     fa_total_pending s = hm_total pa_pending (fa_buckets s) \<and>
     fa_total_overflow s = hm_total (\<lambda>n. n) (fa_overflow s) \<and>
     list_all (\<lambda>sh. ab_used sh \<le> ab_capacity sh) (fa_budget s)"
proof -
  obtain s rs where run: "foldl (limiter_step l) (FailedAuthState_new budget, []) ops = (s, rs)" by force
  have inv: "limiter_inv l (s, rs)" using limiter_inv_run [OF limiter_inv_new, of l budget ops] run by simp
  then have ok: "limiter_ok l s" by (simp add: limiter_inv_def)
  have fl: "length (filter (\<lambda>r. ar_peer r = p \<and> \<not> ar_resolved r) rs) = in_flight rs p True + in_flight rs p False" for p
    by (induction rs) (auto simp: in_flight_def)
  have "length (pa_failures (case map_of (fa_buckets s) p of None \<Rightarrow> \<lparr>pa_failures = [], pa_pending = 0\<rparr> | Some b \<Rightarrow> b)) =
      fails (bucket_of s p)" for p
    by (cases "map_of (fa_buckets s) p") (simp_all add: bucket_of_def bucket_failures_def)
  moreover have "fails (bucket_of s p) + (in_flight rs p True + in_flight rs p False) \<le> fl_max_attempts l" for p
    using inv ok by (auto simp: limiter_inv_def limiter_ok_def dest!: spec [of _ p])
  moreover have "bucket_failures = (\<lambda>b. length (pa_failures b))" by (simp add: bucket_failures_def fun_eq_iff)
  ultimately show ?thesis
    using ok unfolding run
    by (simp add: fl limiter_ok_def global_limits_def accounts_def overflow_inv_def budget_inv_def)
qed

lemma finish_keeps_locked:
  assumes "limiter_inv l (s, rs)" and "bucket_of s p = Some b" and "locked l t b"
  shows "bucket_of (fst (limiter_step l (s, rs) (FinishOp now now' i outcome))) p = Some b"
proof (cases "i < length rs \<and> \<not> ar_resolved (rs ! i)")
  case False
  then show ?thesis using assms by (auto simp: finish_def)
next
  case True
  let ?r = "rs ! i"
  note fl = in_flight_resolve [OF conjunct1 [OF True] conjunct2 [OF True]]
  have ok: "limiter_ok l s" and pe: "\<And>p. pend (bucket_of s p) = in_flight rs p True"
    and ov: "\<And>p. overflow_pending_for s p = in_flight rs p False"
    using assms(1) by (simp_all add: limiter_inv_def)
  have "fails (bucket_of s p) + pend (bucket_of s p) + overflow_pending_for s p \<le> fl_max_attempts l"
    using ok by (simp add: limiter_ok_def)
  then have "pend (bucket_of s p) = 0" "overflow_pending_for s p = 0"
    using assms(2,3) by (auto simp: locked_def)
  then have other: "ar_peer ?r \<noteq> p"
    using pe [of p] ov [of p] fl [of p True] fl [of p False] by (cases "ar_tracked ?r") auto
  have s': "fst (limiter_step l (s, rs) (FinishOp now now' i outcome)) =
      resolve l now now' (ar_peer ?r) (ar_tracked ?r) outcome s"
    using True by (simp add: finish_def)
  show ?thesis
  proof (cases "ar_tracked ?r")
    case tr: True
    then have "0 < pend (bucket_of s (ar_peer ?r))"
      using pe [of "ar_peer ?r"] fl [of "ar_peer ?r" True] by simp
    then show ?thesis
      using resolve_tracked(4) [OF ok _ refl] other assms(2) tr unfolding s' by simp
  next
    case tr: False
    then have "0 < overflow_pending_for s (ar_peer ?r)"
      using ov [of "ar_peer ?r"] fl [of "ar_peer ?r" False] by simp
    then show ?thesis
      using resolve_untracked(4) [OF ok _ refl] other assms(2) tr unfolding s' by simp
  qed
qed

fun op_before :: "(nat \<Rightarrow> bool) \<Rightarrow> limiter_op \<Rightarrow> bool" where
  "op_before P (ReserveOp now addr) = P now"
| "op_before P (FinishOp now now' i outcome) = True"

lemma reserve_keeps_locked:
  assumes "limiter_inv l (s, rs)" and "bucket_of s p = Some b" and "locked l now b"
  shows "bucket_of (fst (limiter_step l (s, rs) (ReserveOp now addr))) p = Some b"
proof -
  obtain res s' where r: "reserve l now addr s = (res, s')" by force
  have ok: "limiter_ok l s" using assms(1) by (simp add: limiter_inv_def)
  have "bucket_of s' p = Some b"
  proof (cases "p = PeerBucket_from addr")
    case True
    then show ?thesis using reserve_locked [OF ok _ _ r] assms(2,3) by blast
  next
    case False
    then show ?thesis using reserve_result [OF ok r] assms(2,3) unfolding keeps_locked_def by blast
  qed
  then show ?thesis by (simp add: r split: option.split)
qed

lemma run_keeps_locked:
  assumes "limiter_inv l st" and "bucket_of (fst st) p = Some b"
    and "list_all (op_before (\<lambda>t. locked l t b)) ops" and "locked l t b"
  shows "bucket_of (fst (foldl (limiter_step l) st ops)) p = Some b"
  using assms
proof (induction ops arbitrary: st)
  case (Cons op ops)
  obtain s rs where st: "st = (s, rs)" by (cases st)
  have "bucket_of (fst (limiter_step l st op)) p = Some b"
    using Cons.prems reserve_keeps_locked finish_keeps_locked unfolding st by (cases op) auto
  moreover have "limiter_inv l (limiter_step l st op)"
    using limiter_inv_run [OF Cons.prems(1), of "[op]"] by simp
  ultimately show ?case using Cons by simp
qed simp

text \<open>
  C9 (lockout): a peer whose recorded failures reach the limit is refused every attempt until one of
  the failures expires. Whatever attempts and outcomes of any peers lie in between, and however hard
  the history is pressed for room, the peer's record is neither evicted nor shortened.
\<close>

theorem auth_lockout:
  assumes "foldl (limiter_step l) (FailedAuthState_new budget, []) ops = (s, rs)"
    and "map_of (fa_buckets s) (PeerBucket_from addr) = Some b"
    and "fl_max_attempts l \<le> length (pa_failures b)" and "pa_failures b \<noteq> []"
    and "list_all (op_before (\<lambda>t. list_all (\<lambda>f. t - f < fl_window l) (pa_failures b))) later"
    and "list_all (\<lambda>f. now - f < fl_window l) (pa_failures b)"
  shows "fst (reserve l now addr (fst (foldl (limiter_step l) (s, rs) later))) = None"
proof -
  let ?st = "foldl (limiter_step l) (s, rs) later" and ?p = "PeerBucket_from addr"
  have inv: "limiter_inv l (s, rs)" using limiter_inv_run [OF limiter_inv_new, of l budget ops] assms(1) by simp
  then have "fails (bucket_of s ?p) + pend (bucket_of s ?p) + overflow_pending_for s ?p \<le> fl_max_attempts l"
    unfolding limiter_inv_def limiter_ok_def by blast
  then have "pa_pending b = 0" using assms(2,3) by (simp add: bucket_of_def bucket_failures_def)
  then have lb: "\<And>t. locked l t b = list_all (\<lambda>f. t - f < fl_window l) (pa_failures b)"
    using assms(3,4) by (auto simp: locked_def bucket_failures_def)
  have "bucket_of (fst ?st) ?p = Some b"
    using run_keeps_locked [OF inv, of ?p b later now] assms(2,5,6) by (simp add: lb bucket_of_def)
  moreover have "limiter_ok l (fst ?st)"
    using limiter_inv_run [OF inv, of later] by (cases ?st) (simp add: limiter_inv_def)
  ultimately show ?thesis
    using reserve_locked assms(6) lb by (metis prod.collapse)
qed

theorem auth_lockout_witness:
  "let l = \<lparr>fl_max_attempts = 2, fl_window = 60, fl_max_tracked_peers = 4, fl_max_attempt_records = 8\<rparr>;
     a = IpV4 [10, 0, 0, 1]; o' = IpV4 [10, 0, 0, 2];
     st = foldl (limiter_step l) (FailedAuthState_new 32, [])
       [ReserveOp 1 a, FinishOp 1 1 0 Failed, ReserveOp 2 a, FinishOp 2 2 1 Failed]
   in fst (reserve l 9 a (fst (foldl (limiter_step l) st [ReserveOp 5 o', FinishOp 6 6 2 Succeeded]))) = None"
proof -
  let ?l = "\<lparr>fl_max_attempts = 2, fl_window = 60, fl_max_tracked_peers = 4, fl_max_attempt_records = 8\<rparr>"
  let ?a = "IpV4 [10, 0, 0, 1]" and ?b = "\<lparr>pa_failures = [1, 2], pa_pending = 0\<rparr>"
  let ?ops = "[ReserveOp 1 ?a, FinishOp 1 1 0 Failed, ReserveOp 2 ?a, FinishOp 2 2 1 Failed]"
  let ?st = "foldl (limiter_step ?l) (FailedAuthState_new 32, []) ?ops"
  have b: "map_of (fa_buckets (fst ?st)) (PeerBucket_from ?a) = Some ?b" by code_simp
  show ?thesis
    using auth_lockout [of ?l 32 ?ops "fst ?st" "snd ?st" ?a ?b
        "[ReserveOp 5 (IpV4 [10, 0, 0, 2]), FinishOp 6 6 2 Succeeded]" 9, OF _ b]
    unfolding Let_def by (simp del: foldl_Cons)
qed

end
