(* ===== verification/Prefix_Code.thy ===== *)
theory Prefix_Code
  imports Prelude
begin

text \<open>
  Encodings written by appending to a buffer. What is signed or hashed must determine its fields;
  for an encoding that only appends fields one after the other this follows field by field when no
  encoded value is a prefix of another. The locale \<open>prefix_code\<close> states that contract on the
  well-formed values; it is interpreted for the integers, the length-prefixed byte strings and, in
  the theories that use it, for every record the program encodes this way.
\<close>

locale prefix_code =
  fixes enc :: "'a \<Rightarrow> bytes"
    and wf :: "'a \<Rightarrow> bool"
  assumes enc_prefix: "wf x \<Longrightarrow> wf y \<Longrightarrow> enc x @ r = enc y @ s \<Longrightarrow> x = y \<and> r = s"
begin

lemma append_iff: "wf x \<Longrightarrow> wf y \<Longrightarrow> enc x @ r = enc y @ s \<longleftrightarrow> x = y \<and> r = s"
  using enc_prefix by blast

lemma inj: "wf x \<Longrightarrow> wf y \<Longrightarrow> enc x = enc y \<Longrightarrow> x = y"
  using enc_prefix [of x y "[]" "[]"] by simp

lemma concat_iff:
  "\<lbrakk>list_all wf xs; list_all wf ys; length xs = length ys\<rbrakk>
     \<Longrightarrow> concat (map enc xs) @ r = concat (map enc ys) @ s \<longleftrightarrow> xs = ys \<and> r = s"
proof (induction xs arbitrary: ys)
  case Nil
  then show ?case by simp
next
  case (Cons x xs)
  then obtain y zs where "ys = y # zs" by (cases ys) auto
  with Cons show ?case by (auto simp: append_iff)
qed

end

lemma fixed_prefix:
  assumes "\<And>x. length (enc x) = n" and "\<And>x y. enc x = enc y \<Longrightarrow> x = y"
  shows "enc x @ r = enc y @ s \<Longrightarrow> x = y \<and> r = s"
  using assms by (metis append_eq_append_conv)

lemma put_inj: "put_u16 a = put_u16 a' \<Longrightarrow> a = a'" "put_u32 b = put_u32 b' \<Longrightarrow> b = b'"
    "put_u64 c = put_u64 c' \<Longrightarrow> c = c'"
  by (metis from_be_put(1)) (metis from_be_put(2), metis from_be_put(3))

lemma put_eq_iff [simp]: "put_u16 a = put_u16 a' \<longleftrightarrow> a = a'" "put_u32 b = put_u32 b' \<longleftrightarrow> b = b'"
    "put_u64 c = put_u64 c' \<longleftrightarrow> c = c'"
  using put_inj by blast+

interpretation u16_code: prefix_code put_u16 "\<lambda>_. True"
  by unfold_locales (rule fixed_prefix [OF length_put(1) put_inj(1)])

interpretation u32_code: prefix_code put_u32 "\<lambda>_. True"
  by unfold_locales (rule fixed_prefix [OF length_put(2) put_inj(2)])

interpretation u64_code: prefix_code put_u64 "\<lambda>_. True"
  by unfold_locales (rule fixed_prefix [OF length_put(3) put_inj(3)])

lemmas int_code_simps = u16_code.append_iff [OF TrueI TrueI] u32_code.append_iff [OF TrueI TrueI]
  u64_code.append_iff [OF TrueI TrueI]

lemma count_eq:
  assumes "m < 2 ^ 32" and "n < 2 ^ 32"
  shows "(word_of_nat m :: u32) = word_of_nat n \<longleftrightarrow> m = n"
proof -
  have "unat (word_of_nat m :: u32) = m" "unat (word_of_nat n :: u32) = n"
    using assms by (simp_all add: unat_of_nat)
  then show ?thesis by metis
qed

lemma counted_prefix:
  assumes "length v < 2 ^ 32" and "length w < 2 ^ 32"
    and "put_u32 (word_of_nat (length v)) @ v @ r = put_u32 (word_of_nat (length w)) @ w @ s"
  shows "v = w \<and> r = s"
proof -
  have "length v = length w \<and> v @ r = w @ s"
    using assms by (simp only: int_code_simps count_eq)
  then show ?thesis by auto
qed

end
