(* ===== verification/Device_Identity.thy ===== *)
theory Device_Identity
  imports Prefix_Code Serde
begin

text \<open>
  Device identities (\<open>rustgo-crypto/src/identity.rs\<close>), the signed login transcript
  (\<open>transcript.rs\<close>) and the text of the private key file (\<open>keyfile.rs\<close>). The primitives of the
  crates \<open>base64\<close>, \<open>ed25519-dalek\<close> and \<open>sha2\<close> are a parameter, the record \<open>primitives\<close>; what the
  code relies on is stated by \<open>base64_faithful\<close> and \<open>signatures_complete\<close>. A verifying key is its
  32 bytes, as the crate stores and compares it. The theorems: printing and parsing a public key and
  writing and reading a key file are inverse, and the transcript determines every field it covers.
\<close>

record primitives =
  base64_encode :: "bytes \<Rightarrow> string"
  base64_decode :: "string \<Rightarrow> bytes option"
  verifying_key_valid :: "bytes \<Rightarrow> bool"
  verifying_key_weak :: "bytes \<Rightarrow> bool"
  ed25519_public :: "bytes \<Rightarrow> bytes"
  ed25519_sign :: "bytes \<Rightarrow> bytes \<Rightarrow> bytes"
  ed25519_verify_strict :: "bytes \<Rightarrow> bytes \<Rightarrow> bytes \<Rightarrow> bool"
  sha256 :: "bytes \<Rightarrow> bytes"

definition base64_faithful :: "'a primitives_scheme \<Rightarrow> bool" where
  "base64_faithful c \<longleftrightarrow> (\<forall>bs. base64_decode c (base64_encode c bs) = Some bs) \<and>
     (\<forall>bs. list_all (\<lambda>ch. ch \<in> set (''ABCDEFGHIJKLMNOPQRSTUVWXYZabcdefghijklmnopqrstuvwxyz0123456789+/=''))
       (base64_encode c bs))"

definition signatures_complete :: "'a primitives_scheme \<Rightarrow> bool" where
  "signatures_complete c \<longleftrightarrow>
     (\<forall>k m. length (ed25519_sign c k m) = 64 \<and> ed25519_verify_strict c (ed25519_public c k) m (ed25519_sign c k m))"

subsection \<open>Keys and fingerprints\<close>

definition PUBLIC_KEY_PREFIX :: string where "PUBLIC_KEY_PREFIX = ''ed25519:''"

datatype CryptoError = AuthenticationFailed | InvalidPublicKey | InvalidPrivateKey | KeyFileIo string

datatype DeviceKeypair = DeviceKeypair (secret_bytes: bytes)

datatype DevicePublicKey = DevicePublicKey (pk_as_bytes: bytes)

datatype Fingerprint = Fingerprint (fp_bytes: bytes)

definition DeviceKeypair_public_key :: "'a primitives_scheme \<Rightarrow> DeviceKeypair \<Rightarrow> DevicePublicKey" where
  "DeviceKeypair_public_key c self = DevicePublicKey (ed25519_public c (secret_bytes self))"

definition sign_bytes :: "'a primitives_scheme \<Rightarrow> DeviceKeypair \<Rightarrow> bytes \<Rightarrow> bytes" where
  "sign_bytes c self message = ed25519_sign c (secret_bytes self) message"

text \<open>\<open>Signature::from_slice\<close> refuses every slice that is not 64 bytes long.\<close>

definition verify_bytes ::
  "'a primitives_scheme \<Rightarrow> DevicePublicKey \<Rightarrow> bytes \<Rightarrow> bytes \<Rightarrow> (CryptoError, unit) result" where
  "verify_bytes c self message signature =
     (if length signature \<noteq> 64 then Inl AuthenticationFailed
      else if ed25519_verify_strict c (pk_as_bytes self) message signature then Inr ()
      else Inl AuthenticationFailed)"

definition DevicePublicKey_to_string :: "'a primitives_scheme \<Rightarrow> DevicePublicKey \<Rightarrow> string" where
  "DevicePublicKey_to_string c self = PUBLIC_KEY_PREFIX @ base64_encode c (pk_as_bytes self)"

definition strip_prefix :: "'x list \<Rightarrow> 'x list \<Rightarrow> 'x list option" where
  "strip_prefix p s = (if take (length p) s = p then Some (drop (length p) s) else None)"

definition strip_suffix :: "'x list \<Rightarrow> 'x list \<Rightarrow> 'x list option" where
  "strip_suffix p s = map_option rev (strip_prefix (rev p) (rev s))"

definition DevicePublicKey_from_str :: "'a primitives_scheme \<Rightarrow> string \<Rightarrow> (CryptoError, DevicePublicKey) result" where
  "DevicePublicKey_from_str c encoded =
     and_then (ok_or (strip_prefix PUBLIC_KEY_PREFIX encoded) InvalidPublicKey) (\<lambda>payload.
     and_then (ok_or (base64_decode c payload) InvalidPublicKey) (\<lambda>bs.
       if length bs \<noteq> 32 then Inl InvalidPublicKey
       else if \<not> verifying_key_valid c bs then Inl InvalidPublicKey
       else if verifying_key_weak c bs then Inl InvalidPublicKey
       else Inr (DevicePublicKey bs)))"

definition Fingerprint_from :: "'a primitives_scheme \<Rightarrow> DevicePublicKey \<Rightarrow> Fingerprint" where
  "Fingerprint_from c public_key = Fingerprint (sha256 c (pk_as_bytes public_key))"

definition fingerprint :: "'a primitives_scheme \<Rightarrow> DevicePublicKey \<Rightarrow> Fingerprint" where
  "fingerprint c self = Fingerprint_from c self"

definition hex_digit :: "nat \<Rightarrow> char" where
  "hex_digit n = ''0123456789abcdef'' ! n"

definition hex_byte :: "u8 \<Rightarrow> string" where
  "hex_byte b = [hex_digit (unat b div 16), hex_digit (unat b mod 16)]"

definition Fingerprint_to_string :: "Fingerprint \<Rightarrow> string" where
  "Fingerprint_to_string self = ''sha256:'' @ concat (map hex_byte (fp_bytes self))"

subsection \<open>The login transcript\<close>

definition AUTH_DOMAIN :: bytes where "AUTH_DOMAIN = as_bytes ''rustgo-auth-v1''"

text \<open>
  A field of 4 GiB or more aborts the program; the fields of a login are bounded by the message
  types, and the lemmas below carry the bound.
\<close>

definition auth_append_bytes :: "bytes \<Rightarrow> bytes" where
  "auth_append_bytes value = put_u32 (word_of_nat (length value)) @ value"

definition AuthTranscript_new :: "bytes \<Rightarrow> bytes \<Rightarrow> u16 \<Rightarrow> string \<Rightarrow> bytes" where
  "AuthTranscript_new challenge session_id protocol_version client_name =
     AUTH_DOMAIN @ auth_append_bytes challenge @ auth_append_bytes session_id @
     put_u16 protocol_version @ auth_append_bytes (as_bytes client_name)"

definition sign_auth :: "'a primitives_scheme \<Rightarrow> DeviceKeypair \<Rightarrow> bytes \<Rightarrow> bytes" where
  "sign_auth c keypair transcript = ed25519_sign c (secret_bytes keypair) transcript"

definition verify_auth ::
  "'a primitives_scheme \<Rightarrow> DevicePublicKey \<Rightarrow> bytes \<Rightarrow> bytes \<Rightarrow> (CryptoError, unit) result" where
  "verify_auth c public_key transcript signature = verify_bytes c public_key transcript signature"

subsection \<open>The private key file\<close>

definition PRIVATE_KEY_PREFIX :: string where "PRIVATE_KEY_PREFIX = ''rustgo-ed25519-private-v1:''"

definition NEWLINE :: string where "NEWLINE = [CHR 10]"
definition CARRIAGE_RETURN :: string where "CARRIAGE_RETURN = [CHR 13]"

text \<open>
  The bytes \<open>write_private_key\<close> writes. \<open>encode_slice\<close> into the 44-byte buffer fails when the
  encoding is longer; the encoding of 32 bytes is not.
\<close>

definition write_private_key :: "'a primitives_scheme \<Rightarrow> DeviceKeypair \<Rightarrow> (CryptoError, bytes) result" where
  "write_private_key c keypair =
     (let encoded = base64_encode c (secret_bytes keypair) in
      if length encoded > 44 then Inl InvalidPrivateKey
      else Inr (as_bytes (PRIVATE_KEY_PREFIX @ encoded @ NEWLINE)))"

definition unwrap_or :: "'x option \<Rightarrow> 'x \<Rightarrow> 'x" where
  "unwrap_or o' d = (case o' of None \<Rightarrow> d | Some x \<Rightarrow> x)"

definition load_private_file :: "'a primitives_scheme \<Rightarrow> (string, bytes) result \<Rightarrow> (CryptoError, DeviceKeypair) result" where
  "load_private_file c file =
     (case file of
        Inl kind \<Rightarrow> Inl (KeyFileIo kind)
      | Inr contents \<Rightarrow>
          let encoded = string_of_bytes contents in
          if \<not> utf8_valid encoded then Inl InvalidPrivateKey
          else
            let encoded = unwrap_or (strip_suffix NEWLINE encoded) encoded;
                encoded = unwrap_or (strip_suffix CARRIAGE_RETURN encoded) encoded
            in and_then (ok_or (strip_prefix PRIVATE_KEY_PREFIX encoded) InvalidPrivateKey) (\<lambda>payload.
               and_then (ok_or (base64_decode c payload) InvalidPrivateKey) (\<lambda>secret.
                 if length secret \<noteq> 32 then Inl InvalidPrivateKey
                 else Inr (DeviceKeypair secret))))"

subsection \<open>Printing and parsing\<close>

lemma strip_prefix_append [simp]: "strip_prefix p (p @ s) = Some s"
  by (simp add: strip_prefix_def)

lemma strip_prefix_Some_iff: "strip_prefix p s = Some r \<longleftrightarrow> s = p @ r"
  by (auto simp: strip_prefix_def) (metis append_take_drop_id)

lemma strip_suffix_append [simp]: "strip_suffix p (s @ p) = Some s"
  by (simp add: strip_suffix_def)

lemma strip_suffix_Some_iff: "strip_suffix p s = Some r \<longleftrightarrow> s = r @ p"
  by (auto simp: strip_suffix_def strip_prefix_Some_iff rev_swap)

lemma strip_suffix_single: "s = [] \<or> last s \<noteq> ch \<Longrightarrow> strip_suffix [ch] s = None"
proof (rule ccontr)
  assume s: "s = [] \<or> last s \<noteq> ch" and "strip_suffix [ch] s \<noteq> None"
  then obtain r where "s = r @ [ch]" by (auto simp: strip_suffix_Some_iff)
  with s show False by simp
qed

lemma unwrap_or_simps [simp]: "unwrap_or (Some x) d = x" "unwrap_or None d = d"
  by (simp_all add: unwrap_or_def)

definition accepted_key :: "'a primitives_scheme \<Rightarrow> DevicePublicKey \<Rightarrow> bool" where
  "accepted_key c k \<longleftrightarrow> length (pk_as_bytes k) = 32 \<and> verifying_key_valid c (pk_as_bytes k) \<and>
     \<not> verifying_key_weak c (pk_as_bytes k)"

lemma from_str_Inr_iff:
  "DevicePublicKey_from_str c s = Inr k \<longleftrightarrow>
     accepted_key c k \<and> (\<exists>payload. s = PUBLIC_KEY_PREFIX @ payload \<and> base64_decode c payload = Some (pk_as_bytes k))"
  by (cases k) (auto simp: DevicePublicKey_from_str_def result_simps strip_prefix_Some_iff accepted_key_def)

lemma from_str_to_string:
  "base64_faithful c \<Longrightarrow> accepted_key c k \<Longrightarrow> DevicePublicKey_from_str c (DevicePublicKey_to_string c k) = Inr k"
  by (simp add: from_str_Inr_iff DevicePublicKey_to_string_def base64_faithful_def)

lemma base64_ascii:
  assumes "base64_faithful c" and "ch \<in> set (base64_encode c bs)"
  shows "(of_char ch :: nat) < 128 \<and> ch \<noteq> CHR 10 \<and> ch \<noteq> CHR 13"
proof -
  have "ch \<in> set (''ABCDEFGHIJKLMNOPQRSTUVWXYZabcdefghijklmnopqrstuvwxyz0123456789+/='')"
    using assms by (auto simp: base64_faithful_def list_all_iff)
  then show ?thesis by (auto simp: of_char_def)
qed

lemma to_string_utf8: "base64_faithful c \<Longrightarrow> utf8_valid (DevicePublicKey_to_string c k)"
proof (rule utf8_valid_ascii)
  assume "base64_faithful c"
  then show "\<forall>ch \<in> set (DevicePublicKey_to_string c k). (of_char ch :: nat) < 128"
    using base64_ascii by (fastforce simp: DevicePublicKey_to_string_def PUBLIC_KEY_PREFIX_def)
qed

text \<open>
  A key file is read back whether it ends with a newline, a carriage return and a newline (an editor
  on Windows), or nothing at all.
\<close>

lemma load_written:
  assumes "base64_faithful c" and "length (secret_bytes k) = 32"
    and ending: "ending = [] \<or> ending = NEWLINE \<or> ending = CARRIAGE_RETURN @ NEWLINE"
  shows "load_private_file c (Inr (as_bytes (PRIVATE_KEY_PREFIX @ base64_encode c (secret_bytes k) @ ending))) = Inr k"
proof -
  let ?e = "base64_encode c (secret_bytes k)" and ?t = "PRIVATE_KEY_PREFIX @ base64_encode c (secret_bytes k)"
  have asc: "\<And>ch. ch \<in> set ?e \<Longrightarrow> (of_char ch :: nat) < 128 \<and> ch \<noteq> CHR 10 \<and> ch \<noteq> CHR 13"
    using base64_ascii [OF assms(1)] by blast
  have "\<forall>ch \<in> set (?t @ ending). (of_char ch :: nat) < 128"
    using asc ending by (auto simp: PRIVATE_KEY_PREFIX_def NEWLINE_def CARRIAGE_RETURN_def)
  then have utf: "utf8_valid (?t @ ending)" by (rule utf8_valid_ascii)
  have lst: "last ?t \<noteq> CHR 10 \<and> last ?t \<noteq> CHR 13"
    using asc [of "last ?e"] by (cases "?e = []") (simp_all add: PRIVATE_KEY_PREFIX_def)
  have no: "strip_suffix NEWLINE ?t = None" "strip_suffix CARRIAGE_RETURN ?t = None"
    unfolding NEWLINE_def CARRIAGE_RETURN_def using lst by (auto intro: strip_suffix_single)
  have "strip_suffix NEWLINE (?t @ CARRIAGE_RETURN @ NEWLINE) = Some (?t @ CARRIAGE_RETURN)"
    by (metis append.assoc strip_suffix_append)
  moreover have "strip_suffix NEWLINE (?t @ NEWLINE) = Some ?t" "strip_suffix CARRIAGE_RETURN (?t @ CARRIAGE_RETURN) = Some ?t"
    by (rule strip_suffix_append)+
  ultimately have "unwrap_or (strip_suffix CARRIAGE_RETURN (unwrap_or (strip_suffix NEWLINE (?t @ ending)) (?t @ ending)))
      (unwrap_or (strip_suffix NEWLINE (?t @ ending)) (?t @ ending)) = ?t"
    using ending no by (elim disjE) (simp_all del: append_assoc)
  moreover have "strip_prefix PRIVATE_KEY_PREFIX ?t = Some ?e" by simp
  ultimately show ?thesis
    using utf assms(1,2) by (cases k) (simp add: load_private_file_def Let_def base64_faithful_def)
qed

subsection \<open>The transcript determines its fields\<close>

interpretation auth_bytes_code: prefix_code auth_append_bytes "\<lambda>v. length v < 2 ^ 32"
  by unfold_locales (simp only: auth_append_bytes_def append_assoc, rule counted_prefix)

lemma transcript_inj:
  assumes "AuthTranscript_new ch sid v name = AuthTranscript_new ch' sid' v' name'"
    and "length ch < 2 ^ 32" "length sid < 2 ^ 32" "length name < 2 ^ 32"
    and "length ch' < 2 ^ 32" "length sid' < 2 ^ 32" "length name' < 2 ^ 32"
  shows "ch = ch' \<and> sid = sid' \<and> v = v' \<and> name = name'"
  using assms auth_bytes_code.inj [of "as_bytes name" "as_bytes name'"]
  by (simp add: AuthTranscript_new_def auth_bytes_code.append_iff int_code_simps)

lemma hex_digit_inj: "a < 16 \<Longrightarrow> b < 16 \<Longrightarrow> hex_digit a = hex_digit b \<Longrightarrow> a = b"
  unfolding hex_digit_def by (subst (asm) nth_eq_iff_index_eq) simp_all

lemma hex_byte_inj: "hex_byte a = hex_byte b \<longleftrightarrow> a = b"
proof
  assume h: "hex_byte a = hex_byte b"
  have lt: "unat a < 256" "unat b < 256" using unat_less_pow [of a] unat_less_pow [of b] by simp_all
  then have "unat a div 16 = unat b div 16 \<and> unat a mod 16 = unat b mod 16"
    using h by (auto simp: hex_byte_def intro: hex_digit_inj)
  then have "unat a = unat b" by (metis div_mod_decomp)
  then show "a = b" by (simp add: word_unat_eq_iff)
qed simp

lemma hex_byte_len: "length (hex_byte b) = 2"
  by (simp add: hex_byte_def)

lemma hex_inj: "concat (map hex_byte xs) = concat (map hex_byte ys) \<Longrightarrow> xs = ys"
proof (induction xs arbitrary: ys)
  case Nil
  then show ?case by (cases ys) (simp_all add: hex_byte_def)
next
  case (Cons x xs)
  then obtain y zs where ys: "ys = y # zs" by (cases ys) (simp_all add: hex_byte_def)
  have "hex_byte x = hex_byte y \<and> concat (map hex_byte xs) = concat (map hex_byte zs)"
    using Cons.prems ys append_eq_append_conv [of "hex_byte x" "hex_byte y"] by (simp add: hex_byte_len)
  with Cons.IH ys show ?case by (simp add: hex_byte_inj)
qed

lemma Fingerprint_to_string_inj: "Fingerprint_to_string f = Fingerprint_to_string g \<longleftrightarrow> f = g"
  by (cases f; cases g) (auto simp: Fingerprint_to_string_def dest: hex_inj)

end
