(* ===== verification/Primitives_Instance.thy ===== *)
theory Primitives_Instance
  imports Device_Identity
begin

text \<open>
  Concrete primitives, on which the witnesses evaluate the theorems about identities, logins and
  peer sessions. The base64 coding is the standard one with padding. The signature scheme and the
  digest have the shape and the completeness of the real ones and none of their strength, which no
  theorem of the development relies on.
\<close>

definition b64_alphabet :: string where
  "b64_alphabet = ''ABCDEFGHIJKLMNOPQRSTUVWXYZabcdefghijklmnopqrstuvwxyz0123456789+/''"

definition b64_char :: "nat \<Rightarrow> char" where "b64_char n = b64_alphabet ! (n mod 64)"

fun index_of :: "'a \<Rightarrow> 'a list \<Rightarrow> nat \<Rightarrow> nat option" where
  "index_of x [] n = None"
| "index_of x (y # ys) n = (if x = y then Some n else index_of x ys (n + 1))"

definition b64_value :: "char \<Rightarrow> nat option" where "b64_value ch = index_of ch b64_alphabet 0"

definition b64_byte :: "nat \<Rightarrow> u8" where "b64_byte n = word_of_nat n"

fun b64_encode :: "bytes \<Rightarrow> string" where
  "b64_encode [] = []"
| "b64_encode [a] = [b64_char (unat a div 4), b64_char (unat a mod 4 * 16), CHR ''='', CHR ''='']"
| "b64_encode [a, b] = [b64_char (unat a div 4), b64_char (unat a mod 4 * 16 + unat b div 16),
     b64_char (unat b mod 16 * 4), CHR ''='']"
| "b64_encode (a # b # c # r) = b64_char (unat a div 4) # b64_char (unat a mod 4 * 16 + unat b div 16) #
     b64_char (unat b mod 16 * 4 + unat c div 64) # b64_char (unat c mod 64) # b64_encode r"

fun b64_group :: "nat option \<Rightarrow> nat option \<Rightarrow> nat option \<Rightarrow> nat option \<Rightarrow> bytes option" where
  "b64_group (Some p) (Some q) (Some r) (Some s) =
     Some [b64_byte (p * 4 + q div 16), b64_byte (q mod 16 * 16 + r div 4), b64_byte (r mod 4 * 64 + s)]"
| "b64_group (Some p) (Some q) (Some r) None = Some [b64_byte (p * 4 + q div 16), b64_byte (q mod 16 * 16 + r div 4)]"
| "b64_group (Some p) (Some q) None None = Some [b64_byte (p * 4 + q div 16)]"
| "b64_group _ _ _ _ = None"

fun b64_decode :: "string \<Rightarrow> bytes option" where
  "b64_decode [] = Some []"
| "b64_decode (p # q # r # s # rest) =
     (case (b64_group (b64_value p) (b64_value q) (b64_value r) (b64_value s), b64_decode rest) of
        (Some g, Some t) \<Rightarrow> Some (g @ t) | _ \<Rightarrow> None)"
| "b64_decode _ = None"

lemma index_of_nth: "distinct ys \<Longrightarrow> i < length ys \<Longrightarrow> index_of (ys ! i) ys n = Some (n + i)"
proof (induction ys arbitrary: n i)
  case (Cons y ys)
  then show ?case by (cases i) (auto simp: nth_eq_iff_index_eq)
qed simp

lemma b64_value_char [simp]: "n < 64 \<Longrightarrow> b64_value (b64_char n) = Some n"
proof -
  assume n: "n < 64"
  have "distinct b64_alphabet" "length b64_alphabet = 64" by (simp_all add: b64_alphabet_def)
  then show ?thesis using n index_of_nth [of b64_alphabet n 0] by (simp add: b64_value_def b64_char_def)
qed

lemma b64_value_pad [simp]: "b64_value (CHR ''='') = None"
  by (simp add: b64_value_def b64_alphabet_def)

lemma b64_byte_eq: "n = unat a \<Longrightarrow> b64_byte n = a"
  by (simp add: b64_byte_def)

lemma byte_lt: "unat (a :: u8) < 256"
  using unat_less_pow [of a] by simp

lemma b64_splits:
  assumes "a < (256::nat)" and "b < 256" and "c < 256"
  shows "a div 4 < 64" "a mod 4 * 16 + b div 16 < 64" "b mod 16 * 4 + c div 64 < 64" "c mod 64 < 64"
    "a mod 4 * 16 < 64" "b mod 16 * 4 < 64"
    "a div 4 * 4 + (a mod 4 * 16 + b div 16) div 16 = a"
    "a div 4 * 4 + (a mod 4 * 16) div 16 = a"
    "(a mod 4 * 16 + b div 16) mod 16 * 16 + (b mod 16 * 4 + c div 64) div 4 = b"
    "(a mod 4 * 16 + b div 16) mod 16 * 16 + (b mod 16 * 4) div 4 = b"
    "(b mod 16 * 4 + c div 64) mod 4 * 64 + c mod 64 = c"
proof -
  have bounds: "a div 4 < 64" "b div 16 < 16" "c div 64 < 4" "a mod 4 < 4" "b mod 16 < 16" "c mod 64 < 64"
    using assms by (simp_all add: less_mult_imp_div_less)
  then show "a div 4 < 64" "a mod 4 * 16 + b div 16 < 64" "b mod 16 * 4 + c div 64 < 64" "c mod 64 < 64"
    "a mod 4 * 16 < 64" "b mod 16 * 4 < 64" by linarith+
  have "(a mod 4 * 16 + b div 16) div 16 = a mod 4" "(a mod 4 * 16 + b div 16) mod 16 = b div 16"
    "(b mod 16 * 4 + c div 64) div 4 = b mod 16" "(b mod 16 * 4 + c div 64) mod 4 = c div 64"
    using bounds by simp_all
  then show "a div 4 * 4 + (a mod 4 * 16 + b div 16) div 16 = a"
    "a div 4 * 4 + (a mod 4 * 16) div 16 = a"
    "(a mod 4 * 16 + b div 16) mod 16 * 16 + (b mod 16 * 4 + c div 64) div 4 = b"
    "(a mod 4 * 16 + b div 16) mod 16 * 16 + (b mod 16 * 4) div 4 = b"
    "(b mod 16 * 4 + c div 64) mod 4 * 64 + c mod 64 = c" by simp_all
qed

lemma b64_decode_encode: "b64_decode (b64_encode bs) = Some bs"
proof (induction bs rule: b64_encode.induct)
  case (2 a)
  then show ?case using b64_splits [OF byte_lt [of a] byte_lt [of a] byte_lt [of a]] by (simp add: b64_byte_eq)
next
  case (3 a b)
  then show ?case using b64_splits [OF byte_lt [of a] byte_lt [of b] byte_lt [of b]] by (simp add: b64_byte_eq)
next
  case (4 a b c r)
  then show ?case using b64_splits [OF byte_lt [of a] byte_lt [of b] byte_lt [of c]] by (simp add: b64_byte_eq)
qed simp

lemma length_b64_encode: "length (b64_encode bs) = 4 * ((length bs + 2) div 3)"
proof (induction bs rule: b64_encode.induct)
  case (4 a b c r)
  have "(length (a # b # c # r) + 2) div 3 = (length r + 2 + 3) div 3" by simp
  also have "\<dots> = (length r + 2) div 3 + 1" by (rule div_add_self2) simp
  finally show ?case using 4 by simp
qed simp_all

lemma b64_char_mem: "b64_char n \<in> set b64_alphabet"
proof -
  have "n mod 64 < length b64_alphabet" by (simp add: b64_alphabet_def)
  then show ?thesis unfolding b64_char_def by (rule nth_mem)
qed

lemma b64_encode_alphabet: "set (b64_encode bs) \<subseteq> insert (CHR ''='') (set b64_alphabet)"
  by (induction bs rule: b64_encode.induct) (use b64_char_mem in auto)

definition toy_sign :: "bytes \<Rightarrow> bytes \<Rightarrow> bytes" where
  "toy_sign k m = take 64 (put_u64 (word_of_nat (sum_list (map unat (k @ m)))) @ k @ replicate 64 0)"

definition toy_primitives :: primitives where
  "toy_primitives =
     \<lparr>base64_encode = b64_encode, base64_decode = b64_decode,
      verifying_key_valid = (\<lambda>k. length k = 32), verifying_key_weak = (\<lambda>k. k = replicate 32 0),
      ed25519_public = (\<lambda>k. k), ed25519_sign = toy_sign,
      ed25519_verify_strict = (\<lambda>k m s. s = toy_sign k m),
      sha256 = (\<lambda>bs. take 32 (bs @ replicate 32 0))\<rparr>"

lemma toy_base64: "base64_faithful toy_primitives"
proof -
  have "list_all (\<lambda>ch. ch \<in> set (''ABCDEFGHIJKLMNOPQRSTUVWXYZabcdefghijklmnopqrstuvwxyz0123456789+/='')) (b64_encode bs)" for bs
  proof -
    have "insert (CHR ''='') (set b64_alphabet) =
        set (''ABCDEFGHIJKLMNOPQRSTUVWXYZabcdefghijklmnopqrstuvwxyz0123456789+/='')"
      unfolding b64_alphabet_def by code_simp
    then show ?thesis using b64_encode_alphabet [of bs] unfolding list_all_iff by blast
  qed
  then show ?thesis by (simp add: base64_faithful_def toy_primitives_def b64_decode_encode)
qed

lemma toy_signatures: "signatures_complete toy_primitives"
  by (simp add: signatures_complete_def toy_primitives_def toy_sign_def min_def le_diff_conv)

subsection \<open>Round trips of the text formats\<close>

text \<open>
  Identity files: a private key file reads back as the key it was written from, also after an
  editor has changed its line ending or dropped it, and the printed public key parses as itself.
\<close>

theorem identity_roundtrip:
  assumes "base64_faithful c" and "length (secret_bytes k) = 32" and "write_private_key c k = Inr file"
    and "accepted_key c (DeviceKeypair_public_key c k)"
  shows "load_private_file c (Inr file) = Inr k \<and>
    load_private_file c (Inr (butlast file)) = Inr k \<and>
    load_private_file c (Inr (butlast file @ as_bytes (CARRIAGE_RETURN @ NEWLINE))) = Inr k \<and>
    DevicePublicKey_from_str c (DevicePublicKey_to_string c (DeviceKeypair_public_key c k)) =
      Inr (DeviceKeypair_public_key c k)"
proof -
  let ?t = "PRIVATE_KEY_PREFIX @ base64_encode c (secret_bytes k)"
  have f: "file = as_bytes (?t @ NEWLINE)"
    using assms(3) by (auto simp: write_private_key_def Let_def split: if_splits)
  have b: "butlast file = as_bytes ?t"
    by (simp add: f as_bytes_def map_butlast [symmetric] butlast_append NEWLINE_def)
  have e: "as_bytes ?t @ as_bytes (CARRIAGE_RETURN @ NEWLINE) = as_bytes (?t @ CARRIAGE_RETURN @ NEWLINE)"
    by (simp add: as_bytes_def)
  show ?thesis
    unfolding b e unfolding f
    using load_written [OF assms(1,2), of NEWLINE] load_written [OF assms(1,2), of "[]"]
      load_written [OF assms(1,2), of "CARRIAGE_RETURN @ NEWLINE"] from_str_to_string [OF assms(1,4)]
    by simp
qed

lemma toy_write: "length (secret_bytes k) = 32 \<Longrightarrow> is_ok (write_private_key toy_primitives k)"
  by (simp add: write_private_key_def toy_primitives_def Let_def length_b64_encode)

theorem identity_roundtrip_witness:
  "\<exists>file. write_private_key toy_primitives (DeviceKeypair (replicate 32 7)) = Inr file \<and>
     load_private_file toy_primitives (Inr file) = Inr (DeviceKeypair (replicate 32 7))"
proof -
  let ?k = "DeviceKeypair (replicate 32 7)"
  have "is_ok (write_private_key toy_primitives ?k)" by (rule toy_write) simp
  then obtain contents where f: "write_private_key toy_primitives ?k = Inr contents" by (auto simp: is_ok_iff)
  have "accepted_key toy_primitives (DeviceKeypair_public_key toy_primitives ?k)"
    by (simp add: accepted_key_def DeviceKeypair_public_key_def toy_primitives_def)
  then show ?thesis using identity_roundtrip [OF toy_base64 _ f] f by simp
qed

end
