(* ===== verification/Authenticator.thy ===== *)
theory Authenticator
  imports Primitives_Instance Protocol_Version Hash_Map
begin

text \<open>
  The server's login check (\<open>rustgos/src/auth.rs\<close>, \<open>Authenticator\<close>): the table of authorized
  clients, the challenge of a login with its session identifier, and the verification of the
  client's answer. The random bytes are inputs (\<open>None\<close> when the operating system refuses them), the
  store of enrolled clients is the function \<open>client_by_public_key\<close> reads from it. The theorems: a
  login succeeds exactly for an enabled client that presents the key of its entry and a valid
  signature over this login's transcript; an honest client is always let in; and no two logins of a
  server share a session identifier or a transcript, whatever the random generator returns.
\<close>

definition CHALLENGE_BYTES :: nat where "CHALLENGE_BYTES = 32"
definition SESSION_ID_BYTES :: nat where "SESSION_ID_BYTES = 32"
definition SESSION_RANDOM_BYTES :: nat where "SESSION_RANDOM_BYTES = SESSION_ID_BYTES - 8"

datatype AuthError = InvalidConfiguration | AuthEntropyUnavailable | Rejected | Internal

record AuthenticatedClient =
  ac_name :: string
  ac_fingerprint :: string
  ac_session_id :: bytes

record AuthorizedClient =
  azc_name :: string
  azc_public_key :: string
  azc_enabled :: bool

record AuthorizationEntry =
  ae_public_key :: DevicePublicKey
  ae_fingerprint :: string
  ae_enabled :: bool

record Authenticator =
  au_entries_by_name :: "(string, AuthorizationEntry) hashmap"
  au_names_by_fingerprint :: "(string, string) hashmap"
  au_next_session_sequence :: u64

record PendingAuthentication =
  pn_client_name :: string
  pn_claimed_fingerprint :: bytes
  pn_challenge :: bytes
  pn_session_id :: bytes
  pn_version :: ProtocolVersion

record DynamicClient =
  dc_internal_id :: string
  dc_display_id :: string
  dc_display_name :: string
  dc_local_ip :: "string option"
  dc_enabled :: bool
  dc_revision :: u64
  dc_public_key :: "string option"
  dc_tombstoned :: bool

type_synonym dynamic_store = "(DevicePublicKey \<Rightarrow> (unit, DynamicClient option) result) option"

definition challenge_message :: "PendingAuthentication \<Rightarrow> (AuthError, ServerChallenge) result" where
  "challenge_message self =
     (case BoundedBytes_try_from MAX_CHALLENGE_BYTES (pn_challenge self) of
        Inl _ \<Rightarrow> Inl Internal
      | Inr challenge \<Rightarrow>
          (case BoundedBytes_try_from MAX_SESSION_ID_BYTES (pn_session_id self) of
             Inl _ \<Rightarrow> Inl Internal
           | Inr session_id \<Rightarrow> Inr \<lparr>sc_challenge = challenge, sc_session_id = session_id\<rparr>))"

fun authorize_clients ::
  "'a primitives_scheme \<Rightarrow> AuthorizedClient list
     \<Rightarrow> (string, AuthorizationEntry) hashmap \<times> (string, string) hashmap
     \<Rightarrow> (AuthError, (string, AuthorizationEntry) hashmap \<times> (string, string) hashmap) result" where
  "authorize_clients c [] maps = Inr maps"
| "authorize_clients c (client # clients) (entries, names) =
     (case DevicePublicKey_from_str c (azc_public_key client) of
        Inl _ \<Rightarrow> Inl InvalidConfiguration
      | Inr public_key \<Rightarrow>
          let print = Fingerprint_to_string (fingerprint c public_key);
              replaced = map_of entries (azc_name client) \<noteq> None;
              entries = hm_insert (azc_name client)
                \<lparr>ae_public_key = public_key, ae_fingerprint = print, ae_enabled = azc_enabled client\<rparr> entries
          in if replaced then Inl InvalidConfiguration
             else if map_of names print \<noteq> None then Inl InvalidConfiguration
             else authorize_clients c clients (entries, hm_insert print (azc_name client) names))"

definition Authenticator_new :: "'a primitives_scheme \<Rightarrow> AuthorizedClient list \<Rightarrow> (AuthError, Authenticator) result" where
  "Authenticator_new c clients =
     and_then (authorize_clients c clients ([], [])) (\<lambda>(entries, names).
       Inr \<lparr>au_entries_by_name = entries, au_names_by_fingerprint = names, au_next_session_sequence = 0\<rparr>)"

definition issue_session_id ::
  "bytes option \<Rightarrow> Authenticator \<Rightarrow> (AuthError, bytes) result \<times> Authenticator" where
  "issue_session_id draw self =
     (let sequence = au_next_session_sequence self in
      case checked_add sequence 1 of
        None \<Rightarrow> (Inl Internal, self)
      | Some next \<Rightarrow>
          let self = self\<lparr>au_next_session_sequence := next\<rparr> in
          case draw of
            None \<Rightarrow> (Inl AuthEntropyUnavailable, self)
          | Some random \<Rightarrow> (Inr (take SESSION_RANDOM_BYTES random @ put_u64 sequence), self))"

definition begin_login ::
  "bytes option \<Rightarrow> bytes option \<Rightarrow> ClientHello \<Rightarrow> ProtocolVersion \<Rightarrow> Authenticator
     \<Rightarrow> (AuthError, PendingAuthentication) result \<times> Authenticator" where
  "begin_login challenge_draw session_draw hello version self =
     (case challenge_draw of
        None \<Rightarrow> (Inl AuthEntropyUnavailable, self)
      | Some challenge \<Rightarrow>
          (case issue_session_id session_draw self of
             (Inl e, self) \<Rightarrow> (Inl e, self)
           | (Inr session_id, self) \<Rightarrow>
               (Inr \<lparr>pn_client_name = ch_client_name hello, pn_claimed_fingerprint = ch_fingerprint hello,
                  pn_challenge = take CHALLENGE_BYTES challenge, pn_session_id = session_id,
                  pn_version = version\<rparr>, self)))"

unbundle bit_operations_syntax

definition transcript_version :: "ProtocolVersion \<Rightarrow> (AuthError, u16) result" where
  "transcript_version version =
     (if pv_major version > 255 \<or> pv_minor version > 255 then Inl Rejected
      else Inr (push_bit 8 (pv_major version) OR pv_minor version))"

definition entry_matches ::
  "Authenticator \<Rightarrow> string \<Rightarrow> DevicePublicKey \<Rightarrow> string \<Rightarrow> AuthorizationEntry \<Rightarrow> bool" where
  "entry_matches self client_name public_key print entry \<longleftrightarrow>
     ae_enabled entry \<and> ae_public_key entry = public_key \<and> ae_fingerprint entry = print \<and>
     map_of (au_names_by_fingerprint self) print = Some client_name"

definition enrolled_name :: "dynamic_store \<Rightarrow> DevicePublicKey \<Rightarrow> string option" where
  "enrolled_name dynamic_store public_key =
     (case dynamic_store of
        None \<Rightarrow> None
      | Some client_by_public_key \<Rightarrow>
          (case client_by_public_key public_key of
             Inr (Some client) \<Rightarrow>
               if dc_enabled client \<and> \<not> dc_tombstoned client then Some (dc_display_id client) else None
           | _ \<Rightarrow> None))"

definition authenticated_name ::
  "Authenticator \<Rightarrow> dynamic_store \<Rightarrow> string \<Rightarrow> DevicePublicKey \<Rightarrow> string \<Rightarrow> string option" where
  "authenticated_name self dynamic_store client_name public_key print =
     (case map_of (au_entries_by_name self) client_name of
        Some entry \<Rightarrow>
          if entry_matches self client_name public_key print entry then Some client_name
          else enrolled_name dynamic_store public_key
      | None \<Rightarrow> enrolled_name dynamic_store public_key)"

definition finish_login ::
  "'a primitives_scheme \<Rightarrow> dynamic_store \<Rightarrow> Authenticator \<Rightarrow> PendingAuthentication \<Rightarrow> ClientAuthenticate
     \<Rightarrow> (AuthError, AuthenticatedClient) result" where
  "finish_login c dynamic_store self pending authentication =
     (let encoded_public_key = string_of_bytes (ca_public_key authentication) in
      if \<not> utf8_valid encoded_public_key then Inl Rejected
      else
        (case DevicePublicKey_from_str c encoded_public_key of
           Inl _ \<Rightarrow> Inl Rejected
         | Inr public_key \<Rightarrow>
             let print = Fingerprint_to_string (fingerprint c public_key) in
             and_then (ok_or (strip_prefix ''sha256:'' print) Internal) (\<lambda>wire_fingerprint.
             if pn_claimed_fingerprint pending \<noteq> as_bytes wire_fingerprint then Inl Rejected
             else
               and_then (ok_or (authenticated_name self dynamic_store (pn_client_name pending) public_key print) Rejected) (\<lambda>name.
               and_then (transcript_version (pn_version pending)) (\<lambda>version.
                 case verify_auth c public_key
                   (AuthTranscript_new (pn_challenge pending) (pn_session_id pending) version (pn_client_name pending))
                   (ca_signature authentication) of
                   Inl _ \<Rightarrow> Inl Rejected
                 | Inr _ \<Rightarrow> Inr \<lparr>ac_name = name, ac_fingerprint = print, ac_session_id = pn_session_id pending\<rparr>)))))"

subsection \<open>The table of authorized clients\<close>

definition key_print :: "'a primitives_scheme \<Rightarrow> DevicePublicKey \<Rightarrow> string" where
  "key_print c k = Fingerprint_to_string (fingerprint c k)"

definition table_ok :: "'a primitives_scheme \<Rightarrow> (string, AuthorizationEntry) hashmap \<Rightarrow> (string, string) hashmap \<Rightarrow> bool" where
  "table_ok c entries names \<longleftrightarrow>
     (\<forall>n e. map_of entries n = Some e \<longrightarrow> ae_fingerprint e = key_print c (ae_public_key e)) \<and>
     (\<forall>f n. map_of names f = Some n \<longleftrightarrow> (\<exists>e. map_of entries n = Some e \<and> ae_fingerprint e = f))"

lemma table_ok_insert:
  assumes "table_ok c entries names" and "map_of entries n = None" and "map_of names (key_print c k) = None"
  shows "table_ok c (hm_insert n \<lparr>ae_public_key = k, ae_fingerprint = key_print c k, ae_enabled = en\<rparr> entries)
    (hm_insert (key_print c k) n names)"
  using assms unfolding table_ok_def
  by (auto simp: map_of_hm_insert) (metis option.distinct(1))+

definition configured :: "'a primitives_scheme \<Rightarrow> AuthorizedClient list \<Rightarrow> string \<Rightarrow> AuthorizationEntry \<Rightarrow> bool" where
  "configured c clients n e \<longleftrightarrow>
     (\<exists>cl \<in> set clients. azc_name cl = n \<and> ae_enabled e = azc_enabled cl \<and>
        DevicePublicKey_from_str c (azc_public_key cl) = Inr (ae_public_key e) \<and>
        ae_fingerprint e = key_print c (ae_public_key e))"

lemma authorize_clients_ok:
  assumes "authorize_clients c clients (entries, names) = Inr (entries', names')" and "table_ok c entries names"
  shows "table_ok c entries' names' \<and>
    (\<forall>n e. map_of entries' n = Some e \<longleftrightarrow> map_of entries n = Some e \<or> configured c clients n e)"
  using assms
proof (induction clients arbitrary: entries names)
  case Nil
  then show ?case by (simp add: configured_def)
next
  case (Cons cl clients)
  from Cons.prems(1) obtain k where k: "DevicePublicKey_from_str c (azc_public_key cl) = Inr k"
    by (cases "DevicePublicKey_from_str c (azc_public_key cl)") simp_all
  let ?e = "\<lparr>ae_public_key = k, ae_fingerprint = key_print c k, ae_enabled = azc_enabled cl\<rparr>"
  have new: "map_of entries (azc_name cl) = None" "map_of names (key_print c k) = None"
    and rest: "authorize_clients c clients (hm_insert (azc_name cl) ?e entries, hm_insert (key_print c k) (azc_name cl) names) =
      Inr (entries', names')"
    using Cons.prems(1) k by (auto simp: Let_def key_print_def split: if_splits)
  have "configured c (cl # clients) n e \<longleftrightarrow> n = azc_name cl \<and> e = ?e \<or> configured c clients n e" for n e
    using k by (cases e) (auto simp: configured_def)
  with Cons.IH [OF rest table_ok_insert [OF Cons.prems(2) new]] new show ?case
    by (auto split: if_splits)
qed

lemma Authenticator_new_ok:
  assumes "Authenticator_new c clients = Inr self"
  shows "table_ok c (au_entries_by_name self) (au_names_by_fingerprint self)"
    and "map_of (au_entries_by_name self) n = Some e \<longleftrightarrow> configured c clients n e"
    and "au_next_session_sequence self = 0"
proof -
  obtain es ns where r: "authorize_clients c clients ([], []) = Inr (es, ns)"
    and self: "self = \<lparr>au_entries_by_name = es, au_names_by_fingerprint = ns, au_next_session_sequence = 0\<rparr>"
    using assms by (auto simp: Authenticator_new_def result_simps)
  have "table_ok c [] []" by (simp add: table_ok_def)
  note a = authorize_clients_ok [OF r this]
  show "table_ok c (au_entries_by_name self) (au_names_by_fingerprint self)" "au_next_session_sequence self = 0"
    "map_of (au_entries_by_name self) n = Some e \<longleftrightarrow> configured c clients n e"
    using a self by simp_all
qed

lemma authenticated_name_cong:
  assumes "au_entries_by_name a = au_entries_by_name b" and "au_names_by_fingerprint a = au_names_by_fingerprint b"
  shows "authenticated_name a = authenticated_name b"
proof -
  have "entry_matches a = entry_matches b" using assms(2) by (simp add: entry_matches_def [abs_def])
  with assms(1) show ?thesis by (intro ext) (simp add: authenticated_name_def split: option.split)
qed

lemma authenticated_name_iff:
  assumes "Authenticator_new c clients = Inr self"
  shows "authenticated_name self store n k (key_print c k) =
    (if \<exists>cl \<in> set clients. azc_name cl = n \<and> azc_enabled cl \<and> DevicePublicKey_from_str c (azc_public_key cl) = Inr k
     then Some n else enrolled_name store k)"
proof -
  note new = Authenticator_new_ok [OF assms]
  let ?m = "\<exists>cl \<in> set clients. azc_name cl = n \<and> azc_enabled cl \<and> DevicePublicKey_from_str c (azc_public_key cl) = Inr k"
  have "?m \<longleftrightarrow> (\<exists>e. map_of (au_entries_by_name self) n = Some e \<and> entry_matches self n k (key_print c k) e)"
  proof
    assume ?m
    then have "configured c clients n \<lparr>ae_public_key = k, ae_fingerprint = key_print c k, ae_enabled = True\<rparr>"
      by (auto simp: configured_def)
    then show "\<exists>e. map_of (au_entries_by_name self) n = Some e \<and> entry_matches self n k (key_print c k) e"
      using new(1) by (auto simp: new(2) [symmetric] entry_matches_def table_ok_def)
  qed (auto simp: new(2) configured_def entry_matches_def)
  then show ?thesis by (auto simp: authenticated_name_def split: option.split)
qed

subsection \<open>Verification\<close>

lemma strip_sha256 [simp]: "strip_prefix ''sha256:'' (Fingerprint_to_string f) = Some (concat (map hex_byte (fp_bytes f)))"
  by (simp add: Fingerprint_to_string_def del: append.simps)

lemma verify_auth_Inr_iff:
  "verify_auth c k t sig = Inr u \<longleftrightarrow> length sig = 64 \<and> ed25519_verify_strict c (pk_as_bytes k) t sig"
  by (cases u) (simp add: verify_auth_def verify_bytes_def)

lemma finish_login_Inr_iff:
  "finish_login c store self p a = Inr cl \<longleftrightarrow>
     (\<exists>k name v. utf8_valid (string_of_bytes (ca_public_key a)) \<and>
        DevicePublicKey_from_str c (string_of_bytes (ca_public_key a)) = Inr k \<and>
        pn_claimed_fingerprint p = as_bytes (concat (map hex_byte (fp_bytes (fingerprint c k)))) \<and>
        authenticated_name self store (pn_client_name p) k (key_print c k) = Some name \<and>
        transcript_version (pn_version p) = Inr v \<and>
        length (ca_signature a) = 64 \<and>
        ed25519_verify_strict c (pk_as_bytes k)
          (AuthTranscript_new (pn_challenge p) (pn_session_id p) v (pn_client_name p)) (ca_signature a) \<and>
        cl = \<lparr>ac_name = name, ac_fingerprint = key_print c k, ac_session_id = pn_session_id p\<rparr>)"
  by (auto simp: finish_login_def Let_def key_print_def result_simps verify_auth_Inr_iff [of _ _ _ _ "()"] is_ok_iff
      split: sum.split sum.splits if_splits) (auto simp: verify_auth_def verify_bytes_def split: if_splits)

subsection \<open>Logins of one server\<close>

record login =
  lg_challenge_draw :: "bytes option"
  lg_session_draw :: "bytes option"
  lg_hello :: ClientHello
  lg_version :: ProtocolVersion

fun begin_all :: "login list \<Rightarrow> Authenticator \<Rightarrow> PendingAuthentication list \<times> Authenticator" where
  "begin_all [] self = ([], self)"
| "begin_all (g # gs) self =
     (case begin_login (lg_challenge_draw g) (lg_session_draw g) (lg_hello g) (lg_version g) self of
        (Inl _, self) \<Rightarrow> begin_all gs self
      | (Inr p, self) \<Rightarrow> (let (ps, self) = begin_all gs self in (p # ps, self)))"

definition session_sequence :: "PendingAuthentication \<Rightarrow> nat" where
  "session_sequence p = unat (u64_from_be (drop (length (pn_session_id p) - 8) (pn_session_id p)))"

lemma begin_login_tables:
  "begin_login d d' h v self = (r, self') \<Longrightarrow> au_entries_by_name self' = au_entries_by_name self \<and>
     au_names_by_fingerprint self' = au_names_by_fingerprint self \<and>
     unat (au_next_session_sequence self) \<le> unat (au_next_session_sequence self')"
  by (auto simp: begin_login_def issue_session_id_def Let_def dest!: checked_add_Some
      split: option.splits sum.splits prod.splits)

lemma begin_login_Inr:
  assumes "begin_login d d' h v self = (Inr p, self')"
  shows "pn_client_name p = ch_client_name h" and "pn_version p = v" and "pn_claimed_fingerprint p = ch_fingerprint h"
    and "length (pn_challenge p) \<le> 32" and "length (pn_session_id p) \<le> 32"
    and "session_sequence p = unat (au_next_session_sequence self)"
    and "unat (au_next_session_sequence self') = Suc (session_sequence p)"
  using assms
  by (auto simp: begin_login_def issue_session_id_def Let_def CHALLENGE_BYTES_def SESSION_RANDOM_BYTES_def
      SESSION_ID_BYTES_def session_sequence_def dest!: checked_add_Some split: option.splits sum.splits prod.splits)

lemma begin_all_tables:
  "begin_all gs self = (ps, self') \<Longrightarrow> au_entries_by_name self' = au_entries_by_name self \<and>
     au_names_by_fingerprint self' = au_names_by_fingerprint self"
proof (induction gs arbitrary: self ps)
  case (Cons g gs)
  obtain r s1 where b: "begin_login (lg_challenge_draw g) (lg_session_draw g) (lg_hello g) (lg_version g) self = (r, s1)"
    by force
  obtain qs where "begin_all gs s1 = (qs, self')"
    using Cons.prems b by (auto split: sum.splits prod.splits)
  from Cons.IH [OF this] begin_login_tables [OF b] show ?case by simp
qed simp

lemma begin_all_sequences:
  "begin_all gs self = (ps, self') \<Longrightarrow>
     sorted_wrt (\<lambda>p q. session_sequence p < session_sequence q) ps \<and>
     list_all (\<lambda>p. unat (au_next_session_sequence self) \<le> session_sequence p \<and>
       length (pn_challenge p) \<le> 32 \<and> length (pn_session_id p) \<le> 32 \<and>
       pn_client_name p \<in> ch_client_name ` lg_hello ` set gs) ps"
proof (induction gs arbitrary: self ps self')
  case Nil
  then show ?case by simp
next
  case (Cons g gs)
  obtain r s1 where b: "begin_login (lg_challenge_draw g) (lg_session_draw g) (lg_hello g) (lg_version g) self = (r, s1)"
    by force
  note le = begin_login_tables [OF b]
  obtain qs s2 where rest: "begin_all gs s1 = (qs, s2)" by force
  note ih = Cons.IH [OF rest]
  show ?case
  proof (cases r)
    case (Inl e)
    then show ?thesis using Cons.prems b rest ih le by (auto simp: list_all_iff)
  next
    case (Inr p)
    note e = begin_login_Inr [OF b [unfolded Inr]]
    have "ps = p # qs" using Cons.prems b rest Inr by simp
    then show ?thesis using ih le e by (fastforce simp: list_all_iff)
  qed
qed

definition sample_keypair :: DeviceKeypair where "sample_keypair = DeviceKeypair (replicate 32 7)"

definition sample_public :: DevicePublicKey where
  "sample_public = DeviceKeypair_public_key toy_primitives sample_keypair"

definition sample_clients :: "AuthorizedClient list" where
  "sample_clients = [\<lparr>azc_name = ''alpha'',
     azc_public_key = DevicePublicKey_to_string toy_primitives sample_public, azc_enabled = True\<rparr>]"

definition sample_authenticator :: Authenticator where
  "sample_authenticator = projr (Authenticator_new toy_primitives sample_clients)"

definition sample_hello :: ClientHello where
  "sample_hello = \<lparr>ch_client_name = ''alpha'', ch_fingerprint = as_bytes (drop 7 (key_print toy_primitives sample_public)),
     ch_heartbeat_interval_secs = 15\<rparr>"

definition sample_login :: login where
  "sample_login = \<lparr>lg_challenge_draw = Some (replicate 32 1), lg_session_draw = Some (replicate 24 2),
     lg_hello = sample_hello, lg_version = V0_6\<rparr>"

lemma sample_accepted: "accepted_key toy_primitives sample_public"
  by (simp add: accepted_key_def sample_public_def sample_keypair_def DeviceKeypair_public_key_def toy_primitives_def)

lemma sample_parse:
  "DevicePublicKey_from_str toy_primitives (DevicePublicKey_to_string toy_primitives sample_public) = Inr sample_public"
  by (rule from_str_to_string [OF toy_base64 sample_accepted])

lemma sample_fingerprint:
  "Fingerprint_to_string (fingerprint toy_primitives sample_public) = ''sha256:'' @ string_of_bytes (ch_fingerprint sample_hello)"
  by (simp add: sample_hello_def key_print_def Fingerprint_to_string_def)

lemma sample_new: "Authenticator_new toy_primitives sample_clients = Inr sample_authenticator"
proof -
  have "is_ok (Authenticator_new toy_primitives sample_clients)"
    by (simp add: Authenticator_new_def sample_clients_def sample_parse Let_def)
  then show ?thesis by (auto simp: is_ok_iff sample_authenticator_def)
qed

definition sample_pending :: "u64 \<Rightarrow> PendingAuthentication" where
  "sample_pending n = \<lparr>pn_client_name = ''alpha'', pn_claimed_fingerprint = ch_fingerprint sample_hello,
     pn_challenge = replicate 32 1, pn_session_id = replicate 24 2 @ put_u64 n, pn_version = V0_6\<rparr>"

lemma sample_begin:
  assumes "unat n < 2 ^ 64 - 1"
  shows "begin_login (Some (replicate 32 1)) (Some (replicate 24 2)) sample_hello V0_6
     (sample_authenticator\<lparr>au_next_session_sequence := n\<rparr>) =
     (Inr (sample_pending n), sample_authenticator\<lparr>au_next_session_sequence := n + 1\<rparr>)"
  using assms
  by (simp add: begin_login_def issue_session_id_def checked_add_def sample_pending_def sample_hello_def
      CHALLENGE_BYTES_def SESSION_RANDOM_BYTES_def SESSION_ID_BYTES_def)

lemma sample_sequence: "sample_authenticator = sample_authenticator\<lparr>au_next_session_sequence := 0\<rparr>"
  using Authenticator_new_ok(3) [OF sample_new] by (cases sample_authenticator) simp

lemma sample_begin_all:
  "begin_all [sample_login] sample_authenticator =
     ([sample_pending 0], sample_authenticator\<lparr>au_next_session_sequence := 1\<rparr>)"
  "begin_all [sample_login, sample_login] sample_authenticator =
     ([sample_pending 0, sample_pending 1], sample_authenticator\<lparr>au_next_session_sequence := 2\<rparr>)"
  using sample_begin [of 0] sample_begin [of 1]
  by (simp_all add: sample_login_def sample_sequence [symmetric] one_add_one)

text \<open>
  C13 (fresh logins): no two logins a server starts have the same session identifier, and what a
  client signs in one of them is never what it signs in another, even when the random generator
  repeats itself. A recorded signature therefore opens no other session.
\<close>

theorem login_transcripts_fresh:
  assumes "Authenticator_new c clients = Inr self" and "begin_all logins self = (pending, self')"
    and "list_all (\<lambda>g. wf_ClientHello (lg_hello g)) logins"
    and "i < j" and "j < length pending"
  shows "pn_session_id (pending ! i) \<noteq> pn_session_id (pending ! j) \<and>
    AuthTranscript_new (pn_challenge (pending ! i)) (pn_session_id (pending ! i)) v (pn_client_name (pending ! i)) \<noteq>
    AuthTranscript_new (pn_challenge (pending ! j)) (pn_session_id (pending ! j)) w (pn_client_name (pending ! j))"
proof -
  let ?p = "pending ! i" and ?q = "pending ! j"
  note a = begin_all_sequences [OF assms(2)]
  have name: "n \<in> ch_client_name ` lg_hello ` set logins \<Longrightarrow> length n < 2 ^ 32" for n
    using assms(3) by (auto simp: list_all_iff wf_ClientHello_def wf_BoundedString_def MAX_CLIENT_NAME_BYTES_def
        dest!: bspec)
  have len: "length (pn_challenge p) < 2 ^ 32 \<and> length (pn_session_id p) < 2 ^ 32 \<and> length (pn_client_name p) < 2 ^ 32"
    if "p \<in> set pending" for p
    using a that name [of "pn_client_name p"] by (auto simp: list_all_iff dest!: bspec [OF _ that])
  have "session_sequence ?p < session_sequence ?q"
    using a assms(4,5) by (simp add: sorted_wrt_iff_nth_less)
  then have "pn_session_id ?p \<noteq> pn_session_id ?q" by (auto simp: session_sequence_def)
  moreover have "?p \<in> set pending" "?q \<in> set pending" using assms(4,5) by simp_all
  ultimately show ?thesis using transcript_inj len by blast
qed

theorem login_transcripts_fresh_witness:
  "begin_all [sample_login, sample_login] sample_authenticator =
     ([sample_pending 0, sample_pending 1], sample_authenticator\<lparr>au_next_session_sequence := 2\<rparr>) \<and>
   AuthTranscript_new (replicate 32 1) (pn_session_id (sample_pending 0)) 261 ''alpha'' \<noteq>
   AuthTranscript_new (replicate 32 1) (pn_session_id (sample_pending 1)) 261 ''alpha''"
proof -
  have wf: "list_all (\<lambda>g. wf_ClientHello (lg_hello g)) [sample_login, sample_login]"
    by (simp add: sample_login_def sample_hello_def wf_ClientHello_def wf_BoundedString_def wf_BoundedBytes_def
        utf8_valid_ascii key_print_def Fingerprint_to_string_def fingerprint_def Fingerprint_from_def sample_public_def
        DeviceKeypair_public_key_def sample_keypair_def toy_primitives_def length_concat o_def hex_byte_len
        sum_list_replicate MAX_CLIENT_NAME_BYTES_def MAX_FINGERPRINT_BYTES_def)
  show ?thesis
    using login_transcripts_fresh [OF sample_new sample_begin_all(2) wf, of 0 1 261 261] sample_begin_all(2)
    by (simp add: sample_pending_def)
qed

text \<open>
  C6 (who is let in): a login succeeds exactly when the presented text parses as a public key whose
  fingerprint is the announced one, the signature over this login's transcript verifies under that
  key, and the key belongs to a configured and enabled client of the announced name or else to an
  enabled, undeleted enrolled client, whose name the session then bears.
\<close>

theorem login_accepts_iff:
  assumes "Authenticator_new c clients = Inr self0" and "begin_all logins self0 = (pending, self)"
  shows "finish_login c store self p a = Inr cl \<longleftrightarrow>
    (\<exists>k v. utf8_valid (string_of_bytes (ca_public_key a)) \<and>
       DevicePublicKey_from_str c (string_of_bytes (ca_public_key a)) = Inr k \<and>
       Fingerprint_to_string (fingerprint c k) = ''sha256:'' @ string_of_bytes (pn_claimed_fingerprint p) \<and>
       transcript_version (pn_version p) = Inr v \<and>
       verify_auth c k (AuthTranscript_new (pn_challenge p) (pn_session_id p) v (pn_client_name p)) (ca_signature a) = Inr () \<and>
       ac_fingerprint cl = Fingerprint_to_string (fingerprint c k) \<and> ac_session_id cl = pn_session_id p \<and>
       (if \<exists>client \<in> set clients. azc_name client = pn_client_name p \<and> azc_enabled client \<and>
           DevicePublicKey_from_str c (azc_public_key client) = Inr k
        then ac_name cl = pn_client_name p
        else enrolled_name store k = Some (ac_name cl)))"
proof -
  have "authenticated_name self = authenticated_name self0"
    using begin_all_tables [OF assms(2)] by (intro authenticated_name_cong) simp_all
  then have name: "authenticated_name self store n k (key_print c k) =
    (if \<exists>cl \<in> set clients. azc_name cl = n \<and> azc_enabled cl \<and> DevicePublicKey_from_str c (azc_public_key cl) = Inr k
     then Some n else enrolled_name store k)" for n k
    using authenticated_name_iff [OF assms(1)] by simp
  have wire: "pn_claimed_fingerprint p = as_bytes (concat (map hex_byte (fp_bytes f))) \<longleftrightarrow>
      Fingerprint_to_string f = ''sha256:'' @ string_of_bytes (pn_claimed_fingerprint p)" for f
    by (auto simp: Fingerprint_to_string_def simp del: append.simps)
  show ?thesis
    unfolding finish_login_Inr_iff name wire verify_auth_Inr_iff unfolding key_print_def
    by (cases cl) (auto split: if_splits)
qed

theorem login_accepts_iff_witness:
  "\<exists>cl. finish_login toy_primitives None (snd (begin_all [sample_login] sample_authenticator))
      (hd (fst (begin_all [sample_login] sample_authenticator)))
      \<lparr>ca_public_key = as_bytes (azc_public_key (hd sample_clients)),
       ca_signature = sign_auth toy_primitives sample_keypair
         (AuthTranscript_new (replicate 32 1) (replicate 24 2 @ put_u64 0) 261 ''alpha'')\<rparr> = Inr cl \<and>
    ac_name cl = ''alpha''"
proof -
  let ?b = "begin_all [sample_login] sample_authenticator"
  let ?a = "\<lparr>ca_public_key = as_bytes (azc_public_key (hd sample_clients)),
       ca_signature = sign_auth toy_primitives sample_keypair
         (AuthTranscript_new (replicate 32 1) (replicate 24 2 @ put_u64 0) 261 ''alpha'')\<rparr>"
  let ?cl = "\<lparr>ac_name = ''alpha'', ac_fingerprint = key_print toy_primitives sample_public,
    ac_session_id = replicate 24 2 @ put_u64 0\<rparr>"
  have p: "hd (fst ?b) = sample_pending 0" by (simp only: sample_begin_all fst_conv list.sel)
  have "utf8_valid (string_of_bytes (ca_public_key ?a)) \<and>
      DevicePublicKey_from_str toy_primitives (string_of_bytes (ca_public_key ?a)) = Inr sample_public"
    by (simp add: sample_clients_def sample_parse to_string_utf8 [OF toy_base64])
  moreover note sample_fingerprint
  moreover have "transcript_version V0_6 = Inr 261" by code_simp
  moreover have "verify_auth toy_primitives sample_public
      (AuthTranscript_new (replicate 32 1) (replicate 24 2 @ put_u64 0) 261 ''alpha'') (ca_signature ?a) = Inr ()"
    using toy_signatures
    by (simp add: verify_auth_Inr_iff sign_auth_def signatures_complete_def sample_public_def DeviceKeypair_public_key_def)
  moreover have "\<exists>client \<in> set sample_clients. azc_name client = ''alpha'' \<and> azc_enabled client \<and>
      DevicePublicKey_from_str toy_primitives (azc_public_key client) = Inr sample_public"
    by (simp add: sample_clients_def sample_parse)
  ultimately have "finish_login toy_primitives None (snd ?b) (hd (fst ?b)) ?a = Inr ?cl"
    unfolding login_accepts_iff [OF sample_new prod.collapse [symmetric]] p
    by (intro exI [of _ sample_public] exI [of _ 261]) (simp add: key_print_def sample_pending_def)
  then show ?thesis by (intro exI [of _ ?cl]) simp
qed

text \<open>
  An honest client is let in: when a configured and enabled client announces its name and
  fingerprint and signs the challenge it is sent, with the version negotiated, the server accepts
  the login under that name.
\<close>

theorem honest_login_completes:
  assumes "base64_faithful c" and "signatures_complete c" and "accepted_key c (DeviceKeypair_public_key c keypair)"
    and "Authenticator_new c clients = Inr self0" and "begin_all logins self0 = (pending, self)"
    and "client \<in> set clients" and "azc_enabled client"
    and "azc_public_key client = DevicePublicKey_to_string c (DeviceKeypair_public_key c keypair)"
    and "''sha256:'' @ string_of_bytes (ch_fingerprint hello) = Fingerprint_to_string (fingerprint c (DeviceKeypair_public_key c keypair))"
    and "ch_client_name hello = azc_name client"
    and "begin_login (Some challenge) (Some random) hello version self = (Inr p, self')"
    and "transcript_version version = Inr v"
  shows "\<exists>msg. challenge_message p = Inr msg \<and>
    finish_login c store self' p
      \<lparr>ca_public_key = as_bytes (DevicePublicKey_to_string c (DeviceKeypair_public_key c keypair)),
       ca_signature = sign_auth c keypair (AuthTranscript_new (sc_challenge msg) (sc_session_id msg) v (azc_name client))\<rparr> =
    Inr \<lparr>ac_name = azc_name client,
         ac_fingerprint = Fingerprint_to_string (fingerprint c (DeviceKeypair_public_key c keypair)),
         ac_session_id = sc_session_id msg\<rparr>"
proof -
  let ?k = "DeviceKeypair_public_key c keypair"
  note p = begin_login_Inr [OF assms(11)]
  let ?msg = "\<lparr>sc_challenge = pn_challenge p, sc_session_id = pn_session_id p\<rparr>"
  have msg: "challenge_message p = Inr ?msg"
    using p(4,5) by (simp add: challenge_message_def BoundedBytes_try_from_def MAX_CHALLENGE_BYTES_def MAX_SESSION_ID_BYTES_def)
  have utf: "utf8_valid (DevicePublicKey_to_string c ?k)" by (rule to_string_utf8 [OF assms(1)])
  have parse: "DevicePublicKey_from_str c (DevicePublicKey_to_string c ?k) = Inr ?k"
    by (rule from_str_to_string [OF assms(1,3)])
  have "authenticated_name self' = authenticated_name self0"
    using begin_all_tables [OF assms(5)] begin_login_tables [OF assms(11)]
    by (intro authenticated_name_cong) simp_all
  then have "authenticated_name self' store (pn_client_name p) ?k (key_print c ?k) = Some (azc_name client)"
    using authenticated_name_iff [OF assms(4)] parse assms(6-8,10) p(1) by auto
  moreover have "pn_claimed_fingerprint p = as_bytes (concat (map hex_byte (fp_bytes (fingerprint c ?k))))"
    using assms(9) p(3) by (auto simp: Fingerprint_to_string_def simp del: append.simps)
      (metis as_bytes_inverse(2))
  ultimately have "finish_login c store self' p
      \<lparr>ca_public_key = as_bytes (DevicePublicKey_to_string c ?k),
       ca_signature = sign_auth c keypair (AuthTranscript_new (pn_challenge p) (pn_session_id p) v (azc_name client))\<rparr> =
    Inr \<lparr>ac_name = azc_name client, ac_fingerprint = key_print c ?k, ac_session_id = pn_session_id p\<rparr>"
    using utf parse assms(2,12) p(1,2) assms(10)
    by (simp add: finish_login_Inr_iff sign_auth_def signatures_complete_def DeviceKeypair_public_key_def)
  with msg show ?thesis by (auto simp: key_print_def)
qed

theorem honest_login_completes_witness:
  "\<exists>p self' msg. begin_login (Some (replicate 32 1)) (Some (replicate 24 2)) sample_hello V0_6 sample_authenticator = (Inr p, self') \<and>
     challenge_message p = Inr msg \<and>
     is_ok (finish_login toy_primitives None self' p
       \<lparr>ca_public_key = as_bytes (DevicePublicKey_to_string toy_primitives sample_public),
        ca_signature = sign_auth toy_primitives sample_keypair
          (AuthTranscript_new (sc_challenge msg) (sc_session_id msg) 261 ''alpha'')\<rparr>)"
proof -
  note r = sample_begin [of 0, folded sample_sequence, simplified]
  have 2: "hd sample_clients \<in> set sample_clients" "azc_enabled (hd sample_clients)"
    "azc_public_key (hd sample_clients) =
      DevicePublicKey_to_string toy_primitives (DeviceKeypair_public_key toy_primitives sample_keypair)"
    by (simp_all add: sample_clients_def sample_public_def)
  have 4: "ch_client_name sample_hello = azc_name (hd sample_clients)" "azc_name (hd sample_clients) = ''alpha''"
    by (simp_all add: sample_hello_def sample_clients_def)
  have 5: "transcript_version V0_6 = Inr 261" by code_simp
  have "begin_all [] sample_authenticator = ([], sample_authenticator)" by simp
  from honest_login_completes [OF toy_base64 toy_signatures sample_accepted [unfolded sample_public_def] sample_new this 2
      sample_fingerprint [unfolded sample_public_def, symmetric] 4(1) r 5, of None] r
  show ?thesis by (auto simp: 4(2) sample_public_def)
qed

end
