(* ===== verification/Peer_Envelope.thy ===== *)
theory Peer_Envelope
  imports Primitives_Instance Rendezvous_Wire
begin

text \<open>
  Signing rendezvous envelopes (\<open>rustgo-crypto/src/peer.rs\<close>, \<open>encode_envelope\<close> to \<open>append_u64\<close>, with
  \<open>sign_peer_envelope\<close> and \<open>verify_peer_envelope\<close>). Each \<open>append_\<close> function is given by the bytes it
  appends. Every field encoding is shown to be a prefix code, so that the bytes that are signed
  determine the whole envelope but its signature: an envelope that verifies differs in no field from
  one that was signed, as far as the signature scheme binds the signed bytes.
\<close>

definition ENVELOPE_DOMAIN :: bytes where "ENVELOPE_DOMAIN = as_bytes ''rustgo-peer-envelope-v1''"

definition append_u16 :: "u16 \<Rightarrow> bytes" where "append_u16 value = put_u16 value"
definition append_u32 :: "u32 \<Rightarrow> bytes" where "append_u32 value = put_u32 value"
definition append_u64 :: "u64 \<Rightarrow> bytes" where "append_u64 value = put_u64 value"

definition append_bytes :: "bytes \<Rightarrow> bytes" where
  "append_bytes value = append_u32 (word_of_nat (length value)) @ value"

definition append_optional_string :: "string option \<Rightarrow> bytes" where
  "append_optional_string value =
     (case value of None \<Rightarrow> [0] | Some value \<Rightarrow> 1 # append_bytes (as_bytes value))"

definition append_optional_protocol :: "TunnelProtocol option \<Rightarrow> bytes" where
  "append_optional_protocol protocol =
     (case protocol of None \<Rightarrow> [0] | Some protocol \<Rightarrow> [1, TunnelProtocol_as_u8 protocol])"

definition u8_from_bool :: "bool \<Rightarrow> u8" where "u8_from_bool b = (if b then 1 else 0)"

fun transport_tag :: "CandidateTransport \<Rightarrow> u8" where
  "transport_tag QuicUdp = 1"
| "transport_tag NativeTcp = 2"
| "transport_tag Relay = 3"

definition append_connectivity_result :: "ConnectivityResult \<Rightarrow> bytes" where
  "append_connectivity_result r =
     u8_from_bool (cr_connected r) #
     (case cr_transport r of None \<Rightarrow> [0] | Some t \<Rightarrow> [1, transport_tag t]) @
     append_optional_string (cr_detail r)"

fun append_address :: "SocketAddress \<Rightarrow> bytes" where
  "append_address (V4 os p) = 1 # append_bytes os @ append_u16 p"
| "append_address (V6 os p) = 2 # append_bytes os @ append_u16 p"

definition append_candidate :: "Candidate \<Rightarrow> bytes" where
  "append_candidate x =
     transport_tag (cand_transport x) # append_address (cand_address x) @
     append_u32 (cand_priority x) @ append_bytes (as_bytes (cand_foundation x)) @
     append_u64 (gen_get (cand_generation x)) @ append_u64 (cand_expires_unix_secs x) @
     append_bytes (as_bytes (cand_observation_source x))"

definition append_binding :: "TransportKeyBinding \<Rightarrow> bytes" where
  "append_binding b = transport_tag (tkb_transport b) # append_bytes (tkb_ephemeral_public_key b)"

definition append_all :: "('a \<Rightarrow> bytes) \<Rightarrow> 'a list \<Rightarrow> bytes" where
  "append_all f xs = append_u32 (word_of_nat (length xs)) @ concat (map f xs)"

fun append_payload :: "RendezvousPayload \<Rightarrow> bytes" where
  "append_payload (PayloadRequest x) = 1 # append_bytes (as_bytes (rr_export x))"
| "append_payload (PayloadProviderDecision x) =
     2 # u8_from_bool (pd_accepted x) # append_optional_protocol (pd_protocol x) @
     append_optional_string (pd_detail x)"
| "append_payload (PayloadCandidateSet x) =
     3 # append_bytes (cs_ephemeral_public_key x) @ append_all append_candidate (cs_candidates x)"
| "append_payload (PayloadCandidateSetV2 x) =
     8 # u8_from_bool (cs2_owner_is_initiator x) # append_all append_binding (cs2_bindings x) @
     append_all append_candidate (cs2_candidates x)"
| "append_payload (PayloadConnectivityResult x) = 4 # append_connectivity_result x"
| "append_payload (PayloadRelayRequest x) = [5, u8_from_bool (rlr_datagram x)]"
| "append_payload (PayloadClose x) = 6 # append_optional_string (rc_detail x)"
| "append_payload (PayloadError x) = 7 # append_u16 (re_code x) @ append_bytes (as_bytes (re_detail x))"

definition encode_envelope :: "RendezvousEnvelope \<Rightarrow> bytes" where
  "encode_envelope envelope =
     ENVELOPE_DOMAIN @ append_u16 (pv_major (env_version envelope)) @
     append_u16 (pv_minor (env_version envelope)) @
     append_bytes (sid_as_bytes (env_session_id envelope)) @
     append_bytes (as_bytes (env_sender envelope)) @ append_bytes (as_bytes (env_target envelope)) @
     append_u64 (env_step envelope) @ append_u64 (gen_get (env_generation envelope)) @
     append_u64 (env_expires_unix_secs envelope) @ append_payload (env_payload envelope)"

datatype PeerCryptoError =
    SignatureVerificationFailed
  | LocalEphemeralKeyMismatch
  | InvalidPeerEphemeralKey
  | KeyDerivationFailed
  | HandshakeAuthenticationFailed
  | FrameAuthenticationFailed
  | FrameContextMismatch
  | InvalidFrameContext
  | DomainAlreadyIssued
  | InvalidFlagTransition
  | Replay
  | UnexpectedSequence
  | SequenceExhausted
  | FrameTooLarge

definition sign_peer_envelope ::
  "'a primitives_scheme \<Rightarrow> DeviceKeypair \<Rightarrow> RendezvousEnvelope \<Rightarrow> (PeerCryptoError, bytes) result" where
  "sign_peer_envelope c keypair envelope =
     (case BoundedBytes_try_from RENDEZVOUS_MAX_SIGNATURE_BYTES (sign_bytes c keypair (encode_envelope envelope)) of
        Inl _ \<Rightarrow> Inl SignatureVerificationFailed
      | Inr signature \<Rightarrow> Inr signature)"

definition verify_peer_envelope ::
  "'a primitives_scheme \<Rightarrow> DevicePublicKey \<Rightarrow> RendezvousEnvelope \<Rightarrow> (PeerCryptoError, unit) result" where
  "verify_peer_envelope c expected_public_key envelope =
     (case verify_bytes c expected_public_key (encode_envelope envelope) (env_signature envelope) of
        Inl _ \<Rightarrow> Inl SignatureVerificationFailed
      | Inr _ \<Rightarrow> Inr ())"

subsection \<open>Every field is a prefix code\<close>

lemmas append_int_defs = append_u16_def append_u32_def append_u64_def

interpretation peer_bytes_code: prefix_code append_bytes "\<lambda>v. length v < 2 ^ 32"
  by unfold_locales (simp only: append_bytes_def append_int_defs append_assoc, rule counted_prefix)

lemma u8_from_bool_iff [simp]: "u8_from_bool a = u8_from_bool b \<longleftrightarrow> a = b"
  by (simp add: u8_from_bool_def)

lemma transport_tag_iff [simp]: "transport_tag a = transport_tag b \<longleftrightarrow> a = b"
  by (cases a; cases b) simp_all

lemma bytes_field_iff:
  "length v < 2 ^ 32 \<Longrightarrow> length w < 2 ^ 32 \<Longrightarrow> append_bytes v @ r = append_bytes w @ s \<longleftrightarrow> v = w \<and> r = s"
  by (rule peer_bytes_code.append_iff)

lemmas peer_field_simps = bytes_field_iff append_int_defs int_code_simps

interpretation opt_string_code: prefix_code append_optional_string "\<lambda>v. \<forall>s. v = Some s \<longrightarrow> length s < 2 ^ 32"
  by unfold_locales (auto simp: append_optional_string_def bytes_field_iff split: option.splits)

interpretation opt_protocol_code: prefix_code append_optional_protocol "\<lambda>_. True"
  by unfold_locales (auto simp: append_optional_protocol_def TunnelProtocol.expand split: option.splits)

interpretation address_code: prefix_code append_address wf_SocketAddress
proof unfold_locales
  fix x y r s
  assume "wf_SocketAddress x" "wf_SocketAddress y" "append_address x @ r = append_address y @ s"
  then show "x = y \<and> r = s" by (cases x; cases y) (simp_all add: peer_field_simps)
qed

interpretation candidate_code: prefix_code append_candidate wf_Candidate
proof unfold_locales
  fix x y r s
  assume "wf_Candidate x" "wf_Candidate y" "append_candidate x @ r = append_candidate y @ s"
  then show "x = y \<and> r = s"
    by (cases x; cases y; cases "cand_generation x"; cases "cand_generation y")
      (auto simp: append_candidate_def wf_Candidate_def wf_BoundedString_def peer_field_simps
        address_code.append_iff rendezvous_limit_defs)
qed

interpretation binding_code: prefix_code append_binding wf_TransportKeyBinding
proof unfold_locales
  fix x y r s
  assume "wf_TransportKeyBinding x" "wf_TransportKeyBinding y" "append_binding x @ r = append_binding y @ s"
  then show "x = y \<and> r = s"
    by (cases x; cases y)
      (auto simp: append_binding_def wf_TransportKeyBinding_def wf_BoundedBytes_def peer_field_simps rendezvous_limit_defs)
qed

interpretation connectivity_code: prefix_code append_connectivity_result wf_ConnectivityResult
proof unfold_locales
  fix x y r s
  assume "wf_ConnectivityResult x" "wf_ConnectivityResult y"
    "append_connectivity_result x @ r = append_connectivity_result y @ s"
  then show "x = y \<and> r = s"
    by (cases x; cases y)
      (auto simp: append_connectivity_result_def wf_ConnectivityResult_def wf_opt_def wf_BoundedString_def
        opt_string_code.append_iff rendezvous_limit_defs split: option.splits)
qed

lemma append_all_iff:
  assumes "prefix_code f ok" and "list_all ok xs" and "list_all ok ys" and "length xs < 2 ^ 32" and "length ys < 2 ^ 32"
  shows "append_all f xs @ r = append_all f ys @ s \<longleftrightarrow> xs = ys \<and> r = s"
proof
  assume "append_all f xs @ r = append_all f ys @ s"
  then have "length xs = length ys \<and> concat (map f xs) @ r = concat (map f ys) @ s"
    using assms(4,5) by (simp only: append_all_def append_int_defs append_assoc int_code_simps count_eq)
  then show "xs = ys \<and> r = s"
    using prefix_code.concat_iff [OF assms(1-3)] by blast
qed simp

lemmas payload_list_iff = append_all_iff [OF candidate_code.prefix_code_axioms] append_all_iff [OF binding_code.prefix_code_axioms]

lemmas payload_wf_defs =
  wf_RendezvousRequest_def wf_ProviderDecision_def wf_CandidateSet_def wf_CandidateSetV2_def
  wf_RelayRequest_def wf_RendezvousClose_def wf_RendezvousError_def wf_opt_def wf_BoundedString_def wf_BoundedBytes_def
  wf_BoundedVec_def rendezvous_limit_defs

interpretation payload_code: prefix_code append_payload wf_RendezvousPayload
proof unfold_locales
  fix x y r s
  assume a: "wf_RendezvousPayload x" "wf_RendezvousPayload y" "append_payload x @ r = append_payload y @ s"
  then have b: "hd (append_payload x) = hd (append_payload y)"
    by (cases x; cases y) simp_all
  show "x = y \<and> r = s"
  proof (cases x)
    case (PayloadRequest u)
    moreover obtain v where "y = PayloadRequest v" using b PayloadRequest by (cases y) simp_all
    ultimately show ?thesis using a by (cases u; cases v) (simp add: payload_wf_defs peer_field_simps)
  next
    case (PayloadProviderDecision u)
    moreover obtain v where "y = PayloadProviderDecision v" using b PayloadProviderDecision by (cases y) simp_all
    ultimately show ?thesis using a
      by (cases u; cases v) (auto simp: payload_wf_defs opt_string_code.append_iff opt_protocol_code.append_iff split: option.splits)
  next
    case (PayloadCandidateSet u)
    moreover obtain v where "y = PayloadCandidateSet v" using b PayloadCandidateSet by (cases y) simp_all
    ultimately show ?thesis using a
      by (cases u; cases v) (simp add: payload_wf_defs peer_field_simps payload_list_iff)
  next
    case (PayloadCandidateSetV2 u)
    moreover obtain v where "y = PayloadCandidateSetV2 v" using b PayloadCandidateSetV2 by (cases y) simp_all
    ultimately show ?thesis using a
      by (cases u; cases v) (simp add: payload_wf_defs payload_list_iff)
  next
    case (PayloadConnectivityResult u)
    moreover obtain v where "y = PayloadConnectivityResult v" using b PayloadConnectivityResult by (cases y) simp_all
    ultimately show ?thesis using a by (simp add: connectivity_code.append_iff)
  next
    case (PayloadRelayRequest u)
    moreover obtain v where "y = PayloadRelayRequest v" using b PayloadRelayRequest by (cases y) simp_all
    ultimately show ?thesis using a by (cases u; cases v) simp
  next
    case (PayloadClose u)
    moreover obtain v where "y = PayloadClose v" using b PayloadClose by (cases y) simp_all
    ultimately show ?thesis using a
      by (cases u; cases v) (auto simp: payload_wf_defs opt_string_code.append_iff split: option.splits)
  next
    case (PayloadError u)
    moreover obtain v where "y = PayloadError v" using b PayloadError by (cases y) simp_all
    ultimately show ?thesis using a by (cases u; cases v) (simp add: payload_wf_defs peer_field_simps)
  qed
qed

subsection \<open>What a signature covers\<close>

lemma encode_envelope_determines:
  assumes "wf_RendezvousEnvelope e" and "wf_RendezvousEnvelope e'" and "encode_envelope e = encode_envelope e'"
  shows "e = e'\<lparr>env_signature := env_signature e\<rparr>"
proof -
  have wf: "length (sid_as_bytes (env_session_id x)) < 2 ^ 32 \<and> length (env_sender x) < 2 ^ 32 \<and>
      length (env_target x) < 2 ^ 32 \<and> wf_RendezvousPayload (env_payload x)" if "wf_RendezvousEnvelope x" for x
    using that by (simp add: wf_RendezvousEnvelope_def wf_SessionId_def wf_BoundedString_def rendezvous_limit_defs)
  note w = wf [OF assms(1)] wf [OF assms(2)]
  have "pv_major (env_version e) = pv_major (env_version e') \<and> pv_minor (env_version e) = pv_minor (env_version e') \<and>
      sid_as_bytes (env_session_id e) = sid_as_bytes (env_session_id e') \<and> env_sender e = env_sender e' \<and>
      env_target e = env_target e' \<and> env_step e = env_step e' \<and> gen_get (env_generation e) = gen_get (env_generation e') \<and>
      env_expires_unix_secs e = env_expires_unix_secs e' \<and> append_payload (env_payload e) = append_payload (env_payload e')"
    using assms(3) w by (simp add: encode_envelope_def peer_field_simps)
  moreover have "env_payload e = env_payload e'"
    using calculation payload_code.inj w by blast
  ultimately show ?thesis
    by (cases e; cases e') (simp add: SessionId.expand CandidateGeneration.expand ProtocolVersion.equality)
qed

lemma encode_envelope_not_login: "encode_envelope e \<noteq> AuthTranscript_new ch sid v n"
proof
  assume "encode_envelope e = AuthTranscript_new ch sid v n"
  then have "take 8 (encode_envelope e) = take 8 (AuthTranscript_new ch sid v n)" by simp
  then show False
    by (simp add: encode_envelope_def AuthTranscript_new_def ENVELOPE_DOMAIN_def AUTH_DOMAIN_def as_bytes_def)
qed

lemma sign_then_verify:
  assumes "signatures_complete c" and "sign_peer_envelope c keypair e = Inr sig"
  shows "verify_peer_envelope c (DeviceKeypair_public_key c keypair) (e\<lparr>env_signature := sig\<rparr>) = Inr ()"
proof -
  have "sig = ed25519_sign c (secret_bytes keypair) (encode_envelope e)"
    using assms(2) by (auto simp: sign_peer_envelope_def sign_bytes_def BoundedBytes_try_from_def split: if_splits)
  moreover have "encode_envelope (e\<lparr>env_signature := sig\<rparr>) = encode_envelope e" by (simp add: encode_envelope_def)
  ultimately show ?thesis
    using assms(1) by (simp add: verify_peer_envelope_def verify_bytes_def DeviceKeypair_public_key_def signatures_complete_def)
qed

text \<open>
  What a device signs: rendezvous envelopes, and the transcripts of its logins (\<open>sign_auth\<close>); nothing else in the
  sources uses the key. Unforgeability speaks of the pairs of message and signature that are presented to the
  key: those that verify were signed by the device. It says nothing of signatures nobody made, so it agrees
  with \<open>signatures_complete\<close>.
\<close>

datatype signing = SignedEnvelope RendezvousEnvelope | SignedLogin bytes bytes u16 string

fun signed_message :: "signing \<Rightarrow> bytes" where
  "signed_message (SignedEnvelope e) = encode_envelope e"
| "signed_message (SignedLogin challenge session_id protocol_version client_name) =
     AuthTranscript_new challenge session_id protocol_version client_name"

definition no_forgery :: "'a primitives_scheme \<Rightarrow> DevicePublicKey \<Rightarrow> signing list \<Rightarrow> (bytes \<times> bytes) list \<Rightarrow> bool" where
  "no_forgery c k history presented \<longleftrightarrow>
     (\<forall>(m, s) \<in> set presented. ed25519_verify_strict c (pk_as_bytes k) m s \<longrightarrow> m \<in> signed_message ` set history)"

definition presented_envelopes :: "RendezvousEnvelope list \<Rightarrow> (bytes \<times> bytes) list" where
  "presented_envelopes received = map (\<lambda>e. (encode_envelope e, env_signature e)) received"

lemma sign_peer_envelope_ok:
  "signatures_complete c \<Longrightarrow> sign_peer_envelope c keypair e = Inr (ed25519_sign c (secret_bytes keypair) (encode_envelope e))"
  by (simp add: sign_peer_envelope_def sign_bytes_def BoundedBytes_try_from_def signatures_complete_def rendezvous_limit_defs)

text \<open>
  C11 (envelope authenticity): whatever envelopes are received, as long as none of them carries a forged signature, an
  envelope that verifies under a device's key is one that the device signed as an envelope, field for
  field: no part of an envelope is outside its signature, and no login signature passes for one. Conversely every
  envelope the device signs verifies.
\<close>

theorem envelope_authentic:
  assumes "signatures_complete c" and "k = DeviceKeypair_public_key c keypair"
    and "no_forgery c k history (presented_envelopes received)"
    and "\<And>e. SignedEnvelope e \<in> set history \<Longrightarrow> wf_RendezvousEnvelope e" and "list_all wf_RendezvousEnvelope received"
  shows "(\<forall>e \<in> set received. verify_peer_envelope c k e = Inr () \<longrightarrow>
      (\<exists>e'. SignedEnvelope e' \<in> set history \<and> e = e'\<lparr>env_signature := env_signature e\<rparr>)) \<and>
    (\<forall>e. \<exists>signature. sign_peer_envelope c keypair e = Inr signature \<and>
      verify_peer_envelope c k (e\<lparr>env_signature := signature\<rparr>) = Inr ())"
proof (intro conjI ballI allI impI)
  fix e assume e: "e \<in> set received" "verify_peer_envelope c k e = Inr ()"
  then have "ed25519_verify_strict c (pk_as_bytes k) (encode_envelope e) (env_signature e)"
    by (auto simp: verify_peer_envelope_def verify_bytes_def split: if_splits)
  with e(1) assms(3) have "encode_envelope e \<in> signed_message ` set history" by (auto simp: no_forgery_def presented_envelopes_def)
  then obtain s where s: "s \<in> set history" "encode_envelope e = signed_message s" by blast
  from s(2) encode_envelope_not_login obtain e' where e': "s = SignedEnvelope e'" by (cases s) auto
  with s encode_envelope_determines [of e e'] assms(4,5) e(1)
  show "\<exists>e'. SignedEnvelope e' \<in> set history \<and> e = e'\<lparr>env_signature := env_signature e\<rparr>" by (auto simp: list_all_iff)
next
  fix e
  from sign_then_verify [OF assms(1) sign_peer_envelope_ok [OF assms(1)]] sign_peer_envelope_ok [OF assms(1)]
  show "\<exists>signature. sign_peer_envelope c keypair e = Inr signature \<and> verify_peer_envelope c k (e\<lparr>env_signature := signature\<rparr>) = Inr ()"
    unfolding assms(2) by blast
qed

definition sample_keypair :: DeviceKeypair where "sample_keypair = DeviceKeypair (replicate 32 7)"

definition sample_signed :: RendezvousEnvelope where
  "sample_signed = sample_envelope\<lparr>env_signature := toy_sign (replicate 32 7) (encode_envelope sample_envelope)\<rparr>"

theorem envelope_authentic_witness:
  "verify_peer_envelope toy_primitives (DeviceKeypair_public_key toy_primitives sample_keypair) sample_signed = Inr () \<and>
   verify_peer_envelope toy_primitives (DeviceKeypair_public_key toy_primitives sample_keypair) (sample_signed\<lparr>env_signature := []\<rparr>) \<noteq> Inr () \<and>
   (\<exists>e'. SignedEnvelope e' \<in> set [SignedLogin [1] [2] 6 ''alpha'', SignedEnvelope sample_envelope] \<and>
     sample_signed = e'\<lparr>env_signature := env_signature sample_signed\<rparr>)"
proof -
  let ?k = "DeviceKeypair_public_key toy_primitives sample_keypair"
  let ?received = "[sample_signed, sample_signed\<lparr>env_signature := []\<rparr>]"
  let ?signed = "[SignedLogin [1] [2] 6 ''alpha'', SignedEnvelope sample_envelope]"
  have len: "length (toy_sign k m) = 64" for k m
    using toy_signatures by (simp add: signatures_complete_def toy_primitives_def)
  have enc: "encode_envelope sample_signed = encode_envelope sample_envelope"
      "encode_envelope (sample_signed\<lparr>env_signature := []\<rparr>) = encode_envelope sample_envelope"
    by (simp_all add: encode_envelope_def sample_signed_def)
  have v: "verify_peer_envelope toy_primitives ?k sample_signed = Inr ()"
      "verify_peer_envelope toy_primitives ?k (sample_signed\<lparr>env_signature := []\<rparr>) \<noteq> Inr ()"
    by (simp_all add: verify_peer_envelope_def verify_bytes_def enc)
      (simp add: sample_signed_def len DeviceKeypair_public_key_def sample_keypair_def toy_primitives_def)
  have "list_all wf_RendezvousEnvelope ?received"
    using sample_envelope_wf by (simp add: sample_signed_def wf_RendezvousEnvelope_def wf_BoundedBytes_def len rendezvous_limit_defs)
  moreover have "no_forgery toy_primitives ?k ?signed (presented_envelopes ?received)"
    by (simp add: no_forgery_def presented_envelopes_def enc)
  moreover have "wf_RendezvousEnvelope e" if "SignedEnvelope e \<in> set ?signed" for e
    using that sample_envelope_wf by simp
  ultimately have "\<forall>e \<in> set ?received. verify_peer_envelope toy_primitives ?k e = Inr () \<longrightarrow>
      (\<exists>e'. SignedEnvelope e' \<in> set ?signed \<and> e = e'\<lparr>env_signature := env_signature e\<rparr>)"
    by (intro envelope_authentic [OF toy_signatures refl, THEN conjunct1])
  then have "\<exists>e'. SignedEnvelope e' \<in> set ?signed \<and> sample_signed = e'\<lparr>env_signature := env_signature sample_signed\<rparr>"
    using v(1) by (elim ballE [where x = sample_signed]) simp_all
  with v show ?thesis by (intro conjI)
qed

end
