(* ===== verification/Peer_Frames.thy ===== *)
theory Peer_Frames
  imports Peer_Envelope
begin

text \<open>
  The end-to-end encrypted peer channel (\<open>rustgo-crypto/src/peer.rs\<close>): the session transcript, the
  key schedule, the handshake tags and candidate confirmations, and the frame sealers and openers
  with their sequence numbers, replay window and end-of-stream flag. The primitives of
  \<open>x25519-dalek\<close>, \<open>hkdf\<close>, \<open>hmac\<close> and \<open>chacha20poly1305\<close> extend the record of primitives; the
  theorems name what they need of them. A secret is its 32 bytes. An operation on a sealer or opener
  returns its result with the new state, which a failure leaves as it was.
\<close>

record peer_primitives = primitives +
  x25519_public :: "bytes \<Rightarrow> bytes"
  x25519_shared :: "bytes \<Rightarrow> bytes \<Rightarrow> bytes"
  x25519_contributory :: "bytes \<Rightarrow> bool"
  hkdf_extract :: "bytes \<Rightarrow> bytes \<Rightarrow> bytes"
  hkdf_from_prk :: "bytes \<Rightarrow> bytes option"
  hkdf_expand :: "bytes \<Rightarrow> bytes \<Rightarrow> bytes option"
  hmac_sha256 :: "bytes \<Rightarrow> bytes \<Rightarrow> bytes"
  chacha_encrypt :: "bytes \<Rightarrow> bytes \<Rightarrow> bytes \<Rightarrow> bytes \<Rightarrow> bytes option"
  chacha_decrypt :: "bytes \<Rightarrow> bytes \<Rightarrow> bytes \<Rightarrow> bytes \<Rightarrow> bytes option"
  chacha_tag :: "bytes \<Rightarrow> bytes \<Rightarrow> bytes \<Rightarrow> bytes"
  chacha_check_tag :: "bytes \<Rightarrow> bytes \<Rightarrow> bytes \<Rightarrow> bytes \<Rightarrow> bool"

subsection \<open>Roles and the session transcript\<close>

definition SESSION_DOMAIN :: bytes where "SESSION_DOMAIN = as_bytes ''rustgo-peer-session-v1''"
definition FRAME_DOMAIN :: bytes where "FRAME_DOMAIN = as_bytes ''rustgo-peer-frame-v1''"
definition FRAME_KEY_DOMAIN :: bytes where "FRAME_KEY_DOMAIN = as_bytes ''rustgo-peer-frame-key-v1''"
definition HANDSHAKE_DOMAIN :: bytes where "HANDSHAKE_DOMAIN = as_bytes ''rustgo-peer-handshake-confirmation-v1''"
definition AEAD_TAG_BYTES :: nat where "AEAD_TAG_BYTES = 16"
definition REPLAY_WINDOW_BITS :: u64 where "REPLAY_WINDOW_BITS = 64"

datatype PeerRole = Initiator | Responder

fun PeerRole_tag :: "PeerRole \<Rightarrow> u8" where
  "PeerRole_tag Initiator = 1"
| "PeerRole_tag Responder = 2"

record PeerTranscript =
  pt_encoded :: bytes
  pt_session_id :: SessionId
  pt_initiator_ephemeral :: bytes
  pt_responder_ephemeral :: bytes

definition append_role :: "PeerRole \<Rightarrow> DevicePublicKey \<Rightarrow> bytes \<Rightarrow> bytes" where
  "append_role role identity ephemeral =
     PeerRole_tag role # append_bytes (pk_as_bytes identity) @ append_bytes ephemeral"

definition PeerTranscript_new ::
  "SessionId \<Rightarrow> CandidateGeneration \<Rightarrow> DevicePublicKey \<Rightarrow> DevicePublicKey \<Rightarrow> bytes \<Rightarrow> bytes \<Rightarrow> string
     \<Rightarrow> ProtocolVersion \<Rightarrow> bytes \<Rightarrow> PeerTranscript" where
  "PeerTranscript_new session_id generation initiator_identity responder_identity initiator_ephemeral
     responder_ephemeral export version rendezvous_transcript_hash =
     \<lparr>pt_encoded = SESSION_DOMAIN @ append_bytes (sid_as_bytes session_id) @
        append_u64 (gen_get generation) @ append_role Initiator initiator_identity initiator_ephemeral @
        append_role Responder responder_identity responder_ephemeral @ append_bytes (as_bytes export) @
        append_u16 (pv_major version) @ append_u16 (pv_minor version) @
        append_bytes rendezvous_transcript_hash,
      pt_session_id = session_id, pt_initiator_ephemeral = initiator_ephemeral,
      pt_responder_ephemeral = responder_ephemeral\<rparr>"

fun local_ephemeral :: "PeerTranscript \<Rightarrow> PeerRole \<Rightarrow> bytes" where
  "local_ephemeral self Initiator = pt_initiator_ephemeral self"
| "local_ephemeral self Responder = pt_responder_ephemeral self"

fun peer_ephemeral :: "PeerTranscript \<Rightarrow> PeerRole \<Rightarrow> bytes" where
  "peer_ephemeral self Initiator = pt_responder_ephemeral self"
| "peer_ephemeral self Responder = pt_initiator_ephemeral self"

subsection \<open>The key schedule\<close>

datatype FrameMode = Ordered | Datagram

record FrameDomain =
  fd_mode :: FrameMode
  fd_channel_id :: u64

record PeerSessionKeys =
  sk_role :: PeerRole
  sk_session_id :: SessionId
  sk_context_hash :: bytes
  sk_handshake_i2r :: bytes
  sk_handshake_r2i :: bytes
  sk_candidate_mac_i2r :: bytes
  sk_candidate_mac_r2i :: bytes
  sk_stream_i2r :: bytes
  sk_stream_r2i :: bytes
  sk_datagram_i2r :: bytes
  sk_datagram_r2i :: bytes
  sk_issued_sealers :: "FrameDomain list"
  sk_issued_openers :: "FrameDomain list"

definition expand_key :: "'a peer_primitives_scheme \<Rightarrow> bytes \<Rightarrow> bytes \<Rightarrow> (PeerCryptoError, bytes) result" where
  "expand_key c hkdf label = ok_or (hkdf_expand c hkdf label) KeyDerivationFailed"

definition derive ::
  "'a peer_primitives_scheme \<Rightarrow> PeerRole \<Rightarrow> bytes \<Rightarrow> PeerTranscript \<Rightarrow> (PeerCryptoError, PeerSessionKeys) result" where
  "derive c role local_secret transcript =
     (if x25519_public c local_secret \<noteq> local_ephemeral transcript role then Inl LocalEphemeralKeyMismatch
      else
        let shared = x25519_shared c local_secret (peer_ephemeral transcript role) in
        if \<not> x25519_contributory c shared then Inl InvalidPeerEphemeralKey
        else
          let context_hash = sha256 c (pt_encoded transcript);
              hkdf = hkdf_extract c context_hash shared;
              key = (\<lambda>label. expand_key c hkdf (as_bytes label))
          in
            and_then (key ''rustgo-peer-handshake-initiator-to-responder-v1'') (\<lambda>h1.
            and_then (key ''rustgo-peer-handshake-responder-to-initiator-v1'') (\<lambda>h2.
            and_then (key ''rustgo-peer-tcp-candidate-mac-initiator-to-responder-v1'') (\<lambda>m1.
            and_then (key ''rustgo-peer-tcp-candidate-mac-responder-to-initiator-v1'') (\<lambda>m2.
            and_then (key ''rustgo-peer-stream-initiator-to-responder-v1'') (\<lambda>s1.
            and_then (key ''rustgo-peer-stream-responder-to-initiator-v1'') (\<lambda>s2.
            and_then (key ''rustgo-peer-datagram-initiator-to-responder-v1'') (\<lambda>d1.
            and_then (key ''rustgo-peer-datagram-responder-to-initiator-v1'') (\<lambda>d2.
            Inr \<lparr>sk_role = role, sk_session_id = pt_session_id transcript, sk_context_hash = context_hash,
              sk_handshake_i2r = h1, sk_handshake_r2i = h2,
              sk_candidate_mac_i2r = m1, sk_candidate_mac_r2i = m2,
              sk_stream_i2r = s1, sk_stream_r2i = s2, sk_datagram_i2r = d1, sk_datagram_r2i = d2,
              sk_issued_sealers = [], sk_issued_openers = []\<rparr>)))))))))"

definition outgoing_direction :: "PeerSessionKeys \<Rightarrow> PeerRole" where
  "outgoing_direction self = sk_role self"

definition incoming_direction :: "PeerSessionKeys \<Rightarrow> PeerRole" where
  "incoming_direction self = (case sk_role self of Initiator \<Rightarrow> Responder | Responder \<Rightarrow> Initiator)"

definition outgoing_handshake_key :: "PeerSessionKeys \<Rightarrow> bytes" where
  "outgoing_handshake_key self =
     (case sk_role self of Initiator \<Rightarrow> sk_handshake_i2r self | Responder \<Rightarrow> sk_handshake_r2i self)"

definition incoming_handshake_key :: "PeerSessionKeys \<Rightarrow> bytes" where
  "incoming_handshake_key self =
     (case sk_role self of Initiator \<Rightarrow> sk_handshake_r2i self | Responder \<Rightarrow> sk_handshake_i2r self)"

definition outgoing_candidate_mac_key :: "PeerSessionKeys \<Rightarrow> bytes" where
  "outgoing_candidate_mac_key self =
     (case sk_role self of Initiator \<Rightarrow> sk_candidate_mac_i2r self | Responder \<Rightarrow> sk_candidate_mac_r2i self)"

definition incoming_candidate_mac_key :: "PeerSessionKeys \<Rightarrow> bytes" where
  "incoming_candidate_mac_key self =
     (case sk_role self of Initiator \<Rightarrow> sk_candidate_mac_r2i self | Responder \<Rightarrow> sk_candidate_mac_i2r self)"

definition outgoing_stream_key :: "PeerSessionKeys \<Rightarrow> bytes" where
  "outgoing_stream_key self =
     (case sk_role self of Initiator \<Rightarrow> sk_stream_i2r self | Responder \<Rightarrow> sk_stream_r2i self)"

definition incoming_stream_key :: "PeerSessionKeys \<Rightarrow> bytes" where
  "incoming_stream_key self =
     (case sk_role self of Initiator \<Rightarrow> sk_stream_r2i self | Responder \<Rightarrow> sk_stream_i2r self)"

definition outgoing_datagram_key :: "PeerSessionKeys \<Rightarrow> bytes" where
  "outgoing_datagram_key self =
     (case sk_role self of Initiator \<Rightarrow> sk_datagram_i2r self | Responder \<Rightarrow> sk_datagram_r2i self)"

definition incoming_datagram_key :: "PeerSessionKeys \<Rightarrow> bytes" where
  "incoming_datagram_key self =
     (case sk_role self of Initiator \<Rightarrow> sk_datagram_r2i self | Responder \<Rightarrow> sk_datagram_i2r self)"

definition handshake_aad :: "bytes \<Rightarrow> bytes \<Rightarrow> bytes" where
  "handshake_aad context_hash transport_binding =
     HANDSHAKE_DOMAIN @ append_bytes context_hash @ append_bytes transport_binding"

definition handshake_tag :: "'a peer_primitives_scheme \<Rightarrow> PeerSessionKeys \<Rightarrow> bytes \<Rightarrow> bytes" where
  "handshake_tag c self transport_binding =
     chacha_tag c (outgoing_handshake_key self) (replicate 12 0)
       (handshake_aad (sk_context_hash self) transport_binding)"

definition verify_handshake_tag ::
  "'a peer_primitives_scheme \<Rightarrow> PeerSessionKeys \<Rightarrow> bytes \<Rightarrow> bytes \<Rightarrow> (PeerCryptoError, unit) result" where
  "verify_handshake_tag c self transport_binding tag =
     (if chacha_check_tag c (incoming_handshake_key self) (replicate 12 0)
          (handshake_aad (sk_context_hash self) transport_binding) tag
      then Inr () else Inl HandshakeAuthenticationFailed)"

definition candidate_hmac :: "'a peer_primitives_scheme \<Rightarrow> bytes \<Rightarrow> bytes \<Rightarrow> bytes \<Rightarrow> bytes" where
  "candidate_hmac c key context_hash transport_binding =
     hmac_sha256 c key (as_bytes ''rustgo-peer-candidate-confirmation-v1'' @ context_hash @ transport_binding)"

definition candidate_confirmation :: "'a peer_primitives_scheme \<Rightarrow> PeerSessionKeys \<Rightarrow> bytes \<Rightarrow> bytes" where
  "candidate_confirmation c self transport_binding =
     candidate_hmac c (outgoing_candidate_mac_key self) (sk_context_hash self) transport_binding"

definition verify_candidate_confirmation ::
  "'a peer_primitives_scheme \<Rightarrow> PeerSessionKeys \<Rightarrow> bytes \<Rightarrow> bytes \<Rightarrow> (PeerCryptoError, unit) result" where
  "verify_candidate_confirmation c self transport_binding confirmation =
     (if hmac_sha256 c (incoming_candidate_mac_key self)
          (as_bytes ''rustgo-peer-candidate-confirmation-v1'' @ sk_context_hash self @ transport_binding) = confirmation
      then Inr () else Inl HandshakeAuthenticationFailed)"

subsection \<open>Frame domains and keys\<close>

definition validate_channel_id :: "u64 \<Rightarrow> (PeerCryptoError, unit) result" where
  "validate_channel_id channel_id = (if channel_id = 0 then Inl InvalidFrameContext else Inr ())"

fun frame_mode_tag :: "FrameMode \<Rightarrow> u8" where
  "frame_mode_tag Ordered = 1"
| "frame_mode_tag Datagram = 2"

definition nonce_prefix :: "FrameMode \<Rightarrow> PeerRole \<Rightarrow> bytes" where
  "nonce_prefix mode direction = [frame_mode_tag mode, PeerRole_tag direction, 0, 0]"

definition frame_nonce :: "bytes \<Rightarrow> u64 \<Rightarrow> bytes" where
  "frame_nonce prefix sequence = prefix @ put_u64 sequence"

definition frame_aad :: "bytes \<Rightarrow> SessionId \<Rightarrow> u64 \<Rightarrow> PeerRelayFlags \<Rightarrow> u64 \<Rightarrow> bytes" where
  "frame_aad context_hash session_id channel_id flags sequence =
     FRAME_DOMAIN @ append_bytes context_hash @ append_bytes (sid_as_bytes session_id) @
     append_u64 channel_id @ [prf_bits flags] @ append_u64 sequence"

definition issue_domain ::
  "FrameDomain list \<Rightarrow> FrameMode \<Rightarrow> u64 \<Rightarrow> (PeerCryptoError, FrameDomain) result \<times> FrameDomain list" where
  "issue_domain issued mode channel_id =
     (case validate_channel_id channel_id of
        Inl e \<Rightarrow> (Inl e, issued)
      | Inr _ \<Rightarrow>
          let domain = \<lparr>fd_mode = mode, fd_channel_id = channel_id\<rparr> in
          if domain \<in> set issued then (Inl DomainAlreadyIssued, issued)
          else (Inr domain, domain # issued))"

definition derive_frame_key ::
  "'a peer_primitives_scheme \<Rightarrow> bytes \<Rightarrow> bytes \<Rightarrow> SessionId \<Rightarrow> FrameMode \<Rightarrow> u64 \<Rightarrow> (PeerCryptoError, bytes) result" where
  "derive_frame_key c base_key context_hash session_id mode channel_id =
     and_then (ok_or (hkdf_from_prk c base_key) KeyDerivationFailed) (\<lambda>hkdf.
       expand_key c hkdf
         (FRAME_KEY_DOMAIN @ append_bytes context_hash @ append_bytes (sid_as_bytes session_id) @
          [frame_mode_tag mode] @ append_u64 channel_id))"

subsection \<open>Sealing\<close>

record PeerFrameSealer =
  ps_session_id :: SessionId
  ps_channel_id :: u64
  ps_context_hash :: bytes
  ps_key :: bytes
  ps_mode :: FrameMode
  ps_nonce_prefix :: bytes
  ps_next_sequence :: u64
  ps_exhausted :: bool
  ps_finished :: bool

definition PeerFrameSealer_new ::
  "SessionId \<Rightarrow> u64 \<Rightarrow> bytes \<Rightarrow> bytes \<Rightarrow> FrameMode \<Rightarrow> bytes \<Rightarrow> (PeerCryptoError, PeerFrameSealer) result" where
  "PeerFrameSealer_new session_id channel_id context_hash key mode prefix =
     and_then (validate_channel_id channel_id) (\<lambda>_.
       Inr \<lparr>ps_session_id = session_id, ps_channel_id = channel_id, ps_context_hash = context_hash,
         ps_key = key, ps_mode = mode, ps_nonce_prefix = prefix, ps_next_sequence = 0,
         ps_exhausted = False, ps_finished = False\<rparr>)"

definition validate_frame_flags :: "FrameMode \<Rightarrow> PeerRelayFlags \<Rightarrow> (PeerCryptoError, unit) result" where
  "validate_frame_flags mode flags =
     (if (case mode of
            Ordered \<Rightarrow> flags = PeerRelayFlags_RELIABLE \<or>
              flags = PeerRelayFlags_bitor PeerRelayFlags_RELIABLE PeerRelayFlags_FIN
          | Datagram \<Rightarrow> flags = PeerRelayFlags_DATAGRAM)
      then Inr () else Inl InvalidFrameContext)"

definition validate_flag_transition :: "FrameMode \<Rightarrow> bool \<Rightarrow> (PeerCryptoError, unit) result" where
  "validate_flag_transition mode finished =
     (if mode = Ordered \<and> finished then Inl InvalidFlagTransition else Inr ())"

definition has_fin :: "PeerRelayFlags \<Rightarrow> bool" where
  "has_fin flags \<longleftrightarrow> prf_bits flags AND prf_bits PeerRelayFlags_FIN \<noteq> 0"

definition seal ::
  "'a peer_primitives_scheme \<Rightarrow> bytes \<Rightarrow> PeerRelayFlags \<Rightarrow> PeerFrameSealer
     \<Rightarrow> (PeerCryptoError, PeerRelayFrame) result \<times> PeerFrameSealer" where
  "seal c plaintext flags self =
     (if length plaintext > saturating_sub MAX_PEER_RELAY_CIPHERTEXT_BYTES AEAD_TAG_BYTES then (Inl FrameTooLarge, self)
      else case validate_frame_flags (ps_mode self) flags of
        Inl e \<Rightarrow> (Inl e, self)
      | Inr _ \<Rightarrow>
        case validate_flag_transition (ps_mode self) (ps_finished self) of
          Inl e \<Rightarrow> (Inl e, self)
        | Inr _ \<Rightarrow>
          if ps_exhausted self then (Inl SequenceExhausted, self)
          else
            let sequence = ps_next_sequence self;
                nonce = frame_nonce (ps_nonce_prefix self) sequence;
                aad = frame_aad (ps_context_hash self) (ps_session_id self) (ps_channel_id self) flags sequence
            in case chacha_encrypt c (ps_key self) nonce aad plaintext of
                 None \<Rightarrow> (Inl FrameTooLarge, self)
               | Some ciphertext \<Rightarrow>
                   (case PeerRelayFrame_new (ps_session_id self) (ps_channel_id self) sequence flags ciphertext of
                      Inl _ \<Rightarrow> (Inl FrameTooLarge, self)
                    | Inr frame \<Rightarrow>
                        let self = (case checked_add sequence 1 of
                              Some n \<Rightarrow> self\<lparr>ps_next_sequence := n\<rparr>
                            | None \<Rightarrow> self\<lparr>ps_exhausted := True\<rparr>)
                        in (Inr frame, self\<lparr>ps_finished := ps_finished self \<or> has_fin flags\<rparr>)))"

subsection \<open>Opening\<close>

record ReplayWindow =
  rw_highest :: "u64 option"
  rw_bitmap :: u64

datatype ReceiveState = ReceiveOrdered u64 bool | ReceiveDatagram ReplayWindow

record PeerFrameOpener =
  po_session_id :: SessionId
  po_channel_id :: u64
  po_context_hash :: bytes
  po_key :: bytes
  po_mode :: FrameMode
  po_nonce_prefix :: bytes
  po_state :: ReceiveState
  po_finished :: bool

definition PeerFrameOpener_new ::
  "SessionId \<Rightarrow> u64 \<Rightarrow> bytes \<Rightarrow> bytes \<Rightarrow> FrameMode \<Rightarrow> bytes \<Rightarrow> (PeerCryptoError, PeerFrameOpener) result" where
  "PeerFrameOpener_new session_id channel_id context_hash key mode prefix =
     and_then (validate_channel_id channel_id) (\<lambda>_.
       Inr \<lparr>po_session_id = session_id, po_channel_id = channel_id, po_context_hash = context_hash,
         po_key = key, po_mode = mode, po_nonce_prefix = prefix,
         po_state = (case mode of
             Ordered \<Rightarrow> ReceiveOrdered 0 False
           | Datagram \<Rightarrow> ReceiveDatagram \<lparr>rw_highest = None, rw_bitmap = 0\<rparr>),
         po_finished = False\<rparr>)"

definition replay_window_accept :: "ReplayWindow \<Rightarrow> u64 \<Rightarrow> (PeerCryptoError, ReplayWindow) result" where
  "replay_window_accept window sequence =
     (case rw_highest window of
        None \<Rightarrow> Inr \<lparr>rw_highest = Some sequence, rw_bitmap = 1\<rparr>
      | Some highest \<Rightarrow>
          if sequence > highest then
            (let distance = sequence - highest;
                 bitmap = (if distance \<ge> REPLAY_WINDOW_BITS then 1
                   else push_bit (unat distance) (rw_bitmap window) OR 1)
             in Inr \<lparr>rw_highest = Some sequence, rw_bitmap = bitmap\<rparr>)
          else
            (let distance = highest - sequence in
             if distance \<ge> REPLAY_WINDOW_BITS \<or> rw_bitmap window AND push_bit (unat distance) 1 \<noteq> 0
             then Inl Replay
             else Inr \<lparr>rw_highest = rw_highest window,
               rw_bitmap = rw_bitmap window OR push_bit (unat distance) 1\<rparr>))"

fun receive_sequence :: "ReceiveState \<Rightarrow> u64 \<Rightarrow> (PeerCryptoError, ReceiveState) result" where
  "receive_sequence (ReceiveOrdered expected exhausted) sequence =
     (if exhausted then (if sequence = -1 then Inl Replay else Inl SequenceExhausted)
      else if sequence < expected then Inl Replay
      else if sequence > expected then Inl UnexpectedSequence
      else (case checked_add expected 1 of
              Some n \<Rightarrow> Inr (ReceiveOrdered n False)
            | None \<Rightarrow> Inr (ReceiveOrdered expected True)))"
| "receive_sequence (ReceiveDatagram window) sequence =
     and_then (replay_window_accept window sequence) (\<lambda>w. Inr (ReceiveDatagram w))"

definition open_frame ::
  "'a peer_primitives_scheme \<Rightarrow> PeerRelayFrame \<Rightarrow> PeerFrameOpener
     \<Rightarrow> (PeerCryptoError, bytes) result \<times> PeerFrameOpener" where
  "open_frame c frame self =
     (if prf_session_id frame \<noteq> po_session_id self \<or> prf_channel_id frame \<noteq> po_channel_id self
      then (Inl FrameContextMismatch, self)
      else case validate_frame_flags (po_mode self) (prf_flags frame) of
        Inl e \<Rightarrow> (Inl e, self)
      | Inr _ \<Rightarrow>
        case receive_sequence (po_state self) (prf_sequence frame) of
          Inl e \<Rightarrow> (Inl e, self)
        | Inr next_state \<Rightarrow>
          case validate_flag_transition (po_mode self) (po_finished self) of
            Inl e \<Rightarrow> (Inl e, self)
          | Inr _ \<Rightarrow>
            let nonce = frame_nonce (po_nonce_prefix self) (prf_sequence frame);
                aad = frame_aad (po_context_hash self) (prf_session_id frame) (prf_channel_id frame)
                  (prf_flags frame) (prf_sequence frame)
            in case chacha_decrypt c (po_key self) nonce aad (prf_ciphertext frame) of
                 None \<Rightarrow> (Inl FrameAuthenticationFailed, self)
               | Some plaintext \<Rightarrow>
                   (Inr plaintext, self\<lparr>po_state := next_state,
                      po_finished := po_finished self \<or> has_fin (prf_flags frame)\<rparr>))"

subsection \<open>Issuing sealers and openers\<close>

definition issue_sealer ::
  "FrameMode \<Rightarrow> u64 \<Rightarrow> PeerSessionKeys \<Rightarrow> (PeerCryptoError, FrameDomain) result \<times> PeerSessionKeys" where
  "issue_sealer mode channel_id self =
     (let (r, issued) = issue_domain (sk_issued_sealers self) mode channel_id
      in (r, self\<lparr>sk_issued_sealers := issued\<rparr>))"

definition issue_opener ::
  "FrameMode \<Rightarrow> u64 \<Rightarrow> PeerSessionKeys \<Rightarrow> (PeerCryptoError, FrameDomain) result \<times> PeerSessionKeys" where
  "issue_opener mode channel_id self =
     (let (r, issued) = issue_domain (sk_issued_openers self) mode channel_id
      in (r, self\<lparr>sk_issued_openers := issued\<rparr>))"

definition stream_sealer ::
  "'a peer_primitives_scheme \<Rightarrow> u64 \<Rightarrow> PeerSessionKeys \<Rightarrow> (PeerCryptoError, PeerFrameSealer) result \<times> PeerSessionKeys" where
  "stream_sealer c channel_id self =
     (case issue_sealer Ordered channel_id self of
        (Inl e, self) \<Rightarrow> (Inl e, self)
      | (Inr domain, self) \<Rightarrow>
          (and_then (derive_frame_key c (outgoing_stream_key self) (sk_context_hash self) (sk_session_id self)
              (fd_mode domain) (fd_channel_id domain)) (\<lambda>key.
            PeerFrameSealer_new (sk_session_id self) (fd_channel_id domain) (sk_context_hash self) key
              (fd_mode domain) (nonce_prefix Ordered (outgoing_direction self))), self))"

definition stream_opener ::
  "'a peer_primitives_scheme \<Rightarrow> u64 \<Rightarrow> PeerSessionKeys \<Rightarrow> (PeerCryptoError, PeerFrameOpener) result \<times> PeerSessionKeys" where
  "stream_opener c channel_id self =
     (case issue_opener Ordered channel_id self of
        (Inl e, self) \<Rightarrow> (Inl e, self)
      | (Inr domain, self) \<Rightarrow>
          (and_then (derive_frame_key c (incoming_stream_key self) (sk_context_hash self) (sk_session_id self)
              (fd_mode domain) (fd_channel_id domain)) (\<lambda>key.
            PeerFrameOpener_new (sk_session_id self) (fd_channel_id domain) (sk_context_hash self) key
              (fd_mode domain) (nonce_prefix Ordered (incoming_direction self))), self))"

definition datagram_sealer ::
  "'a peer_primitives_scheme \<Rightarrow> u64 \<Rightarrow> PeerSessionKeys \<Rightarrow> (PeerCryptoError, PeerFrameSealer) result \<times> PeerSessionKeys" where
  "datagram_sealer c channel_id self =
     (case issue_sealer Datagram channel_id self of
        (Inl e, self) \<Rightarrow> (Inl e, self)
      | (Inr domain, self) \<Rightarrow>
          (and_then (derive_frame_key c (outgoing_datagram_key self) (sk_context_hash self) (sk_session_id self)
              (fd_mode domain) (fd_channel_id domain)) (\<lambda>key.
            PeerFrameSealer_new (sk_session_id self) (fd_channel_id domain) (sk_context_hash self) key
              (fd_mode domain) (nonce_prefix Datagram (outgoing_direction self))), self))"

definition datagram_opener ::
  "'a peer_primitives_scheme \<Rightarrow> u64 \<Rightarrow> PeerSessionKeys \<Rightarrow> (PeerCryptoError, PeerFrameOpener) result \<times> PeerSessionKeys" where
  "datagram_opener c channel_id self =
     (case issue_opener Datagram channel_id self of
        (Inl e, self) \<Rightarrow> (Inl e, self)
      | (Inr domain, self) \<Rightarrow>
          (and_then (derive_frame_key c (incoming_datagram_key self) (sk_context_hash self) (sk_session_id self)
              (fd_mode domain) (fd_channel_id domain)) (\<lambda>key.
            PeerFrameOpener_new (sk_session_id self) (fd_channel_id domain) (sk_context_hash self) key
              (fd_mode domain) (nonce_prefix Datagram (incoming_direction self))), self))"

subsection \<open>The replay window refines the set of sequences seen\<close>

definition window_spec :: "nat set \<Rightarrow> u64 \<Rightarrow> (PeerCryptoError, nat set) result" where
  "window_spec seen sequence =
     (if seen \<noteq> {} \<and> (unat sequence \<in> seen \<or> unat sequence + 64 \<le> Max seen) then Inl Replay
      else Inr (insert (unat sequence) seen))"

definition window_rep :: "ReplayWindow \<Rightarrow> nat set \<Rightarrow> bool" where
  "window_rep w seen \<longleftrightarrow> finite seen \<and>
     (case rw_highest w of
        None \<Rightarrow> seen = {}
      | Some h \<Rightarrow> seen \<noteq> {} \<and> Max seen = unat h \<and>
          (\<forall>d < 64. bit (rw_bitmap w) d \<longleftrightarrow> d \<le> unat h \<and> unat h - d \<in> seen))"

lemma bit_mask_iff: "(b :: u64) AND push_bit d 1 \<noteq> 0 \<longleftrightarrow> bit b d"
  by (simp add: push_bit_of_1 and_exp_eq_0_iff_not_bit)

lemma window_first:
  "window_rep w {} \<Longrightarrow> \<exists>w'. replay_window_accept w s = Inr w' \<and> window_rep w' {unat s}"
  by (auto simp: window_rep_def replay_window_accept_def bit_1_iff split: option.splits)

lemma window_above:
  assumes rep: "window_rep w seen" and h: "rw_highest w = Some h" and gt: "h < s"
  shows "\<exists>w'. replay_window_accept w s = Inr w' \<and> window_rep w' (insert (unat s) seen)"
proof -
  have fin: "finite seen" "seen \<noteq> {}" "Max seen = unat h"
    and bits: "\<And>d. d < 64 \<Longrightarrow> bit (rw_bitmap w) d \<longleftrightarrow> d \<le> unat h \<and> unat h - d \<in> seen"
    using rep h by (auto simp: window_rep_def)
  have lt: "unat h < unat s" using gt by (simp add: word_less_nat_alt)
  have top: "n \<le> unat h" if "n \<in> seen" for n using fin that by (metis Max_ge)
  have dist: "unat (s - h) = unat s - unat h" using gt by (simp add: unat_sub less_imp_le)
  have mx: "Max (insert (unat s) seen) = unat s" using fin lt by (simp add: max_def)
  let ?b = "if s - h \<ge> REPLAY_WINDOW_BITS then 1 else push_bit (unat (s - h)) (rw_bitmap w) OR 1"
  have "bit ?b d \<longleftrightarrow> d \<le> unat s \<and> unat s - d \<in> insert (unat s) seen" if d: "d < 64" for d
  proof (cases "d = 0")
    case True
    then show ?thesis by (simp add: bit_simps)
  next
    case pos: False
    have s_d: "d \<le> unat s \<and> unat s - d \<in> insert (unat s) seen \<longleftrightarrow> d \<le> unat s \<and> unat s - d \<in> seen"
      using pos lt by auto
    show ?thesis
    proof (cases "unat s - unat h \<le> d")
      case False
      then have "unat s - d \<notin> seen" using top [of "unat s - d"] by auto
      with False d pos dist show ?thesis unfolding s_d by (auto simp: bit_simps)
    next
      case True
      then have "\<not> s - h \<ge> REPLAY_WINDOW_BITS"
        using d dist by (simp add: REPLAY_WINDOW_BITS_def word_le_nat_alt)
      then have "bit ?b d \<longleftrightarrow> bit (rw_bitmap w) (d - (unat s - unat h))"
        using True d pos by (simp add: bit_simps dist)
      also have "\<dots> \<longleftrightarrow> d \<le> unat s \<and> unat s - d \<in> seen"
        using bits [of "d - (unat s - unat h)"] d True lt by (auto simp: algebra_simps)
      finally show ?thesis unfolding s_d .
    qed
  qed
  then show ?thesis
    using h gt fin mx by (auto simp: replay_window_accept_def window_rep_def Let_def)
qed

lemma window_within:
  assumes rep: "window_rep w seen" and h: "rw_highest w = Some h" and le: "\<not> h < s"
  shows "if unat s \<in> seen \<or> unat s + 64 \<le> Max seen then replay_window_accept w s = Inl Replay
    else \<exists>w'. replay_window_accept w s = Inr w' \<and> window_rep w' (insert (unat s) seen)"
proof -
  have fin: "finite seen" "seen \<noteq> {}" "Max seen = unat h"
    and bits: "\<And>d. d < 64 \<Longrightarrow> bit (rw_bitmap w) d \<longleftrightarrow> d \<le> unat h \<and> unat h - d \<in> seen"
    using rep h by (auto simp: window_rep_def)
  have le': "unat s \<le> unat h" using le by (simp add: word_less_nat_alt)
  have dist: "unat (h - s) = unat h - unat s" using le by (simp add: unat_sub)
  have far: "h - s \<ge> REPLAY_WINDOW_BITS \<longleftrightarrow> unat s + 64 \<le> Max seen"
    using le' fin(3) by (auto simp: REPLAY_WINDOW_BITS_def word_le_nat_alt dist)
  show ?thesis
  proof (cases "unat s + 64 \<le> Max seen")
    case True
    then show ?thesis using h le far by (simp add: replay_window_accept_def Let_def)
  next
    case False
    then have d: "unat h - unat s < 64" using fin(3) by simp
    have hit: "rw_bitmap w AND push_bit (unat (h - s)) 1 \<noteq> 0 \<longleftrightarrow> unat s \<in> seen"
      using bit_mask_iff [of _ "unat h - unat s"] bits [OF d] d le' by (simp add: dist)
    have "window_rep \<lparr>rw_highest = Some h, rw_bitmap = rw_bitmap w OR push_bit (unat (h - s)) 1\<rparr> (insert (unat s) seen)"
    proof -
      have "Max (insert (unat s) seen) = unat h" using fin le' by (simp add: max_def)
      moreover have "bit (rw_bitmap w OR push_bit (unat (h - s)) 1) n \<longleftrightarrow> n \<le> unat h \<and> unat h - n \<in> insert (unat s) seen"
        if "n < 64" for n
        using bits [OF that] that le' by (auto simp: bit_simps dist)
      ultimately show ?thesis using fin by (simp add: window_rep_def)
    qed
    with False hit h le far show ?thesis by (auto simp: replay_window_accept_def Let_def)
  qed
qed

interpretation replay_window: lockstep replay_window_accept window_spec window_rep
proof unfold_locales
  fix w seen s err
  assume rep: "window_rep w seen" and spec: "window_spec seen s = Inl err"
  then obtain h where h: "rw_highest w = Some h"
    by (cases "rw_highest w") (auto simp: window_rep_def window_spec_def)
  have bad: "unat s \<in> seen \<or> unat s + 64 \<le> Max seen" and err: "err = Replay"
    using spec by (auto simp: window_spec_def split: if_splits)
  have "\<not> h < s"
  proof
    assume "h < s"
    then have "unat h < unat s" by (simp add: word_less_nat_alt)
    moreover have "finite seen" "Max seen = unat h" using rep h by (auto simp: window_rep_def)
    ultimately show False using bad Max_ge [of seen "unat s"] by auto
  qed
  from window_within [OF rep h this] bad err show "replay_window_accept w s = Inl err" by simp
next
  fix w seen s seen'
  assume rep: "window_rep w seen" and spec: "window_spec seen s = Inr seen'"
  then have s': "seen' = insert (unat s) seen" and ok: "seen = {} \<or> \<not> (unat s \<in> seen \<or> unat s + 64 \<le> Max seen)"
    by (auto simp: window_spec_def split: if_splits)
  show "\<exists>w'. replay_window_accept w s = Inr w' \<and> window_rep w' seen'"
  proof (cases "rw_highest w")
    case None
    then have "seen = {}" using rep by (simp add: window_rep_def)
    then show ?thesis using window_first rep s' by simp
  next
    case (Some h)
    then have "seen \<noteq> {}" using rep by (simp add: window_rep_def)
    then show ?thesis
      using window_above [OF rep Some] window_within [OF rep Some] ok s' by (cases "h < s") auto
  qed
qed

definition empty_window :: ReplayWindow where
  "empty_window = \<lparr>rw_highest = None, rw_bitmap = 0\<rparr>"

lemma empty_window_rep: "window_rep empty_window {}"
  by (simp add: window_rep_def empty_window_def)

lemma window_spec_accepts:
  "distinct (fst (accepts window_spec seen ss)) \<and> (\<forall>x \<in> set (fst (accepts window_spec seen ss)). unat x \<notin> seen)"
proof (induction ss arbitrary: seen)
  case (Cons x ss)
  show ?case
  proof (cases "window_spec seen x")
    case (Inr seen')
    then have "seen' = insert (unat x) seen" "unat x \<notin> seen"
      by (auto simp: window_spec_def split: if_splits)
    then show ?thesis using Cons [of seen'] Inr by (auto simp: split_beta)
  qed (use Cons in simp)
qed simp

text \<open>
  C10 (the replay window is exact): the 64-bit bitmap accepts and refuses exactly as a receiver that
  remembers every sequence number ever accepted and refuses what it has seen and what lies 64 or
  more behind the highest. In particular no datagram is accepted twice.
\<close>

theorem replay_window_exact:
  "fst (accepts replay_window_accept \<lparr>rw_highest = None, rw_bitmap = 0\<rparr> sequences) = fst (accepts window_spec {} sequences) \<and>
   distinct (fst (accepts replay_window_accept \<lparr>rw_highest = None, rw_bitmap = 0\<rparr> sequences))"
  using replay_window.accepts_same [OF empty_window_rep, of sequences] window_spec_accepts [of "{}" sequences]
  by (simp add: empty_window_def)

subsection \<open>Sealing and opening in sequence\<close>

fun seal_all ::
  "'a peer_primitives_scheme \<Rightarrow> (bytes \<times> PeerRelayFlags) list \<Rightarrow> PeerFrameSealer
     \<Rightarrow> (bytes \<times> PeerRelayFrame) list \<times> PeerFrameSealer" where
  "seal_all c [] s = ([], s)"
| "seal_all c ((m, flags) # ms) s =
     (case seal c m flags s of
        (Inl _, s) \<Rightarrow> seal_all c ms s
      | (Inr f, s) \<Rightarrow> (let (fs, s) = seal_all c ms s in ((m, f) # fs, s)))"

fun open_all ::
  "'a peer_primitives_scheme \<Rightarrow> PeerRelayFrame list \<Rightarrow> PeerFrameOpener
     \<Rightarrow> (PeerRelayFrame \<times> bytes) list \<times> PeerFrameOpener" where
  "open_all c [] q = ([], q)"
| "open_all c (f # fs) q =
     (case open_frame c f q of
        (Inl _, q) \<Rightarrow> open_all c fs q
      | (Inr m, q) \<Rightarrow> (let (ms, q) = open_all c fs q in ((f, m) # ms, q)))"

lemma open_frame_Inl: "open_frame c f q = (Inl e, q') \<Longrightarrow> q' = q"
  by (auto simp: open_frame_def Let_def split: if_splits sum.splits option.splits)

lemma seal_Inl: "seal c m fl s = (Inl e, s') \<Longrightarrow> s' = s"
  by (auto simp: seal_def Let_def split: if_splits sum.splits option.splits)

lemma open_frame_Inr:
  assumes "open_frame c f q = (Inr m, q')"
  shows "prf_session_id f = po_session_id q" and "prf_channel_id f = po_channel_id q"
    and "po_mode q = Ordered \<Longrightarrow> \<not> po_finished q"
    and "\<exists>st. receive_sequence (po_state q) (prf_sequence f) = Inr st \<and>
      q' = q\<lparr>po_state := st, po_finished := po_finished q \<or> has_fin (prf_flags f)\<rparr>"
    and "chacha_decrypt c (po_key q) (frame_nonce (po_nonce_prefix q) (prf_sequence f))
      (frame_aad (po_context_hash q) (prf_session_id f) (prf_channel_id f) (prf_flags f) (prf_sequence f))
      (prf_ciphertext f) = Some m"
  using assms
  by (auto simp: open_frame_def Let_def validate_flag_transition_def split: if_splits sum.splits option.splits)

definition advance :: "PeerFrameSealer \<Rightarrow> PeerFrameSealer" where
  "advance s = (case checked_add (ps_next_sequence s) 1 of
      Some n \<Rightarrow> s\<lparr>ps_next_sequence := n\<rparr> | None \<Rightarrow> s\<lparr>ps_exhausted := True\<rparr>)"

lemma seal_Inr:
  assumes "seal c m fl s = (Inr f, s')"
  shows "\<not> ps_exhausted s" and "ps_mode s = Ordered \<Longrightarrow> \<not> ps_finished s" and "validate_frame_flags (ps_mode s) fl = Inr ()"
    and "prf_session_id f = ps_session_id s" and "prf_channel_id f = ps_channel_id s"
    and "prf_sequence f = ps_next_sequence s" and "prf_flags f = fl"
    and "chacha_encrypt c (ps_key s) (frame_nonce (ps_nonce_prefix s) (ps_next_sequence s))
      (frame_aad (ps_context_hash s) (ps_session_id s) (ps_channel_id s) fl (ps_next_sequence s)) m =
      Some (prf_ciphertext f)"
    and "s' = (advance s)\<lparr>ps_finished := ps_finished s \<or> has_fin fl\<rparr>"
    and "length m \<le> 65520"
  using assms
  by (auto simp: seal_def Let_def validate_flag_transition_def advance_def PeerRelayFrame_new_Inr_iff
      MAX_PEER_RELAY_CIPHERTEXT_BYTES_def AEAD_TAG_BYTES_def
      split: if_splits sum.splits option.splits)

lemma advance_keeps [simp]:
  "ps_session_id (advance s) = ps_session_id s" "ps_channel_id (advance s) = ps_channel_id s"
  "ps_context_hash (advance s) = ps_context_hash s" "ps_key (advance s) = ps_key s"
  "ps_mode (advance s) = ps_mode s" "ps_nonce_prefix (advance s) = ps_nonce_prefix s"
  "ps_finished (advance s) = ps_finished s"
  by (simp_all add: advance_def split: option.split)

text \<open>
  The sequence numbers a receiver accepts: for a stream the prefix of the natural numbers, for
  datagrams what the replay window lets through.
\<close>

lemma open_all_receives:
  "run receive_sequence (po_state q) (map (\<lambda>d. prf_sequence (fst d)) (fst (open_all c fs q))) =
     Inr (po_state (snd (open_all c fs q)))"
proof (induction fs arbitrary: q)
  case Nil
  then show ?case by simp
next
  case (Cons f fs)
  obtain r q' where st: "open_frame c f q = (r, q')" by force
  show ?case
  proof (cases r)
    case (Inl e)
    then show ?thesis using Cons st open_frame_Inl [OF st [unfolded Inl]] by simp
  next
    case (Inr m)
    obtain s where "receive_sequence (po_state q) (prf_sequence f) = Inr s" "po_state q' = s"
      using open_frame_Inr(4) [OF st [unfolded Inr]] by auto
    then show ?thesis using Cons.IH [of q'] st Inr by (auto simp: split_beta)
  qed
qed

lemma run_ordered:
  assumes "run receive_sequence (ReceiveOrdered n False) as = Inr t"
  shows "map unat as = [unat n ..< unat n + length as]"
  using assms
proof (induction as arbitrary: n)
  case Nil
  then show ?case by simp
next
  case (Cons a as)
  then obtain s where s: "receive_sequence (ReceiveOrdered n False) a = Inr s" "run receive_sequence s as = Inr t"
    by (auto simp: result_simps)
  have a: "a = n" using s(1) by (auto split: if_splits)
  show ?case
  proof (cases "checked_add n 1")
    case None
    then have "s = ReceiveOrdered n True" using s(1) a by simp
    then have "as = [] \<and> t = s" using s(2) by (cases as) (simp_all split: if_splits)
    then show ?thesis using a \<open>s = ReceiveOrdered n True\<close> by (auto simp: upt_rec)
  next
    case (Some k)
    then have "s = ReceiveOrdered k False" "unat k = Suc (unat n)"
      using s(1) a by (auto dest: checked_add_Some)
    then show ?thesis using Cons.IH [of k] s(2) a by (auto simp: upt_rec)
  qed
qed

lemma run_datagram:
  "run receive_sequence (ReceiveDatagram w) as = Inr t \<Longrightarrow> window_rep w seen \<Longrightarrow>
     distinct as \<and> (\<forall>a \<in> set as. unat a \<notin> seen)"
proof (induction as arbitrary: w seen)
  case (Cons a as)
  then obtain w' where w': "replay_window_accept w a = Inr w'" "run receive_sequence (ReceiveDatagram w') as = Inr t"
    by (auto simp: result_simps)
  obtain seen' where "window_spec seen a = Inr seen'"
    using replay_window.refuse [OF Cons.prems(2), of a] w'(1) by (cases "window_spec seen a") auto
  moreover from this have "seen' = insert (unat a) seen" "unat a \<notin> seen"
    by (auto simp: window_spec_def split: if_splits)
  moreover have "window_rep w' seen'"
    using replay_window.progress [OF Cons.prems(2) calculation(1)] w'(1) by auto
  ultimately show ?case using Cons.IH [OF w'(2)] by fastforce
qed simp

lemma open_all_ordered_fin:
  assumes "po_mode q = Ordered"
  shows "sorted_wrt (\<lambda>d d'. \<not> has_fin (prf_flags (fst d))) (fst (open_all c fs q)) \<and>
    (po_finished q \<longrightarrow> fst (open_all c fs q) = [])"
  using assms
proof (induction fs arbitrary: q)
  case (Cons f fs)
  obtain r q' where st: "open_frame c f q = (r, q')" by force
  show ?case
  proof (cases r)
    case (Inl e)
    then show ?thesis using Cons st open_frame_Inl [OF st [unfolded Inl]] by simp
  next
    case (Inr m)
    note o = open_frame_Inr [OF st [unfolded Inr]]
    have "po_mode q' = Ordered" "po_finished q' = (po_finished q \<or> has_fin (prf_flags f))" using o(4) Cons.prems by auto
    then show ?thesis using Cons.IH [of q'] o(3) Cons.prems st Inr by (auto simp: split_beta)
  qed
qed simp

lemma open_all_context:
  "(f, m) \<in> set (fst (open_all c fs q)) \<Longrightarrow>
     f \<in> set fs \<and> prf_session_id f = po_session_id q \<and> prf_channel_id f = po_channel_id q \<and>
     chacha_decrypt c (po_key q) (frame_nonce (po_nonce_prefix q) (prf_sequence f))
       (frame_aad (po_context_hash q) (po_session_id q) (po_channel_id q) (prf_flags f) (prf_sequence f))
       (prf_ciphertext f) = Some m"
proof (induction fs arbitrary: q)
  case (Cons g fs)
  obtain r q' where st: "open_frame c g q = (r, q')" by force
  show ?case
  proof (cases r)
    case (Inl e)
    then show ?thesis using Cons st open_frame_Inl [OF st [unfolded Inl]] by auto
  next
    case (Inr p)
    note o = open_frame_Inr [OF st [unfolded Inr]]
    obtain s where q': "q' = q\<lparr>po_state := s, po_finished := po_finished q \<or> has_fin (prf_flags g)\<rparr>"
      using o(4) by blast
    show ?thesis using Cons.IH [of q'] Cons.prems st Inr o(1,2,5) q' by (auto simp: split_beta)
  qed
qed simp

text \<open>
  C7 (no replay, no reordering, no truncation past the end): whatever frames an opener is fed, no
  sequence number is delivered twice; a stream delivers exactly the numbers \<open>0, 1, 2, \<dots>\<close> in order
  and nothing after its end-of-stream frame; and every delivered plaintext is the authenticated
  content of a frame of this very session and channel under that sequence number and those flags.
\<close>

theorem opener_delivers_once:
  assumes "PeerFrameOpener_new sid ch hash key mode prefix = Inr q" and "open_all c frames q = (delivered, q')"
  shows "distinct (map (\<lambda>d. prf_sequence (fst d)) delivered) \<and>
    (mode = Ordered \<longrightarrow>
       map (\<lambda>d. unat (prf_sequence (fst d))) delivered = [0 ..< length delivered] \<and>
       sorted_wrt (\<lambda>d d'. \<not> has_fin (prf_flags (fst d))) delivered) \<and>
    (\<forall>(f, m) \<in> set delivered. f \<in> set frames \<and> prf_session_id f = sid \<and> prf_channel_id f = ch \<and>
       chacha_decrypt c key (frame_nonce prefix (prf_sequence f))
         (frame_aad hash sid ch (prf_flags f) (prf_sequence f)) (prf_ciphertext f) = Some m)"
proof -
  let ?as = "map (\<lambda>d. prf_sequence (fst d)) delivered"
  have q: "po_session_id q = sid" "po_channel_id q = ch" "po_context_hash q = hash" "po_key q = key" "po_mode q = mode"
    "po_nonce_prefix q = prefix"
    "po_state q = (case mode of Ordered \<Rightarrow> ReceiveOrdered 0 False | Datagram \<Rightarrow> ReceiveDatagram empty_window)"
    using assms(1) by (auto simp: PeerFrameOpener_new_def result_simps empty_window_def split: FrameMode.split)
  have run: "run receive_sequence (po_state q) ?as = Inr (po_state q')"
    using open_all_receives [of q c frames] assms(2) by simp
  have ord: "map (\<lambda>d. unat (prf_sequence (fst d))) delivered = [0 ..< length delivered]" if "mode = Ordered"
    using run_ordered [of 0 ?as] run that q(7) by (simp add: o_def split_beta)
  have "distinct ?as"
  proof (cases mode)
    case Ordered
    then have "map unat ?as = [0 ..< length delivered]" using ord by (simp add: o_def split_beta)
    then have "distinct (map unat ?as)" by simp
    then show ?thesis using distinct_map [of unat ?as] by blast
  next
    case Datagram
    then show ?thesis using run_datagram [OF _ empty_window_rep] run q(7) by simp
  qed
  moreover have "sorted_wrt (\<lambda>d d'. \<not> has_fin (prf_flags (fst d))) delivered" if "mode = Ordered"
    using open_all_ordered_fin [of q c frames] assms(2) that q(5) by simp
  ultimately show ?thesis
    using ord open_all_context [of _ _ c frames q] assms(2) q by fastforce
qed

subsection \<open>Nonces\<close>

lemma seal_all_sequences:
  "map (\<lambda>d. unat (prf_sequence (snd d))) (fst (seal_all c ms s)) =
     [unat (ps_next_sequence s) ..< unat (ps_next_sequence s) + length (fst (seal_all c ms s))] \<and>
   (ps_exhausted s \<longrightarrow> fst (seal_all c ms s) = [])"
proof (induction ms arbitrary: s)
  case Nil
  then show ?case by simp
next
  case (Cons x ms)
  obtain m fl where x: "x = (m, fl)" by force
  obtain r s' where st: "seal c m fl s = (r, s')" by force
  show ?case
  proof (cases r)
    case (Inl e)
    then show ?thesis using Cons st x seal_Inl [OF st [unfolded Inl]] by simp
  next
    case (Inr f)
    note o = seal_Inr [OF st [unfolded Inr]]
    have "(unat (ps_next_sequence s') = Suc (unat (ps_next_sequence s)) \<or> ps_exhausted s')"
      unfolding o(9) by (auto simp: advance_def dest: checked_add_Some split: option.splits)
    then show ?thesis using Cons.IH [of s'] o(1,6) st x Inr
      by (auto simp: split_beta upt_conv_Cons simp del: upt_Suc)
  qed
qed

lemma nonce_prefix_length [simp]: "length (nonce_prefix mode role) = 4"
  by (simp add: nonce_prefix_def)

lemma frame_nonce_inj: "frame_nonce p a = frame_nonce p b \<longleftrightarrow> a = b"
  by (simp add: frame_nonce_def)

text \<open>
  Nonces: a sealer numbers its frames \<open>0, 1, 2, \<dots>\<close> without a gap, whatever calls fail in
  between, so no two frames of a sealer share a nonce; after the last of the \<open>2^64\<close> numbers it seals
  nothing more.
\<close>

theorem sealer_nonces_unique:
  assumes "PeerFrameSealer_new sid ch hash key mode prefix = Inr s" and "seal_all c messages s = (sent, s')"
  shows "map (\<lambda>d. unat (prf_sequence (snd d))) sent = [0 ..< length sent] \<and>
    distinct (map (\<lambda>d. frame_nonce prefix (prf_sequence (snd d))) sent) \<and> length sent \<le> 2 ^ 64"
proof -
  have "ps_next_sequence s = 0" using assms(1) by (auto simp: PeerFrameSealer_new_def result_simps)
  then have sq: "map (\<lambda>d. unat (prf_sequence (snd d))) sent = [0 ..< length sent]"
    using seal_all_sequences [of c messages s] assms(2) by simp
  have "distinct (map unat (map (\<lambda>d. prf_sequence (snd d)) sent))" using sq by (simp add: o_def)
  then have "distinct (map (\<lambda>d. prf_sequence (snd d)) sent)" using distinct_map by blast
  moreover have "inj (frame_nonce prefix)" by (auto simp: inj_def frame_nonce_inj)
  ultimately have "distinct (map (frame_nonce prefix) (map (\<lambda>d. prf_sequence (snd d)) sent))"
    by (simp only: distinct_map) (auto intro: inj_on_subset)
  moreover have "length sent \<le> 2 ^ 64"
  proof (rule ccontr)
    assume "\<not> length sent \<le> 2 ^ 64"
    then have "(2::nat) ^ 64 \<in> set (map (\<lambda>d. unat (prf_sequence (snd d))) sent)" using sq by simp
    then obtain w :: u64 where "unat w = 2 ^ 64" by auto
    then show False using unat_less_pow [of w] by simp
  qed
  ultimately show ?thesis using sq by (simp add: o_def)
qed

lemma frame_key_info_inj:
  assumes "length hash < 2 ^ 32" and "length (sid_as_bytes sid) < 2 ^ 32"
    and "FRAME_KEY_DOMAIN @ append_bytes hash @ append_bytes (sid_as_bytes sid) @ [frame_mode_tag m] @ append_u64 ch =
      FRAME_KEY_DOMAIN @ append_bytes hash @ append_bytes (sid_as_bytes sid) @ [frame_mode_tag m'] @ append_u64 ch'"
  shows "m = m' \<and> ch = ch'"
  using assms(3) by (cases m; cases m') (simp_all add: append_int_defs)

subsection \<open>The two ends agree\<close>

fun other_role :: "PeerRole \<Rightarrow> PeerRole" where
  "other_role Initiator = Responder"
| "other_role Responder = Initiator"

definition dh_commutes :: "'a peer_primitives_scheme \<Rightarrow> bool" where
  "dh_commutes c \<longleftrightarrow> (\<forall>a b. x25519_shared c a (x25519_public c b) = x25519_shared c b (x25519_public c a))"

definition tags_complete :: "'a peer_primitives_scheme \<Rightarrow> bool" where
  "tags_complete c \<longleftrightarrow> (\<forall>k n aad. chacha_check_tag c k n aad (chacha_tag c k n aad))"

definition aead_complete :: "'a peer_primitives_scheme \<Rightarrow> bool" where
  "aead_complete c \<longleftrightarrow>
     (\<forall>k n aad m. length m \<le> 65520 \<longrightarrow>
        (\<exists>ct. chacha_encrypt c k n aad m = Some ct \<and> length ct = length m + 16 \<and> chacha_decrypt c k n aad ct = Some m))"

lemma ephemeral_other: "peer_ephemeral t (other_role r) = local_ephemeral t r" "peer_ephemeral t r = local_ephemeral t (other_role r)"
  by (cases r; simp)+

lemma derive_agree:
  assumes "dh_commutes c" and "derive c r a t = Inr k" and "derive c (other_role r) b t = Inr k'"
  shows "k' = k\<lparr>sk_role := other_role r\<rparr>" and "sk_role k = r" and "sk_issued_sealers k = []" and "sk_issued_openers k = []"
proof -
  have "x25519_public c a = local_ephemeral t r" "x25519_public c b = local_ephemeral t (other_role r)"
    using assms(2,3) by (auto simp: derive_def split: if_splits)
  then have sh: "x25519_shared c b (peer_ephemeral t (other_role r)) = x25519_shared c a (peer_ephemeral t r)"
    using assms(1) unfolding dh_commutes_def ephemeral_other(1) ephemeral_other(2) [of t r] by metis
  show "k' = k\<lparr>sk_role := other_role r\<rparr>"
    using assms(2,3) by (auto simp: derive_def Let_def sh result_simps split: if_splits)
  show "sk_role k = r" "sk_issued_sealers k = []" "sk_issued_openers k = []"
    using assms(2) by (auto simp: derive_def Let_def result_simps split: if_splits)
qed

lemma keys_cross:
  "outgoing_handshake_key k = incoming_handshake_key (k\<lparr>sk_role := other_role (sk_role k)\<rparr>)"
  "outgoing_candidate_mac_key k = incoming_candidate_mac_key (k\<lparr>sk_role := other_role (sk_role k)\<rparr>)"
  "outgoing_stream_key k = incoming_stream_key (k\<lparr>sk_role := other_role (sk_role k)\<rparr>)"
  "outgoing_datagram_key k = incoming_datagram_key (k\<lparr>sk_role := other_role (sk_role k)\<rparr>)"
  "outgoing_direction k = incoming_direction (k\<lparr>sk_role := other_role (sk_role k)\<rparr>)"
  by (cases "sk_role k";
      simp add: outgoing_handshake_key_def incoming_handshake_key_def outgoing_candidate_mac_key_def
        incoming_candidate_mac_key_def outgoing_stream_key_def incoming_stream_key_def outgoing_datagram_key_def
        incoming_datagram_key_def outgoing_direction_def incoming_direction_def)+

definition toy_peer :: peer_primitives where
  "toy_peer = primitives.extend toy_primitives
     (peer_primitives.fields (\<lambda>a. a) (map2 (+)) (\<lambda>_. True) (\<lambda>salt ikm. ikm) Some (\<lambda>prk info. Some prk)
        (\<lambda>k m. k) (\<lambda>k n aad m. Some (m @ replicate 16 0)) (\<lambda>k n aad ct. Some (take (length ct - 16) ct))
        (\<lambda>k n aad. replicate 16 0) (\<lambda>k n aad tag. tag = replicate 16 0))"

lemmas toy_peer_defs = toy_peer_def primitives.defs peer_primitives.defs toy_primitives_def

lemma toy_dh: "dh_commutes toy_peer"
proof -
  have "map2 (+) a b = map2 (+) b (a :: bytes)" for a b
    by (rule nth_equalityI) (auto simp: add.commute)
  then show ?thesis by (simp add: dh_commutes_def toy_peer_defs)
qed

lemma toy_tags: "tags_complete toy_peer"
  by (simp add: tags_complete_def toy_peer_defs)

lemma toy_aead: "aead_complete toy_peer"
  by (simp add: aead_complete_def toy_peer_defs)

definition sample_transcript :: PeerTranscript where
  "sample_transcript = PeerTranscript_new (SessionId (replicate 32 5)) CandidateGeneration_INITIAL
     (DevicePublicKey (replicate 32 7)) (DevicePublicKey (replicate 32 8)) (replicate 32 1) (replicate 32 2) ''web'' V0_6
     (replicate 32 3)"

definition sample_keys :: "PeerRole \<Rightarrow> PeerSessionKeys" where
  "sample_keys r = \<lparr>sk_role = r, sk_session_id = SessionId (replicate 32 5),
     sk_context_hash = take 32 (pt_encoded sample_transcript @ replicate 32 0),
     sk_handshake_i2r = replicate 32 3, sk_handshake_r2i = replicate 32 3, sk_candidate_mac_i2r = replicate 32 3,
     sk_candidate_mac_r2i = replicate 32 3, sk_stream_i2r = replicate 32 3, sk_stream_r2i = replicate 32 3,
     sk_datagram_i2r = replicate 32 3, sk_datagram_r2i = replicate 32 3, sk_issued_sealers = [], sk_issued_openers = []\<rparr>"

lemma sample_transcript_fields:
  "pt_session_id sample_transcript = SessionId (replicate 32 5)"
  "pt_initiator_ephemeral sample_transcript = replicate 32 1" "pt_responder_ephemeral sample_transcript = replicate 32 2"
  by (simp_all add: sample_transcript_def PeerTranscript_new_def)

lemma sample_derive:
  "derive toy_peer Initiator (replicate 32 1) sample_transcript = Inr (sample_keys Initiator)"
  "derive toy_peer Responder (replicate 32 2) sample_transcript = Inr (sample_keys Responder)"
proof -
  have "map2 (+) (replicate 32 1) (replicate 32 (2 :: u8)) = replicate 32 3"
    "map2 (+) (replicate 32 2) (replicate 32 (1 :: u8)) = replicate 32 3"
    by (simp_all add: zip_replicate)
  then show "derive toy_peer Initiator (replicate 32 1) sample_transcript = Inr (sample_keys Initiator)"
    "derive toy_peer Responder (replicate 32 2) sample_transcript = Inr (sample_keys Responder)"
    by (simp_all add: derive_def sample_transcript_fields sample_keys_def expand_key_def toy_peer_defs Let_def)
qed

text \<open>
  Key confirmation: two peers that derive their keys from the same transcript, one as initiator
  and one as responder, accept each other's handshake tag and candidate confirmation for every
  transport binding.
\<close>

theorem peers_confirm:
  assumes "dh_commutes c" and "tags_complete c" and "derive c r a t = Inr k" and "derive c (other_role r) b t = Inr k'"
  shows "verify_handshake_tag c k' binding (handshake_tag c k binding) = Inr () \<and>
    verify_candidate_confirmation c k' binding (candidate_confirmation c k binding) = Inr ()"
  using derive_agree(1,2) [OF assms(1,3,4)] keys_cross(1,2) [of k] assms(2)
  by (simp add: verify_handshake_tag_def handshake_tag_def verify_candidate_confirmation_def
      candidate_confirmation_def candidate_hmac_def tags_complete_def)

theorem peers_confirm_witness:
  "verify_handshake_tag toy_peer (sample_keys Responder) [9] (handshake_tag toy_peer (sample_keys Initiator) [9]) = Inr () \<and>
   verify_candidate_confirmation toy_peer (sample_keys Responder) [9] (candidate_confirmation toy_peer (sample_keys Initiator) [9]) = Inr ()"
  using peers_confirm [OF toy_dh toy_tags sample_derive(1), of "replicate 32 2" "sample_keys Responder"] sample_derive(2) by simp

definition paired :: "PeerFrameSealer \<Rightarrow> PeerFrameOpener \<Rightarrow> bool" where
  "paired s q \<longleftrightarrow>
     po_session_id q = ps_session_id s \<and> po_channel_id q = ps_channel_id s \<and> po_context_hash q = ps_context_hash s \<and>
     po_key q = ps_key s \<and> po_mode q = ps_mode s \<and> po_nonce_prefix q = ps_nonce_prefix s \<and>
     po_finished q = ps_finished s \<and>
     (case ps_mode s of
        Ordered \<Rightarrow> po_state q = ReceiveOrdered (ps_next_sequence s) (ps_exhausted s)
      | Datagram \<Rightarrow> \<exists>w. po_state q = ReceiveDatagram w \<and>
          (ps_exhausted s \<or> (case rw_highest w of None \<Rightarrow> True | Some h \<Rightarrow> h < ps_next_sequence s)))"

lemma paired_receive:
  assumes "paired s q" and "\<not> ps_exhausted s"
  shows "\<exists>st. receive_sequence (po_state q) (ps_next_sequence s) = Inr st \<and>
    paired ((advance s)\<lparr>ps_finished := b\<rparr>) (q\<lparr>po_state := st, po_finished := b\<rparr>)"
proof (cases "ps_mode s")
  case Ordered
  then show ?thesis using assms
    by (auto simp: paired_def advance_def split: option.split)
next
  case Datagram
  then obtain w where w: "po_state q = ReceiveDatagram w" "case rw_highest w of None \<Rightarrow> True | Some h \<Rightarrow> h < ps_next_sequence s"
    using assms by (auto simp: paired_def)
  obtain w' where w': "replay_window_accept w (ps_next_sequence s) = Inr w'" "rw_highest w' = Some (ps_next_sequence s)"
    using w(2) by (auto simp: replay_window_accept_def Let_def split: option.splits)
  have "ps_exhausted (advance s) \<or> ps_next_sequence s < ps_next_sequence (advance s)"
    by (auto simp: advance_def word_less_nat_alt dest: checked_add_Some split: option.splits)
  then show ?thesis
    using assms(1) Datagram w(1) w' by (auto simp: paired_def)
qed

lemma paired_step:
  assumes "aead_complete c" and "paired s q" and "seal c m fl s = (Inr f, s')"
  shows "\<exists>q'. open_frame c f q = (Inr m, q') \<and> paired s' q'"
proof -
  note o = seal_Inr [OF assms(3)]
  obtain st where st: "receive_sequence (po_state q) (ps_next_sequence s) = Inr st"
    "paired ((advance s)\<lparr>ps_finished := ps_finished s \<or> has_fin fl\<rparr>) (q\<lparr>po_state := st, po_finished := ps_finished s \<or> has_fin fl\<rparr>)"
    using paired_receive [OF assms(2) o(1)] by blast
  have dec: "chacha_decrypt c (ps_key s) (frame_nonce (ps_nonce_prefix s) (ps_next_sequence s))
      (frame_aad (ps_context_hash s) (ps_session_id s) (ps_channel_id s) fl (ps_next_sequence s)) (prf_ciphertext f) = Some m"
    using assms(1) o(8,10) unfolding aead_complete_def by (metis option.inject)
  have "validate_flag_transition (ps_mode s) (ps_finished s) = Inr ()"
    using o(2) by (auto simp: validate_flag_transition_def)
  then have "open_frame c f q = (Inr m, q\<lparr>po_state := st, po_finished := ps_finished s \<or> has_fin fl\<rparr>)"
    using assms(2) o(3-7) st(1) dec by (simp add: open_frame_def paired_def)
  then show ?thesis using st(2) o(9) by simp
qed

lemma paired_delivery:
  assumes "aead_complete c" and "paired s q"
  shows "map snd (fst (open_all c (map snd (fst (seal_all c ms s))) q)) = map fst (fst (seal_all c ms s))"
  using assms(2)
proof (induction ms arbitrary: s q)
  case (Cons x ms)
  obtain m fl where x: "x = (m, fl)" by force
  obtain r s' where st: "seal c m fl s = (r, s')" by force
  show ?case
  proof (cases r)
    case (Inl e)
    then show ?thesis using Cons st x seal_Inl [OF st [unfolded Inl]] by simp
  next
    case (Inr f)
    obtain q' where "open_frame c f q = (Inr m, q')" "paired s' q'"
      using paired_step [OF assms(1) Cons.prems st [unfolded Inr]] by blast
    then show ?thesis using Cons.IH st x Inr by (simp add: split_beta)
  qed
qed simp

lemma seal_succeeds:
  assumes "aead_complete c" and "length m \<le> 65520" and "validate_frame_flags (ps_mode s) fl = Inr ()"
    and "\<not> ps_finished s" and "\<not> ps_exhausted s" and "ps_channel_id s \<noteq> 0"
  shows "\<exists>f. seal c m fl s = (Inr f, (advance s)\<lparr>ps_finished := has_fin fl\<rparr>)"
proof -
  let ?n = "frame_nonce (ps_nonce_prefix s) (ps_next_sequence s)"
  let ?a = "frame_aad (ps_context_hash s) (ps_session_id s) (ps_channel_id s) fl (ps_next_sequence s)"
  obtain ct where "chacha_encrypt c (ps_key s) ?n ?a m = Some ct" "length ct = length m + 16"
    using assms(1,2) unfolding aead_complete_def by blast
  moreover obtain f where "PeerRelayFrame_new (ps_session_id s) (ps_channel_id s) (ps_next_sequence s) fl ct = Inr f"
    using calculation(2) assms(2,6) by (simp add: PeerRelayFrame_new_Inr_iff MAX_PEER_RELAY_CIPHERTEXT_BYTES_def)
  ultimately show ?thesis
    using assms by (simp add: seal_def Let_def validate_flag_transition_def advance_def
        MAX_PEER_RELAY_CIPHERTEXT_BYTES_def AEAD_TAG_BYTES_def split: option.split)
qed

lemma seal_all_succeeds:
  assumes "aead_complete c" and "list_all (\<lambda>m. length m \<le> 65520) ms"
    and "validate_frame_flags (ps_mode s) fl = Inr ()" and "\<not> has_fin fl"
    and "\<not> ps_finished s" and "\<not> ps_exhausted s" and "ps_channel_id s \<noteq> 0"
    and "unat (ps_next_sequence s) + length ms < 2 ^ 64"
  shows "map fst (fst (seal_all c (map (\<lambda>m. (m, fl)) ms) s)) = ms"
  using assms(2-)
proof (induction ms arbitrary: s)
  case (Cons m ms)
  obtain f where f: "seal c m fl s = (Inr f, (advance s)\<lparr>ps_finished := has_fin fl\<rparr>)"
    using seal_succeeds [OF assms(1)] Cons.prems by fastforce
  obtain n where n: "checked_add (ps_next_sequence s) 1 = Some n"
    using Cons.prems(7) by (auto simp: checked_add_def)
  then have "unat n = Suc (unat (ps_next_sequence s))" by (auto dest: checked_add_Some)
  then show ?case using Cons.IH [of "s\<lparr>ps_next_sequence := n, ps_finished := False\<rparr>"] Cons.prems f n
    by (simp add: split_beta advance_def)
qed simp

lemmas channel_defs = issue_sealer_def issue_opener_def issue_domain_def validate_channel_id_def
  stream_sealer_def stream_opener_def datagram_sealer_def datagram_opener_def
  PeerFrameSealer_new_def PeerFrameOpener_new_def

lemma issued_irrelevant [simp]:
  "outgoing_stream_key (k\<lparr>sk_issued_sealers := x\<rparr>) = outgoing_stream_key k"
  "incoming_stream_key (k\<lparr>sk_issued_openers := x\<rparr>) = incoming_stream_key k"
  "outgoing_datagram_key (k\<lparr>sk_issued_sealers := x\<rparr>) = outgoing_datagram_key k"
  "incoming_datagram_key (k\<lparr>sk_issued_openers := x\<rparr>) = incoming_datagram_key k"
  "outgoing_direction (k\<lparr>sk_issued_sealers := x\<rparr>) = outgoing_direction k"
  "incoming_direction (k\<lparr>sk_issued_openers := x\<rparr>) = incoming_direction k"
  by (simp_all add: outgoing_stream_key_def incoming_stream_key_def outgoing_datagram_key_def incoming_datagram_key_def
      outgoing_direction_def incoming_direction_def split: PeerRole.split)

lemma stream_sealer_Inr:
  assumes "stream_sealer c ch k = (Inr s, k1)"
  shows "ch \<noteq> 0 \<and> (\<exists>key. derive_frame_key c (outgoing_stream_key k) (sk_context_hash k) (sk_session_id k) Ordered ch = Inr key \<and>
      s = \<lparr>ps_session_id = sk_session_id k, ps_channel_id = ch, ps_context_hash = sk_context_hash k, ps_key = key,
         ps_mode = Ordered, ps_nonce_prefix = nonce_prefix Ordered (outgoing_direction k), ps_next_sequence = 0,
         ps_exhausted = False, ps_finished = False\<rparr>)"
  using assms
  by (auto simp: channel_defs Let_def result_simps split: if_splits)

lemma stream_opener_Inr:
  assumes "stream_opener c ch k = (Inr s, k1)"
  shows "ch \<noteq> 0 \<and> (\<exists>key. derive_frame_key c (incoming_stream_key k) (sk_context_hash k) (sk_session_id k) Ordered ch = Inr key \<and>
      s = \<lparr>po_session_id = sk_session_id k, po_channel_id = ch, po_context_hash = sk_context_hash k, po_key = key,
         po_mode = Ordered, po_nonce_prefix = nonce_prefix Ordered (incoming_direction k), po_state = ReceiveOrdered 0 False,
         po_finished = False\<rparr>)"
  using assms
  by (auto simp: channel_defs Let_def result_simps split: if_splits)

lemma datagram_sealer_Inr:
  assumes "datagram_sealer c ch k = (Inr s, k1)"
  shows "ch \<noteq> 0 \<and> (\<exists>key. derive_frame_key c (outgoing_datagram_key k) (sk_context_hash k) (sk_session_id k) Datagram ch = Inr key \<and>
      s = \<lparr>ps_session_id = sk_session_id k, ps_channel_id = ch, ps_context_hash = sk_context_hash k, ps_key = key,
         ps_mode = Datagram, ps_nonce_prefix = nonce_prefix Datagram (outgoing_direction k), ps_next_sequence = 0,
         ps_exhausted = False, ps_finished = False\<rparr>)"
  using assms
  by (auto simp: channel_defs Let_def result_simps split: if_splits)

lemma datagram_opener_Inr:
  assumes "datagram_opener c ch k = (Inr s, k1)"
  shows "ch \<noteq> 0 \<and> (\<exists>key. derive_frame_key c (incoming_datagram_key k) (sk_context_hash k) (sk_session_id k) Datagram ch = Inr key \<and>
      s = \<lparr>po_session_id = sk_session_id k, po_channel_id = ch, po_context_hash = sk_context_hash k, po_key = key,
         po_mode = Datagram, po_nonce_prefix = nonce_prefix Datagram (incoming_direction k), po_state = ReceiveDatagram \<lparr>rw_highest = None, rw_bitmap = 0\<rparr>,
         po_finished = False\<rparr>)"
  using assms
  by (auto simp: channel_defs Let_def result_simps split: if_splits)

lemma fresh_pair:
  assumes "dh_commutes c" and "derive c r a t = Inr k" and "derive c (other_role r) b t = Inr k'"
    and "stream_sealer c ch k = (Inr s, k1) \<and> stream_opener c ch k' = (Inr q, k1') \<and> mode = Ordered \<or>
      datagram_sealer c ch k = (Inr s, k1) \<and> datagram_opener c ch k' = (Inr q, k1') \<and> mode = Datagram"
  shows "paired s q \<and> ps_mode s = mode \<and> \<not> ps_finished s \<and> \<not> ps_exhausted s \<and> ps_channel_id s \<noteq> 0 \<and> ps_next_sequence s = 0"
proof -
  note d = derive_agree [OF assms(1-3)]
  have kc: "incoming_stream_key k' = outgoing_stream_key k" "incoming_datagram_key k' = outgoing_datagram_key k"
    "incoming_direction k' = outgoing_direction k" "sk_context_hash k' = sk_context_hash k" "sk_session_id k' = sk_session_id k"
    using keys_cross [of k, unfolded d(2)] d(1) by simp_all
  show ?thesis
    using assms(4) stream_sealer_Inr stream_opener_Inr [of c ch k' q k1'] datagram_sealer_Inr datagram_opener_Inr [of c ch k' q k1']
    unfolding kc by (fastforce simp: paired_def)
qed

lemma relay_flag_facts:
  "validate_frame_flags Ordered PeerRelayFlags_RELIABLE = Inr ()" "\<not> has_fin PeerRelayFlags_RELIABLE"
  "validate_frame_flags Datagram PeerRelayFlags_DATAGRAM = Inr ()" "\<not> has_fin PeerRelayFlags_DATAGRAM"
  by (simp_all add: validate_frame_flags_def has_fin_def PeerRelayFlags_RELIABLE_def PeerRelayFlags_DATAGRAM_def PeerRelayFlags_FIN_def)

text \<open>
  C12 (a peer channel delivers): over every channel the two ends of a session open, stream or
  datagram, fewer than \<open>2^64\<close> messages of at most 65520 bytes are all sealed and, delivered in the
  order sent, all opened to the messages that went in.
\<close>

theorem peer_channel_delivers:
  assumes "dh_commutes c" and "aead_complete c"
    and "derive c r a t = Inr k" and "derive c (other_role r) b t = Inr k'"
    and "stream_sealer c ch k = (Inr s, k1) \<and> stream_opener c ch k' = (Inr q, k1') \<and> flags = PeerRelayFlags_RELIABLE \<or>
      datagram_sealer c ch k = (Inr s, k1) \<and> datagram_opener c ch k' = (Inr q, k1') \<and> flags = PeerRelayFlags_DATAGRAM"
    and "list_all (\<lambda>m. length m \<le> 65520) messages" and "length messages < 2 ^ 64"
  shows "let sent = fst (seal_all c (map (\<lambda>m. (m, flags)) messages) s) in
    map fst sent = messages \<and> map snd (fst (open_all c (map snd sent) q)) = messages"
proof -
  obtain mode where "stream_sealer c ch k = (Inr s, k1) \<and> stream_opener c ch k' = (Inr q, k1') \<and> mode = Ordered \<or>
      datagram_sealer c ch k = (Inr s, k1) \<and> datagram_opener c ch k' = (Inr q, k1') \<and> mode = Datagram"
    and v: "validate_frame_flags mode flags = Inr ()" and nf: "\<not> has_fin flags"
    using assms(5) relay_flag_facts by blast
  note p = fresh_pair [OF assms(1,3,4) this(1)]
  have "map fst (fst (seal_all c (map (\<lambda>m. (m, flags)) messages) s)) = messages"
    using seal_all_succeeds [OF assms(2,6)] p v nf assms(7) by simp
  then show ?thesis
    using paired_delivery [OF assms(2)] p by (simp add: Let_def)
qed

definition sample_sealer :: PeerFrameSealer where
  "sample_sealer = \<lparr>ps_session_id = SessionId (replicate 32 5), ps_channel_id = 4,
     ps_context_hash = sk_context_hash (sample_keys Initiator), ps_key = replicate 32 3, ps_mode = Ordered,
     ps_nonce_prefix = nonce_prefix Ordered Initiator, ps_next_sequence = 0, ps_exhausted = False, ps_finished = False\<rparr>"

definition sample_opener :: PeerFrameOpener where
  "sample_opener = \<lparr>po_session_id = SessionId (replicate 32 5), po_channel_id = 4,
     po_context_hash = sk_context_hash (sample_keys Initiator), po_key = replicate 32 3, po_mode = Ordered,
     po_nonce_prefix = nonce_prefix Ordered Initiator, po_state = ReceiveOrdered 0 False, po_finished = False\<rparr>"

lemma sample_channel:
  "\<exists>k1. stream_sealer toy_peer 4 (sample_keys Initiator) = (Inr sample_sealer, k1)"
  "\<exists>k1. stream_opener toy_peer 4 (sample_keys Responder) = (Inr sample_opener, k1)"
  by (simp_all add: channel_defs sample_keys_def derive_frame_key_def expand_key_def toy_peer_defs Let_def sample_sealer_def
      sample_opener_def outgoing_stream_key_def incoming_stream_key_def outgoing_direction_def incoming_direction_def)

theorem peer_channel_delivers_witness:
  "map snd (fst (open_all toy_peer (map snd (fst (seal_all toy_peer
      (map (\<lambda>m. (m, PeerRelayFlags_RELIABLE)) [[1, 2], [], [3]]) sample_sealer))) sample_opener)) = [[1, 2], [], [3]]"
proof -
  obtain k1 where s: "stream_sealer toy_peer 4 (sample_keys Initiator) = (Inr sample_sealer, k1)" using sample_channel(1) by blast
  obtain k2 where q: "stream_opener toy_peer 4 (sample_keys Responder) = (Inr sample_opener, k2)" using sample_channel(2) by blast
  show ?thesis
    using peer_channel_delivers [OF toy_dh toy_aead sample_derive(1), of "replicate 32 2" "sample_keys Responder" 4
        sample_sealer k1 sample_opener k2 PeerRelayFlags_RELIABLE "[[1, 2], [], [3]]"] s q sample_derive(2)
    by (simp add: Let_def)
qed

lemma sample_sealer_new:
  "PeerFrameSealer_new (SessionId (replicate 32 5)) 4 (sk_context_hash (sample_keys Initiator)) (replicate 32 3) Ordered
     (nonce_prefix Ordered Initiator) = Inr sample_sealer"
  "PeerFrameOpener_new (SessionId (replicate 32 5)) 4 (sk_context_hash (sample_keys Initiator)) (replicate 32 3) Ordered
     (nonce_prefix Ordered Initiator) = Inr sample_opener"
  by (simp_all add: PeerFrameSealer_new_def PeerFrameOpener_new_def validate_channel_id_def sample_sealer_def sample_opener_def)

theorem sealer_nonces_unique_witness:
  "distinct (map (\<lambda>d. frame_nonce (nonce_prefix Ordered Initiator) (prf_sequence (snd d)))
     (fst (seal_all toy_peer (map (\<lambda>m. (m, PeerRelayFlags_RELIABLE)) [[1, 2], [], [3]]) sample_sealer)))"
  using sealer_nonces_unique [OF sample_sealer_new(1) prod.collapse [symmetric]] by blast

definition sample_frame :: "u64 \<Rightarrow> PeerRelayFrame" where
  "sample_frame n = \<lparr>prf_session_id = SessionId (replicate 32 5), prf_channel_id = 4, prf_sequence = n,
     prf_flags = PeerRelayFlags_RELIABLE, prf_ciphertext_len = 17, prf_ciphertext = 1 # replicate 16 0\<rparr>"

theorem opener_delivers_once_witness:
  "let delivered = fst (open_all toy_peer [sample_frame 0, sample_frame 0, sample_frame 2, sample_frame 1] sample_opener) in
     distinct (map (\<lambda>d. prf_sequence (fst d)) delivered) \<and>
     map (\<lambda>d. unat (prf_sequence (fst d))) delivered = [0 ..< length delivered]"
  using opener_delivers_once [OF sample_sealer_new(2) prod.collapse [symmetric]] unfolding Let_def by blast

end
