(* ===== verification/Sweep_Ring.thy ===== *)
theory Sweep_Ring
  imports Hash_Map
begin

text \<open>
  The doubly linked list that the UDP relays thread through the entries of a hash map, to find idle
  sessions a few at a time. \<open>links\<close> gives the neighbours of each entry, \<open>ring links head tail xs\<close> says
  that following them from the head visits exactly \<open>xs\<close> and that the map has no other entry. The
  lemmas say what appending, unlinking and rotating do to the list of entries, so that the tables of
  the server and of the client are queues as far as their users can tell.
\<close>

definition head_opt :: "'a list \<Rightarrow> 'a option" where
  "head_opt xs = (case xs of [] \<Rightarrow> None | x # _ \<Rightarrow> Some x)"

definition last_opt :: "'a list \<Rightarrow> 'a option" where
  "last_opt xs = (if xs = [] then None else Some (last xs))"

lemma head_opt_simps [simp]:
  "head_opt [] = None" "head_opt (x # xs) = Some x" "head_opt xs = None \<longleftrightarrow> xs = []"
  "head_opt xs = Some y \<longleftrightarrow> (\<exists>ys. xs = y # ys)"
  by (cases xs; auto simp: head_opt_def)+

lemma last_opt_simps [simp]:
  "last_opt [] = None" "last_opt (xs @ [x]) = Some x" "last_opt xs = None \<longleftrightarrow> xs = []"
  "last_opt xs = Some y \<longleftrightarrow> (\<exists>ys. xs = ys @ [y])"
  by (auto simp: last_opt_def) (metis append_butlast_last_id)

lemma opt_end_sym [simp]:
  "None = head_opt xs \<longleftrightarrow> xs = []" "Some y = head_opt xs \<longleftrightarrow> (\<exists>ys. xs = y # ys)"
  "None = last_opt xs \<longleftrightarrow> xs = []" "Some y = last_opt xs \<longleftrightarrow> (\<exists>ys. xs = ys @ [y])"
  by (simp_all add: eq_commute [of "None"] eq_commute [of "Some y"])

lemma last_opt_Cons [simp]: "last_opt (x # ys) = (if ys = [] then Some x else last_opt ys)"
  by (simp add: last_opt_def)

lemma head_opt_append: "head_opt (xs @ ys) = (if xs = [] then head_opt ys else head_opt xs)"
  by (cases xs) auto

lemma last_opt_append: "last_opt (xs @ ys) = (if ys = [] then last_opt xs else last_opt ys)"
  by (simp add: last_opt_def)

type_synonym 'a links = "'a \<Rightarrow> ('a option \<times> 'a option) option"

fun segment :: "'a links \<Rightarrow> 'a option \<Rightarrow> 'a list \<Rightarrow> 'a option \<Rightarrow> bool" where
  "segment L p [] n = True"
| "segment L p (x # xs) n \<longleftrightarrow>
     L x = Some (p, if xs = [] then n else head_opt xs) \<and> segment L (Some x) xs n"

lemma segment_append:
  "segment L p (xs @ ys) n \<longleftrightarrow>
     segment L p xs (if ys = [] then n else head_opt ys) \<and> segment L (if xs = [] then p else last_opt xs) ys n"
proof (induction xs arbitrary: p)
  case (Cons x xs)
  then show ?case by (cases xs) (auto simp: head_opt_append)
qed simp

lemma segment_update [simp]: "x \<notin> set xs \<Longrightarrow> segment (L(x := v)) p xs n = segment L p xs n"
  by (induction xs arbitrary: p) auto

definition ring :: "'a links \<Rightarrow> 'a option \<Rightarrow> 'a option \<Rightarrow> 'a list \<Rightarrow> bool" where
  "ring L h t xs \<longleftrightarrow> distinct xs \<and> dom L = set xs \<and> segment L None xs None \<and> h = head_opt xs \<and> t = last_opt xs"

lemma ring_empty [simp]: "ring (\<lambda>_. None) None None []"
  by (simp add: ring_def)

lemma ring_in: "ring L h t xs \<Longrightarrow> x \<in> set xs \<longleftrightarrow> L x \<noteq> None"
  unfolding ring_def by blast

lemma ring_split:
  assumes "ring L h t xs" and "x \<in> set xs"
  obtains a b where "xs = a @ x # b" "x \<notin> set a" "x \<notin> set b" "L x = Some (last_opt a, head_opt b)"
proof -
  obtain a b where ab: "xs = a @ x # b" "x \<notin> set a" using assms(2) by (auto dest: split_list_first)
  moreover have "x \<notin> set b" using assms(1) ab by (auto simp: ring_def)
  moreover have "L x = Some (last_opt a, head_opt b)"
    using assms(1) ab by (auto simp: ring_def segment_append split: if_splits)
  ultimately show ?thesis using that by blast
qed

text \<open>A new entry behind the tail.\<close>

lemma ring_push_back:
  assumes "ring L h None xs" and "L x = None"
  shows "ring (L(x \<mapsto> (None, None))) (Some x) (Some x) [x]"
  using assms by (auto simp: ring_def)

lemma ring_push_back_after:
  assumes "ring L h (Some u) xs" and "L x = None" and "L u = Some (p, n)"
  shows "ring (L(x \<mapsto> (Some u, None), u \<mapsto> (p, Some x))) h (Some x) (xs @ [x])"
proof -
  obtain a where xs: "xs = a @ [u]" using assms(1) by (auto simp: ring_def)
  have d: "distinct (a @ [u])" "dom L = set (a @ [u])" "segment L None (a @ [u]) None" "h = head_opt (a @ [u])"
    using assms(1) by (auto simp: ring_def xs)
  have "x \<noteq> u" "x \<notin> set a" using assms(2,3) d(2) by auto
  moreover have "L u = Some (last_opt a, None)" "segment L None a (Some u)"
    using d(3) by (auto simp: segment_append split: if_splits)
  ultimately show ?thesis
    using d assms(3) by (auto simp: ring_def xs segment_append head_opt_append last_opt_append)
qed

text \<open>Unlinking: the neighbours are joined, or the ends move.\<close>

definition unlink :: "'a \<Rightarrow> 'a links \<Rightarrow> 'a links" where
  "unlink x L =
     (case L x of
        None \<Rightarrow> L
      | Some (p, n) \<Rightarrow>
          let L1 = L(x := None);
              L2 = (case p of None \<Rightarrow> L1
                | Some u \<Rightarrow> (case L1 u of None \<Rightarrow> L1 | Some (pu, _) \<Rightarrow> L1(u \<mapsto> (pu, n))))
          in (case n of None \<Rightarrow> L2
                | Some v \<Rightarrow> (case L2 v of None \<Rightarrow> L2 | Some (_, nv) \<Rightarrow> L2(v \<mapsto> (p, nv)))))"

lemma segment_unlink:
  assumes "distinct (a @ x # b)" and "segment L None (a @ x # b) None"
  shows "segment (unlink x L) None (a @ b) None"
proof -
  have Lx: "L x = Some (last_opt a, head_opt b)"
    and sa: "segment L None a (Some x)" and sb: "segment L (Some x) b None"
    using assms(2) by (auto simp: segment_append split: if_splits)
  let ?L1 = "L(x := None)"
  have x: "x \<notin> set a" "x \<notin> set b" using assms(1) by auto
  show ?thesis
  proof (cases a rule: rev_cases)
    case Nil
    show ?thesis
    proof (cases b)
      case (Cons v b')
      then show ?thesis using Nil sb x Lx assms(1) by (auto simp: unlink_def Let_def)
    qed (simp add: Nil)
  next
    case (snoc a' u)
    have u: "L u = Some (last_opt a', Some x)" "segment L None a' (Some u)" "u \<noteq> x" "u \<notin> set a'" "u \<notin> set b"
      using snoc sa x assms(1) by (auto simp: segment_append split: if_splits)
    show ?thesis
    proof (cases b)
      case Nil
      then show ?thesis using snoc u x Lx by (auto simp: unlink_def Let_def segment_append)
    next
      case (Cons v b')
      have v: "L v = Some (Some x, head_opt b')" "segment L (Some v) b' None" "v \<notin> set b'" "v \<notin> set a'" "v \<noteq> u" "v \<noteq> x"
        using Cons sb x assms(1) snoc by (auto split: if_splits)
      have "unlink x L = L(x := None, u \<mapsto> (last_opt a', Some v), v \<mapsto> (Some u, head_opt b'))"
        using snoc Cons u v Lx by (simp add: unlink_def Let_def)
      then show ?thesis
        using snoc Cons u v x assms(1) by (auto simp: segment_append)
    qed
  qed
qed

lemma dom_unlink: "L x = Some (p, n) \<Longrightarrow> dom (unlink x L) = dom L - {x}"
  by (auto simp: unlink_def Let_def split: option.splits if_splits)

lemma ring_unlink:
  assumes "ring L h t (a @ x # b)"
  shows "ring (unlink x L) (if a = [] then head_opt b else h) (if b = [] then last_opt a else t) (a @ b)"
proof -
  have d: "distinct (a @ x # b)" and s: "segment L None (a @ x # b) None" and D: "dom L = set (a @ x # b)"
    using assms by (auto simp: ring_def)
  have "L x = Some (last_opt a, head_opt b)" using s by (auto simp: segment_append split: if_splits)
  from dom_unlink [of L x, OF this] segment_unlink [OF d s] assms d D show ?thesis
    by (auto simp: ring_def head_opt_append last_opt_append)
qed

text \<open>Rotating the head behind the tail.\<close>

lemma ring_rotate:
  assumes "ring L h t (x # y # ys)" and "L y = Some (py, ny)" and "t = Some z"
    and "(L(y \<mapsto> (None, ny))) z = Some (pz, nz)"
  shows "ring (L(y \<mapsto> (None, ny), z \<mapsto> (pz, Some x), x \<mapsto> (Some z, None))) (Some y) (Some x) (y # ys @ [x])"
proof -
  have d: "distinct (x # y # ys)" and D: "dom L = set (x # y # ys)"
    and Ly: "L y = Some (Some x, head_opt ys)" and sy: "segment L (Some y) ys None"
    and z: "z = last (y # ys)"
    using assms(1,3) by (auto simp: ring_def last_opt_def split: if_splits)
  show ?thesis
  proof (cases ys rule: rev_cases)
    case Nil
    with z have "z = y" by simp
    then show ?thesis using Nil d D Ly assms(2,4) by (auto simp: ring_def)
  next
    case (snoc ys' w)
    with z have z: "z = w" by simp
    have w: "w \<noteq> y" "w \<noteq> x" "y \<notin> set ys'" "x \<notin> set ys'" "w \<notin> set ys'" "x \<noteq> y" using d snoc by auto
    have sw: "segment L (Some y) ys' (Some w)" "L w = Some (if ys' = [] then Some y else last_opt ys', None)"
      using sy snoc by (auto simp: segment_append)
    have pz: "pz = (if ys' = [] then Some y else last_opt ys')" using assms(4) sw(2) w z by (auto split: if_splits)
    have ny: "ny = head_opt (ys' @ [w])" using assms(2) Ly snoc by simp
    show ?thesis
      using snoc z w sw pz ny d D Ly
      by (simp add: ring_def segment_append head_opt_append last_opt_append insert_commute last_opt_def)
  qed
qed

end
