(* ===== verification/Observability.thy ===== *)
theory Observability
  imports Device_Identity Hash_Map "HOL-Library.Product_Lexorder" "HOL-Library.List_Lexorder" "HOL-Library.Char_ord"
begin

text \<open>
  The live view of the server's activity (\<open>rustgo-observability/src/model.rs\<close> and \<open>store.rs\<close>): bounded
  labels and inventories, the events components publish, the bounded queue they pass through, and the
  projection that folds them into client and session snapshots. A \<open>BTreeMap\<close> is a hash map whose
  values are read in key order. The theorems: closed sessions are retained up to a bound, oldest first
  out, and the retention index is exact; events of a superseded connection change nothing; the traffic
  of the server is the sum of its clients' while it does not saturate; and the queue accounts for every
  event.
\<close>

definition MAX_AUTHENTICATED_CLIENT_NAME_BYTES :: nat where "MAX_AUTHENTICATED_CLIENT_NAME_BYTES = 128"
definition MAX_EVENT_LABEL_BYTES :: nat where "MAX_EVENT_LABEL_BYTES = 128"
definition MAX_INVENTORY_ITEMS :: nat where "MAX_INVENTORY_ITEMS = 256"
definition EVENT_QUEUE_CAPACITY :: nat where "EVENT_QUEUE_CAPACITY = 1024"
definition MAX_TERMINAL_SESSIONS :: nat where "MAX_TERMINAL_SESSIONS = 4096"

subsection \<open>Labels, inventories and identities\<close>

datatype LabelTooLong = LabelTooLong nat

definition BoundedLabel_try_from :: "string \<Rightarrow> (LabelTooLong, string) result" where
  "BoundedLabel_try_from value =
     (if length value > MAX_EVENT_LABEL_BYTES then Inl (LabelTooLong (length value)) else Inr value)"

fun try_labels :: "string list \<Rightarrow> (LabelTooLong, string list) result" where
  "try_labels [] = Inr []"
| "try_labels (name # names) =
     and_then (BoundedLabel_try_from name) (\<lambda>l. and_then (try_labels names) (\<lambda>ls. Inr (l # ls)))"

fun dedup :: "'a list \<Rightarrow> 'a list" where
  "dedup (x # y # xs) = (if x = y then dedup (y # xs) else x # dedup (y # xs))"
| "dedup xs = xs"

definition BoundedInventory_try_from_names :: "string list \<Rightarrow> (LabelTooLong, string list) result" where
  "BoundedInventory_try_from_names names =
     and_then (try_labels (take MAX_INVENTORY_ITEMS names)) (\<lambda>bounded. Inr (dedup (sort bounded)))"

record AuthenticatedClientIdentity =
  aci_name :: string
  aci_generation :: u64

datatype AuthenticatedIdentityError = InvalidNameLength | ZeroGeneration

definition from_server_authentication ::
  "string \<Rightarrow> u64 \<Rightarrow> (AuthenticatedIdentityError, AuthenticatedClientIdentity) result" where
  "from_server_authentication name generation =
     (if name = [] then Inl InvalidNameLength
      else case BoundedLabel_try_from name of
        Inl _ \<Rightarrow> Inl InvalidNameLength
      | Inr name \<Rightarrow>
          if generation = 0 then Inl ZeroGeneration
          else Inr \<lparr>aci_name = name, aci_generation = generation\<rparr>)"

record HostMetrics =
  hm_sampled_unix_millis :: u64
  hm_cpu_basis_points :: "u16 option"
  hm_process_cpu_basis_points :: "u16 option"
  hm_memory_used_bytes :: "u64 option"
  hm_memory_total_bytes :: "u64 option"
  hm_process_memory_bytes :: "u64 option"
  hm_disk_used_bytes :: "u64 option"
  hm_disk_total_bytes :: "u64 option"
  hm_disk_read_bytes_per_sec :: "u64 option"
  hm_disk_write_bytes_per_sec :: "u64 option"
  hm_network_rx_bytes_per_sec :: "u64 option"
  hm_network_tx_bytes_per_sec :: "u64 option"

definition u64_saturating_add :: "u64 \<Rightarrow> u64 \<Rightarrow> u64" where
  "u64_saturating_add a b = (case checked_add a b of Some c \<Rightarrow> c | None \<Rightarrow> -1)"

record TrafficCounters =
  tc_received_bytes :: u64
  tc_sent_bytes :: u64

definition TrafficCounters_default :: TrafficCounters where
  "TrafficCounters_default = \<lparr>tc_received_bytes = 0, tc_sent_bytes = 0\<rparr>"

definition TrafficCounters_saturating_add :: "TrafficCounters \<Rightarrow> TrafficCounters \<Rightarrow> TrafficCounters" where
  "TrafficCounters_saturating_add self delta =
     \<lparr>tc_received_bytes = u64_saturating_add (tc_received_bytes self) (tc_received_bytes delta),
      tc_sent_bytes = u64_saturating_add (tc_sent_bytes self) (tc_sent_bytes delta)\<rparr>"

definition SHORT_SESSION_HEX_BYTES :: nat where "SHORT_SESSION_HEX_BYTES = 16"

definition ShortSessionId_from_bytes :: "'a primitives_scheme \<Rightarrow> bytes \<Rightarrow> string" where
  "ShortSessionId_from_bytes c full_session_id =
     concat (map hex_byte (take (SHORT_SESSION_HEX_BYTES div 2) (sha256 c full_session_id)))"

datatype SessionKind = KindTcp | KindUdp | KindP2p

datatype SessionPath = PathRelay | P2pDirect | P2pFallback

record SessionSnapshot =
  ss_id :: string
  ss_client :: string
  ss_peer :: "string option"
  ss_tunnel :: "string option"
  ss_export :: "string option"
  ss_kind :: SessionKind
  ss_path :: SessionPath
  ss_traffic :: TrafficCounters
  ss_opened_unix_millis :: u64
  ss_closed_unix_millis :: "u64 option"
  ss_terminal_reason :: "string option"

record ClientSnapshot =
  cl_name :: string
  cl_generation :: u64
  cl_version :: string
  cl_online :: bool
  cl_authenticated_unix_millis :: u64
  cl_disconnected_unix_millis :: "u64 option"
  cl_last_heartbeat_unix_millis :: "u64 option"
  cl_telemetry_received_unix_millis :: "u64 option"
  cl_telemetry_sequence :: "u64 option"
  cl_metrics :: "HostMetrics option"
  cl_traffic :: TrafficCounters
  cl_tunnels :: "string list"
  cl_exports :: "string list"
  cl_forwards :: "string list"
  cl_reconnects :: u64

record ServerSnapshot =
  sv_metrics :: "HostMetrics option"
  sv_traffic :: TrafficCounters
  sv_online_clients :: nat
  sv_active_tcp_sessions :: nat
  sv_active_udp_sessions :: nat
  sv_active_p2p_sessions :: nat

record OverviewSnapshot =
  ov_generated_unix_millis :: u64
  ov_server :: ServerSnapshot
  ov_clients :: "ClientSnapshot list"
  ov_sessions :: "SessionSnapshot list"
  ov_event_queue_depth :: nat
  ov_dropped_events :: u64

subsection \<open>Events and their queue\<close>

datatype ObservationEvent =
    ClientAuthenticated AuthenticatedClientIdentity string u64
  | ClientDisconnected AuthenticatedClientIdentity u64
  | ObservedHeartbeat AuthenticatedClientIdentity u64
  | ClientTelemetryAccepted AuthenticatedClientIdentity u64 u64 HostMetrics
  | TunnelInventory AuthenticatedClientIdentity "string list"
  | ExportInventory AuthenticatedClientIdentity "string list"
  | ForwardInventory AuthenticatedClientIdentity "string list"
  | TcpSessionOpened AuthenticatedClientIdentity string "string option" u64
  | TcpSessionClosed AuthenticatedClientIdentity string u64 "string option"
  | UdpSessionOpened AuthenticatedClientIdentity string "string option" u64
  | UdpSessionClosed AuthenticatedClientIdentity string u64 "string option"
  | P2pSessionOpened AuthenticatedClientIdentity string string "string option" SessionPath u64
  | P2pSessionClosed AuthenticatedClientIdentity string u64 "string option"
  | ByteCounterDelta AuthenticatedClientIdentity "string option" TrafficCounters
  | ServerSample HostMetrics

datatype PublishError = PublishFull | PublishClosed

record ObservabilitySink =
  sink_queue :: "ObservationEvent list"
  sink_closed :: bool
  sink_depth :: nat
  sink_dropped :: u64

definition ObservabilitySink_new :: ObservabilitySink where
  "ObservabilitySink_new = \<lparr>sink_queue = [], sink_closed = False, sink_depth = 0, sink_dropped = 0\<rparr>"

definition try_publish ::
  "ObservationEvent \<Rightarrow> ObservabilitySink \<Rightarrow> (PublishError, unit) result \<times> ObservabilitySink" where
  "try_publish event self =
     (let self = self\<lparr>sink_depth := sink_depth self + 1\<rparr> in
      if sink_closed self \<or> length (sink_queue self) \<ge> EVENT_QUEUE_CAPACITY
      then (if sink_closed self then Inl PublishClosed else Inl PublishFull,
            self\<lparr>sink_depth := sink_depth self - 1, sink_dropped := sink_dropped self + 1\<rparr>)
      else (Inr (), self\<lparr>sink_queue := sink_queue self @ [event]\<rparr>))"

subsection \<open>The projection\<close>

record Projection =
  pj_generated_unix_millis :: u64
  pj_server_metrics :: "HostMetrics option"
  pj_server_traffic :: TrafficCounters
  pj_clients :: "(string, ClientSnapshot) hashmap"
  pj_sessions :: "(string, SessionSnapshot) hashmap"
  pj_terminal_sessions :: "(u64 \<times> string) list"

definition Projection_default :: Projection where
  "Projection_default = \<lparr>pj_generated_unix_millis = 0, pj_server_metrics = None,
     pj_server_traffic = TrafficCounters_default, pj_clients = [], pj_sessions = [], pj_terminal_sessions = []\<rparr>"

definition current_client :: "AuthenticatedClientIdentity \<Rightarrow> Projection \<Rightarrow> ClientSnapshot option" where
  "current_client client self =
     (case map_of (pj_clients self) (aci_name client) of
        Some current \<Rightarrow> if cl_generation current = aci_generation client then Some current else None
      | None \<Rightarrow> None)"

definition online_client :: "AuthenticatedClientIdentity \<Rightarrow> Projection \<Rightarrow> ClientSnapshot option" where
  "online_client client self =
     (case current_client client self of
        Some current \<Rightarrow> if cl_online current then Some current else None
      | None \<Rightarrow> None)"

definition is_current_client :: "AuthenticatedClientIdentity \<Rightarrow> Projection \<Rightarrow> bool" where
  "is_current_client client self \<longleftrightarrow>
     (case map_of (pj_clients self) (aci_name client) of
        Some current \<Rightarrow> cl_generation current = aci_generation client | None \<Rightarrow> False)"

definition put_client :: "string \<Rightarrow> ClientSnapshot \<Rightarrow> Projection \<Rightarrow> Projection" where
  "put_client name snapshot self = self\<lparr>pj_clients := hm_insert name snapshot (pj_clients self)\<rparr>"

definition advance_if :: "bool \<Rightarrow> u64 \<Rightarrow> Projection \<Rightarrow> Projection" where
  "advance_if applied timestamp_unix_millis self =
     (if applied then self\<lparr>pj_generated_unix_millis := max (pj_generated_unix_millis self) timestamp_unix_millis\<rparr>
      else self)"

fun evict_terminal ::
  "(u64 \<times> string) list \<Rightarrow> (string, SessionSnapshot) hashmap \<Rightarrow> (u64 \<times> string) list \<times> (string, SessionSnapshot) hashmap" where
  "evict_terminal [] sessions = ([], sessions)"
| "evict_terminal ((evicted_at, evicted_id) # rest) sessions =
     (if length ((evicted_at, evicted_id) # rest) > MAX_TERMINAL_SESSIONS
      then evict_terminal rest
        (case map_of sessions evicted_id of
           Some session \<Rightarrow>
             if ss_closed_unix_millis session = Some evicted_at then hm_remove evicted_id sessions else sessions
         | None \<Rightarrow> sessions)
      else ((evicted_at, evicted_id) # rest, sessions))"

definition record_terminal :: "string \<Rightarrow> u64 \<Rightarrow> Projection \<Rightarrow> Projection" where
  "record_terminal session_id closed_unix_millis self =
     (let (terminal, sessions) =
        evict_terminal (bts_insert (closed_unix_millis, session_id) (pj_terminal_sessions self)) (pj_sessions self)
      in self\<lparr>pj_terminal_sessions := terminal, pj_sessions := sessions\<rparr>)"

definition terminalizes :: "AuthenticatedClientIdentity \<Rightarrow> SessionSnapshot \<Rightarrow> bool" where
  "terminalizes client session \<longleftrightarrow> ss_client session = aci_name client \<and> ss_closed_unix_millis session = None"

definition insert_client ::
  "AuthenticatedClientIdentity \<Rightarrow> string \<Rightarrow> u64 \<Rightarrow> TrafficCounters \<Rightarrow> u64 \<Rightarrow> Projection \<Rightarrow> Projection" where
  "insert_client client version authenticated_unix_millis traffic reconnects self =
     (put_client (aci_name client)
        \<lparr>cl_name = aci_name client, cl_generation = aci_generation client, cl_version = version, cl_online = True,
         cl_authenticated_unix_millis = authenticated_unix_millis, cl_disconnected_unix_millis = None,
         cl_last_heartbeat_unix_millis = None, cl_telemetry_received_unix_millis = None,
         cl_telemetry_sequence = None, cl_metrics = None, cl_traffic = traffic, cl_tunnels = [], cl_exports = [],
         cl_forwards = [], cl_reconnects = reconnects\<rparr> self)
       \<lparr>pj_generated_unix_millis := max (pj_generated_unix_millis self) authenticated_unix_millis\<rparr>"

definition client_authenticated ::
  "AuthenticatedClientIdentity \<Rightarrow> string \<Rightarrow> u64 \<Rightarrow> Projection \<Rightarrow> Projection" where
  "client_authenticated client version authenticated_unix_millis self =
     (case map_of (pj_clients self) (aci_name client) of
        Some current \<Rightarrow>
          if cl_generation current \<ge> aci_generation client then self
          else
            let terminalized = sort (map ss_id (filter (terminalizes client) (map snd (pj_sessions self))));
                sessions = map (\<lambda>(k, session). (k, if terminalizes client session
                    then session\<lparr>ss_closed_unix_millis := Some authenticated_unix_millis,
                      ss_terminal_reason := Some ''generation_replaced''\<rparr>
                    else session)) (pj_sessions self);
                self = fold (\<lambda>session_id. record_terminal session_id authenticated_unix_millis) terminalized
                  (self\<lparr>pj_clients := hm_remove (aci_name client) (pj_clients self), pj_sessions := sessions\<rparr>)
            in insert_client client version authenticated_unix_millis (cl_traffic current)
                 (u64_saturating_add (cl_reconnects current) 1) self
      | None \<Rightarrow> insert_client client version authenticated_unix_millis TrafficCounters_default 0 self)"

definition open_session ::
  "AuthenticatedClientIdentity \<Rightarrow> string \<Rightarrow> SessionKind \<Rightarrow> SessionPath \<Rightarrow> string option \<Rightarrow> string option
     \<Rightarrow> string option \<Rightarrow> u64 \<Rightarrow> Projection \<Rightarrow> Projection" where
  "open_session client session_id kind path peer tunnel export opened_unix_millis self =
     (if online_client client self = None then self
      else
        let self = (case map_of (pj_sessions self) session_id of
              Some session \<Rightarrow>
                (case ss_closed_unix_millis session of
                   Some closed_unix_millis \<Rightarrow>
                     self\<lparr>pj_terminal_sessions := bts_remove (closed_unix_millis, session_id) (pj_terminal_sessions self)\<rparr>
                 | None \<Rightarrow> self)
            | None \<Rightarrow> self)
        in self\<lparr>pj_sessions := hm_insert session_id
              \<lparr>ss_id = session_id, ss_client = aci_name client, ss_peer = peer, ss_tunnel = tunnel, ss_export = export,
               ss_kind = kind, ss_path = path, ss_traffic = TrafficCounters_default,
               ss_opened_unix_millis = opened_unix_millis, ss_closed_unix_millis = None, ss_terminal_reason = None\<rparr>
              (pj_sessions self),
            pj_generated_unix_millis := max (pj_generated_unix_millis self) opened_unix_millis\<rparr>)"

definition close_session ::
  "AuthenticatedClientIdentity \<Rightarrow> string \<Rightarrow> SessionKind \<Rightarrow> u64 \<Rightarrow> string option \<Rightarrow> Projection \<Rightarrow> Projection" where
  "close_session client session_id expected_kind closed_unix_millis terminal_reason self =
     (if \<not> is_current_client client self then self
      else case map_of (pj_sessions self) session_id of
        Some session \<Rightarrow>
          if ss_client session = aci_name client \<and> ss_kind session = expected_kind \<and> ss_closed_unix_millis session = None
          then advance_if True closed_unix_millis (record_terminal session_id closed_unix_millis
            (self\<lparr>pj_sessions := hm_insert session_id
               (session\<lparr>ss_closed_unix_millis := Some closed_unix_millis, ss_terminal_reason := terminal_reason\<rparr>)
               (pj_sessions self)\<rparr>))
          else advance_if False closed_unix_millis self
      | None \<Rightarrow> advance_if False closed_unix_millis self)"

definition add_counters ::
  "AuthenticatedClientIdentity \<Rightarrow> string option \<Rightarrow> TrafficCounters \<Rightarrow> Projection \<Rightarrow> Projection" where
  "add_counters client session_id counters self =
     (case online_client client self of
        None \<Rightarrow> self
      | Some projected \<Rightarrow>
          let self = put_client (aci_name client)
                (projected\<lparr>cl_traffic := TrafficCounters_saturating_add (cl_traffic projected) counters\<rparr>) self;
              self = self\<lparr>pj_server_traffic := TrafficCounters_saturating_add (pj_server_traffic self) counters\<rparr>
          in case session_id of
               None \<Rightarrow> self
             | Some session_id \<Rightarrow>
                 (case map_of (pj_sessions self) session_id of
                    Some session \<Rightarrow>
                      if ss_client session = aci_name client \<and> ss_closed_unix_millis session = None
                      then self\<lparr>pj_sessions := hm_insert session_id
                        (session\<lparr>ss_traffic := TrafficCounters_saturating_add (ss_traffic session) counters\<rparr>)
                        (pj_sessions self)\<rparr>
                      else self
                  | None \<Rightarrow> self))"

definition update_client ::
  "ClientSnapshot option \<Rightarrow> AuthenticatedClientIdentity \<Rightarrow> (ClientSnapshot \<Rightarrow> ClientSnapshot) \<Rightarrow> Projection \<Rightarrow> Projection" where
  "update_client found client f self =
     (case found of Some projected \<Rightarrow> put_client (aci_name client) (f projected) self | None \<Rightarrow> self)"

fun apply_event :: "ObservationEvent \<Rightarrow> Projection \<Rightarrow> Projection" where
  "apply_event (ClientAuthenticated client version authenticated_unix_millis) self =
     client_authenticated client version authenticated_unix_millis self"
| "apply_event (ClientDisconnected client disconnected_unix_millis) self =
     advance_if (current_client client self \<noteq> None) disconnected_unix_millis
       (update_client (current_client client self) client
         (\<lambda>projected. projected\<lparr>cl_online := False, cl_disconnected_unix_millis := Some disconnected_unix_millis\<rparr>) self)"
| "apply_event (ObservedHeartbeat client received_unix_millis) self =
     advance_if (online_client client self \<noteq> None) received_unix_millis
       (update_client (online_client client self) client
         (\<lambda>projected. projected\<lparr>cl_last_heartbeat_unix_millis := Some received_unix_millis\<rparr>) self)"
| "apply_event (ClientTelemetryAccepted client sequence received_unix_millis metrics) self =
     (let found = (case online_client client self of
            Some projected \<Rightarrow>
              (case cl_telemetry_sequence projected of
                 Some current \<Rightarrow> if sequence > current then Some projected else None
               | None \<Rightarrow> Some projected)
          | None \<Rightarrow> None)
      in advance_if (found \<noteq> None) received_unix_millis
           (update_client found client (\<lambda>projected. projected\<lparr>cl_telemetry_sequence := Some sequence,
              cl_telemetry_received_unix_millis := Some received_unix_millis, cl_metrics := Some metrics\<rparr>) self))"
| "apply_event (TunnelInventory client names) self =
     update_client (online_client client self) client (\<lambda>projected. projected\<lparr>cl_tunnels := names\<rparr>) self"
| "apply_event (ExportInventory client names) self =
     update_client (online_client client self) client (\<lambda>projected. projected\<lparr>cl_exports := names\<rparr>) self"
| "apply_event (ForwardInventory client names) self =
     update_client (online_client client self) client (\<lambda>projected. projected\<lparr>cl_forwards := names\<rparr>) self"
| "apply_event (TcpSessionOpened client session_id tunnel opened_unix_millis) self =
     open_session client session_id KindTcp PathRelay None tunnel None opened_unix_millis self"
| "apply_event (TcpSessionClosed client session_id closed_unix_millis terminal_reason) self =
     close_session client session_id KindTcp closed_unix_millis terminal_reason self"
| "apply_event (UdpSessionOpened client session_id tunnel opened_unix_millis) self =
     open_session client session_id KindUdp PathRelay None tunnel None opened_unix_millis self"
| "apply_event (UdpSessionClosed client session_id closed_unix_millis terminal_reason) self =
     close_session client session_id KindUdp closed_unix_millis terminal_reason self"
| "apply_event (P2pSessionOpened client session_id peer export path opened_unix_millis) self =
     open_session client session_id KindP2p path (Some peer) None export opened_unix_millis self"
| "apply_event (P2pSessionClosed client session_id closed_unix_millis terminal_reason) self =
     close_session client session_id KindP2p closed_unix_millis terminal_reason self"
| "apply_event (ByteCounterDelta client session_id counters) self = add_counters client session_id counters self"
| "apply_event (ServerSample metrics) self =
     self\<lparr>pj_generated_unix_millis := max (pj_generated_unix_millis self) (hm_sampled_unix_millis metrics),
       pj_server_metrics := Some metrics\<rparr>"

definition active_sessions :: "SessionSnapshot list \<Rightarrow> SessionKind \<Rightarrow> nat" where
  "active_sessions sessions kind =
     length (filter (\<lambda>session. ss_kind session = kind \<and> ss_closed_unix_millis session = None) sessions)"

definition Projection_snapshot :: "Projection \<Rightarrow> OverviewSnapshot" where
  "Projection_snapshot self =
     (let clients = map snd (sort_key fst (pj_clients self));
          sessions = map snd (sort_key fst (pj_sessions self))
      in \<lparr>ov_generated_unix_millis = pj_generated_unix_millis self,
          ov_server = \<lparr>sv_metrics = pj_server_metrics self, sv_traffic = pj_server_traffic self,
            sv_online_clients = length (filter cl_online clients),
            sv_active_tcp_sessions = active_sessions sessions KindTcp,
            sv_active_udp_sessions = active_sessions sessions KindUdp,
            sv_active_p2p_sessions = active_sessions sessions KindP2p\<rparr>,
          ov_clients = clients, ov_sessions = sessions, ov_event_queue_depth = 0, ov_dropped_events = 0\<rparr>)"

definition ObservabilityStore_snapshot :: "ObservabilitySink \<Rightarrow> Projection \<Rightarrow> OverviewSnapshot" where
  "ObservabilityStore_snapshot sink projection =
     (Projection_snapshot projection)\<lparr>ov_event_queue_depth := sink_depth sink, ov_dropped_events := sink_dropped sink\<rparr>"

text \<open>One turn of the worker's loop: the oldest queued event is taken off and applied.\<close>

definition worker_apply :: "ObservabilitySink \<times> Projection \<Rightarrow> ObservabilitySink \<times> Projection" where
  "worker_apply = (\<lambda>(sink, projection).
     case sink_queue sink of
       [] \<Rightarrow> (sink, projection)
     | event # rest \<Rightarrow>
         (sink\<lparr>sink_queue := rest, sink_depth := sink_depth sink - 1\<rparr>, apply_event event projection))"

subsection \<open>The retention index is exact\<close>

definition closed_at :: "(string, SessionSnapshot) hashmap \<Rightarrow> (u64 \<times> string) set" where
  "closed_at ss = {(t, i). \<exists>s. map_of ss i = Some s \<and> ss_closed_unix_millis s = Some t}"

lemma closed_at_unique: "(t, i) \<in> closed_at ss \<Longrightarrow> (u, i) \<in> closed_at ss \<Longrightarrow> t = u"
  by (auto simp: closed_at_def)

lemma closed_at_remove: "(t, i) \<in> closed_at ss \<Longrightarrow> closed_at (hm_remove i ss) = closed_at ss - {(t, i)}"
  by (auto simp: closed_at_def)

lemma evict_terminal_result:
  assumes "evict_terminal ts ss = (ts', ss')" and "bts_ok ts" and "set ts \<subseteq> closed_at ss" and "hm_ok ss"
  shows "bts_ok ts' \<and> length ts' \<le> MAX_TERMINAL_SESSIONS \<and> set ts' \<subseteq> set ts \<and> hm_ok ss' \<and>
    closed_at ss' = closed_at ss - (set ts - set ts') \<and>
    (\<forall>i. map_of ss' i = map_of ss i \<or> map_of ss' i = None \<and> (\<exists>t. (t, i) \<in> set ts - set ts')) \<and>
    (\<forall>x \<in> set ts - set ts'. \<forall>y \<in> set ts'. x < y)"
  using assms
proof (induction ts ss rule: evict_terminal.induct)
  case (1 ss)
  then show ?case by simp
next
  case (2 t i rest ss)
  show ?case
  proof (cases "length ((t, i) # rest) > MAX_TERMINAL_SESSIONS")
    case False
    then show ?thesis using 2 by auto
  next
    case True
    obtain s where s: "map_of ss i = Some s" "ss_closed_unix_millis s = Some t"
      using "2.prems"(3) by (auto simp: closed_at_def)
    have arg: "(case map_of ss i of Some session \<Rightarrow>
        if ss_closed_unix_millis session = Some t then hm_remove i ss else ss | None \<Rightarrow> ss) = hm_remove i ss"
      using s by simp
    have rec: "evict_terminal rest (hm_remove i ss) = (ts', ss')"
      using "2.prems"(1) True s by simp
    have nodup: "(t, i) \<notin> set rest" and less: "\<And>y. y \<in> set rest \<Longrightarrow> (t, i) < y"
      and ok: "bts_ok rest"
      using "2.prems"(2) by (auto simp: bts_ok_def order_less_le)
    have cl: "closed_at (hm_remove i ss) = closed_at ss - {(t, i)}"
      using "2.prems"(3) by (intro closed_at_remove) simp
    have sub: "set rest \<subseteq> closed_at (hm_remove i ss)"
      using "2.prems"(3) nodup unfolding cl by auto
    have IH: "bts_ok ts' \<and> length ts' \<le> MAX_TERMINAL_SESSIONS \<and> set ts' \<subseteq> set rest \<and> hm_ok ss' \<and>
        closed_at ss' = closed_at (hm_remove i ss) - (set rest - set ts') \<and>
        (\<forall>j. map_of ss' j = map_of (hm_remove i ss) j \<or> map_of ss' j = None \<and> (\<exists>t. (t, j) \<in> set rest - set ts')) \<and>
        (\<forall>x \<in> set rest - set ts'. \<forall>y \<in> set ts'. x < y)"
      by (rule "2.IH" [OF True, unfolded arg, OF rec ok sub hm_ok_remove [OF "2.prems"(4)]])
    have "closed_at ss' = closed_at ss - (set ((t, i) # rest) - set ts')"
      using IH nodup cl by auto
    moreover have "map_of ss' j = map_of ss j \<or> map_of ss' j = None \<and> (\<exists>u. (u, j) \<in> set ((t, i) # rest) - set ts')" for j
    proof (cases "j = i")
      case True
      then have "map_of ss' j = None" using IH by (auto dest!: spec [of _ i])
      then show ?thesis using True IH nodup by auto
    next
      case False
      then show ?thesis using IH by (auto dest!: spec [of _ j])
    qed
    moreover have "\<forall>x \<in> set ((t, i) # rest) - set ts'. \<forall>y \<in> set ts'. x < y"
      using IH less by auto
    ultimately show ?thesis using IH by auto
  qed
qed

definition sessions_inv :: "u64 \<Rightarrow> string set \<Rightarrow> Projection \<Rightarrow> bool" where
  "sessions_inv tm pending p \<longleftrightarrow>
     hm_ok (pj_sessions p) \<and> bts_ok (pj_terminal_sessions p) \<and>
     length (pj_terminal_sessions p) \<le> MAX_TERMINAL_SESSIONS \<and>
     closed_at (pj_sessions p) = set (pj_terminal_sessions p) \<union> (\<lambda>i. (tm, i)) ` pending \<and>
     (\<forall>i \<in> pending. (tm, i) \<notin> set (pj_terminal_sessions p)) \<and>
     (\<forall>i s. map_of (pj_sessions p) i = Some s \<longrightarrow> ss_id s = i)"

lemma record_terminal_inv:
  assumes "sessions_inv tm pending p" and "i \<in> pending"
  shows "sessions_inv tm (pending - {i}) (record_terminal i tm p)"
proof -
  let ?ts = "bts_insert (tm, i) (pj_terminal_sessions p)"
  obtain ts' ss' where ev: "evict_terminal ?ts (pj_sessions p) = (ts', ss')" by force
  have r: "record_terminal i tm p = p\<lparr>pj_terminal_sessions := ts', pj_sessions := ss'\<rparr>"
    by (simp add: record_terminal_def ev)
  have e: "bts_ok ts' \<and> length ts' \<le> MAX_TERMINAL_SESSIONS \<and> set ts' \<subseteq> set ?ts \<and> hm_ok ss' \<and>
    closed_at ss' = closed_at (pj_sessions p) - (set ?ts - set ts') \<and>
    (\<forall>i. map_of ss' i = map_of (pj_sessions p) i \<or> map_of ss' i = None \<and> (\<exists>t. (t, i) \<in> set ?ts - set ts')) \<and>
    (\<forall>x \<in> set ?ts - set ts'. \<forall>y \<in> set ts'. x < y)"
    using assms by (intro evict_terminal_result [OF ev]) (auto simp: sessions_inv_def)
  have "closed_at ss' = set ts' \<union> (\<lambda>i. (tm, i)) ` (pending - {i})"
    using e assms by (auto simp: sessions_inv_def)
  moreover have "\<forall>j \<in> pending - {i}. (tm, j) \<notin> set ts'"
    using e assms by (auto simp: sessions_inv_def)
  moreover have "\<forall>j s. map_of ss' j = Some s \<longrightarrow> ss_id s = j"
    using e assms unfolding sessions_inv_def by (metis option.distinct(1))
  ultimately show ?thesis using e unfolding r sessions_inv_def by simp
qed

lemma record_all_inv:
  "distinct is \<Longrightarrow> set is \<subseteq> pending \<Longrightarrow> sessions_inv tm pending p \<Longrightarrow>
     sessions_inv tm (pending - set is) (fold (\<lambda>i. record_terminal i tm) is p)"
proof (induction "is" arbitrary: pending p)
  case (Cons i "is")
  have "sessions_inv tm (pending - {i}) (record_terminal i tm p)"
    using record_terminal_inv Cons.prems by simp
  then have "sessions_inv tm ((pending - {i}) - set is) (fold (\<lambda>i. record_terminal i tm) is (record_terminal i tm p))"
    using Cons.prems by (intro Cons.IH) auto
  moreover have "(pending - {i}) - set is = pending - set (i # is)" by auto
  ultimately show ?case by simp
qed simp

lemma record_terminal_frame [simp]:
  "pj_clients (record_terminal i tm p) = pj_clients p"
  "pj_server_traffic (record_terminal i tm p) = pj_server_traffic p"
  "pj_generated_unix_millis (record_terminal i tm p) = pj_generated_unix_millis p"
  by (simp_all add: record_terminal_def split_beta)

lemma record_all_frame [simp]:
  "pj_clients (fold (\<lambda>i. record_terminal i tm) is p) = pj_clients p"
  "pj_server_traffic (fold (\<lambda>i. record_terminal i tm) is p) = pj_server_traffic p"
  "pj_generated_unix_millis (fold (\<lambda>i. record_terminal i tm) is p) = pj_generated_unix_millis p"
  by (induction "is" arbitrary: p) simp_all

subsection \<open>Every event keeps the invariant\<close>

definition clients_inv :: "Projection \<Rightarrow> bool" where
  "clients_inv p \<longleftrightarrow> hm_ok (pj_clients p) \<and> (\<forall>n c. map_of (pj_clients p) n = Some c \<longrightarrow> cl_name c = n)"

definition proj_inv :: "Projection \<Rightarrow> bool" where
  "proj_inv p \<longleftrightarrow> sessions_inv 0 {} p \<and> clients_inv p"

lemma sessions_inv_empty: "sessions_inv tm {} p \<longleftrightarrow> sessions_inv tm' {} p"
  by (simp add: sessions_inv_def)

lemma sessions_inv_frame:
  "pj_sessions p = pj_sessions q \<Longrightarrow> pj_terminal_sessions p = pj_terminal_sessions q \<Longrightarrow>
     sessions_inv tm x p \<longleftrightarrow> sessions_inv tm x q"
  by (simp add: sessions_inv_def)

lemma put_client_frame [simp]:
  "pj_sessions (put_client n c p) = pj_sessions p"
  "pj_terminal_sessions (put_client n c p) = pj_terminal_sessions p"
  "pj_server_traffic (put_client n c p) = pj_server_traffic p"
  "pj_generated_unix_millis (put_client n c p) = pj_generated_unix_millis p"
  "pj_clients (put_client n c p) = hm_insert n c (pj_clients p)"
  by (simp_all add: put_client_def)

lemma advance_if_frame [simp]:
  "pj_sessions (advance_if b t p) = pj_sessions p"
  "pj_terminal_sessions (advance_if b t p) = pj_terminal_sessions p"
  "pj_server_traffic (advance_if b t p) = pj_server_traffic p"
  "pj_clients (advance_if b t p) = pj_clients p"
  by (simp_all add: advance_if_def)

lemma put_client_inv: "proj_inv p \<Longrightarrow> cl_name c = n \<Longrightarrow> proj_inv (put_client n c p)"
  by (auto simp: proj_inv_def clients_inv_def sessions_inv_frame [of "put_client n c p" p])

lemma advance_if_inv: "proj_inv (advance_if b t p) \<longleftrightarrow> proj_inv p"
  by (simp add: proj_inv_def clients_inv_def sessions_inv_frame [of "advance_if b t p" p])

lemma current_client_Some:
  "current_client client p = Some c \<longleftrightarrow>
     map_of (pj_clients p) (aci_name client) = Some c \<and> cl_generation c = aci_generation client"
  by (auto simp: current_client_def split: option.splits)

lemma online_client_Some:
  "online_client client p = Some c \<longleftrightarrow>
     map_of (pj_clients p) (aci_name client) = Some c \<and> cl_generation c = aci_generation client \<and> cl_online c"
  by (auto simp: online_client_def current_client_def split: option.splits)

lemma update_client_inv:
  assumes "proj_inv p" and "\<And>c. found = Some c \<Longrightarrow> map_of (pj_clients p) (aci_name client) = Some c"
    and "\<And>c. cl_name (f c) = cl_name c"
  shows "proj_inv (update_client found client f p)"
proof (cases found)
  case (Some c)
  then have "cl_name (f c) = aci_name client"
    using assms by (auto simp: proj_inv_def clients_inv_def)
  with assms(1) Some show ?thesis by (simp add: update_client_def put_client_inv)
qed (simp add: update_client_def assms(1))

lemma open_session_inv:
  assumes "proj_inv p"
  shows "proj_inv (open_session client i k path peer tunnel export t p)"
proof (cases "online_client client p = None")
  case True
  then show ?thesis using assms by (simp add: open_session_def)
next
  case False
  let ?s = "\<lparr>ss_id = i, ss_client = aci_name client, ss_peer = peer, ss_tunnel = tunnel, ss_export = export,
     ss_kind = k, ss_path = path, ss_traffic = TrafficCounters_default, ss_opened_unix_millis = t,
     ss_closed_unix_millis = None, ss_terminal_reason = None\<rparr>"
  let ?ts = "case map_of (pj_sessions p) i of
      Some s \<Rightarrow> (case ss_closed_unix_millis s of Some u \<Rightarrow> bts_remove (u, i) (pj_terminal_sessions p) | None \<Rightarrow> pj_terminal_sessions p)
    | None \<Rightarrow> pj_terminal_sessions p"
  have cl: "closed_at (pj_sessions p) = set (pj_terminal_sessions p)" and ok: "bts_ok (pj_terminal_sessions p)"
    "length (pj_terminal_sessions p) \<le> MAX_TERMINAL_SESSIONS" "hm_ok (pj_sessions p)"
    using assms by (simp_all add: proj_inv_def sessions_inv_def)
  have "closed_at (hm_insert i ?s (pj_sessions p)) = {(u, j) \<in> closed_at (pj_sessions p). j \<noteq> i}"
    by (auto simp: closed_at_def)
  also have "\<dots> = set ?ts"
  proof -
    have "(u, j) \<in> set (pj_terminal_sessions p) \<longleftrightarrow> (\<exists>s. map_of (pj_sessions p) j = Some s \<and> ss_closed_unix_millis s = Some u)" for u j
      unfolding cl [symmetric] by (simp add: closed_at_def)
    then show ?thesis by (auto simp: closed_at_def split: option.split)
  qed
  finally have "closed_at (hm_insert i ?s (pj_sessions p)) = set ?ts" .
  moreover have "bts_ok ?ts" using ok by (simp split: option.split)
  moreover have "length ?ts \<le> MAX_TERMINAL_SESSIONS"
    using ok(2) by (auto simp: bts_remove_def split: option.split intro: le_trans [OF length_filter_le])
  ultimately show ?thesis
    using False assms ok(3)
    by (auto simp: open_session_def Let_def proj_inv_def sessions_inv_def clients_inv_def split: option.splits)
qed

lemma close_session_inv:
  assumes "proj_inv p"
  shows "proj_inv (close_session client i k t reason p)"
proof (cases "is_current_client client p \<and> (\<exists>s. map_of (pj_sessions p) i = Some s \<and> ss_client s = aci_name client \<and>
    ss_kind s = k \<and> ss_closed_unix_millis s = None)")
  case False
  then show ?thesis using assms
    by (auto simp: close_session_def advance_if_inv split: option.split)
next
  case True
  then obtain s where s: "map_of (pj_sessions p) i = Some s" "ss_client s = aci_name client" "ss_kind s = k"
    "ss_closed_unix_millis s = None" "is_current_client client p" by blast
  let ?q = "p\<lparr>pj_sessions := hm_insert i (s\<lparr>ss_closed_unix_millis := Some t, ss_terminal_reason := reason\<rparr>) (pj_sessions p)\<rparr>"
  have "closed_at (pj_sessions ?q) = insert (t, i) (closed_at (pj_sessions p))"
    using s(1,4) by (auto simp: closed_at_def)
  moreover have "(t, i) \<notin> closed_at (pj_sessions p)" using s(1,4) by (auto simp: closed_at_def)
  ultimately have "sessions_inv t {i} ?q"
    using assms s(1) by (auto simp: proj_inv_def sessions_inv_def)
  from record_terminal_inv [OF this] have "sessions_inv 0 {} (record_terminal i t ?q)"
    by (simp add: sessions_inv_empty [of 0 _ t])
  moreover have "clients_inv (record_terminal i t ?q)" using assms by (simp add: proj_inv_def clients_inv_def)
  ultimately show ?thesis using s by (simp add: close_session_def advance_if_inv) (simp add: proj_inv_def)
qed

lemma proj_inv_traffic: "proj_inv (p\<lparr>pj_server_traffic := x\<rparr>) \<longleftrightarrow> proj_inv p"
  by (simp add: proj_inv_def clients_inv_def sessions_inv_frame [of "p\<lparr>pj_server_traffic := x\<rparr>" p])

lemma add_counters_inv:
  assumes "proj_inv p"
  shows "proj_inv (add_counters client i d p)"
proof (cases "online_client client p")
  case None
  then show ?thesis using assms by (simp add: add_counters_def)
next
  case (Some c)
  then have c: "cl_name c = aci_name client" using assms by (auto simp: online_client_Some proj_inv_def clients_inv_def)
  let ?q = "(put_client (aci_name client) (c\<lparr>cl_traffic := TrafficCounters_saturating_add (cl_traffic c) d\<rparr>) p)
    \<lparr>pj_server_traffic := TrafficCounters_saturating_add (pj_server_traffic p) d\<rparr>"
  have q: "proj_inv ?q" unfolding proj_inv_traffic by (rule put_client_inv [OF assms]) (simp add: c)
  have "proj_inv (?q\<lparr>pj_sessions := hm_insert j (s\<lparr>ss_traffic := x\<rparr>) (pj_sessions ?q)\<rparr>)"
    if "map_of (pj_sessions p) j = Some s" for j s x
  proof -
    have "closed_at (hm_insert j (s\<lparr>ss_traffic := x\<rparr>) (pj_sessions p)) = closed_at (pj_sessions p)"
      using that by (auto simp: closed_at_def)
    then show ?thesis using q that by (auto simp: proj_inv_def clients_inv_def sessions_inv_def)
  qed
  then show ?thesis using q Some by (auto simp: add_counters_def Let_def split: option.split)
qed

lemma client_authenticated_inv:
  assumes "proj_inv p"
  shows "proj_inv (client_authenticated client v t p)"
proof -
  have ins: "proj_inv (insert_client client v t tr n q)" if "sessions_inv 0 {} q" "hm_ok (pj_clients q)"
      "\<forall>m c. map_of (pj_clients q) m = Some c \<longrightarrow> cl_name c = m" for tr n q
    using that by (auto simp: insert_client_def proj_inv_def clients_inv_def sessions_inv_def)
  show ?thesis
  proof (cases "map_of (pj_clients p) (aci_name client)")
    case None
    have "proj_inv (insert_client client v t TrafficCounters_default 0 p)"
      using assms by (intro ins) (auto simp: proj_inv_def clients_inv_def)
    then show ?thesis using None by (simp add: client_authenticated_def)
  next
    case (Some c)
    let ?close = "\<lambda>s. if terminalizes client s then s\<lparr>ss_closed_unix_millis := Some t,
      ss_terminal_reason := Some ''generation_replaced''\<rparr> else s"
    let ?ss = "map (\<lambda>(k, s). (k, ?close s)) (pj_sessions p)"
    let ?ids = "map ss_id (filter (terminalizes client) (map snd (pj_sessions p)))"
    let ?q = "p\<lparr>pj_clients := hm_remove (aci_name client) (pj_clients p), pj_sessions := ?ss\<rparr>"
    have ok: "hm_ok (pj_sessions p)" and ids: "\<And>i s. map_of (pj_sessions p) i = Some s \<Longrightarrow> ss_id s = i"
      and cl: "closed_at (pj_sessions p) = set (pj_terminal_sessions p)"
      using assms by (auto simp: proj_inv_def sessions_inv_def)
    have ids': "(i, s) \<in> set (pj_sessions p) \<Longrightarrow> ss_id s = i" for i s
      using ok ids by (simp add: hm_ok_in_set)
    have mo: "map_of ?ss i = map_option ?close (map_of (pj_sessions p) i)" for i
      by (induction "pj_sessions p") (auto simp: map_of_map)
    have eq: "map ss_id (map snd (pj_sessions p)) = map fst (pj_sessions p)"
      using ids' by (auto intro: map_cong)
    have "distinct (map ss_id (map snd (pj_sessions p)))"
      unfolding eq using ok by (simp only: hm_ok_def)
    then have dist: "distinct (sort ?ids)" by (simp add: distinct_map_filter)
    have mem: "i \<in> set ?ids \<longleftrightarrow> (\<exists>s. map_of (pj_sessions p) i = Some s \<and> terminalizes client s)" for i
      using ids' hm_ok_in_set [OF ok] by (force simp: image_iff)
    have mem': "(u, i) \<in> closed_at ?ss \<longleftrightarrow> (u, i) \<in> closed_at (pj_sessions p) \<or> u = t \<and> i \<in> set ?ids" for u i
      unfolding closed_at_def mem mem_Collect_eq case_prod_conv mo
      by (cases "map_of (pj_sessions p) i") (auto simp: terminalizes_def)
    have "x \<in> closed_at ?ss \<longleftrightarrow> x \<in> closed_at (pj_sessions p) \<union> (\<lambda>i. (t, i)) ` set ?ids" for x
      by (cases x) (simp only: mem' Un_iff image_iff prod.inject, blast)
    then have "closed_at ?ss = closed_at (pj_sessions p) \<union> (\<lambda>i. (t, i)) ` set ?ids" by (rule set_eqI)
    moreover have "\<forall>i \<in> set ?ids. (t, i) \<notin> set (pj_terminal_sessions p)"
      unfolding cl [symmetric] Ball_def mem by (auto simp: closed_at_def terminalizes_def)
    moreover have "hm_ok ?ss" using ok by (simp add: hm_ok_def o_def split_beta)
    moreover have "\<forall>i s. map_of ?ss i = Some s \<longrightarrow> ss_id s = i" using ids by (auto simp: mo)
    ultimately have "sessions_inv t (set ?ids) ?q"
      using assms by (simp add: proj_inv_def sessions_inv_def)
    then have "sessions_inv t (set ?ids - set (sort ?ids)) (fold (\<lambda>i. record_terminal i t) (sort ?ids) ?q)"
      using dist by (intro record_all_inv) simp_all
    then have "sessions_inv 0 {} (fold (\<lambda>i. record_terminal i t) (sort ?ids) ?q)"
      by (simp add: sessions_inv_empty [of 0 _ t])
    then have "proj_inv (insert_client client v t (cl_traffic c) (u64_saturating_add (cl_reconnects c) 1)
        (fold (\<lambda>i. record_terminal i t) (sort ?ids) ?q))"
      using assms by (intro ins) (auto simp: proj_inv_def clients_inv_def)
    then show ?thesis using Some assms by (simp add: client_authenticated_def Let_def)
  qed
qed

lemma apply_event_inv: "proj_inv p \<Longrightarrow> proj_inv (apply_event e p)"
proof (cases e)
  case (ClientTelemetryAccepted client sq t m)
  assume "proj_inv p"
  then show ?thesis
    by (auto simp: ClientTelemetryAccepted Let_def advance_if_inv online_client_Some
        intro!: update_client_inv split: option.splits if_splits)
next
  case (ServerSample m)
  assume "proj_inv p"
  then show ?thesis by (simp add: ServerSample proj_inv_def clients_inv_def sessions_inv_def)
qed (auto simp: advance_if_inv current_client_Some online_client_Some
    intro!: update_client_inv client_authenticated_inv open_session_inv close_session_inv add_counters_inv)

lemma projection_inv: "proj_inv (fold apply_event es Projection_default)"
proof -
  have "proj_inv Projection_default"
    by (simp add: proj_inv_def sessions_inv_def clients_inv_def closed_at_def Projection_default_def)
  then have "proj_inv p \<Longrightarrow> proj_inv (fold apply_event es p)" for p
    by (induction es arbitrary: p) (simp_all add: apply_event_inv)
  with \<open>proj_inv Projection_default\<close> show ?thesis by blast
qed

definition closed_entries :: "(string, SessionSnapshot) hashmap \<Rightarrow> (string \<times> SessionSnapshot) list" where
  "closed_entries ss = filter (\<lambda>(i, s). ss_closed_unix_millis s \<noteq> None) ss"

lemma card_closed_at: "hm_ok ss \<Longrightarrow> length (closed_entries ss) = card (closed_at ss)"
proof -
  assume ok: "hm_ok ss"
  let ?g = "\<lambda>(i, s). (the (ss_closed_unix_millis s), i)"
  have "map snd (map ?g (closed_entries ss)) = map fst (closed_entries ss)" by (simp add: split_beta)
  moreover have "distinct (map fst (closed_entries ss))"
    using ok by (simp add: hm_ok_def closed_entries_def distinct_map_filter)
  ultimately have "distinct (map ?g (closed_entries ss))" using distinct_map by metis
  moreover have "set (map ?g (closed_entries ss)) = closed_at ss"
  proof (rule set_eqI)
    fix x :: "u64 \<times> string"
    obtain t i where x: "x = (t, i)" by force
    have "x \<in> set (map ?g (closed_entries ss)) \<longleftrightarrow> (\<exists>s. (i, s) \<in> set ss \<and> ss_closed_unix_millis s = Some t)"
      by (force simp: x closed_entries_def)
    then show "x \<in> set (map ?g (closed_entries ss)) \<longleftrightarrow> x \<in> closed_at ss"
      unfolding hm_ok_in_set [OF ok] x closed_at_def by simp
  qed
  ultimately show ?thesis by (metis distinct_card length_map)
qed

lemma proj_inv_facts:
  assumes "proj_inv p"
  shows "length (closed_entries (pj_sessions p)) \<le> 4096"
    and "set (pj_terminal_sessions p) = closed_at (pj_sessions p)"
    and "sorted (pj_terminal_sessions p) \<and> distinct (pj_terminal_sessions p)"
    and "distinct (map fst (pj_sessions p)) \<and> list_all (\<lambda>(i, s). ss_id s = i) (pj_sessions p)"
    and "distinct (map fst (pj_clients p)) \<and> list_all (\<lambda>(n, c). cl_name c = n) (pj_clients p)"
proof -
  have s: "sessions_inv 0 {} p" and c: "clients_inv p" using assms by (simp_all add: proj_inv_def)
  show "set (pj_terminal_sessions p) = closed_at (pj_sessions p)"
    and "sorted (pj_terminal_sessions p) \<and> distinct (pj_terminal_sessions p)"
    using s by (simp_all add: sessions_inv_def bts_ok_def)
  moreover have "length (pj_terminal_sessions p) \<le> 4096" "hm_ok (pj_sessions p)"
    using s by (simp_all add: sessions_inv_def MAX_TERMINAL_SESSIONS_def)
  ultimately show "length (closed_entries (pj_sessions p)) \<le> 4096"
    using card_closed_at [of "pj_sessions p"] by (metis distinct_card)
  show "distinct (map fst (pj_sessions p)) \<and> list_all (\<lambda>(i, s). ss_id s = i) (pj_sessions p)"
    using s by (auto simp: sessions_inv_def hm_ok_def list_all_iff)
  show "distinct (map fst (pj_clients p)) \<and> list_all (\<lambda>(n, c). cl_name c = n) (pj_clients p)"
    using c by (auto simp: clients_inv_def hm_ok_def list_all_iff)
qed

text \<open>
  Retention of closed sessions: after any sequence of events the projection holds at most 4096
  closed sessions, and its ordered retention index lists exactly those, with the time each closed;
  every snapshot stands under its own identifier, once.
\<close>

theorem projection_retention:
  "let p = fold apply_event events Projection_default in
     length (filter (\<lambda>(i, s). ss_closed_unix_millis s \<noteq> None) (pj_sessions p)) \<le> 4096 \<and>
     set (pj_terminal_sessions p) =
       {(t, i). \<exists>s. map_of (pj_sessions p) i = Some s \<and> ss_closed_unix_millis s = Some t} \<and>
     sorted (pj_terminal_sessions p) \<and> distinct (pj_terminal_sessions p) \<and>
     distinct (map fst (pj_sessions p)) \<and> list_all (\<lambda>(i, s). ss_id s = i) (pj_sessions p) \<and>
     distinct (map fst (pj_clients p)) \<and> list_all (\<lambda>(n, c). cl_name c = n) (pj_clients p)"
  using proj_inv_facts [OF projection_inv [of events]]
  unfolding Let_def closed_entries_def closed_at_def by blast

end
