(* ===== verification/Udp_Flows.thy ===== *)
theory Udp_Flows
  imports Sweep_Ring State_Machine Observability Auth_Limiter Protocol_Types
begin

text \<open>
  The table of UDP flows of one tunnel on the server (\<open>rustgos/src/udp.rs\<close>, \<open>UdpRuntimeLimits\<close> and
  \<open>FlowTable\<close>). Flows are found by their address pair and by their random identifier, and are linked
  into a ring that the idle sweep walks a few entries at a time. Shared traffic counters are cells of
  a store, an entry holds the number of its cell. The theorems: the linked table answers every
  sequence of calls as a plain queue of flows would, so it never reports an inconsistency; and a sweep
  batch of the size the code computes removes every idle flow within the idle timeout.
\<close>

subsection \<open>Limits\<close>

record UdpRuntimeLimits =
  ur_queue_capacity :: nat
  ur_idle_timeout :: nat
  ur_sweep_interval :: nat
  ur_sweep_batch :: nat
  ur_writer_delay :: nat
  ur_test_disconnect_after_replies :: "u64 option"

datatype UdpRelayError =
    RelayIo
  | RelayFrame
  | DataChannelClosed
  | ControlChannelClosed
  | DataChannelSetupTimeout
  | RetirementDeliveryFailed
  | InvalidFrame
  | FrameTooLarge
  | PayloadTooLarge
  | SessionAllocation
  | ShortDatagramWrite
  | TaskJoin
  | InternalTestDisconnect
  | InvalidLimits

definition NANOS_PER_MILLI :: nat where "NANOS_PER_MILLI = 1000000"

definition UdpRuntimeLimits_default :: UdpRuntimeLimits where
  "UdpRuntimeLimits_default =
     \<lparr>ur_queue_capacity = 1024, ur_idle_timeout = 60000 * NANOS_PER_MILLI, ur_sweep_interval = 1000 * NANOS_PER_MILLI,
      ur_sweep_batch = 64, ur_writer_delay = 0, ur_test_disconnect_after_replies = None\<rparr>"

definition limits_valid :: "UdpRuntimeLimits \<Rightarrow> bool" where
  "limits_valid self \<longleftrightarrow> ur_queue_capacity self > 0 \<and> ur_idle_timeout self \<noteq> 0 \<and>
     ur_idle_timeout self div NANOS_PER_MILLI \<le> unat (-1 :: u32) \<and> ur_sweep_interval self \<noteq> 0 \<and>
     ur_sweep_batch self > 0 \<and> ur_test_disconnect_after_replies self \<noteq> Some 0"

definition u32_try_from :: "nat \<Rightarrow> u32 option" where
  "u32_try_from n = (if n < 2 ^ 32 then Some (word_of_nat n) else None)"

definition open_channel ::
  "UdpRuntimeLimits \<Rightarrow> u32 \<Rightarrow> u64 \<Rightarrow> bytes \<Rightarrow> nat \<Rightarrow> nat \<Rightarrow> (UdpRelayError, OpenUdpChannel) result" where
  "open_channel self tunnel_id channel_id binding_token max_sessions max_payload =
     and_then (ok_or (u32_try_from max_sessions) InvalidLimits) (\<lambda>sessions.
     and_then (ok_or (u32_try_from (ur_idle_timeout self div NANOS_PER_MILLI)) InvalidLimits) (\<lambda>idle.
     and_then (ok_or (u32_try_from max_payload) InvalidLimits) (\<lambda>payload.
     and_then (ok_or (u32_try_from (ur_queue_capacity self)) InvalidLimits) (\<lambda>queue.
       let request = \<lparr>ouc_tunnel_id = tunnel_id, ouc_channel_id = channel_id, ouc_binding_token = binding_token,
             ouc_max_sessions = sessions, ouc_idle_timeout_millis = idle, ouc_max_payload_bytes = payload,
             ouc_queue_capacity = queue\<rparr>
       in if has_valid_limits request then Inr request else Inl InvalidLimits))))"

definition div_ceil :: "nat \<Rightarrow> nat \<Rightarrow> nat" where
  "div_ceil a b = (if a mod b > 0 then a div b + 1 else a div b)"

definition sweeps_before_timeout :: "nat \<Rightarrow> nat \<Rightarrow> nat" where
  "sweeps_before_timeout idle_timeout sweep_interval = max (idle_timeout div sweep_interval) 1"

definition minimum_sweep_batch :: "nat \<Rightarrow> nat \<Rightarrow> nat \<Rightarrow> nat option" where
  "minimum_sweep_batch capacity idle_timeout sweep_interval =
     (if sweep_interval = 0 then None
      else Some (div_ceil capacity (sweeps_before_timeout idle_timeout sweep_interval)))"

definition effective_sweep_batch :: "UdpRuntimeLimits \<Rightarrow> nat \<Rightarrow> (UdpRelayError, nat) result" where
  "effective_sweep_batch self capacity =
     (case minimum_sweep_batch capacity (ur_idle_timeout self) (ur_sweep_interval self) of
        Some minimum \<Rightarrow> Inr (max (ur_sweep_batch self) minimum)
      | None \<Rightarrow> Inl InvalidLimits)"

lemma div_ceil_covers: "0 < b \<Longrightarrow> a \<le> b * div_ceil a b"
  by (auto simp: div_ceil_def intro: le_trans [OF _ mult_le_mono]) (metis add_leE div_mult_mod_eq mod_less_divisor
      mult.commute nat_add_left_cancel_le order_less_imp_le add.commute)

subsection \<open>Addresses\<close>

datatype SocketAddr = SocketV4 bytes u16 | SocketV6 bytes u16 u32 u32

fun canonical_socket_addr :: "SocketAddr \<Rightarrow> SocketAddr" where
  "canonical_socket_addr (SocketV6 ip_octets prt flowinfo scope_id) =
     (case to_ipv4_mapped ip_octets of
        Some ip \<Rightarrow> SocketV4 ip prt
      | None \<Rightarrow> SocketV6 ip_octets prt flowinfo scope_id)"
| "canonical_socket_addr (SocketV4 ip_octets prt) = SocketV4 ip_octets prt"

definition wire_socket_addr :: "SocketAddr \<Rightarrow> SocketAddress" where
  "wire_socket_addr address =
     (case canonical_socket_addr address of
        SocketV4 ip_octets prt \<Rightarrow> V4 ip_octets prt
      | SocketV6 ip_octets prt _ _ \<Rightarrow> V6 ip_octets prt)"

definition socket_addr_from_wire :: "SocketAddress \<Rightarrow> SocketAddr option" where
  "socket_addr_from_wire address =
     (let address = (case address of V4 ip_octets prt \<Rightarrow> SocketV4 ip_octets prt | V6 ip_octets prt \<Rightarrow> SocketV6 ip_octets prt 0 0)
      in Some (canonical_socket_addr address))"

lemma canonical_idem [simp]: "canonical_socket_addr (canonical_socket_addr a) = canonical_socket_addr a"
  by (cases a rule: canonical_socket_addr.cases) (auto split: option.splits)

subsection \<open>The table\<close>

definition MAX_SESSION_ID_ATTEMPTS :: nat where "MAX_SESSION_ID_ATTEMPTS = 16"

record FlowKey =
  fk_source :: SocketAddr
  fk_destination :: SocketAddr

record FlowEntry =
  fe_key :: FlowKey
  fe_last_activity :: nat
  fe_previous :: "u64 option"
  fe_next :: "u64 option"
  fe_observed_traffic :: "nat option"

record FlowTable =
  ft_capacity :: nat
  ft_observe_traffic :: bool
  ft_by_flow :: "(FlowKey, u64) hashmap"
  ft_by_id :: "(u64, FlowEntry) hashmap"
  ft_sweep_head :: "u64 option"
  ft_sweep_tail :: "u64 option"
  ft_cells :: "TrafficCounters list"

datatype FlowError = FlowCapacity | FlowEntropyUnavailable | FlowInconsistent

definition FlowTable_new :: "nat \<Rightarrow> bool \<Rightarrow> FlowTable" where
  "FlowTable_new capacity observe_traffic =
     \<lparr>ft_capacity = capacity, ft_observe_traffic = observe_traffic, ft_by_flow = [], ft_by_id = [],
      ft_sweep_head = None, ft_sweep_tail = None, ft_cells = []\<rparr>"

fun allocate_loop :: "nat \<Rightarrow> u64 option list \<Rightarrow> (u64, 'v) hashmap \<Rightarrow> (FlowError, u64) result" where
  "allocate_loop 0 draws used = Inl FlowEntropyUnavailable"
| "allocate_loop (Suc n) [] used = Inl FlowEntropyUnavailable"
| "allocate_loop (Suc n) (None # draws) used = Inl FlowEntropyUnavailable"
| "allocate_loop (Suc n) (Some session_id # draws) used =
     (if session_id \<noteq> 0 \<and> map_of used session_id = None then Inr session_id else allocate_loop n draws used)"

definition allocate_session_id :: "u64 option list \<Rightarrow> FlowTable \<Rightarrow> (FlowError, u64) result" where
  "allocate_session_id draws self = allocate_loop MAX_SESSION_ID_ATTEMPTS draws (ft_by_id self)"

definition session_for ::
  "FlowKey \<Rightarrow> nat \<Rightarrow> u64 option list \<Rightarrow> FlowTable \<Rightarrow> (FlowError, u64 \<times> bool) result \<times> FlowTable" where
  "session_for key now draws self =
     (case map_of (ft_by_flow self) key of
        Some session_id \<Rightarrow>
          (case map_of (ft_by_id self) session_id of
             Some entry \<Rightarrow>
               (Inr (session_id, False),
                self\<lparr>ft_by_id := hm_insert session_id (entry\<lparr>fe_last_activity := now\<rparr>) (ft_by_id self)\<rparr>)
           | None \<Rightarrow> (Inl FlowInconsistent, self))
      | None \<Rightarrow>
          if length (ft_by_id self) \<ge> ft_capacity self then (Inl FlowCapacity, self)
          else case allocate_session_id draws self of
            Inl e \<Rightarrow> (Inl e, self)
          | Inr session_id \<Rightarrow>
              let previous = ft_sweep_tail self;
                  cells = (if ft_observe_traffic self then ft_cells self @ [TrafficCounters_default] else ft_cells self);
                  cell = (if ft_observe_traffic self then Some (length (ft_cells self)) else None);
                  self = self\<lparr>ft_by_flow := hm_insert key session_id (ft_by_flow self), ft_cells := cells,
                    ft_by_id := hm_insert session_id \<lparr>fe_key = key, fe_last_activity = now, fe_previous = previous,
                      fe_next = None, fe_observed_traffic = cell\<rparr> (ft_by_id self)\<rparr>
              in (case previous of
                    Some p \<Rightarrow>
                      (case map_of (ft_by_id self) p of
                         None \<Rightarrow> (Inl FlowInconsistent, self)
                       | Some entry \<Rightarrow>
                           (Inr (session_id, True),
                            self\<lparr>ft_by_id := hm_insert p (entry\<lparr>fe_next := Some session_id\<rparr>) (ft_by_id self),
                                 ft_sweep_tail := Some session_id\<rparr>))
                  | None \<Rightarrow>
                      (Inr (session_id, True), self\<lparr>ft_sweep_head := Some session_id, ft_sweep_tail := Some session_id\<rparr>)))"

definition flow_remove :: "u64 \<Rightarrow> FlowTable \<Rightarrow> bool \<times> FlowTable" where
  "flow_remove session_id self =
     (case map_of (ft_by_id self) session_id of
        None \<Rightarrow> (False, self)
      | Some entry \<Rightarrow>
          let self = self\<lparr>ft_by_id := hm_remove session_id (ft_by_id self),
                ft_by_flow := hm_remove (fe_key entry) (ft_by_flow self)\<rparr>;
              self = (case fe_previous entry of
                  Some previous \<Rightarrow>
                    self\<lparr>ft_by_id := hm_modify previous (\<lambda>e. e\<lparr>fe_next := fe_next entry\<rparr>) (ft_by_id self)\<rparr>
                | None \<Rightarrow> self\<lparr>ft_sweep_head := fe_next entry\<rparr>);
              self = (case fe_next entry of
                  Some next \<Rightarrow>
                    self\<lparr>ft_by_id := hm_modify next (\<lambda>e. e\<lparr>fe_previous := fe_previous entry\<rparr>) (ft_by_id self)\<rparr>
                | None \<Rightarrow> self\<lparr>ft_sweep_tail := fe_previous entry\<rparr>)
          in (True, self))"

definition rotate_sweep_head :: "u64 \<Rightarrow> FlowTable \<Rightarrow> (FlowError, unit) result \<times> FlowTable" where
  "rotate_sweep_head session_id self =
     (if ft_sweep_head self \<noteq> Some session_id then (Inl FlowInconsistent, self)
      else if ft_sweep_tail self = Some session_id then (Inr (), self)
      else case Option.bind (map_of (ft_by_id self) session_id) fe_next of
        None \<Rightarrow> (Inl FlowInconsistent, self)
      | Some next \<Rightarrow>
          (case ft_sweep_tail self of
             None \<Rightarrow> (Inl FlowInconsistent, self)
           | Some tail \<Rightarrow>
               if map_of (ft_by_id self) next = None then (Inl FlowInconsistent, self)
               else
                 let self = self\<lparr>ft_by_id := hm_modify next (\<lambda>e. e\<lparr>fe_previous := None\<rparr>) (ft_by_id self)\<rparr>
                 in if map_of (ft_by_id self) tail = None then (Inl FlowInconsistent, self)
                    else
                      let self = self\<lparr>ft_by_id := hm_modify tail (\<lambda>e. e\<lparr>fe_next := Some session_id\<rparr>) (ft_by_id self)\<rparr>
                      in if map_of (ft_by_id self) session_id = None then (Inl FlowInconsistent, self)
                         else (Inr (), self\<lparr>ft_by_id := hm_modify session_id
                                (\<lambda>e. e\<lparr>fe_previous := Some tail, fe_next := None\<rparr>) (ft_by_id self),
                              ft_sweep_head := Some next, ft_sweep_tail := Some session_id\<rparr>)))"

definition validate_reply ::
  "u64 \<Rightarrow> SocketAddr \<Rightarrow> SocketAddr \<Rightarrow> nat \<Rightarrow> FlowTable \<Rightarrow> bool \<times> FlowTable" where
  "validate_reply session_id recipient destination now self =
     (case map_of (ft_by_id self) session_id of
        None \<Rightarrow> (False, self)
      | Some entry \<Rightarrow>
          if fk_source (fe_key entry) \<noteq> recipient \<or> fk_destination (fe_key entry) \<noteq> destination then (False, self)
          else (True, self\<lparr>ft_by_id := hm_insert session_id (entry\<lparr>fe_last_activity := now\<rparr>) (ft_by_id self)\<rparr>))"

definition observed_traffic :: "u64 \<Rightarrow> FlowTable \<Rightarrow> nat option" where
  "observed_traffic session_id self = Option.bind (map_of (ft_by_id self) session_id) fe_observed_traffic"

definition take_cell :: "nat \<Rightarrow> TrafficCounters list \<Rightarrow> TrafficCounters \<times> TrafficCounters list" where
  "take_cell cell cells =
     (if cell < length cells then (cells ! cell, cells[cell := TrafficCounters_default]) else (TrafficCounters_default, cells))"

definition record_sent :: "nat \<Rightarrow> nat \<Rightarrow> TrafficCounters list \<Rightarrow> TrafficCounters list" where
  "record_sent cell bytes cells = cells[cell := (cells ! cell)
     \<lparr>tc_sent_bytes := u64_saturating_add (tc_sent_bytes (cells ! cell)) (word_of_nat bytes)\<rparr>]"

definition record_received :: "nat \<Rightarrow> nat \<Rightarrow> TrafficCounters list \<Rightarrow> TrafficCounters list" where
  "record_received cell bytes cells = cells[cell := (cells ! cell)
     \<lparr>tc_received_bytes := u64_saturating_add (tc_received_bytes (cells ! cell)) (word_of_nat bytes)\<rparr>]"

fun take_traffic ::
  "(u64, FlowEntry) hashmap \<Rightarrow> TrafficCounters list \<Rightarrow> (u64 \<times> TrafficCounters) list \<times> TrafficCounters list" where
  "take_traffic [] cells = ([], cells)"
| "take_traffic ((session_id, entry) # entries) cells =
     (case fe_observed_traffic entry of
        None \<Rightarrow> take_traffic entries cells
      | Some cell \<Rightarrow>
          let (counters, cells) = take_cell cell cells;
              (pending, cells) = take_traffic entries cells
          in (if counters \<noteq> TrafficCounters_default then (session_id, counters) # pending else pending, cells))"

definition take_observed_traffic :: "FlowTable \<Rightarrow> (u64 \<times> TrafficCounters) list \<times> FlowTable" where
  "take_observed_traffic self =
     (let (pending, cells) = take_traffic (ft_by_id self) (ft_cells self) in (pending, self\<lparr>ft_cells := cells\<rparr>))"

fun sweep_loop ::
  "nat \<Rightarrow> nat \<Rightarrow> nat \<Rightarrow> (u64 \<times> nat option) list \<Rightarrow> FlowTable
     \<Rightarrow> (FlowError, (u64 \<times> nat option) list) result \<times> FlowTable" where
  "sweep_loop now idle_timeout 0 expired self = (Inr expired, self)"
| "sweep_loop now idle_timeout (Suc n) expired self =
     (case ft_sweep_head self of
        None \<Rightarrow> (Inr expired, self)
      | Some session_id \<Rightarrow>
          let is_expired = (case map_of (ft_by_id self) session_id of
                Some entry \<Rightarrow> saturating_sub now (fe_last_activity entry) \<ge> idle_timeout | None \<Rightarrow> False)
          in if is_expired
             then let traffic = observed_traffic session_id self;
                      (removed, self) = flow_remove session_id self
                  in sweep_loop now idle_timeout n (if removed then expired @ [(session_id, traffic)] else expired) self
             else (case rotate_sweep_head session_id self of
                     (Inl e, self) \<Rightarrow> (Inl e, self)
                   | (Inr _, self) \<Rightarrow> sweep_loop now idle_timeout n expired self))"

definition sweep_expired ::
  "nat \<Rightarrow> nat \<Rightarrow> nat \<Rightarrow> FlowTable \<Rightarrow> (FlowError, (u64 \<times> nat option) list) result \<times> FlowTable" where
  "sweep_expired now idle_timeout maximum self =
     sweep_loop now idle_timeout (min maximum (length (ft_by_id self))) [] self"

definition flow_clear :: "FlowTable \<Rightarrow> FlowTable" where
  "flow_clear self = self\<lparr>ft_by_flow := [], ft_by_id := [], ft_sweep_head := None, ft_sweep_tail := None\<rparr>"

subsection \<open>The table as a queue\<close>

text \<open>
  The specification: the flows in sweep order, each with its identifier, address pair, last activity
  and traffic cell.
\<close>

record flow_queue =
  fq_capacity :: nat
  fq_observe :: bool
  fq_flows :: "(u64 \<times> FlowKey \<times> nat \<times> nat option) list"
  fq_cells :: nat

definition touch :: "u64 \<Rightarrow> nat \<Rightarrow> (u64 \<times> FlowKey \<times> nat \<times> nat option) list \<Rightarrow> (u64 \<times> FlowKey \<times> nat \<times> nat option) list" where
  "touch i now fs = map (\<lambda>(j, k, a, c). (j, k, if j = i then now else a, c)) fs"

definition idle :: "nat \<Rightarrow> nat \<Rightarrow> u64 \<times> FlowKey \<times> nat \<times> nat option \<Rightarrow> bool" where
  "idle now idle_timeout = (\<lambda>(i, k, a, c). now - a \<ge> idle_timeout)"

definition queue_session_for ::
  "FlowKey \<Rightarrow> nat \<Rightarrow> u64 option list \<Rightarrow> flow_queue \<Rightarrow> (FlowError, u64 \<times> bool) result \<times> flow_queue" where
  "queue_session_for key now draws q =
     (case find (\<lambda>(i, k, _). k = key) (fq_flows q) of
        Some (i, _) \<Rightarrow> (Inr (i, False), q\<lparr>fq_flows := touch i now (fq_flows q)\<rparr>)
      | None \<Rightarrow>
          if length (fq_flows q) \<ge> fq_capacity q then (Inl FlowCapacity, q)
          else case allocate_loop MAX_SESSION_ID_ATTEMPTS draws (fq_flows q) of
            Inl e \<Rightarrow> (Inl e, q)
          | Inr i \<Rightarrow>
              (Inr (i, True), q\<lparr>fq_flows := fq_flows q @ [(i, key, now, if fq_observe q then Some (fq_cells q) else None)],
                fq_cells := (if fq_observe q then Suc (fq_cells q) else fq_cells q)\<rparr>))"

definition queue_remove :: "u64 \<Rightarrow> flow_queue \<Rightarrow> bool \<times> flow_queue" where
  "queue_remove i q =
     (map_of (fq_flows q) i \<noteq> None, q\<lparr>fq_flows := filter (\<lambda>f. fst f \<noteq> i) (fq_flows q)\<rparr>)"

definition queue_validate_reply :: "u64 \<Rightarrow> SocketAddr \<Rightarrow> SocketAddr \<Rightarrow> nat \<Rightarrow> flow_queue \<Rightarrow> bool \<times> flow_queue" where
  "queue_validate_reply i recipient destination now q =
     (case map_of (fq_flows q) i of
        Some (k, _) \<Rightarrow>
          if fk_source k = recipient \<and> fk_destination k = destination
          then (True, q\<lparr>fq_flows := touch i now (fq_flows q)\<rparr>) else (False, q)
      | None \<Rightarrow> (False, q))"

definition queue_sweep ::
  "nat \<Rightarrow> nat \<Rightarrow> nat \<Rightarrow> flow_queue \<Rightarrow> (FlowError, (u64 \<times> nat option) list) result \<times> flow_queue" where
  "queue_sweep now idle_timeout maximum q =
     (let seen = take maximum (fq_flows q)
      in (Inr (map (\<lambda>(i, _, _, c). (i, c)) (filter (idle now idle_timeout) seen)),
          q\<lparr>fq_flows := drop maximum (fq_flows q) @ filter (\<lambda>f. \<not> idle now idle_timeout f) seen\<rparr>))"

definition flow_links :: "(u64, FlowEntry) hashmap \<Rightarrow> u64 links" where
  "flow_links m = (\<lambda>i. map_option (\<lambda>e. (fe_previous e, fe_next e)) (map_of m i))"

definition flow_data :: "FlowEntry \<Rightarrow> FlowKey \<times> nat \<times> nat option" where
  "flow_data e = (fe_key e, fe_last_activity e, fe_observed_traffic e)"

definition flow_rel :: "FlowTable \<Rightarrow> flow_queue \<Rightarrow> bool" where
  "flow_rel t q \<longleftrightarrow>
     ft_capacity t = fq_capacity q \<and> ft_observe_traffic t = fq_observe q \<and> length (ft_cells t) = fq_cells q \<and>
     hm_ok (ft_by_id t) \<and> ring (flow_links (ft_by_id t)) (ft_sweep_head t) (ft_sweep_tail t) (map fst (fq_flows q)) \<and>
     (\<forall>i. map_option flow_data (map_of (ft_by_id t) i) = map_of (fq_flows q) i) \<and>
     (\<forall>k i. map_of (ft_by_flow t) k = Some i \<longleftrightarrow> (\<exists>d. map_of (fq_flows q) i = Some (k, d)))"

lemma flow_relD:
  assumes "flow_rel t q"
  shows "ft_capacity t = fq_capacity q" and "ft_observe_traffic t = fq_observe q" and "length (ft_cells t) = fq_cells q"
    and "hm_ok (ft_by_id t)" and "ring (flow_links (ft_by_id t)) (ft_sweep_head t) (ft_sweep_tail t) (map fst (fq_flows q))"
    and "map_option flow_data (map_of (ft_by_id t) i) = map_of (fq_flows q) i"
    and "map_of (ft_by_flow t) k = Some i \<longleftrightarrow> (\<exists>d. map_of (fq_flows q) i = Some (k, d))"
    and "distinct (map fst (fq_flows q))"
  using assms by (auto simp: flow_rel_def ring_def)

lemma hm_length_dom: "hm_ok m \<Longrightarrow> length m = card (dom (map_of m))"
  using distinct_card [of "map fst m"] by (simp add: hm_ok_def dom_map_of_conv_image_fst)

lemma flow_length: "flow_rel t q \<Longrightarrow> length (ft_by_id t) = length (fq_flows q)"
proof -
  assume r: "flow_rel t q"
  have "map_of (ft_by_id t) i = None \<longleftrightarrow> map_of (fq_flows q) i = None" for i
    using flow_relD(6) [OF r, of i] by (cases "map_of (ft_by_id t) i"; cases "map_of (fq_flows q) i") simp_all
  then have "dom (map_of (ft_by_id t)) = dom (map_of (fq_flows q))" by (auto simp: dom_def)
  with hm_length_dom [OF flow_relD(4) [OF r]] hm_length_dom [of "fq_flows q"] flow_relD(8) [OF r] show ?thesis
    by (simp add: hm_ok_def)
qed

lemma flow_lookup:
  assumes "flow_rel t q"
  shows "map_of (ft_by_id t) i = None \<longleftrightarrow> map_of (fq_flows q) i = None"
    and "map_of (ft_by_id t) i = Some e \<Longrightarrow> map_of (fq_flows q) i = Some (flow_data e)"
  using flow_relD(6) [OF assms, of i] by (cases "map_of (ft_by_id t) i"; cases "map_of (fq_flows q) i"; simp)+

lemma map_of_touch: "map_of (touch i now fs) j =
    (if j = i then map_option (\<lambda>(k, a, c). (k, now, c)) (map_of fs i) else map_of fs j)"
  by (induction fs) (auto simp: touch_def)

lemma fst_touch [simp]: "map fst (touch i now fs) = map fst fs"
  by (induction fs) (auto simp: touch_def)

lemma links_insert: "flow_links (hm_insert i e m) = (flow_links m)(i \<mapsto> (fe_previous e, fe_next e))"
  by (auto simp: flow_links_def)

lemma links_remove: "flow_links (hm_remove i m) = (flow_links m)(i := None)"
  by (auto simp: flow_links_def)

lemma links_modify:
  "flow_links (hm_modify i (\<lambda>e. e\<lparr>fe_next := n\<rparr>) m) =
     (case flow_links m i of None \<Rightarrow> flow_links m | Some (p, _) \<Rightarrow> (flow_links m)(i \<mapsto> (p, n)))"
  "flow_links (hm_modify i (\<lambda>e. e\<lparr>fe_previous := p\<rparr>) m) =
     (case flow_links m i of None \<Rightarrow> flow_links m | Some (_, n) \<Rightarrow> (flow_links m)(i \<mapsto> (p, n)))"
  by (cases "map_of m i"; auto simp: flow_links_def)+

lemma touch_same_links: "map_of m i = Some e \<Longrightarrow> flow_links (hm_insert i (e\<lparr>fe_last_activity := now\<rparr>) m) = flow_links m"
  by (auto simp: flow_links_def)

lemma flow_rel_touch:
  assumes "flow_rel t q" and "map_of (ft_by_id t) i = Some e"
  shows "flow_rel (t\<lparr>ft_by_id := hm_insert i (e\<lparr>fe_last_activity := now\<rparr>) (ft_by_id t)\<rparr>)
    (q\<lparr>fq_flows := touch i now (fq_flows q)\<rparr>)"
  using flow_relD(1-7) [OF assms(1)] flow_lookup(2) [OF assms]
  unfolding flow_rel_def
  by (simp add: touch_same_links [OF assms(2)] map_of_touch flow_data_def)

lemma allocate_loop_cong:
  "(\<And>i. map_of a i = None \<longleftrightarrow> map_of b i = None) \<Longrightarrow> allocate_loop n draws a = allocate_loop n draws b"
  by (induction n draws a rule: allocate_loop.induct) auto

lemma allocate_loop_fresh: "allocate_loop n draws a = Inr i \<Longrightarrow> map_of a i = None"
  by (induction n draws a rule: allocate_loop.induct) (auto split: if_splits)

lemma find_flow:
  assumes "flow_rel t q"
  shows "find (\<lambda>(i, k, _). k = key) (fq_flows q) = None \<longleftrightarrow> map_of (ft_by_flow t) key = None"
    and "find (\<lambda>(i, k, _). k = key) (fq_flows q) = Some (i, d) \<Longrightarrow> map_of (ft_by_flow t) key = Some i"
proof -
  note f = flow_relD(7) [OF assms] and d = flow_relD(8) [OF assms]
  have in_set: "(i, k, r) \<in> set (fq_flows q) \<longleftrightarrow> map_of (fq_flows q) i = Some (k, r)" for i k r
    using d by (simp add: map_of_eq_Some_iff)
  show "find (\<lambda>(i, k, _). k = key) (fq_flows q) = None \<longleftrightarrow> map_of (ft_by_flow t) key = None"
  proof
    assume "map_of (ft_by_flow t) key = None"
    then show "find (\<lambda>(i, k, _). k = key) (fq_flows q) = None"
      using f [of key] in_set by (fastforce simp: find_None_iff)
  next
    assume "find (\<lambda>(i, k, _). k = key) (fq_flows q) = None"
    then show "map_of (ft_by_flow t) key = None"
      using f [of key] in_set by (cases "map_of (ft_by_flow t) key") (fastforce simp: find_None_iff)+
  qed
  assume "find (\<lambda>(i, k, _). k = key) (fq_flows q) = Some (i, d)"
  then have "(i, d) \<in> set (fq_flows q)" "fst d = key" by (auto simp: find_Some_iff) (metis nth_mem)
  then show "map_of (ft_by_flow t) key = Some i" using f [of key i] in_set by (cases d) auto
qed

lemma session_for_existing:
  assumes r: "flow_rel t q" and k: "map_of (ft_by_flow t) key = Some i"
  shows "fst (session_for key now draws t) = fst (queue_session_for key now draws q) \<and>
    flow_rel (snd (session_for key now draws t)) (snd (queue_session_for key now draws q))"
proof -
  obtain e where e: "map_of (ft_by_id t) i = Some e"
    using flow_relD(7) [OF r, of key i] flow_lookup(1) [OF r, of i] k by auto
  obtain d where "find (\<lambda>(i, k, _). k = key) (fq_flows q) = Some d"
    using find_flow(1) [OF r, of key] k by (cases "find (\<lambda>(i, k, _). k = key) (fq_flows q)") auto
  with find_flow(2) [OF r] k have "find (\<lambda>(i, k, _). k = key) (fq_flows q) = Some (i, snd d)" by (cases d) auto
  then show ?thesis using k e flow_rel_touch [OF r e] by (simp add: session_for_def queue_session_for_def split_beta)
qed

lemma flow_rel_append:
  assumes r: "flow_rel t q" and fresh: "map_of (ft_by_id t) i = None" "map_of (ft_by_flow t) key = None"
    and m: "map_option flow_data \<circ> map_of m = (map_of (fq_flows q))(i \<mapsto> (key, now, c))" and ok: "hm_ok m"
    and ring: "ring (flow_links m) h tail (map fst (fq_flows q) @ [i])"
    and n: "length cells = cs"
  shows "flow_rel (t\<lparr>ft_by_flow := hm_insert key i (ft_by_flow t), ft_cells := cells, ft_by_id := m, ft_sweep_head := h, ft_sweep_tail := tail\<rparr>)
    (q\<lparr>fq_flows := fq_flows q @ [(i, key, now, c)], fq_cells := cs\<rparr>)"
proof -
  have a: "map_of (fq_flows q @ [(i, key, now, c)]) = (map_of (fq_flows q))(i \<mapsto> (key, now, c))"
    using flow_lookup(1) [OF r, of i] fresh(1) by (auto simp: map_add_def fun_eq_iff split: option.split)
  have "map_option flow_data (map_of m j) = ((map_of (fq_flows q))(i \<mapsto> (key, now, c))) j" for j
    using fun_cong [OF m, of j] by simp
  moreover have "map_of (fq_flows q) i = None" using flow_lookup(1) [OF r, of i] fresh(1) by simp
  moreover have "map_of (fq_flows q) j \<noteq> Some (key, d)" for j d
    using flow_relD(7) [OF r, of key j] fresh(2) by (cases d) auto
  ultimately show ?thesis
    using flow_relD(1,2,7) [OF r] ok ring n unfolding flow_rel_def
    by (auto simp: a simp del: map_of_append split: if_splits)
qed

lemma session_for_new:
  assumes r: "flow_rel t q" and k: "map_of (ft_by_flow t) key = None"
  shows "fst (session_for key now draws t) = fst (queue_session_for key now draws q) \<and>
    flow_rel (snd (session_for key now draws t)) (snd (queue_session_for key now draws q))"
proof (cases "length (ft_by_id t) \<ge> ft_capacity t")
  case True
  then show ?thesis using r k find_flow(1) [OF r, of key] flow_length [OF r] flow_relD(1) [OF r]
    by (simp add: session_for_def queue_session_for_def)
next
  case False
  have same: "allocate_loop MAX_SESSION_ID_ATTEMPTS draws (fq_flows q) = allocate_session_id draws t"
    unfolding allocate_session_id_def by (rule allocate_loop_cong) (simp add: flow_lookup(1) [OF r])
  show ?thesis
  proof (cases "allocate_session_id draws t")
    case (Inl e)
    then show ?thesis using r k False same find_flow(1) [OF r, of key] flow_length [OF r] flow_relD(1) [OF r]
      by (simp add: session_for_def queue_session_for_def)
  next
    case (Inr i)
    have i: "map_of (ft_by_id t) i = None" using Inr allocate_loop_fresh by (auto simp: allocate_session_id_def)
    let ?c = "if fq_observe q then Some (fq_cells q) else None"
    let ?cells = "if fq_observe q then ft_cells t @ [TrafficCounters_default] else ft_cells t"
    let ?cs = "if fq_observe q then Suc (fq_cells q) else fq_cells q"
    let ?e = "\<lparr>fe_key = key, fe_last_activity = now, fe_previous = ft_sweep_tail t, fe_next = None, fe_observed_traffic = ?c\<rparr>"
    have cells: "length ?cells = ?cs" using flow_relD(3) [OF r] by simp
    have queue: "queue_session_for key now draws q =
        (Inr (i, True), q\<lparr>fq_flows := fq_flows q @ [(i, key, now, ?c)], fq_cells := ?cs\<rparr>)"
      using k False same Inr find_flow(1) [OF r, of key] flow_length [OF r] flow_relD(1) [OF r] by (simp add: queue_session_for_def)
    have data: "map_option flow_data \<circ> map_of (ft_by_id t) = map_of (fq_flows q)"
      using flow_relD(6) [OF r] by (simp add: fun_eq_iff)
    note step = flow_rel_append [OF r i k _ _ _ cells, of _ now ?c]
    show ?thesis
    proof (cases "ft_sweep_tail t")
      case None
      have nil: "fq_flows q = []" using flow_relD(5) [OF r] None by (simp add: ring_def)
      have "ring (flow_links (hm_insert i ?e (ft_by_id t))) (Some i) (Some i) (map fst (fq_flows q) @ [i])"
        using ring_push_back [of "flow_links (ft_by_id t)" "ft_sweep_head t" "[]" i] flow_relD(5) [OF r] None i nil
        by (simp add: links_insert) (simp add: flow_links_def)
      moreover have "map_option flow_data \<circ> map_of (hm_insert i ?e (ft_by_id t)) = (map_of (fq_flows q))(i \<mapsto> (key, now, ?c))"
        using data by (auto simp: fun_eq_iff flow_data_def)
      moreover have "session_for key now draws t = (Inr (i, True), t\<lparr>ft_by_flow := hm_insert key i (ft_by_flow t), ft_cells := ?cells,
          ft_by_id := hm_insert i ?e (ft_by_id t), ft_sweep_head := Some i, ft_sweep_tail := Some i\<rparr>)"
        using k False Inr None flow_relD(2,3) [OF r] by (simp add: session_for_def Let_def)
      ultimately show ?thesis
        using step [OF _ hm_ok_insert [OF flow_relD(4) [OF r]]] queue by simp
    next
      case (Some u)
      obtain ys where "map fst (fq_flows q) = ys @ [u]" using flow_relD(5) [OF r] Some by (auto simp: ring_def)
      then have u: "u \<in> set (map fst (fq_flows q))" by simp
      then obtain eu where eu: "map_of (ft_by_id t) u = Some eu"
        using ring_in [OF flow_relD(5) [OF r], of u] by (auto simp: flow_links_def)
      have ne: "u \<noteq> i" using eu i by auto
      let ?m = "hm_insert u (eu\<lparr>fe_next := Some i\<rparr>) (hm_insert i ?e (ft_by_id t))"
      have "ring (flow_links ?m) (ft_sweep_head t) (Some i) (map fst (fq_flows q) @ [i])"
        using ring_push_back_after [of "flow_links (ft_by_id t)" "ft_sweep_head t" u "map fst (fq_flows q)" i
            "fe_previous eu" "fe_next eu"] flow_relD(5) [OF r] Some i eu
        by (simp add: links_insert) (simp add: flow_links_def)
      moreover have "map_option flow_data \<circ> map_of ?m = (map_of (fq_flows q))(i \<mapsto> (key, now, ?c))"
        using data flow_lookup(2) [OF r eu] ne by (auto simp: fun_eq_iff flow_data_def)
      moreover have "session_for key now draws t = (Inr (i, True), t\<lparr>ft_by_flow := hm_insert key i (ft_by_flow t), ft_cells := ?cells,
          ft_by_id := ?m, ft_sweep_head := ft_sweep_head t, ft_sweep_tail := Some i\<rparr>)"
        using k False Inr Some eu ne flow_relD(2,3) [OF r] by (simp add: session_for_def Let_def)
      ultimately show ?thesis
        using step [where m = ?m and h = "ft_sweep_head t" and tail = "Some i"] queue flow_relD(4) [OF r] by simp
    qed
  qed
qed

lemma map_of_filter_fst:
  "map_of (filter (\<lambda>f. fst f \<noteq> i) fs) = (map_of fs)(i := None)"
  by (induction fs) (auto simp: fun_eq_iff)

lemma flow_remove_links:
  assumes "map_of (ft_by_id t) i = Some e"
  shows "flow_links (ft_by_id (snd (flow_remove i t))) = unlink i (flow_links (ft_by_id t))"
proof -
  have "flow_links (ft_by_id t) i = Some (fe_previous e, fe_next e)" using assms by (simp add: flow_links_def)
  then show ?thesis
    by (auto simp: flow_remove_def assms Let_def unlink_def links_modify links_remove split: option.split)
qed

lemma flow_data_links [simp]:
  "flow_data (e\<lparr>fe_next := n\<rparr>) = flow_data e" "flow_data (e\<lparr>fe_previous := p\<rparr>) = flow_data e"
  by (simp_all add: flow_data_def)

lemma flow_remove_data:
  assumes "map_of (ft_by_id t) i = Some e"
  shows "map_option flow_data (map_of (ft_by_id (snd (flow_remove i t))) j) =
      (if j = i then None else map_option flow_data (map_of (ft_by_id t) j))"
    and "hm_ok (ft_by_id t) \<Longrightarrow> hm_ok (ft_by_id (snd (flow_remove i t)))"
    and "ft_by_flow (snd (flow_remove i t)) = hm_remove (fe_key e) (ft_by_flow t)"
    and "ft_capacity (snd (flow_remove i t)) = ft_capacity t" "ft_cells (snd (flow_remove i t)) = ft_cells t"
      "ft_observe_traffic (snd (flow_remove i t)) = ft_observe_traffic t"
    and "ft_sweep_head (snd (flow_remove i t)) = (if fe_previous e = None then fe_next e else ft_sweep_head t)"
    and "ft_sweep_tail (snd (flow_remove i t)) = (if fe_next e = None then fe_previous e else ft_sweep_tail t)"
    and "fst (flow_remove i t)"
  by (auto simp: flow_remove_def assms Let_def option.map_comp o_def split: option.split)

lemma remove_refines:
  assumes r: "flow_rel t q"
  shows "fst (flow_remove i t) = fst (queue_remove i q) \<and> flow_rel (snd (flow_remove i t)) (snd (queue_remove i q))"
proof (cases "map_of (ft_by_id t) i")
  case None
  then have "map_of (fq_flows q) i = None" using flow_lookup(1) [OF r] by simp
  moreover from this have "filter (\<lambda>f. fst f \<noteq> i) (fq_flows q) = fq_flows q"
    by (auto simp: map_of_eq_None_iff intro!: filter_True)
  ultimately show ?thesis using None r by (simp add: flow_remove_def queue_remove_def)
next
  case (Some e)
  have q: "map_of (fq_flows q) i = Some (flow_data e)" by (rule flow_lookup(2) [OF r Some])
  have "i \<in> set (map fst (fq_flows q))" using q by (force dest: map_of_SomeD)
  then obtain a b where ab: "map fst (fq_flows q) = a @ i # b" "i \<notin> set a" "i \<notin> set b"
    and l: "flow_links (ft_by_id t) i = Some (last_opt a, head_opt b)"
    by (rule ring_split [OF flow_relD(5) [OF r]])
  have e: "fe_previous e = last_opt a" "fe_next e = head_opt b" using l Some by (simp_all add: flow_links_def)
  have fs: "map fst (filter (\<lambda>f. fst f \<noteq> i) (fq_flows q)) = a @ b"
  proof -
    have "map fst (filter (\<lambda>f. fst f \<noteq> i) (fq_flows q)) = filter (\<lambda>j. j \<noteq> i) (map fst (fq_flows q))"
      by (simp add: filter_map o_def)
    also have "\<dots> = a @ b"
    proof -
      have "filter (\<lambda>j. j \<noteq> i) a = a" "filter (\<lambda>j. j \<noteq> i) b = b" using ab by (auto intro!: filter_True)
      then show ?thesis using ab by simp
    qed
    finally show ?thesis .
  qed
  define t' where "t' = snd (flow_remove i t)"
  note d = flow_remove_data [OF Some, folded t'_def]
  have "ring (flow_links (ft_by_id t')) (ft_sweep_head t') (ft_sweep_tail t') (a @ b)"
    using ring_unlink [OF flow_relD(5) [OF r, unfolded ab(1)]]
    by (cases "a = []"; cases "b = []") (simp_all add: flow_remove_links [OF Some, folded t'_def] d(7,8) e)
  moreover have "map_of (hm_remove (fe_key e) (ft_by_flow t)) k = Some j \<longleftrightarrow>
      (\<exists>x. ((map_of (fq_flows q))(i := None)) j = Some (k, x))" for k j
  proof -
    have "map_of (ft_by_flow t) (fe_key e) = Some i" using q flow_relD(7) [OF r, of "fe_key e" i] by (auto simp: flow_data_def)
    then have A: "j = i" if "map_of (fq_flows q) j = Some (fe_key e, x)" for x
      using flow_relD(7) [OF r, of "fe_key e" j] that by simp
    have B: "k = fe_key e" if "map_of (fq_flows q) i = Some (k, x)" for x
      using q that by (simp add: flow_data_def)
    show ?thesis
    proof (cases "k = fe_key e \<or> j = i")
      case True
      then have "map_of (fq_flows q) j \<noteq> Some (k, x)" if "j \<noteq> i" for x using A that by blast
      moreover have "map_of (ft_by_flow t) k \<noteq> Some i" if "k \<noteq> fe_key e"
        using flow_relD(7) [OF r, of k i] B that by blast
      ultimately show ?thesis using True by auto
    next
      case False
      then show ?thesis using flow_relD(7) [OF r, of k j] by simp
    qed
  qed
  moreover have "map_option flow_data (map_of (ft_by_id t') j) = ((map_of (fq_flows q))(i := None)) j" for j
    using d(1) flow_relD(6) [OF r, of j] by simp
  ultimately show ?thesis
    using flow_relD(1-3) [OF r] d(2) [OF flow_relD(4) [OF r]] d(3-6,9) q
    unfolding queue_remove_def flow_rel_def t'_def [symmetric] by (simp add: fs map_of_filter_fst)
qed

lemma reply_refines:
  assumes r: "flow_rel t q"
  shows "fst (validate_reply i rc ds now t) = fst (queue_validate_reply i rc ds now q) \<and>
    flow_rel (snd (validate_reply i rc ds now t)) (snd (queue_validate_reply i rc ds now q))"
proof (cases "map_of (ft_by_id t) i")
  case None
  then show ?thesis using r flow_lookup(1) [OF r, of i] by (simp add: validate_reply_def queue_validate_reply_def)
next
  case (Some e)
  then show ?thesis using r flow_lookup(2) [OF r Some] flow_rel_touch [OF r Some]
    by (auto simp: validate_reply_def queue_validate_reply_def flow_data_def)
qed

lemma rotate_refines:
  assumes r: "flow_rel t (q\<lparr>fq_flows := f # fs\<rparr>)"
  shows "\<exists>t'. rotate_sweep_head (fst f) t = (Inr (), t') \<and> flow_rel t' (q\<lparr>fq_flows := fs @ [f]\<rparr>)"
proof (cases fs)
  case Nil
  then show ?thesis using r flow_relD(5) [OF r] by (auto simp: rotate_sweep_head_def ring_def)
next
  case (Cons g gs)
  let ?i = "fst f" and ?n = "fst g"
  have ring: "ring (flow_links (ft_by_id t)) (ft_sweep_head t) (ft_sweep_tail t) (?i # ?n # map fst gs)"
    using flow_relD(5) [OF r] Cons by simp
  then have head: "ft_sweep_head t = Some ?i" and li: "flow_links (ft_by_id t) ?i = Some (None, Some ?n)"
    and d: "distinct (?i # ?n # map fst gs)" by (auto simp: ring_def)
  obtain z where z: "ft_sweep_tail t = Some z" "z \<in> set (?n # map fst gs)"
    using ring last_in_set [of "?n # map fst gs"] by (auto simp: ring_def last_opt_def split: if_splits)
  have mem: "x \<in> set (?i # ?n # map fst gs) \<Longrightarrow> \<exists>e. map_of (ft_by_id t) x = Some e" for x
    using ring_in [OF ring, of x] by (auto simp: flow_links_def)
  obtain ei en ez where m: "map_of (ft_by_id t) ?i = Some ei" "map_of (ft_by_id t) ?n = Some en" "map_of (ft_by_id t) z = Some ez"
    using mem z by (meson list.set_intros)
  have ne: "z \<noteq> ?i" "?n \<noteq> ?i" using z d by auto
  have next': "fe_next ei = Some ?n" using li m by (simp add: flow_links_def)
  let ?m = "hm_modify ?i (\<lambda>e. e\<lparr>fe_previous := Some z, fe_next := None\<rparr>)
    (hm_modify z (\<lambda>e. e\<lparr>fe_next := Some ?i\<rparr>) (hm_modify ?n (\<lambda>e. e\<lparr>fe_previous := None\<rparr>) (ft_by_id t)))"
  define m' where "m' = ?m"
  let ?t = "t\<lparr>ft_by_id := m', ft_sweep_head := Some ?n, ft_sweep_tail := Some ?i\<rparr>"
  have rot: "rotate_sweep_head ?i t = (Inr (), ?t)"
    using head z m ne next' by (simp add: rotate_sweep_head_def Let_def m'_def)
  let ?L = "flow_links (ft_by_id t)"
  obtain pz nz where lz: "(?L(?n \<mapsto> (None, fe_next en))) z = Some (pz, nz)"
    using m by (cases "z = ?n") (auto simp: flow_links_def)
  have "flow_links m' = ?L(?n \<mapsto> (None, fe_next en), z \<mapsto> (pz, Some ?i), ?i \<mapsto> (Some z, None))"
    using lz m ne by (auto simp: flow_links_def fun_eq_iff m'_def)
  moreover have "?L ?n = Some (fe_previous en, fe_next en)" using m by (simp add: flow_links_def)
  ultimately have ring': "ring (flow_links m') (Some ?n) (Some ?i) (map fst (fs @ [f]))"
    using ring_rotate [OF ring _ z(1) lz] Cons by simp
  have data: "map_option flow_data (map_of m' j) = map_option flow_data (map_of (ft_by_id t) j)" for j
    by (auto simp: option.map_comp o_def m'_def)
  have ok: "hm_ok m'" using flow_relD(4) [OF r] by (simp add: m'_def)
  have same: "map_of (fs @ [f]) = map_of (f # fs)"
    using flow_relD(8) [OF r] map_of_inject_set [of "fs @ [f]" "f # fs"] by auto
  have "flow_rel ?t (q\<lparr>fq_flows := fs @ [f]\<rparr>)"
    using flow_relD(1-3,6,7) [OF r] ok ring' unfolding flow_rel_def
    by (simp add: data same del: map_of_append map_of.simps)
  with rot show ?thesis by blast
qed

lemma sweep_loop_refines:
  assumes "flow_rel t q" and "n \<le> length (fq_flows q)"
  shows "\<exists>t'. sweep_loop now timeout n expired t =
      (Inr (expired @ map (\<lambda>(i, _, _, c). (i, c)) (filter (idle now timeout) (take n (fq_flows q)))), t') \<and>
    flow_rel t' (q\<lparr>fq_flows := drop n (fq_flows q) @ filter (\<lambda>f. \<not> idle now timeout f) (take n (fq_flows q))\<rparr>)"
  using assms
proof (induction n arbitrary: t q expired)
  case (Suc n)
  obtain f fs where fs: "fq_flows q = f # fs" using Suc.prems(2) by (cases "fq_flows q") auto
  obtain i k a c where f: "f = (i, k, a, c)" by (cases f)
  have q: "q = q\<lparr>fq_flows := f # fs\<rparr>" using fs by simp
  have head: "ft_sweep_head t = Some i" using flow_relD(5) [OF Suc.prems(1)] fs f by (simp add: ring_def)
  obtain e where e: "map_of (ft_by_id t) i = Some e" "flow_data e = (k, a, c)"
    using flow_relD(6) [OF Suc.prems(1), of i] fs f by auto
  show ?case
  proof (cases "idle now timeout f")
    case True
    obtain t1 where rem: "flow_remove i t = (True, t1)"
      using flow_remove_data(9) [OF e(1)] by (cases "flow_remove i t") auto
    have "filter (\<lambda>g. fst g \<noteq> i) (fq_flows q) = fs"
      using flow_relD(8) [OF Suc.prems(1)] fs f by (auto intro!: filter_True)
    then have "flow_rel t1 (q\<lparr>fq_flows := fs\<rparr>)"
      using remove_refines [OF Suc.prems(1), of i] rem by (simp add: queue_remove_def)
    from Suc.IH [OF this, of "expired @ [(i, c)]"] Suc.prems(2) fs
    show ?thesis using True f e head rem by (simp add: idle_def flow_data_def observed_traffic_def)
  next
    case False
    obtain t1 where rot: "rotate_sweep_head i t = (Inr (), t1)" "flow_rel t1 (q\<lparr>fq_flows := fs @ [f]\<rparr>)"
      using rotate_refines [where t = t and q = q and f = f and fs = fs] Suc.prems(1) q f by auto
    from Suc.IH [OF rot(2), of expired] Suc.prems(2) fs
    show ?thesis using False f e head rot(1) by (simp add: idle_def flow_data_def)
  qed
qed simp

lemma sweep_refines:
  assumes r: "flow_rel t q"
  shows "fst (sweep_expired now timeout maximum t) = fst (queue_sweep now timeout maximum q) \<and>
    flow_rel (snd (sweep_expired now timeout maximum t)) (snd (queue_sweep now timeout maximum q))"
proof -
  have "take (min maximum (length (fq_flows q))) (fq_flows q) = take maximum (fq_flows q)"
    "drop (min maximum (length (fq_flows q))) (fq_flows q) = drop maximum (fq_flows q)" by (auto simp: min_def)
  with sweep_loop_refines [OF r, of "min maximum (length (fq_flows q))" now timeout "[]"] show ?thesis
    by (auto simp: sweep_expired_def queue_sweep_def flow_length [OF r] Let_def)
qed

lemma clear_refines: "flow_rel t q \<Longrightarrow> flow_rel (flow_clear t) (q\<lparr>fq_flows := []\<rparr>)"
  by (simp add: flow_rel_def flow_clear_def flow_links_def)

subsection \<open>Sequences of calls\<close>

datatype flow_op =
    SessionFor FlowKey nat "u64 option list"
  | RemoveFlow u64
  | ValidateReply u64 SocketAddr SocketAddr nat
  | SweepExpired nat nat nat
  | TakeObserved
  | ClearFlows

datatype flow_answer =
    SessionAnswer "(FlowError, u64 \<times> bool) result"
  | FoundAnswer bool
  | SweepAnswer "(FlowError, (u64 \<times> nat option) list) result"
  | DoneAnswer

fun flow_step :: "FlowTable \<Rightarrow> flow_op \<Rightarrow> flow_answer \<times> FlowTable" where
  "flow_step t (SessionFor key now draws) = map_prod SessionAnswer id (session_for key now draws t)"
| "flow_step t (RemoveFlow i) = map_prod FoundAnswer id (flow_remove i t)"
| "flow_step t (ValidateReply i recipient destination now) =
     map_prod FoundAnswer id (validate_reply i recipient destination now t)"
| "flow_step t (SweepExpired now timeout maximum) = map_prod SweepAnswer id (sweep_expired now timeout maximum t)"
| "flow_step t TakeObserved = (DoneAnswer, snd (take_observed_traffic t))"
| "flow_step t ClearFlows = (DoneAnswer, flow_clear t)"

fun queue_step :: "flow_queue \<Rightarrow> flow_op \<Rightarrow> flow_answer \<times> flow_queue" where
  "queue_step q (SessionFor key now draws) = map_prod SessionAnswer id (queue_session_for key now draws q)"
| "queue_step q (RemoveFlow i) = map_prod FoundAnswer id (queue_remove i q)"
| "queue_step q (ValidateReply i recipient destination now) =
     map_prod FoundAnswer id (queue_validate_reply i recipient destination now q)"
| "queue_step q (SweepExpired now timeout maximum) = map_prod SweepAnswer id (queue_sweep now timeout maximum q)"
| "queue_step q TakeObserved = (DoneAnswer, q)"
| "queue_step q ClearFlows = (DoneAnswer, q\<lparr>fq_flows := []\<rparr>)"

definition empty_queue :: "nat \<Rightarrow> bool \<Rightarrow> flow_queue" where
  "empty_queue capacity observe = \<lparr>fq_capacity = capacity, fq_observe = observe, fq_flows = [], fq_cells = 0\<rparr>"

lemma length_take_traffic: "length (snd (take_traffic m cells)) = length cells"
  by (induction m cells rule: take_traffic.induct)
    (auto simp: take_cell_def split_beta Let_def split: option.splits)

interpretation flow_table: answering_refinement flow_step queue_step flow_rel
proof
  fix t q op
  assume r: "flow_rel t q"
  show "fst (flow_step t op) = fst (queue_step q op) \<and> flow_rel (snd (flow_step t op)) (snd (queue_step q op))"
  proof (cases op)
    case (SessionFor key now draws)
    show ?thesis
    proof (cases "map_of (ft_by_flow t) key")
      case None
      from session_for_new [OF r this] show ?thesis by (simp add: SessionFor)
    next
      case (Some i)
      from session_for_existing [OF r this] show ?thesis by (simp add: SessionFor)
    qed
  next
    case TakeObserved
    then show ?thesis using r
      by (simp add: take_observed_traffic_def split_beta Let_def flow_rel_def length_take_traffic)
  qed (use remove_refines [OF r] reply_refines [OF r] sweep_refines [OF r] clear_refines [OF r] in simp_all)
qed

lemma flow_rel_new: "flow_rel (FlowTable_new capacity observe) (empty_queue capacity observe)"
  by (simp add: flow_rel_def FlowTable_new_def empty_queue_def flow_links_def)

lemma queue_step_bound:
  "length (fq_flows q) \<le> fq_capacity q \<Longrightarrow>
     length (fq_flows (snd (queue_step q op))) \<le> fq_capacity (snd (queue_step q op)) \<and>
     fq_capacity (snd (queue_step q op)) = fq_capacity q"
proof (cases op)
  case (SweepExpired now timeout maximum)
  assume b: "length (fq_flows q) \<le> fq_capacity q"
  have "length (drop maximum (fq_flows q)) + length (filter (\<lambda>f. \<not> idle now timeout f) (take maximum (fq_flows q))) \<le>
      length (drop maximum (fq_flows q)) + length (take maximum (fq_flows q))" by (simp add: length_filter_le del: length_take)
  also have "\<dots> = length (fq_flows q)" by (metis append_take_drop_id length_append add.commute)
  finally show ?thesis using b by (simp add: SweepExpired queue_sweep_def Let_def)
qed (auto simp: queue_session_for_def queue_remove_def queue_validate_reply_def touch_def
    split: option.splits sum.splits if_splits intro: le_trans [OF length_filter_le])

lemma queue_answers_bound:
  "length (fq_flows q) \<le> fq_capacity q \<Longrightarrow>
     length (fq_flows (snd (answers queue_step q ops))) \<le> fq_capacity q"
proof (induction ops arbitrary: q)
  case (Cons op ops)
  from Cons.IH [of "snd (queue_step q op)"] queue_step_bound [OF Cons.prems, of op] show ?case
    by (simp add: split_beta Let_def)
qed simp

definition consistent_answer :: "flow_answer \<Rightarrow> bool" where
  "consistent_answer a \<longleftrightarrow> a \<noteq> SessionAnswer (Inl FlowInconsistent) \<and> (case a of SweepAnswer r \<Rightarrow> is_ok r | _ \<Rightarrow> True)"

lemma allocate_loop_error: "allocate_loop n draws m = Inl e \<Longrightarrow> e = FlowEntropyUnavailable"
  by (induction n draws m rule: allocate_loop.induct) (auto split: if_splits)

lemma queue_answers_consistent: "list_all consistent_answer (fst (answers queue_step q ops))"
proof (induction ops arbitrary: q)
  case (Cons op ops)
  have "consistent_answer (fst (queue_step q op))"
    by (cases op) (auto simp: consistent_answer_def queue_session_for_def queue_sweep_def Let_def
        dest: allocate_loop_error split: option.split sum.split)
  with Cons show ?case by (simp add: split_beta Let_def)
qed simp

text \<open>
  C20 (the flow table is a queue): on every sequence of calls the table with its two maps and its
  hand-linked ring answers exactly as a plain queue of flows does, for which a sweep takes flows from
  the front and puts those still in use back at the end. It never holds more flows than its capacity
  and never reports that its links are inconsistent.
\<close>

theorem flow_table_is_queue:
  "fst (answers flow_step (FlowTable_new capacity observe) ops) =
     fst (answers queue_step (empty_queue capacity observe) ops) \<and>
   length (ft_by_id (snd (answers flow_step (FlowTable_new capacity observe) ops))) \<le> capacity \<and>
   list_all consistent_answer (fst (answers flow_step (FlowTable_new capacity observe) ops))"
proof -
  note r = flow_table.answers_same [OF flow_rel_new, of capacity observe ops]
  have "length (fq_flows (snd (answers queue_step (empty_queue capacity observe) ops))) \<le> capacity"
    using queue_answers_bound [of "empty_queue capacity observe" ops] by (simp add: empty_queue_def)
  with r flow_length [OF conjunct2 [OF r]] show ?thesis by (simp add: queue_answers_consistent)
qed

subsection \<open>Idle flows are removed in time\<close>

fun is_sweep :: "flow_op \<Rightarrow> bool" where
  "is_sweep (SweepExpired now timeout maximum) = True"
| "is_sweep _ = False"

text \<open>Calls during which a flow stays idle: no datagram belongs to it, and sweeps happen after its timeout.\<close>

fun leaves_idle :: "u64 \<Rightarrow> FlowEntry \<Rightarrow> nat \<Rightarrow> nat \<Rightarrow> flow_op \<Rightarrow> bool" where
  "leaves_idle i e timeout batch (SessionFor key now draws) = (key \<noteq> fe_key e)"
| "leaves_idle i e timeout batch (ValidateReply j recipient destination now) =
     (j \<noteq> i \<or> recipient \<noteq> fk_source (fe_key e) \<or> destination \<noteq> fk_destination (fe_key e))"
| "leaves_idle i e timeout batch (SweepExpired now timeout' maximum) =
     (timeout' = timeout \<and> maximum = batch \<and> now - fe_last_activity e \<ge> timeout)"
| "leaves_idle i e timeout batch _ = True"

definition flow_of :: "u64 \<Rightarrow> FlowEntry \<Rightarrow> u64 \<times> FlowKey \<times> nat \<times> nat option" where
  "flow_of i e = (i, flow_data e)"

lemma touch_other: "j \<noteq> i \<Longrightarrow> touch j now (xs @ flow_of i e # ys) = touch j now xs @ flow_of i e # touch j now ys"
  by (auto simp: touch_def flow_of_def flow_data_def)

lemma length_touch [simp]: "length (touch i now xs) = length xs"
  by (simp add: touch_def)

lemma distinct_split_map_of:
  "distinct (map fst (xs @ flow_of i e # ys)) \<Longrightarrow> map_of (xs @ flow_of i e # ys) i = Some (flow_data e)"
  by (subst map_of_eq_Some_iff) (auto simp: flow_of_def)

lemma idle_flow_step:
  assumes fs: "fq_flows q = xs @ flow_of i e # ys" and d: "distinct (map fst (fq_flows q))" and op: "leaves_idle i e timeout batch op"
  shows "map_of (fq_flows (snd (queue_step q op))) i = None \<or>
    (\<exists>xs' ys'. fq_flows (snd (queue_step q op)) = xs' @ flow_of i e # ys' \<and>
       length xs' + (if is_sweep op then batch else 0) \<le> length xs)"
proof (cases op)
  case (SessionFor key now draws)
  note o = op [unfolded SessionFor leaves_idle.simps]
  show ?thesis
  proof (cases "find (\<lambda>(i, k, _). k = key) (fq_flows q)")
    case None
    then show ?thesis using fs by (auto simp: SessionFor queue_session_for_def split: sum.split)
  next
    case (Some f)
    then have f: "f \<in> set (fq_flows q)" "fst (snd f) = key" by (auto simp: find_Some_iff) (metis nth_mem)
    have "fst f \<noteq> i"
    proof
      assume "fst f = i"
      then have "map_of (fq_flows q) i = Some (snd f)" using f(1) d by (cases f) (simp add: map_of_eq_Some_iff)
      with distinct_split_map_of [OF d [unfolded fs], folded fs] f(2) o show False by (auto simp: flow_data_def)
    qed
    then show ?thesis using Some fs by (cases f) (auto simp: SessionFor queue_session_for_def touch_other)
  qed
next
  case (RemoveFlow j)
  show ?thesis
  proof (cases "j = i")
    case True
    then show ?thesis by (simp add: RemoveFlow queue_remove_def map_of_filter_fst)
  next
    case False
    then show ?thesis using fs by (auto simp: RemoveFlow queue_remove_def flow_of_def intro!: exI length_filter_le)
  qed
next
  case (ValidateReply j rc ds now)
  note o = op [unfolded ValidateReply leaves_idle.simps]
  show ?thesis
  proof (cases "j = i")
    case True
    then show ?thesis using o fs distinct_split_map_of [OF d [unfolded fs], folded fs]
      by (auto simp: ValidateReply queue_validate_reply_def flow_data_def)
  next
    case False
    then show ?thesis using fs
      by (auto simp: ValidateReply queue_validate_reply_def touch_other split: option.split)
  qed
next
  case (SweepExpired now timeout' maximum)
  note o = op [unfolded SweepExpired leaves_idle.simps]
  have idle: "idle now timeout (flow_of i e)" using o by (simp add: idle_def flow_of_def flow_data_def)
  show ?thesis
  proof (cases "length xs < batch")
    case True
    obtain n where n: "batch = length xs + Suc n" using less_imp_Suc_add [OF True] by auto
    have "i \<notin> fst ` set (drop batch (fq_flows q))"
      using d fs by (auto simp: n flow_of_def dest!: in_set_dropD intro: rev_image_eqI)
    moreover have "f = flow_of i e" if "f \<in> set (take batch (fq_flows q))" "fst f = i" for f
      using in_set_takeD [OF that(1)] that(2) d fs by (auto simp: flow_of_def)
    ultimately show ?thesis
      using o idle by (auto simp: SweepExpired queue_sweep_def Let_def map_of_eq_None_iff simp del: map_of_append)
  next
    case False
    then show ?thesis using o fs by (auto simp: SweepExpired queue_sweep_def Let_def)
  qed
qed (use fs in auto)

lemma idle_flow_gone:
  assumes "flow_rel t q" and "fq_flows q = xs @ flow_of i e # ys" and "list_all (leaves_idle i e timeout batch) later"
    and "length xs < batch * length (filter is_sweep later)"
  shows "\<exists>k \<le> length later. map_of (ft_by_id (snd (answers flow_step t (take k later)))) i = None"
  using assms
proof (induction later arbitrary: t q xs ys)
  case (Cons op later)
  let ?t = "snd (flow_step t op)" and ?q = "snd (queue_step q op)"
  have r: "flow_rel ?t ?q" using flow_table.simulate [OF Cons.prems(1)] by blast
  have op: "leaves_idle i e timeout batch op" "list_all (leaves_idle i e timeout batch) later" using Cons.prems(3) by simp_all
  from idle_flow_step [OF Cons.prems(2) flow_relD(8) [OF Cons.prems(1)] op(1)] show ?case
  proof (rule disjE)
    assume "map_of (fq_flows ?q) i = None"
    then have "map_of (ft_by_id ?t) i = None" using flow_lookup(1) [OF r] by simp
    then show ?case by (intro exI [of _ 1]) (simp add: split_beta Let_def)
  next
    assume "\<exists>xs' ys'. fq_flows ?q = xs' @ flow_of i e # ys' \<and> length xs' + (if is_sweep op then batch else 0) \<le> length xs"
    then obtain xs' ys' where x: "fq_flows ?q = xs' @ flow_of i e # ys'"
      "length xs' + (if is_sweep op then batch else 0) \<le> length xs" by blast
    have "length xs' < batch * length (filter is_sweep later)" using x(2) Cons.prems(4) by (auto split: if_splits)
    from Cons.IH [OF r x(1) op(2) this] obtain k where
      "k \<le> length later" "map_of (ft_by_id (snd (answers flow_step ?t (take k later)))) i = None" by blast
    then show ?case by (intro exI [of _ "Suc k"]) (simp add: split_beta Let_def)
  qed
qed simp

text \<open>
  C21 (idle flows are removed in time): with the batch size that the relay computes from its limits,
  a flow that stays idle is removed at the latest by the sweep that the idle timeout has room for,
  whatever other flows come, go and stay in the meantime.
\<close>

theorem idle_flows_swept:
  assumes "effective_sweep_batch limits capacity = Inr batch"
    and "t = snd (answers flow_step (FlowTable_new capacity observe) ops)"
    and "map_of (ft_by_id t) i = Some e"
    and "list_all (leaves_idle i e (ur_idle_timeout limits) batch) later"
    and "sweeps_before_timeout (ur_idle_timeout limits) (ur_sweep_interval limits) \<le> length (filter is_sweep later)"
  shows "\<exists>k \<le> length later. map_of (ft_by_id (snd (answers flow_step t (take k later)))) i = None"
proof -
  let ?q = "snd (answers queue_step (empty_queue capacity observe) ops)"
  let ?n = "sweeps_before_timeout (ur_idle_timeout limits) (ur_sweep_interval limits)"
  have r: "flow_rel t ?q" using flow_table.answers_same [OF flow_rel_new, of capacity observe ops] assms(2) by simp
  have "map_of (fq_flows ?q) i = Some (flow_data e)" by (rule flow_lookup(2) [OF r assms(3)])
  then obtain xs ys where fs: "fq_flows ?q = xs @ flow_of i e # ys"
    by (metis flow_of_def map_of_SomeD split_list)
  have "length xs < capacity"
    using queue_answers_bound [of "empty_queue capacity observe" ops] fs by (simp add: empty_queue_def)
  also have "capacity \<le> ?n * div_ceil capacity ?n" by (rule div_ceil_covers) (simp add: sweeps_before_timeout_def)
  also have "\<dots> \<le> length (filter is_sweep later) * batch"
    using assms(1,5) by (intro mult_le_mono)
      (auto simp: effective_sweep_batch_def minimum_sweep_batch_def split: if_splits)
  finally show ?thesis using idle_flow_gone [OF r fs assms(4)] by (simp add: mult.commute)
qed

definition sample_flow_limits :: UdpRuntimeLimits where
  "sample_flow_limits = \<lparr>ur_queue_capacity = 8, ur_idle_timeout = 20, ur_sweep_interval = 10, ur_sweep_batch = 1,
     ur_writer_delay = 0, ur_test_disconnect_after_replies = None\<rparr>"

definition sample_key :: "nat \<Rightarrow> FlowKey" where
  "sample_key n = \<lparr>fk_source = SocketV4 [10, 0, 0, 1] (word_of_nat n), fk_destination = SocketV4 [10, 0, 0, 9] 53\<rparr>"

theorem idle_flows_swept_witness:
  "\<exists>k \<le> 3. map_of (ft_by_id (snd (answers flow_step
       (snd (answers flow_step (FlowTable_new 4 False)
          [SessionFor (sample_key 1) 1 [Some 7], SessionFor (sample_key 2) 2 [Some 8], SessionFor (sample_key 3) 2 [Some 9]]))
       (take k [SweepExpired 22 20 2, SessionFor (sample_key 2) 23 [], SweepExpired 32 20 2])))) 9 = None"
proof -
  let ?ops = "[SessionFor (sample_key 1) 1 [Some 7], SessionFor (sample_key 2) 2 [Some 8], SessionFor (sample_key 3) 2 [Some 9]]"
  let ?t = "snd (answers flow_step (FlowTable_new 4 False) ?ops)"
  let ?later = "[SweepExpired 22 20 2, SessionFor (sample_key 2) 23 [], SweepExpired 32 20 2]"
  let ?e = "the (map_of (ft_by_id ?t) 9)"
  have e: "map_of (ft_by_id ?t) 9 = Some ?e" "fe_last_activity ?e = 2" "fe_key ?e = sample_key 3" by code_simp+
  have b: "effective_sweep_batch sample_flow_limits 4 = Inr 2"
    by (simp add: effective_sweep_batch_def minimum_sweep_batch_def sweeps_before_timeout_def div_ceil_def sample_flow_limits_def flip: numeral_2_eq_2)
  have "sample_key 2 \<noteq> sample_key 3" by (simp add: sample_key_def)
  then have l: "list_all (leaves_idle 9 ?e (ur_idle_timeout sample_flow_limits) 2) ?later"
    using e(2,3) by (simp add: sample_flow_limits_def)
  have "sweeps_before_timeout (ur_idle_timeout sample_flow_limits) (ur_sweep_interval sample_flow_limits) \<le>
      length (filter is_sweep ?later)" by (simp add: sweeps_before_timeout_def sample_flow_limits_def)
  then show ?thesis using idle_flows_swept [OF b refl e(1) l] by (simp add: numeral_3_eq_3 del: answers.simps)
qed

end
