(* ===== verification/Session_Runtime.thy ===== *)
theory Session_Runtime
  imports Channel_Binding Authenticator Observability
begin

text \<open>
  The state of one authenticated control session on the server (\<open>rustgos/src/registry.rs\<close>,
  \<open>SessionRuntime\<close>): the bounded queue of messages to the client, the one-time binding tokens, and
  the relay connections that wait for the client's data channel. A waiting connection holds the
  sending half of a oneshot channel; channels are numbered in the order of their creation. The random
  identifiers and tokens are inputs, a missing draw being a failure of the generator. The theorems: a
  data channel that presents a token is handed to the connection that the token was made for, every
  connection gets at most one data channel, and a waiting connection is found as long as its token
  has not expired.
\<close>

definition MAX_CONNECTION_ID_ATTEMPTS :: nat where "MAX_CONNECTION_ID_ATTEMPTS = 16"

datatype io_error = AddrInUse | PermissionDenied | OtherIoError

datatype RegistryError =
    RegistryInvalidConfiguration
  | AlreadyConnected
  | RegistryCapacityReached
  | UnknownTunnel
  | InvalidTunnelRegistration
  | UdpBindAddressRequired
  | Binding BindingError
  | Io io_error
  | RegistryEntropyUnavailable
  | RegistryInternal
  | ObservabilityAlreadyConfigured
  | GenerationExhausted
  | RegistryPanic

text \<open>The last value stands for a panic of an \<open>expect\<close>.\<close>

subsection \<open>The queue of outgoing messages\<close>

text \<open>
  The sending half of the bounded channel that a session's control connection drains, as the state of the runtime:
  places taken by messages and by permits never exceed the capacity, a permit reserves a place and gives it back
  when it is sent or dropped, sending fails on a full or closed channel, and a message of a permit whose
  receiver is gone is lost. This is the behaviour that tokio's \<^verbatim>\<open>mpsc\<close> documents and all that the registry uses of it.
\<close>

record outbound =
  ob_capacity :: nat
  ob_queue :: "Message list"
  ob_reserved :: nat
  ob_closed :: bool

datatype send_error = SendFull | SendClosed

definition try_reserve :: "outbound \<Rightarrow> (send_error, unit) result \<times> outbound" where
  "try_reserve self =
     (if ob_closed self then (Inl SendClosed, self)
      else if length (ob_queue self) + ob_reserved self \<ge> ob_capacity self then (Inl SendFull, self)
      else (Inr (), self\<lparr>ob_reserved := ob_reserved self + 1\<rparr>))"

definition permit_send :: "Message \<Rightarrow> outbound \<Rightarrow> outbound" where
  "permit_send message self =
     (let self = self\<lparr>ob_reserved := ob_reserved self - 1\<rparr>
      in if ob_closed self then self else self\<lparr>ob_queue := ob_queue self @ [message]\<rparr>)"

definition permit_drop :: "outbound \<Rightarrow> outbound" where
  "permit_drop self = self\<lparr>ob_reserved := ob_reserved self - 1\<rparr>"

definition try_send :: "Message \<Rightarrow> outbound \<Rightarrow> (send_error, unit) result \<times> outbound" where
  "try_send message self =
     (case try_reserve self of (Inr _, self) \<Rightarrow> (Inr (), permit_send message self) | (Inl e, self) \<Rightarrow> (Inl e, self))"

definition outbound_ok :: "outbound \<Rightarrow> bool" where
  "outbound_ok self \<longleftrightarrow> length (ob_queue self) + ob_reserved self \<le> ob_capacity self"

lemma outbound_bounds:
  "outbound_ok self \<Longrightarrow> outbound_ok (snd (try_reserve self))"
  "outbound_ok self \<Longrightarrow> 0 < ob_reserved self \<Longrightarrow> outbound_ok (permit_send message self)"
  "outbound_ok self \<Longrightarrow> outbound_ok (permit_drop self)"
  "outbound_ok self \<Longrightarrow> outbound_ok (snd (try_send message self))"
  by (simp_all add: outbound_ok_def try_reserve_def permit_send_def permit_drop_def try_send_def Let_def le_diff_conv)

lemma try_send_effect:
  "try_send message self =
     (if ob_closed self then (Inl SendClosed, self)
      else if length (ob_queue self) + ob_reserved self \<ge> ob_capacity self then (Inl SendFull, self)
      else (Inr (), self\<lparr>ob_queue := ob_queue self @ [message]\<rparr>))"
  by (simp add: try_send_def try_reserve_def permit_send_def)

subsection \<open>Sessions and their waiting connections\<close>

record PendingRelay =
  pd_channel_kind :: ChannelKind
  pd_binding_token :: bytes
  pd_destination :: nat

record PendingOpen =
  pop_target_id :: u64
  pop_binding_token :: bytes
  pop_data_channel :: nat

record SessionBindings =
  sb_store :: ChannelBindingStore
  sb_pending_tcp :: "(u64, PendingRelay) hashmap"
  sb_pending_udp :: "(u64, PendingRelay) hashmap"
  sb_oneshots :: nat

record SessionRuntime =
  sr_client :: string
  sr_fingerprint :: string
  sr_session_id :: bytes
  sr_observability_identity :: AuthenticatedClientIdentity
  sr_bindings :: SessionBindings
  sr_outbound :: outbound
  sr_cancelled :: bool
  sr_available :: bool
  sr_binding_ttl :: nat
  sr_protocol_version :: ProtocolVersion

text \<open>The two transports have the same operations on their own map of waiting connections.\<close>

datatype relay = RelayTcp | RelayUdp

fun relay_kind :: "relay \<Rightarrow> u32 \<Rightarrow> u64 \<Rightarrow> ChannelKind" where
  "relay_kind RelayTcp tunnel_id target_id = ChannelTcp tunnel_id target_id"
| "relay_kind RelayUdp tunnel_id target_id = ChannelUdp tunnel_id target_id"

fun pending_of :: "relay \<Rightarrow> SessionBindings \<Rightarrow> (u64, PendingRelay) hashmap" where
  "pending_of RelayTcp b = sb_pending_tcp b"
| "pending_of RelayUdp b = sb_pending_udp b"

fun put_pending :: "relay \<Rightarrow> (u64, PendingRelay) hashmap \<Rightarrow> SessionBindings \<Rightarrow> SessionBindings" where
  "put_pending RelayTcp m b = b\<lparr>sb_pending_tcp := m\<rparr>"
| "put_pending RelayUdp m b = b\<lparr>sb_pending_udp := m\<rparr>"

fun prepare_loop ::
  "relay \<Rightarrow> nat \<Rightarrow> u64 option list \<Rightarrow> nat \<Rightarrow> nat \<Rightarrow> bytes option list \<Rightarrow> u32 \<Rightarrow> SessionBindings
     \<Rightarrow> (RegistryError, PendingOpen) result \<times> SessionBindings" where
  "prepare_loop r 0 ids latest now tokens tunnel_id b = (Inl RegistryEntropyUnavailable, b)"
| "prepare_loop r (Suc n) [] latest now tokens tunnel_id b = (Inl RegistryEntropyUnavailable, b)"
| "prepare_loop r (Suc n) (None # ids) latest now tokens tunnel_id b = (Inl RegistryEntropyUnavailable, b)"
| "prepare_loop r (Suc n) (Some target_id # ids) latest now tokens tunnel_id b =
     (if target_id = 0 then prepare_loop r n ids latest now tokens tunnel_id b
      else
        let channel_kind = relay_kind r tunnel_id target_id;
            destination = sb_oneshots b;
            b1 = b\<lparr>sb_oneshots := destination + 1\<rparr>
        in if map_of (pending_of r b1) target_id \<noteq> None
           then prepare_loop r n ids latest now tokens tunnel_id b1
           else case issue latest now tokens (sb_store b1) channel_kind of
             (Inl e, store) \<Rightarrow> (Inl (Binding e), b1\<lparr>sb_store := store\<rparr>)
           | (Inr token, store) \<Rightarrow>
               (Inr \<lparr>pop_target_id = target_id, pop_binding_token = token, pop_data_channel = destination\<rparr>,
                put_pending r
                  (hm_insert target_id \<lparr>pd_channel_kind = channel_kind, pd_binding_token = token,
                     pd_destination = destination\<rparr> (pending_of r b1))
                  (b1\<lparr>sb_store := store\<rparr>)))"

definition prepare ::
  "relay \<Rightarrow> u64 option list \<Rightarrow> nat \<Rightarrow> nat \<Rightarrow> bytes option list \<Rightarrow> u32 \<Rightarrow> SessionBindings
     \<Rightarrow> (RegistryError, PendingOpen) result \<times> SessionBindings" where
  "prepare r ids latest now tokens tunnel_id b =
     prepare_loop r MAX_CONNECTION_ID_ATTEMPTS ids latest now tokens tunnel_id b"

definition with_bindings ::
  "(SessionBindings \<Rightarrow> 'a \<times> SessionBindings) \<Rightarrow> SessionRuntime \<Rightarrow> 'a \<times> SessionRuntime" where
  "with_bindings f self = (let (x, b) = f (sr_bindings self) in (x, self\<lparr>sr_bindings := b\<rparr>))"

definition prepare_tcp ::
  "u64 option list \<Rightarrow> nat \<Rightarrow> nat \<Rightarrow> bytes option list \<Rightarrow> u32 \<Rightarrow> SessionRuntime
     \<Rightarrow> (RegistryError, PendingOpen) result \<times> SessionRuntime" where
  "prepare_tcp ids latest now tokens tunnel_id = with_bindings (prepare RelayTcp ids latest now tokens tunnel_id)"

definition prepare_udp ::
  "u64 option list \<Rightarrow> nat \<Rightarrow> nat \<Rightarrow> bytes option list \<Rightarrow> u32 \<Rightarrow> SessionRuntime
     \<Rightarrow> (RegistryError, PendingOpen) result \<times> SessionRuntime" where
  "prepare_udp ids latest now tokens tunnel_id = with_bindings (prepare RelayUdp ids latest now tokens tunnel_id)"

definition cancel_waiting :: "relay \<Rightarrow> u64 \<Rightarrow> SessionBindings \<Rightarrow> SessionBindings" where
  "cancel_waiting r target_id b =
     (case map_of (pending_of r b) target_id of
        None \<Rightarrow> b
      | Some pending \<Rightarrow>
          let b = put_pending r (hm_remove target_id (pending_of r b)) b
          in b\<lparr>sb_store := snd (revoke (sb_store b) (pd_channel_kind pending) (pd_binding_token pending))\<rparr>)"

definition cancel_pending :: "u64 \<Rightarrow> SessionRuntime \<Rightarrow> SessionRuntime" where
  "cancel_pending connection_id self =
     self\<lparr>sr_bindings := cancel_waiting RelayTcp connection_id (sr_bindings self)\<rparr>"

definition cancel_pending_udp :: "u64 \<Rightarrow> SessionRuntime \<Rightarrow> SessionRuntime" where
  "cancel_pending_udp channel_id self =
     self\<lparr>sr_bindings := cancel_waiting RelayUdp channel_id (sr_bindings self)\<rparr>"

definition request_relay :: "DataChannelBind \<Rightarrow> relay" where
  "request_relay request = (if dcb_kind request = DataChannelKind_TCP then RelayTcp else RelayUdp)"

definition redeem_bindings ::
  "ProtocolVersion \<Rightarrow> nat \<Rightarrow> DataChannelBind \<Rightarrow> ProtocolVersion \<Rightarrow> SessionBindings
     \<Rightarrow> (RegistryError, ChannelBinding \<times> nat) result option \<times> SessionBindings" where
  "redeem_bindings own_version now request protocol_version b =
     (let r = request_relay request;
          channel_kind = relay_kind r (dcb_tunnel_id request) (dcb_target_id request)
      in if \<not> recognizes (sb_store b) (dcb_binding_token request) then (None, b)
         else if protocol_version \<noteq> own_version then (Some (Inl (Binding BindingRejected)), b)
         else case redeem now (sb_store b) (dcb_client_name request) (dcb_session_id request) channel_kind
                (dcb_binding_token request) of
           (Inl e, store) \<Rightarrow> (Some (Inl (Binding e)), b\<lparr>sb_store := store\<rparr>)
         | (Inr binding, store) \<Rightarrow>
             let b = b\<lparr>sb_store := store\<rparr>
             in (case map_of (pending_of r b) (dcb_target_id request) of
                   None \<Rightarrow> (Some (Inl (Binding BindingRejected)), b)
                 | Some pending \<Rightarrow>
                     let b = put_pending r (hm_remove (dcb_target_id request) (pending_of r b)) b
                     in if pd_channel_kind pending \<noteq> channel_kind
                        then (Some (Inl (Binding BindingRejected)), b)
                        else (Some (Inr (binding, pd_destination pending)), b)))"

definition redeem_if_present ::
  "nat \<Rightarrow> DataChannelBind \<Rightarrow> ProtocolVersion \<Rightarrow> SessionRuntime
     \<Rightarrow> (RegistryError, ChannelBinding \<times> nat) result option \<times> SessionRuntime" where
  "redeem_if_present now request protocol_version self =
     with_bindings (redeem_bindings (sr_protocol_version self) now request protocol_version) self"

definition runtime_issue ::
  "nat \<Rightarrow> nat \<Rightarrow> bytes option list \<Rightarrow> ChannelKind \<Rightarrow> SessionRuntime \<Rightarrow> (RegistryError, bytes) result \<times> SessionRuntime" where
  "runtime_issue latest now tokens channel_kind =
     with_bindings (\<lambda>b. case issue latest now tokens (sb_store b) channel_kind of
       (Inl e, store) \<Rightarrow> (Inl (Binding e), b\<lparr>sb_store := store\<rparr>)
     | (Inr token, store) \<Rightarrow> (Inr token, b\<lparr>sb_store := store\<rparr>))"

definition runtime_redeem ::
  "nat \<Rightarrow> string \<Rightarrow> bytes \<Rightarrow> ChannelKind \<Rightarrow> bytes \<Rightarrow> SessionRuntime
     \<Rightarrow> (RegistryError, ChannelBinding) result \<times> SessionRuntime" where
  "runtime_redeem now presented_client presented_session_id channel_kind token =
     with_bindings (\<lambda>b. case redeem now (sb_store b) presented_client presented_session_id channel_kind token of
       (Inl e, store) \<Rightarrow> (Inl (Binding e), b\<lparr>sb_store := store\<rparr>)
     | (Inr binding, store) \<Rightarrow> (Inr binding, b\<lparr>sb_store := store\<rparr>))"

definition revoke_all :: "(u64, PendingRelay) hashmap \<Rightarrow> ChannelBindingStore \<Rightarrow> ChannelBindingStore" where
  "revoke_all pending store =
     fold (\<lambda>(_, p) store. snd (revoke store (pd_channel_kind p) (pd_binding_token p))) pending store"

definition cancel_bindings :: "SessionBindings \<Rightarrow> SessionBindings" where
  "cancel_bindings b =
     b\<lparr>sb_store := revoke_all (sb_pending_udp b) (revoke_all (sb_pending_tcp b) (sb_store b)),
       sb_pending_tcp := [], sb_pending_udp := []\<rparr>"

definition runtime_cancel :: "SessionRuntime \<Rightarrow> SessionRuntime" where
  "runtime_cancel self =
     self\<lparr>sr_available := False, sr_cancelled := True, sr_bindings := cancel_bindings (sr_bindings self)\<rparr>"

subsection \<open>Invariant\<close>

lemma relay_kind_inj [simp]: "relay_kind r t i = relay_kind r' t' i' \<longleftrightarrow> r = r' \<and> t = t' \<and> i = i'"
  by (cases r; cases r') auto

lemma pending_of_put [simp]:
  "pending_of r (put_pending r' m b) = (if r = r' then m else pending_of r b)"
  "sb_store (put_pending r' m b) = sb_store b" "sb_oneshots (put_pending r' m b) = sb_oneshots b"
  by (cases r; cases r'; simp) (cases r'; simp)+

lemma pending_of_update [simp]:
  "pending_of r (b\<lparr>sb_store := st\<rparr>) = pending_of r b" "pending_of r (b\<lparr>sb_oneshots := n\<rparr>) = pending_of r b"
  by (cases r; simp)+

lemma put_pending_oneshots [simp]:
  "(put_pending r m b)\<lparr>sb_store := st\<rparr> = put_pending r m (b\<lparr>sb_store := st\<rparr>)"
  by (cases r) simp_all

definition waiting :: "relay \<Rightarrow> u64 \<Rightarrow> PendingRelay \<Rightarrow> SessionBindings \<Rightarrow> bool" where
  "waiting r i p b \<longleftrightarrow> map_of (pending_of r b) i = Some p"

definition bindings_inv :: "SessionBindings \<Rightarrow> bool" where
  "bindings_inv b \<longleftrightarrow> store_inv (sb_store b) \<and>
     (\<forall>r i p. waiting r i p b \<longrightarrow> (\<exists>t. pd_channel_kind p = relay_kind r t i) \<and> pd_destination p < sb_oneshots b) \<and>
     (\<forall>r i p r' i' p'. waiting r i p b \<longrightarrow> waiting r' i' p' b \<longrightarrow> pd_destination p = pd_destination p' \<longrightarrow> r = r' \<and> i = i') \<and>
     (\<forall>token e. map_of (cbs_pending (sb_store b)) token = Some e \<longrightarrow> length token = BINDING_TOKEN_BYTES \<and>
        (\<exists>r i p. waiting r i p b \<and> pd_binding_token p = token \<and> pd_channel_kind p = pb_channel_kind e))"

lemma bindings_invI:
  assumes "store_inv (sb_store b)"
    and "\<And>r i p. waiting r i p b \<Longrightarrow> (\<exists>t. pd_channel_kind p = relay_kind r t i) \<and> pd_destination p < sb_oneshots b"
    and "\<And>r i p r' i' p'. waiting r i p b \<Longrightarrow> waiting r' i' p' b \<Longrightarrow> pd_destination p = pd_destination p' \<Longrightarrow> r = r' \<and> i = i'"
    and "\<And>token e. map_of (cbs_pending (sb_store b)) token = Some e \<Longrightarrow> length token = BINDING_TOKEN_BYTES \<and>
        (\<exists>r i p. waiting r i p b \<and> pd_binding_token p = token \<and> pd_channel_kind p = pb_channel_kind e)"
  shows "bindings_inv b"
  using assms unfolding bindings_inv_def by blast

lemma bindings_invD:
  assumes "bindings_inv b"
  shows "store_inv (sb_store b)"
    and "waiting r i p b \<Longrightarrow> \<exists>t. pd_channel_kind p = relay_kind r t i"
    and "waiting r i p b \<Longrightarrow> pd_destination p < sb_oneshots b"
    and "waiting r i p b \<Longrightarrow> waiting r' i' p' b \<Longrightarrow> pd_destination p = pd_destination p' \<Longrightarrow> r = r' \<and> i = i'"
    and "map_of (cbs_pending (sb_store b)) token = Some e \<Longrightarrow> length token = BINDING_TOKEN_BYTES"
    and "map_of (cbs_pending (sb_store b)) token = Some e \<Longrightarrow>
        \<exists>r i p. waiting r i p b \<and> pd_binding_token p = token \<and> pd_channel_kind p = pb_channel_kind e"
  using assms unfolding bindings_inv_def by blast+

lemma waiting_put: "waiting r i p (put_pending r' m b) = (if r = r' then map_of m i = Some p else waiting r i p b)"
  by (simp add: waiting_def)

lemma waiting_simps [simp]:
  "waiting r i p (b\<lparr>sb_store := st\<rparr>) = waiting r i p b" "waiting r i p (b\<lparr>sb_oneshots := n\<rparr>) = waiting r i p b"
  "waiting r i p (put_pending r' (hm_insert i' p' (pending_of r' b)) b) =
     (if r = r' \<and> i = i' then p = p' else waiting r i p b)"
  "waiting r i p (put_pending r' (hm_remove i' (pending_of r' b)) b) = (\<not> (r = r' \<and> i = i') \<and> waiting r i p b)"
  by (auto simp: waiting_def)

text \<open>A token in the store is the token of the connection that its kind names.\<close>

lemma store_token_waiting:
  assumes "bindings_inv b" and "map_of (cbs_pending (sb_store b)) token = Some e" and "pb_channel_kind e = relay_kind r t i"
  shows "\<exists>p. waiting r i p b \<and> pd_binding_token p = token \<and> pd_channel_kind p = relay_kind r t i"
proof -
  obtain r' i' p where p: "waiting r' i' p b" "pd_binding_token p = token" "pd_channel_kind p = pb_channel_kind e"
    using bindings_invD(6) [OF assms(1,2)] by blast
  with bindings_invD(2) [OF assms(1) p(1)] assms(3) have "r' = r" "i' = i" by auto
  with p assms(3) show ?thesis by auto
qed

lemma map_of_retain:
  "store_inv s \<Longrightarrow> map_of (cbs_pending (retain_unexpired now s)) token = Some e \<longleftrightarrow>
     map_of (cbs_pending s) token = Some e \<and> now < pb_expires_at e"
  by (cases "map_of (cbs_pending s) token")
    (simp_all add: retain_unexpired_def store_inv_def map_of_filter_value del: map_of_eq_Some_iff, auto)

lemma map_of_issued:
  "store_inv s \<Longrightarrow> map_of (cbs_pending (retain_unexpired now s)) token = None \<Longrightarrow>
   map_of (cbs_pending (issued_store now s kind token)) t = Some e \<longleftrightarrow>
     (if t = token then e = \<lparr>pb_channel_kind = kind, pb_expires_at = now + cbs_time_to_live s\<rparr>
      else map_of (cbs_pending s) t = Some e \<and> now < pb_expires_at e)"
  using map_of_retain [of s now t e]
  by (auto simp: issued_store_def Let_def map_of_append map_add_Some_iff)

text \<open>One round of \<open>prepare\<close>: nothing is opened, or one connection starts to wait.\<close>

definition opened :: "relay \<Rightarrow> u32 \<Rightarrow> nat \<Rightarrow> PendingOpen \<Rightarrow> SessionBindings \<Rightarrow> SessionBindings \<Rightarrow> bool" where
  "opened r tunnel_id now o' b b' \<longleftrightarrow>
     (let p = \<lparr>pd_channel_kind = relay_kind r tunnel_id (pop_target_id o'), pd_binding_token = pop_binding_token o',
            pd_destination = pop_data_channel o'\<rparr>
      in sb_oneshots b \<le> pop_data_channel o' \<and> sb_oneshots b' = Suc (pop_data_channel o') \<and>
         map_of (pending_of r b) (pop_target_id o') = None \<and>
         length (pop_binding_token o') = BINDING_TOKEN_BYTES \<and>
         map_of (cbs_pending (retain_unexpired now (sb_store b))) (pop_binding_token o') = None \<and>
         length (cbs_pending (retain_unexpired now (sb_store b))) < cbs_capacity (sb_store b) \<and>
         sb_store b' = issued_store now (sb_store b) (pd_channel_kind p) (pop_binding_token o') \<and>
         (\<forall>r' i p'. waiting r' i p' b' \<longleftrightarrow>
            (if r' = r \<and> i = pop_target_id o' then p' = p else waiting r' i p' b)))"

definition token_draws :: "nat option list \<Rightarrow> bytes option list" where
  "token_draws ns = map (map_option (be_bytes BINDING_TOKEN_BYTES)) ns"

lemma token_draws_length: "Some token \<in> set (token_draws ns) \<Longrightarrow> length token = BINDING_TOKEN_BYTES"
  by (auto simp: token_draws_def) (metis length_be_bytes map_option_eq_Some)

lemma prepare_loop_result:
  assumes "prepare_loop r n ids latest now (token_draws ns) tunnel_id b = (res, b')"
  shows "(\<exists>e. res = Inl e) \<and> sb_oneshots b \<le> sb_oneshots b' \<and> (\<forall>r. pending_of r b' = pending_of r b) \<and>
       (sb_store b' = sb_store b \<or> sb_store b' = retain_unexpired now (sb_store b)) \<or>
    (\<exists>o'. res = Inr o' \<and> opened r tunnel_id now o' b b')"
  using assms
proof (induction r n ids latest now "token_draws ns" tunnel_id b rule: prepare_loop.induct)
  case (4 r n target_id ids latest now tunnel_id b)
  let ?b1 = "b\<lparr>sb_oneshots := sb_oneshots b + 1\<rparr>"
  let ?kind = "relay_kind r tunnel_id target_id"
  consider "target_id = 0" | "target_id \<noteq> 0" "map_of (pending_of r b) target_id \<noteq> None"
    | "target_id \<noteq> 0" "map_of (pending_of r b) target_id = None" by blast
  then show ?case
  proof cases
    case 1
    then show ?thesis using 4(1) 4(3) by simp
  next
    case 2
    have "(\<exists>e. res = Inl e) \<and> sb_oneshots ?b1 \<le> sb_oneshots b' \<and> (\<forall>r. pending_of r b' = pending_of r ?b1) \<and>
       (sb_store b' = sb_store ?b1 \<or> sb_store b' = retain_unexpired now (sb_store ?b1)) \<or>
      (\<exists>o'. res = Inr o' \<and> opened r tunnel_id now o' ?b1 b')"
      using 4(2) [OF 2(1) refl refl refl] 4(3) 2 by auto
    then show ?thesis by (auto simp: opened_def Let_def)
  next
    case 3
    obtain res1 store where iss: "issue latest now (token_draws ns) (sb_store ?b1) ?kind = (res1, store)" by fastforce
    note r = issue_result [OF iss]
    show ?thesis
    proof (cases res1)
      case (Inl e)
      have "\<not> (if length token \<le> MAX_BINDING_TOKEN_BYTES then res1 = Inr token else res1 = Inl InvalidBindingConfiguration)"
        if "Some token \<in> set (token_draws ns)" for token
        using token_draws_length [OF that] Inl by (simp add: BINDING_TOKEN_BYTES_def MAX_BINDING_TOKEN_BYTES_def)
      then have "store = retain_unexpired now (sb_store b)" using r by auto
      then show ?thesis using 4(3) 3 iss Inl by auto
    next
      case (Inr token)
      then obtain "length token = BINDING_TOKEN_BYTES" "map_of (cbs_pending (retain_unexpired now (sb_store b))) token = None"
        "length (cbs_pending (retain_unexpired now (sb_store b))) < cbs_capacity (sb_store b)"
        "store = issued_store now (sb_store b) ?kind token"
        using r token_draws_length by (auto split: if_splits)
      then show ?thesis
        using 4(3) 3 iss Inr by (auto simp: opened_def Let_def waiting_put) (auto simp: waiting_def split: if_splits)
    qed
  qed
qed auto

lemma inv_shrunk_store:
  assumes "bindings_inv b" and "store_inv st" and "\<And>r. pending_of r b' = pending_of r b" and "sb_oneshots b \<le> sb_oneshots b'"
    and "sb_store b' = st" and "\<And>t e. map_of (cbs_pending st) t = Some e \<Longrightarrow> map_of (cbs_pending (sb_store b)) t = Some e"
  shows "bindings_inv b'"
proof -
  have w: "waiting r i p b' = waiting r i p b" for r i p by (simp add: waiting_def assms(3))
  show ?thesis
  proof (rule bindings_invI, goal_cases)
    case 1
    then show ?case by (simp add: assms(2,5))
  next
    case (2 r i p)
    then have "waiting r i p b" by (simp only: w)
    from bindings_invD(2,3) [OF assms(1) this] assms(4) show ?case by auto
  next
    case (3 r i p r' i' p')
    then show ?case unfolding w using bindings_invD(4) [OF assms(1)] by blast
  next
    case (4 token e)
    then have "map_of (cbs_pending (sb_store b)) token = Some e" using assms(5,6) by simp
    from bindings_invD(5,6) [OF assms(1) this] show ?case unfolding w by blast
  qed
qed

lemma inv_opened:
  assumes inv: "bindings_inv b" and op: "opened r t now o' b b'"
  shows "bindings_inv b'"
proof (rule bindings_invI, goal_cases)
  note o = op [unfolded opened_def Let_def]
  case 1
  then show ?case using o bindings_invD(1) [OF inv] by (simp add: inv_issued)
next
  note o = op [unfolded opened_def Let_def]
  case (2 r' i p)
  then show ?case using o bindings_invD(2,3) [OF inv] by (fastforce split: if_splits)
next
  note o = op [unfolded opened_def Let_def]
  have old: "waiting r i p b \<Longrightarrow> pd_destination p \<noteq> pop_data_channel o'" for r i p
    using bindings_invD(3) [OF inv] o by fastforce
  case (3 r1 i p r2 i' p')
  then show ?case using o bindings_invD(4) [OF inv] by (auto split: if_splits dest: old)
next
  note o = op [unfolded opened_def Let_def]
  let ?p = "\<lparr>pd_channel_kind = relay_kind r t (pop_target_id o'), pd_binding_token = pop_binding_token o',
    pd_destination = pop_data_channel o'\<rparr>"
  case (4 token e)
  show ?case
  proof (cases "token = pop_binding_token o'")
    case True
    have "waiting r (pop_target_id o') ?p b'" using o by simp
    moreover have "pb_channel_kind e = relay_kind r t (pop_target_id o')"
      using 4 o True map_of_issued [OF bindings_invD(1) [OF inv]] by simp
    ultimately show ?thesis using o True by force
  next
    case False
    then have e: "map_of (cbs_pending (sb_store b)) token = Some e"
      using 4 o map_of_issued [OF bindings_invD(1) [OF inv]] by simp
    obtain r' i' p where p: "waiting r' i' p b" "pd_binding_token p = token" "pd_channel_kind p = pb_channel_kind e"
      using bindings_invD(6) [OF inv e] by blast
    moreover have "\<not> (r' = r \<and> i' = pop_target_id o')" using p(1) o by (auto simp: waiting_def)
    ultimately have "waiting r' i' p b'" using o by auto
    with p bindings_invD(5) [OF inv e] show ?thesis by blast
  qed
qed

lemma inv_prepare:
  assumes "bindings_inv b" and "prepare r ids latest now (token_draws ns) tunnel_id b = (res, b')"
  shows "bindings_inv b'"
  using prepare_loop_result [OF assms(2) [unfolded prepare_def]]
proof (rule disjE)
  assume "(\<exists>e. res = Inl e) \<and> sb_oneshots b \<le> sb_oneshots b' \<and> (\<forall>r. pending_of r b' = pending_of r b) \<and>
    (sb_store b' = sb_store b \<or> sb_store b' = retain_unexpired now (sb_store b))"
  then have a: "sb_oneshots b \<le> sb_oneshots b'" "\<forall>r. pending_of r b' = pending_of r b"
    "sb_store b' = sb_store b \<or> sb_store b' = retain_unexpired now (sb_store b)" by blast+
  have "store_inv (sb_store b')"
    using a(3) bindings_invD(1) [OF assms(1)] by (auto simp: inv_retain)
  then show ?thesis
    by (rule inv_shrunk_store [OF assms(1)])
      (use a bindings_invD(1) [OF assms(1)] in \<open>auto simp: map_of_retain simp del: map_of_eq_Some_iff\<close>)
qed (use inv_opened [OF assms(1)] in blast)

lemma map_of_remove_pending:
  "map_of (cbs_pending (remove_pending token s)) t = (if t = token then None else map_of (cbs_pending s) t)"
  by (simp add: remove_pending_def map_of_filter_key)

lemma map_of_revoke:
  assumes "map_of (cbs_pending (snd (revoke s kind token))) t = Some e"
  shows "map_of (cbs_pending s) t = Some e \<and>
    (t = token \<longrightarrow> length token = BINDING_TOKEN_BYTES \<longrightarrow> pb_channel_kind e \<noteq> kind)"
  using assms by (auto simp: revoke_def map_of_remove_pending split: if_splits option.splits)

lemma inv_revoke: "store_inv s \<Longrightarrow> store_inv (snd (revoke s kind token))"
  using revoke_store [of s kind token] by (auto simp: inv_remove_pending)

text \<open>Removing a waiting connection, when no token of the store leads to it any more.\<close>

lemma inv_remove_waiting:
  assumes inv: "bindings_inv b" and st: "store_inv st"
    and sub: "\<And>t e. map_of (cbs_pending st) t = Some e \<Longrightarrow> map_of (cbs_pending (sb_store b)) t = Some e \<and>
      (\<forall>tun. pb_channel_kind e \<noteq> relay_kind r tun i)"
  shows "bindings_inv (put_pending r (hm_remove i (pending_of r b)) (b\<lparr>sb_store := st\<rparr>))" (is "bindings_inv ?b")
proof -
  have w: "waiting r' i' p ?b = (\<not> (r' = r \<and> i' = i) \<and> waiting r' i' p b)" for r' i' p
    by (auto simp: waiting_def)
  have "bindings_inv ?b = bindings_inv ?b" ..
  show ?thesis
  proof (rule bindings_invI, goal_cases)
    case 1
    then show ?case by (simp add: st)
  next
    case (2 r i p)
    then show ?case unfolding w using bindings_invD(2,3) [OF inv] by auto
  next
    case (3 r i p r' i' p')
    then show ?case unfolding w using bindings_invD(4) [OF inv] by blast
  next
    case (4 token e)
    then have e: "map_of (cbs_pending (sb_store b)) token = Some e" "\<And>tun. pb_channel_kind e \<noteq> relay_kind r tun i"
      using sub by auto
    obtain r' i' p where p: "waiting r' i' p b" "pd_binding_token p = token" "pd_channel_kind p = pb_channel_kind e"
      using bindings_invD(6) [OF inv e(1)] by blast
    have "\<not> (r' = r \<and> i' = i)" using e(2) p bindings_invD(2) [OF inv p(1)] by auto
    with p bindings_invD(5) [OF inv e(1)] show ?case unfolding w by blast
  qed
qed

lemma inv_cancel_waiting: "bindings_inv b \<Longrightarrow> bindings_inv (cancel_waiting r i b)"
proof (cases "map_of (pending_of r b) i")
  case (Some p)
  assume inv: "bindings_inv b"
  let ?st = "snd (revoke (sb_store b) (pd_channel_kind p) (pd_binding_token p))"
  have p: "waiting r i p b" using Some by (simp add: waiting_def)
  have "bindings_inv (put_pending r (hm_remove i (pending_of r b)) (b\<lparr>sb_store := ?st\<rparr>))"
  proof (rule inv_remove_waiting [OF inv inv_revoke [OF bindings_invD(1) [OF inv]]])
    fix t e assume "map_of (cbs_pending ?st) t = Some e"
    note r = map_of_revoke [OF this]
    have "pb_channel_kind e \<noteq> relay_kind r tun i" for tun
    proof
      assume k: "pb_channel_kind e = relay_kind r tun i"
      with store_token_waiting [OF inv conjunct1 [OF r] k] p
      have "pd_binding_token p = t" "pd_channel_kind p = pb_channel_kind e" by (auto simp: waiting_def)
      with r bindings_invD(5) [OF inv conjunct1 [OF r]] show False by simp
    qed
    with r show "map_of (cbs_pending (sb_store b)) t = Some e \<and> (\<forall>tun. pb_channel_kind e \<noteq> relay_kind r tun i)" by blast
  qed
  with Some show ?thesis by (simp add: cancel_waiting_def)
qed (simp add: cancel_waiting_def)

text \<open>What presenting a token does: it is unknown, refused, or hands over the waiting connection it was made for.\<close>

lemma redeem_bindings_result:
  assumes inv: "bindings_inv b" and "redeem_bindings v now q w b = (res, b')"
  shows "b' = b \<and> (res = None \<or> res = Some (Inl (Binding BindingRejected))) \<or>
    b' = b\<lparr>sb_store := remove_pending (dcb_binding_token q) (sb_store b)\<rparr> \<and> (\<exists>e. res = Some (Inl e)) \<or>
    (\<exists>p. waiting (request_relay q) (dcb_target_id q) p b \<and> pd_binding_token p = dcb_binding_token q \<and>
       pd_channel_kind p = relay_kind (request_relay q) (dcb_tunnel_id q) (dcb_target_id q) \<and> w = v \<and>
       dcb_client_name q = cbs_client_id (sb_store b) \<and> dcb_session_id q = cbs_session_id (sb_store b) \<and>
       (\<exists>e. map_of (cbs_pending (sb_store b)) (dcb_binding_token q) = Some e \<and> now < pb_expires_at e) \<and>
       res = Some (Inr (\<lparr>cb_client_id = dcb_client_name q, cb_session_id = dcb_session_id q,
         cb_channel_kind = pd_channel_kind p\<rparr>, pd_destination p)) \<and>
       b' = put_pending (request_relay q) (hm_remove (dcb_target_id q) (pending_of (request_relay q) b))
         (b\<lparr>sb_store := remove_pending (dcb_binding_token q) (sb_store b)\<rparr>))"
proof -
  let ?r = "request_relay q" and ?i = "dcb_target_id q" and ?t = "dcb_binding_token q"
  let ?k = "relay_kind ?r (dcb_tunnel_id q) ?i"
  obtain x store where rd: "redeem now (sb_store b) (dcb_client_name q) (dcb_session_id q) ?k ?t = (x, store)" by force
  consider "\<not> recognizes (sb_store b) ?t" | "recognizes (sb_store b) ?t" "w \<noteq> v"
    | (refused) e where "recognizes (sb_store b) ?t" "w = v" "x = Inl e"
    | (granted) c where "recognizes (sb_store b) ?t" "w = v" "x = Inr c" by (cases x) auto
  then show ?thesis
  proof cases
    case refused
    moreover have "store = remove_pending ?t (sb_store b)"
      using redeem_store [of now "sb_store b" "dcb_client_name q" "dcb_session_id q" ?k ?t] rd refused by simp
    ultimately have "redeem_bindings v now q w b =
        (Some (Inl (Binding e)), b\<lparr>sb_store := remove_pending ?t (sb_store b)\<rparr>)"
      using rd by (simp add: redeem_bindings_def Let_def)
    then show ?thesis using assms(2) by simp
  next
    case granted
    then obtain e where e: "map_of (cbs_pending (sb_store b)) ?t = Some e" "now < pb_expires_at e" "pb_channel_kind e = ?k"
      and c: "dcb_client_name q = cbs_client_id (sb_store b)" "dcb_session_id q = cbs_session_id (sb_store b)"
        "c = \<lparr>cb_client_id = dcb_client_name q, cb_session_id = dcb_session_id q, cb_channel_kind = ?k\<rparr>"
      using redeem_Inr_iff [of now "sb_store b" "dcb_client_name q" "dcb_session_id q" ?k ?t c] rd by auto
    have store: "store = remove_pending ?t (sb_store b)"
      using redeem_store [of now "sb_store b" "dcb_client_name q" "dcb_session_id q" ?k ?t] rd granted by simp
    obtain p where p: "waiting ?r ?i p b" "pd_binding_token p = ?t" "pd_channel_kind p = ?k"
      using store_token_waiting [OF inv e(1,3)] by blast
    then have "redeem_bindings v now q w b = (Some (Inr (c, pd_destination p)),
        put_pending ?r (hm_remove ?i (pending_of ?r b)) (b\<lparr>sb_store := store\<rparr>))"
      using granted rd by (simp add: redeem_bindings_def Let_def waiting_def)
    then have "res = Some (Inr (c, pd_destination p)) \<and>
        b' = put_pending ?r (hm_remove ?i (pending_of ?r b)) (b\<lparr>sb_store := store\<rparr>)"
      using assms(2) by simp
    then show ?thesis
      by (intro disjI2 exI [of _ p] conjI exI [of _ e]) (use p granted e c store in simp_all)
  qed (use assms(2) in \<open>simp_all add: redeem_bindings_def Let_def\<close>)
qed

lemma inv_redeem_bindings:
  assumes inv: "bindings_inv b" and "redeem_bindings v now q w b = (res, b')"
  shows "bindings_inv b'"
  using redeem_bindings_result [OF assms]
proof (elim disjE conjE exE)
  assume "b' = b\<lparr>sb_store := remove_pending (dcb_binding_token q) (sb_store b)\<rparr>"
  then show ?thesis
    by (intro inv_shrunk_store [OF inv inv_remove_pending [OF bindings_invD(1) [OF inv]], of b' "dcb_binding_token q"])
      (auto simp: map_of_remove_pending split: if_splits)
next
  fix p e
  let ?r = "request_relay q" and ?i = "dcb_target_id q" and ?t = "dcb_binding_token q"
  assume p: "waiting ?r ?i p b" "pd_binding_token p = ?t"
    and b': "b' = put_pending ?r (hm_remove ?i (pending_of ?r b)) (b\<lparr>sb_store := remove_pending ?t (sb_store b)\<rparr>)"
  show ?thesis unfolding b'
  proof (rule inv_remove_waiting [OF inv inv_remove_pending [OF bindings_invD(1) [OF inv]]])
    fix t e assume "map_of (cbs_pending (remove_pending ?t (sb_store b))) t = Some e"
    then have t: "t \<noteq> ?t" "map_of (cbs_pending (sb_store b)) t = Some e"
      by (auto simp: map_of_remove_pending split: if_splits)
    have "pb_channel_kind e \<noteq> relay_kind ?r tun ?i" for tun
      using store_token_waiting [OF inv t(2), of ?r tun ?i] p t(1) by (auto simp: waiting_def)
    with t show "map_of (cbs_pending (sb_store b)) t = Some e \<and> (\<forall>tun. pb_channel_kind e \<noteq> relay_kind ?r tun ?i)" by blast
  qed
qed (use inv in simp_all)

lemma map_of_revoke_all:
  assumes "map_of (cbs_pending (revoke_all m s)) t = Some e"
  shows "map_of (cbs_pending s) t = Some e \<and>
    (length t = BINDING_TOKEN_BYTES \<longrightarrow> (\<forall>(i, p) \<in> set m. pd_binding_token p = t \<longrightarrow> pd_channel_kind p \<noteq> pb_channel_kind e))"
  using assms unfolding revoke_all_def
proof (induction m arbitrary: s)
  case (Cons x m)
  obtain i p where x: "x = (i, p)" by (cases x)
  show ?case
    using Cons.IH [of "snd (revoke s (pd_channel_kind p) (pd_binding_token p))"] Cons.prems
      map_of_revoke [of s "pd_channel_kind p" "pd_binding_token p" t e] by (auto simp: x)
qed simp

lemma cancel_bindings_store:
  assumes "bindings_inv b"
  shows "map_of (cbs_pending (sb_store (cancel_bindings b))) t = None"
proof (cases "map_of (cbs_pending (sb_store (cancel_bindings b))) t")
  case (Some e)
  then have "map_of (cbs_pending (revoke_all (sb_pending_udp b) (revoke_all (sb_pending_tcp b) (sb_store b)))) t = Some e"
    by (simp add: cancel_bindings_def)
  note u = map_of_revoke_all [OF this]
  note v = map_of_revoke_all [OF conjunct1 [OF u]]
  obtain r i p where p: "waiting r i p b" "pd_binding_token p = t" "pd_channel_kind p = pb_channel_kind e"
    using bindings_invD(6) [OF assms] v by blast
  have "length t = BINDING_TOKEN_BYTES" using bindings_invD(5) [OF assms] v by blast
  moreover have "(i, p) \<in> set (pending_of r b)" using p(1) by (auto simp: waiting_def dest: map_of_SomeD)
  ultimately show ?thesis using u v p by (cases r) auto
qed

lemma inv_revoke_all: "store_inv s \<Longrightarrow> store_inv (revoke_all m s)"
  unfolding revoke_all_def by (induction m arbitrary: s) (auto simp: inv_revoke split_beta)

lemma pending_of_cancelled [simp]: "pending_of r (cancel_bindings b) = []"
  by (cases r) (simp_all add: cancel_bindings_def)

lemma inv_cancel_bindings: "bindings_inv b \<Longrightarrow> bindings_inv (cancel_bindings b)"
  using cancel_bindings_store [of b]
  by (intro bindings_invI) (simp_all add: waiting_def, simp add: cancel_bindings_def inv_revoke_all bindings_invD(1))

subsection \<open>Sequences of operations\<close>

text \<open>
  The operations the server's tasks call on a session, in any order; token draws are the 32-byte
  numbers the generator returns. Binding tokens issued without a waiting connection
  (\<open>runtime_issue\<close>) are not among them, as no task of the server asks for any.
\<close>

datatype session_op =
    PrepareOpen relay "u64 option list" nat nat "nat option list" u32
  | CancelOpen relay u64
  | PresentToken nat DataChannelBind ProtocolVersion
  | CancelSession

fun prepare_open ::
  "relay \<Rightarrow> u64 option list \<Rightarrow> nat \<Rightarrow> nat \<Rightarrow> bytes option list \<Rightarrow> u32 \<Rightarrow> SessionRuntime
     \<Rightarrow> (RegistryError, PendingOpen) result \<times> SessionRuntime" where
  "prepare_open RelayTcp ids latest now tokens tunnel_id self = prepare_tcp ids latest now tokens tunnel_id self"
| "prepare_open RelayUdp ids latest now tokens tunnel_id self = prepare_udp ids latest now tokens tunnel_id self"

fun cancel_open :: "relay \<Rightarrow> u64 \<Rightarrow> SessionRuntime \<Rightarrow> SessionRuntime" where
  "cancel_open RelayTcp target_id self = cancel_pending target_id self"
| "cancel_open RelayUdp target_id self = cancel_pending_udp target_id self"

fun session_step :: "SessionRuntime \<Rightarrow> session_op \<Rightarrow> SessionRuntime" where
  "session_step s (PrepareOpen r ids latest now ns tunnel_id) =
     snd (prepare_open r ids latest now (token_draws ns) tunnel_id s)"
| "session_step s (CancelOpen r target_id) = cancel_open r target_id s"
| "session_step s (PresentToken now request version) = snd (redeem_if_present now request version s)"
| "session_step s CancelSession = runtime_cancel s"

fun opened_channel :: "SessionRuntime \<Rightarrow> session_op \<Rightarrow> nat option" where
  "opened_channel s (PrepareOpen r ids latest now ns tunnel_id) =
     (case fst (prepare_open r ids latest now (token_draws ns) tunnel_id s) of
        Inr o' \<Rightarrow> Some (pop_data_channel o') | Inl _ \<Rightarrow> None)"
| "opened_channel s _ = None"

fun handed_channel :: "SessionRuntime \<Rightarrow> session_op \<Rightarrow> nat option" where
  "handed_channel s (PresentToken now request version) =
     (case fst (redeem_if_present now request version s) of
        Some (Inr (_, destination)) \<Rightarrow> Some destination | _ \<Rightarrow> None)"
| "handed_channel s _ = None"

definition waits :: "SessionRuntime \<Rightarrow> nat \<Rightarrow> bool" where
  "waits s d \<longleftrightarrow> (\<exists>r i p. waiting r i p (sr_bindings s) \<and> pd_destination p = d)"

lemma prepare_open_bindings:
  "prepare_open r ids latest now tokens tunnel_id s =
     (case prepare r ids latest now tokens tunnel_id (sr_bindings s) of (x, b) \<Rightarrow> (x, s\<lparr>sr_bindings := b\<rparr>))"
  by (cases r) (simp_all add: prepare_tcp_def prepare_udp_def with_bindings_def Let_def)

lemma cancel_open_bindings: "cancel_open r i s = s\<lparr>sr_bindings := cancel_waiting r i (sr_bindings s)\<rparr>"
  by (cases r) (simp_all add: cancel_pending_def cancel_pending_udp_def)

lemma redeem_if_present_bindings:
  "redeem_if_present now q w s =
     (case redeem_bindings (sr_protocol_version s) now q w (sr_bindings s) of (x, b) \<Rightarrow> (x, s\<lparr>sr_bindings := b\<rparr>))"
  by (simp add: redeem_if_present_def with_bindings_def Let_def)

lemmas session_bindings = prepare_open_bindings cancel_open_bindings redeem_if_present_bindings runtime_cancel_def

lemma waiting_cancel_waiting: "waiting r i p (cancel_waiting r' i' b) \<Longrightarrow> waiting r i p b"
  by (auto simp: cancel_waiting_def Let_def waiting_def split: option.splits if_splits)

lemma waiting_step:
  assumes "bindings_inv (sr_bindings s)" and "waiting r i p (sr_bindings (session_step s op))"
  shows "waiting r i p (sr_bindings s) \<or>
    (\<exists>ids latest now ns t. op = PrepareOpen r ids latest now ns t \<and>
       pd_channel_kind p = relay_kind r t i \<and> sb_oneshots (sr_bindings s) \<le> pd_destination p \<and>
       fst (prepare_open r ids latest now (token_draws ns) t s) =
         Inr \<lparr>pop_target_id = i, pop_binding_token = pd_binding_token p, pop_data_channel = pd_destination p\<rparr>)"
proof (cases op)
  case (PrepareOpen r' ids latest now ns t)
  obtain res b' where pr: "prepare r' ids latest now (token_draws ns) t (sr_bindings s) = (res, b')" by force
  have w: "waiting r i p b'" using assms(2) by (simp add: PrepareOpen session_bindings pr)
  from prepare_loop_result [OF pr [unfolded prepare_def]] show ?thesis
  proof (rule disjE)
    assume "\<exists>o'. res = Inr o' \<and> opened r' t now o' (sr_bindings s) b'"
    then obtain o' where o: "res = Inr o'" "opened r' t now o' (sr_bindings s) b'" by blast
    show ?thesis
    proof (cases "r = r' \<and> i = pop_target_id o'")
      case True
      then have "p = \<lparr>pd_channel_kind = relay_kind r t i, pd_binding_token = pop_binding_token o',
          pd_destination = pop_data_channel o'\<rparr>" "sb_oneshots (sr_bindings s) \<le> pop_data_channel o'"
        using o(2) w by (auto simp: opened_def Let_def)
      with True show ?thesis by (simp add: PrepareOpen session_bindings pr o(1))
    next
      case False
      then show ?thesis using o(2) w by (auto simp: opened_def Let_def)
    qed
  qed (use w in \<open>auto simp: waiting_def\<close>)
next
  case (CancelOpen r' i')
  then show ?thesis using assms(2) waiting_cancel_waiting by (auto simp: session_bindings)
next
  case (PresentToken now q v)
  obtain res b' where "redeem_bindings (sr_protocol_version s) now q v (sr_bindings s) = (res, b')" by force
  with redeem_bindings_result [OF assms(1) this] assms(2) show ?thesis
    by (auto simp: PresentToken session_bindings waiting_put waiting_def split: if_splits)
next
  case CancelSession
  then show ?thesis using assms(2) by (simp add: session_bindings waiting_def)
qed

lemma inv_session_step: "bindings_inv (sr_bindings s) \<Longrightarrow> bindings_inv (sr_bindings (session_step s op))"
  by (cases op)
    (auto simp: session_bindings inv_cancel_waiting inv_cancel_bindings split_beta
      intro: inv_prepare [OF _ surjective_pairing] inv_redeem_bindings [OF _ surjective_pairing])

lemma oneshots_step:
  assumes "bindings_inv (sr_bindings s)"
  shows "sb_oneshots (sr_bindings s) \<le> sb_oneshots (sr_bindings (session_step s op)) \<and>
    (\<forall>d. opened_channel s op = Some d \<longrightarrow>
       sb_oneshots (sr_bindings s) \<le> d \<and> d < sb_oneshots (sr_bindings (session_step s op)))"
proof (cases op)
  case (PrepareOpen r ids latest now ns t)
  obtain res b' where pr: "prepare r ids latest now (token_draws ns) t (sr_bindings s) = (res, b')" by force
  from prepare_loop_result [OF pr [unfolded prepare_def]] show ?thesis
    by (auto simp: PrepareOpen session_bindings pr opened_def Let_def)
next
  case (CancelOpen r i)
  then show ?thesis by (auto simp: session_bindings cancel_waiting_def Let_def split: option.split)
next
  case (PresentToken now q v)
  obtain res b' where "redeem_bindings (sr_protocol_version s) now q v (sr_bindings s) = (res, b')" by force
  with redeem_bindings_result [OF assms this] show ?thesis by (auto simp: PresentToken session_bindings)
qed (simp add: session_bindings cancel_bindings_def)

lemma handed_result:
  assumes "bindings_inv (sr_bindings s)" and "handed_channel s op = Some d"
  shows "\<exists>now q p. op = PresentToken now q (sr_protocol_version s) \<and>
    waiting (request_relay q) (dcb_target_id q) p (sr_bindings s) \<and> pd_destination p = d \<and>
    (\<forall>p'. \<not> waiting (request_relay q) (dcb_target_id q) p' (sr_bindings (session_step s op)))"
proof (cases op)
  case (PresentToken now q v)
  obtain res b' where rd: "redeem_bindings (sr_protocol_version s) now q v (sr_bindings s) = (res, b')" by force
  from redeem_bindings_result [OF assms(1) rd] assms(2) rd show ?thesis
    by (auto simp: PresentToken session_bindings waiting_put)
qed (use assms(2) in simp_all)

interpretation session_channels: single_use session_step "\<lambda>s op. set_option (opened_channel s op)" handed_channel waits
  "\<lambda>s :: SessionRuntime. bindings_inv (sr_bindings s)"
proof
  fix s :: SessionRuntime and op d
  assume inv: "bindings_inv (sr_bindings s)"
  show "bindings_inv (sr_bindings (session_step s op))" by (rule inv_session_step [OF inv])
  show "handed_channel s op = Some d \<Longrightarrow> waits s d" using handed_result [OF inv] by (fastforce simp: waits_def)
  show "waits s d \<or> d \<in> set_option (opened_channel s op)" if "waits (session_step s op) d"
  proof -
    obtain r i p where p: "waiting r i p (sr_bindings (session_step s op))" "pd_destination p = d"
      using \<open>waits (session_step s op) d\<close> by (auto simp: waits_def)
    from waiting_step [OF inv p(1)] p(2) show ?thesis by (auto simp: waits_def)
  qed
  show "\<not> waits (session_step s op) d" if h: "handed_channel s op = Some d"
  proof
    assume "waits (session_step s op) d"
    then obtain r i p' where p': "waiting r i p' (sr_bindings (session_step s op))" "pd_destination p' = d"
      by (auto simp: waits_def)
    obtain now q p where q: "op = PresentToken now q (sr_protocol_version s)"
      "waiting (request_relay q) (dcb_target_id q) p (sr_bindings s)" "pd_destination p = d"
      "\<forall>p'. \<not> waiting (request_relay q) (dcb_target_id q) p' (sr_bindings (session_step s op))"
      using handed_result [OF inv h] by blast
    have "waiting r i p' (sr_bindings s)" using waiting_step [OF inv p'(1)] q(1) by auto
    with bindings_invD(4) [OF inv this q(2)] p' q show False by auto
  qed
qed

lemma times_opened:
  "bindings_inv (sr_bindings s) \<Longrightarrow>
   session_channels.times_minted s ops d \<le> (if sb_oneshots (sr_bindings s) \<le> d then 1 else 0)"
proof (induction ops arbitrary: s)
  case (Cons op ops)
  note o = oneshots_step [OF Cons.prems, of op]
  have "session_channels.times_minted (session_step s op) ops d \<le>
      (if sb_oneshots (sr_bindings (session_step s op)) \<le> d then 1 else 0)"
    by (rule Cons.IH [OF inv_session_step [OF Cons.prems]])
  with o show ?case by (auto split: if_splits)
qed simp

lemma session_step_identity:
  "sr_protocol_version (session_step s op) = sr_protocol_version s"
  "sr_client (session_step s op) = sr_client s" "sr_session_id (session_step s op) = sr_session_id s"
  by (cases op; simp add: session_bindings split: prod.split)+

lemma store_identity:
  assumes "bindings_inv (sr_bindings s)"
  shows "cbs_client_id (sb_store (sr_bindings (session_step s op))) = cbs_client_id (sb_store (sr_bindings s)) \<and>
    cbs_session_id (sb_store (sr_bindings (session_step s op))) = cbs_session_id (sb_store (sr_bindings s)) \<and>
    cbs_time_to_live (sb_store (sr_bindings (session_step s op))) = cbs_time_to_live (sb_store (sr_bindings s))"
proof (cases op)
  case (PrepareOpen r ids latest now ns t)
  obtain res b' where pr: "prepare r ids latest now (token_draws ns) t (sr_bindings s) = (res, b')" by force
  from prepare_loop_result [OF pr [unfolded prepare_def]] show ?thesis
    by (auto simp: PrepareOpen session_bindings pr opened_def Let_def retain_unexpired_def issued_store_def)
next
  case (PresentToken now q v)
  obtain res b' where "redeem_bindings (sr_protocol_version s) now q v (sr_bindings s) = (res, b')" by force
  with redeem_bindings_result [OF assms this] show ?thesis
    by (auto simp: PresentToken session_bindings remove_pending_def)
next
  case (CancelOpen r i)
  have "cbs_client_id (snd (revoke st k t)) = cbs_client_id st \<and> cbs_session_id (snd (revoke st k t)) = cbs_session_id st \<and>
    cbs_time_to_live (snd (revoke st k t)) = cbs_time_to_live st" for st k t
    using revoke_store [of st k t] by (auto simp: remove_pending_def)
  then show ?thesis by (simp add: CancelOpen session_bindings cancel_waiting_def Let_def split: option.split)
next
  case CancelSession
  have r: "cbs_client_id (snd (revoke st k t)) = cbs_client_id st \<and> cbs_session_id (snd (revoke st k t)) = cbs_session_id st \<and>
    cbs_time_to_live (snd (revoke st k t)) = cbs_time_to_live st" for st k t
    using revoke_store [of st k t] by (auto simp: remove_pending_def)
  have "cbs_client_id (revoke_all m st) = cbs_client_id st \<and> cbs_session_id (revoke_all m st) = cbs_session_id st \<and>
    cbs_time_to_live (revoke_all m st) = cbs_time_to_live st" for m st
    unfolding revoke_all_def by (induction m arbitrary: st) (auto simp: r split_beta)
  then show ?thesis by (simp add: CancelSession session_bindings cancel_bindings_def)
qed

definition fresh_bindings :: "ChannelBindingStore \<Rightarrow> SessionBindings" where
  "fresh_bindings store = \<lparr>sb_store = store, sb_pending_tcp = [], sb_pending_udp = [], sb_oneshots = 0\<rparr>"

lemma pending_of_fresh [simp]: "pending_of r (fresh_bindings st) = []"
  by (cases r) (simp_all add: fresh_bindings_def)

lemma fresh_bindings_simps [simp]: "sb_store (fresh_bindings st) = st" "sb_oneshots (fresh_bindings st) = 0"
  by (simp_all add: fresh_bindings_def)

lemma inv_fresh: "ChannelBindingStore_new latest now c se cap ttl = Inr st \<Longrightarrow> bindings_inv (fresh_bindings st)"
  by (intro bindings_invI)
    (auto simp: waiting_def ChannelBindingStore_new_def store_inv_def split: if_splits)

text \<open>The connection was opened by one of the operations, and no later one ended its waiting.\<close>

definition cancels :: "relay \<Rightarrow> u64 \<Rightarrow> session_op \<Rightarrow> bool" where
  "cancels r i op \<longleftrightarrow> op = CancelOpen r i \<or> op = CancelSession"

definition opened_by :: "SessionRuntime \<Rightarrow> session_op list \<Rightarrow> relay \<Rightarrow> u32 \<Rightarrow> PendingOpen \<Rightarrow> bool" where
  "opened_by s0 ops r t o' \<longleftrightarrow>
     (\<exists>k ids latest now ns. k < length ops \<and> ops ! k = PrepareOpen r ids latest now ns t \<and>
        fst (prepare_open r ids latest now (token_draws ns) t (foldl session_step s0 (take k ops))) = Inr o' \<and>
        list_all (\<lambda>op. \<not> cancels r (pop_target_id o') op) (drop (Suc k) ops))"

lemma opened_by_snoc:
  "opened_by s0 ops r t o' \<Longrightarrow> \<not> cancels r (pop_target_id o') op \<Longrightarrow> opened_by s0 (ops @ [op]) r t o'"
  unfolding opened_by_def
proof (elim exE conjE)
  fix k ids latest now ns
  assume "k < length ops" "ops ! k = PrepareOpen r ids latest now ns t" "\<not> cancels r (pop_target_id o') op"
    "fst (prepare_open r ids latest now (token_draws ns) t (foldl session_step s0 (take k ops))) = Inr o'"
    "list_all (\<lambda>op. \<not> cancels r (pop_target_id o') op) (drop (Suc k) ops)"
  then show "\<exists>k ids latest now ns. k < length (ops @ [op]) \<and> (ops @ [op]) ! k = PrepareOpen r ids latest now ns t \<and>
      fst (prepare_open r ids latest now (token_draws ns) t (foldl session_step s0 (take k (ops @ [op])))) = Inr o' \<and>
      list_all (\<lambda>op. \<not> cancels r (pop_target_id o') op) (drop (Suc k) (ops @ [op]))"
    by (intro exI [of _ k]) (auto simp: nth_append)
qed

lemma waiting_not_cancelled: "waiting r i p (sr_bindings (session_step s op)) \<Longrightarrow> \<not> cancels r i op"
  by (auto simp: cancels_def session_bindings cancel_waiting_def Let_def waiting_def split: option.splits)

lemma waiting_history:
  assumes "bindings_inv (sr_bindings s0)" and "\<And>r. pending_of r (sr_bindings s0) = []"
    and "waiting r i p (sr_bindings (foldl session_step s0 ops))"
  shows "\<exists>t. pd_channel_kind p = relay_kind r t i \<and>
    opened_by s0 ops r t \<lparr>pop_target_id = i, pop_binding_token = pd_binding_token p, pop_data_channel = pd_destination p\<rparr>"
  using assms(3)
proof (induction ops rule: rev_induct)
  case Nil
  then show ?case using assms(2) by (simp add: waiting_def)
next
  case (snoc op ops)
  have inv: "bindings_inv (sr_bindings (foldl session_step s0 ops))"
    using session_channels.foldl_inv [OF assms(1)] by simp
  have w: "waiting r i p (sr_bindings (session_step (foldl session_step s0 ops) op))" using snoc.prems by simp
  from waiting_step [OF inv w] show ?case
  proof (rule disjE)
    assume "waiting r i p (sr_bindings (foldl session_step s0 ops))"
    from snoc.IH [OF this] show ?case using opened_by_snoc waiting_not_cancelled [OF w] by fastforce
  next
    assume "\<exists>ids latest now ns t. op = PrepareOpen r ids latest now ns t \<and>
       pd_channel_kind p = relay_kind r t i \<and> sb_oneshots (sr_bindings (foldl session_step s0 ops)) \<le> pd_destination p \<and>
       fst (prepare_open r ids latest now (token_draws ns) t (foldl session_step s0 ops)) =
         Inr \<lparr>pop_target_id = i, pop_binding_token = pd_binding_token p, pop_data_channel = pd_destination p\<rparr>"
    then obtain ids latest now ns t where "op = PrepareOpen r ids latest now ns t" "pd_channel_kind p = relay_kind r t i"
       "fst (prepare_open r ids latest now (token_draws ns) t (foldl session_step s0 ops)) =
         Inr \<lparr>pop_target_id = i, pop_binding_token = pd_binding_token p, pop_data_channel = pd_destination p\<rparr>" by blast
    moreover from this have "opened_by s0 (ops @ [op]) r t
        \<lparr>pop_target_id = i, pop_binding_token = pd_binding_token p, pop_data_channel = pd_destination p\<rparr>"
      unfolding opened_by_def by (intro exI [of _ "length ops"]) auto
    ultimately show ?case by blast
  qed
qed

lemma run_identity:
  assumes "bindings_inv (sr_bindings s)"
  shows "sr_protocol_version (foldl session_step s ops) = sr_protocol_version s \<and>
    cbs_client_id (sb_store (sr_bindings (foldl session_step s ops))) = cbs_client_id (sb_store (sr_bindings s)) \<and>
    cbs_session_id (sb_store (sr_bindings (foldl session_step s ops))) = cbs_session_id (sb_store (sr_bindings s)) \<and>
    cbs_time_to_live (sb_store (sr_bindings (foldl session_step s ops))) = cbs_time_to_live (sb_store (sr_bindings s))"
  using assms
proof (induction ops arbitrary: s)
  case (Cons op ops)
  from Cons.IH [OF inv_session_step [OF Cons.prems, of op]] store_identity [OF Cons.prems, of op] show ?case
    by (simp add: session_step_identity)
qed simp

text \<open>
  C22 (a data channel reaches the connection it was opened for): whatever the tasks of a session did
  before, when a presented token is accepted then some earlier \<open>prepare\<close> returned just this token for
  the tunnel and target that the request names, the stream goes to the channel which that call
  created, nothing cancelled that connection or the session since, the request carries the client, session and
  protocol version of the session, and no data channel was handed to that connection before.
\<close>

theorem data_channel_reaches_opener:
  assumes "ChannelBindingStore_new latest0 now0 (sr_client s0) (sr_session_id s0) capacity ttl = Inr store"
    and "sr_bindings s0 = fresh_bindings store"
    and "redeem_if_present now q v (foldl session_step s0 ops) = (Some (Inr (binding, d)), s')"
  shows "opened_by s0 ops (request_relay q) (dcb_tunnel_id q)
      \<lparr>pop_target_id = dcb_target_id q, pop_binding_token = dcb_binding_token q, pop_data_channel = d\<rparr> \<and>
    dcb_client_name q = sr_client s0 \<and> dcb_session_id q = sr_session_id s0 \<and> v = sr_protocol_version s0 \<and>
    session_channels.times_spent s0 ops d = 0"
proof -
  let ?s = "foldl session_step s0 ops"
  have inv0: "bindings_inv (sr_bindings s0)" using inv_fresh [OF assms(1)] assms(2) by simp
  then have inv: "bindings_inv (sr_bindings ?s)" using session_channels.foldl_inv by blast
  have new: "cbs_client_id store = sr_client s0" "cbs_session_id store = sr_session_id s0"
    using assms(1) by (auto simp: ChannelBindingStore_new_def split: if_splits)
  obtain b' where rd: "redeem_bindings (sr_protocol_version ?s) now q v (sr_bindings ?s) = (Some (Inr (binding, d)), b')"
    using assms(3) by (auto simp: redeem_if_present_bindings split: prod.splits)
  from redeem_bindings_result [OF inv rd] obtain p where p:
    "waiting (request_relay q) (dcb_target_id q) p (sr_bindings ?s)" "pd_binding_token p = dcb_binding_token q"
    "pd_channel_kind p = relay_kind (request_relay q) (dcb_tunnel_id q) (dcb_target_id q)" "pd_destination p = d"
    "v = sr_protocol_version ?s" "dcb_client_name q = cbs_client_id (sb_store (sr_bindings ?s))"
    "dcb_session_id q = cbs_session_id (sb_store (sr_bindings ?s))" by auto
  note h = waiting_history [OF inv0 _ p(1)]
  have "waits ?s d" using p by (auto simp: waits_def)
  with session_channels.spent_bounded [OF inv0, of ops d] times_opened [OF inv0, of ops d]
  have "session_channels.times_spent s0 ops d = 0" by (auto simp: waits_def assms(2) waiting_def split: if_splits)
  with h p run_identity [OF inv0, of ops] new show ?thesis by (auto simp: assms(2))
qed

definition sample_session :: SessionRuntime where
  "sample_session = \<lparr>sr_client = ''alpha'', sr_fingerprint = ''f'', sr_session_id = [1], 
     sr_observability_identity = \<lparr>aci_name = ''alpha'', aci_generation = 1\<rparr>,
     sr_bindings = fresh_bindings \<lparr>cbs_client_id = ''alpha'', cbs_session_id = [1], cbs_capacity = 4,
       cbs_time_to_live = 30, cbs_pending = []\<rparr>,
     sr_outbound = \<lparr>ob_capacity = 8, ob_queue = [], ob_reserved = 0, ob_closed = False\<rparr>,
     sr_cancelled = False, sr_available = True, sr_binding_ttl = 30, sr_protocol_version = V0_6\<rparr>"

definition sample_request :: "DataChannelBind" where
  "sample_request = \<lparr>dcb_client_name = ''alpha'', dcb_session_id = [1], dcb_kind = DataChannelKind_TCP,
     dcb_tunnel_id = 2, dcb_target_id = 9, dcb_binding_token = be_bytes 32 7\<rparr>"

lemma sample_session_new:
  "ChannelBindingStore_new 1000 0 (sr_client sample_session) (sr_session_id sample_session) 4 30 =
     Inr (sb_store (sr_bindings sample_session))"
  "sr_bindings sample_session = fresh_bindings (sb_store (sr_bindings sample_session))"
  by (simp_all add: sample_session_def ChannelBindingStore_new_def instant_checked_add_def
      MAX_CLIENT_NAME_BYTES_def MAX_SESSION_ID_BYTES_def)

lemma sample_prepare:
  "prepare_open RelayTcp [Some 9] 1000 10 (token_draws [Some 7]) 2 sample_session =
     (Inr \<lparr>pop_target_id = 9, pop_binding_token = be_bytes 32 7, pop_data_channel = 0\<rparr>,
      snd (prepare_open RelayTcp [Some 9] 1000 10 (token_draws [Some 7]) 2 sample_session))"
  by code_simp

theorem data_channel_reaches_opener_witness:
  "\<exists>binding s'. redeem_if_present 12 sample_request V0_6
      (foldl session_step sample_session [PrepareOpen RelayTcp [Some 9] 1000 10 [Some 7] 2]) = (Some (Inr (binding, 0)), s') \<and>
    opened_by sample_session [PrepareOpen RelayTcp [Some 9] 1000 10 [Some 7] 2] RelayTcp 2
      \<lparr>pop_target_id = 9, pop_binding_token = be_bytes 32 7, pop_data_channel = 0\<rparr>"
proof -
  let ?ops = "[PrepareOpen RelayTcp [Some 9] 1000 10 [Some 7] 2]"
  let ?rd = "redeem_if_present 12 sample_request V0_6 (foldl session_step sample_session ?ops)"
  have "case fst ?rd of Some (Inr (binding, d)) \<Rightarrow> d = 0 | _ \<Rightarrow> False" by code_simp
  then obtain binding s' where r: "?rd = (Some (Inr (binding, 0)), s')"
    by (auto split: option.splits sum.splits prod.splits) (metis prod.collapse)
  with data_channel_reaches_opener [OF sample_session_new r] show ?thesis
    by (simp add: sample_request_def request_relay_def)
qed

subsection \<open>Waiting connections are served\<close>

definition held :: "relay \<Rightarrow> u64 \<Rightarrow> PendingRelay \<Rightarrow> nat \<Rightarrow> SessionBindings \<Rightarrow> bool" where
  "held r i p expires b \<longleftrightarrow> waiting r i p b \<and>
     map_of (cbs_pending (sb_store b)) (pd_binding_token p) =
       Some \<lparr>pb_channel_kind = pd_channel_kind p, pb_expires_at = expires\<rparr>"

text \<open>Operations that leave the connection alone: nothing cancels it, presents its token or happens after its expiry.\<close>

fun spares :: "relay \<Rightarrow> PendingOpen \<Rightarrow> nat \<Rightarrow> session_op \<Rightarrow> bool" where
  "spares r o' expires (PrepareOpen r' ids latest now ns t) = (now < expires)"
| "spares r o' expires (CancelOpen r' i) = (\<not> (r' = r \<and> i = pop_target_id o'))"
| "spares r o' expires (PresentToken now q v) = (dcb_binding_token q \<noteq> pop_binding_token o')"
| "spares r o' expires CancelSession = False"

lemma held_opened:
  assumes "bindings_inv b" and "opened r' t now o'' b b'" and "held r i p expires b" and "now < expires"
  shows "held r i p expires b'"
proof -
  have st: "store_inv (sb_store b)" by (rule bindings_invD(1) [OF assms(1)])
  have "map_of (cbs_pending (retain_unexpired now (sb_store b))) (pd_binding_token p) \<noteq> None"
    using assms(3,4) map_of_retain [OF st, of now "pd_binding_token p"] by (simp add: held_def)
  then have "pop_binding_token o'' \<noteq> pd_binding_token p" using assms(2) by (auto simp: opened_def Let_def)
  moreover have "\<not> (r = r' \<and> i = pop_target_id o'')" using assms(2,3) by (auto simp: opened_def held_def waiting_def Let_def)
  ultimately show ?thesis
    using assms(2,3,4) map_of_issued [OF st] by (simp add: held_def opened_def Let_def) blast
qed

lemma held_step:
  assumes inv: "bindings_inv (sr_bindings s)" and h: "held r i p expires (sr_bindings s)"
    and "spares r o' expires op" and o': "pop_target_id o' = i" "pop_binding_token o' = pd_binding_token p"
  shows "held r i p expires (sr_bindings (session_step s op))"
proof (cases op)
  case (PrepareOpen r' ids latest now ns t)
  obtain res b' where pr: "prepare r' ids latest now (token_draws ns) t (sr_bindings s) = (res, b')" by force
  have now: "now < expires" using assms(3) PrepareOpen by simp
  from prepare_loop_result [OF pr [unfolded prepare_def]] show ?thesis
  proof (rule disjE)
    assume "\<exists>o'. res = Inr o' \<and> opened r' t now o' (sr_bindings s) b'"
    then show ?thesis using held_opened [OF inv _ h now] by (auto simp: PrepareOpen session_bindings pr)
  next
    assume "(\<exists>e. res = Inl e) \<and> sb_oneshots (sr_bindings s) \<le> sb_oneshots b' \<and>
      (\<forall>r. pending_of r b' = pending_of r (sr_bindings s)) \<and>
      (sb_store b' = sb_store (sr_bindings s) \<or> sb_store b' = retain_unexpired now (sb_store (sr_bindings s)))"
    then show ?thesis
      using h now map_of_retain [OF bindings_invD(1) [OF inv]]
      by (auto simp: PrepareOpen session_bindings pr held_def waiting_def)
  qed
next
  case (CancelOpen r' i')
  have other: "\<not> (r' = r \<and> i' = i)" using assms(3) CancelOpen o' by simp
  show ?thesis
  proof (cases "map_of (pending_of r' (sr_bindings s)) i'")
    case (Some p')
    then obtain t t' where k: "pd_channel_kind p' = relay_kind r' t' i'" "pd_channel_kind p = relay_kind r t i"
      using bindings_invD(2) [OF inv] h by (fastforce simp: held_def waiting_def)
    let ?st = "snd (revoke (sb_store (sr_bindings s)) (pd_channel_kind p') (pd_binding_token p'))"
    have "map_of (cbs_pending ?st) (pd_binding_token p) = map_of (cbs_pending (sb_store (sr_bindings s))) (pd_binding_token p)"
      using h k other by (auto simp: revoke_def held_def map_of_remove_pending split: option.splits)
    then show ?thesis
      using h other Some by (auto simp: CancelOpen session_bindings cancel_waiting_def Let_def held_def waiting_put)
        (auto simp: waiting_def)
  qed (use h in \<open>simp add: CancelOpen session_bindings cancel_waiting_def\<close>)
next
  case (PresentToken now q v)
  obtain res b' where rd: "redeem_bindings (sr_protocol_version s) now q v (sr_bindings s) = (res, b')" by force
  have other: "dcb_binding_token q \<noteq> pd_binding_token p" using assms(3) PresentToken o' by simp
  have ne: "\<not> (r = request_relay q \<and> i = dcb_target_id q)"
    if "waiting (request_relay q) (dcb_target_id q) p' (sr_bindings s)" "pd_binding_token p' = dcb_binding_token q" for p'
    using h other that by (auto simp: held_def waiting_def)
  have w: "waiting r i p (put_pending r' (hm_remove i' (pending_of r' b)) (b\<lparr>sb_store := st\<rparr>)) =
      (\<not> (r = r' \<and> i = i') \<and> waiting r i p b)" for r' i' b st
    by (auto simp: waiting_def)
  from redeem_bindings_result [OF inv rd] h other show ?thesis
    unfolding PresentToken session_step.simps session_bindings rd
    by (elim disjE exE conjE) (auto simp: held_def map_of_remove_pending w dest: ne)
qed (use assms(3) in simp)

lemma held_run:
  assumes "bindings_inv (sr_bindings s)" and "held r i p expires (sr_bindings s)"
    and "list_all (spares r o' expires) ops" and "pop_target_id o' = i" and "pop_binding_token o' = pd_binding_token p"
  shows "held r i p expires (sr_bindings (foldl session_step s ops))"
  using assms(1-3)
proof (induction ops arbitrary: s)
  case (Cons op ops)
  then show ?case using Cons.IH [OF inv_session_step held_step [OF _ _ _ assms(4,5)]] by simp
qed simp

text \<open>
  C23 (waiting connections are served): once \<open>prepare\<close> has returned a token, a request that presents it
  with the right names and version before the token expires is given the channel of that call,
  whatever other connections were opened, served, refused or cancelled in the meantime.
\<close>

theorem waiting_connection_served:
  assumes "ChannelBindingStore_new latest0 now0 (sr_client s0) (sr_session_id s0) capacity ttl = Inr store"
    and "sr_bindings s0 = fresh_bindings store"
    and "prepare_open r ids latest t (token_draws ns) tunnel_id (foldl session_step s0 ops) = (Inr o', s1)"
    and "list_all (spares r o' (t + ttl)) later" and "now < t + ttl"
    and "request_relay q = r" and "dcb_tunnel_id q = tunnel_id" and "dcb_target_id q = pop_target_id o'"
    and "dcb_binding_token q = pop_binding_token o'"
    and "dcb_client_name q = sr_client s0" and "dcb_session_id q = sr_session_id s0"
  shows "\<exists>binding s'. redeem_if_present now q (sr_protocol_version s0) (foldl session_step s1 later) =
    (Some (Inr (binding, pop_data_channel o')), s')"
proof -
  let ?s = "foldl session_step s0 ops" and ?k = "relay_kind r tunnel_id (pop_target_id o')"
  let ?p = "\<lparr>pd_channel_kind = ?k, pd_binding_token = pop_binding_token o', pd_destination = pop_data_channel o'\<rparr>"
  have inv0: "bindings_inv (sr_bindings s0)" using inv_fresh [OF assms(1)] assms(2) by simp
  then have inv: "bindings_inv (sr_bindings ?s)" using session_channels.foldl_inv by blast
  have s1: "s1 = session_step ?s (PrepareOpen r ids latest t ns tunnel_id)" using assms(3) by simp
  define z where "z = foldl session_step s1 later"
  have run: "z = foldl session_step s0 (ops @ PrepareOpen r ids latest t ns tunnel_id # later)"
    by (simp add: z_def s1)
  have inv1: "bindings_inv (sr_bindings s1)" unfolding s1 by (rule inv_session_step [OF inv])
  obtain b' where pr: "prepare r ids latest t (token_draws ns) tunnel_id (sr_bindings ?s) = (Inr o', b')"
    and b': "sr_bindings s1 = b'"
    using assms(3) by (auto simp: prepare_open_bindings split: prod.splits)
  have op: "opened r tunnel_id t o' (sr_bindings ?s) b'"
    using prepare_loop_result [OF pr [unfolded prepare_def]] by auto
  have "cbs_time_to_live store = ttl" using assms(1) by (auto simp: ChannelBindingStore_new_def split: if_splits)
  then have "held r (pop_target_id o') ?p (t + ttl) (sr_bindings s1)"
    using op map_of_issued [OF bindings_invD(1) [OF inv]] run_identity [OF inv0, of ops] assms(2)
    unfolding b' held_def opened_def Let_def by auto
  then have h: "held r (pop_target_id o') ?p (t + ttl) (sr_bindings (foldl session_step s1 later))"
    using held_run [OF inv1 _ assms(4)] by simp
  have "cbs_client_id store = sr_client s0" "cbs_session_id store = sr_session_id s0"
    using assms(1) by (auto simp: ChannelBindingStore_new_def split: if_splits)
  moreover have "length (pop_binding_token o') = BINDING_TOKEN_BYTES" using op by (simp add: opened_def Let_def)
  ultimately show ?thesis
    using h run_identity [OF inv0, of "ops @ PrepareOpen r ids latest t ns tunnel_id # later", folded run] assms(2,5-)
    unfolding z_def [symmetric]
    by (auto simp: redeem_if_present_bindings redeem_bindings_def Let_def held_def waiting_def recognizes_def redeem_def)
qed

theorem waiting_connection_served_witness:
  "\<exists>binding s'. redeem_if_present 39 sample_request V0_6
     (foldl session_step (session_step sample_session (PrepareOpen RelayTcp [Some 9] 1000 10 [Some 7] 2))
       [PrepareOpen RelayUdp [Some 9] 1000 20 [Some 7, Some 8] 2, CancelOpen RelayUdp 9]) = (Some (Inr (binding, 0)), s')"
proof -
  have v: "sr_protocol_version sample_session = V0_6" by (simp add: sample_session_def)
  show ?thesis
    using waiting_connection_served [OF sample_session_new, of RelayTcp "[Some 9]" 1000 10 "[Some 7]" 2 "[]",
        unfolded foldl.simps, OF sample_prepare,
        of "[PrepareOpen RelayUdp [Some 9] 1000 20 [Some 7, Some 8] 2, CancelOpen RelayUdp 9]" 39 sample_request]
    unfolding v by (simp add: sample_request_def request_relay_def sample_session_def del: foldl_Cons)
qed

end
