(* ===== verification/Rust_Text.thy ===== *)
theory Rust_Text
  imports Auth_Limiter Device_Identity
begin

text \<open>
  Texts as the code handles them, with the parts of Rust's standard library it uses: cutting and
  trimming, and numbers in both directions. A \<open>str\<close> is its UTF-8 form, one \<open>char\<close> for each byte, so
  \<open>length\<close> is Rust's \<open>len\<close>. The lemmas say how the digits of a number are read back.
\<close>

subsection \<open>Numbers\<close>

definition digit :: "nat \<Rightarrow> char" where
  "digit n = char_of (48 + n)"

fun decimal :: "nat \<Rightarrow> string" where
  "decimal n = (if n < 10 then [digit n] else decimal (n div 10) @ [digit (n mod 10)])"

declare decimal.simps [simp del]

fun hexadecimal :: "nat \<Rightarrow> string" where
  "hexadecimal n = (if n < 16 then [hex_digit n] else hexadecimal (n div 16) @ [hex_digit (n mod 16)])"

declare hexadecimal.simps [simp del]

text \<open>\<open>char::to_digit\<close> for a radix up to 16.\<close>

definition to_digit :: "nat \<Rightarrow> char \<Rightarrow> nat option" where
  "to_digit radix ch =
     (let c = of_char ch :: nat;
          d = (if 48 \<le> c \<and> c \<le> 57 then c - 48 else if 97 \<le> c \<and> c \<le> 102 then c - 87 else if 65 \<le> c \<and> c \<le> 70 then c - 55 else 16)
      in if d < radix then Some d else None)"

definition digits_value :: "nat \<Rightarrow> string \<Rightarrow> nat option" where
  "digits_value radix s =
     foldl (\<lambda>acc ch. Option.bind acc (\<lambda>n. map_option (\<lambda>d. n * radix + d) (to_digit radix ch))) (Some 0) s"

text \<open>
  \<open>from_str_radix\<close> of an unsigned type with largest value \<open>bound\<close>: a plus sign may come first, there
  must be a digit, and the value must fit.
\<close>

definition parse_radix :: "nat \<Rightarrow> nat \<Rightarrow> string \<Rightarrow> nat option" where
  "parse_radix radix bound s =
     (let digits = (case s of ch # rest \<Rightarrow> if ch = CHR ''+'' then rest else s | [] \<Rightarrow> [])
      in if digits = [] then None
         else Option.bind (digits_value radix digits) (\<lambda>n. if n \<le> bound then Some n else None))"

definition parse_u16 :: "string \<Rightarrow> u16 option" where
  "parse_u16 s = map_option word_of_nat (parse_radix 10 65535 s)"

definition parse_u32 :: "string \<Rightarrow> u32 option" where
  "parse_u32 s = map_option word_of_nat (parse_radix 10 4294967295 s)"

subsection \<open>Cutting\<close>

fun split_once :: "char \<Rightarrow> string \<Rightarrow> (string \<times> string) option" where
  "split_once c [] = None"
| "split_once c (x # xs) = (if x = c then Some ([], xs) else map_option (\<lambda>(a, b). (x # a, b)) (split_once c xs))"

definition rsplit_once :: "char \<Rightarrow> string \<Rightarrow> (string \<times> string) option" where
  "rsplit_once c s = map_option (\<lambda>(b, a). (rev a, rev b)) (split_once c (rev s))"

fun split_on :: "char \<Rightarrow> string \<Rightarrow> string list" where
  "split_on c [] = [[]]"
| "split_on c (x # xs) =
     (if x = c then [] # split_on c xs
      else case split_on c xs of [] \<Rightarrow> [[x]] | part # parts \<Rightarrow> (x # part) # parts)"

fun split_once_at :: "string \<Rightarrow> string \<Rightarrow> (string \<times> string) option" where
  "split_once_at pat [] = (if pat = [] then Some ([], []) else None)"
| "split_once_at pat (x # xs) =
     (if take (length pat) (x # xs) = pat then Some ([], drop (length pat) (x # xs))
      else map_option (\<lambda>(a, b). (x # a, b)) (split_once_at pat xs))"

definition starts_with :: "string \<Rightarrow> string \<Rightarrow> bool" where
  "starts_with pat s \<longleftrightarrow> take (length pat) s = pat"

text \<open>
  \<open>str::trim\<close> removes the characters with the Unicode property White_Space, here on their UTF-8 form;
  \<open>is_blank\<close> says that nothing is left.
\<close>

fun skip_white :: "nat list \<Rightarrow> nat list option" where
  "skip_white (c # cs) =
     (if c = 32 \<or> 9 \<le> c \<and> c \<le> 13 then Some cs
      else case cs of
        d # ds \<Rightarrow>
          if c = 194 \<and> (d = 133 \<or> d = 160) then Some ds
          else (case ds of
            e # es \<Rightarrow>
              if c = 225 \<and> d = 154 \<and> e = 128
                \<or> c = 226 \<and> d = 128 \<and> (128 \<le> e \<and> e \<le> 138 \<or> e = 168 \<or> e = 169 \<or> e = 175)
                \<or> c = 226 \<and> d = 129 \<and> e = 159
                \<or> c = 227 \<and> d = 128 \<and> e = 128
              then Some es else None
          | [] \<Rightarrow> None)
      | [] \<Rightarrow> None)"
| "skip_white [] = None"

lemma skip_white_shorter: "skip_white cs = Some ds \<Longrightarrow> length ds < length cs"
  by (induction cs rule: skip_white.induct) (auto split: if_splits list.splits)

function blank_codes :: "nat list \<Rightarrow> bool" where
  "blank_codes cs = (cs = [] \<or> (case skip_white cs of Some ds \<Rightarrow> blank_codes ds | None \<Rightarrow> False))"
  by auto
termination by (relation "measure length") (auto dest: skip_white_shorter)

declare blank_codes.simps [simp del]

definition is_blank :: "string \<Rightarrow> bool" where
  "is_blank s = blank_codes (map of_char s)"

text \<open>\<open>trim_start\<close> skips white space; \<open>trim_end\<close> looks for the longest start that ends before it.\<close>

function trim_start :: "string \<Rightarrow> string" where
  "trim_start s = (case skip_white (map of_char s) of Some ds \<Rightarrow> trim_start (drop (length s - length ds) s) | None \<Rightarrow> s)"
  by auto
termination by (relation "measure length") (auto dest: skip_white_shorter)

declare trim_start.simps [simp del]

fun trim_end :: "string \<Rightarrow> string" where
  "trim_end [] = []"
| "trim_end (x # xs) = (if is_blank (x # xs) then [] else x # trim_end xs)"

definition trim :: "string \<Rightarrow> string" where
  "trim s = trim_end (trim_start s)"

definition is_ascii_alphanumeric :: "char \<Rightarrow> bool" where
  "is_ascii_alphanumeric ch \<longleftrightarrow> (let c = of_char ch :: nat in 48 \<le> c \<and> c \<le> 57 \<or> 65 \<le> c \<and> c \<le> 90 \<or> 97 \<le> c \<and> c \<le> 122)"

definition is_ascii_hexdigit :: "char \<Rightarrow> bool" where
  "is_ascii_hexdigit ch \<longleftrightarrow> (let c = of_char ch :: nat in 48 \<le> c \<and> c \<le> 57 \<or> 65 \<le> c \<and> c \<le> 70 \<or> 97 \<le> c \<and> c \<le> 102)"

definition is_ascii_whitespace :: "char \<Rightarrow> bool" where
  "is_ascii_whitespace ch \<longleftrightarrow> (let c = of_char ch :: nat in c = 9 \<or> c = 10 \<or> c = 12 \<or> c = 13 \<or> c = 32)"

definition to_ascii_lowercase :: "string \<Rightarrow> string" where
  "to_ascii_lowercase = map (\<lambda>ch. let c = of_char ch :: nat in if 65 \<le> c \<and> c \<le> 90 then char_of (c + 32) else ch)"

definition eq_ignore_ascii_case :: "string \<Rightarrow> string \<Rightarrow> bool" where
  "eq_ignore_ascii_case a b \<longleftrightarrow> to_ascii_lowercase a = to_ascii_lowercase b"

lemma decimal_length: "n < 10 ^ Suc k \<Longrightarrow> length (decimal n) \<le> Suc k"
proof (induction k arbitrary: n)
  case 0
  then show ?case by (simp add: decimal.simps [of n])
next
  case (Suc k)
  have "n div 10 < 10 ^ Suc k" using Suc.prems by (simp add: div_less_iff_less_mult mult.commute)
  from Suc.IH [OF this] show ?case by (simp add: decimal.simps [of n])
qed

subsection \<open>Reading back what was printed\<close>

definition value_of :: "nat \<Rightarrow> nat list \<Rightarrow> nat" where
  "value_of radix ds = foldl (\<lambda>n d. n * radix + d) 0 ds"

lemma value_of_snoc [simp]: "value_of radix [] = 0" "value_of radix (ds @ [d]) = value_of radix ds * radix + d"
  by (simp_all add: value_of_def)

lemma to_digit_digit: "d < 10 \<Longrightarrow> to_digit 10 (digit d) = Some d" "d < 10 \<Longrightarrow> to_digit 16 (digit d) = Some d"
  by (auto simp: to_digit_def digit_def)

lemma to_digit_hex_digit: "d < 16 \<Longrightarrow> to_digit 16 (hex_digit d) = Some d"
proof -
  assume "d < 16"
  then have "d \<in> set [0..<16]" by simp
  moreover have "\<forall>d \<in> set [0..<16]. to_digit 16 (hex_digit d) = Some d" by (simp add: upt_conv_Cons hex_digit_def to_digit_def)
  ultimately show ?thesis by blast
qed

lemma decimal_digits:
  "\<exists>ds. decimal n = map digit ds \<and> (\<forall>d \<in> set ds. d < 10) \<and> value_of 10 ds = n \<and> ds \<noteq> [] \<and> (hd ds = 0 \<longrightarrow> ds = [0])"
proof (induction n rule: decimal.induct)
  case (1 n)
  show ?case
  proof (cases "n < 10")
    case True
    then show ?thesis by (intro exI [of _ "[n]"]) (simp add: decimal.simps [of n] value_of_def)
  next
    case False
    with 1 obtain ds where ds: "decimal (n div 10) = map digit ds" "\<forall>d \<in> set ds. d < 10" "value_of 10 ds = n div 10" "ds \<noteq> []"
        "hd ds = 0 \<longrightarrow> ds = [0]" by auto
    have "hd ds \<noteq> 0"
    proof
      assume "hd ds = 0"
      then have "n div 10 = 0" using ds(3,5) by (simp add: value_of_def)
      with False show False by simp
    qed
    then show ?thesis using False ds by (intro exI [of _ "ds @ [n mod 10]"]) (auto simp: decimal.simps [of n])
  qed
qed

lemma hexadecimal_digits:
  "\<exists>ds. hexadecimal n = map hex_digit ds \<and> (\<forall>d \<in> set ds. d < 16) \<and> value_of 16 ds = n \<and> ds \<noteq> []"
proof (induction n rule: hexadecimal.induct)
  case (1 n)
  show ?case
  proof (cases "n < 16")
    case True
    then show ?thesis by (intro exI [of _ "[n]"]) (simp add: hexadecimal.simps [of n] value_of_def)
  next
    case False
    with 1 obtain ds where ds: "hexadecimal (n div 16) = map hex_digit ds" "\<forall>d \<in> set ds. d < 16" "value_of 16 ds = n div 16"
        "ds \<noteq> []" by auto
    then show ?thesis using False by (intro exI [of _ "ds @ [n mod 16]"]) (auto simp: hexadecimal.simps [of n])
  qed
qed

lemma hexadecimal_length: "n < 16 ^ Suc k \<Longrightarrow> length (hexadecimal n) \<le> Suc k"
proof (induction k arbitrary: n)
  case 0
  then show ?case by (simp add: hexadecimal.simps [of n])
next
  case (Suc k)
  have "n div 16 < 16 ^ Suc k" using Suc.prems by (simp add: div_less_iff_less_mult mult.commute)
  from Suc.IH [OF this] show ?case by (simp add: hexadecimal.simps [of n])
qed

lemma digits_value_map:
  assumes "\<And>d. d \<in> set ds \<Longrightarrow> to_digit radix (f d) = Some d"
  shows "digits_value radix (map f ds) = Some (value_of radix ds)"
  using assms
proof (induction ds rule: rev_induct)
  case (snoc d ds)
  then show ?case by (simp add: digits_value_def)
qed (simp add: digits_value_def)

lemma parse_radix_decimal:
  assumes "n \<le> bound"
  shows "parse_radix 10 bound (decimal n) = Some n"
proof -
  obtain ds where ds: "decimal n = map digit ds" "\<forall>d \<in> set ds. d < 10" "value_of 10 ds = n" "ds \<noteq> []"
    using decimal_digits [of n] by blast
  then obtain d ds' where c: "ds = d # ds'" by (cases ds) auto
  have "of_char (digit d) = (48 + d :: nat)" using ds(2) c by (simp add: digit_def)
  then have "digit d \<noteq> CHR ''+''" using ds(2) c by auto
  moreover have "digits_value 10 (map digit ds) = Some n"
    using digits_value_map [of ds 10 digit] ds(2,3) to_digit_digit(1) by simp
  ultimately show ?thesis using assms ds(1) c by (simp add: parse_radix_def)
qed

lemma parse_u16_decimal: "parse_u16 (decimal (unat p)) = Some p"
  using parse_radix_decimal [of "unat p" 65535] unat_less_pow [of p] by (simp add: parse_u16_def)

subsection \<open>Cutting what was joined\<close>

lemma split_once_append: "c \<notin> set a \<Longrightarrow> split_once c (a @ c # b) = Some (a, b)"
  by (induction a) auto

lemma split_once_absent: "c \<notin> set s \<Longrightarrow> split_once c s = None"
  by (induction s) auto

lemma split_once_Some: "split_once c s = Some (a, b) \<Longrightarrow> s = a @ c # b \<and> c \<notin> set a"
  by (induction s arbitrary: a) (auto split: if_splits)

lemma rsplit_once_append:
  assumes "c \<notin> set b"
  shows "rsplit_once c (a @ c # b) = Some (a, b)"
  using split_once_append [of c "rev b" "rev a"] assms by (simp add: rsplit_once_def)

lemma rsplit_once_Some:
  assumes "rsplit_once c s = Some (a, b)"
  shows "s = a @ c # b \<and> c \<notin> set b"
proof -
  have "split_once c (rev s) = Some (rev b, rev a)" using assms by (auto simp: rsplit_once_def)
  from split_once_Some [OF this] have "rev (rev s) = rev (rev b @ c # rev a)" "c \<notin> set b" by simp_all
  then show ?thesis by simp
qed

lemma starts_with_append [simp]: "starts_with p (p @ s)"
  by (simp add: starts_with_def)

lemma strip_prefix_Some: "strip_prefix p s = Some r \<Longrightarrow> s = p @ r"
  by (auto simp: strip_prefix_def split: if_splits) (metis append_take_drop_id)

lemma lower_char: "of_char (if 65 \<le> (of_char ch :: nat) \<and> of_char ch \<le> (90 :: nat) then char_of (of_char ch + 32 :: nat) else ch) =
    (if 65 \<le> (of_char ch :: nat) \<and> of_char ch \<le> (90 :: nat) then of_char ch + 32 else of_char ch :: nat)"
  by simp

lemma lowercase_idem [simp]: "to_ascii_lowercase (to_ascii_lowercase s) = to_ascii_lowercase s"
  by (auto simp: to_ascii_lowercase_def Let_def)

lemma set_decimal: "set (decimal n) \<subseteq> digit ` {..<10}"
  using decimal_digits [of n] by auto

lemma set_hexadecimal: "set (hexadecimal n) \<subseteq> hex_digit ` {..<16}"
  using hexadecimal_digits [of n] by auto

lemma digit_code: "d < 10 \<Longrightarrow> of_char (digit d) = (48 + d :: nat)"
  by (simp add: digit_def)

lemma hex_digit_code: "d < 16 \<Longrightarrow> (of_char (hex_digit d) :: nat) \<in> {48..57} \<union> {97..102}"
proof -
  assume "d < 16"
  then have "d \<in> set [0..<16]" by simp
  moreover have "\<forall>d \<in> set [0..<16]. (of_char (hex_digit d) :: nat) \<in> {48..57} \<union> {97..102}"
    by (simp add: upt_conv_Cons hex_digit_def)
  ultimately show ?thesis by blast
qed

lemma decimal_code: "ch \<in> set (decimal n) \<Longrightarrow> (of_char ch :: nat) \<in> {48..57}"
  using set_decimal [of n] digit_code by force

lemma hexadecimal_code: "ch \<in> set (hexadecimal n) \<Longrightarrow> (of_char ch :: nat) \<in> {48..57} \<union> {97..102}"
  using set_hexadecimal [of n] hex_digit_code by blast

lemma parse_radix_hex_byte: "parse_radix 16 255 (hex_byte b) = Some (unat b)"
proof -
  have b: "unat b div 16 < 16" "unat b mod 16 < 16" "unat b < 256" using unat_less_pow [of b] by auto
  have "hex_digit (unat b div 16) \<noteq> CHR ''+''" using hex_digit_code [OF b(1)] by auto
  then show ?thesis using to_digit_hex_digit b by (simp add: parse_radix_def hex_byte_def digits_value_def)
qed

end
