(* ===== verification/Client_Registry.thy ===== *)
theory Client_Registry
  imports Session_Runtime Udp_Flows Rust_Text "HOL-Library.Multiset"
begin

text \<open>
  The server's table of connected clients (\<open>rustgos/src/registry.rs\<close>, \<open>ClientRegistry\<close>,
  \<open>ControlSessionGuard\<close> and \<open>AuthenticatedDataChannel\<close>). Sessions are shared between the registry, the
  guard of the control connection and the relay tasks, so they live in a heap (\<open>sv_runtimes\<close>) and the
  tables hold their addresses; the observability sink is shared in the same way. Each section under the
  registry's mutex is one step. Socket binding is an operating-system call whose outcome is an input.
  The theorems: the two tables list exactly the sessions that a guard or an unfinished teardown
  still owns, which makes names and fingerprints exclusive and the capacity exact; a data channel that
  is admitted belongs to the session of a connected client; and what the answers to a tunnel
  registration mean.
\<close>

subsection \<open>Registry\<close>

record ActiveSession =
  as_name :: string
  as_session_id :: bytes

record RegistryState =
  rg_active :: "(string, ActiveSession) hashmap"
  rg_by_name :: "(string, nat) hashmap"
  rg_next_observability_generation :: u64

record ClientRegistry =
  cr_max_clients :: nat
  cr_max_tunnels_per_client :: nat
  cr_max_tcp_connections_per_tunnel :: nat
  cr_max_udp_sessions_per_tunnel :: nat
  cr_max_udp_payload_bytes :: nat
  cr_tcp_listener_ip :: IpAddr
  cr_udp_listener_ip :: "IpAddr option"
  cr_binding_capacity :: nat
  cr_binding_ttl :: nat
  cr_udp_runtime_limits :: UdpRuntimeLimits

record server =
  sv_state :: RegistryState
  sv_runtimes :: "SessionRuntime list"
  sv_observability :: "ObservabilitySink option"

record ActiveControlSession =
  acs_identity :: AuthenticatedClient
  acs_runtime :: nat
  acs_protocol_version :: ProtocolVersion
  acs_observability_identity :: AuthenticatedClientIdentity

datatype ListenerLease =
    LeaseTcp SocketAddr u32 string
  | LeaseUdp SocketAddr PendingOpen u32 string

record AuthenticatedDataChannel =
  adc_stream :: "nat option"
  adc_binding :: ChannelBinding
  adc_destination :: "nat option"
  adc_cancellation :: nat
  adc_protocol_version :: ProtocolVersion

record ControlSessionGuard =
  cg_identity :: AuthenticatedClient
  cg_runtime :: nat
  cg_listeners :: "ListenerLease list"
  cg_tunnel_ids :: "(u32, TunnelProtocol) hashmap"
  cg_tunnel_names :: "string list"
  cg_data_channels :: "AuthenticatedDataChannel list"
  cg_unavailable :: bool
  cg_released :: bool

definition runtime_at :: "server \<Rightarrow> nat \<Rightarrow> SessionRuntime" where
  "runtime_at w r = sv_runtimes w ! r"

definition set_runtime :: "nat \<Rightarrow> SessionRuntime \<Rightarrow> server \<Rightarrow> server" where
  "set_runtime r s w = w\<lparr>sv_runtimes := (sv_runtimes w)[r := s]\<rparr>"

definition cancel_token :: "nat \<Rightarrow> server \<Rightarrow> server" where
  "cancel_token r w = set_runtime r ((runtime_at w r)\<lparr>sr_cancelled := True\<rparr>) w"

definition terminate_by_name :: "string \<Rightarrow> server \<Rightarrow> bool \<times> server" where
  "terminate_by_name name w =
     (case map_of (rg_by_name (sv_state w)) name of
        Some runtime \<Rightarrow> (True, cancel_token runtime w)
      | None \<Rightarrow> (False, w))"

definition notify_rename_and_terminate :: "string \<Rightarrow> string \<Rightarrow> u64 \<Rightarrow> server \<Rightarrow> bool \<times> server" where
  "notify_rename_and_terminate old_name new_name revision w =
     (case map_of (rg_by_name (sv_state w)) old_name of
        None \<Rightarrow> (False, w)
      | Some r \<Rightarrow>
          let runtime = runtime_at w r;
              detail = ''identity-renamed:'' @ new_name @ '':'' @ decimal (unat revision);
              w = (case BoundedString_try_from MAX_ERROR_DETAIL_BYTES detail of
                     Inr detail \<Rightarrow>
                       set_runtime r (runtime\<lparr>sr_outbound := snd (try_send (ServerNotice
                         \<lparr>sn_session_id = (if length (sr_session_id runtime) = 32 then sr_session_id runtime else replicate 32 0),
                          sn_code = 1001, sn_detail = detail, sn_peer = None\<rparr>) (sr_outbound runtime))\<rparr>) w
                   | Inl _ \<Rightarrow> w)
          in (True, cancel_token r w))"

definition new_with_relay_limits ::
  "nat \<Rightarrow> nat \<Rightarrow> nat \<Rightarrow> nat \<Rightarrow> nat \<Rightarrow> IpAddr \<Rightarrow> IpAddr option \<Rightarrow> nat \<Rightarrow> nat \<Rightarrow> UdpRuntimeLimits
     \<Rightarrow> (RegistryError, ClientRegistry \<times> server) result" where
  "new_with_relay_limits max_clients max_tunnels_per_client max_tcp_connections_per_tunnel
       max_udp_sessions_per_tunnel max_udp_payload_bytes tcp_listener_ip udp_listener_ip binding_capacity
       binding_ttl udp_runtime_limits =
     (if max_clients = 0 \<or> max_tunnels_per_client = 0 \<or> max_tcp_connections_per_tunnel = 0 \<or>
         max_udp_sessions_per_tunnel = 0 \<or> max_udp_payload_bytes = 0 \<or>
         max_udp_payload_bytes > MAX_UDP_PAYLOAD_BYTES \<or> binding_capacity = 0 \<or> binding_ttl = 0 \<or>
         \<not> limits_valid udp_runtime_limits
      then Inl RegistryInvalidConfiguration
      else Inr (\<lparr>cr_max_clients = max_clients, cr_max_tunnels_per_client = max_tunnels_per_client,
             cr_max_tcp_connections_per_tunnel = max_tcp_connections_per_tunnel,
             cr_max_udp_sessions_per_tunnel = max_udp_sessions_per_tunnel,
             cr_max_udp_payload_bytes = max_udp_payload_bytes, cr_tcp_listener_ip = tcp_listener_ip,
             cr_udp_listener_ip = udp_listener_ip, cr_binding_capacity = binding_capacity,
             cr_binding_ttl = binding_ttl, cr_udp_runtime_limits = udp_runtime_limits\<rparr>,
           \<lparr>sv_state = \<lparr>rg_active = [], rg_by_name = [], rg_next_observability_generation = 0\<rparr>,
            sv_runtimes = [], sv_observability = None\<rparr>))"

definition available_at :: "server \<Rightarrow> string \<Rightarrow> bool" where
  "available_at w name =
     (case map_of (rg_by_name (sv_state w)) name of Some r \<Rightarrow> sr_available (runtime_at w r) | None \<Rightarrow> False)"

definition active_count :: "server \<Rightarrow> nat" where
  "active_count w = length (filter (\<lambda>(_, active). available_at w (as_name active)) (rg_active (sv_state w)))"

definition install_observability_sink :: "ObservabilitySink \<Rightarrow> server \<Rightarrow> (RegistryError, unit) result \<times> server" where
  "install_observability_sink sink w =
     (case sv_observability w of
        None \<Rightarrow> (Inr (), w\<lparr>sv_observability := Some sink\<rparr>)
      | Some _ \<Rightarrow> (Inl ObservabilityAlreadyConfigured, w))"

definition try_observe :: "ObservationEvent \<Rightarrow> server \<Rightarrow> server" where
  "try_observe event w =
     (case sv_observability w of
        Some sink \<Rightarrow> w\<lparr>sv_observability := Some (snd (try_publish event sink))\<rparr>
      | None \<Rightarrow> w)"

definition registry_is_active :: "server \<Rightarrow> string \<Rightarrow> bool" where
  "registry_is_active w print =
     (case map_of (rg_active (sv_state w)) print of
        Some active \<Rightarrow> available_at w (as_name active)
      | None \<Rightarrow> False)"

definition is_active_session :: "server \<Rightarrow> AuthenticatedClient \<Rightarrow> bool" where
  "is_active_session w identity =
     (case map_of (rg_active (sv_state w)) (ac_fingerprint identity) of
        Some active \<Rightarrow> as_name active = ac_name identity \<and> as_session_id active = ac_session_id identity \<and>
          available_at w (as_name active)
      | None \<Rightarrow> False)"

definition version_label :: "ProtocolVersion \<Rightarrow> string" where
  "version_label v = decimal (unat (pv_major v)) @ ''.'' @ decimal (unat (pv_minor v))"

text \<open>
  \<open>claim_with_outbound\<close>: the section under the mutex, then the event. The binding store is made from
  the clock reading \<open>now\<close>, \<open>latest\<close> being the last instant the clock can represent; \<open>millis\<close> is
  the wall clock.
\<close>

definition claim_section ::
  "ClientRegistry \<Rightarrow> ChannelBindingStore \<Rightarrow> AuthenticatedClient \<Rightarrow> outbound \<Rightarrow> ProtocolVersion \<Rightarrow> server
     \<Rightarrow> (RegistryError, nat \<times> AuthenticatedClientIdentity) result \<times> server" where
  "claim_section self binding_store identity ob protocol_version w =
     (let state = sv_state w in
      if map_of (rg_active state) (ac_fingerprint identity) \<noteq> None \<or> map_of (rg_by_name state) (ac_name identity) \<noteq> None
      then (Inl AlreadyConnected, w)
      else if length (rg_active state) \<ge> cr_max_clients self then (Inl RegistryCapacityReached, w)
      else case checked_add (rg_next_observability_generation state) 1 of
        None \<Rightarrow> (Inl GenerationExhausted, w)
      | Some generation \<Rightarrow>
          (case from_server_authentication (ac_name identity) generation of
             Inl _ \<Rightarrow> (Inl RegistryInvalidConfiguration, w)
           | Inr observability_identity \<Rightarrow>
               let runtime = \<lparr>sr_client = ac_name identity, sr_fingerprint = ac_fingerprint identity,
                     sr_session_id = ac_session_id identity, sr_observability_identity = observability_identity,
                     sr_bindings = fresh_bindings binding_store, sr_outbound = ob, sr_cancelled = False,
                     sr_available = True, sr_binding_ttl = cr_binding_ttl self, sr_protocol_version = protocol_version\<rparr>;
                   address = length (sv_runtimes w);
                   state = state\<lparr>rg_next_observability_generation := generation,
                     rg_active := hm_insert (ac_fingerprint identity)
                       \<lparr>as_name = ac_name identity, as_session_id = ac_session_id identity\<rparr> (rg_active state),
                     rg_by_name := hm_insert (ac_name identity) address (rg_by_name state)\<rparr>
               in (Inr (address, observability_identity),
                   w\<lparr>sv_state := state, sv_runtimes := sv_runtimes w @ [runtime]\<rparr>)))"

definition claim_with_outbound ::
  "nat \<Rightarrow> nat \<Rightarrow> u64 \<Rightarrow> ClientRegistry \<Rightarrow> AuthenticatedClient \<Rightarrow> outbound \<Rightarrow> ProtocolVersion \<Rightarrow> server
     \<Rightarrow> (RegistryError, ControlSessionGuard) result \<times> server" where
  "claim_with_outbound latest now millis self identity ob protocol_version w =
     (case ChannelBindingStore_new latest now (ac_name identity) (ac_session_id identity)
             (cr_binding_capacity self) (cr_binding_ttl self) of
        Inl e \<Rightarrow> (Inl (Binding e), w)
      | Inr binding_store \<Rightarrow>
          (case claim_section self binding_store identity ob protocol_version w of
             (Inl e, w) \<Rightarrow> (Inl e, w)
           | (Inr (runtime, observability_identity), w) \<Rightarrow>
               (case BoundedLabel_try_from (version_label protocol_version) of
                  Inl _ \<Rightarrow> (Inl RegistryPanic, w)
                | Inr version \<Rightarrow>
                    (Inr \<lparr>cg_identity = identity, cg_runtime = runtime, cg_listeners = [], cg_tunnel_ids = [],
                       cg_tunnel_names = [], cg_data_channels = [], cg_unavailable = False, cg_released = False\<rparr>,
                     try_observe (ClientAuthenticated observability_identity version millis) w))))"

definition registry_authenticate_data_channel ::
  "nat \<Rightarrow> nat \<Rightarrow> DataChannelBind \<Rightarrow> ProtocolVersion \<Rightarrow> server
     \<Rightarrow> (RegistryError, AuthenticatedDataChannel) result \<times> server" where
  "registry_authenticate_data_channel now stream request protocol_version w =
     (case map_of (rg_by_name (sv_state w)) (dcb_client_name request) of
        None \<Rightarrow> (Inl (Binding BindingRejected), w)
      | Some r \<Rightarrow>
          let runtime = runtime_at w r in
          if sr_session_id runtime \<noteq> dcb_session_id request then (Inl (Binding BindingRejected), w)
          else if \<not> sr_available runtime then (Inl (Binding BindingRejected), w)
          else case redeem_if_present now request protocol_version runtime of
            (None, s) \<Rightarrow> (Inl (Binding BindingRejected), set_runtime r s w)
          | (Some (Inl e), s) \<Rightarrow> (Inl e, set_runtime r s w)
          | (Some (Inr (binding, destination)), s) \<Rightarrow>
              (Inr \<lparr>adc_stream = Some stream, adc_binding = binding, adc_destination = Some destination,
                 adc_cancellation = r, adc_protocol_version = sr_protocol_version runtime\<rparr>,
               set_runtime r s w))"

definition udp_open_channel :: "ClientRegistry \<Rightarrow> u32 \<Rightarrow> u64 \<Rightarrow> bytes \<Rightarrow> (RegistryError, OpenUdpChannel) result" where
  "udp_open_channel self tunnel_id channel_id binding_token =
     (case open_channel (cr_udp_runtime_limits self) tunnel_id channel_id binding_token
             (cr_max_udp_sessions_per_tunnel self) (cr_max_udp_payload_bytes self) of
        Inl _ \<Rightarrow> Inl RegistryInvalidConfiguration
      | Inr request \<Rightarrow> Inr request)"

definition active_control_session :: "server \<Rightarrow> string \<Rightarrow> ActiveControlSession option" where
  "active_control_session w name =
     (case map_of (rg_by_name (sv_state w)) name of
        None \<Rightarrow> None
      | Some r \<Rightarrow>
          let runtime = runtime_at w r in
          if \<not> sr_available runtime then None
          else Some \<lparr>acs_identity = \<lparr>ac_name = sr_client runtime, ac_fingerprint = sr_fingerprint runtime,
                   ac_session_id = sr_session_id runtime\<rparr>,
                 acs_runtime = r, acs_protocol_version = sr_protocol_version runtime,
                 acs_observability_identity = sr_observability_identity runtime\<rparr>)"

definition release :: "AuthenticatedClient \<Rightarrow> server \<Rightarrow> server" where
  "release identity w =
     (let state = sv_state w;
          owns_entry = (case map_of (rg_active state) (ac_fingerprint identity) of
            Some active \<Rightarrow> as_name active = ac_name identity \<and> as_session_id active = ac_session_id identity
          | None \<Rightarrow> False)
      in if owns_entry
         then w\<lparr>sv_state := state\<lparr>rg_active := hm_remove (ac_fingerprint identity) (rg_active state),
                rg_by_name := hm_remove (ac_name identity) (rg_by_name state)\<rparr>\<rparr>
         else w)"

subsection \<open>The guard of a control connection\<close>

definition mark_unavailable :: "ControlSessionGuard \<Rightarrow> server \<Rightarrow> ControlSessionGuard \<times> server" where
  "mark_unavailable self w =
     (if cg_unavailable self then (self, w)
      else (self\<lparr>cg_unavailable := True\<rparr>,
            set_runtime (cg_runtime self) (runtime_cancel (runtime_at w (cg_runtime self))) w))"

definition release_and_observe :: "u64 \<Rightarrow> AuthenticatedClient \<Rightarrow> nat \<Rightarrow> server \<Rightarrow> server" where
  "release_and_observe millis identity runtime w =
     (let w = release identity w
      in try_observe (ClientDisconnected (sr_observability_identity (runtime_at w runtime)) millis) w)"

definition finalize_disconnect :: "u64 \<Rightarrow> ControlSessionGuard \<Rightarrow> server \<Rightarrow> ControlSessionGuard \<times> server" where
  "finalize_disconnect millis self w =
     (if cg_released self then (self, w)
      else (self\<lparr>cg_released := True\<rparr>, release_and_observe millis (cg_identity self) (cg_runtime self) w))"

text \<open>What the operating system and the random generator answer while one tunnel is registered.\<close>

record bind_env =
  bi_failure :: "io_error option"
  bi_ids :: "u64 option list"
  bi_latest :: nat
  bi_now :: nat
  bi_tokens :: "bytes option list"

fun socket_addr_new :: "IpAddr \<Rightarrow> u16 \<Rightarrow> SocketAddr" where
  "socket_addr_new (IpV4 b) port_number = SocketV4 b port_number"
| "socket_addr_new (IpV6 b) port_number = SocketV6 b port_number 0 0"

definition bind_listener ::
  "ClientRegistry \<Rightarrow> bind_env \<Rightarrow> u32 \<Rightarrow> string \<Rightarrow> TunnelProtocol \<Rightarrow> u16 \<Rightarrow> ControlSessionGuard \<Rightarrow> server
     \<Rightarrow> (RegistryError, ListenerLease) result \<times> server" where
  "bind_listener registry env tunnel_id tunnel_name protocol port_number self w =
     (if protocol = TunnelProtocol_TCP then
        (case bi_failure env of
           Some e \<Rightarrow> (Inl (Io e), w)
         | None \<Rightarrow> (Inr (LeaseTcp (socket_addr_new (cr_tcp_listener_ip registry) port_number) tunnel_id tunnel_name), w))
      else case cr_udp_listener_ip registry of
        None \<Rightarrow> (Inl UdpBindAddressRequired, w)
      | Some ip \<Rightarrow>
          (case bi_failure env of
             Some e \<Rightarrow> (Inl (Io e), w)
           | None \<Rightarrow>
               (case prepare_udp (bi_ids env) (bi_latest env) (bi_now env) (bi_tokens env) tunnel_id
                       (runtime_at w (cg_runtime self)) of
                  (Inl e, s) \<Rightarrow> (Inl e, set_runtime (cg_runtime self) s w)
                | (Inr pending, s) \<Rightarrow>
                    (Inr (LeaseUdp (socket_addr_new ip port_number) pending tunnel_id tunnel_name),
                     set_runtime (cg_runtime self) s w))))"

definition tunnel_error_code :: "ProtocolVersion \<Rightarrow> RegistryError \<Rightarrow> ProtocolErrorCode" where
  "tunnel_error_code version error =
     (if supports_managed_configuration version \<and> error = Io AddrInUse then TUNNEL_PORT_IN_USE
      else if supports_managed_configuration version \<and> error = Io PermissionDenied then TUNNEL_PERMISSION_DENIED
      else if error = UdpBindAddressRequired then UDP_BIND_ADDRESS_REQUIRED
      else TUNNEL_REJECTED)"

definition unacceptable :: "ClientRegistry \<Rightarrow> ControlSessionGuard \<Rightarrow> TunnelRegistration \<Rightarrow> bool" where
  "unacceptable registry self tunnel \<longleftrightarrow>
     length (cg_listeners self) \<ge> cr_max_tunnels_per_client registry \<or> tr_tunnel_id tunnel = 0 \<or>
     tr_remote_port tunnel = 0 \<or> is_blank (tr_name tunnel) \<or>
     map_of (cg_tunnel_ids self) (tr_tunnel_id tunnel) \<noteq> None \<or> List.member (cg_tunnel_names self) (tr_name tunnel)"

definition register_tunnel ::
  "ClientRegistry \<Rightarrow> bind_env \<Rightarrow> TunnelRegistration \<Rightarrow> ControlSessionGuard \<Rightarrow> server
     \<Rightarrow> TunnelResult \<times> ControlSessionGuard \<times> server" where
  "register_tunnel registry env tunnel self w =
     (let (binding, w) =
            (if unacceptable registry self tunnel then (Inl InvalidTunnelRegistration, w)
             else bind_listener registry env (tr_tunnel_id tunnel) (tr_name tunnel) (tr_protocol tunnel)
                    (tr_remote_port tunnel) self w);
          (accepted, error, self) =
            (case binding of
               Inr lease \<Rightarrow>
                 (True, None, self\<lparr>cg_tunnel_ids := hm_insert (tr_tunnel_id tunnel) (tr_protocol tunnel) (cg_tunnel_ids self),
                    cg_tunnel_names := List.insert (tr_name tunnel) (cg_tunnel_names self),
                    cg_listeners := cg_listeners self @ [lease]\<rparr>)
             | Inl error \<Rightarrow>
                 (False, Some (tunnel_error_code (sr_protocol_version (runtime_at w (cg_runtime self))) error), self))
      in (\<lparr>tres_tunnel_id = tr_tunnel_id tunnel, tres_accepted = accepted, tres_error = error\<rparr>, self, w))"

fun register_loop ::
  "ClientRegistry \<Rightarrow> (nat \<Rightarrow> bind_env) \<Rightarrow> TunnelRegistration list \<Rightarrow> ControlSessionGuard \<Rightarrow> server
     \<Rightarrow> TunnelResult list \<times> ControlSessionGuard \<times> server" where
  "register_loop registry env [] self w = ([], self, w)"
| "register_loop registry env (tunnel # tunnels) self w =
     (let (result, self, w) = register_tunnel registry (env 0) tunnel self w;
          (results, self, w) = register_loop registry (\<lambda>i. env (Suc i)) tunnels self w
      in (result # results, self, w))"

definition register_tunnels ::
  "ClientRegistry \<Rightarrow> (nat \<Rightarrow> bind_env) \<Rightarrow> RegisterTunnels \<Rightarrow> ControlSessionGuard \<Rightarrow> server
     \<Rightarrow> (RegistryError, TunnelResults) result \<times> ControlSessionGuard \<times> server" where
  "register_tunnels registry env request self w =
     (let (results, self, w) = register_loop registry env (rt_tunnels request) self w
      in (case BoundedVec_try_from MAX_TUNNELS results of
            Inl _ \<Rightarrow> (Inl RegistryPanic, self, w)
          | Inr results \<Rightarrow> (Inr \<lparr>trs_results = results\<rparr>, self, w)))"

definition publish_tunnel_inventory :: "ControlSessionGuard \<Rightarrow> server \<Rightarrow> (RegistryError, unit) result \<times> server" where
  "publish_tunnel_inventory self w =
     (case BoundedInventory_try_from_names (sort (cg_tunnel_names self)) of
        Inl _ \<Rightarrow> (Inl RegistryPanic, w)
      | Inr names \<Rightarrow>
          (Inr (), try_observe (TunnelInventory (sr_observability_identity (runtime_at w (cg_runtime self))) names) w))"

definition reject_tcp :: "u64 \<Rightarrow> ControlSessionGuard \<Rightarrow> server \<Rightarrow> server" where
  "reject_tcp connection_id self w =
     set_runtime (cg_runtime self) (cancel_pending connection_id (runtime_at w (cg_runtime self))) w"

fun kind_tunnel_id :: "ChannelKind \<Rightarrow> u32" where
  "kind_tunnel_id (ChannelTcp tunnel_id _) = tunnel_id"
| "kind_tunnel_id (ChannelUdp tunnel_id _) = tunnel_id"

fun kind_protocol :: "ChannelKind \<Rightarrow> TunnelProtocol" where
  "kind_protocol (ChannelTcp _ _) = TunnelProtocol_TCP"
| "kind_protocol (ChannelUdp _ _) = TunnelProtocol_UDP"

definition issue_data_channel_binding ::
  "nat \<Rightarrow> nat \<Rightarrow> bytes option list \<Rightarrow> ChannelKind \<Rightarrow> ControlSessionGuard \<Rightarrow> server
     \<Rightarrow> (RegistryError, bytes) result \<times> server" where
  "issue_data_channel_binding latest now tokens channel_kind self w =
     (if map_of (cg_tunnel_ids self) (kind_tunnel_id channel_kind) \<noteq> Some (kind_protocol channel_kind)
      then (Inl UnknownTunnel, w)
      else let (result, s) = runtime_issue latest now tokens channel_kind (runtime_at w (cg_runtime self))
           in (result, set_runtime (cg_runtime self) s w))"

definition guard_authenticate_data_channel ::
  "nat \<Rightarrow> nat \<Rightarrow> string \<Rightarrow> bytes \<Rightarrow> ChannelKind \<Rightarrow> bytes \<Rightarrow> ControlSessionGuard \<Rightarrow> server
     \<Rightarrow> (RegistryError, AuthenticatedDataChannel) result \<times> ControlSessionGuard \<times> server" where
  "guard_authenticate_data_channel now stream presented_client presented_session_id channel_kind token self w =
     (let runtime = runtime_at w (cg_runtime self) in
      case runtime_redeem now presented_client presented_session_id channel_kind token runtime of
        (Inl e, s) \<Rightarrow> (Inl e, self, set_runtime (cg_runtime self) s w)
      | (Inr binding, s) \<Rightarrow>
          let channel = \<lparr>adc_stream = Some stream, adc_binding = binding, adc_destination = None,
                adc_cancellation = cg_runtime self, adc_protocol_version = sr_protocol_version runtime\<rparr>
          in (Inr channel, self\<lparr>cg_data_channels := cg_data_channels self @ [channel]\<rparr>, set_runtime (cg_runtime self) s w))"

text \<open>
  Closing a connection: \<open>shutdown\<close> waits for the listener tasks between its two sections, and a dropped
  guard with listeners leaves that wait and the release to a task of its own.
\<close>

definition shutdown_begin :: "ControlSessionGuard \<Rightarrow> server \<Rightarrow> ControlSessionGuard \<times> server" where
  "shutdown_begin self w = (if cg_released self then (self, w) else mark_unavailable self w)"

definition shutdown_finish :: "u64 \<Rightarrow> ControlSessionGuard \<Rightarrow> server \<Rightarrow> ControlSessionGuard \<times> server" where
  "shutdown_finish millis self w =
     (if cg_released self then (self, w)
      else finalize_disconnect millis (self\<lparr>cg_listeners := [], cg_data_channels := []\<rparr>) w)"

definition shutdown :: "u64 \<Rightarrow> ControlSessionGuard \<Rightarrow> server \<Rightarrow> ControlSessionGuard \<times> server" where
  "shutdown millis self w = (let (self, w) = shutdown_begin self w in shutdown_finish millis self w)"

definition drop_guard ::
  "bool \<Rightarrow> u64 \<Rightarrow> ControlSessionGuard \<Rightarrow> server \<Rightarrow> (AuthenticatedClient \<times> nat) option \<times> ControlSessionGuard \<times> server" where
  "drop_guard in_runtime millis self w =
     (if cg_released self then (None, self, w)
      else
        let (self, w) = mark_unavailable self w;
            listeners = cg_listeners self;
            self = self\<lparr>cg_data_channels := [], cg_listeners := [], cg_released := True\<rparr>
        in if listeners \<noteq> [] \<and> in_runtime then (Some (cg_identity self, cg_runtime self), self, w)
           else (None, self, release_and_observe millis (cg_identity self) (cg_runtime self) w))"

definition deliver :: "bool \<Rightarrow> AuthenticatedDataChannel \<Rightarrow> (RegistryError, nat \<times> nat) result" where
  "deliver receiver_open self =
     and_then (ok_or (adc_stream self) RegistryInternal) (\<lambda>stream.
     and_then (ok_or (adc_destination self) RegistryInternal) (\<lambda>destination.
       if receiver_open then Inr (destination, stream) else Inl (Binding BindingRejected)))"

subsection \<open>The tables and the owners of sessions\<close>

text \<open>
  An owner of a session is a guard that has not released it, or the task that a dropped guard left
  behind. The tables have one entry per owner.
\<close>

type_synonym owner = "AuthenticatedClient \<times> nat"

definition session_identity :: "SessionRuntime \<Rightarrow> AuthenticatedClient" where
  "session_identity s = \<lparr>ac_name = sr_client s, ac_fingerprint = sr_fingerprint s, ac_session_id = sr_session_id s\<rparr>"

definition active_entry :: "owner \<Rightarrow> string \<times> ActiveSession" where
  "active_entry x = (ac_fingerprint (fst x), \<lparr>as_name = ac_name (fst x), as_session_id = ac_session_id (fst x)\<rparr>)"

definition name_entry :: "owner \<Rightarrow> string \<times> nat" where
  "name_entry x = (ac_name (fst x), snd x)"

definition tables_match :: "nat \<Rightarrow> server \<Rightarrow> owner list \<Rightarrow> bool" where
  "tables_match limit w os \<longleftrightarrow>
     distinct (map (ac_fingerprint \<circ> fst) os) \<and> distinct (map (ac_name \<circ> fst) os) \<and> length os \<le> limit \<and>
     (\<forall>(i, r) \<in> set os. r < length (sv_runtimes w) \<and> session_identity (runtime_at w r) = i) \<and>
     hm_ok (rg_active (sv_state w)) \<and> set (rg_active (sv_state w)) = active_entry ` set os \<and>
     hm_ok (rg_by_name (sv_state w)) \<and> set (rg_by_name (sv_state w)) = name_entry ` set os"

lemma tables_matchD:
  assumes "tables_match limit w os"
  shows "distinct (map (ac_fingerprint \<circ> fst) os)" "distinct (map (ac_name \<circ> fst) os)" "length os \<le> limit"
    and "(i, r) \<in> set os \<Longrightarrow> r < length (sv_runtimes w)" "(i, r) \<in> set os \<Longrightarrow> session_identity (runtime_at w r) = i"
    and "hm_ok (rg_active (sv_state w))" "hm_ok (rg_by_name (sv_state w))"
    and "set (rg_active (sv_state w)) = active_entry ` set os" "set (rg_by_name (sv_state w)) = name_entry ` set os"
  using assms unfolding tables_match_def by auto

lemma active_lookup:
  assumes "tables_match limit w os"
  shows "map_of (rg_active (sv_state w)) f = Some a \<longleftrightarrow> (\<exists>x \<in> set os. active_entry x = (f, a))"
  using hm_ok_in_set [OF tables_matchD(6) [OF assms], of f a] tables_matchD(8) [OF assms] by (metis imageE image_eqI)

lemma name_lookup:
  assumes "tables_match limit w os"
  shows "map_of (rg_by_name (sv_state w)) n = Some r \<longleftrightarrow> (\<exists>i. (i, r) \<in> set os \<and> ac_name i = n)"
  using hm_ok_in_set [OF tables_matchD(7) [OF assms], of n r] tables_matchD(9) [OF assms]
  by (force simp: name_entry_def)

lemma active_length:
  assumes "tables_match limit w os"
  shows "length (rg_active (sv_state w)) = length os"
proof -
  have "distinct (rg_active (sv_state w))" using tables_matchD(6) [OF assms] by (simp add: hm_ok_def distinct_map)
  then have "length (rg_active (sv_state w)) = card (active_entry ` set os)"
    using tables_matchD(8) [OF assms] distinct_card by metis
  also have "inj_on active_entry (set os)"
    using tables_matchD(1) [OF assms] by (auto simp: distinct_map active_entry_def inj_on_def)
  then have "card (active_entry ` set os) = length os"
    using tables_matchD(1) [OF assms] by (simp add: card_image distinct_card distinct_map)
  finally show ?thesis .
qed

lemma tables_match_perm:
  assumes "tables_match limit w os" and "mset os = mset os'"
  shows "tables_match limit w os'"
proof -
  have "mset (map f os) = mset (map f os')" for f :: "owner \<Rightarrow> string" using assms(2) by simp
  then have "distinct (map f os) = distinct (map f os')" for f :: "owner \<Rightarrow> string" by (rule mset_eq_imp_distinct_iff)
  moreover have "set os = set os'" "length os = length os'" using assms(2) by (auto dest: mset_eq_setD mset_eq_length)
  ultimately show ?thesis using assms(1) by (simp add: tables_match_def)
qed

text \<open>
  What every step leaves of the sessions that exist before it: the identity and the protocol version,
  and an unavailable session stays unavailable.
\<close>

definition evolves :: "SessionRuntime \<Rightarrow> SessionRuntime \<Rightarrow> bool" where
  "evolves s s' \<longleftrightarrow> session_identity s' = session_identity s \<and> sr_protocol_version s' = sr_protocol_version s \<and>
     (sr_available s' \<longrightarrow> sr_available s)"

definition same_sessions :: "server \<Rightarrow> server \<Rightarrow> bool" where
  "same_sessions w w' \<longleftrightarrow> sv_state w' = sv_state w \<and> list_all2 evolves (sv_runtimes w) (sv_runtimes w')"

definition grows :: "server \<Rightarrow> server \<Rightarrow> bool" where
  "grows w w' \<longleftrightarrow> (\<exists>ss new. sv_runtimes w' = ss @ new \<and> list_all2 evolves (sv_runtimes w) ss)"

lemma evolves_refl [simp]: "evolves s s"
  by (simp add: evolves_def)

lemma evolves_trans: "evolves s s' \<Longrightarrow> evolves s' s'' \<Longrightarrow> evolves s s''"
  by (simp add: evolves_def)

lemma evolves_simps [simp]:
  "evolves s (s\<lparr>sr_bindings := b\<rparr>)" "evolves s (s\<lparr>sr_outbound := x\<rparr>)" "evolves s (s\<lparr>sr_cancelled := c\<rparr>)"
  "evolves s (s\<lparr>sr_available := False\<rparr>)" "evolves s (runtime_cancel s)"
  by (simp_all add: evolves_def session_identity_def runtime_cancel_def)

lemma same_sessions_refl [simp]: "same_sessions w w"
  by (simp add: same_sessions_def list_all2_refl)

lemma same_sessions_trans: "same_sessions w w' \<Longrightarrow> same_sessions w' w'' \<Longrightarrow> same_sessions w w''"
  unfolding same_sessions_def by (auto elim: list_all2_trans [rotated] dest: evolves_trans)

lemma same_sessions_set: "evolves (runtime_at w r) s \<Longrightarrow> same_sessions w (set_runtime r s w)"
  by (auto simp: same_sessions_def set_runtime_def runtime_at_def list_all2_conv_all_nth)
    (metis evolves_refl nth_list_update_eq nth_list_update_neq)

lemma same_sessions_observe [simp]: "same_sessions w (try_observe event w)"
  by (simp add: same_sessions_def try_observe_def list_all2_refl split: option.split)

lemma grows_same: "same_sessions w w' \<Longrightarrow> grows w w'"
  unfolding grows_def same_sessions_def by (intro exI [of _ "sv_runtimes w'"] exI [of _ "[]"]) simp

lemma grows_observe: "grows w w' \<Longrightarrow> grows w (try_observe event w')"
  by (simp add: grows_def try_observe_def split: option.split)

lemma grows_nth:
  assumes "grows w w'" and "r < length (sv_runtimes w)"
  shows "r < length (sv_runtimes w') \<and> evolves (runtime_at w r) (runtime_at w' r)"
proof -
  obtain ss new where e: "sv_runtimes w' = ss @ new" "list_all2 evolves (sv_runtimes w) ss"
    using assms(1) by (auto simp: grows_def)
  then have "r < length ss" using assms(2) list_all2_lengthD by fastforce
  then show ?thesis using e(1) list_all2_nthD [OF e(2) assms(2)] by (simp add: runtime_at_def nth_append)
qed

lemma tables_match_same:
  assumes "tables_match limit w os" and "same_sessions w w'"
  shows "tables_match limit w' os"
proof -
  have l: "length (sv_runtimes w') = length (sv_runtimes w)" and e: "sv_state w' = sv_state w"
    using assms(2) by (auto simp: same_sessions_def dest: list_all2_lengthD)
  have "session_identity (runtime_at w' r) = session_identity (runtime_at w r)" if "r < length (sv_runtimes w)" for r
    using grows_nth [OF grows_same [OF assms(2)] that] by (simp add: evolves_def)
  then show ?thesis using assms(1) by (auto simp: tables_match_def e l)
qed

lemma claim_section_session:
  assumes "claim_section self store i ob v w = (Inr (r, oi), w')"
  shows "r = length (sv_runtimes w)" "sv_observability w' = sv_observability w"
    and "sv_runtimes w' = sv_runtimes w @ [\<lparr>sr_client = ac_name i, sr_fingerprint = ac_fingerprint i,
       sr_session_id = ac_session_id i, sr_observability_identity = oi, sr_bindings = fresh_bindings store, sr_outbound = ob,
       sr_cancelled = False, sr_available = True, sr_binding_ttl = cr_binding_ttl self, sr_protocol_version = v\<rparr>]"
  using assms by (auto simp: claim_section_def Let_def split: if_splits option.splits sum.splits)

lemma tables_match_claim:
  assumes m: "tables_match (cr_max_clients self) w os"
    and c: "claim_section self store i ob v w = (Inr (r, oi), w')"
  shows "tables_match (cr_max_clients self) w' (os @ [(i, r)])"
proof -
  note c' = c [unfolded claim_section_def Let_def] and r = claim_section_session(1) [OF c] and rt = claim_section_session(3) [OF c]
  have free: "map_of (rg_active (sv_state w)) (ac_fingerprint i) = None" "map_of (rg_by_name (sv_state w)) (ac_name i) = None"
    and cap: "length os < cr_max_clients self" using c' active_length [OF m] by (auto split: if_splits)
  have a: "rg_active (sv_state w') = hm_insert (ac_fingerprint i) (snd (active_entry (i, r))) (rg_active (sv_state w))"
    and n: "rg_by_name (sv_state w') = hm_insert (ac_name i) r (rg_by_name (sv_state w))"
    using c' r by (auto simp: active_entry_def split: if_splits option.splits sum.splits)
  have "ac_fingerprint i \<notin> (ac_fingerprint \<circ> fst) ` set os"
  proof
    assume "ac_fingerprint i \<in> (ac_fingerprint \<circ> fst) ` set os"
    then obtain x where "x \<in> set os" "fst (active_entry x) = ac_fingerprint i" by (auto simp: active_entry_def)
    then show False using free(1) active_lookup [OF m, of "ac_fingerprint i" "snd (active_entry x)"] by (metis option.discI prod.collapse)
  qed
  moreover have "ac_name i \<notin> (ac_name \<circ> fst) ` set os" using free(2) name_lookup [OF m, of "ac_name i"] by fastforce
  moreover have "\<forall>(j, q) \<in> set (os @ [(i, r)]). q < length (sv_runtimes w') \<and> session_identity (runtime_at w' q) = j"
    using tables_matchD(4,5) [OF m] by (auto simp: runtime_at_def rt r nth_append session_identity_def)
  moreover have "set (rg_active (sv_state w')) = active_entry ` set (os @ [(i, r)])"
    using tables_matchD(8) [OF m] by (simp add: a set_hm_insert_absent [OF free(1)] active_entry_def)
  moreover have "set (rg_by_name (sv_state w')) = name_entry ` set (os @ [(i, r)])"
    using tables_matchD(9) [OF m] by (simp add: n set_hm_insert_absent [OF free(2)] name_entry_def)
  ultimately show "tables_match (cr_max_clients self) w' (os @ [(i, r)])"
    using tables_matchD(1,2) [OF m] hm_ok_insert [OF tables_matchD(6) [OF m]] hm_ok_insert [OF tables_matchD(7) [OF m]] cap
    unfolding tables_match_def a n by (intro conjI) simp_all
qed

lemma tables_match_release:
  assumes m: "tables_match limit w (x # os)"
  shows "tables_match limit (release (fst x) w) os"
proof -
  have x: "x \<in> set (x # os)" by simp
  have own: "map_of (rg_active (sv_state w)) (ac_fingerprint (fst x)) = Some (snd (active_entry x))"
    using active_lookup [OF m] by (force simp: active_entry_def)
  then have r: "sv_state (release (fst x) w) = (sv_state w)\<lparr>rg_active := hm_remove (ac_fingerprint (fst x)) (rg_active (sv_state w)),
      rg_by_name := hm_remove (ac_name (fst x)) (rg_by_name (sv_state w))\<rparr>" "sv_runtimes (release (fst x) w) = sv_runtimes w"
    by (simp_all add: release_def Let_def active_entry_def)
  have "{p \<in> active_entry ` set (x # os). fst p \<noteq> ac_fingerprint (fst x)} = active_entry ` set os"
    using tables_matchD(1) [OF m] by (auto simp: active_entry_def image_iff)
  moreover have "{p \<in> name_entry ` set (x # os). fst p \<noteq> ac_name (fst x)} = name_entry ` set os"
    using tables_matchD(2) [OF m] by (auto simp: name_entry_def image_iff)
  ultimately show ?thesis using m by (simp add: tables_match_def r set_hm_remove runtime_at_def)
qed

subsection \<open>All tasks of the server on the registry\<close>

text \<open>
  The state of the server with the guards its connection tasks hold (a guard stays in the list after
  it has been dropped, with its mark \<open>cg_released\<close>) and the tasks left behind by dropped guards.
  Every section of every operation is one step; the steps of relay tasks on a shared session are
  \<open>SessionStep\<close>, and \<open>OutboundStep\<close> is a step at either end of its outgoing queue.
\<close>

datatype outbound_op = TrySend Message | Reserve | SendPermit Message | DropPermit | Receive | CloseReceiver

fun outbound_step :: "outbound \<Rightarrow> outbound_op \<Rightarrow> outbound" where
  "outbound_step q (TrySend message) = snd (try_send message q)"
| "outbound_step q Reserve = snd (try_reserve q)"
| "outbound_step q (SendPermit message) = permit_send message q"
| "outbound_step q DropPermit = permit_drop q"
| "outbound_step q Receive = q\<lparr>ob_queue := tl (ob_queue q)\<rparr>"
| "outbound_step q CloseReceiver = q\<lparr>ob_closed := True\<rparr>"

record registry_system =
  sy_server :: server
  sy_guards :: "ControlSessionGuard list"
  sy_deferred :: "owner list"

datatype registry_op =
    Claim nat nat u64 AuthenticatedClient outbound ProtocolVersion
  | TerminateByName string
  | NotifyRename string string u64
  | InstallSink ObservabilitySink
  | Observe ObservationEvent
  | AuthenticateChannel nat nat DataChannelBind ProtocolVersion
  | MarkUnavailable nat
  | RegisterTunnel nat bind_env TunnelRegistration
  | PublishInventory nat
  | RejectTcp nat u64
  | IssueBinding nat nat nat "bytes option list" ChannelKind
  | GuardAuthenticate nat nat nat string bytes ChannelKind bytes
  | ShutdownBegin nat
  | ShutdownFinish nat u64
  | DropGuard nat bool u64
  | FinishDrop nat u64
  | SessionStep nat session_op
  | OutboundStep nat outbound_op

definition with_guard ::
  "nat \<Rightarrow> (ControlSessionGuard \<Rightarrow> server \<Rightarrow> ControlSessionGuard \<times> server) \<Rightarrow> registry_system \<Rightarrow> registry_system" where
  "with_guard g f sy =
     (if g < length (sy_guards sy) then
        let (self, w) = f (sy_guards sy ! g) (sy_server sy)
        in sy\<lparr>sy_guards := (sy_guards sy)[g := self], sy_server := w\<rparr>
      else sy)"

definition with_runtime :: "nat \<Rightarrow> (SessionRuntime \<Rightarrow> SessionRuntime) \<Rightarrow> registry_system \<Rightarrow> registry_system" where
  "with_runtime r f sy = sy\<lparr>sy_server := set_runtime r (f (runtime_at (sy_server sy) r)) (sy_server sy)\<rparr>"

fun registry_step :: "ClientRegistry \<Rightarrow> registry_system \<Rightarrow> registry_op \<Rightarrow> registry_system" where
  "registry_step self sy (Claim latest now millis identity ob version) =
     (case claim_with_outbound latest now millis self identity ob version (sy_server sy) of
        (Inl _, w) \<Rightarrow> sy\<lparr>sy_server := w\<rparr>
      | (Inr g, w) \<Rightarrow> sy\<lparr>sy_server := w, sy_guards := sy_guards sy @ [g]\<rparr>)"
| "registry_step self sy (TerminateByName name) = sy\<lparr>sy_server := snd (terminate_by_name name (sy_server sy))\<rparr>"
| "registry_step self sy (NotifyRename old_name new_name revision) =
     sy\<lparr>sy_server := snd (notify_rename_and_terminate old_name new_name revision (sy_server sy))\<rparr>"
| "registry_step self sy (InstallSink sink) = sy\<lparr>sy_server := snd (install_observability_sink sink (sy_server sy))\<rparr>"
| "registry_step self sy (Observe event) = sy\<lparr>sy_server := try_observe event (sy_server sy)\<rparr>"
| "registry_step self sy (AuthenticateChannel now stream request version) =
     sy\<lparr>sy_server := snd (registry_authenticate_data_channel now stream request version (sy_server sy))\<rparr>"
| "registry_step self sy (MarkUnavailable g) = with_guard g mark_unavailable sy"
| "registry_step self sy (RegisterTunnel g env tunnel) =
     with_guard g (\<lambda>gd w. snd (register_tunnel self env tunnel gd w)) sy"
| "registry_step self sy (PublishInventory g) = with_guard g (\<lambda>gd w. (gd, snd (publish_tunnel_inventory gd w))) sy"
| "registry_step self sy (RejectTcp g connection_id) = with_guard g (\<lambda>gd w. (gd, reject_tcp connection_id gd w)) sy"
| "registry_step self sy (IssueBinding g latest now tokens kind) =
     with_guard g (\<lambda>gd w. (gd, snd (issue_data_channel_binding latest now tokens kind gd w))) sy"
| "registry_step self sy (GuardAuthenticate g now stream client session kind token) =
     with_guard g (\<lambda>gd w. snd (guard_authenticate_data_channel now stream client session kind token gd w)) sy"
| "registry_step self sy (ShutdownBegin g) = with_guard g shutdown_begin sy"
| "registry_step self sy (ShutdownFinish g millis) =
     with_guard g (\<lambda>gd w. if cg_unavailable gd then shutdown_finish millis gd w else (gd, w)) sy"
| "registry_step self sy (DropGuard g in_runtime millis) =
     (if g < length (sy_guards sy) then
        let (task, gd, w) = drop_guard in_runtime millis (sy_guards sy ! g) (sy_server sy)
        in sy\<lparr>sy_guards := (sy_guards sy)[g := gd], sy_server := w,
             sy_deferred := sy_deferred sy @ (case task of Some x \<Rightarrow> [x] | None \<Rightarrow> [])\<rparr>
      else sy)"
| "registry_step self sy (FinishDrop k millis) =
     (if k < length (sy_deferred sy) then
        let (identity, r) = sy_deferred sy ! k
        in sy\<lparr>sy_server := release_and_observe millis identity r (sy_server sy),
             sy_deferred := take k (sy_deferred sy) @ drop (Suc k) (sy_deferred sy)\<rparr>
      else sy)"
| "registry_step self sy (SessionStep r op) = with_runtime r (\<lambda>s. session_step s op) sy"
| "registry_step self sy (OutboundStep r op) = with_runtime r (\<lambda>s. s\<lparr>sr_outbound := outbound_step (sr_outbound s) op\<rparr>) sy"

definition registry_start :: "server \<Rightarrow> registry_system" where
  "registry_start w = \<lparr>sy_server = w, sy_guards = [], sy_deferred = []\<rparr>"

definition owner_of :: "ControlSessionGuard \<Rightarrow> owner" where
  "owner_of g = (cg_identity g, cg_runtime g)"

definition guard_owners :: "ControlSessionGuard list \<Rightarrow> owner list" where
  "guard_owners gs = map owner_of (filter (\<lambda>g. \<not> cg_released g) gs)"

definition owners :: "registry_system \<Rightarrow> owner list" where
  "owners sy = guard_owners (sy_guards sy) @ sy_deferred sy"

definition system_inv :: "ClientRegistry \<Rightarrow> registry_system \<Rightarrow> bool" where
  "system_inv self sy \<longleftrightarrow> tables_match (cr_max_clients self) (sy_server sy) (owners sy)"

lemma guard_owners_simps [simp]:
  "guard_owners [] = []" "guard_owners (xs @ ys) = guard_owners xs @ guard_owners ys"
  "guard_owners (g # gs) = (if cg_released g then guard_owners gs else owner_of g # guard_owners gs)"
  by (simp_all add: guard_owners_def)

lemma guard_owners_split:
  assumes "g < length gs"
  shows "guard_owners (gs[g := x]) = guard_owners (take g gs) @ (if cg_released x then [] else [owner_of x]) @ guard_owners (drop (Suc g) gs)"
    and "guard_owners gs = guard_owners (take g gs) @ (if cg_released (gs ! g) then [] else [owner_of (gs ! g)]) @ guard_owners (drop (Suc g) gs)"
  using assms id_take_nth_drop [OF assms] by (simp_all add: upd_conv_take_nth_drop) (metis guard_owners_simps(2,3))+

lemma mark_unavailable_same:
  assumes "mark_unavailable gd w = (gd', w')"
  shows "same_sessions w w'" "owner_of gd' = owner_of gd" "cg_released gd' = cg_released gd" "cg_listeners gd' = cg_listeners gd"
  using assms by (auto simp: mark_unavailable_def owner_of_def intro!: same_sessions_set split: if_splits)

lemma with_bindings_evolves [simp]: "evolves s (snd (with_bindings f s))"
  by (simp add: with_bindings_def split_beta)

lemma session_step_evolves [simp]: "evolves s (session_step s op)"
  by (cases op) (simp_all add: session_bindings split_beta flip: runtime_cancel_def)

lemma bind_listener_same: "same_sessions w (snd (bind_listener registry env t n p q gd w))"
proof -
  have "evolves (runtime_at w r) s" if "prepare_udp ids l now ts t (runtime_at w r) = (x, s)" for ids l now ts r x s
    using that by (auto simp: prepare_udp_def with_bindings_def Let_def split: prod.splits)
  then show ?thesis by (auto simp: bind_listener_def intro!: same_sessions_set split: option.split prod.split sum.split)
qed

lemma register_tunnel_same:
  assumes "register_tunnel registry env tunnel gd w = (res, gd', w')"
  shows "same_sessions w w'" "owner_of gd' = owner_of gd" "cg_released gd' = cg_released gd"
  using assms bind_listener_same [of w registry env]
  by (auto simp: register_tunnel_def Let_def split_beta owner_of_def split: if_splits sum.splits)

lemma tables_match_release_observe:
  "tables_match limit w (x # os) \<Longrightarrow> tables_match limit (release_and_observe millis (fst x) r w) os"
  unfolding release_and_observe_def Let_def by (rule tables_match_same [OF tables_match_release same_sessions_observe])

lemma grows_release: "same_sessions w w' \<Longrightarrow> grows w (release_and_observe millis i r w')"
  unfolding release_and_observe_def Let_def
  by (rule grows_observe) (auto dest: grows_same simp: grows_def release_def Let_def)

text \<open>A step that leaves the sessions and the ownership of a guard alone keeps the invariant.\<close>

definition good_step :: "ClientRegistry \<Rightarrow> registry_system \<Rightarrow> registry_system \<Rightarrow> bool" where
  "good_step self sy sy' \<longleftrightarrow> (system_inv self sy \<longrightarrow> system_inv self sy') \<and> grows (sy_server sy) (sy_server sy')"

lemma good_same: "same_sessions (sy_server sy) w \<Longrightarrow> good_step self sy (sy\<lparr>sy_server := w\<rparr>)"
  unfolding good_step_def system_inv_def owners_def by (auto elim: tables_match_same intro: grows_same)

lemma good_refl [simp]: "good_step self sy sy"
  by (simp add: good_step_def grows_same)

lemma good_guard:
  assumes "\<And>gd w gd' w'. f gd w = (gd', w') \<Longrightarrow> same_sessions w w' \<and> owner_of gd' = owner_of gd \<and> cg_released gd' = cg_released gd"
  shows "good_step self sy (with_guard g f sy)"
proof (cases "g < length (sy_guards sy)")
  case True
  obtain gd w where f: "f (sy_guards sy ! g) (sy_server sy) = (gd, w)" by fastforce
  from assms [OF this] guard_owners_split(1) [OF True, of gd] guard_owners_split(2) [OF True]
  have "guard_owners ((sy_guards sy)[g := gd]) = guard_owners (sy_guards sy)" "same_sessions (sy_server sy) w" by auto
  then show ?thesis using True tables_match_same grows_same
    by (fastforce simp: with_guard_def f good_step_def system_inv_def owners_def)
qed (simp add: with_guard_def)

lemma good_runtime: "(\<And>s. evolves s (f s)) \<Longrightarrow> good_step self sy (with_runtime r f sy)"
  unfolding with_runtime_def by (intro good_same same_sessions_set)

lemma good_released:
  assumes g: "g < length (sy_guards sy)" and u: "\<not> cg_released (sy_guards sy ! g)"
    and w: "same_sessions (sy_server sy) w" and r: "cg_released gd"
  shows "good_step self sy (sy\<lparr>sy_guards := (sy_guards sy)[g := gd],
      sy_server := release_and_observe millis (cg_identity (sy_guards sy ! g)) q w\<rparr>)"
    and "good_step self sy (sy\<lparr>sy_guards := (sy_guards sy)[g := gd], sy_server := w,
      sy_deferred := sy_deferred sy @ [owner_of (sy_guards sy ! g)]\<rparr>)"
proof -
  let ?x = "owner_of (sy_guards sy ! g)" and ?gs = "guard_owners (take g (sy_guards sy)) @ guard_owners (drop (Suc g) (sy_guards sy))"
  have o: "mset (guard_owners (sy_guards sy)) = add_mset ?x (mset ?gs)" "guard_owners ((sy_guards sy)[g := gd]) = ?gs"
    using guard_owners_split [OF g] u r by simp_all
  have m: "tables_match (cr_max_clients self) w (owners sy)" if "system_inv self sy"
    using that w unfolding system_inv_def by (rule tables_match_same)
  have "tables_match (cr_max_clients self) w (?x # ?gs @ sy_deferred sy)" if "system_inv self sy"
    by (rule tables_match_perm [OF m [OF that]]) (simp add: owners_def o)
  from tables_match_release_observe [OF this, of millis q] grows_release [OF w] show
    "good_step self sy (sy\<lparr>sy_guards := (sy_guards sy)[g := gd],
      sy_server := release_and_observe millis (cg_identity (sy_guards sy ! g)) q w\<rparr>)"
    by (simp add: good_step_def system_inv_def owners_def o(2) owner_of_def)
  have "tables_match (cr_max_clients self) w (?gs @ sy_deferred sy @ [?x])" if "system_inv self sy"
    by (rule tables_match_perm [OF m [OF that]]) (simp add: owners_def o)
  then show "good_step self sy (sy\<lparr>sy_guards := (sy_guards sy)[g := gd], sy_server := w,
      sy_deferred := sy_deferred sy @ [owner_of (sy_guards sy ! g)]\<rparr>)"
    using grows_same [OF w] by (simp add: good_step_def system_inv_def owners_def o(2))
qed

lemma version_label_fits: "BoundedLabel_try_from (version_label v) = Inr (version_label v)"
proof -
  have "length (decimal (unat x)) \<le> Suc 4" for x :: u16
  proof (rule decimal_length)
    have "unat x < 2 ^ LENGTH(16)" by (rule unsigned_less)
    then show "unat x < 10 ^ Suc 4" by simp
  qed
  from this [of "pv_major v"] this [of "pv_minor v"] show ?thesis
    by (simp add: BoundedLabel_try_from_def version_label_def MAX_EVENT_LABEL_BYTES_def)
qed

lemma claim_result:
  assumes "claim_with_outbound latest now millis self i ob v w = (res, w')"
  shows "(\<exists>e. res = Inl e) \<and> w' = w \<or>
    (\<exists>store r oi w1. claim_section self store i ob v w = (Inr (r, oi), w1) \<and>
       ChannelBindingStore_new latest now (ac_name i) (ac_session_id i) (cr_binding_capacity self) (cr_binding_ttl self) = Inr store \<and>
       res = Inr \<lparr>cg_identity = i, cg_runtime = r, cg_listeners = [], cg_tunnel_ids = [], cg_tunnel_names = [],
         cg_data_channels = [], cg_unavailable = False, cg_released = False\<rparr> \<and>
       w' = try_observe (ClientAuthenticated oi (version_label v) millis) w1)"
  using assms
  by (auto simp: claim_with_outbound_def version_label_fits claim_section_def Let_def
      split: sum.splits prod.splits if_splits option.splits)

lemma authenticate_same: "same_sessions w (snd (registry_authenticate_data_channel now stream q v w))"
proof -
  have "evolves (runtime_at w r) s" if "redeem_if_present now q v (runtime_at w r) = (x, s)" for r x s
    using that by (auto simp: redeem_if_present_bindings split: prod.splits)
  then show ?thesis
    by (auto simp: registry_authenticate_data_channel_def Let_def intro!: same_sessions_set
        split: option.split prod.split sum.split)
qed

lemma cancel_token_same: "same_sessions w (cancel_token r w)"
  by (simp add: cancel_token_def same_sessions_set)

lemma rename_same: "same_sessions w (snd (notify_rename_and_terminate old_name new_name revision w))"
  unfolding notify_rename_and_terminate_def Let_def
  by (auto intro!: same_sessions_trans [OF _ cancel_token_same] same_sessions_set split: option.split sum.split)

lemma runtime_op_same:
  "same_sessions w (snd (issue_data_channel_binding latest now tokens kind gd w))"
  "guard_authenticate_data_channel now stream c sid kind token gd w = (res, gd', w') \<Longrightarrow>
     same_sessions w w' \<and> owner_of gd' = owner_of gd \<and> cg_released gd' = cg_released gd"
  by (auto simp: issue_data_channel_binding_def guard_authenticate_data_channel_def Let_def runtime_issue_def
      runtime_redeem_def with_bindings_def owner_of_def intro!: same_sessions_set split: prod.splits sum.splits)

lemma good_claim: "good_step self sy (registry_step self sy (Claim latest now millis i ob v))"
proof -
  obtain res w' where c: "claim_with_outbound latest now millis self i ob v (sy_server sy) = (res, w')" by fastforce
  from claim_result [OF c] show ?thesis
  proof (elim disjE exE conjE)
    fix store r oi w1
    assume cs: "claim_section self store i ob v (sy_server sy) = (Inr (r, oi), w1)"
      and res: "res = Inr \<lparr>cg_identity = i, cg_runtime = r, cg_listeners = [], cg_tunnel_ids = [], cg_tunnel_names = [],
         cg_data_channels = [], cg_unavailable = False, cg_released = False\<rparr>"
      and w': "w' = try_observe (ClientAuthenticated oi (version_label v) millis) w1"
    have "tables_match (cr_max_clients self) w1 ((guard_owners (sy_guards sy) @ [(i, r)]) @ sy_deferred sy)" if "system_inv self sy"
      using tables_match_perm [OF tables_match_claim [OF that [unfolded system_inv_def] cs]] by (simp add: owners_def)
    moreover have "grows (sy_server sy) w1"
      unfolding grows_def by (intro exI conjI, rule claim_section_session(3) [OF cs]) (simp add: list_all2_refl)
    ultimately show ?thesis using tables_match_same [OF _ same_sessions_observe] grows_observe
      by (simp add: c res w' good_step_def system_inv_def owners_def owner_of_def)
  qed (use c in simp)
qed

lemma good_drop: "good_step self sy (registry_step self sy (DropGuard g in_runtime millis))"
proof (cases "g < length (sy_guards sy) \<and> \<not> cg_released (sy_guards sy ! g)")
  case True
  let ?gd = "sy_guards sy ! g"
  obtain gd w where m: "mark_unavailable ?gd (sy_server sy) = (gd, w)" by fastforce
  from mark_unavailable_same [OF m] have s: "same_sessions (sy_server sy) w" "cg_identity gd = cg_identity ?gd"
    "cg_runtime gd = cg_runtime ?gd" by (simp_all add: owner_of_def)
  have "good_step self sy (sy\<lparr>sy_guards := (sy_guards sy)[g := gd'],
      sy_server := release_and_observe millis (cg_identity ?gd) q w\<rparr>)"
    "good_step self sy (sy\<lparr>sy_guards := (sy_guards sy)[g := gd'], sy_server := w, sy_deferred := sy_deferred sy @ [owner_of ?gd]\<rparr>)"
    if "cg_released gd'" for gd' q
    using good_released [OF _ _ s(1) that] True by blast+
  then show ?thesis using True s(2,3) by (simp add: drop_guard_def m owner_of_def Let_def)
qed (auto simp: drop_guard_def)

lemma good_finish_drop: "good_step self sy (registry_step self sy (FinishDrop k millis))"
proof (cases "k < length (sy_deferred sy)")
  case True
  let ?ds = "take k (sy_deferred sy) @ drop (Suc k) (sy_deferred sy)"
  have "mset (sy_deferred sy) = add_mset (sy_deferred sy ! k) (mset ?ds)"
    by (subst id_take_nth_drop [OF True]) simp
  then have "tables_match (cr_max_clients self) (sy_server sy) (sy_deferred sy ! k # guard_owners (sy_guards sy) @ ?ds)"
    if "system_inv self sy" using tables_match_perm [OF that [unfolded system_inv_def]] by (simp add: owners_def)
  from tables_match_release_observe [OF this] show ?thesis
    using True grows_release [OF same_sessions_refl] by (simp add: split_beta good_step_def system_inv_def owners_def)
qed simp

lemma good_shutdown_finish: "good_step self sy (registry_step self sy (ShutdownFinish g millis))"
proof (cases "g < length (sy_guards sy) \<and> cg_unavailable (sy_guards sy ! g) \<and> \<not> cg_released (sy_guards sy ! g)")
  case True
  then show ?thesis using good_released(1) [OF _ _ same_sessions_refl]
    by (simp add: with_guard_def shutdown_finish_def finalize_disconnect_def)
qed (auto simp: with_guard_def shutdown_finish_def)

lemma good_registry_step: "good_step self sy (registry_step self sy op)"
proof (cases op)
  case (TerminateByName name)
  then show ?thesis by (simp add: terminate_by_name_def good_same cancel_token_same split: option.split)
next
  case (InstallSink sink)
  then show ?thesis
    by (auto simp: install_observability_sink_def same_sessions_def list_all2_refl intro!: good_same split: option.split)
next
  case (RegisterTunnel g env tunnel)
  then show ?thesis by (auto intro!: good_guard) (metis prod.collapse register_tunnel_same)+
next
  case (GuardAuthenticate g now stream c sid kind token)
  then show ?thesis by (auto intro!: good_guard) (metis prod.collapse runtime_op_same(2))+
next
  case (RejectTcp g c)
  then show ?thesis by (auto intro!: good_guard same_sessions_set simp: reject_tcp_def cancel_pending_def)
next
  case (PublishInventory g)
  then show ?thesis by (auto intro!: good_guard simp: publish_tunnel_inventory_def split: sum.splits)
qed (auto simp: good_claim good_drop good_finish_drop good_shutdown_finish shutdown_begin_def
    simp del: registry_step.simps(1,14,15,16)
    intro!: good_guard good_same good_runtime authenticate_same rename_same runtime_op_same(1)
    split: if_splits dest: mark_unavailable_same)

interpretation registry: invariant_machine "registry_step self" "\<lambda>_. True" "system_inv self" for self
  by unfold_locales (use good_registry_step in \<open>auto simp: good_step_def\<close>)

lemma system_inv_new: "new_with_relay_limits a b c d e f g h i j = Inr (self, w) \<Longrightarrow> system_inv self (registry_start w)"
  by (auto simp: new_with_relay_limits_def system_inv_def owners_def registry_start_def tables_match_def split: if_splits)

lemma system_inv_reachable:
  "new_with_relay_limits a b c d e f g h i j = Inr (self, w) \<Longrightarrow> sy = foldl (registry_step self) (registry_start w) ops \<Longrightarrow>
   system_inv self sy"
  using registry.foldl_keep [OF system_inv_new] by (simp add: list_all_iff)

text \<open>
  C24 (the tables list exactly the owned sessions): after any steps of the connection and relay tasks,
  the table of fingerprints has exactly one entry per session that a guard or an unfinished teardown
  still owns, with its name and session identifier, and the table of names leads to exactly these
  sessions; no two of them share a name or a fingerprint and there are never more than the limit allows.
\<close>

theorem registry_lists_owned_sessions:
  assumes "new_with_relay_limits max_clients b c d e f g h i j = Inr (self, w0)"
    and "sy = foldl (registry_step self) (registry_start w0) ops"
  shows "(map_of (rg_active (sv_state (sy_server sy))) print = Some a \<longleftrightarrow>
      (\<exists>i r. (i, r) \<in> set (owners sy) \<and> ac_fingerprint i = print \<and> as_name a = ac_name i \<and> as_session_id a = ac_session_id i)) \<and>
    (map_of (rg_by_name (sv_state (sy_server sy))) name = Some r \<longleftrightarrow>
      (\<exists>i. (i, r) \<in> set (owners sy) \<and> ac_name i = name \<and> session_identity (runtime_at (sy_server sy) r) = i)) \<and>
    distinct (map (ac_fingerprint \<circ> fst) (owners sy)) \<and> distinct (map (ac_name \<circ> fst) (owners sy)) \<and>
    length (rg_active (sv_state (sy_server sy))) = length (owners sy) \<and> length (owners sy) \<le> max_clients"
proof -
  have m: "tables_match (cr_max_clients self) (sy_server sy) (owners sy)"
    by (rule system_inv_reachable [OF assms, unfolded system_inv_def])
  have "cr_max_clients self = max_clients" using assms(1) by (auto simp: new_with_relay_limits_def split: if_splits)
  moreover have "map_of (rg_active (sv_state (sy_server sy))) print = Some a \<longleftrightarrow>
      (\<exists>i r. (i, r) \<in> set (owners sy) \<and> ac_fingerprint i = print \<and> as_name a = ac_name i \<and> as_session_id a = ac_session_id i)"
    unfolding active_lookup [OF m] by (cases a) (auto simp: active_entry_def Bex_def)
  moreover have "map_of (rg_by_name (sv_state (sy_server sy))) name = Some r \<longleftrightarrow>
      (\<exists>i. (i, r) \<in> set (owners sy) \<and> ac_name i = name \<and> session_identity (runtime_at (sy_server sy) r) = i)"
    unfolding name_lookup [OF m] using tables_matchD(5) [OF m] by blast
  ultimately show ?thesis using tables_matchD(1-3) [OF m] active_length [OF m] by blast
qed

definition sample_address :: IpAddr where
  "sample_address = IpV4 [203, 0, 113, 7]"

definition sample_limits :: UdpRuntimeLimits where
  "sample_limits = \<lparr>ur_queue_capacity = 8, ur_idle_timeout = 20, ur_sweep_interval = 10, ur_sweep_batch = 1,
     ur_writer_delay = 0, ur_test_disconnect_after_replies = None\<rparr>"

definition sample_registry :: ClientRegistry where
  "sample_registry = \<lparr>cr_max_clients = 2, cr_max_tunnels_per_client = 2, cr_max_tcp_connections_per_tunnel = 4,
     cr_max_udp_sessions_per_tunnel = 4, cr_max_udp_payload_bytes = 512, cr_tcp_listener_ip = sample_address,
     cr_udp_listener_ip = Some sample_address, cr_binding_capacity = 4, cr_binding_ttl = 10,
     cr_udp_runtime_limits = sample_limits\<rparr>"

definition sample_server :: server where
  "sample_server = \<lparr>sv_state = \<lparr>rg_active = [], rg_by_name = [], rg_next_observability_generation = 0\<rparr>,
     sv_runtimes = [], sv_observability = None\<rparr>"

lemma sample_registry_new:
  "new_with_relay_limits 2 2 4 4 512 sample_address (Some sample_address) 4 10 sample_limits = Inr (sample_registry, sample_server)"
  by (simp add: new_with_relay_limits_def limits_valid_def sample_limits_def sample_registry_def sample_server_def
      MAX_UDP_PAYLOAD_BYTES_def NANOS_PER_MILLI_def)

definition sample_client :: "nat \<Rightarrow> AuthenticatedClient" where
  "sample_client n = \<lparr>ac_name = [digit n], ac_fingerprint = ''sha256:'' @ [digit n], ac_session_id = [word_of_nat n]\<rparr>"

definition sample_outbound :: outbound where
  "sample_outbound = \<lparr>ob_capacity = 2, ob_queue = [], ob_reserved = 0, ob_closed = False\<rparr>"

definition sample_claims :: "registry_op list" where
  "sample_claims = [Claim 100 1 5 (sample_client 1) sample_outbound V0_6, Claim 100 2 6 (sample_client 2) sample_outbound V0_6,
     MarkUnavailable 0, ShutdownFinish 0 7]"

theorem registry_lists_owned_sessions_witness:
  "map_of (rg_by_name (sv_state (sy_server (foldl (registry_step sample_registry) (registry_start sample_server) sample_claims)))) [digit 2]
     = Some 1 \<and>
   length (owners (foldl (registry_step sample_registry) (registry_start sample_server) sample_claims)) \<le> 2"
proof -
  let ?sy = "foldl (registry_step sample_registry) (registry_start sample_server) sample_claims"
  have "(sample_client 2, 1) \<in> set (owners ?sy) \<and> ac_name (sample_client 2) = [digit 2] \<and>
      session_identity (runtime_at (sy_server ?sy) 1) = sample_client 2" by code_simp
  then show ?thesis
    using registry_lists_owned_sessions [OF sample_registry_new refl, where ops = sample_claims and name = "[digit 2]" and r = 1] by blast
qed

subsection \<open>Connecting\<close>

lemma claim_generation_name:
  "ChannelBindingStore_new latest now name sid capacity ttl = Inr store \<Longrightarrow> generation \<noteq> 0 \<Longrightarrow>
   from_server_authentication name generation = Inr \<lparr>aci_name = name, aci_generation = generation\<rparr>"
  by (auto simp: ChannelBindingStore_new_def from_server_authentication_def BoundedLabel_try_from_def
      MAX_EVENT_LABEL_BYTES_def MAX_CLIENT_NAME_BYTES_def split: if_splits)

lemma claim_refused:
  "(\<exists>x \<in> set os. ac_fingerprint (fst x) = ac_fingerprint i \<or> ac_name (fst x) = ac_name i) \<longleftrightarrow>
   map_of (rg_active (sv_state w)) (ac_fingerprint i) \<noteq> None \<or> map_of (rg_by_name (sv_state w)) (ac_name i) \<noteq> None"
  if m: "tables_match limit w os" for os
proof -
  have "map_of (rg_active (sv_state w)) f \<noteq> None \<longleftrightarrow> (\<exists>x \<in> set os. ac_fingerprint (fst x) = f)" for f
    using active_lookup [OF m, of f] by (auto simp: active_entry_def)
  moreover have "map_of (rg_by_name (sv_state w)) n \<noteq> None \<longleftrightarrow> (\<exists>x \<in> set os. ac_name (fst x) = n)" for n
    using name_lookup [OF m, of n] by force
  ultimately show ?thesis by blast
qed

text \<open>
  Who may connect: a client whose names are within their bounds is refused exactly when
  a session with its fingerprint or its name is still owned, when as many sessions are owned as the
  limit allows, or when the generation counter is used up; otherwise it gets a guard with a session
  of its own. Releasing a session is therefore enough for its client to connect again, and no
  \<open>expect\<close> of this code fails.
\<close>

theorem claim_outcome:
  assumes "new_with_relay_limits max_clients b c d e f g h i j = Inr (self, w0)"
    and "sy = foldl (registry_step self) (registry_start w0) ops"
    and "ChannelBindingStore_new latest now (ac_name identity) (ac_session_id identity) (cr_binding_capacity self) (cr_binding_ttl self) = Inr store"
  shows "fst (claim_with_outbound latest now millis self identity ob v (sy_server sy)) =
    (if list_ex (\<lambda>x. ac_fingerprint (fst x) = ac_fingerprint identity \<or> ac_name (fst x) = ac_name identity) (owners sy)
     then Inl AlreadyConnected
     else if length (owners sy) \<ge> max_clients then Inl RegistryCapacityReached
     else if rg_next_observability_generation (sv_state (sy_server sy)) = - 1 then Inl GenerationExhausted
     else Inr \<lparr>cg_identity = identity, cg_runtime = length (sv_runtimes (sy_server sy)), cg_listeners = [], cg_tunnel_ids = [],
       cg_tunnel_names = [], cg_data_channels = [], cg_unavailable = False, cg_released = False\<rparr>)"
proof -
  have m: "tables_match (cr_max_clients self) (sy_server sy) (owners sy)"
    by (rule system_inv_reachable [OF assms(1,2), unfolded system_inv_def])
  have limit: "cr_max_clients self = max_clients" using assms(1) by (auto simp: new_with_relay_limits_def split: if_splits)
  note refused = claim_refused [OF m, of identity, folded list_ex_iff]
  have gen: "checked_add n 1 = (if n = - 1 then None else Some (n + 1)) \<and> (n \<noteq> - 1 \<longrightarrow> n + 1 \<noteq> 0)" for n :: u64
    by (rule checked_add_one)
  show ?thesis
    using gen [of "rg_next_observability_generation (sv_state (sy_server sy))"] claim_generation_name [OF assms(3)]
    by (simp add: claim_with_outbound_def claim_section_def assms(3) Let_def refused active_length [OF m] limit version_label_fits)
qed

theorem claim_outcome_witness:
  "fst (claim_with_outbound 100 3 8 sample_registry (sample_client 1) sample_outbound V0_6
      (sy_server (foldl (registry_step sample_registry) (registry_start sample_server) sample_claims))) =
   Inr \<lparr>cg_identity = sample_client 1, cg_runtime = 2, cg_listeners = [], cg_tunnel_ids = [],
       cg_tunnel_names = [], cg_data_channels = [], cg_unavailable = False, cg_released = False\<rparr>"
proof -
  let ?sy = "foldl (registry_step sample_registry) (registry_start sample_server) sample_claims"
  have s: "ChannelBindingStore_new 100 3 (ac_name (sample_client 1)) (ac_session_id (sample_client 1))
      (cr_binding_capacity sample_registry) (cr_binding_ttl sample_registry) =
      Inr \<lparr>cbs_client_id = ac_name (sample_client 1), cbs_session_id = ac_session_id (sample_client 1), cbs_capacity = 4,
        cbs_time_to_live = 10, cbs_pending = []\<rparr>" by code_simp
  have "\<not> list_ex (\<lambda>x. ac_fingerprint (fst x) = ac_fingerprint (sample_client 1) \<or> ac_name (fst x) = ac_name (sample_client 1)) (owners ?sy) \<and>
    length (owners ?sy) = 1 \<and> rg_next_observability_generation (sv_state (sy_server ?sy)) \<noteq> - 1 \<and>
    length (sv_runtimes (sy_server ?sy)) = 2" by code_simp
  then show ?thesis using claim_outcome [OF sample_registry_new refl s, where ops = sample_claims] by simp
qed

subsection \<open>Data channels\<close>

lemma availability_lost:
  assumes "r < length (sv_runtimes (sy_server sy))" and "\<not> sr_available (runtime_at (sy_server sy) r)"
  shows "r < length (sv_runtimes (sy_server (registry_step self sy op))) \<and>
    \<not> sr_available (runtime_at (sy_server (registry_step self sy op)) r)"
  using grows_nth [OF _ assms(1)] good_registry_step [of self sy op] assms(2) by (auto simp: good_step_def evolves_def)

text \<open>
  Data channels are admitted for connected clients only: a data channel is admitted only if its
  request names a session that is still owned and available, speaks the version of that session, and
  presents a token for a connection that waits in it; it is then delivered to that connection. The
  session has been available ever since it was created, so one that was marked unavailable once
  admits no data channel any more, whatever happens later.
\<close>

theorem admitted_channels_owned:
  assumes "new_with_relay_limits max_clients b c d e f g h i j = Inr (self, w0)"
    and "sy = foldl (registry_step self) (registry_start w0) ops"
    and "registry_authenticate_data_channel now stream request v (sy_server sy) = (Inr channel, w')"
  shows "\<exists>identity r p. (identity, r) \<in> set (owners sy) \<and> ac_name identity = dcb_client_name request \<and>
      ac_session_id identity = dcb_session_id request \<and> sr_protocol_version (runtime_at (sy_server sy) r) = v \<and>
      waiting (request_relay request) (dcb_target_id request) p (sr_bindings (runtime_at (sy_server sy) r)) \<and>
      pd_channel_kind p = relay_kind (request_relay request) (dcb_tunnel_id request) (dcb_target_id request) \<and>
      deliver True channel = Inr (pd_destination p, stream) \<and> adc_cancellation channel = r \<and>
      (\<forall>k before. before = foldl (registry_step self) (registry_start w0) (take k ops) \<longrightarrow>
         r < length (sv_runtimes (sy_server before)) \<longrightarrow> sr_available (runtime_at (sy_server before) r))"
proof -
  have m: "tables_match (cr_max_clients self) (sy_server sy) (owners sy)"
    by (rule system_inv_reachable [OF assms(1,2), unfolded system_inv_def])
  obtain r where r: "map_of (rg_by_name (sv_state (sy_server sy))) (dcb_client_name request) = Some r"
    using assms(3) by (auto simp: registry_authenticate_data_channel_def split: option.splits)
  define s where "s = runtime_at (sy_server sy) r"
  obtain x s' where x: "redeem_if_present now request v s = (x, s')" by fastforce
  note auth = assms(3) [unfolded registry_authenticate_data_channel_def r option.case Let_def, folded s_def, unfolded x prod.case]
  obtain binding dest where ok: "sr_session_id s = dcb_session_id request" "sr_available s" "x = Some (Inr (binding, dest))"
    "channel = \<lparr>adc_stream = Some stream, adc_binding = binding, adc_destination = Some dest, adc_cancellation = r,
       adc_protocol_version = sr_protocol_version s\<rparr>"
    using auth by (auto split: if_splits option.splits sum.splits)
  have rd: "fst (redeem_bindings (sr_protocol_version s) now request v (sr_bindings s)) = Some (Inr (binding, dest))"
    using x ok(3) by (auto simp: redeem_if_present_bindings split: prod.splits)
  obtain p where p: "waiting (request_relay request) (dcb_target_id request) p (sr_bindings s)" "pd_destination p = dest"
    "pd_channel_kind p = relay_kind (request_relay request) (dcb_tunnel_id request) (dcb_target_id request)" "sr_protocol_version s = v"
    using rd by (auto simp: redeem_bindings_def Let_def waiting_def split: if_splits prod.splits sum.splits option.splits)
  obtain identity where own: "(identity, r) \<in> set (owners sy)" "ac_name identity = dcb_client_name request"
    using name_lookup [OF m] r by blast
  have "ac_session_id identity = dcb_session_id request"
    using tables_matchD(5) [OF m own(1)] ok(1) by (auto simp: session_identity_def s_def)
  moreover have "sr_available (runtime_at (sy_server before) r)"
    if "before = foldl (registry_step self) (registry_start w0) (take k ops)" "r < length (sv_runtimes (sy_server before))" for k before
  proof (rule ccontr)
    assume down: "\<not> sr_available (runtime_at (sy_server before) r)"
    have inv: "system_inv self before" using system_inv_reachable [OF assms(1) that(1)] .
    have "foldl (registry_step self) before (drop k ops) = sy"
      using that(1) assms(2) by (metis append_take_drop_id foldl_append)
    then have "\<not> sr_available s" unfolding s_def
      using registry.foldl_stable [of self "\<lambda>sy. r < length (sv_runtimes (sy_server sy)) \<and> \<not> sr_available (runtime_at (sy_server sy) r)"
          before "drop k ops"] availability_lost inv that(2) down by (simp add: list_all_iff)
    then show False using ok(2) by simp
  qed
  ultimately show ?thesis using own p ok(4) unfolding s_def by (intro exI [of _ identity] exI [of _ r] exI [of _ p]) (auto simp: deliver_def)
qed

definition sample_channel_request :: DataChannelBind where
  "sample_channel_request = \<lparr>dcb_client_name = [digit 1], dcb_session_id = [1], dcb_kind = DataChannelKind_TCP,
     dcb_tunnel_id = 1, dcb_target_id = 5, dcb_binding_token = be_bytes 32 9\<rparr>"

definition sample_channel_ops :: "registry_op list" where
  "sample_channel_ops = [Claim 100 1 5 (sample_client 1) sample_outbound V0_6,
     SessionStep 0 (PrepareOpen RelayTcp [Some 5] 100 1 [Some 9] 1)]"

theorem admitted_channels_owned_witness:
  "\<exists>(p :: PendingRelay) channel. fst (registry_authenticate_data_channel 2 77 sample_channel_request V0_6
       (sy_server (foldl (registry_step sample_registry) (registry_start sample_server) sample_channel_ops))) = Inr channel \<and>
     pd_channel_kind p = ChannelTcp 1 5 \<and> deliver True channel = Inr (pd_destination p, 77)"
proof -
  let ?sy = "foldl (registry_step sample_registry) (registry_start sample_server) sample_channel_ops"
  let ?a = "registry_authenticate_data_channel 2 77 sample_channel_request V0_6 (sy_server ?sy)"
  have "case fst ?a of Inr _ \<Rightarrow> True | Inl _ \<Rightarrow> False" by code_simp
  then obtain channel where c: "fst ?a = Inr channel" by (auto split: sum.splits)
  then have "?a = (Inr channel, snd ?a)" by (metis prod.collapse)
  from admitted_channels_owned [OF sample_registry_new refl this] show ?thesis
  proof (elim exE conjE)
    fix p :: PendingRelay
    assume "pd_channel_kind p = relay_kind (request_relay sample_channel_request) (dcb_tunnel_id sample_channel_request)
       (dcb_target_id sample_channel_request)" and "deliver True channel = Inr (pd_destination p, 77)"
    then show ?thesis using c
      by (intro exI [of _ p] exI [of _ channel]) (simp add: sample_channel_request_def request_relay_def)
  qed
qed

subsection \<open>Registering tunnels\<close>

fun lease_tunnel :: "ListenerLease \<Rightarrow> u32 \<times> string" where
  "lease_tunnel (LeaseTcp _ tunnel_id name) = (tunnel_id, name)"
| "lease_tunnel (LeaseUdp _ _ tunnel_id name) = (tunnel_id, name)"

definition tunnels_ok :: "ClientRegistry \<Rightarrow> ControlSessionGuard \<Rightarrow> bool" where
  "tunnels_ok self gd \<longleftrightarrow>
     (let ts = map lease_tunnel (cg_listeners gd) in
      map fst (cg_tunnel_ids gd) = map fst ts \<and> distinct (map fst ts) \<and> 0 \<notin> set (map fst ts) \<and>
      set (cg_tunnel_names gd) = set (map snd ts) \<and> distinct (cg_tunnel_names gd) \<and> distinct (map snd ts) \<and>
      list_all (\<lambda>n. length n \<le> MAX_TUNNEL_NAME_BYTES \<and> \<not> is_blank n) (map snd ts) \<and>
      length (cg_listeners gd) \<le> cr_max_tunnels_per_client self)"

definition accepted_tunnels :: "TunnelRegistration list \<Rightarrow> TunnelResult list \<Rightarrow> (u32 \<times> string) list" where
  "accepted_tunnels ts rs = map (\<lambda>(t, _). (tr_tunnel_id t, tr_name t)) (filter (\<lambda>(_, r). tres_accepted r) (zip ts rs))"

lemma bind_listener_lease:
  "bind_listener registry env t n p q gd w = (Inr lease, w') \<Longrightarrow> lease_tunnel lease = (t, n)"
  by (auto simp: bind_listener_def split: if_splits option.splits prod.splits sum.splits)

lemma register_tunnel_cases:
  assumes "register_tunnel self env tunnel gd w = (res, gd', w')"
  shows "tres_tunnel_id res = tr_tunnel_id tunnel"
    and "\<not> tres_accepted res \<Longrightarrow> gd' = gd \<and> tres_error res \<noteq> None \<and>
      (unacceptable self gd tunnel \<longrightarrow> w' = w \<and> tres_error res = Some TUNNEL_REJECTED)"
    and "tres_accepted res \<Longrightarrow> tres_error res = None \<and> \<not> unacceptable self gd tunnel \<and>
      (\<exists>lease. lease_tunnel lease = (tr_tunnel_id tunnel, tr_name tunnel) \<and>
         cg_listeners gd' = cg_listeners gd @ [lease] \<and>
         cg_tunnel_ids gd' = hm_insert (tr_tunnel_id tunnel) (tr_protocol tunnel) (cg_tunnel_ids gd) \<and>
         cg_tunnel_names gd' = List.insert (tr_name tunnel) (cg_tunnel_names gd))"
  using assms
  by (auto simp: register_tunnel_def Let_def tunnel_error_code_def split_beta split: if_splits sum.splits
      dest!: arg_cong [where f = snd] intro: bind_listener_lease)
    (metis bind_listener_lease prod.collapse)+

lemma tunnels_ok_register:
  assumes "register_tunnel self env tunnel gd w = (res, gd', w')" and "tunnels_ok self gd"
    and "length (tr_name tunnel) \<le> MAX_TUNNEL_NAME_BYTES"
  shows "tunnels_ok self gd'"
proof (cases "tres_accepted res")
  case True
  from register_tunnel_cases(3) [OF assms(1) True] obtain lease where
    u: "\<not> unacceptable self gd tunnel" and l: "lease_tunnel lease = (tr_tunnel_id tunnel, tr_name tunnel)"
      "cg_listeners gd' = cg_listeners gd @ [lease]"
      "cg_tunnel_ids gd' = hm_insert (tr_tunnel_id tunnel) (tr_protocol tunnel) (cg_tunnel_ids gd)"
      "cg_tunnel_names gd' = List.insert (tr_name tunnel) (cg_tunnel_names gd)" by blast
  have fresh: "map_of (cg_tunnel_ids gd) (tr_tunnel_id tunnel) = None" "tr_name tunnel \<notin> set (cg_tunnel_names gd)"
    using u by (auto simp: unacceptable_def List.member_iff)
  moreover have "tr_tunnel_id tunnel \<notin> set (map fst (map lease_tunnel (cg_listeners gd)))"
    using fresh(1) assms(2) by (simp only: map_of_eq_None_iff tunnels_ok_def Let_def list.set_map [symmetric]) simp
  ultimately show ?thesis using assms(2,3) u
    by (auto simp: tunnels_ok_def Let_def l hm_insert_absent unacceptable_def)
qed (use register_tunnel_cases(2) [OF assms(1)] assms(2) in simp)

lemma register_loop_outcome:
  assumes "register_loop self env ts gd w = (results, gd', w')" and "tunnels_ok self gd"
    and "list_all (\<lambda>t. length (tr_name t) \<le> MAX_TUNNEL_NAME_BYTES) ts"
  shows "tunnels_ok self gd' \<and> map tres_tunnel_id results = map tr_tunnel_id ts \<and>
    list_all (\<lambda>r. tres_accepted r \<longleftrightarrow> tres_error r = None) results \<and>
    map lease_tunnel (cg_listeners gd') = map lease_tunnel (cg_listeners gd) @ accepted_tunnels ts results"
  using assms
proof (induction ts arbitrary: env gd w results)
  case (Cons t ts)
  obtain r gd1 w1 where r: "register_tunnel self (env 0) t gd w = (r, gd1, w1)" using prod_cases3 by blast
  obtain rs where rs: "register_loop self (\<lambda>i. env (Suc i)) ts gd1 w1 = (rs, gd', w')" "results = r # rs"
    using Cons.prems(1) r by (auto split: prod.splits)
  have ok: "tunnels_ok self gd1" using tunnels_ok_register [OF r Cons.prems(2)] Cons.prems(3) by simp
  have "map lease_tunnel (cg_listeners gd1) = map lease_tunnel (cg_listeners gd) @
      (if tres_accepted r then [(tr_tunnel_id t, tr_name t)] else [])"
    using register_tunnel_cases(2,3) [OF r] by auto
  moreover have "tres_accepted r \<longleftrightarrow> tres_error r = None" using register_tunnel_cases(2,3) [OF r] by blast
  ultimately show ?case using Cons.IH [OF rs(1) ok] Cons.prems(3) register_tunnel_cases(1) [OF r]
    by (simp add: rs(2) accepted_tunnels_def)
qed (simp add: accepted_tunnels_def)

lemma try_labels_fit: "list_all (\<lambda>n. length n \<le> MAX_EVENT_LABEL_BYTES) names \<Longrightarrow> try_labels names = Inr names"
  by (induction names) (auto simp: BoundedLabel_try_from_def)

lemma inventory_fits:
  assumes "tunnels_ok self gd"
  shows "fst (publish_tunnel_inventory gd w) = Inr ()"
proof -
  have "list_all (\<lambda>n. length n \<le> MAX_EVENT_LABEL_BYTES) (take MAX_INVENTORY_ITEMS (sort (cg_tunnel_names gd)))"
    using assms by (auto simp: tunnels_ok_def Let_def list_all_iff MAX_EVENT_LABEL_BYTES_def MAX_TUNNEL_NAME_BYTES_def dest!: in_set_takeD)
  from try_labels_fit [OF this] show ?thesis by (simp add: publish_tunnel_inventory_def BoundedInventory_try_from_names_def)
qed

text \<open>
  C25 (what the answer to a registration means): a registration is answered tunnel by tunnel in its
  order, without a panic; an error code stands exactly with the refused ones, and exactly the
  accepted ones get a listener, in their order, with pairwise different nonzero identifiers and
  different names that are not blank, within the limit per client, also over several
  registrations; the inventory of names that is published afterwards never fails.
\<close>

theorem register_tunnels_outcome:
  assumes "wf_RegisterTunnels request" and "tunnels_ok self gd"
    and "register_tunnels self env request gd w = (res, gd', w')"
  shows "\<exists>results. res = Inr \<lparr>trs_results = results\<rparr> \<and> map tres_tunnel_id results = map tr_tunnel_id (rt_tunnels request) \<and>
    list_all (\<lambda>r. tres_accepted r \<longleftrightarrow> tres_error r = None) results \<and>
    map lease_tunnel (cg_listeners gd') = map lease_tunnel (cg_listeners gd) @ accepted_tunnels (rt_tunnels request) results \<and>
    tunnels_ok self gd' \<and> fst (publish_tunnel_inventory gd' w') = Inr ()"
proof -
  have wf: "length (rt_tunnels request) \<le> MAX_TUNNELS"
    "list_all (\<lambda>t. length (tr_name t) \<le> MAX_TUNNEL_NAME_BYTES) (rt_tunnels request)"
    using assms(1) by (auto simp: wf_RegisterTunnels_def wf_BoundedVec_def wf_TunnelRegistration_def wf_BoundedString_def
        elim: list.pred_mono_strong)
  obtain results gd1 w1 where l: "register_loop self env (rt_tunnels request) gd w = (results, gd1, w1)" using prod_cases3 by blast
  note out = register_loop_outcome [OF l assms(2) wf(2)]
  have "length results \<le> MAX_TUNNELS" using wf(1) conjunct1 [OF conjunct2 [OF out]] map_eq_imp_length_eq by metis
  then have "res = Inr \<lparr>trs_results = results\<rparr>" "gd' = gd1" using assms(3) by (auto simp: register_tunnels_def l BoundedVec_try_from_def)
  then show ?thesis using out inventory_fits by blast
qed

definition sample_bind :: bind_env where
  "sample_bind = \<lparr>bi_failure = None, bi_ids = [Some 5], bi_latest = 100, bi_now = 1, bi_tokens = [Some (replicate 32 9)]\<rparr>"

definition sample_guard :: ControlSessionGuard where
  "sample_guard = \<lparr>cg_identity = sample_client 1, cg_runtime = 0, cg_listeners = [], cg_tunnel_ids = [], cg_tunnel_names = [],
     cg_data_channels = [], cg_unavailable = False, cg_released = False\<rparr>"

definition sample_registration :: RegisterTunnels where
  "sample_registration = \<lparr>rt_tunnels =
     [\<lparr>tr_tunnel_id = 1, tr_name = ''web'', tr_protocol = TunnelProtocol_TCP, tr_remote_port = 80\<rparr>,
      \<lparr>tr_tunnel_id = 1, tr_name = ''dns'', tr_protocol = TunnelProtocol_UDP, tr_remote_port = 53\<rparr>]\<rparr>"

theorem register_tunnels_outcome_witness:
  "tunnels_ok sample_registry (fst (snd (register_tunnels sample_registry (\<lambda>_. sample_bind) sample_registration sample_guard
     (sy_server (foldl (registry_step sample_registry) (registry_start sample_server) (take 1 sample_claims))))))"
proof -
  let ?w = "sy_server (foldl (registry_step sample_registry) (registry_start sample_server) (take 1 sample_claims))"
  let ?r = "register_tunnels sample_registry (\<lambda>_. sample_bind) sample_registration sample_guard ?w"
  have "wf_RegisterTunnels sample_registration" by code_simp
  moreover have "tunnels_ok sample_registry sample_guard" by (simp add: tunnels_ok_def sample_guard_def)
  moreover have "?r = (fst ?r, fst (snd ?r), snd (snd ?r))" by simp
  ultimately show ?thesis using register_tunnels_outcome by blast
qed

end
