(* ===== verification/Coordinator.thy ===== *)
theory Coordinator
  imports Client_Registry Rendezvous_Wire Primitives_Instance
begin

text \<open>
  The server's rendezvous service (\<open>rustgos/src/rendezvous.rs\<close>): two connected clients agree on
  a session, exchange signed envelopes through it, and, when both ask for it, relay encrypted frames
  through it. The coordinator keeps a record per session, live or closed (a tombstone, so that late
  frames are recognised), the number of records per device, and the records in the order of their
  expiry. Handlers take the lock once; what they do under it is a definition of its own, and the
  claims about runs let any change of the server's tables happen between two such sections. Every
  reading of a clock is an input (\<open>readings\<close>), as are the random token of a punch grant, the hash
  function and the byte format of the envelopes. A panic of an \<open>expect\<close> is the error
  \<open>CoordinatorPanic\<close>, or \<open>None\<close> where no error is returned.
\<close>

subsection \<open>Error codes\<close>

datatype RendezvousErrorCode = RendezvousErrorCode (as_u16: u16)

definition RENDEZVOUS_UNKNOWN_PEER :: RendezvousErrorCode where "RENDEZVOUS_UNKNOWN_PEER = RendezvousErrorCode 1"
definition RENDEZVOUS_PEER_DISABLED :: RendezvousErrorCode where "RENDEZVOUS_PEER_DISABLED = RendezvousErrorCode 2"
definition RENDEZVOUS_PEER_OFFLINE :: RendezvousErrorCode where "RENDEZVOUS_PEER_OFFLINE = RendezvousErrorCode 3"
definition RENDEZVOUS_SELF_TARGET :: RendezvousErrorCode where "RENDEZVOUS_SELF_TARGET = RendezvousErrorCode 4"
definition RENDEZVOUS_CAPACITY_REACHED :: RendezvousErrorCode where "RENDEZVOUS_CAPACITY_REACHED = RendezvousErrorCode 5"
definition RENDEZVOUS_DUPLICATE_SESSION :: RendezvousErrorCode where "RENDEZVOUS_DUPLICATE_SESSION = RendezvousErrorCode 6"
definition RENDEZVOUS_IDENTITY_MISMATCH :: RendezvousErrorCode where "RENDEZVOUS_IDENTITY_MISMATCH = RendezvousErrorCode 7"
definition RENDEZVOUS_EXPIRED :: RendezvousErrorCode where "RENDEZVOUS_EXPIRED = RendezvousErrorCode 8"
definition RENDEZVOUS_UNKNOWN_SESSION :: RendezvousErrorCode where "RENDEZVOUS_UNKNOWN_SESSION = RendezvousErrorCode 9"
definition RENDEZVOUS_NOT_PARTICIPANT :: RendezvousErrorCode where "RENDEZVOUS_NOT_PARTICIPANT = RendezvousErrorCode 10"
definition RENDEZVOUS_INVALID_STATE :: RendezvousErrorCode where "RENDEZVOUS_INVALID_STATE = RendezvousErrorCode 11"
definition RENDEZVOUS_DELIVERY_UNAVAILABLE :: RendezvousErrorCode where "RENDEZVOUS_DELIVERY_UNAVAILABLE = RendezvousErrorCode 12"
definition RENDEZVOUS_PEER_DISCONNECTED :: RendezvousErrorCode where "RENDEZVOUS_PEER_DISCONNECTED = RendezvousErrorCode 13"
definition RENDEZVOUS_UNSUPPORTED_PEER_VERSION :: RendezvousErrorCode where "RENDEZVOUS_UNSUPPORTED_PEER_VERSION = RendezvousErrorCode 14"
definition RENDEZVOUS_INVALID_EXPIRY :: RendezvousErrorCode where "RENDEZVOUS_INVALID_EXPIRY = RendezvousErrorCode 15"

definition error_detail :: "RendezvousErrorCode \<Rightarrow> string" where
  "error_detail self =
     (let details = [''unknown peer'', ''peer is disabled'', ''peer is offline'', ''cannot rendezvous with self'',
        ''rendezvous capacity reached'', ''duplicate rendezvous session'', ''authenticated identity mismatch'',
        ''rendezvous session expired'', ''unknown rendezvous session'',
        ''authenticated device is not a session participant'', ''invalid rendezvous state'',
        ''rendezvous delivery unavailable'', ''peer control session disconnected'',
        ''peer does not support rendezvous'', ''rendezvous expiry is outside the server horizon'']
      in if 1 \<le> as_u16 self \<and> as_u16 self \<le> 15 then details ! (unat (as_u16 self) - 1) else ''rendezvous rejected'')"

datatype coordinator_error = Refused RendezvousErrorCode | CoordinatorPanic

subsection \<open>State\<close>

record RendezvousSessionMetadata =
  rsm_session_id :: SessionId
  rsm_consumer :: string
  rsm_provider :: string
  rsm_export :: string
  rsm_protocol :: "TunnelProtocol option"
  rsm_expires_unix_secs :: u64

record RendezvousLimits =
  rl_max_sessions :: nat
  rl_max_sessions_per_device :: nat
  rl_session_ttl :: nat

record DirectoryEntry =
  de_public_key :: string
  de_enabled :: bool

record RendezvousCoordinator =
  rco_directory :: "(string, DirectoryEntry) hashmap"
  rco_limits :: RendezvousLimits

record SessionOwner =
  so_name :: string
  so_fingerprint :: string
  so_control_session_id :: bytes
  so_observability_identity :: AuthenticatedClientIdentity

record RelayAdmission =
  rad_requested_by :: u8
  rad_datagram :: "bool option"
  rad_window_started :: nat
  rad_frames_in_window :: u32
  rad_bytes_in_window :: nat

record StoredSession =
  st_metadata :: RendezvousSessionMetadata
  st_consumer :: SessionOwner
  st_provider :: SessionOwner
  st_state :: RendezvousState
  st_relay :: RelayAdmission
  st_candidate_generation_announced_by :: u8
  st_candidate_digests :: "bytes option \<times> bytes option"
  st_generation_started :: nat
  st_observed_path :: "SessionPath option"
  st_fallback_consumer_internal_frames_remaining :: u8
  st_fallback_provider_internal_frames_remaining :: u8
  st_pending_preselection_relay_traffic :: TrafficCounters
  st_pending_relay_traffic :: TrafficCounters
  st_last_observability_flush :: nat

record SessionTombstone =
  to_consumer :: SessionOwner
  to_provider :: SessionOwner
  to_expires_unix_secs :: u64

datatype SessionRecord = Active StoredSession | Tombstone SessionTombstone

record ExpiryEntry =
  ee_expires_unix_secs :: u64
  ee_session_id :: SessionId

record CoordinatorState =
  co_sessions :: "(SessionId, SessionRecord) hashmap"
  co_device_counts :: "(string, nat) hashmap"
  co_expiry :: "ExpiryEntry list"

definition CoordinatorState_default :: CoordinatorState where
  "CoordinatorState_default = \<lparr>co_sessions = [], co_device_counts = [], co_expiry = []\<rparr>"

definition Coordinator_new :: "AuthorizedClient list \<Rightarrow> RendezvousLimits \<Rightarrow> RendezvousCoordinator" where
  "Coordinator_new clients limits =
     \<lparr>rco_directory = fold (\<lambda>client. hm_insert (azc_name client)
        \<lparr>de_public_key = azc_public_key client, de_enabled = azc_enabled client\<rparr>) clients [],
      rco_limits = limits\<rparr>"

definition RelayAdmission_new :: "nat \<Rightarrow> RelayAdmission" where
  "RelayAdmission_new now = \<lparr>rad_requested_by = 0, rad_datagram = None, rad_window_started = now,
     rad_frames_in_window = 0, rad_bytes_in_window = 0\<rparr>"

definition authorized :: "RelayAdmission \<Rightarrow> bool" where
  "authorized self \<longleftrightarrow> rad_requested_by self = 3"

definition MAX_FRAMES_PER_SECOND :: u32 where "MAX_FRAMES_PER_SECOND = 256"
definition MAX_BYTES_PER_SECOND :: nat where "MAX_BYTES_PER_SECOND = 4 * 1024 * 1024"
definition NANOS_PER_SECOND :: nat where "NANOS_PER_SECOND = 1000000000"

definition admit :: "nat \<Rightarrow> nat \<Rightarrow> nat \<Rightarrow> RelayAdmission \<Rightarrow> bool \<times> RelayAdmission" where
  "admit now restarted bytes self =
     (let self = (if now - rad_window_started self \<ge> NANOS_PER_SECOND
            then self\<lparr>rad_window_started := restarted, rad_frames_in_window := 0, rad_bytes_in_window := 0\<rparr> else self);
          next_bytes = rad_bytes_in_window self + bytes
      in if next_bytes \<ge> 2 ^ 64 then (False, self)
         else if rad_frames_in_window self \<ge> MAX_FRAMES_PER_SECOND \<or> next_bytes > MAX_BYTES_PER_SECOND then (False, self)
         else (True, self\<lparr>rad_frames_in_window := rad_frames_in_window self + 1, rad_bytes_in_window := next_bytes\<rparr>))"

lemma admit_code [code]:
  "admit now restarted bytes self =
     (let self = (if int now - int (rad_window_started self) \<ge> 1000000000
            then self\<lparr>rad_window_started := restarted, rad_frames_in_window := 0, rad_bytes_in_window := 0\<rparr> else self);
          next_bytes = rad_bytes_in_window self + bytes
      in if rad_frames_in_window self \<ge> MAX_FRAMES_PER_SECOND \<or> int next_bytes > 4194304 then (False, self)
         else (True, self\<lparr>rad_frames_in_window := rad_frames_in_window self + 1, rad_bytes_in_window := next_bytes\<rparr>))"
proof -
  have "now - rad_window_started self \<ge> NANOS_PER_SECOND \<longleftrightarrow> int now - int (rad_window_started self) \<ge> 1000000000"
    by (simp add: NANOS_PER_SECOND_def) linarith
  then show ?thesis by (auto simp: admit_def Let_def MAX_BYTES_PER_SECOND_def)
qed

definition tombstone_from_session :: "StoredSession \<Rightarrow> SessionTombstone" where
  "tombstone_from_session session = \<lparr>to_consumer = st_consumer session, to_provider = st_provider session,
     to_expires_unix_secs = rsm_expires_unix_secs (st_metadata session)\<rparr>"

fun record_active :: "SessionRecord \<Rightarrow> StoredSession option" where
  "record_active (Active session) = Some session"
| "record_active (Tombstone _) = None"

fun record_expires :: "SessionRecord \<Rightarrow> u64" where
  "record_expires (Active session) = rsm_expires_unix_secs (st_metadata session)"
| "record_expires (Tombstone tombstone) = to_expires_unix_secs tombstone"

fun record_devices :: "SessionRecord \<Rightarrow> string \<times> string" where
  "record_devices (Active session) = (so_name (st_consumer session), so_name (st_provider session))"
| "record_devices (Tombstone tombstone) = (so_name (to_consumer tombstone), so_name (to_provider tombstone))"

definition expiry_key :: "ExpiryEntry \<Rightarrow> u64 \<times> bytes" where
  "expiry_key e = (ee_expires_unix_secs e, sid_as_bytes (ee_session_id e))"

definition owner_from_control :: "server \<Rightarrow> ControlSessionGuard \<Rightarrow> SessionOwner" where
  "owner_from_control w control = \<lparr>so_name = ac_name (cg_identity control), so_fingerprint = ac_fingerprint (cg_identity control),
     so_control_session_id = ac_session_id (cg_identity control),
     so_observability_identity = sr_observability_identity (runtime_at w (cg_runtime control))\<rparr>"

definition owner_from_active :: "ActiveControlSession \<Rightarrow> SessionOwner" where
  "owner_from_active control = \<lparr>so_name = ac_name (acs_identity control), so_fingerprint = ac_fingerprint (acs_identity control),
     so_control_session_id = ac_session_id (acs_identity control),
     so_observability_identity = acs_observability_identity control\<rparr>"

definition owner_matches :: "SessionOwner \<Rightarrow> AuthenticatedClient \<Rightarrow> bool" where
  "owner_matches self identity \<longleftrightarrow> so_name self = ac_name identity \<and> so_fingerprint self = ac_fingerprint identity \<and>
     so_control_session_id self = ac_session_id identity"

definition active_session :: "CoordinatorState \<Rightarrow> SessionId \<Rightarrow> StoredSession option" where
  "active_session state session_id = Option.bind (map_of (co_sessions state) session_id) record_active"

definition put_session :: "SessionId \<Rightarrow> StoredSession \<Rightarrow> CoordinatorState \<Rightarrow> CoordinatorState" where
  "put_session session_id session state = state\<lparr>co_sessions := hm_insert session_id (Active session) (co_sessions state)\<rparr>"

definition other_participant ::
  "StoredSession \<Rightarrow> AuthenticatedClient \<Rightarrow> string \<Rightarrow> (RendezvousErrorCode, SessionOwner) result" where
  "other_participant session authenticated claimed_target =
     and_then (if owner_matches (st_consumer session) authenticated then Inr (st_provider session)
               else if owner_matches (st_provider session) authenticated then Inr (st_consumer session)
               else Inl RENDEZVOUS_NOT_PARTICIPANT) (\<lambda>target.
       if so_name target \<noteq> claimed_target then Inl RENDEZVOUS_IDENTITY_MISMATCH else Inr target)"

definition tombstone_session :: "CoordinatorState \<Rightarrow> SessionId \<Rightarrow> StoredSession option \<times> CoordinatorState" where
  "tombstone_session state session_id =
     (case map_of (co_sessions state) session_id of
        None \<Rightarrow> (None, state)
      | Some (Active session) \<Rightarrow>
          (Some session, state\<lparr>co_sessions := hm_insert session_id (Tombstone (tombstone_from_session session))
             (hm_remove session_id (co_sessions state))\<rparr>)
      | Some (Tombstone tombstone) \<Rightarrow>
          (None, state\<lparr>co_sessions := hm_insert session_id (Tombstone tombstone) (hm_remove session_id (co_sessions state))\<rparr>))"

definition increment_device_count :: "string \<Rightarrow> (string, nat) hashmap \<Rightarrow> (string, nat) hashmap" where
  "increment_device_count device counts = hm_insert device (hm_get_or 0 counts device + 1) counts"

definition decrement_device_count :: "string \<Rightarrow> (string, nat) hashmap \<Rightarrow> (string, nat) hashmap" where
  "decrement_device_count device counts =
     (case map_of counts device of
        None \<Rightarrow> counts
      | Some n \<Rightarrow> if n - 1 = 0 then hm_remove device counts else hm_insert device (n - 1) counts)"

definition decrement_record_counts :: "SessionRecord \<Rightarrow> (string, nat) hashmap \<Rightarrow> (string, nat) hashmap" where
  "decrement_record_counts record counts =
     (let (consumer, provider) = record_devices record
      in decrement_device_count provider (decrement_device_count consumer counts))"

definition supports_v02 :: "ProtocolVersion \<Rightarrow> bool" where
  "supports_v02 version \<longleftrightarrow> pv_major version = pv_major V0_2 \<and> pv_minor version \<ge> pv_minor V0_2"

definition coordinator_notice :: "SessionId \<Rightarrow> RendezvousErrorCode \<Rightarrow> string option \<Rightarrow> Message option" where
  "coordinator_notice session_id code peer =
     (case BoundedString_try_from RENDEZVOUS_MAX_ERROR_DETAIL_BYTES (error_detail code) of
        Inl _ \<Rightarrow> None
      | Inr detail \<Rightarrow>
          (case map_option (BoundedString_try_from MAX_CLIENT_NAME_BYTES) peer of
             Some (Inl _) \<Rightarrow> None
           | bounded \<Rightarrow> Some (ServerNotice \<lparr>sn_session_id = sid_as_bytes session_id, sn_code = as_u16 code, sn_detail = detail,
               sn_peer = (case bounded of Some (Inr name) \<Rightarrow> Some name | _ \<Rightarrow> None)\<rparr>)))"

definition error_response :: "RendezvousEnvelope \<Rightarrow> RendezvousErrorCode \<Rightarrow> Message option" where
  "error_response envelope code = coordinator_notice (env_session_id envelope) code (Some (env_target envelope))"

subsection \<open>Routing to a participant\<close>

definition outbound_at :: "nat \<Rightarrow> (outbound \<Rightarrow> outbound) \<Rightarrow> server \<Rightarrow> server" where
  "outbound_at r f w = set_runtime r ((runtime_at w r)\<lparr>sr_outbound := f (sr_outbound (runtime_at w r))\<rparr>) w"

definition route_to :: "SessionOwner \<Rightarrow> Message \<Rightarrow> server \<Rightarrow> (RendezvousErrorCode, unit) result \<times> server" where
  "route_to owner message w =
     (case active_control_session w (so_name owner) of
        None \<Rightarrow> (Inl RENDEZVOUS_PEER_OFFLINE, w)
      | Some active \<Rightarrow>
          if \<not> owner_matches owner (acs_identity active) then (Inl RENDEZVOUS_PEER_OFFLINE, w)
          else case try_send message (sr_outbound (runtime_at w (acs_runtime active))) of
            (Inl _, _) \<Rightarrow> (Inl RENDEZVOUS_DELIVERY_UNAVAILABLE, w)
          | (Inr _, ob) \<Rightarrow> (Inr (), outbound_at (acs_runtime active) (\<lambda>_. ob) w))"

definition reserve_to :: "SessionOwner \<Rightarrow> server \<Rightarrow> (RendezvousErrorCode, nat) result \<times> server" where
  "reserve_to owner w =
     (case active_control_session w (so_name owner) of
        None \<Rightarrow> (Inl RENDEZVOUS_PEER_OFFLINE, w)
      | Some active \<Rightarrow>
          if \<not> owner_matches owner (acs_identity active) then (Inl RENDEZVOUS_PEER_OFFLINE, w)
          else case try_reserve (sr_outbound (runtime_at w (acs_runtime active))) of
            (Inl _, _) \<Rightarrow> (Inl RENDEZVOUS_DELIVERY_UNAVAILABLE, w)
          | (Inr _, ob) \<Rightarrow> (Inr (acs_runtime active), outbound_at (acs_runtime active) (\<lambda>_. ob) w))"

definition send_permit :: "nat \<Rightarrow> Message \<Rightarrow> server \<Rightarrow> server" where
  "send_permit permit message = outbound_at permit (permit_send message)"

definition send_server_notice :: "StoredSession \<Rightarrow> SessionOwner \<Rightarrow> RendezvousErrorCode \<Rightarrow> server \<Rightarrow> server option" where
  "send_server_notice session target code w =
     map_option (\<lambda>message. snd (route_to target message w))
       (coordinator_notice (rsm_session_id (st_metadata session)) code
          (Some (if st_consumer session = target then so_name (st_provider session) else so_name (st_consumer session))))"

subsection \<open>Observability\<close>

definition observability_enabled :: "server \<Rightarrow> bool" where
  "observability_enabled w \<longleftrightarrow> sv_observability w \<noteq> None"

definition observed_p2p_session_id :: "'a primitives_scheme \<Rightarrow> SessionId \<Rightarrow> string" where
  "observed_p2p_session_id c session_id = ShortSessionId_from_bytes c (sid_as_bytes session_id)"

definition observe_p2p_open :: "'a primitives_scheme \<Rightarrow> u64 \<Rightarrow> StoredSession \<Rightarrow> SessionPath \<Rightarrow> ObservationEvent option" where
  "observe_p2p_open c millis session path =
     (case (BoundedLabel_try_from (so_name (st_provider session)), BoundedLabel_try_from (rsm_export (st_metadata session))) of
        (Inr peer, Inr export) \<Rightarrow>
          Some (P2pSessionOpened (so_observability_identity (st_consumer session))
            (observed_p2p_session_id c (rsm_session_id (st_metadata session))) peer (Some export) path millis)
      | _ \<Rightarrow> None)"

definition p2p_traffic_event :: "'a primitives_scheme \<Rightarrow> StoredSession \<Rightarrow> TrafficCounters \<Rightarrow> ObservationEvent option" where
  "p2p_traffic_event c session counters =
     (if counters \<noteq> TrafficCounters_default
      then Some (ByteCounterDelta (so_observability_identity (st_consumer session))
        (Some (observed_p2p_session_id c (rsm_session_id (st_metadata session)))) counters)
      else None)"

definition take_p2p_traffic :: "'a primitives_scheme \<Rightarrow> StoredSession \<Rightarrow> ObservationEvent option \<times> StoredSession" where
  "take_p2p_traffic c session =
     (let counters = st_pending_relay_traffic session;
          session = session\<lparr>st_pending_relay_traffic := TrafficCounters_default\<rparr>
      in (p2p_traffic_event c session counters, session))"

definition observe_all :: "ObservationEvent option \<Rightarrow> server \<Rightarrow> server" where
  "observe_all event w = (case event of Some e \<Rightarrow> try_observe e w | None \<Rightarrow> w)"

definition observe_p2p_close :: "'a primitives_scheme \<Rightarrow> u64 \<Rightarrow> StoredSession \<Rightarrow> string \<Rightarrow> server \<Rightarrow> server option" where
  "observe_p2p_close c millis session reason w =
     (let w = observe_all (p2p_traffic_event c session (st_pending_relay_traffic session)) w in
      if st_observed_path session = None then Some w
      else case BoundedLabel_try_from reason of
        Inl _ \<Rightarrow> None
      | Inr label \<Rightarrow>
          Some (try_observe (P2pSessionClosed (so_observability_identity (st_consumer session))
            (observed_p2p_session_id c (rsm_session_id (st_metadata session))) millis (Some label)) w))"

subsection \<open>Handlers\<close>

record readings =
  rd_origin_secs :: u64
  rd_secs :: u64
  rd_metadata_secs :: u64
  rd_instant :: nat
  rd_restart :: nat
  rd_millis :: u64
  rd_open_millis :: u64
  rd_token :: bytes

definition guard_version :: "server \<Rightarrow> ControlSessionGuard \<Rightarrow> ProtocolVersion" where
  "guard_version w gd = sr_protocol_version (runtime_at w (cg_runtime gd))"

definition validate_origin ::
  "u64 \<Rightarrow> ControlSessionGuard \<Rightarrow> RendezvousEnvelope \<Rightarrow> server \<Rightarrow> (RendezvousErrorCode, unit) result" where
  "validate_origin now authenticated envelope w =
     (if \<not> is_active_session w (cg_identity authenticated) \<or> env_sender envelope \<noteq> ac_name (cg_identity authenticated) \<or>
         env_version envelope \<noteq> guard_version w authenticated
      then Inl RENDEZVOUS_IDENTITY_MISMATCH
      else if \<not> supports_v02 (env_version envelope) then Inl RENDEZVOUS_UNSUPPORTED_PEER_VERSION
      else if env_expires_unix_secs envelope \<le> now then Inl RENDEZVOUS_EXPIRED
      else Inr ())"

definition identity_binding ::
  "RendezvousCoordinator \<Rightarrow> u64 \<Rightarrow> ControlSessionGuard \<Rightarrow> PeerIdentityLookup \<Rightarrow> CoordinatorState \<Rightarrow> server
     \<Rightarrow> (RendezvousErrorCode, Message) result" where
  "identity_binding self now authenticated lookup state w =
     (if \<not> is_active_session w (cg_identity authenticated) then Inl RENDEZVOUS_IDENTITY_MISMATCH
      else
        and_then (ok_or (active_session state (SessionId (pil_session_id lookup))) RENDEZVOUS_UNKNOWN_SESSION) (\<lambda>session.
        if rsm_expires_unix_secs (st_metadata session) \<le> now then Inl RENDEZVOUS_EXPIRED
        else
          and_then (other_participant session (cg_identity authenticated) (pil_peer lookup)) (\<lambda>peer.
          and_then (case map_of (rco_directory self) (so_name peer) of
              Some entry \<Rightarrow> if de_enabled entry then Inr entry else Inl RENDEZVOUS_UNKNOWN_PEER
            | None \<Rightarrow> Inl RENDEZVOUS_UNKNOWN_PEER) (\<lambda>directory.
          case (BoundedString_try_from MAX_CLIENT_NAME_BYTES (so_name peer),
                BoundedString_try_from MAX_PUBLIC_KEY_BYTES (de_public_key directory)) of
            (Inr name, Inr public_key) \<Rightarrow>
              Inr (PeerIdentityBinding \<lparr>pib_session_id = pil_session_id lookup, pib_peer = name, pib_public_key = public_key,
                pib_protocol = rsm_protocol (st_metadata session), pib_peer_is_provider = (st_provider session = peer),
                pib_expires_unix_secs = rsm_expires_unix_secs (st_metadata session)\<rparr>)
          | _ \<Rightarrow> Inl RENDEZVOUS_INVALID_STATE))))"

definition coordinator_session :: "u64 \<Rightarrow> SessionId \<Rightarrow> CoordinatorState \<Rightarrow> RendezvousSessionMetadata option" where
  "coordinator_session now session_id state =
     (case active_session state session_id of
        Some session \<Rightarrow> if rsm_expires_unix_secs (st_metadata session) > now then Some (st_metadata session) else None
      | None \<Rightarrow> None)"

text \<open>\<open>expire_sessions_batch\<close>: the loop under the lock, then the notices.\<close>

definition EXPIRY_MAINTENANCE_BATCH :: nat where "EXPIRY_MAINTENANCE_BATCH = 1024"

fun expire_loop :: "nat \<Rightarrow> u64 \<Rightarrow> CoordinatorState \<Rightarrow> StoredSession list \<times> CoordinatorState" where
  "expire_loop 0 now state = ([], state)"
| "expire_loop (Suc n) now state =
     (case co_expiry state of
        [] \<Rightarrow> ([], state)
      | e # rest \<Rightarrow>
          if ee_expires_unix_secs e > now then ([], state)
          else
            let state = state\<lparr>co_expiry := rest\<rparr> in
            case map_of (co_sessions state) (ee_session_id e) of
              Some record \<Rightarrow>
                if record_expires record = ee_expires_unix_secs e then
                  let state = state\<lparr>co_sessions := hm_remove (ee_session_id e) (co_sessions state),
                        co_device_counts := decrement_record_counts record (co_device_counts state)\<rparr>;
                      (active, state) = expire_loop n now state
                  in (case record of Active session \<Rightarrow> session # active | Tombstone _ \<Rightarrow> active, state)
                else expire_loop n now state
            | None \<Rightarrow> expire_loop n now state)"

fun notify_expired :: "'a primitives_scheme \<Rightarrow> u64 \<Rightarrow> StoredSession list \<Rightarrow> server \<Rightarrow> server option" where
  "notify_expired c millis [] w = Some w"
| "notify_expired c millis (session # sessions) w =
     Option.bind (observe_p2p_close c millis session ''expired'' w) (\<lambda>w.
     Option.bind (send_server_notice session (st_consumer session) RENDEZVOUS_EXPIRED w) (\<lambda>w.
     Option.bind (send_server_notice session (st_provider session) RENDEZVOUS_EXPIRED w) (\<lambda>w.
       notify_expired c millis sessions w)))"

definition expire_sessions_batch ::
  "'a primitives_scheme \<Rightarrow> u64 \<Rightarrow> u64 \<Rightarrow> CoordinatorState \<Rightarrow> server \<Rightarrow> CoordinatorState \<times> server option" where
  "expire_sessions_batch c now millis state w =
     (let (removed, state) = expire_loop EXPIRY_MAINTENANCE_BATCH now state in (state, notify_expired c millis removed w))"

text \<open>\<open>flush_observability_due\<close>: one pass over the records; \<open>now\<close> is read for each of them.\<close>

definition OBSERVABILITY_FLUSH_INTERVAL :: nat where "OBSERVABILITY_FLUSH_INTERVAL = 250 * NANOS_PER_MILLI"

fun flush_records ::
  "'a primitives_scheme \<Rightarrow> nat \<Rightarrow> (SessionId, SessionRecord) hashmap \<Rightarrow> ObservationEvent list \<times> (SessionId, SessionRecord) hashmap" where
  "flush_records c now [] = ([], [])"
| "flush_records c now ((session_id, Tombstone tombstone) # records) =
     (let (events, records) = flush_records c now records in (events, (session_id, Tombstone tombstone) # records))"
| "flush_records c now ((session_id, Active session) # records) =
     (let (event, session) =
            (if now - st_last_observability_flush session \<ge> OBSERVABILITY_FLUSH_INTERVAL
             then let (event, session) = take_p2p_traffic c session in (event, session\<lparr>st_last_observability_flush := now\<rparr>)
             else (None, session));
          (events, records) = flush_records c now records
      in (case event of Some e \<Rightarrow> e # events | None \<Rightarrow> events, (session_id, Active session) # records))"

definition flush_observability_due ::
  "'a primitives_scheme \<Rightarrow> nat \<Rightarrow> CoordinatorState \<Rightarrow> server \<Rightarrow> CoordinatorState \<times> server" where
  "flush_observability_due c now state w =
     (if \<not> observability_enabled w then (state, w)
      else
        let (events, records) = flush_records c now (co_sessions state)
        in (state\<lparr>co_sessions := records\<rparr>, fold try_observe events w))"

definition expire_now ::
  "'a primitives_scheme \<Rightarrow> u64 \<Rightarrow> u64 \<Rightarrow> nat \<Rightarrow> CoordinatorState \<Rightarrow> server \<Rightarrow> CoordinatorState \<times> server option" where
  "expire_now c now millis instant state w =
     (case expire_sessions_batch c now millis state w of
        (state, None) \<Rightarrow> (state, None)
      | (state, Some w) \<Rightarrow> (let (state, w) = flush_observability_due c instant state w in (state, Some w)))"

text \<open>
  \<open>request\<close>: the checks, the section under the lock, and the delivery with the reserved place. The
  three instants a new record starts with are one reading.
\<close>

definition new_session ::
  "readings \<Rightarrow> bool \<Rightarrow> RendezvousEnvelope \<Rightarrow> string \<Rightarrow> SessionOwner \<Rightarrow> SessionOwner \<Rightarrow> RendezvousState \<Rightarrow> StoredSession" where
  "new_session rd observed envelope export consumer provider rendezvous_state =
     \<lparr>st_metadata = \<lparr>rsm_session_id = env_session_id envelope, rsm_consumer = so_name consumer, rsm_provider = so_name provider,
        rsm_export = export, rsm_protocol = None, rsm_expires_unix_secs = env_expires_unix_secs envelope\<rparr>,
      st_consumer = consumer, st_provider = provider, st_state = rendezvous_state,
      st_relay = RelayAdmission_new (rd_instant rd), st_candidate_generation_announced_by = 0,
      st_candidate_digests = (None, None), st_generation_started = rd_instant rd, st_observed_path = None,
      st_fallback_consumer_internal_frames_remaining = (if observed then 1 else 0),
      st_fallback_provider_internal_frames_remaining = (if observed then 2 else 0),
      st_pending_preselection_relay_traffic = TrafficCounters_default, st_pending_relay_traffic = TrafficCounters_default,
      st_last_observability_flush = rd_instant rd\<rparr>"

definition request_section ::
  "RendezvousCoordinator \<Rightarrow> readings \<Rightarrow> RendezvousEnvelope \<Rightarrow> string \<Rightarrow> SessionOwner \<Rightarrow> SessionOwner \<Rightarrow> RendezvousState
     \<Rightarrow> CoordinatorState \<Rightarrow> server \<Rightarrow> (RendezvousErrorCode, nat) result \<times> CoordinatorState \<times> server" where
  "request_section self rd envelope export consumer provider rendezvous_state state w =
     (if map_of (co_sessions state) (env_session_id envelope) \<noteq> None then (Inl RENDEZVOUS_DUPLICATE_SESSION, state, w)
      else if length (co_sessions state) \<ge> rl_max_sessions (rco_limits self) \<or>
        hm_get_or 0 (co_device_counts state) (so_name consumer) \<ge> rl_max_sessions_per_device (rco_limits self) \<or>
        hm_get_or 0 (co_device_counts state) (so_name provider) \<ge> rl_max_sessions_per_device (rco_limits self)
      then (Inl RENDEZVOUS_CAPACITY_REACHED, state, w)
      else case reserve_to provider w of
        (Inl e, w) \<Rightarrow> (Inl e, state, w)
      | (Inr permit, w) \<Rightarrow>
          (Inr permit,
           \<lparr>co_sessions = hm_insert (env_session_id envelope)
              (Active (new_session rd (observability_enabled w) envelope export consumer provider rendezvous_state)) (co_sessions state),
            co_device_counts = increment_device_count (so_name provider)
              (increment_device_count (so_name consumer) (co_device_counts state)),
            co_expiry = insort_key expiry_key \<lparr>ee_expires_unix_secs = env_expires_unix_secs envelope,
              ee_session_id = env_session_id envelope\<rparr> (co_expiry state)\<rparr>, w))"

definition request_checks ::
  "postcard \<Rightarrow> RendezvousCoordinator \<Rightarrow> readings \<Rightarrow> ControlSessionGuard \<Rightarrow> RendezvousEnvelope \<Rightarrow> server
     \<Rightarrow> (RendezvousErrorCode, string \<times> SessionOwner \<times> SessionOwner \<times> RendezvousState \<times> Message) result" where
  "request_checks pc self rd authenticated envelope w =
     and_then (validate_origin (rd_origin_secs rd) authenticated envelope w) (\<lambda>_.
     case env_payload envelope of
       PayloadRequest req \<Rightarrow>
         if env_target envelope = ac_name (cg_identity authenticated) then Inl RENDEZVOUS_SELF_TARGET
         else
           and_then (case map_of (rco_directory self) (env_target envelope) of
               None \<Rightarrow> Inl RENDEZVOUS_UNKNOWN_PEER
             | Some entry \<Rightarrow> if \<not> de_enabled entry then Inl RENDEZVOUS_PEER_DISABLED else Inr ()) (\<lambda>_.
           and_then (ok_or (active_control_session w (env_target envelope)) RENDEZVOUS_PEER_OFFLINE) (\<lambda>provider.
           if \<not> supports_v02 (acs_protocol_version provider) then Inl RENDEZVOUS_UNSUPPORTED_PEER_VERSION
           else if env_expires_unix_secs envelope \<le> rd_secs rd then Inl RENDEZVOUS_EXPIRED
           else
             and_then (ok_or (checked_add (rd_secs rd) (word_of_nat (rl_session_ttl (rco_limits self) div NANOS_PER_SECOND)))
               RENDEZVOUS_INVALID_EXPIRY) (\<lambda>max_expiry.
             if env_expires_unix_secs envelope > max_expiry then Inl RENDEZVOUS_INVALID_EXPIRY
             else case Rendezvous_State.request (RendezvousState_new (env_session_id envelope)) (env_step envelope) (env_generation envelope) of
               Inl _ \<Rightarrow> Inl RENDEZVOUS_INVALID_STATE
             | Inr rendezvous_state \<Rightarrow>
                 (case RendezvousEnvelope_to_protocol_message pc envelope of
                    Inl _ \<Rightarrow> Inl RENDEZVOUS_INVALID_STATE
                  | Inr message \<Rightarrow> Inr (rr_export req, owner_from_control w authenticated, owner_from_active provider,
                      rendezvous_state, message)))))
     | _ \<Rightarrow> Inl RENDEZVOUS_INVALID_STATE)"

definition coordinator_request ::
  "postcard \<Rightarrow> RendezvousCoordinator \<Rightarrow> readings \<Rightarrow> ControlSessionGuard \<Rightarrow> RendezvousEnvelope \<Rightarrow> CoordinatorState \<Rightarrow> server
     \<Rightarrow> (coordinator_error, SessionId) result \<times> CoordinatorState \<times> server" where
  "coordinator_request pc self rd authenticated envelope state w =
     (case request_checks pc self rd authenticated envelope w of
        Inl e \<Rightarrow> (Inl (Refused e), state, w)
      | Inr (export, consumer, provider, rendezvous_state, message) \<Rightarrow>
          (case request_section self rd envelope export consumer provider rendezvous_state state w of
             (Inl e, state, w) \<Rightarrow> (Inl (Refused e), state, w)
           | (Inr permit, state, w) \<Rightarrow> (Inr (env_session_id envelope), state, send_permit permit message w)))"

text \<open>\<open>provider_decision\<close>\<close>

definition decision_section ::
  "readings \<Rightarrow> AuthenticatedClient \<Rightarrow> RendezvousEnvelope \<Rightarrow> ProviderDecision \<Rightarrow> CoordinatorState \<Rightarrow> server
     \<Rightarrow> (coordinator_error, nat) result \<times> CoordinatorState \<times> server" where
  "decision_section rd identity envelope decision state w =
     (case and_then (ok_or (active_session state (env_session_id envelope)) RENDEZVOUS_UNKNOWN_SESSION) (\<lambda>session.
          if rsm_expires_unix_secs (st_metadata session) \<le> rd_secs rd then Inl RENDEZVOUS_EXPIRED
          else if \<not> owner_matches (st_provider session) identity then Inl RENDEZVOUS_NOT_PARTICIPANT
          else if env_target envelope \<noteq> so_name (st_consumer session) then Inl RENDEZVOUS_IDENTITY_MISMATCH
          else case Rendezvous_State.provider_decision (st_state session) (env_step envelope) (env_generation envelope)
                 (pd_accepted decision) of
            Inl _ \<Rightarrow> Inl RENDEZVOUS_INVALID_STATE
          | Inr n \<Rightarrow> Inr (st_consumer session, n)) of
        Inl e \<Rightarrow> (Inl (Refused e), state, w)
      | Inr (consumer, next_session_state) \<Rightarrow>
          (case reserve_to consumer w of
             (Inl e, w) \<Rightarrow> (Inl (Refused e), state, w)
           | (Inr permit, w) \<Rightarrow>
               (case active_session state (env_session_id envelope) of
                  None \<Rightarrow> (Inl CoordinatorPanic, state, w)
                | Some session \<Rightarrow>
                    let session = session\<lparr>st_state := next_session_state\<rparr>;
                        session = (if pd_accepted decision
                          then session\<lparr>st_metadata := (st_metadata session)\<lparr>rsm_protocol := pd_protocol decision\<rparr>\<rparr> else session);
                        state = put_session (env_session_id envelope) session state;
                        state = (if \<not> pd_accepted decision then snd (tombstone_session state (env_session_id envelope)) else state)
                    in (Inr permit, state, w))))"

definition coordinator_decision ::
  "postcard \<Rightarrow> readings \<Rightarrow> ControlSessionGuard \<Rightarrow> RendezvousEnvelope \<Rightarrow> CoordinatorState \<Rightarrow> server
     \<Rightarrow> (coordinator_error, unit) result \<times> CoordinatorState \<times> server" where
  "coordinator_decision pc rd authenticated envelope state w =
     (case validate_origin (rd_origin_secs rd) authenticated envelope w of
        Inl e \<Rightarrow> (Inl (Refused e), state, w)
      | Inr _ \<Rightarrow>
          (case env_payload envelope of
             PayloadProviderDecision decision \<Rightarrow>
               (case RendezvousEnvelope_to_protocol_message pc envelope of
                  Inl _ \<Rightarrow> (Inl (Refused RENDEZVOUS_INVALID_STATE), state, w)
                | Inr message \<Rightarrow>
                    (case decision_section rd (cg_identity authenticated) envelope decision state w of
                       (Inl e, state, w) \<Rightarrow> (Inl e, state, w)
                     | (Inr permit, state, w) \<Rightarrow> (Inr (), state, send_permit permit message w)))
           | _ \<Rightarrow> (Inl (Refused RENDEZVOUS_INVALID_STATE), state, w)))"

text \<open>
  \<open>forward_envelope\<close>: first what the session says to the envelope (\<open>forward_check\<close>), then, once a
  place at the receiver is reserved, the update of the session (\<open>forward_update\<close>), and after the lock
  the events, the delivery and the punch grants. A participant is the bit 1 or 2.
\<close>

record forward_plan =
  fp_target :: SessionOwner
  fp_next :: RendezvousState
  fp_relay_update :: "(u8 \<times> bool) option"
  fp_generation_update :: "(u64 \<times> u8 \<times> bool) option"
  fp_observed_path :: "SessionPath option"

definition generation_check ::
  "readings \<Rightarrow> u8 \<Rightarrow> RendezvousEnvelope \<Rightarrow> StoredSession
     \<Rightarrow> (RendezvousErrorCode, RendezvousState \<times> (u64 \<times> u8 \<times> bool) option) result" where
  "generation_check rd participant envelope session =
     (case env_payload envelope of
        PayloadCandidateSetV2 cs \<Rightarrow>
          if cs2_owner_is_initiator cs \<noteq> (participant = 1) then Inl RENDEZVOUS_INVALID_STATE
          else
            let current = gen_get (rs_generation (st_state session));
                actual = gen_get (env_generation envelope);
                announced = st_candidate_generation_announced_by session
            in if actual = current then
                 (if announced AND participant \<noteq> 0 then Inl RENDEZVOUS_INVALID_STATE
                  else Inr (st_state session, Some (actual, announced OR participant, False)))
               else if actual = u64_saturating_add current 1 \<and> announced = 3 \<and> actual \<le> 32 \<and>
                 rd_instant rd - st_generation_started session \<ge> 250 * NANOS_PER_MILLI
               then (case advance_generation (st_state session) (env_generation envelope) of
                       Inl _ \<Rightarrow> Inl RENDEZVOUS_INVALID_STATE
                     | Inr n \<Rightarrow> Inr (n, Some (actual, participant, True)))
               else Inl RENDEZVOUS_INVALID_STATE
      | _ \<Rightarrow> Inr (st_state session, None))"

definition relay_check ::
  "u8 \<Rightarrow> RendezvousEnvelope \<Rightarrow> StoredSession \<Rightarrow> (RendezvousErrorCode, (u8 \<times> bool) option) result" where
  "relay_check participant envelope session =
     (case env_payload envelope of
        PayloadRelayRequest req \<Rightarrow>
          if rlr_datagram req \<noteq> (rsm_protocol (st_metadata session) = Some TunnelProtocol_UDP) then Inl RENDEZVOUS_INVALID_STATE
          else if (case rad_datagram (st_relay session) of Some v \<Rightarrow> v \<noteq> rlr_datagram req | None \<Rightarrow> False)
          then Inl RENDEZVOUS_INVALID_STATE
          else Inr (Some (participant, rlr_datagram req))
      | _ \<Rightarrow> Inr None)"

definition path_check :: "bool \<Rightarrow> RendezvousEnvelope \<Rightarrow> StoredSession \<Rightarrow> (RendezvousErrorCode, SessionPath option) result" where
  "path_check observed envelope session =
     and_then
       (case env_payload envelope of
          PayloadConnectivityResult res \<Rightarrow>
            if cr_connected res then
              (case cr_transport res of
                 None \<Rightarrow> Inl RENDEZVOUS_INVALID_STATE
               | Some transport \<Rightarrow>
                   Inr (if observed then Some (case transport of Relay \<Rightarrow> P2pFallback | QuicUdp \<Rightarrow> P2pDirect | NativeTcp \<Rightarrow> P2pDirect)
                        else None))
            else if cr_transport res \<noteq> None then Inl RENDEZVOUS_INVALID_STATE
            else Inr None
        | _ \<Rightarrow> Inr None) (\<lambda>observed_path.
       case observed_path of
         Some path \<Rightarrow>
           if st_observed_path session \<noteq> None \<and> st_observed_path session \<noteq> Some path then Inl RENDEZVOUS_INVALID_STATE
           else Inr observed_path
       | None \<Rightarrow> Inr observed_path)"

definition participant_bit :: "StoredSession \<Rightarrow> AuthenticatedClient \<Rightarrow> u8" where
  "participant_bit session identity = (if owner_matches (st_consumer session) identity then 1 else 2)"

definition forward_check ::
  "readings \<Rightarrow> bool \<Rightarrow> AuthenticatedClient \<Rightarrow> RendezvousEnvelope \<Rightarrow> CoordinatorState
     \<Rightarrow> (RendezvousErrorCode, forward_plan) result" where
  "forward_check rd observed identity envelope state =
     and_then (ok_or (active_session state (env_session_id envelope)) RENDEZVOUS_UNKNOWN_SESSION) (\<lambda>session.
     if rsm_expires_unix_secs (st_metadata session) \<le> rd_secs rd then Inl RENDEZVOUS_EXPIRED
     else if rsm_protocol (st_metadata session) = None then Inl RENDEZVOUS_INVALID_STATE
     else
       and_then (other_participant session identity (env_target envelope)) (\<lambda>target.
       and_then (generation_check rd (participant_bit session identity) envelope session) (\<lambda>(n, generation_update).
       case accept_metadata n (env_session_id envelope) (env_step envelope) (env_generation envelope)
              (env_expires_unix_secs envelope) (rd_metadata_secs rd) of
         Inl _ \<Rightarrow> Inl RENDEZVOUS_INVALID_STATE
       | Inr n \<Rightarrow>
           and_then (relay_check (participant_bit session identity) envelope session) (\<lambda>relay_update.
           and_then (path_check observed envelope session) (\<lambda>observed_path.
             Inr \<lparr>fp_target = target, fp_next = n, fp_relay_update = relay_update,
               fp_generation_update = generation_update, fp_observed_path = observed_path\<rparr>)))))"

definition apply_generation :: "readings \<Rightarrow> forward_plan \<Rightarrow> StoredSession \<Rightarrow> StoredSession" where
  "apply_generation rd plan session =
     (case fp_generation_update plan of
        None \<Rightarrow> session
      | Some (_, announced_by, advanced) \<Rightarrow>
          let session = session\<lparr>st_candidate_generation_announced_by := announced_by\<rparr>
          in if advanced then
               session\<lparr>st_generation_started := rd_restart rd,
                 st_relay := (if \<not> authorized (st_relay session) then RelayAdmission_new (rd_restart rd) else st_relay session),
                 st_candidate_digests := (None, None)\<rparr>
             else session)"

definition apply_digest :: "AuthenticatedClient \<Rightarrow> bytes option \<Rightarrow> StoredSession \<Rightarrow> StoredSession" where
  "apply_digest identity candidate_digest session =
     (case candidate_digest of
        None \<Rightarrow> session
      | Some digest \<Rightarrow>
          (if ac_name identity = so_name (st_consumer session)
           then session\<lparr>st_candidate_digests := (Some digest, snd (st_candidate_digests session))\<rparr>
           else session\<lparr>st_candidate_digests := (fst (st_candidate_digests session), Some digest)\<rparr>))"

definition apply_relay :: "forward_plan \<Rightarrow> StoredSession \<Rightarrow> StoredSession" where
  "apply_relay plan session =
     (case fp_relay_update plan of
        None \<Rightarrow> session
      | Some (participant, datagram) \<Rightarrow>
          session\<lparr>st_relay := (st_relay session)\<lparr>rad_requested_by := rad_requested_by (st_relay session) OR participant,
            rad_datagram := Some datagram\<rparr>\<rparr>)"

definition punch_grant :: "readings \<Rightarrow> RendezvousEnvelope \<Rightarrow> bytes option \<Rightarrow> StoredSession \<Rightarrow> PunchGrant option" where
  "punch_grant rd envelope candidate_digest session =
     (if candidate_digest \<noteq> None \<and> st_candidate_generation_announced_by session = 3 then
        (case st_candidate_digests session of
           (Some initiator, Some responder) \<Rightarrow>
             Some \<lparr>pg_session_id = sid_as_bytes (env_session_id envelope), pg_generation = gen_get (env_generation envelope),
               pg_start_unix_millis = u64_saturating_add (rd_millis rd) 250, pg_window_millis = 150, pg_cadence_millis = 25,
               pg_initiator_candidates_sha256 = initiator, pg_responder_candidates_sha256 = responder, pg_token = rd_token rd\<rparr>
         | _ \<Rightarrow> None)
      else None)"

definition apply_path ::
  "'a primitives_scheme \<Rightarrow> readings \<Rightarrow> forward_plan \<Rightarrow> StoredSession
     \<Rightarrow> (ObservationEvent option \<times> ObservationEvent option) option \<times> StoredSession" where
  "apply_path c rd plan session =
     (case fp_observed_path plan of
        None \<Rightarrow> (Some (None, None), session)
      | Some path \<Rightarrow>
          if st_observed_path session \<noteq> None then (Some (None, None), session)
          else
            let session = session\<lparr>st_observed_path := Some path\<rparr>;
                pending = st_pending_preselection_relay_traffic session;
                session = session\<lparr>st_pending_preselection_relay_traffic := TrafficCounters_default\<rparr>;
                traffic = (if path = P2pFallback then p2p_traffic_event c session pending else None)
            in (map_option (\<lambda>event. (Some event, traffic)) (observe_p2p_open c (rd_open_millis rd) session path), session))"

definition candidate_digest_of :: "postcard \<Rightarrow> 'a primitives_scheme \<Rightarrow> RendezvousEnvelope \<Rightarrow> (RendezvousErrorCode, bytes option) result" where
  "candidate_digest_of pc c envelope =
     (case env_payload envelope of
        PayloadCandidateSetV2 cs \<Rightarrow>
          and_then (ok_or (pc_to_allocvec pc (ser_CandidateSetV2 cs)) RENDEZVOUS_INVALID_STATE) (\<lambda>encoded. Inr (Some (sha256 c encoded)))
      | _ \<Rightarrow> Inr None)"

definition forward_section ::
  "'a primitives_scheme \<Rightarrow> readings \<Rightarrow> AuthenticatedClient \<Rightarrow> RendezvousEnvelope \<Rightarrow> bytes option \<Rightarrow> CoordinatorState \<Rightarrow> server
     \<Rightarrow> (coordinator_error, nat \<times> (ObservationEvent option \<times> ObservationEvent option) \<times> (SessionOwner \<times> SessionOwner \<times> PunchGrant) option) result
        \<times> CoordinatorState \<times> server" where
  "forward_section c rd identity envelope candidate_digest state w =
     (case forward_check rd (observability_enabled w) identity envelope state of
        Inl e \<Rightarrow> (Inl (Refused e), state, w)
      | Inr plan \<Rightarrow>
          (case reserve_to (fp_target plan) w of
             (Inl e, w) \<Rightarrow> (Inl (Refused e), state, w)
           | (Inr permit, w) \<Rightarrow>
               (case active_session state (env_session_id envelope) of
                  None \<Rightarrow> (Inl CoordinatorPanic, state, w)
                | Some session \<Rightarrow>
                    let session = apply_digest identity candidate_digest
                          (apply_generation rd plan (session\<lparr>st_state := fp_next plan\<rparr>));
                        punch = map_option (\<lambda>grant. (st_consumer session, st_provider session, grant))
                          (punch_grant rd envelope candidate_digest session);
                        (events, session) = apply_path c rd plan (apply_relay plan session);
                        state = put_session (env_session_id envelope) session state
                    in (case events of
                          None \<Rightarrow> (Inl CoordinatorPanic, state, w)
                        | Some events \<Rightarrow> (Inr (permit, events, punch), state, w)))))"

definition send_punch :: "(SessionOwner \<times> SessionOwner \<times> PunchGrant) option \<Rightarrow> server \<Rightarrow> (coordinator_error, unit) result \<times> server" where
  "send_punch punch w =
     (case punch of
        None \<Rightarrow> (Inr (), w)
      | Some (consumer, provider, grant) \<Rightarrow>
          (case reserve_to consumer w of
             (Inl e, w) \<Rightarrow> (Inl (Refused e), w)
           | (Inr consumer_permit, w) \<Rightarrow>
               (case reserve_to provider w of
                  (Inl e, w) \<Rightarrow> (Inl (Refused e), outbound_at consumer_permit permit_drop w)
                | (Inr provider_permit, w) \<Rightarrow>
                    (Inr (), send_permit provider_permit (Message.PunchGrant grant)
                       (send_permit consumer_permit (Message.PunchGrant grant) w)))))"

definition forwardable :: "RendezvousPayload \<Rightarrow> bool" where
  "forwardable payload = (case payload of
       PayloadRequest _ \<Rightarrow> False | PayloadProviderDecision _ \<Rightarrow> False | PayloadClose _ \<Rightarrow> False | PayloadError _ \<Rightarrow> False | _ \<Rightarrow> True)"

definition forward_envelope ::
  "postcard \<Rightarrow> 'a primitives_scheme \<Rightarrow> readings \<Rightarrow> ControlSessionGuard \<Rightarrow> RendezvousEnvelope \<Rightarrow> CoordinatorState \<Rightarrow> server
     \<Rightarrow> (coordinator_error, unit) result \<times> CoordinatorState \<times> server" where
  "forward_envelope pc c rd authenticated envelope state w =
     (case and_then (validate_origin (rd_origin_secs rd) authenticated envelope w) (\<lambda>_.
          if \<not> forwardable (env_payload envelope) then Inl RENDEZVOUS_INVALID_STATE
          else
            and_then (candidate_digest_of pc c envelope) (\<lambda>candidate_digest.
            case RendezvousEnvelope_to_protocol_message pc envelope of
              Inl _ \<Rightarrow> Inl RENDEZVOUS_INVALID_STATE
            | Inr message \<Rightarrow> Inr (candidate_digest, message))) of
        Inl e \<Rightarrow> (Inl (Refused e), state, w)
      | Inr (candidate_digest, message) \<Rightarrow>
          (case forward_section c rd (cg_identity authenticated) envelope candidate_digest state w of
             (Inl e, state, w) \<Rightarrow> (Inl e, state, w)
           | (Inr (permit, (open_event, traffic), punch), state, w) \<Rightarrow>
               let w = send_permit permit message (observe_all traffic (observe_all open_event w));
                   (res, w) = send_punch punch w
               in (res, state, w)))"

text \<open>\<open>close_session\<close> and \<open>remove_device\<close>\<close>

definition close_section ::
  "readings \<Rightarrow> AuthenticatedClient \<Rightarrow> RendezvousEnvelope \<Rightarrow> CoordinatorState \<Rightarrow> server
     \<Rightarrow> (coordinator_error, nat \<times> StoredSession option) result \<times> CoordinatorState \<times> server" where
  "close_section rd identity envelope state w =
     (case and_then (ok_or (active_session state (env_session_id envelope)) RENDEZVOUS_UNKNOWN_SESSION) (\<lambda>session.
          if rsm_expires_unix_secs (st_metadata session) \<le> rd_secs rd then Inl RENDEZVOUS_EXPIRED
          else
            and_then (other_participant session identity (env_target envelope)) (\<lambda>target.
            case accept_metadata (st_state session) (env_session_id envelope) (env_step envelope) (env_generation envelope)
                   (env_expires_unix_secs envelope) (rd_metadata_secs rd) of
              Inl _ \<Rightarrow> Inl RENDEZVOUS_INVALID_STATE
            | Inr n \<Rightarrow> Inr (target, n))) of
        Inl e \<Rightarrow> (Inl (Refused e), state, w)
      | Inr (target, next_session_state) \<Rightarrow>
          (case reserve_to target w of
             (Inl e, w) \<Rightarrow> (Inl (Refused e), state, w)
           | (Inr permit, w) \<Rightarrow>
               (case active_session state (env_session_id envelope) of
                  None \<Rightarrow> (Inl CoordinatorPanic, state, w)
                | Some session \<Rightarrow>
                    let state = put_session (env_session_id envelope) (session\<lparr>st_state := next_session_state\<rparr>) state;
                        (removed, state) = tombstone_session state (env_session_id envelope)
                    in (Inr (permit, removed), state, w))))"

definition coordinator_close ::
  "postcard \<Rightarrow> 'a primitives_scheme \<Rightarrow> readings \<Rightarrow> ControlSessionGuard \<Rightarrow> RendezvousEnvelope \<Rightarrow> CoordinatorState \<Rightarrow> server
     \<Rightarrow> (coordinator_error, unit) result \<times> CoordinatorState \<times> server" where
  "coordinator_close pc c rd authenticated envelope state w =
     (case and_then (validate_origin (rd_origin_secs rd) authenticated envelope w) (\<lambda>_.
          if \<not> (case env_payload envelope of PayloadClose _ \<Rightarrow> True | PayloadError _ \<Rightarrow> True | _ \<Rightarrow> False)
          then Inl RENDEZVOUS_INVALID_STATE
          else case RendezvousEnvelope_to_protocol_message pc envelope of
            Inl _ \<Rightarrow> Inl RENDEZVOUS_INVALID_STATE
          | Inr message \<Rightarrow> Inr message) of
        Inl e \<Rightarrow> (Inl (Refused e), state, w)
      | Inr message \<Rightarrow>
          (case close_section rd (cg_identity authenticated) envelope state w of
             (Inl e, state, w) \<Rightarrow> (Inl e, state, w)
           | (Inr (permit, removed), state, w) \<Rightarrow>
               (case (case removed of Some session \<Rightarrow> observe_p2p_close c (rd_millis rd) session ''closed'' w | None \<Rightarrow> Some w) of
                  None \<Rightarrow> (Inl CoordinatorPanic, state, w)
                | Some w \<Rightarrow> (Inr (), state, send_permit permit message w))))"

fun tombstone_all :: "SessionId list \<Rightarrow> CoordinatorState \<Rightarrow> StoredSession list \<times> CoordinatorState" where
  "tombstone_all [] state = ([], state)"
| "tombstone_all (session_id # session_ids) state =
     (let (removed, state) = tombstone_session state session_id;
          (sessions, state) = tombstone_all session_ids state
      in (case removed of Some session \<Rightarrow> session # sessions | None \<Rightarrow> sessions, state))"

definition owned_sessions :: "AuthenticatedClient \<Rightarrow> CoordinatorState \<Rightarrow> SessionId list" where
  "owned_sessions authenticated state =
     map fst (filter (\<lambda>(_, record). case record of
         Active session \<Rightarrow> owner_matches (st_consumer session) authenticated \<or> owner_matches (st_provider session) authenticated
       | Tombstone _ \<Rightarrow> False) (co_sessions state))"

definition remove_section :: "AuthenticatedClient \<Rightarrow> CoordinatorState \<Rightarrow> StoredSession list \<times> CoordinatorState" where
  "remove_section authenticated state = tombstone_all (owned_sessions authenticated state) state"

fun notify_removed :: "'a primitives_scheme \<Rightarrow> u64 \<Rightarrow> AuthenticatedClient \<Rightarrow> StoredSession list \<Rightarrow> server \<Rightarrow> server option" where
  "notify_removed c millis authenticated [] w = Some w"
| "notify_removed c millis authenticated (session # sessions) w =
     (let survivor = (if owner_matches (st_consumer session) authenticated then st_provider session else st_consumer session)
      in Option.bind (observe_p2p_close c millis session ''peer-disconnected'' w) (\<lambda>w.
         Option.bind (send_server_notice session survivor RENDEZVOUS_PEER_DISCONNECTED w) (\<lambda>w.
           notify_removed c millis authenticated sessions w)))"

definition remove_device ::
  "'a primitives_scheme \<Rightarrow> u64 \<Rightarrow> AuthenticatedClient \<Rightarrow> CoordinatorState \<Rightarrow> server \<Rightarrow> CoordinatorState \<times> server option" where
  "remove_device c millis authenticated state w =
     (let (removed, state) = remove_section authenticated state in (state, notify_removed c millis authenticated removed w))"

text \<open>\<open>forward_relay_frame\<close>\<close>

definition PEER_AEAD_TAG_BYTES :: nat where "PEER_AEAD_TAG_BYTES = 16"

definition relay_flags_match :: "bool \<Rightarrow> PeerRelayFlags \<Rightarrow> bool" where
  "relay_flags_match datagram flags \<longleftrightarrow>
     (if datagram then prf_bits flags = prf_bits PeerRelayFlags_DATAGRAM
      else prf_bits flags = prf_bits PeerRelayFlags_RELIABLE \<or>
        prf_bits flags = prf_bits (PeerRelayFlags_bitor PeerRelayFlags_RELIABLE PeerRelayFlags_FIN))"

definition count_relay_bytes :: "bool \<Rightarrow> nat \<Rightarrow> TrafficCounters \<Rightarrow> TrafficCounters" where
  "count_relay_bytes consumer length_bytes traffic =
     (let logical_bytes = word_of_nat (length_bytes - PEER_AEAD_TAG_BYTES) in
      if consumer then traffic\<lparr>tc_sent_bytes := u64_saturating_add (tc_sent_bytes traffic) logical_bytes\<rparr>
      else traffic\<lparr>tc_received_bytes := u64_saturating_add (tc_received_bytes traffic) logical_bytes\<rparr>)"

definition observe_relay_frame :: "AuthenticatedClient \<Rightarrow> nat \<Rightarrow> StoredSession \<Rightarrow> StoredSession" where
  "observe_relay_frame identity length_bytes session =
     (let consumer = owner_matches (st_consumer session) identity in
      if consumer \<and> st_fallback_consumer_internal_frames_remaining session > 0 then
        session\<lparr>st_fallback_consumer_internal_frames_remaining := st_fallback_consumer_internal_frames_remaining session - 1\<rparr>
      else if \<not> consumer \<and> st_fallback_provider_internal_frames_remaining session > 0 then
        session\<lparr>st_fallback_provider_internal_frames_remaining := st_fallback_provider_internal_frames_remaining session - 1\<rparr>
      else case st_observed_path session of
        Some P2pFallback \<Rightarrow>
          session\<lparr>st_pending_relay_traffic := count_relay_bytes consumer length_bytes (st_pending_relay_traffic session)\<rparr>
      | None \<Rightarrow>
          session\<lparr>st_pending_preselection_relay_traffic :=
            count_relay_bytes consumer length_bytes (st_pending_preselection_relay_traffic session)\<rparr>
      | Some _ \<Rightarrow> session)"

definition relay_admission_check ::
  "AuthenticatedClient \<Rightarrow> PeerRelayFrame \<Rightarrow> StoredSession \<Rightarrow> (RendezvousErrorCode, SessionOwner) result" where
  "relay_admission_check identity frame session =
     (if rs_phase (st_state session) \<noteq> PhaseAccepted then Inl RENDEZVOUS_INVALID_STATE
      else
        and_then (if owner_matches (st_consumer session) identity then Inr (st_provider session)
                  else if owner_matches (st_provider session) identity then Inr (st_consumer session)
                  else Inl RENDEZVOUS_NOT_PARTICIPANT) (\<lambda>target.
        if \<not> authorized (st_relay session) then Inl RENDEZVOUS_INVALID_STATE
        else case rad_datagram (st_relay session) of
          None \<Rightarrow> Inl RENDEZVOUS_INVALID_STATE
        | Some datagram \<Rightarrow>
            if \<not> relay_flags_match datagram (prf_flags frame) then Inl RENDEZVOUS_CAPACITY_REACHED else Inr target))"

datatype relay_outcome = RelayRefused coordinator_error | RelayDropped | RelaySend nat Message

definition relay_section ::
  "postcard \<Rightarrow> readings \<Rightarrow> AuthenticatedClient \<Rightarrow> PeerRelayFrame \<Rightarrow> CoordinatorState \<Rightarrow> server
     \<Rightarrow> relay_outcome \<times> CoordinatorState \<times> server" where
  "relay_section pc rd identity frame state w =
     (case map_of (co_sessions state) (prf_session_id frame) of
        None \<Rightarrow> (RelayRefused (Refused RENDEZVOUS_UNKNOWN_SESSION), state, w)
      | Some (Tombstone tombstone) \<Rightarrow>
          if owner_matches (to_consumer tombstone) identity \<or> owner_matches (to_provider tombstone) identity
          then (RelayDropped, state, w) else (RelayRefused (Refused RENDEZVOUS_NOT_PARTICIPANT), state, w)
      | Some (Active session) \<Rightarrow>
          (case relay_admission_check identity frame session of
             Inl e \<Rightarrow> (RelayRefused (Refused e), state, w)
           | Inr target \<Rightarrow>
               let (admitted, relay) = admit (rd_instant rd) (rd_restart rd) (length (prf_ciphertext frame)) (st_relay session);
                   session = session\<lparr>st_relay := relay\<rparr>;
                   state = put_session (prf_session_id frame) session state
               in if \<not> admitted then (RelayRefused (Refused RENDEZVOUS_CAPACITY_REACHED), state, w)
                  else case PeerRelayFrame_to_protocol_message pc frame of
                    Inl _ \<Rightarrow> (RelayRefused (Refused RENDEZVOUS_INVALID_STATE), state, w)
                  | Inr message \<Rightarrow>
                      (case reserve_to target w of
                         (Inl e, w) \<Rightarrow> (RelayRefused (Refused e), state, w)
                       | (Inr permit, w) \<Rightarrow>
                           (RelaySend permit message,
                            if observability_enabled w
                            then put_session (prf_session_id frame)
                              (observe_relay_frame identity (length (prf_ciphertext frame)) session) state
                            else state, w))))"

definition forward_relay_frame ::
  "postcard \<Rightarrow> 'a primitives_scheme \<Rightarrow> readings \<Rightarrow> ControlSessionGuard \<Rightarrow> PeerRelayFrame \<Rightarrow> CoordinatorState \<Rightarrow> server
     \<Rightarrow> (coordinator_error, unit) result \<times> CoordinatorState \<times> server" where
  "forward_relay_frame pc c rd authenticated frame state w =
     (if \<not> is_active_session w (cg_identity authenticated) then (Inl (Refused RENDEZVOUS_IDENTITY_MISMATCH), state, w)
      else case expire_sessions_batch c (rd_origin_secs rd) (rd_millis rd) state w of
        (state, None) \<Rightarrow> (Inl CoordinatorPanic, state, w)
      | (state, Some w) \<Rightarrow>
          (case relay_section pc rd (cg_identity authenticated) frame state w of
             (RelayRefused e, state, w) \<Rightarrow> (Inl e, state, w)
           | (RelayDropped, state, w) \<Rightarrow> (Inr (), state, w)
           | (RelaySend permit message, state, w) \<Rightarrow> (Inr (), state, send_permit permit message w)))"

subsection \<open>The rate of relayed frames\<close>

fun metered :: "(nat \<Rightarrow> nat) \<Rightarrow> nat \<Rightarrow> RelayAdmission \<Rightarrow> (nat \<times> nat \<times> nat) list \<Rightarrow> nat" where
  "metered weight from r [] = 0"
| "metered weight from r ((now, restart, bytes) # es) =
     (let (ok, r') = admit now restart bytes r
      in (if ok \<and> from \<le> now \<and> now < from + NANOS_PER_SECOND then weight bytes else 0) + metered weight from r' es)"

fun clock_runs :: "nat \<Rightarrow> (nat \<times> nat \<times> nat) list \<Rightarrow> bool" where
  "clock_runs t [] = True"
| "clock_runs t ((now, restart, bytes) # es) \<longleftrightarrow> t \<le> now \<and> now \<le> restart \<and> clock_runs restart es"

text \<open>
  The weight of the frames admitted within the second that starts at \<open>from\<close>; a frame comes with the
  instant it is seen, the instant a new window would start at, and its length.

  The admission window as a contract on anything it meters: what is used up starts at nothing with
  every window, grows by the weight of each admitted frame and never passes the cap.
\<close>

locale metered_window =
  fixes weight :: "nat \<Rightarrow> nat"
    and used :: "RelayAdmission \<Rightarrow> nat"
    and cap :: nat
  assumes restarted: "NANOS_PER_SECOND \<le> now - rad_window_started r \<Longrightarrow> admit now restart bytes r = (ok, r') \<Longrightarrow>
      rad_window_started r' = restart \<and> used r' = (if ok then weight bytes else 0)"
    and continued: "now - rad_window_started r < NANOS_PER_SECOND \<Longrightarrow> admit now restart bytes r = (ok, r') \<Longrightarrow>
      rad_window_started r' = rad_window_started r \<and> used r' = used r + (if ok then weight bytes else 0)"
    and capped: "admit now restart bytes r = (True, r') \<Longrightarrow> used r' \<le> cap"
begin

lemma metered_over: "clock_runs t es \<Longrightarrow> from + NANOS_PER_SECOND \<le> t \<Longrightarrow> metered weight from r es = 0"
proof (induction es arbitrary: t r)
  case (Cons e es)
  obtain now restart bytes where e: "e = (now, restart, bytes)" by (metis prod.exhaust)
  obtain ok r' where a: "admit now restart bytes r = (ok, r')" by fastforce
  have "clock_runs restart es" "from + NANOS_PER_SECOND \<le> restart" using Cons.prems by (auto simp: e)
  from Cons.IH [OF this] Cons.prems show ?case by (simp add: e a)
qed simp

text \<open>A window that starts within the second can only be followed by one that starts after it.\<close>

lemma metered_one_window:
  "clock_runs t es \<Longrightarrow> from \<le> rad_window_started r \<Longrightarrow> used r \<le> cap \<Longrightarrow> metered weight from r es \<le> cap - used r"
proof (induction es arbitrary: t r)
  case (Cons e es)
  obtain now restart bytes where e: "e = (now, restart, bytes)" by (metis prod.exhaust)
  obtain ok r' where a: "admit now restart bytes r = (ok, r')" by fastforce
  have es: "clock_runs restart es" "now \<le> restart" using Cons.prems(1) by (auto simp: e)
  show ?case
  proof (cases "NANOS_PER_SECOND \<le> now - rad_window_started r")
    case True
    then have "from + NANOS_PER_SECOND \<le> now" using Cons.prems(2) by (simp add: NANOS_PER_SECOND_def)
    with metered_over [OF es(1), of "from" r'] es(2) show ?thesis by (simp add: e a)
  next
    case False
    with continued [OF _ a] have w: "rad_window_started r' = rad_window_started r" "used r' = used r + (if ok then weight bytes else 0)"
      by auto
    have "used r' \<le> cap" using capped [of now restart bytes r r'] a w(2) Cons.prems(3) by (cases ok) auto
    with Cons.IH [OF es(1), of r'] w Cons.prems(2) show ?thesis by (auto simp: e a)
  qed
qed simp

lemma metered_two_windows:
  "clock_runs t es \<Longrightarrow> from \<le> t \<Longrightarrow> used r \<le> cap \<Longrightarrow> metered weight from r es \<le> (cap - used r) + cap"
proof (induction es arbitrary: t r)
  case (Cons e es)
  obtain now restart bytes where e: "e = (now, restart, bytes)" by (metis prod.exhaust)
  obtain ok r' where a: "admit now restart bytes r = (ok, r')" by fastforce
  have es: "clock_runs restart es" "now \<le> restart" "from \<le> restart" using Cons.prems by (auto simp: e)
  show ?case
  proof (cases "NANOS_PER_SECOND \<le> now - rad_window_started r")
    case True
    from restarted [OF this a] have w: "rad_window_started r' = restart" "used r' = (if ok then weight bytes else 0)" by auto
    have u: "used r' \<le> cap" using capped [of now restart bytes r r'] a w(2) by (cases ok) auto
    from metered_one_window [OF es(1) _ u, of "from"] w es(3) u show ?thesis by (auto simp: e a)
  next
    case False
    with continued [OF _ a] have w: "used r' = used r + (if ok then weight bytes else 0)" by auto
    have "used r' \<le> cap" using capped [of now restart bytes r r'] a w Cons.prems(3) by (cases ok) auto
    with Cons.IH [OF es(1,3), of r'] w show ?thesis by (auto simp: e a)
  qed
qed simp

lemma metered_per_second: "clock_runs t es \<Longrightarrow> used r \<le> cap \<Longrightarrow> metered weight from r es \<le> 2 * cap"
proof (induction es arbitrary: t r)
  case (Cons e es)
  obtain now restart bytes where e: "e = (now, restart, bytes)" by (metis prod.exhaust)
  obtain ok r' where a: "admit now restart bytes r = (ok, r')" by fastforce
  show ?case
  proof (cases "from \<le> now")
    case True
    have "clock_runs now (e # es)" using Cons.prems(1) by (simp add: e)
    from metered_two_windows [OF this True Cons.prems(2)] show ?thesis by simp
  next
    case False
    have u: "used r' \<le> cap"
      using capped [of now restart bytes r r'] restarted [OF _ a] continued [OF _ a] a Cons.prems(2)
      by (cases ok; cases "NANOS_PER_SECOND \<le> now - rad_window_started r") auto
    have "clock_runs restart es" using Cons.prems(1) by (simp add: e)
    from Cons.IH [OF this u] False show ?thesis by (simp add: e a)
  qed
qed simp

end

interpretation relay_frames: metered_window "\<lambda>_. 1" "\<lambda>r. unat (rad_frames_in_window r)" 256
proof
  fix now restart bytes ok and r r' :: RelayAdmission
  have inc: "unat (n + 1) = unat n + 1 \<and> unat n + 1 \<le> 256" if "\<not> MAX_FRAMES_PER_SECOND \<le> n" for n :: u32
  proof -
    have "unat n < 256" using that by (simp add: MAX_FRAMES_PER_SECOND_def word_le_nat_alt not_le)
    moreover have "unat (n + 1) = (unat n + 1) mod 2 ^ 32" by (simp add: unat_word_ariths)
    ultimately show ?thesis by simp
  qed
  assume a: "admit now restart bytes r = (ok, r')"
  { assume "NANOS_PER_SECOND \<le> now - rad_window_started r"
    then show "rad_window_started r' = restart \<and> unat (rad_frames_in_window r') = (if ok then 1 else 0)"
      using a by (auto simp: admit_def Let_def MAX_FRAMES_PER_SECOND_def split: if_splits) }
  { assume "now - rad_window_started r < NANOS_PER_SECOND"
    then show "rad_window_started r' = rad_window_started r \<and>
        unat (rad_frames_in_window r') = unat (rad_frames_in_window r) + (if ok then 1 else 0)"
      using a inc by (auto simp: admit_def Let_def split: if_splits) }
next
  fix now restart bytes and r r' :: RelayAdmission
  assume a: "admit now restart bytes r = (True, r')"
  have inc: "unat (n + 1) \<le> 256" if "\<not> MAX_FRAMES_PER_SECOND \<le> n" for n :: u32
  proof -
    have "unat n < 256" using that by (simp add: MAX_FRAMES_PER_SECOND_def word_le_nat_alt not_le)
    moreover have "unat (n + 1) = (unat n + 1) mod 2 ^ 32" by (simp add: unat_word_ariths)
    ultimately show ?thesis by simp
  qed
  show "unat (rad_frames_in_window r') \<le> 256"
    using a inc by (auto simp: admit_def Let_def split: if_splits)
qed

interpretation relay_bytes: metered_window "\<lambda>bytes. bytes" rad_bytes_in_window MAX_BYTES_PER_SECOND
  by unfold_locales (auto simp: admit_def Let_def split: if_splits)

text \<open>
  C29 (relayed frames are metered): however the frames of a session arrive, in any one second the
  server admits at most 512 of them and at most 8 MiB, and it admits a frame that fits
  whenever the current window has room.
\<close>

theorem relay_rate_bounded:
  assumes "clock_runs t es"
  shows "metered (\<lambda>_. 1) from (RelayAdmission_new t) es \<le> 512 \<and>
    metered (\<lambda>bytes. bytes) from (RelayAdmission_new t) es \<le> 8 * 1024 * 1024 \<and>
    fst (admit now restart bytes r) = (if now - rad_window_started r \<ge> NANOS_PER_SECOND then bytes \<le> 4 * 1024 * 1024
      else rad_frames_in_window r < 256 \<and> rad_bytes_in_window r + bytes \<le> 4 * 1024 * 1024)"
  using relay_frames.metered_per_second [OF assms, of "RelayAdmission_new t" "from"]
    relay_bytes.metered_per_second [OF assms, of "RelayAdmission_new t" "from"]
  by (auto simp: RelayAdmission_new_def MAX_BYTES_PER_SECOND_def MAX_FRAMES_PER_SECOND_def admit_def Let_def)

theorem relay_rate_bounded_witness:
  "clock_runs 0 [(1, 2, 100), (1000000005, 1000000006, 200)] \<and>
   metered (\<lambda>_. 1) 1 (RelayAdmission_new 0) [(1, 2, 100), (1000000005, 1000000006, 200)] \<le> 512"
  using relay_rate_bounded [of 0 "[(1, 2, 100), (1000000005, 1000000006, 200)]" 1] by simp

subsection \<open>Runs of the coordinator\<close>

text \<open>
  One step is one section under the lock, in any order. Between two steps the rest of the server may
  change its tables and queues in any way (\<open>ServerChanges\<close>); a request is checked against the tables
  as they were at some earlier moment, \<open>w0\<close>.
\<close>

datatype coordinator_op =
    RequestOp readings ControlSessionGuard RendezvousEnvelope server
  | DecisionOp readings AuthenticatedClient RendezvousEnvelope ProviderDecision
  | ForwardOp readings AuthenticatedClient RendezvousEnvelope "bytes option"
  | CloseOp readings AuthenticatedClient RendezvousEnvelope
  | RemoveOp AuthenticatedClient
  | ExpireOp u64
  | FlushOp nat
  | RelayOp readings AuthenticatedClient PeerRelayFrame
  | ServerChanges server

fun coordinator_step ::
  "postcard \<Rightarrow> 'a primitives_scheme \<Rightarrow> RendezvousCoordinator \<Rightarrow> CoordinatorState \<times> server \<Rightarrow> coordinator_op \<Rightarrow> CoordinatorState \<times> server" where
  "coordinator_step pc c self (state, w) (RequestOp rd authenticated envelope w0) =
     (case request_checks pc self rd authenticated envelope w0 of
        Inl _ \<Rightarrow> (state, w)
      | Inr (export, consumer, provider, rendezvous_state, _) \<Rightarrow>
          snd (request_section self rd envelope export consumer provider rendezvous_state state w))"
| "coordinator_step pc c self (state, w) (DecisionOp rd identity envelope decision) =
     snd (decision_section rd identity envelope decision state w)"
| "coordinator_step pc c self (state, w) (ForwardOp rd identity envelope digest) =
     snd (forward_section c rd identity envelope digest state w)"
| "coordinator_step pc c self (state, w) (CloseOp rd identity envelope) = snd (close_section rd identity envelope state w)"
| "coordinator_step pc c self (state, w) (RemoveOp identity) = (snd (remove_section identity state), w)"
| "coordinator_step pc c self (state, w) (ExpireOp now) = (snd (expire_loop EXPIRY_MAINTENANCE_BATCH now state), w)"
| "coordinator_step pc c self (state, w) (FlushOp now) = flush_observability_due c now state w"
| "coordinator_step pc c self (state, w) (RelayOp rd identity frame) = snd (relay_section pc rd identity frame state w)"
| "coordinator_step pc c self (state, w) (ServerChanges w') = (state, w')"

definition names_ok :: "server \<Rightarrow> bool" where
  "names_ok w \<longleftrightarrow> list_all (\<lambda>(name, r). sr_client (runtime_at w r) = name) (rg_by_name (sv_state w))"

fun op_ok :: "coordinator_op \<Rightarrow> bool" where
  "op_ok (RequestOp _ _ _ w0) = names_ok w0"
| "op_ok _ = True"

text \<open>The tables of the registry satisfy what is asked of them here.\<close>

lemma registry_names_ok:
  assumes "new_with_relay_limits a b c d e f g h i j = Inr (self, w0)"
    and "sy = foldl (registry_step self) (registry_start w0) ops"
  shows "names_ok (sy_server sy)"
proof -
  have m: "tables_match (cr_max_clients self) (sy_server sy) (owners sy)"
    by (rule system_inv_reachable [OF assms, unfolded system_inv_def])
  have "sr_client (runtime_at (sy_server sy) r) = n" if "(n, r) \<in> set (rg_by_name (sv_state (sy_server sy)))" for n r
  proof -
    have "(n, r) \<in> name_entry ` set (owners sy)" using that tables_matchD(9) [OF m] by simp
    then obtain i where "(i, r) \<in> set (owners sy)" "ac_name i = n" by (auto simp: name_entry_def)
    with tables_matchD(5) [OF m, of i r] show ?thesis by (auto simp: session_identity_def)
  qed
  then show ?thesis by (auto simp: names_ok_def list_all_iff)
qed

text \<open>What it takes to pass a chain of checks.\<close>

lemma passed_iff:
  "(if b then Inl e else r) = Inr x \<longleftrightarrow> \<not> b \<and> r = Inr x"
  "(case s of Inl e \<Rightarrow> Inl (g e) | Inr y \<Rightarrow> f y) = Inr z \<longleftrightarrow> (\<exists>y. s = Inr y \<and> f y = Inr z)"
  by (auto split: sum.splits)

lemma names_okD: "names_ok w \<Longrightarrow> map_of (rg_by_name (sv_state w)) name = Some r \<Longrightarrow> sr_client (runtime_at w r) = name"
  by (drule map_of_SomeD) (auto simp: names_ok_def list_all_iff)

lemma request_checks_owners:
  assumes "request_checks pc self rd gd envelope w0 = Inr (export, consumer, provider, rs, message)" and "names_ok w0"
  shows "so_name provider = env_target envelope" "so_name consumer = ac_name (cg_identity gd)" "so_name consumer \<noteq> so_name provider"
    and "rs_session_id rs = env_session_id envelope"
proof -
  obtain p where p: "active_control_session w0 (env_target envelope) = Some p" "provider = owner_from_active p"
      "consumer = owner_from_control w0 gd" "env_target envelope \<noteq> ac_name (cg_identity gd)"
      "Rendezvous_State.request (RendezvousState_new (env_session_id envelope)) (env_step envelope) (env_generation envelope) = Inr rs"
    using assms(1) by (cases "env_payload envelope") (auto simp: request_checks_def result_simps passed_iff)
  have "ac_name (acs_identity p) = env_target envelope"
    using p(1) names_okD [OF assms(2)] by (auto simp: active_control_session_def Let_def split: option.splits if_splits)
  then show "so_name provider = env_target envelope" "so_name consumer = ac_name (cg_identity gd)" "so_name consumer \<noteq> so_name provider"
    using p by (auto simp: owner_from_active_def owner_from_control_def)
  show "rs_session_id rs = env_session_id envelope"
    using p(5) by (auto simp: request_def RendezvousState_new_def result_simps split: if_splits)
qed

subsection \<open>Accounting\<close>

definition uses :: "string \<Rightarrow> SessionRecord \<Rightarrow> nat" where
  "uses d r = (if fst (record_devices r) = d then 1 else 0) + (if snd (record_devices r) = d then 1 else 0)"

definition expiry_of :: "ExpiryEntry \<Rightarrow> SessionId \<times> u64" where
  "expiry_of e = (ee_session_id e, ee_expires_unix_secs e)"

definition deadline :: "SessionId \<times> SessionRecord \<Rightarrow> SessionId \<times> u64" where
  "deadline x = (fst x, record_expires (snd x))"

definition session_ok :: "SessionId \<times> SessionRecord \<Rightarrow> bool" where
  "session_ok x \<longleftrightarrow> fst (record_devices (snd x)) \<noteq> snd (record_devices (snd x)) \<and>
     (\<forall>session. snd x = Active session \<longrightarrow> rsm_session_id (st_metadata session) = fst x \<and> rs_session_id (st_state session) = fst x \<and>
        rsm_consumer (st_metadata session) = so_name (st_consumer session) \<and>
        rsm_provider (st_metadata session) = so_name (st_provider session))"

definition coordinator_inv :: "RendezvousLimits \<Rightarrow> CoordinatorState \<Rightarrow> bool" where
  "coordinator_inv limits state \<longleftrightarrow>
     hm_ok (co_sessions state) \<and> hm_ok (co_device_counts state) \<and>
     (\<forall>d. hm_get_or 0 (co_device_counts state) d = hm_total (uses d) (co_sessions state)) \<and>
     (\<forall>d. hm_total (uses d) (co_sessions state) \<le> rl_max_sessions_per_device limits) \<and>
     length (co_sessions state) \<le> rl_max_sessions limits \<and>
     mset (map expiry_of (co_expiry state)) = mset (map deadline (co_sessions state)) \<and>
     sorted (map expiry_key (co_expiry state)) \<and> list_all session_ok (co_sessions state)"

lemma coordinator_invD:
  assumes "coordinator_inv limits state"
  shows "hm_ok (co_sessions state)" "hm_ok (co_device_counts state)"
    and "hm_get_or 0 (co_device_counts state) d = hm_total (uses d) (co_sessions state)"
    and "hm_total (uses d) (co_sessions state) \<le> rl_max_sessions_per_device limits"
    and "length (co_sessions state) \<le> rl_max_sessions limits"
    and "mset (map expiry_of (co_expiry state)) = mset (map deadline (co_sessions state))"
    and "sorted (map expiry_key (co_expiry state))" and "list_all session_ok (co_sessions state)"
  using assms unfolding coordinator_inv_def by auto

lemma inv_default: "coordinator_inv limits CoordinatorState_default"
  by (simp add: coordinator_inv_def CoordinatorState_default_def hm_get_or_def)

text \<open>A record may be replaced by one of the same devices and deadline.\<close>

definition same_record :: "SessionRecord \<Rightarrow> SessionRecord \<Rightarrow> bool" where
  "same_record r r' \<longleftrightarrow> record_devices r' = record_devices r \<and> record_expires r' = record_expires r"

lemma inv_replace:
  assumes inv: "coordinator_inv limits state" and old: "map_of (co_sessions state) sid = Some r"
    and new: "same_record r r'" "session_ok (sid, r')"
  shows "coordinator_inv limits (state\<lparr>co_sessions := hm_insert sid r' (co_sessions state)\<rparr>)"
proof -
  note m = mset_insert_present [OF coordinator_invD(1) [OF inv] old, of r']
  have "uses d r' = uses d r" for d using new(1) by (simp add: uses_def same_record_def)
  then have t: "hm_total (uses d) (hm_insert sid r' (co_sessions state)) = hm_total (uses d) (co_sessions state)" for d
    using hm_total_update [OF coordinator_invD(1) [OF inv], of "uses d" sid r'] old by simp
  have "mset (map deadline (hm_insert sid r' (co_sessions state))) = mset (map deadline (co_sessions state))"
    using m new(1) by (simp add: deadline_def same_record_def)
  moreover have "list_all session_ok (hm_insert sid r' (co_sessions state))"
    using m coordinator_invD(8) [OF inv] new(2) by (metis (no_types, lifting) list_all_iff set_mset_add_mset_insert set_mset_mset insert_iff)
  ultimately show ?thesis using inv old t by (simp add: coordinator_inv_def length_hm_insert)
qed

lemma active_session_iff: "active_session state sid = Some session \<longleftrightarrow> map_of (co_sessions state) sid = Some (Active session)"
  by (auto simp: active_session_def Option.bind_eq_Some_conv) (metis option.inject record_active.elims option.discI)

lemma session_ok_present: "coordinator_inv limits state \<Longrightarrow> map_of (co_sessions state) sid = Some r \<Longrightarrow> session_ok (sid, r)"
  using coordinator_invD(8) by (fastforce simp: list_all_iff dest: map_of_SomeD)

definition same_session :: "StoredSession \<Rightarrow> StoredSession \<Rightarrow> bool" where
  "same_session s s' \<longleftrightarrow> st_consumer s' = st_consumer s \<and> st_provider s' = st_provider s \<and>
     st_metadata s' = (st_metadata s)\<lparr>rsm_protocol := rsm_protocol (st_metadata s')\<rparr> \<and>
     rs_session_id (st_state s') = rs_session_id (st_state s)"

lemma same_session_refl [simp]: "same_session s s"
  by (simp add: same_session_def)

lemma same_session_trans: "same_session s s' \<Longrightarrow> same_session s' s'' \<Longrightarrow> same_session s s''"
  by (auto simp: same_session_def) (metis RendezvousSessionMetadata.surjective RendezvousSessionMetadata.update_convs(5))

lemma same_session_metadata:
  "same_session s s' \<Longrightarrow> rsm_expires_unix_secs (st_metadata s') = rsm_expires_unix_secs (st_metadata s)"
  "same_session s s' \<Longrightarrow> rsm_session_id (st_metadata s') = rsm_session_id (st_metadata s)"
  "same_session s s' \<Longrightarrow> rsm_consumer (st_metadata s') = rsm_consumer (st_metadata s)"
  "same_session s s' \<Longrightarrow> rsm_provider (st_metadata s') = rsm_provider (st_metadata s)"
  unfolding same_session_def
  by (metis RendezvousSessionMetadata.select_convs RendezvousSessionMetadata.surjective RendezvousSessionMetadata.update_convs(5))+

lemma inv_put_session:
  assumes "coordinator_inv limits state" and "active_session state sid = Some s" and "same_session s s'"
  shows "coordinator_inv limits (put_session sid s' state)"
proof -
  have r: "map_of (co_sessions state) sid = Some (Active s)" using assms(2) by (simp add: active_session_iff)
  from same_session_metadata [OF assms(3)] assms(3) session_ok_present [OF assms(1) r] have "same_record (Active s) (Active s')" "session_ok (sid, Active s')"
    by (auto simp: same_record_def session_ok_def same_session_def)
  then show ?thesis unfolding put_session_def by (rule inv_replace [OF assms(1) r])
qed

lemma hm_insert_removed: "hm_ok m \<Longrightarrow> mset (hm_insert k v (hm_remove k m)) = add_mset (k, v) (mset (hm_remove k m))"
  by (simp add: hm_insert_absent)

lemma inv_tombstone:
  assumes inv: "coordinator_inv limits state"
  shows "coordinator_inv limits (snd (tombstone_session state sid))"
proof (cases "map_of (co_sessions state) sid")
  case (Some r)
  define r' where "r' = (case r of Active s \<Rightarrow> Tombstone (tombstone_from_session s) | Tombstone t \<Rightarrow> Tombstone t)"
  have t: "snd (tombstone_session state sid) = state\<lparr>co_sessions := hm_insert sid r' (hm_remove sid (co_sessions state))\<rparr>"
    by (simp add: tombstone_session_def Some r'_def split: SessionRecord.split)
  have r': "same_record r r'" "session_ok (sid, r')"
    using session_ok_present [OF inv Some]
    by (auto simp: r'_def same_record_def session_ok_def tombstone_from_session_def split: SessionRecord.splits)
  have i: "coordinator_inv limits (state\<lparr>co_sessions := hm_insert sid r' (co_sessions state)\<rparr>)"
    by (rule inv_replace [OF inv Some r'])
  have m: "mset (hm_insert sid r' (hm_remove sid (co_sessions state))) = mset (hm_insert sid r' (co_sessions state))"
    using mset_insert_present [OF coordinator_invD(1) [OF inv] Some, of r'] hm_insert_removed [OF coordinator_invD(1) [OF inv], of sid r'] by simp
  have "hm_total f (hm_insert sid r' (hm_remove sid (co_sessions state))) = hm_total f (hm_insert sid r' (co_sessions state))" for f
    unfolding hm_total_def by (subst (1 2) sum_mset_sum_list [symmetric]) (simp add: m)
  moreover have "length (hm_insert sid r' (hm_remove sid (co_sessions state))) = length (hm_insert sid r' (co_sessions state))"
    using m by (metis size_mset)
  moreover have "mset (map deadline (hm_insert sid r' (hm_remove sid (co_sessions state)))) = mset (map deadline (hm_insert sid r' (co_sessions state)))"
    using m by simp
  moreover have "list_all session_ok (hm_insert sid r' (hm_remove sid (co_sessions state)))"
    using mset_eq_setD [OF m] coordinator_invD(8) [OF i] unfolding list_all_iff by simp
  ultimately show ?thesis using i hm_ok_insert [OF hm_ok_remove [OF coordinator_invD(1) [OF inv]]]
    by (simp add: t coordinator_inv_def)
qed (simp add: tombstone_session_def inv)

lemma get_or_increment: "hm_get_or 0 (increment_device_count d m) e = hm_get_or 0 m e + (if d = e then 1 else 0)"
  by (simp add: increment_device_count_def hm_get_or_def split: option.split)

lemma get_or_decrement: "hm_get_or 0 (decrement_device_count d m) e = hm_get_or 0 m e - (if d = e then 1 else 0)"
  by (auto simp: decrement_device_count_def hm_get_or_def split: option.split)

lemma counts_ok [simp]:
  "hm_ok m \<Longrightarrow> hm_ok (increment_device_count d m)" "hm_ok m \<Longrightarrow> hm_ok (decrement_device_count d m)"
  by (simp_all add: increment_device_count_def decrement_device_count_def split: option.split)

lemma inv_request_section:
  assumes inv: "coordinator_inv (rco_limits self) state" and names: "so_name consumer \<noteq> so_name provider"
    and rs: "rs_session_id rs = env_session_id envelope"
    and sec: "request_section self rd envelope export consumer provider rs state w = (res, state', w')"
  shows "coordinator_inv (rco_limits self) state' \<and> (state' = state \<or> (\<exists>b. map_of (co_sessions state) (env_session_id envelope) = None \<and>
    co_sessions state' = co_sessions state @ [(env_session_id envelope, Active (new_session rd b envelope export consumer provider rs))]))"
proof (cases "state' = state")
  case False
  obtain permit w1 where p: "reserve_to provider w = (Inr permit, w1)"
    using sec False by (auto simp: request_section_def split: if_splits prod.splits sum.splits)
  let ?sid = "env_session_id envelope" and ?s = "new_session rd (observability_enabled w1) envelope export consumer provider rs"
  have free: "map_of (co_sessions state) ?sid = None" and lim: "length (co_sessions state) < rl_max_sessions (rco_limits self)"
    "hm_get_or 0 (co_device_counts state) (so_name consumer) < rl_max_sessions_per_device (rco_limits self)"
    "hm_get_or 0 (co_device_counts state) (so_name provider) < rl_max_sessions_per_device (rco_limits self)"
    using sec False by (auto simp: request_section_def split: if_splits)
  let ?e = "\<lparr>ee_expires_unix_secs = env_expires_unix_secs envelope, ee_session_id = ?sid\<rparr>"
  have st: "state' = \<lparr>co_sessions = hm_insert ?sid (Active ?s) (co_sessions state),
      co_device_counts = increment_device_count (so_name provider) (increment_device_count (so_name consumer) (co_device_counts state)),
      co_expiry = insort_key expiry_key ?e (co_expiry state)\<rparr>"
    using sec False free lim by (auto simp: request_section_def p split: if_splits)
  have u: "uses d (Active ?s) = (if so_name consumer = d then 1 else 0) + (if so_name provider = d then 1 else 0)" for d
    by (simp add: uses_def new_session_def)
  have ok: "session_ok (?sid, Active ?s)" using names rs by (simp add: session_ok_def new_session_def)
  have total: "hm_total (uses d) (hm_insert ?sid (Active ?s) (co_sessions state)) = hm_total (uses d) (co_sessions state) + uses d (Active ?s)" for d
    by (rule hm_total_insert_absent [OF free])
  have "mset (map expiry_of (insort_key expiry_key ?e (co_expiry state))) = mset (map deadline (hm_insert ?sid (Active ?s) (co_sessions state)))"
    using coordinator_invD(6) [OF inv] by (simp add: mset_insort hm_insert_absent [OF free] expiry_of_def deadline_def new_session_def)
  moreover have "hm_total (uses d) (co_sessions state) + uses d (Active ?s) \<le> rl_max_sessions_per_device (rco_limits self)" for d
    using coordinator_invD(3) [OF inv, of "so_name consumer"] coordinator_invD(3) [OF inv, of "so_name provider"]
      coordinator_invD(4) [OF inv, of d] lim names by (auto simp: u)
  moreover have "hm_get_or 0 (increment_device_count (so_name provider) (increment_device_count (so_name consumer) (co_device_counts state))) d =
      hm_total (uses d) (co_sessions state) + uses d (Active ?s)" for d
    using coordinator_invD(3) [OF inv, of d] by (simp add: get_or_increment u)
  moreover have "list_all session_ok (hm_insert ?sid (Active ?s) (co_sessions state))"
    using coordinator_invD(8) [OF inv] ok by (simp add: hm_insert_absent [OF free])
  moreover have "sorted (map expiry_key (insort_key expiry_key ?e (co_expiry state)))"
    using coordinator_invD(7) [OF inv] by (simp add: sorted_insort_key)
  moreover have "length (hm_insert ?sid (Active ?s) (co_sessions state)) \<le> rl_max_sessions (rco_limits self)"
    using lim(1) by (simp add: length_insert_absent [OF free])
  ultimately have "coordinator_inv (rco_limits self) state'"
    using hm_ok_insert [OF coordinator_invD(1) [OF inv], of ?sid "Active ?s"] counts_ok(1) [OF counts_ok(1) [OF coordinator_invD(2) [OF inv]]]
    unfolding coordinator_inv_def st CoordinatorState.select_convs total by blast
  then show ?thesis using free by (auto simp: st hm_insert_absent)
qed (use inv in simp)

text \<open>The head of the expiry queue is the record that expires first.\<close>

lemma expiry_head:
  assumes inv: "coordinator_inv limits state" and e: "co_expiry state = e # rest"
  obtains r where "map_of (co_sessions state) (ee_session_id e) = Some r" "record_expires r = ee_expires_unix_secs e"
proof -
  have "expiry_of e \<in> set (map deadline (co_sessions state))"
    using coordinator_invD(6) [OF inv] e by (metis list.set_intros(1) list.simps(9) mset_eq_setD)
  then obtain r where "(ee_session_id e, r) \<in> set (co_sessions state)" "record_expires r = ee_expires_unix_secs e"
    by (auto simp: expiry_of_def deadline_def)
  then show thesis using that hm_ok_in_set [OF coordinator_invD(1) [OF inv]] by metis
qed

lemma inv_expire_one:
  assumes inv: "coordinator_inv limits state" and e: "co_expiry state = e # rest"
    and r: "map_of (co_sessions state) (ee_session_id e) = Some r" "record_expires r = ee_expires_unix_secs e"
  shows "coordinator_inv limits (state\<lparr>co_expiry := rest, co_sessions := hm_remove (ee_session_id e) (co_sessions state),
    co_device_counts := decrement_record_counts r (co_device_counts state)\<rparr>)"
proof -
  let ?m = "hm_remove (ee_session_id e) (co_sessions state)"
  note h = coordinator_invD(1) [OF inv]
  have t: "hm_total (uses d) (co_sessions state) = uses d r + hm_total (uses d) ?m" for d by (rule hm_total_remove [OF h r(1)])
  have "mset (co_sessions state) = add_mset (ee_session_id e, r) (mset ?m)"
    using mset_insert_present [OF h r(1)] by blast
  then have "mset (map deadline (co_sessions state)) = add_mset (expiry_of e) (mset (map deadline ?m))"
    using r(2) by (simp add: deadline_def expiry_of_def)
  then have "mset (map expiry_of rest) = mset (map deadline ?m)" using coordinator_invD(6) [OF inv] e by simp
  moreover have "hm_get_or 0 (decrement_record_counts r (co_device_counts state)) d = hm_total (uses d) ?m" for d
    using t [of d] coordinator_invD(3) [OF inv, of d] by (simp add: decrement_record_counts_def split_beta get_or_decrement uses_def)
  moreover have "length ?m \<le> rl_max_sessions limits"
    using length_hm_remove_le [of "ee_session_id e" "co_sessions state"] coordinator_invD(5) [OF inv] by linarith
  moreover have "hm_total (uses d) ?m \<le> rl_max_sessions_per_device limits" for d using t [of d] coordinator_invD(4) [OF inv, of d] by simp
  moreover have "list_all session_ok ?m" using coordinator_invD(8) [OF inv] by (auto simp: list_all_iff hm_remove_def)
  ultimately show ?thesis using inv e by (simp add: coordinator_inv_def decrement_record_counts_def split_beta)
qed

definition expired :: "u64 \<Rightarrow> CoordinatorState \<Rightarrow> nat" where
  "expired now state = length (filter (\<lambda>x. record_expires (snd x) \<le> now) (co_sessions state))"

lemma size_filter_map: "size (filter_mset P (mset (map f xs))) = length (filter (\<lambda>x. P (f x)) xs)"
  by (induction xs) auto

lemma expired_queue:
  assumes "coordinator_inv limits state"
  shows "expired now state = length (filter (\<lambda>e. ee_expires_unix_secs e \<le> now) (co_expiry state))"
  using arg_cong [OF coordinator_invD(6) [OF assms], of "\<lambda>m. size (filter_mset (\<lambda>x. snd x \<le> now) m)"]
  unfolding size_filter_map by (simp add: expired_def expiry_of_def deadline_def)

lemma expire_loop_spec:
  assumes "coordinator_inv limits state" and "expire_loop n now state = (removed, state')"
  shows "coordinator_inv limits state' \<and> expired now state' = expired now state - n \<and>
    filter (\<lambda>x. record_expires (snd x) > now) (co_sessions state') = filter (\<lambda>x. record_expires (snd x) > now) (co_sessions state) \<and>
    (\<forall>sid r. map_of (co_sessions state') sid = Some r \<longrightarrow> map_of (co_sessions state) sid = Some r)"
  using assms
proof (induction n arbitrary: state removed)
  case (Suc n)
  show ?case
  proof (cases "co_expiry state")
    case Nil
    then show ?thesis using Suc.prems expired_queue [OF Suc.prems(1), of now] by auto
  next
    case (Cons e rest)
    show ?thesis
    proof (cases "ee_expires_unix_secs e > now")
      case True
      have "ee_expires_unix_secs f > now" if "f \<in> set (co_expiry state)" for f
        using coordinator_invD(7) [OF Suc.prems(1)] Cons True that
        by (auto simp: expiry_key_def less_eq_prod_def less_le_trans)
      then have "expired now state = 0" by (auto simp: expired_queue [OF Suc.prems(1)] filter_empty_conv not_le)
      then show ?thesis using Suc.prems Cons True by auto
    next
      case False
      obtain r where r: "map_of (co_sessions state) (ee_session_id e) = Some r" "record_expires r = ee_expires_unix_secs e"
        using expiry_head [OF Suc.prems(1) Cons] by blast
      define state1 where "state1 = state\<lparr>co_expiry := rest, co_sessions := hm_remove (ee_session_id e) (co_sessions state),
        co_device_counts := decrement_record_counts r (co_device_counts state)\<rparr>"
      have i: "coordinator_inv limits state1" unfolding state1_def by (rule inv_expire_one [OF Suc.prems(1) Cons r])
      obtain rem where l: "expire_loop n now state1 = (rem, state')"
        using Suc.prems(2) Cons False r by (auto simp: Let_def state1_def split: prod.splits)
      have "co_expiry state1 = rest" by (simp add: state1_def)
      then have x: "expired now state = Suc (expired now state1)"
        using False Cons by (simp add: expired_queue [OF i] expired_queue [OF Suc.prems(1)] not_less)
      have "filter (\<lambda>x. record_expires (snd x) > now) (co_sessions state1) = filter (\<lambda>x. record_expires (snd x) > now) (co_sessions state)"
        using r False hm_ok_in_set [OF coordinator_invD(1) [OF Suc.prems(1)]]
        by (auto simp: state1_def hm_remove_def split_beta intro!: filter_cong)
      moreover have "map_of (co_sessions state1) sid = Some r' \<Longrightarrow> map_of (co_sessions state) sid = Some r'" for sid r'
        by (auto simp: state1_def split: if_splits)
      ultimately show ?thesis using Suc.IH [OF i l] x by auto
    qed
  qed
qed auto

text \<open>What the other sections do to the record of their session.\<close>

lemma path_same: "same_session s (snd (apply_path c rd plan s))"
  by (simp add: apply_path_def same_session_def Let_def split: option.split)

lemma updates_same:
  "same_session s (apply_relay plan s)" "same_session s (apply_digest i d s)" "same_session s (apply_generation rd plan s)"
  "same_session s (observe_relay_frame i n s)" "same_session s (s\<lparr>st_relay := r\<rparr>)"
  "rs_session_id n' = rs_session_id (st_state s) \<Longrightarrow> same_session s (s\<lparr>st_state := n'\<rparr>)"
  by (simp_all add: apply_relay_def apply_digest_def apply_generation_def observe_relay_frame_def same_session_def Let_def
      split: option.split prod.split SessionPath.split)

lemma forward_check_session:
  assumes "forward_check rd b i envelope state = Inr plan"
  shows "\<exists>s. active_session state (env_session_id envelope) = Some s \<and> rs_session_id (fp_next plan) = rs_session_id (st_state s) \<and>
    other_participant s i (env_target envelope) = Inr (fp_target plan) \<and>
    relay_check (participant_bit s i) envelope s = Inr (fp_relay_update plan) \<and> rsm_protocol (st_metadata s) \<noteq> None \<and>
    rsm_expires_unix_secs (st_metadata s) > rd_secs rd"
proof -
  obtain s n gu n2 ru op where s: "active_session state (env_session_id envelope) = Some s"
      "other_participant s i (env_target envelope) = Inr (fp_target plan)"
      "generation_check rd (participant_bit s i) envelope s = Inr (n, gu)"
      "accept_metadata n (env_session_id envelope) (env_step envelope) (env_generation envelope)
         (env_expires_unix_secs envelope) (rd_metadata_secs rd) = Inr n2"
      "relay_check (participant_bit s i) envelope s = Inr (fp_relay_update plan)" "fp_next plan = n2"
      "rsm_protocol (st_metadata s) \<noteq> None" "\<not> rsm_expires_unix_secs (st_metadata s) \<le> rd_secs rd"
    using assms by (auto simp: forward_check_def result_simps passed_iff split: prod.splits)
  have "rs_session_id n = rs_session_id (st_state s)"
    using s(3) by (auto simp: generation_check_def Let_def passed_iff advance_generation_def result_simps
        split: RendezvousPayload.splits if_splits)
  moreover have "rs_session_id n2 = rs_session_id n"
    using s(4) by (auto simp: accept_metadata_def advance_step_def result_simps passed_iff)
  ultimately show ?thesis using s by (auto simp: not_le)
qed

lemma inv_forward_section:
  assumes inv: "coordinator_inv limits state" and sec: "forward_section c rd i envelope d state w = (res, state', w')"
  shows "coordinator_inv limits state'"
proof (cases "state' = state")
  case False
  obtain plan permit w1 s where p: "forward_check rd (observability_enabled w) i envelope state = Inr plan"
      "reserve_to (fp_target plan) w = (Inr permit, w1)" "active_session state (env_session_id envelope) = Some s"
    using sec False by (auto simp: forward_section_def split: sum.splits prod.splits option.splits)
  define s1 where "s1 = apply_digest i d (apply_generation rd plan (s\<lparr>st_state := fp_next plan\<rparr>))"
  have st: "state' = put_session (env_session_id envelope) (snd (apply_path c rd plan (apply_relay plan s1))) state"
    using sec p by (auto simp: forward_section_def s1_def Let_def split: prod.splits option.splits)
  have "same_session s (s\<lparr>st_state := fp_next plan\<rparr>)"
    using forward_check_session [OF p(1)] p(3) by (auto intro: updates_same)
  then have "same_session s s1" unfolding s1_def by (meson same_session_trans updates_same(2,3))
  then have "same_session s (snd (apply_path c rd plan (apply_relay plan s1)))"
    by (meson same_session_trans updates_same(1) path_same)
  then show ?thesis unfolding st by (rule inv_put_session [OF inv p(3)])
qed (use inv in simp)

lemma decision_section_result:
  assumes "decision_section rd i envelope decision state w = (res, state', w')"
  shows "state' = state \<or> (\<exists>s s'. active_session state (env_session_id envelope) = Some s \<and> same_session s s' \<and>
    st_relay s' = st_relay s \<and> owner_matches (st_provider s) i \<and>
    (state' = put_session (env_session_id envelope) s' state \<or>
     state' = snd (tombstone_session (put_session (env_session_id envelope) s' state) (env_session_id envelope))))"
proof (cases "state' = state")
  case False
  then obtain s n where s: "active_session state (env_session_id envelope) = Some s" "owner_matches (st_provider s) i"
      "Rendezvous_State.provider_decision (st_state s) (env_step envelope) (env_generation envelope) (pd_accepted decision) = Inr n"
      and st: "state' = (let s1 = s\<lparr>st_state := n\<rparr>;
          s2 = (if pd_accepted decision then s1\<lparr>st_metadata := (st_metadata s1)\<lparr>rsm_protocol := pd_protocol decision\<rparr>\<rparr> else s1);
          state1 = put_session (env_session_id envelope) s2 state
        in if \<not> pd_accepted decision then snd (tombstone_session state1 (env_session_id envelope)) else state1)"
    using assms by (auto simp: decision_section_def Let_def result_simps passed_iff split: sum.splits prod.splits)
  define s' where "s' = (if pd_accepted decision then s\<lparr>st_state := n, st_metadata := (st_metadata s)\<lparr>rsm_protocol := pd_protocol decision\<rparr>\<rparr>
    else s\<lparr>st_state := n\<rparr>)"
  have "rs_session_id n = rs_session_id (st_state s)"
    using s(3) by (auto simp: provider_decision_def result_simps passed_iff)
  then have "same_session s s'" "st_relay s' = st_relay s" by (simp_all add: s'_def same_session_def)
  moreover have "state' = put_session (env_session_id envelope) s' state \<or>
      state' = snd (tombstone_session (put_session (env_session_id envelope) s' state) (env_session_id envelope))"
    by (simp add: st s'_def Let_def)
  ultimately show ?thesis using s by blast
qed simp

lemma close_section_result:
  assumes "close_section rd i envelope state w = (res, state', w')"
  shows "state' = state \<or> (\<exists>s s'. active_session state (env_session_id envelope) = Some s \<and> same_session s s' \<and>
    state' = snd (tombstone_session (put_session (env_session_id envelope) s' state) (env_session_id envelope)))"
proof (cases "state' = state")
  case False
  then obtain s n where s: "active_session state (env_session_id envelope) = Some s"
      "accept_metadata (st_state s) (env_session_id envelope) (env_step envelope) (env_generation envelope)
         (env_expires_unix_secs envelope) (rd_metadata_secs rd) = Inr n"
      "state' = snd (tombstone_session (put_session (env_session_id envelope) (s\<lparr>st_state := n\<rparr>) state) (env_session_id envelope))"
    using assms by (auto simp: close_section_def Let_def result_simps passed_iff split: sum.splits prod.splits)
  moreover have "rs_session_id n = rs_session_id (st_state s)"
    using s(2) by (auto simp: accept_metadata_def advance_step_def result_simps passed_iff)
  ultimately show ?thesis by (blast intro: updates_same(6))
qed simp

lemma relay_section_result:
  assumes "relay_section pc rd i frame state w = (res, state', w')"
  shows "state' = state \<or> (\<exists>s s'. active_session state (prf_session_id frame) = Some s \<and> same_session s s' \<and>
    rad_requested_by (st_relay s') = rad_requested_by (st_relay s) \<and> co_sessions state' = hm_insert (prf_session_id frame) (Active s') (co_sessions state) \<and>
    co_device_counts state' = co_device_counts state \<and> co_expiry state' = co_expiry state)"
proof (cases "state' = state")
  case False
  then obtain s where s: "map_of (co_sessions state) (prf_session_id frame) = Some (Active s)"
    using assms by (auto simp: relay_section_def split: option.splits SessionRecord.splits if_splits)
  obtain ok r where a: "admit (rd_instant rd) (rd_restart rd) (length (prf_ciphertext frame)) (st_relay s) = (ok, r)" by fastforce
  let ?s1 = "s\<lparr>st_relay := r\<rparr>" and ?s2 = "observe_relay_frame i (length (prf_ciphertext frame)) (s\<lparr>st_relay := r\<rparr>)"
  have r: "rad_requested_by r = rad_requested_by (st_relay s)" using a by (auto simp: admit_def Let_def split: if_splits)
  have o: "st_relay ?s2 = r" by (simp add: observe_relay_frame_def Let_def split: option.split SessionPath.split)
  have "state' = put_session (prf_session_id frame) ?s1 state \<or>
      state' = put_session (prf_session_id frame) ?s2 (put_session (prf_session_id frame) ?s1 state)"
    using assms False s a by (auto simp: relay_section_def Let_def split: sum.splits prod.splits if_splits)
  moreover have "hm_insert k v (hm_insert k v' m) = hm_insert k v m" for k :: SessionId and v v' :: SessionRecord and m
    by (simp add: hm_insert_def)
  moreover have "same_session s ?s1" "same_session s ?s2" using updates_same(4,5) same_session_trans by blast+
  moreover have "rad_requested_by (st_relay ?s1) = rad_requested_by (st_relay s)"
    "rad_requested_by (st_relay ?s2) = rad_requested_by (st_relay s)" using r o by simp_all
  moreover have "active_session state (prf_session_id frame) = Some s" using s by (simp add: active_session_iff)
  ultimately obtain s' where "same_session s s'" "rad_requested_by (st_relay s') = rad_requested_by (st_relay s)"
      "co_sessions state' = hm_insert (prf_session_id frame) (Active s') (co_sessions state)"
      "co_device_counts state' = co_device_counts state" "co_expiry state' = co_expiry state"
      "active_session state (prf_session_id frame) = Some s"
    by (elim disjE) (simp_all add: put_session_def)
  then show ?thesis by blast
qed simp

lemma tombstone_put: "active_session state sid = Some s \<Longrightarrow>
    coordinator_inv limits state \<Longrightarrow> same_session s s' \<Longrightarrow>
    coordinator_inv limits (snd (tombstone_session (put_session sid s' state) sid))"
  by (intro inv_tombstone inv_put_session)

lemma inv_tombstone_all: "coordinator_inv limits state \<Longrightarrow> coordinator_inv limits (snd (tombstone_all sids state))"
  by (induction sids arbitrary: state) (auto simp: split_beta Let_def inv_tombstone)

text \<open>Flushing changes counters only.\<close>

lemma take_p2p_same: "same_session s (snd (take_p2p_traffic c s)\<lparr>st_last_observability_flush := now\<rparr>)"
  "st_relay (snd (take_p2p_traffic c s)) = st_relay s"
  by (simp_all add: take_p2p_traffic_def same_session_def Let_def)

fun keeps_record :: "SessionRecord \<Rightarrow> SessionRecord \<Rightarrow> bool" where
  "keeps_record (Tombstone t) r' \<longleftrightarrow> r' = Tombstone t"
| "keeps_record (Active s) r' \<longleftrightarrow> (\<exists>s'. r' = Active s' \<and> same_session s s' \<and> st_relay s' = st_relay s)"

definition keeps_entry :: "SessionId \<times> SessionRecord \<Rightarrow> SessionId \<times> SessionRecord \<Rightarrow> bool" where
  "keeps_entry x x' \<longleftrightarrow> fst x' = fst x \<and> keeps_record (snd x) (snd x')"

lemma flush_records_same: "list_all2 keeps_entry m (snd (flush_records c now m))"
proof (induction m rule: flush_records.induct [case_names Nil Tombstone Active])
  case (Active c now sid s m)
  then show ?case using take_p2p_same(1) [where s = s and c = c and now = now] take_p2p_same(2) [where s = s and c = c] by (auto simp: Let_def split_beta same_session_def keeps_entry_def)
qed (auto simp: Let_def split_beta keeps_entry_def)

lemma keeps_lookup: "list_all2 keeps_entry m m' \<Longrightarrow> map_of m' k = Some r' \<Longrightarrow> \<exists>r. map_of m k = Some r \<and> keeps_record r r'"
  by (induction m m' rule: list_all2_induct) (auto simp: keeps_entry_def split: if_splits)

lemma keeps_entry_facts:
  assumes "keeps_entry x x'"
  shows "fst x' = fst x" "uses d (snd x') = uses d (snd x)" "deadline x' = deadline x" "session_ok x \<Longrightarrow> session_ok x'"
proof -
  have "fst x' = fst x \<and> record_devices (snd x') = record_devices (snd x) \<and> record_expires (snd x') = record_expires (snd x) \<and>
      (session_ok x \<longrightarrow> session_ok x')"
  proof (cases "snd x")
    case (Active s)
    then obtain s' where "snd x' = Active s'" "same_session s s'" "fst x' = fst x" using assms by (auto simp: keeps_entry_def)
    then show ?thesis using Active same_session_metadata [of s s'] by (simp add: session_ok_def same_session_def)
  next
    case (Tombstone t)
    then have "x' = x" using assms by (simp add: keeps_entry_def prod_eq_iff)
    then show ?thesis by simp
  qed
  then show "fst x' = fst x" "uses d (snd x') = uses d (snd x)" "deadline x' = deadline x" "session_ok x \<Longrightarrow> session_ok x'"
    by (simp_all add: uses_def deadline_def)
qed

lemma keeps_all_facts:
  assumes "list_all2 keeps_entry m m'"
  shows "map fst m' = map fst m \<and> hm_total (uses d) m' = hm_total (uses d) m \<and> map deadline m' = map deadline m \<and> length m' = length m \<and>
    (list_all session_ok m \<longrightarrow> list_all session_ok m')"
  using assms
proof (induction m m' rule: list_all2_induct)
  case (Cons x xs y ys)
  then show ?case using keeps_entry_facts [OF Cons.hyps(1)] by (cases x; cases y) simp
qed simp

lemma inv_flush:
  assumes inv: "coordinator_inv limits state"
  shows "coordinator_inv limits (fst (flush_observability_due c now state w))"
proof -
  note k = keeps_all_facts [OF flush_records_same [of "co_sessions state" c now]]
  have "coordinator_inv limits (state\<lparr>co_sessions := snd (flush_records c now (co_sessions state))\<rparr>)"
    using inv k by (simp add: coordinator_inv_def hm_ok_def del: mset_map)
  then show ?thesis using inv by (simp add: flush_observability_due_def split_beta Let_def)
qed

lemma inv_relay_section:
  assumes inv: "coordinator_inv limits state" and sec: "relay_section pc rd i frame state w = (res, state', w')"
  shows "coordinator_inv limits state'"
  using relay_section_result [OF sec]
proof (elim disjE exE conjE)
  fix s s'
  assume a: "active_session state (prf_session_id frame) = Some s" "same_session s s'"
    "co_sessions state' = hm_insert (prf_session_id frame) (Active s') (co_sessions state)"
    "co_device_counts state' = co_device_counts state" "co_expiry state' = co_expiry state"
  have "state' = put_session (prf_session_id frame) s' state" using a(3-5) by (simp add: put_session_def)
  then show ?thesis using inv_put_session [OF inv a(1,2)] by simp
qed (use inv in simp)

lemma inv_step:
  assumes inv: "coordinator_inv (rco_limits self) state" and ok: "op_ok op"
  shows "coordinator_inv (rco_limits self) (fst (coordinator_step pc c self (state, w) op))"
proof (cases op)
  case (RequestOp rd gd envelope w0)
  show ?thesis
  proof (cases "request_checks pc self rd gd envelope w0")
    case (Inr x)
    then obtain export consumer provider rs message where x: "x = (export, consumer, provider, rs, message)" by (metis prod.exhaust)
    note o = request_checks_owners [OF Inr [unfolded x] ok [unfolded RequestOp op_ok.simps]]
    obtain res state' w' where sec: "request_section self rd envelope export consumer provider rs state w = (res, state', w')"
      using prod_cases3 by blast
    from inv_request_section [OF inv o(3,4) sec] show ?thesis by (simp add: RequestOp Inr x sec)
  qed (use inv in \<open>simp add: RequestOp\<close>)
next
  case (DecisionOp rd i envelope decision)
  obtain res state' w' where sec: "decision_section rd i envelope decision state w = (res, state', w')" using prod_cases3 by blast
  from decision_section_result [OF sec] show ?thesis using inv inv_put_session [OF inv] tombstone_put [OF _ inv]
    by (auto simp: DecisionOp sec)
next
  case (CloseOp rd i envelope)
  obtain res state' w' where sec: "close_section rd i envelope state w = (res, state', w')" using prod_cases3 by blast
  from close_section_result [OF sec] show ?thesis using inv tombstone_put [OF _ inv] by (auto simp: CloseOp sec)
next
  case (ForwardOp rd i envelope d)
  obtain res state' w' where sec: "forward_section c rd i envelope d state w = (res, state', w')" using prod_cases3 by blast
  from inv_forward_section [OF inv sec] show ?thesis by (simp add: ForwardOp sec)
next
  case (RelayOp rd i frame)
  obtain res state' w' where sec: "relay_section pc rd i frame state w = (res, state', w')" using prod_cases3 by blast
  from inv_relay_section [OF inv sec] show ?thesis by (simp add: RelayOp sec)
next
  case (ExpireOp now)
  obtain rem state' where l: "expire_loop EXPIRY_MAINTENANCE_BATCH now state = (rem, state')" by fastforce
  from expire_loop_spec [OF inv l] show ?thesis by (simp add: ExpireOp l)
qed (use inv in \<open>simp_all add: remove_section_def inv_tombstone_all inv_flush\<close>)

interpretation coordinator: invariant_machine "coordinator_step pc c self" op_ok "\<lambda>(state, _). coordinator_inv (rco_limits self) state"
  for pc c self
proof
  fix s :: "CoordinatorState \<times> server" and op
  assume "case s of (state, _) \<Rightarrow> coordinator_inv (rco_limits self) state" and "op_ok op"
  then show "case coordinator_step pc c self s op of (state, _) \<Rightarrow> coordinator_inv (rco_limits self) state"
    using inv_step [of self "fst s" op pc c "snd s"] by (cases s) (simp add: split_beta)
qed

lemma inv_reachable:
  assumes "list_all op_ok ops" and "(state, w) = foldl (coordinator_step pc c self) (CoordinatorState_default, w0) ops"
  shows "coordinator_inv (rco_limits self) state"
  using coordinator.foldl_keep [of self "(CoordinatorState_default, w0)" ops pc c] assms inv_default by (metis (mono_tags, lifting) case_prod_conv)

lemma total_uses:
  "list_all session_ok m \<Longrightarrow>
   hm_total (uses d) m = length (filter (\<lambda>(_, r). d = fst (record_devices r) \<or> d = snd (record_devices r)) m)"
proof (induction m)
  case (Cons x m)
  then show ?case by (cases x) (auto simp: uses_def session_ok_def split: if_splits)
qed simp

text \<open>
  C26 (the coordinator's books are right): after any requests, decisions, forwarded envelopes, closes,
  disconnects, expiries and relayed frames, whatever the rest of the server does in between, the
  counter of a device is the number of records that name it, no limit is exceeded, and the
  expiry queue holds, in order, exactly one entry for each record.
\<close>

theorem coordinator_accounting:
  assumes "list_all op_ok ops" and "(state, w) = foldl (coordinator_step pc c self) (CoordinatorState_default, w0) ops"
  shows "length (co_sessions state) \<le> rl_max_sessions (rco_limits self) \<and>
    hm_get_or 0 (co_device_counts state) d =
      length (filter (\<lambda>(_, r). d = fst (record_devices r) \<or> d = snd (record_devices r)) (co_sessions state)) \<and>
    hm_get_or 0 (co_device_counts state) d \<le> rl_max_sessions_per_device (rco_limits self) \<and>
    sorted (map expiry_key (co_expiry state)) \<and>
    mset (map (\<lambda>e. (ee_session_id e, ee_expires_unix_secs e)) (co_expiry state)) =
      mset (map (\<lambda>(sid, r). (sid, record_expires r)) (co_sessions state)) \<and> distinct (map fst (co_sessions state))"
proof -
  note inv = inv_reachable [OF assms]
  have "expiry_of = (\<lambda>e. (ee_session_id e, ee_expires_unix_secs e))" "deadline = (\<lambda>(sid, r). (sid, record_expires r))"
    by (auto simp: expiry_of_def deadline_def)
  moreover have "hm_get_or 0 (co_device_counts state) d \<le> rl_max_sessions_per_device (rco_limits self)"
    using coordinator_invD(3,4) [OF inv, of d] by simp
  ultimately show ?thesis
    using coordinator_invD [OF inv] total_uses [OF coordinator_invD(8) [OF inv], of d] by (simp add: hm_ok_def del: mset_map)
qed

text \<open>
  Expired records are cleared: as many maintenance passes as the expired records fill batches
  remove all of them and nothing else.
\<close>

theorem expired_records_cleared:
  assumes "list_all op_ok ops" and "(state, w) = foldl (coordinator_step pc c self) (CoordinatorState_default, w0) ops"
    and "expired now state \<le> k * EXPIRY_MAINTENANCE_BATCH"
  shows "co_sessions (((\<lambda>s. snd (expire_loop EXPIRY_MAINTENANCE_BATCH now s)) ^^ k) state) =
    filter (\<lambda>x. record_expires (snd x) > now) (co_sessions state)"
proof -
  let ?f = "\<lambda>s. snd (expire_loop EXPIRY_MAINTENANCE_BATCH now s)"
  have "coordinator_inv (rco_limits self) ((?f ^^ j) state) \<and> expired now ((?f ^^ j) state) = expired now state - j * EXPIRY_MAINTENANCE_BATCH \<and>
      filter (\<lambda>x. record_expires (snd x) > now) (co_sessions ((?f ^^ j) state)) = filter (\<lambda>x. record_expires (snd x) > now) (co_sessions state)" for j
  proof (induction j)
    case (Suc j)
    obtain rem state' where l: "expire_loop EXPIRY_MAINTENANCE_BATCH now ((?f ^^ j) state) = (rem, state')" by fastforce
    from expire_loop_spec [OF conjunct1 [OF Suc] l] Suc show ?case by (simp add: l add.commute)
  qed (simp add: inv_reachable [OF assms(1,2)])
  from this [of k] assms(3) have "expired now ((?f ^^ k) state) = 0"
    and f: "filter (\<lambda>x. record_expires (snd x) > now) (co_sessions ((?f ^^ k) state)) = filter (\<lambda>x. record_expires (snd x) > now) (co_sessions state)"
    by simp_all
  then have "\<forall>x \<in> set (co_sessions ((?f ^^ k) state)). record_expires (snd x) > now" by (auto simp: expired_def filter_empty_conv not_le)
  then have "filter (\<lambda>x. record_expires (snd x) > now) (co_sessions ((?f ^^ k) state)) = co_sessions ((?f ^^ k) state)"
    by (simp add: filter_id_conv)
  then show ?thesis using f by simp
qed

subsection \<open>Where a session comes from\<close>

text \<open>A participant asks for the relay: an accepted or refused step that forwards its relay request.\<close>

fun asks :: "SessionId \<Rightarrow> SessionOwner \<Rightarrow> coordinator_op \<Rightarrow> bool" where
  "asks session_id owner (ForwardOp rd identity envelope digest) \<longleftrightarrow>
     env_session_id envelope = session_id \<and> owner_matches owner identity \<and>
     (case env_payload envelope of PayloadRelayRequest _ \<Rightarrow> True | _ \<Rightarrow> False)"
| "asks session_id owner _ \<longleftrightarrow> False"

text \<open>What a step may add to the participants that have asked for the relay.\<close>

definition relay_gains :: "SessionId \<Rightarrow> coordinator_op \<Rightarrow> StoredSession \<Rightarrow> StoredSession \<Rightarrow> bool" where
  "relay_gains session_id op s s' \<longleftrightarrow>
     (\<forall>n. bit (rad_requested_by (st_relay s')) n \<longrightarrow> bit (rad_requested_by (st_relay s)) n \<or>
        n = 0 \<and> asks session_id (st_consumer s) op \<or> n = 1 \<and> asks session_id (st_provider s) op)"

lemma relay_gains_same: "rad_requested_by (st_relay s') = rad_requested_by (st_relay s) \<Longrightarrow> relay_gains sid op s s'"
  by (simp add: relay_gains_def)

lemma lookup_put_session: "map_of (co_sessions (put_session sid s state)) k = (if k = sid then Some (Active s) else map_of (co_sessions state) k)"
  by (simp add: put_session_def)

lemma lookup_tombstone:
  "map_of (co_sessions (snd (tombstone_session state sid))) k =
     (if k = sid then map_option (\<lambda>r. case r of Active s \<Rightarrow> Tombstone (tombstone_from_session s) | Tombstone t \<Rightarrow> Tombstone t) (map_of (co_sessions state) k)
      else map_of (co_sessions state) k)"
  by (cases "map_of (co_sessions state) sid") (auto simp: tombstone_session_def split: SessionRecord.split)

lemma tombstone_active:
  "map_of (co_sessions (snd (tombstone_session state sid))) k = Some (Active s) \<Longrightarrow> map_of (co_sessions state) k = Some (Active s) \<and> k \<noteq> sid"
  by (cases "map_of (co_sessions state) k") (auto simp: lookup_tombstone split: if_splits SessionRecord.splits)

lemma tombstone_all_active:
  "map_of (co_sessions (snd (tombstone_all sids state))) k = Some (Active s) \<Longrightarrow> map_of (co_sessions state) k = Some (Active s)"
  by (induction sids arbitrary: state) (auto simp: split_beta Let_def dest: tombstone_active)

lemma tombstone_kept:
  "map_of (co_sessions state) k = Some (Tombstone t) \<Longrightarrow> map_of (co_sessions (snd (tombstone_session state sid))) k = Some (Tombstone t)"
  by (auto simp: lookup_tombstone)

lemma tombstone_all_kept:
  "map_of (co_sessions state) k = Some (Tombstone t) \<Longrightarrow> map_of (co_sessions (snd (tombstone_all sids state))) k = Some (Tombstone t)"
  by (induction sids arbitrary: state) (auto simp: split_beta Let_def tombstone_kept)

lemma forward_section_result:
  assumes sec: "forward_section c rd i envelope d state w = (res, state', w')"
  shows "state' = state \<or> (\<exists>s s'. active_session state (env_session_id envelope) = Some s \<and> same_session s s' \<and>
    relay_gains (env_session_id envelope) (ForwardOp rd i envelope d) s s' \<and> state' = put_session (env_session_id envelope) s' state)"
proof (cases "state' = state")
  case False
  obtain plan permit w1 s where p: "forward_check rd (observability_enabled w) i envelope state = Inr plan"
      "reserve_to (fp_target plan) w = (Inr permit, w1)" "active_session state (env_session_id envelope) = Some s"
    using sec False by (auto simp: forward_section_def split: sum.splits prod.splits option.splits)
  define s1 where "s1 = apply_digest i d (apply_generation rd plan (s\<lparr>st_state := fp_next plan\<rparr>))"
  define s2 where "s2 = snd (apply_path c rd plan (apply_relay plan s1))"
  have st: "state' = put_session (env_session_id envelope) s2 state"
    using sec p by (auto simp: forward_section_def s1_def s2_def Let_def split: prod.splits option.splits)
  note f = forward_check_session [OF p(1), unfolded p(3)]
  have "same_session s (s\<lparr>st_state := fp_next plan\<rparr>)" using f by (auto intro: updates_same)
  then have s1: "same_session s s1" unfolding s1_def by (meson same_session_trans updates_same(2,3))
  then have same: "same_session s s2" unfolding s2_def by (meson same_session_trans updates_same(1) path_same)
  have r1: "rad_requested_by (st_relay s1) = rad_requested_by (st_relay s) \<or> rad_requested_by (st_relay s1) = 0"
    by (auto simp: s1_def apply_digest_def apply_generation_def Let_def RelayAdmission_new_def split: option.split prod.split)
  have r2: "rad_requested_by (st_relay s2) = (case fp_relay_update plan of None \<Rightarrow> rad_requested_by (st_relay s1)
      | Some (participant, _) \<Rightarrow> rad_requested_by (st_relay s1) OR participant)"
    by (simp add: s2_def apply_path_def apply_relay_def Let_def split: option.split prod.split)
  have "relay_gains (env_session_id envelope) (ForwardOp rd i envelope d) s s2"
  proof (cases "fp_relay_update plan")
    case None
    then show ?thesis using r1 r2 by (auto simp: relay_gains_def)
  next
    case (Some u)
    then obtain datagram where u: "fp_relay_update plan = Some (participant_bit s i, datagram)"
        "case env_payload envelope of PayloadRelayRequest _ \<Rightarrow> True | _ \<Rightarrow> False"
      using f by (auto simp: relay_check_def split: RendezvousPayload.splits if_splits)
    have "owner_matches (st_consumer s) i \<or> owner_matches (st_provider s) i"
      using f by (auto simp: other_participant_def result_simps split: if_splits)
    then have a: "participant_bit s i = 1 \<and> asks (env_session_id envelope) (st_consumer s) (ForwardOp rd i envelope d) \<or>
        participant_bit s i = 2 \<and> asks (env_session_id envelope) (st_provider s) (ForwardOp rd i envelope d)"
      using u(2) by (auto simp: participant_bit_def)
    have b: "bit (1 :: u8) n \<Longrightarrow> n = 0" "bit (2 :: u8) n \<Longrightarrow> n = 1" for n
      using bit_exp_iff [of 1 n, where 'a = u8] by (simp_all add: bit_1_iff)
    have "bit (rad_requested_by (st_relay s2)) n \<Longrightarrow> bit (rad_requested_by (st_relay s)) n \<or> bit (participant_bit s i) n" for n
      using r1 r2 u(1) by (auto simp: bit_or_iff)
    then show ?thesis using a b unfolding relay_gains_def by metis
  qed
  then show ?thesis using p(3) same st by blast
qed simp

text \<open>An active session after a step is a new one nobody has asked the relay for, or it was there before.\<close>

lemma session_origin:
  assumes inv: "coordinator_inv (rco_limits self) state" and ok: "op_ok op"
    and after: "map_of (co_sessions (fst (coordinator_step pc c self (state, w) op))) sid = Some (Active s')"
  shows "rad_requested_by (st_relay s') = 0 \<or>
    (\<exists>s. map_of (co_sessions state) sid = Some (Active s) \<and> same_session s s' \<and> relay_gains sid op s s')"
proof (cases "map_of (co_sessions state) sid = Some (Active s')")
  case True
  then show ?thesis using relay_gains_same by auto
next
  case changed: False
  show ?thesis
  proof (cases op)
    case (RequestOp rd gd envelope w0)
    then obtain export consumer provider rs message where x: "request_checks pc self rd gd envelope w0 = Inr (export, consumer, provider, rs, message)"
      using after changed by (auto split: sum.splits)
    note o = request_checks_owners [OF x ok [unfolded RequestOp op_ok.simps]]
    obtain res state' w' where sec: "request_section self rd envelope export consumer provider rs state w = (res, state', w')"
      using prod_cases3 by blast
    from inv_request_section [OF inv o(3,4) sec] after changed show ?thesis
      by (auto simp: RequestOp x sec map_add_Some_iff new_session_def RelayAdmission_new_def split: if_splits)
  next
    case (DecisionOp rd i envelope decision)
    obtain res state' w' where sec: "decision_section rd i envelope decision state w = (res, state', w')" using prod_cases3 by blast
    from decision_section_result [OF sec] after changed show ?thesis
      by (auto simp: DecisionOp sec lookup_put_session active_session_iff relay_gains_same split: if_splits dest!: tombstone_active)
  next
    case (CloseOp rd i envelope)
    obtain res state' w' where sec: "close_section rd i envelope state w = (res, state', w')" using prod_cases3 by blast
    from close_section_result [OF sec] after changed show ?thesis
      by (auto simp: CloseOp sec lookup_put_session split: if_splits dest!: tombstone_active)
  next
    case (ForwardOp rd i envelope d)
    obtain res state' w' where sec: "forward_section c rd i envelope d state w = (res, state', w')" using prod_cases3 by blast
    from forward_section_result [OF sec] after changed show ?thesis
      by (auto simp: ForwardOp sec lookup_put_session active_session_iff split: if_splits)
  next
    case (RelayOp rd i frame)
    obtain res state' w' where sec: "relay_section pc rd i frame state w = (res, state', w')" using prod_cases3 by blast
    from relay_section_result [OF sec] after changed show ?thesis
      by (auto simp: RelayOp sec active_session_iff relay_gains_same split: if_splits)
  next
    case (ExpireOp now)
    obtain rem state' where l: "expire_loop EXPIRY_MAINTENANCE_BATCH now state = (rem, state')" by fastforce
    from expire_loop_spec [OF inv l] after changed show ?thesis by (simp add: ExpireOp l)
  next
    case (FlushOp now)
    from after changed have "map_of (snd (flush_records c now (co_sessions state))) sid = Some (Active s')"
      by (auto simp: FlushOp flush_observability_due_def split_beta Let_def split: if_splits)
    from keeps_lookup [OF flush_records_same this] obtain r where "map_of (co_sessions state) sid = Some r" "keeps_record r (Active s')" by blast
    then show ?thesis by (cases r) (auto simp: relay_gains_same)
  qed (use after changed in \<open>auto simp: remove_section_def dest: tombstone_all_active\<close>)
qed

definition asked :: "coordinator_op list \<Rightarrow> CoordinatorState \<Rightarrow> bool" where
  "asked ops state \<longleftrightarrow> (\<forall>sid s. map_of (co_sessions state) sid = Some (Active s) \<longrightarrow>
     (bit (rad_requested_by (st_relay s)) 0 \<longrightarrow> list_ex (asks sid (st_consumer s)) ops) \<and>
     (bit (rad_requested_by (st_relay s)) 1 \<longrightarrow> list_ex (asks sid (st_provider s)) ops))"

lemma asked_step:
  assumes inv: "coordinator_inv (rco_limits self) state" and ok: "op_ok op" and before: "asked ops state"
  shows "asked (ops @ [op]) (fst (coordinator_step pc c self (state, w) op))"
  unfolding asked_def
proof (intro allI impI)
  fix sid s'
  assume "map_of (co_sessions (fst (coordinator_step pc c self (state, w) op))) sid = Some (Active s')"
  from session_origin [OF inv ok this]
  show "(bit (rad_requested_by (st_relay s')) 0 \<longrightarrow> list_ex (asks sid (st_consumer s')) (ops @ [op])) \<and>
      (bit (rad_requested_by (st_relay s')) 1 \<longrightarrow> list_ex (asks sid (st_provider s')) (ops @ [op]))"
  proof (elim disjE exE conjE)
    fix s
    assume s: "map_of (co_sessions state) sid = Some (Active s)" "same_session s s'" "relay_gains sid op s s'"
    have a: "bit (rad_requested_by (st_relay s)) 0 \<Longrightarrow> list_ex (asks sid (st_consumer s)) ops"
      "bit (rad_requested_by (st_relay s)) 1 \<Longrightarrow> list_ex (asks sid (st_provider s)) ops" using before s(1) unfolding asked_def by blast+
    have "st_consumer s' = st_consumer s" "st_provider s' = st_provider s" using s(2) by (simp_all add: same_session_def)
    moreover have "bit (rad_requested_by (st_relay s')) 0 \<Longrightarrow> bit (rad_requested_by (st_relay s)) 0 \<or> asks sid (st_consumer s) op"
      "bit (rad_requested_by (st_relay s')) 1 \<Longrightarrow> bit (rad_requested_by (st_relay s)) 1 \<or> asks sid (st_provider s) op"
      using s(3) unfolding relay_gains_def by (metis zero_neq_one)+
    ultimately show ?thesis using a by auto
  qed simp
qed

lemma asked_reachable:
  assumes "list_all op_ok ops" and "(state, w) = foldl (coordinator_step pc c self) (CoordinatorState_default, w0) ops"
  shows "asked ops state"
  using assms
proof (induction ops arbitrary: state w rule: rev_induct)
  case (snoc op ops)
  obtain state1 w1 where m: "(state1, w1) = foldl (coordinator_step pc c self) (CoordinatorState_default, w0) ops" by (metis surj_pair)
  have ok: "list_all op_ok ops" "op_ok op" using snoc.prems(1) by simp_all
  have st: "state = fst (coordinator_step pc c self (state1, w1) op)" using snoc.prems(2) m by (metis foldl_Cons foldl_Nil foldl_append fst_conv)
  show ?case unfolding st by (rule asked_step [OF inv_reachable [OF ok(1) m] ok(2) snoc.IH [OF ok(1) m]])
qed (simp add: asked_def CoordinatorState_default_def)

text \<open>
  C27 (the relay needs both ends): the server passes a frame on only in a session that its provider
  accepted, to the participant that is not its sender, and only after both participants have
  themselves asked for the relay of that session.
\<close>

theorem relay_needs_both:
  assumes "list_all op_ok ops" and "(state, w) = foldl (coordinator_step pc c self) (CoordinatorState_default, w0) ops"
    and "relay_section pc rd identity frame state w = (RelaySend permit message, state', w')"
  shows "\<exists>s target. map_of (co_sessions state) (prf_session_id frame) = Some (Active s) \<and>
    rs_phase (st_state s) = PhaseAccepted \<and>
    (owner_matches (st_consumer s) identity \<and> target = st_provider s \<or> owner_matches (st_provider s) identity \<and> target = st_consumer s) \<and>
    reserve_to target w = (Inr permit, w') \<and> PeerRelayFrame_to_protocol_message pc frame = Inr message \<and>
    list_ex (asks (prf_session_id frame) (st_consumer s)) ops \<and> list_ex (asks (prf_session_id frame) (st_provider s)) ops"
proof -
  obtain s target where s: "map_of (co_sessions state) (prf_session_id frame) = Some (Active s)"
      "relay_admission_check identity frame s = Inr target" "reserve_to target w = (Inr permit, w')"
      "PeerRelayFrame_to_protocol_message pc frame = Inr message"
    using assms(3) by (auto simp: relay_section_def Let_def split: option.splits SessionRecord.splits sum.splits prod.splits if_splits)
  have t: "rs_phase (st_state s) = PhaseAccepted" "authorized (st_relay s)"
      "owner_matches (st_consumer s) identity \<and> target = st_provider s \<or> owner_matches (st_provider s) identity \<and> target = st_consumer s"
    using s(2) by (auto simp: relay_admission_check_def result_simps split: if_splits option.splits)
  have "bit (3 :: u8) 0" "bit (3 :: u8) 1" by (simp_all add: bit_iff_odd)
  then have "bit (rad_requested_by (st_relay s)) 0" "bit (rad_requested_by (st_relay s)) 1" using t(2) by (simp_all only: authorized_def)
  then have "list_ex (asks (prf_session_id frame) (st_consumer s)) ops" "list_ex (asks (prf_session_id frame) (st_provider s)) ops"
    using asked_reachable [OF assms(1,2)] s(1) unfolding asked_def by blast+
  with s t show ?thesis by blast
qed

subsection \<open>Closed sessions\<close>

text \<open>Only maintenance at or after the session's deadline forgets that it was closed.\<close>

fun clears :: "SessionTombstone \<Rightarrow> coordinator_op \<Rightarrow> bool" where
  "clears t (ExpireOp now) \<longleftrightarrow> to_expires_unix_secs t \<le> now"
| "clears t _ \<longleftrightarrow> False"

lemma tombstone_step:
  assumes inv: "coordinator_inv (rco_limits self) state" and ok: "op_ok op" and keep: "\<not> clears t op"
    and t: "map_of (co_sessions state) sid = Some (Tombstone t)"
  shows "map_of (co_sessions (fst (coordinator_step pc c self (state, w) op))) sid = Some (Tombstone t)"
proof (cases op)
  case (RequestOp rd gd envelope w0)
  show ?thesis
  proof (cases "request_checks pc self rd gd envelope w0")
    case (Inr x)
    then obtain export consumer provider rs message where x: "x = (export, consumer, provider, rs, message)" by (metis prod.exhaust)
    note o = request_checks_owners [OF Inr [unfolded x] ok [unfolded RequestOp op_ok.simps]]
    obtain res state' w' where sec: "request_section self rd envelope export consumer provider rs state w = (res, state', w')"
      using prod_cases3 by blast
    from inv_request_section [OF inv o(3,4) sec] t show ?thesis by (auto simp: RequestOp Inr x sec map_add_Some_iff)
  qed (simp add: RequestOp t)
next
  case (DecisionOp rd i envelope decision)
  obtain res state' w' where sec: "decision_section rd i envelope decision state w = (res, state', w')" using prod_cases3 by blast
  from decision_section_result [OF sec] t show ?thesis
    by (auto simp: DecisionOp sec lookup_put_session lookup_tombstone active_session_iff)
next
  case (CloseOp rd i envelope)
  obtain res state' w' where sec: "close_section rd i envelope state w = (res, state', w')" using prod_cases3 by blast
  from close_section_result [OF sec] t show ?thesis by (auto simp: CloseOp sec lookup_put_session lookup_tombstone active_session_iff)
next
  case (ForwardOp rd i envelope d)
  obtain res state' w' where sec: "forward_section c rd i envelope d state w = (res, state', w')" using prod_cases3 by blast
  from forward_section_result [OF sec] t show ?thesis by (auto simp: ForwardOp sec lookup_put_session active_session_iff)
next
  case (RelayOp rd i frame)
  obtain res state' w' where sec: "relay_section pc rd i frame state w = (res, state', w')" using prod_cases3 by blast
  from relay_section_result [OF sec] t show ?thesis by (auto simp: RelayOp sec active_session_iff)
next
  case (ExpireOp now)
  obtain rem state' where l: "expire_loop EXPIRY_MAINTENANCE_BATCH now state = (rem, state')" by fastforce
  have "(sid, Tombstone t) \<in> set (filter (\<lambda>x. record_expires (snd x) > now) (co_sessions state))"
    using keep t by (auto simp: ExpireOp dest: map_of_SomeD)
  also have "\<dots> = set (filter (\<lambda>x. record_expires (snd x) > now) (co_sessions state'))" using expire_loop_spec [OF inv l] by simp
  finally have "(sid, Tombstone t) \<in> set (co_sessions state')" by simp
  then show ?thesis using hm_ok_in_set [OF coordinator_invD(1)] expire_loop_spec [OF inv l] by (auto simp: ExpireOp l)
next
  case (FlushOp now)
  have "map_of m' k = Some (Tombstone t)" if "list_all2 keeps_entry m m'" "map_of m k = Some (Tombstone t)" for m m' k
    using that by (induction m m' rule: list_all2_induct) (auto simp: keeps_entry_def split: if_splits)
  from this [OF flush_records_same [of "co_sessions state" c now] t] show ?thesis by (simp add: FlushOp flush_observability_due_def t split_beta Let_def)
qed (simp_all add: t remove_section_def tombstone_all_kept)

lemma tombstone_stays:
  assumes "coordinator_inv (rco_limits self) (fst s)" and "list_all op_ok ops" and "list_all (\<lambda>op. \<not> clears t op) ops"
    and "map_of (co_sessions (fst s)) sid = Some (Tombstone t)"
  shows "map_of (co_sessions (fst (foldl (coordinator_step pc c self) s ops))) sid = Some (Tombstone t)"
  using assms
proof (induction ops arbitrary: s)
  case (Cons op ops)
  obtain state w where s: "s = (state, w)" by fastforce
  have "coordinator_inv (rco_limits self) (fst (coordinator_step pc c self s op))"
    using inv_step [of self state op pc c w] Cons.prems by (simp add: s)
  moreover have "map_of (co_sessions (fst (coordinator_step pc c self s op))) sid = Some (Tombstone t)"
    using tombstone_step [of self state op t sid pc c w] Cons.prems by (simp add: s)
  ultimately show ?case using Cons by simp
qed simp

text \<open>
  C28 (a closed session stays closed): until maintenance passes its deadline nothing brings a closed
  session back. Every message for it is refused and changes nothing, its identifier cannot be
  requested again, and late frames of its participants are silently dropped.
\<close>

theorem closed_session_final:
  assumes "list_all op_ok (ops @ later)" and "(state, w) = foldl (coordinator_step pc c self) (CoordinatorState_default, w0) ops"
    and "map_of (co_sessions state) sid = Some (Tombstone t)" and "list_all (\<lambda>op. \<not> clears t op) later"
    and "(state', w') = foldl (coordinator_step pc c self) (state, w) later"
    and "prf_session_id frame = sid" and "env_session_id envelope = sid"
  shows "map_of (co_sessions state') sid = Some (Tombstone t) \<and>
    relay_section pc rd identity frame state' w' =
      (if owner_matches (to_consumer t) identity \<or> owner_matches (to_provider t) identity then RelayDropped
       else RelayRefused (Refused RENDEZVOUS_NOT_PARTICIPANT), state', w') \<and>
    forward_section c rd identity envelope digest state' w' = (Inl (Refused RENDEZVOUS_UNKNOWN_SESSION), state', w') \<and>
    decision_section rd identity envelope decision state' w' = (Inl (Refused RENDEZVOUS_UNKNOWN_SESSION), state', w') \<and>
    close_section rd identity envelope state' w' = (Inl (Refused RENDEZVOUS_UNKNOWN_SESSION), state', w') \<and>
    request_section self rd envelope export consumer provider rs state' w' = (Inl RENDEZVOUS_DUPLICATE_SESSION, state', w')"
proof -
  have "list_all op_ok ops" "list_all op_ok later" using assms(1) by simp_all
  then have t: "map_of (co_sessions state') sid = Some (Tombstone t)"
    using tombstone_stays [of self "(state, w)" later t sid pc c] inv_reachable [OF _ assms(2)] assms(3-5) by (metis fst_conv)
  then have "active_session state' sid = None" by (simp add: active_session_def)
  then show ?thesis using t assms(6,7)
    by (simp add: relay_section_def forward_section_def forward_check_def decision_section_def close_section_def request_section_def result_simps)
qed

subsection \<open>A session from its request on\<close>

definition rz_sid :: SessionId where "rz_sid = SessionId (be_bytes 32 7)"

definition rz_tables :: server where
  "rz_tables = sy_server (foldl (registry_step sample_registry) (registry_start sample_server) (take 2 sample_claims))"

definition rz_ttl :: nat where "rz_ttl = 60 * NANOS_PER_SECOND"
declare rz_ttl_def [code del]

definition rz_coordinator :: RendezvousCoordinator where
  "rz_coordinator = \<lparr>rco_directory = [([digit 2], \<lparr>de_public_key = ''key'', de_enabled = True\<rparr>)],
     rco_limits = \<lparr>rl_max_sessions = 2, rl_max_sessions_per_device = 2, rl_session_ttl = rz_ttl\<rparr>\<rparr>"

definition rz_readings :: "nat \<Rightarrow> readings" where
  "rz_readings instant = \<lparr>rd_origin_secs = 10, rd_secs = 10, rd_metadata_secs = 10, rd_instant = instant, rd_restart = instant,
     rd_millis = 10000, rd_open_millis = 10000, rd_token = be_bytes 32 3\<rparr>"

definition rz_envelope :: "nat \<Rightarrow> nat \<Rightarrow> u64 \<Rightarrow> RendezvousPayload \<Rightarrow> RendezvousEnvelope" where
  "rz_envelope sender target step payload = \<lparr>env_version = V0_6, env_session_id = rz_sid, env_sender = [digit sender],
     env_target = [digit target], env_step = step, env_generation = CandidateGeneration 1, env_expires_unix_secs = 40,
     env_payload = payload, env_signature = []\<rparr>"

definition rz_request :: RendezvousEnvelope where
  "rz_request = rz_envelope 1 2 1 (PayloadRequest \<lparr>rr_export = ''ssh''\<rparr>)"

definition rz_owner :: "nat \<Rightarrow> SessionOwner" where
  "rz_owner n = \<lparr>so_name = [digit n], so_fingerprint = ''sha256:'' @ [digit n], so_control_session_id = [word_of_nat n],
     so_observability_identity = \<lparr>aci_name = [digit n], aci_generation = word_of_nat n\<rparr>\<rparr>"

definition rz_frame :: PeerRelayFrame where
  "rz_frame = \<lparr>prf_session_id = rz_sid, prf_channel_id = 1, prf_sequence = 1, prf_flags = PeerRelayFlags_RELIABLE,
     prf_ciphertext_len = 20, prf_ciphertext = be_bytes 20 5\<rparr>"

lemma rz_tables_ok: "names_ok rz_tables" by code_simp
lemma rz_origin: "validate_origin 10 sample_guard rz_request rz_tables = Inr ()" by code_simp
lemma rz_provider: "map_option (\<lambda>p. (owner_from_active p, acs_protocol_version p)) (active_control_session rz_tables [digit 2]) = Some (rz_owner 2, V0_6)" by code_simp
lemma rz_consumer: "owner_from_control rz_tables sample_guard = rz_owner 1" by code_simp
definition rz_postcard :: postcard where "rz_postcard = \<lparr>pc_to_allocvec = \<lambda>_. Some [0], pc_take_from_bytes = \<lambda>_ _. None, pc_from_bytes = \<lambda>_ _. None\<rparr>"
lemma rz_request_message: "RendezvousEnvelope_to_protocol_message rz_postcard rz_request = Inr (Message.RendezvousRequest [0])"
 by (simp add: RendezvousEnvelope_to_protocol_message_def rz_postcard_def result_simps BoundedBytes_try_from_def MAX_RENDEZVOUS_ENVELOPE_BYTES_def
  RendezvousEnvelope_message_id_def envelope_message_def rz_request_def rz_envelope_def)
definition rz_requested :: "CoordinatorState \<times> server" where
  "rz_requested = snd (request_section rz_coordinator (rz_readings 1) rz_request ''ssh'' (rz_owner 1) (rz_owner 2)
     \<lparr>rs_session_id = rz_sid, rs_phase = PhaseRequested, rs_last_step = 1, rs_generation = CandidateGeneration 1\<rparr>
     CoordinatorState_default rz_tables)"

lemma rz_frame_message: "PeerRelayFrame_to_protocol_message rz_postcard rz_frame = Inr (Message.PeerRelayFrame [0])"
  by (simp add: PeerRelayFrame_to_protocol_message_def rz_postcard_def result_simps BoundedBytes_try_from_def MAX_PEER_RELAY_FRAME_BYTES_def)
definition rz_session :: "coordinator_op list" where
  "rz_session =
    [DecisionOp (rz_readings 2) (sample_client 2)
       (rz_envelope 2 1 2 (PayloadProviderDecision (ProviderDecision_accepted TunnelProtocol_TCP))) (ProviderDecision_accepted TunnelProtocol_TCP),
     ForwardOp (rz_readings 3) (sample_client 1) (rz_envelope 1 2 3 (PayloadRelayRequest \<lparr>rlr_datagram = False\<rparr>)) None,
     ForwardOp (rz_readings 4) (sample_client 2) (rz_envelope 2 1 4 (PayloadRelayRequest \<lparr>rlr_datagram = False\<rparr>)) None,
     ServerChanges rz_tables]"


lemma rz_request_step:
  "coordinator_step rz_postcard toy_primitives rz_coordinator (CoordinatorState_default, rz_tables)
     (RequestOp (rz_readings 1) sample_guard rz_request rz_tables) = rz_requested"
proof -
  obtain p where p: "active_control_session rz_tables [digit 2] = Some p" "owner_from_active p = rz_owner 2" "acs_protocol_version p = V0_6"
    using rz_provider by auto
  have e: "env_target rz_request = [digit 2]" "env_payload rz_request = PayloadRequest \<lparr>rr_export = ''ssh''\<rparr>"
    "env_expires_unix_secs rz_request = 40" "env_session_id rz_request = rz_sid" "env_step rz_request = 1"
    "env_generation rz_request = CandidateGeneration 1"
    by (simp_all add: rz_request_def rz_envelope_def)
  have t: "word_of_nat (rl_session_ttl (rco_limits rz_coordinator) div NANOS_PER_SECOND) = (60 :: u64)"
    by (simp add: rz_coordinator_def rz_ttl_def NANOS_PER_SECOND_def)
  have a: "checked_add 10 (60 :: u64) = Some 70" by (simp add: checked_add_def)
  have d: "map_of (rco_directory rz_coordinator) [digit 2] = Some \<lparr>de_public_key = ''key'', de_enabled = True\<rparr>"
    by (simp add: rz_coordinator_def)
  have n: "[digit 2] \<noteq> ac_name (cg_identity sample_guard)" by code_simp
  have r: "Rendezvous_State.request (RendezvousState_new rz_sid) 1 (CandidateGeneration 1) =
      Inr \<lparr>rs_session_id = rz_sid, rs_phase = PhaseRequested, rs_last_step = 1, rs_generation = CandidateGeneration 1\<rparr>" by code_simp
  have v: "supports_v02 V0_6" by code_simp
  have "request_checks rz_postcard rz_coordinator (rz_readings 1) sample_guard rz_request rz_tables =
      Inr (''ssh'', rz_owner 1, rz_owner 2,
        \<lparr>rs_session_id = rz_sid, rs_phase = PhaseRequested, rs_last_step = 1, rs_generation = CandidateGeneration 1\<rparr>, Message.RendezvousRequest [0])"
    by (simp add: request_checks_def rz_origin rz_consumer rz_request_message e t a d n r v p result_simps rz_readings_def)
  then show ?thesis by (simp add: rz_requested_def)
qed



definition rz_run :: "coordinator_op list" where
  "rz_run = RequestOp (rz_readings 1) sample_guard rz_request rz_tables # rz_session"

lemma rz_run_foldl:
  "foldl (coordinator_step rz_postcard toy_primitives rz_coordinator) (CoordinatorState_default, rz_tables) rz_run =
   foldl (coordinator_step rz_postcard toy_primitives rz_coordinator) rz_requested rz_session"
  by (simp add: rz_run_def rz_request_step del: coordinator_step.simps One_nat_def)

lemma rz_run_ok: "list_all op_ok rz_run"
  by (simp add: rz_run_def rz_session_def rz_tables_ok)

lemma server_changes: "snd (coordinator_step pc c self s (ServerChanges w)) = w"
  by (cases s) simp

theorem relay_needs_both_witness:
  "list_ex (asks rz_sid (rz_owner 1)) rz_run \<and> list_ex (asks rz_sid (rz_owner 2)) rz_run \<and>
   (\<exists>w. reserve_to (rz_owner 2) rz_tables = (Inr 1, w))"
proof -
  let ?f = "foldl (coordinator_step rz_postcard toy_primitives rz_coordinator)"
  let ?state = "fst (?f (CoordinatorState_default, rz_tables) rz_run)"
  have "snd (?f rz_requested rz_session) = rz_tables"
    by (simp add: rz_session_def server_changes del: coordinator_step.simps)
  then have run: "(?state, rz_tables) = ?f (CoordinatorState_default, rz_tables) rz_run"
    by (simp add: rz_run_foldl prod_eq_iff)
  have "case map_of (co_sessions ?state) rz_sid of Some (Active s) \<Rightarrow> st_consumer s = rz_owner 1 \<and> st_provider s = rz_owner 2 \<and>
     relay_admission_check (sample_client 1) rz_frame s = Inr (rz_owner 2) \<and> fst (admit 5 5 20 (st_relay s)) \<and>
     fst (reserve_to (rz_owner 2) rz_tables) = Inr 1 | _ \<Rightarrow> False" unfolding rz_run_foldl by code_simp
  then obtain s where s: "map_of (co_sessions ?state) rz_sid = Some (Active s)" "relay_admission_check (sample_client 1) rz_frame s = Inr (rz_owner 2)"
      "fst (admit 5 5 20 (st_relay s))" "fst (reserve_to (rz_owner 2) rz_tables) = Inr 1" "st_consumer s = rz_owner 1" "st_provider s = rz_owner 2"
    by (auto split: option.splits SessionRecord.splits)
  have f: "prf_session_id rz_frame = rz_sid" "length (prf_ciphertext rz_frame) = 20"
      "rd_instant (rz_readings 5) = 5" "rd_restart (rz_readings 5) = 5"
    by (simp_all add: rz_frame_def rz_readings_def)
  have "\<exists>state' w'. relay_section rz_postcard (rz_readings 5) (sample_client 1) rz_frame ?state rz_tables =
      (RelaySend 1 (Message.PeerRelayFrame [0]), state', w')"
    using s by (auto simp: relay_section_def f rz_frame_message Let_def split: prod.splits)
  then obtain state' w' where r: "relay_section rz_postcard (rz_readings 5) (sample_client 1) rz_frame ?state rz_tables =
      (RelaySend 1 (Message.PeerRelayFrame [0]), state', w')" by blast
  from s(4) have "\<exists>w. reserve_to (rz_owner 2) rz_tables = (Inr 1, w)" by (metis prod.collapse)
  moreover from relay_needs_both [OF rz_run_ok run r] s(1,5,6) f(1)
  have "list_ex (asks rz_sid (rz_owner 1)) rz_run \<and> list_ex (asks rz_sid (rz_owner 2)) rz_run" by auto
  ultimately show ?thesis by blast
qed

lemma rz_one_step:
  "(fst rz_requested, snd rz_requested) =
     foldl (coordinator_step rz_postcard toy_primitives rz_coordinator) (CoordinatorState_default, rz_tables) [hd rz_run]"
  "list_all op_ok [hd rz_run]"
  using rz_run_ok by (simp_all add: rz_run_def rz_request_step del: coordinator_step.simps One_nat_def)

theorem coordinator_accounting_witness:
  "hm_get_or 0 (co_device_counts (fst rz_requested)) [digit 2] =
     length (filter (\<lambda>(_, r). [digit 2] = fst (record_devices r) \<or> [digit 2] = snd (record_devices r)) (co_sessions (fst rz_requested)))"
  using coordinator_accounting [OF rz_one_step(2,1), where d = "[digit 2]"] by blast

theorem expired_records_cleared_witness: "co_sessions (snd (expire_loop EXPIRY_MAINTENANCE_BATCH 40 (fst rz_requested))) = []"
proof -
  have "expired 40 (fst rz_requested) = 1" "filter (\<lambda>x. record_expires (snd x) > 40) (co_sessions (fst rz_requested)) = []" by code_simp+
  then show ?thesis using expired_records_cleared [OF rz_one_step(2,1), where now = 40 and k = 1] by (simp add: EXPIRY_MAINTENANCE_BATCH_def)
qed

theorem closed_session_final_witness:
  "\<exists>w. relay_section rz_postcard (rz_readings 9) (sample_client 1) rz_frame
     (fst (coordinator_step rz_postcard toy_primitives rz_coordinator rz_requested (RemoveOp (sample_client 2)))) w =
     (RelayDropped, fst (coordinator_step rz_postcard toy_primitives rz_coordinator rz_requested (RemoveOp (sample_client 2))), w)"
proof -
  let ?ops = "[hd rz_run, RemoveOp (sample_client 2)]"
  let ?s = "coordinator_step rz_postcard toy_primitives rz_coordinator rz_requested (RemoveOp (sample_client 2))"
  have run: "(fst ?s, snd ?s) = foldl (coordinator_step rz_postcard toy_primitives rz_coordinator) (CoordinatorState_default, rz_tables) ?ops"
    by (simp add: rz_run_def rz_request_step del: coordinator_step.simps One_nat_def)
  have ok: "list_all op_ok (?ops @ [])" using rz_run_ok by (simp add: rz_run_def)
  have "case map_of (co_sessions (fst ?s)) rz_sid of Some (Tombstone t) \<Rightarrow> owner_matches (to_consumer t) (sample_client 1) | _ \<Rightarrow> False"
    by code_simp
  then obtain t where t: "map_of (co_sessions (fst ?s)) rz_sid = Some (Tombstone t)" "owner_matches (to_consumer t) (sample_client 1)"
    by (auto split: option.splits SessionRecord.splits)
  have "(fst ?s, snd ?s) = foldl (coordinator_step rz_postcard toy_primitives rz_coordinator) (fst ?s, snd ?s) []" "list_all (\<lambda>op. \<not> clears t op) []"
    "prf_session_id rz_frame = rz_sid" "env_session_id rz_request = rz_sid" by (simp_all add: rz_frame_def rz_request_def rz_envelope_def)
  from closed_session_final [OF ok run t(1) this(2,1,3,4), where rd = "rz_readings 9" and identity = "sample_client 1"] t(2)
  show ?thesis by (intro exI [of _ "snd ?s"]) auto
qed

end
