(* ===== verification/Observation_Service.thy ===== *)
theory Observation_Service
  imports Udp_Flows Client_Registry Rendezvous_Wire Backoff State_Machine
begin

text \<open>
  The server's observation service (\<^verbatim>\<open>rustgos/src/observation.rs\<close>): authenticated clients are granted
  two one-time tokens, one for each of two UDP ports; a probe that carries a token is answered with
  the address it came from. Sources and devices are rate limited by tables of token buckets with a
  bounded amount of upkeep for each packet.

  Instants, durations and system time are nanoseconds; \<open>latest\<close> is the largest representable instant and
  \<open>latest_system\<close> the largest system time. The random draws of tokens are an argument.
\<close>

subsection \<open>Limits\<close>

definition MAX_PENDING_OBSERVATION_TOKENS :: nat where "MAX_PENDING_OBSERVATION_TOKENS = 65536"
definition MAX_TRACKED_OBSERVATION_SUBJECTS :: nat where "MAX_TRACKED_OBSERVATION_SUBJECTS = 65536"
definition MAX_OBSERVATION_BURST :: u32 where "MAX_OBSERVATION_BURST = 65536"
definition TOKEN_GENERATION_ATTEMPTS :: nat where "TOKEN_GENERATION_ATTEMPTS = 16"
definition MAX_BUCKET_MAINTENANCE_STEPS_PER_PACKET :: nat where "MAX_BUCKET_MAINTENANCE_STEPS_PER_PACKET = 4"

record ObservationRuntimeLimits =
  orl_token_ttl :: nat
  orl_max_pending_tokens :: nat
  orl_max_tracked_ips :: nat
  orl_max_tracked_devices :: nat
  orl_per_ip_burst :: u32
  orl_per_device_burst :: u32
  orl_refill_interval :: nat
  orl_test_send_delay :: nat

definition ObservationRuntimeLimits_default :: ObservationRuntimeLimits where
  "ObservationRuntimeLimits_default =
     \<lparr>orl_token_ttl = 30 * NANOS_PER_SEC, orl_max_pending_tokens = 4096, orl_max_tracked_ips = 16384,
      orl_max_tracked_devices = 4096, orl_per_ip_burst = 32, orl_per_device_burst = 8,
      orl_refill_interval = NANOS_PER_SEC, orl_test_send_delay = 0\<rparr>"

definition observation_limits_valid :: "nat \<Rightarrow> nat \<Rightarrow> int \<Rightarrow> int \<Rightarrow> ObservationRuntimeLimits \<Rightarrow> bool" where
  "observation_limits_valid latest now latest_system system_now self \<longleftrightarrow>
     orl_token_ttl self \<noteq> 0 \<and> orl_max_pending_tokens self \<ge> 2 \<and>
     orl_max_pending_tokens self \<le> MAX_PENDING_OBSERVATION_TOKENS \<and>
     orl_max_tracked_ips self > 0 \<and> orl_max_tracked_ips self \<le> MAX_TRACKED_OBSERVATION_SUBJECTS \<and>
     orl_max_tracked_devices self > 0 \<and> orl_max_tracked_devices self \<le> MAX_TRACKED_OBSERVATION_SUBJECTS \<and>
     1 \<le> orl_per_ip_burst self \<and> orl_per_ip_burst self \<le> MAX_OBSERVATION_BURST \<and>
     1 \<le> orl_per_device_burst self \<and> orl_per_device_burst self \<le> MAX_OBSERVATION_BURST \<and>
     orl_refill_interval self \<noteq> 0 \<and> orl_test_send_delay self \<le> 60 * NANOS_PER_SEC \<and>
     instant_checked_add latest now (orl_token_ttl self) \<noteq> None \<and>
     instant_checked_add latest now (orl_refill_interval self) \<noteq> None \<and>
     instant_checked_add latest now (orl_test_send_delay self) \<noteq> None \<and>
     system_now + int (orl_token_ttl self) \<le> latest_system"

text \<open>\<open>bind\<close>: the checks before the two sockets are opened.\<close>

definition bind_accepts :: "nat \<Rightarrow> nat \<Rightarrow> int \<Rightarrow> int \<Rightarrow> u16 \<Rightarrow> u16 \<Rightarrow> ObservationRuntimeLimits \<Rightarrow> bool" where
  "bind_accepts latest now latest_system system_now primary_port alternate_port limits \<longleftrightarrow>
     \<not> (\<not> observation_limits_valid latest now latest_system system_now limits \<or>
        primary_port \<noteq> 0 \<and> alternate_port \<noteq> 0 \<and> primary_port = alternate_port)"

subsection \<open>Token buckets\<close>

record TokenBucket =
  tb_capacity :: u32
  tb_tokens :: u32
  tb_last_refill :: nat

definition TokenBucket_new :: "u32 \<Rightarrow> nat \<Rightarrow> TokenBucket" where
  "TokenBucket_new capacity now = \<lparr>tb_capacity = capacity, tb_tokens = capacity, tb_last_refill = now\<rparr>"

definition u32_saturating_add :: "u32 \<Rightarrow> u32 \<Rightarrow> u32" where
  "u32_saturating_add a b = (if unat a + unat b < 2 ^ 32 then a + b else - 1)"

definition u32_try_from_or_max :: "nat \<Rightarrow> u32" where
  "u32_try_from_or_max n = (if n < 2 ^ 32 then word_of_nat n else - 1)"

text \<open>The interval is not zero: \<open>bind\<close> refuses such limits.\<close>

definition bucket_take :: "u32 \<Rightarrow> nat \<Rightarrow> nat \<Rightarrow> TokenBucket \<Rightarrow> bool \<times> TokenBucket" where
  "bucket_take capacity refill_interval now self =
     (let self = (if tb_capacity self \<noteq> capacity then TokenBucket_new capacity now else self);
          elapsed = now - tb_last_refill self;
          refill = elapsed div refill_interval;
          self = (if refill > 0
            then self\<lparr>tb_tokens := min (u32_saturating_add (tb_tokens self) (u32_try_from_or_max refill)) capacity,
                   tb_last_refill := now\<rparr>
            else self)
      in if tb_tokens self = 0 then (False, self)
         else (True, self\<lparr>tb_tokens := tb_tokens self - 1\<rparr>))"

record BucketEntry =
  ben_bucket :: TokenBucket
  ben_generation :: u64

record 'k BucketExpiry =
  bex_key :: 'k
  bex_generation :: u64
  bex_expires_at :: nat

record 'k BucketTable =
  bt_entries :: "('k, BucketEntry) hashmap"
  bt_expirations :: "'k BucketExpiry list"
  bt_next_generation :: u64

definition BucketTable_default :: "'k BucketTable" where
  "BucketTable_default = \<lparr>bt_entries = [], bt_expirations = [], bt_next_generation = 1\<rparr>"

definition expiration_from :: "nat \<Rightarrow> nat \<Rightarrow> nat \<Rightarrow> nat \<Rightarrow> nat" where
  "expiration_from latest now stale_after fallback =
     (case instant_checked_add latest now stale_after of
        Some t \<Rightarrow> t
      | None \<Rightarrow> (case instant_checked_add latest now fallback of Some t \<Rightarrow> t | None \<Rightarrow> now))"

text \<open>\<open>sweep_expired\<close>: the loop makes at most as many rounds as its first argument.\<close>

fun sweep_buckets :: "nat \<Rightarrow> nat \<Rightarrow> nat \<Rightarrow> nat \<Rightarrow> 'k BucketTable \<Rightarrow> nat \<times> 'k BucketTable" where
  "sweep_buckets 0 latest now stale_after self = (0, self)"
| "sweep_buckets (Suc n) latest now stale_after self =
     (case bt_expirations self of
        [] \<Rightarrow> (0, self)
      | expiry # rest \<Rightarrow>
          if bex_expires_at expiry > now then (0, self)
          else
            let self = self\<lparr>bt_expirations := rest\<rparr>;
                self = (case map_of (bt_entries self) (bex_key expiry) of
                    None \<Rightarrow> self
                  | Some entry \<Rightarrow>
                      if ben_generation entry \<noteq> bex_generation expiry then self
                      else
                        let expires_at = expiration_from latest (tb_last_refill (ben_bucket entry)) stale_after 0
                        in if expires_at \<le> now then self\<lparr>bt_entries := hm_remove (bex_key expiry) (bt_entries self)\<rparr>
                           else self\<lparr>bt_expirations := rest @ [expiry\<lparr>bex_expires_at := expires_at\<rparr>]\<rparr>);
                (steps, self) = sweep_buckets n latest now stale_after self
            in (Suc steps, self))"

definition bucket_sweep_expired :: "nat \<Rightarrow> nat \<Rightarrow> nat \<Rightarrow> 'k BucketTable \<Rightarrow> nat \<times> 'k BucketTable" where
  "bucket_sweep_expired = sweep_buckets MAX_BUCKET_MAINTENANCE_STEPS_PER_PACKET"

record 'k PreparedBucketSlot =
  ps_eviction :: "'k BucketExpiry option"
  ps_maintenance_steps :: nat
  ps_available :: bool

text \<open>The loop that looks for an entry to evict, with the rounds that are left.\<close>

fun find_eviction :: "nat \<Rightarrow> 'k BucketTable \<Rightarrow> 'k BucketExpiry option \<times> nat \<times> 'k BucketTable" where
  "find_eviction 0 self = (None, 0, self)"
| "find_eviction (Suc n) self =
     (case bt_expirations self of
        [] \<Rightarrow> (None, 0, self)
      | expiry # rest \<Rightarrow>
          let self = self\<lparr>bt_expirations := rest\<rparr>
          in if (case map_of (bt_entries self) (bex_key expiry) of
                   Some entry \<Rightarrow> ben_generation entry = bex_generation expiry | None \<Rightarrow> False)
             then (Some expiry, 1, self)
             else let (eviction, steps, self) = find_eviction n self in (eviction, Suc steps, self))"

definition prepare_slot :: "nat \<Rightarrow> nat \<Rightarrow> nat \<Rightarrow> nat \<Rightarrow> 'k BucketTable \<Rightarrow> 'k PreparedBucketSlot \<times> 'k BucketTable" where
  "prepare_slot latest maximum_entries now stale_after self =
     (let (maintenance_steps, self) = bucket_sweep_expired latest now stale_after self;
          (eviction, steps, self) =
            (if length (bt_entries self) \<ge> maximum_entries
             then find_eviction (MAX_BUCKET_MAINTENANCE_STEPS_PER_PACKET - maintenance_steps) self else (None, 0, self))
      in (\<lparr>ps_eviction = eviction, ps_maintenance_steps = maintenance_steps + steps,
           ps_available = length (bt_entries self) < maximum_entries \<or> eviction \<noteq> None\<rparr>, self))"

definition commit_slot :: "'k BucketExpiry option \<Rightarrow> 'k BucketTable \<Rightarrow> 'k BucketTable" where
  "commit_slot eviction self =
     (case eviction of Some expiry \<Rightarrow> self\<lparr>bt_entries := hm_remove (bex_key expiry) (bt_entries self)\<rparr> | None \<Rightarrow> self)"

definition restore_slot :: "'k BucketExpiry option \<Rightarrow> 'k BucketTable \<Rightarrow> 'k BucketTable" where
  "restore_slot eviction self =
     (case eviction of Some expiry \<Rightarrow> self\<lparr>bt_expirations := expiry # bt_expirations self\<rparr> | None \<Rightarrow> self)"

record BucketAdmission =
  ba_allowed :: bool
  ba_maintenance_steps :: nat

definition observation_insert_bucket ::
  "nat \<Rightarrow> 'k \<Rightarrow> u32 \<Rightarrow> nat \<Rightarrow> nat \<Rightarrow> nat \<Rightarrow> nat \<Rightarrow> 'k BucketTable \<Rightarrow> BucketAdmission \<times> 'k BucketTable" where
  "observation_insert_bucket latest key capacity refill_interval now stale_after maintenance_steps self =
     (let generation = bt_next_generation self;
          (allowed, bucket) = bucket_take capacity refill_interval now (TokenBucket_new capacity now)
      in (\<lparr>ba_allowed = allowed, ba_maintenance_steps = maintenance_steps\<rparr>,
          self\<lparr>bt_next_generation := max (generation + 1) 1,
            bt_entries := hm_insert key \<lparr>ben_bucket = bucket, ben_generation = generation\<rparr> (bt_entries self),
            bt_expirations := bt_expirations self @
              [\<lparr>bex_key = key, bex_generation = generation,
                bex_expires_at = expiration_from latest now stale_after refill_interval\<rparr>]\<rparr>))"

definition checked_mul_or_max :: "nat \<Rightarrow> u32 \<Rightarrow> nat" where
  "checked_mul_or_max duration n = (if duration * unat n \<le> DURATION_MAX then duration * unat n else DURATION_MAX)"

definition take_entry ::
  "'k \<Rightarrow> BucketEntry \<Rightarrow> u32 \<Rightarrow> nat \<Rightarrow> nat \<Rightarrow> 'k BucketTable \<Rightarrow> BucketAdmission \<times> 'k BucketTable" where
  "take_entry key entry capacity refill_interval now self =
     (let (allowed, bucket) = bucket_take capacity refill_interval now (ben_bucket entry)
      in (\<lparr>ba_allowed = allowed, ba_maintenance_steps = 0\<rparr>,
          self\<lparr>bt_entries := hm_insert key (entry\<lparr>ben_bucket := bucket\<rparr>) (bt_entries self)\<rparr>))"

definition bucket_allow ::
  "nat \<Rightarrow> 'k \<Rightarrow> nat \<Rightarrow> u32 \<Rightarrow> nat \<Rightarrow> nat \<Rightarrow> 'k BucketTable \<Rightarrow> BucketAdmission \<times> 'k BucketTable" where
  "bucket_allow latest key maximum_entries capacity refill_interval now self =
     (case map_of (bt_entries self) key of
        Some entry \<Rightarrow> take_entry key entry capacity refill_interval now self
      | None \<Rightarrow>
          let stale_after = checked_mul_or_max refill_interval capacity;
              (prepared, self) = prepare_slot latest maximum_entries now stale_after self
          in if \<not> ps_available prepared
             then (\<lparr>ba_allowed = False, ba_maintenance_steps = ps_maintenance_steps prepared\<rparr>, self)
             else observation_insert_bucket latest key capacity refill_interval now stale_after
                    (ps_maintenance_steps prepared) (commit_slot (ps_eviction prepared) self))"

definition allow_new_source ::
  "nat \<Rightarrow> 'k \<Rightarrow> nat \<Rightarrow> u32 \<Rightarrow> nat \<Rightarrow> nat \<Rightarrow> TokenBucket \<Rightarrow> u32 \<Rightarrow> 'k BucketTable
     \<Rightarrow> BucketAdmission \<times> TokenBucket \<times> 'k BucketTable" where
  "allow_new_source latest key maximum_entries capacity refill_interval now global_admission global_capacity self =
     (case map_of (bt_entries self) key of
        Some entry \<Rightarrow>
          let (admission, self) = take_entry key entry capacity refill_interval now self in (admission, global_admission, self)
      | None \<Rightarrow>
          let stale_after = checked_mul_or_max refill_interval capacity;
              (prepared, self) = prepare_slot latest maximum_entries now stale_after self
          in if \<not> ps_available prepared
             then (\<lparr>ba_allowed = False, ba_maintenance_steps = ps_maintenance_steps prepared\<rparr>, global_admission, self)
             else
               let (admitted, global_admission) = bucket_take global_capacity refill_interval now global_admission
               in if \<not> admitted
                  then (\<lparr>ba_allowed = False, ba_maintenance_steps = ps_maintenance_steps prepared\<rparr>, global_admission,
                        restore_slot (ps_eviction prepared) self)
                  else
                    let (admission, self) = observation_insert_bucket latest key capacity refill_interval now stale_after
                          (ps_maintenance_steps prepared) (commit_slot (ps_eviction prepared) self)
                    in (admission, global_admission, self))"

subsection \<open>Tokens and probes\<close>

record PendingToken =
  pt_identity :: AuthenticatedClient
  pt_endpoint :: ObservationEndpoint
  pt_expires_at :: nat

record ObservationState =
  os_pending :: "(bytes, PendingToken) hashmap"
  os_global_ip_admission :: TokenBucket
  os_ip_buckets :: "IpAddr BucketTable"
  os_device_buckets :: "string BucketTable"

definition ObservationState_default :: "nat \<Rightarrow> ObservationState" where
  "ObservationState_default now =
     \<lparr>os_pending = [], os_global_ip_admission = TokenBucket_new 0 now, os_ip_buckets = BucketTable_default,
      os_device_buckets = BucketTable_default\<rparr>"

datatype ObservationIssueError = InactiveSession | ObservationCapacityReached | Entropy | InvalidLifetime

text \<open>Each round of \<open>issue_unique_token\<close> uses one draw; \<open>None\<close> is a generator that fails.\<close>

fun unique_token_loop ::
  "nat \<Rightarrow> (bytes, PendingToken) hashmap \<Rightarrow> bytes option \<Rightarrow> bytes option list
     \<Rightarrow> (ObservationIssueError, bytes) result \<times> bytes option list" where
  "unique_token_loop 0 pending excluded draws = (Inl Entropy, draws)"
| "unique_token_loop (Suc n) pending excluded [] = (Inl Entropy, [])"
| "unique_token_loop (Suc n) pending excluded (None # draws) = (Inl Entropy, draws)"
| "unique_token_loop (Suc n) pending excluded (Some token # draws) =
     (if map_of pending token = None \<and> excluded \<noteq> Some token then (Inr token, draws)
      else unique_token_loop n pending excluded draws)"

definition issue_unique_token ::
  "(bytes, PendingToken) hashmap \<Rightarrow> bytes option \<Rightarrow> bytes option list
     \<Rightarrow> (ObservationIssueError, bytes) result \<times> bytes option list" where
  "issue_unique_token = unique_token_loop TOKEN_GENERATION_ATTEMPTS"

definition retain_pending :: "nat \<Rightarrow> ObservationState \<Rightarrow> ObservationState" where
  "retain_pending now state = state\<lparr>os_pending := filter (\<lambda>(_, entry). pt_expires_at entry > now) (os_pending state)\<rparr>"

text \<open>The section of \<open>issue\<close> under the lock.\<close>

definition issue_section ::
  "ObservationRuntimeLimits \<Rightarrow> nat \<Rightarrow> nat \<Rightarrow> AuthenticatedClient \<Rightarrow> bytes option list \<Rightarrow> ObservationState
     \<Rightarrow> (ObservationIssueError, bytes \<times> bytes) result \<times> ObservationState" where
  "issue_section limits now expires_at identity draws state =
     (let state = retain_pending now state in
      if length (os_pending state) > orl_max_pending_tokens limits - 2 then (Inl ObservationCapacityReached, state)
      else case issue_unique_token (os_pending state) None draws of
        (Inl e, _) \<Rightarrow> (Inl e, state)
      | (Inr primary, draws) \<Rightarrow>
          (case issue_unique_token (os_pending state) (Some primary) draws of
             (Inl e, _) \<Rightarrow> (Inl e, state)
           | (Inr alternate, _) \<Rightarrow>
               let entry = (\<lambda>endpoint. \<lparr>pt_identity = identity, pt_endpoint = endpoint, pt_expires_at = expires_at\<rparr>)
               in (Inr (primary, alternate),
                   state\<lparr>os_pending := hm_insert alternate (entry EndpointAlternate)
                     (hm_insert primary (entry EndpointPrimary) (os_pending state))\<rparr>)))"

definition observation_issue ::
  "ObservationRuntimeLimits \<Rightarrow> nat \<Rightarrow> nat \<Rightarrow> int \<Rightarrow> int \<Rightarrow> server \<Rightarrow> AuthenticatedClient \<Rightarrow> bytes option list \<Rightarrow> ObservationState
     \<Rightarrow> (ObservationIssueError, ObservationGrant) result \<times> ObservationState" where
  "observation_issue limits latest now latest_system system_now w identity draws state =
     (if \<not> is_active_session w identity then (Inl InactiveSession, state)
      else case instant_checked_add latest now (orl_token_ttl limits) of
        None \<Rightarrow> (Inl InvalidLifetime, state)
      | Some expires_at \<Rightarrow>
          let expires = system_now + int (orl_token_ttl limits) in
          if expires > latest_system \<or> expires < 0 then (Inl InvalidLifetime, state)
          else case issue_section limits now expires_at identity draws state of
            (Inl e, state) \<Rightarrow> (Inl e, state)
          | (Inr (primary, alternate), state) \<Rightarrow>
              (Inr \<lparr>og_primary_token = primary, og_alternate_token = alternate,
                 og_expires_unix_secs = word_of_int (expires div int NANOS_PER_SEC)\<rparr>, state))"

fun canonical_ip :: "IpAddr \<Rightarrow> IpAddr" where
  "canonical_ip (IpV6 ipv6) = (case to_ipv4_mapped ipv6 of Some ipv4 \<Rightarrow> IpV4 ipv4 | None \<Rightarrow> IpV6 ipv6)"
| "canonical_ip (IpV4 ipv4) = IpV4 ipv4"

text \<open>\<open>authorize_probe\<close>: the two sections under the lock, with the check of the session between them.\<close>

definition redeem_section ::
  "ObservationRuntimeLimits \<Rightarrow> nat \<Rightarrow> nat \<Rightarrow> ObservationProbe \<Rightarrow> ObservationEndpoint \<Rightarrow> IpAddr \<Rightarrow> ObservationState
     \<Rightarrow> PendingToken option \<times> ObservationState" where
  "redeem_section limits latest now probe endpoint source_ip state =
     (case u32_try_from (orl_max_tracked_ips limits) of
        None \<Rightarrow> (None, state)
      | Some global_capacity \<Rightarrow>
          let (admission, global_admission, ip_buckets) =
                allow_new_source latest (canonical_ip source_ip) (orl_max_tracked_ips limits) (orl_per_ip_burst limits)
                  (orl_refill_interval limits) now (os_global_ip_admission state) global_capacity (os_ip_buckets state);
              state = state\<lparr>os_global_ip_admission := global_admission, os_ip_buckets := ip_buckets\<rparr>
          in if \<not> ba_allowed admission then (None, state)
             else case map_of (os_pending state) (op_token probe) of
               None \<Rightarrow> (None, state)
             | Some entry \<Rightarrow>
                 if pt_endpoint entry \<noteq> endpoint then (None, state)
                 else
                   let state = state\<lparr>os_pending := hm_remove (op_token probe) (os_pending state)\<rparr>
                   in if pt_expires_at entry \<le> now then (None, state) else (Some entry, state))"

definition device_section ::
  "ObservationRuntimeLimits \<Rightarrow> nat \<Rightarrow> nat \<Rightarrow> string \<Rightarrow> ObservationState \<Rightarrow> bool \<times> ObservationState" where
  "device_section limits latest now device_key state =
     (let (admission, device_buckets) = bucket_allow latest device_key (orl_max_tracked_devices limits)
            (orl_per_device_burst limits) (orl_refill_interval limits) now (os_device_buckets state)
      in (ba_allowed admission, state\<lparr>os_device_buckets := device_buckets\<rparr>))"

definition authorize_probe ::
  "ObservationRuntimeLimits \<Rightarrow> nat \<Rightarrow> nat \<Rightarrow> ObservationProbe \<Rightarrow> ObservationEndpoint \<Rightarrow> IpAddr \<Rightarrow> server \<Rightarrow> ObservationState
     \<Rightarrow> bytes option \<times> ObservationState" where
  "authorize_probe limits latest now probe endpoint source_ip w state =
     (case redeem_section limits latest now probe endpoint source_ip state of
        (None, state) \<Rightarrow> (None, state)
      | (Some pending, state) \<Rightarrow>
          if \<not> is_active_session w (pt_identity pending) then (None, state)
          else
            let (allowed, state) = device_section limits latest now (ac_fingerprint (pt_identity pending)) state
            in (if allowed then Some (op_nonce probe) else None, state))"

fun observation_wire_address :: "SocketAddr \<Rightarrow> SocketAddress" where
  "observation_wire_address (SocketV4 ip_octets prt) = V4 ip_octets prt"
| "observation_wire_address (SocketV6 ip_octets prt _ _) = V6 ip_octets prt"

fun socket_ip :: "SocketAddr \<Rightarrow> IpAddr" where
  "socket_ip (SocketV4 ip_octets _) = IpV4 ip_octets"
| "socket_ip (SocketV6 ip_octets _ _ _) = IpV6 ip_octets"

text \<open>
  One round of \<open>serve_socket\<close>: the receive buffer holds one byte more than the longest probe, longer
  datagrams are cut there. The result is what is sent back to the source, if anything.
\<close>

definition serve_datagram ::
  "postcard \<Rightarrow> ObservationRuntimeLimits \<Rightarrow> nat \<Rightarrow> nat \<Rightarrow> ObservationEndpoint \<Rightarrow> SocketAddr \<Rightarrow> bytes \<Rightarrow> server \<Rightarrow> ObservationState
     \<Rightarrow> bytes option \<times> ObservationState" where
  "serve_datagram pc limits latest now endpoint source datagram w state =
     (let received = take (ObservationProbe_MAX_WIRE_BYTES + 1) datagram in
      case ObservationProbe_decode pc received of
        Inl _ \<Rightarrow> (None, state)
      | Inr probe \<Rightarrow>
          (case authorize_probe limits latest now probe endpoint (socket_ip source) w state of
             (None, state) \<Rightarrow> (None, state)
           | (Some nonce, state) \<Rightarrow>
               (case ObservationReply_encode pc
                       \<lparr>orp_nonce = nonce, orp_observed_source = observation_wire_address source, orp_endpoint = endpoint\<rparr> of
                  Inl _ \<Rightarrow> (None, state)
                | Inr encoded \<Rightarrow> if length encoded > length received then (None, state) else (Some encoded, state))))"

subsection \<open>The tables\<close>

definition expiry_slot :: "'k BucketExpiry \<Rightarrow> 'k \<times> u64" where
  "expiry_slot e = (bex_key e, bex_generation e)"

definition entry_slot :: "'k \<times> BucketEntry \<Rightarrow> 'k \<times> u64" where
  "entry_slot x = (fst x, ben_generation (snd x))"

text \<open>The queue of expirations holds exactly one place for each entry.\<close>

definition buckets_ok :: "'k BucketTable \<Rightarrow> bool" where
  "buckets_ok self \<longleftrightarrow> hm_ok (bt_entries self) \<and>
     mset (map expiry_slot (bt_expirations self)) = mset (map entry_slot (bt_entries self))"

lemma buckets_ok_default: "buckets_ok BucketTable_default"
  by (simp add: buckets_ok_def BucketTable_default_def)

lemma buckets_ok_length: "buckets_ok self \<Longrightarrow> length (bt_expirations self) = length (bt_entries self)"
  unfolding buckets_ok_def by (metis length_map size_mset)

lemma mset_remove_slot:
  assumes "hm_ok m" and "map_of m k = Some v"
  shows "mset (map entry_slot m) = add_mset (k, ben_generation v) (mset (map entry_slot (hm_remove k m)))"
  using mset_insert_present [OF assms, of v] by (simp add: entry_slot_def)

lemma head_entry:
  assumes "buckets_ok self" and "bt_expirations self = e # rest"
  obtains entry where "map_of (bt_entries self) (bex_key e) = Some entry" and "ben_generation entry = bex_generation e"
proof -
  have "expiry_slot e \<in> set (map entry_slot (bt_entries self))"
    using assms unfolding buckets_ok_def by (metis list.set_intros(1) list.simps(9) mset_eq_setD)
  then obtain k en where "(k, en) \<in> set (bt_entries self)" "k = bex_key e" "ben_generation en = bex_generation e"
    by (auto simp: expiry_slot_def entry_slot_def)
  then show thesis using that hm_ok_in_set [of "bt_entries self"] assms(1) by (auto simp: buckets_ok_def)
qed

text \<open>What the upkeep may do to the entry of a key: nothing, or drop it once its bucket would be full again.\<close>

definition stale :: "nat \<Rightarrow> nat \<Rightarrow> nat \<Rightarrow> BucketEntry \<Rightarrow> bool" where
  "stale latest now stale_after entry \<longleftrightarrow> expiration_from latest (tb_last_refill (ben_bucket entry)) stale_after 0 \<le> now"

lemma sweep_buckets_result:
  assumes "buckets_ok self" and "sweep_buckets n latest now stale_after self = (steps, self')"
  shows "buckets_ok self' \<and> steps \<le> n \<and> length (bt_entries self') \<le> length (bt_entries self) \<and>
    (\<forall>k. map_of (bt_entries self') k = map_of (bt_entries self) k \<or>
       map_of (bt_entries self') k = None \<and> (\<exists>en. map_of (bt_entries self) k = Some en \<and> stale latest now stale_after en))"
  using assms
proof (induction n arbitrary: self steps)
  case (Suc n)
  show ?case
  proof (cases "bt_expirations self")
    case Nil
    then show ?thesis using Suc.prems by simp
  next
    case (Cons e rest)
    obtain en where en: "map_of (bt_entries self) (bex_key e) = Some en" "ben_generation en = bex_generation e"
      by (rule head_entry [OF Suc.prems(1) Cons])
    define t where "t = expiration_from latest (tb_last_refill (ben_bucket en)) stale_after 0"
    show ?thesis
    proof (cases "bex_expires_at e > now")
      case True
      then show ?thesis using Suc.prems Cons by simp
    next
      case False
      define self1 where "self1 = (if t \<le> now then self\<lparr>bt_expirations := rest, bt_entries := hm_remove (bex_key e) (bt_entries self)\<rparr>
        else self\<lparr>bt_expirations := rest @ [e\<lparr>bex_expires_at := t\<rparr>]\<rparr>)"
      obtain k where r: "sweep_buckets n latest now stale_after self1 = (k, self')" "steps = Suc k"
        using Suc.prems(2) Cons False en by (auto simp: Let_def self1_def t_def split: prod.splits if_splits)
      have m: "mset (map entry_slot (bt_entries self)) = add_mset (expiry_slot e) (mset (map entry_slot (hm_remove (bex_key e) (bt_entries self))))"
        using mset_remove_slot [OF _ en(1)] Suc.prems(1) en(2) by (simp add: buckets_ok_def expiry_slot_def)
      have slot: "expiry_slot (e\<lparr>bex_expires_at := t\<rparr>) = expiry_slot e" by (simp add: expiry_slot_def)
      have q: "mset (map expiry_slot (bt_expirations self)) = add_mset (expiry_slot e) (mset (map expiry_slot rest))"
        by (simp add: Cons)
      have ok: "buckets_ok self1"
        using Suc.prems(1) m q slot by (simp add: buckets_ok_def self1_def)
      have l: "length (bt_entries self1) \<le> length (bt_entries self)" by (simp add: self1_def length_hm_remove_le)
      have "map_of (bt_entries self1) k = map_of (bt_entries self) k \<or>
          map_of (bt_entries self1) k = None \<and> (\<exists>en. map_of (bt_entries self) k = Some en \<and> stale latest now stale_after en)" for k
        using en(1) by (simp add: self1_def stale_def t_def)
      moreover note i = Suc.IH [OF ok r(1)]
      moreover have "length (bt_entries self') \<le> length (bt_entries self)" using i l by linarith
      ultimately show ?thesis unfolding r(2) Suc_le_mono by (metis (no_types) option.distinct(1))
    qed
  qed
qed simp

lemma find_eviction_result:
  assumes "buckets_ok self" and "find_eviction n self = (eviction, steps, self')"
  shows "steps \<le> n \<and> bt_entries self' = bt_entries self \<and>
    (case eviction of None \<Rightarrow> self' = self \<and> (n = 0 \<or> bt_expirations self = [])
     | Some e \<Rightarrow> bt_expirations self = e # bt_expirations self' \<and> self' = self\<lparr>bt_expirations := bt_expirations self'\<rparr>)"
proof (cases "n = 0 \<or> bt_expirations self = []")
  case True
  then show ?thesis using assms(2) by (cases n) auto
next
  case False
  then obtain m e rest where f: "n = Suc m" "bt_expirations self = e # rest" by (metis list.exhaust not0_implies_Suc)
  obtain en where "map_of (bt_entries self) (bex_key e) = Some en" "ben_generation en = bex_generation e"
    by (rule head_entry [OF assms(1) f(2)])
  then show ?thesis using assms(2) f by (auto simp: Let_def)
qed

lemma prepare_slot_result:
  assumes "buckets_ok self" and "prepare_slot latest maximum now stale_after self = (p, self')"
  shows "ps_maintenance_steps p \<le> MAX_BUCKET_MAINTENANCE_STEPS_PER_PACKET \<and>
    buckets_ok (restore_slot (ps_eviction p) self') \<and> buckets_ok (commit_slot (ps_eviction p) self') \<and>
    bt_entries (restore_slot (ps_eviction p) self') = bt_entries self' \<and>
    length (bt_entries self') \<le> length (bt_entries self) \<and>
    (ps_available p \<and> length (bt_entries self) \<le> maximum \<longrightarrow> length (bt_entries (commit_slot (ps_eviction p) self')) < maximum) \<and>
    (\<not> ps_available p \<longrightarrow> ps_eviction p = None) \<and> (ps_eviction p \<noteq> None \<longrightarrow> maximum \<le> length (bt_entries self)) \<and>
    (\<forall>k. map_of (bt_entries self') k = map_of (bt_entries self) k \<or>
       map_of (bt_entries self') k = None \<and> (\<exists>en. map_of (bt_entries self) k = Some en \<and> stale latest now stale_after en))"
proof -
  obtain s1 self1 where sw: "sweep_buckets MAX_BUCKET_MAINTENANCE_STEPS_PER_PACKET latest now stale_after self = (s1, self1)" by fastforce
  note r = sweep_buckets_result [OF assms(1) sw]
  show ?thesis
  proof (cases "length (bt_entries self1) \<ge> maximum")
    case False
    then show ?thesis using assms(2) sw r
      by (auto simp: prepare_slot_def bucket_sweep_expired_def Let_def restore_slot_def commit_slot_def)
  next
    case True
    obtain ev s2 self2 where fe: "find_eviction (MAX_BUCKET_MAINTENANCE_STEPS_PER_PACKET - s1) self1 = (ev, s2, self2)" using prod_cases3 by blast
    have p: "p = \<lparr>ps_eviction = ev, ps_maintenance_steps = s1 + s2, ps_available = length (bt_entries self2) < maximum \<or> ev \<noteq> None\<rparr>" "self' = self2"
      using assms(2) sw fe True by (auto simp: prepare_slot_def bucket_sweep_expired_def Let_def)
    note f = find_eviction_result [OF conjunct1 [OF r] fe]
    show ?thesis
    proof (cases ev)
      case None
      then show ?thesis using f r p True by (auto simp: restore_slot_def commit_slot_def)
    next
      case (Some e)
      then have q: "bt_expirations self1 = e # bt_expirations self2" "bt_entries self2 = bt_entries self1"
        "self1 = self2\<lparr>bt_expirations := e # bt_expirations self2\<rparr>" using f by (cases self1; cases self2; auto)+
      obtain en where en: "map_of (bt_entries self1) (bex_key e) = Some en" "ben_generation en = bex_generation e"
        by (rule head_entry [OF conjunct1 [OF r] q(1)])
      have ok1: "hm_ok (bt_entries self1)" using r by (simp add: buckets_ok_def)
      have "mset (map entry_slot (bt_entries self1)) = add_mset (expiry_slot e) (mset (map entry_slot (hm_remove (bex_key e) (bt_entries self1))))"
        using mset_remove_slot [OF ok1 en(1)] en(2) by (simp add: expiry_slot_def)
      then have "buckets_ok (commit_slot ev self2)" using conjunct1 [OF r] q(1,2) by (simp add: buckets_ok_def commit_slot_def Some)
      moreover have "restore_slot ev self2 = self1" by (subst q(3)) (simp add: restore_slot_def Some)
      moreover have "length (bt_entries self1) = Suc (length (hm_remove (bex_key e) (bt_entries self1)))" by (rule length_hm_remove [OF ok1 en(1)])
      ultimately show ?thesis using f r p q(2) Some True by (auto simp: commit_slot_def)
    qed
  qed
qed

lemma buckets_ok_replace:
  assumes "buckets_ok self" and "map_of (bt_entries self) key = Some entry" and "ben_generation entry' = ben_generation entry"
  shows "buckets_ok (self\<lparr>bt_entries := hm_insert key entry' (bt_entries self)\<rparr>)"
  using assms mset_insert_present [of "bt_entries self" key entry entry'] by (simp add: buckets_ok_def entry_slot_def)

lemma take_entry_result:
  assumes "buckets_ok self" and "map_of (bt_entries self) key = Some entry"
    and "take_entry key entry capacity interval now self = (a, self')"
  shows "buckets_ok self' \<and> length (bt_entries self') = length (bt_entries self) \<and> ba_maintenance_steps a = 0 \<and>
    (\<exists>b. bucket_take capacity interval now (ben_bucket entry) = (ba_allowed a, b) \<and>
       map_of (bt_entries self') = (map_of (bt_entries self))(key \<mapsto> entry\<lparr>ben_bucket := b\<rparr>))"
  using assms buckets_ok_replace [OF assms(1,2)]
  by (auto simp: take_entry_def length_hm_insert split: prod.splits)

lemma insert_bucket_result:
  assumes "buckets_ok self" and "map_of (bt_entries self) key = None"
    and "observation_insert_bucket latest key capacity interval now stale_after steps self = (a, self')"
  shows "buckets_ok self' \<and> length (bt_entries self') = Suc (length (bt_entries self)) \<and> ba_maintenance_steps a = steps \<and>
    (\<exists>b g. bucket_take capacity interval now (TokenBucket_new capacity now) = (ba_allowed a, b) \<and>
       map_of (bt_entries self') = (map_of (bt_entries self))(key \<mapsto> \<lparr>ben_bucket = b, ben_generation = g\<rparr>))"
proof -
  have "hm_ok (bt_entries self @ [(key, v)])" for v
    using hm_ok_insert [of "bt_entries self" key v] hm_insert_absent [OF assms(2), of v] assms(1) by (simp add: buckets_ok_def)
  then show ?thesis using assms
  by (auto simp: observation_insert_bucket_def buckets_ok_def hm_insert_absent entry_slot_def expiry_slot_def Let_def map_add_def
      fun_eq_iff split: prod.splits option.splits)
qed

lemma commit_absent:
  assumes "buckets_ok self" and "prepare_slot latest maximum now stale_after self = (p, self')" and "map_of (bt_entries self) key = None"
  shows "map_of (bt_entries (commit_slot (ps_eviction p) self')) key = None"
proof -
  have "map_of (bt_entries self') key = None" using prepare_slot_result [OF assms(1,2)] assms(3) by metis
  then show ?thesis by (simp add: commit_slot_def split: option.split)
qed

text \<open>
  An answer of the table either comes from the entry of the key or from a new bucket. The entries of
  other keys stay unless they are stale or, in a full table, evicted.
\<close>

lemma bucket_allow_result:
  assumes ok: "buckets_ok self" and room: "length (bt_entries self) \<le> maximum"
    and a: "bucket_allow latest key maximum capacity interval now self = (a, self')"
  shows "buckets_ok self' \<and> length (bt_entries self') \<le> maximum \<and>
    ba_maintenance_steps a \<le> MAX_BUCKET_MAINTENANCE_STEPS_PER_PACKET"
proof (cases "map_of (bt_entries self) key")
  case None
  obtain p self1 where p: "prepare_slot latest maximum now (checked_mul_or_max interval capacity) self = (p, self1)" by fastforce
  note r = prepare_slot_result [OF ok p]
  show ?thesis
  proof (cases "ps_available p")
    case False
    then show ?thesis using a None p r room by (auto simp: bucket_allow_def Let_def restore_slot_def)
  next
    case True
    have "observation_insert_bucket latest key capacity interval now (checked_mul_or_max interval capacity) (ps_maintenance_steps p)
        (commit_slot (ps_eviction p) self1) = (a, self')"
      using a None p True by (simp add: bucket_allow_def Let_def)
    from insert_bucket_result [OF _ commit_absent [OF ok p None] this] r True room show ?thesis by auto
  qed
next
  case (Some entry)
  with a have "take_entry key entry capacity interval now self = (a, self')" by (simp add: bucket_allow_def)
  from take_entry_result [OF ok Some this] room show ?thesis by simp
qed

lemma allow_new_source_result:
  assumes ok: "buckets_ok self" and room: "length (bt_entries self) \<le> maximum"
    and a: "allow_new_source latest key maximum capacity interval now global global_capacity self = (a, global', self')"
  shows "buckets_ok self' \<and> length (bt_entries self') \<le> maximum \<and>
    ba_maintenance_steps a \<le> MAX_BUCKET_MAINTENANCE_STEPS_PER_PACKET"
proof (cases "map_of (bt_entries self) key")
  case None
  obtain p self1 where p: "prepare_slot latest maximum now (checked_mul_or_max interval capacity) self = (p, self1)" by fastforce
  obtain g global1 where g: "bucket_take global_capacity interval now global = (g, global1)" by fastforce
  note r = prepare_slot_result [OF ok p]
  show ?thesis
  proof (cases "ps_available p \<and> g")
    case False
    then show ?thesis using a None p g r room by (auto simp: allow_new_source_def Let_def restore_slot_def split: if_splits)
  next
    case True
    have "observation_insert_bucket latest key capacity interval now (checked_mul_or_max interval capacity) (ps_maintenance_steps p)
        (commit_slot (ps_eviction p) self1) = (a, self')"
      using a None p g True by (auto simp: allow_new_source_def Let_def split: prod.splits)
    from insert_bucket_result [OF _ commit_absent [OF ok p None] this] r True room show ?thesis by auto
  qed
next
  case (Some entry)
  with a have "take_entry key entry capacity interval now self = (a, self')" by (auto simp: allow_new_source_def split: prod.splits)
  from take_entry_result [OF ok Some this] room show ?thesis by simp
qed

subsection \<open>The buckets\<close>

lemma unat_saturating:
  "unat (min (u32_saturating_add t (u32_try_from_or_max n)) c) = min (unat t + n) (unat c)" if "t \<le> c"
proof -
  have c: "unat c < 2 ^ 32" "unat t < 2 ^ 32" using unat_less_pow [of c] unat_less_pow [of t] by simp_all
  have m: "unat (min a b) = min (unat a) (unat b)" for a b :: u32 by (simp add: min_def word_le_nat_alt)
  have top: "unat (- 1 :: u32) = 2 ^ 32 - 1" by (simp add: unsigned_minus_1_eq_mask mask_eq_exp_minus_1)
  have u: "unat (u32_try_from_or_max n) = min n (2 ^ 32 - 1)"
    by (auto simp: u32_try_from_or_max_def unat_of_nat take_bit_nat_eq_self top)
  have "unat (u32_saturating_add t x) = min (unat t + unat x) (2 ^ 32 - 1)" for x
    by (auto simp: u32_saturating_add_def top unat_word_ariths(1))
  then have "unat (u32_saturating_add t (u32_try_from_or_max n)) = min (unat t + min n (2 ^ 32 - 1)) (2 ^ 32 - 1)" by (simp only: u)
  then show ?thesis unfolding m using c by (auto simp: min_def)
qed

lemma take_effect:
  assumes "bucket_take capacity interval now b = (allowed, b')" and "tb_capacity b = capacity" and "tb_tokens b \<le> capacity"
    and "0 < interval"
  shows "tb_capacity b' = capacity" "tb_tokens b' \<le> capacity"
    and "(if allowed then 1 else 0) + unat (tb_tokens b') = min (unat (tb_tokens b) + (now - tb_last_refill b) div interval) (unat capacity)"
    and "tb_last_refill b' = (if (now - tb_last_refill b) div interval > 0 then now else tb_last_refill b)"
proof -
  let ?r = "(now - tb_last_refill b) div interval"
  define tokens where "tokens = (if ?r > 0 then min (u32_saturating_add (tb_tokens b) (u32_try_from_or_max ?r)) capacity else tb_tokens b)"
  have t: "unat tokens = min (unat (tb_tokens b) + ?r) (unat capacity)"
    using unat_saturating [OF assms(3), of ?r] assms(3) by (auto simp: tokens_def word_le_nat_alt)
  have dec: "unat (tokens - 1) = unat tokens - 1" if "tokens \<noteq> 0" using that by (simp add: unat_minus_one)
  have b': "allowed \<longleftrightarrow> tokens \<noteq> 0" "tb_tokens b' = (if tokens \<noteq> 0 then tokens - 1 else 0)"
      "tb_last_refill b' = (if ?r > 0 then now else tb_last_refill b)" "tb_capacity b' = capacity"
    using assms(1,2) by (auto simp: bucket_take_def Let_def tokens_def split: if_splits)
  have z: "tokens = 0 \<longleftrightarrow> unat tokens = 0" by (simp add: unat_eq_0)
  have n: "(if allowed then 1 else 0) + unat (tb_tokens b') = unat tokens" using b' dec z by auto
  show "tb_capacity b' = capacity" "tb_last_refill b' = (if ?r > 0 then now else tb_last_refill b)" by (fact b'(4), fact b'(3))
  show "(if allowed then 1 else 0) + unat (tb_tokens b') = min (unat (tb_tokens b) + ?r) (unat capacity)" using n t by simp
  show "tb_tokens b' \<le> capacity" using n t by (simp add: word_le_nat_alt split: if_splits)
qed

text \<open>A bucket that was left alone for as long as it takes to fill is as good as a new one.\<close>

lemma stale_as_new:
  assumes "tb_capacity b = capacity" and "tb_tokens b \<le> capacity" and "0 < interval" and "0 < unat capacity"
    and "tb_last_refill b + interval * unat capacity \<le> now"
  shows "bucket_take capacity interval now b = bucket_take capacity interval now (TokenBucket_new capacity now)"
proof -
  let ?r = "(now - tb_last_refill b) div interval"
  have "unat capacity * interval \<le> now - tb_last_refill b" using assms(5) by (simp add: mult.commute)
  then have r: "unat capacity \<le> ?r" using assms(3) by (simp add: less_eq_div_iff_mult_less_eq)
  then have "unat (min (u32_saturating_add (tb_tokens b) (u32_try_from_or_max ?r)) capacity) = unat capacity"
    using unat_saturating [OF assms(2), of ?r] by simp
  then have "min (u32_saturating_add (tb_tokens b) (u32_try_from_or_max ?r)) capacity = capacity" by (simp only: word_unat_eq_iff)
  then show ?thesis using assms(1,4) r by (simp add: bucket_take_def TokenBucket_new_def Let_def)
qed

text \<open>
  The reference: a table without bounds that keeps the bucket of every key it has seen.
\<close>

definition reference_allow :: "u32 \<Rightarrow> nat \<Rightarrow> ('k \<rightharpoonup> TokenBucket) \<Rightarrow> nat \<times> 'k \<Rightarrow> bool \<times> ('k \<rightharpoonup> TokenBucket)" where
  "reference_allow capacity interval m event =
     (let (now, key) = event;
          b = (case m key of Some b \<Rightarrow> b | None \<Rightarrow> TokenBucket_new capacity now);
          (allowed, b) = bucket_take capacity interval now b
      in (allowed, m(key \<mapsto> b)))"

definition table_allow :: "nat \<Rightarrow> nat \<Rightarrow> u32 \<Rightarrow> nat \<Rightarrow> 'k BucketTable \<Rightarrow> nat \<times> 'k \<Rightarrow> bool \<times> 'k BucketTable" where
  "table_allow latest maximum capacity interval self event =
     (let (now, key) = event; (admission, self) = bucket_allow latest key maximum capacity interval now self
      in (ba_allowed admission, self))"

definition buckets_sound :: "u32 \<Rightarrow> nat \<Rightarrow> ('k \<rightharpoonup> TokenBucket) \<Rightarrow> bool" where
  "buckets_sound capacity now m \<longleftrightarrow>
     (\<forall>k b. m k = Some b \<longrightarrow> tb_capacity b = capacity \<and> tb_tokens b \<le> capacity \<and> tb_last_refill b \<le> now)"

definition same_answers :: "u32 \<Rightarrow> nat \<Rightarrow> nat \<Rightarrow> 'k BucketTable \<Rightarrow> ('k \<rightharpoonup> TokenBucket) \<Rightarrow> bool" where
  "same_answers capacity interval now self m \<longleftrightarrow>
     (\<forall>k en. map_of (bt_entries self) k = Some en \<longrightarrow> m k = Some (ben_bucket en)) \<and>
     (\<forall>k b. map_of (bt_entries self) k = None \<longrightarrow> m k = Some b \<longrightarrow> tb_last_refill b + interval * unat capacity \<le> now)"

lemma same_answersD:
  assumes "same_answers capacity interval now self m"
  shows "map_of (bt_entries self) k = Some en \<Longrightarrow> m k = Some (ben_bucket en)"
    and "map_of (bt_entries self) k = None \<Longrightarrow> m k = Some b \<Longrightarrow> tb_last_refill b + interval * unat capacity \<le> now"
  using assms unfolding same_answers_def by blast+

lemma new_bucket_sound: "tb_capacity (TokenBucket_new c now) = c" "tb_tokens (TokenBucket_new c now) \<le> c" "tb_last_refill (TokenBucket_new c now) = now"
  by (simp_all add: TokenBucket_new_def)

lemma reference_sound:
  assumes "buckets_sound capacity t m" and "t \<le> now" and "0 < interval"
    and "reference_allow capacity interval m (now, key) = (allowed, m')"
  shows "buckets_sound capacity now m'"
proof -
  define b where "b = (case m key of Some b \<Rightarrow> b | None \<Rightarrow> TokenBucket_new capacity now)"
  obtain b' where b': "bucket_take capacity interval now b = (allowed, b')" "m' = m(key \<mapsto> b')"
    using assms(4) by (auto simp: reference_allow_def b_def split: prod.splits)
  have b: "tb_capacity b = capacity" "tb_tokens b \<le> capacity" "tb_last_refill b \<le> now"
    using assms(1,2) unfolding b_def buckets_sound_def by (auto simp: new_bucket_sound split: option.splits intro: le_trans)
  note e = take_effect [OF b'(1) b(1,2) assms(3)]
  show ?thesis using assms(1,2) e(1,2,4) b(3) unfolding buckets_sound_def b'(2) by (auto intro: le_trans)
qed

lemma allow_simulates:
  assumes ok: "buckets_ok self" and sa: "same_answers capacity interval t self m" and snd: "buckets_sound capacity t m" and "t \<le> now"
    and pos: "0 < interval" "0 < unat capacity" and fits: "interval * unat capacity \<le> DURATION_MAX" "now + interval * unat capacity \<le> latest"
    and room: "map_of (bt_entries self) key = None \<Longrightarrow> length (bt_entries self) < maximum"
    and a: "table_allow latest maximum capacity interval self (now, key) = (allowed, self')"
  shows "\<exists>m'. reference_allow capacity interval m (now, key) = (allowed, m') \<and> buckets_ok self' \<and> same_answers capacity interval now self' m' \<and>
    dom (map_of (bt_entries self')) \<subseteq> insert key (dom (map_of (bt_entries self)))"
proof -
  have later: "same_answers capacity interval now self m"
    using sa \<open>t \<le> now\<close> unfolding same_answers_def by (blast intro: le_trans)
  obtain adm where adm: "bucket_allow latest key maximum capacity interval now self = (adm, self')" "allowed = ba_allowed adm"
    using a by (auto simp: table_allow_def split: prod.splits)
  show ?thesis
  proof (cases "map_of (bt_entries self) key")
    case (Some entry)
    then have "take_entry key entry capacity interval now self = (adm, self')" using adm by (simp add: bucket_allow_def)
    from take_entry_result [OF ok Some this] obtain b where b: "buckets_ok self'"
      "bucket_take capacity interval now (ben_bucket entry) = (allowed, b)"
      "map_of (bt_entries self') = (map_of (bt_entries self))(key \<mapsto> entry\<lparr>ben_bucket := b\<rparr>)" using adm(2) by auto
    have "reference_allow capacity interval m (now, key) = (allowed, m(key \<mapsto> b))"
      using same_answersD(1) [OF later Some] b(2) by (simp add: reference_allow_def)
    moreover have "same_answers capacity interval now self' (m(key \<mapsto> b))"
      using later unfolding same_answers_def b(3) by auto
    ultimately show ?thesis using b(1,3) by auto
  next
    case None
    let ?s = "interval * unat capacity"
    have s: "checked_mul_or_max interval capacity = ?s" using fits(1) by (simp add: checked_mul_or_max_def)
    obtain p self1 where p: "prepare_slot latest maximum now ?s self = (p, self1)" by fastforce
    note r = prepare_slot_result [OF ok p]
    have e: "ps_eviction p = None" using r room [OF None] by auto
    have "ps_available p" using p r room [OF None] e
      by (auto simp: prepare_slot_def Let_def split: prod.splits if_splits)
    then have i: "observation_insert_bucket latest key capacity interval now ?s (ps_maintenance_steps p) self1 = (adm, self')"
      using adm(1) None p e by (simp add: bucket_allow_def Let_def s commit_slot_def)
    have ok1: "buckets_ok self1" using r e by (simp add: commit_slot_def)
    have absent: "map_of (bt_entries self1) key = None" using r None by metis
    from insert_bucket_result [OF ok1 absent i] obtain b g where b: "buckets_ok self'"
      "bucket_take capacity interval now (TokenBucket_new capacity now) = (allowed, b)"
      "map_of (bt_entries self') = (map_of (bt_entries self1))(key \<mapsto> \<lparr>ben_bucket = b, ben_generation = g\<rparr>)" using adm(2) by auto
    have same: "bucket_take capacity interval now c = bucket_take capacity interval now (TokenBucket_new capacity now)" if "m key = Some c" for c
      using stale_as_new [of c capacity interval now] same_answersD(2) [OF later None that] snd that pos unfolding buckets_sound_def by auto
    have "reference_allow capacity interval m (now, key) = (allowed, m(key \<mapsto> b))"
      using same b(2) by (simp add: reference_allow_def split: option.split)
    moreover have "same_answers capacity interval now self1 m"
      unfolding same_answers_def
    proof (intro conjI allI impI)
      fix k en
      assume "map_of (bt_entries self1) k = Some en"
      then have "map_of (bt_entries self) k = Some en" using r by (metis option.distinct(1))
      then show "m k = Some (ben_bucket en)" by (rule same_answersD(1) [OF later])
    next
      fix k c
      assume k: "map_of (bt_entries self1) k = None" and c: "m k = Some c"
      show "tb_last_refill c + ?s \<le> now"
      proof (cases "map_of (bt_entries self) k")
        case None
        then show ?thesis using c by (rule same_answersD(2) [OF later])
      next
        case (Some en)
        then have "stale latest now ?s en" using r k by (metis option.distinct(1) option.inject)
        moreover have m: "c = ben_bucket en" using same_answersD(1) [OF later Some] c by simp
        moreover have "tb_last_refill c \<le> t" using snd c unfolding buckets_sound_def by auto
        ultimately show ?thesis using fits(2) \<open>t \<le> now\<close>
          by (auto simp: stale_def expiration_from_def instant_checked_add_def split: if_splits)
      qed
    qed
    then have "same_answers capacity interval now self' (m(key \<mapsto> b))" unfolding same_answers_def b(3) by auto
    moreover have "dom (map_of (bt_entries self')) \<subseteq> insert key (dom (map_of (bt_entries self)))"
    proof -
      have "map_of (bt_entries self1) k \<noteq> None \<Longrightarrow> map_of (bt_entries self) k \<noteq> None" for k using r by metis
      then show ?thesis unfolding b(3) by auto
    qed
    ultimately show ?thesis using b(1) by blast
  qed
qed


definition reference_answers :: "u32 \<Rightarrow> nat \<Rightarrow> (nat \<times> 'k) list \<Rightarrow> bool list" where
  "reference_answers capacity interval events = fst (answers (reference_allow capacity interval) (\<lambda>_. None) events)"

definition table_answers :: "nat \<Rightarrow> nat \<Rightarrow> u32 \<Rightarrow> nat \<Rightarrow> (nat \<times> 'k) list \<Rightarrow> bool list" where
  "table_answers latest maximum capacity interval events = fst (answers (table_allow latest maximum capacity interval) BucketTable_default events)"

lemma entries_fit:
  assumes "buckets_ok self" and "dom (map_of (bt_entries self)) \<subseteq> K" and "finite K" and "card K \<le> maximum" and "key \<in> K"
    and "map_of (bt_entries self) key = None"
  shows "length (bt_entries self) < maximum"
proof -
  have "length (bt_entries self) = card (dom (map_of (bt_entries self)))"
    using assms(1) by (simp add: buckets_ok_def hm_ok_def dom_map_of_conv_image_fst distinct_card [of "map fst (bt_entries self)", simplified])
  also have "\<dots> < card K" using assms(2,3,5,6) by (intro psubset_card_mono) auto
  finally show ?thesis using assms(4) by simp
qed

lemma allow_simulates_run:
  assumes "buckets_ok self" and "same_answers capacity interval t self m" and "buckets_sound capacity t m"
    and "dom (map_of (bt_entries self)) \<subseteq> K" and "finite K" "card K \<le> maximum" "snd ` set events \<subseteq> K"
    and "sorted (map fst events)" and "\<forall>e \<in> set events. t \<le> fst e \<and> fst e + interval * unat capacity \<le> latest"
    and "0 < interval" "0 < unat capacity" "interval * unat capacity \<le> DURATION_MAX"
  shows "fst (answers (table_allow latest maximum capacity interval) self events) = fst (answers (reference_allow capacity interval) m events)"
  using assms
proof (induction events arbitrary: self m t)
  case (Cons e events)
  obtain now key where e: "e = (now, key)" by fastforce
  obtain allowed self' where a: "table_allow latest maximum capacity interval self (now, key) = (allowed, self')" by fastforce
  have room: "map_of (bt_entries self) key = None \<Longrightarrow> length (bt_entries self) < maximum"
    using entries_fit [OF Cons.prems(1,4,5,6), of key] Cons.prems(7) by (simp add: e)
  have now: "t \<le> now" "now + interval * unat capacity \<le> latest" using Cons.prems(9) by (simp_all add: e)
  from allow_simulates [OF Cons.prems(1,2,3) now(1) Cons.prems(10,11,12) now(2) room a] obtain m' where
    m': "reference_allow capacity interval m (now, key) = (allowed, m')" "buckets_ok self'" "same_answers capacity interval now self' m'"
      "dom (map_of (bt_entries self')) \<subseteq> insert key (dom (map_of (bt_entries self)))" by auto
  have "dom (map_of (bt_entries self')) \<subseteq> K" using Cons.prems(4,7) by (intro subset_trans [OF m'(4)]) (simp add: e)
  then have "fst (answers (table_allow latest maximum capacity interval) self' events) = fst (answers (reference_allow capacity interval) m' events)"
    using Cons.prems(5-9)
    by (intro Cons.IH [OF m'(2,3) reference_sound [OF Cons.prems(3) now(1) Cons.prems(10) m'(1)] _ Cons.prems(5,6) _ _ _ Cons.prems(10-12)])
      (auto simp: e)
  then show ?case by (simp add: e a m'(1) split_beta Let_def)
qed simp

text \<open>
  C32 (bounded rate tables forget nothing that matters): while no more devices than the table has
  room for send probes, the table that drops idle buckets answers every request exactly as one that
  keeps the bucket of every device forever.
\<close>

theorem bounded_table_exact:
  assumes "sorted (map fst events)" and "card (snd ` set events) \<le> maximum"
    and "0 < interval" and "0 < unat capacity" and "interval * unat capacity \<le> DURATION_MAX"
    and "\<forall>e \<in> set events. fst e + interval * unat capacity \<le> latest"
  shows "table_answers latest maximum capacity interval events = reference_answers capacity interval events"
  unfolding table_answers_def reference_answers_def
  using assms by (intro allow_simulates_run [OF buckets_ok_default, where t = 0 and K = "snd ` set events"])
    (auto simp: same_answers_def buckets_sound_def BucketTable_default_def)

definition counts_for :: "'k \<Rightarrow> nat \<Rightarrow> nat \<Rightarrow> (nat \<times> 'k) list \<Rightarrow> bool list \<Rightarrow> nat" where
  "counts_for k from to events oks = length (filter (\<lambda>((now, key), ok). ok \<and> key = k \<and> from \<le> now \<and> now \<le> to) (zip events oks))"

lemma counts_for_simps [simp]:
  "counts_for k from to [] oks = 0"
  "counts_for k from to ((now, key) # events) (ok # oks) =
     (if ok \<and> key = k \<and> from \<le> now \<and> now \<le> to then 1 else 0) + counts_for k from to events oks"
  by (simp_all add: counts_for_def)

lemma reference_counts:
  assumes "m k = Some b" and "tb_capacity b = capacity" "tb_tokens b \<le> capacity" and "0 < interval"
    and "sorted (map fst events)" "\<forall>e \<in> set events. tb_last_refill b \<le> fst e"
  shows "counts_for k from to events (fst (answers (reference_allow capacity interval) m events)) \<le>
    unat (tb_tokens b) + (to - tb_last_refill b) div interval"
  using assms
proof (induction events arbitrary: m b)
  case (Cons e events)
  obtain now key where e: "e = (now, key)" by fastforce
  obtain allowed m' where a: "reference_allow capacity interval m (now, key) = (allowed, m')" by fastforce
  show ?case
  proof (cases "key = k")
    case False
    then have "m' k = Some b" using a Cons.prems(1) by (auto simp: reference_allow_def split: prod.splits)
    from Cons.IH [of m' b, OF this Cons.prems(2-4)] Cons.prems(5,6) False show ?thesis by (simp add: e a split_beta Let_def)
  next
    case True
    obtain b' where b': "bucket_take capacity interval now b = (allowed, b')" "m' k = Some b'"
      using a Cons.prems(1) True by (auto simp: reference_allow_def split: prod.splits)
    note t = take_effect [OF b'(1) Cons.prems(2-4)]
    have last: "tb_last_refill b \<le> now" using Cons.prems(6) by (simp add: e)
    have "counts_for k from to events (fst (answers (reference_allow capacity interval) m' events)) \<le>
        unat (tb_tokens b') + (to - tb_last_refill b') div interval"
      using t(4) Cons.prems(5,6) last by (intro Cons.IH [of m' b', OF b'(2) t(1,2) Cons.prems(4)]) (auto simp: e)
    moreover have "(now - tb_last_refill b) div interval + (to - tb_last_refill b') div interval \<le> (to - tb_last_refill b) div interval" if "now \<le> to"
    proof (cases "(now - tb_last_refill b) div interval > 0")
      case True
      have d: "to - tb_last_refill b = (now - tb_last_refill b) + (to - now)" using that last by simp
      have "(to - tb_last_refill b) div interval = (now - tb_last_refill b) div interval + (to - now) div interval +
          ((now - tb_last_refill b) mod interval + (to - now) mod interval) div interval" by (subst d) (rule div_add1_eq)
      then show ?thesis using True t(4) by simp
    qed (simp add: t(4))
    moreover have "counts_for k from to events (fst (answers (reference_allow capacity interval) m' events)) = 0" if "\<not> now \<le> to"
      using that Cons.prems(5) by (auto simp: counts_for_def e filter_empty_conv dest!: set_zip_leftD)
    ultimately show ?thesis using t(3) by (cases "now \<le> to") (auto simp: e a split_beta Let_def min_def split: if_splits)
  qed
qed simp

lemma reference_rate:
  assumes "buckets_sound capacity t m" and "0 < interval" and "sorted (map fst events)" "\<forall>e \<in> set events. t \<le> fst e"
  shows "counts_for k from to events (fst (answers (reference_allow capacity interval) m events)) \<le>
    unat capacity + (to - from) div interval + 1"
  using assms
proof (induction events arbitrary: m t)
  case (Cons e events)
  obtain now key where e: "e = (now, key)" by fastforce
  obtain allowed m' where a: "reference_allow capacity interval m (now, key) = (allowed, m')" by fastforce
  have t: "t \<le> now" using Cons.prems(4) by (simp add: e)
  note s = reference_sound [OF Cons.prems(1) t Cons.prems(2) a]
  have ev: "sorted (map fst events)" "\<forall>e \<in> set events. now \<le> fst e" using Cons.prems(3) by (auto simp: e)
  show ?case
  proof (cases "key = k \<and> from \<le> now \<and> now \<le> to")
    case False
    from Cons.IH [OF s Cons.prems(2) ev] False show ?thesis by (auto simp: e a split_beta Let_def)
  next
    case True
    define b where "b = (case m key of Some b \<Rightarrow> b | None \<Rightarrow> TokenBucket_new capacity now)"
    obtain b' where b': "bucket_take capacity interval now b = (allowed, b')" "m' k = Some b'"
      using a True by (auto simp: reference_allow_def b_def split: prod.splits)
    have b: "tb_capacity b = capacity" "tb_tokens b \<le> capacity" "tb_last_refill b \<le> now"
      using Cons.prems(1) t unfolding b_def buckets_sound_def by (auto simp: new_bucket_sound split: option.splits intro: le_trans)
    note te = take_effect [OF b'(1) b(1,2) Cons.prems(2)]
    have c: "counts_for k from to events (fst (answers (reference_allow capacity interval) m' events)) \<le>
        unat (tb_tokens b') + (to - tb_last_refill b') div interval"
      using te(4) b(3) ev by (intro reference_counts [of m' k b', OF b'(2) te(1,2) Cons.prems(2)]) (auto intro: le_trans)
    have "now < tb_last_refill b' + interval"
    proof (cases "(now - tb_last_refill b) div interval > 0")
      case False
      then have "now - tb_last_refill b < interval" using Cons.prems(2) by (simp add: div_eq_0_iff)
      then show ?thesis using te(4) False b(3) by simp
    qed (use te(4) Cons.prems(2) in simp)
    then have "to - tb_last_refill b' \<le> (to - from) + interval" using True by linarith
    then have "(to - tb_last_refill b') div interval \<le> ((to - from) + interval) div interval" by (rule div_le_mono)
    then have "(to - tb_last_refill b') div interval \<le> (to - from) div interval + 1"
      using div_add_self2 [of interval "to - from"] Cons.prems(2) by linarith
    with c te(3) show ?thesis by (auto simp: e a split_beta Let_def split: if_splits)
  qed
qed simp

text \<open>
  A device is answered at a bounded rate: while the table has room for the devices that send
  probes, a device is granted at most its burst, one more, and one per refill interval in any span of
  time.
\<close>

theorem device_rate_bounded:
  assumes "sorted (map fst events)" and "card (snd ` set events) \<le> maximum"
    and "0 < interval" and "0 < unat capacity" and "interval * unat capacity \<le> DURATION_MAX"
    and "\<forall>e \<in> set events. fst e + interval * unat capacity \<le> latest"
  shows "counts_for device from to events (table_answers latest maximum capacity interval events) \<le>
    unat capacity + (to - from) div interval + 1"
proof -
  have "table_answers latest maximum capacity interval events = reference_answers capacity interval events"
    unfolding table_answers_def reference_answers_def
    using assms by (intro allow_simulates_run [OF buckets_ok_default, where t = 0 and K = "snd ` set events"])
      (auto simp: same_answers_def buckets_sound_def BucketTable_default_def)
  then show ?thesis unfolding reference_answers_def
    using reference_rate [of capacity 0 "\<lambda>_. None" interval events] assms(1,3) by (simp add: buckets_sound_def)
qed

subsection \<open>Runs of the service\<close>

datatype observation_op =
    ObservationIssue nat nat AuthenticatedClient "bytes option list"
  | ObservationRedeem nat nat ObservationProbe ObservationEndpoint IpAddr
  | ObservationDevice nat nat string

fun observation_step :: "ObservationRuntimeLimits \<Rightarrow> ObservationState \<Rightarrow> observation_op \<Rightarrow> ObservationState" where
  "observation_step limits state (ObservationIssue now expires_at identity draws) =
     snd (issue_section limits now expires_at identity draws state)"
| "observation_step limits state (ObservationRedeem latest now probe endpoint source_ip) =
     snd (redeem_section limits latest now probe endpoint source_ip state)"
| "observation_step limits state (ObservationDevice latest now device_key) =
     snd (device_section limits latest now device_key state)"

fun granted_tokens :: "ObservationRuntimeLimits \<Rightarrow> ObservationState \<Rightarrow> observation_op \<Rightarrow> bytes set" where
  "granted_tokens limits state (ObservationIssue now expires_at identity draws) =
     (case fst (issue_section limits now expires_at identity draws state) of
        Inr (primary, alternate) \<Rightarrow> {primary, alternate} | Inl _ \<Rightarrow> {})"
| "granted_tokens limits state _ = {}"

fun spent_token :: "ObservationRuntimeLimits \<Rightarrow> ObservationState \<Rightarrow> observation_op \<Rightarrow> bytes option" where
  "spent_token limits state (ObservationRedeem latest now probe endpoint source_ip) =
     map_option (\<lambda>_. op_token probe) (fst (redeem_section limits latest now probe endpoint source_ip state))"
| "spent_token limits state _ = None"

definition token_live :: "ObservationState \<Rightarrow> bytes \<Rightarrow> bool" where
  "token_live state token \<longleftrightarrow> map_of (os_pending state) token \<noteq> None"

definition observation_inv :: "ObservationRuntimeLimits \<Rightarrow> ObservationState \<Rightarrow> bool" where
  "observation_inv limits state \<longleftrightarrow>
     hm_ok (os_pending state) \<and> length (os_pending state) \<le> orl_max_pending_tokens limits \<and>
     buckets_ok (os_ip_buckets state) \<and> length (bt_entries (os_ip_buckets state)) \<le> orl_max_tracked_ips limits \<and>
     buckets_ok (os_device_buckets state) \<and> length (bt_entries (os_device_buckets state)) \<le> orl_max_tracked_devices limits \<and>
     2 \<le> orl_max_pending_tokens limits"

lemma unique_token_fresh:
  "unique_token_loop n pending excluded draws = (Inr token, rest) \<Longrightarrow> map_of pending token = None \<and> excluded \<noteq> Some token"
  by (induction n pending excluded draws rule: unique_token_loop.induct) (auto split: if_splits)

lemma issue_section_result:
  assumes "issue_section limits now expires_at identity draws state = (res, state')"
  shows "case res of
      Inl _ \<Rightarrow> state' = retain_pending now state
    | Inr (primary, alternate) \<Rightarrow> primary \<noteq> alternate \<and> length (os_pending (retain_pending now state)) + 2 \<le> orl_max_pending_tokens limits + (2 - orl_max_pending_tokens limits) \<and>
        map_of (os_pending (retain_pending now state)) primary = None \<and> map_of (os_pending (retain_pending now state)) alternate = None \<and>
        state' = (retain_pending now state)\<lparr>os_pending :=
          hm_insert alternate \<lparr>pt_identity = identity, pt_endpoint = EndpointAlternate, pt_expires_at = expires_at\<rparr>
            (hm_insert primary \<lparr>pt_identity = identity, pt_endpoint = EndpointPrimary, pt_expires_at = expires_at\<rparr>
              (os_pending (retain_pending now state)))\<rparr>"
  using assms
  by (auto simp: issue_section_def Let_def issue_unique_token_def not_less split: if_splits prod.splits sum.splits dest!: unique_token_fresh)

lemma redeem_section_result:
  assumes "redeem_section limits latest now probe endpoint source_ip state = (res, state')"
  shows "os_device_buckets state' = os_device_buckets state \<and>
    (os_pending state' = os_pending state \<and> res = None \<or> os_pending state' = hm_remove (op_token probe) (os_pending state)) \<and>
    (\<forall>entry. res = Some entry \<longrightarrow> map_of (os_pending state) (op_token probe) = Some entry \<and> pt_endpoint entry = endpoint \<and>
       now < pt_expires_at entry \<and> os_pending state' = hm_remove (op_token probe) (os_pending state)) \<and>
    (os_ip_buckets state' = os_ip_buckets state \<or>
     (\<exists>capacity a g. allow_new_source latest (canonical_ip source_ip) (orl_max_tracked_ips limits) (orl_per_ip_burst limits)
        (orl_refill_interval limits) now (os_global_ip_admission state) capacity (os_ip_buckets state) = (a, g, os_ip_buckets state')))"
  using assms by (auto simp: redeem_section_def Let_def split: option.splits prod.splits if_splits)

lemma hm_ok_filter: "hm_ok m \<Longrightarrow> hm_ok (filter P m)"
  by (induction m) (auto simp: hm_ok_def)

lemma observation_inv_step:
  assumes inv: "observation_inv limits state"
  shows "observation_inv limits (observation_step limits state op)"
proof (cases op)
  case (ObservationIssue now expires_at identity draws)
  obtain res state' where r: "issue_section limits now expires_at identity draws state = (res, state')" by fastforce
  have "observation_inv limits (retain_pending now state)"
    using inv by (auto simp: observation_inv_def retain_pending_def hm_ok_filter intro: le_trans [OF length_filter_le])
  with issue_section_result [OF r] show ?thesis
    by (auto simp: ObservationIssue r observation_inv_def length_hm_insert split: sum.splits prod.splits)
next
  case (ObservationRedeem latest now probe endpoint source_ip)
  obtain res state' where r: "redeem_section limits latest now probe endpoint source_ip state = (res, state')" by fastforce
  note s = redeem_section_result [OF r]
  have "buckets_ok (os_ip_buckets state') \<and> length (bt_entries (os_ip_buckets state')) \<le> orl_max_tracked_ips limits"
    using s inv allow_new_source_result [of "os_ip_buckets state" "orl_max_tracked_ips limits"] by (auto simp: observation_inv_def)
  moreover have "hm_ok (os_pending state') \<and> length (os_pending state') \<le> orl_max_pending_tokens limits"
    using s inv by (auto simp: observation_inv_def intro: le_trans [OF length_hm_remove_le])
  ultimately show ?thesis using s inv by (simp add: ObservationRedeem r observation_inv_def)
next
  case (ObservationDevice latest now device_key)
  obtain a t where "bucket_allow latest device_key (orl_max_tracked_devices limits) (orl_per_device_burst limits)
      (orl_refill_interval limits) now (os_device_buckets state) = (a, t)" by fastforce
  with bucket_allow_result [OF _ _ this] inv show ?thesis
    by (auto simp: ObservationDevice device_section_def observation_inv_def)
qed

interpretation observation_tokens: single_use "observation_step limits" "granted_tokens limits" "spent_token limits" token_live "observation_inv limits"
  for limits
proof
  fix s op t
  assume inv: "observation_inv limits s"
  show "observation_inv limits (observation_step limits s op)" by (rule observation_inv_step [OF inv])
  show "token_live s t" if h: "spent_token limits s op = Some t"
  proof (cases op)
    case (ObservationRedeem latest now probe endpoint source_ip)
    obtain res s' where r: "redeem_section limits latest now probe endpoint source_ip s = (res, s')" by fastforce
    show ?thesis using h redeem_section_result [OF r] by (auto simp: ObservationRedeem r token_live_def)
  qed (use h in simp_all)
  show "\<not> token_live (observation_step limits s op) t" if h: "spent_token limits s op = Some t"
  proof (cases op)
    case (ObservationRedeem latest now probe endpoint source_ip)
    obtain res s' where r: "redeem_section limits latest now probe endpoint source_ip s = (res, s')" by fastforce
    show ?thesis using h redeem_section_result [OF r] by (auto simp: ObservationRedeem r token_live_def)
  qed (use h in simp_all)
  show "token_live s t \<or> t \<in> granted_tokens limits s op" if h: "token_live (observation_step limits s op) t"
  proof (cases op)
    case (ObservationIssue now expires_at identity draws)
    obtain res s' where r: "issue_section limits now expires_at identity draws s = (res, s')" by fastforce
    have "token_live (retain_pending now s) t \<Longrightarrow> token_live s t"
      using inv by (auto simp: token_live_def retain_pending_def observation_inv_def hm_ok_def map_of_filter_value split: option.splits)
    with h issue_section_result [OF r] show ?thesis
      by (auto simp: ObservationIssue r token_live_def split: sum.splits prod.splits if_splits)
  next
    case (ObservationRedeem latest now probe endpoint source_ip)
    obtain res s' where r: "redeem_section limits latest now probe endpoint source_ip s = (res, s')" by fastforce
    show ?thesis using h redeem_section_result [OF r] by (auto simp: ObservationRedeem r token_live_def split: if_splits)
  qed (use h in \<open>auto simp: token_live_def device_section_def split: prod.splits\<close>)
qed

lemma observation_inv_default:
  "2 \<le> orl_max_pending_tokens limits \<Longrightarrow> observation_inv limits (ObservationState_default now)"
  by (simp add: observation_inv_def ObservationState_default_def buckets_ok_default) (simp add: BucketTable_default_def)

text \<open>
  C30 (observation tokens are used once and tables are bounded): in any interleaving of grants, probes
  and device checks a token is redeemed at most as often as it was granted, and the pending tokens,
  the tracked addresses and the tracked devices stay within their limits with one expiration queued
  for each tracked subject.
\<close>

theorem observation_bounded:
  assumes "bind_accepts latest now latest_system system_now primary_port alternate_port limits"
    and "state = foldl (observation_step limits) (ObservationState_default start) ops"
  shows "observation_tokens.times_spent limits (ObservationState_default start) ops token \<le>
      observation_tokens.times_minted limits (ObservationState_default start) ops token \<and>
    length (os_pending state) \<le> orl_max_pending_tokens limits \<and>
    length (bt_entries (os_ip_buckets state)) \<le> orl_max_tracked_ips limits \<and>
    length (bt_entries (os_device_buckets state)) \<le> orl_max_tracked_devices limits \<and>
    length (bt_expirations (os_ip_buckets state)) = length (bt_entries (os_ip_buckets state)) \<and>
    length (bt_expirations (os_device_buckets state)) = length (bt_entries (os_device_buckets state))"
proof -
  have "observation_inv limits (ObservationState_default start)"
    using assms(1) by (intro observation_inv_default) (auto simp: bind_accepts_def observation_limits_valid_def)
  moreover have "\<not> token_live (ObservationState_default start) token" by (simp add: token_live_def ObservationState_default_def)
  ultimately show ?thesis
    using observation_tokens.spent_at_most_minted [of limits "ObservationState_default start" token ops]
      observation_tokens.foldl_inv [of limits "ObservationState_default start" ops]
    by (auto simp: assms(2) observation_inv_def buckets_ok_length)
qed

text \<open>
  C31 (answers of the observation service): a datagram is answered only when it is a probe with a
  pending, unexpired token granted for this very port to a session that is active now. The answer
  tells the source of the datagram and the probe's nonce, is no longer than the datagram, and the token is gone.
\<close>

theorem observation_answer_sound:
  assumes "postcard_faithful pc" and "serve_datagram pc limits latest now endpoint source datagram w state = (Some reply, state')"
    and "wf_SocketAddress (observation_wire_address source)"
  shows "\<exists>probe entry. ObservationProbe_decode pc datagram = Inr probe \<and>
    map_of (os_pending state) (op_token probe) = Some entry \<and> pt_endpoint entry = endpoint \<and> now < pt_expires_at entry \<and>
    is_active_session w (pt_identity entry) \<and> map_of (os_pending state') (op_token probe) = None \<and>
    ObservationReply_decode pc reply =
      Inr \<lparr>orp_nonce = op_nonce probe, orp_observed_source = observation_wire_address source, orp_endpoint = endpoint\<rparr> \<and>
    length reply \<le> length datagram"
proof -
  let ?r = "take (ObservationProbe_MAX_WIRE_BYTES + 1) datagram"
  obtain probe nonce where p: "ObservationProbe_decode pc ?r = Inr probe"
      "authorize_probe limits latest now probe endpoint (socket_ip source) w state = (Some nonce, state')"
      "ObservationReply_encode pc \<lparr>orp_nonce = nonce, orp_observed_source = observation_wire_address source, orp_endpoint = endpoint\<rparr> = Inr reply"
      "length reply \<le> length ?r"
    using assms(2) by (auto simp: serve_datagram_def Let_def not_less split: sum.splits prod.splits option.splits if_splits)
  have wf: "wf_ObservationProbe probe" "length ?r \<le> ObservationProbe_MAX_WIRE_BYTES"
    using ObservationProbe_wire.decode_bounded_wf [OF assms(1) p(1) [unfolded ObservationProbe_decode_def]] by simp_all
  then have d: "?r = datagram" by simp
  obtain entry state1 where e: "redeem_section limits latest now probe endpoint (socket_ip source) state = (Some entry, state1)"
      "is_active_session w (pt_identity entry)" "nonce = op_nonce probe" "os_pending state' = os_pending state1"
    using p(2) by (auto simp: authorize_probe_def device_section_def Let_def split: prod.splits option.splits if_splits)
  note r = redeem_section_result [OF e(1)]
  have "wf_ObservationReply \<lparr>orp_nonce = nonce, orp_observed_source = observation_wire_address source, orp_endpoint = endpoint\<rparr>"
    using wf(1) assms(3) e(3) by (simp add: wf_ObservationProbe_def wf_ObservationReply_def wf_ObservationEndpoint_def)
  from ObservationReply_wire.decode_encode_bounded [OF assms(1) this p(3) [unfolded ObservationReply_encode_def]]
  have "ObservationReply_decode pc reply =
      Inr \<lparr>orp_nonce = nonce, orp_observed_source = observation_wire_address source, orp_endpoint = endpoint\<rparr>"
    by (simp add: ObservationReply_decode_def)
  then show ?thesis using p(1,4) d e r by auto
qed

subsection \<open>A sample of the service\<close>

lemma observation_word_code [code]:
  "u32_saturating_add a b = (if uint a + uint b < 4294967296 then a + b else - 1)"
  "u32_try_from_or_max n = (if int n < 4294967296 then word_of_int (int n) else - 1)"
  "checked_mul_or_max d c = (if int d * uint c \<le> 18446744073709551615999999999 then d * unat c else DURATION_MAX)"
  "u32_try_from n = (if int n < 4294967296 then Some (word_of_int (int n)) else None)"
proof -
  show "u32_try_from n = (if int n < 4294967296 then Some (word_of_int (int n)) else None)" by (simp add: u32_try_from_def)
  have "uint a + uint b = int (unat a + unat b)" "int d * uint c = int (d * unat c)" by simp_all
  then have w: "unat a + unat b < 2 ^ 32 \<longleftrightarrow> uint a + uint b < 4294967296"
    "d * unat c \<le> DURATION_MAX \<longleftrightarrow> int d * uint c \<le> 18446744073709551615999999999"
    by (simp_all add: DURATION_MAX_def NANOS_PER_SEC_def del: of_nat_add of_nat_mult)
  show "u32_saturating_add a b = (if uint a + uint b < 4294967296 then a + b else - 1)" by (simp only: u32_saturating_add_def w)
  show "u32_try_from_or_max n = (if int n < 4294967296 then word_of_int (int n) else - 1)" by (simp add: u32_try_from_or_max_def)
  show "checked_mul_or_max d c = (if int d * uint c \<le> 18446744073709551615999999999 then d * unat c else DURATION_MAX)"
    by (simp only: checked_mul_or_max_def w)
qed

definition tight_limits :: ObservationRuntimeLimits where
  "tight_limits = \<lparr>orl_token_ttl = 30, orl_max_pending_tokens = 2, orl_max_tracked_ips = 1, orl_max_tracked_devices = 2,
     orl_per_ip_burst = 2, orl_per_device_burst = 2, orl_refill_interval = 10, orl_test_send_delay = 0\<rparr>"

lemma tight_limits_bind: "bind_accepts 1000 5 1000 5 1 2 tight_limits"
  by (simp add: bind_accepts_def observation_limits_valid_def tight_limits_def instant_checked_add_def MAX_PENDING_OBSERVATION_TOKENS_def
      MAX_TRACKED_OBSERVATION_SUBJECTS_def MAX_OBSERVATION_BURST_def NANOS_PER_SEC_def)

definition tight_ops :: "observation_op list" where
  "tight_ops = [ObservationIssue 5 35 (sample_client 1) [Some [1], Some [1], Some [2]],
     ObservationRedeem 1000 6 \<lparr>op_token = [1], op_nonce = [9]\<rparr> EndpointPrimary (IpV4 [10, 0, 0, 1]),
     ObservationRedeem 1000 7 \<lparr>op_token = [1], op_nonce = [9]\<rparr> EndpointPrimary (IpV4 [10, 0, 0, 1])]"

theorem observation_bounded_witness:
  "observation_tokens.times_spent tight_limits (ObservationState_default 0) tight_ops [1] \<le>
     observation_tokens.times_minted tight_limits (ObservationState_default 0) tight_ops [1] \<and>
   length (os_pending (foldl (observation_step tight_limits) (ObservationState_default 0) tight_ops)) \<le> 2"
  using observation_bounded [OF tight_limits_bind refl, of 0 tight_ops "[1]"] by (simp add: tight_limits_def)

definition tight_events :: "(nat \<times> string) list" where
  "tight_events = [(1, ''a''), (2, ''a''), (3, ''b''), (4, ''a''), (30, ''b''), (40, ''a'')]"

lemma tight_events_ok:
  "sorted (map fst tight_events)" "card (snd ` set tight_events) \<le> 2" "\<forall>e \<in> set tight_events. fst e + 10 * unat (2 :: u32) \<le> 1000"
  "(10 :: nat) * unat (2 :: u32) \<le> DURATION_MAX"
  by (simp_all add: tight_events_def card_insert_if DURATION_MAX_def NANOS_PER_SEC_def)

theorem bounded_table_exact_witness:
  "table_answers 1000 2 2 10 tight_events = reference_answers 2 10 tight_events \<and>
   reference_answers 2 10 tight_events = [True, True, True, False, True, True]"
proof -
  have "reference_answers 2 10 tight_events = [True, True, True, False, True, True]" by code_simp
  with bounded_table_exact [OF tight_events_ok(1,2) _ _ tight_events_ok(4,3)] show ?thesis by simp
qed

theorem device_rate_bounded_witness:
  "counts_for ''a'' 1 4 tight_events (table_answers 1000 2 2 10 tight_events) \<le> 3"
  using device_rate_bounded [OF tight_events_ok(1,2) _ _ tight_events_ok(4,3), of "''a''" 1 4] by simp

definition probed_state :: ObservationState where
  "probed_state = (ObservationState_default 0)\<lparr>os_pending :=
     [(op_token sample_probe, \<lparr>pt_identity = sample_client 1, pt_endpoint = EndpointAlternate, pt_expires_at = 35\<rparr>)]\<rparr>"

definition probed_tables :: server where
  "probed_tables = sy_server (foldl (registry_step sample_registry) (registry_start sample_server) (take 1 sample_claims))"

lemma probed_authorized:
  "fst (authorize_probe tight_limits 1000 6 sample_probe EndpointAlternate (IpV4 [192, 0, 2, 7]) probed_tables probed_state) = Some (replicate 16 3)"
  by code_simp

theorem observation_answer_sound_witness:
  "\<exists>reply state'. serve_datagram fixed_postcard tight_limits 1000 6 EndpointAlternate (SocketV4 [192, 0, 2, 7] 4433)
     (fixed_enc (ser_ObservationProbe sample_probe)) probed_tables probed_state = (Some reply, state') \<and>
   ObservationReply_decode fixed_postcard reply = Inr sample_reply \<and> length reply \<le> 48"
proof -
  let ?d = "fixed_enc (ser_ObservationProbe sample_probe)" and ?reply = "fixed_enc (ser_ObservationReply sample_reply)"
  have wf: "wf_ObservationProbe sample_probe"
    by (simp add: wf_ObservationProbe_def sample_probe_def wf_array_def rendezvous_limit_defs)
  have len: "length ?d = 48" "length ?reply \<le> 48" by (simp_all add: sample_observation_defs)
  have d: "ObservationProbe_decode fixed_postcard (take (ObservationProbe_MAX_WIRE_BYTES + 1) ?d) = Inr sample_probe"
    using ObservationProbe_wire.decode_encode_bounded [OF fixed_postcard_faithful wf sample_probe_sent [unfolded ObservationProbe_encode_def]] len(1)
    by (simp add: ObservationProbe_decode_def ObservationProbe_MAX_WIRE_BYTES_def rendezvous_limit_defs)
  obtain state' where a: "authorize_probe tight_limits 1000 6 sample_probe EndpointAlternate (IpV4 [192, 0, 2, 7]) probed_tables probed_state =
      (Some (replicate 16 3), state')" using probed_authorized by (metis prod.collapse)
  have s: "serve_datagram fixed_postcard tight_limits 1000 6 EndpointAlternate (SocketV4 [192, 0, 2, 7] 4433) ?d probed_tables probed_state =
      (Some ?reply, state')"
    using d a sample_reply_sent len
    by (simp add: serve_datagram_def sample_reply_def ObservationProbe_MAX_WIRE_BYTES_def rendezvous_limit_defs)
  have "wf_SocketAddress (observation_wire_address (SocketV4 [192, 0, 2, 7] 4433))" by simp
  from observation_answer_sound [OF fixed_postcard_faithful s this] obtain probe where
    p: "ObservationProbe_decode fixed_postcard ?d = Inr probe" "ObservationReply_decode fixed_postcard ?reply =
      Inr \<lparr>orp_nonce = op_nonce probe, orp_observed_source = V4 [192, 0, 2, 7] 4433, orp_endpoint = EndpointAlternate\<rparr>" by auto
  then have "probe = sample_probe" using d len(1) by (simp add: ObservationProbe_MAX_WIRE_BYTES_def rendezvous_limit_defs)
  then show ?thesis using s p(2) len(2) by (auto simp: sample_probe_def sample_reply_def)
qed

end
