(* ===== verification/Net_Text.thy ===== *)
theory Net_Text
  imports Rust_Text Udp_Flows
begin

text \<open>
  The texts of addresses: the parser and the printer of \<open>std::net\<close>, which the configuration, the
  enrollment keys and the web origins go through. A parser step returns what it read and the rest,
  \<open>None\<close> when it takes nothing. An IPv6 address prints its longest run of zero groups as two colons, and
  an address that embeds an IPv4 one in dotted form; the lemmas show that every printed address is
  read back as itself.
\<close>

subsection \<open>Parsing\<close>

fun read_digits :: "nat \<Rightarrow> string \<Rightarrow> nat list \<times> string" where
  "read_digits radix [] = ([], [])"
| "read_digits radix (ch # s) =
     (case to_digit radix ch of
        None \<Rightarrow> ([], ch # s)
      | Some d \<Rightarrow> let (ds, rest) = read_digits radix s in (d # ds, rest))"

definition read_number :: "nat \<Rightarrow> nat option \<Rightarrow> bool \<Rightarrow> nat \<Rightarrow> string \<Rightarrow> (nat \<times> string) option" where
  "read_number radix max_digits allow_zero_prefix bound s =
     (let (ds, rest) = read_digits radix s;
          too_long = (case max_digits of Some m \<Rightarrow> length ds > m | None \<Rightarrow> False)
      in if ds = [] \<or> too_long \<or> \<not> allow_zero_prefix \<and> hd ds = 0 \<and> length ds > 1 \<or> value_of radix ds > bound then None
         else Some (value_of radix ds, rest))"

fun read_given_char :: "char \<Rightarrow> string \<Rightarrow> string option" where
  "read_given_char c (x # s) = (if x = c then Some s else None)"
| "read_given_char c [] = None"

definition read_separator :: "char \<Rightarrow> nat \<Rightarrow> (string \<Rightarrow> 'x option) \<Rightarrow> string \<Rightarrow> 'x option" where
  "read_separator sep index inner s = (if index > 0 then Option.bind (read_given_char sep s) inner else inner s)"

fun read_octets :: "nat \<Rightarrow> nat \<Rightarrow> string \<Rightarrow> (u8 list \<times> string) option" where
  "read_octets i 0 s = Some ([], s)"
| "read_octets i (Suc n) s =
     Option.bind (read_separator (CHR ''.'') i (read_number 10 (Some 3) False 255) s) (\<lambda>(octet, s).
     map_option (\<lambda>(ip, s). (word_of_nat octet # ip, s)) (read_octets (Suc i) n s))"

definition read_ipv4_addr :: "string \<Rightarrow> (bytes \<times> string) option" where
  "read_ipv4_addr = read_octets 0 4"

text \<open>Groups of an IPv6 address, from index \<open>i\<close> with \<open>n\<close> left; the flag tells that the last two come from a dotted part.\<close>

fun read_groups :: "nat \<Rightarrow> nat \<Rightarrow> string \<Rightarrow> u16 list \<times> bool \<times> string" where
  "read_groups i 0 s = ([], False, s)"
| "read_groups i (Suc n) s =
     (case if n > 0 then read_separator (CHR '':'') i read_ipv4_addr s else None of
        Some ([one, two, three, four], s') \<Rightarrow> ([u16_from_be [one, two], u16_from_be [three, four]], True, s')
      | _ \<Rightarrow>
          (case read_separator (CHR '':'') i (read_number 16 (Some 4) True 65535) s of
             None \<Rightarrow> ([], False, s)
           | Some (grp, s') \<Rightarrow>
               let (groups, ipv4, s'') = read_groups (Suc i) n s' in (word_of_nat grp # groups, ipv4, s'')))"

definition from_segments :: "u16 list \<Rightarrow> bytes" where
  "from_segments groups = concat (map put_u16 groups)"

definition read_ipv6_addr :: "string \<Rightarrow> (bytes \<times> string) option" where
  "read_ipv6_addr s =
     (let (head, head_ipv4, s) = read_groups 0 8 s
      in if length head = 8 then Some (from_segments head, s)
         else if head_ipv4 then None
         else Option.bind (read_given_char (CHR '':'') s) (\<lambda>s. Option.bind (read_given_char (CHR '':'') s) (\<lambda>s.
           let limit = 8 - (length head + 1);
               (tail, _, s) = read_groups 0 limit s
           in Some (from_segments (head @ replicate (8 - length head - length tail) 0 @ tail), s))))"

definition read_port :: "string \<Rightarrow> (u16 \<times> string) option" where
  "read_port s =
     Option.bind (read_given_char (CHR '':'') s) (\<lambda>s. map_option (\<lambda>(n, s). (word_of_nat n, s)) (read_number 10 None True 65535 s))"

definition read_scope_id :: "string \<Rightarrow> (u32 \<times> string) option" where
  "read_scope_id s =
     Option.bind (read_given_char (CHR ''%'') s) (\<lambda>s. map_option (\<lambda>(n, s). (word_of_nat n, s)) (read_number 10 None True 4294967295 s))"

definition read_socket_addr_v4 :: "string \<Rightarrow> (SocketAddr \<times> string) option" where
  "read_socket_addr_v4 s =
     Option.bind (read_ipv4_addr s) (\<lambda>(ip, s). map_option (\<lambda>(port, s). (SocketV4 ip port, s)) (read_port s))"

definition read_socket_addr_v6 :: "string \<Rightarrow> (SocketAddr \<times> string) option" where
  "read_socket_addr_v6 s =
     Option.bind (read_given_char (CHR ''['') s) (\<lambda>s. Option.bind (read_ipv6_addr s) (\<lambda>(ip, s).
       let (scope_id, s) = (case read_scope_id s of Some r \<Rightarrow> r | None \<Rightarrow> (0, s))
       in Option.bind (read_given_char (CHR '']'') s) (\<lambda>s.
            map_option (\<lambda>(port, s). (SocketV6 ip port 0 scope_id, s)) (read_port s))))"

definition parse_with :: "(string \<Rightarrow> ('x \<times> string) option) \<Rightarrow> string \<Rightarrow> 'x option" where
  "parse_with inner s = (case inner s of Some (x, []) \<Rightarrow> Some x | _ \<Rightarrow> None)"

definition Ipv4Addr_from_str :: "string \<Rightarrow> bytes option" where
  "Ipv4Addr_from_str = parse_with read_ipv4_addr"

definition Ipv6Addr_from_str :: "string \<Rightarrow> bytes option" where
  "Ipv6Addr_from_str = parse_with read_ipv6_addr"

definition IpAddr_from_str :: "string \<Rightarrow> IpAddr option" where
  "IpAddr_from_str =
     parse_with (\<lambda>s. case read_ipv4_addr s of
        Some (ip, s') \<Rightarrow> Some (IpV4 ip, s') | None \<Rightarrow> map_option (\<lambda>(ip, s'). (IpV6 ip, s')) (read_ipv6_addr s))"

definition SocketAddr_from_str :: "string \<Rightarrow> SocketAddr option" where
  "SocketAddr_from_str =
     parse_with (\<lambda>s. case read_socket_addr_v4 s of Some r \<Rightarrow> Some r | None \<Rightarrow> read_socket_addr_v6 s)"

subsection \<open>Printing\<close>

definition join :: "char \<Rightarrow> string list \<Rightarrow> string" where
  "join sep parts = (case parts of [] \<Rightarrow> [] | first # tail \<Rightarrow> first @ concat (map (\<lambda>part. sep # part) tail))"

definition Ipv4Addr_to_string :: "bytes \<Rightarrow> string" where
  "Ipv4Addr_to_string ip = join (CHR ''.'') (map (\<lambda>octet. decimal (unat octet)) ip)"

fun segments :: "bytes \<Rightarrow> u16 list" where
  "segments (a # b # os) = u16_from_be [a, b] # segments os"
| "segments _ = []"

text \<open>The first longest run of zeros as start and length, with the current run.\<close>

fun zero_span :: "nat \<Rightarrow> u16 list \<Rightarrow> nat \<times> nat \<Rightarrow> nat \<times> nat \<Rightarrow> nat \<times> nat" where
  "zero_span i [] current longest = longest"
| "zero_span i (seg # rest) current longest =
     (if seg = 0 then
        let current = (if snd current = 0 then i else fst current, snd current + 1);
            longest = (if snd current > snd longest then current else longest)
        in zero_span (Suc i) rest current longest
      else zero_span (Suc i) rest (0, 0) longest)"

definition fmt_subslice :: "u16 list \<Rightarrow> string" where
  "fmt_subslice chunk = join (CHR '':'') (map (\<lambda>seg. hexadecimal (unat seg)) chunk)"

definition Ipv6Addr_to_string :: "bytes \<Rightarrow> string" where
  "Ipv6Addr_to_string ip =
     (case to_ipv4_mapped ip of
        Some ipv4 \<Rightarrow> ''::ffff:'' @ Ipv4Addr_to_string ipv4
      | None \<Rightarrow>
          let segs = segments ip;
              (start, len) = zero_span 0 segs (0, 0) (0, 0)
          in if len > 1 then fmt_subslice (take start segs) @ ''::'' @ fmt_subslice (drop (start + len) segs)
             else fmt_subslice segs)"

fun IpAddr_to_string :: "IpAddr \<Rightarrow> string" where
  "IpAddr_to_string (IpV4 ip) = Ipv4Addr_to_string ip"
| "IpAddr_to_string (IpV6 ip) = Ipv6Addr_to_string ip"

fun SocketAddr_ip :: "SocketAddr \<Rightarrow> IpAddr" where
  "SocketAddr_ip (SocketV4 ip p) = IpV4 ip"
| "SocketAddr_ip (SocketV6 ip p flowinfo scope_id) = IpV6 ip"

fun SocketAddr_port :: "SocketAddr \<Rightarrow> u16" where
  "SocketAddr_port (SocketV4 ip p) = p"
| "SocketAddr_port (SocketV6 ip p flowinfo scope_id) = p"

fun SocketAddr_is_ipv6 :: "SocketAddr \<Rightarrow> bool" where
  "SocketAddr_is_ipv6 (SocketV4 ip p) = False"
| "SocketAddr_is_ipv6 (SocketV6 ip p flowinfo scope_id) = True"

subsection \<open>Printed addresses are read back\<close>

definition stops :: "nat \<Rightarrow> string \<Rightarrow> bool" where
  "stops radix rest \<longleftrightarrow> (case rest of [] \<Rightarrow> True | c # _ \<Rightarrow> to_digit radix c = None)"

lemma stops_simps [simp]: "stops radix []" "stops radix (c # s) \<longleftrightarrow> to_digit radix c = None"
  by (simp_all add: stops_def)

lemma to_digit_marks [simp]:
  "to_digit 10 (CHR ''.'') = None" "to_digit 10 (CHR '':'') = None" "to_digit 16 (CHR '':'') = None" "to_digit 16 (CHR ''.'') = None"
  by (simp_all add: to_digit_def)

lemma read_digits_map:
  assumes "\<And>d. d \<in> set ds \<Longrightarrow> to_digit radix (f d) = Some d" and "stops radix rest"
  shows "read_digits radix (map f ds @ rest) = (ds, rest)"
  using assms
proof (induction ds)
  case Nil
  then show ?case by (cases rest) simp_all
qed simp

lemma read_digits_rest: "snd (read_digits radix s) = dropWhile (\<lambda>c. to_digit radix c \<noteq> None) s"
  by (induction s) (auto simp: split_beta Let_def split: option.splits)

lemma read_number_decimal:
  assumes "n \<le> bound" and "case max_digits of Some m \<Rightarrow> length (decimal n) \<le> m | None \<Rightarrow> True" and "stops 10 rest"
  shows "read_number 10 max_digits allow_zero_prefix bound (decimal n @ rest) = Some (n, rest)"
proof -
  obtain ds where ds: "decimal n = map digit ds" "\<forall>d \<in> set ds. d < 10" "value_of 10 ds = n" "ds \<noteq> []" "hd ds = 0 \<longrightarrow> ds = [0]"
    using decimal_digits [of n] by auto
  have "read_digits 10 (decimal n @ rest) = (ds, rest)"
    unfolding ds(1) using ds(2) by (intro read_digits_map [OF _ assms(3)]) (simp add: to_digit_digit)
  with ds assms show ?thesis by (auto simp: read_number_def split: option.splits)
qed

lemma read_number_hexadecimal:
  assumes "n < 65536" and "stops 16 rest"
  shows "read_number 16 (Some 4) True 65535 (hexadecimal n @ rest) = Some (n, rest)"
proof -
  obtain ds where ds: "hexadecimal n = map hex_digit ds" "\<forall>d \<in> set ds. d < 16" "value_of 16 ds = n" "ds \<noteq> []"
    using hexadecimal_digits [of n] by auto
  have "read_digits 16 (hexadecimal n @ rest) = (ds, rest)"
    unfolding ds(1) using ds(2) by (intro read_digits_map [OF _ assms(2)]) (simp add: to_digit_hex_digit)
  moreover have "length ds \<le> 4" using hexadecimal_length [of n 3] assms(1) ds(1) by simp
  ultimately show ?thesis using ds assms(1) by (simp add: read_number_def)
qed

lemma octet_small: "length (decimal (unat (octet :: u8))) \<le> 3" "unat (octet :: u8) \<le> 255"
  using decimal_length [of "unat octet" 2] unat_less_pow [of octet] by simp_all

lemma stops_octets: "stops 10 rest \<Longrightarrow> stops 10 (concat (map (\<lambda>octet. CHR ''.'' # decimal (unat octet)) ip) @ rest)"
  by (cases ip) simp_all

lemma read_octets_print:
  "stops 10 rest \<Longrightarrow>
   read_octets (Suc i) (length ip) (concat (map (\<lambda>octet. CHR ''.'' # decimal (unat octet)) ip) @ rest) = Some (ip, rest)"
proof (induction ip arbitrary: i)
  case (Cons octet ip)
  from read_number_decimal [where n = "unat octet" and bound = 255 and max_digits = "Some 3" and allow_zero_prefix = False, OF octet_small(2)] stops_octets [OF Cons.prems, of ip]
  show ?case using Cons.IH [OF Cons.prems, of "Suc i"] octet_small(1) [of octet] by (simp add: read_separator_def)
qed simp

lemma read_ipv4_print:
  assumes "length ip = 4" and "stops 10 rest"
  shows "read_ipv4_addr (Ipv4Addr_to_string ip @ rest) = Some (ip, rest)"
proof -
  obtain a os where o: "ip = a # os" "length os = 3" using assms(1) by (cases ip) auto
  have "read_octets 0 (Suc (length os)) (decimal (unat a) @ concat (map (\<lambda>octet. CHR ''.'' # decimal (unat octet)) os) @ rest) =
      Some (a # os, rest)"
    using read_number_decimal [where n = "unat a" and bound = 255 and max_digits = "Some 3" and allow_zero_prefix = False, OF octet_small(2)] stops_octets [OF assms(2), of os]
      octet_small(1) [of a] read_octets_print [OF assms(2), of 0 os] by (simp add: read_separator_def)
  then show ?thesis using o by (simp add: read_ipv4_addr_def Ipv4Addr_to_string_def join_def o_def eval_nat_numeral)
qed

lemma read_octets_dot:
  assumes "read_octets 0 (Suc (Suc n)) s \<noteq> None"
  shows "\<exists>r. dropWhile (\<lambda>c. to_digit 10 c \<noteq> None) s = CHR ''.'' # r"
proof -
  obtain n r r' where n: "read_number 10 (Some 3) False 255 s = Some (n, r)" "read_given_char (CHR ''.'') r = Some r'"
    using assms by (auto simp: read_separator_def bind_eq_Some_conv)
  have "r = snd (read_digits 10 s)" using n(1) by (auto simp: read_number_def split_beta Let_def split: if_splits)
  moreover have "r = CHR ''.'' # r'" using n(2) by (cases r) (auto split: if_splits)
  ultimately show ?thesis unfolding read_digits_rest by metis
qed

lemma read_ipv4_first: "read_ipv4_addr s \<noteq> None \<Longrightarrow> \<exists>r. dropWhile (\<lambda>c. to_digit 10 c \<noteq> None) s = CHR ''.'' # r"
  using read_octets_dot [of 2 s] by (simp add: read_ipv4_addr_def)

definition group_end :: "string \<Rightarrow> bool" where
  "group_end rest \<longleftrightarrow> (case rest of
      [] \<Rightarrow> True
    | c # s \<Rightarrow> to_digit 16 c = None \<and> c \<noteq> CHR ''.'' \<and>
        (c = CHR '':'' \<longrightarrow> (case s of [] \<Rightarrow> True | d # _ \<Rightarrow> to_digit 16 d = None \<and> d \<noteq> CHR ''.'')))"

lemma to_digit_subset: "to_digit 16 c = None \<Longrightarrow> to_digit 10 c = None"
  by (auto simp: to_digit_def Let_def split: if_splits)

lemma hex_no_dot: "CHR ''.'' \<notin> set (hexadecimal n)"
proof
  assume d: "CHR ''.'' \<in> set (hexadecimal n)"
  obtain ds where ds: "hexadecimal n = map hex_digit ds" "\<forall>d \<in> set ds. d < 16" using hexadecimal_digits [of n] by auto
  with d obtain d where "d < 16" "hex_digit d = CHR ''.''" by auto
  then show False using to_digit_hex_digit [of d] by simp
qed

lemma no_ipv4:
  assumes "n < 65536" and "stops 16 rest" and "take 1 rest \<noteq> ''.''"
  shows "read_ipv4_addr (hexadecimal n @ rest) = None"
proof (rule ccontr)
  assume "read_ipv4_addr (hexadecimal n @ rest) \<noteq> None"
  then obtain r where r: "dropWhile (\<lambda>c. to_digit 10 c \<noteq> None) (hexadecimal n @ rest) = CHR ''.'' # r" using read_ipv4_first by blast
  show False
  proof (cases "\<exists>c \<in> set (hexadecimal n). to_digit 10 c = None")
    case True
    then obtain c where "c \<in> set (hexadecimal n)" "\<not> to_digit 10 c \<noteq> None" by blast
    then have "dropWhile (\<lambda>c. to_digit 10 c \<noteq> None) (hexadecimal n @ rest) = dropWhile (\<lambda>c. to_digit 10 c \<noteq> None) (hexadecimal n) @ rest"
      by (rule dropWhile_append1)
    moreover have "dropWhile (\<lambda>c. to_digit 10 c \<noteq> None) (hexadecimal n) \<noteq> []" using True by (simp add: dropWhile_eq_Nil_conv)
    ultimately have "CHR ''.'' \<in> set (dropWhile (\<lambda>c. to_digit 10 c \<noteq> None) (hexadecimal n))"
      using r by (cases "dropWhile (\<lambda>c. to_digit 10 c \<noteq> None) (hexadecimal n)") auto
    then show False using hex_no_dot [of n] set_dropWhileD by metis
  next
    case False
    then have "dropWhile (\<lambda>c. to_digit 10 c \<noteq> None) rest = CHR ''.'' # r" using r by (simp add: dropWhile_append2)
    then show False using assms(2,3) to_digit_subset by (cases rest) (auto split: if_splits)
  qed
qed

definition colon_groups :: "u16 list \<Rightarrow> string" where
  "colon_groups gs = concat (map (\<lambda>g. CHR '':'' # hexadecimal (unat g)) gs)"

lemma fmt_subslice_simps [simp]:
  "fmt_subslice [] = []" "fmt_subslice (g # gs) = hexadecimal (unat g) @ colon_groups gs"
  by (simp_all add: fmt_subslice_def colon_groups_def join_def o_def)

lemma colon_groups_simps [simp]:
  "colon_groups [] = []" "colon_groups (g # gs) = CHR '':'' # hexadecimal (unat g) @ colon_groups gs"
  by (simp_all add: colon_groups_def)

lemma group_bound: "unat (g :: u16) < 65536"
  using unat_less_pow [of g] by simp

lemma group_end_stops: "group_end rest \<Longrightarrow> stops 16 (colon_groups gs @ rest) \<and> take 1 (colon_groups gs @ rest) \<noteq> ''.''"
  by (cases gs; cases rest) (auto simp: group_end_def colon_groups_def)

lemma read_groups_end:
  assumes "group_end rest"
  shows "read_groups (Suc i) n rest = ([], False, rest)"
proof (cases n)
  case (Suc m)
  have "read_separator (CHR '':'') (Suc i) read_ipv4_addr rest = None" if "m > 0"
  proof (rule ccontr)
    assume "read_separator (CHR '':'') (Suc i) read_ipv4_addr rest \<noteq> None"
    then obtain s where s: "rest = CHR '':'' # s" "read_ipv4_addr s \<noteq> None"
      by (cases rest) (auto simp: read_separator_def split: if_splits)
    from read_ipv4_first [OF s(2)] s(1) assms show False
      by (cases s) (auto simp: group_end_def to_digit_subset split: if_splits)
  qed
  moreover have "read_separator (CHR '':'') (Suc i) (read_number 16 (Some 4) True 65535) rest = None"
    using assms by (cases rest; cases "tl rest") (auto simp: group_end_def read_separator_def read_number_def)
  ultimately show ?thesis using Suc by simp
qed simp

lemma read_groups_print:
  "group_end rest \<Longrightarrow> read_groups (Suc i) (length gs + k) (colon_groups gs @ rest) = (gs, False, rest)"
proof (induction gs arbitrary: i)
  case Nil
  then show ?case by (simp add: read_groups_end)
next
  case (Cons g gs)
  note e = group_end_stops [OF Cons.prems, of gs]
  have "read_ipv4_addr (hexadecimal (unat g) @ colon_groups gs @ rest) = None" using e by (intro no_ipv4 group_bound) simp_all
  moreover have "read_number 16 (Some 4) True 65535 (hexadecimal (unat g) @ colon_groups gs @ rest) = Some (unat g, colon_groups gs @ rest)"
    using e by (intro read_number_hexadecimal group_bound) simp
  ultimately show ?case using Cons.IH [OF Cons.prems, of "Suc i"] by (auto simp: read_separator_def)
qed

lemma from_segments_segments: "even (length ip) \<Longrightarrow> from_segments (segments ip) = ip"
proof (induction ip rule: segments.induct)
  case (1 a b ip)
  then show ?case by (simp add: from_segments_def put_from_be)
qed (simp_all add: from_segments_def)

lemma length_segments: "length (segments ip) = length ip div 2"
  by (induction ip rule: segments.induct) simp_all

definition zero_run :: "u16 list \<Rightarrow> nat \<times> nat \<Rightarrow> bool" where
  "zero_run segs span \<longleftrightarrow> fst span + snd span \<le> length segs \<and> take (snd span) (drop (fst span) segs) = replicate (snd span) 0"

lemma zero_run_nothing [simp]: "zero_run segs (0, 0)"
  by (simp add: zero_run_def)

lemma zero_run_extend:
  assumes "zero_run segs (start, len)" and "start + len < length segs" and "segs ! (start + len) = 0"
  shows "zero_run segs (start, Suc len)"
  using assms by (simp add: zero_run_def take_Suc_conv_app_nth replicate_append_same)

lemma zero_span_run:
  assumes "zero_run segs current" and "snd current > 0 \<longrightarrow> fst current + snd current = i" and "zero_run segs longest"
    and "rest = drop i segs" and "i \<le> length segs"
  shows "zero_run segs (zero_span i rest current longest)"
  using assms
proof (induction i rest current longest rule: zero_span.induct)
  case (2 i seg rest current longest)
  have i: "i < length segs" "segs ! i = seg" "rest = drop (Suc i) segs"
    using "2.prems"(4) by (metis drop_all list.distinct(1) not_le, metis nth_via_drop, metis drop_Suc list.sel(3) tl_drop)
  show ?case
  proof (cases "seg = 0")
    case True
    let ?current = "(if snd current = 0 then i else fst current, snd current + 1)"
    have "zero_run segs ?current"
    proof (cases "snd current = 0")
      case True
      then show ?thesis using zero_run_extend [of segs i 0] i \<open>seg = 0\<close> by (simp add: zero_run_def)
    next
      case False
      then show ?thesis using zero_run_extend [of segs "fst current" "snd current"] "2.prems"(1,2) i \<open>seg = 0\<close> by simp
    qed
    then show ?thesis using "2.IH"(1) [OF True refl refl] "2.prems"(2,3) i True by (auto simp: Let_def)
  next
    case False
    then show ?thesis using "2.IH"(2) [OF False] "2.prems"(3) i by simp
  qed
qed simp

lemma read_fmt:
  assumes "group_end rest" and "gs = [] \<Longrightarrow> take 1 rest = '':'' \<or> rest = []"
  shows "read_groups 0 (length gs + k) (fmt_subslice gs @ rest) = (gs, False, rest)"
proof (cases gs)
  case Nil
  have "read_ipv4_addr rest = None"
  proof (rule ccontr)
    assume "read_ipv4_addr rest \<noteq> None"
    from read_ipv4_first [OF this] assms(2) [OF Nil] show False by (cases rest) auto
  qed
  moreover have "read_number 16 (Some 4) True 65535 rest = None" using assms(2) [OF Nil] by (cases rest) (auto simp: read_number_def)
  ultimately show ?thesis using Nil by (cases k) (simp_all add: read_separator_def)
next
  case (Cons g gs')
  note e = group_end_stops [OF assms(1), of gs']
  have "read_ipv4_addr (hexadecimal (unat g) @ colon_groups gs' @ rest) = None" using e by (intro no_ipv4 group_bound) simp_all
  moreover have "read_number 16 (Some 4) True 65535 (hexadecimal (unat g) @ colon_groups gs' @ rest) = Some (unat g, colon_groups gs' @ rest)"
    using e by (intro read_number_hexadecimal group_bound) simp
  ultimately show ?thesis using read_groups_print [OF assms(1), of 0 gs' k] Cons by (auto simp: read_separator_def)
qed

lemma ipv6_mapped_parse:
  assumes "length ipv4 = 4"
  shows "read_ipv6_addr (''::ffff:'' @ Ipv4Addr_to_string ipv4) = Some (replicate 10 0 @ [0xFF, 0xFF] @ ipv4, [])"
proof -
  obtain a b c d where q: "ipv4 = [a, b, c, d]" using assms by (auto simp: eval_nat_numeral length_Suc_conv)
  have r: "read_ipv4_addr (Ipv4Addr_to_string ipv4) = Some (ipv4, [])" using read_ipv4_print [OF assms, of "[]"] by simp
  have f: "hexadecimal 65535 = ''ffff''" by (simp add: hexadecimal.simps [of 65535] hexadecimal.simps [of 4095] hexadecimal.simps [of 255] hexadecimal.simps [of 15] hex_digit_def)
  have whole: "read_groups 0 8 (''::ffff:'' @ Ipv4Addr_to_string ipv4) = ([], False, ''::ffff:'' @ Ipv4Addr_to_string ipv4)"
    using read_fmt [of "''::ffff:'' @ Ipv4Addr_to_string ipv4" "[]" 8] by (simp add: group_end_def)
  have "read_groups 0 (Suc (Suc n)) (''ffff'' @ CHR '':'' # Ipv4Addr_to_string ipv4) =
      ([65535, u16_from_be [a, b], u16_from_be [c, d]], True, [])" if "n > 0" for n
    using no_ipv4 [of 65535 "CHR '':'' # Ipv4Addr_to_string ipv4"] read_number_hexadecimal [of 65535 "CHR '':'' # Ipv4Addr_to_string ipv4"] r q f that
    by (simp add: read_separator_def)
  from this [of 5] have rest: "read_groups 0 7 (''ffff:'' @ Ipv4Addr_to_string ipv4) = ([65535, u16_from_be [a, b], u16_from_be [c, d]], True, [])" by simp
  have zeros: "put_u16 0 = [0, 0]" "put_u16 65535 = [0xFF, 0xFF]" by (simp_all add: put_u16_def be_bytes_numeral)
  have "from_segments [0, 0, 0, 0, 0, 65535, u16_from_be [a, b], u16_from_be [c, d]] = replicate 10 0 @ [0xFF, 0xFF] @ ipv4"
    using q zeros by (simp add: from_segments_def put_from_be) (simp add: eval_nat_numeral)
  then show ?thesis using whole rest by (simp add: read_ipv6_addr_def) (simp add: eval_nat_numeral)
qed

text \<open>Every IPv6 address is read back from its text.\<close>

theorem ipv6_print_parse:
  assumes "length ip = 16"
  shows "Ipv6Addr_from_str (Ipv6Addr_to_string ip) = Some ip"
proof (cases "to_ipv4_mapped ip")
  case (Some ipv4)
  then have "ip = replicate 10 0 @ [0xFF, 0xFF] @ ipv4" "length ipv4 = 4"
    using assms by (auto simp: to_ipv4_mapped_def split: if_splits) (metis append_take_drop_id append.assoc append_Cons append_Nil)
  with Some ipv6_mapped_parse [of ipv4] show ?thesis
    by (simp add: Ipv6Addr_from_str_def parse_with_def Ipv6Addr_to_string_def)
next
  case None
  define segs where "segs = segments ip"
  obtain start len where z: "zero_span 0 segs (0, 0) (0, 0) = (start, len)" by force
  have l: "length segs = 8" "from_segments segs = ip" using assms by (simp_all add: segs_def length_segments from_segments_segments)
  have run: "start + len \<le> 8" "take len (drop start segs) = replicate len 0"
    using zero_span_run [of segs "(0, 0)" 0 "(0, 0)" segs] z l(1) by (simp_all add: zero_run_def)
  show ?thesis
  proof (cases "len > 1")
    case False
    then show ?thesis
      using None z l read_fmt [of "[]" segs 0]
      by (auto simp: Ipv6Addr_from_str_def parse_with_def Ipv6Addr_to_string_def segs_def [symmetric] read_ipv6_addr_def group_end_def)
  next
    case True
    let ?head = "take start segs" and ?tail = "drop (start + len) segs"
    have h: "read_groups 0 8 (fmt_subslice ?head @ ''::'' @ fmt_subslice ?tail) = (?head, False, ''::'' @ fmt_subslice ?tail)"
      using read_fmt [of "''::'' @ fmt_subslice ?tail" ?head "8 - start"] run(1) l(1) True
      by (simp add: group_end_def)
    have t: "read_groups 0 (8 - (start + 1)) (fmt_subslice ?tail) = (?tail, False, [])"
      using read_fmt [of "[]" ?tail "len - 1"] run(1) l(1) True by (simp add: group_end_def)
    have "?head @ replicate (8 - start - length ?tail) 0 @ ?tail = segs"
      using run l(1) append_take_drop_id [of start segs] append_take_drop_id [of len "drop start segs"] by (simp add: add.commute)
    then show ?thesis using None z l h t True run(1)
      by (simp add: Ipv6Addr_from_str_def parse_with_def Ipv6Addr_to_string_def segs_def [symmetric] read_ipv6_addr_def)
  qed
qed

subsection \<open>What is read and printed\<close>

lemma length_read_groups: "length (fst (read_groups i n s)) \<le> n"
  by (induction i n s rule: read_groups.induct) (auto simp: split_beta Let_def split: option.splits list.splits)

lemma length_from_segments: "length (from_segments gs) = 2 * length gs"
  by (induction gs) (simp_all add: from_segments_def)

lemma read_ipv6_length:
  assumes "read_ipv6_addr s = Some (ip, r)"
  shows "length ip = 16"
proof -
  obtain head v4 r1 where h: "read_groups 0 8 s = (head, v4, r1)" by (metis prod_cases3)
  have hl: "length head \<le> 8" using length_read_groups [of 0 8 s] h by simp
  show ?thesis
  proof (cases "length head = 8")
    case True
    then show ?thesis using assms h by (auto simp: read_ipv6_addr_def length_from_segments)
  next
    case False
    then obtain r3 where r3: "(let (tail, _, s) = read_groups 0 (8 - (length head + 1)) r3
        in Some (from_segments (head @ replicate (8 - length head - length tail) 0 @ tail), s)) = Some (ip, r)"
      using assms h by (auto simp: read_ipv6_addr_def bind_eq_Some_conv Let_def split: if_splits)
    obtain tail v r4 where t: "read_groups 0 (8 - (length head + 1)) r3 = (tail, v, r4)" by (metis prod_cases3)
    have "length tail \<le> 8 - (length head + 1)" using length_read_groups [of 0 "8 - (length head + 1)" r3] t by simp
    then show ?thesis using r3 t hl False by (auto simp: length_from_segments)
  qed
qed

lemma ipv6_length: "Ipv6Addr_from_str s = Some ip \<Longrightarrow> length ip = 16"
  using read_ipv6_length [of s ip] by (auto simp: Ipv6Addr_from_str_def parse_with_def split: option.splits list.splits)

lemma join_chars: "set (join sep parts) \<subseteq> insert sep (\<Union> (set ` set parts))"
  by (cases parts) (auto simp: join_def)

lemma ipv6_chars: "ch \<in> set (Ipv6Addr_to_string ip) \<Longrightarrow> (of_char ch :: nat) \<in> {48..57} \<union> {97..102} \<union> {46, 58}"
proof -
  assume ch: "ch \<in> set (Ipv6Addr_to_string ip)"
  have v4: "(of_char x :: nat) \<in> {48..57} \<union> {97..102} \<union> {46, 58}" if "x \<in> set (Ipv4Addr_to_string a)" for x a
    using that join_chars [of "CHR ''.''" "map (\<lambda>octet. decimal (unat octet)) a"] decimal_code
    by (fastforce simp: Ipv4Addr_to_string_def)
  have gs: "(of_char x :: nat) \<in> {48..57} \<union> {97..102} \<union> {46, 58}" if "x \<in> set (fmt_subslice g)" for x g
    using that join_chars [of "CHR '':''" "map (\<lambda>seg. hexadecimal (unat seg)) g"] hexadecimal_code
    by (fastforce simp: fmt_subslice_def)
  show ?thesis using ch v4 gs by (auto simp: Ipv6Addr_to_string_def split_beta Let_def split: option.splits if_splits)
qed

end
