(* ===== verification/Web_Primitives.thy ===== *)
theory Web_Primitives
  imports Primitives_Instance
begin

text \<open>
  The primitives of the enrollment texts and of the web sessions: URL-safe base64 without padding
  (\<open>URL_SAFE_NO_PAD\<close> of the crate \<open>base64\<close>) and the message authentication code of the crate \<open>hmac\<close>. They are
  parameters of the model; what the code relies on is stated by \<open>url_base64_faithful\<close> and
  \<open>digests_fit\<close>. The second half gives a concrete instance on which the witnesses evaluate.
\<close>

record web_primitives = primitives +
  url_encode :: "bytes \<Rightarrow> string"
  url_decode :: "string \<Rightarrow> bytes option"
  hmac_sha256 :: "bytes \<Rightarrow> bytes \<Rightarrow> bytes"

definition url_alphabet :: string where
  "url_alphabet = ''ABCDEFGHIJKLMNOPQRSTUVWXYZabcdefghijklmnopqrstuvwxyz0123456789-_''"

text \<open>Decoding inverts encoding; an encoding uses the URL-safe alphabet and has the length of unpadded base64.\<close>

definition url_base64_faithful :: "'a web_primitives_scheme \<Rightarrow> bool" where
  "url_base64_faithful c \<longleftrightarrow>
     (\<forall>bs. url_decode c (url_encode c bs) = Some bs \<and> set (url_encode c bs) \<subseteq> set url_alphabet \<and>
       length (url_encode c bs) = (4 * length bs + 2) div 3)"

definition digests_fit :: "'a web_primitives_scheme \<Rightarrow> bool" where
  "digests_fit c \<longleftrightarrow> (\<forall>bs. length (sha256 c bs) = 32) \<and> (\<forall>k bs. length (hmac_sha256 c k bs) = 32)"

lemma url_alphabet_marks:
  "CHR ''.'' \<notin> set url_alphabet" "CHR '':'' \<notin> set url_alphabet" "CHR '';'' \<notin> set url_alphabet" "CHR ''='' \<notin> set url_alphabet"
  "CHR '' '' \<notin> set url_alphabet"
  by (simp_all add: url_alphabet_def)

subsection \<open>A concrete instance\<close>

definition url_char :: "char \<Rightarrow> char" where
  "url_char ch = (if ch = CHR ''+'' then CHR ''-'' else if ch = CHR ''/'' then CHR ''_'' else ch)"

definition plain_char :: "char \<Rightarrow> char" where
  "plain_char ch = (if ch = CHR ''-'' then CHR ''+'' else if ch = CHR ''_'' then CHR ''/'' else ch)"

definition unpadded :: "bytes \<Rightarrow> string" where
  "unpadded bs = filter (\<lambda>ch. ch \<noteq> CHR ''='') (b64_encode bs)"

definition padding :: "nat \<Rightarrow> string" where
  "padding n = replicate ((4 - n mod 4) mod 4) (CHR ''='')"

definition url_b64_encode :: "bytes \<Rightarrow> string" where
  "url_b64_encode bs = map url_char (unpadded bs)"

definition url_b64_decode :: "string \<Rightarrow> bytes option" where
  "url_b64_decode s =
     (if list_all (\<lambda>ch. ch \<in> set url_alphabet) s \<and> length s mod 4 \<noteq> 1
      then b64_decode (map plain_char s @ padding (length s)) else None)"

lemma b64_char_not_pad: "b64_char n \<noteq> CHR ''=''"
proof
  assume "b64_char n = CHR ''=''"
  then show False using b64_char_mem [of n] by (simp add: b64_alphabet_def)
qed

lemma unpadded_simps [simp]:
  "unpadded [] = []" "unpadded [a] = [b64_char (unat a div 4), b64_char (unat a mod 4 * 16)]"
  "unpadded [a, b] = [b64_char (unat a div 4), b64_char (unat a mod 4 * 16 + unat b div 16), b64_char (unat b mod 16 * 4)]"
  "unpadded (a # b # c # r) = [b64_char (unat a div 4), b64_char (unat a mod 4 * 16 + unat b div 16),
     b64_char (unat b mod 16 * 4 + unat c div 64), b64_char (unat c mod 64)] @ unpadded r"
  by (simp_all add: unpadded_def b64_char_not_pad)

lemma length_unpadded: "length (unpadded bs) = (4 * length bs + 2) div 3"
proof (induction bs rule: b64_encode.induct)
  case (4 a b c r)
  have "(4 * length (a # b # c # r) + 2) div 3 = (4 * length r + 2 + 4 * 3) div 3" by simp
  also have "\<dots> = (4 * length r + 2) div 3 + 4" by (subst div_mult_self1) simp_all
  finally show ?case using 4 by simp
qed simp_all

lemma four_more: "Suc (Suc (Suc (Suc n))) mod 4 = n mod 4"
proof -
  have "Suc (Suc (Suc (Suc n))) = n + 4" by simp
  then show ?thesis by (simp only: mod_add_self2)
qed

lemma padding_step [simp]: "padding (Suc (Suc (Suc (Suc n)))) = padding n"
  by (simp only: padding_def four_more)

lemma padding_ends: "padding 0 = []" "padding (Suc (Suc 0)) = ''==''" "padding (Suc (Suc (Suc 0))) = ''=''"
  by (simp_all add: padding_def numeral_2_eq_2 [symmetric] numeral_3_eq_3 [symmetric]) (simp add: numeral_2_eq_2)

lemma padded: "b64_encode bs = unpadded bs @ padding (length (unpadded bs)) \<and> length (unpadded bs) mod 4 \<noteq> 1"
proof (induction bs rule: b64_encode.induct)
  case (4 a b c r)
  then show ?case by (simp add: four_more)
qed (simp_all add: padding_ends)

lemma set_unpadded: "set (unpadded bs) \<subseteq> set b64_alphabet"
  by (induction bs rule: b64_encode.induct) (use b64_char_mem in auto)

lemma plain_url_char: "ch \<in> set b64_alphabet \<Longrightarrow> plain_char (url_char ch) = ch \<and> url_char ch \<in> set url_alphabet"
  by (auto simp: b64_alphabet_def url_alphabet_def plain_char_def url_char_def)

lemma url_b64_roundtrip: "url_b64_decode (url_b64_encode bs) = Some bs"
proof -
  have "map plain_char (map url_char (unpadded bs)) = unpadded bs"
    using set_unpadded [of bs] plain_url_char by (induction "unpadded bs" arbitrary: bs) (auto simp: map_idI subset_iff)
  moreover have "list_all (\<lambda>ch. ch \<in> set url_alphabet) (map url_char (unpadded bs))"
    using set_unpadded [of bs] plain_url_char by (auto simp: list_all_iff)
  ultimately show ?thesis using padded [of bs] b64_decode_encode [of bs] by (simp add: url_b64_decode_def url_b64_encode_def)
qed

definition toy_web :: web_primitives where
  "toy_web = primitives.extend toy_primitives
     \<lparr>url_encode = url_b64_encode, url_decode = url_b64_decode,
      hmac_sha256 = (\<lambda>k m. take 32 (rev m @ k @ replicate 32 0))\<rparr>"

lemma toy_url: "url_base64_faithful toy_web"
proof -
  have "set (url_b64_encode bs) \<subseteq> set url_alphabet" for bs
    using set_unpadded [of bs] plain_url_char by (auto simp: url_b64_encode_def)
  then show ?thesis
    by (simp add: url_base64_faithful_def toy_web_def primitives.defs url_b64_roundtrip) (simp add: url_b64_encode_def length_unpadded)
qed

lemma toy_digests: "digests_fit toy_web"
  by (simp add: digests_fit_def toy_web_def primitives.defs toy_primitives_def) (simp add: min_def)

end
