(* ===== verification/Enrollment_Keys.thy ===== *)
theory Enrollment_Keys
  imports Net_Text Web_Primitives
begin

text \<open>
  The texts of the enrollment protocol (\<open>rustgo-protocol/src/enrollment.rs\<close>): the key an administrator
  hands to a new client, which carries the server's address, the fingerprint of its certificate and a
  one-time token under a checksum, and the intent a client sends to ask for approval. The theorems:
  an address is brought into one canonical form, a printed key is read back exactly when it is within
  the 512 bytes the reader takes, every accepted key is canonical, and intents are read back with and
  without their signature.
\<close>

definition ENROLL_PREFIX :: string where "ENROLL_PREFIX = ''rustgo-enroll-v1.''"
definition MAX_ENCODED_BYTES :: nat where "MAX_ENCODED_BYTES = 512"
definition SECRET_BYTES :: nat where "SECRET_BYTES = 32"
definition CHECKSUM_HEX_BYTES :: nat where "CHECKSUM_HEX_BYTES = 8"

datatype EnrollmentKeyError = InvalidFormat | UnsupportedVersion | InvalidChecksum | InvalidPurpose | InvalidAddress

datatype EnrollmentPurpose = Enroll | ReEnroll

subsection \<open>Server addresses\<close>

definition validate_port :: "string option \<Rightarrow> (EnrollmentKeyError, u16) result" where
  "validate_port given =
     and_then (ok_or given InvalidAddress) (\<lambda>text.
     and_then (ok_or (parse_u16 text) InvalidAddress) (\<lambda>p.
       if p = 0 then Inl InvalidAddress else Inr p))"

text \<open>\<open>char::is_whitespace\<close> on the ASCII characters.\<close>

definition ascii_white :: "char \<Rightarrow> bool" where
  "ascii_white ch \<longleftrightarrow> (let c = of_char ch :: nat in c = 32 \<or> 9 \<le> c \<and> c \<le> 13)"

definition is_ascii :: "string \<Rightarrow> bool" where
  "is_ascii s \<longleftrightarrow> list_all (\<lambda>ch. (of_char ch :: nat) < 128) s"

definition canonical_enrollment_server_addr :: "string \<Rightarrow> (EnrollmentKeyError, string) result" where
  "canonical_enrollment_server_addr address =
     (if starts_with ''['' address then
        (case split_once (CHR '']'') address of
           None \<Rightarrow> Inl InvalidAddress
         | Some (before, suffix) \<Rightarrow>
             let host = drop 1 before
             in and_then (validate_port (strip_prefix '':'' suffix)) (\<lambda>port.
                and_then (ok_or (Ipv6Addr_from_str host) InvalidAddress) (\<lambda>ip.
                  Inr (''['' @ Ipv6Addr_to_string ip @ '']:'' @ decimal (unat port)))))
      else
        (case rsplit_once (CHR '':'') address of
           None \<Rightarrow> Inl InvalidAddress
         | Some (host, port_text) \<Rightarrow>
             if host = [] \<or> CHR '':'' \<in> set host \<or> \<not> is_ascii host \<or> list_ex ascii_white host then Inl InvalidAddress
             else and_then (validate_port (Some port_text)) (\<lambda>port.
               Inr (to_ascii_lowercase host @ '':'' @ decimal (unat port)))))"

subsection \<open>Enrollment keys\<close>

record EnrollmentKeyMaterial =
  ekm_server_addr :: string
  ekm_certificate_fingerprint :: bytes
  ekm_purpose :: EnrollmentPurpose
  ekm_token :: bytes

definition EnrollmentKeyMaterial_new ::
  "EnrollmentPurpose \<Rightarrow> string \<Rightarrow> bytes \<Rightarrow> bytes \<Rightarrow> (EnrollmentKeyError, EnrollmentKeyMaterial) result" where
  "EnrollmentKeyMaterial_new purpose server_addr certificate_fingerprint token =
     and_then (canonical_enrollment_server_addr server_addr) (\<lambda>address.
       Inr \<lparr>ekm_server_addr = address, ekm_certificate_fingerprint = certificate_fingerprint, ekm_purpose = purpose,
            ekm_token = token\<rparr>)"

definition hex_checksum :: "bytes \<Rightarrow> string" where
  "hex_checksum bs = concat (map hex_byte bs)"

definition key_payload :: "EnrollmentKeyMaterial \<Rightarrow> bytes" where
  "key_payload self =
     (let address = as_bytes (ekm_server_addr self)
      in [case ekm_purpose self of Enroll \<Rightarrow> 1 | ReEnroll \<Rightarrow> 2] @ put_u16 (word_of_nat (length address)) @ address @
         ekm_certificate_fingerprint self @ ekm_token self)"

definition EnrollmentKeyMaterial_encode :: "'a web_primitives_scheme \<Rightarrow> EnrollmentKeyMaterial \<Rightarrow> string" where
  "EnrollmentKeyMaterial_encode c self =
     (let payload = key_payload self;
          checksum = sha256 c payload
      in ENROLL_PREFIX @ url_encode c payload @ ''.'' @ hex_checksum (take 4 checksum))"

text \<open>
  The chunks of two bytes of the checksum. A chunk that is not valid UTF-8 has no hexadecimal digit in
  it, so \<open>parse_radix\<close> refuses it as the source does.
\<close>

fun decode_checksum :: "string \<Rightarrow> (EnrollmentKeyError, bytes) result" where
  "decode_checksum [] = Inr []"
| "decode_checksum [x] = Inl InvalidChecksum"
| "decode_checksum (x # y # rest) =
     and_then (ok_or (parse_radix 16 255 [x, y]) InvalidChecksum) (\<lambda>byte.
     and_then (decode_checksum rest) (\<lambda>bs. Inr (word_of_nat byte # bs)))"

definition EnrollmentKeyMaterial_decode ::
  "'a web_primitives_scheme \<Rightarrow> string \<Rightarrow> (EnrollmentKeyError, EnrollmentKeyMaterial) result" where
  "EnrollmentKeyMaterial_decode c encoded =
     (if encoded = [] \<or> length encoded > MAX_ENCODED_BYTES then Inl InvalidFormat
      else
        and_then (ok_or (strip_prefix ENROLL_PREFIX encoded) UnsupportedVersion) (\<lambda>remainder.
        and_then (ok_or (split_once (CHR ''.'') remainder) InvalidFormat) (\<lambda>(payload_encoded, checksum_encoded).
        if length checksum_encoded \<noteq> CHECKSUM_HEX_BYTES \<or> CHR ''.'' \<in> set checksum_encoded then Inl InvalidChecksum
        else
          and_then (ok_or (url_decode c payload_encoded) InvalidFormat) (\<lambda>payload.
          and_then (decode_checksum checksum_encoded) (\<lambda>checksum.
          if take 4 (sha256 c payload) \<noteq> checksum then Inl InvalidChecksum
          else if length payload < 3 + 2 * SECRET_BYTES then Inl InvalidFormat
          else
            and_then (if payload ! 0 = 1 then Inr Enroll else if payload ! 0 = 2 then Inr ReEnroll else Inl InvalidPurpose) (\<lambda>purpose.
            let address_len = unat (u16_from_be [payload ! 1, payload ! 2])
            in if length payload \<noteq> 3 + address_len + 2 * SECRET_BYTES then Inl InvalidFormat
               else
                 let address_end = 3 + address_len;
                     address = map char_of_byte (subslice 3 address_end payload);
                     fingerprint_end = address_end + SECRET_BYTES
                 in if \<not> utf8_valid address then Inl InvalidAddress
                    else EnrollmentKeyMaterial_new purpose address (subslice address_end fingerprint_end payload)
                      (drop fingerprint_end payload)))))))"

subsection \<open>Registration intents\<close>

record RegistrationIntent =
  ri_client_name :: string
  ri_uid :: "string option"
  ri_profile :: bool
  ri_purpose :: EnrollmentPurpose
  ri_signature :: "bytes option"

definition name_char :: "char \<Rightarrow> bool" where
  "name_char ch \<longleftrightarrow> is_ascii_alphanumeric ch \<or> ch = CHR ''.'' \<or> ch = CHR ''_'' \<or> ch = CHR ''-''"

definition RegistrationIntent_new :: "string \<Rightarrow> EnrollmentPurpose \<Rightarrow> (EnrollmentKeyError, RegistrationIntent) result" where
  "RegistrationIntent_new client_name purpose =
     (if client_name = [] \<or> length client_name > 64 \<or> \<not> list_all name_char client_name then Inl InvalidFormat
      else Inr \<lparr>ri_client_name = client_name, ri_uid = None, ri_profile = False, ri_purpose = purpose, ri_signature = None\<rparr>)"

text \<open>\<open>char::is_control\<close> is the general category Cc, here on the UTF-8 form.\<close>

fun has_control :: "string \<Rightarrow> bool" where
  "has_control [] = False"
| "has_control (x # s) =
     (let c = of_char x :: nat
      in c < 32 \<or> c = 127 \<or>
         (c = 194 \<and> (case s of y # _ \<Rightarrow> (let d = of_char y :: nat in 128 \<le> d \<and> d \<le> 159) | [] \<Rightarrow> False)) \<or> has_control s)"

definition RegistrationIntent_for_profile ::
  "string \<Rightarrow> string option \<Rightarrow> EnrollmentPurpose \<Rightarrow> (EnrollmentKeyError, RegistrationIntent) result" where
  "RegistrationIntent_for_profile display_name uid purpose =
     (if is_blank display_name \<or> length display_name > 128 \<or> has_control display_name then Inl InvalidFormat
      else
        and_then (case uid of Some u \<Rightarrow> and_then (RegistrationIntent_new u purpose) (\<lambda>_. Inr ()) | None \<Rightarrow> Inr ()) (\<lambda>_.
          Inr \<lparr>ri_client_name = display_name, ri_uid = uid, ri_profile = True, ri_purpose = purpose, ri_signature = None\<rparr>))"

definition purpose_text :: "EnrollmentPurpose \<Rightarrow> string" where
  "purpose_text purpose = (if purpose = Enroll then ''enroll'' else ''reenroll'')"

definition RegistrationIntent_encode :: "'a web_primitives_scheme \<Rightarrow> RegistrationIntent \<Rightarrow> string" where
  "RegistrationIntent_encode c self =
     (let kind = purpose_text (ri_purpose self)
      in if ri_profile self then
           ''rustgo-approval-v2.'' @ kind @ ''.'' @ url_encode c (as_bytes (ri_client_name self)) @ ''.'' @
             (case ri_uid self of Some uid \<Rightarrow> uid | None \<Rightarrow> [])
         else ''rustgo-approval-v1.'' @ kind @ ''.'' @ ri_client_name self)"

fun signature_bytes :: "string \<Rightarrow> (EnrollmentKeyError, bytes) result" where
  "signature_bytes (x # y # rest) =
     and_then (ok_or (parse_radix 16 255 [x, y]) InvalidFormat) (\<lambda>byte.
     and_then (signature_bytes rest) (\<lambda>bs. Inr (word_of_nat byte # bs)))"
| "signature_bytes _ = Inr []"

definition split_signature :: "string \<Rightarrow> (EnrollmentKeyError, string \<times> bytes option) result" where
  "split_signature encoded =
     (case split_once (CHR '':'') encoded of
        Some (intent, proof_text) \<Rightarrow>
          if length proof_text \<noteq> 128 \<or> \<not> list_all is_ascii_hexdigit proof_text then Inl InvalidFormat
          else and_then (signature_bytes proof_text) (\<lambda>signature. Inr (intent, Some signature))
      | None \<Rightarrow> Inr (encoded, None))"

definition purpose_of :: "string \<Rightarrow> (EnrollmentKeyError, EnrollmentPurpose) result" where
  "purpose_of text =
     (if text = ''enroll'' then Inr Enroll else if text = ''reenroll'' then Inr ReEnroll else Inl InvalidPurpose)"

text \<open>\<open>decode\<close> after the signature has been cut off.\<close>

definition decode_intent :: "'a web_primitives_scheme \<Rightarrow> string \<Rightarrow> (EnrollmentKeyError, RegistrationIntent) result" where
  "decode_intent c encoded =
     (let profile = starts_with ''rustgo-approval-v2.'' encoded
      in and_then (ok_or (Option.bind (strip_prefix (if profile then ''rustgo-approval-v2.'' else ''rustgo-approval-v1.'') encoded)
             (split_once (CHR ''.''))) InvalidFormat) (\<lambda>(purpose, name).
         and_then (purpose_of purpose) (\<lambda>purpose.
         if profile then
           and_then (ok_or (split_once (CHR ''.'') name) InvalidFormat) (\<lambda>(name, uid).
           and_then (ok_or (url_decode c name) InvalidFormat) (\<lambda>bs.
           let name = map char_of_byte bs
           in if \<not> utf8_valid name then Inl InvalidFormat
              else RegistrationIntent_for_profile name (if uid = [] then None else Some uid) purpose))
         else RegistrationIntent_new name purpose)))"

definition RegistrationIntent_decode :: "'a web_primitives_scheme \<Rightarrow> string \<Rightarrow> (EnrollmentKeyError, RegistrationIntent) result" where
  "RegistrationIntent_decode c encoded =
     (if length encoded > MAX_ENCODED_BYTES then Inl InvalidFormat
      else
        and_then (split_signature encoded) (\<lambda>(encoded, signature).
        and_then (decode_intent c encoded) (\<lambda>result. Inr (result\<lparr>ri_signature := signature\<rparr>))))"

subsection \<open>Addresses have one form\<close>

lemma validate_port_decimal: "(p :: u16) \<noteq> 0 \<Longrightarrow> validate_port (Some (decimal (unat p))) = Inr p"
  by (simp add: validate_port_def parse_u16_decimal)

lemma validate_port_Inr: "validate_port t = Inr p \<Longrightarrow> p \<noteq> 0"
  by (auto simp: validate_port_def result_simps split: if_splits)

lemma decimal_marks: "CHR '':'' \<notin> set (decimal n)" "CHR '']'' \<notin> set (decimal n)"
  using decimal_code [of "CHR '':''" n] decimal_code [of "CHR '']''" n] by auto

lemma lowercase_char:
  obtains (upper) "65 \<le> (of_char ch :: nat)" "of_char ch \<le> (90 :: nat)" "to_ascii_lowercase (ch # s) = char_of (of_char ch + 32 :: nat) # to_ascii_lowercase s"
  | (other) "\<not> (65 \<le> (of_char ch :: nat) \<and> of_char ch \<le> (90 :: nat))" "to_ascii_lowercase (ch # s) = ch # to_ascii_lowercase s"
  by (cases "65 \<le> (of_char ch :: nat) \<and> of_char ch \<le> (90 :: nat)") (auto simp: to_ascii_lowercase_def Let_def)

lemma lowercase_keeps:
  "is_ascii s \<Longrightarrow> is_ascii (to_ascii_lowercase s)"
  "list_ex ascii_white (to_ascii_lowercase s) = list_ex ascii_white s"
  "CHR '':'' \<in> set (to_ascii_lowercase s) \<longleftrightarrow> CHR '':'' \<in> set s"
  "starts_with ''['' (to_ascii_lowercase s) = starts_with ''['' s"
proof -
  have up: "char_of (of_char ch + 32 :: nat) \<noteq> CHR '':''" "char_of (of_char ch + 32 :: nat) \<noteq> CHR ''[''" "ch \<noteq> CHR '':''" "ch \<noteq> CHR ''[''"
    if "65 \<le> (of_char ch :: nat)" "of_char ch \<le> (90 :: nat)" for ch
  proof -
    have code: "(of_char (char_of (of_char ch + 32 :: nat) :: char) :: nat) = of_char ch + 32" using that by simp
    show "char_of (of_char ch + 32 :: nat) \<noteq> CHR '':''"
    proof
      assume "char_of (of_char ch + 32 :: nat) = CHR '':''"
      with code that show False by (simp only:) simp
    qed
    show "char_of (of_char ch + 32 :: nat) \<noteq> CHR ''[''"
    proof
      assume "char_of (of_char ch + 32 :: nat) = CHR ''[''"
      with code that show False by (simp only:) simp
    qed
    show "ch \<noteq> CHR '':''" "ch \<noteq> CHR ''[''" using that by auto
  qed
  show "is_ascii s \<Longrightarrow> is_ascii (to_ascii_lowercase s)"
  proof (induction s)
    case (Cons ch s)
    then show ?case by (cases rule: lowercase_char [of ch s]) (auto simp: is_ascii_def)
  qed (simp add: is_ascii_def to_ascii_lowercase_def)
  show "list_ex ascii_white (to_ascii_lowercase s) = list_ex ascii_white s"
  proof (induction s)
    case (Cons ch s)
    then show ?case by (cases rule: lowercase_char [of ch s]) (auto simp: ascii_white_def)
  qed (simp add: to_ascii_lowercase_def)
  show "CHR '':'' \<in> set (to_ascii_lowercase s) \<longleftrightarrow> CHR '':'' \<in> set s"
  proof (induction s)
    case (Cons ch s)
    then show ?case using up [of ch] by (cases rule: lowercase_char [of ch s]) auto
  qed (simp add: to_ascii_lowercase_def)
  show "starts_with ''['' (to_ascii_lowercase s) = starts_with ''['' s"
  proof (cases s)
    case (Cons ch r)
    then show ?thesis using up [of ch] by (cases rule: lowercase_char [of ch r]) (auto simp: starts_with_def)
  qed (simp add: to_ascii_lowercase_def)
qed

lemma canonical_v6:
  fixes p :: u16
  assumes "length ip = 16" and "p \<noteq> 0"
  shows "canonical_enrollment_server_addr (''['' @ Ipv6Addr_to_string ip @ '']:'' @ decimal (unat p)) =
    Inr (''['' @ Ipv6Addr_to_string ip @ '']:'' @ decimal (unat p))"
proof -
  have "CHR '']'' \<notin> set (''['' @ Ipv6Addr_to_string ip)" using ipv6_chars [of "CHR '']''" ip] by auto
  from split_once_append [OF this, of "'':'' @ decimal (unat p)"]
  show ?thesis
    using ipv6_print_parse [OF assms(1)] validate_port_decimal [OF assms(2)] strip_prefix_append [of "'':''" "decimal (unat p)"]
    by (simp add: canonical_enrollment_server_addr_def starts_with_def)
qed

lemma canonical_host:
  fixes p :: u16
  assumes "host \<noteq> []" and "CHR '':'' \<notin> set host" and "is_ascii host" and "\<not> list_ex ascii_white host"
    and "\<not> starts_with ''['' host" and "p \<noteq> 0"
  shows "canonical_enrollment_server_addr (to_ascii_lowercase host @ '':'' @ decimal (unat p)) =
    Inr (to_ascii_lowercase host @ '':'' @ decimal (unat p))"
proof -
  have "\<not> starts_with ''['' (to_ascii_lowercase host @ s)" for s
    using assms(1,5) lowercase_keeps(4) [of host] by (cases host) (simp_all add: starts_with_def to_ascii_lowercase_def)
  moreover have "to_ascii_lowercase host \<noteq> []" using assms(1) by (simp add: to_ascii_lowercase_def)
  ultimately show ?thesis
    using rsplit_once_append [OF decimal_marks(1), of "to_ascii_lowercase host" "unat p"] assms lowercase_keeps(1-3) [of host]
      validate_port_decimal [OF assms(6)]
    by (simp add: canonical_enrollment_server_addr_def)
qed

lemma canonical_cases:
  assumes "canonical_enrollment_server_addr a = Inr b"
  obtains (v6) ip and p :: u16 where "length ip = 16" "p \<noteq> 0" "b = ''['' @ Ipv6Addr_to_string ip @ '']:'' @ decimal (unat p)"
  | (host) host and p :: u16 where "host \<noteq> []" "CHR '':'' \<notin> set host" "is_ascii host" "\<not> list_ex ascii_white host"
      "\<not> starts_with ''['' host" "p \<noteq> 0" "b = to_ascii_lowercase host @ '':'' @ decimal (unat p)"
proof (cases "starts_with ''['' a")
  case True
  then obtain before suffix ip p where
      "split_once (CHR '']'') a = Some (before, suffix)" "validate_port (strip_prefix '':'' suffix) = Inr p"
      "Ipv6Addr_from_str (drop 1 before) = Some ip" "b = ''['' @ Ipv6Addr_to_string ip @ '']:'' @ decimal (unat p)"
    using assms by (auto simp: canonical_enrollment_server_addr_def result_simps split: option.splits)
  then show ?thesis using v6 [OF ipv6_length validate_port_Inr] by blast
next
  case False
  then obtain host given p where h: "rsplit_once (CHR '':'') a = Some (host, given)"
      "host \<noteq> []" "CHR '':'' \<notin> set host" "is_ascii host" "\<not> list_ex ascii_white host"
      "validate_port (Some given) = Inr p" "b = to_ascii_lowercase host @ '':'' @ decimal (unat p)"
    using assms by (auto simp: canonical_enrollment_server_addr_def result_simps split: option.splits if_splits)
  have "a = host @ CHR '':'' # given" using rsplit_once_Some [OF h(1)] by simp
  then have "\<not> starts_with ''['' host" using False h(2) by (cases host) (auto simp: starts_with_def)
  then show ?thesis using host [OF h(2-5) _ validate_port_Inr [OF h(6)] h(7)] by blast
qed

lemma canonical_idempotent:
  assumes "canonical_enrollment_server_addr a = Inr b"
  shows "canonical_enrollment_server_addr b = Inr b"
  using assms by (rule canonical_cases) (use canonical_v6 canonical_host in metis)+

lemma canonical_ascii:
  assumes "canonical_enrollment_server_addr a = Inr b"
  shows "utf8_valid b"
  using assms
proof (cases rule: canonical_cases)
  case (v6 ip p)
  have "(of_char ch :: nat) < 128" if "ch \<in> set (Ipv6Addr_to_string ip) \<or> ch \<in> set (decimal (unat p))" for ch
    using that ipv6_chars [of ch ip] decimal_code [of ch "unat p"] by auto
  then show ?thesis unfolding v6(3) by (intro utf8_valid_ascii) auto
next
  case (host host p)
  have "(of_char ch :: nat) < 128" if "ch \<in> set (to_ascii_lowercase host) \<or> ch \<in> set (decimal (unat p))" for ch
    using that lowercase_keeps(1) [OF host(3)] decimal_code [of ch "unat p"] by (auto simp: is_ascii_def list_all_iff)
  then show ?thesis unfolding host(7) by (intro utf8_valid_ascii) auto
qed

subsection \<open>Keys are read back\<close>

lemma decode_hex_checksum: "decode_checksum (hex_checksum bs) = Inr bs"
proof (induction bs)
  case (Cons b bs)
  then show ?case using parse_radix_hex_byte [of b] by (simp add: hex_checksum_def hex_byte_def)
qed (simp add: hex_checksum_def)

lemma hex_checksum_facts: "length (hex_checksum bs) = 2 * length bs" "CHR ''.'' \<notin> set (hex_checksum bs)"
proof -
  show "length (hex_checksum bs) = 2 * length bs" by (induction bs) (simp_all add: hex_checksum_def hex_byte_def)
  have "hex_digit (unat b div 16) \<noteq> CHR ''.''" "hex_digit (unat b mod 16) \<noteq> CHR ''.''" for b :: u8
  proof -
    have "unat b div 16 < 16" using unat_less_pow [of b] by (simp add: less_mult_imp_div_less)
    then show "hex_digit (unat b div 16) \<noteq> CHR ''.''" "hex_digit (unat b mod 16) \<noteq> CHR ''.''"
      using hex_digit_code [of "unat b div 16"] hex_digit_code [of "unat b mod 16"] by auto
  qed
  then have "hex_digit (unat b div 16) \<noteq> CHR ''.'' \<and> hex_digit (unat b mod 16) \<noteq> CHR ''.''" for b :: u8 by blast
  then show "CHR ''.'' \<notin> set (hex_checksum bs)" by (induction bs) (simp_all add: hex_checksum_def hex_byte_def not_sym)
qed

lemma encoded_length:
  assumes "url_base64_faithful c" and "digests_fit c" and "length (ekm_certificate_fingerprint m) = 32" and "length (ekm_token m) = 32"
  shows "length (EnrollmentKeyMaterial_encode c m) = 26 + (4 * (67 + length (ekm_server_addr m)) + 2) div 3"
  using assms by (simp add: EnrollmentKeyMaterial_encode_def Let_def url_base64_faithful_def digests_fit_def hex_checksum_facts key_payload_def ENROLL_PREFIX_def)

lemma encoded_fits: "26 + (4 * (67 + n) + 2) div 3 \<le> 512 \<longleftrightarrow> n \<le> (297 :: nat)"
  by presburger

text \<open>
  C33 (enrollment keys): the key made for a server address is read back as the material it was made
  from when the canonical address has at most 297 bytes, and refused when the address is longer.
\<close>

theorem enrollment_key_roundtrip:
  assumes "url_base64_faithful c" and "digests_fit c" and "length print = 32" and "length token = 32"
    and "EnrollmentKeyMaterial_new purpose address print token = Inr m"
  shows "EnrollmentKeyMaterial_decode c (EnrollmentKeyMaterial_encode c m) =
    (if length (ekm_server_addr m) \<le> 297 then Inr m else Inl InvalidFormat)"
proof -
  obtain addr where a: "canonical_enrollment_server_addr address = Inr addr"
      "m = \<lparr>ekm_server_addr = addr, ekm_certificate_fingerprint = print, ekm_purpose = purpose, ekm_token = token\<rparr>"
    using assms(5) by (auto simp: EnrollmentKeyMaterial_new_def result_simps)
  let ?p = "key_payload m" and ?k = "EnrollmentKeyMaterial_encode c m"
  have len: "length ?k \<le> MAX_ENCODED_BYTES \<longleftrightarrow> length addr \<le> 297"
    using encoded_length [OF assms(1,2), of m] assms(3,4) a(2) encoded_fits [of "length addr"] by (simp add: MAX_ENCODED_BYTES_def)
  have k: "?k = ENROLL_PREFIX @ url_encode c ?p @ CHR ''.'' # hex_checksum (take 4 (sha256 c ?p))"
    by (simp add: EnrollmentKeyMaterial_encode_def Let_def)
  have ne: "?k \<noteq> []" by (simp add: k ENROLL_PREFIX_def)
  show ?thesis
  proof (cases "length addr \<le> 297")
    case False
    then show ?thesis using len ne a(2) by (simp add: EnrollmentKeyMaterial_decode_def)
  next
    case True
    define l where "l = put_u16 (word_of_nat (length addr))"
    obtain l1 l2 where l: "l = [l1, l2]" using length_put(1) [of "word_of_nat (length addr)"] unfolding l_def [symmetric] by (auto simp: length_Suc_conv numeral_2_eq_2)
    have l16: "unat (u16_from_be [l1, l2]) = length addr"
      using from_be_put(1) [of "word_of_nat (length addr)"] True unfolding l [symmetric] l_def by (simp add: unat_of_nat)
    have p: "?p = (case purpose of Enroll \<Rightarrow> 1 | ReEnroll \<Rightarrow> 2) # l1 # l2 # as_bytes addr @ print @ token"
      using l l_def by (simp add: key_payload_def a(2))
    have p': "?p = [case purpose of Enroll \<Rightarrow> 1 | ReEnroll \<Rightarrow> 2, l1, l2] @ as_bytes addr @ print @ token" using p by simp
    have dot: "CHR ''.'' \<notin> set (url_encode c ?p)" using assms(1) url_alphabet_marks(1) by (auto simp: url_base64_faithful_def)
    have dec: "url_decode c (url_encode c ?p) = Some ?p" using assms(1) by (simp add: url_base64_faithful_def)
    have sum: "length (hex_checksum (take 4 (sha256 c ?p))) = 8" using assms(2) by (simp add: hex_checksum_facts digests_fit_def)
    have cut: "subslice 3 (3 + length addr) ?p = as_bytes addr" "subslice (3 + length addr) (3 + length addr + 32) ?p = print"
      "drop (3 + length addr + 32) ?p = token" "length ?p = 67 + length addr"
      using assms(3,4) by (simp_all add: p' subslice_def del: append_Cons)
    have addr: "map char_of_byte (as_bytes addr) = addr" by (simp add: as_bytes_def o_def)
    have "(if ?p ! 0 = 1 then Inr Enroll else if ?p ! 0 = 2 then Inr ReEnroll else Inl InvalidPurpose) = (Inr purpose :: (EnrollmentKeyError, _) result)"
      by (cases purpose) (simp_all add: p)
    moreover have "u16_from_be [?p ! 1, ?p ! 2] = u16_from_be [l1, l2]" by (simp add: p)
    moreover have "EnrollmentKeyMaterial_new purpose addr print token = Inr m"
      using canonical_idempotent [OF a(1)] by (simp add: EnrollmentKeyMaterial_new_def a(2))
    ultimately show ?thesis
      using len True ne dec sum cut addr l16 canonical_ascii [OF a(1)] decode_hex_checksum [of "take 4 (sha256 c ?p)"]
        split_once_append [OF dot] hex_checksum_facts(2) [of "take 4 (sha256 c ?p)"]
      by (simp add: EnrollmentKeyMaterial_decode_def k SECRET_BYTES_def CHECKSUM_HEX_BYTES_def Let_def) (simp add: a(2))
  qed
qed

text \<open>
  Whatever text is accepted as a key, the material has a canonical address and values of the fixed
  lengths.
\<close>

theorem enrollment_key_sound:
  assumes "EnrollmentKeyMaterial_decode c s = Inr m"
  shows "canonical_enrollment_server_addr (ekm_server_addr m) = Inr (ekm_server_addr m) \<and>
    length (ekm_certificate_fingerprint m) = 32 \<and> length (ekm_token m) = 32 \<and> length s \<le> 512"
proof -
  obtain purpose address fingerprint token where n: "EnrollmentKeyMaterial_new purpose address fingerprint token = Inr m"
      "length fingerprint = 32" "length token = 32"
    using assms
    by (auto simp: EnrollmentKeyMaterial_decode_def result_simps Let_def SECRET_BYTES_def subslice_def split: if_splits)
  have "length s \<le> 512" using assms by (auto simp: EnrollmentKeyMaterial_decode_def MAX_ENCODED_BYTES_def split: if_splits)
  moreover from n obtain a where "canonical_enrollment_server_addr address = Inr a"
      "m = \<lparr>ekm_server_addr = a, ekm_certificate_fingerprint = fingerprint, ekm_purpose = purpose, ekm_token = token\<rparr>"
    by (auto simp: EnrollmentKeyMaterial_new_def result_simps)
  ultimately show ?thesis using n(2,3) canonical_idempotent by auto
qed

subsection \<open>Intents are read back\<close>

lemma hex_text_facts:
  "list_all is_ascii_hexdigit (hex_checksum bs)" "signature_bytes (hex_checksum bs) = Inr bs"
proof -
  have "list_all is_ascii_hexdigit (hex_byte b)" for b
  proof -
    have "unat b div 16 < 16" "unat b mod 16 < 16" using unat_less_pow [of b] by (simp_all add: less_mult_imp_div_less)
    then show ?thesis using hex_digit_code [of "unat b div 16"] hex_digit_code [of "unat b mod 16"]
      by (auto simp: hex_byte_def is_ascii_hexdigit_def Let_def)
  qed
  then show "list_all is_ascii_hexdigit (hex_checksum bs)" by (induction bs) (simp_all add: hex_checksum_def)
  show "signature_bytes (hex_checksum bs) = Inr bs"
  proof (induction bs)
    case (Cons b bs)
    then show ?case using parse_radix_hex_byte [of b] by (simp add: hex_checksum_def hex_byte_def)
  qed (simp add: hex_checksum_def)
qed

lemma split_signature_text:
  assumes "CHR '':'' \<notin> set e"
  shows "split_signature e = Inr (e, None)"
    and "length sig = 64 \<Longrightarrow> split_signature (e @ '':'' @ hex_checksum sig) = Inr (e, Some sig)"
  using split_once_absent [OF assms] split_once_append [OF assms, of "hex_checksum sig"]
  by (simp_all add: split_signature_def hex_text_facts hex_checksum_facts)

lemma decode_with_signature:
  assumes "CHR '':'' \<notin> set e" and "length e \<le> 383" and "RegistrationIntent_decode c e = Inr i" and "length sig = 64"
  shows "RegistrationIntent_decode c (e @ '':'' @ hex_checksum sig) = Inr (i\<lparr>ri_signature := Some sig\<rparr>)"
  using assms split_signature_text [OF assms(1)]
  by (auto simp: RegistrationIntent_decode_def MAX_ENCODED_BYTES_def hex_checksum_facts result_simps split: if_splits)

lemma name_marks: "list_all name_char n \<Longrightarrow> CHR '':'' \<notin> set n"
  by (auto simp: list_all_iff name_char_def is_ascii_alphanumeric_def)

lemma purpose_facts:
  "purpose_of (purpose_text p) = Inr p" "CHR ''.'' \<notin> set (purpose_text p)" "CHR '':'' \<notin> set (purpose_text p)" "length (purpose_text p) \<le> 8"
  by (cases p; simp add: purpose_text_def purpose_of_def)+

lemma plain_intent:
  assumes "RegistrationIntent_new n p = Inr i"
  shows "RegistrationIntent_decode c (RegistrationIntent_encode c i) = Inr i \<and> CHR '':'' \<notin> set (RegistrationIntent_encode c i) \<and>
    length (RegistrationIntent_encode c i) \<le> 383"
proof -
  have i: "i = \<lparr>ri_client_name = n, ri_uid = None, ri_profile = False, ri_purpose = p, ri_signature = None\<rparr>"
      "list_all name_char n" "length n \<le> 64"
    using assms by (auto simp: RegistrationIntent_new_def split: if_splits)
  have e: "RegistrationIntent_encode c i = ''rustgo-approval-v1.'' @ purpose_text p @ CHR ''.'' # n"
    by (simp add: RegistrationIntent_encode_def i(1))
  have "CHR '':'' \<notin> set (RegistrationIntent_encode c i)" "length (RegistrationIntent_encode c i) \<le> 92"
    using name_marks [OF i(2)] purpose_facts(3,4) [of p] i(3) by (simp_all add: e)
  moreover have "\<not> starts_with ''rustgo-approval-v2.'' (RegistrationIntent_encode c i)" by (simp add: starts_with_def e)
  moreover have "strip_prefix ''rustgo-approval-v1.'' (RegistrationIntent_encode c i) = Some (purpose_text p @ CHR ''.'' # n)"
    unfolding e by (rule strip_prefix_append)
  ultimately show ?thesis
    using split_signature_text(1) [of "RegistrationIntent_encode c i"] split_once_append [OF purpose_facts(2), of p n] purpose_facts(1) [of p] assms i(1)
    by (simp add: RegistrationIntent_decode_def decode_intent_def MAX_ENCODED_BYTES_def)
qed

lemma profile_intent:
  assumes "url_base64_faithful c" and "RegistrationIntent_for_profile n u p = Inr i" and "utf8_valid n"
  shows "RegistrationIntent_decode c (RegistrationIntent_encode c i) = Inr i \<and> CHR '':'' \<notin> set (RegistrationIntent_encode c i) \<and>
    length (RegistrationIntent_encode c i) \<le> 383"
proof -
  let ?n = "url_encode c (as_bytes n)" and ?u = "case u of Some uid \<Rightarrow> uid | None \<Rightarrow> []"
  have i: "i = \<lparr>ri_client_name = n, ri_uid = u, ri_profile = True, ri_purpose = p, ri_signature = None\<rparr>" "length n \<le> 128"
      "case u of Some uid \<Rightarrow> uid \<noteq> [] \<and> list_all name_char uid \<and> length uid \<le> 64 | None \<Rightarrow> True"
    using assms(2) by (auto simp: RegistrationIntent_for_profile_def RegistrationIntent_new_def result_simps split: if_splits option.splits)
  have n: "url_decode c ?n = Some (as_bytes n)" "CHR ''.'' \<notin> set ?n" "CHR '':'' \<notin> set ?n" "length ?n \<le> 171"
    using assms(1) url_alphabet_marks(1,2) i(2) by (auto simp: url_base64_faithful_def)
  have e: "RegistrationIntent_encode c i = ''rustgo-approval-v2.'' @ purpose_text p @ CHR ''.'' # ?n @ CHR ''.'' # ?u"
    by (simp add: RegistrationIntent_encode_def i(1))
  have "CHR '':'' \<notin> set ?u" "length ?u \<le> 64" "(if ?u = [] then None else Some ?u) = u"
    using i(3) name_marks by (auto split: option.splits)
  moreover have "CHR '':'' \<notin> set (RegistrationIntent_encode c i)" "length (RegistrationIntent_encode c i) \<le> 264"
    using calculation n(3,4) purpose_facts(3,4) [of p] by (simp_all add: e)
  moreover have "starts_with ''rustgo-approval-v2.'' (RegistrationIntent_encode c i)" by (simp add: starts_with_def e)
  moreover have "map char_of_byte (as_bytes n) = n" by (simp add: as_bytes_def o_def)
  moreover have "strip_prefix ''rustgo-approval-v2.'' (RegistrationIntent_encode c i) = Some (purpose_text p @ CHR ''.'' # ?n @ CHR ''.'' # ?u)"
    unfolding e by (rule strip_prefix_append)
  ultimately show ?thesis
    using split_signature_text(1) [of "RegistrationIntent_encode c i"] split_once_append [OF purpose_facts(2), of p "?n @ CHR ''.'' # ?u"]
      purpose_facts(1) [of p] assms split_once_append [OF n(2), of ?u] n(1) i(1)
    by (simp add: RegistrationIntent_decode_def decode_intent_def MAX_ENCODED_BYTES_def)
qed

text \<open>
  Registration intents: an intent for a name or a profile is read back from its text, and with the
  signature that was appended to it.
\<close>

theorem registration_intent_roundtrip:
  assumes "url_base64_faithful c" and "length sig = 64"
    and "RegistrationIntent_new name p = Inr i \<or> RegistrationIntent_for_profile name uid p = Inr i \<and> utf8_valid name"
  shows "RegistrationIntent_decode c (RegistrationIntent_encode c i) = Inr i \<and>
    RegistrationIntent_decode c (RegistrationIntent_encode c i @ '':'' @ hex_checksum sig) = Inr (i\<lparr>ri_signature := Some sig\<rparr>)"
  using plain_intent [of name p i c] profile_intent [OF assms(1), of name uid p i] decode_with_signature [of _ c i sig] assms(2,3) by blast

subsection \<open>Samples\<close>

lemma sample_key_address: "canonical_enrollment_server_addr ''relay.example:7443'' = Inr ''relay.example:7443''"
proof -
  have "decimal (unat (7443 :: u16)) = ''7443''"
    by (simp add: decimal.simps [of 7443] decimal.simps [of 744] decimal.simps [of 74] decimal.simps [of 7] digit_def char_of_def bit_simps)
  moreover have "to_ascii_lowercase ''relay.example'' = ''relay.example''" by (simp add: to_ascii_lowercase_def)
  ultimately show ?thesis
    using canonical_host [of "''relay.example''" 7443] by (simp add: is_ascii_def ascii_white_def starts_with_def)
qed

theorem enrollment_key_roundtrip_witness:
  "\<exists>m. EnrollmentKeyMaterial_new Enroll ''relay.example:7443'' (replicate 32 7) (replicate 32 9) = Inr m \<and>
     EnrollmentKeyMaterial_decode toy_web (EnrollmentKeyMaterial_encode toy_web m) = Inr m"
  using enrollment_key_roundtrip [OF toy_url toy_digests, of "replicate 32 7" "replicate 32 9" Enroll "''relay.example:7443''"]
  by (simp add: EnrollmentKeyMaterial_new_def sample_key_address)

end
