(* ===== verification/Config.thy ===== *)
theory Config
  imports Enrollment_Keys Nat_Candidates Authenticator
begin

text \<open>
  The configuration crate (\<open>rustgo-config\<close>): the models of both programs' files (\<open>model.rs\<close>,
  \<open>p2p.rs\<close>), their validation with its messages (\<open>validate.rs\<close>), the part of a client's configuration
  that the server manages (\<open>managed.rs\<close>), and the substitution of environment variables (\<open>load.rs\<close>).
  The TOML parser is not modelled; \<open>Url::parse\<close> of the crate \<open>url\<close> is the parameter \<open>url_parse\<close>. The
  loops that collect names in a hash set carry the list of what was seen. The theorems: the
  validation of the managed collections accepts exactly the collections that a declarative reading of
  the rules allows, applying a managed configuration is atomic and keeps the local policy, and a text
  with placeholders for environment variables is interpolated piece by piece.
\<close>

datatype ValidationError = ValidationError string

definition MAX_LIMIT :: u32 where "MAX_LIMIT = 1000000"
definition MAX_UDP_PAYLOAD_BYTES_CONFIG :: u32 where "MAX_UDP_PAYLOAD_BYTES_CONFIG = 65507"
definition MAX_WEB_AUTHORITY_BYTES :: nat where "MAX_WEB_AUTHORITY_BYTES = 128"
definition MAX_PORTS_PER_RANGE :: u32 where "MAX_PORTS_PER_RANGE = 1024"
definition MAX_EXPORTS :: nat where "MAX_EXPORTS = 256"
definition MAX_FORWARDS :: nat where "MAX_FORWARDS = 256"
definition MAX_ALLOWED_PEERS_PER_EXPORT :: nat where "MAX_ALLOWED_PEERS_PER_EXPORT = 256"

subsection \<open>Models\<close>

datatype ConfigTunnelProtocol = Tcp | Udp

record TunnelConfig =
  tc_name :: string
  tc_protocol :: ConfigTunnelProtocol
  tc_local_addr :: string
  tc_remote_port :: u32

record ExportConfig =
  ec_name :: string
  ec_protocol :: ConfigTunnelProtocol
  ec_local_addr :: string
  ec_allowed_peers :: "string list"

record ForwardConfig =
  fc_name :: string
  fc_peer :: string
  fc_export :: string
  fc_listen_addr :: string

definition allows_peer :: "string \<Rightarrow> ExportConfig \<Rightarrow> bool" where
  "allows_peer peer self \<longleftrightarrow> ec_allowed_peers self = [] \<or> list_ex (\<lambda>allowed. allowed = peer) (ec_allowed_peers self)"

datatype PortRangeError = NotARange | StartNotAPort | EndNotAPort | PortZero | StartAfterEnd | TooManyPorts

text \<open>\<open>PortRange::deserialize\<close> on the string it is given.\<close>

definition PortRange_deserialize :: "string \<Rightarrow> (PortRangeError, PortRange) result" where
  "PortRange_deserialize value =
     and_then (ok_or (split_once (CHR ''-'') value) NotARange) (\<lambda>(start_text, end_text).
     and_then (ok_or (parse_u16 start_text) StartNotAPort) (\<lambda>start.
     and_then (ok_or (parse_u16 end_text) EndNotAPort) (\<lambda>final.
       if start = 0 \<or> final = 0 then Inl PortZero
       else if start > final then Inl StartAfterEnd
       else if (ucast final :: u32) - ucast start + 1 > MAX_PORTS_PER_RANGE then Inl TooManyPorts
       else Inr \<lparr>pr_start = start, pr_end = final\<rparr>)))"

record P2pConfig =
  pc_enabled :: bool
  pc_prefer_direct :: bool
  pc_direct_timeout_secs :: u64
  pc_reconnect_timeout_secs :: u64
  pc_allow_relay_fallback :: bool
  pc_udp_port_range :: PortRange
  pc_tcp_port_range :: PortRange
  pc_observation_primary_addr :: "string option"
  pc_observation_alternate_addr :: "string option"

record TelemetryConfig =
  tel_enabled :: bool
  tel_sample_interval_secs :: u64
  tel_report_interval_secs :: u64

record ClientProfile =
  cp_display_name :: string
  cp_uid :: "string option"
  cp_local_ip :: "string option"

datatype TrustMode = Pinned
datatype IdentityMode = StaticIdentity | DynamicIdentity

record ClientSection =
  cs_name :: string
  cs_profile :: "ClientProfile option"
  cs_identity_mode :: "IdentityMode option"
  cs_server_addr :: string
  cs_server_name :: string
  cs_certificate_authority_file :: string
  cs_trust_mode :: "TrustMode option"
  cs_server_certificate_fingerprint :: "string option"
  cs_private_key_file :: string
  cs_heartbeat_interval_secs :: u64

definition display_name :: "ClientSection \<Rightarrow> string" where
  "display_name self = (case cs_profile self of Some profile \<Rightarrow> cp_display_name profile | None \<Rightarrow> cs_name self)"

record ClientConfig =
  cc_client :: ClientSection
  cc_p2p :: "P2pConfig option"
  cc_telemetry :: "TelemetryConfig option"
  cc_tunnels :: "TunnelConfig list"
  cc_exports :: "ExportConfig list"
  cc_forwards :: "ForwardConfig list"

record ManagedConfiguration =
  mc_tunnels :: "TunnelConfig list"
  mc_exports :: "ExportConfig list"
  mc_forwards :: "ForwardConfig list"
  mc_p2p_enabled :: bool

record ConfigLimits =
  cl_max_clients :: u32
  cl_max_tunnels_per_client :: u32
  cl_max_tcp_connections_per_tunnel :: u32
  cl_max_udp_sessions_per_tunnel :: u32
  cl_max_udp_payload_bytes :: u32

record ServerSection =
  ss_bind_addr :: string
  ss_tls_server_name :: "string option"
  ss_udp_bind_ip :: "IpAddr option"
  ss_p2p_observation_bind :: "string option"
  ss_p2p_observation_alternate_bind :: "string option"
  ss_certificate_file :: string
  ss_private_key_file :: string
  ss_heartbeat_timeout_secs :: u64

record WebConfig =
  wc_enabled :: bool
  wc_bind :: string
  wc_external_origin :: "string option"
  wc_admin_username :: string
  wc_admin_password :: string
  wc_cookie_secure :: bool
  wc_history_days :: u16
  wc_database_path :: string
  wc_database_max_mib :: u32

record EnrollmentConfig =
  enc_enabled :: bool
  enc_database_path :: string
  enc_public_addr :: string
  enc_token_ttl_secs :: u64
  enc_max_active_clients :: u32
  enc_max_tokens :: u32

record ServerConfig =
  sc_server :: ServerSection
  sc_limits :: ConfigLimits
  sc_clients :: "AuthorizedClient list"
  sc_web :: "WebConfig option"
  sc_enrollment :: "EnrollmentConfig option"
  sc_managed_database_path :: "string option"

definition WebConfig_default :: WebConfig where
  "WebConfig_default = \<lparr>wc_enabled = False, wc_bind = ''127.0.0.1:7450'', wc_external_origin = None, wc_admin_username = ''admin'',
     wc_admin_password = ''replace-with-at-least-16-characters'', wc_cookie_secure = True, wc_history_days = 7,
     wc_database_path = ''./rustgo-metrics.db'', wc_database_max_mib = 256\<rparr>"

definition EnrollmentConfig_default :: EnrollmentConfig where
  "EnrollmentConfig_default = \<lparr>enc_enabled = False, enc_database_path = ''./rustgo-enrollment.db'', enc_public_addr = ''127.0.0.1:7443'',
     enc_token_ttl_secs = 900, enc_max_active_clients = 10000, enc_max_tokens = 20000\<rparr>"

definition TelemetryConfig_default :: TelemetryConfig where
  "TelemetryConfig_default = \<lparr>tel_enabled = True, tel_sample_interval_secs = 10, tel_report_interval_secs = 30\<rparr>"

subsection \<open>Single values\<close>

definition refuse :: "string \<Rightarrow> (ValidationError, 'x) result" where
  "refuse message = Inl (ValidationError message)"

definition require_non_empty :: "string \<Rightarrow> string \<Rightarrow> (ValidationError, unit) result" where
  "require_non_empty field value = (if is_blank value then refuse (field @ '' must not be empty'') else Inr ())"

definition validate_wire_string :: "string \<Rightarrow> string \<Rightarrow> nat \<Rightarrow> (ValidationError, unit) result" where
  "validate_wire_string field value maximum_bytes =
     and_then (require_non_empty field value) (\<lambda>_.
       if length value > maximum_bytes then refuse (field @ '' must be at most '' @ decimal maximum_bytes @ '' UTF-8 bytes'')
       else Inr ())"

definition validate_client_name :: "string \<Rightarrow> (ValidationError, unit) result" where
  "validate_client_name value = validate_wire_string ''client name'' value MAX_CLIENT_NAME_BYTES"

definition validate_byte_string :: "string \<Rightarrow> string \<Rightarrow> nat \<Rightarrow> nat \<Rightarrow> (ValidationError, unit) result" where
  "validate_byte_string field value minimum_bytes maximum_bytes =
     (if \<not> (minimum_bytes \<le> length value \<and> length value \<le> maximum_bytes)
      then refuse (field @ '' must be between '' @ decimal minimum_bytes @ '' and '' @ decimal maximum_bytes @ '' UTF-8 bytes'')
      else Inr ())"

definition require_nonzero :: "string \<Rightarrow> u64 \<Rightarrow> (ValidationError, unit) result" where
  "require_nonzero field value = (if value = 0 then refuse (field @ '' must be greater than zero'') else Inr ())"

definition validate_server_socket_address :: "string \<Rightarrow> string \<Rightarrow> (ValidationError, SocketAddr) result" where
  "validate_server_socket_address field value =
     (case SocketAddr_from_str value of
        None \<Rightarrow> refuse (field @ '' must be an IP address with a port'')
      | Some address \<Rightarrow>
          if SocketAddr_port address = 0 then refuse (field @ '' must use a port between 1 and 65535'') else Inr address)"

definition validate_bind_address :: "string \<Rightarrow> (ValidationError, unit) result" where
  "validate_bind_address value =
     (case SocketAddr_from_str value of
        None \<Rightarrow> refuse ''server.bind_addr must be an IP address with a port''
      | Some address \<Rightarrow>
          if SocketAddr_port address = 0 then refuse ''server.bind_addr must use a port between 1 and 65535'' else Inr ())"

definition ends_with :: "string \<Rightarrow> string \<Rightarrow> bool" where
  "ends_with p s \<longleftrightarrow> take (length p) (rev s) = rev p"

definition validate_host_address :: "string \<Rightarrow> string \<Rightarrow> (ValidationError, unit) result" where
  "validate_host_address field value =
     (case rsplit_once (CHR '':'') value of
        None \<Rightarrow> refuse (field @ '' must include a host and port'')
      | Some (host, port_text) \<Rightarrow>
          if host = [] \<or> CHR '':'' \<in> set host \<and> \<not> (starts_with ''['' host \<and> ends_with '']'' host)
          then refuse (field @ '' must contain a valid host'')
          else
            (case parse_u32 port_text of
               None \<Rightarrow> refuse (field @ '' has an invalid port'')
             | Some p \<Rightarrow> if \<not> (1 \<le> p \<and> p \<le> 65535) then refuse (field @ '' has an invalid port'') else Inr ()))"

fun IpAddr_is_loopback :: "IpAddr \<Rightarrow> bool" where
  "IpAddr_is_loopback (IpV4 ip) = ipv4_is_loopback ip"
| "IpAddr_is_loopback (IpV6 ip) = ipv6_is_loopback ip"

definition is_loopback_listen_address :: "string \<Rightarrow> bool" where
  "is_loopback_listen_address value \<longleftrightarrow>
     (case SocketAddr_from_str value of Some address \<Rightarrow> IpAddr_is_loopback (SocketAddr_ip address) | None \<Rightarrow> False) \<or>
     starts_with ''localhost:'' value"

definition validate_public_key :: "'a primitives_scheme \<Rightarrow> string \<Rightarrow> (ValidationError, unit) result" where
  "validate_public_key c value =
     (case strip_prefix ''ed25519:'' value of
        None \<Rightarrow> refuse ''client public key must use ed25519: format''
      | Some encoded \<Rightarrow>
          (case base64_decode c encoded of
             None \<Rightarrow> refuse ''client public key is not valid base64''
           | Some decoded \<Rightarrow>
               if length decoded \<noteq> 32 then refuse ''client public key must contain exactly 32 bytes'' else Inr ()))"

subsection \<open>Web origins\<close>

record WebOrigin =
  wo_scheme :: string
  wo_host :: string
  wo_ipv6 :: bool
  wo_port :: u16

datatype UrlHost = UrlDomain string | UrlIpv4 bytes | UrlIpv6 bytes

record Url =
  url_scheme :: string
  url_username :: string
  url_password :: "string option"
  url_query :: "string option"
  url_fragment :: "string option"
  url_path :: string
  url_host :: "UrlHost option"
  url_port_or_known_default :: "u16 option"

definition invalid_external_origin :: "(ValidationError, 'x) result" where
  "invalid_external_origin = refuse (''web.external_origin must be an absolute HTTP(S) origin with a canonical authority of at most '' @
     decimal MAX_WEB_AUTHORITY_BYTES @ '' bytes and without userinfo, path, query, or fragment'')"

definition default_port :: "string \<Rightarrow> u16" where
  "default_port scheme = (if scheme = ''https'' then 443 else 80)"

definition authority :: "WebOrigin \<Rightarrow> string" where
  "authority self =
     (let host = (if wo_ipv6 self then ''['' @ wo_host self @ '']'' else wo_host self)
      in if wo_port self = default_port (wo_scheme self) then host else host @ '':'' @ decimal (unat (wo_port self)))"

definition WebOrigin_as_str :: "WebOrigin \<Rightarrow> string" where
  "WebOrigin_as_str self = wo_scheme self @ ''://'' @ authority self"

definition ensure_authority_limit :: "WebOrigin \<Rightarrow> (ValidationError, unit) result" where
  "ensure_authority_limit self = (if length (authority self) > MAX_WEB_AUTHORITY_BYTES then invalid_external_origin else Inr ())"

definition label_ok :: "string \<Rightarrow> bool" where
  "label_ok label \<longleftrightarrow> label \<noteq> [] \<and> length label \<le> 63 \<and> list_all (\<lambda>ch. is_ascii_alphanumeric ch \<or> ch = CHR ''-'') label \<and>
     is_ascii_alphanumeric (hd label) \<and> is_ascii_alphanumeric (last label)"

definition validate_canonical_dns_name :: "string \<Rightarrow> (ValidationError, string) result" where
  "validate_canonical_dns_name host =
     (if host = [] \<or> ends_with ''.'' host then invalid_external_origin
      else if list_ex (\<lambda>label. \<not> label_ok label) (split_on (CHR ''.'') host) then invalid_external_origin
      else Inr host)"

definition WebOrigin_parse :: "(string \<Rightarrow> Url option) \<Rightarrow> string \<Rightarrow> (ValidationError, WebOrigin) result" where
  "WebOrigin_parse url_parse value =
     (if value = [] \<or> list_ex is_ascii_whitespace value then invalid_external_origin
      else
        (case split_once_at ''://'' value of
           None \<Rightarrow> invalid_external_origin
         | Some (_, raw_authority) \<Rightarrow>
             if raw_authority = [] \<or> list_ex (\<lambda>byte. byte \<in> set ''/?#'' \<or> byte = char_of (92 :: nat)) raw_authority
             then invalid_external_origin
             else
               (case url_parse value of
                  None \<Rightarrow> invalid_external_origin
                | Some parsed \<Rightarrow>
                    if url_scheme parsed \<noteq> ''http'' \<and> url_scheme parsed \<noteq> ''https'' then invalid_external_origin
                    else if url_username parsed \<noteq> [] \<or> url_password parsed \<noteq> None \<or> url_query parsed \<noteq> None \<or>
                      url_fragment parsed \<noteq> None \<or> url_path parsed \<noteq> ''/'' then invalid_external_origin
                    else
                      and_then
                        (case url_host parsed of
                           None \<Rightarrow> invalid_external_origin
                         | Some (UrlDomain domain) \<Rightarrow> and_then (validate_canonical_dns_name domain) (\<lambda>host. Inr (host, False))
                         | Some (UrlIpv4 address) \<Rightarrow> Inr (Ipv4Addr_to_string address, False)
                         | Some (UrlIpv6 address) \<Rightarrow> Inr (Ipv6Addr_to_string address, True)) (\<lambda>(host, ipv6).
                      (case url_port_or_known_default parsed of
                         None \<Rightarrow> invalid_external_origin
                       | Some p \<Rightarrow>
                           if p = 0 then invalid_external_origin
                           else
                             let origin = \<lparr>wo_scheme = url_scheme parsed, wo_host = host, wo_ipv6 = ipv6, wo_port = p\<rparr>
                             in and_then (ensure_authority_limit origin) (\<lambda>_. Inr origin))))))"

definition matches_authority :: "(string \<Rightarrow> Url option) \<Rightarrow> WebOrigin \<Rightarrow> string \<Rightarrow> bool" where
  "matches_authority url_parse self value \<longleftrightarrow>
     value \<noteq> [] \<and> length value \<le> MAX_WEB_AUTHORITY_BYTES \<and> \<not> list_ex is_ascii_whitespace value \<and>
     WebOrigin_parse url_parse (wo_scheme self @ ''://'' @ value) = Inr self"

definition WebOrigin_from_config :: "(string \<Rightarrow> Url option) \<Rightarrow> WebConfig \<Rightarrow> (ValidationError, WebOrigin) result" where
  "WebOrigin_from_config url_parse web =
     (case wc_external_origin web of
        Some origin \<Rightarrow>
          and_then (WebOrigin_parse url_parse origin) (\<lambda>parsed.
          let expected_scheme = (if wc_cookie_secure web then ''https'' else ''http'')
          in if wo_scheme parsed \<noteq> expected_scheme
             then refuse (''web.external_origin must use '' @ expected_scheme @ '' when web.cookie_secure is '' @
               (if wc_cookie_secure web then ''true'' else ''false''))
             else Inr parsed)
      | None \<Rightarrow>
          if wc_cookie_secure web then refuse ''web.external_origin is required when web.cookie_secure is true''
          else
            (case SocketAddr_from_str (wc_bind web) of
               None \<Rightarrow> refuse ''web.bind must be an IP address with a port''
             | Some bind \<Rightarrow>
                 let origin = \<lparr>wo_scheme = ''http'', wo_host = IpAddr_to_string (SocketAddr_ip bind),
                       wo_ipv6 = SocketAddr_is_ipv6 bind, wo_port = SocketAddr_port bind\<rparr>
                 in and_then (ensure_authority_limit origin) (\<lambda>_. Inr origin)))"

subsection \<open>The server's file\<close>

fun check_each :: "('x \<Rightarrow> (ValidationError, unit) result) \<Rightarrow> 'x list \<Rightarrow> (ValidationError, unit) result" where
  "check_each f [] = Inr ()"
| "check_each f (x # xs) = and_then (f x) (\<lambda>_. check_each f xs)"

definition validate_limits :: "ConfigLimits \<Rightarrow> (ValidationError, unit) result" where
  "validate_limits limits =
     and_then (check_each (\<lambda>(name, value). if value = 0 \<or> value > MAX_LIMIT
         then refuse (name @ '' must be between 1 and '' @ decimal (unat MAX_LIMIT)) else Inr ())
       [(''limits.max_clients'', cl_max_clients limits),
        (''limits.max_tunnels_per_client'', cl_max_tunnels_per_client limits),
        (''limits.max_tcp_connections_per_tunnel'', cl_max_tcp_connections_per_tunnel limits),
        (''limits.max_udp_sessions_per_tunnel'', cl_max_udp_sessions_per_tunnel limits)]) (\<lambda>_.
       if \<not> (1 \<le> cl_max_udp_payload_bytes limits \<and> cl_max_udp_payload_bytes limits \<le> MAX_UDP_PAYLOAD_BYTES_CONFIG)
       then refuse (''limits.max_udp_payload_bytes must be between 1 and '' @ decimal (unat MAX_UDP_PAYLOAD_BYTES_CONFIG))
       else Inr ())"

definition validate_web :: "(string \<Rightarrow> Url option) \<Rightarrow> WebConfig \<Rightarrow> (ValidationError, unit) result" where
  "validate_web url_parse web =
     (case SocketAddr_from_str (wc_bind web) of
        None \<Rightarrow> refuse ''web.bind must be an IP address with a port''
      | Some bind \<Rightarrow>
          if SocketAddr_port bind = 0 then refuse ''web.bind must use a port between 1 and 65535''
          else if SocketAddr_port bind = 7443 then refuse ''web.bind must not use Rustgo relay port 7443''
          else
            and_then (WebOrigin_from_config url_parse web) (\<lambda>_.
            and_then (validate_byte_string ''web.admin_username'' (wc_admin_username web) 1 64) (\<lambda>_.
            and_then (validate_byte_string ''web.admin_password'' (wc_admin_password web) 16 256) (\<lambda>_.
            if \<not> (1 \<le> wc_history_days web \<and> wc_history_days web \<le> 90) then refuse ''web.history_days must be between 1 and 90''
            else if \<not> (16 \<le> wc_database_max_mib web \<and> wc_database_max_mib web \<le> 4096)
              then refuse ''web.database_max_mib must be between 16 and 4096''
            else Inr ()))))"

definition validate_enrollment :: "EnrollmentConfig \<Rightarrow> (ValidationError, unit) result" where
  "validate_enrollment enrollment =
     (case canonical_enrollment_server_addr (enc_public_addr enrollment) of
        Inl _ \<Rightarrow> refuse ''enrollment.public_addr must be a canonical host:port address''
      | Inr _ \<Rightarrow>
          if \<not> (60 \<le> enc_token_ttl_secs enrollment \<and> enc_token_ttl_secs enrollment \<le> 86400)
          then refuse ''enrollment.token_ttl_secs must be between 60 and 86400''
          else check_each (\<lambda>(field, value). if \<not> (1 \<le> value \<and> value \<le> 1000000)
              then refuse (field @ '' must be between 1 and 1000000'') else Inr ())
            [(''enrollment.max_active_clients'', enc_max_active_clients enrollment),
             (''enrollment.max_tokens'', enc_max_tokens enrollment)])"

fun validate_clients :: "'a primitives_scheme \<Rightarrow> string list \<Rightarrow> string list \<Rightarrow> AuthorizedClient list \<Rightarrow> (ValidationError, unit) result" where
  "validate_clients c names public_keys [] = Inr ()"
| "validate_clients c names public_keys (client # clients) =
     and_then (validate_client_name (azc_name client)) (\<lambda>_.
     if azc_name client \<in> set names then refuse (''duplicate client name `'' @ azc_name client @ ''`'')
     else
       and_then (validate_public_key c (azc_public_key client)) (\<lambda>_.
       if azc_public_key client \<in> set public_keys then refuse ''duplicate client public key''
       else validate_clients c (azc_name client # names) (azc_public_key client # public_keys) clients))"

fun udp_bind_unusable :: "IpAddr \<Rightarrow> bool" where
  "udp_bind_unusable (IpV4 ip) \<longleftrightarrow> ipv4_is_unspecified ip \<or> ipv4_is_multicast ip \<or> ipv4_is_broadcast ip"
| "udp_bind_unusable (IpV6 ip) \<longleftrightarrow> ipv6_is_unspecified ip \<or> ipv6_is_multicast ip"

definition validate_observation_binds :: "string option \<Rightarrow> string option \<Rightarrow> (ValidationError, unit) result" where
  "validate_observation_binds primary_text alternate_text =
     (case (primary_text, alternate_text) of
        (None, None) \<Rightarrow> Inr ()
      | (Some primary, Some alternate) \<Rightarrow>
          and_then (validate_server_socket_address ''server.p2p_observation_bind'' primary) (\<lambda>primary.
          and_then (validate_server_socket_address ''server.p2p_observation_alternate_bind'' alternate) (\<lambda>alternate.
          if SocketAddr_port primary = SocketAddr_port alternate
          then refuse ''server observation bind addresses must use distinct ports'' else Inr ()))
      | _ \<Rightarrow> refuse ''server.p2p_observation_bind and server.p2p_observation_alternate_bind must be configured together'')"

definition validate_server :: "'a primitives_scheme \<Rightarrow> (string \<Rightarrow> Url option) \<Rightarrow> ServerConfig \<Rightarrow> (ValidationError, unit) result" where
  "validate_server c url_parse config =
     (let server = sc_server config
      in if sc_managed_database_path config = Some [] then refuse ''managed_tunnels.database_path must not be empty''
         else
           and_then (validate_bind_address (ss_bind_addr server)) (\<lambda>_.
           if (case ss_tls_server_name server of
                 Some name \<Rightarrow> IpAddr_from_str name = None \<and> \<not> is_ok (validate_canonical_dns_name name) | None \<Rightarrow> False)
           then refuse ''server.tls_server_name must be a canonical DNS name or IP address''
           else
             and_then (validate_observation_binds (ss_p2p_observation_bind server) (ss_p2p_observation_alternate_bind server)) (\<lambda>_.
             if (case ss_udp_bind_ip server of Some ip \<Rightarrow> udp_bind_unusable ip | None \<Rightarrow> False)
             then refuse ''server.udp_bind_ip must be a specific unicast or local interface address''
             else
               and_then (require_nonzero ''server.heartbeat_timeout_secs'' (ss_heartbeat_timeout_secs server)) (\<lambda>_.
               and_then (validate_limits (sc_limits config)) (\<lambda>_.
               and_then (case sc_web config of Some web \<Rightarrow> if wc_enabled web then validate_web url_parse web else Inr () | None \<Rightarrow> Inr ()) (\<lambda>_.
               and_then (case sc_enrollment config of
                   Some enrollment \<Rightarrow> if enc_enabled enrollment then validate_enrollment enrollment else Inr () | None \<Rightarrow> Inr ()) (\<lambda>_.
               validate_clients c [] [] (sc_clients config))))))))"

datatype ConfigWarning = ConfigWarning string string

definition server_validation_warnings :: "bool \<Rightarrow> ServerConfig \<Rightarrow> ConfigWarning list" where
  "server_validation_warnings windows config =
     (if windows \<and> (case sc_web config of Some web \<Rightarrow> wc_enabled web | None \<Rightarrow> False)
      then [ConfigWarning ''WEB_CONFIG_ACL_REVIEW_REQUIRED'' ''enabled web configuration requires a manual ACL review on Windows'']
      else [])"

subsection \<open>The client's file\<close>

fun protocol_debug :: "ConfigTunnelProtocol \<Rightarrow> string" where
  "protocol_debug Tcp = ''Tcp''"
| "protocol_debug Udp = ''Udp''"

fun validate_tunnels :: "string list \<Rightarrow> (ConfigTunnelProtocol \<times> u32) list \<Rightarrow> TunnelConfig list \<Rightarrow> (ValidationError, unit) result" where
  "validate_tunnels names remote_ports [] = Inr ()"
| "validate_tunnels names remote_ports (tunnel # tunnels) =
     and_then (validate_wire_string ''tunnels.name'' (tc_name tunnel) MAX_TUNNEL_NAME_BYTES) (\<lambda>_.
     and_then (validate_host_address ''tunnels.local_addr'' (tc_local_addr tunnel)) (\<lambda>_.
     if \<not> (1 \<le> tc_remote_port tunnel \<and> tc_remote_port tunnel \<le> 65535)
     then refuse (''tunnel `'' @ tc_name tunnel @ ''` has an invalid remote port'')
     else if tc_name tunnel \<in> set names then refuse (''duplicate tunnel name `'' @ tc_name tunnel @ ''`'')
     else if (tc_protocol tunnel, tc_remote_port tunnel) \<in> set remote_ports
     then refuse (''duplicate '' @ protocol_debug (tc_protocol tunnel) @ '' remote port '' @ decimal (unat (tc_remote_port tunnel)))
     else validate_tunnels (tc_name tunnel # names) ((tc_protocol tunnel, tc_remote_port tunnel) # remote_ports) tunnels))"

fun validate_exports :: "string list \<Rightarrow> ExportConfig list \<Rightarrow> (ValidationError, unit) result" where
  "validate_exports names [] = Inr ()"
| "validate_exports names (export # exports) =
     and_then (validate_wire_string ''exports.name'' (ec_name export) MAX_TUNNEL_NAME_BYTES) (\<lambda>_.
     and_then (validate_host_address ''exports.local_addr'' (ec_local_addr export)) (\<lambda>_.
     if ec_name export \<in> set names then refuse (''duplicate export name `'' @ ec_name export @ ''`'')
     else if length (ec_allowed_peers export) > MAX_ALLOWED_PEERS_PER_EXPORT
     then refuse (''export `'' @ ec_name export @ ''` allowed_peers must contain at most '' @ decimal MAX_ALLOWED_PEERS_PER_EXPORT @ '' entries'')
     else
       and_then (check_each validate_client_name (ec_allowed_peers export)) (\<lambda>_.
       validate_exports (ec_name export # names) exports)))"

fun validate_forwards :: "string option \<Rightarrow> string list \<Rightarrow> ForwardConfig list \<Rightarrow> (ValidationError, unit) result" where
  "validate_forwards local_name names [] = Inr ()"
| "validate_forwards local_name names (forward # forwards) =
     and_then (validate_wire_string ''forwards.name'' (fc_name forward) MAX_TUNNEL_NAME_BYTES) (\<lambda>_.
     and_then (validate_client_name (fc_peer forward)) (\<lambda>_.
     and_then (validate_wire_string ''forwards.export'' (fc_export forward) MAX_TUNNEL_NAME_BYTES) (\<lambda>_.
     and_then (validate_host_address ''forwards.listen_addr'' (fc_listen_addr forward)) (\<lambda>_.
     if local_name = Some (fc_peer forward) then refuse (''forward `'' @ fc_name forward @ ''` must not target the local client'')
     else if fc_name forward \<in> set names then refuse (''duplicate forward name `'' @ fc_name forward @ ''`'')
     else validate_forwards local_name (fc_name forward # names) forwards))))"

definition validate_managed_collections ::
  "TunnelConfig list \<Rightarrow> ExportConfig list \<Rightarrow> ForwardConfig list \<Rightarrow> string option \<Rightarrow> (ValidationError, unit) result" where
  "validate_managed_collections tunnels exports forwards local_name =
     (if length tunnels > MAX_TUNNELS then refuse (''tunnels must contain at most '' @ decimal MAX_TUNNELS @ '' entries'')
      else
        and_then (validate_tunnels [] [] tunnels) (\<lambda>_.
        if length exports > MAX_EXPORTS then refuse (''exports must contain at most '' @ decimal MAX_EXPORTS @ '' entries'')
        else if length forwards > MAX_FORWARDS then refuse (''forwards must contain at most '' @ decimal MAX_FORWARDS @ '' entries'')
        else
          and_then (validate_exports [] exports) (\<lambda>_.
          validate_forwards local_name [] forwards)))"

definition validate_telemetry :: "TelemetryConfig \<Rightarrow> (ValidationError, unit) result" where
  "validate_telemetry telemetry =
     and_then (check_each (\<lambda>(field, value). if \<not> (1 \<le> value \<and> value \<le> 3600)
         then refuse (field @ '' must be between 1 and 3600'') else Inr ())
       [(''telemetry.sample_interval_secs'', tel_sample_interval_secs telemetry),
        (''telemetry.report_interval_secs'', tel_report_interval_secs telemetry)]) (\<lambda>_.
     if tel_report_interval_secs telemetry < tel_sample_interval_secs telemetry
     then refuse ''telemetry.report_interval_secs must be at least telemetry.sample_interval_secs'' else Inr ())"

text \<open>Two messages are in Chinese, here as their UTF-8 bytes.\<close>

definition profile_message :: string where
  "profile_message = map (char_of :: nat \<Rightarrow> char) [229, 174, 162, 230, 136, 183, 231, 171, 175, 229, 144, 141, 231, 167, 176, 228, 184, 141, 232, 131, 189, 228,
     184, 186, 231, 169, 186, 227, 128, 129, 228, 184, 141, 229, 190, 151, 229, 140, 133, 229, 144, 171, 230, 142,
     167, 229, 136, 182, 229, 173, 151, 231, 172, 166, 228, 184, 148, 228, 184, 141, 232, 131, 189, 232, 182, 133,
     232, 191, 135, 32, 49, 50, 56, 32, 229, 173, 151, 232, 138, 130, 239, 188, 155, 85, 73, 68, 32, 230, 160, 188,
     229, 188, 143, 233, 161, 187, 230, 156, 137, 230, 149, 136]"

definition local_ip_message :: string where
  "local_ip_message = map (char_of :: nat \<Rightarrow> char) [230, 156, 172, 229, 156, 176, 32, 73, 80, 32, 230, 160, 188, 229, 188, 143, 230, 151, 160, 230, 149, 136]"

definition validate_profile :: "ClientProfile \<Rightarrow> (ValidationError, unit) result" where
  "validate_profile profile =
     (if \<not> is_ok (RegistrationIntent_for_profile (cp_display_name profile) (cp_uid profile) Enroll) then refuse profile_message
      else if (case cp_local_ip profile of Some ip \<Rightarrow> IpAddr_from_str ip = None | None \<Rightarrow> False) then refuse local_ip_message
      else Inr ())"

definition validate_trust :: "TrustMode option \<Rightarrow> string option \<Rightarrow> (ValidationError, unit) result" where
  "validate_trust trust_mode pinned =
     (case (trust_mode, pinned) of
        (None, None) \<Rightarrow> Inr ()
      | (Some Pinned, Some print) \<Rightarrow>
          if length print = 64 \<and> list_all is_ascii_hexdigit print then Inr ()
          else refuse ''client pinned trust requires a 64-character SHA-256 certificate fingerprint''
      | _ \<Rightarrow> refuse ''client pinned trust requires a 64-character SHA-256 certificate fingerprint'')"

definition validate_p2p :: "P2pConfig \<Rightarrow> (ValidationError, unit) result" where
  "validate_p2p p2p =
     and_then (require_nonzero ''p2p.direct_timeout_secs'' (pc_direct_timeout_secs p2p)) (\<lambda>_.
     and_then (require_nonzero ''p2p.reconnect_timeout_secs'' (pc_reconnect_timeout_secs p2p)) (\<lambda>_.
     (case (pc_observation_primary_addr p2p, pc_observation_alternate_addr p2p) of
        (Some primary, Some alternate) \<Rightarrow>
          and_then (validate_host_address ''p2p.observation_primary_addr'' primary) (\<lambda>_.
          and_then (validate_host_address ''p2p.observation_alternate_addr'' alternate) (\<lambda>_.
          if primary = alternate then refuse ''P2P observation endpoints must be distinct'' else Inr ()))
      | (None, None) \<Rightarrow> Inr ()
      | _ \<Rightarrow> refuse ''P2P observation primary and alternate endpoints must be configured together'')))"

definition validate_client :: "ClientConfig \<Rightarrow> (ValidationError, unit) result" where
  "validate_client config =
     (let client = cc_client config
      in and_then (validate_client_name (cs_name client)) (\<lambda>_.
         and_then (case cs_profile client of Some profile \<Rightarrow> validate_profile profile | None \<Rightarrow> Inr ()) (\<lambda>_.
         and_then (validate_host_address ''client.server_addr'' (cs_server_addr client)) (\<lambda>_.
         and_then (require_non_empty ''client.server_name'' (cs_server_name client)) (\<lambda>_.
         and_then (validate_trust (cs_trust_mode client) (cs_server_certificate_fingerprint client)) (\<lambda>_.
         and_then (require_nonzero ''client.heartbeat_interval_secs'' (cs_heartbeat_interval_secs client)) (\<lambda>_.
         if cs_heartbeat_interval_secs client > 4294967295
         then refuse (''client.heartbeat_interval_secs must be at most '' @ decimal 4294967295)
         else
           and_then (case cc_p2p config of Some p2p \<Rightarrow> validate_p2p p2p | None \<Rightarrow> Inr ()) (\<lambda>_.
           and_then (case cc_telemetry config of
               Some telemetry \<Rightarrow> if tel_enabled telemetry then validate_telemetry telemetry else Inr () | None \<Rightarrow> Inr ()) (\<lambda>_.
           validate_managed_collections (cc_tunnels config) (cc_exports config) (cc_forwards config) (Some (cs_name client)))))))))))"

definition client_validation_warnings :: "ClientConfig \<Rightarrow> ConfigWarning list" where
  "client_validation_warnings config =
     concat (map (\<lambda>export. if ec_allowed_peers export = []
         then [ConfigWarning ''P2P_EXPORT_ALLOW_ALL'' (''export `'' @ ec_name export @ ''` permits every authenticated peer'')] else [])
       (cc_exports config)) @
     concat (map (\<lambda>forward. if \<not> is_loopback_listen_address (fc_listen_addr forward)
         then [ConfigWarning ''P2P_FORWARD_NON_LOOPBACK_LISTEN''
           (''forward `'' @ fc_name forward @ ''` listens on a non-loopback address `'' @ fc_listen_addr forward @ ''`'')] else [])
       (cc_forwards config))"

subsection \<open>The managed part\<close>

definition p2p_enabled :: "ClientConfig \<Rightarrow> bool" where
  "p2p_enabled client \<longleftrightarrow> (case cc_p2p client of Some p2p \<Rightarrow> pc_enabled p2p | None \<Rightarrow> False)"

definition ManagedConfiguration_from_client :: "ClientConfig \<Rightarrow> ManagedConfiguration" where
  "ManagedConfiguration_from_client client =
     \<lparr>mc_tunnels = cc_tunnels client, mc_exports = cc_exports client, mc_forwards = cc_forwards client,
      mc_p2p_enabled = p2p_enabled client\<rparr>"

definition ManagedConfiguration_validate :: "ManagedConfiguration \<Rightarrow> (ValidationError, unit) result" where
  "ManagedConfiguration_validate self = validate_managed_collections (mc_tunnels self) (mc_exports self) (mc_forwards self) None"

text \<open>\<open>apply_to\<close> returns its outcome and the client as the caller sees it afterwards.\<close>

definition apply_to :: "ManagedConfiguration \<Rightarrow> ClientConfig \<Rightarrow> (ValidationError, unit) result \<times> ClientConfig" where
  "apply_to self client =
     (case ManagedConfiguration_validate self of
        Inl e \<Rightarrow> (Inl e, client)
      | Inr _ \<Rightarrow>
          if (mc_exports self \<noteq> [] \<or> mc_forwards self \<noteq> []) \<and> \<not> p2p_enabled client
          then (refuse ''managed exports and forwards require locally enabled P2P'', client)
          else
            let candidate = client\<lparr>cc_tunnels := mc_tunnels self, cc_exports := mc_exports self, cc_forwards := mc_forwards self\<rparr>
            in (case validate_client candidate of Inl e \<Rightarrow> (Inl e, client) | Inr _ \<Rightarrow> (Inr (), candidate)))"

subsection \<open>Environment variables\<close>

definition is_environment_variable_name :: "string \<Rightarrow> bool" where
  "is_environment_variable_name variable \<longleftrightarrow>
     (case variable of
        [] \<Rightarrow> False
      | first # rest \<Rightarrow>
          (let c = of_char first :: nat in 65 \<le> c \<and> c \<le> 90 \<or> c = 95) \<and>
          list_all (\<lambda>byte. let c = of_char byte :: nat in 65 \<le> c \<and> c \<le> 90 \<or> 48 \<le> c \<and> c \<le> 57 \<or> c = 95) rest)"

definition escape_backslashes :: "string \<Rightarrow> string" where
  "escape_backslashes value = concat (map (\<lambda>ch. if ch = char_of (92 :: nat) then [ch, ch] else [ch]) value)"

definition placeholder_open :: string where "placeholder_open = ''${''"

lemma split_once_at_shorter: "split_once_at p s = Some (a, b) \<Longrightarrow> p \<noteq> [] \<Longrightarrow> length b < length s"
  by (induction p s arbitrary: a b rule: split_once_at.induct) (fastforce split: if_splits)+

lemma split_once_shorter: "split_once c s = Some (a, b) \<Longrightarrow> length b < length s"
  using split_once_Some [of c s a b] by simp

text \<open>\<open>interpolate\<close>; the error carries the variable the message names.\<close>

function interpolate :: "(string \<Rightarrow> string option) \<Rightarrow> string \<Rightarrow> (string, string) result" where
  "interpolate environment remaining =
     (case split_once_at placeholder_open remaining of
        None \<Rightarrow> Inr remaining
      | Some (before, after_open) \<Rightarrow>
          (case split_once (CHR ''}'') after_open of
             None \<Rightarrow> Inl ''invalid placeholder''
           | Some (variable, rest) \<Rightarrow>
               if \<not> is_environment_variable_name variable then Inl ''invalid placeholder''
               else
                 (case environment variable of
                    None \<Rightarrow> Inl variable
                  | Some value \<Rightarrow>
                      and_then (interpolate environment rest) (\<lambda>expanded. Inr (before @ escape_backslashes value @ expanded)))))"
  by auto
termination
proof (relation "measure (\<lambda>(environment, remaining). length remaining)", simp)
  fix environment :: "string \<Rightarrow> string option" and remaining before after_open variable rest :: string and x y v
  assume "split_once_at placeholder_open remaining = Some x" and "(before, after_open) = x"
    and "split_once (CHR ''}'') after_open = Some y" and "(variable, rest) = y"
  then show "((environment, rest), environment, remaining) \<in> measure (\<lambda>(environment, remaining). length remaining)"
    using split_once_at_shorter [of placeholder_open remaining before after_open] split_once_shorter [of "CHR ''}''" after_open variable rest]
    by (auto simp: placeholder_open_def)
qed

declare interpolate.simps [simp del]

subsection \<open>What validation accepts\<close>

lemma refuse_simps [simp]: "refuse m \<noteq> Inr x" "\<not> is_ok (refuse m)"
  by (simp_all add: refuse_def)

definition fits :: "nat \<Rightarrow> string \<Rightarrow> bool" where
  "fits bound s \<longleftrightarrow> \<not> is_blank s \<and> length s \<le> bound"

definition host_and_port :: "string \<Rightarrow> bool" where
  "host_and_port s \<longleftrightarrow> (\<exists>host port_text p. s = host @ CHR '':'' # port_text \<and> CHR '':'' \<notin> set port_text \<and> host \<noteq> [] \<and>
     (CHR '':'' \<in> set host \<longrightarrow> starts_with ''['' host \<and> ends_with '']'' host) \<and> parse_u32 port_text = Some p \<and> 1 \<le> p \<and> p \<le> 65535)"

definition collections_ok :: "TunnelConfig list \<Rightarrow> ExportConfig list \<Rightarrow> ForwardConfig list \<Rightarrow> string option \<Rightarrow> bool" where
  "collections_ok tunnels exports forwards local_name \<longleftrightarrow>
     length tunnels \<le> 64 \<and> length exports \<le> 256 \<and> length forwards \<le> 256 \<and>
     distinct (map tc_name tunnels) \<and> distinct (map (\<lambda>t. (tc_protocol t, tc_remote_port t)) tunnels) \<and>
     (\<forall>t \<in> set tunnels. fits 128 (tc_name t) \<and> host_and_port (tc_local_addr t) \<and> 1 \<le> tc_remote_port t \<and> tc_remote_port t \<le> 65535) \<and>
     distinct (map ec_name exports) \<and>
     (\<forall>e \<in> set exports. fits 128 (ec_name e) \<and> host_and_port (ec_local_addr e) \<and> length (ec_allowed_peers e) \<le> 256 \<and>
       (\<forall>peer \<in> set (ec_allowed_peers e). fits 128 peer)) \<and>
     distinct (map fc_name forwards) \<and>
     (\<forall>f \<in> set forwards. fits 128 (fc_name f) \<and> fits 128 (fc_peer f) \<and> fits 128 (fc_export f) \<and> host_and_port (fc_listen_addr f) \<and>
       local_name \<noteq> Some (fc_peer f))"

lemma wire_string_iff: "validate_wire_string field s bound = Inr u \<longleftrightarrow> fits bound s"
  by (auto simp: validate_wire_string_def require_non_empty_def fits_def result_simps)

lemma client_name_iff: "validate_client_name s = Inr u \<longleftrightarrow> fits 128 s"
  by (simp add: validate_client_name_def wire_string_iff MAX_CLIENT_NAME_BYTES_def)

lemma host_address_iff: "validate_host_address field s = Inr u \<longleftrightarrow> host_and_port s"
proof
  assume "validate_host_address field s = Inr u"
  then obtain host port_text p where "rsplit_once (CHR '':'') s = Some (host, port_text)" "host \<noteq> []"
      "CHR '':'' \<in> set host \<longrightarrow> starts_with ''['' host \<and> ends_with '']'' host" "parse_u32 port_text = Some p" "1 \<le> p" "p \<le> 65535"
    by (auto simp: validate_host_address_def split: option.splits if_splits)
  then show "host_and_port s" using rsplit_once_Some [of "CHR '':''" s host port_text] by (auto simp: host_and_port_def)
next
  assume "host_and_port s"
  then show "validate_host_address field s = Inr u"
    by (auto simp: host_and_port_def validate_host_address_def rsplit_once_append)
qed

lemma check_each_iff: "check_each f xs = Inr u \<longleftrightarrow> (\<forall>x \<in> set xs. f x = Inr ())"
  by (induction xs) (auto simp: result_simps)

lemmas value_iffs = wire_string_iff client_name_iff host_address_iff check_each_iff

lemma tunnels_iff:
  "validate_tunnels names ports ts = Inr u \<longleftrightarrow>
     distinct (map tc_name ts) \<and> set (map tc_name ts) \<inter> set names = {} \<and>
     distinct (map (\<lambda>t. (tc_protocol t, tc_remote_port t)) ts) \<and> set (map (\<lambda>t. (tc_protocol t, tc_remote_port t)) ts) \<inter> set ports = {} \<and>
     (\<forall>t \<in> set ts. fits 128 (tc_name t) \<and> host_and_port (tc_local_addr t) \<and> 1 \<le> tc_remote_port t \<and> tc_remote_port t \<le> 65535)"
proof (induction names ports ts rule: validate_tunnels.induct)
  case (2 names ports t ts)
  show ?case
  proof (cases "validate_tunnels names ports (t # ts) = Inr u")
    case True
    then show ?thesis using 2 by (auto simp: result_simps value_iffs MAX_TUNNEL_NAME_BYTES_def split: if_splits)
  next
    case False
    then show ?thesis using 2 by (auto simp: result_simps value_iffs MAX_TUNNEL_NAME_BYTES_def split: if_splits)
  qed
qed simp

lemma exports_iff:
  "validate_exports names es = Inr u \<longleftrightarrow>
     distinct (map ec_name es) \<and> set (map ec_name es) \<inter> set names = {} \<and>
     (\<forall>e \<in> set es. fits 128 (ec_name e) \<and> host_and_port (ec_local_addr e) \<and> length (ec_allowed_peers e) \<le> 256 \<and>
       (\<forall>peer \<in> set (ec_allowed_peers e). fits 128 peer))"
  by (induction names es rule: validate_exports.induct)
    (auto simp: result_simps value_iffs MAX_TUNNEL_NAME_BYTES_def MAX_ALLOWED_PEERS_PER_EXPORT_def)

lemma forwards_iff:
  "validate_forwards local_name names fs = Inr u \<longleftrightarrow>
     distinct (map fc_name fs) \<and> set (map fc_name fs) \<inter> set names = {} \<and>
     (\<forall>f \<in> set fs. fits 128 (fc_name f) \<and> fits 128 (fc_peer f) \<and> fits 128 (fc_export f) \<and> host_and_port (fc_listen_addr f) \<and>
       local_name \<noteq> Some (fc_peer f))"
  by (induction local_name names fs rule: validate_forwards.induct) (auto simp: result_simps value_iffs MAX_TUNNEL_NAME_BYTES_def)

lemma managed_iff: "validate_managed_collections ts es fs local_name = Inr u \<longleftrightarrow> collections_ok ts es fs local_name"
  by (auto simp: validate_managed_collections_def collections_ok_def tunnels_iff exports_iff forwards_iff result_simps
      MAX_TUNNELS_def MAX_EXPORTS_def MAX_FORWARDS_def)

text \<open>
  C34 (validation of tunnels, exports and forwards): the loops over hash sets accept exactly the
  collections within their sizes, with distinct names and remote ports, names that fit the wire
  format, addresses with a host and a port, and no forward to the client itself.
\<close>

theorem managed_collections_exact:
  "is_ok (validate_managed_collections tunnels exports forwards local_name) = collections_ok tunnels exports forwards local_name"
  using managed_iff by (auto simp: is_ok_iff)

text \<open>
  C35 (applying a managed configuration): the outcome is success exactly when the collections are
  acceptable for this client and P2P is enabled wherever they need it. Then the client's
  collections are the managed ones and the client is valid; otherwise the client is as it was. Its
  identity, its P2P policy and its telemetry settings never change.
\<close>

theorem apply_managed_atomic:
  assumes "validate_client client = Inr ()" and "apply_to managed client = (outcome, after)"
  shows "is_ok outcome =
      (collections_ok (mc_tunnels managed) (mc_exports managed) (mc_forwards managed) (Some (cs_name (cc_client client))) \<and>
       (mc_exports managed \<noteq> [] \<or> mc_forwards managed \<noteq> [] \<longrightarrow> p2p_enabled client)) \<and>
    validate_client after = Inr () \<and>
    after = (if is_ok outcome then client\<lparr>cc_tunnels := mc_tunnels managed, cc_exports := mc_exports managed, cc_forwards := mc_forwards managed\<rparr>
      else client) \<and>
    cc_client after = cc_client client \<and> cc_p2p after = cc_p2p client \<and> cc_telemetry after = cc_telemetry client"
proof -
  let ?candidate = "client\<lparr>cc_tunnels := mc_tunnels managed, cc_exports := mc_exports managed, cc_forwards := mc_forwards managed\<rparr>"
  let ?ok = "\<lambda>n. collections_ok (mc_tunnels managed) (mc_exports managed) (mc_forwards managed) n"
  have strong: "?ok (Some (cs_name (cc_client client))) \<Longrightarrow> ?ok None" by (auto simp: collections_ok_def)
  have "validate_client ?candidate = Inr () \<longleftrightarrow> ?ok (Some (cs_name (cc_client client)))"
    using assms(1) by (auto simp: validate_client_def Let_def result_simps managed_iff split: if_splits)
  then show ?thesis using assms strong managed_iff [of "mc_tunnels managed" "mc_exports managed" "mc_forwards managed" None]
    by (auto simp: apply_to_def ManagedConfiguration_validate_def Let_def is_ok_iff refuse_def split: sum.splits if_splits)
qed

subsection \<open>Substitution\<close>

definition no_open :: "string \<Rightarrow> bool" where
  "no_open s \<longleftrightarrow> split_once_at placeholder_open s = None"

lemma split_at_open:
  assumes "no_open lit"
  shows "split_once_at placeholder_open (lit @ placeholder_open @ rest) = Some (lit, rest)"
  using assms
proof (induction lit)
  case (Cons x lit)
  have x: "take 2 (x # lit) \<noteq> ''${''" "no_open lit"
    using Cons.prems by (auto simp: no_open_def placeholder_open_def numeral_2_eq_2 split: if_splits)
  have "take 2 (x # lit @ ''${'' @ rest) \<noteq> ''${''"
    using x(1) by (cases lit) (auto simp: numeral_2_eq_2)
  then show ?case using Cons.IH [OF x(2)] by (simp add: placeholder_open_def)
qed (simp add: placeholder_open_def)

definition template :: "(string \<times> string) list \<Rightarrow> string \<Rightarrow> string" where
  "template ps tail = concat (map (\<lambda>(lit, variable). lit @ placeholder_open @ variable @ ''}'') ps) @ tail"

lemma variable_no_brace: "is_environment_variable_name v \<Longrightarrow> CHR ''}'' \<notin> set v"
  by (cases v) (auto simp: is_environment_variable_name_def list_all_iff)

text \<open>
  Environment variables: in a text made of pieces without an opening mark and of placeholders for
  variables that are set, every placeholder is replaced by its value with the backslashes doubled, and
  values are not searched again.
\<close>

theorem interpolate_template:
  assumes "\<forall>(lit, variable) \<in> set ps. no_open lit \<and> is_environment_variable_name variable \<and> environment variable \<noteq> None"
    and "no_open tail"
  shows "interpolate environment (template ps tail) =
    Inr (concat (map (\<lambda>(lit, variable). lit @ escape_backslashes (the (environment variable))) ps) @ tail)"
  using assms
proof (induction ps)
  case Nil
  then show ?case by (subst interpolate.simps) (simp add: template_def no_open_def)
next
  case (Cons p ps)
  obtain lit variable where p: "p = (lit, variable)" by (cases p)
  then obtain v where v: "no_open lit" "is_environment_variable_name variable" "environment variable = Some v"
    using Cons.prems(1) by auto
  have "split_once_at placeholder_open (template (p # ps) tail) = Some (lit, variable @ CHR ''}'' # template ps tail)"
    using split_at_open [OF v(1)] by (simp add: template_def p)
  moreover have "interpolate environment (template ps tail) =
      Inr (concat (map (\<lambda>(lit, variable). lit @ escape_backslashes (the (environment variable))) ps) @ tail)" using Cons by simp
  ultimately show ?case
    using v split_once_append [OF variable_no_brace [OF v(2)], of "template ps tail"]
    by (subst interpolate.simps) (simp add: p)
qed

subsection \<open>A sample\<close>

definition sample_section :: ClientSection where
  "sample_section = \<lparr>cs_name = ''laptop'', cs_profile = None, cs_identity_mode = None, cs_server_addr = ''r:7443'', cs_server_name = ''r'',
     cs_certificate_authority_file = ''ca.pem'', cs_trust_mode = None, cs_server_certificate_fingerprint = None,
     cs_private_key_file = ''key'', cs_heartbeat_interval_secs = 15\<rparr>"

definition sample_client_config :: ClientConfig where
  "sample_client_config = \<lparr>cc_client = sample_section, cc_p2p = None, cc_telemetry = Some TelemetryConfig_default,
     cc_tunnels = [], cc_exports = [], cc_forwards = []\<rparr>"

definition sample_managed :: ManagedConfiguration where
  "sample_managed = \<lparr>mc_tunnels = [\<lparr>tc_name = ''web'', tc_protocol = Tcp, tc_local_addr = ''h:80'', tc_remote_port = 8080\<rparr>],
     mc_exports = [], mc_forwards = [], mc_p2p_enabled = False\<rparr>"

lemma sample_ports: "parse_u32 ''80'' = Some 80" "parse_u32 ''7443'' = Some 7443"
  by (simp_all add: parse_u32_def parse_radix_def digits_value_def to_digit_def)

lemma sample_hosts: "host_and_port ''h:80''" "host_and_port ''r:7443''"
proof -
  show "host_and_port ''h:80''" unfolding host_and_port_def using sample_ports
    by (intro exI [of _ "''h''"] exI [of _ "''80''"] exI [of _ 80]) simp
  show "host_and_port ''r:7443''" unfolding host_and_port_def using sample_ports
    by (intro exI [of _ "''r''"] exI [of _ "''7443''"] exI [of _ 7443]) simp
qed

lemma sample_names: "fits 128 ''laptop''" "fits 128 ''web''" "\<not> is_blank ''r''"
  by (simp_all add: fits_def is_blank_def blank_codes.simps)

lemma sample_client_valid: "validate_client sample_client_config = Inr ()"
  using sample_hosts sample_names managed_iff [of "[]" "[]" "[]" "Some ''laptop''"]
  by (simp add: validate_client_def sample_client_config_def sample_section_def result_simps client_name_iff host_address_iff require_non_empty_def
      validate_trust_def require_nonzero_def validate_telemetry_def TelemetryConfig_default_def collections_ok_def)

theorem apply_managed_atomic_witness:
  "is_ok (fst (apply_to sample_managed sample_client_config)) \<and>
   cc_tunnels (snd (apply_to sample_managed sample_client_config)) = mc_tunnels sample_managed"
  using apply_managed_atomic [OF sample_client_valid surjective_pairing, of sample_managed] sample_hosts sample_names
  by (auto simp: sample_managed_def sample_client_config_def sample_section_def collections_ok_def)

end
