(* ===== verification/Web_Auth.thy ===== *)
theory Web_Auth
  imports Config Channel_Binding Backoff Observability "HOL-Library.Product_Lexorder"
begin

text \<open>
  The accounts of the dashboard (\<open>rustgos/src/web/auth.rs\<close>): the administrator's credentials, the
  table of login sessions with its idle and absolute timeouts and its bound, the tokens that guard
  against cross-site requests, the cookie parser, and the limit on login attempts. Instants and
  durations are nanoseconds, as in the rest of the server. Random draws are inputs; a poisoned mutex is
  not modelled. Each section under a mutex is one step. The theorems: a cookie is honoured only for a
  session that was opened with it, is not revoked and neither idle nor too old, and it is honoured for
  all of these while no more sessions were opened than the table holds; and the limiter with its
  pruned queues decides as one that looks through all attempts ever made.
\<close>

definition SESSION_COOKIE_NAME :: string where "SESSION_COOKIE_NAME = ''rustgo_session''"
definition SESSION_TOKEN_BYTES :: nat where "SESSION_TOKEN_BYTES = 32"
definition DIGEST_BYTES :: nat where "DIGEST_BYTES = 32"
definition MAX_COOKIE_HEADER_BYTES :: nat where "MAX_COOKIE_HEADER_BYTES = 1024"

datatype AuthenticationError = Randomness | AuthUnavailable

subsection \<open>Runtime limits\<close>

definition MAX_SESSIONS :: nat where "MAX_SESSIONS = 32"
definition MAX_LOGIN_ATTEMPTS_PER_PEER :: nat where "MAX_LOGIN_ATTEMPTS_PER_PEER = 1024"
definition MAX_GLOBAL_LOGIN_ATTEMPTS :: nat where "MAX_GLOBAL_LOGIN_ATTEMPTS = 4096"
definition MAX_TRACKED_LOGIN_PEERS :: nat where "MAX_TRACKED_LOGIN_PEERS = 1024"
definition MAX_CONNECTIONS :: nat where "MAX_CONNECTIONS = 1024"
definition MAX_CONCURRENT_REQUESTS :: nat where "MAX_CONCURRENT_REQUESTS = 1024"
definition MAX_HTTP_TIMEOUT :: nat where "MAX_HTTP_TIMEOUT = 60 * NANOS_PER_SEC"
definition MAX_GRACEFUL_DRAIN_TIMEOUT :: nat where "MAX_GRACEFUL_DRAIN_TIMEOUT = 30 * NANOS_PER_SEC"

record WebRuntimeLimits =
  wl_session_idle_timeout :: nat
  wl_session_absolute_timeout :: nat
  wl_max_sessions :: nat
  wl_login_window :: nat
  wl_max_login_attempts_per_peer :: nat
  wl_max_global_login_attempts :: nat
  wl_max_tracked_login_peers :: nat
  wl_max_connections :: nat
  wl_max_concurrent_requests :: nat
  wl_header_read_timeout :: nat
  wl_request_timeout :: nat
  wl_body_read_timeout :: nat
  wl_graceful_drain_timeout :: nat
  wl_test_exit_after_accepts :: "nat option"

definition WebRuntimeLimits_default :: WebRuntimeLimits where
  "WebRuntimeLimits_default = \<lparr>
     wl_session_idle_timeout = 30 * 60 * NANOS_PER_SEC,
     wl_session_absolute_timeout = 8 * 60 * 60 * NANOS_PER_SEC,
     wl_max_sessions = MAX_SESSIONS,
     wl_login_window = 60 * NANOS_PER_SEC,
     wl_max_login_attempts_per_peer = 8,
     wl_max_global_login_attempts = 64,
     wl_max_tracked_login_peers = MAX_TRACKED_LOGIN_PEERS,
     wl_max_connections = 64,
     wl_max_concurrent_requests = 32,
     wl_header_read_timeout = 5 * NANOS_PER_SEC,
     wl_request_timeout = 10 * NANOS_PER_SEC,
     wl_body_read_timeout = 3 * NANOS_PER_SEC,
     wl_graceful_drain_timeout = 5 * NANOS_PER_SEC,
     wl_test_exit_after_accepts = None\<rparr>"

text \<open>\<open>validate\<close> with the clock's reading and the latest instant the clock can represent.\<close>

definition WebRuntimeLimits_valid :: "nat \<Rightarrow> nat \<Rightarrow> WebRuntimeLimits \<Rightarrow> bool" where
  "WebRuntimeLimits_valid latest now self \<longleftrightarrow> \<not> (
     wl_session_idle_timeout self = 0 \<or> wl_session_absolute_timeout self = 0 \<or>
     wl_session_idle_timeout self > wl_session_absolute_timeout self \<or>
     wl_max_sessions self = 0 \<or> wl_max_sessions self > MAX_SESSIONS \<or>
     wl_login_window self = 0 \<or>
     wl_max_login_attempts_per_peer self = 0 \<or> wl_max_login_attempts_per_peer self > MAX_LOGIN_ATTEMPTS_PER_PEER \<or>
     wl_max_global_login_attempts self = 0 \<or> wl_max_global_login_attempts self > MAX_GLOBAL_LOGIN_ATTEMPTS \<or>
     wl_max_tracked_login_peers self = 0 \<or> wl_max_tracked_login_peers self > MAX_TRACKED_LOGIN_PEERS \<or>
     wl_max_connections self = 0 \<or> wl_max_connections self > MAX_CONNECTIONS \<or>
     wl_max_concurrent_requests self = 0 \<or> wl_max_concurrent_requests self > MAX_CONCURRENT_REQUESTS \<or>
     wl_max_concurrent_requests self > wl_max_connections self \<or>
     wl_header_read_timeout self = 0 \<or> wl_header_read_timeout self > MAX_HTTP_TIMEOUT \<or>
     wl_request_timeout self = 0 \<or> wl_request_timeout self > MAX_HTTP_TIMEOUT \<or>
     wl_body_read_timeout self = 0 \<or> wl_body_read_timeout self > wl_request_timeout self \<or>
     wl_graceful_drain_timeout self = 0 \<or> wl_graceful_drain_timeout self > MAX_GRACEFUL_DRAIN_TIMEOUT \<or>
     wl_test_exit_after_accepts self = Some 0 \<or>
     instant_checked_add latest now (wl_session_idle_timeout self) = None \<or>
     instant_checked_add latest now (wl_session_absolute_timeout self) = None \<or>
     instant_checked_add latest now (wl_login_window self) = None \<or>
     instant_checked_add latest now (wl_header_read_timeout self) = None \<or>
     instant_checked_add latest now (wl_request_timeout self) = None \<or>
     instant_checked_add latest now (wl_body_read_timeout self) = None \<or>
     instant_checked_add latest now (wl_graceful_drain_timeout self) = None)"

subsection \<open>Sessions\<close>

record SessionRecord =
  sr_created :: nat
  sr_last_activity :: nat
  sr_sequence :: u64

record SessionTable =
  wt_sessions :: "(bytes, SessionRecord) hashmap"
  wt_next_sequence :: u64

record SessionStore =
  ws_hmac_key :: bytes
  ws_idle_timeout :: nat
  ws_absolute_timeout :: nat
  ws_capacity :: nat

definition SessionTable_default :: SessionTable where
  "SessionTable_default = \<lparr>wt_sessions = [], wt_next_sequence = 0\<rparr>"

definition SessionStore_new :: "WebRuntimeLimits \<Rightarrow> bytes option \<Rightarrow> (AuthenticationError, SessionStore) result" where
  "SessionStore_new limits draw =
     and_then (ok_or draw Randomness) (\<lambda>hmac_key.
       Inr \<lparr>ws_hmac_key = hmac_key, ws_idle_timeout = wl_session_idle_timeout limits,
            ws_absolute_timeout = wl_session_absolute_timeout limits, ws_capacity = wl_max_sessions limits\<rparr>)"

definition record_live :: "nat \<Rightarrow> nat \<Rightarrow> nat \<Rightarrow> SessionRecord \<Rightarrow> bool" where
  "record_live now idle_for absolute r \<longleftrightarrow> now - sr_last_activity r < idle_for \<and> now - sr_created r < absolute"

definition remove_expired :: "nat \<Rightarrow> nat \<Rightarrow> nat \<Rightarrow> SessionTable \<Rightarrow> SessionTable" where
  "remove_expired now idle_for absolute self =
     self\<lparr>wt_sessions := filter (\<lambda>(_, r). record_live now idle_for absolute r) (wt_sessions self)\<rparr>"

definition age_key :: "SessionRecord \<Rightarrow> nat \<times> nat \<times> u64" where
  "age_key r = (sr_last_activity r, sr_created r, sr_sequence r)"

fun oldest :: "(bytes, SessionRecord) hashmap \<Rightarrow> (bytes \<times> SessionRecord) option" where
  "oldest [] = None"
| "oldest (x # xs) =
     (case oldest xs of
        None \<Rightarrow> Some x
      | Some y \<Rightarrow> if age_key (snd y) < age_key (snd x) then Some y else Some x)"

definition evict_oldest :: "SessionTable \<Rightarrow> SessionTable" where
  "evict_oldest self =
     (case oldest (wt_sessions self) of
        Some (key, _) \<Rightarrow> self\<lparr>wt_sessions := hm_remove key (wt_sessions self)\<rparr>
      | None \<Rightarrow> self)"

definition derive_key :: "'a web_primitives_scheme \<Rightarrow> SessionStore \<Rightarrow> bytes \<Rightarrow> bytes" where
  "derive_key c self token = hmac_sha256 c (ws_hmac_key self) token"

text \<open>One round of \<open>issue\<close>: the section that follows a draw, \<open>False\<close> when the key is taken.\<close>

definition issue_round :: "'a web_primitives_scheme \<Rightarrow> SessionStore \<Rightarrow> nat \<Rightarrow> bytes \<Rightarrow> SessionTable \<Rightarrow> bool \<times> SessionTable" where
  "issue_round c self now token table =
     (let key = derive_key c self token;
          table = remove_expired now (ws_idle_timeout self) (ws_absolute_timeout self) table
      in if map_of (wt_sessions table) key \<noteq> None then (False, table)
         else
           let table = (if length (wt_sessions table) = ws_capacity self then evict_oldest table else table);
               sequence = wt_next_sequence table
           in (True, table\<lparr>wt_next_sequence := u64_saturating_add (wt_next_sequence table) 1,
                 wt_sessions := hm_insert key \<lparr>sr_created = now, sr_last_activity = now, sr_sequence = sequence\<rparr> (wt_sessions table)\<rparr>))"

fun issue_loop :: "nat \<Rightarrow> 'a web_primitives_scheme \<Rightarrow> SessionStore \<Rightarrow> nat \<Rightarrow> bytes option list \<Rightarrow> SessionTable
    \<Rightarrow> (AuthenticationError, string) result \<times> SessionTable" where
  "issue_loop 0 c self now draws table = (Inl AuthUnavailable, table)"
| "issue_loop (Suc n) c self now draws table =
     (case draws of
        Some token # draws \<Rightarrow>
          (let encoded = url_encode c token;
               (issued, table) = issue_round c self now token table
           in if issued then (Inr encoded, table) else issue_loop n c self now draws table)
      | _ \<Rightarrow> (Inl Randomness, table))"

definition issue :: "'a web_primitives_scheme \<Rightarrow> SessionStore \<Rightarrow> nat \<Rightarrow> bytes option list \<Rightarrow> SessionTable
    \<Rightarrow> (AuthenticationError, string) result \<times> SessionTable" where
  "issue = issue_loop 4"

definition touch_session :: "nat \<Rightarrow> bytes \<Rightarrow> SessionTable \<Rightarrow> SessionTable" where
  "touch_session now key table = table\<lparr>wt_sessions := hm_modify key (\<lambda>r. r\<lparr>sr_last_activity := now\<rparr>) (wt_sessions table)\<rparr>"

definition authenticate :: "'a web_primitives_scheme \<Rightarrow> SessionStore \<Rightarrow> nat \<Rightarrow> bytes \<Rightarrow> SessionTable \<Rightarrow> bool \<times> SessionTable" where
  "authenticate c self now token table =
     (let key = derive_key c self token;
          table = remove_expired now (ws_idle_timeout self) (ws_absolute_timeout self) table
      in if map_of (wt_sessions table) key = None then (False, table) else (True, touch_session now key table))"

definition revoke :: "'a web_primitives_scheme \<Rightarrow> SessionStore \<Rightarrow> nat \<Rightarrow> bytes \<Rightarrow> SessionTable \<Rightarrow> bool \<times> SessionTable" where
  "revoke c self now token table =
     (let key = derive_key c self token;
          table = remove_expired now (ws_idle_timeout self) (ws_absolute_timeout self) table
      in (map_of (wt_sessions table) key \<noteq> None, table\<lparr>wt_sessions := hm_remove key (wt_sessions table)\<rparr>))"

definition CSRF_DOMAIN :: bytes where "CSRF_DOMAIN = as_bytes ''rustgo-web-csrf-v1'' @ [0]"

definition csrf_credential :: "'a web_primitives_scheme \<Rightarrow> SessionStore \<Rightarrow> nat \<Rightarrow> bytes \<Rightarrow> SessionTable \<Rightarrow> bytes option \<times> SessionTable" where
  "csrf_credential c self now token table =
     (let key = derive_key c self token;
          table = remove_expired now (ws_idle_timeout self) (ws_absolute_timeout self) table
      in if map_of (wt_sessions table) key = None then (None, table)
         else (Some (hmac_sha256 c (ws_hmac_key self) (CSRF_DOMAIN @ token)), touch_session now key table))"

subsection \<open>Login attempts\<close>

record LoginRateLimiter =
  lr_global :: "nat list"
  lr_peers :: "(IpAddr, nat list) hashmap"
  lr_window :: nat
  lr_per_peer_limit :: nat
  lr_global_limit :: nat
  lr_max_peers :: nat

definition LoginRateLimiter_new :: "WebRuntimeLimits \<Rightarrow> LoginRateLimiter" where
  "LoginRateLimiter_new limits =
     \<lparr>lr_global = [], lr_peers = [], lr_window = wl_login_window limits,
      lr_per_peer_limit = wl_max_login_attempts_per_peer limits, lr_global_limit = wl_max_global_login_attempts limits,
      lr_max_peers = wl_max_tracked_login_peers limits\<rparr>"

definition prune_attempts :: "nat \<Rightarrow> nat \<Rightarrow> nat list \<Rightarrow> nat list" where
  "prune_attempts now window attempts = dropWhile (\<lambda>attempt. now - attempt \<ge> window) attempts"

definition limiter_admit :: "IpAddr \<Rightarrow> nat \<Rightarrow> LoginRateLimiter \<Rightarrow> bool \<times> LoginRateLimiter" where
  "limiter_admit peer now self =
     (let self = self\<lparr>lr_global := prune_attempts now (lr_window self) (lr_global self),
            lr_peers := filter (\<lambda>(_, attempts). attempts \<noteq> [])
              (map (\<lambda>(p, attempts). (p, prune_attempts now (lr_window self) attempts)) (lr_peers self))\<rparr>
      in if length (lr_global self) \<ge> lr_global_limit self then (False, self)
         else if (case map_of (lr_peers self) peer of Some attempts \<Rightarrow> length attempts \<ge> lr_per_peer_limit self | None \<Rightarrow> False)
         then (False, self)
         else if map_of (lr_peers self) peer = None \<and> length (lr_peers self) = lr_max_peers self then (False, self)
         else
           (True, self\<lparr>lr_global := lr_global self @ [now],
              lr_peers := hm_insert peer (hm_get_or [] (lr_peers self) peer @ [now]) (lr_peers self)\<rparr>))"

fun web_canonical_ip :: "IpAddr \<Rightarrow> IpAddr" where
  "web_canonical_ip (IpV6 ipv6) = (case to_ipv4_mapped ipv6 of Some ipv4 \<Rightarrow> IpV4 ipv4 | None \<Rightarrow> IpV6 ipv6)"
| "web_canonical_ip (IpV4 ipv4) = IpV4 ipv4"

subsection \<open>Cookies and credentials\<close>

fun cookie_value_in :: "string list \<Rightarrow> string option \<Rightarrow> string option" where
  "cookie_value_in [] value = value"
| "cookie_value_in (pair # pairs) value =
     (case split_once (CHR ''='') (trim pair) of
        None \<Rightarrow> None
      | Some (name, candidate) \<Rightarrow>
          if name = SESSION_COOKIE_NAME
          then (if value \<noteq> None then None else cookie_value_in pairs (Some candidate))
          else cookie_value_in pairs value)"

definition parse_session_cookie :: "'a web_primitives_scheme \<Rightarrow> string \<Rightarrow> bytes option" where
  "parse_session_cookie c header =
     (if length header > MAX_COOKIE_HEADER_BYTES then None
      else
        Option.bind (cookie_value_in (split_on (CHR '';'') header) None) (\<lambda>value.
        if length value \<noteq> 43 then None
        else
          Option.bind (url_decode c value) (\<lambda>decoded.
          if length decoded = SESSION_TOKEN_BYTES then Some decoded else None)))"

record CredentialDigests =
  cd_username :: bytes
  cd_password :: bytes

definition CredentialDigests_new :: "'a web_primitives_scheme \<Rightarrow> string \<Rightarrow> string \<Rightarrow> CredentialDigests" where
  "CredentialDigests_new c username password =
     \<lparr>cd_username = sha256 c (as_bytes username), cd_password = sha256 c (as_bytes password)\<rparr>"

definition credentials_matches :: "'a web_primitives_scheme \<Rightarrow> CredentialDigests \<Rightarrow> string \<Rightarrow> string \<Rightarrow> bool" where
  "credentials_matches c self username password \<longleftrightarrow>
     cd_username self = sha256 c (as_bytes username) \<and> cd_password self = sha256 c (as_bytes password)"

subsection \<open>The state of the web server's accounts\<close>

record AuthenticationState =
  at_credentials :: CredentialDigests
  at_sessions :: SessionStore
  at_table :: SessionTable
  at_login_limiter :: LoginRateLimiter

definition AuthenticationState_new ::
  "'a web_primitives_scheme \<Rightarrow> string \<Rightarrow> string \<Rightarrow> WebRuntimeLimits \<Rightarrow> bytes option \<Rightarrow> (AuthenticationError, AuthenticationState) result" where
  "AuthenticationState_new c username password limits draw =
     and_then (SessionStore_new limits draw) (\<lambda>sessions.
       Inr \<lparr>at_credentials = CredentialDigests_new c username password, at_sessions = sessions, at_table = SessionTable_default,
            at_login_limiter = LoginRateLimiter_new limits\<rparr>)"

definition admit_login :: "IpAddr \<Rightarrow> nat \<Rightarrow> AuthenticationState \<Rightarrow> bool \<times> AuthenticationState" where
  "admit_login peer now self =
     (let (admitted, limiter) = limiter_admit (web_canonical_ip peer) now (at_login_limiter self)
      in (admitted, self\<lparr>at_login_limiter := limiter\<rparr>))"

definition credentials_match :: "'a web_primitives_scheme \<Rightarrow> AuthenticationState \<Rightarrow> string \<Rightarrow> string \<Rightarrow> bool" where
  "credentials_match c self username password = credentials_matches c (at_credentials self) username password"

definition issue_session ::
  "'a web_primitives_scheme \<Rightarrow> nat \<Rightarrow> bytes option list \<Rightarrow> AuthenticationState \<Rightarrow> (AuthenticationError, string) result \<times> AuthenticationState" where
  "issue_session c now draws self =
     (let (outcome, table) = issue c (at_sessions self) now draws (at_table self) in (outcome, self\<lparr>at_table := table\<rparr>))"

definition authenticate_cookie ::
  "'a web_primitives_scheme \<Rightarrow> nat \<Rightarrow> string option \<Rightarrow> AuthenticationState \<Rightarrow> bool \<times> AuthenticationState" where
  "authenticate_cookie c now cookie_header self =
     (case Option.bind cookie_header (parse_session_cookie c) of
        None \<Rightarrow> (False, self)
      | Some token \<Rightarrow>
          (let (authenticated, table) = authenticate c (at_sessions self) now token (at_table self)
           in (authenticated, self\<lparr>at_table := table\<rparr>)))"

definition csrf_for_cookie ::
  "'a web_primitives_scheme \<Rightarrow> nat \<Rightarrow> string option \<Rightarrow> AuthenticationState \<Rightarrow> string option \<times> AuthenticationState" where
  "csrf_for_cookie c now cookie_header self =
     (case Option.bind cookie_header (parse_session_cookie c) of
        None \<Rightarrow> (None, self)
      | Some token \<Rightarrow>
          (let (credential, table) = csrf_credential c (at_sessions self) now token (at_table self)
           in (map_option (url_encode c) credential, self\<lparr>at_table := table\<rparr>)))"

definition validate_csrf ::
  "'a web_primitives_scheme \<Rightarrow> nat \<Rightarrow> string option \<Rightarrow> string \<Rightarrow> AuthenticationState \<Rightarrow> bool \<times> AuthenticationState" where
  "validate_csrf c now cookie_header supplied_text self =
     (case Option.bind cookie_header (parse_session_cookie c) of
        None \<Rightarrow> (False, self)
      | Some token \<Rightarrow>
          (let supplied = Option.bind (url_decode c supplied_text) (\<lambda>bs. if length bs = DIGEST_BYTES then Some bs else None);
               (expected, table) = csrf_credential c (at_sessions self) now token (at_table self)
           in (expected \<noteq> None \<and> supplied \<noteq> None \<and> expected = supplied, self\<lparr>at_table := table\<rparr>)))"

definition revoke_cookie ::
  "'a web_primitives_scheme \<Rightarrow> nat \<Rightarrow> string option \<Rightarrow> AuthenticationState \<Rightarrow> bool \<times> AuthenticationState" where
  "revoke_cookie c now cookie_header self =
     (case Option.bind cookie_header (parse_session_cookie c) of
        None \<Rightarrow> (False, self)
      | Some token \<Rightarrow>
          (let (revoked, table) = revoke c (at_sessions self) now token (at_table self)
           in (revoked, self\<lparr>at_table := table\<rparr>)))"

subsection \<open>Runs of the session table\<close>

datatype session_op =
    OpenSession nat bytes
  | UseSession nat bytes
  | CheckSession nat bytes
  | EndSession nat bytes

fun op_time :: "session_op \<Rightarrow> nat" where
  "op_time (OpenSession now token) = now"
| "op_time (UseSession now token) = now"
| "op_time (CheckSession now token) = now"
| "op_time (EndSession now token) = now"

fun op_token :: "session_op \<Rightarrow> bytes" where
  "op_token (OpenSession now token) = token"
| "op_token (UseSession now token) = token"
| "op_token (CheckSession now token) = token"
| "op_token (EndSession now token) = token"

fun session_step :: "'a web_primitives_scheme \<Rightarrow> SessionStore \<Rightarrow> SessionTable \<Rightarrow> session_op \<Rightarrow> bool \<times> SessionTable" where
  "session_step c store table (OpenSession now token) = issue_round c store now token table"
| "session_step c store table (UseSession now token) = authenticate c store now token table"
| "session_step c store table (CheckSession now token) =
     (let (credential, table) = csrf_credential c store now token table in (credential \<noteq> None, table))"
| "session_step c store table (EndSession now token) = revoke c store now token table"

text \<open>
  What an observer knows from the tokens and the answers alone: the tokens with which a session was opened that was not
  ended since, with the time it was opened and last used.
\<close>

type_synonym session_log = "bytes \<rightharpoonup> nat \<times> nat"

fun note_token :: "session_log \<Rightarrow> session_op \<Rightarrow> bool \<Rightarrow> session_log" where
  "note_token m op False = m"
| "note_token m (OpenSession now token) True = m(token \<mapsto> (now, now))"
| "note_token m (UseSession now token) True = (case m token of Some (created, _) \<Rightarrow> m(token \<mapsto> (created, now)) | None \<Rightarrow> m)"
| "note_token m (CheckSession now token) True = (case m token of Some (created, _) \<Rightarrow> m(token \<mapsto> (created, now)) | None \<Rightarrow> m)"
| "note_token m (EndSession now token) True = m(token := None)"

definition token_run_step ::
  "'a web_primitives_scheme \<Rightarrow> SessionStore \<Rightarrow> SessionTable \<times> session_log \<Rightarrow> session_op \<Rightarrow> SessionTable \<times> session_log" where
  "token_run_step c store = (\<lambda>(table, m) op.
     let (answer, table') = session_step c store table op in (table', note_token m op answer))"

definition tokens_after ::
  "'a web_primitives_scheme \<Rightarrow> SessionStore \<Rightarrow> session_op list \<Rightarrow> SessionTable \<times> session_log" where
  "tokens_after c store = foldl (token_run_step c store) (SessionTable_default, \<lambda>_. None)"

text \<open>The keyed hash gives different codes to the tokens in question, as HMAC-SHA256 does short of a collision.\<close>

definition hmac_distinguishes :: "'a web_primitives_scheme \<Rightarrow> SessionStore \<Rightarrow> bytes set \<Rightarrow> bool" where
  "hmac_distinguishes c store tokens \<longleftrightarrow> inj_on (hmac_sha256 c (ws_hmac_key store)) tokens"

text \<open>The same log under the keys of the table.\<close>

fun note_answer :: "'a web_primitives_scheme \<Rightarrow> SessionStore \<Rightarrow> session_log \<Rightarrow> session_op \<Rightarrow> bool \<Rightarrow> session_log" where
  "note_answer c store m op False = m"
| "note_answer c store m (OpenSession now token) True = m(derive_key c store token \<mapsto> (now, now))"
| "note_answer c store m (UseSession now token) True = (case m (derive_key c store token) of
     Some (created, _) \<Rightarrow> m(derive_key c store token \<mapsto> (created, now)) | None \<Rightarrow> m)"
| "note_answer c store m (CheckSession now token) True = (case m (derive_key c store token) of
     Some (created, _) \<Rightarrow> m(derive_key c store token \<mapsto> (created, now)) | None \<Rightarrow> m)"
| "note_answer c store m (EndSession now token) True = m(derive_key c store token := None)"

definition logged_live :: "SessionStore \<Rightarrow> nat \<Rightarrow> session_log \<Rightarrow> bytes \<Rightarrow> bool" where
  "logged_live store now m key \<longleftrightarrow> (case m key of
     Some (created, used) \<Rightarrow> now - used < ws_idle_timeout store \<and> now - created < ws_absolute_timeout store | None \<Rightarrow> False)"

definition session_run_step ::
  "'a web_primitives_scheme \<Rightarrow> SessionStore \<Rightarrow> SessionTable \<times> session_log \<Rightarrow> session_op \<Rightarrow> SessionTable \<times> session_log" where
  "session_run_step c store = (\<lambda>(table, m) op.
     let (answer, table') = session_step c store table op in (table', note_answer c store m op answer))"

definition sessions_after ::
  "'a web_primitives_scheme \<Rightarrow> SessionStore \<Rightarrow> session_op list \<Rightarrow> SessionTable \<times> session_log" where
  "sessions_after c store = foldl (session_run_step c store) (SessionTable_default, \<lambda>_. None)"

definition is_open :: "session_op \<Rightarrow> bool" where
  "is_open op \<longleftrightarrow> (case op of OpenSession _ _ \<Rightarrow> True | _ \<Rightarrow> False)"

definition opened :: "session_op list \<Rightarrow> nat" where
  "opened ops = length (filter is_open ops)"

text \<open>The table holds what the log has, and all of it that is alive while nothing was evicted.\<close>

definition session_rel :: "SessionStore \<Rightarrow> bool \<Rightarrow> nat \<Rightarrow> SessionTable \<Rightarrow> session_log \<Rightarrow> bool" where
  "session_rel store complete t table m \<longleftrightarrow> hm_ok (wt_sessions table) \<and> length (wt_sessions table) \<le> ws_capacity store \<and>
     (\<forall>k r. map_of (wt_sessions table) k = Some r \<longrightarrow> m k = Some (sr_created r, sr_last_activity r)) \<and>
     (complete \<longrightarrow> (\<forall>k created used. m k = Some (created, used) \<longrightarrow> map_of (wt_sessions table) k = None \<longrightarrow>
        t - used \<ge> ws_idle_timeout store \<or> t - created \<ge> ws_absolute_timeout store))"

lemma map_of_live:
  assumes "hm_ok m"
  shows "map_of (filter (\<lambda>(_, r). P r) m) k = Some r \<longleftrightarrow> map_of m k = Some r \<and> P r"
proof -
  have "hm_ok (filter (\<lambda>(_, r). P r) m)" using assms by (simp add: hm_ok_def distinct_map_filter)
  from hm_ok_in_set [OF this, of k r] hm_ok_in_set [OF assms, of k r] show ?thesis by auto
qed

lemma session_relD:
  assumes "session_rel store complete t table m"
  shows "hm_ok (wt_sessions table)" "length (wt_sessions table) \<le> ws_capacity store"
    "map_of (wt_sessions table) k = Some r \<Longrightarrow> m k = Some (sr_created r, sr_last_activity r)"
    "complete \<Longrightarrow> m k = Some (created, used) \<Longrightarrow> map_of (wt_sessions table) k = None \<Longrightarrow>
       t - used \<ge> ws_idle_timeout store \<or> t - created \<ge> ws_absolute_timeout store"
  using assms by (auto simp: session_rel_def)

lemma session_rel_expire:
  assumes "session_rel store complete t table m" and "t \<le> now"
    and "table' = remove_expired now (ws_idle_timeout store) (ws_absolute_timeout store) table"
  shows "session_rel store complete now table' m \<and> length (wt_sessions table') \<le> length (wt_sessions table) \<and>
    (\<forall>k r. map_of (wt_sessions table') k = Some r \<longrightarrow> record_live now (ws_idle_timeout store) (ws_absolute_timeout store) r)"
proof -
  let ?P = "record_live now (ws_idle_timeout store) (ws_absolute_timeout store)"
  note d = session_relD [OF assms(1)]
  have s: "wt_sessions table' = filter (\<lambda>(_, r). ?P r) (wt_sessions table)" by (simp add: assms(3) remove_expired_def)
  have len: "length (wt_sessions table') \<le> length (wt_sessions table)" by (simp add: s)
  have ok: "hm_ok (wt_sessions table')" using d(1) by (simp add: s hm_ok_def distinct_map_filter)
  have m: "map_of (wt_sessions table') k = Some r \<longleftrightarrow> map_of (wt_sessions table) k = Some r \<and> ?P r" for k r
    unfolding s by (rule map_of_live [OF d(1)])
  have "now - used \<ge> ws_idle_timeout store \<or> now - created \<ge> ws_absolute_timeout store"
    if "complete" "m k = Some (created, used)" "map_of (wt_sessions table') k = None" for k created used
  proof (cases "map_of (wt_sessions table) k")
    case None
    from d(4) [OF that(1,2) None] assms(2) show ?thesis by auto
  next
    case (Some r)
    then have "\<not> ?P r" using m [of k r] that(3) by auto
    with d(3) [OF Some] that(2) show ?thesis by (auto simp: record_live_def)
  qed
  then show ?thesis using len ok m d(2,3) by (auto simp: session_rel_def)
qed

lemma length_insert_present: "map_of m k = Some r \<Longrightarrow> length (hm_insert k v m) = length m"
  by (induction m) (auto simp: hm_insert_def split: if_splits)

lemma session_rel_touch:
  assumes "session_rel store complete t table m" and "map_of (wt_sessions table) key = Some r"
  shows "session_rel store complete t (touch_session t key table) (m(key \<mapsto> (sr_created r, t)))"
proof -
  note d = session_relD [OF assms(1)]
  have "length (hm_insert key (r\<lparr>sr_last_activity := t\<rparr>) (wt_sessions table)) = length (wt_sessions table)"
    using assms(2) by (rule length_insert_present)
  then show ?thesis using assms(2) d by (auto simp: session_rel_def touch_session_def hm_modify_def)
qed

lemma evict_result:
  assumes "hm_ok (wt_sessions table)"
  shows "hm_ok (wt_sessions (evict_oldest table))"
    "map_of (wt_sessions (evict_oldest table)) k = Some r \<Longrightarrow> map_of (wt_sessions table) k = Some r"
    "wt_sessions table \<noteq> [] \<Longrightarrow> length (wt_sessions (evict_oldest table)) < length (wt_sessions table)"
proof -
  have in_set: "oldest xs = Some x \<Longrightarrow> x \<in> set xs" for xs x by (induction xs arbitrary: x) (auto split: option.splits if_splits)
  have "\<exists>x. oldest xs = Some x" if "xs \<noteq> []" for xs using that by (cases xs) (auto split: option.splits)
  with in_set assms show "wt_sessions table \<noteq> [] \<Longrightarrow> length (wt_sessions (evict_oldest table)) < length (wt_sessions table)"
    using length_hm_remove [OF assms] hm_ok_in_set [OF assms] by (fastforce simp: evict_oldest_def split: option.splits)
  show "hm_ok (wt_sessions (evict_oldest table))" using assms by (auto simp: evict_oldest_def split: option.splits)
  show "map_of (wt_sessions (evict_oldest table)) k = Some r \<Longrightarrow> map_of (wt_sessions table) k = Some r"
    by (auto simp: evict_oldest_def split: option.splits if_splits)
qed

lemma session_rel_open:
  assumes "session_rel store complete t table m" and "map_of (wt_sessions table) key = None" and "0 < ws_capacity store"
    and "complete \<Longrightarrow> length (wt_sessions table) < ws_capacity store"
    and "table1 = (if length (wt_sessions table) = ws_capacity store then evict_oldest table else table)"
    and "sr_created r = t" and "sr_last_activity r = t" and "wt_sessions table2 = hm_insert key r (wt_sessions table1)"
  shows "session_rel store complete t table2 (m(key \<mapsto> (t, t))) \<and> length (wt_sessions table2) \<le> Suc (length (wt_sessions table))"
proof -
  note d = session_relD [OF assms(1)]
  have 1: "hm_ok (wt_sessions table1)" "map_of (wt_sessions table1) k = Some r' \<Longrightarrow> map_of (wt_sessions table) k = Some r'"
    "length (wt_sessions table1) < ws_capacity store" "length (wt_sessions table1) \<le> length (wt_sessions table)" "complete \<Longrightarrow> table1 = table" for k r'
  proof -
    note ev = evict_result [OF d(1)]
    show "hm_ok (wt_sessions table1)" using d(1) ev(1) by (simp add: assms(5))
    show "map_of (wt_sessions table1) k = Some r' \<Longrightarrow> map_of (wt_sessions table) k = Some r'" using ev(2) by (simp add: assms(5) split: if_splits)
    show "length (wt_sessions table1) < ws_capacity store" "length (wt_sessions table1) \<le> length (wt_sessions table)"
      using ev(3) d(2) assms(3) by (cases "wt_sessions table = []"; auto simp: assms(5))+
    show "complete \<Longrightarrow> table1 = table" using assms(4) by (simp add: assms(5))
  qed
  have "map_of (wt_sessions table1) key = None" using 1(2) [of key] assms(2) by (cases "map_of (wt_sessions table1) key") auto
  from length_insert_absent [OF this, of r] have len: "length (wt_sessions table2) = Suc (length (wt_sessions table1))" by (simp add: assms(8))
  have "m k = Some (sr_created r', sr_last_activity r')" if "map_of (wt_sessions table2) k = Some r'" "k \<noteq> key" for k r'
    using d(3) [OF 1(2)] that by (simp add: assms(8))
  moreover have "t - used \<ge> ws_idle_timeout store \<or> t - created \<ge> ws_absolute_timeout store"
    if "complete" "m k = Some (created, used)" "map_of (wt_sessions table2) k = None" "k \<noteq> key" for k created used
    using d(4) [OF that(1,2)] 1(5) [OF that(1)] that(3,4) by (simp add: assms(8))
  ultimately show ?thesis
    using len 1(1,3,4) assms(6,7) by (auto simp: session_rel_def assms(8))
qed

lemma session_step_rel:
  assumes "session_rel store complete t table m" and "t \<le> op_time op" and "0 < ws_capacity store"
    and "complete \<Longrightarrow> is_open op \<Longrightarrow> length (wt_sessions table) < ws_capacity store"
    and "session_step c store table op = (answer, table')"
  shows "session_rel store complete (op_time op) table' (note_answer c store m op answer) \<and>
    length (wt_sessions table') \<le> length (wt_sessions table) + (if is_open op then 1 else 0) \<and>
    (\<not> is_open op \<longrightarrow> (answer \<longrightarrow> logged_live store (op_time op) m (derive_key c store (op_token op))) \<and>
      (complete \<longrightarrow> answer = logged_live store (op_time op) m (derive_key c store (op_token op))))"
proof -
  define e where "e = remove_expired (op_time op) (ws_idle_timeout store) (ws_absolute_timeout store) table"
  define key where "key = derive_key c store (op_token op)"
  note x = session_rel_expire [OF assms(1,2) e_def]
  then have rel: "session_rel store complete (op_time op) e m" and len: "length (wt_sessions e) \<le> length (wt_sessions table)" by simp_all
  have alive: "logged_live store (op_time op) m key" if "map_of (wt_sessions e) key = Some r" for r
    using session_relD(3) [OF rel that] x that by (auto simp: logged_live_def record_live_def)
  have dead: "\<not> logged_live store (op_time op) m key" if "complete" "map_of (wt_sessions e) key = None"
    using session_relD(4) [OF rel that(1) _ that(2)] by (fastforce simp: logged_live_def split: option.splits)
  have keep: "session_rel store complete (op_time op) e (note_answer c store m op False)" using rel by simp
  show ?thesis
  proof (cases "map_of (wt_sessions e) key")
    case None
    show ?thesis
    proof (cases op)
      case (OpenSession now token)
      have "complete \<Longrightarrow> length (wt_sessions e) < ws_capacity store" using assms(4) len OpenSession by (simp add: is_open_def)
      note o = session_rel_open [OF rel None assms(3) this refl]
      have a: "answer" "wt_sessions table' = hm_insert key \<lparr>sr_created = now, sr_last_activity = now, sr_sequence = wt_next_sequence
          (if length (wt_sessions e) = ws_capacity store then evict_oldest e else e)\<rparr>
          (wt_sessions (if length (wt_sessions e) = ws_capacity store then evict_oldest e else e))"
        using assms(5) None OpenSession by (simp_all add: issue_round_def Let_def e_def key_def split: if_splits) auto
      show ?thesis using o [OF _ _ _ a(2)] a(1) OpenSession len by (simp add: is_open_def key_def)
    next
      case (EndSession now token)
      then show ?thesis using None assms(5) rel dead len hm_remove_absent [OF None]
        by (simp add: revoke_def e_def [symmetric, unfolded EndSession, simplified] key_def is_open_def)
    qed (use None assms(5) rel dead len in \<open>simp_all add: authenticate_def csrf_credential_def e_def key_def is_open_def\<close>)
  next
    case (Some r)
    note m = session_relD(3) [OF rel Some]
    note touched = session_rel_touch [OF rel Some]
    show ?thesis
    proof (cases op)
      case (OpenSession now token)
      then show ?thesis using Some assms(5) rel len by (simp add: issue_round_def e_def key_def is_open_def)
    next
      case (EndSession now token)
      have "session_rel store complete now (e\<lparr>wt_sessions := hm_remove key (wt_sessions e)\<rparr>) (m(key := None))"
        using rel EndSession length_hm_remove_le [of key "wt_sessions e"] by (auto simp: session_rel_def)
      then show ?thesis using Some assms(5) alive len EndSession length_hm_remove_le [of key "wt_sessions e"]
        by (auto simp: revoke_def e_def key_def is_open_def Let_def)
    next
      case (UseSession now token)
      then show ?thesis using Some assms(5) alive len touched m
        by (auto simp: authenticate_def e_def key_def is_open_def touch_session_def hm_modify_def length_insert_present Let_def)
    next
      case (CheckSession now token)
      then show ?thesis using Some assms(5) alive len touched m
        by (auto simp: csrf_credential_def e_def key_def is_open_def touch_session_def hm_modify_def length_insert_present Let_def)
    qed
  qed
qed

lemma sessions_after_snoc:
  "sessions_after c store (ops @ [op]) = session_run_step c store (sessions_after c store ops) op"
  by (simp add: sessions_after_def)

lemma sessions_after_rel:
  assumes "sorted (map op_time ops)" and "0 < ws_capacity store" and "complete \<Longrightarrow> opened ops \<le> ws_capacity store"
  shows "session_rel store complete (if ops = [] then 0 else op_time (last ops)) (fst (sessions_after c store ops)) (snd (sessions_after c store ops)) \<and>
    length (wt_sessions (fst (sessions_after c store ops))) \<le> opened ops"
  using assms
proof (induction ops rule: rev_induct)
  case Nil
  show ?case by (simp add: sessions_after_def session_rel_def SessionTable_default_def)
next
  case (snoc op ops)
  obtain table m where s: "sessions_after c store ops = (table, m)" by force
  obtain answer table' where a: "session_step c store table op = (answer, table')" by force
  have o: "opened (ops @ [op]) = opened ops + (if is_open op then 1 else 0)" by (simp add: opened_def)
  have "sorted (map op_time ops)" "complete \<Longrightarrow> opened ops \<le> ws_capacity store" using snoc.prems(1,3) o by (auto simp: sorted_append)
  from snoc.IH [OF this(1) assms(2) this(2)] have ih:
    "session_rel store complete (if ops = [] then 0 else op_time (last ops)) table m" "length (wt_sessions table) \<le> opened ops" by (simp_all add: s)
  have "(if ops = [] then 0 else op_time (last ops)) \<le> op_time op" using snoc.prems(1) by (auto simp: sorted_append)
  moreover have "length (wt_sessions table) < ws_capacity store" if "complete" "is_open op" using ih(2) snoc.prems(3) [OF that(1)] o that(2) by simp
  ultimately have "session_rel store complete (op_time op) table' (note_answer c store m op answer) \<and>
      length (wt_sessions table') \<le> length (wt_sessions table) + (if is_open op then 1 else 0)"
    using session_step_rel [OF ih(1) _ assms(2) _ a] by blast
  then show ?case using ih(2) o by (auto simp: sessions_after_snoc session_run_step_def s a)
qed

lemma sessions_by_key:
  assumes "sorted (map op_time (ops @ [op]))" and "\<not> is_open op" and "0 < ws_capacity store"
    and "sessions_after c store ops = (table, log)" and "session_step c store table op = (answer, table')"
  shows "(answer \<longrightarrow> logged_live store (op_time op) log (derive_key c store (op_token op))) \<and>
    (opened ops \<le> ws_capacity store \<longrightarrow> answer = logged_live store (op_time op) log (derive_key c store (op_token op))) \<and>
    length (wt_sessions table) \<le> ws_capacity store"
proof -
  have "sorted (map op_time ops)" "(if ops = [] then 0 else op_time (last ops)) \<le> op_time op" using assms(1) by (auto simp: sorted_append)
  moreover from this sessions_after_rel [OF this(1) assms(3), of "opened ops \<le> ws_capacity store" c] assms(4)
  have "session_rel store (opened ops \<le> ws_capacity store) (if ops = [] then 0 else op_time (last ops)) table log" by simp
  ultimately show ?thesis using session_step_rel [OF _ _ assms(3) _ assms(5)] assms(2) session_relD(2) by blast
qed

lemma note_same:
  assumes "inj_on (derive_key c store) T" and "op_token op \<in> T" and "\<forall>token \<in> T. m (derive_key c store token) = tm token" and "token \<in> T"
  shows "note_answer c store m op answer (derive_key c store token) = note_token tm op answer token"
proof (cases "token = op_token op")
  case True
  with assms(3,4) show ?thesis by (cases answer; cases op) (auto split: option.splits)
next
  case False
  then have "derive_key c store token \<noteq> derive_key c store (op_token op)" using assms(1,2,4) by (auto dest: inj_onD)
  with False assms(2-4) show ?thesis by (cases answer; cases op) (auto split: option.splits)
qed

lemma tokens_by_key:
  assumes "inj_on (derive_key c store) T" and "op_token ` set ops \<subseteq> T"
  shows "fst (tokens_after c store ops) = fst (sessions_after c store ops) \<and>
    (\<forall>token \<in> T. snd (sessions_after c store ops) (derive_key c store token) = snd (tokens_after c store ops) token)"
  using assms(2)
proof (induction ops rule: rev_induct)
  case Nil
  show ?case by (simp add: tokens_after_def sessions_after_def)
next
  case (snoc op ops)
  obtain table m where s: "sessions_after c store ops = (table, m)" by force
  obtain tm where t: "tokens_after c store ops = (table, tm)" "\<forall>token \<in> T. m (derive_key c store token) = tm token"
    using snoc s by (cases "tokens_after c store ops") auto
  obtain answer table' where a: "session_step c store table op = (answer, table')" by force
  have "op_token op \<in> T" using snoc.prems by simp
  from note_same [OF assms(1) this t(2)] show ?case
    using s t(1) a by (auto simp: sessions_after_snoc session_run_step_def tokens_after_def token_run_step_def)
qed

text \<open>
  C36 (login sessions): after any sequence of openings, uses, checks and ends of sessions, a token is
  honoured only if a session was opened with that very token and not ended since, was used less than the
  idle timeout ago and opened less than the absolute timeout ago. While no more sessions were opened
  than the table holds it is honoured in exactly these cases, and the table never holds more than
  its capacity. The table knows tokens by their keyed hashes, so the tokens of the run must have different ones.
\<close>

theorem web_sessions_honoured:
  assumes "sorted (map op_time (ops @ [op]))" and "\<not> is_open op" and "0 < ws_capacity store"
    and "hmac_distinguishes c store (op_token ` set (ops @ [op]))"
    and "tokens_after c store ops = (table, log)" and "session_step c store table op = (answer, table')"
  shows "(answer \<longrightarrow> logged_live store (op_time op) log (op_token op)) \<and>
    (opened ops \<le> ws_capacity store \<longrightarrow> answer = logged_live store (op_time op) log (op_token op)) \<and>
    length (wt_sessions table) \<le> ws_capacity store"
proof -
  have "inj_on (derive_key c store) (op_token ` set (ops @ [op]))" using assms(4) by (simp add: hmac_distinguishes_def derive_key_def inj_on_def)
  from tokens_by_key [OF this, of ops] assms(5) obtain m where m: "sessions_after c store ops = (table, m)"
      "m (derive_key c store (op_token op)) = log (op_token op)" by (cases "sessions_after c store ops") auto
  from sessions_by_key [OF assms(1-3) m(1) assms(6)] m(2) show ?thesis by (simp add: logged_live_def)
qed

subsection \<open>Login attempts\<close>

definition recent :: "nat \<Rightarrow> nat \<Rightarrow> (nat \<times> IpAddr) list \<Rightarrow> (nat \<times> IpAddr) list" where
  "recent now window log = filter (\<lambda>(t, _). now - t < window) log"

definition times_of :: "IpAddr \<Rightarrow> (nat \<times> IpAddr) list \<Rightarrow> nat list" where
  "times_of peer log = map fst (filter (\<lambda>(_, p). p = peer) log)"

text \<open>The rule over all attempts ever admitted, and the limiter, both with the clock and the time that passes before an attempt.\<close>

definition rule_admits :: "LoginRateLimiter \<Rightarrow> nat \<Rightarrow> IpAddr \<Rightarrow> (nat \<times> IpAddr) list \<Rightarrow> bool" where
  "rule_admits limits now peer log \<longleftrightarrow>
     (let r = recent now (lr_window limits) log
      in length r < lr_global_limit limits \<and> length (times_of peer r) < lr_per_peer_limit limits \<and>
         (peer \<in> snd ` set r \<or> card (snd ` set r) \<noteq> lr_max_peers limits))"

fun rule_step :: "LoginRateLimiter \<Rightarrow> nat \<times> (nat \<times> IpAddr) list \<Rightarrow> nat \<times> IpAddr \<Rightarrow> bool \<times> nat \<times> (nat \<times> IpAddr) list" where
  "rule_step limits (t, log) (wait, peer) =
     (rule_admits limits (t + wait) peer log,
      t + wait, if rule_admits limits (t + wait) peer log then log @ [(t + wait, peer)] else log)"

fun limiter_step :: "nat \<times> LoginRateLimiter \<Rightarrow> nat \<times> IpAddr \<Rightarrow> bool \<times> nat \<times> LoginRateLimiter" where
  "limiter_step (t, self) (wait, peer) = (let (admitted, self) = limiter_admit peer (t + wait) self in (admitted, t + wait, self))"

definition limiter_holds :: "LoginRateLimiter \<Rightarrow> nat \<Rightarrow> LoginRateLimiter \<Rightarrow> (nat \<times> IpAddr) list \<Rightarrow> bool" where
  "limiter_holds limits t self log \<longleftrightarrow>
     lr_window self = lr_window limits \<and> lr_per_peer_limit self = lr_per_peer_limit limits \<and>
     lr_global_limit self = lr_global_limit limits \<and> lr_max_peers self = lr_max_peers limits \<and>
     0 < lr_window limits \<and> 0 < lr_per_peer_limit limits \<and> sorted (map fst log) \<and> (\<forall>e \<in> set log. fst e \<le> t) \<and>
     lr_global self = map fst (recent t (lr_window limits) log) \<and> hm_ok (lr_peers self) \<and>
     (\<forall>p. map_of (lr_peers self) p =
        (let times = times_of p (recent t (lr_window limits) log) in if times = [] then None else Some times))"

lemma prune_filter: "sorted xs \<Longrightarrow> prune_attempts now window xs = filter (\<lambda>t. now - t < window) xs"
proof (induction xs)
  case (Cons x xs)
  show ?case
  proof (cases "now - x \<ge> window")
    case False
    then have "\<forall>y \<in> set xs. now - y < window" using Cons.prems by fastforce
    with False show ?thesis by (simp add: prune_attempts_def)
  qed (use Cons in \<open>simp add: prune_attempts_def\<close>)
qed (simp add: prune_attempts_def)

lemma recent_later: "t \<le> now \<Longrightarrow> recent now window (recent t window log) = recent now window log"
  by (induction log) (auto simp: recent_def)

lemma times_recent:
  "map fst (recent now window log) = filter (\<lambda>t. now - t < window) (map fst log)"
  "times_of p (recent now window log) = filter (\<lambda>t. now - t < window) (times_of p log)"
  by (induction log) (auto simp: recent_def times_of_def)

lemma sorted_times: "sorted (map fst log) \<Longrightarrow> sorted (times_of p log)"
  unfolding times_of_def by (rule sorted_filter)

lemma option_eqI: "(\<And>r. x = Some r \<longleftrightarrow> y = Some r) \<Longrightarrow> x = y"
  by (cases x; cases y) auto

lemma pruned_peers:
  assumes "hm_ok peers"
  shows "hm_ok (filter (\<lambda>(_, xs). xs \<noteq> []) (map (\<lambda>(p, xs). (p, f xs)) peers))"
    "map_of (filter (\<lambda>(_, xs). xs \<noteq> []) (map (\<lambda>(p, xs). (p, f xs)) peers)) p =
       (case map_of peers p of Some xs \<Rightarrow> if f xs = [] then None else Some (f xs) | None \<Rightarrow> None)"
proof -
  let ?m = "map (\<lambda>(p, xs). (p, f xs)) peers"
  have "map fst ?m = map fst peers" by (induction peers) auto
  then have ok: "hm_ok ?m" using assms by (simp only: hm_ok_def)
  then show "hm_ok (filter (\<lambda>(_, xs). xs \<noteq> []) ?m)" by (simp add: hm_ok_def distinct_map_filter)
  have m: "map_of ?m p = map_option f (map_of peers p)" by (simp add: map_of_map)
  show "map_of (filter (\<lambda>(_, xs). xs \<noteq> []) ?m) p = (case map_of peers p of Some xs \<Rightarrow> if f xs = [] then None else Some (f xs) | None \<Rightarrow> None)"
    by (rule option_eqI, unfold map_of_live [OF ok, of "\<lambda>xs. xs \<noteq> []" p] m) (auto split: option.splits if_splits)
qed

lemma limiter_prune:
  assumes "limiter_holds limits t self log" and "t \<le> now"
  shows "limiter_holds limits now (self\<lparr>lr_global := prune_attempts now (lr_window self) (lr_global self),
      lr_peers := filter (\<lambda>(_, attempts). attempts \<noteq> []) (map (\<lambda>(p, attempts). (p, prune_attempts now (lr_window self) attempts)) (lr_peers self))\<rparr>) log"
proof -
  let ?w = "lr_window limits"
  have h: "lr_window self = ?w" "sorted (map fst log)" "\<forall>e \<in> set log. fst e \<le> t" "lr_global self = map fst (recent t ?w log)"
      "hm_ok (lr_peers self)"
      "map_of (lr_peers self) p = (let times = times_of p (recent t ?w log) in if times = [] then None else Some times)" for p
    using assms(1) by (auto simp: limiter_holds_def)
  have s: "sorted (map fst (recent t ?w log))" using h(2) unfolding recent_def by (rule sorted_filter)
  have g: "prune_attempts now ?w (lr_global self) = map fst (recent now ?w log)"
    unfolding h(4) prune_filter [OF s] times_recent(1) [symmetric] recent_later [OF assms(2)] ..
  have p: "prune_attempts now ?w (times_of p (recent t ?w log)) = times_of p (recent now ?w log)" for p
    unfolding prune_filter [OF sorted_times [OF s]] times_recent(2) [symmetric] recent_later [OF assms(2)] ..
  have "prune_attempts now ?w [] = []" by (simp add: prune_attempts_def)
  with p have e: "times_of p (recent t ?w log) = [] \<Longrightarrow> times_of p (recent now ?w log) = []" for p by metis
  have m: "map_of (filter (\<lambda>(_, attempts). attempts \<noteq> []) (map (\<lambda>(p, attempts). (p, prune_attempts now ?w attempts)) (lr_peers self))) p =
      (let times = times_of p (recent now ?w log) in if times = [] then None else Some times)" for p
    using pruned_peers(2) [OF h(5), of "prune_attempts now ?w" p] p [of p] e [of p] unfolding h(6) by (simp add: Let_def)
  show ?thesis using assms g m h(1,3) pruned_peers(1) [OF h(5), of "prune_attempts now ?w"]
    by (auto simp: limiter_holds_def)
qed

lemma peers_tracked:
  assumes "limiter_holds limits now self log"
  shows "length (lr_peers self) = card (snd ` set (recent now (lr_window limits) log))"
    "map_of (lr_peers self) p = None \<longleftrightarrow> p \<notin> snd ` set (recent now (lr_window limits) log)"
proof -
  have h: "hm_ok (lr_peers self)" "map_of (lr_peers self) p = (let times = times_of p (recent now (lr_window limits) log) in
      if times = [] then None else Some times)" for p using assms by (auto simp: limiter_holds_def)
  show m: "map_of (lr_peers self) p = None \<longleftrightarrow> p \<notin> snd ` set (recent now (lr_window limits) log)" for p
    by (force simp: h(2) Let_def times_of_def filter_empty_conv)
  have "dom (map_of (lr_peers self)) = snd ` set (recent now (lr_window limits) log)" by (rule set_eqI, simp only: domIff m not_not)
  then show "length (lr_peers self) = card (snd ` set (recent now (lr_window limits) log))" using hm_length_dom [OF h(1)] by simp
qed

lemma limiter_admit_same:
  assumes "limiter_holds limits t self log" and "t \<le> now" and "limiter_admit peer now self = (admitted, self')"
  shows "admitted = rule_admits limits now peer log \<and>
    limiter_holds limits now self' (if rule_admits limits now peer log then log @ [(now, peer)] else log)"
proof -
  define s where "s = self\<lparr>lr_global := prune_attempts now (lr_window self) (lr_global self),
      lr_peers := filter (\<lambda>(_, attempts). attempts \<noteq> []) (map (\<lambda>(p, attempts). (p, prune_attempts now (lr_window self) attempts)) (lr_peers self))\<rparr>"
  let ?r = "recent now (lr_window limits) log"
  have h: "limiter_holds limits now s log" unfolding s_def by (rule limiter_prune [OF assms(1,2)])
  have f: "lr_global_limit s = lr_global_limit limits" "lr_per_peer_limit s = lr_per_peer_limit limits" "lr_max_peers s = lr_max_peers limits"
      "0 < lr_window limits" "0 < lr_per_peer_limit limits" "lr_global s = map fst ?r"
      "map_of (lr_peers s) p = (let times = times_of p ?r in if times = [] then None else Some times)" for p
    using h by (auto simp: limiter_holds_def)
  have c: "(case map_of (lr_peers s) peer of Some attempts \<Rightarrow> length attempts \<ge> lr_per_peer_limit s | None \<Rightarrow> False) \<longleftrightarrow>
      \<not> length (times_of peer ?r) < lr_per_peer_limit limits" using f(5) by (auto simp: f(2,7) Let_def)
  have step: "(admitted, self') = (if rule_admits limits now peer log
      then (True, s\<lparr>lr_global := lr_global s @ [now], lr_peers := hm_insert peer (hm_get_or [] (lr_peers s) peer @ [now]) (lr_peers s)\<rparr>) else (False, s))"
  proof -
    define K where "K = snd ` set ?r"
    have "length (lr_peers s) = card K" "map_of (lr_peers s) peer = None \<longleftrightarrow> peer \<notin> K" using peers_tracked [OF h] by (simp_all add: K_def)
    with assms(3) f(1,3,6) show ?thesis
      unfolding limiter_admit_def s_def [symmetric] Let_def rule_admits_def c K_def [symmetric] by (auto simp: not_less split: if_splits)
  qed
  have r: "recent now (lr_window limits) (log @ [(now, peer)]) = ?r @ [(now, peer)]" using f(4) by (simp add: recent_def)
  have "limiter_holds limits now (s\<lparr>lr_global := lr_global s @ [now], lr_peers := hm_insert peer (hm_get_or [] (lr_peers s) peer @ [now]) (lr_peers s)\<rparr>)
      (log @ [(now, peer)])"
    using h assms(2) f(6,7) by (auto simp: limiter_holds_def r times_of_def hm_get_or_def Let_def sorted_append)
  with step h show ?thesis by auto
qed

interpretation login_limiter: answering_refinement limiter_step "rule_step limits"
    "\<lambda>(t, self) (t', log). t = t' \<and> limiter_holds limits t self log" for limits
proof (unfold_locales, clarify)
  fix t self log wait peer
  assume h: "limiter_holds limits t self log"
  obtain admitted self' where a: "limiter_admit peer (t + wait) self = (admitted, self')" by force
  from limiter_admit_same [OF h _ a]
  show "fst (limiter_step (t, self) (wait, peer)) = fst (rule_step limits (t, log) (wait, peer)) \<and>
    (case snd (limiter_step (t, self) (wait, peer)) of (t, self) \<Rightarrow> \<lambda>(t', log). t = t' \<and> limiter_holds limits t self log)
      (snd (rule_step limits (t, log) (wait, peer)))"
    by (simp add: a)
qed

text \<open>
  C37 (login attempts): whatever attempts are made, the limiter with its pruned queues and its table of
  peers admits exactly those that a rule over all admitted attempts allows: fewer than the global
  limit in the last window, fewer than the limit of the peer, and no more peers than are tracked.
\<close>

theorem login_limiter_exact:
  assumes "0 < lr_window self" and "0 < lr_per_peer_limit self" and "lr_global self = []" and "lr_peers self = []"
  shows "fst (answers limiter_step (t, self) ops) = fst (answers (rule_step self) (t, []) ops)"
proof -
  have "limiter_holds self t self []" using assms by (simp add: limiter_holds_def recent_def times_of_def)
  then show ?thesis using login_limiter.answers_same [of self "(t, self)" "(t, [])" ops] by simp
qed

fun attempts :: "nat \<Rightarrow> (nat \<times> IpAddr) list \<Rightarrow> bool list \<Rightarrow> (nat \<times> IpAddr) list" where
  "attempts t ((wait, peer) # ops) (admitted # rs) = (if admitted then [(t + wait, peer)] else []) @ attempts (t + wait) ops rs"
| "attempts t _ _ = []"

definition within :: "nat \<Rightarrow> nat \<Rightarrow> (nat \<times> IpAddr) list \<Rightarrow> (nat \<times> IpAddr) list" where
  "within since window log = filter (\<lambda>(t, _). since \<le> t \<and> t < since + window) log"

definition rate_ok :: "LoginRateLimiter \<Rightarrow> (nat \<times> IpAddr) list \<Rightarrow> bool" where
  "rate_ok limits log \<longleftrightarrow> (\<forall>since. length (within since (lr_window limits) log) \<le> lr_global_limit limits \<and>
     (\<forall>peer. length (times_of peer (within since (lr_window limits) log)) \<le> lr_per_peer_limit limits))"

lemma within_recent:
  assumes "\<forall>e \<in> set log. fst e \<le> now" and "now < since + window"
  shows "length (within since window log) \<le> length (recent now window log)"
    "length (times_of peer (within since window log)) \<le> length (times_of peer (recent now window log))"
  using assms by (induction log) (auto simp: within_def recent_def times_of_def)

lemma rate_ok_admit:
  assumes "rate_ok limits log" and "\<forall>e \<in> set log. fst e \<le> now" and "rule_admits limits now peer log"
  shows "rate_ok limits (log @ [(now, peer)])"
proof -
  have "length (within since (lr_window limits) (log @ [(now, peer)])) \<le> lr_global_limit limits \<and>
      length (times_of p (within since (lr_window limits) (log @ [(now, peer)]))) \<le> lr_per_peer_limit limits" for since p
  proof (cases "now < since + lr_window limits")
    case True
    have "within since (lr_window limits) (log @ [(now, peer)]) = within since (lr_window limits) log @ (if since \<le> now then [(now, peer)] else [])"
      using True by (simp add: within_def)
    moreover have "length (within since (lr_window limits) log) < lr_global_limit limits"
      "length (times_of peer (within since (lr_window limits) log)) < lr_per_peer_limit limits"
      using within_recent(1) [OF assms(2) True] within_recent(2) [OF assms(2) True, of peer] assms(3) by (auto simp: rule_admits_def Let_def)
    ultimately show ?thesis using assms(1) by (cases "p = peer") (auto simp: times_of_def rate_ok_def)
  next
    case False
    then have "within since (lr_window limits) (log @ [(now, peer)]) = within since (lr_window limits) log" by (simp add: within_def)
    then show ?thesis using assms(1) by (simp add: rate_ok_def)
  qed
  then show ?thesis by (simp add: rate_ok_def)
qed

lemma rule_log:
  assumes "rate_ok limits log" and "\<forall>e \<in> set log. fst e \<le> t"
  shows "rate_ok limits (log @ attempts t ops (fst (answers (rule_step limits) (t, log) ops)))"
  using assms
proof (induction ops arbitrary: t log)
  case (Cons op ops)
  obtain wait peer where op: "op = (wait, peer)" by (cases op)
  have old: "\<forall>e \<in> set log. fst e \<le> t + wait" using Cons.prems(2) by fastforce
  show ?case
  proof (cases "rule_admits limits (t + wait) peer log")
    case True
    from Cons.IH [OF rate_ok_admit [OF Cons.prems(1) old True], of "t + wait"] old True
    show ?thesis by (simp add: op split_beta Let_def)
  next
    case False
    from Cons.IH [OF Cons.prems(1) old] False show ?thesis by (simp add: op split_beta Let_def)
  qed
qed simp

text \<open>
  Login rate: in any span of time as long as the window, no more attempts are admitted than the
  global limit, and no more from one peer than the limit of a peer.
\<close>

theorem login_rate_bounded:
  assumes "0 < lr_window self" and "0 < lr_per_peer_limit self" and "lr_global self = []" and "lr_peers self = []"
    and "admitted = within since (lr_window self) (attempts t ops (fst (answers limiter_step (t, self) ops)))"
  shows "length admitted \<le> lr_global_limit self \<and> length (times_of peer admitted) \<le> lr_per_peer_limit self"
proof -
  have "limiter_holds self t self []" using assms by (simp add: limiter_holds_def recent_def times_of_def)
  then have "fst (answers limiter_step (t, self) ops) = fst (answers (rule_step self) (t, []) ops)"
    using login_limiter.answers_same [of self "(t, self)" "(t, [])" ops] by simp
  moreover have "rate_ok self []" by (simp add: rate_ok_def within_def times_of_def)
  ultimately show ?thesis using rule_log [of self "[]" t ops] assms(5) by (simp add: rate_ok_def)
qed

subsection \<open>Samples\<close>

definition brief_limiter :: LoginRateLimiter where
  "brief_limiter = \<lparr>lr_global = [], lr_peers = [], lr_window = 60, lr_per_peer_limit = 2, lr_global_limit = 3, lr_max_peers = 2\<rparr>"

definition brief_attempts :: "(nat \<times> IpAddr) list" where
  "brief_attempts = [(0, IpV4 [1]), (5, IpV4 [1]), (5, IpV4 [1]), (5, IpV4 [2]), (5, IpV4 [3]), (45, IpV4 [3])]"

lemma brief_limiter_ok:
  "0 < lr_window brief_limiter" "0 < lr_per_peer_limit brief_limiter" "lr_global brief_limiter = []" "lr_peers brief_limiter = []"
  by (simp_all add: brief_limiter_def)

theorem login_limiter_exact_witness:
  "fst (answers limiter_step (7, brief_limiter) brief_attempts) = [True, True, False, True, False, True] \<and>
   fst (answers (rule_step brief_limiter) (7, []) brief_attempts) = [True, True, False, True, False, True]"
proof -
  have "fst (answers limiter_step (7, brief_limiter) brief_attempts) = [True, True, False, True, False, True]" by code_simp
  with login_limiter_exact [OF brief_limiter_ok, of 7 brief_attempts] show ?thesis by simp
qed

theorem login_rate_bounded_witness:
  "length (within 7 60 (attempts 7 brief_attempts (fst (answers limiter_step (7, brief_limiter) brief_attempts)))) \<le> 3"
  using login_rate_bounded [OF brief_limiter_ok refl, of 7 7 brief_attempts] by (simp add: brief_limiter_def)

definition brief_store :: SessionStore where
  "brief_store = \<lparr>ws_hmac_key = [], ws_idle_timeout = 30, ws_absolute_timeout = 50, ws_capacity = 2\<rparr>"

definition brief_ops :: "session_op list" where
  "brief_ops = [OpenSession 1 [1], OpenSession 2 [2], UseSession 20 [1], EndSession 21 [2]]"

theorem web_sessions_honoured_witness:
  "fst (session_step toy_web brief_store (fst (tokens_after toy_web brief_store brief_ops)) (UseSession 49 [1])) \<and>
   \<not> fst (session_step toy_web brief_store (fst (tokens_after toy_web brief_store brief_ops)) (UseSession 49 [2])) \<and>
   logged_live brief_store 49 (snd (tokens_after toy_web brief_store brief_ops)) [1] \<and>
   \<not> logged_live brief_store 49 (snd (tokens_after toy_web brief_store brief_ops)) [2]"
proof -
  have h: "hmac_sha256 toy_web k m = take 32 (rev m @ k @ replicate 32 0)" for k m by (simp add: toy_web_def primitives.defs)
  note eval = brief_ops_def brief_store_def tokens_after_def token_run_step_def SessionTable_default_def issue_round_def authenticate_def
    revoke_def remove_expired_def record_live_def derive_key_def touch_session_def hm_modify_def hm_remove_def hm_insert_def Let_def
  have d: "hmac_distinguishes toy_web brief_store (op_token ` set (brief_ops @ [op]))" if "op_token op \<in> {[1], [2]}" for op
    using that h by (auto simp: hmac_distinguishes_def inj_on_def brief_ops_def brief_store_def)
  have u: "fst (session_step toy_web brief_store (fst (tokens_after toy_web brief_store brief_ops)) (UseSession 49 [1]))"
      "\<not> fst (session_step toy_web brief_store (fst (tokens_after toy_web brief_store brief_ops)) (UseSession 49 [2]))"
    using h by (simp_all add: eval)
  have "fst (session_step toy_web brief_store (fst (tokens_after toy_web brief_store brief_ops)) op) =
      logged_live brief_store 49 (snd (tokens_after toy_web brief_store brief_ops)) (op_token op)"
    if "op = UseSession 49 [1] \<or> op = UseSession 49 [2]" for op
    using web_sessions_honoured [of brief_ops op brief_store toy_web, OF _ _ _ d surjective_pairing surjective_pairing] that
    by (auto simp: brief_ops_def brief_store_def is_open_def opened_def)
  from this [of "UseSession 49 [1]"] this [of "UseSession 49 [2]"] u show ?thesis by simp
qed

end
