(* ===== verification/Web_Handlers.thy ===== *)
theory Web_Handlers
  imports Web_Auth State_Machine
begin

text \<open>
  The request handlers of the dashboard (\<open>rustgos/src/web/mod.rs\<close>, \<open>security.rs\<close> and the query parser
  of \<open>api.rs\<close>): login, logout, the guard of the management writes, the boundary of the API, the
  security headers of every response, and the ledger that keeps repeated operations from running
  twice. HTTP itself (axum, hyper, the router) is not modelled: a request is its headers, its path and
  method, and the outcome of reading its body is an input, as are the clock and random draws. A JSON
  error body is its code and message. The theorems: a successful login yields a cookie and a token
  that open the guarded writes until the session ends, nothing opens them after logout, an operation
  in flight never runs a second time, and percent encoding is read back.
\<close>

subsection \<open>Requests and responses\<close>

text \<open>
  The header maps belong to the crate \<open>http\<close>. The headers of a request are an input: for every name what
  \<open>get_all\<close> yields, in order, and of each value the text that \<open>to_str\<close> gives, or \<open>None\<close> when it refuses the value.
  The headers of a response are the map the handlers insert into.
\<close>

type_synonym HeaderMap = "string \<Rightarrow> string option list"

datatype response_body = PlainBody string | JsonErrorBody string string | OtherBody

record Response =
  rp_status :: nat
  rp_headers :: "string \<rightharpoonup> string"
  rp_body :: response_body

abbreviation insert_header :: "string \<Rightarrow> string \<Rightarrow> Response \<Rightarrow> Response" where
  "insert_header name text response \<equiv> response\<lparr>rp_headers := (rp_headers response)(name \<mapsto> text)\<rparr>"

definition plain_response :: "nat \<Rightarrow> string \<Rightarrow> Response" where
  "plain_response status text =
     \<lparr>rp_status = status, rp_headers = [''content-type'' \<mapsto> ''text/plain; charset=utf-8''], rp_body = PlainBody (text @ NEWLINE)\<rparr>"

definition error_response :: "nat \<Rightarrow> string \<Rightarrow> string \<Rightarrow> Response" where
  "error_response status code message =
     \<lparr>rp_status = status, rp_headers = [''content-type'' \<mapsto> ''application/json; charset=utf-8''], rp_body = JsonErrorBody code message\<rparr>"

definition authentication_failed :: Response where "authentication_failed = plain_response 401 ''authentication failed''"
definition rejected_request :: Response where "rejected_request = plain_response 400 ''request rejected''"
definition internal_error :: Response where "internal_error = plain_response 500 ''internal error''"
definition request_timed_out :: Response where "request_timed_out = plain_response 408 ''request timed out''"
definition healthz :: Response where "healthz = plain_response 200 ''ok''"

definition authentication_required :: Response where
  "authentication_required = error_response 401 ''authentication_required'' ''authentication required''"

definition csrf_rejected :: Response where
  "csrf_rejected = error_response 403 ''csrf_rejected'' ''request origin or CSRF token is invalid''"

definition not_found :: Response where
  "not_found = error_response 404 ''not_found'' ''resource was not found''"

definition method_not_allowed_response :: Response where
  "method_not_allowed_response =
     insert_header ''allow'' ''GET, HEAD'' (error_response 405 ''method_not_allowed'' ''only GET and HEAD are allowed'')"

subsection \<open>Headers\<close>

definition single_header :: "HeaderMap \<Rightarrow> string \<Rightarrow> nat \<Rightarrow> string option" where
  "single_header headers name max_bytes =
     (case headers name of
        [Some text] \<Rightarrow> if length text \<le> max_bytes then Some text else None
      | _ \<Rightarrow> None)"

definition single_cookie_header :: "HeaderMap \<Rightarrow> string option" where
  "single_cookie_header headers = single_header headers ''cookie'' 1024"

definition MAX_ORIGIN_HEADER_BYTES :: nat where "MAX_ORIGIN_HEADER_BYTES = 256"

definition same_origin :: "(string \<Rightarrow> Url option) \<Rightarrow> HeaderMap \<Rightarrow> WebOrigin \<Rightarrow> bool" where
  "same_origin url_parse headers expected =
     (case single_header headers ''host'' MAX_WEB_AUTHORITY_BYTES of
        None \<Rightarrow> False
      | Some host \<Rightarrow>
          if \<not> matches_authority url_parse expected host then False
          else
            (case single_header headers ''origin'' MAX_ORIGIN_HEADER_BYTES of
               None \<Rightarrow> False
             | Some origin \<Rightarrow> WebOrigin_parse url_parse origin = Inr expected))"

definition has_media_type :: "string \<Rightarrow> HeaderMap \<Rightarrow> bool" where
  "has_media_type media_type headers =
     (case headers ''content-type'' of
        [Some text] \<Rightarrow> eq_ignore_ascii_case (trim (hd (split_on (CHR '';'') text))) media_type
      | _ \<Rightarrow> False)"

definition is_form_request :: "HeaderMap \<Rightarrow> bool" where
  "is_form_request = has_media_type ''application/x-www-form-urlencoded''"

definition is_json_request :: "HeaderMap \<Rightarrow> bool" where
  "is_json_request = has_media_type ''application/json''"

definition parse_usize :: "string \<Rightarrow> nat option" where
  "parse_usize = parse_radix 10 (2 ^ 64 - 1)"

definition content_length_above :: "nat \<Rightarrow> HeaderMap \<Rightarrow> bool" where
  "content_length_above bound headers =
     (case headers ''content-length'' of
        [] \<Rightarrow> False
      | first # _ \<Rightarrow>
          (case Option.bind first parse_usize of Some len \<Rightarrow> len > bound | None \<Rightarrow> False))"

definition requires_no_store :: "string \<Rightarrow> bool" where
  "requires_no_store path \<longleftrightarrow> path \<in> {''/'', ''/login'', ''/logout'', ''/api''} \<or> starts_with ''/api/'' path"

definition CONTENT_SECURITY_POLICY_VALUE :: string where
  "CONTENT_SECURITY_POLICY_VALUE = (let q = char_of (39 :: nat) in
     ''default-src '' @ [q] @ ''self'' @ [q] @ ''; script-src '' @ [q] @ ''self'' @ [q] @ ''; object-src '' @ [q] @ ''none'' @ [q] @
     ''; base-uri '' @ [q] @ ''none'' @ [q] @ ''; frame-ancestors '' @ [q] @ ''none'' @ [q] @ ''; form-action '' @ [q] @ ''self'' @ [q])"

definition apply_response_security_headers :: "string \<Rightarrow> Response \<Rightarrow> Response" where
  "apply_response_security_headers path response =
     (let no_store = requires_no_store path;
          status = rp_status response;
          response = insert_header ''content-security-policy'' CONTENT_SECURITY_POLICY_VALUE response;
          response = insert_header ''x-content-type-options'' ''nosniff'' response;
          response = insert_header ''referrer-policy'' ''no-referrer'' response;
          response = insert_header ''x-frame-options'' ''DENY'' response;
          response = (if no_store then insert_header ''cache-control'' ''no-store'' response else response)
      in if rp_headers response ''content-type'' = None \<and> status \<noteq> 204
         then insert_header ''content-type'' ''text/plain; charset=utf-8'' response else response)"

subsection \<open>Cookies\<close>

definition web_cookie_value :: "string \<Rightarrow> bool \<Rightarrow> string \<Rightarrow> string" where
  "web_cookie_value value secure lifetime =
     SESSION_COOKIE_NAME @ ''='' @ value @ ''; HttpOnly; SameSite=Strict; Path=/; '' @ lifetime @ (if secure then ''; Secure'' else [])"

definition session_cookie :: "string \<Rightarrow> bool \<Rightarrow> string" where
  "session_cookie token secure = web_cookie_value token secure ''Max-Age=28800''"

definition expired_session_cookie :: "bool \<Rightarrow> string" where
  "expired_session_cookie secure = web_cookie_value [] secure ''Max-Age=0''"

subsection \<open>Handlers\<close>

definition MAX_LOGIN_BODY_BYTES :: nat where "MAX_LOGIN_BODY_BYTES = 1024"
definition MAX_LOGOUT_BODY_BYTES :: nat where "MAX_LOGOUT_BODY_BYTES = 64"
definition MAX_USERNAME_BYTES :: nat where "MAX_USERNAME_BYTES = 64"
definition MAX_PASSWORD_BYTES :: nat where "MAX_PASSWORD_BYTES = 256"

definition CSRF_HEADER_NAME :: string where "CSRF_HEADER_NAME = ''x-rustgo-csrf-token''"

record LoginForm =
  lf_username :: string
  lf_password :: string

text \<open>What became of a request body within \<open>body_read_timeout\<close>.\<close>

datatype 'x body_outcome = BodyRead 'x | BodyRejected | BodyTimeout

record WebState =
  wb_authentication :: AuthenticationState
  wb_expected_origin :: WebOrigin
  wb_cookie_secure :: bool

text \<open>The three instants are the readings of the clock in \<open>admit_login\<close>, \<open>issue_session\<close> and \<open>csrf_for_cookie\<close>.\<close>

definition login ::
  "'a web_primitives_scheme \<Rightarrow> (string \<Rightarrow> Url option) \<Rightarrow> nat \<times> nat \<times> nat \<Rightarrow> bytes option list \<Rightarrow> IpAddr \<Rightarrow> HeaderMap
     \<Rightarrow> LoginForm body_outcome \<Rightarrow> WebState \<Rightarrow> Response \<times> WebState" where
  "login c url_parse = (\<lambda>(t1, t2, t3) draws peer headers body state.
     if \<not> same_origin url_parse headers (wb_expected_origin state) \<or> \<not> is_form_request headers \<or>
       content_length_above MAX_LOGIN_BODY_BYTES headers
     then (rejected_request, state)
     else case body of
       BodyRejected \<Rightarrow> (rejected_request, state)
     | BodyTimeout \<Rightarrow> (request_timed_out, state)
     | BodyRead form \<Rightarrow>
         let (admitted, authentication) = admit_login peer t1 (wb_authentication state);
             state = state\<lparr>wb_authentication := authentication\<rparr>
         in if \<not> admitted then (authentication_failed, state)
            else
              let lengths_valid = (length (lf_username form) \<le> MAX_USERNAME_BYTES \<and> length (lf_password form) \<le> MAX_PASSWORD_BYTES)
              in if \<not> credentials_match c authentication (lf_username form) (lf_password form) \<or> \<not> lengths_valid
                 then (authentication_failed, state)
                 else
                   (case issue_session c t2 draws authentication of
                      (Inl _, authentication) \<Rightarrow> (internal_error, state\<lparr>wb_authentication := authentication\<rparr>)
                    | (Inr token, authentication) \<Rightarrow>
                        (case csrf_for_cookie c t3 (Some (SESSION_COOKIE_NAME @ ''='' @ token)) authentication of
                           (None, authentication) \<Rightarrow> (internal_error, state\<lparr>wb_authentication := authentication\<rparr>)
                         | (Some csrf, authentication) \<Rightarrow>
                             (insert_header CSRF_HEADER_NAME csrf
                                (insert_header ''set-cookie'' (session_cookie token (wb_cookie_secure state)) (plain_response 200 ''ok'')),
                              state\<lparr>wb_authentication := authentication\<rparr>))))"

definition guarded_write :: "string \<Rightarrow> string \<Rightarrow> bool" where
  "guarded_write request_method path \<longleftrightarrow> request_method = ''POST'' \<and>
     (path = ''/api/v1/clients'' \<or> starts_with ''/api/v1/clients/'' path \<or> starts_with ''/api/v1/registration-requests/'' path)"

text \<open>\<open>protect_management_writes\<close>: \<open>None\<close> passes the request on; the instants are those of the two checks.\<close>

definition protect_management_writes ::
  "'a web_primitives_scheme \<Rightarrow> (string \<Rightarrow> Url option) \<Rightarrow> nat \<times> nat \<Rightarrow> string \<Rightarrow> string \<Rightarrow> HeaderMap \<Rightarrow> WebState \<Rightarrow> Response option \<times> WebState" where
  "protect_management_writes c url_parse = (\<lambda>(t1, t2) request_method path headers state.
     if \<not> guarded_write request_method path then (None, state)
     else
       let cookie = single_cookie_header headers;
           (authenticated, authentication) = authenticate_cookie c t1 cookie (wb_authentication state);
           state = state\<lparr>wb_authentication := authentication\<rparr>
       in if \<not> authenticated then (Some authentication_required, state)
          else
            let csrf_values = headers CSRF_HEADER_NAME;
                csrf = (case csrf_values of first # _ \<Rightarrow> first | [] \<Rightarrow> None)
            in if length csrf_values > 1 \<or> \<not> same_origin url_parse headers (wb_expected_origin state) \<or> \<not> is_json_request headers
               then (Some csrf_rejected, state)
               else
                 (case csrf of
                    None \<Rightarrow> (Some csrf_rejected, state)
                  | Some supplied \<Rightarrow>
                      let (valid, authentication) = validate_csrf c t2 cookie supplied (wb_authentication state);
                          state = state\<lparr>wb_authentication := authentication\<rparr>
                      in if valid then (None, state) else (Some csrf_rejected, state)))"

definition logout ::
  "'a web_primitives_scheme \<Rightarrow> (string \<Rightarrow> Url option) \<Rightarrow> nat \<Rightarrow> HeaderMap \<Rightarrow> bytes body_outcome \<Rightarrow> WebState \<Rightarrow> Response \<times> WebState" where
  "logout c url_parse now headers body state =
     (if \<not> same_origin url_parse headers (wb_expected_origin state) \<or> \<not> is_form_request headers \<or>
        content_length_above MAX_LOGOUT_BODY_BYTES headers
      then (rejected_request, state)
      else
        let cookie = single_cookie_header headers
        in case body of
             BodyRejected \<Rightarrow> (rejected_request, state)
           | BodyTimeout \<Rightarrow> (request_timed_out, state)
           | BodyRead logout_body \<Rightarrow>
               if logout_body \<noteq> [] then (rejected_request, state)
               else
                 let (revoked, authentication) = revoke_cookie c now cookie (wb_authentication state);
                     state = state\<lparr>wb_authentication := authentication\<rparr>
                 in if \<not> revoked then (authentication_failed, state)
                    else (insert_header ''set-cookie'' (expired_session_cookie (wb_cookie_secure state)) (plain_response 200 ''ok''), state))"

definition api_boundary :: "'a web_primitives_scheme \<Rightarrow> nat \<Rightarrow> string \<Rightarrow> HeaderMap \<Rightarrow> WebState \<Rightarrow> Response \<times> WebState" where
  "api_boundary c now request_method headers state =
     (let (authenticated, authentication) = authenticate_cookie c now (single_cookie_header headers) (wb_authentication state);
          state = state\<lparr>wb_authentication := authentication\<rparr>
      in if \<not> authenticated then (authentication_required, state)
         else if request_method \<noteq> ''GET'' \<and> request_method \<noteq> ''HEAD'' then (method_not_allowed_response, state)
         else (not_found, state))"

definition protected_not_found :: "'a web_primitives_scheme \<Rightarrow> nat \<Rightarrow> HeaderMap \<Rightarrow> WebState \<Rightarrow> Response \<times> WebState" where
  "protected_not_found c now headers state =
     (let (authenticated, authentication) = authenticate_cookie c now (single_cookie_header headers) (wb_authentication state);
          state = state\<lparr>wb_authentication := authentication\<rparr>
      in if \<not> authenticated then (authentication_failed, state) else (plain_response 404 ''not found'', state))"

subsection \<open>The ledger of operations\<close>

datatype OperationOutcome = OutcomePending | OutcomeSecret | OutcomeResponse u16 bytes

record OperationRecord =
  opr_key :: bytes
  opr_request :: bytes
  opr_outcome :: OperationOutcome

datatype OperationAdmission =
    OperationStarted bytes
  | SecretUnavailable
  | OperationReplay u16 bytes
  | InFlight
  | OperationConflict
  | OperationUnavailable

definition operation_key :: "'a web_primitives_scheme \<Rightarrow> string \<Rightarrow> string \<Rightarrow> string \<Rightarrow> bytes" where
  "operation_key c session endpoint operation_id =
     sha256 c (as_bytes session @ [0] @ as_bytes endpoint @ [0] @ as_bytes operation_id)"

fun remove_first :: "('x \<Rightarrow> bool) \<Rightarrow> 'x list \<Rightarrow> 'x list" where
  "remove_first P [] = []"
| "remove_first P (x # xs) = (if P x then xs else x # remove_first P xs)"

definition ledger_begin ::
  "'a web_primitives_scheme \<Rightarrow> nat \<Rightarrow> string \<Rightarrow> string \<Rightarrow> string \<Rightarrow> bytes \<Rightarrow> OperationRecord list \<Rightarrow> OperationAdmission \<times> OperationRecord list" where
  "ledger_begin c capacity session endpoint operation_id request_bytes records =
     (let key = operation_key c session endpoint operation_id;
          request = sha256 c request_bytes
      in case find (\<lambda>r. opr_key r = key) records of
           Some r \<Rightarrow>
             (if opr_request r \<noteq> request then OperationConflict
              else case opr_outcome r of
                OutcomePending \<Rightarrow> InFlight
              | OutcomeSecret \<Rightarrow> SecretUnavailable
              | OutcomeResponse status body \<Rightarrow> OperationReplay status body, records)
         | None \<Rightarrow>
             if length records = capacity \<and> list_all (\<lambda>r. opr_outcome r = OutcomePending) records then (OperationUnavailable, records)
             else
               let records = (if length records = capacity then remove_first (\<lambda>r. opr_outcome r \<noteq> OutcomePending) records else records)
               in (OperationStarted key, records @ [\<lparr>opr_key = key, opr_request = request, opr_outcome = OutcomePending\<rparr>]))"

fun update_first :: "('x \<Rightarrow> bool) \<Rightarrow> ('x \<Rightarrow> 'x) \<Rightarrow> 'x list \<Rightarrow> 'x list" where
  "update_first P f [] = []"
| "update_first P f (x # xs) = (if P x then f x # xs else x # update_first P f xs)"

definition ledger_finish :: "bytes \<Rightarrow> bool \<Rightarrow> OperationRecord list \<Rightarrow> OperationRecord list" where
  "ledger_finish key succeeded records =
     (if succeeded then update_first (\<lambda>r. opr_key r = key) (\<lambda>r. r\<lparr>opr_outcome := OutcomeSecret\<rparr>) records
      else remove_first (\<lambda>r. opr_key r = key) records)"

definition ledger_finish_response :: "bytes \<Rightarrow> u16 \<Rightarrow> bytes \<Rightarrow> OperationRecord list \<Rightarrow> OperationRecord list" where
  "ledger_finish_response key status body records =
     update_first (\<lambda>r. opr_key r = key) (\<lambda>r. r\<lparr>opr_outcome := OutcomeResponse status body\<rparr>) records"

subsection \<open>Queries\<close>

definition MAX_QUERY_BYTES :: nat where "MAX_QUERY_BYTES = 2048"
definition MAX_QUERY_PAIRS :: nat where "MAX_QUERY_PAIRS = 12"
definition MAX_QUERY_KEY_BYTES :: nat where "MAX_QUERY_KEY_BYTES = 64"
definition MAX_QUERY_VALUE_BYTES :: nat where "MAX_QUERY_VALUE_BYTES = 384"

text \<open>The loop of \<open>percent_decode\<close> with the number of bytes that may still be decoded.\<close>

fun percent_bytes :: "bool \<Rightarrow> nat \<Rightarrow> string \<Rightarrow> bytes option" where
  "percent_bytes plus_as_space left [] = Some []"
| "percent_bytes plus_as_space left (ch # rest) =
     (if ch = CHR ''%'' then
        (case rest of
           high # low # rest' \<Rightarrow>
             (case (to_digit 16 high, to_digit 16 low) of
                (Some h, Some l) \<Rightarrow>
                  if left = 0 then None
                  else map_option ((#) (word_of_nat (h * 16 + l))) (percent_bytes plus_as_space (left - 1) rest')
              | _ \<Rightarrow> None)
         | _ \<Rightarrow> None)
      else if ch = CHR ''+'' \<and> plus_as_space then
        (if left = 0 then None else map_option ((#) 32) (percent_bytes plus_as_space (left - 1) rest))
      else if (of_char ch :: nat) < 128 then
        (if left = 0 then None else map_option ((#) (byte_of_char ch)) (percent_bytes plus_as_space (left - 1) rest))
      else None)"

definition percent_decode :: "string \<Rightarrow> bool \<Rightarrow> nat \<Rightarrow> string option" where
  "percent_decode raw plus_as_space maximum_bytes =
     (if length raw > maximum_bytes * 3 then None
      else
        Option.bind (percent_bytes plus_as_space maximum_bytes raw) (\<lambda>decoded.
        let text = map char_of_byte decoded in if utf8_valid text then Some text else None))"

fun query_pairs :: "nat \<Rightarrow> string list \<Rightarrow> string list \<Rightarrow> (string, string) hashmap \<Rightarrow> (string, string) hashmap option" where
  "query_pairs index allowed [] parsed = Some parsed"
| "query_pairs index allowed (pair # pairs) parsed =
     (if index \<ge> MAX_QUERY_PAIRS \<or> pair = [] then None
      else
        let (raw_key, raw_value) = (case split_once (CHR ''='') pair of Some kv \<Rightarrow> kv | None \<Rightarrow> (pair, []))
        in Option.bind (percent_decode raw_key True MAX_QUERY_KEY_BYTES) (\<lambda>key.
           Option.bind (percent_decode raw_value True MAX_QUERY_VALUE_BYTES) (\<lambda>value.
           if key \<notin> set allowed \<or> map_of parsed key \<noteq> None then None
           else query_pairs (Suc index) allowed pairs (hm_insert key value parsed))))"

definition parse_query :: "string option \<Rightarrow> string list \<Rightarrow> (string, string) hashmap option" where
  "parse_query raw_query allowed =
     (let raw = (case raw_query of Some r \<Rightarrow> r | None \<Rightarrow> [])
      in if length raw > MAX_QUERY_BYTES then None
         else if raw = [] then Some []
         else query_pairs 0 allowed (split_on (CHR ''&'') raw) [])"

definition MAX_AUTHENTICATED_CLIENT_NAME_BYTES :: nat where "MAX_AUTHENTICATED_CLIENT_NAME_BYTES = 128"

definition client_name_from_path :: "string \<Rightarrow> string option" where
  "client_name_from_path path =
     Option.bind (strip_prefix ''/api/v1/clients/'' path) (\<lambda>raw.
     if raw = [] \<or> CHR ''/'' \<in> set raw then None
     else
       Option.bind (percent_decode raw False MAX_AUTHENTICATED_CLIENT_NAME_BYTES) (\<lambda>name.
       if is_ok (validate_client_name name) then Some name else None))"

definition bounded_limit :: "string option \<Rightarrow> nat \<Rightarrow> nat option" where
  "bounded_limit given maximum =
     (case given of
        Some text \<Rightarrow> Option.bind (parse_usize text) (\<lambda>limit. if 1 \<le> limit \<and> limit \<le> maximum then Some limit else None)
      | None \<Rightarrow> Some maximum)"

subsection \<open>Cookies are read back\<close>

definition printable :: "string \<Rightarrow> bool" where
  "printable s \<longleftrightarrow> (\<forall>ch \<in> set s. 33 \<le> (of_char ch :: nat) \<and> of_char ch \<le> (126 :: nat))"

lemma skip_printable: "printable s \<Longrightarrow> skip_white (map of_char s) = None"
  by (cases s) (auto simp: printable_def split: list.splits)

lemma trim_printable:
  assumes "printable s"
  shows "trim s = s"
proof -
  have blank: "\<not> is_blank (x # xs)" if "printable (x # xs)" for x xs
    using skip_printable [OF that] by (simp add: is_blank_def blank_codes.simps)
  have "trim_end xs = xs" if "printable xs" for xs
    using that
  proof (induction xs)
    case (Cons x xs)
    then show ?case using blank [of x xs] by (simp add: printable_def)
  qed simp
  moreover have "trim_start s = s" using skip_printable [OF assms] by (simp add: trim_start.simps)
  ultimately show ?thesis using assms by (simp add: trim_def)
qed

lemma url_alphabet_printable: "set s \<subseteq> set url_alphabet \<Longrightarrow> printable s"
proof -
  assume "set s \<subseteq> set url_alphabet"
  moreover have "\<forall>ch \<in> set url_alphabet. 33 \<le> (of_char ch :: nat) \<and> of_char ch \<le> (126 :: nat)" by (simp add: url_alphabet_def)
  ultimately show ?thesis unfolding printable_def by blast
qed

lemma split_on_absent: "c \<notin> set s \<Longrightarrow> split_on c s = [s]"
  by (induction s) auto

definition session_cookie_text :: "string \<Rightarrow> string" where
  "session_cookie_text token = SESSION_COOKIE_NAME @ ''='' @ token"

lemma cookie_parsed:
  assumes "url_base64_faithful c" and "length token = 32"
  shows "parse_session_cookie c (session_cookie_text (url_encode c token)) = Some token"
proof -
  let ?e = "url_encode c token"
  have e: "set ?e \<subseteq> set url_alphabet" "length ?e = 43" "url_decode c ?e = Some token"
    using assms by (simp_all add: url_base64_faithful_def)
  have "printable (session_cookie_text ?e)"
    using url_alphabet_printable [OF e(1)] by (auto simp: printable_def session_cookie_text_def SESSION_COOKIE_NAME_def)
  then have t: "trim (session_cookie_text ?e) = session_cookie_text ?e" by (rule trim_printable)
  have "CHR '';'' \<notin> set (session_cookie_text ?e)"
    using e(1) url_alphabet_marks(3) by (auto simp: session_cookie_text_def SESSION_COOKIE_NAME_def)
  then have s: "split_on (CHR '';'') (session_cookie_text ?e) = [session_cookie_text ?e]" by (rule split_on_absent)
  have "CHR ''='' \<notin> set SESSION_COOKIE_NAME" by (simp add: SESSION_COOKIE_NAME_def)
  from split_once_append [OF this, of ?e] have "split_once (CHR ''='') (session_cookie_text ?e) = Some (SESSION_COOKIE_NAME, ?e)"
    by (simp add: session_cookie_text_def)
  then show ?thesis using s t e assms(2)
    by (simp add: parse_session_cookie_def MAX_COOKIE_HEADER_BYTES_def SESSION_TOKEN_BYTES_def session_cookie_text_def SESSION_COOKIE_NAME_def)
qed

subsection \<open>One session\<close>

definition holds_session :: "SessionStore \<Rightarrow> bytes \<Rightarrow> nat \<Rightarrow> nat \<Rightarrow> SessionTable \<Rightarrow> bool" where
  "holds_session store key created used table \<longleftrightarrow> hm_ok (wt_sessions table) \<and>
     (\<exists>r. map_of (wt_sessions table) key = Some r \<and> sr_created r = created \<and> sr_last_activity r = used)"

lemma hm_ok_expired: "hm_ok (wt_sessions table) \<Longrightarrow> hm_ok (wt_sessions (remove_expired now i a table))"
  by (simp add: remove_expired_def hm_ok_def distinct_map_filter)

lemma expired_keeps:
  assumes "holds_session store key created used table" and "now - used < ws_idle_timeout store" and "now - created < ws_absolute_timeout store"
  shows "holds_session store key created used (remove_expired now (ws_idle_timeout store) (ws_absolute_timeout store) table)"
proof -
  obtain r where "hm_ok (wt_sessions table)" "map_of (wt_sessions table) key = Some r" "sr_created r = created" "sr_last_activity r = used"
    using assms(1) by (auto simp: holds_session_def)
  then show ?thesis using assms(2,3) hm_ok_expired [of table] map_of_live [of "wt_sessions table"]
    by (auto simp: holds_session_def remove_expired_def record_live_def)
qed

lemma touched: "holds_session store key created used table \<Longrightarrow> holds_session store key created now (touch_session now key table)"
  by (auto simp: holds_session_def touch_session_def hm_modify_def)

lemma authenticate_held:
  assumes "holds_session store (derive_key c store token) created used table" and "now - used < ws_idle_timeout store"
    and "now - created < ws_absolute_timeout store"
  shows "\<exists>table'. authenticate c store now token table = (True, table') \<and> holds_session store (derive_key c store token) created now table'"
    and "\<exists>table'. csrf_credential c store now token table = (Some (hmac_sha256 c (ws_hmac_key store) (CSRF_DOMAIN @ token)), table') \<and>
      holds_session store (derive_key c store token) created now table'"
  using expired_keeps [OF assms] touched [OF expired_keeps [OF assms], of now]
  by (auto simp: authenticate_def csrf_credential_def Let_def holds_session_def)

lemma issue_held:
  assumes "hm_ok (wt_sessions table)" and "issue_loop n c store now draws table = (Inr encoded, table')"
  shows "\<exists>token. Some token \<in> set draws \<and> encoded = url_encode c token \<and> holds_session store (derive_key c store token) now now table'"
  using assms
proof (induction n arbitrary: draws table)
  case (Suc n)
  from Suc.prems(2) obtain token rest where d: "draws = Some token # rest" by (auto split: list.splits option.splits)
  obtain issued table1 where r: "issue_round c store now token table = (issued, table1)" by force
  have ok: "hm_ok (wt_sessions table1)"
    using r Suc.prems(1) hm_ok_expired evict_result(1) by (auto simp: issue_round_def Let_def split: if_splits)
  show ?case
  proof (cases issued)
    case True
    then have "holds_session store (derive_key c store token) now now table1"
      using ok r by (auto simp: holds_session_def issue_round_def Let_def split: if_splits)
    with True r d Suc.prems(2) show ?thesis by auto
  next
    case False
    then have "issue_loop n c store now rest table1 = (Inr encoded, table')" using r d Suc.prems(2) by simp
    from Suc.IH [OF ok this] d show ?thesis by auto
  qed
qed simp

lemma csrf_present:
  assumes "csrf_credential c store now token table = (Some credential, table')" and "hm_ok (wt_sessions table)"
    and "holds_session store (derive_key c store token) created used table"
  shows "credential = hmac_sha256 c (ws_hmac_key store) (CSRF_DOMAIN @ token) \<and> holds_session store (derive_key c store token) created now table'"
proof -
  let ?e = "remove_expired now (ws_idle_timeout store) (ws_absolute_timeout store) table"
  obtain r where r: "map_of (wt_sessions ?e) (derive_key c store token) = Some r"
      "credential = hmac_sha256 c (ws_hmac_key store) (CSRF_DOMAIN @ token)" "table' = touch_session now (derive_key c store token) ?e"
    using assms(1) by (auto simp: csrf_credential_def Let_def split: if_splits)
  have "map_of (wt_sessions table) (derive_key c store token) = Some r"
    using r(1) map_of_live [OF assms(2)] by (auto simp: remove_expired_def)
  then have "holds_session store (derive_key c store token) created used ?e"
    using r(1) assms(3) hm_ok_expired [OF assms(2)] by (auto simp: holds_session_def)
  from touched [OF this, of now] r(2,3) show ?thesis by simp
qed

subsection \<open>Guarded writes\<close>

lemma authenticate_exact:
  assumes "hm_ok (wt_sessions table)" and "authenticate c store now token table = (accepted, table')"
  shows "accepted \<longleftrightarrow> (\<exists>r. map_of (wt_sessions table) (derive_key c store token) = Some r \<and>
      record_live now (ws_idle_timeout store) (ws_absolute_timeout store) r)"
    and "accepted \<Longrightarrow> \<exists>r. map_of (wt_sessions table) (derive_key c store token) = Some r \<and>
      record_live now (ws_idle_timeout store) (ws_absolute_timeout store) r \<and>
      holds_session store (derive_key c store token) (sr_created r) now table'"
proof -
  let ?e = "remove_expired now (ws_idle_timeout store) (ws_absolute_timeout store) table"
  have m: "map_of (wt_sessions ?e) k = Some r \<longleftrightarrow>
      map_of (wt_sessions table) k = Some r \<and> record_live now (ws_idle_timeout store) (ws_absolute_timeout store) r" for k r
    using map_of_live [OF assms(1)] by (simp add: remove_expired_def)
  show "accepted \<longleftrightarrow> (\<exists>r. map_of (wt_sessions table) (derive_key c store token) = Some r \<and>
      record_live now (ws_idle_timeout store) (ws_absolute_timeout store) r)"
    using assms(2) m [of "derive_key c store token"] by (auto simp: authenticate_def Let_def split: if_splits)
  assume accepted
  then obtain r where r: "map_of (wt_sessions ?e) (derive_key c store token) = Some r" "table' = touch_session now (derive_key c store token) ?e"
    using assms(2) by (auto simp: authenticate_def Let_def split: if_splits)
  then have "holds_session store (derive_key c store token) (sr_created r) (sr_last_activity r) ?e"
    using hm_ok_expired [OF assms(1)] by (auto simp: holds_session_def)
  from touched [OF this, of now] r m show "\<exists>r. map_of (wt_sessions table) (derive_key c store token) = Some r \<and>
      record_live now (ws_idle_timeout store) (ws_absolute_timeout store) r \<and>
      holds_session store (derive_key c store token) (sr_created r) now table'" by auto
qed

lemma csrf_exact:
  assumes "holds_session store (derive_key c store token) created used table"
  shows "fst (csrf_credential c store now token table) =
    (if now - used < ws_idle_timeout store \<and> now - created < ws_absolute_timeout store
     then Some (hmac_sha256 c (ws_hmac_key store) (CSRF_DOMAIN @ token)) else None)"
proof -
  obtain r where r: "hm_ok (wt_sessions table)" "map_of (wt_sessions table) (derive_key c store token) = Some r"
      "sr_created r = created" "sr_last_activity r = used" using assms by (auto simp: holds_session_def)
  let ?e = "remove_expired now (ws_idle_timeout store) (ws_absolute_timeout store) table"
  have "map_of (wt_sessions ?e) (derive_key c store token) = None \<longleftrightarrow>
      \<not> (now - used < ws_idle_timeout store \<and> now - created < ws_absolute_timeout store)"
    using map_of_live [OF r(1), of "record_live now (ws_idle_timeout store) (ws_absolute_timeout store)" "derive_key c store token"] r(2-4)
    by (simp add: remove_expired_def record_live_def not_Some_eq [symmetric] del: not_Some_eq)
  then show ?thesis by (simp add: csrf_credential_def Let_def)
qed

definition csrf_of :: "'a web_primitives_scheme \<Rightarrow> SessionStore \<Rightarrow> bytes \<Rightarrow> bytes" where
  "csrf_of c store token = hmac_sha256 c (ws_hmac_key store) (CSRF_DOMAIN @ token)"

definition request_token :: "'a web_primitives_scheme \<Rightarrow> HeaderMap \<Rightarrow> bytes option" where
  "request_token c headers = Option.bind (single_cookie_header headers) (parse_session_cookie c)"

definition session_alive :: "AuthenticationState \<Rightarrow> bytes \<Rightarrow> nat \<Rightarrow> nat \<Rightarrow> bool" where
  "session_alive auth key t1 t2 \<longleftrightarrow> (\<exists>r. map_of (wt_sessions (at_table auth)) key = Some r \<and>
     record_live t1 (ws_idle_timeout (at_sessions auth)) (ws_absolute_timeout (at_sessions auth)) r \<and>
     t2 - t1 < ws_idle_timeout (at_sessions auth) \<and> t2 - sr_created r < ws_absolute_timeout (at_sessions auth))"

definition csrf_supplied :: "'a web_primitives_scheme \<Rightarrow> HeaderMap \<Rightarrow> bytes \<Rightarrow> bool" where
  "csrf_supplied c headers credential \<longleftrightarrow> (\<exists>text. headers CSRF_HEADER_NAME = [Some text] \<and> url_decode c text = Some credential)"

definition write_allowed ::
  "'a web_primitives_scheme \<Rightarrow> (string \<Rightarrow> Url option) \<Rightarrow> nat \<times> nat \<Rightarrow> HeaderMap \<Rightarrow> WebState \<Rightarrow> bool" where
  "write_allowed c url_parse = (\<lambda>(t1, t2) headers state.
     same_origin url_parse headers (wb_expected_origin state) \<and> is_json_request headers \<and>
     (\<exists>token. request_token c headers = Some token \<and>
        session_alive (wb_authentication state) (derive_key c (at_sessions (wb_authentication state)) token) t1 t2 \<and>
        csrf_supplied c headers (csrf_of c (at_sessions (wb_authentication state)) token)))"

lemma validate_exact:
  assumes "digests_fit c" and "Option.bind cookie (parse_session_cookie c) = Some token"
    and "holds_session (at_sessions auth) (derive_key c (at_sessions auth) token) created used (at_table auth)"
  shows "fst (validate_csrf c now cookie supplied auth) \<longleftrightarrow>
    now - used < ws_idle_timeout (at_sessions auth) \<and> now - created < ws_absolute_timeout (at_sessions auth) \<and>
    url_decode c supplied = Some (csrf_of c (at_sessions auth) token)"
proof -
  have "length (csrf_of c (at_sessions auth) token) = DIGEST_BYTES" using assms(1) by (simp add: digests_fit_def csrf_of_def DIGEST_BYTES_def)
  moreover obtain credential table' where r: "csrf_credential c (at_sessions auth) now token (at_table auth) = (credential, table')" by force
  moreover have "credential = (if now - used < ws_idle_timeout (at_sessions auth) \<and> now - created < ws_absolute_timeout (at_sessions auth)
      then Some (csrf_of c (at_sessions auth) token) else None)" using csrf_exact [OF assms(3), of now] r by (simp add: csrf_of_def)
  ultimately show ?thesis using assms(2)
    by (cases "url_decode c supplied") (auto simp: validate_csrf_def split: if_splits)
qed

lemma protect_authenticated:
  assumes "digests_fit c" and "guarded_write m path" and "request_token c headers = Some token"
    and "authenticate c (at_sessions (wb_authentication state)) t1 token (at_table (wb_authentication state)) = (True, table')"
    and "holds_session (at_sessions (wb_authentication state)) (derive_key c (at_sessions (wb_authentication state)) token) created t1 table'"
  shows "fst (protect_management_writes c url_parse (t1, t2) m path headers state) = None \<longleftrightarrow>
    same_origin url_parse headers (wb_expected_origin state) \<and> is_json_request headers \<and>
    t2 - t1 < ws_idle_timeout (at_sessions (wb_authentication state)) \<and>
    t2 - created < ws_absolute_timeout (at_sessions (wb_authentication state)) \<and>
    csrf_supplied c headers (csrf_of c (at_sessions (wb_authentication state)) token)"
proof -
  let ?auth = "wb_authentication state"
  let ?auth' = "?auth\<lparr>at_table := table'\<rparr>"
  have a: "authenticate_cookie c t1 (single_cookie_header headers) ?auth = (True, ?auth')"
    using assms(3,4) by (simp add: authenticate_cookie_def request_token_def)
  have v: "fst (validate_csrf c t2 (single_cookie_header headers) supplied ?auth') \<longleftrightarrow>
      t2 - t1 < ws_idle_timeout (at_sessions ?auth) \<and> t2 - created < ws_absolute_timeout (at_sessions ?auth) \<and>
      url_decode c supplied = Some (csrf_of c (at_sessions ?auth) token)" for supplied
    using validate_exact [OF assms(1), of "single_cookie_header headers" token ?auth' created t1 t2 supplied] assms(3,5)
    by (simp add: request_token_def)
  show ?thesis using assms(2) a v
    by (cases "headers CSRF_HEADER_NAME"; cases "tl (headers CSRF_HEADER_NAME)")
      (auto simp: protect_management_writes_def Let_def csrf_supplied_def split_beta split: option.splits)
qed

text \<open>
  C38 (guarded writes): a management write passes the guard exactly when it comes from the dashboard's
  own origin as JSON, its one cookie names a session of the table that is neither idle nor too old at
  both checks, and its one CSRF header is the code of that session's token.
\<close>

theorem guarded_write_exact:
  assumes "digests_fit c" and "hm_ok (wt_sessions (at_table (wb_authentication state)))" and "guarded_write m path"
  shows "fst (protect_management_writes c url_parse (t1, t2) m path headers state) = None \<longleftrightarrow> write_allowed c url_parse (t1, t2) headers state"
proof (cases "request_token c headers")
  case None
  then show ?thesis using assms(3) by (simp add: protect_management_writes_def authenticate_cookie_def request_token_def write_allowed_def)
next
  case (Some token)
  let ?auth = "wb_authentication state"
  obtain accepted table' where a: "authenticate c (at_sessions ?auth) t1 token (at_table ?auth) = (accepted, table')" by force
  note exact = authenticate_exact [OF assms(2) a]
  show ?thesis
  proof (cases accepted)
    case True
    from exact(2) [OF this] obtain r where r: "map_of (wt_sessions (at_table ?auth)) (derive_key c (at_sessions ?auth) token) = Some r"
        "record_live t1 (ws_idle_timeout (at_sessions ?auth)) (ws_absolute_timeout (at_sessions ?auth)) r"
        "holds_session (at_sessions ?auth) (derive_key c (at_sessions ?auth) token) (sr_created r) t1 table'" by blast
    from protect_authenticated [OF assms(1,3) Some _ r(3)] a True r(1,2) Some show ?thesis
      by (auto simp: write_allowed_def session_alive_def)
  next
    case False
    then have "\<not> session_alive ?auth (derive_key c (at_sessions ?auth) token) t1 t2" using exact(1) by (auto simp: session_alive_def)
    moreover have "fst (protect_management_writes c url_parse (t1, t2) m path headers state) \<noteq> None"
      using Some a False assms(3) by (simp add: protect_management_writes_def authenticate_cookie_def request_token_def)
    ultimately show ?thesis using Some by (simp add: write_allowed_def)
  qed
qed

subsection \<open>Login and logout\<close>

lemma limiter_leaves [simp]:
  "at_sessions (snd (admit_login peer now auth)) = at_sessions auth" "at_table (snd (admit_login peer now auth)) = at_table auth"
  "credentials_match c (snd (admit_login peer now auth)) u p = credentials_match c auth u p"
  by (simp_all add: admit_login_def split_beta Let_def credentials_match_def)

lemma cookie_bound: "parse_session_cookie c s = Some token \<Longrightarrow> length token = 32"
  by (auto simp: parse_session_cookie_def SESSION_TOKEN_BYTES_def Option.bind_eq_Some_conv split: if_splits)

lemma csrf_for_cookie_held:
  assumes "url_base64_faithful c" and "length token = 32" and "hm_ok (wt_sessions (at_table auth))"
    and "holds_session (at_sessions auth) (derive_key c (at_sessions auth) token) created used (at_table auth)"
    and "csrf_for_cookie c now (Some (session_cookie_text (url_encode c token))) auth = (Some csrf, auth')"
  shows "csrf = url_encode c (csrf_of c (at_sessions auth) token) \<and> at_sessions auth' = at_sessions auth \<and>
    holds_session (at_sessions auth) (derive_key c (at_sessions auth) token) created now (at_table auth')"
proof -
  obtain credential table' where r: "csrf_credential c (at_sessions auth) now token (at_table auth) = (Some credential, table')"
      "csrf = url_encode c credential" "auth' = auth\<lparr>at_table := table'\<rparr>"
    using assms(5) cookie_parsed [OF assms(1,2)] by (auto simp: csrf_for_cookie_def split: prod.splits)
  from csrf_present [OF r(1) assms(3,4)] r(2,3) show ?thesis by (simp add: csrf_of_def)
qed

lemma login_success:
  assumes "url_base64_faithful c" and "hm_ok (wt_sessions (at_table (wb_authentication state)))"
    and "\<And>token. Some token \<in> set draws \<Longrightarrow> length token = 32"
    and "login c url_parse (t1, t2, t3) draws peer headers body state = (response, state')" and "rp_status response = 200"
  shows "\<exists>form token. body = BodyRead form \<and>
    credentials_match c (wb_authentication state) (lf_username form) (lf_password form) \<and> length token = 32 \<and>
    response = insert_header CSRF_HEADER_NAME (url_encode c (csrf_of c (at_sessions (wb_authentication state)) token))
      (insert_header ''set-cookie'' (session_cookie (url_encode c token) (wb_cookie_secure state)) (plain_response 200 ''ok'')) \<and>
    wb_expected_origin state' = wb_expected_origin state \<and>
    at_sessions (wb_authentication state') = at_sessions (wb_authentication state) \<and>
    holds_session (at_sessions (wb_authentication state)) (derive_key c (at_sessions (wb_authentication state)) token) t2 t3
      (at_table (wb_authentication state'))"
proof -
  let ?auth = "wb_authentication state"
  note refused = rejected_request_def request_timed_out_def authentication_failed_def internal_error_def plain_response_def
  obtain form where form: "body = BodyRead form" using assms(4,5) by (cases body) (auto simp: login_def refused split: if_splits)
  obtain admitted auth1 where l: "admit_login peer t1 ?auth = (admitted, auth1)" by force
  then have l': "at_sessions auth1 = at_sessions ?auth" "at_table auth1 = at_table ?auth"
      "credentials_match c auth1 u p = credentials_match c ?auth u p" for u p
    using limiter_leaves(1,2) [of peer t1 ?auth] limiter_leaves(3) [of c peer t1 ?auth u p] by simp_all
  obtain outcome auth2 where i: "issue_session c t2 draws auth1 = (outcome, auth2)" by force
  have g: "same_origin url_parse headers (wb_expected_origin state)" "is_form_request headers" "\<not> content_length_above MAX_LOGIN_BODY_BYTES headers"
    using assms(4,5) by (auto simp: login_def refused split: if_splits)
  have "admitted" using assms(4,5) g by (cases admitted) (auto simp: login_def refused form l)
  moreover have m: "credentials_match c ?auth (lf_username form) (lf_password form)"
      and n: "length (lf_username form) \<le> MAX_USERNAME_BYTES" "length (lf_password form) \<le> MAX_PASSWORD_BYTES"
    using assms(4,5) g \<open>admitted\<close> by (auto simp: login_def refused form l l' Let_def split: if_splits)
  ultimately have rest: "(response, state') = (case (outcome, auth2) of
      (Inl _, authentication) \<Rightarrow> (internal_error, state\<lparr>wb_authentication := authentication\<rparr>)
    | (Inr token, authentication) \<Rightarrow>
        (case csrf_for_cookie c t3 (Some (session_cookie_text token)) authentication of
           (None, authentication) \<Rightarrow> (internal_error, state\<lparr>wb_authentication := authentication\<rparr>)
         | (Some csrf, authentication) \<Rightarrow>
             (insert_header CSRF_HEADER_NAME csrf
                (insert_header ''set-cookie'' (session_cookie token (wb_cookie_secure state)) (plain_response 200 ''ok'')),
              state\<lparr>wb_authentication := authentication\<rparr>)))"
    using assms(4) g by (simp add: login_def form l l' i session_cookie_text_def Let_def cong: sum.case_cong prod.case_cong option.case_cong)
  then obtain encoded where o: "outcome = Inr encoded" using assms(5) by (cases outcome) (simp_all add: refused)
  obtain csrf auth3 where k: "csrf_for_cookie c t3 (Some (session_cookie_text encoded)) auth2 = (csrf, auth3)" by force
  obtain csrf' where k': "csrf = Some csrf'"
      "response = insert_header CSRF_HEADER_NAME csrf' (insert_header ''set-cookie'' (session_cookie encoded (wb_cookie_secure state)) (plain_response 200 ''ok''))"
      "state' = state\<lparr>wb_authentication := auth3\<rparr>"
    using assms(5) rest by (cases csrf) (simp_all add: o k refused)
  obtain table2 where t: "issue_loop 4 c (at_sessions ?auth) t2 draws (at_table ?auth) = (Inr encoded, table2)" "auth2 = auth1\<lparr>at_table := table2\<rparr>"
    using i l' by (auto simp: o issue_session_def issue_def split: prod.splits)
  from issue_held [OF assms(2) t(1)] obtain token where token: "Some token \<in> set draws" "encoded = url_encode c token"
      "holds_session (at_sessions ?auth) (derive_key c (at_sessions ?auth) token) t2 t2 table2" by blast
  have a: "at_sessions auth2 = at_sessions ?auth" "at_table auth2 = table2" by (simp_all add: t(2) l')
  have "hm_ok (wt_sessions table2)" using token(3) by (simp add: holds_session_def)
  from csrf_for_cookie_held [OF assms(1) assms(3) [OF token(1)], of auth2 t2 t2 t3 csrf' auth3] k k'(1) a token this
  have "csrf' = url_encode c (csrf_of c (at_sessions ?auth) token)" "at_sessions auth3 = at_sessions ?auth"
      "holds_session (at_sessions ?auth) (derive_key c (at_sessions ?auth) token) t2 t3 (at_table auth3)" by simp_all
  with form m k'(2,3) token assms(3) [OF token(1)] show ?thesis by auto
qed

lemma cookie_pair:
  assumes "url_base64_faithful c"
  shows "hd (split_on (CHR '';'') (session_cookie (url_encode c token) secure)) = session_cookie_text (url_encode c token)"
proof -
  have absent: "CHR '';'' \<notin> set (session_cookie_text (url_encode c token))"
    using assms url_alphabet_marks(3) by (auto simp: session_cookie_text_def SESSION_COOKIE_NAME_def url_base64_faithful_def)
  have hd_split: "ch \<notin> set a \<Longrightarrow> \<exists>r. split_on ch (a @ ch # b) = a # r" for ch and a b :: string
    by (induction a) auto
  obtain rest where "session_cookie (url_encode c token) secure = session_cookie_text (url_encode c token) @ CHR '';'' # rest"
    by (auto simp: session_cookie_def web_cookie_value_def session_cookie_text_def)
  with hd_split [OF absent, of rest] show ?thesis by auto
qed

lemma presented_token:
  assumes "url_base64_faithful c" and "length token = 32" and "headers ''cookie'' = [Some (session_cookie_text (url_encode c token))]"
  shows "request_token c headers = Some token"
proof -
  have e: "set (url_encode c token) \<subseteq> set url_alphabet" "length (url_encode c token) = 43"
    using assms(1,2) by (auto simp: url_base64_faithful_def)
  from assms(3) e(2) cookie_parsed [OF assms(1,2)] show ?thesis
    by (simp add: request_token_def single_cookie_header_def single_header_def session_cookie_text_def SESSION_COOKIE_NAME_def)
qed

lemma presented_csrf:
  assumes "url_base64_faithful c" and "headers CSRF_HEADER_NAME = [Some (url_encode c credential)]"
  shows "csrf_supplied c headers credential"
  using assms by (simp add: csrf_supplied_def url_base64_faithful_def)

text \<open>A login with the right credentials that the limiter admits is answered by 200.\<close>

lemma login_completes:
  assumes "url_base64_faithful c" and "hm_ok (wt_sessions (at_table (wb_authentication state)))"
    and "same_origin url_parse headers (wb_expected_origin state)" "is_form_request headers" "\<not> content_length_above MAX_LOGIN_BODY_BYTES headers"
    and "fst (admit_login peer t1 (wb_authentication state))"
    and "credentials_match c (wb_authentication state) (lf_username form) (lf_password form)"
      "length (lf_username form) \<le> MAX_USERNAME_BYTES" "length (lf_password form) \<le> MAX_PASSWORD_BYTES"
    and "length token = 32"
      "map_of (wt_sessions (at_table (wb_authentication state))) (derive_key c (at_sessions (wb_authentication state)) token) = None"
    and "t3 - t2 < ws_idle_timeout (at_sessions (wb_authentication state))" "t3 - t2 < ws_absolute_timeout (at_sessions (wb_authentication state))"
  shows "rp_status (fst (login c url_parse (t1, t2, t3) (Some token # draws) peer headers (BodyRead form) state)) = 200"
proof -
  let ?auth = "wb_authentication state" and ?store = "at_sessions (wb_authentication state)"
  obtain auth1 where l: "admit_login peer t1 ?auth = (True, auth1)" using assms(6) by (cases "admit_login peer t1 ?auth") auto
  then have l': "at_sessions auth1 = ?store" "at_table auth1 = at_table ?auth" "credentials_match c auth1 u p = credentials_match c ?auth u p" for u p
    using limiter_leaves(1,2) [of peer t1 ?auth] limiter_leaves(3) [of c peer t1 ?auth u p] by simp_all
  obtain issued table1 where r: "issue_round c ?store t2 token (at_table ?auth) = (issued, table1)" by force
  have "map_of (wt_sessions (remove_expired t2 (ws_idle_timeout ?store) (ws_absolute_timeout ?store) (at_table ?auth))) (derive_key c ?store token) = None"
    by (rule ccontr) (use map_of_live [OF assms(2)] assms(11) in \<open>auto simp: remove_expired_def\<close>)
  with r have issued by (auto simp: issue_round_def Let_def)
  then have i: "issue_loop 4 c ?store t2 (Some token # draws) (at_table ?auth) = (Inr (url_encode c token), table1)"
    using r by (simp add: numeral_eq_Suc)
  have "hm_ok (wt_sessions table1)"
    using r assms(2) hm_ok_expired evict_result(1) by (auto simp: issue_round_def Let_def split: if_splits)
  with \<open>issued\<close> r have "holds_session ?store (derive_key c ?store token) t2 t2 table1"
    by (auto simp: holds_session_def issue_round_def Let_def split: if_splits)
  from authenticate_held(2) [OF this assms(12,13)] obtain table2 credential
    where k: "csrf_credential c ?store t3 token table1 = (Some credential, table2)" by blast
  show ?thesis
    using assms(3-5,7-9) i k cookie_parsed [OF assms(1,10)] l l'
    by (simp add: login_def issue_session_def issue_def csrf_for_cookie_def session_cookie_text_def Let_def plain_response_def)
qed

text \<open>
  C39 (login): when a login answers 200 both name and password have the digests of the configured ones, hence are
  the configured ones short of a collision, and its answer carries a cookie and a
  CSRF token with which a browser that sends them back passes the guard of the management writes,
  while less than the idle timeout lies between its requests and the session is not too old.
\<close>

theorem login_grants_access:
  assumes "url_base64_faithful c" and "digests_fit c" and "hm_ok (wt_sessions (at_table (wb_authentication state)))"
    and "\<And>token. Some token \<in> set draws \<Longrightarrow> length token = 32"
    and "login c url_parse (t1, t2, t3) draws peer headers body state = (response, state')" and "rp_status response = 200"
  shows "\<exists>form cookie csrf. body = BodyRead form \<and>
    cd_username (at_credentials (wb_authentication state)) = sha256 c (as_bytes (lf_username form)) \<and>
    cd_password (at_credentials (wb_authentication state)) = sha256 c (as_bytes (lf_password form)) \<and>
    (\<forall>name password. at_credentials (wb_authentication state) = CredentialDigests_new c name password \<and>
       inj_on (sha256 c) (as_bytes ` {name, password, lf_username form, lf_password form}) \<longrightarrow>
       lf_username form = name \<and> lf_password form = password) \<and>
    rp_headers response ''set-cookie'' = Some cookie \<and> rp_headers response CSRF_HEADER_NAME = Some csrf \<and>
    (\<forall>t4 t5 m path sent. sent ''cookie'' = [Some (hd (split_on (CHR '';'') cookie))] \<and>
       sent CSRF_HEADER_NAME = [Some csrf] \<and>
       same_origin url_parse sent (wb_expected_origin state) \<and> is_json_request sent \<and> guarded_write m path \<and>
       t4 - t3 < ws_idle_timeout (at_sessions (wb_authentication state)) \<and> t5 - t4 < ws_idle_timeout (at_sessions (wb_authentication state)) \<and>
       t4 - t2 < ws_absolute_timeout (at_sessions (wb_authentication state)) \<and> t5 - t2 < ws_absolute_timeout (at_sessions (wb_authentication state)) \<longrightarrow>
       fst (protect_management_writes c url_parse (t4, t5) m path sent state') = None)"
proof -
  let ?store = "at_sessions (wb_authentication state)"
  from login_success [OF assms(1,3-6)] obtain form token where f: "body = BodyRead form"
      "credentials_match c (wb_authentication state) (lf_username form) (lf_password form)" and n: "length token = 32"
    and r: "response = insert_header CSRF_HEADER_NAME (url_encode c (csrf_of c ?store token))
      (insert_header ''set-cookie'' (session_cookie (url_encode c token) (wb_cookie_secure state)) (plain_response 200 ''ok''))"
    and k: "wb_expected_origin state' = wb_expected_origin state" "at_sessions (wb_authentication state') = ?store"
      "holds_session ?store (derive_key c ?store token) t2 t3 (at_table (wb_authentication state'))" by blast
  have d: "cd_username (at_credentials (wb_authentication state)) = sha256 c (as_bytes (lf_username form))"
      "cd_password (at_credentials (wb_authentication state)) = sha256 c (as_bytes (lf_password form))"
    using f(2) by (simp_all add: credentials_match_def credentials_matches_def)
  have u: "lf_username form = name \<and> lf_password form = password"
    if "at_credentials (wb_authentication state) = CredentialDigests_new c name password"
      "inj_on (sha256 c) (as_bytes ` {name, password, lf_username form, lf_password form})" for name password
  proof -
    have "sha256 c (as_bytes name) = sha256 c (as_bytes (lf_username form))" "sha256 c (as_bytes password) = sha256 c (as_bytes (lf_password form))"
      using d that(1) by (simp_all add: CredentialDigests_new_def)
    then show ?thesis using inj_onD [OF that(2)] by (metis as_bytes_eq_iff image_eqI insertI1 insertI2)
  qed
  have h: "rp_headers response ''set-cookie'' = Some (session_cookie (url_encode c token) (wb_cookie_secure state))"
      "rp_headers response CSRF_HEADER_NAME = Some (url_encode c (csrf_of c ?store token))"
    by (simp_all add: r CSRF_HEADER_NAME_def)
  have "fst (protect_management_writes c url_parse (t4, t5) m path sent state') = None"
    if "sent ''cookie'' = [Some (session_cookie_text (url_encode c token))]"
      "sent CSRF_HEADER_NAME = [Some (url_encode c (csrf_of c ?store token))]"
      "same_origin url_parse sent (wb_expected_origin state)" "is_json_request sent" "guarded_write m path"
      "t4 - t3 < ws_idle_timeout ?store" "t5 - t4 < ws_idle_timeout ?store"
      "t4 - t2 < ws_absolute_timeout ?store" "t5 - t2 < ws_absolute_timeout ?store" for t4 t5 m path sent
    using authenticate_held(1) [OF k(3) that(6,8)] presented_token [where headers = sent, OF assms(1) n that(1)] presented_csrf [where headers = sent, OF assms(1) that(2)] that(3-9) k
      protect_authenticated [OF assms(2) that(5), of sent token state' t4 _ t2 url_parse t5] by auto
  with f(1) d u h cookie_pair [OF assms(1)] show ?thesis by (intro exI conjI) auto
qed

lemma revoke_result:
  assumes "hm_ok (wt_sessions table)"
  shows "map_of (wt_sessions (snd (revoke c store now token table))) (derive_key c store token) = None"
    and "hm_ok (wt_sessions (snd (revoke c store now token table)))"
  using hm_ok_expired [OF assms] by (auto simp: revoke_def Let_def)

text \<open>
  Logout: when a logout answers 200, a request that sends the same cookie is refused from then on
  by the guard of the writes and by the API, until a login opens a session with the same token again.
\<close>

theorem logout_ends_access:
  assumes "hm_ok (wt_sessions (at_table (wb_authentication state)))"
    and "logout c url_parse now headers body state = (response, state')" and "rp_status response = 200"
    and "request_token c sent = request_token c headers" and "guarded_write m path"
  shows "fst (protect_management_writes c url_parse (t1, t2) m path sent state') = Some authentication_required \<and>
    fst (api_boundary c t1 m' sent state') = authentication_required"
proof -
  let ?auth = "wb_authentication state"
  note refused = rejected_request_def request_timed_out_def authentication_failed_def plain_response_def
  obtain token where t: "request_token c headers = Some token" "state' = state\<lparr>wb_authentication :=
      ?auth\<lparr>at_table := snd (revoke c (at_sessions ?auth) now token (at_table ?auth))\<rparr>\<rparr>"
    using assms(2,3) by (cases "request_token c headers")
      (auto simp: logout_def refused revoke_cookie_def request_token_def Let_def split: if_splits body_outcome.splits prod.splits)
  have n: "\<not> fst (authenticate c (at_sessions ?auth) t1 token (snd (revoke c (at_sessions ?auth) now token (at_table ?auth))))"
    unfolding authenticate_exact(1) [OF revoke_result(2) [OF assms(1)] prod.collapse [symmetric]] revoke_result(1) [OF assms(1)] by simp
  then show ?thesis using t assms(4,5)
    by (simp add: protect_management_writes_def api_boundary_def authenticate_cookie_def request_token_def split_beta Let_def)
qed

subsection \<open>Operations run once\<close>

datatype ledger_op =
    LedgerBegin string string string bytes
  | LedgerFinish bytes bool
  | LedgerFinishResponse bytes u16 bytes

text \<open>Beside the records, the operations that were started and not finished, with the digest of their request.\<close>

fun ledger_step ::
  "'a web_primitives_scheme \<Rightarrow> nat \<Rightarrow> OperationRecord list \<times> (bytes \<rightharpoonup> bytes) \<Rightarrow> ledger_op \<Rightarrow> OperationRecord list \<times> (bytes \<rightharpoonup> bytes)" where
  "ledger_step c capacity (records, running) (LedgerBegin session endpoint operation_id payload) =
     (case ledger_begin c capacity session endpoint operation_id payload records of
        (OperationStarted key, records') \<Rightarrow> (records', running(key \<mapsto> sha256 c payload))
      | (_, records') \<Rightarrow> (records', running))"
| "ledger_step c capacity (records, running) (LedgerFinish key succeeded) = (ledger_finish key succeeded records, running(key := None))"
| "ledger_step c capacity (records, running) (LedgerFinishResponse key status body) =
     (ledger_finish_response key status body records, running(key := None))"

definition ledger_inv :: "nat \<Rightarrow> OperationRecord list \<times> (bytes \<rightharpoonup> bytes) \<Rightarrow> bool" where
  "ledger_inv capacity = (\<lambda>(records, running). distinct (map opr_key records) \<and> length records \<le> capacity \<and>
     (\<forall>k d. running k = Some d \<longleftrightarrow> (\<exists>r \<in> set records. opr_key r = k \<and> opr_request r = d \<and> opr_outcome r = OutcomePending)))"

lemma set_remove_first: "set (remove_first P xs) \<subseteq> set xs" "distinct (map f xs) \<Longrightarrow> distinct (map f (remove_first P xs))"
proof -
  show sub: "set (remove_first P xs) \<subseteq> set xs" for xs by (induction xs) auto
  show "distinct (map f xs) \<Longrightarrow> distinct (map f (remove_first P xs))" using sub by (induction xs) fastforce+
qed

lemma length_remove_first: "x \<in> set xs \<Longrightarrow> P x \<Longrightarrow> Suc (length (remove_first P xs)) = length xs" "length (remove_first P xs) \<le> length xs"
  by (induction xs) auto

lemma remove_first_keeps: "x \<in> set xs \<Longrightarrow> \<not> P x \<Longrightarrow> x \<in> set (remove_first P xs)"
  by (induction xs) auto

lemma remove_first_key: "distinct (map f xs) \<Longrightarrow> set (remove_first (\<lambda>x. f x = k) xs) = {x \<in> set xs. f x \<noteq> k}"
proof (induction xs)
  case (Cons a xs)
  have "\<forall>x \<in> set xs. f x \<noteq> k" if "f a = k" using that Cons.prems by (force simp: image_iff)
  with Cons show ?case by (cases "f a = k") auto
qed simp

lemma update_first_key:
  assumes "\<And>x. f (g x) = f x"
  shows "map f (update_first P g xs) = map f xs" "length (update_first P g xs) = length xs"
    and "distinct (map f xs) \<Longrightarrow> set (update_first (\<lambda>x. f x = k) g xs) = {x \<in> set xs. f x \<noteq> k} \<union> g ` {x \<in> set xs. f x = k}"
proof -
  show "map f (update_first P g xs) = map f xs" "length (update_first P g xs) = length xs" using assms by (induction xs) auto
  show "distinct (map f xs) \<Longrightarrow> set (update_first (\<lambda>x. f x = k) g xs) = {x \<in> set xs. f x \<noteq> k} \<union> g ` {x \<in> set xs. f x = k}"
  proof (induction xs)
    case (Cons a xs)
    have alone: "{x \<in> set xs. f x \<noteq> k} = set xs" "{x \<in> set xs. f x = k} = {}" if "f a = k" using that Cons.prems by (force simp: image_iff)+
    have "{x \<in> set (a # xs). f x = k} = (if f a = k then {a} else {}) \<union> {x \<in> set xs. f x = k}"
      "{x \<in> set (a # xs). f x \<noteq> k} = (if f a \<noteq> k then {a} else {}) \<union> {x \<in> set xs. f x \<noteq> k}" by auto
    with Cons show ?case by (cases "f a = k") (simp_all only: alone, simp_all)
  qed simp
qed

lemma find_key:
  assumes "distinct (map f xs)" and "x \<in> set xs" and "f x = k"
  shows "find (\<lambda>x. f x = k) xs = Some x"
  using assms by (induction xs) force+

lemma find_key_None: "find (\<lambda>x. f x = k) xs = None \<longleftrightarrow> k \<notin> f ` set xs"
  by (auto simp: find_None_iff)

lemma begin_keeps:
  assumes "ledger_inv capacity (records, running)"
  shows "ledger_inv capacity (ledger_step c capacity (records, running) (LedgerBegin session endpoint operation_id payload))"
proof (cases "find (\<lambda>r. opr_key r = operation_key c session endpoint operation_id) records")
  case (Some r)
  then show ?thesis using assms by (cases "opr_outcome r") (auto simp: ledger_begin_def)
next
  case None
  let ?key = "operation_key c session endpoint operation_id" and ?P = "\<lambda>r. opr_outcome r \<noteq> OutcomePending"
  let ?new = "\<lparr>opr_key = ?key, opr_request = sha256 c payload, opr_outcome = OutcomePending\<rparr>"
  let ?kept = "if length records = capacity then remove_first ?P records else records"
  from assms have i: "distinct (map opr_key records)" "length records \<le> capacity"
      "running k = Some d \<longleftrightarrow> (\<exists>r \<in> set records. opr_key r = k \<and> opr_request r = d \<and> opr_outcome r = OutcomePending)" for k d
    by (auto simp: ledger_inv_def)
  have absent: "?key \<notin> opr_key ` set records" using None by (simp add: find_key_None)
  show ?thesis
  proof (cases "length records = capacity \<and> list_all (\<lambda>r. opr_outcome r = OutcomePending) records")
    case True
    then show ?thesis using None assms by (simp add: ledger_begin_def)
  next
    case False
    have kept: "set ?kept \<subseteq> set records" "distinct (map opr_key ?kept)" using set_remove_first(1) [of ?P records] set_remove_first(2) [OF i(1), of ?P] i(1) by auto
    have room: "length ?kept < capacity"
    proof (cases "length records = capacity")
      case True
      with False obtain r where "r \<in> set records" "?P r" by (auto simp: list_all_iff)
      with length_remove_first(1) [of r records ?P] True show ?thesis by simp
    qed (use i(2) in simp)
    have pending: "r \<in> set ?kept \<and> opr_outcome r = OutcomePending \<longleftrightarrow> r \<in> set records \<and> opr_outcome r = OutcomePending" for r
      using kept(1) remove_first_keeps [of r records ?P] by (cases "length records = capacity") auto
    have step: "ledger_step c capacity (records, running) (LedgerBegin session endpoint operation_id payload) =
        (?kept @ [?new], running(?key \<mapsto> sha256 c payload))"
      using None False by (auto simp: ledger_begin_def Let_def)
    have "(running(?key \<mapsto> sha256 c payload)) k = Some d \<longleftrightarrow>
        (\<exists>r \<in> set (?kept @ [?new]). opr_key r = k \<and> opr_request r = d \<and> opr_outcome r = OutcomePending)" for k d
    proof (cases "k = ?key")
      case True
      have "opr_key r \<noteq> ?key" if "r \<in> set ?kept" for r using kept(1) absent that by (metis imageI subsetD)
      with True show ?thesis by auto
    next
      case False
      have "(\<exists>r \<in> set ?kept. opr_key r = k \<and> opr_request r = d \<and> opr_outcome r = OutcomePending) \<longleftrightarrow>
          (\<exists>r \<in> set records. opr_key r = k \<and> opr_request r = d \<and> opr_outcome r = OutcomePending)" using pending by meson
      with False i(3) [of k d] show ?thesis by simp
    qed
    then show ?thesis unfolding step using kept absent room by (auto simp: ledger_inv_def)
  qed
qed

lemma finish_keeps:
  assumes "ledger_inv capacity (records, running)"
  shows "ledger_inv capacity (ledger_finish key succeeded records, running(key := None))"
    and "ledger_inv capacity (ledger_finish_response key status body records, running(key := None))"
proof -
  from assms have i: "distinct (map opr_key records)" "length records \<le> capacity"
      "running k = Some d \<longleftrightarrow> (\<exists>r \<in> set records. opr_key r = k \<and> opr_request r = d \<and> opr_outcome r = OutcomePending)" for k d
    by (auto simp: ledger_inv_def)
  have updated: "ledger_inv capacity (update_first (\<lambda>r. opr_key r = key) g records, running(key := None))"
    if g: "\<And>r. opr_key (g r) = opr_key r" "\<And>r. opr_outcome (g r) \<noteq> OutcomePending" for g
    using i(1,2) update_first_key(1,2) [of opr_key g "\<lambda>r. opr_key r = key" records] update_first_key(3) [of opr_key g records key] g
    by (auto simp: ledger_inv_def i(3))
  show "ledger_inv capacity (ledger_finish_response key status body records, running(key := None))"
    using updated [of "\<lambda>r. r\<lparr>opr_outcome := OutcomeResponse status body\<rparr>"] by (simp add: ledger_finish_response_def)
  have "ledger_inv capacity (remove_first (\<lambda>r. opr_key r = key) records, running(key := None))"
    using i(1,2) set_remove_first(2) [OF i(1)] length_remove_first(2) [of "\<lambda>r. opr_key r = key" records] remove_first_key [OF i(1), of key]
    by (auto simp: ledger_inv_def i(3))
  then show "ledger_inv capacity (ledger_finish key succeeded records, running(key := None))"
    using updated [of "\<lambda>r. r\<lparr>opr_outcome := OutcomeSecret\<rparr>"] by (simp add: ledger_finish_def)
qed

interpretation ledger: invariant_machine "ledger_step c capacity" "\<lambda>_. True" "ledger_inv capacity" for c :: "'a web_primitives_scheme" and capacity
proof (unfold_locales)
  fix s op assume "ledger_inv capacity s"
  then show "ledger_inv capacity (ledger_step c capacity s op)"
    using begin_keeps finish_keeps by (cases s; cases op) auto
qed

definition ledger_after :: "'a web_primitives_scheme \<Rightarrow> nat \<Rightarrow> ledger_op list \<Rightarrow> OperationRecord list \<times> (bytes \<rightharpoonup> bytes)" where
  "ledger_after c capacity = foldl (ledger_step c capacity) ([], \<lambda>_. None)"

lemma ledger_after_inv: "ledger_inv capacity (ledger_after c capacity ops)"
proof -
  have "ledger_inv capacity ([], \<lambda>_. None)" by (simp add: ledger_inv_def)
  then show ?thesis unfolding ledger_after_def by (rule ledger.foldl_keep) (simp add: list_all_iff)
qed

lemma running_found:
  assumes "ledger_inv capacity (records, running)" and "running key = Some d"
  shows "find (\<lambda>r. opr_key r = key) records = Some \<lparr>opr_key = key, opr_request = d, opr_outcome = OutcomePending\<rparr>"
    and "find (\<lambda>r. opr_key r = key) (ledger_finish_response key status body records) =
      Some \<lparr>opr_key = key, opr_request = d, opr_outcome = OutcomeResponse status body\<rparr>"
    and "find (\<lambda>r. opr_key r = key) (ledger_finish key True records) =
      Some \<lparr>opr_key = key, opr_request = d, opr_outcome = OutcomeSecret\<rparr>"
proof -
  have i: "distinct (map opr_key records)" using assms(1) by (auto simp: ledger_inv_def)
  obtain r where r: "r \<in> set records" "opr_key r = key" "opr_request r = d" "opr_outcome r = OutcomePending"
    using assms by (auto simp: ledger_inv_def)
  then have e: "r\<lparr>opr_outcome := x\<rparr> = \<lparr>opr_key = key, opr_request = d, opr_outcome = x\<rparr>" "r = \<lparr>opr_key = key, opr_request = d, opr_outcome = OutcomePending\<rparr>" for x
    by (cases r; simp)+
  have found: "find P xs = Some x \<Longrightarrow> P (g x) \<Longrightarrow> find P (update_first P g xs) = Some (g x)" for P g xs and x :: OperationRecord
    by (induction xs) (auto split: if_splits)
  show f: "find (\<lambda>r. opr_key r = key) records = Some \<lparr>opr_key = key, opr_request = d, opr_outcome = OutcomePending\<rparr>"
    using find_key [where f = opr_key, OF i r(1,2)] e(2) by simp
  from found [OF f, of "\<lambda>r. r\<lparr>opr_outcome := x\<rparr>" for x]
  show "find (\<lambda>r. opr_key r = key) (ledger_finish_response key status body records) =
      Some \<lparr>opr_key = key, opr_request = d, opr_outcome = OutcomeResponse status body\<rparr>"
    "find (\<lambda>r. opr_key r = key) (ledger_finish key True records) = Some \<lparr>opr_key = key, opr_request = d, opr_outcome = OutcomeSecret\<rparr>"
    by (simp_all add: ledger_finish_response_def ledger_finish_def)
qed

text \<open>
  C40 (operations run once): after any history, while an operation is started and not finished, beginning
  it again with the same session, endpoint and identifier is answered by "in flight", or by "conflict" when the request
  differs; right after it finished with a response the same request is answered by that response, after a secret
  by "unavailable secret", and never by a second start. The ledger stays within its capacity, and refuses an operation only
  when that many are running.
\<close>

theorem operation_not_repeated:
  assumes "ledger_after c capacity ops = (records, running)" and "key = operation_key c session endpoint operation_id"
  shows "length records \<le> capacity \<and>
    (fst (ledger_begin c capacity session endpoint operation_id payload records) = OperationUnavailable \<longrightarrow> card (dom running) = capacity) \<and>
    (\<forall>d. running key = Some d \<longrightarrow>
      fst (ledger_begin c capacity session endpoint operation_id payload records) = (if sha256 c payload = d then InFlight else OperationConflict) \<and>
      fst (ledger_begin c capacity session endpoint operation_id payload (ledger_finish_response key status body records)) =
        (if sha256 c payload = d then OperationReplay status body else OperationConflict) \<and>
      fst (ledger_begin c capacity session endpoint operation_id payload (ledger_finish key True records)) =
        (if sha256 c payload = d then SecretUnavailable else OperationConflict))"
proof -
  have inv: "ledger_inv capacity (records, running)" using ledger_after_inv [of capacity c ops] assms(1) by simp
  have "card (dom running) = capacity"
    if "fst (ledger_begin c capacity session endpoint operation_id payload records) = OperationUnavailable"
  proof -
    have all: "length records = capacity" "\<forall>r \<in> set records. opr_outcome r = OutcomePending"
      using that by (auto simp: ledger_begin_def Let_def list_all_iff split: option.splits if_splits OperationOutcome.splits)
    have "dom running = opr_key ` set records" using inv all(2) by (auto simp: ledger_inv_def dom_def)
    then show ?thesis using inv all(1) distinct_card [of "map opr_key records"] by (simp add: ledger_inv_def)
  qed
  moreover have "length records \<le> capacity" using inv by (simp add: ledger_inv_def)
  ultimately show ?thesis using running_found [OF inv] by (auto simp: ledger_begin_def assms(2))
qed

subsection \<open>Percent encoding is read back\<close>

definition percent_encode :: "string \<Rightarrow> string" where
  "percent_encode s = concat (map (\<lambda>ch. CHR ''%'' # hex_byte (byte_of_char ch)) s)"

lemma unat_lt: "unat (b :: u8) < 256"
  using unsigned_less [of b] by simp

lemma percent_bytes_encode:
  "length s \<le> left \<Longrightarrow> percent_bytes as_space left (percent_encode s) = Some (as_bytes s)"
proof (induction s arbitrary: left)
  case (Cons ch s)
  define b where "b = byte_of_char ch"
  have "to_digit 16 (hex_digit (unat b div 16)) = Some (unat b div 16)" "to_digit 16 (hex_digit (unat b mod 16)) = Some (unat b mod 16)"
    using unat_lt [of b] by (auto intro!: to_digit_hex_digit)
  moreover have "word_of_nat (unat b div 16 * 16 + unat b mod 16) = b" by simp
  moreover have "percent_bytes as_space (left - 1) (percent_encode s) = Some (as_bytes s)" using Cons by simp
  ultimately show ?case using Cons.prems by (simp add: percent_encode_def hex_byte_def as_bytes_def b_def [symmetric])
qed (simp add: percent_encode_def as_bytes_def)

lemma percent_decode_encode:
  assumes "utf8_valid s" and "length s \<le> maximum"
  shows "percent_decode (percent_encode s) as_space maximum = Some s"
proof -
  have "length (percent_encode s) = 3 * length s" by (induction s) (auto simp: percent_encode_def hex_byte_def)
  moreover have "map char_of_byte (as_bytes s) = s" by (simp add: as_bytes_def o_def)
  ultimately show ?thesis using assms percent_bytes_encode [OF assms(2)] by (simp add: percent_decode_def)
qed

text \<open>
  Client paths: every valid name of a client can be addressed: the path with its percent encoding is
  read back as that name, whatever bytes the name has.
\<close>

theorem client_path_roundtrip:
  assumes "validate_client_name name = Inr ()" and "utf8_valid name"
  shows "client_name_from_path (''/api/v1/clients/'' @ percent_encode name) = Some name"
proof -
  have n: "name \<noteq> []" "length name \<le> MAX_AUTHENTICATED_CLIENT_NAME_BYTES"
    using assms(1) by (auto simp: validate_client_name_def validate_wire_string_def require_non_empty_def MAX_CLIENT_NAME_BYTES_def
        MAX_AUTHENTICATED_CLIENT_NAME_BYTES_def refuse_def is_blank_def blank_codes.simps split: if_splits)
  have digit: "hex_digit d \<noteq> CHR ''/''" if "d < 16" for d using to_digit_hex_digit [OF that] by (auto simp: to_digit_def)
  have "CHR ''/'' \<notin> set (hex_byte b)" for b
  proof -
    have "unat b div 16 < 16" "unat b mod 16 < 16" using unat_lt [of b] by auto
    from this [THEN digit] show ?thesis by (auto simp: hex_byte_def)
  qed
  then have "CHR ''/'' \<notin> set (percent_encode name)" by (auto simp: percent_encode_def)
  moreover have "percent_encode name \<noteq> []" using n(1) by (cases name) (simp_all add: percent_encode_def)
  ultimately show ?thesis using percent_decode_encode [OF assms(2) n(2)] assms(1)
    by (simp add: client_name_from_path_def strip_prefix_def is_ok_def)
qed

subsection \<open>Samples\<close>

definition demo_parse :: "string \<Rightarrow> Url option" where
  "demo_parse text = (if text = ''http://h'' then Some
     \<lparr>url_scheme = ''http'', url_username = [], url_password = None, url_query = None, url_fragment = None, url_path = ''/'',
      url_host = Some (UrlDomain ''h''), url_port_or_known_default = Some 80\<rparr> else None)"

definition demo_token :: bytes where "demo_token = replicate 32 7"

definition demo_store :: SessionStore where
  "demo_store = \<lparr>ws_hmac_key = [9], ws_idle_timeout = 30, ws_absolute_timeout = 50, ws_capacity = 2\<rparr>"

definition demo_state :: "(bytes, SessionRecord) hashmap \<Rightarrow> WebState" where
  "demo_state sessions = \<lparr>wb_authentication =
     \<lparr>at_credentials = CredentialDigests_new toy_web ''admin'' ''secret'', at_sessions = demo_store,
      at_table = \<lparr>wt_sessions = sessions, wt_next_sequence = 0\<rparr>, at_login_limiter = brief_limiter\<rparr>,
     wb_expected_origin = \<lparr>wo_scheme = ''http'', wo_host = ''h'', wo_ipv6 = False, wo_port = 80\<rparr>, wb_cookie_secure = False\<rparr>"

definition demo_sessions :: "(bytes, SessionRecord) hashmap" where
  "demo_sessions = [(derive_key toy_web demo_store demo_token, \<lparr>sr_created = 5, sr_last_activity = 6, sr_sequence = 0\<rparr>)]"

definition demo_form :: LoginForm where "demo_form = \<lparr>lf_username = ''admin'', lf_password = ''secret''\<rparr>"

definition demo_headers :: "string \<Rightarrow> HeaderMap" where
  "demo_headers media = (\<lambda>_. [])(''host'' := [Some ''h''], ''origin'' := [Some ''http://h''], ''content-type'' := [Some media])"

definition demo_write :: "string \<Rightarrow> string \<Rightarrow> HeaderMap" where
  "demo_write cookie csrf = (demo_headers ''application/json'')(''cookie'' := [Some cookie], CSRF_HEADER_NAME := [Some csrf])"

lemma demo_origin:
  assumes "headers ''host'' = [Some ''h'']" and "headers ''origin'' = [Some ''http://h'']"
  shows "same_origin demo_parse headers (wb_expected_origin (demo_state sessions))"
proof -
  have "CHR ''h'' \<noteq> char_of (92 :: nat)" by (simp add: char_of_def)
  then have p: "WebOrigin_parse demo_parse ''http://h'' = Inr (wb_expected_origin (demo_state sessions))"
    by (simp add: WebOrigin_parse_def demo_parse_def demo_state_def is_ascii_whitespace_def validate_canonical_dns_name_def
        label_ok_def ensure_authority_limit_def authority_def default_port_def MAX_WEB_AUTHORITY_BYTES_def ends_with_def is_ascii_alphanumeric_def)
  then have "matches_authority demo_parse (wb_expected_origin (demo_state sessions)) ''h''"
    by (simp add: matches_authority_def MAX_WEB_AUTHORITY_BYTES_def is_ascii_whitespace_def) (simp add: demo_state_def)
  with assms p show ?thesis by (simp add: same_origin_def single_header_def MAX_WEB_AUTHORITY_BYTES_def MAX_ORIGIN_HEADER_BYTES_def)
qed

lemma demo_media:
  "headers ''content-type'' = [Some ''application/x-www-form-urlencoded''] \<Longrightarrow> is_form_request headers"
  "headers ''content-type'' = [Some ''application/json''] \<Longrightarrow> is_json_request headers"
proof -
  have "trim ''application/x-www-form-urlencoded'' = ''application/x-www-form-urlencoded''" "trim ''application/json'' = ''application/json''"
    by (rule trim_printable, simp add: printable_def)+
  then show "headers ''content-type'' = [Some ''application/x-www-form-urlencoded''] \<Longrightarrow> is_form_request headers"
    "headers ''content-type'' = [Some ''application/json''] \<Longrightarrow> is_json_request headers"
    by (simp_all add: is_form_request_def is_json_request_def has_media_type_def eq_ignore_ascii_case_def)
qed

lemma demo_values [simp]:
  "demo_headers media ''host'' = [Some ''h'']" "demo_headers media ''origin'' = [Some ''http://h'']"
  "demo_headers media ''content-type'' = [Some media]" "demo_headers media ''content-length'' = []"
  "demo_write cookie csrf ''host'' = [Some ''h'']" "demo_write cookie csrf ''origin'' = [Some ''http://h'']"
  "demo_write cookie csrf ''content-type'' = [Some ''application/json'']"
  "demo_write cookie csrf ''cookie'' = [Some cookie]" "demo_write cookie csrf CSRF_HEADER_NAME = [Some csrf]"
  by (simp_all add: demo_write_def demo_headers_def CSRF_HEADER_NAME_def)

lemma demo_parts:
  "hm_ok demo_sessions" "length demo_token = 32" "wt_sessions (at_table (wb_authentication (demo_state sessions))) = sessions"
  "at_sessions (wb_authentication (demo_state sessions)) = demo_store"
  by (simp_all add: demo_sessions_def hm_ok_def demo_token_def demo_state_def)

theorem guarded_write_exact_witness:
  "fst (protect_management_writes toy_web demo_parse (20, 21) ''POST'' ''/api/v1/clients''
     (demo_write (session_cookie_text (url_encode toy_web demo_token)) (url_encode toy_web (csrf_of toy_web demo_store demo_token)))
     (demo_state demo_sessions)) = None"
proof -
  let ?sent = "demo_write (session_cookie_text (url_encode toy_web demo_token)) (url_encode toy_web (csrf_of toy_web demo_store demo_token))"
  have "session_alive (wb_authentication (demo_state demo_sessions)) (derive_key toy_web demo_store demo_token) 20 21"
    by (simp add: session_alive_def demo_state_def demo_sessions_def demo_store_def record_live_def)
  moreover have "request_token toy_web ?sent = Some demo_token" by (rule presented_token [OF toy_url demo_parts(2)]) simp
  moreover have "csrf_supplied toy_web ?sent (csrf_of toy_web demo_store demo_token)" by (rule presented_csrf [OF toy_url]) simp
  ultimately have "write_allowed toy_web demo_parse (20, 21) ?sent (demo_state demo_sessions)"
    by (simp add: write_allowed_def demo_origin demo_media demo_parts)
  moreover have "guarded_write ''POST'' ''/api/v1/clients''" by (simp add: guarded_write_def)
  ultimately show ?thesis using guarded_write_exact [OF toy_digests, of "demo_state demo_sessions"] by (simp add: demo_parts)
qed

theorem login_grants_access_witness:
  "\<exists>cookie csrf. fst (protect_management_writes toy_web demo_parse (20, 21) ''POST'' ''/api/v1/clients''
     (demo_write (hd (split_on (CHR '';'') cookie)) csrf)
     (snd (login toy_web demo_parse (1, 2, 3) [Some demo_token] (IpV4 [1]) (demo_headers ''application/x-www-form-urlencoded'')
        (BodyRead demo_form) (demo_state [])))) = None"
proof -
  let ?answer = "login toy_web demo_parse (1, 2, 3) [Some demo_token] (IpV4 [1]) (demo_headers ''application/x-www-form-urlencoded'')
      (BodyRead demo_form) (demo_state [])"
  have m: "credentials_match toy_web (wb_authentication (demo_state [])) (lf_username demo_form) (lf_password demo_form)"
    "length (lf_username demo_form) \<le> MAX_USERNAME_BYTES" "length (lf_password demo_form) \<le> MAX_PASSWORD_BYTES"
    by (simp_all add: credentials_match_def credentials_matches_def CredentialDigests_new_def demo_state_def demo_form_def
        MAX_USERNAME_BYTES_def MAX_PASSWORD_BYTES_def)
  have a: "fst (admit_login (IpV4 [1]) 1 (wb_authentication (demo_state [])))"
    by (simp add: admit_login_def demo_state_def brief_limiter_def limiter_admit_def prune_attempts_def)
  have "rp_status (fst ?answer) = 200"
    by (rule login_completes [OF toy_url _ demo_origin demo_media(1) _ a m demo_parts(2)])
      (simp_all add: demo_parts hm_ok_def demo_store_def content_length_above_def)
  from login_grants_access [OF toy_url toy_digests _ _ surjective_pairing this] obtain cookie csrf where all:
    "\<forall>t4 t5 m path sent. sent ''cookie'' = [Some (hd (split_on (CHR '';'') cookie))] \<and>
       sent CSRF_HEADER_NAME = [Some csrf] \<and>
       same_origin demo_parse sent (wb_expected_origin (demo_state [])) \<and> is_json_request sent \<and> guarded_write m path \<and>
       t4 - 3 < ws_idle_timeout demo_store \<and> t5 - t4 < ws_idle_timeout demo_store \<and>
       t4 - 2 < ws_absolute_timeout demo_store \<and> t5 - 2 < ws_absolute_timeout demo_store \<longrightarrow>
       fst (protect_management_writes toy_web demo_parse (t4, t5) m path sent (snd ?answer)) = None"
    by (auto simp: demo_parts hm_ok_def)
  have "fst (protect_management_writes toy_web demo_parse (20, 21) ''POST'' ''/api/v1/clients''
      (demo_write (hd (split_on (CHR '';'') cookie)) csrf) (snd ?answer)) = None"
    by (rule all [THEN spec, THEN spec, THEN spec, THEN spec, THEN spec, THEN mp]) (simp add: demo_origin demo_media guarded_write_def demo_store_def)
  then show ?thesis by blast
qed

theorem logout_ends_access_witness:
  "\<exists>state'. fst (protect_management_writes toy_web demo_parse (11, 12) ''POST'' ''/api/v1/clients''
     (demo_write (session_cookie_text (url_encode toy_web demo_token)) []) state') = Some authentication_required \<and>
   state' = snd (logout toy_web demo_parse 10 ((demo_headers ''application/x-www-form-urlencoded'')
     (''cookie'' := [Some (session_cookie_text (url_encode toy_web demo_token))])) (BodyRead []) (demo_state demo_sessions))"
proof -
  let ?h = "(demo_headers ''application/x-www-form-urlencoded'')(''cookie'' := [Some (session_cookie_text (url_encode toy_web demo_token))])"
  have t: "request_token toy_web ?h = Some demo_token" by (rule presented_token [OF toy_url demo_parts(2)]) simp
  have s: "request_token toy_web (demo_write (session_cookie_text (url_encode toy_web demo_token)) []) = Some demo_token"
    by (rule presented_token [OF toy_url demo_parts(2)]) simp
  have "fst (revoke toy_web demo_store 10 demo_token (at_table (wb_authentication (demo_state demo_sessions))))"
    by (simp add: revoke_def demo_state_def demo_sessions_def remove_expired_def record_live_def demo_store_def Let_def)
  then have "rp_status (fst (logout toy_web demo_parse 10 ?h (BodyRead []) (demo_state demo_sessions))) = 200"
    using t by (simp add: logout_def demo_origin demo_media content_length_above_def revoke_cookie_def request_token_def demo_parts split_beta Let_def
        plain_response_def)
  from logout_ends_access [OF _ surjective_pairing this, of "demo_write (session_cookie_text (url_encode toy_web demo_token)) []" "''POST''" "''/api/v1/clients''"]
  show ?thesis using s t by (simp add: demo_parts guarded_write_def)
qed

definition demo_ops :: "ledger_op list" where
  "demo_ops = [LedgerBegin ''s'' ''e'' ''o'' [1]]"

theorem operation_not_repeated_witness:
  "fst (ledger_begin toy_web 1 ''s'' ''e'' ''o'' [1] (fst (ledger_after toy_web 1 demo_ops))) = InFlight \<and>
   fst (ledger_begin toy_web 1 ''s'' ''e'' ''o'' [1] (ledger_finish_response (operation_key toy_web ''s'' ''e'' ''o'') 201 [5]
     (fst (ledger_after toy_web 1 demo_ops)))) = OperationReplay 201 [5]"
proof -
  have "snd (ledger_after toy_web 1 demo_ops) (operation_key toy_web ''s'' ''e'' ''o'') = Some (sha256 toy_web [1])"
    by (simp add: ledger_after_def demo_ops_def ledger_begin_def Let_def)
  with operation_not_repeated [OF surjective_pairing refl, of toy_web 1 demo_ops "''s''" "''e''" "''o''" "[1]" 201 "[5]"] show ?thesis by auto
qed

theorem client_path_roundtrip_witness: "client_name_from_path ''/api/v1/clients/%61%2f%62'' = Some ''a/b''"
proof -
  have "validate_client_name ''a/b'' = Inr ()"
    by (simp add: validate_client_name_def validate_wire_string_def require_non_empty_def is_blank_def blank_codes.simps MAX_CLIENT_NAME_BYTES_def)
  moreover have "percent_encode ''a/b'' = ''%61%2f%62''" by (simp add: percent_encode_def hex_byte_def hex_digit_def byte_of_char_def)
  ultimately show ?thesis using client_path_roundtrip [of "''a/b''"] by simp
qed

end
