(* ===== verification/Spec2Isabelle.thy ===== *)
theory Spec2Isabelle
  imports Frame_Codec Handshake Rendezvous_Wire Nat_Mapping Path_Race Channel_Binding Backoff
    Auth_Limiter Authenticator Peer_Frames Udp_Flows Coordinator Observation_Service
    Web_Handlers
begin

text \<open>
  A verification library for rustgo, a tunnelling system in Rust: a server (\<^verbatim>\<open>rustgos\<close>) and clients
  (\<^verbatim>\<open>rustgoc\<close>) speak a framed control protocol over TLS; tunnels are carried by data channels that
  are bound to an authenticated session by one-time tokens; two clients may also reach each other
  directly, for which the server relays rendezvous messages, both ends gather NAT candidates and
  race several transport paths, with a relay path as fallback. The library models the crates that
  hold this logic, without sockets, files and cryptographic primitives.

  \<^bold>\<open>Shared theories.\<close> \<open>Prelude\<close> has the word types, results as sums (\<open>Inl\<close> the error), checked and
  saturating arithmetic and big-endian numbers. \<open>Serde\<close> has serde's data model as a datatype
  \<open>sval\<close> with its shapes \<open>schema\<close>, the third-party byte format postcard as a record of two functions
  with the hypothesis \<open>postcard_faithful\<close> (decoding inverts encoding with any rest behind it, and
  yields values of the asked shape only), and the locale \<open>wire_type\<close> of a type with its serializer and
  deserializer; \<open>Serde_Instance\<close> gives a concrete format that satisfies the hypothesis and serves the
  witnesses. \<open>State_Machine\<close> has runs of step functions and the locales
  \<open>guarded_machine\<close>, \<open>terminal_machine\<close>, \<open>monotone_machine\<close>, \<open>bounded_log\<close>, \<open>lockstep\<close>,
  \<open>invariant_machine\<close> and \<open>answering_refinement\<close>; \<open>Single_Use\<close> has the
  locale of token stores whose tokens are spent at most as often as they were minted; \<open>Prefix_Code\<close> the
  locale of encodings no one of which is the beginning of another; \<open>Hash_Map\<close> hash maps as association
  lists with distinct keys; \<open>Sweep_Ring\<close> the doubly linked ring over a map. \<open>Rust_Text\<close> and \<open>Net_Text\<close> have the
  parts of \<^verbatim>\<open>core::str\<close>, integer parsing and \<^verbatim>\<open>std::net\<close> address texts that the sources use, with the
  proof that every printed IPv6 address is parsed back. Every locale is interpreted on the definitions of the
  component that provides it.

  \<^bold>\<open>Components.\<close>
  \<^item> \<open>Protocol_Types\<close> (\<^verbatim>\<open>rustgo-protocol/src/message.rs\<close>): limits, bounded containers, message
    identifiers, error codes and the structs of all 37 messages. Each struct \<open>T\<close> is a record with its
    shape \<open>sch_T\<close>, its serializer \<open>ser_T\<close>, its deserializer \<open>de_T\<close> and the predicate \<open>wf_T\<close> that holds of the
    values its deserializer can produce: for most the values the Rust type can have, for \<open>OpenUdpChannel\<close>, whose public
    fields can hold limits that its \<open>Deserialize\<close> refuses, those that pass that check; each is an instance of
    \<open>wire_type\<close>.
  \<^item> \<open>Protocol_Version\<close> (\<^verbatim>\<open>version.rs\<close>): version negotiation and feature predicates.
  \<^item> \<open>Frame_Codec\<close> (\<^verbatim>\<open>frame.rs\<close>): the 16-byte header, \<open>encode\<close>, the streaming \<open>decode\<close> with its buffer,
    \<open>decode_exact\<close>, the payload dispatch and the fixed UDP layout. Round trip, equivalence of the two
    decoders, independence of how the stream is cut, bounds of accepted frames, no panic, and
    that the UDP layout is a bijection.
  \<^item> \<open>Handshake\<close> (\<^verbatim>\<open>state.rs\<close>): \<open>transition\<close> and \<open>transition_control\<close>, with the exact set of runs that
    lead to the active state, the admission of data channels and the gate for versioned messages.
  \<^item> \<open>Rendezvous_State\<close> (\<^verbatim>\<open>rustgo-rendezvous/src/state.rs\<close>): phases, step numbers and candidate
    generations of a session: replay protection, phase history, generation count.
  \<^item> \<open>Rendezvous_Wire\<close> (\<^verbatim>\<open>rustgo-rendezvous/src/message.rs\<close>): envelopes, candidate sets, relay frames
    and observation packets: round trips, soundness of everything accepted, the exact meaning of
    the candidate validation, and that trailing bytes are not noticed.
  \<^item> \<open>Nat_Candidates\<close>, \<open>Nat_Mapping\<close> (\<^verbatim>\<open>rustgo-nat/src\<close>): candidate gathering, mapping evidence, port
    prediction in closed form, and the attempt budget of native TCP punching as a step relation.
  \<^item> \<open>Path_Manager\<close> (\<^verbatim>\<open>rustgo-path/src/{lib,state,health}.rs\<close>): the record behind the mutex with one
    definition per critical section, and the handlers composed of them; the invariant over all
    interleavings of the critical sections, finality of closing, ownership of cancellation tokens, and
    the outcome of each handler.
  \<^item> \<open>Path_Race\<close> (\<^verbatim>\<open>race.rs\<close>): the race loop as a function of the schedule, that is of the list of the
    times and events the \<open>select!\<close> of each iteration sees; soundness on every schedule (the winner's own task
    returned a path of the kind it was started with) and the grace period of the relay attempts.
  \<^item> \<open>Channel_Binding\<close> (\<^verbatim>\<open>rustgo-transport/src/tls.rs\<close>, first part): the store of one-time tokens.
  \<^item> \<open>Backoff\<close> (\<^verbatim>\<open>rustgo-transport/src/backoff.rs\<close>): the reconnect delays in nanoseconds, with the
    saturation of \<open>Duration\<close>.

  \<^item> \<open>Device_Identity\<close> (\<^verbatim>\<open>rustgo-crypto/src/{identity,transcript,keyfile}.rs\<close>): key and fingerprint texts, the signed
    login transcript and the content of key files. Signatures, hashes, key agreement, base64 and ciphers are
    the fields of the record \<open>primitives\<close>; \<open>Primitives_Instance\<close> is a concrete instance for the witnesses.
  \<^item> \<open>Peer_Envelope\<close>, \<open>Peer_Frames\<close> (\<^verbatim>\<open>rustgo-crypto/src/peer.rs\<close>): the byte encoding under the signature of an
    envelope, a prefix code, hence the authenticity of envelopes relative to what the device signed; the session key schedule, sealing and
    opening of frames, and the replay window as a refinement of a receiver with unlimited memory.
  \<^item> \<open>Authenticator\<close>, \<open>Auth_Limiter\<close> (\<^verbatim>\<open>rustgos/src/auth.rs\<close>): both halves of a login with its exact
    condition of success, freshness of transcripts; failure histories with eviction, reservations
    and shards, with exact counters and a lockout nobody else can lift.
  \<^item> \<open>Observability\<close> (\<^verbatim>\<open>rustgo-observability/src/{model,store}.rs\<close>): the bounded event queue and the projection.
  \<^item> \<open>Session_Runtime\<close>, \<open>Client_Registry\<close> (\<^verbatim>\<open>rustgos/src/registry.rs\<close>): waiting connections and the redemption of
    their tokens; claims, releases, renames, terminations and tunnel registration. Sessions are shared
    between the registry and their guards, so they live in a heap of addresses.
  \<^item> \<open>Udp_Flows\<close> (\<^verbatim>\<open>rustgos/src/udp.rs\<close>): the flow table, a refinement of a bounded queue.
  \<^item> \<open>Coordinator\<close> (\<^verbatim>\<open>rustgos/src/rendezvous.rs\<close>): rendezvous sessions on the server with their counters, punch
    grants, expiry and relay admission.
  \<^item> \<open>Observation_Service\<close> (\<^verbatim>\<open>rustgos/src/observation.rs\<close>): probe tokens and two rate tables, one of them exact.
  \<^item> \<open>Enrollment_Keys\<close> (\<^verbatim>\<open>rustgo-protocol/src/enrollment.rs\<close>): canonical addresses, enrollment keys and
    registration intents, with the exact range of keys that can be read back. URL-safe base64 and HMAC are in the
    record \<open>web_primitives\<close> of \<open>Web_Primitives\<close>, which extends \<open>primitives\<close>.
  \<^item> \<open>Config\<close> (\<^verbatim>\<open>rustgo-config/src\<close>): configuration records, every validation rule, managed configurations
    and environment variables; what the loops over hash sets accept is stated as one rule.
  \<^item> \<open>Web_Auth\<close>, \<open>Web_Handlers\<close> (\<^verbatim>\<open>rustgos/src/web\<close>): sessions, CSRF tokens and login limits of the dashboard; login,
    logout, the guard of the management writes, security headers, the ledger of operations and the
    query parser. Request headers enter as the texts the \<^verbatim>\<open>http\<close> crate yields for a name. The guard is characterised exactly, a login opens it and a logout shuts it.

  \<^bold>\<open>How they meet.\<close> A login (\<open>Authenticator\<close>, limited by \<open>Auth_Limiter\<close>) yields a session that \<open>Client_Registry\<close>
  claims; its runtime (\<open>Session_Runtime\<close>) issues tokens from \<open>Channel_Binding\<close>, and a data channel is admitted by
  composing the three (\<open>admitted_channels_owned\<close>). The coordinator forwards the envelopes of
  \<open>Rendezvous_Wire\<close> under the phases of \<open>Rendezvous_State\<close>, and asks the registry for the sessions it
  serves. The dashboard compares origins by the validated ones of \<open>Config\<close>.

  \<^bold>\<open>Conventions.\<close> Machine integers keep their width; \<open>usize\<close> is \<open>nat\<close> on lengths, with the conversion to
  \<open>u32\<close> checked as in the code. Instants and durations are natural numbers of nanoseconds; clocks,
  random draws, jitter and the results of network attempts are arguments. A mutex-protected section is one
  step, and claims about concurrency quantify over all sequences of steps. Branches that the code
  marks as unreachable, and panics, are error values; a poisoned mutex is left out. Third-party code
  (postcard, the primitives, \<^verbatim>\<open>Url::parse\<close>) is an argument with its documented behaviour as a named
  hypothesis, and every property with such a hypothesis has a witness on a concrete instance. What
  cryptography promises only of feasible computations is a hypothesis on the values of the run at hand: \<open>no_forgery\<close> on the
  signatures presented to a key, \<open>hmac_distinguishes\<close> on the tokens of a dashboard's run; both agree with the
  completeness of the primitives. The bounded queue of outgoing messages, tokio's, is a list with a capacity and a count of
  reserved places. No
  definition uses fuel: bounded retry loops count down as in the code, the race loop recurses on its
  schedule, and a recursion that is not structural has a termination proof.

  \<^bold>\<open>Not modelled.\<close> The byte format of postcard, cryptographic primitives, sockets, TLS and QUIC, the TOML
  parser, files and SQL are outside: they are third-party code or input and output. So are the loops that only move bytes between sockets and the
  modelled tables (\<^verbatim>\<open>rustgos/src/{udp,tcp,control,app}.rs\<close>), the stores whose logic is SQL text
  (\<^verbatim>\<open>rustgo-observability/src/sqlite.rs\<close>, \<^verbatim>\<open>rustgos/src/enrollment\<close>, \<^verbatim>\<open>rustgos/src/managed.rs\<close>) with the handlers of
  \<^verbatim>\<open>web/api.rs\<close> that shape their answers, the client's task orchestration (\<^verbatim>\<open>rustgoc/src\<close>) and the graphical client.
\<close>

end
